(* ===== verification/Prelude.thy ===== *)
theory Prelude
  imports Complex_Main "HOL-Library.AList" "HOL-Library.List_Lexorder" "HOL-Library.Char_ord"
begin

text \<open>
  Shared vocabulary of the development: results that may be an error (the exceptions of the
  Python code become the left summand), Python dictionaries as association lists in
  insertion order, the interface every dictionary-like store offers (locale
  \<open>py_map\<close>), the contract of an operation that runs in a transaction (locale
  \<open>transactional\<close>), and generic list lemmas used by several components.
\<close>

named_theorems dict_simps \<open>equations of dictionary lookup after an update\<close>
named_theorems res_simps \<open>equations of the result monad\<close>

section \<open>Results: a value or the exception that was raised\<close>

type_synonym ('e, 'a) res = "'e + 'a"

abbreviation Err :: "'e \<Rightarrow> ('e, 'a) res" where
  "Err \<equiv> Inl"

abbreviation Ok :: "'a \<Rightarrow> ('e, 'a) res" where
  "Ok \<equiv> Inr"

definition rbind :: "('e, 'a) res \<Rightarrow> ('a \<Rightarrow> ('e, 'b) res) \<Rightarrow> ('e, 'b) res" where
  "rbind r f = (case r of Inl e \<Rightarrow> Inl e | Inr a \<Rightarrow> f a)"

definition raise_if :: "bool \<Rightarrow> 'e \<Rightarrow> ('e, unit) res" where
  "raise_if b e = (if b then Inl e else Inr ())"

text \<open>A loop that appends to a list and leaves at the first exception.\<close>

fun rmap :: "('a \<Rightarrow> ('e, 'b) res) \<Rightarrow> 'a list \<Rightarrow> ('e, 'b list) res" where
  "rmap f [] = Inr []"
| "rmap f (x # xs) = rbind (f x) (\<lambda>y. rbind (rmap f xs) (\<lambda>ys. Inr (y # ys)))"

text \<open>A loop that threads a state and leaves at the first exception.\<close>

fun rfold :: "('a \<Rightarrow> 's \<Rightarrow> ('e, 's) res) \<Rightarrow> 'a list \<Rightarrow> 's \<Rightarrow> ('e, 's) res" where
  "rfold f [] s = Inr s"
| "rfold f (x # xs) s = rbind (f x s) (rfold f xs)"

lemma rbind_Inl [simp, res_simps]: "rbind (Inl e) f = Inl e"
  by (simp add: rbind_def)

lemma rbind_Inr [simp, res_simps]: "rbind (Inr a) f = f a"
  by (simp add: rbind_def)

lemma raise_if_True [simp, res_simps]: "raise_if True e = Inl e"
  by (simp add: raise_if_def)

lemma raise_if_False [simp, res_simps]: "raise_if False e = Inr ()"
  by (simp add: raise_if_def)

lemma rbind_eq_Inr: "rbind r f = Inr b \<longleftrightarrow> (\<exists>a. r = Inr a \<and> f a = Inr b)"
  by (cases r) auto

lemma rbind_eq_Inl: "rbind r f = Inl e \<longleftrightarrow> r = Inl e \<or> (\<exists>a. r = Inr a \<and> f a = Inl e)"
  by (cases r) auto

lemma rbindE [elim!]:
  assumes "rbind r f = Inr b"
  obtains a where "r = Inr a" and "f a = Inr b"
  using assms by (auto simp: rbind_eq_Inr)

lemma raise_if_eq_Inr [simp]: "raise_if b e = Inr u \<longleftrightarrow> \<not> b"
  by (simp add: raise_if_def)

lemma raise_if_eq_Inl [simp]: "raise_if b e = Inl e' \<longleftrightarrow> b \<and> e' = e"
  by (auto simp: raise_if_def)

lemma rbind_assoc: "rbind (rbind r f) g = rbind r (\<lambda>a. rbind (f a) g)"
  by (cases r) simp_all

lemma rmap_Inr_length: "rmap f xs = Inr ys \<Longrightarrow> length ys = length xs"
  by (induction xs arbitrary: ys) auto

lemma rmap_Inr_all2: "rmap f xs = Inr ys \<Longrightarrow> list_all2 (\<lambda>x y. f x = Inr y) xs ys"
  by (induction xs arbitrary: ys) auto

lemma rmap_Inr_iff: "rmap f xs = Inr ys \<longleftrightarrow> list_all2 (\<lambda>x y. f x = Inr y) xs ys"
proof
  assume "list_all2 (\<lambda>x y. f x = Inr y) xs ys"
  then show "rmap f xs = Inr ys" by (induction rule: list_all2_induct) simp_all
qed (rule rmap_Inr_all2)

lemma rmap_Inr_set:
  assumes "rmap f xs = Inr ys" and "y \<in> set ys"
  obtains x where "x \<in> set xs" and "f x = Inr y"
  using assms by (fastforce dest!: rmap_Inr_all2 simp: list_all2_conv_all_nth in_set_conv_nth)

lemma rmap_cong_Inr: "(\<And>x. x \<in> set xs \<Longrightarrow> f x = Inr (g x)) \<Longrightarrow> rmap f xs = Inr (map g xs)"
  by (induction xs) simp_all

lemma rfold_append: "rfold f (xs @ ys) s = rbind (rfold f xs s) (rfold f ys)"
  by (induction xs arbitrary: s) (simp_all add: rbind_def split: sum.splits)

lemma rfold_invariant:
  assumes "rfold f xs s = Inr t" and "I s"
    and "\<And>x s t. x \<in> set xs \<Longrightarrow> I s \<Longrightarrow> f x s = Inr t \<Longrightarrow> I t"
  shows "I t"
  using assms by (induction xs arbitrary: s) auto

section \<open>Python dictionaries as association lists\<close>

text \<open>
  A dictionary keeps its keys in insertion order: assigning to an existing key keeps its
  place, a new key goes to the end, \<open>pop\<close> removes it. \<open>AList.update\<close> and
  \<open>AList.delete\<close> of the library do exactly this.
\<close>

type_synonym 'v dict = "(string \<times> 'v) list"

abbreviation dict_get :: "'v dict \<Rightarrow> string \<Rightarrow> 'v option" where
  "dict_get d k \<equiv> map_of d k"

definition dict_set :: "string \<Rightarrow> 'v \<Rightarrow> 'v dict \<Rightarrow> 'v dict" where
  "dict_set k v d = AList.update k v d"

definition dict_pop :: "string \<Rightarrow> 'v dict \<Rightarrow> 'v dict" where
  "dict_pop k d = AList.delete k d"

definition dict_has :: "'v dict \<Rightarrow> string \<Rightarrow> bool" where
  "dict_has d k \<longleftrightarrow> k \<in> fst ` set d"

abbreviation dict_keys :: "'v dict \<Rightarrow> string list" where
  "dict_keys d \<equiv> map fst d"

text \<open>A dictionary has every key once.\<close>

definition wf_dict :: "'v dict \<Rightarrow> bool" where
  "wf_dict d \<longleftrightarrow> distinct (map fst d)"

lemma dict_has_iff: "dict_has d k \<longleftrightarrow> map_of d k \<noteq> None"
  by (simp add: dict_has_def map_of_eq_None_iff)

lemma map_of_dict_set [dict_simps, simp]:
  "map_of (dict_set k v d) k' = (if k' = k then Some v else map_of d k')"
  by (simp add: dict_set_def update_conv')

lemma map_of_dict_pop [dict_simps, simp]:
  "map_of (dict_pop k d) k' = (if k' = k then None else map_of d k')"
  by (simp add: dict_pop_def delete_conv')

lemma wf_dict_set [simp, intro]: "wf_dict d \<Longrightarrow> wf_dict (dict_set k v d)"
  by (simp add: wf_dict_def dict_set_def distinct_update)

lemma wf_dict_pop [simp, intro]: "wf_dict d \<Longrightarrow> wf_dict (dict_pop k d)"
  by (simp add: wf_dict_def dict_pop_def distinct_delete)

lemma wf_dict_filter [simp, intro]: "wf_dict d \<Longrightarrow> wf_dict (filter P d)"
  by (simp add: wf_dict_def distinct_map_filter)

lemma wf_dict_Nil [simp]: "wf_dict []"
  by (simp add: wf_dict_def)

lemma fst_dict_set: "fst ` set (dict_set k v d) = insert k (fst ` set d)"
  by (simp add: dict_set_def dom_update)

lemma fst_dict_pop: "fst ` set (dict_pop k d) = fst ` set d - {k}"
  by (auto simp: dict_pop_def AList.delete_eq)

lemma map_of_filter_key:
  "map_of (filter (\<lambda>(k, v). P k) d) k' = (if P k' then map_of d k' else None)"
  by (induction d) auto

lemma dict_set_code [code]:
  "dict_set k v [] = [(k, v)]"
  "dict_set k v (p # ps) = (if fst p = k then (k, v) # ps else p # dict_set k v ps)"
  by (simp_all add: dict_set_def)

lemma dict_pop_code [code]: "dict_pop k d = filter (\<lambda>p. fst p \<noteq> k) d"
  by (induction d) (auto simp: dict_pop_def)

lemma dict_set_new: "k \<notin> fst ` set d \<Longrightarrow> dict_set k v d = d @ [(k, v)]"
  by (induction d) (auto simp: dict_set_def)

lemma set_dict_set: "set (dict_set k v d) \<subseteq> insert (k, v) (set d)"
  by (induction d) (auto simp: dict_set_def)

subsection \<open>The interface of a keyed store\<close>

text \<open>
  What the code relies on when it treats a store as a dictionary: a lookup after an
  insertion or a removal, and that both keep the representation well formed. The client
  lemmas are proved here once and used through the interpretations.
\<close>

locale py_map =
  fixes lookup :: "'m \<Rightarrow> 'k \<Rightarrow> 'v option"
    and insert :: "'k \<Rightarrow> 'v \<Rightarrow> 'm \<Rightarrow> 'm"
    and remove :: "'k \<Rightarrow> 'm \<Rightarrow> 'm"
    and invar :: "'m \<Rightarrow> bool"
  assumes lookup_insert: "invar m \<Longrightarrow> lookup (insert k v m) k' = (if k' = k then Some v else lookup m k')"
    and lookup_remove: "invar m \<Longrightarrow> lookup (remove k m) k' = (if k' = k then None else lookup m k')"
    and invar_insert: "invar m \<Longrightarrow> invar (insert k v m)"
    and invar_remove: "invar m \<Longrightarrow> invar (remove k m)"
begin

lemma insert_same: "invar m \<Longrightarrow> lookup (insert k v (insert k v' m)) = lookup (insert k v m)"
  by (auto simp: fun_eq_iff lookup_insert invar_insert)

lemma insert_commute:
  "invar m \<Longrightarrow> k \<noteq> k' \<Longrightarrow> lookup (insert k v (insert k' v' m)) = lookup (insert k' v' (insert k v m))"
  by (auto simp: fun_eq_iff lookup_insert invar_insert)

lemma remove_insert: "invar m \<Longrightarrow> lookup (remove k (insert k v m)) = lookup (remove k m)"
  by (auto simp: fun_eq_iff lookup_insert lookup_remove invar_insert)

lemma insert_fold_lookup:
  "invar m \<Longrightarrow> k \<notin> fst ` set kvs \<Longrightarrow> lookup (fold (\<lambda>(k, v). insert k v) kvs m) k = lookup m k"
  by (induction kvs arbitrary: m) (auto simp: lookup_insert invar_insert)

lemma invar_insert_fold: "invar m \<Longrightarrow> invar (fold (\<lambda>(k, v). insert k v) kvs m)"
  by (induction kvs arbitrary: m) (auto simp: invar_insert)

end

interpretation alist_map: py_map map_of dict_set dict_pop wf_dict
  by unfold_locales auto

section \<open>Operations that run in a transaction\<close>

text \<open>
  A command either commits a new store and a result, or raises and the store is rolled
  back. If every committed command keeps an invariant then every sequence of commands
  does, whatever fails in between. The guard says what is assumed of a command where it is
  issued, such as that a generated identifier is new.
\<close>

locale transactional =
  fixes step :: "'cmd \<Rightarrow> 'db \<Rightarrow> ('e, 'db \<times> 'r) res"
    and inv :: "'db \<Rightarrow> bool"
    and guard :: "'cmd \<Rightarrow> 'db \<Rightarrow> bool"
  assumes step_inv: "inv db \<Longrightarrow> guard c db \<Longrightarrow> step c db = Inr (db', r) \<Longrightarrow> inv db'"
begin

definition commit :: "'cmd \<Rightarrow> 'db \<Rightarrow> 'db" where
  "commit c db = (case step c db of Inl e \<Rightarrow> db | Inr (db', r) \<Rightarrow> db')"

fun guarded :: "'cmd list \<Rightarrow> 'db \<Rightarrow> bool" where
  "guarded [] db = True"
| "guarded (c # cs) db \<longleftrightarrow> guard c db \<and> guarded cs (commit c db)"

lemma commit_inv: "inv db \<Longrightarrow> guard c db \<Longrightarrow> inv (commit c db)"
  by (auto simp: commit_def dest: step_inv split: sum.splits)

lemma commit_rollback: "step c db = Inl e \<Longrightarrow> commit c db = db"
  by (simp add: commit_def)

lemma run_inv: "inv db \<Longrightarrow> guarded cs db \<Longrightarrow> inv (fold commit cs db)"
  by (induction cs arbitrary: db) (auto intro: commit_inv)

lemma guarded_trivial: "(\<And>c db. guard c db) \<Longrightarrow> guarded cs db"
  by (induction cs arbitrary: db) auto

end

section \<open>List lemmas\<close>

lemma distinct_map_filter_fst: "distinct (map f xs) \<Longrightarrow> distinct (map f (filter P xs))"
  by (rule distinct_map_filter)

lemma take_last: "rev (take n (rev xs)) = drop (length xs - n) xs"
  by (simp add: rev_take)

text \<open>\<open>xs[-n:]\<close>: the last \<open>n\<close> elements.\<close>

definition last_n :: "nat \<Rightarrow> 'a list \<Rightarrow> 'a list" where
  "last_n n xs = drop (length xs - n) xs"

lemma length_last_n [simp]: "length (last_n n xs) = min n (length xs)"
  by (simp add: last_n_def)

lemma last_n_all: "length xs \<le> n \<Longrightarrow> last_n n xs = xs"
  by (simp add: last_n_def)

lemma set_last_n: "set (last_n n xs) \<subseteq> set xs"
  by (simp add: last_n_def set_drop_subset)

lemma find_Some_set: "List.find P xs = Some x \<Longrightarrow> x \<in> set xs \<and> P x"
  by (auto simp: find_Some_iff)

lemma find_None_set: "List.find P xs = None \<longleftrightarrow> (\<forall>x \<in> set xs. \<not> P x)"
  by (auto simp: find_None_iff)

end
