(* ===== verification/PyText.thy ===== *)
theory PyText
  imports Prelude
begin

text \<open>
  Python text and numbers as the code uses them: \<open>str.strip\<close>, \<open>str.lower\<close>,
  \<open>str.casefold\<close>, decimal printing of integers, the integer and floating-point literals
  that \<open>int(text)\<close> and \<open>float(text)\<close> accept, and IEEE double values.

  A string is a list of code points below 256 (Latin-1); the operations are exact on that
  range. A double is its rational value, an infinity or NaN; \<open>round_double\<close> rounds to
  nearest, ties to even, with the subnormal range and overflow. The two zeros are one value.
\<close>

section \<open>Text\<close>

definition char_code :: "char \<Rightarrow> nat" where
  "char_code c = of_char c"

definition is_space :: "char \<Rightarrow> bool" where
  "is_space c \<longleftrightarrow> (let n = char_code c in (9 \<le> n \<and> n \<le> 13) \<or> (28 \<le> n \<and> n \<le> 32) \<or> n = 133 \<or> n = 160)"

definition py_lstrip :: "string \<Rightarrow> string" where
  "py_lstrip s = dropWhile is_space s"

definition py_rstrip :: "string \<Rightarrow> string" where
  "py_rstrip s = rev (dropWhile is_space (rev s))"

definition py_strip :: "string \<Rightarrow> string" where
  "py_strip s = py_rstrip (py_lstrip s)"

definition lower_char :: "char \<Rightarrow> char" where
  "lower_char c = (let n = char_code c in
     if (65 \<le> n \<and> n \<le> 90) \<or> (192 \<le> n \<and> n \<le> 222 \<and> n \<noteq> 215) then char_of (n + 32) else c)"

definition py_lower :: "string \<Rightarrow> string" where
  "py_lower s = map lower_char s"

text \<open>
  \<open>casefold\<close> differs from \<open>lower\<close> on sharp s (two letters s). The micro sign folds
  to a letter outside the range that no other character of the range folds to, so it stays.
\<close>

definition py_casefold :: "string \<Rightarrow> string" where
  "py_casefold s = concat (map (\<lambda>c. if char_code c = 223 then ''ss'' else [lower_char c]) s)"

definition starts_with :: "string \<Rightarrow> string \<Rightarrow> bool" where
  "starts_with p s \<longleftrightarrow> take (length p) s = p"

definition ends_with :: "string \<Rightarrow> string \<Rightarrow> bool" where
  "ends_with p s \<longleftrightarrow> length p \<le> length s \<and> drop (length s - length p) s = p"

text \<open>\<open>sep.join(parts)\<close>\<close>

fun join_with :: "string \<Rightarrow> string list \<Rightarrow> string" where
  "join_with sep [] = []"
| "join_with sep [s] = s"
| "join_with sep (s # t # ts) = s @ sep @ join_with sep (t # ts)"

subsection \<open>Stripping\<close>

lemma dropWhile_idem [simp]: "dropWhile P (dropWhile P xs) = dropWhile P xs"
  by (induction xs) auto

lemma py_lstrip_hd: "py_lstrip s = c # cs \<Longrightarrow> \<not> is_space c"
  unfolding py_lstrip_def by (metis hd_dropWhile list.distinct(1) list.sel(1))

lemma py_rstrip_snoc: "py_rstrip (s @ [c]) = (if is_space c then py_rstrip s else s @ [c])"
  by (simp add: py_rstrip_def)

lemma py_rstrip_Cons: "\<not> is_space c \<Longrightarrow> py_rstrip (c # s) = c # py_rstrip s"
proof (induction s rule: rev_induct)
  case Nil
  then show ?case by (simp add: py_rstrip_def)
next
  case (snoc d s)
  then show ?case
    using py_rstrip_snoc [of "c # s" d] py_rstrip_snoc [of s d] by auto
qed

lemma py_lstrip_idem: "py_lstrip (py_lstrip s) = py_lstrip s"
  by (simp add: py_lstrip_def)

lemma py_rstrip_idem: "py_rstrip (py_rstrip s) = py_rstrip s"
  by (simp add: py_rstrip_def)

lemma py_strip_Nil [simp]: "py_strip [] = []"
  by (simp add: py_strip_def py_lstrip_def py_rstrip_def)

lemma py_strip_idem [simp]: "py_strip (py_strip s) = py_strip s"
proof (cases "py_lstrip s")
  case Nil
  then have "py_strip s = []" by (simp add: py_strip_def py_rstrip_def)
  then show ?thesis by simp
next
  case (Cons c cs)
  then have c: "\<not> is_space c" by (rule py_lstrip_hd)
  then have "py_strip s = c # py_rstrip cs"
    using Cons by (simp add: py_strip_def py_rstrip_Cons)
  then show ?thesis
    using c by (simp add: py_strip_def py_lstrip_def py_rstrip_Cons py_rstrip_idem)
qed

lemma py_strip_noop:
  assumes "\<forall>c \<in> set s. \<not> is_space c"
  shows "py_strip s = s"
proof -
  have "dropWhile is_space t = t" if "\<forall>c \<in> set t. \<not> is_space c" for t
    using that by (cases t) auto
  from this [of s] this [of "rev s"] show ?thesis
    using assms by (simp add: py_strip_def py_lstrip_def py_rstrip_def)
qed

lemma set_dropWhile_sub: "set (dropWhile P xs) \<subseteq> set xs"
  by (auto dest: set_dropWhileD)

lemma set_py_strip: "set (py_strip s) \<subseteq> set s"
  unfolding py_strip_def py_lstrip_def py_rstrip_def
  using set_dropWhile_sub [of is_space s] set_dropWhile_sub [of is_space "rev (dropWhile is_space s)"]
  by auto

lemma length_py_strip: "length (py_strip s) \<le> length s"
proof -
  have "length (dropWhile is_space t) \<le> length t" for t
    by (simp add: length_dropWhile_le)
  then show ?thesis
    unfolding py_strip_def py_lstrip_def py_rstrip_def
    by (metis le_trans length_rev)
qed

text \<open>Evaluation of the text operations on literals.\<close>

lemmas strip_eval = py_strip_def py_lstrip_def py_rstrip_def is_space_def char_code_def

section \<open>Decimal numerals\<close>

definition digit_char :: "nat \<Rightarrow> char" where
  "digit_char d = char_of (48 + d)"

fun nat_str :: "nat \<Rightarrow> string" where
  "nat_str n = (if n < 10 then [digit_char n] else nat_str (n div 10) @ [digit_char (n mod 10)])"

declare nat_str.simps [simp del]

definition int_str :: "int \<Rightarrow> string" where
  "int_str i = (if i < 0 then CHR ''-'' # nat_str (nat (- i)) else nat_str (nat i))"

definition is_digit :: "char \<Rightarrow> bool" where
  "is_digit c \<longleftrightarrow> 48 \<le> char_code c \<and> char_code c \<le> 57"

definition digit_val :: "char \<Rightarrow> nat" where
  "digit_val c = char_code c - 48"

definition digits_val :: "string \<Rightarrow> nat" where
  "digits_val ds = foldl (\<lambda>a c. 10 * a + digit_val c) 0 ds"

lemma char_code_char_of [simp]: "char_code (char_of n) = n mod 256"
  by (simp add: char_code_def)

lemma char_code_less [simp]: "char_code c < 256"
  by (simp add: char_code_def of_char_def)

lemma is_digit_digit_char [simp]: "d < 10 \<Longrightarrow> is_digit (digit_char d)"
  by (simp add: is_digit_def digit_char_def)

lemma digit_val_digit_char [simp]: "d < 10 \<Longrightarrow> digit_val (digit_char d) = d"
  by (simp add: digit_val_def digit_char_def)

lemma is_digit_not_space: "is_digit c \<Longrightarrow> \<not> is_space c"
  by (auto simp: is_digit_def is_space_def Let_def)

lemma nat_str_digits: "\<forall>c \<in> set (nat_str n). is_digit c"
proof (induction n rule: nat_str.induct)
  case (1 n)
  then show ?case by (subst nat_str.simps) (auto simp: nat_str.simps [of n])
qed

lemma nat_str_nonempty [simp]: "nat_str n \<noteq> []"
  by (subst nat_str.simps) simp

lemma digits_val_snoc: "digits_val (ds @ [c]) = 10 * digits_val ds + digit_val c"
  by (simp add: digits_val_def)

lemma digits_val_nat_str [simp]: "digits_val (nat_str n) = n"
proof (induction n rule: nat_str.induct)
  case (1 n)
  show ?case
  proof (cases "n < 10")
    case True
    then show ?thesis by (subst nat_str.simps) (simp add: digits_val_def)
  next
    case False
    with 1 have "digits_val (nat_str (n div 10)) = n div 10" by simp
    with False show ?thesis by (subst nat_str.simps) (simp add: digits_val_snoc)
  qed
qed

lemma nat_str_inject [simp]: "nat_str m = nat_str n \<longleftrightarrow> m = n"
  by (metis digits_val_nat_str)

lemma int_str_inject [simp]: "int_str i = int_str j \<longleftrightarrow> i = j"
proof -
  have "nat_str n \<noteq> CHR ''-'' # s" for n s
    using nat_str_digits [of n] by (auto simp: is_digit_def char_code_def)
  then show ?thesis by (auto simp: int_str_def split: if_splits) (metis)+
qed

lemma lower_char_space: "is_space (lower_char c) \<longleftrightarrow> is_space c"
  by (auto simp: lower_char_def is_space_def Let_def)

lemma lower_char_idem [simp]: "lower_char (lower_char c) = lower_char c"
proof -
  have "char_code c < 256" by simp
  then show ?thesis by (auto simp: lower_char_def Let_def)
qed

lemma py_lower_idem [simp]: "py_lower (py_lower s) = py_lower s"
  by (simp add: py_lower_def)

lemma dropWhile_map_eq: "(\<And>x. P (f x) = P x) \<Longrightarrow> dropWhile P (map f xs) = map f (dropWhile P xs)"
  by (induction xs) auto

lemma py_strip_lower: "py_strip (py_lower s) = py_lower (py_strip s)"
  by (simp add: py_strip_def py_lstrip_def py_rstrip_def py_lower_def dropWhile_map_eq lower_char_space
      rev_map)

lemma py_lower_Nil [simp]: "py_lower s = [] \<longleftrightarrow> s = []"
  by (simp add: py_lower_def)

section \<open>Doubles\<close>

datatype pyfloat = Fin rat | PosInf | NegInf | NaN

fun ilog2 :: "nat \<Rightarrow> nat" where
  "ilog2 n = (if n < 2 then 0 else Suc (ilog2 (n div 2)))"

declare ilog2.simps [simp del]

definition round_half_even :: "rat \<Rightarrow> int" where
  "round_half_even x = (let f = \<lfloor>x\<rfloor>; r = x - of_int f in
     if r < 1/2 then f else if r > 1/2 then f + 1 else if even f then f else f + 1)"

definition float_exponent :: "rat \<Rightarrow> int" where
  "float_exponent a = (let (p, d) = quotient_of a; k0 = int (ilog2 (nat p)) - int (ilog2 (nat d));
       k = (if a \<ge> 2 powi k0 then k0 else k0 - 1)
     in max (k - 52) (- 1074))"

definition round_double :: "rat \<Rightarrow> pyfloat" where
  "round_double q = (if q = 0 then Fin 0 else
     let a = \<bar>q\<bar>; e = float_exponent a; v = of_int (round_half_even (a / 2 powi e)) * 2 powi e
     in if v \<ge> 2 ^ 1024 then (if q < 0 then NegInf else PosInf) else Fin (sgn q * v))"

lemma ilog2_bounds: "0 < n \<Longrightarrow> 2 ^ ilog2 n \<le> n \<and> n < 2 ^ Suc (ilog2 n)"
proof (induction n rule: ilog2.induct)
  case (1 n)
  show ?case
  proof (cases "n < 2")
    case True
    with 1 show ?thesis by (subst ilog2.simps, subst ilog2.simps) simp
  next
    case False
    with 1 have IH: "2 ^ ilog2 (n div 2) \<le> n div 2" "n div 2 < 2 ^ Suc (ilog2 (n div 2))" by simp_all
    have "ilog2 n = Suc (ilog2 (n div 2))" using False by (subst ilog2.simps) simp
    with IH show ?thesis by simp linarith
  qed
qed

lemma round_half_even_int [simp]: "round_half_even (of_int i) = i"
  by (simp add: round_half_even_def)

lemma float_exponent_of_nat:
  assumes "0 < n"
  shows "float_exponent (of_nat n) = int (ilog2 n) - 52"
proof -
  have "quotient_of (of_nat n) = (int n, 1)"
    using quotient_of_int [of "int n"] by (simp add: Rat.of_int_def)
  moreover have "ilog2 1 = 0" by (subst ilog2.simps) simp
  moreover have "(2::rat) ^ ilog2 n \<le> of_nat n"
    using ilog2_bounds [OF assms] by (metis of_nat_le_iff of_nat_numeral of_nat_power)
  ultimately show ?thesis by (simp add: float_exponent_def)
qed

text \<open>Integers up to two to the fifty-third are exact doubles.\<close>

lemma round_double_nat:
  assumes "n \<le> 2 ^ 53"
  shows "round_double (of_nat n) = Fin (of_nat n)"
proof (cases "n = 0")
  case True
  then show ?thesis by (simp add: round_double_def)
next
  case False
  then have pos: "0 < n" by simp
  let ?e = "int (ilog2 n) - 52"
  have "2 ^ ilog2 n \<le> (2::nat) ^ 53" using ilog2_bounds [OF pos] assms by linarith
  then have k: "ilog2 n \<le> 53" by (rule power_le_imp_le_exp [rotated]) simp
  have "\<exists>m::int. of_nat n / 2 powi ?e = (of_int m :: rat)"
  proof (cases "ilog2 n = 53")
    case True
    then have "n = 2 ^ 53" using ilog2_bounds [OF pos] assms by simp
    then have "of_nat n / 2 powi ?e = (of_int (2 ^ 52) :: rat)" using True by simp
    then show ?thesis by blast
  next
    case False
    with k have e: "?e = - int (52 - ilog2 n)" by simp
    have "(2::rat) powi ?e = inverse (2 ^ (52 - ilog2 n))"
      unfolding e by (simp add: power_int_minus)
    then have "of_nat n / 2 powi ?e = (of_int (int n * 2 ^ (52 - ilog2 n)) :: rat)"
      by (simp add: divide_inverse)
    then show ?thesis by blast
  qed
  then obtain m where m: "of_nat n / 2 powi ?e = (of_int m :: rat)" by blast
  then have mm: "of_int m * 2 powi ?e = (of_nat n :: rat)" by (simp add: field_simps)
  have "(of_nat n :: rat) \<le> 2 ^ 53" using assms by (metis of_nat_le_iff of_nat_numeral of_nat_power)
  also have "(2::rat) ^ 53 < 2 ^ 1024" by simp
  finally have "\<not> 2 ^ 1024 \<le> (of_nat n :: rat)" by simp
  then show ?thesis
    using False mm
    by (simp add: round_double_def Let_def float_exponent_of_nat [OF pos] m)
qed

lemma round_double_minus:
  assumes "round_double q = Fin q" and "0 \<le> q"
  shows "round_double (- q) = Fin (- q)"
proof (cases "q = 0")
  case True
  then show ?thesis by (simp add: round_double_def)
next
  case False
  define v where "v = of_int (round_half_even (\<bar>q\<bar> / 2 powi float_exponent \<bar>q\<bar>)) * (2::rat) powi float_exponent \<bar>q\<bar>"
  have pos: "round_double q = (if v \<ge> 2 ^ 1024 then PosInf else Fin v)"
    using False assms(2) by (simp add: round_double_def Let_def v_def)
  have "round_double (- q) = (if v \<ge> 2 ^ 1024 then NegInf else Fin (- v))"
    using False assms(2) by (simp add: round_double_def Let_def v_def)
  with pos assms(1) show ?thesis by (simp split: if_splits)
qed

lemma round_double_int:
  assumes "\<bar>i\<bar> \<le> 2 ^ 53"
  shows "round_double (of_int i) = Fin (of_int i)"
proof (cases "0 \<le> i")
  case True
  have "nat i \<le> 2 ^ 53" using assms True by auto
  then have "round_double (of_nat (nat i)) = Fin (of_nat (nat i))" by (rule round_double_nat)
  with True show ?thesis by simp
next
  case False
  have "nat (- i) \<le> 2 ^ 53" using assms False by auto
  then have "round_double (of_nat (nat (- i))) = Fin (of_nat (nat (- i)))" by (rule round_double_nat)
  then have "round_double (- of_nat (nat (- i))) = Fin (- of_nat (nat (- i)))"
    by (rule round_double_minus) simp
  with False show ?thesis by simp
qed

subsection \<open>Rounding is idempotent\<close>

text \<open>The exponent is chosen so that the scaled value lies below two to the fifty-third.\<close>

lemma float_exponent_log2:
  assumes "0 < a"
  obtains k :: int where "2 powi k \<le> a" and "a < 2 powi (k + 1)" and "float_exponent a = max (k - 52) (- 1074)"
proof -
  obtain p d where pd: "quotient_of a = (p, d)" by fastforce
  have d: "0 < d" using pd by (rule quotient_of_denom_pos)
  have a: "a = of_int p / of_int d" using pd by (rule quotient_of_div)
  have p: "0 < p" using assms d a by (simp add: zero_less_divide_iff)
  define lp ld where "lp = ilog2 (nat p)" and "ld = ilog2 (nat d)"
  have P: "(2::rat) ^ lp \<le> of_int p" "of_int p < (2::rat) ^ Suc lp"
    using ilog2_bounds [of "nat p"] p unfolding lp_def
    by (metis of_int_of_nat_eq of_nat_le_iff of_nat_numeral of_nat_power order_less_imp_le
        zero_less_nat_eq nat_0_le)
       (metis ilog2_bounds of_int_of_nat_eq of_nat_less_iff of_nat_numeral of_nat_power
        order_less_imp_le zero_less_nat_eq nat_0_le p)
  have D: "(2::rat) ^ ld \<le> of_int d" "of_int d < (2::rat) ^ Suc ld"
    using ilog2_bounds [of "nat d"] d unfolding ld_def
    by (metis of_int_of_nat_eq of_nat_le_iff of_nat_numeral of_nat_power order_less_imp_le
        zero_less_nat_eq nat_0_le)
       (metis ilog2_bounds of_int_of_nat_eq of_nat_less_iff of_nat_numeral of_nat_power
        order_less_imp_le zero_less_nat_eq nat_0_le d)
  define k0 :: int where "k0 = int lp - int ld"
  have k0p: "(2::rat) powi k0 = 2 ^ lp / 2 ^ ld"
    by (simp add: k0_def power_int_diff)
  have dpos: "(0::rat) < of_int d" using d by simp
  have upper: "a < 2 powi (k0 + 1)"
  proof -
    have "a < 2 ^ Suc lp / of_int d" unfolding a using P(2) dpos by (rule divide_strict_right_mono)
    also have "\<dots> \<le> 2 ^ Suc lp / 2 ^ ld" using D(1) by (intro divide_left_mono) (simp_all add: d)
    also have "\<dots> = 2 powi (k0 + 1)" by (simp add: power_int_add_1 k0p)
    finally show ?thesis .
  qed
  have lower: "2 powi (k0 - 1) \<le> a"
  proof -
    have "2 powi (k0 - 1) = 2 ^ lp / (2::rat) ^ Suc ld" by (simp add: power_int_diff k0p)
    also have "\<dots> \<le> 2 ^ lp / of_int d" using D(2) by (intro divide_left_mono) (simp_all add: d)
    also have "\<dots> \<le> a" unfolding a using P(1) dpos by (intro divide_right_mono) simp_all
    finally show ?thesis .
  qed
  have fe: "float_exponent a = max ((if a \<ge> 2 powi k0 then k0 else k0 - 1) - 52) (- 1074)"
    by (simp add: float_exponent_def pd lp_def ld_def k0_def)
  show thesis
  proof (cases "2 powi k0 \<le> a")
    case True
    then show thesis using that [of k0] upper fe by simp
  next
    case False
    then show thesis using that [of "k0 - 1"] lower fe by simp
  qed
qed

lemma powi_2_less_iff: "(2::rat) powi i < 2 powi j \<longleftrightarrow> i < j"
  by (metis one_less_numeral_iff power_int_strict_increasing power_int_increasing semiring_norm(76)
      linorder_not_less less_imp_le)

lemma powi_2_int: "0 \<le> j \<Longrightarrow> \<exists>m::int. (2::rat) powi j = of_int m"
  by (rule exI [of _ "2 ^ nat j"]) (simp add: power_int_def)

text \<open>A scaled integer below two to the fifty-third is its own rounding.\<close>

lemma round_double_representable:
  assumes r: "r = of_int m * 2 powi e" and m: "0 < m" "m \<le> 2 ^ 53" and e: "- 1074 \<le> e"
    and small: "r < 2 ^ 1024"
  shows "round_double r = Fin r"
proof -
  have pos: "0 < r" using r m by simp
  obtain k where k: "2 powi k \<le> r" "r < 2 powi (k + 1)" "float_exponent r = max (k - 52) (- 1074)"
    using float_exponent_log2 [OF pos] by blast
  have "\<exists>n::int. r / 2 powi float_exponent r = of_int n"
  proof (cases "m = 2 ^ 53")
    case True
    then have "r = 2 powi (53 + e)" using r by (simp add: power_int_add)
    with k have "\<not> k > 53 + e" "\<not> 53 + e \<ge> k + 1"
      using powi_2_less_iff [of "53 + e" k] powi_2_less_iff [of "53 + e" "k + 1"] by auto
    then have "float_exponent r = e + 1" using k(3) e by simp
    then have "r / 2 powi float_exponent r = of_int (2 ^ 52)"
      using True r by (simp add: power_int_add)
    then show ?thesis by blast
  next
    case False
    then have "of_int m < (2::rat) ^ 53" using m by (metis le_neq_trans of_int_less_iff of_int_numeral of_int_power)
    then have "r < 2 powi (53 + e)" using r by (simp add: power_int_add)
    then have "2 powi k < (2::rat) powi (53 + e)" using k(1) by (rule le_less_trans [rotated])
    then have "k < 53 + e" by (simp only: powi_2_less_iff)
    then have le: "float_exponent r \<le> e" using k(3) e by simp
    then obtain n where n: "(2::rat) powi (e - float_exponent r) = of_int n"
      using powi_2_int [of "e - float_exponent r"] by auto
    have "r / 2 powi float_exponent r = of_int (m * n)"
      unfolding of_int_mult n [symmetric] using r by (simp add: power_int_diff)
    then show ?thesis by blast
  qed
  then obtain n where n: "r / 2 powi float_exponent r = of_int n" by blast
  then have "of_int n * 2 powi float_exponent r = r" by (simp add: field_simps)
  then show ?thesis using pos small by (simp add: round_double_def Let_def n)
qed

lemma round_half_even_bounds: "0 \<le> x \<Longrightarrow> x < of_int b \<Longrightarrow> 0 \<le> round_half_even x \<and> round_half_even x \<le> b"
  by (auto simp: round_half_even_def Let_def) linarith+

text \<open>Every rounded value is such a scaled integer, up to its sign.\<close>

lemma round_double_form:
  assumes "round_double q = Fin r"
  obtains m e :: int where "0 \<le> m" "m \<le> 2 ^ 53" "- 1074 \<le> e" "\<bar>r\<bar> = of_int m * 2 powi e" "\<bar>r\<bar> < 2 ^ 1024"
proof (cases "q = 0")
  case True
  then have "r = 0" using assms by (simp add: round_double_def)
  then show ?thesis using that [of 0 0] by simp
next
  case False
  define a e where "a = \<bar>q\<bar>" and "e = float_exponent a"
  define m where "m = round_half_even (a / 2 powi e)"
  have a: "0 < a" using False by (simp add: a_def)
  obtain k where k: "2 powi k \<le> a" "a < 2 powi (k + 1)" "e = max (k - 52) (- 1074)"
    using float_exponent_log2 [OF a] e_def by blast
  have "a < 2 powi (53 + e)"
    using k(2,3) powi_2_less_iff [of "53 + e" "k + 1"] by (cases "k - 52 \<le> - 1074") auto
  then have "a / 2 powi e < of_int (2 ^ 53)" by (simp add: power_int_add field_simps)
  then have m: "0 \<le> m" "m \<le> 2 ^ 53"
    unfolding m_def using a round_half_even_bounds [of "a / 2 powi e" "2 ^ 53"] by simp_all
  have v: "\<not> (2 ^ 1024 \<le> of_int m * (2::rat) powi e)" "r = sgn q * (of_int m * 2 powi e)"
    using assms False by (auto simp: round_double_def Let_def a_def e_def m_def split: if_splits)
  have "\<bar>r\<bar> = of_int m * 2 powi e"
    using v(2) False m(1) by (simp add: abs_mult abs_sgn_eq)
  then show ?thesis using that [of m e] m k(3) v(1) by simp
qed

lemma round_double_sign:
  assumes "round_double \<bar>r\<bar> = Fin \<bar>r\<bar>"
  shows "round_double r = Fin r"
  using round_double_minus [OF assms] assms by (cases "0 \<le> r") simp_all

lemma round_double_idem:
  assumes "round_double q = Fin r"
  shows "round_double r = Fin r"
proof (cases "r = 0")
  case True
  then show ?thesis by (simp add: round_double_def)
next
  case False
  obtain m e where f: "0 \<le> m" "m \<le> 2 ^ 53" "- 1074 \<le> e" "\<bar>r\<bar> = of_int m * 2 powi e" "\<bar>r\<bar> < 2 ^ 1024"
    using round_double_form [OF assms] by blast
  then have "0 < m" using False by (cases "m = 0") auto
  with f have "round_double \<bar>r\<bar> = Fin \<bar>r\<bar>" by (intro round_double_representable) auto
  then show ?thesis by (rule round_double_sign)
qed

definition trunc_rat :: "rat \<Rightarrow> int" where
  "trunc_rat q = (if q < 0 then - \<lfloor>- q\<rfloor> else \<lfloor>q\<rfloor>)"

lemma trunc_rat_of_int [simp]: "trunc_rat (of_int i) = i"
  by (simp add: trunc_rat_def)

lemma abs_trunc_rat: "\<bar>trunc_rat q\<bar> = \<lfloor>\<bar>q\<bar>\<rfloor>"
  by (auto simp: trunc_rat_def abs_if) linarith+

text \<open>The integer part of a double is a double.\<close>

lemma round_double_trunc:
  assumes "round_double q = Fin r"
  shows "round_double (of_int (trunc_rat r)) = Fin (of_int (trunc_rat r))"
proof -
  obtain m e where f: "0 \<le> m" "m \<le> 2 ^ 53" "\<bar>r\<bar> = of_int m * 2 powi e"
    using round_double_form [OF assms] by blast
  show ?thesis
  proof (cases "0 \<le> e")
    case True
    then obtain n where "(2::rat) powi e = of_int n" using powi_2_int by blast
    then have "\<bar>r\<bar> = of_int (m * n)" using f(3) by simp
    then have "r = of_int (if r < 0 then - (m * n) else m * n)" by (auto simp: abs_if split: if_splits)
    then obtain i where "r = of_int i" by blast
    then show ?thesis using round_double_idem [OF assms] by simp
  next
    case False
    then have "(2::rat) powi e \<le> 2 powi 0" using powi_2_less_iff [of 0 e] by simp
    then have "\<bar>r\<bar> \<le> of_int m" using f(1,3) by (simp add: mult_left_le)
    then have "\<lfloor>\<bar>r\<bar>\<rfloor> \<le> m" by (simp add: floor_le_iff)
    then have "\<bar>trunc_rat r\<bar> \<le> 2 ^ 53" unfolding abs_trunc_rat using f(2) by (rule order_trans)
    then show ?thesis by (rule round_double_int)
  qed
qed

section \<open>Literals\<close>

text \<open>Underscores may stand only between two digits; then they are dropped.\<close>

fun underscores_ok :: "char option \<Rightarrow> string \<Rightarrow> bool" where
  "underscores_ok prev [] = True"
| "underscores_ok prev (c # cs) =
     ((c = CHR ''_'' \<longrightarrow> (case prev of Some p \<Rightarrow> is_digit p | None \<Rightarrow> False)
        \<and> (case cs of d # _ \<Rightarrow> is_digit d | [] \<Rightarrow> False))
      \<and> underscores_ok (Some c) cs)"

definition drop_underscores :: "string \<Rightarrow> string" where
  "drop_underscores s = filter (\<lambda>c. c \<noteq> CHR ''_'') s"

definition split_sign :: "string \<Rightarrow> bool \<times> string" where
  "split_sign s = (case s of
      c # cs \<Rightarrow> if c = CHR ''-'' then (True, cs) else if c = CHR ''+'' then (False, cs) else (False, s)
    | [] \<Rightarrow> (False, []))"

definition all_digits :: "string \<Rightarrow> bool" where
  "all_digits s \<longleftrightarrow> s \<noteq> [] \<and> (\<forall>c \<in> set s. is_digit c)"

text \<open>\<open>int(text)\<close>; Python refuses more than 4300 digits.\<close>

definition parse_int_text :: "string \<Rightarrow> int option" where
  "parse_int_text s = (let (neg, body) = split_sign (py_strip s) in
     if underscores_ok None body \<and> all_digits (drop_underscores body)
        \<and> length (drop_underscores body) \<le> 4300
     then Some ((if neg then - 1 else 1) * int (digits_val (drop_underscores body)))
     else None)"

definition parse_exponent :: "string \<Rightarrow> int option" where
  "parse_exponent s = (case s of
      [] \<Rightarrow> Some 0
    | c # cs \<Rightarrow> if c = CHR ''e'' \<or> c = CHR ''E''
        then (let (neg, body) = split_sign cs in
              if all_digits body then Some ((if neg then - 1 else 1) * int (digits_val body)) else None)
        else None)"

definition parse_decimal :: "string \<Rightarrow> rat option" where
  "parse_decimal s = (let ip = takeWhile is_digit s; r1 = dropWhile is_digit s;
       (fp, r2) = (case r1 of c # cs \<Rightarrow> if c = CHR ''.'' then (takeWhile is_digit cs, dropWhile is_digit cs) else ([], r1)
                            | [] \<Rightarrow> ([], []))
     in if ip = [] \<and> fp = [] then None
        else map_option (\<lambda>e. of_nat (digits_val (ip @ fp)) * 10 powi (e - int (length fp))) (parse_exponent r2))"

text \<open>\<open>float(text)\<close>\<close>

definition parse_float_text :: "string \<Rightarrow> pyfloat option" where
  "parse_float_text s = (let t = py_strip s in
     if \<not> underscores_ok None t then None else
     let (neg, body) = split_sign (drop_underscores t); low = py_lower body in
     if low = ''inf'' \<or> low = ''infinity'' then Some (if neg then NegInf else PosInf)
     else if low = ''nan'' then Some NaN
     else map_option (\<lambda>q. round_double (if neg then - q else q)) (parse_decimal body))"

end
