(* ===== verification/PyValue.thy ===== *)
theory PyValue
  imports PyText
begin

text \<open>
  The dynamic values the code receives from JSON and passes between its parts, with the
  built-in operations it applies to them: truth value, \<open>isinstance\<close>, \<open>str\<close>,
  \<open>int\<close>, \<open>float\<close>, equality, \<open>dict.get\<close>. An exception of a built-in
  operation is a value of \<open>py_error\<close>.
\<close>

section \<open>Values\<close>

datatype pyval =
    PNone
  | PBool bool
  | PInt int
  | PFloat pyfloat
  | PStr string
  | PList "pyval list"
  | PDict "(string \<times> pyval) list"

datatype py_error = TypeError | ValueError | OverflowError

type_synonym pydict = "pyval dict"

fun is_none :: "pyval \<Rightarrow> bool" where "is_none PNone = True" | "is_none _ = False"
fun is_bool :: "pyval \<Rightarrow> bool" where "is_bool (PBool _) = True" | "is_bool _ = False"
fun is_str :: "pyval \<Rightarrow> bool" where "is_str (PStr _) = True" | "is_str _ = False"
fun is_list :: "pyval \<Rightarrow> bool" where "is_list (PList _) = True" | "is_list _ = False"
fun is_dict :: "pyval \<Rightarrow> bool" where "is_dict (PDict _) = True" | "is_dict _ = False"

text \<open>\<open>isinstance(v, int)\<close>: a bool is an int.\<close>

fun is_int :: "pyval \<Rightarrow> bool" where
  "is_int (PInt _) = True" | "is_int (PBool _) = True" | "is_int _ = False"

fun is_float :: "pyval \<Rightarrow> bool" where "is_float (PFloat _) = True" | "is_float _ = False"

fun truthy :: "pyval \<Rightarrow> bool" where
  "truthy PNone = False"
| "truthy (PBool b) = b"
| "truthy (PInt i) = (i \<noteq> 0)"
| "truthy (PFloat f) = (f \<noteq> Fin 0)"
| "truthy (PStr s) = (s \<noteq> [])"
| "truthy (PList xs) = (xs \<noteq> [])"
| "truthy (PDict d) = (d \<noteq> [])"

text \<open>\<open>v or w\<close>\<close>

definition py_or :: "pyval \<Rightarrow> pyval \<Rightarrow> pyval" where
  "py_or v w = (if truthy v then v else w)"

text \<open>\<open>d.get(k)\<close> and \<open>d.get(k, default)\<close>\<close>

definition getd :: "pydict \<Rightarrow> string \<Rightarrow> pyval \<Rightarrow> pyval" where
  "getd d k v = (case map_of d k of Some w \<Rightarrow> w | None \<Rightarrow> v)"

abbreviation get :: "pydict \<Rightarrow> string \<Rightarrow> pyval" where
  "get d k \<equiv> getd d k PNone"

fun list_items :: "pyval \<Rightarrow> pyval list" where
  "list_items (PList xs) = xs" | "list_items _ = []"

fun dict_items :: "pyval \<Rightarrow> pydict" where
  "dict_items (PDict d) = d" | "dict_items _ = []"

section \<open>Printing\<close>

definition float_dec_exp :: "rat \<Rightarrow> int" where
  "float_dec_exp a = (let (p, d) = quotient_of a;
       k0 = int (length (nat_str (nat p))) - int (length (nat_str (nat d)))
     in if a \<ge> 10 powi k0 then k0 else k0 - 1)"

text \<open>The shortest decimal that reads back as the same double: digits and the position of the point.\<close>

definition float_digits :: "rat \<Rightarrow> string \<times> int" where
  "float_digits a = (let E = float_dec_exp a;
       cand = (\<lambda>n::nat. round_half_even (a / 10 powi (E - int n + 1)));
       ok = (\<lambda>n::nat. round_double (of_int (cand n) * 10 powi (E - int n + 1)) = Fin a);
       n = (case List.find ok [1..<18] of Some n \<Rightarrow> n | None \<Rightarrow> 17);
       ds = nat_str (nat (cand n))
     in (rev (dropWhile (\<lambda>c. c = CHR ''0'') (rev ds)), E + 1 + int (length ds) - int n))"

definition zeros :: "int \<Rightarrow> string" where
  "zeros n = replicate (nat n) CHR ''0''"

definition float_layout :: "string \<times> int \<Rightarrow> string" where
  "float_layout r = (let (ds, decpt) = r; len = int (length ds) in
     if decpt \<le> - 4 \<or> decpt > 16 then
       (let e = decpt - 1; es = nat_str (nat \<bar>e\<bar>) in
        take 1 ds @ (if len > 1 then CHR ''.'' # drop 1 ds else [])
          @ (if e < 0 then ''e-'' else ''e+'') @ (if length es < 2 then CHR ''0'' # es else es))
     else if decpt \<le> 0 then ''0.'' @ zeros (- decpt) @ ds
     else if decpt \<ge> len then ds @ zeros (decpt - len) @ ''.0''
     else take (nat decpt) ds @ CHR ''.'' # drop (nat decpt) ds)"

fun float_repr :: "pyfloat \<Rightarrow> string" where
  "float_repr PosInf = ''inf''"
| "float_repr NegInf = ''-inf''"
| "float_repr NaN = ''nan''"
| "float_repr (Fin q) = (if q = 0 then ''0.0''
     else (if q < 0 then ''-'' else '''') @ float_layout (float_digits \<bar>q\<bar>))"

definition hex_digit :: "nat \<Rightarrow> char" where
  "hex_digit d = (if d < 10 then char_of (48 + d) else char_of (87 + d))"

definition repr_char :: "char \<Rightarrow> char \<Rightarrow> string" where
  "repr_char q c = (let n = char_code c in
     if c = q \<or> n = 92 then [CHR 0x5C, c]
     else if n = 10 then [CHR 0x5C, CHR ''n'']
     else if n = 13 then [CHR 0x5C, CHR ''r'']
     else if n = 9 then [CHR 0x5C, CHR ''t'']
     else if n < 32 \<or> (127 \<le> n \<and> n \<le> 160) \<or> n = 173
       then [CHR 0x5C, CHR ''x'', hex_digit (n div 16), hex_digit (n mod 16)]
     else [c])"

definition str_repr :: "string \<Rightarrow> string" where
  "str_repr s = (let q = (if CHR 0x27 \<in> set s \<and> CHR 0x22 \<notin> set s then CHR 0x22 else CHR 0x27)
     in q # concat (map (repr_char q) s) @ [q])"

fun py_repr :: "pyval \<Rightarrow> string" where
  "py_repr PNone = ''None''"
| "py_repr (PBool b) = (if b then ''True'' else ''False'')"
| "py_repr (PInt i) = int_str i"
| "py_repr (PFloat f) = float_repr f"
| "py_repr (PStr s) = str_repr s"
| "py_repr (PList xs) = ''['' @ join_with '', '' (map py_repr xs) @ '']''"
| "py_repr (PDict d) = ''{'' @ join_with '', '' (map (\<lambda>(k, v). str_repr k @ '': '' @ py_repr v) d) @ ''}''"

fun py_str :: "pyval \<Rightarrow> string" where
  "py_str (PStr s) = s"
| "py_str v = py_repr v"

text \<open>\<open>str(v or "")\<close> and \<open>str(v or "").strip()\<close>, the code's reading of an optional text.\<close>

definition str_or :: "pyval \<Rightarrow> string" where
  "str_or v = (if truthy v then py_str v else [])"

definition text_of :: "pyval \<Rightarrow> string" where
  "text_of v = py_strip (str_or v)"

section \<open>Conversions\<close>

definition py_float_of_int :: "int \<Rightarrow> (py_error, pyfloat) res" where
  "py_float_of_int i = (case round_double (of_int i) of
      PosInf \<Rightarrow> Inl OverflowError | NegInf \<Rightarrow> Inl OverflowError | f \<Rightarrow> Inr f)"

text \<open>The number a float object holds: the nearest double, which is itself for every double.\<close>

fun as_double :: "pyfloat \<Rightarrow> pyfloat" where
  "as_double (Fin q) = round_double q"
| "as_double f = f"

fun py_float :: "pyval \<Rightarrow> (py_error, pyfloat) res" where
  "py_float (PBool b) = Inr (Fin (if b then 1 else 0))"
| "py_float (PInt i) = py_float_of_int i"
| "py_float (PFloat f) = Inr (as_double f)"
| "py_float (PStr s) = (case parse_float_text s of None \<Rightarrow> Inl ValueError | Some f \<Rightarrow> Inr f)"
| "py_float _ = Inl TypeError"

fun int_of_float :: "pyfloat \<Rightarrow> (py_error, int) res" where
  "int_of_float (Fin q) = Inr (trunc_rat q)"
| "int_of_float NaN = Inl ValueError"
| "int_of_float _ = Inl OverflowError"

fun py_int :: "pyval \<Rightarrow> (py_error, int) res" where
  "py_int (PBool b) = Inr (if b then 1 else 0)"
| "py_int (PInt i) = Inr i"
| "py_int (PFloat f) = int_of_float (as_double f)"
| "py_int (PStr s) = (case parse_int_text s of None \<Rightarrow> Inl ValueError | Some i \<Rightarrow> Inr i)"
| "py_int _ = Inl TypeError"

text \<open>\<open>int(float(v))\<close>\<close>

definition py_int_float :: "pyval \<Rightarrow> (py_error, int) res" where
  "py_int_float v = rbind (py_float v) int_of_float"

section \<open>Equality\<close>

text \<open>
  \<open>==\<close> compares numbers of any kind by value and dictionaries without regard to order. The
  code compares a value with a deep copy of itself, where a NaN is the same object, so NaN
  equals NaN here.
\<close>

fun num_val :: "pyval \<Rightarrow> pyfloat option" where
  "num_val (PBool b) = Some (Fin (if b then 1 else 0))"
| "num_val (PInt i) = Some (Fin (of_int i))"
| "num_val (PFloat f) = Some f"
| "num_val _ = None"

lemma size_list_mem: "x \<in> set xs \<Longrightarrow> size x < Suc (size_list size xs)"
  by (induction xs) auto

lemma size_dict_mem: "(k, v) \<in> set d \<Longrightarrow> size v < Suc (size_list (size_prod (\<lambda>x. 0) size) d)"
  by (induction d) auto

function (sequential) py_eq :: "pyval \<Rightarrow> pyval \<Rightarrow> bool" where
  "py_eq PNone PNone = True"
| "py_eq (PStr s) (PStr t) = (s = t)"
| "py_eq (PList xs) (PList ys) =
     (length xs = length ys \<and> list_all (\<lambda>(x, y). py_eq x y) (zip xs ys))"
| "py_eq (PDict d) (PDict e) =
     (length d = length e \<and>
      list_all (\<lambda>(k, v). case map_of e k of None \<Rightarrow> False | Some w \<Rightarrow> py_eq v w) d)"
| "py_eq v w = (num_val v \<noteq> None \<and> num_val v = num_val w)"
  by pat_completeness auto

termination
  by (relation "measure (\<lambda>(v, w). size v)")
    (auto dest!: set_zip_leftD intro: size_list_mem size_dict_mem)

section \<open>Facts\<close>

lemma py_eq_PStr_right [simp]: "py_eq v (PStr s) \<longleftrightarrow> v = PStr s"
  by (cases v) auto

lemma get_dict_set [simp]: "getd (dict_set k v d) k' w = (if k' = k then v else getd d k' w)"
  by (simp add: getd_def)

lemma get_dict_pop [simp]: "getd (dict_pop k d) k' w = (if k' = k then w else getd d k' w)"
  by (simp add: getd_def)

lemma getd_Nil [simp]: "getd [] k w = w"
  by (simp add: getd_def)

lemma getd_Cons [simp]: "getd ((a, v) # d) k w = (if a = k then v else getd d k w)"
  by (simp add: getd_def)

lemma str_or_simps [simp]:
  "str_or (PStr s) = s" "str_or PNone = []"
  by (simp_all add: str_or_def)

lemma text_of_simps [simp]:
  "text_of (PStr s) = py_strip s" "text_of PNone = []"
  by (simp_all add: text_of_def)

lemma is_dict_iff: "is_dict v \<longleftrightarrow> (\<exists>d. v = PDict d)"
  by (cases v) auto

lemma is_list_iff: "is_list v \<longleftrightarrow> (\<exists>xs. v = PList xs)"
  by (cases v) auto

lemma is_str_iff: "is_str v \<longleftrightarrow> (\<exists>s. v = PStr s)"
  by (cases v) auto

lemma is_dictE: assumes "is_dict v" obtains d where "v = PDict d"
  using assms by (cases v) auto

lemma is_listE: assumes "is_list v" obtains xs where "v = PList xs"
  using assms by (cases v) auto

lemma py_float_of_int_exact: "\<bar>i\<bar> \<le> 2 ^ 53 \<Longrightarrow> py_float_of_int i = Inr (Fin (of_int i))"
  by (simp only: py_float_of_int_def round_double_int pyfloat.case)

text \<open>\<open>int(float(i))\<close> is \<open>i\<close> for the integers a double represents exactly.\<close>

lemma py_int_float_exact: "\<bar>i\<bar> \<le> 2 ^ 53 \<Longrightarrow> py_int_float (PInt i) = Inr i"
  by (simp only: py_int_float_def py_float.simps py_float_of_int_exact rbind_Inr
      int_of_float.simps trunc_rat_of_int)

lemma py_float_Fin: "py_float v = Inr (Fin q) \<Longrightarrow> \<exists>x. round_double x = Fin q"
proof (induction v rule: py_float.induct)
  case (1 b)
  then have "q = 0 \<or> q = 1" by (auto split: if_splits)
  then show ?case using round_double_int [of 0] round_double_int [of 1] by (auto intro: exI [of _ q])
next
  case (2 i)
  then show ?case by (auto simp: py_float_of_int_def split: pyfloat.splits)
next
  case (3 f)
  then show ?case by (cases f) auto
next
  case (4 s)
  then show ?case by (auto simp: parse_float_text_def Let_def split: option.splits if_splits prod.splits)
qed simp_all

text \<open>\<open>int(float(v))\<close> is a fixed point of itself.\<close>

lemma py_int_float_idem:
  assumes "py_int_float v = Inr n"
  shows "py_int_float (PInt n) = Inr n"
proof -
  obtain q where q: "py_float v = Inr (Fin q)" "n = trunc_rat q"
    using assms unfolding py_int_float_def by (auto elim!: int_of_float.elims)
  obtain x where "round_double x = Fin q" using py_float_Fin [OF q(1)] by blast
  then have "round_double (of_int n) = Fin (of_int n)" unfolding q(2) by (rule round_double_trunc)
  then show ?thesis by (simp add: py_int_float_def py_float_of_int_def)
qed

lemma underscores_ok_digits: "\<forall>c \<in> set s. is_digit c \<Longrightarrow> underscores_ok p s"
  by (induction s arbitrary: p) (auto simp: is_digit_def char_code_def)

lemma drop_underscores_digits: "\<forall>c \<in> set s. is_digit c \<Longrightarrow> drop_underscores s = s"
  by (induction s) (auto simp: drop_underscores_def is_digit_def char_code_def)

lemma split_sign_digits: "\<forall>c \<in> set s. is_digit c \<Longrightarrow> split_sign s = (False, s)"
  by (cases s) (auto simp: split_sign_def is_digit_def char_code_def)

lemma strip_nat_str [simp]: "py_strip (nat_str n) = nat_str n"
  using nat_str_digits by (intro py_strip_noop) (auto dest: is_digit_not_space)

lemma takeWhile_digits: "\<forall>c \<in> set s. is_digit c \<Longrightarrow> takeWhile is_digit s = s \<and> dropWhile is_digit s = []"
  by (induction s) auto

lemma parse_decimal_nat_str: "parse_decimal (nat_str n) = Some (of_nat n)"
proof -
  have tw: "takeWhile is_digit (nat_str n) = nat_str n" and dw: "dropWhile is_digit (nat_str n) = []"
    using takeWhile_digits [OF nat_str_digits [of n]] by blast+
  show ?thesis unfolding parse_decimal_def Let_def tw dw by (simp add: parse_exponent_def)
qed

lemma lower_digit: "is_digit c \<Longrightarrow> lower_char c = c"
  by (auto simp: lower_char_def is_digit_def Let_def)

lemma lower_digits: "\<forall>c \<in> set s. is_digit c \<Longrightarrow> py_lower s = s"
  by (induction s) (auto simp: py_lower_def lower_digit)

text \<open>\<open>float(str(n))\<close> reads a printed number back exactly up to two to the fifty-third.\<close>

lemma parse_float_nat_str:
  assumes "n \<le> 2 ^ 53"
  shows "parse_float_text (nat_str n) = Some (Fin (of_nat n))"
proof -
  have d: "\<forall>c \<in> set (nat_str n). is_digit c" by (rule nat_str_digits)
  have "nat_str n \<noteq> ''inf''" "nat_str n \<noteq> ''infinity''" "nat_str n \<noteq> ''nan''"
    using d by (auto simp: is_digit_def char_code_def)
  moreover have "round_double (of_nat n) = Fin (of_nat n)"
    using assms by (rule round_double_nat)
  ultimately show ?thesis
    by (simp add: parse_float_text_def underscores_ok_digits [OF d] drop_underscores_digits [OF d]
        split_sign_digits [OF d] lower_digits [OF d] parse_decimal_nat_str)
qed

lemma py_int_float_nat_str:
  assumes "n \<le> 2 ^ 53"
  shows "py_int_float (PStr (nat_str n)) = Inr (int n)"
  using parse_float_nat_str [OF assms] trunc_rat_of_int [of "int n"]
  by (simp add: py_int_float_def)

end
