(* ===== verification/OutputRoutes.thy ===== *)
theory OutputRoutes
  imports PyValue
begin

text \<open>
  The wiring of a graph: port numbers (\<open>route_parser.py\<close>) and the \<open>output_routes\<close>
  document of a graph configuration (\<open>graph_output_routes.py\<close>), which says for every node
  and output port to which input ports of which nodes its messages go. The document is
  normalised when it is read, turned into the outgoing-link table of the message dispatcher,
  built from a list of links, pruned when a node is removed and rewritten when a node is
  renamed.
\<close>

section \<open>Ports\<close>

definition parse_port_count :: "pyval \<Rightarrow> int \<Rightarrow> int" where
  "parse_port_count v dflt = (let number = (case py_int_float v of Inl _ \<Rightarrow> dflt | Inr n \<Rightarrow> n)
     in if number \<le> 0 then dflt else number)"

definition parse_port_index :: "pyval \<Rightarrow> int option" where
  "parse_port_index v = (case py_int_float v of
      Inl _ \<Rightarrow> None
    | Inr number \<Rightarrow> if number < 0 then None else Some number)"

text \<open>The port of a queued item, a link or a route: what is no port is the first one.\<close>

definition port_field :: "pyval \<Rightarrow> int" where
  "port_field v = (case parse_port_index v of None \<Rightarrow> 0 | Some n \<Rightarrow> n)"

section \<open>The normalised document\<close>

datatype route_error =
    RoutesNotObject
  | SourceIdRequired
  | SourceNotFound string
  | SourceRoutesNotArray string
  | RouteNotObject string nat
  | OutputIndexInvalid string nat
  | DuplicateOutputIndex string int
  | TargetsNotArray string nat
  | TargetNotObject string nat nat
  | TargetNodeIdRequired string nat nat
  | TargetNotFound string
  | InputIndexInvalid string nat nat
  | DuplicateTarget string nat string int
  | OutgoingOutputInvalid string
  | OutgoingTargetsNotArray string int
  | OutgoingTargetNotObject string int
  | OutgoingTargetInvalid string int
  | LinkNotObject
  | LinkEndpointsNotObjects
  | LinkEndpointsIncomplete
  | NotIterable

text \<open>\<open>OutputRoutes = dict[str, list[dict]]\<close>; the dictionaries inside stay dynamic.\<close>

type_synonym output_routes = "pydict list dict"

definition routes_val :: "output_routes \<Rightarrow> pyval" where
  "routes_val R = PDict (map (\<lambda>(k, rs). (k, PList (map PDict rs))) R)"

definition mk_target :: "string \<Rightarrow> int \<Rightarrow> pydict" where
  "mk_target node_id input_index = [(''node_id'', PStr node_id), (''input_index'', PInt input_index)]"

definition mk_route :: "int \<Rightarrow> pydict list \<Rightarrow> pydict" where
  "mk_route output_index targets =
     [(''output_index'', PInt output_index), (''targets'', PList (map PDict targets))]"

definition id_allowed :: "string set option \<Rightarrow> string \<Rightarrow> bool" where
  "id_allowed valid_node_ids i = (case valid_node_ids of None \<Rightarrow> True | Some V \<Rightarrow> i \<in> V)"

text \<open>The loop over the targets of one route: \<open>seen\<close> are the targets met so far.\<close>

fun norm_targets :: "string set option \<Rightarrow> string \<Rightarrow> nat \<Rightarrow> nat \<Rightarrow> (string \<times> int) set \<Rightarrow> pyval list
    \<Rightarrow> (route_error, pydict list) res" where
  "norm_targets valid src item_index target_index seen [] = Inr []"
| "norm_targets valid src item_index target_index seen (target # rest) =
     (case target of
        PDict d \<Rightarrow>
          (let target_node_id = text_of (get d ''node_id'') in
           if target_node_id = [] then Inl (TargetNodeIdRequired src item_index target_index)
           else if \<not> id_allowed valid target_node_id then Inl (TargetNotFound target_node_id)
           else (case parse_port_index (getd d ''input_index'' (PInt 0)) of
               None \<Rightarrow> Inl (InputIndexInvalid src item_index target_index)
             | Some input_index \<Rightarrow>
                 if (target_node_id, input_index) \<in> seen
                 then Inl (DuplicateTarget src item_index target_node_id input_index)
                 else rbind (norm_targets valid src item_index (Suc target_index)
                               (insert (target_node_id, input_index) seen) rest)
                        (\<lambda>ts. Inr (mk_target target_node_id input_index # ts))))
      | _ \<Rightarrow> Inl (TargetNotObject src item_index target_index))"

text \<open>The loop over the routes of one source: \<open>seen\<close> are the output indexes met so far.\<close>

fun norm_items :: "string set option \<Rightarrow> string \<Rightarrow> nat \<Rightarrow> int set \<Rightarrow> pyval list
    \<Rightarrow> (route_error, pydict list) res" where
  "norm_items valid src item_index seen [] = Inr []"
| "norm_items valid src item_index seen (item # rest) =
     (case item of
        PDict d \<Rightarrow>
          (case parse_port_index (get d ''output_index'') of
             None \<Rightarrow> Inl (OutputIndexInvalid src item_index)
           | Some output_index \<Rightarrow>
               if output_index \<in> seen then Inl (DuplicateOutputIndex src output_index)
               else (let raw_targets = (if is_none (get d ''targets'') then PList [] else get d ''targets'') in
                 if \<not> is_list raw_targets then Inl (TargetsNotArray src item_index)
                 else rbind (norm_targets valid src item_index 0 {} (list_items raw_targets)) (\<lambda>targets.
                      rbind (norm_items valid src (Suc item_index) (insert output_index seen) rest) (\<lambda>routes.
                        Inr (mk_route output_index targets # routes)))))
      | _ \<Rightarrow> Inl (RouteNotObject src item_index))"

definition norm_source :: "string set option \<Rightarrow> string \<times> pyval \<Rightarrow> output_routes \<Rightarrow> (route_error, output_routes) res" where
  "norm_source valid kv normalized = (let source_id = py_strip (fst kv) in
     if source_id = [] then Inl SourceIdRequired
     else if \<not> id_allowed valid source_id then Inl (SourceNotFound source_id)
     else if \<not> is_list (snd kv) then Inl (SourceRoutesNotArray source_id)
     else rbind (norm_items valid source_id 0 {} (list_items (snd kv))) (\<lambda>source_routes.
       Inr (if source_routes = [] then normalized else dict_set source_id source_routes normalized)))"

definition normalize_output_routes :: "pyval \<Rightarrow> string set option \<Rightarrow> (route_error, output_routes) res" where
  "normalize_output_routes raw valid = (case raw of
      PNone \<Rightarrow> Inr []
    | PDict d \<Rightarrow> rfold (norm_source valid) d []
    | _ \<Rightarrow> Inl RoutesNotObject)"

section \<open>Outgoing links\<close>

record outgoing_link =
  link_id :: string
  link_to :: string
  from_output_index :: int
  to_input_index :: int

type_synonym outgoing = "outgoing_link list dict"

definition output_route_target_id :: "string \<Rightarrow> int \<Rightarrow> string \<Rightarrow> int \<Rightarrow> string" where
  "output_route_target_id source_id output_index target_node_id input_index =
     ''route-'' @ source_id @ ''-'' @ int_str output_index @ ''-'' @ target_node_id @ ''-'' @ int_str input_index"

text \<open>\<open>d.setdefault(k, []).append(x)\<close> and \<open>d.setdefault(k, []).extend(xs)\<close>\<close>

definition dict_extend :: "string \<Rightarrow> 'a list \<Rightarrow> 'a list dict \<Rightarrow> 'a list dict" where
  "dict_extend k xs d = dict_set k ((case map_of d k of None \<Rightarrow> [] | Some ys \<Rightarrow> ys) @ xs) d"

definition outgoing_target :: "string \<Rightarrow> int \<Rightarrow> pyval \<Rightarrow> outgoing \<Rightarrow> (route_error, outgoing) res" where
  "outgoing_target source_id output_index target og = (case target of
      PDict d \<Rightarrow>
        (let target_node_id = text_of (get d ''node_id'') in
         case parse_port_index (getd d ''input_index'' (PInt 0)) of
           None \<Rightarrow> Inl (OutgoingTargetInvalid source_id output_index)
         | Some input_index \<Rightarrow>
             if target_node_id = [] then Inl (OutgoingTargetInvalid source_id output_index)
             else Inr (dict_extend source_id
                    [\<lparr>link_id = output_route_target_id source_id output_index target_node_id input_index,
                      link_to = target_node_id, from_output_index = output_index,
                      to_input_index = input_index\<rparr>] og))
    | _ \<Rightarrow> Inl (OutgoingTargetNotObject source_id output_index))"

definition outgoing_route :: "string \<Rightarrow> pydict \<Rightarrow> outgoing \<Rightarrow> (route_error, outgoing) res" where
  "outgoing_route source_id route og = (case parse_port_index (get route ''output_index'') of
      None \<Rightarrow> Inl (OutgoingOutputInvalid source_id)
    | Some output_index \<Rightarrow>
        if \<not> is_list (get route ''targets'') then Inl (OutgoingTargetsNotArray source_id output_index)
        else rfold (outgoing_target source_id output_index) (list_items (get route ''targets'')) og)"

definition output_routes_to_outgoing :: "output_routes \<Rightarrow> (route_error, outgoing) res" where
  "output_routes_to_outgoing R =
     rfold (\<lambda>(source_id, routes). rfold (outgoing_route source_id) routes) R []"

section \<open>Links, removal and renaming\<close>

text \<open>\<open>routes_by_source_output\<close>: a dictionary keyed by source and output index.\<close>

definition pair_extend :: "'k \<Rightarrow> 'a \<Rightarrow> ('k \<times> 'a list) list \<Rightarrow> ('k \<times> 'a list) list" where
  "pair_extend k x d = AList.update k ((case map_of d k of None \<Rightarrow> [] | Some ys \<Rightarrow> ys) @ [x]) d"

definition collect_link :: "pyval \<Rightarrow> ((string \<times> int) \<times> pydict list) list
    \<Rightarrow> (route_error, ((string \<times> int) \<times> pydict list) list) res" where
  "collect_link link acc = (case link of
      PDict l \<Rightarrow>
        (case (get l ''from'', get l ''to'') of
           (PDict f, PDict t) \<Rightarrow>
             (let source_id = text_of (get f ''node''); target_node_id = text_of (get t ''node'') in
              case (parse_port_index (getd f ''index'' (PInt 0)), parse_port_index (getd t ''index'' (PInt 0))) of
                (Some output_index, Some input_index) \<Rightarrow>
                  if source_id = [] \<or> target_node_id = [] then Inl LinkEndpointsIncomplete
                  else Inr (pair_extend (source_id, output_index) (mk_target target_node_id input_index) acc)
              | _ \<Rightarrow> Inl LinkEndpointsIncomplete)
         | _ \<Rightarrow> Inl LinkEndpointsNotObjects)
    | _ \<Rightarrow> Inl LinkNotObject)"

definition endpoint_links_to_output_routes :: "pyval list \<Rightarrow> (route_error, output_routes) res" where
  "endpoint_links_to_output_routes links =
     rbind (rfold collect_link links []) (\<lambda>by_source_output.
       normalize_output_routes
         (routes_val (fold (\<lambda>((source_id, output_index), targets).
            dict_extend source_id [mk_route output_index targets]) by_source_output [])) None)"

definition target_names :: "string \<Rightarrow> pyval \<Rightarrow> bool" where
  "target_names node target = (case target of PDict d \<Rightarrow> text_of (get d ''node_id'') = node | _ \<Rightarrow> False)"

text \<open>One route of the pruned document and whether a target was dropped.\<close>

definition prune_route :: "string \<Rightarrow> pydict \<Rightarrow> pydict \<times> bool" where
  "prune_route removed_id route =
     (let targets = list_items (get route ''targets'');
          kept_targets = filter (\<lambda>t. is_dict t \<and> \<not> target_names removed_id t) targets
      in ([(''output_index'', get route ''output_index''), (''targets'', PList kept_targets)],
          length kept_targets \<noteq> length targets))"

fun prune_sources :: "string \<Rightarrow> output_routes \<Rightarrow> output_routes \<times> bool" where
  "prune_sources removed_id [] = ([], False)"
| "prune_sources removed_id ((source_id, routes) # rest) =
     (let (next_routes, changed) = prune_sources removed_id rest in
      if source_id = removed_id then (next_routes, True)
      else (let pruned = map (prune_route removed_id) routes in
            (if pruned = [] then next_routes else (source_id, map fst pruned) # next_routes,
             changed \<or> (\<exists>p \<in> set pruned. snd p))))"

definition prune_output_routes_for_removed_node ::
  "output_routes \<Rightarrow> string \<Rightarrow> (route_error, output_routes \<times> bool) res" where
  "prune_output_routes_for_removed_node R node_id = (let removed_id = py_strip node_id in
     if removed_id = [] then Inr (R, False)
     else (let (next_routes, changed) = prune_sources removed_id R in
           rbind (normalize_output_routes (routes_val next_routes) None) (\<lambda>N. Inr (N, changed))))"

text \<open>
  \<open>for target in route.get("targets") or []\<close>: a text or a dictionary iterates over
  texts, which are skipped; a number cannot be iterated over.
\<close>

definition iter_dicts :: "pyval \<Rightarrow> (route_error, pydict list) res" where
  "iter_dicts v = (if \<not> truthy v then Inr []
     else (case v of
         PList xs \<Rightarrow> Inr (map dict_items (filter is_dict xs))
       | PStr _ \<Rightarrow> Inr [] | PDict _ \<Rightarrow> Inr []
       | _ \<Rightarrow> Inl NotIterable))"

definition rename_target :: "string \<Rightarrow> string \<Rightarrow> pydict \<Rightarrow> pydict \<times> bool" where
  "rename_target old_id new_id d = (let target_node_id = text_of (get d ''node_id'') in
     ([(''node_id'', PStr (if target_node_id = old_id then new_id else target_node_id)),
       (''input_index'', getd d ''input_index'' (PInt 0))], target_node_id = old_id))"

definition rename_route :: "string \<Rightarrow> string \<Rightarrow> pydict \<Rightarrow> (route_error, pydict \<times> bool) res" where
  "rename_route old_id new_id route = rbind (iter_dicts (get route ''targets'')) (\<lambda>ds.
     (let ts = map (rename_target old_id new_id) ds in
      Inr ([(''output_index'', get route ''output_index''), (''targets'', PList (map (PDict \<circ> fst) ts))],
           \<exists>t \<in> set ts. snd t)))"

definition rename_source :: "string \<Rightarrow> string \<Rightarrow> string \<times> pydict list \<Rightarrow> output_routes \<times> bool
    \<Rightarrow> (route_error, output_routes \<times> bool) res" where
  "rename_source old_id new_id kv acc = rbind (rmap (rename_route old_id new_id) (snd kv)) (\<lambda>rs.
     Inr (dict_extend (if fst kv = old_id then new_id else fst kv) (map fst rs) (fst acc),
          snd acc \<or> fst kv = old_id \<or> (\<exists>r \<in> set rs. snd r)))"

definition rename_output_route_node ::
  "output_routes \<Rightarrow> string \<Rightarrow> string \<Rightarrow> (route_error, output_routes \<times> bool) res" where
  "rename_output_route_node R old_node_id new_node_id =
     (let old_id = py_strip old_node_id; new_id = py_strip new_node_id in
      if old_id = [] \<or> new_id = [] \<or> old_id = new_id then Inr (R, False)
      else rbind (rfold (rename_source old_id new_id) R ([], False)) (\<lambda>(renamed, changed).
             rbind (normalize_output_routes (routes_val renamed) None) (\<lambda>N. Inr (N, changed))))"

section \<open>Abstract wiring\<close>

text \<open>
  What a normalised document means: for each source its output ports, for each port the
  targets, in order. \<open>enc\<close> writes it as the document.
\<close>

type_synonym wiring = "(string \<times> (int \<times> (string \<times> int) list) list) list"

definition enc_route :: "int \<times> (string \<times> int) list \<Rightarrow> pydict" where
  "enc_route r = mk_route (fst r) (map (\<lambda>(n, i). mk_target n i) (snd r))"

definition enc :: "wiring \<Rightarrow> output_routes" where
  "enc A = map (\<lambda>(s, rs). (s, map enc_route rs)) A"

definition port_ok :: "int \<Rightarrow> bool" where
  "port_ok i \<longleftrightarrow> parse_port_index (PInt i) = Some i"

definition id_ok :: "string set option \<Rightarrow> string \<Rightarrow> bool" where
  "id_ok V n \<longleftrightarrow> n \<noteq> [] \<and> py_strip n = n \<and> id_allowed V n"

definition wf_targets :: "string set option \<Rightarrow> (string \<times> int) list \<Rightarrow> bool" where
  "wf_targets V ts \<longleftrightarrow> distinct ts \<and> (\<forall>(n, i) \<in> set ts. id_ok V n \<and> port_ok i)"

definition wf_source_routes :: "string set option \<Rightarrow> (int \<times> (string \<times> int) list) list \<Rightarrow> bool" where
  "wf_source_routes V rs \<longleftrightarrow> distinct (map fst rs) \<and> (\<forall>(k, ts) \<in> set rs. port_ok k \<and> wf_targets V ts)"

definition wf_wiring :: "string set option \<Rightarrow> wiring \<Rightarrow> bool" where
  "wf_wiring V A \<longleftrightarrow> distinct (map fst A) \<and>
     (\<forall>(s, rs) \<in> set A. id_ok V s \<and> rs \<noteq> [] \<and> wf_source_routes V rs)"

definition source_links :: "string \<times> (int \<times> (string \<times> int) list) list \<Rightarrow> outgoing_link list" where
  "source_links sr = concat (map (\<lambda>(k, ts). map (\<lambda>(n, i).
     \<lparr>link_id = output_route_target_id (fst sr) k n i, link_to = n, from_output_index = k, to_input_index = i\<rparr>) ts)
     (snd sr))"

definition wiring_links :: "wiring \<Rightarrow> outgoing" where
  "wiring_links A = filter (\<lambda>(s, ls). ls \<noteq> []) (map (\<lambda>sr. (fst sr, source_links sr)) A)"

definition drop_node :: "string \<Rightarrow> wiring \<Rightarrow> wiring" where
  "drop_node x A = map (\<lambda>(s, rs). (s, map (\<lambda>(k, ts). (k, filter (\<lambda>(n, i). n \<noteq> x) ts)) rs))
     (filter (\<lambda>(s, rs). s \<noteq> x) A)"

definition mentions :: "string \<Rightarrow> wiring \<Rightarrow> bool" where
  "mentions x A \<longleftrightarrow> (\<exists>(s, rs) \<in> set A. s = x \<or> (\<exists>(k, ts) \<in> set rs. \<exists>(n, i) \<in> set ts. n = x))"

definition subst_id :: "string \<Rightarrow> string \<Rightarrow> string \<Rightarrow> string" where
  "subst_id old new n = (if n = old then new else n)"

definition rename_wiring :: "string \<Rightarrow> string \<Rightarrow> wiring \<Rightarrow> wiring" where
  "rename_wiring old new A = map (\<lambda>(s, rs). (subst_id old new s,
     map (\<lambda>(k, ts). (k, map (\<lambda>(n, i). (subst_id old new n, i)) ts)) rs)) A"

section \<open>Normalisation is sound and idempotent\<close>

lemma parse_port_index_ok: "parse_port_index v = Some i \<Longrightarrow> port_ok i \<and> 0 \<le> i"
  by (auto simp: parse_port_index_def port_ok_def py_int_float_idem split: sum.splits if_splits)

lemma port_ok_nonneg: "port_ok i \<Longrightarrow> 0 \<le> i"
  unfolding port_ok_def using parse_port_index_ok by blast

lemma port_ok_small: "0 \<le> i \<Longrightarrow> i \<le> 2 ^ 53 \<Longrightarrow> port_ok i"
  using py_int_float_exact [of i] by (simp add: port_ok_def parse_port_index_def)

lemma text_of_strip [simp]: "py_strip (text_of v) = text_of v"
  by (simp add: text_of_def)

lemma mk_target_get [simp]:
  "getd (mk_target n i) ''node_id'' w = PStr n" "getd (mk_target n i) ''input_index'' w = PInt i"
  by (simp_all add: mk_target_def)

lemma mk_route_get [simp]:
  "getd (mk_route k ts) ''output_index'' w = PInt k" "getd (mk_route k ts) ''targets'' w = PList (map PDict ts)"
  by (simp_all add: mk_route_def)

lemma norm_targets_sound:
  assumes "norm_targets V src i j seen raw = Inr ts"
  shows "\<exists>xs. ts = map (\<lambda>(n, i). mk_target n i) xs \<and> wf_targets V xs \<and> set xs \<inter> seen = {}"
  using assms
proof (induction raw arbitrary: j seen ts)
  case Nil
  then show ?case by (intro exI [of _ "[]"]) (simp add: wf_targets_def)
next
  case (Cons t raw)
  obtain d where t: "t = PDict d" using Cons.prems by (cases t) simp_all
  define n where "n = text_of (get d ''node_id'')"
  obtain k where k: "parse_port_index (getd d ''input_index'' (PInt 0)) = Some k"
    using Cons.prems t by (auto simp: Let_def split: option.splits if_splits)
  obtain ts' where n: "n \<noteq> []" "id_allowed V n" "(n, k) \<notin> seen"
    and rest: "norm_targets V src i (Suc j) (insert (n, k) seen) raw = Inr ts'"
    and ts: "ts = mk_target n k # ts'"
    using Cons.prems t k by (auto simp: Let_def n_def split: if_splits)
  obtain xs where xs: "ts' = map (\<lambda>(n, i). mk_target n i) xs" "wf_targets V xs" "set xs \<inter> insert (n, k) seen = {}"
    using Cons.IH [OF rest] by blast
  have "wf_targets V ((n, k) # xs)"
    using xs(2,3) n parse_port_index_ok [OF k] by (auto simp: wf_targets_def id_ok_def n_def)
  then show ?case
    using xs n ts by (intro exI [of _ "(n, k) # xs"]) auto
qed

lemma norm_targets_complete:
  assumes "wf_targets V xs" and "set xs \<inter> seen = {}"
  shows "norm_targets V src i j seen (map PDict (map (\<lambda>(n, i). mk_target n i) xs))
    = Inr (map (\<lambda>(n, i). mk_target n i) xs)"
  using assms
proof (induction xs arbitrary: j seen)
  case (Cons x xs)
  obtain n k where x: "x = (n, k)" by fastforce
  have "norm_targets V src i (Suc j) (insert (n, k) seen) (map PDict (map (\<lambda>(n, i). mk_target n i) xs))
      = Inr (map (\<lambda>(n, i). mk_target n i) xs)"
    using Cons x by (intro Cons.IH) (auto simp: wf_targets_def)
  moreover have "id_ok V n" "port_ok k" "(n, k) \<notin> seen"
    using Cons.prems x by (auto simp: wf_targets_def)
  ultimately show ?case by (simp add: x id_ok_def port_ok_def)
qed simp

lemma norm_items_sound:
  assumes "norm_items V src i seen raw = Inr rs"
  shows "\<exists>xs. rs = map enc_route xs \<and> wf_source_routes V xs \<and> fst ` set xs \<inter> seen = {}"
  using assms
proof (induction raw arbitrary: i seen rs)
  case Nil
  then show ?case by (intro exI [of _ "[]"]) (simp add: wf_source_routes_def)
next
  case (Cons t raw)
  obtain d where t: "t = PDict d" using Cons.prems by (cases t) simp_all
  obtain k where k: "parse_port_index (get d ''output_index'') = Some k"
    using Cons.prems t by (auto simp: Let_def split: option.splits)
  define tv where "tv = (if is_none (get d ''targets'') then PList [] else get d ''targets'')"
  obtain ts rs' where new: "k \<notin> seen" "norm_targets V src i 0 {} (list_items tv) = Inr ts"
    and rest: "norm_items V src (Suc i) (insert k seen) raw = Inr rs'" and rs: "rs = mk_route k ts # rs'"
    using Cons.prems t k by (auto simp: Let_def tv_def [symmetric] split: if_splits)
  obtain ys where ys: "ts = map (\<lambda>(n, i). mk_target n i) ys" "wf_targets V ys"
    using norm_targets_sound [OF new(2)] by blast
  obtain xs where xs: "rs' = map enc_route xs" "wf_source_routes V xs" "fst ` set xs \<inter> insert k seen = {}"
    using Cons.IH [OF rest] by blast
  have "wf_source_routes V ((k, ys) # xs)"
    using xs(2,3) ys(2) parse_port_index_ok [OF k] by (auto simp: wf_source_routes_def)
  then show ?case
    using xs ys new rs by (intro exI [of _ "(k, ys) # xs"]) (auto simp: enc_route_def)
qed

lemma norm_items_complete:
  assumes "wf_source_routes V xs" and "fst ` set xs \<inter> seen = {}"
  shows "norm_items V src i seen (map PDict (map enc_route xs)) = Inr (map enc_route xs)"
  using assms
proof (induction xs arbitrary: i seen)
  case (Cons x xs)
  obtain k ts where x: "x = (k, ts)" by fastforce
  have "norm_items V src (Suc i) (insert k seen) (map PDict (map enc_route xs)) = Inr (map enc_route xs)"
    using Cons x by (intro Cons.IH) (auto simp: wf_source_routes_def)
  moreover have "norm_targets V src i 0 {} (map PDict (map (\<lambda>(n, i). mk_target n i) ts))
      = Inr (map (\<lambda>(n, i). mk_target n i) ts)"
    using Cons.prems x by (intro norm_targets_complete) (auto simp: wf_source_routes_def)
  moreover have "port_ok k" "k \<notin> seen" using Cons.prems x by (auto simp: wf_source_routes_def)
  ultimately show ?case by (simp add: x enc_route_def [of "(k, ts)"] port_ok_def)
qed simp

lemma list_items_enc: "list_items (PList (map PDict (map enc_route rs))) = map PDict (map enc_route rs)"
  by simp

lemma enc_dict_set: "dict_set s (map enc_route rs) (enc A) = enc (dict_set s rs A)"
  by (induction A) (auto simp: enc_def dict_set_def)

lemma distinct_dict_set: "distinct (map fst d) \<Longrightarrow> distinct (map fst (dict_set k v d))"
  using wf_dict_set [of d k v] by (simp add: wf_dict_def)

lemma wf_wiring_dict_set:
  assumes "wf_wiring V A" and "id_ok V s" and "rs \<noteq> []" and "wf_source_routes V rs"
  shows "wf_wiring V (dict_set s rs A)"
  using assms set_dict_set [of s rs A] by (auto simp: wf_wiring_def intro: distinct_dict_set)

lemma norm_source_sound:
  assumes "norm_source V kv R = Inr R'" and "R = enc A" and "wf_wiring V A"
  shows "\<exists>A'. R' = enc A' \<and> wf_wiring V A'"
proof -
  define s where "s = py_strip (fst kv)"
  have s: "id_ok V s" "is_list (snd kv)" using assms(1)
    by (auto simp: norm_source_def Let_def id_ok_def s_def split: if_splits)
  obtain rs where rs: "norm_items V s 0 {} (list_items (snd kv)) = Inr rs"
    and R': "R' = (if rs = [] then R else dict_set s rs R)"
    using assms(1) by (auto simp: norm_source_def Let_def s_def split: if_splits)
  obtain xs where xs: "rs = map enc_route xs" "wf_source_routes V xs"
    using norm_items_sound [OF rs] by blast
  show ?thesis
  proof (cases "xs = []")
    case True
    then show ?thesis using R' xs assms(2,3) by auto
  next
    case False
    then have "wf_wiring V (dict_set s xs A)" using wf_wiring_dict_set assms(3) s xs by blast
    then show ?thesis using R' xs False assms(2) by (auto simp: enc_dict_set)
  qed
qed

lemma normalize_sound:
  assumes "normalize_output_routes raw V = Inr R"
  obtains A where "R = enc A" and "wf_wiring V A"
proof -
  have nil: "\<exists>A. [] = enc A \<and> wf_wiring V A"
    by (intro exI [of _ "[]"]) (simp add: enc_def wf_wiring_def)
  have "\<exists>A. R = enc A \<and> wf_wiring V A"
  proof (cases raw)
    case (PDict d)
    then have "rfold (norm_source V) d [] = Inr R" using assms by (simp add: normalize_output_routes_def)
    then show ?thesis
      by (rule rfold_invariant [where I = "\<lambda>R. \<exists>A. R = enc A \<and> wf_wiring V A", OF _ nil])
        (blast dest: norm_source_sound)
  qed (use assms nil in \<open>simp_all add: normalize_output_routes_def\<close>)
  then show thesis using that by blast
qed

lemma norm_source_complete:
  assumes "id_ok V s" and "rs \<noteq> []" and "wf_source_routes V rs" and "s \<notin> fst ` set R"
  shows "norm_source V (s, PList (map PDict (map enc_route rs))) R = Inr (R @ [(s, map enc_route rs)])"
proof -
  have "norm_items V s 0 {} (map PDict (map enc_route rs)) = Inr (map enc_route rs)"
    using assms(3) by (intro norm_items_complete) simp_all
  then show ?thesis
    using assms by (simp add: norm_source_def id_ok_def dict_set_new)
qed

lemma normalize_complete:
  assumes "wf_wiring V A"
  shows "normalize_output_routes (routes_val (enc A)) V = Inr (enc A)"
proof -
  have "rfold (norm_source V) (map (\<lambda>(k, rs). (k, PList (map PDict rs))) (enc B)) R = Inr (R @ enc B)"
    if "wf_wiring V B" and "fst ` set R \<inter> fst ` set B = {}" for B R
    using that
  proof (induction B arbitrary: R)
    case Nil
    then show ?case by (simp add: enc_def)
  next
    case (Cons b B)
    obtain s rs where b: "b = (s, rs)" by fastforce
    have "norm_source V (s, PList (map PDict (map enc_route rs))) R = Inr (R @ [(s, map enc_route rs)])"
      using Cons.prems b by (intro norm_source_complete) (auto simp: wf_wiring_def)
    moreover have "rfold (norm_source V) (map (\<lambda>(k, rs). (k, PList (map PDict rs))) (enc B)) (R @ [(s, map enc_route rs)])
        = Inr ((R @ [(s, map enc_route rs)]) @ enc B)"
      using Cons.prems b by (intro Cons.IH) (auto simp: wf_wiring_def)
    ultimately show ?case by (simp add: b enc_def)
  qed
  from this [of A "[]"] assms show ?thesis
    by (simp add: normalize_output_routes_def routes_val_def)
qed

section \<open>The outgoing table\<close>

lemma outgoing_target_enc:
  assumes "id_ok V n" and "port_ok i"
  shows "outgoing_target s k (PDict (mk_target n i)) og = Inr (dict_extend s
    [\<lparr>link_id = output_route_target_id s k n i, link_to = n, from_output_index = k, to_input_index = i\<rparr>] og)"
  using assms by (simp add: outgoing_target_def id_ok_def port_ok_def)

lemma dict_extend_snoc:
  "s \<notin> fst ` set og \<Longrightarrow> dict_extend s xs (og @ [(s, ys)]) = og @ [(s, ys @ xs)]"
  by (induction og) (auto simp: dict_extend_def dict_set_def split: option.splits)

lemma dict_extend_new: "s \<notin> fst ` set og \<Longrightarrow> dict_extend s xs og = og @ [(s, xs)]"
proof -
  assume "s \<notin> fst ` set og"
  then have "map_of og s = None" by (simp add: map_of_eq_None_iff)
  with \<open>s \<notin> fst ` set og\<close> show ?thesis by (simp add: dict_extend_def dict_set_new)
qed

text \<open>The table built so far, with the links of the current source at its end.\<close>

definition with_links :: "outgoing \<Rightarrow> string \<Rightarrow> outgoing_link list \<Rightarrow> outgoing" where
  "with_links og s ls = (if ls = [] then og else og @ [(s, ls)])"

lemma dict_extend_with_links:
  "s \<notin> fst ` set og \<Longrightarrow> dict_extend s [l] (with_links og s ls) = with_links og s (ls @ [l])"
  by (simp add: with_links_def dict_extend_new dict_extend_snoc)

lemma outgoing_targets_enc:
  assumes "s \<notin> fst ` set og" and "wf_targets V ts"
  shows "rfold (outgoing_target s k) (map PDict (map (\<lambda>(n, i). mk_target n i) ts)) (with_links og s ls)
    = Inr (with_links og s (ls @ map (\<lambda>(n, i). \<lparr>link_id = output_route_target_id s k n i, link_to = n,
        from_output_index = k, to_input_index = i\<rparr>) ts))"
  using assms(2)
proof (induction ts arbitrary: ls)
  case (Cons t ts)
  obtain n i where t: "t = (n, i)" by fastforce
  have ok: "id_ok V n" "port_ok i" "wf_targets V ts" using Cons.prems t by (auto simp: wf_targets_def)
  show ?case
    using Cons.IH [OF ok(3)]
    by (simp add: t outgoing_target_enc [OF ok(1,2)] dict_extend_with_links [OF assms(1)])
qed simp

lemma outgoing_routes_enc:
  assumes "s \<notin> fst ` set og" and "wf_source_routes V rs"
  shows "rfold (outgoing_route s) (map enc_route rs) (with_links og s ls)
    = Inr (with_links og s (ls @ source_links (s, rs)))"
  using assms(2)
proof (induction rs arbitrary: ls)
  case Nil
  then show ?case by (simp add: source_links_def)
next
  case (Cons r rs)
  obtain k ts where r: "r = (k, ts)" by fastforce
  have ok: "port_ok k" "wf_targets V ts" "wf_source_routes V rs"
    using Cons.prems r by (auto simp: wf_source_routes_def)
  have "outgoing_route s (enc_route r) (with_links og s ls)
      = Inr (with_links og s (ls @ map (\<lambda>(n, i). \<lparr>link_id = output_route_target_id s k n i, link_to = n,
          from_output_index = k, to_input_index = i\<rparr>) ts))"
    using ok(1) outgoing_targets_enc [OF assms(1) ok(2), of k ls]
    by (simp add: r outgoing_route_def enc_route_def port_ok_def)
  then show ?case
    using Cons.IH [OF ok(3)] by (simp add: r source_links_def)
qed

lemma outgoing_enc:
  assumes "wf_wiring V A"
  shows "output_routes_to_outgoing (enc A) = Inr (wiring_links A)"
proof -
  have "rfold (\<lambda>(s, routes). rfold (outgoing_route s) routes) (enc B) og = Inr (og @ wiring_links B)"
    if "wf_wiring V B" and "fst ` set og \<inter> fst ` set B = {}" for B og
    using that
  proof (induction B arbitrary: og)
    case Nil
    then show ?case by (simp add: enc_def wiring_links_def)
  next
    case (Cons b B)
    obtain s rs where b: "b = (s, rs)" by fastforce
    have new: "s \<notin> fst ` set og" and wf: "wf_source_routes V rs" "wf_wiring V B" "s \<notin> fst ` set B"
      using Cons.prems b by (auto simp: wf_wiring_def)
    have step: "rfold (outgoing_route s) (map enc_route rs) og = Inr (with_links og s (source_links (s, rs)))"
      using outgoing_routes_enc [OF new wf(1), of "[]"] by (simp add: with_links_def)
    have "rfold (\<lambda>(s, routes). rfold (outgoing_route s) routes) (enc B) (with_links og s (source_links (s, rs)))
        = Inr (with_links og s (source_links (s, rs)) @ wiring_links B)"
      using Cons.prems b wf by (intro Cons.IH) (auto simp: with_links_def)
    with step show ?case
      by (simp add: b enc_def wiring_links_def with_links_def)
  qed
  from this [of A "[]"] assms show ?thesis by (simp add: output_routes_to_outgoing_def)
qed

section \<open>Removing and renaming a node\<close>

lemma id_ok_None: "id_ok V n \<Longrightarrow> id_ok None n"
  by (simp add: id_ok_def id_allowed_def)

lemma wf_targets_None: "wf_targets V ts \<Longrightarrow> wf_targets None ts"
  by (auto simp: wf_targets_def intro: id_ok_None)

lemma wf_source_routes_None: "wf_source_routes V rs \<Longrightarrow> wf_source_routes None rs"
  by (auto simp: wf_source_routes_def intro: wf_targets_None)

lemma wf_wiring_None: "wf_wiring V A \<Longrightarrow> wf_wiring None A"
  by (auto simp: wf_wiring_def intro: id_ok_None wf_source_routes_None)

lemma wf_wiring_Cons:
  "wf_wiring V ((s, rs) # A) \<longleftrightarrow> s \<notin> fst ` set A \<and> id_ok V s \<and> rs \<noteq> [] \<and> wf_source_routes V rs \<and> wf_wiring V A"
  by (auto simp: wf_wiring_def)

lemma wf_source_routes_Cons:
  "wf_source_routes V ((k, ts) # rs) \<longleftrightarrow> k \<notin> fst ` set rs \<and> port_ok k \<and> wf_targets V ts \<and> wf_source_routes V rs"
  by (auto simp: wf_source_routes_def)

lemma wf_targets_filter: "wf_targets V ts \<Longrightarrow> wf_targets V (filter P ts)"
  by (auto simp: wf_targets_def)

lemma wf_source_routes_map:
  assumes "wf_source_routes V rs" and "\<And>k ts. (k, ts) \<in> set rs \<Longrightarrow> wf_targets V' (f ts)"
  shows "wf_source_routes V' (map (\<lambda>(k, ts). (k, f ts)) rs)"
  using assms by (auto simp: wf_source_routes_def case_prod_beta comp_def)

lemma fst_drop_node: "fst ` set (drop_node x A) = fst ` set A - {x}"
  by (force simp: drop_node_def)

lemma drop_node_Cons:
  "drop_node x ((s, rs) # A) = (if s = x then drop_node x A
     else (s, map (\<lambda>(k, ts). (k, filter (\<lambda>(n, i). n \<noteq> x) ts)) rs) # drop_node x A)"
  by (simp add: drop_node_def)

lemma wf_drop_node: "wf_wiring V A \<Longrightarrow> wf_wiring V (drop_node x A)"
proof (induction A)
  case Nil
  then show ?case by (simp add: drop_node_def wf_wiring_def)
next
  case (Cons a A)
  obtain s rs where a: "a = (s, rs)" by fastforce
  have "wf_source_routes V (map (\<lambda>(k, ts). (k, filter (\<lambda>(n, i). n \<noteq> x) ts)) rs)"
    using Cons.prems by (intro wf_source_routes_map [of V rs])
      (auto simp: a wf_wiring_Cons wf_source_routes_def intro: wf_targets_filter)
  then show ?case
    using Cons fst_drop_node [of x A] by (auto simp: a drop_node_Cons wf_wiring_Cons)
qed

lemma target_names_enc: "id_ok V n \<Longrightarrow> target_names x (PDict (mk_target n i)) \<longleftrightarrow> n = x"
  by (simp add: target_names_def id_ok_def)

lemma prune_targets_enc:
  assumes "wf_targets V ts"
  shows "filter (\<lambda>t. is_dict t \<and> \<not> target_names x t) (map PDict (map (\<lambda>(n, i). mk_target n i) ts))
    = map PDict (map (\<lambda>(n, i). mk_target n i) (filter (\<lambda>(n, i). n \<noteq> x) ts))"
proof -
  have "\<forall>t \<in> set ts. id_ok V (fst t)" using assms by (force simp: wf_targets_def)
  then show ?thesis
    by (induction ts) (auto simp: target_names_enc [of V])
qed

lemma prune_route_enc:
  assumes "wf_targets V ts"
  shows "prune_route x (enc_route (k, ts)) =
    (enc_route (k, filter (\<lambda>(n, i). n \<noteq> x) ts), \<exists>(n, i) \<in> set ts. n = x)"
proof -
  have "length (filter (\<lambda>(n, i). n \<noteq> x) ts) \<noteq> length ts \<longleftrightarrow> (\<exists>(n, i) \<in> set ts. n = x)"
    by (induction ts) (auto simp: le_imp_less_Suc less_imp_neq)
  then show ?thesis
    by (simp add: prune_route_def Let_def enc_route_def mk_route_def prune_targets_enc [OF assms] del: map_map)
qed

lemma prune_routes_enc:
  assumes "wf_source_routes V rs"
  shows "map (prune_route x) (map enc_route rs) =
    map (\<lambda>(k, ts). (enc_route (k, filter (\<lambda>(n, i). n \<noteq> x) ts), \<exists>(n, i) \<in> set ts. n = x)) rs"
  using assms by (induction rs) (auto simp: wf_source_routes_Cons prune_route_enc)

lemma mentions_Cons:
  "mentions x ((s, rs) # A) \<longleftrightarrow> s = x \<or> (\<exists>(k, ts) \<in> set rs. \<exists>(n, i) \<in> set ts. n = x) \<or> mentions x A"
  by (auto simp: mentions_def)

lemma prune_sources_enc:
  assumes "wf_wiring V A"
  shows "prune_sources x (enc A) = (enc (drop_node x A), mentions x A)"
  using assms
proof (induction A)
  case Nil
  then show ?case by (simp add: enc_def drop_node_def mentions_def)
next
  case (Cons a A)
  obtain s rs where a: "a = (s, rs)" by fastforce
  have wf: "wf_source_routes V rs" "rs \<noteq> []" "wf_wiring V A" using Cons.prems by (auto simp: a wf_wiring_Cons)
  have enc: "enc ((s, rs) # A) = (s, map enc_route rs) # enc A" by (simp add: enc_def)
  have enc': "enc ((s, xs) # B) = (s, map enc_route xs) # enc B" for xs B by (simp add: enc_def)
  show ?case
    unfolding a enc prune_sources.simps Cons.IH [OF wf(3)] prune_routes_enc [OF wf(1)]
    using wf(2) by (auto simp: drop_node_Cons enc' mentions_Cons comp_def case_prod_beta Let_def)
qed

lemma prune_enc:
  assumes "wf_wiring V A" and "py_strip x \<noteq> []"
  shows "prune_output_routes_for_removed_node (enc A) x
    = Inr (enc (drop_node (py_strip x) A), mentions (py_strip x) A)"
proof -
  have "normalize_output_routes (routes_val (enc (drop_node (py_strip x) A))) None = Inr (enc (drop_node (py_strip x) A))"
    using assms(1) by (intro normalize_complete wf_wiring_None [of V] wf_drop_node)
  then show ?thesis
    using assms(2) by (simp add: prune_output_routes_for_removed_node_def prune_sources_enc [OF assms(1)] Let_def)
qed

lemma rename_target_enc:
  "id_ok V n \<Longrightarrow> rename_target old new (mk_target n i) = (mk_target (subst_id old new n) i, n = old)"
  by (simp add: rename_target_def Let_def id_ok_def subst_id_def) (simp add: mk_target_def)

lemma iter_dicts_enc: "iter_dicts (PList (map PDict ds)) = Inr ds"
  by (simp add: iter_dicts_def comp_def)

lemma rename_route_enc:
  assumes "wf_targets V ts"
  shows "rename_route old new (enc_route (k, ts)) =
    Inr (enc_route (k, map (\<lambda>(n, i). (subst_id old new n, i)) ts), \<exists>(n, i) \<in> set ts. n = old)"
proof -
  have eq: "map (rename_target old new) (map (\<lambda>(n, i). mk_target n i) ts)
      = map (\<lambda>(n, i). (mk_target (subst_id old new n) i, n = old)) ts"
    using assms by (auto simp: wf_targets_def rename_target_enc)
  show ?thesis
    unfolding rename_route_def enc_route_def fst_conv snd_conv mk_route_get iter_dicts_enc rbind_Inr eq Let_def
    by (auto simp: mk_route_def comp_def case_prod_beta)
qed

lemma rename_routes_enc:
  assumes "wf_source_routes V rs"
  shows "rmap (rename_route old new) (map enc_route rs) = Inr (map (\<lambda>(k, ts).
    (enc_route (k, map (\<lambda>(n, i). (subst_id old new n, i)) ts), \<exists>(n, i) \<in> set ts. n = old)) rs)"
  using assms by (induction rs) (auto simp: wf_source_routes_Cons rename_route_enc)

lemma rename_source_enc:
  assumes "wf_source_routes V rs"
  shows "rename_source old new (s, map enc_route rs) (R, c) =
    Inr (dict_extend (subst_id old new s)
           (map enc_route (map (\<lambda>(k, ts). (k, map (\<lambda>(n, i). (subst_id old new n, i)) ts)) rs)) R,
         c \<or> s = old \<or> (\<exists>(k, ts) \<in> set rs. \<exists>(n, i) \<in> set ts. n = old))"
  by (auto simp: rename_source_def rename_routes_enc [OF assms] subst_id_def comp_def case_prod_beta)

lemma fst_rename_wiring: "fst ` set (rename_wiring old new A) = subst_id old new ` fst ` set A"
  by (force simp: rename_wiring_def)

lemma rename_wiring_Cons:
  "rename_wiring old new ((s, rs) # A) = (subst_id old new s,
     map (\<lambda>(k, ts). (k, map (\<lambda>(n, i). (subst_id old new n, i)) ts)) rs) # rename_wiring old new A"
  by (simp add: rename_wiring_def)

lemma subst_id_inj: "n \<noteq> new \<Longrightarrow> m \<noteq> new \<Longrightarrow> subst_id old new n = subst_id old new m \<longleftrightarrow> n = m"
  by (auto simp: subst_id_def)

lemma mentions_source: "\<not> mentions x A \<Longrightarrow> x \<notin> fst ` set A"
  by (force simp: mentions_def)

lemma wf_targets_rename:
  assumes "wf_targets V ts" and "id_ok None new" and "\<forall>(n, i) \<in> set ts. n \<noteq> new"
  shows "wf_targets None (map (\<lambda>(n, i). (subst_id old new n, i)) ts)"
proof -
  have "inj_on (\<lambda>(n, i). (subst_id old new n, i)) (set ts)"
    using assms(3) by (fastforce simp: inj_on_def subst_id_def split: if_splits)
  then show ?thesis
    using assms wf_targets_None [OF assms(1)] by (auto simp: wf_targets_def distinct_map subst_id_def)
qed

lemma wf_rename_wiring:
  assumes "wf_wiring V A" and "id_ok None new" and "\<not> mentions new A"
  shows "wf_wiring None (rename_wiring old new A)"
  using assms
proof (induction A)
  case Nil
  then show ?case by (simp add: rename_wiring_def wf_wiring_def)
next
  case (Cons a A)
  obtain s rs where a: "a = (s, rs)" by fastforce
  have prems: "wf_source_routes V rs" "s \<notin> fst ` set A" "id_ok V s" "s \<noteq> new" "new \<notin> fst ` set A"
    "\<forall>(k, ts) \<in> set rs. \<forall>(n, i) \<in> set ts. n \<noteq> new"
    using Cons.prems mentions_source [of new A] unfolding a wf_wiring_Cons mentions_Cons by fast+
  have "wf_source_routes None (map (\<lambda>(k, ts). (k, map (\<lambda>(n, i). (subst_id old new n, i)) ts)) rs)"
    using prems(1,6) assms(2) by (intro wf_source_routes_map [of V rs])
      (auto simp: wf_source_routes_def intro!: wf_targets_rename [of V])
  moreover have "subst_id old new s \<notin> fst ` set (rename_wiring old new A)"
    unfolding fst_rename_wiring using prems(2,4,5) by (force simp: subst_id_def split: if_splits)
  ultimately show ?case
    using Cons prems by (auto simp: a rename_wiring_Cons wf_wiring_Cons mentions_Cons subst_id_def dest: id_ok_None)
qed

lemma rename_sources_enc:
  assumes "wf_wiring V A" and "\<not> mentions new A" and "fst ` set R \<inter> subst_id old new ` fst ` set A = {}"
  shows "rfold (rename_source old new) (enc A) (R, c) = Inr (R @ enc (rename_wiring old new A), c \<or> mentions old A)"
  using assms
proof (induction A arbitrary: R c)
  case Nil
  then show ?case by (simp add: enc_def rename_wiring_def mentions_def)
next
  case (Cons a A)
  obtain s rs where a: "a = (s, rs)" by fastforce
  have wf: "wf_source_routes V rs" "wf_wiring V A" "\<not> mentions new A" "s \<notin> fst ` set A" "s \<noteq> new" "new \<notin> fst ` set A"
    using Cons.prems mentions_source [of new A] by (auto simp: a wf_wiring_Cons mentions_Cons)
  define rs' where "rs' = map enc_route (map (\<lambda>(k, ts). (k, map (\<lambda>(n, i). (subst_id old new n, i)) ts)) rs)"
  define c' where "c' \<longleftrightarrow> c \<or> s = old \<or> (\<exists>(k, ts) \<in> set rs. \<exists>(n, i) \<in> set ts. n = old)"
  have new: "subst_id old new s \<notin> fst ` set R" using Cons.prems by (auto simp: a)
  have step: "rename_source old new (s, map enc_route rs) (R, c) = Inr (R @ [(subst_id old new s, rs')], c')"
    unfolding rename_source_enc [OF wf(1)] rs'_def c'_def using new by (simp add: dict_extend_new)
  have "rfold (rename_source old new) (enc A) (R @ [(subst_id old new s, rs')], c')
      = Inr ((R @ [(subst_id old new s, rs')]) @ enc (rename_wiring old new A), c' \<or> mentions old A)"
  proof (rule Cons.IH [OF wf(2,3)])
    have "subst_id old new s \<notin> subst_id old new ` fst ` set A"
      using wf(4-6) by (force simp: subst_id_def split: if_splits)
    then show "fst ` set (R @ [(subst_id old new s, rs')]) \<inter> subst_id old new ` fst ` set A = {}"
      using Cons.prems(3) by (simp add: a disjoint_iff)
  qed
  then show ?case
    using step by (auto simp: a enc_def rename_wiring_def rs'_def c'_def mentions_Cons)
qed

lemma rename_enc:
  assumes "wf_wiring V A" and "py_strip old \<noteq> []" and "py_strip new \<noteq> []" and "py_strip old \<noteq> py_strip new"
    and "\<not> mentions (py_strip new) A"
  shows "rename_output_route_node (enc A) old new
    = Inr (enc (rename_wiring (py_strip old) (py_strip new) A), mentions (py_strip old) A)"
proof -
  have "id_ok None (py_strip new)" using assms(3) by (simp add: id_ok_def id_allowed_def)
  then have "normalize_output_routes (routes_val (enc (rename_wiring (py_strip old) (py_strip new) A))) None
      = Inr (enc (rename_wiring (py_strip old) (py_strip new) A))"
    using assms by (intro normalize_complete wf_rename_wiring)
  then show ?thesis
    using assms rename_sources_enc [OF assms(1,5), of "[]" "py_strip old" False]
    by (simp add: rename_output_route_node_def Let_def)
qed

section \<open>Properties\<close>

lemma parse_port_index_small [simp]: "0 \<le> i \<Longrightarrow> i \<le> 2 ^ 53 \<Longrightarrow> parse_port_index (PInt i) = Some i"
  using port_ok_small by (simp add: port_ok_def)

lemma drop_node_forgets: "\<not> mentions x (drop_node x A)"
  by (auto simp: mentions_def drop_node_def)

text \<open>
  C31. Whatever document is read, if normalisation accepts it then the result is the encoding of
  a well-formed wiring (every source and target id is non-empty, stripped and allowed, no
  output index occurs twice under a source, no target twice under a route), and normalising
  the result again returns it unchanged.
\<close>

theorem routes_normalize_fixpoint:
  assumes "normalize_output_routes raw V = Inr R"
  shows "(\<exists>A. R = enc A \<and> wf_wiring V A) \<and> normalize_output_routes (routes_val R) V = Inr R"
  using normalize_sound [OF assms] normalize_complete by metis

definition sample_routes :: pyval where
  "sample_routes = PDict [('' a '', PList [PDict [(''output_index'', PInt 2), (''targets'',
     PList [PDict [(''node_id'', PStr ''b''), (''input_index'', PInt 1)], PDict [(''node_id'', PStr ''c'')]])]])]"

definition sample_wiring :: wiring where
  "sample_wiring = [(''a'', [(2, [(''b'', 1), (''c'', 0)])])]"

lemma sample_routes_normalize: "normalize_output_routes sample_routes (Some {''a'', ''b'', ''c''}) = Inr (enc sample_wiring)"
  by (simp add: sample_routes_def sample_wiring_def normalize_output_routes_def norm_source_def enc_def
      enc_route_def id_allowed_def strip_eval Let_def dict_set_def)

theorem routes_normalize_fixpoint_witness:
  "normalize_output_routes (routes_val (enc sample_wiring)) (Some {''a'', ''b'', ''c''}) = Inr (enc sample_wiring)"
  using routes_normalize_fixpoint [OF sample_routes_normalize] by blast

text \<open>Building the outgoing-link table from a normalised document never raises, and the table
  holds for each source exactly the links its routes list, in their order, with no entry for
  a source without targets.
\<close>

lemma routes_outgoing_exact:
  assumes "normalize_output_routes raw V = Inr R"
  shows "\<exists>A. R = enc A \<and> output_routes_to_outgoing R = Inr (wiring_links A)"
  using normalize_sound [OF assms] outgoing_enc by metis

theorem routes_outgoing_exact_witness:
  "\<exists>A. enc sample_wiring = enc A \<and> output_routes_to_outgoing (enc sample_wiring) = Inr (wiring_links A)"
  by (rule routes_outgoing_exact [OF sample_routes_normalize])

text \<open>Pruning a removed node from a normalised document never raises: the result is the same
  wiring without the node as a source and as a target, it does not mention the node, and
  the change flag says exactly whether the node was mentioned before.
\<close>

lemma routes_prune_exact:
  assumes "normalize_output_routes raw V = Inr R" and "py_strip x \<noteq> []"
  shows "\<exists>A. R = enc A \<and> \<not> mentions (py_strip x) (drop_node (py_strip x) A) \<and>
    prune_output_routes_for_removed_node R x = Inr (enc (drop_node (py_strip x) A), mentions (py_strip x) A)"
  using normalize_sound [OF assms(1)] prune_enc [OF _ assms(2)] drop_node_forgets by metis

theorem routes_prune_exact_witness:
  "\<exists>A. enc sample_wiring = enc A \<and> \<not> mentions (py_strip ''b'') (drop_node (py_strip ''b'') A) \<and>
    prune_output_routes_for_removed_node (enc sample_wiring) ''b''
      = Inr (enc (drop_node (py_strip ''b'') A), mentions (py_strip ''b'') A)"
  by (rule routes_prune_exact [OF sample_routes_normalize]) (simp add: strip_eval)

text \<open>Renaming a node to a name the wiring does not use never raises: every source and target
  keeps its ports and its place with the new name, and the change flag says exactly whether
  the old name was mentioned.
\<close>

lemma routes_rename_exact:
  assumes "wf_wiring V A"
    and "py_strip old \<noteq> []" and "py_strip new \<noteq> []" and "py_strip old \<noteq> py_strip new"
    and "\<not> mentions (py_strip new) A"
  shows "rename_output_route_node (enc A) old new
    = Inr (enc (rename_wiring (py_strip old) (py_strip new) A), mentions (py_strip old) A)"
  using assms by (rule rename_enc)

lemma sample_wiring_wf: "wf_wiring (Some {''a'', ''b'', ''c''}) sample_wiring"
  by (simp add: sample_wiring_def wf_wiring_def wf_source_routes_def wf_targets_def id_ok_def id_allowed_def
      port_ok_def strip_eval)

theorem routes_rename_exact_witness:
  "rename_output_route_node (enc sample_wiring) ''b'' ''d''
    = Inr (enc (rename_wiring (py_strip ''b'') (py_strip ''d'') sample_wiring), mentions (py_strip ''b'') sample_wiring)"
  by (rule routes_rename_exact [OF sample_wiring_wf])
    (simp_all add: strip_eval mentions_def sample_wiring_def)

end
