(* ===== verification/NodeState.thy ===== *)
theory NodeState
  imports PyValue
begin

text \<open>
  The state of one node: the states \<open>idle\<close>, \<open>working\<close> and \<open>stop\<close>, the event
  counter (\<open>node_event_sequence.py\<close>) and the recovery plans of
  \<open>node_state_machine.py\<close>: what to do with a node found at start-up, and with a node
  that claims to work although nothing is in flight.
\<close>

section \<open>States\<close>

datatype node_state = Idle | Working | Stop

fun state_str :: "node_state \<Rightarrow> string" where
  "state_str Idle = ''idle''"
| "state_str Working = ''working''"
| "state_str Stop = ''stop''"

definition parse_node_state :: "pyval \<Rightarrow> node_state" where
  "parse_node_state v = (case v of
      PStr s \<Rightarrow> (let candidate = py_lower (py_strip s) in
        if candidate = ''running'' then Working
        else if candidate = ''idle'' then Idle
        else if candidate = ''working'' then Working
        else if candidate = ''stop'' then Stop
        else Idle)
    | _ \<Rightarrow> Idle)"

text \<open>The exceptions of the node runtime.\<close>

datatype rt_error =
    RtPy py_error
  | StateInvalid
  | PendingNotList
  | PendingItemNotObject nat
  | PendingCountWithoutPending
  | FieldNotObject string
  | FieldNotList string
  | FieldNotNonNegativeInt string
  | OutputResourceInvalid nat
  | OutputResourceUriRequired nat
  | UnknownFields "string list"
  | UndeclaredFields "string list"
  | NodeDeleting
  | NodeBusy
  | HeldOutputsNotList
  | DiagnosticsProjectionError

definition lift_py :: "(py_error, 'a) res \<Rightarrow> (rt_error, 'a) res" where
  "lift_py r = (case r of Inl e \<Rightarrow> Inl (RtPy e) | Inr a \<Rightarrow> Inr a)"

section \<open>The event counter\<close>

definition NODE_EVENT_SEQ_FIELD :: string where
  "NODE_EVENT_SEQ_FIELD = ''node_event_seq''"

text \<open>\<open>int(value or 0)\<close>, 0 where it raises \<open>TypeError\<close> or \<open>ValueError\<close>.\<close>

definition event_seq_int :: "pyval \<Rightarrow> (rt_error, int) res" where
  "event_seq_int v = (if is_bool v then Inr 0 else
     case py_int (py_or v (PInt 0)) of
       Inl OverflowError \<Rightarrow> Inl (RtPy OverflowError)
     | Inl _ \<Rightarrow> Inr 0
     | Inr n \<Rightarrow> Inr n)"

definition bump_node_event_seq :: "pydict \<Rightarrow> (rt_error, pydict) res" where
  "bump_node_event_seq payload = rbind (event_seq_int (get payload NODE_EVENT_SEQ_FIELD)) (\<lambda>current_seq.
     Inr (dict_set NODE_EVENT_SEQ_FIELD (PInt (max 0 current_seq + 1)) payload))"

definition read_node_event_seq :: "pydict \<Rightarrow> (rt_error, int) res" where
  "read_node_event_seq payload = rbind (event_seq_int (get payload NODE_EVENT_SEQ_FIELD)) (\<lambda>n. Inr (max 0 n))"

section \<open>Recovery plans\<close>

record recovery_plan =
  plan_changed :: bool
  plan_reason :: string
  plan_after :: node_state
  plan_requeue :: bool
  plan_clear :: bool
  plan_preserve_stop :: bool
  plan_pending_count :: int

definition no_plan :: recovery_plan where
  "no_plan = \<lparr>plan_changed = False, plan_reason = [], plan_after = Idle, plan_requeue = False,
     plan_clear = False, plan_preserve_stop = False, plan_pending_count = 0\<rparr>"

definition plan_to_result :: "recovery_plan \<Rightarrow> pydict" where
  "plan_to_result p = [(''recovered'', PBool (plan_changed p)), (''reason'', PStr (plan_reason p)),
     (''after_state'', PStr (state_str (plan_after p))),
     (''inflight_requeued'', PBool (plan_requeue p)), (''pending_count'', PInt (plan_pending_count p))]"

definition pending_count :: "pydict \<Rightarrow> (rt_error, int) res" where
  "pending_count payload = (case get payload ''pending'' of
      PList xs \<Rightarrow> Inr (int (length xs))
    | _ \<Rightarrow> (let v = get payload ''pending_count'' in
        if is_int v \<or> is_float v then rbind (lift_py (py_int v)) (\<lambda>n. Inr (max 0 n)) else Inr 0))"

definition is_clock_waiting :: "pydict \<Rightarrow> bool" where
  "is_clock_waiting payload \<longleftrightarrow>
     parse_node_state (get payload ''state'') = Working
     \<and> text_of (get payload ''type_id'') = ''clock_node''
     \<and> truthy (get payload ''_clock_running'')
     \<and> \<not> is_dict (get payload ''inflight'')"

definition plan_startup_recovery :: "pydict \<Rightarrow> (rt_error, recovery_plan) res" where
  "plan_startup_recovery payload = (let before_state = parse_node_state (get payload ''state'') in
     rbind (pending_count payload) (\<lambda>n. Inr (
       if before_state = Stop then
         no_plan\<lparr>plan_reason := ''stop_state_preserved'', plan_after := Stop, plan_preserve_stop := True, plan_pending_count := n\<rparr>
       else if is_dict (get payload ''inflight'') then
         no_plan\<lparr>plan_changed := True, plan_reason := ''startup_inflight_requeued'', plan_after := Idle,
           plan_requeue := True, plan_clear := True, plan_pending_count := n + 1\<rparr>
       else if before_state = Working \<and> \<not> is_clock_waiting payload then
         no_plan\<lparr>plan_changed := True, plan_reason := ''startup_missing_inflight'', plan_after := Idle,
           plan_clear := True, plan_pending_count := n\<rparr>
       else no_plan\<lparr>plan_after := before_state, plan_pending_count := n\<rparr>)))"

definition plan_stale_working_recovery :: "pydict \<Rightarrow> (rt_error, recovery_plan) res" where
  "plan_stale_working_recovery payload = (let before_state = parse_node_state (get payload ''state'') in
     rbind (pending_count payload) (\<lambda>n. Inr (
       if before_state \<noteq> Working then no_plan\<lparr>plan_after := before_state, plan_pending_count := n\<rparr>
       else if is_clock_waiting payload then
         no_plan\<lparr>plan_reason := ''clock_waiting'', plan_after := Working, plan_pending_count := n\<rparr>
       else if is_dict (get payload ''inflight'') then
         no_plan\<lparr>plan_reason := ''active_inflight'', plan_after := Working, plan_pending_count := n\<rparr>
       else no_plan\<lparr>plan_changed := True, plan_reason := ''missing_inflight'', plan_after := Idle,
              plan_clear := True, plan_pending_count := n\<rparr>)))"

definition apply_recovery_plan :: "pydict \<Rightarrow> recovery_plan \<Rightarrow> pydict" where
  "apply_recovery_plan payload plan = (if \<not> plan_changed plan then payload else
     let p1 = (if plan_requeue plan \<and> is_dict (get payload ''inflight'')
               then dict_set ''pending'' (PList (get payload ''inflight'' # list_items (get payload ''pending''))) payload
               else payload);
         p2 = dict_set ''pending_count'' (PInt (int (length (list_items (get p1 ''pending''))))) p1;
         p3 = (if plan_clear plan then dict_pop ''inflight_at'' (dict_pop ''inflight'' p2) else p2);
         p4 = dict_pop ''_stop_requested'' p3
     in dict_set ''state'' (PStr (state_str (plan_after plan))) p4)"

section \<open>Facts\<close>

lemma parse_state_str [simp]: "parse_node_state (PStr (state_str st)) = st"
  by (cases st) (simp_all add: parse_node_state_def strip_eval py_lower_def lower_char_def)

text \<open>Normalising the text of a state does not change the state it names.\<close>

lemma parse_node_state_normal: "parse_node_state (PStr (py_lower (py_strip s))) = parse_node_state (PStr s)"
  by (simp add: parse_node_state_def py_strip_lower Let_def)

lemma state_str_normal [simp]: "py_lower (py_strip (state_str st)) = state_str st"
  by (cases st) (simp_all add: strip_eval py_lower_def lower_char_def)

lemma state_str_nonempty [simp]: "state_str st \<noteq> []"
  by (cases st) simp_all

lemma plan_stale_not_changed:
  assumes "plan_stale_working_recovery p = Inr plan" and "is_dict (get p ''inflight'')"
  shows "\<not> plan_changed plan"
  using assms by (auto simp: plan_stale_working_recovery_def Let_def no_plan_def split: if_splits)

end
