(* ===== verification/RuntimeStore.thy ===== *)
theory RuntimeStore
  imports NodeState
begin

text \<open>
  The process-local store of node runtime state: \<open>node_runtime_fields.py\<close> and
  \<open>runtime_state_memory_store.py\<close>. A payload is normalised before and after every
  mutation; a mutation that raises, or whose result is not a legal payload, leaves the store as
  it was. The store is addressed by the canonical key of a configuration path
  (\<open>os.path.normcase(os.path.abspath(path.strip()))\<close>): that function, the clock and the
  configuration files are the fields of the environment record \<open>rt_env\<close>.
\<close>

section \<open>Fields and defaults\<close>

definition RUNTIME_STATE_FIELDS :: "string list" where
  "RUNTIME_STATE_FIELDS = [''state'', ''pending'', ''pending_count'', ''held_outputs'', ''inflight'',
     ''inflight_at'', ''_stop_requested'', ''_delete_requested'', ''node_event_seq'', ''last_message'',
     ''last_output_resources'', ''last_run_at'', ''last_runtime_event'', ''runtime_events'',
     ''runtime_tool_calls'', ''provider_request_summaries'', ''provider_request_totals'',
     ''completed_requests'', ''last_completed_request'', ''goal'', ''goal_state'', ''_clock_running'',
     ''_clock_next_fire_at'', ''_clock_remaining_seconds'', ''_clock_trigger_count'']"

definition RUNTIME_STATE_DEFAULTS :: pydict where
  "RUNTIME_STATE_DEFAULTS =
     [(''state'', PStr ''idle''), (''pending_count'', PInt 0), (''node_event_seq'', PInt 0)]"

definition RUNTIME_PROJECTION_DEFAULTS :: pydict where
  "RUNTIME_PROJECTION_DEFAULTS = RUNTIME_STATE_DEFAULTS @
     [(''inflight'', PNone), (''_stop_requested'', PBool False), (''last_output_resources'', PList [])]"

section \<open>Normalising a payload\<close>

definition keep_runtime_fields :: "pydict \<Rightarrow> pydict" where
  "keep_runtime_fields payload = filter (\<lambda>(k, v). k \<in> set RUNTIME_STATE_FIELDS) payload"

definition normalize_state :: "pydict \<Rightarrow> (rt_error, pydict) res" where
  "normalize_state payload = (case map_of payload ''state'' of
      None \<Rightarrow> Inr payload
    | Some (PStr s) \<Rightarrow> if py_strip s = [] then Inl StateInvalid
        else Inr (dict_set ''state'' (PStr (py_lower (py_strip s))) payload)
    | Some _ \<Rightarrow> Inl StateInvalid)"

fun check_items :: "nat \<Rightarrow> pyval list \<Rightarrow> (rt_error, unit) res" where
  "check_items i [] = Inr ()"
| "check_items i (x # xs) = (if is_dict x then check_items (Suc i) xs else Inl (PendingItemNotObject i))"

definition require_non_negative_int :: "pyval \<Rightarrow> string \<Rightarrow> (rt_error, int) res" where
  "require_non_negative_int v field = (case v of
      PInt n \<Rightarrow> if n < 0 then Inl (FieldNotNonNegativeInt field) else Inr n
    | _ \<Rightarrow> Inl (FieldNotNonNegativeInt field))"

definition normalize_pending :: "pydict \<Rightarrow> (rt_error, pydict) res" where
  "normalize_pending payload = (case map_of payload ''pending'' of
      Some (PList xs) \<Rightarrow> rbind (check_items 0 xs) (\<lambda>_.
        Inr (dict_set ''pending_count'' (PInt (int (length xs))) (dict_set ''pending'' (PList xs) payload)))
    | Some _ \<Rightarrow> Inl PendingNotList
    | None \<Rightarrow> (case map_of payload ''pending_count'' of
          None \<Rightarrow> Inr payload
        | Some v \<Rightarrow> rbind (require_non_negative_int v ''pending_count'') (\<lambda>count.
            if count \<noteq> 0 then Inl PendingCountWithoutPending
            else Inr (dict_set ''pending_count'' (PInt 0) payload))))"

definition validate_optional_dict :: "string \<Rightarrow> pydict \<Rightarrow> (rt_error, pydict) res" where
  "validate_optional_dict key payload =
     (if dict_has payload key \<and> \<not> is_dict (get payload key) then Inl (FieldNotObject key) else Inr payload)"

definition validate_optional_list :: "string \<Rightarrow> pydict \<Rightarrow> (rt_error, pydict) res" where
  "validate_optional_list key payload =
     (if dict_has payload key \<and> \<not> is_list (get payload key) then Inl (FieldNotList key) else Inr payload)"

definition validate_optional_non_negative_int :: "string \<Rightarrow> pydict \<Rightarrow> (rt_error, pydict) res" where
  "validate_optional_non_negative_int key payload =
     (if dict_has payload key
      then rbind (require_non_negative_int (get payload key) key) (\<lambda>n. Inr (dict_set key (PInt n) payload))
      else Inr payload)"

definition is_resource_part :: "pyval \<Rightarrow> bool" where
  "is_resource_part part \<longleftrightarrow> is_dict part \<and> get (dict_items part) ''type'' = PStr ''resource''"

definition has_resource_uri :: "pyval \<Rightarrow> bool" where
  "has_resource_uri part \<longleftrightarrow> (let resource = get (dict_items part) ''resource'' in
     is_dict resource \<and> text_of (get (dict_items resource) ''uri'') \<noteq> [])"

fun check_resources :: "nat \<Rightarrow> pyval list \<Rightarrow> (rt_error, unit) res" where
  "check_resources i [] = Inr ()"
| "check_resources i (part # parts) =
     (if \<not> is_resource_part part then Inl (OutputResourceInvalid i)
      else if \<not> has_resource_uri part then Inl (OutputResourceUriRequired i)
      else check_resources (Suc i) parts)"

definition validate_output_resources :: "pydict \<Rightarrow> (rt_error, pydict) res" where
  "validate_output_resources payload = (case map_of payload ''last_output_resources'' of
      None \<Rightarrow> Inr payload
    | Some (PList xs) \<Rightarrow> rbind (check_resources 0 xs) (\<lambda>_. Inr payload)
    | Some _ \<Rightarrow> Inl (FieldNotList ''last_output_resources''))"

definition normalize_payload :: "pydict \<Rightarrow> (rt_error, pydict) res" where
  "normalize_payload payload =
     rbind (normalize_state (keep_runtime_fields payload)) (\<lambda>p.
     rbind (normalize_pending p) (\<lambda>p.
     rbind (validate_optional_list ''held_outputs'' p) (\<lambda>p.
     rbind (validate_optional_dict ''inflight'' p) (\<lambda>p.
     rbind (validate_optional_dict ''last_runtime_event'' p) (\<lambda>p.
     rbind (validate_optional_list ''runtime_events'' p) (\<lambda>p.
     rbind (validate_optional_list ''runtime_tool_calls'' p) (\<lambda>p.
     rbind (validate_optional_list ''provider_request_summaries'' p) (\<lambda>p.
     rbind (validate_optional_dict ''provider_request_totals'' p) (\<lambda>p.
     rbind (validate_optional_list ''completed_requests'' p) (\<lambda>p.
     rbind (validate_optional_dict ''last_completed_request'' p) (\<lambda>p.
     rbind (validate_output_resources p) (\<lambda>p.
     rbind (validate_optional_dict ''goal_state'' p) (\<lambda>p.
     validate_optional_non_negative_int ''node_event_seq'' p)))))))))))))"

definition setdefault :: "string \<times> pyval \<Rightarrow> pydict \<Rightarrow> pydict" where
  "setdefault kv d = (if dict_has d (fst kv) then d else dict_set (fst kv) (snd kv) d)"

definition with_defaults :: "pydict \<Rightarrow> (rt_error, pydict) res" where
  "with_defaults payload = rbind (normalize_payload payload) (\<lambda>result.
     Inr (fold setdefault RUNTIME_STATE_DEFAULTS result))"

section \<open>The store\<close>

record rt_env =
  env_key :: "string \<Rightarrow> string"
  env_now :: string
  env_ns :: int
  env_config :: "string \<Rightarrow> pydict"

record runtime_store =
  items :: "pydict dict"
  versions :: "int dict"

definition empty_store :: runtime_store where
  "empty_store = \<lparr>items = [], versions = []\<rparr>"

text \<open>\<open>self._items.get(key) or {}\<close>\<close>

definition item_of :: "runtime_store \<Rightarrow> string \<Rightarrow> pydict" where
  "item_of st key = (case map_of (items st) key of None \<Rightarrow> [] | Some p \<Rightarrow> p)"

definition touch_version :: "rt_env \<Rightarrow> string \<Rightarrow> runtime_store \<Rightarrow> runtime_store" where
  "touch_version env key st = st\<lparr>versions := dict_set key (env_ns env) (versions st)\<rparr>"

definition put_item :: "rt_env \<Rightarrow> string \<Rightarrow> pydict \<Rightarrow> runtime_store \<Rightarrow> runtime_store" where
  "put_item env key p st = touch_version env key (st\<lparr>items := dict_set key p (items st)\<rparr>)"

definition snapshot :: "rt_env \<Rightarrow> runtime_store \<Rightarrow> string \<Rightarrow> bool \<Rightarrow> (rt_error, pydict) res" where
  "snapshot env st path include_defaults = (let payload = item_of st (env_key env path) in
     if include_defaults then with_defaults payload else Inr payload)"

definition requested_fields :: "pyval list \<Rightarrow> string list" where
  "requested_fields field_names = remdups (filter (\<lambda>f. f \<noteq> []) (map text_of field_names))"

definition unknown_fields :: "string list \<Rightarrow> string list" where
  "unknown_fields requested = sort (filter (\<lambda>f. f \<notin> set RUNTIME_STATE_FIELDS) requested)"

definition project_fields :: "string list \<Rightarrow> pydict \<Rightarrow> pydict" where
  "project_fields requested source =
     List.map_filter (\<lambda>f. map_option (Pair f) (map_of source f)) requested"

definition snapshot_fields ::
    "rt_env \<Rightarrow> runtime_store \<Rightarrow> string \<Rightarrow> pyval list \<Rightarrow> bool \<Rightarrow> (rt_error, pydict) res" where
  "snapshot_fields env st path field_names include_defaults = (let requested = requested_fields field_names in
     if unknown_fields requested \<noteq> [] then Inl (UnknownFields (unknown_fields requested))
     else let payload = project_fields requested (item_of st (env_key env path)) in
       Inr (if include_defaults
            then fold setdefault (filter (\<lambda>kv. fst kv \<in> set requested) RUNTIME_PROJECTION_DEFAULTS) payload
            else payload))"

definition replace :: "rt_env \<Rightarrow> string \<Rightarrow> pydict \<Rightarrow> runtime_store \<Rightarrow> (rt_error, runtime_store) res" where
  "replace env path runtime_payload st = rbind (normalize_payload runtime_payload) (\<lambda>p.
     Inr (put_item env (env_key env path) p st))"

definition replace_from_payload :: "rt_env \<Rightarrow> string \<Rightarrow> pydict \<Rightarrow> runtime_store \<Rightarrow> (rt_error, runtime_store) res" where
  "replace_from_payload env path payload st = replace env path (keep_runtime_fields payload) st"

text \<open>
  A mutation maps a payload to the changed payload and to what its closure reports, or
  raises. \<open>update_runtime\<close> is \<open>update\<close>: it returns the new store, the payload with
  defaults, and the report of the mutation.
\<close>

type_synonym 'r mutation = "pydict \<Rightarrow> (rt_error, pydict \<times> 'r) res"

definition update_runtime ::
    "rt_env \<Rightarrow> string \<Rightarrow> 'r mutation \<Rightarrow> runtime_store \<Rightarrow> (rt_error, runtime_store \<times> pydict \<times> 'r) res" where
  "update_runtime env path mutate st = (let key = env_key env path in
     rbind (normalize_payload (item_of st key)) (\<lambda>before.
     rbind (mutate before) (\<lambda>(payload, r).
     rbind (normalize_payload payload) (\<lambda>payload.
     let st' = (if \<not> py_eq (PDict payload) (PDict before) then put_item env key payload st else st)
     in rbind (with_defaults payload) (\<lambda>full. Inr (st', full, r))))))"

definition is_quiescent :: "pydict \<Rightarrow> bool" where
  "is_quiescent state \<longleftrightarrow> \<not> (get state ''state'' = PStr ''working'' \<or> truthy (get state ''inflight'')
     \<or> truthy (get state ''pending'') \<or> truthy (get state ''pending_count'')
     \<or> truthy (get state ''_delete_requested''))"

text \<open>\<open>operation\<close> is the callback, on whatever state it works; it may raise too.\<close>

definition while_quiescent ::
    "rt_env \<Rightarrow> runtime_store \<Rightarrow> string list \<Rightarrow> ('s \<Rightarrow> (rt_error, 's) res) \<Rightarrow> 's \<Rightarrow> (rt_error, 's) res" where
  "while_quiescent env st config_paths operation s =
     (if list_all (\<lambda>path. is_quiescent (item_of st (env_key env path))) config_paths
      then operation s else Inl NodeBusy)"

definition dict_update :: "pydict \<Rightarrow> pydict \<Rightarrow> pydict" where
  "dict_update kvs d = fold (\<lambda>(k, v). dict_set k v) kvs d"

definition update_fields ::
    "rt_env \<Rightarrow> string \<Rightarrow> pyval list \<Rightarrow> 'r mutation \<Rightarrow> runtime_store \<Rightarrow> (rt_error, runtime_store \<times> pydict \<times> 'r) res" where
  "update_fields env path field_names mutate st = (let requested = requested_fields field_names in
     if unknown_fields requested \<noteq> [] then Inl (UnknownFields (unknown_fields requested))
     else let key = env_key env path; source = item_of st key; before = project_fields requested source in
       rbind (mutate before) (\<lambda>(payload, r).
       rbind (normalize_payload payload) (\<lambda>normalized.
       let unexpected = filter (\<lambda>k. k \<notin> set requested) (dict_keys normalized) in
       if unexpected \<noteq> [] then Inl (UndeclaredFields (sort unexpected))
       else let st' = (if \<not> py_eq (PDict normalized) (PDict before)
                       then put_item env key (dict_update normalized (fold dict_pop requested source)) st
                       else st)
         in Inr (st', normalized, r))))"

definition clear_runtime :: "rt_env \<Rightarrow> string \<Rightarrow> runtime_store \<Rightarrow> runtime_store" where
  "clear_runtime env path st = (let key = env_key env path in
     if dict_has (items st) key then touch_version env key (st\<lparr>items := dict_pop key (items st)\<rparr>) else st)"

definition rename_runtime :: "rt_env \<Rightarrow> string \<Rightarrow> string \<Rightarrow> runtime_store \<Rightarrow> runtime_store" where
  "rename_runtime env old_path new_path st =
     (let old_key = env_key env old_path; new_key = env_key env new_path in
      if old_key = new_key then st
      else let payload = map_of (items st) old_key;
               st1 = st\<lparr>items := dict_pop old_key (items st), versions := dict_pop old_key (versions st)\<rparr>;
               st2 = (case payload of None \<Rightarrow> st1
                      | Some p \<Rightarrow> st1\<lparr>items := dict_set new_key p (items st1)\<rparr>)
           in touch_version env new_key st2)"

definition version_of :: "rt_env \<Rightarrow> runtime_store \<Rightarrow> string \<Rightarrow> int" where
  "version_of env st path = (case map_of (versions st) (env_key env path) of None \<Rightarrow> 0 | Some v \<Rightarrow> v)"

definition merge_runtime :: "rt_env \<Rightarrow> runtime_store \<Rightarrow> string \<Rightarrow> pydict \<Rightarrow> (rt_error, pydict) res" where
  "merge_runtime env st path config_payload = rbind (snapshot env st path True) (\<lambda>runtime.
     Inr (dict_update runtime (filter (\<lambda>(k, v). k \<notin> set RUNTIME_STATE_FIELDS) config_payload)))"

definition split_payload :: "pydict \<Rightarrow> (rt_error, pydict \<times> pydict) res" where
  "split_payload payload = rbind (normalize_payload (keep_runtime_fields payload)) (\<lambda>runtime.
     Inr (filter (\<lambda>(k, v). k \<notin> set RUNTIME_STATE_FIELDS) payload, runtime))"

section \<open>What normalising does\<close>

lemma dict_set_same: "map_of d k = Some v \<Longrightarrow> dict_set k v d = d"
  unfolding dict_set_def by (induction d) (auto split: if_splits)

lemma dict_has_eq_some: "dict_has d k \<longleftrightarrow> (\<exists>v. map_of d k = Some v)"
  by (simp add: dict_has_iff)

lemma getd_Some: "map_of d k = Some v \<Longrightarrow> getd d k w = v"
  by (simp add: getd_def)

lemma map_of_keep_runtime_fields [simp]:
  "map_of (keep_runtime_fields p) k = (if k \<in> set RUNTIME_STATE_FIELDS then map_of p k else None)"
  by (simp add: keep_runtime_fields_def map_of_filter_key)

text \<open>The legal payloads: what has to hold of the fields that are present.\<close>

definition opt_all :: "('a \<Rightarrow> bool) \<Rightarrow> 'a option \<Rightarrow> bool" where
  "opt_all P x = (case x of None \<Rightarrow> True | Some a \<Rightarrow> P a)"

lemma opt_all_simps [simp]: "opt_all P None" "opt_all P (Some a) = P a"
  by (simp_all add: opt_all_def)

fun nonempty_str :: "pyval \<Rightarrow> bool" where
  "nonempty_str (PStr s) = (py_strip s \<noteq> [])" | "nonempty_str _ = False"

fun non_neg_int :: "pyval \<Rightarrow> bool" where
  "non_neg_int (PInt n) = (0 \<le> n)" | "non_neg_int _ = False"

definition dict_list :: "pyval \<Rightarrow> bool" where
  "dict_list v \<longleftrightarrow> is_list v \<and> list_all is_dict (list_items v)"

definition resource_list :: "pyval \<Rightarrow> bool" where
  "resource_list v \<longleftrightarrow> is_list v \<and> list_all (\<lambda>r. is_resource_part r \<and> has_resource_uri r) (list_items v)"

definition rt_valid :: "pydict \<Rightarrow> bool" where
  "rt_valid p \<longleftrightarrow> opt_all nonempty_str (map_of p ''state'') \<and> opt_all dict_list (map_of p ''pending'')
     \<and> (map_of p ''pending'' = None \<longrightarrow> opt_all (\<lambda>v. v = PInt 0) (map_of p ''pending_count''))
     \<and> opt_all is_list (map_of p ''held_outputs'') \<and> opt_all is_dict (map_of p ''inflight'')
     \<and> opt_all is_dict (map_of p ''last_runtime_event'') \<and> opt_all is_list (map_of p ''runtime_events'')
     \<and> opt_all is_list (map_of p ''runtime_tool_calls'')
     \<and> opt_all is_list (map_of p ''provider_request_summaries'')
     \<and> opt_all is_dict (map_of p ''provider_request_totals'')
     \<and> opt_all is_list (map_of p ''completed_requests'')
     \<and> opt_all is_dict (map_of p ''last_completed_request'')
     \<and> opt_all resource_list (map_of p ''last_output_resources'')
     \<and> opt_all is_dict (map_of p ''goal_state'') \<and> opt_all non_neg_int (map_of p ''node_event_seq'')"

fun lower_text :: "pyval \<Rightarrow> pyval" where
  "lower_text (PStr s) = PStr (py_lower (py_strip s))" | "lower_text v = v"

definition norm_state :: "pydict \<Rightarrow> pydict" where
  "norm_state p = (case map_of p ''state'' of None \<Rightarrow> p | Some v \<Rightarrow> dict_set ''state'' (lower_text v) p)"

definition norm_count :: "pydict \<Rightarrow> pydict" where
  "norm_count p = (case map_of p ''pending'' of None \<Rightarrow> p
     | Some v \<Rightarrow> dict_set ''pending_count'' (PInt (int (length (list_items v)))) p)"

definition norm_val :: "pydict \<Rightarrow> pydict" where
  "norm_val p = norm_count (norm_state (keep_runtime_fields p))"

lemma check_items_Inr [simp]: "check_items i xs = Inr u \<longleftrightarrow> list_all is_dict xs"
  by (induction xs arbitrary: i) auto

lemma check_resources_Inr [simp]:
  "check_resources i xs = Inr u \<longleftrightarrow> list_all (\<lambda>r. is_resource_part r \<and> has_resource_uri r) xs"
  by (induction xs arbitrary: i) auto

lemma require_non_negative_Inr [simp]: "require_non_negative_int v f = Inr n \<longleftrightarrow> v = PInt n \<and> 0 \<le> n"
  by (auto simp: require_non_negative_int_def split: pyval.splits)

lemma normalize_state_Inr:
  "normalize_state p = Inr q \<longleftrightarrow> opt_all nonempty_str (map_of p ''state'') \<and> q = norm_state p"
  by (auto simp: normalize_state_def norm_state_def split: option.splits pyval.splits)

lemma normalize_pending_Inr:
  "normalize_pending p = Inr q \<longleftrightarrow> opt_all dict_list (map_of p ''pending'')
     \<and> (map_of p ''pending'' = None \<longrightarrow> opt_all (\<lambda>v. v = PInt 0) (map_of p ''pending_count''))
     \<and> q = norm_count p"
  by (auto simp: normalize_pending_def norm_count_def dict_list_def rbind_eq_Inr dict_set_same
      split: option.splits pyval.splits)

lemma validate_optional_list_Inr:
  "validate_optional_list k p = Inr q \<longleftrightarrow> opt_all is_list (map_of p k) \<and> q = p"
  by (auto simp: validate_optional_list_def dict_has_iff getd_def split: option.splits)

lemma validate_optional_dict_Inr:
  "validate_optional_dict k p = Inr q \<longleftrightarrow> opt_all is_dict (map_of p k) \<and> q = p"
  by (auto simp: validate_optional_dict_def dict_has_iff getd_def split: option.splits)

lemma validate_output_resources_Inr:
  "validate_output_resources p = Inr q \<longleftrightarrow> opt_all resource_list (map_of p ''last_output_resources'') \<and> q = p"
  by (auto simp: validate_output_resources_def resource_list_def rbind_eq_Inr split: option.splits pyval.splits)

lemma validate_optional_non_negative_int_Inr:
  "validate_optional_non_negative_int k p = Inr q \<longleftrightarrow> opt_all non_neg_int (map_of p k) \<and> q = p"
  by (cases "map_of p k")
    (auto simp: validate_optional_non_negative_int_def dict_has_iff getd_def rbind_eq_Inr dict_set_same
      elim!: non_neg_int.elims)

lemmas validate_Inr = normalize_state_Inr normalize_pending_Inr validate_optional_list_Inr
  validate_optional_dict_Inr validate_output_resources_Inr validate_optional_non_negative_int_Inr

lemma map_of_norm_state:
  "map_of (norm_state p) k = (if k = ''state'' then map_option lower_text (map_of p k) else map_of p k)"
  by (auto simp: norm_state_def split: option.splits)

lemma map_of_norm_count:
  "map_of (norm_count p) k = (if k = ''pending_count'' \<and> map_of p ''pending'' \<noteq> None
     then Some (PInt (int (length (list_items (the (map_of p ''pending''))))))
     else map_of p k)"
  by (auto simp: norm_count_def split: option.splits)

lemma in_fields [simp]:
  "''state'' \<in> set RUNTIME_STATE_FIELDS" "''pending'' \<in> set RUNTIME_STATE_FIELDS"
  "''pending_count'' \<in> set RUNTIME_STATE_FIELDS" "''held_outputs'' \<in> set RUNTIME_STATE_FIELDS"
  "''inflight'' \<in> set RUNTIME_STATE_FIELDS" "''inflight_at'' \<in> set RUNTIME_STATE_FIELDS"
  "''_stop_requested'' \<in> set RUNTIME_STATE_FIELDS" "''_delete_requested'' \<in> set RUNTIME_STATE_FIELDS"
  "''node_event_seq'' \<in> set RUNTIME_STATE_FIELDS" "''last_runtime_event'' \<in> set RUNTIME_STATE_FIELDS"
  "''runtime_events'' \<in> set RUNTIME_STATE_FIELDS" "''runtime_tool_calls'' \<in> set RUNTIME_STATE_FIELDS"
  "''provider_request_summaries'' \<in> set RUNTIME_STATE_FIELDS"
  "''provider_request_totals'' \<in> set RUNTIME_STATE_FIELDS"
  "''completed_requests'' \<in> set RUNTIME_STATE_FIELDS"
  "''last_completed_request'' \<in> set RUNTIME_STATE_FIELDS"
  "''last_output_resources'' \<in> set RUNTIME_STATE_FIELDS" "''goal_state'' \<in> set RUNTIME_STATE_FIELDS"
  "''_clock_running'' \<in> set RUNTIME_STATE_FIELDS"
  "''type_id'' \<notin> set RUNTIME_STATE_FIELDS" "''node_id'' \<notin> set RUNTIME_STATE_FIELDS"
  by (simp_all add: RUNTIME_STATE_FIELDS_def)

lemma map_of_norm_val:
  "map_of (norm_val p) k = (if k \<notin> set RUNTIME_STATE_FIELDS then None
     else if k = ''state'' then map_option lower_text (map_of p k)
     else if k = ''pending_count'' \<and> map_of p ''pending'' \<noteq> None
       then Some (PInt (int (length (list_items (the (map_of p ''pending''))))))
     else map_of p k)"
  by (auto simp: norm_val_def map_of_norm_count map_of_norm_state)

lemma normalize_payload_Inr:
  "normalize_payload p = Inr q \<longleftrightarrow> rt_valid p \<and> q = norm_val p"
  unfolding normalize_payload_def rbind_eq_Inr validate_Inr
  by (simp add: rt_valid_def norm_val_def [symmetric] map_of_norm_count map_of_norm_state map_of_norm_val
      cong: conj_cong)

lemma normalize_valid [simp]: "rt_valid p \<Longrightarrow> normalize_payload p = Inr (norm_val p)"
  by (simp add: normalize_payload_Inr)

lemma normalize_invalid: "\<not> rt_valid p \<Longrightarrow> \<exists>e. normalize_payload p = Inl e"
  using normalize_payload_Inr [of p] by (cases "normalize_payload p") auto

lemma nonempty_lower_text [simp]: "nonempty_str v \<Longrightarrow> nonempty_str (lower_text v)"
  by (cases v) (auto simp: py_strip_lower)

lemma lower_text_idem [simp]: "lower_text (lower_text v) = lower_text v"
  by (cases v) (auto simp: py_strip_lower)

lemma keep_runtime_fields_id: "fst ` set p \<subseteq> set RUNTIME_STATE_FIELDS \<Longrightarrow> keep_runtime_fields p = p"
  by (auto simp: keep_runtime_fields_def filter_id_conv)

lemma fst_keep_runtime_fields: "fst ` set (keep_runtime_fields p) \<subseteq> set RUNTIME_STATE_FIELDS"
  by (auto simp: keep_runtime_fields_def)

lemma fst_norm_val: "fst ` set (norm_val p) \<subseteq> set RUNTIME_STATE_FIELDS"
  using fst_keep_runtime_fields [of p]
  by (simp add: norm_val_def norm_count_def norm_state_def fst_dict_set split: option.splits)

lemma norm_val_fixpoint:
  assumes "fst ` set p \<subseteq> set RUNTIME_STATE_FIELDS"
    and "\<And>v. map_of p ''state'' = Some v \<Longrightarrow> lower_text v = v"
    and "\<And>v. map_of p ''pending'' = Some v \<Longrightarrow> map_of p ''pending_count'' = Some (PInt (int (length (list_items v))))"
  shows "norm_val p = p"
  using assms
  by (auto simp: norm_val_def keep_runtime_fields_id norm_state_def norm_count_def dict_set_same split: option.splits)

lemma norm_val_idem [simp]: "norm_val (norm_val p) = norm_val p"
  by (rule norm_val_fixpoint) (auto simp: map_of_norm_val dest: fst_norm_val [THEN subsetD, OF imageI])

lemma rt_valid_norm_val [simp]: "rt_valid p \<Longrightarrow> rt_valid (norm_val p)"
  by (auto simp: rt_valid_def map_of_norm_val opt_all_def split: option.splits)

lemma wf_norm_val [simp, intro]: "wf_dict p \<Longrightarrow> wf_dict (norm_val p)"
  by (auto simp: norm_val_def norm_count_def norm_state_def keep_runtime_fields_def split: option.splits)

text \<open>A stored payload: legal, each field once, and a fixed point of normalising.\<close>

definition normal :: "pydict \<Rightarrow> bool" where
  "normal p \<longleftrightarrow> wf_dict p \<and> rt_valid p \<and> norm_val p = p"

lemma normal_norm_val: "wf_dict p \<Longrightarrow> rt_valid p \<Longrightarrow> normal (norm_val p)"
  by (simp add: normal_def wf_norm_val)

lemma normal_Nil [simp]: "normal []"
  by (simp add: normal_def rt_valid_def norm_val_def norm_count_def norm_state_def keep_runtime_fields_def)

lemma normal_count:
  assumes "normal p" and "map_of p ''pending'' = Some v"
  shows "map_of p ''pending_count'' = Some (PInt (int (length (list_items v))))"
proof -
  have "map_of p ''pending_count'' = map_of (norm_val p) ''pending_count''" using assms(1) by (simp add: normal_def)
  then show ?thesis using assms(2) by (simp add: map_of_norm_val)
qed

lemma normal_unknown: "normal p \<Longrightarrow> k \<notin> set RUNTIME_STATE_FIELDS \<Longrightarrow> map_of p k = None"
  using map_of_norm_val [of p k] by (simp add: normal_def)

section \<open>Python equality of payloads\<close>

lemma py_eq_dict_lookup:
  assumes eq: "py_eq (PDict a) (PDict b)" and wa: "wf_dict a" and wb: "wf_dict b"
  shows "rel_option py_eq (map_of a k) (map_of b k)"
proof -
  have len: "length a = length b"
    and all: "\<And>k v. (k, v) \<in> set a \<Longrightarrow> \<exists>w. map_of b k = Some w \<and> py_eq v w"
    using eq by (auto simp: list_all_iff split: option.splits)
  have "fst ` set a \<subseteq> fst ` set b" using all by (force dest: map_of_SomeD)
  moreover have "card (fst ` set a) = card (fst ` set b)"
    using len wa wb by (metis distinct_card length_map list.set_map wf_dict_def)
  ultimately have keys: "fst ` set a = fst ` set b" by (intro card_subset_eq) auto
  show ?thesis
  proof (cases "map_of a k")
    case None
    then have "map_of b k = None" using keys by (simp add: map_of_eq_None_iff)
    with None show ?thesis by simp
  next
    case (Some v)
    obtain w where "map_of b k = Some w" and "py_eq v w"
      using all [OF map_of_SomeD [OF Some]] by blast
    with Some show ?thesis by simp
  qed
qed

lemma py_eq_PStr [simp]: "py_eq (PStr s) v \<longleftrightarrow> v = PStr s"
  by (cases v) auto

lemma py_eq_PInt: "py_eq (PInt m) (PInt n) \<longleftrightarrow> m = n"
  by simp

lemma py_eq_truthy: "py_eq v w \<Longrightarrow> truthy v = truthy w"
  by (cases v; cases w) (auto split: if_splits)

section \<open>The laws of the store\<close>

lemma item_of_put_item [simp]:
  "item_of (put_item env key p st) key' = (if key' = key then p else item_of st key')"
  by (simp add: put_item_def touch_version_def item_of_def)

definition store_ok :: "runtime_store \<Rightarrow> bool" where
  "store_ok st \<longleftrightarrow> wf_dict (items st) \<and> list_all (\<lambda>(k, p). normal p) (items st)"

lemma store_ok_item: "store_ok st \<Longrightarrow> normal (item_of st key)"
  by (auto simp: store_ok_def item_of_def list_all_iff split: option.splits dest: map_of_SomeD)

lemma store_ok_empty [simp]: "store_ok empty_store"
  by (simp add: store_ok_def empty_store_def)


lemma store_ok_put_item: "store_ok st \<Longrightarrow> normal p \<Longrightarrow> store_ok (put_item env key p st)"
  using set_dict_set [of key p "items st"]
  by (auto simp: store_ok_def put_item_def touch_version_def list_all_iff)

lemma store_ok_same_items: "store_ok st \<Longrightarrow> store_ok (touch_version env key st)"
  by (simp add: store_ok_def touch_version_def)

lemma with_defaults_valid: "rt_valid p \<Longrightarrow> \<exists>q. with_defaults p = Inr q"
  by (simp add: with_defaults_def)

lemma update_runtime_Inr:
  assumes ok: "store_ok st" and upd: "update_runtime env path mutate st = Inr (st', full, r)"
  obtains payload where "mutate (item_of st (env_key env path)) = Inr (payload, r)" and "rt_valid payload"
    and "st' = (if \<not> py_eq (PDict (norm_val payload)) (PDict (item_of st (env_key env path)))
                then put_item env (env_key env path) (norm_val payload) st else st)"
proof -
  have n: "normalize_payload (item_of st (env_key env path)) = Inr (item_of st (env_key env path))"
    using store_ok_item [OF ok, of "env_key env path"] by (simp add: normalize_payload_Inr normal_def)
  show ?thesis
    using upd that by (fastforce simp: update_runtime_def n Let_def normalize_payload_Inr split: prod.splits if_splits)
qed

lemma update_runtime_eq:
  assumes "store_ok st" and "mutate (item_of st (env_key env path)) = Inr (payload, r)" and "rt_valid payload"
  shows "\<exists>full. update_runtime env path mutate st =
    Inr (if \<not> py_eq (PDict (norm_val payload)) (PDict (item_of st (env_key env path)))
         then put_item env (env_key env path) (norm_val payload) st else st, full, r)"
proof -
  let ?p = "item_of st (env_key env path)"
  have n: "normalize_payload ?p = Inr ?p"
    using store_ok_item [OF assms(1), of "env_key env path"] by (simp add: normalize_payload_Inr normal_def)
  obtain full where "with_defaults (norm_val payload) = Inr full"
    using with_defaults_valid [OF rt_valid_norm_val [OF assms(3)]] by blast
  then show ?thesis using assms(2,3) by (simp add: update_runtime_def n Let_def)
qed

text \<open>Mutations in this development keep every field once.\<close>

definition keeps_wf :: "'r mutation \<Rightarrow> bool" where
  "keeps_wf mutate \<longleftrightarrow> (\<forall>p q r. wf_dict p \<longrightarrow> mutate p = Inr (q, r) \<longrightarrow> wf_dict q)"

lemma store_ok_update_runtime:
  assumes ok: "store_ok st" and "keeps_wf mutate" and upd: "update_runtime env path mutate st = Inr (st', full, r)"
  shows "store_ok st'"
proof -
  from ok upd obtain payload where "mutate (item_of st (env_key env path)) = Inr (payload, r)"
      and "rt_valid payload"
      and st': "st' = (if \<not> py_eq (PDict (norm_val payload)) (PDict (item_of st (env_key env path)))
                then put_item env (env_key env path) (norm_val payload) st else st)"
    by (rule update_runtime_Inr)
  moreover have "wf_dict (item_of st (env_key env path))"
    using store_ok_item [OF ok] by (simp add: normal_def)
  ultimately have "normal (norm_val payload)"
    using assms(2) by (auto simp: keeps_wf_def intro: normal_norm_val)
  then show ?thesis using ok st' by (simp add: store_ok_put_item)
qed

lemma update_runtime_frame:
  assumes ok: "store_ok st" and upd: "update_runtime env path mutate st = Inr (st', full, r)" and "key \<noteq> env_key env path"
  shows "item_of st' key = item_of st key"
  using ok upd by (rule update_runtime_Inr) (use assms(3) in \<open>simp split: if_splits\<close>)


lemma normal_iff:
  "normal p \<longleftrightarrow> wf_dict p \<and> rt_valid p \<and> fst ` set p \<subseteq> set RUNTIME_STATE_FIELDS
     \<and> opt_all (\<lambda>v. lower_text v = v) (map_of p ''state'')
     \<and> opt_all (\<lambda>v. map_of p ''pending_count'' = Some (PInt (int (length (list_items v))))) (map_of p ''pending'')"
  (is "?L \<longleftrightarrow> ?R")
proof
  assume L: ?L
  then have "fst ` set p \<subseteq> set RUNTIME_STATE_FIELDS" using fst_norm_val [of p] by (simp add: normal_def)
  moreover have "map_of p ''state'' = map_option lower_text (map_of p ''state'')"
    using L map_of_norm_val [of p "''state''"] by (simp add: normal_def)
  ultimately show ?R using L normal_count [OF L]
    by (auto simp: opt_all_def normal_def split: option.splits)
next
  assume ?R
  then show ?L unfolding normal_def by (auto intro!: norm_val_fixpoint)
qed

lemma map_of_dict_update:
  assumes "wf_dict kvs"
  shows "map_of (dict_update kvs d) k = (case map_of kvs k of None \<Rightarrow> map_of d k | Some v \<Rightarrow> Some v)"
  using assms
proof (induction kvs arbitrary: d)
  case (Cons kv kvs)
  then show ?case
    by (cases kv) (auto simp: dict_update_def wf_dict_def map_of_eq_None_iff split: option.splits
        dest: map_of_SomeD intro: rev_image_eqI)
qed (simp add: dict_update_def)

lemma wf_dict_update [intro]: "wf_dict d \<Longrightarrow> wf_dict (dict_update kvs d)"
  by (induction kvs arbitrary: d) (auto simp: dict_update_def)

lemma fst_dict_update: "fst ` set (dict_update kvs d) = fst ` set kvs \<union> fst ` set d"
proof (induction kvs arbitrary: d)
  case (Cons kv kvs)
  show ?case using Cons.IH [of "dict_set (fst kv) (snd kv) d"]
    by (simp add: dict_update_def fst_dict_set split_beta)
qed (simp add: dict_update_def)

lemma map_of_pops: "map_of (fold dict_pop ks d) k = (if k \<in> set ks then None else map_of d k)"
  by (induction ks arbitrary: d) auto

lemma wf_pops [intro]: "wf_dict d \<Longrightarrow> wf_dict (fold dict_pop ks d)"
  by (induction ks arbitrary: d) auto

lemma fst_pops: "fst ` set (fold dict_pop ks d) \<subseteq> fst ` set d"
proof (induction ks arbitrary: d)
  case (Cons a ks)
  show ?case using Cons.IH [of "dict_pop a d"] fst_dict_pop [of a d] by auto
qed simp

lemma wf_project_fields: "distinct ks \<Longrightarrow> wf_dict (project_fields ks d)"
  by (induction ks)
    (auto simp: project_fields_def wf_dict_def List.map_filter_def split: option.splits)

text \<open>Replacing declared fields of a stored payload by a normalised projection.\<close>

lemma normal_merge_fields:
  assumes src: "normal source" and nrm: "normal n" and sub: "fst ` set n \<subseteq> set req"
    and both: "''pending'' \<in> set req \<longleftrightarrow> ''pending_count'' \<in> set req"
  shows "normal (dict_update n (fold dict_pop req source))"
proof -
  let ?m = "dict_update n (fold dict_pop req source)"
  have wf: "wf_dict n" "wf_dict source" using src nrm by (auto simp: normal_def)
  have look: "map_of ?m k = (if k \<in> set req then map_of n k else map_of source k)" for k
  proof -
    have "map_of n k = None" if "k \<notin> set req" using sub that by (auto simp: map_of_eq_None_iff)
    then show ?thesis by (auto simp: map_of_dict_update [OF wf(1)] map_of_pops split: option.splits)
  qed
  have "fst ` set ?m \<subseteq> set RUNTIME_STATE_FIELDS"
    using src nrm fst_pops [of req source] unfolding fst_dict_update by (auto simp: normal_iff)
  then show ?thesis
    using src nrm both wf unfolding normal_iff rt_valid_def look by (auto simp: wf_dict_update wf_pops)
qed

text \<open>Every operation of the store keeps its invariant: each stored payload is a legal
  normalised payload, so \<open>pending\<close> is a list of objects and \<open>pending_count\<close> is its
  length. A field-scoped update does so if it declares \<open>pending\<close> and
  \<open>pending_count\<close> together, as its callers do.\<close>

lemma runtime_store_invariant:
  assumes ok: "store_ok st"
  shows "(\<forall>p st'. wf_dict p \<longrightarrow> replace env path p st = Inr st' \<longrightarrow> store_ok st')
    \<and> (\<forall>p st'. wf_dict p \<longrightarrow> replace_from_payload env path p st = Inr st' \<longrightarrow> store_ok st')
    \<and> (\<forall>(mutate :: 'r mutation) st' full r. keeps_wf mutate \<longrightarrow>
         update_runtime env path mutate st = Inr (st', full, r) \<longrightarrow> store_ok st')
    \<and> (\<forall>(mutate :: 'r mutation) fs st' q r. keeps_wf mutate \<longrightarrow>
         (''pending'' \<in> set (requested_fields fs) \<longleftrightarrow> ''pending_count'' \<in> set (requested_fields fs)) \<longrightarrow>
         update_fields env path fs mutate st = Inr (st', q, r) \<longrightarrow> store_ok st')
    \<and> store_ok (clear_runtime env path st) \<and> store_ok (rename_runtime env path path' st)"
proof (intro conjI allI impI)
  show "store_ok st'" if "wf_dict p" "replace env path p st = Inr st'" for p st'
    using that ok by (auto simp: replace_def normalize_payload_Inr intro!: store_ok_put_item normal_norm_val)
  show "store_ok st'" if "wf_dict p" "replace_from_payload env path p st = Inr st'" for p st'
    using that ok by (auto simp: replace_from_payload_def replace_def normalize_payload_Inr keep_runtime_fields_def
        intro!: store_ok_put_item normal_norm_val)
  show "store_ok st'" if "keeps_wf mutate" "update_runtime env path mutate st = Inr (st', full, r)"
    for mutate :: "'r mutation" and st' full r
    using ok that by (rule store_ok_update_runtime)
  show "store_ok st'"
    if kw: "keeps_wf mutate" and both: "''pending'' \<in> set (requested_fields fs) \<longleftrightarrow> ''pending_count'' \<in> set (requested_fields fs)"
      and upd: "update_fields env path fs mutate st = Inr (st', q, r)"
    for mutate :: "'r mutation" and fs st' q r
  proof -
    let ?req = "requested_fields fs" and ?src = "item_of st (env_key env path)"
    obtain payload where m: "mutate (project_fields ?req ?src) = Inr (payload, r)" and v: "rt_valid payload"
      and sub: "filter (\<lambda>k. k \<notin> set ?req) (dict_keys (norm_val payload)) = []"
      and st': "st' = st \<or> st' = put_item env (env_key env path)
                 (dict_update (norm_val payload) (fold dict_pop ?req ?src)) st"
      using upd by (auto simp: update_fields_def Let_def normalize_payload_Inr split: if_splits prod.splits)
    have "wf_dict payload" using kw m wf_project_fields [of ?req ?src]
      by (auto simp: keeps_wf_def requested_fields_def)
    then have "normal (norm_val payload)" using v by (rule normal_norm_val)
    then have "normal (dict_update (norm_val payload) (fold dict_pop ?req ?src))"
      using sub both store_ok_item [OF ok] by (intro normal_merge_fields) (auto simp: filter_empty_conv)
    then show ?thesis using st' ok by (auto intro: store_ok_put_item)
  qed
  show "store_ok (clear_runtime env path st)"
    using ok by (auto simp: clear_runtime_def Let_def store_ok_def touch_version_def list_all_iff dict_pop_code)
  show "store_ok (rename_runtime env path path' st)"
    using ok set_dict_set [of "env_key env path'" _ "dict_pop (env_key env path) (items st)"]
    by (fastforce simp: rename_runtime_def Let_def store_ok_def touch_version_def list_all_iff dict_pop_code
        split: option.splits dest: map_of_SomeD)
qed


definition sample_env :: rt_env where
  "sample_env = \<lparr>env_key = id, env_now = ''2026-01-01 00:00:00.000000'', env_ns = 7,
     env_config = (\<lambda>_. [(''type_id'', PStr ''agent_node'')])\<rparr>"

lemma runtime_store_invariant_witness:
  "store_ok empty_store
   \<and> (\<exists>st'. replace sample_env ''n'' [(''pending'', PList [PDict []])] empty_store = Inr st' \<and> store_ok st')"
proof (intro conjI exI)
  let ?p = "[(''pending'', PList [PDict []])]"
  let ?st = "put_item sample_env ''n'' (norm_val ?p) empty_store"
  show "store_ok empty_store" by simp
  have r: "replace sample_env ''n'' ?p empty_store = Inr ?st"
    by (simp add: replace_def rt_valid_def dict_list_def sample_env_def)
  then show "replace sample_env ''n'' ?p empty_store = Inr ?st" .
  have "wf_dict ?p" by (simp add: wf_dict_def)
  with r show "store_ok ?st"
    using runtime_store_invariant [OF store_ok_empty, where env = sample_env and path = "''n''"
        and path' = "''m''" and 'r = unit, THEN conjunct1] by blast
qed

section \<open>Splitting and merging\<close>

lemma dict_update_append:
  "wf_dict kvs \<Longrightarrow> fst ` set kvs \<inter> fst ` set d = {} \<Longrightarrow> dict_update kvs d = d @ kvs"
proof (induction kvs arbitrary: d)
  case (Cons kv kvs)
  obtain k v where kv: "kv = (k, v)" by force
  have "dict_update (kv # kvs) d = dict_update kvs (d @ [(k, v)])"
    using Cons.prems(2) by (simp add: kv dict_update_def dict_set_new)
  also have "\<dots> = (d @ [(k, v)]) @ kvs"
    using Cons.prems by (intro Cons.IH) (auto simp: kv wf_dict_def)
  finally show ?case by (simp add: kv)
qed (simp add: dict_update_def)

lemma normal_setdefault_state: "normal p \<Longrightarrow> normal (setdefault (''state'', PStr ''idle'') p)"
  using state_str_normal [of Idle] 
  by (auto simp: setdefault_def normal_iff rt_valid_def fst_dict_set strip_eval)

lemma normal_setdefault_count: "normal p \<Longrightarrow> normal (setdefault (''pending_count'', PInt 0) p)"
  by (cases "map_of p ''pending''")
    (auto simp: setdefault_def normal_iff rt_valid_def fst_dict_set dict_has_iff)

lemma normal_setdefault_seq: "normal p \<Longrightarrow> normal (setdefault (''node_event_seq'', PInt 0) p)"
  by (auto simp: setdefault_def normal_iff rt_valid_def fst_dict_set)

lemma normal_setdefaults: "normal p \<Longrightarrow> normal (fold setdefault RUNTIME_STATE_DEFAULTS p)"
  by (simp add: RUNTIME_STATE_DEFAULTS_def normal_setdefault_state normal_setdefault_count normal_setdefault_seq)

lemma with_defaults_normal: "normal p \<Longrightarrow> \<exists>q. with_defaults p = Inr q \<and> normal q"
  using normal_setdefaults [of p] by (simp add: with_defaults_def normal_def)

text \<open>Writing back a configuration that was read gives back what was read: merging the
  runtime state into a configuration and splitting the result returns the configuration's own
  fields and the runtime state with its defaults.\<close>

lemma split_merge_roundtrip:
  assumes ok: "store_ok st"
  shows "\<exists>full merged. snapshot env st path True = Inr full \<and> normal full
    \<and> merge_runtime env st path cfg = Inr merged
    \<and> split_payload merged = Inr (filter (\<lambda>(k, v). k \<notin> set RUNTIME_STATE_FIELDS) cfg, full)"
proof -
  let ?c = "filter (\<lambda>(k, v). k \<notin> set RUNTIME_STATE_FIELDS) cfg"
  obtain full where full: "snapshot env st path True = Inr full" "normal full"
    using with_defaults_normal [OF store_ok_item [OF ok, of "env_key env path"]]
    by (auto simp: snapshot_def)
  have sub: "fst ` set full \<subseteq> set RUNTIME_STATE_FIELDS" using full(2) by (simp add: normal_iff)
  have upd: "dict_update full ?c = ?c @ full"
    using full(2) sub by (intro dict_update_append) (auto simp: normal_def)
  have "keep_runtime_fields (?c @ full) = full"
    using keep_runtime_fields_id [OF sub] by (simp add: keep_runtime_fields_def case_prod_unfold)
  moreover have "filter (\<lambda>(k, v). k \<notin> set RUNTIME_STATE_FIELDS) (?c @ full) = ?c"
    using sub by (auto simp: filter_empty_conv)
  ultimately show ?thesis
    using full upd by (auto simp: merge_runtime_def split_payload_def normal_def)
qed

lemma split_merge_roundtrip_witness:
  "store_ok empty_store
   \<and> (\<exists>full merged. snapshot sample_env empty_store ''n'' True = Inr full
      \<and> merge_runtime sample_env empty_store ''n'' [(''name'', PStr ''a''), (''state'', PStr ''stop'')] = Inr merged
      \<and> split_payload merged = Inr ([(''name'', PStr ''a'')], full))"
  using split_merge_roundtrip [OF store_ok_empty, of sample_env "''n''" "[(''name'', PStr ''a''), (''state'', PStr ''stop'')]"]
  by (auto simp: RUNTIME_STATE_FIELDS_def)

end
