(* ===== verification/NodeQueue.thy ===== *)
theory NodeQueue
  imports RuntimeStore
begin

text \<open>
  The work queue of a node: the operations of \<open>node_config_store.py\<close> and
  \<open>node_output_hold_store.py\<close> that change the runtime state. Every operation is a mutation
  run by \<open>update_runtime\<close>; what its closure reports is the operation's result. The queue
  itself is specified by the abstract machine \<open>node_q\<close> further down, and every operation
  refines it.
\<close>

named_theorems mutation_defs \<open>definitions of the mutations\<close>

section \<open>Mutations\<close>

text \<open>An operation with an empty path does nothing; otherwise it runs its mutation.\<close>

definition run_mutation ::
    "rt_env \<Rightarrow> string \<Rightarrow> pyval \<Rightarrow> pyval mutation \<Rightarrow> runtime_store \<Rightarrow> (rt_error, runtime_store \<times> pyval) res" where
  "run_mutation env path skipped mutate st = (if path = [] then Inr (st, skipped)
     else rbind (update_runtime env path mutate st) (\<lambda>(st', full, r). Inr (st', r)))"

definition bump_if :: "bool \<Rightarrow> pydict \<Rightarrow> (rt_error, pydict) res" where
  "bump_if b p = (if b then bump_node_event_seq p else Inr p)"

definition delete_requested :: "pydict \<Rightarrow> bool" where
  "delete_requested payload \<longleftrightarrow> truthy (get payload ''_delete_requested'')"

definition state_of :: "pydict \<Rightarrow> node_state" where
  "state_of payload = parse_node_state (get payload ''state'')"

definition put_state :: "node_state \<Rightarrow> pydict \<Rightarrow> pydict" where
  "put_state s p = dict_set ''state'' (PStr (state_str s)) p"

definition put_pending :: "pyval list \<Rightarrow> pydict \<Rightarrow> pydict" where
  "put_pending xs p = dict_set ''pending_count'' (PInt (int (length xs))) (dict_set ''pending'' (PList xs) p)"

definition pop_inflight :: "pydict \<Rightarrow> pydict" where
  "pop_inflight p = dict_pop ''inflight_at'' (dict_pop ''inflight'' p)"

definition m_update_state :: "pyval \<Rightarrow> pyval mutation" where
  "m_update_state state payload = (if delete_requested payload then Inr (payload, PNone) else
     let next_state = parse_node_state state in
     rbind (bump_if (state_of payload \<noteq> next_state) payload) (\<lambda>p.
     let p = put_state next_state p in
     Inr (if next_state \<noteq> Working then dict_pop ''_stop_requested'' p else p, PNone)))"

definition m_transition_to_idle :: "string \<Rightarrow> pyval mutation" where
  "m_transition_to_idle type_id payload =
     (if delete_requested payload then
        rbind (bump_if (state_of payload \<noteq> Stop) payload) (\<lambda>p.
          Inr (dict_pop ''_stop_requested'' (put_state Stop p), PNone))
      else if state_of payload = Stop then Inr (payload, PNone)
      else if type_id = ''clock_node'' \<and> truthy (get payload ''_clock_running'') then
        rbind (bump_if (state_of payload \<noteq> Working) payload) (\<lambda>p. Inr (put_state Working p, PNone))
      else rbind (bump_if (state_of payload \<noteq> Idle) payload) (\<lambda>p.
        Inr (dict_pop ''_stop_requested'' (put_state Idle p), PNone)))"

definition idem_key :: "pyval \<Rightarrow> string" where
  "idem_key item = (if is_dict item then text_of (get (dict_items item) ''idempotency_key'') else [])"

definition request_key :: "pyval \<Rightarrow> string" where
  "request_key item = text_of (get (dict_items item) ''request_id'')"

definition already_known :: "string \<Rightarrow> pydict \<Rightarrow> bool" where
  "already_known key payload \<longleftrightarrow>
     list_ex (\<lambda>e. is_dict e \<and> idem_key e = key) (list_items (get payload ''pending''))
     \<or> (is_dict (get payload ''inflight'') \<and> idem_key (get payload ''inflight'') = key)
     \<or> list_ex (\<lambda>e. is_dict e \<and> request_key e = key) (list_items (get payload ''completed_requests''))
     \<or> (is_dict (get payload ''last_completed_request'') \<and> request_key (get payload ''last_completed_request'') = key)"

definition m_append_pending :: "pyval \<Rightarrow> pyval mutation" where
  "m_append_pending item payload = (if delete_requested payload then Inl NodeDeleting
     else if idem_key item \<noteq> [] \<and> already_known (idem_key item) payload then Inr (payload, PBool False)
     else let pending = list_items (get payload ''pending'') @ [if is_dict item then item else PDict []] in
       rbind (bump_node_event_seq (put_pending pending payload)) (\<lambda>p. Inr (p, PBool True)))"

definition m_pop_pending :: "pyval mutation" where
  "m_pop_pending payload = (case list_items (get payload ''pending'') of
      [] \<Rightarrow> Inr (payload, PNone)
    | item # rest \<Rightarrow> rbind (bump_node_event_seq (put_pending rest payload)) (\<lambda>p.
        Inr (p, if is_dict item then item else PNone)))"

definition work_report :: "nat \<Rightarrow> bool \<Rightarrow> node_state \<Rightarrow> pyval" where
  "work_report n inflight s = PDict [(''cleared_pending'', PInt (int n)), (''cleared_inflight'', PBool inflight),
     (''state'', PStr (state_str s))]"

definition m_cancel_work :: "pyval mutation" where
  "m_cancel_work payload = (if delete_requested payload then Inr (payload, work_report 0 False (state_of payload))
     else let n = length (list_items (get payload ''pending''));
              p = put_pending [] payload;
              has_inflight = is_dict (get p ''inflight'');
              p = (if has_inflight
                   then dict_set ''last_message'' (PStr ''Stop requested. Cancelling active work.'')
                          (dict_set ''_stop_requested'' (PBool True) (put_state Working p))
                   else dict_set ''last_message'' (PStr ''Stopped. Pending work cleared.'')
                          (put_state Idle (dict_pop ''_stop_requested'' (pop_inflight p))))
          in rbind (bump_node_event_seq p) (\<lambda>p.
             Inr (p, work_report n has_inflight (if has_inflight then Working else Idle))))"

definition clear_runtime_event :: "bool \<Rightarrow> pydict \<Rightarrow> pydict" where
  "clear_runtime_event reset_history p = (let p = dict_pop ''last_runtime_event'' p in
     if reset_history then dict_pop ''provider_request_totals'' (dict_pop ''provider_request_summaries''
         (dict_pop ''runtime_tool_calls'' (dict_pop ''runtime_events'' p)))
     else p)"

definition m_finish_stop :: "rt_env \<Rightarrow> string \<Rightarrow> pyval mutation" where
  "m_finish_stop env message payload = (if \<not> truthy (get payload ''_stop_requested'') then Inr (payload, PBool False)
     else let p = dict_set ''pending_count'' (PInt (int (length (list_items (get payload ''pending''))))) payload;
              p = put_state Idle (dict_pop ''_stop_requested'' (pop_inflight p));
              p = dict_set ''last_message'' (PStr (if message = [] then ''Stopped.'' else message)) p;
              p = dict_set ''last_run_at'' (PStr (env_now env)) p
          in rbind (bump_node_event_seq (clear_runtime_event False p)) (\<lambda>p. Inr (p, PBool True)))"

text \<open>The first item that is not reserved for another owner.\<close>

definition eligible :: "string \<Rightarrow> pyval \<Rightarrow> bool" where
  "eligible owner candidate \<longleftrightarrow> \<not> is_dict candidate
     \<or> (let candidate_owner = text_of (get (dict_items candidate) ''_runtime_owner_id'') in
        owner = [] \<or> candidate_owner = [] \<or> candidate_owner = owner)"

fun pick_item :: "string \<Rightarrow> pyval list \<Rightarrow> (pyval \<times> pyval list) option" where
  "pick_item owner [] = None"
| "pick_item owner (x # xs) = (if eligible owner x then Some (x, xs)
     else map_option (\<lambda>(y, ys). (y, x # ys)) (pick_item owner xs))"

definition clock_waiting :: "string \<Rightarrow> pydict \<Rightarrow> bool" where
  "clock_waiting type_id payload \<longleftrightarrow> state_of payload = Working \<and> type_id = ''clock_node''
     \<and> truthy (get payload ''_clock_running'') \<and> \<not> is_dict (get payload ''inflight'')"

definition m_dequeue :: "rt_env \<Rightarrow> string \<Rightarrow> pyval \<Rightarrow> pyval mutation" where
  "m_dequeue env type_id runtime_owner_id payload =
     (if delete_requested payload then Inr (payload, PNone)
      else if state_of payload \<noteq> Idle \<and> \<not> clock_waiting type_id payload then Inr (payload, PNone)
      else case pick_item (text_of runtime_owner_id) (list_items (get payload ''pending'')) of
        None \<Rightarrow> Inr (payload, PNone)
      | Some (item, rest) \<Rightarrow>
          if \<not> is_dict item then Inr (put_pending rest payload, PNone)
          else rbind (bump_node_event_seq (put_state Working (dict_set ''inflight_at'' (PStr (env_now env))
                 (dict_set ''inflight'' item (put_pending rest payload))))) (\<lambda>p. Inr (p, item)))"

definition is_mid_turn_user_input_item :: "pyval \<Rightarrow> string \<Rightarrow> bool" where
  "is_mid_turn_user_input_item item node_id \<longleftrightarrow> is_dict item \<and> (let d = dict_items item in
     text_of (get d ''source'') = ''emit''
     \<and> (case py_int_float (py_or (get d ''depth'') (PInt 0)) of Inl _ \<Rightarrow> True | Inr depth \<Rightarrow> depth = 0)
     \<and> text_of (get d ''link_id'') = []
     \<and> \<not> (node_id \<noteq> [] \<and> text_of (get d ''from'') \<noteq> [] \<and> text_of (get d ''from'') \<noteq> node_id)
     \<and> is_dict (get d ''payload'')
     \<and> py_lower (text_of (get (dict_items (get d ''payload'')) ''role'')) = ''user'')"

fun split_mid_turn :: "string \<Rightarrow> nat \<Rightarrow> pyval list \<Rightarrow> pyval list \<times> pyval list" where
  "split_mid_turn node_id n [] = ([], [])"
| "split_mid_turn node_id n (x # xs) = (if 0 < n \<and> is_mid_turn_user_input_item x node_id
     then (let (c, r) = split_mid_turn node_id (n - 1) xs in (x # c, r))
     else (let (c, r) = split_mid_turn node_id n xs in (c, x # r)))"

definition m_consume_mid_turn :: "int \<Rightarrow> pyval mutation" where
  "m_consume_mid_turn limit payload = (let max_items = max 1 (if limit = 0 then 16 else limit) in
     if delete_requested payload \<or> truthy (get payload ''_stop_requested'') \<or> state_of payload \<noteq> Working
        \<or> \<not> is_dict (get payload ''inflight'') \<or> \<not> truthy (get payload ''pending'')
     then Inr (payload, PList [])
     else let pending = list_items (get payload ''pending'');
              (consumed, remaining) = split_mid_turn (text_of (get payload ''node_id'')) (nat max_items) pending
          in if length remaining = length pending then Inr (payload, PList consumed)
             else rbind (bump_node_event_seq (put_pending remaining payload)) (\<lambda>p. Inr (p, PList consumed)))"

definition m_mark_delete :: "pyval mutation" where
  "m_mark_delete payload = (let n = length (list_items (get payload ''pending''));
       has_inflight = is_dict (get payload ''inflight'');
       p = dict_set ''last_message'' (PStr ''Delete requested. Cancelling active work.'')
             (dict_set ''_delete_requested'' (PBool True) (put_pending [] payload));
       p = (if has_inflight then put_state Working (dict_set ''_stop_requested'' (PBool True) p)
            else put_state Stop (dict_pop ''_stop_requested'' p))
     in rbind (bump_node_event_seq p) (\<lambda>p.
        Inr (p, work_report n has_inflight (if has_inflight then Working else Stop))))"

definition m_set_last_output :: "string \<Rightarrow> pyval list \<Rightarrow> pyval mutation" where
  "m_set_last_output output resources payload =
     rbind (bump_node_event_seq (dict_set ''last_output_resources'' (PList resources)
       (dict_set ''last_message'' (PStr output) payload))) (\<lambda>p. Inr (p, PNone))"

definition m_touch_last_run_at :: "rt_env \<Rightarrow> pyval \<Rightarrow> pyval mutation" where
  "m_touch_last_run_at env run_at payload =
     Inr (dict_set ''last_run_at'' (PStr (if text_of run_at = [] then env_now env else text_of run_at)) payload, PNone)"

definition m_set_inflight :: "rt_env \<Rightarrow> pyval \<Rightarrow> pyval mutation" where
  "m_set_inflight env item payload =
     rbind (bump_node_event_seq (if is_dict item
       then dict_set ''inflight_at'' (PStr (env_now env)) (dict_set ''inflight'' item payload)
       else pop_inflight payload)) (\<lambda>p. Inr (p, PNone))"

definition m_recover_inflight :: "pyval mutation" where
  "m_recover_inflight payload = (if \<not> is_dict (get payload ''inflight'')
     then Inr (dict_pop ''inflight'' payload, PBool False)
     else let pending = get payload ''inflight'' # list_items (get payload ''pending'') in
       rbind (bump_node_event_seq (pop_inflight (put_pending pending payload))) (\<lambda>p. Inr (p, PBool True)))"

definition stale_report :: "bool \<Rightarrow> string \<Rightarrow> int \<Rightarrow> pyval" where
  "stale_report recovered reason n =
     PDict [(''recovered'', PBool recovered), (''reason'', PStr reason), (''pending_count'', PInt n)]"

definition m_recover_stale :: "string \<Rightarrow> pyval mutation" where
  "m_recover_stale type_id payload =
     (let p = (if type_id \<noteq> [] \<and> \<not> dict_has payload ''type_id'' then dict_set ''type_id'' (PStr type_id) payload
               else payload) in
      rbind (plan_stale_working_recovery p) (\<lambda>plan.
      rbind (if plan_changed plan then bump_node_event_seq (apply_recovery_plan p plan) else Inr p) (\<lambda>p.
      Inr (dict_pop ''type_id'' p,
           stale_report (plan_changed plan) (if plan_changed plan then plan_reason plan else []) (plan_pending_count plan)))))"

definition final_state :: "string \<Rightarrow> pydict \<Rightarrow> node_state" where
  "final_state type_id payload = (if delete_requested payload then Stop
     else if state_of payload = Stop then Stop
     else if type_id = ''clock_node'' \<and> truthy (get payload ''_clock_running'') then Working
     else Idle)"

definition m_complete_work :: "string \<Rightarrow> pyval \<Rightarrow> pyval mutation" where
  "m_complete_work type_id held_output payload = (let fs = final_state type_id payload in
     rbind (bump_if (state_of payload \<noteq> fs) payload) (\<lambda>p.
     let p = dict_pop ''_stop_requested'' (put_state fs p) in
     if fs \<noteq> Stop \<or> \<not> is_dict held_output \<or> \<not> truthy held_output
     then Inr (p, PList [PStr (state_str fs), PInt 0])
     else let held = get p ''held_outputs'' in
       if \<not> is_none held \<and> \<not> is_list held then Inl HeldOutputsNotList
       else let held_outputs = list_items held @ [held_output] in
         rbind (bump_node_event_seq (dict_set ''held_outputs'' (PList held_outputs) p)) (\<lambda>p.
         Inr (p, PList [PStr (state_str fs), PInt (int (length held_outputs))]))))"

definition m_resume :: "pyval mutation" where
  "m_resume payload = (if delete_requested payload then Inr (payload, PList [])
     else let released = filter is_dict (list_items (get payload ''held_outputs''));
              p = dict_pop ''held_outputs'' payload
          in rbind (bump_if (state_of p \<noteq> Idle \<or> released \<noteq> []) p) (\<lambda>p.
             Inr (dict_pop ''_stop_requested'' (put_state Idle p), PList released)))"

lemmas [mutation_defs] = m_update_state_def m_transition_to_idle_def m_append_pending_def m_pop_pending_def
  m_cancel_work_def m_finish_stop_def m_dequeue_def m_consume_mid_turn_def m_mark_delete_def
  m_set_last_output_def m_touch_last_run_at_def m_set_inflight_def m_recover_inflight_def
  m_recover_stale_def m_complete_work_def m_resume_def

section \<open>Operations\<close>

definition type_id_of :: "rt_env \<Rightarrow> string \<Rightarrow> string" where
  "type_id_of env path = text_of (get (env_config env path) ''type_id'')"

definition is_stop_requested :: "rt_env \<Rightarrow> string \<Rightarrow> runtime_store \<Rightarrow> (rt_error, bool) res" where
  "is_stop_requested env path st = (if path = [] then Inr False
     else rbind (snapshot_fields env st path [PStr ''_stop_requested''] False) (\<lambda>p.
       Inr (truthy (get p ''_stop_requested''))))"

text \<open>The calls on one node, and what each of them runs.\<close>

datatype node_cmd =
    UpdateState pyval
  | TransitionToIdle
  | AppendPending pyval
  | PopPending
  | CancelWork
  | FinishStop string
  | DequeueToWorking pyval
  | ConsumeMidTurn int
  | MarkDelete
  | SetLastMessage pyval
  | SetLastOutput pyval "pyval list"
  | TouchLastRunAt pyval
  | SetInflight pyval
  | RecoverInflight
  | RecoverStale
  | CompleteWork pyval
  | Resume

fun node_op :: "rt_env \<Rightarrow> string \<Rightarrow> node_cmd \<Rightarrow> runtime_store \<Rightarrow> (rt_error, runtime_store \<times> pyval) res" where
  "node_op env path (UpdateState s) st = run_mutation env path PNone (m_update_state s) st"
| "node_op env path TransitionToIdle st = run_mutation env path PNone (m_transition_to_idle (type_id_of env path)) st"
| "node_op env path (AppendPending item) st = run_mutation env path (PBool False) (m_append_pending item) st"
| "node_op env path PopPending st = run_mutation env path PNone m_pop_pending st"
| "node_op env path CancelWork st = run_mutation env path (work_report 0 False Idle) m_cancel_work st"
| "node_op env path (FinishStop message) st = run_mutation env path (PBool False) (m_finish_stop env message) st"
| "node_op env path (DequeueToWorking owner) st =
     run_mutation env path PNone (m_dequeue env (type_id_of env path) owner) st"
| "node_op env path (ConsumeMidTurn limit) st = run_mutation env path (PList []) (m_consume_mid_turn limit) st"
| "node_op env path MarkDelete st = run_mutation env path (work_report 0 False Stop) m_mark_delete st"
| "node_op env path (SetLastMessage output) st = run_mutation env path PNone (m_set_last_output (str_or output) []) st"
| "node_op env path (SetLastOutput output resources) st =
     run_mutation env path PNone (m_set_last_output (str_or output) resources) st"
| "node_op env path (TouchLastRunAt run_at) st = run_mutation env path PNone (m_touch_last_run_at env run_at) st"
| "node_op env path (SetInflight item) st = run_mutation env path PNone (m_set_inflight env item) st"
| "node_op env path RecoverInflight st = run_mutation env path (PBool False) m_recover_inflight st"
| "node_op env path RecoverStale st =
     run_mutation env path (stale_report False [] 0) (m_recover_stale (type_id_of env path)) st"
| "node_op env path (CompleteWork held) st =
     run_mutation env path (PList [PStr ''idle'', PInt 0]) (m_complete_work (type_id_of env path) held) st"
| "node_op env path Resume st = run_mutation env path (PList []) m_resume st"

definition recover_startup_runtime_state :: "rt_env \<Rightarrow> string \<Rightarrow> runtime_store \<Rightarrow> runtime_store \<times> pyval" where
  "recover_startup_runtime_state env path st = (clear_runtime env path st,
     PDict [(''recovered'', PBool False), (''reason'', PStr ''runtime_state_memory_reset''),
       (''before_state'', PStr ''idle''), (''after_state'', PStr ''idle''),
       (''inflight_requeued'', PBool False), (''pending_count'', PInt 0)])"

section \<open>The abstract queue\<close>

text \<open>
  What a node promises, without payloads: its state, the queue, the item in flight, the stop and
  delete flags, whether its clock runs, the event counter, the outputs held back while it is
  stopped, and the requests it has completed.
\<close>

record node_q =
  nq_state :: node_state
  nq_pending :: "pydict list"
  nq_inflight :: "pydict option"
  nq_stop :: bool
  nq_delete :: bool
  nq_clock :: bool
  nq_seq :: int
  nq_held :: "pyval list"
  nq_done :: "string list"

fun as_dict :: "pyval \<Rightarrow> pydict option" where
  "as_dict (PDict d) = Some d" | "as_dict _ = None"

fun seq_val :: "pyval \<Rightarrow> int" where
  "seq_val (PInt n) = n" | "seq_val _ = 0"

definition done_ids :: "pydict \<Rightarrow> string list" where
  "done_ids p = map request_key (filter is_dict (list_items (get p ''completed_requests'')))
     @ (if is_dict (get p ''last_completed_request'') then [request_key (get p ''last_completed_request'')] else [])"

definition view :: "pydict \<Rightarrow> node_q" where
  "view p = \<lparr>nq_state = state_of p, nq_pending = map dict_items (list_items (get p ''pending'')),
     nq_inflight = as_dict (get p ''inflight''), nq_stop = truthy (get p ''_stop_requested''),
     nq_delete = delete_requested p, nq_clock = truthy (get p ''_clock_running''),
     nq_seq = seq_val (get p ''node_event_seq''),
     nq_held = list_items (get p ''held_outputs''),
     nq_done = done_ids p\<rparr>"

definition key_of :: "pydict \<Rightarrow> string" where
  "key_of d = text_of (get d ''idempotency_key'')"

definition known_key :: "string \<Rightarrow> node_q \<Rightarrow> bool" where
  "known_key key q \<longleftrightarrow> key \<in> key_of ` set (nq_pending q) \<or> key \<in> key_of ` set_option (nq_inflight q)
     \<or> key \<in> set (nq_done q)"

definition tick :: "node_q \<Rightarrow> node_q" where
  "tick q = q\<lparr>nq_seq := nq_seq q + 1\<rparr>"

definition to_state :: "node_state \<Rightarrow> node_q \<Rightarrow> node_q" where
  "to_state s q = (if nq_state q = s then q else (tick q)\<lparr>nq_state := s\<rparr>)"

definition runs_clock :: "string \<Rightarrow> node_q \<Rightarrow> bool" where
  "runs_clock type_id q \<longleftrightarrow> type_id = ''clock_node'' \<and> nq_clock q"

definition may_start :: "string \<Rightarrow> node_q \<Rightarrow> bool" where
  "may_start type_id q \<longleftrightarrow> \<not> nq_delete q
     \<and> (nq_state q = Idle \<or> nq_state q = Working \<and> runs_clock type_id q \<and> nq_inflight q = None)"

fun pick :: "string \<Rightarrow> pydict list \<Rightarrow> (pydict \<times> pydict list) option" where
  "pick owner [] = None"
| "pick owner (d # ds) = (if eligible owner (PDict d) then Some (d, ds)
     else map_option (\<lambda>(y, ys). (y, d # ys)) (pick owner ds))"

fun mid_turn :: "nat \<Rightarrow> pydict list \<Rightarrow> pydict list \<times> pydict list" where
  "mid_turn n [] = ([], [])"
| "mid_turn n (d # ds) = (if 0 < n \<and> is_mid_turn_user_input_item (PDict d) []
     then (let (c, r) = mid_turn (n - 1) ds in (d # c, r))
     else (let (c, r) = mid_turn n ds in (c, d # r)))"

definition end_state :: "string \<Rightarrow> node_q \<Rightarrow> node_state" where
  "end_state type_id q = (if nq_delete q \<or> nq_state q = Stop then Stop
     else if runs_clock type_id q then Working else Idle)"

text \<open>One step of the abstract queue; \<open>None\<close> where the call raises.\<close>

fun q_step :: "string \<Rightarrow> node_cmd \<Rightarrow> node_q \<Rightarrow> (node_q \<times> pyval) option" where
  "q_step t (UpdateState v) q = Some (if nq_delete q then q
     else (to_state (parse_node_state v) q)\<lparr>nq_stop := nq_stop q \<and> parse_node_state v = Working\<rparr>, PNone)"
| "q_step t TransitionToIdle q = Some (
     if nq_delete q then (to_state Stop q)\<lparr>nq_stop := False\<rparr>
     else if nq_state q = Stop then q
     else if runs_clock t q then to_state Working q
     else (to_state Idle q)\<lparr>nq_stop := False\<rparr>, PNone)"
| "q_step t (AppendPending item) q = (if nq_delete q then None
     else if idem_key item \<noteq> [] \<and> known_key (idem_key item) q then Some (q, PBool False)
     else Some ((tick q)\<lparr>nq_pending := nq_pending q @ [dict_items item]\<rparr>, PBool True))"
| "q_step t PopPending q = (case nq_pending q of [] \<Rightarrow> Some (q, PNone)
     | d # ds \<Rightarrow> Some ((tick q)\<lparr>nq_pending := ds\<rparr>, PDict d))"
| "q_step t CancelWork q = (if nq_delete q then Some (q, work_report 0 False (nq_state q))
     else let busy = nq_inflight q \<noteq> None; s = (if busy then Working else Idle) in
       Some ((tick q)\<lparr>nq_pending := [], nq_stop := busy, nq_state := s\<rparr>,
             work_report (length (nq_pending q)) busy s))"
| "q_step t (FinishStop m) q = (if \<not> nq_stop q then Some (q, PBool False)
     else Some ((tick q)\<lparr>nq_inflight := None, nq_stop := False, nq_state := Idle\<rparr>, PBool True))"
| "q_step t (DequeueToWorking owner) q = (if \<not> may_start t q then Some (q, PNone)
     else case pick (text_of owner) (nq_pending q) of
       None \<Rightarrow> Some (q, PNone)
     | Some (d, ds) \<Rightarrow> Some ((tick q)\<lparr>nq_pending := ds, nq_inflight := Some d, nq_state := Working\<rparr>, PDict d))"
| "q_step t (ConsumeMidTurn limit) q = (if nq_delete q \<or> nq_stop q \<or> nq_state q \<noteq> Working \<or> nq_inflight q = None
     then Some (q, PList [])
     else let (c, r) = mid_turn (nat (max 1 (if limit = 0 then 16 else limit))) (nq_pending q) in
       Some (if c = [] then q else (tick q)\<lparr>nq_pending := r\<rparr>, PList (map PDict c)))"
| "q_step t MarkDelete q = (let busy = nq_inflight q \<noteq> None; s = (if busy then Working else Stop) in
     Some ((tick q)\<lparr>nq_pending := [], nq_delete := True, nq_stop := busy, nq_state := s\<rparr>,
           work_report (length (nq_pending q)) busy s))"
| "q_step t (SetLastMessage v) q = Some (tick q, PNone)"
| "q_step t (SetLastOutput v rs) q = (if resource_list (PList rs) then Some (tick q, PNone) else None)"
| "q_step t (TouchLastRunAt v) q = Some (q, PNone)"
| "q_step t (SetInflight v) q = Some ((tick q)\<lparr>nq_inflight := as_dict v\<rparr>, PNone)"
| "q_step t RecoverInflight q = (case nq_inflight q of None \<Rightarrow> Some (q, PBool False)
     | Some d \<Rightarrow> Some ((tick q)\<lparr>nq_pending := d # nq_pending q, nq_inflight := None\<rparr>, PBool True))"
| "q_step t RecoverStale q = (let stale = (nq_state q = Working \<and> nq_inflight q = None \<and> \<not> runs_clock t q) in
     Some (if stale then (tick q)\<lparr>nq_state := Idle, nq_stop := False\<rparr> else q,
           stale_report stale (if stale then ''missing_inflight'' else []) (int (length (nq_pending q)))))"
| "q_step t (CompleteWork v) q = (let s = end_state t q; q' = (to_state s q)\<lparr>nq_stop := False\<rparr> in
     if s \<noteq> Stop \<or> dict_items v = [] then Some (q', PList [PStr (state_str s), PInt 0])
     else Some ((tick q')\<lparr>nq_held := nq_held q @ [v]\<rparr>,
                PList [PStr (state_str s), PInt (int (length (nq_held q)) + 1)]))"
| "q_step t Resume q = (if nq_delete q then Some (q, PList [])
     else let released = filter is_dict (nq_held q) in
       Some ((if nq_state q = Idle \<and> released = [] then q else tick q)
             \<lparr>nq_state := Idle, nq_stop := False, nq_held := []\<rparr>, PList released))"


section \<open>Refinement\<close>

subsection \<open>Legal payloads stay legal\<close>

named_theorems rt_intros \<open>updates that keep a payload legal\<close>

lemma rt_valid_state [rt_intros]: "rt_valid p \<Longrightarrow> rt_valid (put_state s p)"
  by (simp add: rt_valid_def put_state_def) (cases s; simp add: strip_eval)

lemma rt_valid_pending [rt_intros]: "rt_valid p \<Longrightarrow> list_all is_dict xs \<Longrightarrow> rt_valid (put_pending xs p)"
  by (simp add: rt_valid_def put_pending_def dict_list_def)

lemma rt_valid_inflight [rt_intros]: "rt_valid p \<Longrightarrow> is_dict v \<Longrightarrow> rt_valid (dict_set ''inflight'' v p)"
  by (simp add: rt_valid_def)

lemma rt_valid_seq [rt_intros]: "rt_valid p \<Longrightarrow> 0 \<le> n \<Longrightarrow> rt_valid (dict_set ''node_event_seq'' (PInt n) p)"
  by (simp add: rt_valid_def)

lemma rt_valid_held [rt_intros]: "rt_valid p \<Longrightarrow> rt_valid (dict_set ''held_outputs'' (PList xs) p)"
  by (simp add: rt_valid_def)

lemma rt_valid_resources [rt_intros]:
  "rt_valid p \<Longrightarrow> resource_list (PList xs) \<Longrightarrow> rt_valid (dict_set ''last_output_resources'' (PList xs) p)"
  by (simp add: rt_valid_def)

lemma rt_valid_count [rt_intros]:
  "rt_valid p \<Longrightarrow> map_of p ''pending'' = None \<longrightarrow> v = PInt 0 \<Longrightarrow> rt_valid (dict_set ''pending_count'' v p)"
  by (simp add: rt_valid_def)

lemma rt_valid_other [rt_intros]:
  assumes "rt_valid p"
  shows "rt_valid (dict_set ''last_message'' v p)" "rt_valid (dict_set ''inflight_at'' v p)"
    "rt_valid (dict_set ''last_run_at'' v p)" "rt_valid (dict_set ''_stop_requested'' v p)"
    "rt_valid (dict_set ''_delete_requested'' v p)" "rt_valid (dict_set ''type_id'' v p)"
  using assms by (simp_all add: rt_valid_def)

lemma rt_valid_pop [rt_intros]:
  assumes "rt_valid p"
  shows "rt_valid (dict_pop ''inflight'' p)" "rt_valid (dict_pop ''inflight_at'' p)"
    "rt_valid (dict_pop ''_stop_requested'' p)" "rt_valid (dict_pop ''last_runtime_event'' p)"
    "rt_valid (dict_pop ''held_outputs'' p)" "rt_valid (dict_pop ''type_id'' p)"
  using assms by (simp_all add: rt_valid_def)

lemma seq_nonneg: "rt_valid p \<Longrightarrow> 0 \<le> seq_val (get p ''node_event_seq'')"
  by (cases "map_of p ''node_event_seq''") (auto simp: rt_valid_def getd_def elim!: non_neg_int.elims)

lemma bump_valid:
  assumes "opt_all non_neg_int (map_of p ''node_event_seq'')"
  shows "bump_node_event_seq p = Inr (dict_set ''node_event_seq'' (PInt (seq_val (get p ''node_event_seq'') + 1)) p)"
proof (cases "map_of p ''node_event_seq''")
  case None
  then show ?thesis
    by (simp add: bump_node_event_seq_def event_seq_int_def NODE_EVENT_SEQ_FIELD_def getd_def py_or_def)
next
  case (Some v)
  then obtain n where "v = PInt n" "0 \<le> n" using assms by (auto elim!: non_neg_int.elims)
  with Some show ?thesis
    by (auto simp: bump_node_event_seq_def event_seq_int_def NODE_EVENT_SEQ_FIELD_def getd_def py_or_def)
qed

lemma get_list: "rt_valid p \<Longrightarrow> list_all is_dict (list_items (get p ''pending''))"
  by (cases "map_of p ''pending''") (auto simp: rt_valid_def getd_def dict_list_def)

lemma state_of_norm [simp]: "rt_valid p \<Longrightarrow> state_of (norm_val p) = state_of p"
  by (cases "map_of p ''state''")
    (auto simp: state_of_def getd_def map_of_norm_val rt_valid_def parse_node_state_normal elim!: nonempty_str.elims)

lemma view_norm_val [simp]: "rt_valid p \<Longrightarrow> view (norm_val p) = view p"
  by (simp add: view_def delete_requested_def done_ids_def getd_def map_of_norm_val)

subsection \<open>When the store is written\<close>

definition same_core :: "node_q \<Rightarrow> node_q \<Rightarrow> bool" where
  "same_core q q' \<longleftrightarrow> nq_pending q = nq_pending q' \<and> nq_inflight q = nq_inflight q'
     \<and> nq_held q = nq_held q' \<and> nq_done q = nq_done q'"

lemma py_eq_get:
  assumes "py_eq (PDict a) (PDict b)" and "wf_dict a" and "wf_dict b"
  shows "(get a k = PNone \<and> get b k = PNone) \<or> py_eq (get a k) (get b k)"
  using py_eq_dict_lookup [OF assms, of k] by (cases "map_of a k"; cases "map_of b k") (auto simp: getd_def)

lemma py_eq_str: "py_eq v w \<Longrightarrow> v = PStr s \<longleftrightarrow> w = PStr s"
  by (cases v; cases w) auto

lemma py_eq_parse: "py_eq v w \<Longrightarrow> parse_node_state v = parse_node_state w"
  by (cases v; cases w) (auto simp: parse_node_state_def)

lemma rt_seq_cases: assumes "rt_valid p" obtains "get p ''node_event_seq'' = PNone" | n where "get p ''node_event_seq'' = PInt n"
  using assms by (cases "map_of p ''node_event_seq''") (auto simp: rt_valid_def getd_def elim!: non_neg_int.elims)

lemma py_eq_view:
  assumes eq: "py_eq (PDict a) (PDict b)" and wf: "wf_dict a" "wf_dict b" and v: "rt_valid a" "rt_valid b"
    and core: "same_core (view a) (view b)"
  shows "view a = view b"
proof -
  note g = py_eq_get [OF eq wf]
  have t: "truthy (get a k) = truthy (get b k)" for k using g [of k] py_eq_truthy by auto
  have "state_of a = state_of b" using g [of "''state''"] py_eq_parse by (auto simp: state_of_def)
  moreover have "seq_val (get a ''node_event_seq'') = seq_val (get b ''node_event_seq'')"
    using g [of "''node_event_seq''"]
    by (cases rule: rt_seq_cases [OF v(1)]; cases rule: rt_seq_cases [OF v(2)]) auto
  ultimately show ?thesis using core t by (simp add: view_def same_core_def delete_requested_def)
qed

lemma run_mutation_view:
  assumes ok: "store_ok st" and "path \<noteq> []" and p: "p = item_of st (env_key env path)"
    and m: "mutate p = Inr (q, r)" and wf: "wf_dict q" and v: "rt_valid q"
    and core: "py_eq (PDict (norm_val q)) (PDict p) \<Longrightarrow> nq_seq (view q) = nq_seq (view p) \<Longrightarrow> same_core (view q) (view p)"
  shows "\<exists>st'. run_mutation env path d mutate st = Inr (st', r) \<and> store_ok st'
    \<and> view (item_of st' (env_key env path)) = view q
    \<and> (\<forall>k. k \<noteq> env_key env path \<longrightarrow> item_of st' k = item_of st k)"
proof -
  let ?k = "env_key env path"
  have np: "normal p" using store_ok_item [OF ok] p by simp
  then have wfp: "wf_dict p" "rt_valid p" by (simp_all add: normal_def)
  have nq: "normal (norm_val q)" using wf v by (rule normal_norm_val)
  obtain full where upd: "update_runtime env path mutate st =
      Inr (if \<not> py_eq (PDict (norm_val q)) (PDict p) then put_item env ?k (norm_val q) st else st, full, r)"
    using update_runtime_eq [OF ok, of mutate env path q r] m v p by auto
  show ?thesis
  proof (cases "py_eq (PDict (norm_val q)) (PDict p)")
    case False
    then show ?thesis using upd assms(2) v store_ok_put_item [OF ok nq] by (simp add: run_mutation_def)
  next
    case True
    have "nq_seq (view q) = nq_seq (view p)"
      using py_eq_get [OF True _ wfp(1), of "''node_event_seq''"] nq v wfp(2)
      by (cases rule: rt_seq_cases [OF rt_valid_norm_val [OF v]]; cases rule: rt_seq_cases [OF wfp(2)])
        (auto simp: normal_def view_def map_of_norm_val getd_def)
    then have "view (norm_val q) = view p"
      using True nq wfp v core [OF True] by (intro py_eq_view) (auto simp: normal_def)
    then show ?thesis using upd assms(2) True ok p v by (simp add: run_mutation_def)
  qed
qed

subsection \<open>What each update does to the queue\<close>

lemma view_put_state [simp]: "view (put_state s p) = (view p)\<lparr>nq_state := s\<rparr>"
  by (simp add: view_def put_state_def state_of_def delete_requested_def done_ids_def)

lemma view_put_pending [simp]: "view (put_pending xs p) = (view p)\<lparr>nq_pending := map dict_items xs\<rparr>"
  by (simp add: view_def put_pending_def state_of_def delete_requested_def done_ids_def)

lemma view_pop_inflight [simp]: "view (pop_inflight p) = (view p)\<lparr>nq_inflight := None\<rparr>"
  by (simp add: view_def pop_inflight_def state_of_def delete_requested_def done_ids_def)

lemma view_set [simp]:
  "view (dict_set ''inflight'' v p) = (view p)\<lparr>nq_inflight := as_dict v\<rparr>"
  "view (dict_set ''node_event_seq'' v p) = (view p)\<lparr>nq_seq := seq_val v\<rparr>"
  "view (dict_set ''held_outputs'' v p) = (view p)\<lparr>nq_held := list_items v\<rparr>"
  "view (dict_set ''_stop_requested'' v p) = (view p)\<lparr>nq_stop := truthy v\<rparr>"
  "view (dict_set ''_delete_requested'' v p) = (view p)\<lparr>nq_delete := truthy v\<rparr>"
  "view (dict_set ''last_message'' v p) = view p"
  "view (dict_set ''inflight_at'' v p) = view p"
  "view (dict_set ''last_run_at'' v p) = view p"
  "view (dict_set ''last_output_resources'' v p) = view p"
  "view (dict_set ''pending_count'' v p) = view p"
  "view (dict_set ''type_id'' v p) = view p"
  by (simp_all add: view_def state_of_def delete_requested_def done_ids_def)

lemma view_pop [simp]:
  "view (dict_pop ''inflight'' p) = (view p)\<lparr>nq_inflight := None\<rparr>"
  "view (dict_pop ''held_outputs'' p) = (view p)\<lparr>nq_held := []\<rparr>"
  "view (dict_pop ''_stop_requested'' p) = (view p)\<lparr>nq_stop := False\<rparr>"
  "view (dict_pop ''last_runtime_event'' p) = view p"
  "view (dict_pop ''type_id'' p) = view p"
  by (simp_all add: view_def state_of_def delete_requested_def done_ids_def)

lemma view_fields:
  "state_of p = nq_state (view p)" "delete_requested p = nq_delete (view p)"
  "truthy (get p ''_stop_requested'') = nq_stop (view p)"
  "truthy (get p ''_clock_running'') = nq_clock (view p)"
  "is_dict (get p ''inflight'') = (nq_inflight (view p) \<noteq> None)"
  "seq_val (get p ''node_event_seq'') = nq_seq (view p)"
  "list_items (get p ''held_outputs'') = nq_held (view p)"
  "length (list_items (get p ''pending'')) = length (nq_pending (view p))"
  by (simp_all add: view_def) (cases "get p ''inflight''"; simp)

lemma dicts_eq: "list_all is_dict xs \<Longrightarrow> xs = map PDict (map dict_items xs)"
  by (induction xs) (auto simp: is_dict_iff)

lemma list_all_PDict [simp]: "list_all is_dict (map PDict ds)"
  by (simp add: list_all_iff)

lemma not_dict_items [simp]: "\<not> is_dict v \<Longrightarrow> dict_items v = []"
  by (cases v) simp_all

lemma dict_items_PDict [simp]: "is_dict v \<Longrightarrow> PDict (dict_items v) = v"
  by (cases v) simp_all

lemma map_dict_items_PDict [simp]: "map (dict_items \<circ> PDict) ds = ds"
  by (induction ds) simp_all

lemma pending_eq: "rt_valid p \<Longrightarrow> list_items (get p ''pending'') = map PDict (nq_pending (view p))"
  using dicts_eq [OF get_list, of p] by (simp add: view_def)

lemma inflight_eq: "nq_inflight (view p) = Some d \<longleftrightarrow> get p ''inflight'' = PDict d"
  by (cases "get p ''inflight''") (simp_all add: view_def)

definition bumped :: "pydict \<Rightarrow> pydict" where
  "bumped p = dict_set ''node_event_seq'' (PInt (seq_val (get p ''node_event_seq'') + 1)) p"

lemma bump_eq: "rt_valid p \<Longrightarrow> bump_node_event_seq p = Inr (bumped p)"
  by (simp add: bump_valid bumped_def rt_valid_def)

lemma bump_if_eq: "rt_valid p \<Longrightarrow> bump_if b p = Inr (if b then bumped p else p)"
  by (simp add: bump_if_def bump_eq)

lemma rt_valid_bumped [rt_intros]: "rt_valid p \<Longrightarrow> rt_valid (bumped p)"
  by (simp add: bumped_def rt_valid_seq seq_nonneg)

lemma wf_bumped [simp]: "wf_dict p \<Longrightarrow> wf_dict (bumped p)"
  by (simp add: bumped_def)

lemma view_bumped [simp]: "view (bumped p) = tick (view p)"
  by (simp add: bumped_def tick_def view_fields)

lemma tick_simps [simp]:
  "nq_state (tick q) = nq_state q" "nq_pending (tick q) = nq_pending q" "nq_inflight (tick q) = nq_inflight q"
  "nq_stop (tick q) = nq_stop q" "nq_delete (tick q) = nq_delete q" "nq_clock (tick q) = nq_clock q"
  "nq_seq (tick q) = nq_seq q + 1" "nq_held (tick q) = nq_held q" "nq_done (tick q) = nq_done q"
  by (simp_all add: tick_def)

lemma pick_item_map: "pick_item owner (map PDict ds) = map_option (\<lambda>(d, r). (PDict d, map PDict r)) (pick owner ds)"
  by (induction ds) (auto simp: option.map_comp comp_def split_beta)

lemma split_mid_turn_map: "split_mid_turn [] n (map PDict ds) = (case mid_turn n ds of (c, r) \<Rightarrow> (map PDict c, map PDict r))"
  by (induction ds arbitrary: n) (auto split: prod.splits)

lemma mid_turn_length: "mid_turn n ds = (c, r) \<Longrightarrow> length ds = length c + length r"
  by (induction ds arbitrary: n c r) (auto split: prod.splits if_splits)

lemma already_known_view:
  assumes "rt_valid p"
  shows "already_known k p \<longleftrightarrow> known_key k (view p)"
proof -
  have d: "idem_key (PDict d) = key_of d" for d by (simp add: idem_key_def key_of_def)
  have "already_known k p \<longleftrightarrow> k \<in> key_of ` set (nq_pending (view p))
     \<or> (is_dict (get p ''inflight'') \<and> idem_key (get p ''inflight'') = k) \<or> k \<in> set (done_ids p)"
    unfolding already_known_def pending_eq [OF assms] done_ids_def by (auto simp: list_ex_iff d)
  then show ?thesis
    by (cases "get p ''inflight''") (auto simp: known_key_def view_def d)
qed

subsection \<open>Every mutation refines the abstract step\<close>

definition refines :: "string \<Rightarrow> node_cmd \<Rightarrow> pyval mutation \<Rightarrow> bool" where
  "refines t cmd mutate \<longleftrightarrow> (\<forall>p. normal p \<longrightarrow> (case q_step t cmd (view p) of
      None \<Rightarrow> (\<exists>e. rbind (mutate p) (\<lambda>(q, r). normalize_payload q) = Inl e)
    | Some (w, r) \<Rightarrow> \<exists>q. mutate p = Inr (q, r) \<and> wf_dict q \<and> rt_valid q \<and> view q = w
        \<and> (py_eq (PDict (norm_val q)) (PDict p) \<longrightarrow> nq_seq w = nq_seq (view p) \<longrightarrow> same_core w (view p))))"

lemma refinesI:
  assumes "\<And>p. wf_dict p \<Longrightarrow> rt_valid p \<Longrightarrow> normal p \<Longrightarrow> (case q_step t cmd (view p) of
      None \<Rightarrow> (\<exists>e. rbind (mutate p) (\<lambda>(q, r). normalize_payload q) = Inl e)
    | Some (w, r) \<Rightarrow> \<exists>q. mutate p = Inr (q, r) \<and> wf_dict q \<and> rt_valid q \<and> view q = w
        \<and> (py_eq (PDict (norm_val q)) (PDict p) \<longrightarrow> nq_seq w = nq_seq (view p) \<longrightarrow> same_core w (view p)))"
  shows "refines t cmd mutate"
  using assms by (auto simp: refines_def normal_def)

lemma wf_helpers [simp]:
  "wf_dict p \<Longrightarrow> wf_dict (put_state s p)" "wf_dict p \<Longrightarrow> wf_dict (put_pending xs p)"
  "wf_dict p \<Longrightarrow> wf_dict (pop_inflight p)"
  by (simp_all add: put_state_def put_pending_def pop_inflight_def)

lemma rt_valid_pop_inflight [rt_intros]: "rt_valid p \<Longrightarrow> rt_valid (pop_inflight p)"
  by (simp add: pop_inflight_def rt_valid_pop)

lemma same_core_refl [simp]: "same_core q q"
  by (simp add: same_core_def)

lemmas rt_bump = bump_eq bump_if_eq rt_intros

lemma refine_update_state: "refines t (UpdateState v) (m_update_state v)"
  by (rule refinesI)
    (auto simp: m_update_state_def rt_bump view_fields to_state_def same_core_def Let_def)

lemma refine_transition_to_idle: "refines t TransitionToIdle (m_transition_to_idle t)"
  by (rule refinesI)
    (auto simp: m_transition_to_idle_def rt_bump view_fields to_state_def same_core_def runs_clock_def)

lemma refine_append_pending: "refines t (AppendPending item) (m_append_pending item)"
  by (rule refinesI)
    (auto simp: m_append_pending_def rt_bump view_fields already_known_view same_core_def Let_def pending_eq)

lemma refine_pop_pending: "refines t PopPending m_pop_pending"
  by (rule refinesI)
    (auto simp: m_pop_pending_def pending_eq rt_bump same_core_def split: list.splits)

lemma refine_cancel_work: "refines t CancelWork m_cancel_work"
  by (rule refinesI)
    (auto simp: m_cancel_work_def view_fields rt_bump same_core_def Let_def)

lemma refine_mark_delete: "refines t MarkDelete m_mark_delete"
  by (rule refinesI)
    (auto simp: m_mark_delete_def view_fields rt_bump same_core_def Let_def)

lemma refine_set_inflight: "refines t (SetInflight v) (m_set_inflight env v)"
  by (rule refinesI)
    (cases v; auto simp: m_set_inflight_def view_fields rt_bump same_core_def Let_def)

lemma refine_touch: "refines t (TouchLastRunAt v) (m_touch_last_run_at env v)"
  by (rule refinesI) (auto simp: m_touch_last_run_at_def rt_intros)

lemma refine_set_last_output: "refines t (SetLastOutput v rs) (m_set_last_output (str_or v) rs)"
proof (rule refinesI, goal_cases)
  case (1 p)
  let ?q = "dict_set ''last_output_resources'' (PList rs) (dict_set ''last_message'' (PStr (str_or v)) p)"
  have "bump_node_event_seq ?q = Inr (bumped ?q)"
    using 1(2) by (simp add: bumped_def bump_valid rt_valid_def)
  moreover have "\<not> rt_valid (bumped ?q)" if "\<not> resource_list (PList rs)"
    using that by (simp add: rt_valid_def bumped_def)
  ultimately show ?case using 1 normalize_invalid [of "bumped ?q"]
    by (auto simp: m_set_last_output_def rt_bump same_core_def)
qed

lemma refine_set_last_message: "refines t (SetLastMessage v) (m_set_last_output (str_or v) [])"
  using refine_set_last_output [of t v "[]"] by (simp add: refines_def resource_list_def)

lemma refine_finish_stop: "refines t (FinishStop m) (m_finish_stop env m)"
proof (rule refinesI, goal_cases)
  case (1 p)
  let ?q = "dict_set ''pending_count'' (PInt (int (length (list_items (get p ''pending''))))) p"
  have "rt_valid ?q" using 1(2) by (intro rt_valid_count) (auto simp: getd_def)
  then show ?case using 1
    by (auto simp: m_finish_stop_def clear_runtime_event_def rt_bump view_fields same_core_def Let_def)
qed

lemma refine_dequeue: "refines t (DequeueToWorking owner) (m_dequeue env t owner)"
  by (rule refinesI)
    (auto simp: m_dequeue_def pending_eq pick_item_map clock_waiting_def may_start_def runs_clock_def
      view_fields rt_bump same_core_def split: option.splits)

lemma normal_no_node_id: "normal p \<Longrightarrow> get p ''node_id'' = PNone"
  by (simp add: getd_def normal_unknown)

lemma refine_consume: "refines t (ConsumeMidTurn limit) (m_consume_mid_turn limit)"
proof (rule refinesI, goal_cases)
  case (1 p)
  have "truthy (get p ''pending'') \<longleftrightarrow> nq_pending (view p) \<noteq> []"
    using 1(2) by (cases "map_of p ''pending''") (auto simp: view_def getd_def rt_valid_def dict_list_def is_list_iff)
  then show ?case
    using 1 mid_turn_length [of "nat (max 1 (if limit = 0 then 16 else limit))" "nq_pending (view p)"]
    by (auto simp: m_consume_mid_turn_def pending_eq normal_no_node_id split_mid_turn_map view_fields rt_bump
        same_core_def Let_def split: prod.splits)
qed

lemma refine_recover_inflight: "refines t RecoverInflight m_recover_inflight"
proof (rule refinesI, goal_cases)
  case (1 p)
  show ?case
  proof (cases "nq_inflight (view p)")
    case None
    then have "view (dict_pop ''inflight'' p) = view p" by simp
    then show ?thesis using None 1 by (simp add: m_recover_inflight_def view_fields rt_intros)
  next
    case (Some d)
    then have d: "get p ''inflight'' = PDict d" by (simp add: inflight_eq)
    let ?q = "put_pending (PDict d # map PDict (nq_pending (view p))) p"
    have "rt_valid ?q" using 1(2) by (intro rt_valid_pending) simp_all
    then show ?thesis using 1 Some
      by (simp add: m_recover_inflight_def d pending_eq Let_def rt_bump)
  qed
qed

lemma get_held [simp]:
  "getd (put_state s p) ''held_outputs'' w = getd p ''held_outputs'' w"
  "getd (bumped p) ''held_outputs'' w = getd p ''held_outputs'' w"
  by (simp_all add: put_state_def bumped_def)

lemma held_cases: "rt_valid p \<Longrightarrow> is_none (get p ''held_outputs'') \<or> is_list (get p ''held_outputs'')"
  by (cases "map_of p ''held_outputs''") (auto simp: rt_valid_def getd_def)

lemma refine_complete_work: "refines t (CompleteWork v) (m_complete_work t v)"
proof (rule refinesI, goal_cases)
  case (1 p)
  let ?s = "end_state t (view p)" and ?b = "state_of p \<noteq> end_state t (view p)"
  let ?q = "dict_pop ''_stop_requested'' (put_state ?s (if ?b then bumped p else p))"
  have fs: "final_state t p = ?s" by (simp add: final_state_def end_state_def view_fields runs_clock_def)
  have q: "rt_valid ?q" "wf_dict ?q" using 1 by (simp_all add: rt_intros)
  have vq: "view ?q = (to_state ?s (view p))\<lparr>nq_stop := False\<rparr>" by (auto simp: to_state_def view_fields)
  have core: "same_core (view ?q) (view p)" unfolding vq by (simp add: same_core_def to_state_def)
  have held: "list_items (get ?q ''held_outputs'') = nq_held (view p)"
    using core by (simp add: same_core_def view_fields)
  have step: "m_complete_work t v p = (if ?s \<noteq> Stop \<or> \<not> is_dict v \<or> \<not> truthy v
      then Inr (?q, PList [PStr (state_str ?s), PInt 0])
      else Inr (bumped (dict_set ''held_outputs'' (PList (nq_held (view p) @ [v])) ?q),
             PList [PStr (state_str ?s), PInt (int (length (nq_held (view p) @ [v])))]))"
    unfolding m_complete_work_def fs Let_def
    using 1(2) held_cases [OF 1(2)] q(1) by (simp only: bump_if_eq rbind_Inr held) (auto simp: rt_bump)
  show ?case
  proof (cases "?s \<noteq> Stop \<or> dict_items v = []")
    case True
    then have "?s \<noteq> Stop \<or> \<not> is_dict v \<or> \<not> truthy v" by (cases v) auto
    then show ?thesis using True q vq core step by (simp add: Let_def del: view_pop view_put_state)
  next
    case False
    then have "is_dict v" "truthy v" by (cases v; auto)+
    then show ?thesis using False q vq core step
      by (simp add: Let_def rt_bump to_state_def algebra_simps del: view_pop view_put_state)
  qed
qed

lemma refine_resume: "refines t Resume m_resume"
proof (rule refinesI, goal_cases)
  case (1 p)
  have "nq_held (view p) = []" if "py_eq (PDict (norm_val q)) (PDict p)" and "wf_dict q" "rt_valid q"
      and "map_of q ''held_outputs'' = None" for q
  proof -
    have "get (norm_val q) ''held_outputs'' = PNone" using that by (simp add: getd_def map_of_norm_val)
    then have "get p ''held_outputs'' = PNone"
      using py_eq_get [OF that(1) wf_norm_val [OF that(2)] 1(1), of "''held_outputs''"]
      by (cases "get p ''held_outputs''") auto
    then show ?thesis by (simp add: view_def)
  qed
  moreover let ?q = "dict_pop ''_stop_requested'' (put_state Idle (dict_pop ''held_outputs'' p))"
  have "rt_valid ?q" "wf_dict ?q" using 1 by (simp_all add: rt_intros)
  moreover have "map_of ?q ''held_outputs'' = None" by (simp add: put_state_def)
  ultimately have "nq_held (view p) = []" if "py_eq (PDict (norm_val ?q)) (PDict p)"
    using that by blast
  then show ?case using 1
    by (auto simp: m_resume_def rt_bump view_fields same_core_def Let_def simp del: py_eq.simps)
qed


lemma stale_plan:
  assumes "rt_valid p" and "text_of (get p ''type_id'') = t"
  defines "stale \<equiv> nq_state (view p) = Working \<and> nq_inflight (view p) = None \<and> \<not> runs_clock t (view p)"
  shows "\<exists>plan. plan_stale_working_recovery p = Inr plan \<and> plan_changed plan = stale
    \<and> plan_pending_count plan = int (length (nq_pending (view p)))
    \<and> (stale \<longrightarrow> plan_reason plan = ''missing_inflight'' \<and> plan_after plan = Idle \<and> plan_clear plan \<and> \<not> plan_requeue plan)"
proof -
  have cw: "is_clock_waiting p \<longleftrightarrow> nq_state (view p) = Working \<and> runs_clock t (view p) \<and> nq_inflight (view p) = None"
    using assms(2) by (auto simp: is_clock_waiting_def runs_clock_def view_fields state_of_def [symmetric])
  have "pending_count p = Inr (int (length (nq_pending (view p))))"
  proof (cases "map_of p ''pending''")
    case None
    then have "get p ''pending_count'' = PNone \<or> get p ''pending_count'' = PInt 0"
      using assms(1) by (cases "map_of p ''pending_count''") (auto simp: rt_valid_def getd_def)
    with None show ?thesis by (auto simp: pending_count_def getd_def view_def lift_py_def)
  next
    case (Some v)
    then show ?thesis using assms(1)
      by (auto simp: rt_valid_def dict_list_def is_list_iff pending_count_def getd_def view_def)
  qed
  then show ?thesis
    by (auto simp: plan_stale_working_recovery_def cw stale_def no_plan_def Let_def view_fields
        state_of_def [symmetric])
qed

lemma apply_stale_plan:
  assumes "rt_valid p" "wf_dict p" "plan_changed plan" "plan_after plan = Idle" "plan_clear plan" "\<not> plan_requeue plan"
    and none: "nq_inflight (view p) = None"
  shows "rt_valid (apply_recovery_plan p plan) \<and> wf_dict (apply_recovery_plan p plan)
    \<and> view (apply_recovery_plan p plan) = (view p)\<lparr>nq_state := Idle, nq_stop := False\<rparr>"
proof -
  let ?c = "dict_set ''pending_count'' (PInt (int (length (list_items (get p ''pending''))))) p"
  have "rt_valid ?c" using assms(1) by (intro rt_valid_count) (auto simp: getd_def)
  moreover have "apply_recovery_plan p plan = put_state Idle (dict_pop ''_stop_requested'' (pop_inflight ?c))"
    using assms by (simp add: apply_recovery_plan_def put_state_def pop_inflight_def Let_def)
  ultimately show ?thesis using none assms(2) by (simp add: rt_intros)
qed

lemma refine_recover_stale: "refines t RecoverStale (m_recover_stale t)" if t: "py_strip t = t"
proof (rule refinesI, goal_cases)
  case (1 p)
  have no_type: "map_of p ''type_id'' = None" using 1(3) by (simp add: normal_unknown)
  let ?p = "if t \<noteq> [] \<and> \<not> dict_has p ''type_id'' then dict_set ''type_id'' (PStr t) p else p"
  have p: "rt_valid ?p" "wf_dict ?p" "view ?p = view p" using 1 by (simp_all add: rt_intros)
  have "text_of (get ?p ''type_id'') = t" using no_type t by (auto simp: dict_has_iff getd_def)
  from stale_plan [OF p(1) this] obtain plan where
    plan: "plan_stale_working_recovery ?p = Inr plan"
      "plan_changed plan = (nq_state (view p) = Working \<and> nq_inflight (view p) = None \<and> \<not> runs_clock t (view p))"
      "plan_pending_count plan = int (length (nq_pending (view p)))"
      "plan_changed plan \<longrightarrow> plan_reason plan = ''missing_inflight'' \<and> plan_after plan = Idle
         \<and> plan_clear plan \<and> \<not> plan_requeue plan"
    unfolding p(3) by blast
  show ?case
  proof (cases "plan_changed plan")
    case True
    then have "rt_valid (apply_recovery_plan ?p plan)" "wf_dict (apply_recovery_plan ?p plan)"
      "view (apply_recovery_plan ?p plan) = (view p)\<lparr>nq_state := Idle, nq_stop := False\<rparr>"
      using apply_stale_plan [OF p(1,2), of plan] plan p(3) by simp_all
    then show ?thesis using True plan
      by (simp add: m_recover_stale_def Let_def rt_bump same_core_def tick_def)
  next
    case False
    then show ?thesis using plan p
      by (auto simp: m_recover_stale_def Let_def rt_intros)
  qed
qed

section \<open>The simulation\<close>

fun mutation_of :: "rt_env \<Rightarrow> string \<Rightarrow> node_cmd \<Rightarrow> pyval mutation" where
  "mutation_of env t (UpdateState s) = m_update_state s"
| "mutation_of env t TransitionToIdle = m_transition_to_idle t"
| "mutation_of env t (AppendPending item) = m_append_pending item"
| "mutation_of env t PopPending = m_pop_pending"
| "mutation_of env t CancelWork = m_cancel_work"
| "mutation_of env t (FinishStop message) = m_finish_stop env message"
| "mutation_of env t (DequeueToWorking owner) = m_dequeue env t owner"
| "mutation_of env t (ConsumeMidTurn limit) = m_consume_mid_turn limit"
| "mutation_of env t MarkDelete = m_mark_delete"
| "mutation_of env t (SetLastMessage output) = m_set_last_output (str_or output) []"
| "mutation_of env t (SetLastOutput output resources) = m_set_last_output (str_or output) resources"
| "mutation_of env t (TouchLastRunAt run_at) = m_touch_last_run_at env run_at"
| "mutation_of env t (SetInflight item) = m_set_inflight env item"
| "mutation_of env t RecoverInflight = m_recover_inflight"
| "mutation_of env t RecoverStale = m_recover_stale t"
| "mutation_of env t (CompleteWork held) = m_complete_work t held"
| "mutation_of env t Resume = m_resume"

lemma node_op_mutation:
  obtains skipped where "node_op env path cmd st = run_mutation env path skipped (mutation_of env (type_id_of env path) cmd) st"
  using that by (cases cmd) auto

lemma refines_all: "refines (type_id_of env path) cmd (mutation_of env (type_id_of env path) cmd)"
  by (cases cmd)
    (simp_all add: refine_update_state refine_transition_to_idle refine_append_pending refine_pop_pending
      refine_cancel_work refine_finish_stop refine_dequeue refine_consume refine_mark_delete
      refine_set_last_message refine_set_last_output refine_touch refine_set_inflight refine_recover_inflight
      refine_recover_stale refine_complete_work refine_resume type_id_of_def text_of_def py_strip_idem)

abbreviation node_view :: "rt_env \<Rightarrow> string \<Rightarrow> runtime_store \<Rightarrow> node_q" where
  "node_view env path st \<equiv> view (item_of st (env_key env path))"

lemma node_op_simulates:
  assumes ok: "store_ok st" and path: "path \<noteq> []"
  shows "case q_step (type_id_of env path) cmd (node_view env path st) of
      None \<Rightarrow> \<exists>e. node_op env path cmd st = Inl e
    | Some (q, r) \<Rightarrow> \<exists>st'. node_op env path cmd st = Inr (st', r) \<and> store_ok st' \<and> node_view env path st' = q
        \<and> (\<forall>k. k \<noteq> env_key env path \<longrightarrow> item_of st' k = item_of st k)"
proof -
  let ?t = "type_id_of env path" and ?p = "item_of st (env_key env path)"
  obtain skipped where op: "node_op env path cmd st = run_mutation env path skipped (mutation_of env ?t cmd) st"
    by (rule node_op_mutation)
  have ref: "refines ?t cmd (mutation_of env ?t cmd)" by (rule refines_all)
  have np: "normal ?p" using ok by (rule store_ok_item)
  show ?thesis
  proof (cases "q_step ?t cmd (view ?p)")
    case None
    then obtain e where e: "rbind (mutation_of env ?t cmd ?p) (\<lambda>(q, r). normalize_payload q) = Inl e"
      using ref np by (auto simp: refines_def split: option.splits)
    have "normalize_payload ?p = Inr ?p" using np by (simp add: normalize_payload_Inr normal_def)
    then have "\<exists>e. node_op env path cmd st = Inl e"
      using e path unfolding op run_mutation_def update_runtime_def Let_def
      by (auto simp: rbind_eq_Inl split: prod.splits)
    with None show ?thesis by simp
  next
    case (Some wr)
    obtain w r where wr: "wr = (w, r)" by force
    with Some ref np obtain q where q: "mutation_of env ?t cmd ?p = Inr (q, r)" "wf_dict q" "rt_valid q" "view q = w"
      "py_eq (PDict (norm_val q)) (PDict ?p) \<longrightarrow> nq_seq w = nq_seq (view ?p) \<longrightarrow> same_core w (view ?p)"
      by (auto simp: refines_def simp del: py_eq.simps split: option.splits)
    have "\<exists>st'. run_mutation env path skipped (mutation_of env ?t cmd) st = Inr (st', r) \<and> store_ok st'
        \<and> node_view env path st' = view q \<and> (\<forall>k. k \<noteq> env_key env path \<longrightarrow> item_of st' k = item_of st k)"
      using q by (intro run_mutation_view [OF ok path refl]) auto
    then show ?thesis using Some wr op q(4) by simp
  qed
qed

end
