(* ===== verification/QueueLaws.thy ===== *)
theory QueueLaws
  imports NodeQueue "HOL-Library.Multiset"
begin

text \<open>
  What the queue of a node guarantees, for single operations and for arbitrary interleavings of
  operations on any number of nodes. The proofs use only the abstract step \<open>q_step\<close>; they
  reach the operations through the simulation \<open>node_op_simulates\<close>.
\<close>

section \<open>Interleavings\<close>

text \<open>A call names its environment (the clock moves), its node and its command. A call that raises
  leaves the store as it was.\<close>

type_synonym node_call = "rt_env \<times> string \<times> node_cmd"

definition call_op :: "node_call \<Rightarrow> runtime_store \<Rightarrow> (rt_error, runtime_store \<times> pyval) res" where
  "call_op c st = (case c of (env, path, cmd) \<Rightarrow> node_op env path cmd st)"

definition commit_call :: "node_call \<Rightarrow> runtime_store \<Rightarrow> runtime_store" where
  "commit_call c st = (case call_op c st of Inl e \<Rightarrow> st | Inr (st', r) \<Rightarrow> st')"

lemma node_op_no_path: "node_op env [] cmd st = Inr (st', r) \<Longrightarrow> st' = st"
  by (cases cmd) (simp_all add: run_mutation_def)

lemma call_op_cases:
  assumes "store_ok st" and "call_op (env, path, cmd) st = Inr (st', r)"
  obtains (same) "path = []" "st' = st"
    | (step) q where "path \<noteq> []" "q_step (type_id_of env path) cmd (node_view env path st) = Some (q, r)" "store_ok st'"
      "node_view env path st' = q" "\<And>k. k \<noteq> env_key env path \<Longrightarrow> item_of st' k = item_of st k"
proof (cases "path = []")
  case True
  then show ?thesis using assms(2) node_op_no_path by (intro same) (auto simp: call_op_def)
next
  case False
  then show ?thesis using assms step node_op_simulates [OF assms(1) False, where env = env and cmd = cmd]
    by (auto simp: call_op_def split: option.splits prod.splits)
qed

lemma call_op_store_ok: "store_ok st \<Longrightarrow> call_op c st = Inr (st', r) \<Longrightarrow> store_ok st'"
  by (cases c) (auto elim: call_op_cases)

interpretation node_calls: transactional call_op store_ok "\<lambda>_ _. True"
  by unfold_locales (rule call_op_store_ok)

lemma commit_call_eq: "commit_call = node_calls.commit"
  by (simp add: fun_eq_iff commit_call_def node_calls.commit_def)

lemma commit_call_store_ok: "store_ok st \<Longrightarrow> store_ok (commit_call c st)"
  unfolding commit_call_eq by (rule node_calls.commit_inv) simp_all

text \<open>One call, seen from one node: nothing happens to it, or its queue makes a step.\<close>

lemma commit_call_view:
  assumes "store_ok st"
  shows "item_of (commit_call (env, path, cmd) st) k = item_of st k
    \<or> (path \<noteq> [] \<and> env_key env path = k
       \<and> (\<exists>r. q_step (type_id_of env path) cmd (view (item_of st k)) = Some (view (item_of (commit_call (env, path, cmd) st) k), r)))"
proof (cases "call_op (env, path, cmd) st")
  case (Inr sr)
  obtain st' r where sr: "sr = (st', r)" by force
  have c: "commit_call (env, path, cmd) st = st'" using Inr sr by (simp add: commit_call_def)
  from assms Inr [unfolded sr] show ?thesis
  proof (cases rule: call_op_cases)
    case same
    then show ?thesis using c by simp
  next
    case (step q)
    then show ?thesis using c by (cases "env_key env path = k") auto
  qed
qed (simp add: commit_call_def)

section \<open>Facts of the abstract queue\<close>

definition work :: "node_q \<Rightarrow> pydict multiset" where
  "work q = mset (nq_pending q) + (case nq_inflight q of None \<Rightarrow> {#} | Some d \<Rightarrow> {#d#})"

text \<open>The commands that hand work out, finish it or discard it; every other command keeps it, and
  so does a dequeue while nothing is in flight.\<close>

definition keeps_work :: "node_cmd \<Rightarrow> node_q \<Rightarrow> bool" where
  "keeps_work cmd q \<longleftrightarrow> (case cmd of PopPending \<Rightarrow> False | CancelWork \<Rightarrow> False | FinishStop _ \<Rightarrow> False
     | ConsumeMidTurn _ \<Rightarrow> False | MarkDelete \<Rightarrow> False | SetInflight _ \<Rightarrow> False
     | DequeueToWorking _ \<Rightarrow> nq_inflight q = None | _ \<Rightarrow> True)"

lemma pick_split:
  "pick owner ds = Some (d, r) \<Longrightarrow> \<exists>xs ys. ds = xs @ d # ys \<and> r = xs @ ys \<and> eligible owner (PDict d)
     \<and> (\<forall>x \<in> set xs. \<not> eligible owner (PDict x))"
proof (induction ds arbitrary: r)
  case (Cons a ds)
  show ?case
  proof (cases "eligible owner (PDict a)")
    case True
    then have "d = a" "r = ds" using Cons.prems by auto
    then show ?thesis using True by (intro exI [of _ "[]"] exI [of _ ds]) simp
  next
    case False
    then obtain r' where r': "pick owner ds = Some (d, r')" "r = a # r'" using Cons.prems by auto
    obtain xs ys where "ds = xs @ d # ys" "r' = xs @ ys" "eligible owner (PDict d)"
      "\<forall>x \<in> set xs. \<not> eligible owner (PDict x)" using Cons.IH [OF r'(1)] by blast
    then show ?thesis using False r'(2) by (intro exI [of _ "a # xs"] exI [of _ ys]) auto
  qed
qed simp

lemma pick_None: "pick owner ds = None \<longleftrightarrow> (\<forall>d \<in> set ds. \<not> eligible owner (PDict d))"
  by (induction ds) auto

lemma pick_mset: "pick owner ds = Some (d, r) \<Longrightarrow> mset ds = add_mset d (mset r)"
  using pick_split [of owner ds d r] by auto

lemma to_state_simps [simp]:
  "nq_pending (to_state s q) = nq_pending q" "nq_inflight (to_state s q) = nq_inflight q"
  "nq_delete (to_state s q) = nq_delete q" "nq_held (to_state s q) = nq_held q" "nq_done (to_state s q) = nq_done q"
  "nq_state (to_state s q) = s" "nq_stop (to_state s q) = nq_stop q"
  "nq_seq (to_state s q) = (if nq_state q = s then nq_seq q else nq_seq q + 1)"
  by (simp_all add: to_state_def)

lemma q_step_work:
  assumes "q_step t cmd q = Some (q', r)" and "keeps_work cmd q"
  shows "work q \<subseteq># work q' \<and> set (nq_done q) \<subseteq> set (nq_done q')"
proof (cases cmd)
  case (DequeueToWorking owner)
  then show ?thesis using assms pick_mset [of "text_of owner" "nq_pending q"]
    by (auto simp: work_def keeps_work_def split: if_splits option.splits)
qed (use assms in \<open>auto simp: work_def keeps_work_def Let_def split: if_splits option.splits\<close>)

lemma known_key_mono: "work q \<subseteq># work q' \<Longrightarrow> set (nq_done q) \<subseteq> set (nq_done q') \<Longrightarrow> known_key k q \<Longrightarrow> known_key k q'"
proof -
  assume w: "work q \<subseteq># work q'" and d: "set (nq_done q) \<subseteq> set (nq_done q')" and k: "known_key k q"
  have "set (nq_pending q) \<union> set_option (nq_inflight q) = set_mset (work q)" for q
    by (auto simp: work_def split: option.splits)
  moreover have "set_mset (work q) \<subseteq> set_mset (work q')" using w by (rule set_mset_mono)
  ultimately have "key_of ` (set (nq_pending q) \<union> set_option (nq_inflight q))
      \<subseteq> key_of ` (set (nq_pending q') \<union> set_option (nq_inflight q'))" by (auto 0 3)
  then show ?thesis using k d unfolding known_key_def by blast
qed

lemma q_step_delete: "q_step t cmd q = Some (q', r) \<Longrightarrow> nq_delete q \<Longrightarrow> nq_delete q'"
  by (cases cmd) (auto simp: Let_def split: if_splits option.splits list.splits prod.splits)

text \<open>The part of the state that clients watch.\<close>

definition watched :: "node_q \<Rightarrow> node_state \<times> pydict list \<times> pydict option \<times> bool \<times> pydict list" where
  "watched q = (nq_state q, nq_pending q, nq_inflight q, nq_delete q, map dict_items (filter is_dict (nq_held q)))"

lemma q_step_seq:
  assumes "q_step t cmd q = Some (q', r)"
  shows "nq_seq q \<le> nq_seq q' \<and> (watched q' \<noteq> watched q \<longrightarrow> nq_seq q < nq_seq q')"
  using assms by (cases cmd)
    (auto simp: watched_def Let_def split: if_splits option.splits list.splits prod.splits)


section \<open>Properties\<close>

text \<open>C1. Every operation on a node refines the abstract queue: it raises exactly where the
  abstract step has no successor (appending to a node that is being deleted, reporting illegal output
  resources) and otherwise returns what the abstract step returns, makes the node's queue the
  abstract successor, keeps the store legal and touches no other node.\<close>

theorem node_op_refines_queue:
  assumes "store_ok st" and "path \<noteq> []"
  shows "case q_step (type_id_of env path) cmd (node_view env path st) of
      None \<Rightarrow> \<exists>e. node_op env path cmd st = Inl e
    | Some (q, r) \<Rightarrow> \<exists>st'. node_op env path cmd st = Inr (st', r) \<and> store_ok st' \<and> node_view env path st' = q
        \<and> (\<forall>k. k \<noteq> env_key env path \<longrightarrow> item_of st' k = item_of st k)"
  using assms by (rule node_op_simulates)

lemma node_op_refines_queue_witness:
  "store_ok empty_store \<and>
   (\<exists>st'. node_op sample_env ''n'' (AppendPending (PDict [(''idempotency_key'', PStr ''k'')])) empty_store = Inr (st', PBool True)
      \<and> nq_pending (node_view sample_env ''n'' st') = [[(''idempotency_key'', PStr ''k'')]]
      \<and> nq_seq (node_view sample_env ''n'' st') = 1)"
proof -
  have v: "node_view sample_env ''n'' empty_store = \<lparr>nq_state = Idle, nq_pending = [], nq_inflight = None, nq_stop = False,
      nq_delete = False, nq_clock = False, nq_seq = 0, nq_held = [], nq_done = []\<rparr>"
    by (simp add: empty_store_def item_of_def view_def state_of_def parse_node_state_def delete_requested_def done_ids_def)
  show ?thesis
    using node_op_refines_queue [of empty_store "''n''" sample_env "AppendPending (PDict [(''idempotency_key'', PStr ''k'')])"]
    unfolding v by (auto simp: known_key_def)
qed

text \<open>The calls of an interleaving that keep the work of the node with key \<open>k\<close>.\<close>

fun kept_run :: "string \<Rightarrow> node_call list \<Rightarrow> runtime_store \<Rightarrow> bool" where
  "kept_run k [] st = True"
| "kept_run k ((env, path, cmd) # cs) st \<longleftrightarrow>
     (path = [] \<or> env_key env path \<noteq> k \<or> keeps_work cmd (view (item_of st k)))
     \<and> kept_run k cs (commit_call (env, path, cmd) st)"

lemma kept_run_work:
  "store_ok st \<Longrightarrow> kept_run k cs st \<Longrightarrow>
     work (view (item_of st k)) \<subseteq># work (view (item_of (fold commit_call cs st) k))
     \<and> set (nq_done (view (item_of st k))) \<subseteq> set (nq_done (view (item_of (fold commit_call cs st) k)))"
proof (induction k cs st rule: kept_run.induct)
  case (2 k env path cmd cs st)
  let ?st = "commit_call (env, path, cmd) st"
  have "work (view (item_of st k)) \<subseteq># work (view (item_of ?st k))
      \<and> set (nq_done (view (item_of st k))) \<subseteq> set (nq_done (view (item_of ?st k)))"
    using commit_call_view [OF 2(2), of env path cmd k] 2(3) q_step_work by fastforce
  then show ?case using 2(1) [OF commit_call_store_ok [OF 2(2)]] 2(3) by (auto intro: subset_mset.order_trans)
qed simp

text \<open>C24. No work is lost: in every interleaving of operations on any nodes that does not take,
  finish or discard the work of one node, every item that was queued or in flight there is still
  queued or in flight there at the end, as often as before. Dequeuing (when nothing is in flight) and
  every recovery are among the operations allowed.\<close>

theorem node_work_conserved:
  assumes "store_ok st" and "kept_run k cs st"
  shows "work (view (item_of st k)) \<subseteq># work (view (item_of (fold commit_call cs st) k))"
  using kept_run_work [OF assms] by blast

definition sample_item :: pydict where
  "sample_item = [(''idempotency_key'', PStr ''k'')]"

definition sample_calls :: "node_call list" where
  "sample_calls = [(sample_env, ''m'', MarkDelete), (sample_env, ''n'', AppendPending (PDict sample_item))]"

lemma node_work_conserved_witness:
  "store_ok empty_store \<and> kept_run ''n'' sample_calls empty_store
   \<and> work (view (item_of empty_store ''n'')) \<subseteq># work (view (item_of (fold commit_call sample_calls empty_store) ''n''))"
proof -
  have k: "kept_run ''n'' sample_calls empty_store" by (simp add: sample_calls_def keeps_work_def sample_env_def)
  show ?thesis using node_work_conserved [OF store_ok_empty k] k by simp
qed

text \<open>C10. Appending is exactly-once for an item with an idempotency key: after a successful
  append, and after any interleaving that keeps the node's work, appending an item with the same key
  returns False and leaves the node's queue as it is, unless the node is being deleted.\<close>

theorem append_exactly_once:
  assumes ok: "store_ok st" and path: "path \<noteq> []" and key: "idem_key item \<noteq> []"
    and app: "node_op env path (AppendPending item) st = Inr (st1, PBool True)"
    and run: "kept_run (env_key env path) cs st1" and st2: "st2 = fold commit_call cs st1"
    and item': "idem_key item' = idem_key item" and alive: "\<not> nq_delete (node_view env path st2)"
  shows "\<exists>st3. node_op env path (AppendPending item') st2 = Inr (st3, PBool False)
    \<and> node_view env path st3 = node_view env path st2"
proof -
  have sim: "store_ok st1 \<and> known_key (idem_key item) (node_view env path st1)"
    using node_op_simulates [OF ok path, of env "AppendPending item"] app key
    by (cases item) (auto simp: known_key_def idem_key_def key_of_def split: if_splits)
  then have ok2: "store_ok st2" unfolding st2
    using node_calls.run_inv [of st1 cs] node_calls.guarded_trivial by (simp add: commit_call_eq)
  have "known_key (idem_key item) (node_view env path st2)"
    unfolding st2 using kept_run_work [OF _ run] sim by (auto intro: known_key_mono)
  then show ?thesis
    using node_op_simulates [OF ok2 path, of env "AppendPending item'"] alive key item' by auto
qed


lemma view_empty: "node_view sample_env ''n'' empty_store = \<lparr>nq_state = Idle, nq_pending = [], nq_inflight = None, nq_stop = False,
      nq_delete = False, nq_clock = False, nq_seq = 0, nq_held = [], nq_done = []\<rparr>"
  by (simp add: empty_store_def item_of_def view_def state_of_def parse_node_state_def delete_requested_def done_ids_def)

lemma idem_key_sample [simp]: "idem_key (PDict sample_item) = ''k''"
  by (simp add: idem_key_def sample_item_def strip_eval)

lemma q_step_dequeue_delete: "q_step t (DequeueToWorking owner) q = Some (q', r) \<Longrightarrow> nq_delete q' = nq_delete q"
  by (auto split: if_splits option.splits)

lemma sample_append:
  obtains st1 where "node_op sample_env ''n'' (AppendPending (PDict sample_item)) empty_store = Inr (st1, PBool True)"
    "store_ok st1" "nq_pending (node_view sample_env ''n'' st1) = [sample_item]"
    "nq_inflight (node_view sample_env ''n'' st1) = None" "\<not> nq_delete (node_view sample_env ''n'' st1)"
    "nq_state (node_view sample_env ''n'' st1) = Idle"
  using node_op_simulates [of empty_store "''n''" sample_env "AppendPending (PDict sample_item)"] that
  unfolding view_empty by (auto simp: known_key_def)

lemma append_exactly_once_witness:
  "\<exists>st1 st2 st3. node_op sample_env ''n'' (AppendPending (PDict sample_item)) empty_store = Inr (st1, PBool True)
     \<and> kept_run ''n'' [(sample_env, ''n'', DequeueToWorking PNone)] st1
     \<and> st2 = commit_call (sample_env, ''n'', DequeueToWorking PNone) st1
     \<and> node_op sample_env ''n'' (AppendPending (PDict sample_item)) st2 = Inr (st3, PBool False)"
proof -
  let ?deq = "(sample_env, ''n'', DequeueToWorking PNone)"
  have n: "env_key sample_env ''n'' = ''n''" by (simp add: sample_env_def)
  obtain st1 where st1: "node_op sample_env ''n'' (AppendPending (PDict sample_item)) empty_store = Inr (st1, PBool True)"
      "store_ok st1" "nq_inflight (node_view sample_env ''n'' st1) = None" "\<not> nq_delete (node_view sample_env ''n'' st1)"
    by (rule sample_append)
  have kept: "kept_run ''n'' [?deq] st1" using st1(3) by (simp add: n keeps_work_def)
  have "\<not> nq_delete (node_view sample_env ''n'' (commit_call ?deq st1))"
    using commit_call_view [OF st1(2), of sample_env "''n''" "DequeueToWorking PNone" "''n''"] st1(4)
    unfolding n by (metis q_step_dequeue_delete)
  then have "\<exists>st3. node_op sample_env ''n'' (AppendPending (PDict sample_item)) (commit_call ?deq st1) = Inr (st3, PBool False)
      \<and> node_view sample_env ''n'' st3 = node_view sample_env ''n'' (commit_call ?deq st1)"
    using kept n by (intro append_exactly_once [OF store_ok_empty _ _ st1(1), where cs = "[?deq]"]) simp_all
  then show ?thesis using st1(1) kept by blast
qed

text \<open>Taking work: a dequeue that returns an item takes the first item not reserved for
  another owner, keeps the order of the rest, puts the item in flight and the node to work; it
  returns nothing exactly when the node is deleting, not idle (nor a clock node between ticks), or
  has no such item, and then the queue is unchanged.\<close>

lemma dequeue_first_eligible:
  assumes "store_ok st" and "path \<noteq> []"
  shows "\<exists>st' r. node_op env path (DequeueToWorking owner) st = Inr (st', r)
    \<and> (let q = node_view env path st; q' = node_view env path st' in
       if may_start (type_id_of env path) q \<and> (\<exists>d \<in> set (nq_pending q). eligible (text_of owner) (PDict d))
       then \<exists>xs d ys. nq_pending q = xs @ d # ys \<and> r = PDict d \<and> eligible (text_of owner) (PDict d)
              \<and> (\<forall>x \<in> set xs. \<not> eligible (text_of owner) (PDict x))
              \<and> nq_pending q' = xs @ ys \<and> nq_inflight q' = Some d \<and> nq_state q' = Working
       else r = PNone \<and> q' = q)"
proof -
  let ?q = "node_view env path st" and ?o = "text_of owner"
  note sim = node_op_simulates [OF assms, of env "DequeueToWorking owner"]
  show ?thesis
  proof (cases "may_start (type_id_of env path) ?q \<and> (\<exists>d \<in> set (nq_pending ?q). eligible ?o (PDict d))")
    case True
    then obtain d r where "pick ?o (nq_pending ?q) = Some (d, r)"
      using pick_None [of ?o "nq_pending ?q"] by (cases "pick ?o (nq_pending ?q)") auto
    with True sim obtain st' where st': "node_op env path (DequeueToWorking owner) st = Inr (st', PDict d)"
        "node_view env path st' = (tick ?q)\<lparr>nq_pending := r, nq_inflight := Some d, nq_state := Working\<rparr>"
      by auto
    obtain xs ys where "nq_pending ?q = xs @ d # ys" "r = xs @ ys" "eligible ?o (PDict d)"
        "\<forall>x \<in> set xs. \<not> eligible ?o (PDict x)"
      using pick_split [OF \<open>pick ?o (nq_pending ?q) = Some (d, r)\<close>] by blast
    then have "\<exists>xs d' ys. nq_pending ?q = xs @ d' # ys \<and> PDict d = PDict d' \<and> eligible ?o (PDict d')
        \<and> (\<forall>x \<in> set xs. \<not> eligible ?o (PDict x)) \<and> r = xs @ ys \<and> Some d = Some d'" by blast
    then show ?thesis using True st' by (intro exI [of _ st'] exI [of _ "PDict d"]) (simp add: Let_def)
  next
    case False
    then have "\<not> may_start (type_id_of env path) ?q \<or> pick ?o (nq_pending ?q) = None"
      using pick_None [of ?o "nq_pending ?q"] by auto
    with sim have "\<exists>st'. node_op env path (DequeueToWorking owner) st = Inr (st', PNone) \<and> node_view env path st' = ?q"
      by (auto split: if_splits)
    with False show ?thesis by (auto simp: Let_def)
  qed
qed

lemma dequeue_first_eligible_witness:
  "\<exists>st st'. node_op sample_env ''n'' (DequeueToWorking PNone) st = Inr (st', PDict sample_item)
     \<and> nq_inflight (node_view sample_env ''n'' st') = Some sample_item"
proof -
  obtain st where st: "store_ok st" "nq_pending (node_view sample_env ''n'' st) = [sample_item]"
      "\<not> nq_delete (node_view sample_env ''n'' st)" "nq_state (node_view sample_env ''n'' st) = Idle"
    by (rule sample_append)
  have "may_start (type_id_of sample_env ''n'') (node_view sample_env ''n'' st)" "eligible [] (PDict sample_item)"
    using st by (auto simp: may_start_def eligible_def sample_item_def)
  then show ?thesis
    using dequeue_first_eligible [OF st(1), of "''n''" sample_env PNone] st(2)
    by (auto simp: Let_def Cons_eq_append_conv)
qed

lemma call_op_delete:
  "store_ok st \<and> nq_delete (view (item_of st k)) \<Longrightarrow> call_op c st = Inr (st', r)
    \<Longrightarrow> store_ok st' \<and> nq_delete (view (item_of st' k))"
proof -
  assume a: "store_ok st \<and> nq_delete (view (item_of st k))" and c: "call_op c st = Inr (st', r)"
  obtain env path cmd where e: "c = (env, path, cmd)" by (cases c)
  have "commit_call c st = st'" using c by (simp add: commit_call_def)
  then show ?thesis
    using a c commit_call_view [of st env path cmd k] q_step_delete call_op_store_ok [of st c st' r]
    unfolding e by fastforce
qed

interpretation deleting_calls: transactional call_op "\<lambda>st. store_ok st \<and> nq_delete (view (item_of st k))"
    "\<lambda>_ _. True" for k
  by unfold_locales (rule call_op_delete)

text \<open>Deleting is final: once a node is marked for deletion, no interleaving of operations
  takes the mark back, and in every later state its queue hands out nothing and refuses new work.\<close>

lemma delete_is_final:
  assumes "store_ok st" and "path \<noteq> []" and "nq_delete (node_view env path st)"
    and st': "st' = fold commit_call cs st"
  shows "nq_delete (node_view env path st') \<and> (\<exists>e. node_op env path (AppendPending item) st' = Inl e)
    \<and> (\<exists>st''. node_op env path (DequeueToWorking owner) st' = Inr (st'', PNone)
        \<and> node_view env path st'' = node_view env path st')"
proof -
  have inv: "store_ok st' \<and> nq_delete (node_view env path st')"
    using deleting_calls.run_inv [of st "env_key env path" cs] node_calls.guarded_trivial assms by (simp add: commit_call_eq)
  then show ?thesis
    using node_op_simulates [OF _ assms(2), of st' env "AppendPending item"]
      node_op_simulates [OF _ assms(2), of st' env "DequeueToWorking owner"]
    by (auto simp: may_start_def)
qed


lemma delete_is_final_witness:
  "\<exists>st. nq_delete (node_view sample_env ''n'' st)
     \<and> (\<exists>e. node_op sample_env ''n'' (AppendPending PNone) (commit_call (sample_env, ''n'', CancelWork) st) = Inl e)"
proof -
  obtain st where st: "store_ok st" "nq_delete (node_view sample_env ''n'' st)"
    using node_op_simulates [of empty_store "''n''" sample_env MarkDelete] by (auto simp: Let_def)
  then show ?thesis
    using delete_is_final [of st "''n''" sample_env _ "[(sample_env, ''n'', CancelWork)]" PNone PNone] by auto
qed

text \<open>The event counter of a node never goes back, and it grows with every operation that
  changes what clients watch: the state, the queue, the item in flight, the delete mark or the outputs
  held back. A client that sees an unchanged counter has seen the current state.\<close>

lemma event_counter_witnesses_change:
  assumes "store_ok st" and "path \<noteq> []" and "node_op env path cmd st = Inr (st', r)"
  shows "nq_seq (node_view env path st) \<le> nq_seq (node_view env path st')
    \<and> (watched (node_view env path st') \<noteq> watched (node_view env path st)
       \<longrightarrow> nq_seq (node_view env path st) < nq_seq (node_view env path st'))"
  using node_op_simulates [OF assms(1,2), of env cmd] assms(3) q_step_seq
  by (auto split: option.splits prod.splits)

lemma event_counter_witnesses_change_witness:
  "\<exists>st'. node_op sample_env ''n'' (AppendPending (PDict sample_item)) empty_store = Inr (st', PBool True)
     \<and> 0 < nq_seq (node_view sample_env ''n'' st')"
proof -
  obtain st1 where st1: "node_op sample_env ''n'' (AppendPending (PDict sample_item)) empty_store = Inr (st1, PBool True)"
      "nq_pending (node_view sample_env ''n'' st1) = [sample_item]"
    by (rule sample_append)
  then show ?thesis
    using event_counter_witnesses_change [OF store_ok_empty _ st1(1)] by (auto simp: view_empty watched_def)
qed

text \<open>A crash while an item is in flight loses nothing: after a dequeue that returned an
  item, recovering puts that item back, first in the queue, and nothing stays in flight; the queue
  holds the same items as before the dequeue.\<close>

lemma dequeue_recover_roundtrip:
  assumes ok: "store_ok st" and path: "path \<noteq> []"
    and deq: "node_op env path (DequeueToWorking owner) st = Inr (st1, PDict d)"
  shows "\<exists>st2. node_op env path RecoverInflight st1 = Inr (st2, PBool True)
    \<and> nq_inflight (node_view env path st2) = None
    \<and> (\<exists>rest. nq_pending (node_view env path st2) = d # rest)
    \<and> mset (nq_pending (node_view env path st2)) = mset (nq_pending (node_view env path st))"
proof -
  obtain rest where st1: "store_ok st1" and p: "pick (text_of owner) (nq_pending (node_view env path st)) = Some (d, rest)"
      and q: "node_view env path st1 = (tick (node_view env path st))\<lparr>nq_pending := rest, nq_inflight := Some d, nq_state := Working\<rparr>"
    using node_op_simulates [OF ok path, of env "DequeueToWorking owner"] deq
    by (auto split: if_splits option.splits)
  show ?thesis
    using node_op_simulates [OF st1 path, of env RecoverInflight] pick_mset [OF p] unfolding q by auto
qed

lemma dequeue_recover_roundtrip_witness:
  "\<exists>st st1 st2. node_op sample_env ''n'' (DequeueToWorking PNone) st = Inr (st1, PDict sample_item)
     \<and> node_op sample_env ''n'' RecoverInflight st1 = Inr (st2, PBool True)
     \<and> mset (nq_pending (node_view sample_env ''n'' st2)) = {#sample_item#}"
proof -
  obtain st where st: "store_ok st" "nq_pending (node_view sample_env ''n'' st) = [sample_item]"
      "\<not> nq_delete (node_view sample_env ''n'' st)" "nq_state (node_view sample_env ''n'' st) = Idle"
    by (rule sample_append)
  then obtain st1 where st1: "node_op sample_env ''n'' (DequeueToWorking PNone) st = Inr (st1, PDict sample_item)"
    using node_op_simulates [of st "''n''" sample_env "DequeueToWorking PNone"]
    by (auto simp: may_start_def eligible_def)
  show ?thesis using dequeue_recover_roundtrip [OF st(1) _ st1] st(2) st1 by auto
qed

text \<open>The sender of a mid-turn user input is not checked: a stored payload has no
  \<open>node_id\<close>, so the comparison of \<open>from\<close> with the node's own id never rejects an item, and
  what a running node consumes does not depend on who sent it.\<close>

lemma mid_turn_sender_unchecked:
  assumes "store_ok st"
  shows "text_of (get (item_of st k) ''node_id'') = []
    \<and> is_mid_turn_user_input_item (PDict (dict_set ''from'' v d)) (text_of (get (item_of st k) ''node_id''))
      = is_mid_turn_user_input_item (PDict d) (text_of (get (item_of st k) ''node_id''))"
  using normal_no_node_id [OF store_ok_item [OF assms, of k]] by (simp add: is_mid_turn_user_input_item_def Let_def)

lemma mid_turn_sender_unchecked_witness:
  "store_ok empty_store \<and>
   is_mid_turn_user_input_item (PDict (dict_set ''from'' (PStr ''other'') sample_item)) (text_of (get (item_of empty_store ''n'') ''node_id''))
      = is_mid_turn_user_input_item (PDict sample_item) (text_of (get (item_of empty_store ''n'') ''node_id''))"
  using mid_turn_sender_unchecked [OF store_ok_empty, of "''n''" "PStr ''other''" sample_item] store_ok_empty by blast

end
