(* ===== verification/GroupModel.thy ===== *)
theory GroupModel
  imports PyValue
begin

text \<open>
  Agent groups, the data and the store: \<open>agent_groups/contracts.py\<close> and
  \<open>agent_groups/repository.py\<close>. The SQLite database of a graph is the record
  \<open>group_db\<close>, one field per table, with rows in insertion order. A document column holds the
  JSON text of a group; the model keeps the validated group itself. Texts of error messages that are
  not ASCII in the source are given in English.

  An operation reads the clock through \<open>ge_now\<close>: one operation sees one time. The identifiers
  made by \<open>uuid4\<close>, the access role of the caller and the notification settings are the other
  fields of the environment.
\<close>

section \<open>Contracts\<close>

definition identifier_ok :: "string \<Rightarrow> bool" where
  "identifier_ok s \<longleftrightarrow> py_strip s = s \<and> 1 \<le> length s \<and> length s \<le> 160
     \<and> list_all (\<lambda>c. c \<noteq> CHR ''/'' \<and> c \<noteq> CHR 0x5C \<and> 31 < char_code c) s"

definition title_ok :: "string \<Rightarrow> bool" where
  "title_ok s \<longleftrightarrow> py_strip s = s \<and> 1 \<le> length s \<and> length s \<le> 240"

definition text_limit :: nat where
  "text_limit = 32000"

definition role_limit :: nat where
  "role_limit = 2000"

datatype task_status = Todo | InProgress | Blocked | Done

fun status_str :: "task_status \<Rightarrow> string" where
  "status_str Todo = ''todo''"
| "status_str InProgress = ''in_progress''"
| "status_str Blocked = ''blocked''"
| "status_str Done = ''done''"

record group_bounds =
  gb_x :: pyfloat
  gb_y :: pyfloat
  gb_width :: pyfloat
  gb_height :: pyfloat

record group_member =
  gm_node :: string
  gm_role :: string

record group_task =
  gt_id :: string
  gt_title :: string
  gt_description :: string
  gt_status :: task_status
  gt_owner :: "string option"
  gt_deps :: "string list"
  gt_evidence :: string
  gt_revision :: int
  gt_created :: string
  gt_updated :: string

record agent_group =
  ag_id :: string
  ag_name :: string
  ag_objective :: string
  ag_bounds :: group_bounds
  ag_members :: "group_member list"
  ag_leader :: "string option"
  ag_tasks :: "group_task list"
  ag_revision :: int
  ag_dissolved :: bool
  ag_private :: bool
  ag_created :: string
  ag_updated :: string

definition member_ids :: "agent_group \<Rightarrow> string list" where
  "member_ids g = map gm_node (ag_members g)"

record create_group =
  cg_name :: string
  cg_members :: "group_member list"
  cg_bounds :: group_bounds
  cg_objective :: string

text \<open>\<open>Field(min_length=1)\<close> and the validator \<open>unique_members\<close>.\<close>

definition create_group_ok :: "create_group \<Rightarrow> bool" where
  "create_group_ok c \<longleftrightarrow> title_ok (cg_name c) \<and> cg_members c \<noteq> []
     \<and> list_all (\<lambda>m. identifier_ok (gm_node m) \<and> length (gm_role m) \<le> role_limit) (cg_members c)
     \<and> distinct (map gm_node (cg_members c)) \<and> length (cg_objective c) \<le> text_limit"

record create_task =
  ct_title :: string
  ct_description :: string
  ct_owner :: "string option"
  ct_deps :: "string list"

text \<open>A patch: \<open>None\<close> for a field that was omitted. \<open>owner_id\<close> may be set to null.\<close>

record update_task =
  ut_revision :: int
  ut_title :: "string option"
  ut_description :: "string option"
  ut_status :: "task_status option"
  ut_owner :: "string option option"
  ut_deps :: "string list option"
  ut_evidence :: "string option"

datatype intent = Action | Update

fun intent_str :: "intent \<Rightarrow> string" where
  "intent_str Action = ''action''" | "intent_str Update = ''update''"

record publish_message =
  pm_text :: string
  pm_attachments :: "pydict list"
  pm_request :: string
  pm_recipient :: "string option"
  pm_intent :: intent
  pm_reason :: string

definition publish_message_ok :: "publish_message \<Rightarrow> bool" where
  "publish_message_ok c \<longleftrightarrow> py_strip (pm_text c) = pm_text c \<and> length (pm_text c) \<le> text_limit
     \<and> length (pm_attachments c) \<le> 100 \<and> identifier_ok (pm_request c)
     \<and> (pm_text c \<noteq> [] \<or> pm_attachments c \<noteq> [])
     \<and> length (pm_reason c) \<le> role_limit
     \<and> \<not> (pm_intent c = Update \<and> (pm_recipient c \<noteq> None \<or> pm_reason c \<noteq> []))
     \<and> \<not> (pm_recipient c \<noteq> None \<and> pm_reason c \<noteq> [])"

datatype group_error =
    GroupNotFound string
  | GroupConflict string
  | GroupPermissionError string
  | GroupValueError string
  | GroupKeyError
  | IntegrityError

section \<open>JSON of the contracts\<close>

definition opt_val :: "string option \<Rightarrow> pyval" where
  "opt_val x = (case x of None \<Rightarrow> PNone | Some s \<Rightarrow> PStr s)"

definition strs_val :: "string list \<Rightarrow> pyval" where
  "strs_val xs = PList (map PStr xs)"

definition member_dump :: "group_member \<Rightarrow> pyval" where
  "member_dump m = PDict [(''node_id'', PStr (gm_node m)), (''role'', PStr (gm_role m))]"

definition task_dump :: "group_task \<Rightarrow> pyval" where
  "task_dump t = PDict [(''id'', PStr (gt_id t)), (''title'', PStr (gt_title t)),
     (''description'', PStr (gt_description t)), (''status'', PStr (status_str (gt_status t))),
     (''owner_id'', opt_val (gt_owner t)), (''dependencies'', strs_val (gt_deps t)),
     (''evidence'', PStr (gt_evidence t)), (''revision'', PInt (gt_revision t)),
     (''created_at'', PStr (gt_created t)), (''updated_at'', PStr (gt_updated t))]"

definition bounds_dump :: "group_bounds \<Rightarrow> pyval" where
  "bounds_dump b = PDict [(''x'', PFloat (gb_x b)), (''y'', PFloat (gb_y b)),
     (''width'', PFloat (gb_width b)), (''height'', PFloat (gb_height b))]"

definition group_dump :: "agent_group \<Rightarrow> pyval" where
  "group_dump g = PDict [(''id'', PStr (ag_id g)), (''name'', PStr (ag_name g)),
     (''objective'', PStr (ag_objective g)), (''bounds'', bounds_dump (ag_bounds g)),
     (''members'', PList (map member_dump (ag_members g))), (''leader_id'', opt_val (ag_leader g)),
     (''tasks'', PList (map task_dump (ag_tasks g))), (''revision'', PInt (ag_revision g)),
     (''dissolved'', PBool (ag_dissolved g)), (''private'', PBool (ag_private g)),
     (''created_at'', PStr (ag_created g)), (''updated_at'', PStr (ag_updated g))]"

section \<open>The store\<close>

record group_event =
  ev_seq :: int
  ev_group :: string
  ev_kind :: string
  ev_actor :: "string option"
  ev_payload :: pydict
  ev_created :: string

datatype delivery_state = DPending | DDelivered | DCancelled

record delivery =
  dl_seq :: int
  dl_node :: string
  dl_state :: delivery_state
  dl_attempts :: int
  dl_error :: "string option"

record message_request =
  mr_group :: string
  mr_actor :: string
  mr_request :: string
  mr_command :: publish_message
  mr_seq :: int

record group_db =
  db_groups :: "agent_group dict"
  db_members :: "string dict"
  db_events :: "group_event list"
  db_seq :: int
  db_deliveries :: "delivery list"
  db_progress :: "(int \<times> string \<times> string) list"
  db_requests :: "message_request list"

definition empty_db :: group_db where
  "empty_db = \<lparr>db_groups = [], db_members = [], db_events = [], db_seq = 0, db_deliveries = [],
     db_progress = [], db_requests = []\<rparr>"

record group_env =
  ge_now :: string
  ge_uuid :: string
  ge_role :: string
  ge_assignment :: bool
  ge_dependency_ready :: bool

type_synonym 'a group_res = "(group_error, 'a) res"

definition read_group :: "group_db \<Rightarrow> string \<Rightarrow> string option \<Rightarrow> agent_group group_res" where
  "read_group db gid actor = (case map_of (db_groups db) gid of
      None \<Rightarrow> Inl (GroupNotFound ''group not found'')
    | Some g \<Rightarrow>
        if ag_dissolved g then Inl (GroupNotFound ''group has been dissolved'')
        else if (case actor of None \<Rightarrow> False | Some a \<Rightarrow> a \<notin> set (member_ids g))
        then Inl (GroupPermissionError ''actor is not a current group member'')
        else Inr g)"

text \<open>\<open>save\<close> writes the document; with \<open>bump\<close> the group in hand changes too, so the new
  group is returned.\<close>

definition bump_group :: "group_env \<Rightarrow> agent_group \<Rightarrow> agent_group" where
  "bump_group env g = g\<lparr>ag_revision := ag_revision g + 1, ag_updated := ge_now env\<rparr>"

definition put_group :: "agent_group \<Rightarrow> group_db \<Rightarrow> group_db" where
  "put_group g db = db\<lparr>db_groups := dict_set (ag_id g) g (db_groups db)\<rparr>"

definition save_group :: "group_env \<Rightarrow> bool \<Rightarrow> agent_group \<Rightarrow> group_db \<Rightarrow> agent_group \<times> group_db" where
  "save_group env bump g db = (let g' = (if bump then bump_group env g else g) in (g', put_group g' db))"

definition new_delivery :: "int \<Rightarrow> string \<Rightarrow> delivery" where
  "new_delivery seq node = \<lparr>dl_seq = seq, dl_node = node, dl_state = DPending, dl_attempts = 0, dl_error = None\<rparr>"

definition add_event ::
    "group_env \<Rightarrow> agent_group \<Rightarrow> string \<Rightarrow> string option \<Rightarrow> pydict \<Rightarrow> string list \<Rightarrow> bool \<Rightarrow> group_db \<Rightarrow> group_event \<times> group_db" where
  "add_event env g kind actor payload recipients notify_actor db = (let
       payload = dict_set ''_access_role'' (PStr (ge_role env)) (dict_set ''group_revision'' (PInt (ag_revision g)) payload);
       seq = db_seq db + 1;
       ev = \<lparr>ev_seq = seq, ev_group = ag_id g, ev_kind = kind, ev_actor = actor, ev_payload = payload,
             ev_created = ge_now env\<rparr>;
       targets = filter (\<lambda>t. notify_actor \<or> Some t \<noteq> actor) (remdups recipients)
     in (ev, db\<lparr>db_events := db_events db @ [ev], db_seq := seq,
              db_deliveries := db_deliveries db @ map (new_delivery seq) targets\<rparr>))"

definition insert_member :: "string \<Rightarrow> string \<Rightarrow> group_db \<Rightarrow> group_db group_res" where
  "insert_member node gid db = (if dict_has (db_members db) node then Inl IntegrityError
     else Inr (db\<lparr>db_members := db_members db @ [(node, gid)]\<rparr>))"

text \<open>\<open>UPDATE deliveries SET state=... WHERE ... AND state='pending'\<close>\<close>

definition update_pending :: "(delivery \<Rightarrow> bool) \<Rightarrow> (delivery \<Rightarrow> delivery) \<Rightarrow> group_db \<Rightarrow> group_db" where
  "update_pending P f db = db\<lparr>db_deliveries :=
     map (\<lambda>d. if dl_state d = DPending \<and> P d then f d else d) (db_deliveries db)\<rparr>"

definition cancel :: "delivery \<Rightarrow> delivery" where
  "cancel d = d\<lparr>dl_state := DCancelled\<rparr>"

definition event_seqs_of :: "string \<Rightarrow> group_db \<Rightarrow> int list" where
  "event_seqs_of gid db = map ev_seq (filter (\<lambda>e. ev_group e = gid) (db_events db))"

definition list_groups :: "group_db \<Rightarrow> agent_group list" where
  "list_groups db = filter (\<lambda>g. \<not> ag_dissolved g) (map snd (db_groups db))"

definition member_group :: "group_db \<Rightarrow> string \<Rightarrow> agent_group option group_res" where
  "member_group db node = (case map_of (db_members db) node of None \<Rightarrow> Inr None
     | Some gid \<Rightarrow> rbind (read_group db gid (Some node)) (\<lambda>g. Inr (Some g)))"

definition visible_to :: "string option \<Rightarrow> group_event \<Rightarrow> bool" where
  "visible_to actor e \<longleftrightarrow> (let recipient = get (ev_payload e) ''recipient_id'' in
     actor = None \<or> \<not> truthy recipient \<or> opt_val actor = recipient \<or> opt_val actor = opt_val (ev_actor e))"

text \<open>A page of events, its cursor and whether older events exist. The events table is in the order
  of \<open>seq\<close>.\<close>

definition read_events ::
    "group_db \<Rightarrow> string \<Rightarrow> string option \<Rightarrow> int \<Rightarrow> int \<Rightarrow> bool \<Rightarrow> int \<Rightarrow> (group_event list \<times> int \<times> bool) group_res" where
  "read_events db gid actor after limit latest before =
     (if after < 0 \<or> limit < 1 \<or> 500 < limit then Inl (GroupValueError ''invalid event pagination'')
      else rbind (read_group db gid actor) (\<lambda>g.
        let mine = filter (\<lambda>e. ev_group e = gid) (db_events db);
            rows = (if latest \<or> before \<noteq> 0
                    then last_n (nat limit) (filter (\<lambda>e. before = 0 \<or> ev_seq e < before) mine)
                    else take (nat limit) (filter (\<lambda>e. after < ev_seq e) mine));
            oldest = (if rows = [] then 0 else ev_seq (hd rows))
        in Inr (filter (visible_to actor) rows,
                if rows = [] then after else ev_seq (last rows),
                oldest \<noteq> 0 \<and> list_ex (\<lambda>e. ev_seq e < oldest) mine)))"

text \<open>\<open>ROW_NUMBER() OVER (PARTITION BY group, node ORDER BY seq)\<close>: the position of a pending
  delivery among those of its group and node.\<close>

definition event_of :: "group_db \<Rightarrow> int \<Rightarrow> group_event option" where
  "event_of db seq = List.find (\<lambda>e. ev_seq e = seq) (db_events db)"

definition pending_rows :: "group_db \<Rightarrow> (group_event \<times> delivery) list" where
  "pending_rows db = List.map_filter (\<lambda>d. if dl_state d = DPending
     then map_option (\<lambda>e. (e, d)) (event_of db (dl_seq d)) else None) (db_deliveries db)"

definition delivery_slot :: "(group_event \<times> delivery) list \<Rightarrow> group_event \<times> delivery \<Rightarrow> nat" where
  "delivery_slot rows r = length (filter (\<lambda>(e, d). ev_group e = ev_group (fst r) \<and> dl_node d = dl_node (snd r)
     \<and> ev_seq e < ev_seq (fst r)) rows)"

definition pending_deliveries :: "group_db \<Rightarrow> nat \<Rightarrow> (group_event \<times> delivery) list" where
  "pending_deliveries db limit = (let rows = pending_rows db in
     take limit (sort_key (delivery_slot rows) (sort_key (\<lambda>(e, d). ev_seq e) (sort_key (\<lambda>(e, d). dl_node d) rows))))"

definition record_delivery :: "int \<Rightarrow> string \<Rightarrow> string option \<Rightarrow> group_db \<Rightarrow> group_db \<times> bool" where
  "record_delivery seq node error db = (let hit = (\<lambda>d. dl_seq d = seq \<and> dl_node d = node) in
     (update_pending hit (\<lambda>d. d\<lparr>dl_attempts := dl_attempts d + 1, dl_error := error,
        dl_state := (if error \<noteq> None then DPending else DDelivered)\<rparr>) db,
      list_ex (\<lambda>d. dl_state d = DPending \<and> hit d) (db_deliveries db)))"

end
