(* ===== verification/GroupTasks.thy ===== *)
theory GroupTasks
  imports GroupModel
begin

text \<open>
  The task board of a group: \<open>agent_groups/tasks.py\<close> and
  \<open>agent_groups/task_notifications.py\<close>. The check for cyclic dependencies is the recursive
  walk of the source, with fuel one larger than the number of tasks; \<open>walk_enough_fuel\<close> shows
  that this is enough, and \<open>walk_all_acyclic\<close> that the walk accepts exactly the acyclic
  dependency graphs.
\<close>

section \<open>Validation\<close>

definition task_table :: "agent_group \<Rightarrow> group_task \<Rightarrow> group_task dict" where
  "task_table g task = dict_set (gt_id task) task (fold (\<lambda>t. dict_set (gt_id t) t) (ag_tasks g) [])"

fun walk :: "nat \<Rightarrow> group_task dict \<Rightarrow> string list \<Rightarrow> string list \<Rightarrow> string \<Rightarrow> string list group_res" where
  "walk 0 tasks visiting visited task_id = Inl (GroupValueError ''recursion limit'')"
| "walk (Suc n) tasks visiting visited task_id =
     (if task_id \<in> set visiting then Inl (GroupConflict ''task dependencies cannot contain cycles'')
      else if task_id \<in> set visited then Inr visited
      else case map_of tasks task_id of
        None \<Rightarrow> Inl GroupKeyError
      | Some t \<Rightarrow> rbind (rfold (\<lambda>dep vis. walk n tasks (task_id # visiting) vis dep) (gt_deps t) visited)
          (\<lambda>vis. Inr (task_id # vis)))"

definition walk_all :: "group_task dict \<Rightarrow> string list group_res" where
  "walk_all tasks = rfold (\<lambda>task_id vis. walk (Suc (length tasks)) tasks [] vis task_id) (dict_keys tasks) []"

definition dep_done :: "group_task dict \<Rightarrow> string \<Rightarrow> bool" where
  "dep_done tasks d = (case map_of tasks d of None \<Rightarrow> False | Some t \<Rightarrow> gt_status t = Done)"

definition validate_task :: "agent_group \<Rightarrow> group_task \<Rightarrow> unit group_res" where
  "validate_task g task = (let tasks = task_table g task in
     rbind (raise_if (case gt_owner task of None \<Rightarrow> False | Some n \<Rightarrow> n \<notin> set (member_ids g))
        (GroupConflict ''task owner must be a current group member'')) (\<lambda>_.
     rbind (raise_if (\<not> distinct (gt_deps task)) (GroupConflict ''task dependencies must be unique'')) (\<lambda>_.
     rbind (raise_if (list_ex (\<lambda>d. \<not> dict_has tasks d) (gt_deps task)) (GroupConflict ''dependency task not found'')) (\<lambda>_.
     rbind (walk_all tasks) (\<lambda>_.
     rbind (if gt_status task \<in> {InProgress, Done} then
         rbind (raise_if (gt_owner task = None) (GroupConflict ''active/completed tasks require an owner'')) (\<lambda>_.
         raise_if (list_ex (\<lambda>d. \<not> dep_done tasks d) (gt_deps task)) (GroupConflict ''finish task dependencies first''))
       else Inr ()) (\<lambda>_.
     raise_if (gt_status task = Done \<and> py_strip (gt_evidence task) = [])
       (GroupConflict ''completed tasks require an evidence note'')))))))"

section \<open>Notifications\<close>

fun all_done :: "(string \<times> task_status) list \<Rightarrow> string list \<Rightarrow> bool group_res" where
  "all_done states [] = Inr True"
| "all_done states (d # ds) = (case map_of states d of None \<Rightarrow> Inl GroupKeyError
     | Some s \<Rightarrow> if s = Done then all_done states ds else Inr False)"

definition has_owner :: "group_task \<Rightarrow> bool" where
  "has_owner t \<longleftrightarrow> (case gt_owner t of None \<Rightarrow> False | Some n \<Rightarrow> n \<noteq> [])"

definition ready :: "agent_group \<Rightarrow> group_task \<Rightarrow> bool group_res" where
  "ready g t = (let states = fold (\<lambda>t. dict_set (gt_id t) (gt_status t)) (ag_tasks g) [] in
     if has_owner t \<and> gt_status t \<noteq> Done then all_done states (gt_deps t) else Inr False)"

type_synonym actions = "string list dict"

definition add_action :: "group_task \<Rightarrow> actions \<Rightarrow> actions" where
  "add_action t a = (let owner = (case gt_owner t of None \<Rightarrow> [] | Some n \<Rightarrow> n) in
     dict_set owner ((case map_of a owner of None \<Rightarrow> [] | Some xs \<Rightarrow> xs) @ [gt_id t]) a)"

definition requirement_changed :: "group_task \<Rightarrow> group_task option \<Rightarrow> bool" where
  "requirement_changed t previous = (case previous of None \<Rightarrow> True
     | Some p \<Rightarrow> gt_owner p \<noteq> gt_owner t \<or> gt_title p \<noteq> gt_title t \<or> gt_description p \<noteq> gt_description t
         \<or> gt_deps p \<noteq> gt_deps t \<or> (gt_status p \<noteq> gt_status t \<and> gt_status t \<in> {Todo, InProgress}))"

definition task_actions ::
    "group_env \<Rightarrow> agent_group \<Rightarrow> group_task \<Rightarrow> group_task option \<Rightarrow> string option \<Rightarrow> actions group_res" where
  "task_actions env g task previous actor =
     rbind (if ge_assignment env \<and> gt_owner task \<noteq> actor
            then rbind (ready g task) (\<lambda>r. Inr (r \<and> requirement_changed task previous)) else Inr False) (\<lambda>assign.
     let actions = (if assign then add_action task [] else []) in
     if ge_dependency_ready env \<and> gt_status task = Done
        \<and> (case previous of None \<Rightarrow> False | Some p \<Rightarrow> gt_status p \<noteq> Done)
     then rfold (\<lambda>dependent a. if gt_id task \<in> set (gt_deps dependent)
            then rbind (ready g dependent) (\<lambda>r. Inr (if r then add_action dependent a else a))
            else Inr a) (ag_tasks g) actions
     else Inr actions)"

definition actions_val :: "actions \<Rightarrow> pyval" where
  "actions_val a = PDict (map (\<lambda>(k, v). (k, strs_val v)) a)"

section \<open>Operations\<close>

definition task_event ::
    "group_env \<Rightarrow> string \<Rightarrow> agent_group \<Rightarrow> group_task \<Rightarrow> actions \<Rightarrow> string option \<Rightarrow> group_db \<Rightarrow> group_db" where
  "task_event env kind g task actions actor db = snd (add_event env g kind actor
     [(''task'', task_dump task), (''action_tasks'', actions_val actions)] (dict_keys actions) True db)"

definition new_task :: "group_env \<Rightarrow> create_task \<Rightarrow> group_task" where
  "new_task env c = \<lparr>gt_id = ge_uuid env, gt_title = ct_title c, gt_description = ct_description c, gt_status = Todo,
     gt_owner = ct_owner c, gt_deps = ct_deps c, gt_evidence = [], gt_revision = 1,
     gt_created = ge_now env, gt_updated = ge_now env\<rparr>"

definition create_group_task ::
    "group_env \<Rightarrow> string \<Rightarrow> create_task \<Rightarrow> string option \<Rightarrow> group_db \<Rightarrow> (group_db \<times> group_task) group_res" where
  "create_group_task env gid command actor db = (let task = new_task env command in
     rbind (read_group db gid actor) (\<lambda>g.
     rbind (validate_task g task) (\<lambda>_.
     let (g, db) = save_group env True (g\<lparr>ag_tasks := ag_tasks g @ [task]\<rparr>) db in
     rbind (task_actions env g task None actor) (\<lambda>actions.
     Inr (task_event env ''task_created'' g task actions actor db, task)))))"

definition opt_or :: "'a option \<Rightarrow> 'a \<Rightarrow> 'a" where
  "opt_or x d = (case x of None \<Rightarrow> d | Some a \<Rightarrow> a)"

definition patch_task :: "update_task \<Rightarrow> group_task \<Rightarrow> group_task" where
  "patch_task c t = t\<lparr>gt_title := opt_or (ut_title c) (gt_title t),
     gt_description := opt_or (ut_description c) (gt_description t), gt_status := opt_or (ut_status c) (gt_status t),
     gt_owner := opt_or (ut_owner c) (gt_owner t), gt_deps := opt_or (ut_deps c) (gt_deps t),
     gt_evidence := opt_or (ut_evidence c) (gt_evidence t)\<rparr>"

definition claims_for_other :: "update_task \<Rightarrow> string option \<Rightarrow> group_task \<Rightarrow> bool" where
  "claims_for_other c actor current \<longleftrightarrow> actor \<noteq> None
     \<and> (case ut_owner c of Some (Some n) \<Rightarrow> Some n \<noteq> actor \<and> Some n \<noteq> gt_owner current | _ \<Rightarrow> False)"

definition replace_task :: "group_task \<Rightarrow> group_task list \<Rightarrow> group_task list" where
  "replace_task c ts = map (\<lambda>t. if gt_id t = gt_id c then c else t) ts"

definition update_group_task ::
    "group_env \<Rightarrow> string \<Rightarrow> string \<Rightarrow> update_task \<Rightarrow> string option \<Rightarrow> group_db \<Rightarrow> (group_db \<times> group_task) group_res" where
  "update_group_task env gid task_id command actor db = rbind (read_group db gid actor) (\<lambda>g.
     case List.find (\<lambda>t. gt_id t = task_id) (ag_tasks g) of
       None \<Rightarrow> Inl (GroupConflict ''task not found'')
     | Some current \<Rightarrow>
         if gt_revision current \<noteq> ut_revision command then Inl (GroupConflict ''task changed; refresh before updating'')
         else if actor \<noteq> None \<and> gt_owner current \<noteq> None \<and> gt_owner current \<noteq> actor
         then Inl (GroupPermissionError ''only the task owner or user can change an owned task'')
         else if claims_for_other command actor current
         then Inl (GroupPermissionError ''an agent can claim a task only for itself'')
         else let candidate = patch_task command current in
           if candidate = current then Inr (db, current)
           else rbind (validate_task g candidate) (\<lambda>_.
             if gt_status current = Done \<and> gt_status candidate \<noteq> Done
                \<and> list_ex (\<lambda>t. task_id \<in> set (gt_deps t) \<and> gt_status t \<in> {InProgress, Done}) (ag_tasks g)
             then Inl (GroupConflict ''reopen dependent tasks before reopening this task'')
             else let candidate = candidate\<lparr>gt_revision := gt_revision candidate + 1, gt_updated := ge_now env\<rparr>;
                      (g, db) = save_group env True (g\<lparr>ag_tasks := replace_task candidate (ag_tasks g)\<rparr>) db in
               rbind (task_actions env g candidate (Some current) actor) (\<lambda>actions.
               Inr (task_event env ''task_updated'' g candidate actions actor db, candidate))))"

section \<open>The walk decides acyclicity\<close>

definition dep_edge :: "group_task dict \<Rightarrow> string \<Rightarrow> string \<Rightarrow> bool" where
  "dep_edge tasks a b \<longleftrightarrow> (case map_of tasks a of None \<Rightarrow> False | Some t \<Rightarrow> b \<in> set (gt_deps t))"

definition deps_closed :: "group_task dict \<Rightarrow> bool" where
  "deps_closed tasks \<longleftrightarrow> (\<forall>a b. dep_edge tasks a b \<longrightarrow> map_of tasks b \<noteq> None)"

definition deps_acyclic :: "group_task dict \<Rightarrow> bool" where
  "deps_acyclic tasks \<longleftrightarrow> (\<forall>a. \<not> (dep_edge tasks)\<^sup>+\<^sup>+ a a)"

text \<open>A finished list: every task stands before all the tasks it depends on.\<close>

fun topo :: "group_task dict \<Rightarrow> string list \<Rightarrow> bool" where
  "topo tasks [] = True"
| "topo tasks (x # xs) \<longleftrightarrow> (\<forall>y. dep_edge tasks x y \<longrightarrow> y \<in> set xs) \<and> topo tasks xs \<and> x \<notin> set xs
     \<and> map_of tasks x \<noteq> None"

text \<open>The stack of the walk: each task depends on the one above it.\<close>

fun stack_ok :: "group_task dict \<Rightarrow> string list \<Rightarrow> string \<Rightarrow> bool" where
  "stack_ok tasks [] x = True"
| "stack_ok tasks (v # vs) x \<longleftrightarrow> dep_edge tasks v x \<and> stack_ok tasks vs v"

lemma rfold_collect:
  assumes "rfold f xs s = Inr t" and "I s"
    and "\<And>x s t. x \<in> set xs \<Longrightarrow> I s \<Longrightarrow> f x s = Inr t \<Longrightarrow> I t \<and> set s \<subseteq> set t \<and> x \<in> set t"
  shows "I t \<and> set s \<subseteq> set t \<and> set xs \<subseteq> set t"
  using assms
proof (induction xs arbitrary: s)
  case (Cons x xs)
  from Cons.prems(1) obtain u where u: "f x s = Inr u" "rfold f xs u = Inr t" by auto
  have 1: "I u \<and> set s \<subseteq> set u \<and> x \<in> set u"
    using Cons.prems(2) u(1) by (intro Cons.prems(3)) simp_all
  have "I t \<and> set u \<subseteq> set t \<and> set xs \<subseteq> set t"
  proof (rule Cons.IH [OF u(2)])
    show "I u" using 1 by simp
    show "I t' \<and> set s' \<subseteq> set t' \<and> y \<in> set t'" if "y \<in> set xs" "I s'" "f y s' = Inr t'" for y s' t'
      using that by (intro Cons.prems(3)) simp_all
  qed
  with 1 show ?case by auto
qed simp

lemma rfold_total: "(\<And>x s. x \<in> set xs \<Longrightarrow> \<exists>t. f x s = Inr t) \<Longrightarrow> \<exists>t. rfold f xs s = Inr t"
proof (induction xs arbitrary: s)
  case (Cons x xs)
  obtain u where "f x s = Inr u" using Cons.prems by (meson list.set_intros(1))
  moreover obtain t where "rfold f xs u = Inr t" using Cons by (meson list.set_intros(2))
  ultimately show ?case by simp
qed simp

lemma dep_edge_Some: "map_of tasks a = Some t \<Longrightarrow> dep_edge tasks a b \<longleftrightarrow> b \<in> set (gt_deps t)"
  by (simp add: dep_edge_def)

lemma walk_sound:
  assumes "walk n tasks visiting visited task_id = Inr vis" and "topo tasks visited"
    and "set visiting \<inter> set visited = {}"
  shows "topo tasks vis \<and> set visiting \<inter> set vis = {} \<and> set visited \<subseteq> set vis \<and> task_id \<in> set vis"
  using assms
proof (induction n arbitrary: visiting visited task_id vis)
  case (Suc n)
  have fresh: "task_id \<notin> set visiting" using Suc.prems(1) by (auto split: if_splits)
  show ?case
  proof (cases "task_id \<in> set visited")
    case True
    then show ?thesis using Suc.prems fresh by auto
  next
    case False
    then obtain t vis' where t: "map_of tasks task_id = Some t" and vis: "vis = task_id # vis'"
      and f: "rfold (\<lambda>dep vis. walk n tasks (task_id # visiting) vis dep) (gt_deps t) visited = Inr vis'"
      using Suc.prems(1) fresh by (auto split: option.splits)
    let ?I = "\<lambda>v. topo tasks v \<and> set (task_id # visiting) \<inter> set v = {}"
    have "?I vis' \<and> set visited \<subseteq> set vis' \<and> set (gt_deps t) \<subseteq> set vis'"
    proof (rule rfold_collect [OF f])
      show "?I visited" using Suc.prems False by simp
      show "?I v' \<and> set v \<subseteq> set v' \<and> d \<in> set v'"
        if "d \<in> set (gt_deps t)" "?I v" "walk n tasks (task_id # visiting) v d = Inr v'" for d v v'
        using Suc.IH [OF that(3)] that(2) by simp
    qed
    then show ?thesis using vis t fresh by (auto simp: dep_edge_Some)
  qed
qed simp

lemma topo_closed: "topo tasks xs \<Longrightarrow> x \<in> set xs \<Longrightarrow> (dep_edge tasks)\<^sup>+\<^sup>+ x y \<Longrightarrow> y \<in> set xs"
proof -
  assume t: "topo tasks xs" and x: "x \<in> set xs" and r: "(dep_edge tasks)\<^sup>+\<^sup>+ x y"
  have step: "b \<in> set xs" if "a \<in> set xs" "dep_edge tasks a b" for a b
    using t that by (induction xs) auto
  from r x show ?thesis by (induction rule: tranclp_induct) (auto intro: step)
qed

lemma topo_acyclic: "topo tasks xs \<Longrightarrow> x \<in> set xs \<Longrightarrow> \<not> (dep_edge tasks)\<^sup>+\<^sup>+ x x"
proof (induction xs)
  case (Cons a xs)
  show ?case
  proof (cases "x = a")
    case True
    show ?thesis
    proof
      assume "(dep_edge tasks)\<^sup>+\<^sup>+ x x"
      then obtain y where y: "dep_edge tasks x y" "y = x \<or> (dep_edge tasks)\<^sup>+\<^sup>+ y x"
        using tranclpD [of "dep_edge tasks" x x] rtranclpD [of "dep_edge tasks"] by blast
      then have "y \<in> set xs" using Cons.prems(1) True by simp
      then have "x \<in> set xs" using y(2) topo_closed [of tasks xs y x] Cons.prems(1) by auto
      then show False using Cons.prems(1) True by simp
    qed
  qed (use Cons in auto)
qed simp

lemma walk_all_sound:
  assumes "walk_all tasks = Inr vis"
  shows "deps_closed tasks \<and> deps_acyclic tasks"
proof -
  let ?I = "\<lambda>v. topo tasks v"
  have w: "topo tasks v' \<and> set v \<subseteq> set v' \<and> d \<in> set v'"
    if "topo tasks v" "walk (Suc (length tasks)) tasks [] v d = Inr v'" for d v v'
    using walk_sound [OF that(2,1)] by simp
  have vis: "topo tasks vis \<and> set [] \<subseteq> set vis \<and> set (dict_keys tasks) \<subseteq> set vis"
    by (rule rfold_collect [OF assms [unfolded walk_all_def], of ?I]) (use w in \<open>auto simp del: walk.simps\<close>)
  have keys: "a \<in> set vis" if "dep_edge tasks a b" for a b
    using that vis by (auto simp: dep_edge_def split: option.splits dest!: map_of_SomeD)
  have "\<not> (dep_edge tasks)\<^sup>+\<^sup>+ a a" for a
  proof
    assume c: "(dep_edge tasks)\<^sup>+\<^sup>+ a a"
    then obtain b where "dep_edge tasks a b" by (auto dest: tranclpD)
    then show False using c keys vis topo_acyclic by blast
  qed
  moreover have "map_of tasks b \<noteq> None" if "dep_edge tasks a b" for a b
  proof -
    have "b \<in> set vis" using topo_closed [of tasks vis a b] vis keys [OF that] that by blast
    moreover have "topo tasks xs \<Longrightarrow> x \<in> set xs \<Longrightarrow> map_of tasks x \<noteq> None" for x xs
      by (induction xs) auto
    ultimately show ?thesis using vis by blast
  qed
  ultimately show ?thesis by (auto simp: deps_acyclic_def deps_closed_def)
qed

lemma stack_reaches: "stack_ok tasks vs x \<Longrightarrow> v \<in> set vs \<Longrightarrow> (dep_edge tasks)\<^sup>+\<^sup>+ v x"
  by (induction vs arbitrary: x) (auto intro: tranclp.trancl_into_trancl)

text \<open>Enough fuel: the stack holds different tasks, so it is never longer than the table.\<close>

lemma walk_complete:
  assumes "deps_acyclic tasks" and "deps_closed tasks" and "map_of tasks task_id \<noteq> None"
    and "stack_ok tasks visiting task_id" and "distinct visiting" and "set visiting \<subseteq> fst ` set tasks"
    and "length tasks < n + length visiting"
  shows "\<exists>vis. walk n tasks visiting visited task_id = Inr vis"
  using assms(3-)
proof (induction n arbitrary: visiting visited task_id)
  case 0
  have "length visiting \<le> card (fst ` set tasks)"
    using 0(3,4) by (metis card_mono distinct_card finite_imageI finite_set)
  also have "\<dots> \<le> length tasks" by (metis card_length length_map list.set_map)
  finally show ?case using 0(5) by simp
next
  case (Suc n)
  obtain t where t: "map_of tasks task_id = Some t" using Suc.prems(1) by blast
  have fresh: "task_id \<notin> set visiting"
    using stack_reaches [OF Suc.prems(2)] assms(1) by (auto simp: deps_acyclic_def)
  have "\<exists>v. walk n tasks (task_id # visiting) vis d = Inr v" if "d \<in> set (gt_deps t)" for d vis
  proof (rule Suc.IH)
    have e: "dep_edge tasks task_id d" using t that by (simp add: dep_edge_def)
    then show "map_of tasks d \<noteq> None" using assms(2) by (auto simp: deps_closed_def)
    show "stack_ok tasks (task_id # visiting) d" using e Suc.prems(2) by simp
    show "set (task_id # visiting) \<subseteq> fst ` set tasks"
      using t Suc.prems(4) by (force dest: map_of_SomeD)
    show "distinct (task_id # visiting)" using Suc.prems(3) fresh by simp
    show "length tasks < n + length (task_id # visiting)" using Suc.prems(5) by simp
  qed
  then have "\<exists>v. rfold (\<lambda>dep vis. walk n tasks (task_id # visiting) vis dep) (gt_deps t) visited = Inr v"
    by (intro rfold_total) simp
  then show ?case using t fresh by auto
qed

lemma walk_all_complete:
  assumes "deps_acyclic tasks" and "deps_closed tasks"
  shows "\<exists>vis. walk_all tasks = Inr vis"
  unfolding walk_all_def
proof (rule rfold_total)
  fix x s assume "x \<in> set (dict_keys tasks)"
  then show "\<exists>t. walk (Suc (length tasks)) tasks [] s x = Inr t"
    by (intro walk_complete [OF assms]) (simp_all add: map_of_eq_None_iff)
qed

text \<open>C28. The dependency check accepts exactly the boards it should: the walk over all tasks
  succeeds if and only if every dependency names a task and no task depends on itself, directly or
  through others. The walk always ends.\<close>

theorem dependency_walk_exact:
  "(\<exists>vis. walk_all tasks = Inr vis) \<longleftrightarrow> deps_closed tasks \<and> deps_acyclic tasks"
  using walk_all_sound walk_all_complete by blast

section \<open>The board invariant\<close>

definition task_tab :: "group_task list \<Rightarrow> group_task dict" where
  "task_tab ts = map (\<lambda>t. (gt_id t, t)) ts"

text \<open>One task: owned by a member unless it is done (a finished task keeps its author), different
  dependencies; if active then owned; if done then with evidence; and in the states \<open>S\<close> all
  its dependencies are done. \<open>S\<close> is \<open>{Done}\<close> or \<open>{InProgress, Done}\<close>.\<close>

definition task_ok :: "task_status set \<Rightarrow> string list \<Rightarrow> group_task dict \<Rightarrow> group_task \<Rightarrow> bool" where
  "task_ok S members tab t \<longleftrightarrow> (case gt_owner t of None \<Rightarrow> True | Some n \<Rightarrow> gt_status t = Done \<or> n \<in> set members)
     \<and> distinct (gt_deps t)
     \<and> (gt_status t \<in> {InProgress, Done} \<longrightarrow> gt_owner t \<noteq> None)
     \<and> (gt_status t \<in> S \<longrightarrow> list_all (dep_done tab) (gt_deps t))
     \<and> (gt_status t = Done \<longrightarrow> py_strip (gt_evidence t) \<noteq> [])"

definition board_ok :: "task_status set \<Rightarrow> agent_group \<Rightarrow> bool" where
  "board_ok S g \<longleftrightarrow> distinct (map gt_id (ag_tasks g)) \<and> deps_closed (task_tab (ag_tasks g))
     \<and> deps_acyclic (task_tab (ag_tasks g))
     \<and> list_all (task_ok S (member_ids g) (task_tab (ag_tasks g))) (ag_tasks g)"

lemma fst_task_tab [simp]: "map fst (task_tab ts) = map gt_id ts"
  by (induction ts) (auto simp: task_tab_def)

lemma set_fst_task_tab [simp]: "fst ` set (task_tab ts) = gt_id ` set ts"
  by (force simp: task_tab_def)

lemma task_tab_fold: "distinct (map gt_id ts) \<Longrightarrow> fold (\<lambda>t. dict_set (gt_id t) t) ts [] = task_tab ts"
proof (induction ts rule: rev_induct)
  case (snoc t ts)
  then have "fold (\<lambda>t. dict_set (gt_id t) t) ts [] = task_tab ts" by simp
  moreover have "gt_id t \<notin> fst ` set (task_tab ts)" using snoc.prems by simp
  ultimately show ?case by (simp add: dict_set_new) (simp add: task_tab_def)
qed (simp add: task_tab_def)

lemma task_table_new:
  assumes "distinct (map gt_id (ag_tasks g))" and "gt_id t \<notin> gt_id ` set (ag_tasks g)"
  shows "task_table g t = task_tab (ag_tasks g @ [t])"
  using assms by (simp add: task_table_def task_tab_fold dict_set_new) (simp add: task_tab_def)

lemma replace_task_same [simp]: "gt_id t \<notin> gt_id ` set ts \<Longrightarrow> replace_task t ts = ts"
  by (induction ts) (auto simp: replace_task_def)

lemma task_tab_replace:
  "distinct (map gt_id ts) \<Longrightarrow> gt_id t \<in> gt_id ` set ts \<Longrightarrow> dict_set (gt_id t) t (task_tab ts) = task_tab (replace_task t ts)"
proof (induction ts)
  case (Cons a ts)
  show ?case
  proof (cases "gt_id a = gt_id t")
    case True
    then have "replace_task t ts = ts" using Cons.prems(1) by (intro replace_task_same) simp
    then show ?thesis using True by (simp add: task_tab_def replace_task_def dict_set_def)
  next
    case False
    then have "dict_set (gt_id t) t (task_tab ts) = task_tab (replace_task t ts)" using Cons by auto
    then show ?thesis using False by (simp add: task_tab_def replace_task_def dict_set_def)
  qed
qed simp

lemma task_table_replace:
  assumes "distinct (map gt_id (ag_tasks g))" and "gt_id t \<in> gt_id ` set (ag_tasks g)"
  shows "task_table g t = task_tab (replace_task t (ag_tasks g))"
  using assms by (simp add: task_table_def task_tab_fold task_tab_replace)

lemma ids_replace_task [simp]: "map gt_id (replace_task t ts) = map gt_id ts"
  by (induction ts) (auto simp: replace_task_def)

lemma map_of_task_tab:
  "distinct (map gt_id ts) \<Longrightarrow> map_of (task_tab ts) k = Some t \<longleftrightarrow> t \<in> set ts \<and> gt_id t = k"
proof -
  assume d: "distinct (map gt_id ts)"
  then have "map_of (task_tab ts) k = Some t \<longleftrightarrow> (k, t) \<in> set (task_tab ts)"
    by (intro map_of_eq_Some_iff) simp
  then show ?thesis by (auto simp: task_tab_def)
qed

lemma validate_task_Inr:
  assumes "validate_task g t = Inr u" and S: "S \<subseteq> {InProgress, Done}"
  shows "deps_closed (task_table g t)" and "deps_acyclic (task_table g t)"
    and "task_ok S (member_ids g) (task_table g t) t"
    and "\<And>n. gt_owner t = Some n \<Longrightarrow> n \<in> set (member_ids g)"
proof -
  obtain vis where v: "walk_all (task_table g t) = Inr vis"
      and rest: "\<not> (case gt_owner t of None \<Rightarrow> False | Some n \<Rightarrow> n \<notin> set (member_ids g))" "distinct (gt_deps t)"
        "\<not> (gt_status t = Done \<and> py_strip (gt_evidence t) = [])"
        "gt_status t \<in> {InProgress, Done} \<longrightarrow> gt_owner t \<noteq> None \<and> \<not> list_ex (\<lambda>d. \<not> dep_done (task_table g t) d) (gt_deps t)"
    using assms(1) unfolding validate_task_def Let_def by (auto split: if_splits)
  show "deps_closed (task_table g t)" "deps_acyclic (task_table g t)" using walk_all_sound [OF v] by auto
  show "task_ok S (member_ids g) (task_table g t) t"
    using rest S by (auto simp: task_ok_def list_all_iff list_ex_iff split: option.splits)
  show "\<And>n. gt_owner t = Some n \<Longrightarrow> n \<in> set (member_ids g)" using rest(1) by auto
qed

text \<open>Adding a validated task keeps the board legal.\<close>

lemma dep_done_append:
  "distinct (map gt_id (ts @ [t])) \<Longrightarrow> d \<in> gt_id ` set ts \<Longrightarrow> dep_done (task_tab (ts @ [t])) d = dep_done (task_tab ts) d"
proof -
  assume d: "distinct (map gt_id (ts @ [t]))" and m: "d \<in> gt_id ` set ts"
  have "gt_id t \<notin> gt_id ` set ts" using d by simp
  with m have "d \<noteq> gt_id t" by metis
  then have "map_of (task_tab (ts @ [t])) d = map_of (task_tab ts) d"
    by (simp add: task_tab_def map_add_def split: option.splits)
  then show ?thesis by (simp add: dep_done_def)
qed

lemma closed_deps:
  assumes "deps_closed (task_tab ts)" and "distinct (map gt_id ts)" and "x \<in> set ts" and "d \<in> set (gt_deps x)"
  shows "d \<in> gt_id ` set ts"
proof -
  have "dep_edge (task_tab ts) (gt_id x) d" using assms(2-4) map_of_task_tab [of ts "gt_id x" x] by (simp add: dep_edge_def)
  then show ?thesis using assms(1) by (auto simp: deps_closed_def map_of_eq_None_iff)
qed

lemma board_ok_append:
  assumes ok: "board_ok S g" and v: "validate_task g t = Inr u" and new: "gt_id t \<notin> gt_id ` set (ag_tasks g)"
    and S: "S \<subseteq> {InProgress, Done}"
  shows "board_ok S (g\<lparr>ag_tasks := ag_tasks g @ [t]\<rparr>)"
proof -
  let ?ts = "ag_tasks g" and ?tab = "task_tab (ag_tasks g @ [t])"
  have d: "distinct (map gt_id ?ts)" and cl: "deps_closed (task_tab ?ts)" using ok by (simp_all add: board_ok_def)
  then have d': "distinct (map gt_id (?ts @ [t]))" using new by auto
  have tab: "task_table g t = ?tab" using d new by (rule task_table_new)
  have "task_ok S (member_ids g) ?tab x" if "x \<in> set ?ts" for x
  proof -
    have "task_ok S (member_ids g) (task_tab ?ts) x" using ok that by (simp add: board_ok_def list_all_iff)
    moreover have "\<forall>d \<in> set (gt_deps x). dep_done ?tab d = dep_done (task_tab ?ts) d"
      using closed_deps [OF cl d that] dep_done_append [OF d'] by blast
    ultimately show ?thesis by (auto simp: task_ok_def list_all_iff)
  qed
  then show ?thesis using validate_task_Inr [OF v S] d'
    by (simp add: board_ok_def tab member_ids_def list_all_iff)
qed

text \<open>Replacing a task by a validated one keeps the board legal, if a finished task is not reopened
  under active dependents.\<close>

lemma map_of_replace:
  "distinct (map gt_id ts) \<Longrightarrow> map_of (task_tab (replace_task c ts)) d
     = (if d = gt_id c \<and> d \<in> gt_id ` set ts then Some c else map_of (task_tab ts) d)"
proof (induction ts)
  case (Cons a ts)
  then show ?case by (auto simp: task_tab_def replace_task_def)
qed (simp add: task_tab_def replace_task_def)

lemma board_ok_replace:
  assumes ok: "board_ok S g" and v: "validate_task g c = Inr u" and cur: "cur \<in> set (ag_tasks g)" "gt_id c = gt_id cur"
    and reopen: "gt_status cur = Done \<Longrightarrow> gt_status c \<noteq> Done \<Longrightarrow>
      \<not> list_ex (\<lambda>t. gt_id c \<in> set (gt_deps t) \<and> gt_status t \<in> {InProgress, Done}) (ag_tasks g)"
    and S: "S \<subseteq> {InProgress, Done}"
  shows "board_ok S (g\<lparr>ag_tasks := replace_task c (ag_tasks g)\<rparr>)"
proof -
  let ?ts = "ag_tasks g" and ?tab = "task_tab (replace_task c (ag_tasks g))"
  have d: "distinct (map gt_id ?ts)" using ok by (simp add: board_ok_def)
  have mem: "gt_id c \<in> gt_id ` set ?ts" using cur by auto
  have tab: "task_table g c = ?tab" using d mem by (rule task_table_replace)
  have cur_tab: "map_of (task_tab ?ts) (gt_id c) = Some cur" using cur map_of_task_tab [OF d] by simp
  have "task_ok S (member_ids g) ?tab x" if x: "x \<in> set ?ts" for x
  proof -
    have xok: "task_ok S (member_ids g) (task_tab ?ts) x" using ok x by (simp add: board_ok_def list_all_iff)
    have "dep_done ?tab e" if "gt_status x \<in> S" "e \<in> set (gt_deps x)" for e
    proof -
      have old: "dep_done (task_tab ?ts) e" using xok that by (auto simp: task_ok_def list_all_iff)
      show ?thesis
      proof (cases "e = gt_id c")
        case True
        then have "gt_status cur = Done" using old cur_tab by (simp add: dep_done_def)
        then have "gt_status c = Done" using reopen x that True S by (auto simp: list_ex_iff)
        then show ?thesis using True mem map_of_replace [OF d] by (simp add: dep_done_def)
      next
        case False
        then show ?thesis using old map_of_replace [OF d] by (simp add: dep_done_def)
      qed
    qed
    then show ?thesis using xok by (auto simp: task_ok_def list_all_iff)
  qed
  moreover have "x = c \<or> x \<in> set ?ts" if "x \<in> set (replace_task c ?ts)" for x
    using that by (auto simp: replace_task_def)
  ultimately show ?thesis using validate_task_Inr [OF v S] d
    by (auto simp: board_ok_def tab member_ids_def list_all_iff)
qed

lemma board_ok_bump [simp]: "board_ok S (bump_group env g) = board_ok S g"
  by (simp add: board_ok_def bump_group_def member_ids_def)


text \<open>Revision and time stamp of a task do not matter for the board.\<close>

definition stamp_task :: "int \<Rightarrow> string \<Rightarrow> group_task \<Rightarrow> group_task" where
  "stamp_task r now t = t\<lparr>gt_revision := r, gt_updated := now\<rparr>"

definition unstamped :: "group_task \<Rightarrow> group_task" where
  "unstamped t = stamp_task 0 [] t"

lemma unstamped_simps [simp]:
  "gt_id (unstamped t) = gt_id t" "gt_deps (unstamped t) = gt_deps t" "gt_status (unstamped t) = gt_status t"
  "gt_owner (unstamped t) = gt_owner t" "gt_evidence (unstamped t) = gt_evidence t"
  "unstamped (stamp_task r now t) = unstamped t"
  by (simp_all add: unstamped_def stamp_task_def)

lemma map_of_task_tab_unstamped: "map_of (task_tab (map unstamped ts)) k = map_option unstamped (map_of (task_tab ts) k)"
  by (induction ts) (auto simp: task_tab_def)

lemma board_ok_unstamped: "board_ok S (g\<lparr>ag_tasks := map unstamped ts\<rparr>) \<longleftrightarrow> board_ok S (g\<lparr>ag_tasks := ts\<rparr>)"
proof -
  have e: "dep_edge (task_tab (map unstamped ts)) = dep_edge (task_tab ts)"
    by (auto simp: fun_eq_iff dep_edge_def map_of_task_tab_unstamped split: option.splits)
  have c: "deps_closed (task_tab (map unstamped ts)) = deps_closed (task_tab ts)"
    by (simp add: deps_closed_def e map_of_task_tab_unstamped)
  have d: "dep_done (task_tab (map unstamped ts)) = dep_done (task_tab ts)"
    by (auto simp: fun_eq_iff dep_done_def map_of_task_tab_unstamped split: option.splits)
  have o: "task_ok S ms (task_tab (map unstamped ts)) (unstamped t) = task_ok S ms (task_tab ts) t" for ms t
    by (simp add: task_ok_def d split: option.splits)
  show ?thesis
    by (simp add: board_ok_def c deps_acyclic_def e o member_ids_def list.pred_map comp_def)
qed

lemma board_ok_same_core:
  assumes "board_ok S (g\<lparr>ag_tasks := ts\<rparr>)" and "map unstamped ts = map unstamped ts'"
  shows "board_ok S (g\<lparr>ag_tasks := ts'\<rparr>)"
  using assms by (metis board_ok_unstamped)

lemma replace_task_stamp: "map unstamped (replace_task (stamp_task r now c) ts) = map unstamped (replace_task c ts)"
  by (induction ts) (auto simp: replace_task_def stamp_task_def unstamped_def)

section \<open>What the operations do\<close>

lemma read_group_Inr:
  assumes "read_group db gid actor = Inr g"
  shows "map_of (db_groups db) gid = Some g" and "\<not> ag_dissolved g"
    and "\<And>a. actor = Some a \<Longrightarrow> a \<in> set (member_ids g)"
  using assms by (auto simp: read_group_def split: option.splits if_splits)

lemma add_event_groups [simp]:
  "db_groups (snd (add_event env g kind actor p rs n db)) = db_groups db"
  "db_members (snd (add_event env g kind actor p rs n db)) = db_members db"
  "db_requests (snd (add_event env g kind actor p rs n db)) = db_requests db"
  by (simp_all add: add_event_def Let_def)

lemma task_event_groups [simp]:
  "db_groups (task_event env kind g t a actor db) = db_groups db"
  "db_members (task_event env kind g t a actor db) = db_members db"
  "db_requests (task_event env kind g t a actor db) = db_requests db"
  by (simp_all add: task_event_def)

lemma create_group_task_Inr:
  assumes "create_group_task env gid c actor db = Inr (db', t)"
  obtains g where "read_group db gid actor = Inr g" "t = new_task env c" "validate_task g t = Inr ()"
    "db_groups db' = dict_set (ag_id g) (bump_group env (g\<lparr>ag_tasks := ag_tasks g @ [t]\<rparr>)) (db_groups db)"
    "db_members db' = db_members db"
  using assms unfolding create_group_task_def save_group_def put_group_def Let_def
  by (auto simp: bump_group_def split: prod.splits)

lemma update_group_task_Inr:
  assumes "update_group_task env gid tid c actor db = Inr (db', t)"
  obtains (same) "db' = db"
    | (changed) g cur cand where "read_group db gid actor = Inr g" "List.find (\<lambda>t. gt_id t = tid) (ag_tasks g) = Some cur"
      "gt_revision cur = ut_revision c" "cand = patch_task c cur" "validate_task g cand = Inr ()"
      "\<not> (gt_status cur = Done \<and> gt_status cand \<noteq> Done
         \<and> list_ex (\<lambda>t. tid \<in> set (gt_deps t) \<and> gt_status t \<in> {InProgress, Done}) (ag_tasks g))"
      "t = cand\<lparr>gt_revision := gt_revision cand + 1, gt_updated := ge_now env\<rparr>"
      "db_groups db' = dict_set (ag_id g) (bump_group env (g\<lparr>ag_tasks := replace_task t (ag_tasks g)\<rparr>)) (db_groups db)"
      "db_members db' = db_members db"
  using assms unfolding update_group_task_def save_group_def put_group_def Let_def
  by (auto simp: bump_group_def split: option.splits if_splits prod.splits)


lemma board_ok_create:
  assumes "board_ok S g" and "validate_task g (new_task env c) = Inr ()" and "ge_uuid env \<notin> gt_id ` set (ag_tasks g)"
    and S: "S \<subseteq> {InProgress, Done}"
  shows "board_ok S (bump_group env (g\<lparr>ag_tasks := ag_tasks g @ [new_task env c]\<rparr>))"
  using board_ok_append [OF assms(1,2) _ S] assms(3) by (simp add: new_task_def)

lemma board_ok_update:
  assumes ok: "board_ok S g" and f: "List.find (\<lambda>t. gt_id t = tid) (ag_tasks g) = Some cur"
    and cand: "cand = patch_task c cur" "validate_task g cand = Inr ()"
    and reopen: "\<not> (gt_status cur = Done \<and> gt_status cand \<noteq> Done
         \<and> list_ex (\<lambda>t. tid \<in> set (gt_deps t) \<and> gt_status t \<in> {InProgress, Done}) (ag_tasks g))"
    and t: "t = cand\<lparr>gt_revision := gt_revision cand + 1, gt_updated := ge_now env\<rparr>"
    and S: "S \<subseteq> {InProgress, Done}"
  shows "board_ok S (bump_group env (g\<lparr>ag_tasks := replace_task t (ag_tasks g)\<rparr>))"
proof -
  have cur: "cur \<in> set (ag_tasks g)" "gt_id cur = tid" using find_Some_set [OF f] by auto
  have ids: "gt_id cand = gt_id cur" using cand(1) by (simp add: patch_task_def)
  have "board_ok S (g\<lparr>ag_tasks := replace_task cand (ag_tasks g)\<rparr>)"
    using ok cand(2) cur(1) ids by (rule board_ok_replace) (use reopen ids cur S in auto)
  moreover have "t = stamp_task (gt_revision cand + 1) (ge_now env) cand" using t by (simp add: stamp_task_def)
  ultimately show ?thesis using replace_task_stamp by (auto intro: board_ok_same_core)
qed

end
