(* ===== verification/GroupMembers.thy ===== *)
theory GroupMembers
  imports GroupTasks
begin

text \<open>
  Membership of groups: \<open>agent_groups/membership.py\<close>, \<open>spatial_membership.py\<close>,
  \<open>node_lifecycle.py\<close> and \<open>deletion_restore.py\<close>. A context manager of the source that
  commits when its body succeeds is the operation that commits; if the body raises, nothing changes.
\<close>

section \<open>Geometry\<close>

text \<open>Addition and comparison of doubles.\<close>

fun py_fadd :: "pyfloat \<Rightarrow> pyfloat \<Rightarrow> pyfloat" where
  "py_fadd (Fin a) (Fin b) = round_double (a + b)"
| "py_fadd NaN _ = NaN"
| "py_fadd _ NaN = NaN"
| "py_fadd PosInf NegInf = NaN"
| "py_fadd NegInf PosInf = NaN"
| "py_fadd PosInf _ = PosInf"
| "py_fadd _ PosInf = PosInf"
| "py_fadd NegInf _ = NegInf"
| "py_fadd _ NegInf = NegInf"

fun py_flt :: "pyfloat \<Rightarrow> pyfloat \<Rightarrow> bool" where
  "py_flt (Fin a) (Fin b) = (a < b)"
| "py_flt NaN _ = False"
| "py_flt _ NaN = False"
| "py_flt NegInf NegInf = False"
| "py_flt NegInf _ = True"
| "py_flt (Fin a) PosInf = True"
| "py_flt _ _ = False"

definition py_fle :: "pyfloat \<Rightarrow> pyfloat \<Rightarrow> bool" where
  "py_fle a b \<longleftrightarrow> py_flt a b \<or> (a = b \<and> a \<noteq> NaN)"

record spatial_member =
  sm_node :: string
  sm_x :: pyfloat
  sm_y :: pyfloat
  sm_private :: bool

definition covered :: "group_bounds \<Rightarrow> spatial_member \<Rightarrow> bool" where
  "covered b n \<longleftrightarrow> py_fle (gb_x b) (sm_x n) \<and> py_flt (sm_x n) (py_fadd (gb_x b) (gb_width b))
     \<and> py_fle (gb_y b) (sm_y n) \<and> py_flt (sm_y n) (py_fadd (gb_y b) (gb_height b))"

definition bounds_overlap :: "group_bounds \<Rightarrow> group_bounds \<Rightarrow> bool" where
  "bounds_overlap a b \<longleftrightarrow> py_flt (gb_x a) (py_fadd (gb_x b) (gb_width b)) \<and> py_flt (gb_x b) (py_fadd (gb_x a) (gb_width a))
     \<and> py_flt (gb_y a) (py_fadd (gb_y b) (gb_height b)) \<and> py_flt (gb_y b) (py_fadd (gb_y a) (gb_height a))"

section \<open>Leaving a group\<close>

definition release_task :: "group_env \<Rightarrow> string \<Rightarrow> group_task \<Rightarrow> group_task" where
  "release_task env node t = (if gt_owner t = Some node \<and> gt_status t \<noteq> Done
     then t\<lparr>gt_owner := None, gt_status := Blocked, gt_revision := gt_revision t + 1, gt_updated := ge_now env\<rparr>
     else t)"

definition owned_open :: "string \<Rightarrow> group_task \<Rightarrow> bool" where
  "owned_open node t \<longleftrightarrow> gt_owner t = Some node \<and> gt_status t \<noteq> Done"

definition first_member :: "group_member list \<Rightarrow> string option" where
  "first_member ms = (case ms of [] \<Rightarrow> None | m # _ \<Rightarrow> Some (gm_node m))"

definition without_member :: "group_env \<Rightarrow> string \<Rightarrow> agent_group \<Rightarrow> agent_group" where
  "without_member env node g = (let ms = filter (\<lambda>m. gm_node m \<noteq> node) (ag_members g) in
     g\<lparr>ag_members := ms, ag_leader := (if ag_leader g = Some node then first_member ms else ag_leader g),
       ag_tasks := map (release_task env node) (ag_tasks g)\<rparr>)"

definition detach_member ::
    "group_env \<Rightarrow> agent_group \<Rightarrow> string \<Rightarrow> string \<Rightarrow> group_db \<Rightarrow> agent_group \<times> group_db" where
  "detach_member env g node reason db = (let
       g1 = without_member env node g;
       released = map task_dump (map (release_task env node) (filter (owned_open node) (ag_tasks g)));
       db1 = db\<lparr>db_members := dict_pop node (db_members db)\<rparr>;
       db2 = update_pending (\<lambda>d. dl_node d = node \<and> dl_seq d \<in> set (event_seqs_of (ag_id g) db1)) cancel db1;
       (g2, db3) = save_group env True g1 db2
     in (g2, snd (add_event env g2 ''member_left'' None [(''node_id'', PStr node), (''reason'', PStr reason),
           (''released_tasks'', PList released), (''leader_id'', opt_val (ag_leader g2))] [] False db3)))"

record deleted_member =
  dm_group :: string
  dm_member :: group_member
  dm_tasks :: "group_task list"

definition node_departure ::
    "group_env \<Rightarrow> string \<Rightarrow> string \<Rightarrow> group_db \<Rightarrow> (group_db \<times> deleted_member option) group_res" where
  "node_departure env node reason db = (case map_of (db_members db) node of
      None \<Rightarrow> Inr (db, None)
    | Some gid \<Rightarrow> rbind (read_group db gid None) (\<lambda>g.
        case List.find (\<lambda>m. gm_node m = node) (ag_members g) of
          None \<Rightarrow> Inl GroupKeyError
        | Some m \<Rightarrow> Inr (snd (detach_member env g node reason db),
            Some \<lparr>dm_group = ag_id g, dm_member = m, dm_tasks = filter (owned_open node) (ag_tasks g)\<rparr>)))"

section \<open>Joining, configuring, dissolving\<close>

definition create_agent_group ::
    "group_env \<Rightarrow> create_group \<Rightarrow> bool \<Rightarrow> group_db \<Rightarrow> (group_db \<times> agent_group) group_res" where
  "create_agent_group env c private db = (let
       g = \<lparr>ag_id = ge_uuid env, ag_name = cg_name c, ag_objective = cg_objective c, ag_bounds = cg_bounds c,
            ag_members = cg_members c, ag_leader = first_member (cg_members c), ag_tasks = [], ag_revision = 1,
            ag_dissolved = False, ag_private = private, ag_created = ge_now env, ag_updated = ge_now env\<rparr>
     in if list_ex (\<lambda>m. dict_has (db_members db) (gm_node m)) (ag_members g)
        then Inl (GroupConflict ''node already belongs to a group'')
        else rbind (rfold (\<lambda>m. insert_member (gm_node m) (ag_id g)) (ag_members g) (snd (save_group env False g db))) (\<lambda>db1.
          Inr (snd (add_event env g ''group_created'' None [(''group'', group_dump g)] [] False db1), g)))"

definition with_member :: "group_member \<Rightarrow> bool \<Rightarrow> agent_group \<Rightarrow> agent_group" where
  "with_member m private g = g\<lparr>ag_private := ag_private g \<or> private, ag_members := ag_members g @ [m],
     ag_leader := (if ag_leader g = None then Some (gm_node m) else ag_leader g)\<rparr>"

definition join_member ::
    "group_env \<Rightarrow> group_member \<Rightarrow> bool \<Rightarrow> agent_group \<times> group_db \<Rightarrow> (agent_group \<times> group_db) group_res" where
  "join_member env m private gdb = (let (g, db) = gdb; g1 = with_member m private g in
     rbind (insert_member (gm_node m) (ag_id g1) db) (\<lambda>db1.
     let (g2, db2) = save_group env True g1 db1 in
     Inr (g2, snd (add_event env g2 ''member_joined'' None [(''member'', member_dump m)] [] False db2))))"

definition move_member ::
    "group_env \<Rightarrow> string \<Rightarrow> string option \<Rightarrow> string option \<Rightarrow> string \<Rightarrow> bool \<Rightarrow> group_db \<Rightarrow> (group_db \<times> agent_group option) group_res" where
  "move_member env node target_id expected_source role private db = (let source_id = map_of (db_members db) node in
     if source_id \<noteq> expected_source then Inl (GroupConflict ''membership changed; refresh before moving this node'')
     else rbind (case target_id of None \<Rightarrow> Inr None | Some tid \<Rightarrow> rbind (read_group db tid None) (\<lambda>g. Inr (Some g))) (\<lambda>target.
       if source_id = target_id then Inr (db, target)
       else rbind (case source_id of None \<Rightarrow> Inr db
                   | Some sid \<Rightarrow> rbind (read_group db sid None) (\<lambda>g. Inr (snd (detach_member env g node ''left'' db)))) (\<lambda>db1.
         case target of None \<Rightarrow> Inr (db1, None)
         | Some g \<Rightarrow> rbind (join_member env \<lparr>gm_node = node, gm_role = role\<rparr> private (g, db1)) (\<lambda>(g2, db2).
             Inr (db2, Some g2)))))"

definition covered_members :: "group_bounds \<Rightarrow> spatial_member list \<Rightarrow> spatial_member dict" where
  "covered_members b nodes = fold (\<lambda>n. dict_set (sm_node n) n) (filter (covered b) nodes) []"

definition detach_uncovered ::
    "group_env \<Rightarrow> spatial_member dict \<Rightarrow> group_member \<Rightarrow> agent_group \<times> group_db \<Rightarrow> agent_group \<times> group_db" where
  "detach_uncovered env members m gdb = (if dict_has members (gm_node m) then gdb
     else detach_member env (fst gdb) (gm_node m) ''frame_resized'' (snd gdb))"

definition join_covered ::
    "group_env \<Rightarrow> string list \<Rightarrow> string \<times> spatial_member \<Rightarrow> agent_group \<times> group_db \<Rightarrow> (agent_group \<times> group_db) group_res" where
  "join_covered env existing nm gdb = (if fst nm \<in> set existing then Inr gdb
     else join_member env \<lparr>gm_node = fst nm, gm_role = []\<rparr> (sm_private (snd nm)) gdb)"

definition reconcile ::
    "group_env \<Rightarrow> agent_group \<Rightarrow> group_bounds \<Rightarrow> spatial_member list \<Rightarrow> group_db \<Rightarrow> (agent_group \<times> group_db) group_res" where
  "reconcile env g bounds nodes db =
     (if list_ex (\<lambda>(k, other). \<not> ag_dissolved other \<and> ag_id other \<noteq> ag_id g \<and> bounds_overlap bounds (ag_bounds other)) (db_groups db)
      then Inl (GroupConflict ''group frames must not overlap'')
      else let members = covered_members bounds nodes in
        if list_ex (\<lambda>n. case map_of (db_members db) n of None \<Rightarrow> False | Some gid \<Rightarrow> gid \<noteq> ag_id g) (dict_keys members)
        then Inl (GroupConflict ''an agent in the frame already belongs to another group'')
        else let (g1, db1) = fold (detach_uncovered env members) (ag_members g) (g, db) in
          rfold (join_covered env (member_ids g1)) members (g1, db1))"

definition changed_fields :: "agent_group \<Rightarrow> string option \<Rightarrow> string option \<Rightarrow> group_bounds option \<Rightarrow> pydict" where
  "changed_fields g name objective bounds =
     (case name of Some n \<Rightarrow> if ag_name g \<noteq> n then [(''name'', PStr n)] else [] | None \<Rightarrow> [])
     @ (case objective of Some obj \<Rightarrow> if ag_objective g \<noteq> obj then [(''objective'', PStr obj)] else [] | None \<Rightarrow> [])
     @ (case bounds of Some b \<Rightarrow> if ag_bounds g \<noteq> b then [(''bounds'', bounds_dump b)] else [] | None \<Rightarrow> [])"

definition configure_group ::
    "group_env \<Rightarrow> string \<Rightarrow> int \<Rightarrow> string option \<Rightarrow> string option \<Rightarrow> group_bounds option \<Rightarrow> spatial_member list option
       \<Rightarrow> group_db \<Rightarrow> (group_db \<times> agent_group) group_res" where
  "configure_group env gid expected name objective bounds layout db =
     (if bounds \<noteq> None \<and> layout = None then Inl (GroupConflict ''resizing requires an authoritative node layout'')
      else rbind (read_group db gid None) (\<lambda>g.
        if ag_revision g \<noteq> expected then Inl (GroupConflict ''group changed; refresh before editing'')
        else rbind (case (bounds, layout) of (Some b, Some nodes) \<Rightarrow> reconcile env g b nodes db | _ \<Rightarrow> Inr (g, db)) (\<lambda>(g1, db1).
          let changed = changed_fields g1 name objective bounds in
          if changed = [] then Inr (db1, g1)
          else let g2 = g1\<lparr>ag_name := opt_or name (ag_name g1), ag_objective := opt_or objective (ag_objective g1),
                           ag_bounds := opt_or bounds (ag_bounds g1)\<rparr>;
                   (g3, db2) = save_group env True g2 db1
               in Inr (snd (add_event env g3 ''group_updated'' None changed [] False db2), g3))))"

definition update_plan ::
    "group_env \<Rightarrow> string \<Rightarrow> string \<times> string \<Rightarrow> string \<times> string \<Rightarrow> group_db \<Rightarrow> (group_db \<times> agent_group) group_res" where
  "update_plan env gid expected plan db = rbind (read_group db gid None) (\<lambda>g.
     if (ag_name g, ag_objective g) \<noteq> expected then Inl (GroupConflict ''the plan was changed by someone else'')
     else let changed = changed_fields g (Some (fst plan)) (Some (snd plan)) None in
       if changed = [] then Inr (db, g)
       else let (g1, db1) = save_group env True (g\<lparr>ag_name := fst plan, ag_objective := snd plan\<rparr>) db
            in Inr (snd (add_event env g1 ''group_updated'' None changed [] False db1), g1))"

definition set_role :: "string \<Rightarrow> string \<Rightarrow> group_member list \<Rightarrow> group_member list" where
  "set_role node role ms = map (\<lambda>m. if gm_node m = node then m\<lparr>gm_role := role\<rparr> else m) ms"

definition update_role ::
    "group_env \<Rightarrow> string \<Rightarrow> string \<Rightarrow> string \<Rightarrow> string \<Rightarrow> group_db \<Rightarrow> (group_db \<times> agent_group) group_res" where
  "update_role env gid node expected role db = rbind (read_group db gid None) (\<lambda>g.
     case List.find (\<lambda>m. gm_node m = node) (ag_members g) of
       None \<Rightarrow> Inl (GroupConflict ''node is no longer a member of this group'')
     | Some current \<Rightarrow>
         if gm_role current \<noteq> expected then Inl (GroupConflict ''member role changed; refresh before editing'')
         else if gm_role current = role then Inr (db, g)
         else let (g1, db1) = save_group env True (g\<lparr>ag_members := set_role node role (ag_members g)\<rparr>) db
              in Inr (snd (add_event env g1 ''member_role_updated'' None
                   [(''member'', member_dump \<lparr>gm_node = node, gm_role = role\<rparr>)] [] False db1), g1))"

definition set_leader ::
    "group_env \<Rightarrow> string \<Rightarrow> string option \<Rightarrow> string \<Rightarrow> group_db \<Rightarrow> (group_db \<times> agent_group) group_res" where
  "set_leader env gid expected leader db = rbind (read_group db gid None) (\<lambda>g.
     if ag_leader g \<noteq> expected then Inl (GroupConflict ''the leader was changed; refresh and try again'')
     else if leader \<notin> set (member_ids g) then Inl (GroupConflict ''only a current member can lead'')
     else if ag_leader g = Some leader then Inr (db, g)
     else let (g1, db1) = save_group env True (g\<lparr>ag_leader := Some leader\<rparr>) db
          in Inr (snd (add_event env g1 ''group_leader_changed'' None [(''leader_id'', PStr leader)] [] False db1), g1))"

definition dissolve :: "group_env \<Rightarrow> string \<Rightarrow> int \<Rightarrow> group_db \<Rightarrow> (group_db \<times> agent_group) group_res" where
  "dissolve env gid expected db = rbind (read_group db gid None) (\<lambda>g.
     if ag_revision g \<noteq> expected then Inl (GroupConflict ''group changed; refresh before dissolving'')
     else let (g1, db1) = save_group env True (g\<lparr>ag_dissolved := True\<rparr>) db;
              db2 = db1\<lparr>db_members := filter (\<lambda>(n, k). k \<noteq> gid) (db_members db1)\<rparr>;
              db3 = update_pending (\<lambda>d. dl_seq d \<in> set (event_seqs_of gid db2)) cancel db2
          in Inr (snd (add_event env g1 ''group_dissolved'' None [(''name'', PStr (ag_name g1))] [] False db3), g1))"

definition protect_member_history :: "group_env \<Rightarrow> string \<Rightarrow> group_db \<Rightarrow> group_db group_res" where
  "protect_member_history env node db = (case map_of (db_members db) node of
      None \<Rightarrow> Inr db
    | Some gid \<Rightarrow> rbind (read_group db gid None) (\<lambda>g.
        if ag_private g then Inr db
        else let (g1, db1) = save_group env True (g\<lparr>ag_private := True\<rparr>) db
             in Inr (snd (add_event env g1 ''group_visibility_changed'' None [(''private'', PBool True)] [] False db1))))"

section \<open>Restoring a deleted member\<close>

definition released_unchanged :: "agent_group \<Rightarrow> group_task \<Rightarrow> bool" where
  "released_unchanged g original = (case map_of (fold (\<lambda>t. dict_set (gt_id t) t) (ag_tasks g) []) (gt_id original) of
      None \<Rightarrow> False
    | Some current \<Rightarrow> gt_revision current = gt_revision original + 1 \<and> gt_owner current = None \<and> gt_status current = Blocked)"

definition restore_task :: "group_env \<Rightarrow> group_task \<Rightarrow> agent_group \<Rightarrow> agent_group" where
  "restore_task env original g = (case map_of (fold (\<lambda>t. dict_set (gt_id t) t) (ag_tasks g) []) (gt_id original) of
      None \<Rightarrow> g
    | Some current \<Rightarrow> g\<lparr>ag_tasks := replace_task
        (original\<lparr>gt_revision := gt_revision current + 1, gt_updated := ge_now env\<rparr>) (ag_tasks g)\<rparr>)"

definition restore_deleted_member :: "group_env \<Rightarrow> deleted_member option \<Rightarrow> group_db \<Rightarrow> group_db group_res" where
  "restore_deleted_member env snapshot db = (case snapshot of None \<Rightarrow> Inr db
     | Some saved \<Rightarrow> rbind (read_group db (dm_group saved) None) (\<lambda>g.
         let node = gm_node (dm_member saved) in
         if dict_has (db_members db) node then Inl (GroupConflict ''restored node identity already belongs to a group'')
         else if list_ex (\<lambda>t. \<not> released_unchanged g t) (dm_tasks saved)
         then Inl (GroupConflict ''released task changed after deletion; undo would overwrite newer work'')
         else if \<not> distinct (map gt_id (dm_tasks saved)) then Inl (GroupValueError ''task is not in list'')
         else let g1 = with_member (dm_member saved) False g;
                  g2 = fold (restore_task env) (dm_tasks saved) g1 in
           rbind (insert_member node (ag_id g2) db) (\<lambda>db1.
           let (g3, db2) = save_group env True g2 db1 in
           Inr (snd (add_event env g3 ''member_restored'' None [(''member'', member_dump (dm_member saved)),
             (''restored_task_ids'', strs_val (map gt_id (dm_tasks saved)))] [] False db2)))))"

section \<open>The membership invariant\<close>

text \<open>
  A live group has different members, is led by a member (by nobody if it is empty) and has a legal
  board. The membership table says of every node which live group it is a member of, so no node is a
  member of two groups.
\<close>

definition leader_ok :: "agent_group \<Rightarrow> bool" where
  "leader_ok g = (case ag_leader g of None \<Rightarrow> ag_members g = [] | Some l \<Rightarrow> l \<in> set (member_ids g))"

definition group_ok :: "task_status set \<Rightarrow> agent_group \<Rightarrow> bool" where
  "group_ok S g \<longleftrightarrow> distinct (member_ids g) \<and> leader_ok g \<and> board_ok S g"

definition is_member :: "group_db \<Rightarrow> string \<Rightarrow> string \<Rightarrow> bool" where
  "is_member db gid n \<longleftrightarrow> (\<exists>g. map_of (db_groups db) gid = Some g \<and> \<not> ag_dissolved g \<and> n \<in> set (member_ids g))"

definition db_ok :: "task_status set \<Rightarrow> group_db \<Rightarrow> bool" where
  "db_ok S db \<longleftrightarrow> wf_dict (db_groups db)
     \<and> list_all (\<lambda>(k, g). ag_id g = k \<and> (ag_dissolved g \<or> group_ok S g)) (db_groups db)
     \<and> wf_dict (db_members db)
     \<and> (\<forall>n gid. map_of (db_members db) n = Some gid \<longleftrightarrow> is_member db gid n)"

lemma db_ok_group:
  assumes "db_ok S db" and "map_of (db_groups db) gid = Some g"
  shows "ag_id g = gid" and "\<not> ag_dissolved g \<Longrightarrow> group_ok S g"
    and "\<not> ag_dissolved g \<Longrightarrow> map_of (db_members db) n = Some gid \<longleftrightarrow> n \<in> set (member_ids g)"
  using assms map_of_SomeD [OF assms(2)] by (auto simp: db_ok_def list_all_iff is_member_def)

text \<open>Writing one group and the rows of its members.\<close>

lemma db_ok_update:
  assumes ok: "db_ok S db" and g: "ag_dissolved g \<or> group_ok S g"
    and groups: "db_groups db' = dict_set (ag_id g) g (db_groups db)" and wf: "wf_dict (db_members db')"
    and others: "\<And>n k. k \<noteq> ag_id g \<Longrightarrow> map_of (db_members db') n = Some k \<longleftrightarrow> map_of (db_members db) n = Some k"
    and own: "\<And>n. map_of (db_members db') n = Some (ag_id g) \<longleftrightarrow> \<not> ag_dissolved g \<and> n \<in> set (member_ids g)"
  shows "db_ok S db'"
proof -
  have "list_all (\<lambda>(k, g). ag_id g = k \<and> (ag_dissolved g \<or> group_ok S g)) (db_groups db')"
    using ok g set_dict_set [of "ag_id g" g "db_groups db"] by (auto simp: db_ok_def groups list_all_iff)
  moreover have "map_of (db_members db') n = Some k \<longleftrightarrow> is_member db' k n" for n k
  proof (cases "k = ag_id g")
    case True
    then show ?thesis using own [of n] by (auto simp: is_member_def groups)
  next
    case False
    then have "is_member db' k n = is_member db k n" by (simp add: is_member_def groups)
    then show ?thesis using others [OF False, of n] ok by (simp add: db_ok_def)
  qed
  ultimately show ?thesis using ok wf by (simp add: db_ok_def groups)
qed

text \<open>Writing a group without changing who its members are.\<close>

lemma db_ok_same_members:
  assumes ok: "db_ok S db" and old: "map_of (db_groups db) (ag_id g) = Some g0" "\<not> ag_dissolved g0"
    and g: "group_ok S g" "\<not> ag_dissolved g" "set (member_ids g) = set (member_ids g0)"
    and groups: "db_groups db' = dict_set (ag_id g) g (db_groups db)" and members: "db_members db' = db_members db"
  shows "db_ok S db'"
  using ok disjI2 [OF g(1)] groups
proof (rule db_ok_update)
  show "wf_dict (db_members db')" using ok members by (simp add: db_ok_def)
  show "map_of (db_members db') n = Some (ag_id g) \<longleftrightarrow> \<not> ag_dissolved g \<and> n \<in> set (member_ids g)" for n
    using db_ok_group(3) [OF ok old(1,2), of n] g members by simp
qed (simp add: members)

lemma bump_group_simps [simp]:
  "ag_id (bump_group env g) = ag_id g" "ag_dissolved (bump_group env g) = ag_dissolved g"
  "ag_members (bump_group env g) = ag_members g" "member_ids (bump_group env g) = member_ids g"
  "ag_leader (bump_group env g) = ag_leader g" "ag_tasks (bump_group env g) = ag_tasks g"
  "leader_ok (bump_group env g) = leader_ok g" "group_ok S (bump_group env g) = group_ok S g"
  by (simp_all add: bump_group_def member_ids_def leader_ok_def group_ok_def board_ok_def split: option.splits)

lemma save_group_simps [simp]:
  "fst (save_group env b g db) = (if b then bump_group env g else g)"
  "db_groups (snd (save_group env b g db)) = dict_set (ag_id g) (if b then bump_group env g else g) (db_groups db)"
  "db_members (snd (save_group env b g db)) = db_members db"
  by (simp_all add: save_group_def put_group_def Let_def)

lemma update_pending_simps [simp]:
  "db_groups (update_pending P f db) = db_groups db" "db_members (update_pending P f db) = db_members db"
  by (simp_all add: update_pending_def)

subsection \<open>Boards when members leave\<close>

lemma board_ok_map:
  assumes ok: "board_ok S g" and ts: "ag_tasks g' = map f (ag_tasks g)"
    and core: "\<And>t. t \<in> set (ag_tasks g) \<Longrightarrow> gt_id (f t) = gt_id t \<and> gt_deps (f t) = gt_deps t
       \<and> (gt_status (f t) = Done \<longleftrightarrow> gt_status t = Done)"
    and tok: "\<And>t tab. t \<in> set (ag_tasks g) \<Longrightarrow> task_ok S (member_ids g) tab t \<Longrightarrow> task_ok S (member_ids g') tab (f t)"
  shows "board_ok S g'"
proof -
  let ?ts = "ag_tasks g"
  have ids: "map gt_id (map f ?ts) = map gt_id ?ts" using core by simp
  have look: "map_of (task_tab (map f us)) k = map_option f (map_of (task_tab us) k)" if "set us \<subseteq> set ?ts" for us k
    using that by (induction us) (auto simp: task_tab_def core)
  note look = look [OF subset_refl]
  have mem: "t \<in> set ?ts" if "map_of (task_tab ?ts) k = Some t" for k t
    using map_of_SomeD [OF that] by (auto simp: task_tab_def)
  have e: "dep_edge (task_tab (map f ?ts)) = dep_edge (task_tab ?ts)"
    using core mem by (auto simp: fun_eq_iff dep_edge_def look split: option.splits)
  have d: "dep_done (task_tab (map f ?ts)) = dep_done (task_tab ?ts)"
    using core mem by (auto simp: fun_eq_iff dep_done_def look split: option.splits)
  have same_tab: "task_ok S ms (task_tab (map f ?ts)) t = task_ok S ms (task_tab ?ts) t" for ms t
    by (simp add: task_ok_def d)
  have c: "deps_closed (task_tab (map f ?ts)) = deps_closed (task_tab ?ts)"
    by (simp add: deps_closed_def e look)
  show ?thesis
    using ok tok unfolding board_ok_def ts ids c deps_acyclic_def e
    by (simp add: same_tab list_all_iff)
qed

lemma member_ids_without [simp]: "member_ids (without_member env node g) = filter (\<lambda>n. n \<noteq> node) (member_ids g)"
  by (simp add: without_member_def member_ids_def Let_def filter_map comp_def)

lemma without_member_simps [simp]:
  "ag_id (without_member env node g) = ag_id g" "ag_dissolved (without_member env node g) = ag_dissolved g"
  "ag_tasks (without_member env node g) = map (release_task env node) (ag_tasks g)"
  by (simp_all add: without_member_def Let_def)

lemma release_task_ok:
  assumes "task_ok S ms tab t" and "S \<subseteq> {InProgress, Done}"
  shows "task_ok S (filter (\<lambda>n. n \<noteq> node) ms) tab (release_task env node t)"
  using assms by (auto simp: task_ok_def release_task_def split: option.splits)

lemma leader_ok_without: "leader_ok g \<Longrightarrow> leader_ok (without_member env node g)"
proof (cases "ag_leader g = Some node")
  case True
  then show ?thesis
    by (cases "filter (\<lambda>m. gm_node m \<noteq> node) (ag_members g)")
      (auto simp: leader_ok_def without_member_def member_ids_def first_member_def Let_def)
next
  case False
  assume "leader_ok g"
  with False show ?thesis
    by (cases "ag_leader g") (auto simp: leader_ok_def without_member_def member_ids_def Let_def)
qed

lemma group_ok_without:
  assumes "group_ok S g" and S: "S \<subseteq> {InProgress, Done}"
  shows "group_ok S (without_member env node g)"
proof -
  have "board_ok S (without_member env node g)"
  proof (rule board_ok_map)
    show "board_ok S g" using assms(1) by (simp add: group_ok_def)
    show "task_ok S (member_ids (without_member env node g)) tab (release_task env node t)"
      if "task_ok S (member_ids g) tab t" for t tab
      using that S by (simp add: release_task_ok)
  qed (auto simp: release_task_def)
  then show ?thesis using assms(1) leader_ok_without by (simp add: group_ok_def)
qed

lemma group_ok_with_member:
  assumes "group_ok S g" and "gm_node m \<notin> set (member_ids g)"
  shows "group_ok S (with_member m b g)"
proof -
  have ids: "member_ids (with_member m b g) = member_ids g @ [gm_node m]" by (simp add: with_member_def member_ids_def)
  have "board_ok S (with_member m b g)"
  proof (rule board_ok_map)
    show "board_ok S g" using assms(1) by (simp add: group_ok_def)
    show "ag_tasks (with_member m b g) = map id (ag_tasks g)" by (simp add: with_member_def)
    show "task_ok S (member_ids (with_member m b g)) tab (id t)" if "task_ok S (member_ids g) tab t" for t tab
      using that by (auto simp: task_ok_def ids split: option.splits)
  qed auto
  moreover have "leader_ok (with_member m b g)"
    using assms(1) by (auto simp: group_ok_def leader_ok_def with_member_def member_ids_def split: option.splits)
  ultimately show ?thesis using assms by (simp add: group_ok_def ids)
qed

subsection \<open>Leaving and joining keep the invariant\<close>

text \<open>The group in hand is the one in the store, and lives.\<close>

definition current :: "group_db \<Rightarrow> agent_group \<Rightarrow> bool" where
  "current db g \<longleftrightarrow> map_of (db_groups db) (ag_id g) = Some g \<and> \<not> ag_dissolved g"

lemma read_group_current: "db_ok S db \<Longrightarrow> read_group db gid actor = Inr g \<Longrightarrow> current db g \<and> ag_id g = gid"
  using db_ok_group(1) [of S db gid g] by (auto simp: current_def dest: read_group_Inr)

lemma detach_member_groups:
  "db_groups (snd (detach_member env g node reason db)) = dict_set (ag_id g) (fst (detach_member env g node reason db)) (db_groups db)"
  "db_members (snd (detach_member env g node reason db)) = dict_pop node (db_members db)"
  "fst (detach_member env g node reason db) = bump_group env (without_member env node g)"
  by (simp_all add: detach_member_def Let_def split_beta)

lemma detach_member_ok:
  assumes ok: "db_ok S db" and cur: "current db g" and S: "S \<subseteq> {InProgress, Done}"
    and node: "map_of (db_members db) node \<in> {None, Some (ag_id g)}"
  shows "db_ok S (snd (detach_member env g node reason db)) \<and> current (snd (detach_member env g node reason db)) (fst (detach_member env g node reason db))"
proof
  let ?r = "detach_member env g node reason db"
  have old: "map_of (db_groups db) (ag_id g) = Some g" "\<not> ag_dissolved g" using cur by (simp_all add: current_def)
  have gok: "group_ok S (fst ?r)" using db_ok_group(2) [OF ok old] S by (simp add: detach_member_groups group_ok_without)
  show "db_ok S (snd ?r)"
    using ok
  proof (rule db_ok_update [where g = "fst ?r"])
    show "ag_dissolved (fst ?r) \<or> group_ok S (fst ?r)" using gok by simp
    show "db_groups (snd ?r) = dict_set (ag_id (fst ?r)) (fst ?r) (db_groups db)"
      by (simp add: detach_member_groups)
    show "wf_dict (db_members (snd ?r))" using ok by (simp add: detach_member_groups db_ok_def)
    show "map_of (db_members (snd ?r)) n = Some k \<longleftrightarrow> map_of (db_members db) n = Some k" if "k \<noteq> ag_id (fst ?r)" for n k
      using that node by (auto simp: detach_member_groups)
    show "map_of (db_members (snd ?r)) n = Some (ag_id (fst ?r)) \<longleftrightarrow> \<not> ag_dissolved (fst ?r) \<and> n \<in> set (member_ids (fst ?r))" for n
      using db_ok_group(3) [OF ok old, of n] old(2) by (simp add: detach_member_groups)
  qed
  show "current (snd ?r) (fst ?r)" using old(2) by (simp add: current_def detach_member_groups)
qed

lemma insert_member_Inr: "insert_member n k db = Inr db' \<longleftrightarrow>
    map_of (db_members db) n = None \<and> db' = db\<lparr>db_members := db_members db @ [(n, k)]\<rparr>"
  by (auto simp: insert_member_def dict_has_iff)

lemma map_of_snoc: "map_of xs n = None \<Longrightarrow> map_of (xs @ [(n, k)]) m = (if m = n then Some k else map_of xs m)"
  by (simp add: map_add_def split: option.splits)

lemma wf_dict_snoc: "wf_dict xs \<Longrightarrow> map_of xs n = None \<Longrightarrow> wf_dict (xs @ [(n, k)])"
  by (auto simp: wf_dict_def map_of_eq_None_iff)

lemma with_member_simps [simp]:
  "ag_id (with_member m b g) = ag_id g" "ag_dissolved (with_member m b g) = ag_dissolved g"
  "ag_tasks (with_member m b g) = ag_tasks g" "member_ids (with_member m b g) = member_ids g @ [gm_node m]"
  by (simp_all add: with_member_def member_ids_def)

lemma join_member_Inr:
  assumes "join_member env m b (g, db) = Inr (g', db')"
  shows "map_of (db_members db) (gm_node m) = None" and "g' = bump_group env (with_member m b g)"
    and "db_groups db' = dict_set (ag_id g) g' (db_groups db)"
    and "db_members db' = db_members db @ [(gm_node m, ag_id g)]"
  using assms by (auto simp: join_member_def insert_member_Inr Let_def split_beta)

lemma join_member_ok:
  assumes ok: "db_ok S db" and cur: "current db g" and j: "join_member env m b (g, db) = Inr (g', db')"
  shows "db_ok S db' \<and> current db' g' \<and> ag_id g' = ag_id g"
proof -
  note J = join_member_Inr [OF j]
  have old: "map_of (db_groups db) (ag_id g) = Some g" "\<not> ag_dissolved g" using cur by (simp_all add: current_def)
  have id: "ag_id g' = ag_id g" "\<not> ag_dissolved g'" using J(2) old by (simp_all add: with_member_def)
  have new: "gm_node m \<notin> set (member_ids g)" using db_ok_group(3) [OF ok old, of "gm_node m"] J(1) by simp
  have gok: "group_ok S g'" using group_ok_with_member [OF db_ok_group(2) [OF ok old] new] J(2) by simp
  have ids: "member_ids g' = member_ids g @ [gm_node m]" using J(2) by (simp add: with_member_def member_ids_def)
  have "db_ok S db'"
    using ok disjI2 [OF gok]
  proof (rule db_ok_update)
    show "db_groups db' = dict_set (ag_id g') g' (db_groups db)" using J(3) id by simp
    show "wf_dict (db_members db')" using ok J(1,4) by (simp add: wf_dict_snoc db_ok_def)
    show "map_of (db_members db') n = Some k \<longleftrightarrow> map_of (db_members db) n = Some k" if "k \<noteq> ag_id g'" for n k
      using that id J(1) unfolding J(4) map_of_snoc [OF J(1)] by simp
    show "map_of (db_members db') n = Some (ag_id g') \<longleftrightarrow> \<not> ag_dissolved g' \<and> n \<in> set (member_ids g')" for n
      using db_ok_group(3) [OF ok old, of n] id unfolding J(4) map_of_snoc [OF J(1)] by (auto simp: ids)
  qed
  then show ?thesis using J(3) id by (simp add: current_def)
qed


subsection \<open>The operations keep the invariant\<close>

lemma owned_pop:
  "map_of (db_members db) n \<in> {None, Some gid} \<Longrightarrow> db_members db' = dict_pop m (db_members db)
     \<Longrightarrow> map_of (db_members db') n \<in> {None, Some gid}"
  by auto

lemma detach_fold_ok:
  assumes S: "S \<subseteq> {InProgress, Done}"
  shows "db_ok S db \<Longrightarrow> current db g \<Longrightarrow> \<forall>m \<in> set ms. map_of (db_members db) (gm_node m) \<in> {None, Some (ag_id g)}
    \<Longrightarrow> fold (detach_uncovered env covers) ms (g, db) = (g', db') \<Longrightarrow> db_ok S db' \<and> current db' g' \<and> ag_id g' = ag_id g"
proof (induction ms arbitrary: g db)
  case (Cons m ms)
  show ?case
  proof (cases "dict_has covers (gm_node m)")
    case True
    then show ?thesis using Cons by (simp add: detach_uncovered_def)
  next
    case False
    let ?r = "detach_member env g (gm_node m) ''frame_resized'' db"
    have d: "db_ok S (snd ?r) \<and> current (snd ?r) (fst ?r)"
      using Cons.prems by (intro detach_member_ok [OF _ _ S]) auto
    have id: "ag_id (fst ?r) = ag_id g" by (simp add: detach_member_groups)
    have own: "\<forall>x \<in> set ms. map_of (db_members (snd ?r)) (gm_node x) \<in> {None, Some (ag_id (fst ?r))}"
      using Cons.prems(3) id by (auto simp: detach_member_groups(2))
    have "fold (detach_uncovered env covers) ms (fst ?r, snd ?r) = (g', db')"
      using Cons.prems(4) False by (simp add: detach_uncovered_def [of env covers m])
    from Cons.IH [OF _ _ own this] d id show ?thesis by auto
  qed
qed simp

lemma join_fold_ok:
  "db_ok S db \<Longrightarrow> current db g \<Longrightarrow> rfold (join_covered env ex) nms (g, db) = Inr (g', db')
    \<Longrightarrow> db_ok S db' \<and> current db' g' \<and> ag_id g' = ag_id g"
proof (induction nms arbitrary: g db)
  case (Cons nm nms)
  then obtain g1 db1 where j: "join_covered env ex nm (g, db) = Inr (g1, db1)"
      and r: "rfold (join_covered env ex) nms (g1, db1) = Inr (g', db')"
    by (auto simp: rbind_eq_Inr)
  have "db_ok S db1 \<and> current db1 g1 \<and> ag_id g1 = ag_id g"
    using j join_member_ok [OF Cons.prems(1,2)] Cons.prems by (auto simp: join_covered_def split: if_splits)
  then show ?case using Cons.IH [OF _ _ r] by auto
qed simp

lemma reconcile_ok:
  assumes ok: "db_ok S db" and cur: "current db g" and S: "S \<subseteq> {InProgress, Done}"
    and r: "reconcile env g b nodes db = Inr (g', db')"
  shows "db_ok S db' \<and> current db' g' \<and> ag_id g' = ag_id g"
proof -
  let ?cov = "covered_members b nodes"
  obtain g1 db1 where f: "fold (detach_uncovered env ?cov) (ag_members g) (g, db) = (g1, db1)"
      and j: "rfold (join_covered env (member_ids g1)) ?cov (g1, db1) = Inr (g', db')"
    using r by (auto simp: reconcile_def Let_def split: if_splits prod.splits)
  have "map_of (db_members db) (gm_node m) = Some (ag_id g)" if "m \<in> set (ag_members g)" for m
    using db_ok_group(3) [OF ok, of "ag_id g" g "gm_node m"] cur that by (auto simp: current_def member_ids_def)
  then have "db_ok S db1 \<and> current db1 g1 \<and> ag_id g1 = ag_id g"
    using detach_fold_ok [OF S ok cur _ f] by auto
  then show ?thesis using join_fold_ok [OF _ _ j] by auto
qed

text \<open>Saving a group whose members are the ones in the store.\<close>

lemma save_same_ok:
  assumes ok: "db_ok S db" and cur: "current db g0"
    and db': "db' = db \<or> db_groups db' = dict_set (ag_id g0) (bump_group env g) (db_groups db) \<and> db_members db' = db_members db"
    and g: "group_ok S g" "ag_id g = ag_id g0" "\<not> ag_dissolved g" "set (member_ids g) = set (member_ids g0)"
  shows "db_ok S db'"
proof (cases "db' = db")
  case False
  show ?thesis
    using ok
  proof (rule db_ok_same_members [where g = "bump_group env g" and g0 = g0])
    show "map_of (db_groups db) (ag_id (bump_group env g)) = Some g0" "\<not> ag_dissolved g0"
      using cur g by (simp_all add: current_def)
  qed (use g db' False in simp_all)
qed (use ok in simp)

lemma current_group_ok: "db_ok S db \<Longrightarrow> current db g \<Longrightarrow> group_ok S g"
  using db_ok_group(2) [of S db "ag_id g" g] by (simp add: current_def)

lemma group_ok_settings:
  "group_ok S g \<Longrightarrow> ag_members g' = ag_members g \<Longrightarrow> ag_leader g' = ag_leader g \<Longrightarrow> ag_tasks g' = ag_tasks g
    \<Longrightarrow> group_ok S g'"
  by (simp add: group_ok_def leader_ok_def board_ok_def member_ids_def split: option.splits)


lemma configure_group_ok:
  assumes ok: "db_ok S db" and S: "S \<subseteq> {InProgress, Done}"
    and c: "configure_group env gid rv name obj b layout db = Inr (db', g')"
  shows "db_ok S db'"
proof -
  obtain g g1 db1 where g: "read_group db gid None = Inr g"
      and r: "(case (b, layout) of (Some b, Some nodes) \<Rightarrow> reconcile env g b nodes db | _ \<Rightarrow> Inr (g, db)) = Inr (g1, db1)"
      and fin: "db' = db1 \<or> db_groups db' = dict_set (ag_id g1) (bump_group env (g1\<lparr>ag_name := opt_or name (ag_name g1),
          ag_objective := opt_or obj (ag_objective g1), ag_bounds := opt_or b (ag_bounds g1)\<rparr>)) (db_groups db1)
          \<and> db_members db' = db_members db1"
    using c by (auto simp: configure_group_def Let_def split_beta split: if_splits)
  have "current db g" using read_group_current [OF ok g] by simp
  then have 1: "db_ok S db1" "current db1 g1"
    using r reconcile_ok [OF ok _ S] ok by (auto split: option.splits)
  let ?g = "g1\<lparr>ag_name := opt_or name (ag_name g1), ag_objective := opt_or obj (ag_objective g1), ag_bounds := opt_or b (ag_bounds g1)\<rparr>"
  have "group_ok S ?g" using current_group_ok [OF 1] by (rule group_ok_settings) simp_all
  then show ?thesis
    by (rule save_same_ok [OF 1 fin]) (use 1 in \<open>simp_all add: current_def member_ids_def\<close>)
qed

lemma update_plan_ok:
  assumes ok: "db_ok S db" and c: "update_plan env gid ex plan db = Inr (db', g')"
  shows "db_ok S db'"
proof -
  obtain g where g: "read_group db gid None = Inr g"
      and fin: "db' = db \<or> db_groups db' = dict_set (ag_id g) (bump_group env (g\<lparr>ag_name := fst plan, ag_objective := snd plan\<rparr>)) (db_groups db)
        \<and> db_members db' = db_members db"
    using c by (auto simp: update_plan_def Let_def split_beta split: if_splits)
  have cur: "current db g" using read_group_current [OF ok g] by simp
  have "group_ok S (g\<lparr>ag_name := fst plan, ag_objective := snd plan\<rparr>)"
    using current_group_ok [OF ok cur] by (rule group_ok_settings) simp_all
  then show ?thesis
    by (rule save_same_ok [OF ok cur fin]) (use cur in \<open>simp_all add: current_def member_ids_def\<close>)
qed

lemma gm_node_set_role: "map gm_node (set_role node role ms) = map gm_node ms"
  by (induction ms) (auto simp: set_role_def)

lemma update_role_ok:
  assumes ok: "db_ok S db" and c: "update_role env gid node ex role db = Inr (db', g')"
  shows "db_ok S db'"
proof -
  obtain g where g: "read_group db gid None = Inr g"
      and fin: "db' = db \<or> db_groups db' = dict_set (ag_id g) (bump_group env (g\<lparr>ag_members := set_role node role (ag_members g)\<rparr>)) (db_groups db)
        \<and> db_members db' = db_members db"
    using c by (auto simp: update_role_def Let_def split_beta split: if_splits option.splits)
  have cur: "current db g" using read_group_current [OF ok g] by simp
  let ?g = "g\<lparr>ag_members := set_role node role (ag_members g)\<rparr>"
  have ids: "member_ids ?g = member_ids g" by (simp add: member_ids_def gm_node_set_role)
  have "group_ok S ?g" using current_group_ok [OF ok cur] ids
    by (auto simp: group_ok_def leader_ok_def board_ok_def set_role_def split: option.splits)
  then show ?thesis
    by (rule save_same_ok [OF ok cur fin]) (use cur ids in \<open>simp_all add: current_def\<close>)
qed

lemma set_leader_ok:
  assumes ok: "db_ok S db" and c: "set_leader env gid ex leader db = Inr (db', g')"
  shows "db_ok S db'"
proof -
  obtain g where g: "read_group db gid None = Inr g" and l: "leader \<in> set (member_ids g)"
      and fin: "db' = db \<or> db_groups db' = dict_set (ag_id g) (bump_group env (g\<lparr>ag_leader := Some leader\<rparr>)) (db_groups db)
        \<and> db_members db' = db_members db"
    using c by (auto simp: set_leader_def Let_def split_beta split: if_splits)
  have cur: "current db g" using read_group_current [OF ok g] by simp
  have "group_ok S (g\<lparr>ag_leader := Some leader\<rparr>)" using current_group_ok [OF ok cur] l
    by (auto simp: group_ok_def leader_ok_def board_ok_def member_ids_def)
  then show ?thesis
    by (rule save_same_ok [OF ok cur fin]) (use cur in \<open>simp_all add: current_def member_ids_def\<close>)
qed

lemma protect_ok:
  assumes ok: "db_ok S db" and c: "protect_member_history env node db = Inr db'"
  shows "db_ok S db'"
proof (cases "map_of (db_members db) node")
  case (Some gid)
  then obtain g where g: "read_group db gid None = Inr g"
      and fin: "db' = db \<or> db_groups db' = dict_set (ag_id g) (bump_group env (g\<lparr>ag_private := True\<rparr>)) (db_groups db)
        \<and> db_members db' = db_members db"
    using c by (auto simp: protect_member_history_def Let_def split_beta split: if_splits)
  have cur: "current db g" using read_group_current [OF ok g] by simp
  have "group_ok S (g\<lparr>ag_private := True\<rparr>)"
    using current_group_ok [OF ok cur] by (rule group_ok_settings) simp_all
  then show ?thesis
    by (rule save_same_ok [OF ok cur fin]) (use cur in \<open>simp_all add: current_def member_ids_def\<close>)
qed (use assms in \<open>simp add: protect_member_history_def\<close>)

lemma dissolve_ok:
  assumes ok: "db_ok S db" and c: "dissolve env gid rv db = Inr (db', g')"
  shows "db_ok S db'"
proof -
  obtain g where g: "read_group db gid None = Inr g"
      and fin: "db_groups db' = dict_set (ag_id g) (bump_group env (g\<lparr>ag_dissolved := True\<rparr>)) (db_groups db)"
        "db_members db' = filter (\<lambda>(n, k). k \<noteq> gid) (db_members db)"
    using c by (auto simp: dissolve_def Let_def split_beta split: if_splits)
  have id: "ag_id g = gid" using read_group_current [OF ok g] by simp
  have wf: "wf_dict (db_members db)" using ok by (simp add: db_ok_def)
  have look: "map_of (db_members db') n = Some k \<longleftrightarrow> k \<noteq> gid \<and> map_of (db_members db) n = Some k" for n k
  proof -
    have "map_of (db_members db') n = Some k \<longleftrightarrow> (n, k) \<in> set (db_members db')"
      using wf fin(2) by (intro map_of_eq_Some_iff) (simp add: wf_dict_def distinct_map_filter)
    also have "\<dots> \<longleftrightarrow> k \<noteq> gid \<and> (n, k) \<in> set (db_members db)" using fin(2) by auto
    also have "\<dots> \<longleftrightarrow> k \<noteq> gid \<and> map_of (db_members db) n = Some k"
      using wf by (simp add: wf_dict_def map_of_eq_Some_iff)
    finally show ?thesis .
  qed
  show ?thesis
    using ok
  proof (rule db_ok_update [where g = "bump_group env (g\<lparr>ag_dissolved := True\<rparr>)"])
    show "wf_dict (db_members db')" using wf fin(2) by simp
  qed (use fin(1) id look in simp_all)
qed


lemma create_group_task_ok:
  assumes ok: "db_ok S db" and S: "S \<subseteq> {InProgress, Done}"
    and c: "create_group_task env gid cmd actor db = Inr (db', t)"
    and fresh: "\<And>g. map_of (db_groups db) gid = Some g \<Longrightarrow> ge_uuid env \<notin> gt_id ` set (ag_tasks g)"
  shows "db_ok S db'"
  using c
proof (rule create_group_task_Inr)
  fix g
  assume g: "read_group db gid actor = Inr g" and t: "t = new_task env cmd" and v: "validate_task g t = Inr ()"
    and fin: "db_groups db' = dict_set (ag_id g) (bump_group env (g\<lparr>ag_tasks := ag_tasks g @ [t]\<rparr>)) (db_groups db)"
      "db_members db' = db_members db"
  have cur: "current db g" using read_group_current [OF ok g] by simp
  have gok: "group_ok S g" using ok cur by (rule current_group_ok)
  have "board_ok S (bump_group env (g\<lparr>ag_tasks := ag_tasks g @ [t]\<rparr>))"
    using gok v fresh [OF read_group_Inr(1) [OF g]] S unfolding t
    by (intro board_ok_create) (simp_all add: group_ok_def)
  then have "group_ok S (g\<lparr>ag_tasks := ag_tasks g @ [t]\<rparr>)"
    using gok by (simp add: group_ok_def member_ids_def leader_ok_def split: option.splits)
  then show ?thesis
    by (rule save_same_ok [OF ok cur disjI2 [OF conjI [OF fin]]]) (use cur in \<open>simp_all add: current_def member_ids_def\<close>)
qed

lemma update_group_task_ok:
  assumes ok: "db_ok S db" and S: "S \<subseteq> {InProgress, Done}"
    and c: "update_group_task env gid tid cmd actor db = Inr (db', t)"
  shows "db_ok S db'"
  using c
proof (cases rule: update_group_task_Inr)
  case same
  then show ?thesis using ok by simp
next
  case (changed g cur cand)
  have curr: "current db g" using read_group_current [OF ok changed(1)] by simp
  have gok: "group_ok S g" using ok curr by (rule current_group_ok)
  have "board_ok S (bump_group env (g\<lparr>ag_tasks := replace_task t (ag_tasks g)\<rparr>))"
    using board_ok_update [OF _ changed(2,4,5,6,7) S] gok by (simp add: group_ok_def)
  then have "group_ok S (g\<lparr>ag_tasks := replace_task t (ag_tasks g)\<rparr>)"
    using gok by (simp add: group_ok_def member_ids_def leader_ok_def split: option.splits)
  then show ?thesis
    by (rule save_same_ok [OF ok curr disjI2 [OF conjI [OF changed(8,9)]]])
      (use curr in \<open>simp_all add: current_def member_ids_def\<close>)
qed

lemma insert_members_Inr:
  "rfold (\<lambda>m. insert_member (gm_node m) gid) ms db = Inr db' \<Longrightarrow>
     db' = db\<lparr>db_members := db_members db @ map (\<lambda>m. (gm_node m, gid)) ms\<rparr>"
proof (induction ms arbitrary: db)
  case (Cons m ms)
  then obtain db1 where "insert_member (gm_node m) gid db = Inr db1" "rfold (\<lambda>m. insert_member (gm_node m) gid) ms db1 = Inr db'"
    by auto
  with Cons.IH show ?case by (fastforce simp: insert_member_Inr)
qed simp

lemma create_agent_group_ok:
  assumes ok: "db_ok S db" and c: "create_agent_group env cmd private db = Inr (db', g)" and v: "create_group_ok cmd"
    and fresh: "map_of (db_groups db) (ge_uuid env) = None"
  shows "db_ok S db'"
proof -
  have new: "\<forall>m \<in> set (cg_members cmd). map_of (db_members db) (gm_node m) = None"
    using c by (auto simp: create_agent_group_def Let_def list_ex_iff dict_has_iff split: if_splits)
  have g: "ag_id g = ge_uuid env" "ag_members g = cg_members cmd" "ag_leader g = first_member (cg_members cmd)"
      "ag_tasks g = []" "\<not> ag_dissolved g"
    and groups: "db_groups db' = dict_set (ag_id g) g (db_groups db)"
    and mem: "db_members db' = db_members db @ map (\<lambda>m. (gm_node m, ag_id g)) (cg_members cmd)"
    using c by (auto simp: create_agent_group_def Let_def split: if_splits dest!: insert_members_Inr)
  have d: "distinct (map gm_node (cg_members cmd))" "cg_members cmd \<noteq> []" using v by (simp_all add: create_group_ok_def)
  have "group_ok S g" using d g
    by (cases "cg_members cmd") (auto simp: group_ok_def leader_ok_def board_ok_def member_ids_def first_member_def task_tab_def
        deps_closed_def deps_acyclic_def dep_edge_def tranclp_unfold_left)
  then have gok: "ag_dissolved g \<or> group_ok S g" by simp
  have look: "map_of (db_members db') n = (if n \<in> gm_node ` set (cg_members cmd) then Some (ag_id g) else map_of (db_members db) n)" for n
  proof -
    have "map_of (map (\<lambda>m. (gm_node m, k)) ms) n = (if n \<in> gm_node ` set ms then Some k else None)" for k :: string and ms :: "group_member list"
      by (induction ms) auto
    then show ?thesis using new by (auto simp: mem map_add_def split: option.splits)
  qed
  have none: "map_of (db_members db) n \<noteq> Some (ag_id g)" for n
    using ok fresh g(1) by (auto simp: db_ok_def is_member_def)
  show ?thesis
    using ok gok groups
  proof (rule db_ok_update)
    have "wf_dict (db_members db)" using ok by (simp add: db_ok_def)
    then show "wf_dict (db_members db')" using d new
      unfolding mem wf_dict_def map_of_eq_None_iff by (fastforce simp: comp_def image_iff)
    show "map_of (db_members db') n = Some k \<longleftrightarrow> map_of (db_members db) n = Some k" if "k \<noteq> ag_id g" for n k
      using that new by (auto simp: look)
    show "map_of (db_members db') n = Some (ag_id g) \<longleftrightarrow> \<not> ag_dissolved g \<and> n \<in> set (member_ids g)" for n
      using none g by (auto simp: look member_ids_def)
  qed
qed

lemma node_departure_ok:
  assumes ok: "db_ok S db" and S: "S \<subseteq> {InProgress, Done}" and c: "node_departure env node reason db = Inr (db', r)"
  shows "db_ok S db'"
proof (cases "map_of (db_members db) node")
  case (Some gid)
  then obtain g where g: "read_group db gid None = Inr g" and db': "db' = snd (detach_member env g node reason db)"
    using c by (auto simp: node_departure_def split: option.splits)
  have "current db g \<and> ag_id g = gid" using ok g by (rule read_group_current)
  then show ?thesis using detach_member_ok [OF ok _ S, of g node env reason] Some db' by simp
qed (use assms in \<open>simp add: node_departure_def\<close>)

lemma move_member_ok:
  assumes ok: "db_ok S db" and S: "S \<subseteq> {InProgress, Done}"
    and c: "move_member env node target ex role private db = Inr (db', r)"
  shows "db_ok S db'"
proof -
  obtain tg where tg: "(case target of None \<Rightarrow> Inr None | Some tid \<Rightarrow> rbind (read_group db tid None) (\<lambda>g. Inr (Some g))) = Inr tg"
    using c by (auto simp: move_member_def Let_def split: if_splits)
  have target: "tg = None \<or> (\<exists>g tid. tg = Some g \<and> target = Some tid \<and> current db g \<and> ag_id g = tid)"
    using tg read_group_current [OF ok] by (auto split: option.splits)
  show ?thesis
  proof (cases "map_of (db_members db) node = target")
    case True
    then show ?thesis using c tg ok by (auto simp: move_member_def Let_def split: if_splits)
  next
    case False
    let ?src = "case map_of (db_members db) node of None \<Rightarrow> Inr db
        | Some sid \<Rightarrow> rbind (read_group db sid None) (\<lambda>g. Inr (snd (detach_member env g node ''left'' db)))"
    obtain db1 where src: "?src = Inr db1"
        and fin: "(case tg of None \<Rightarrow> Inr (db1, None) | Some g \<Rightarrow>
          rbind (join_member env \<lparr>gm_node = node, gm_role = role\<rparr> private (g, db1)) (\<lambda>(g2, db2). Inr (db2, Some g2))) = Inr (db', r)"
      using c tg False by (auto simp: move_member_def Let_def split: if_splits)
    have db1: "db_ok S db1 \<and> (\<forall>g. tg = Some g \<longrightarrow> current db1 g)"
    proof (cases "map_of (db_members db) node")
      case None
      then show ?thesis using src ok target by auto
    next
      case (Some sid)
      then obtain g where g: "read_group db sid None = Inr g" "db1 = snd (detach_member env g node ''left'' db)"
        using src by auto
      have cur: "current db g \<and> ag_id g = sid" using ok g(1) by (rule read_group_current)
      then show ?thesis using detach_member_ok [OF ok _ S, of g node env "''left''"] Some g(2) target False
        by (auto simp: current_def detach_member_groups)
    qed
    show ?thesis
    proof (cases tg)
      case None
      then show ?thesis using fin db1 by simp
    next
      case (Some g)
      then obtain g2 where "join_member env \<lparr>gm_node = node, gm_role = role\<rparr> private (g, db1) = Inr (g2, db')"
        using fin by auto
      then show ?thesis using join_member_ok [of S db1 g] db1 Some by blast
    qed
  qed
qed


text \<open>The snapshot that a departure returned: open tasks of the node, with the dependencies they still
  have on the board.\<close>

definition genuine_snapshot :: "group_db \<Rightarrow> deleted_member \<Rightarrow> bool" where
  "genuine_snapshot db saved \<longleftrightarrow> list_all (\<lambda>t. owned_open (gm_node (dm_member saved)) t
     \<and> (case map_of (db_groups db) (dm_group saved) of None \<Rightarrow> True
        | Some g \<Rightarrow> list_all (\<lambda>cur. gt_id cur = gt_id t \<longrightarrow> gt_deps cur = gt_deps t) (ag_tasks g))) (dm_tasks saved)"

definition restorable :: "string \<Rightarrow> agent_group \<Rightarrow> group_task \<Rightarrow> bool" where
  "restorable node g t \<longleftrightarrow> owned_open node t
     \<and> (\<exists>cur \<in> set (ag_tasks g). gt_id cur = gt_id t \<and> gt_deps cur = gt_deps t \<and> gt_status cur = Blocked)"

lemma restore_task_ok:
  assumes g: "group_ok {Done} g" "node \<in> set (member_ids g)" and r: "restorable node g t"
  shows "group_ok {Done} (restore_task env t g) \<and> member_ids (restore_task env t g) = member_ids g
    \<and> (\<forall>u. gt_id u \<noteq> gt_id t \<longrightarrow> restorable node g u \<longrightarrow> restorable node (restore_task env t g) u)
    \<and> ag_id (restore_task env t g) = ag_id g \<and> ag_dissolved (restore_task env t g) = ag_dissolved g"
proof -
  have d: "distinct (map gt_id (ag_tasks g))" using g by (simp add: group_ok_def board_ok_def)
  obtain cur where cur: "cur \<in> set (ag_tasks g)" "gt_id cur = gt_id t" "gt_deps cur = gt_deps t" "gt_status cur = Blocked"
    using r by (auto simp: restorable_def)
  define c where "c = t\<lparr>gt_revision := gt_revision cur + 1, gt_updated := ge_now env\<rparr>"
  have "map_of (task_tab (ag_tasks g)) (gt_id t) = Some cur" using map_of_task_tab [OF d] cur by simp
  then have eq: "restore_task env t g = g\<lparr>ag_tasks := replace_task c (ag_tasks g)\<rparr>"
    by (simp add: restore_task_def task_tab_fold [OF d] c_def)
  have uniq: "x = cur" if "x \<in> set (ag_tasks g)" "gt_id x = gt_id t" for x
    using d that cur by (metis distinct_map inj_on_def)
  have "board_ok {Done} (restore_task env t g)"
  proof (rule board_ok_map)
    show "board_ok {Done} g" using g by (simp add: group_ok_def)
    show "ag_tasks (restore_task env t g) = map (\<lambda>x. if gt_id x = gt_id c then c else x) (ag_tasks g)"
      by (simp add: eq replace_task_def)
    show "gt_id (if gt_id x = gt_id c then c else x) = gt_id x \<and> gt_deps (if gt_id x = gt_id c then c else x) = gt_deps x
        \<and> (gt_status (if gt_id x = gt_id c then c else x) = Done \<longleftrightarrow> gt_status x = Done)" if "x \<in> set (ag_tasks g)" for x
      using uniq [OF that] cur r by (auto simp: c_def restorable_def owned_open_def)
    show "task_ok {Done} (member_ids (restore_task env t g)) tab (if gt_id x = gt_id c then c else x)"
      if "x \<in> set (ag_tasks g)" "task_ok {Done} (member_ids g) tab x" for x tab
      using that uniq [OF that(1)] cur r g(2) by (auto simp: task_ok_def c_def restorable_def owned_open_def eq member_ids_def)
  qed
  moreover have "restorable node (restore_task env t g) u" if "gt_id u \<noteq> gt_id t" "restorable node g u" for u
    using that by (fastforce simp: restorable_def eq replace_task_def c_def)
  ultimately show ?thesis using g
    by (auto simp: group_ok_def leader_ok_def eq member_ids_def split: option.splits)
qed

lemma restore_tasks_ok:
  "group_ok {Done} g \<Longrightarrow> node \<in> set (member_ids g) \<Longrightarrow> distinct (map gt_id ts) \<Longrightarrow> \<forall>t \<in> set ts. restorable node g t
    \<Longrightarrow> group_ok {Done} (fold (restore_task env) ts g) \<and> member_ids (fold (restore_task env) ts g) = member_ids g
      \<and> ag_id (fold (restore_task env) ts g) = ag_id g \<and> ag_dissolved (fold (restore_task env) ts g) = ag_dissolved g"
proof (induction ts arbitrary: g)
  case (Cons t ts)
  have r: "restorable node g t" using Cons.prems by simp
  note s = restore_task_ok [OF Cons.prems(1,2) r, of env]
  have "\<forall>u \<in> set ts. restorable node (restore_task env t g) u"
    using s Cons.prems(3,4) by (metis (no_types, lifting) distinct.simps(2) image_eqI list.set_intros(2) list.set_map list.simps(9))
  then show ?case using Cons.IH [of "restore_task env t g"] s Cons.prems by simp
qed simp

lemma restore_deleted_member_ok:
  assumes ok: "db_ok {Done} db" and c: "restore_deleted_member env (Some saved) db = Inr db'"
    and gen: "genuine_snapshot db saved"
  shows "db_ok {Done} db'"
proof -
  let ?n = "gm_node (dm_member saved)"
  obtain g where g: "read_group db (dm_group saved) None = Inr g" and new: "map_of (db_members db) ?n = None"
      and rel: "list_all (released_unchanged g) (dm_tasks saved)" and dis: "distinct (map gt_id (dm_tasks saved))"
      and groups: "db_groups db' = dict_set (ag_id (fold (restore_task env) (dm_tasks saved) (with_member (dm_member saved) False g)))
          (bump_group env (fold (restore_task env) (dm_tasks saved) (with_member (dm_member saved) False g))) (db_groups db)"
      and mem: "db_members db' = db_members db @ [(?n, ag_id (fold (restore_task env) (dm_tasks saved) (with_member (dm_member saved) False g)))]"
    using c by (auto simp: restore_deleted_member_def Let_def split_beta insert_member_Inr dict_has_iff list_ex_iff list_all_iff
        split: if_splits)
  let ?g1 = "with_member (dm_member saved) False g" 
  let ?g2 = "fold (restore_task env) (dm_tasks saved) ?g1"
  have cur: "current db g" "ag_id g = dm_group saved" using read_group_current [OF ok g] by simp_all
  then have old: "map_of (db_groups db) (ag_id g) = Some g" "\<not> ag_dissolved g" by (simp_all add: current_def)
  have gok: "group_ok {Done} g" using db_ok_group(2) [OF ok old] .
  have nin: "?n \<notin> set (member_ids g)" using db_ok_group(3) [OF ok old, of ?n] new by simp
  have d: "distinct (map gt_id (ag_tasks g))" using gok by (simp add: group_ok_def board_ok_def)
  have "restorable ?n ?g1 t" if t: "t \<in> set (dm_tasks saved)" for t
  proof -
    obtain c where c: "map_of (task_tab (ag_tasks g)) (gt_id t) = Some c" "gt_status c = Blocked"
      using rel t by (auto simp: list_all_iff released_unchanged_def task_tab_fold [OF d] split: option.splits)
    then have "c \<in> set (ag_tasks g)" "gt_id c = gt_id t" using map_of_task_tab [OF d] by auto
    then show ?thesis using gen t c cur old by (auto simp: genuine_snapshot_def list_all_iff restorable_def)
  qed
  then have r: "group_ok {Done} ?g2" "member_ids ?g2 = member_ids g @ [?n]" "ag_id ?g2 = ag_id g" "\<not> ag_dissolved ?g2"
    using restore_tasks_ok [OF group_ok_with_member [OF gok nin, of False], where node = ?n and ts = "dm_tasks saved" and env = env] dis old(2) by simp_all
  show ?thesis
    using ok
  proof (rule db_ok_update [where g = "bump_group env ?g2"])
    show "wf_dict (db_members db')" using ok new by (simp add: mem wf_dict_snoc db_ok_def)
    show "map_of (db_members db') n = Some k \<longleftrightarrow> map_of (db_members db) n = Some k" if "k \<noteq> ag_id (bump_group env ?g2)" for n k
      using that new unfolding mem map_of_snoc [OF new] by (auto simp: r(3))
    show "map_of (db_members db') n = Some (ag_id (bump_group env ?g2))
        \<longleftrightarrow> \<not> ag_dissolved (bump_group env ?g2) \<and> n \<in> set (member_ids (bump_group env ?g2))" for n
      using db_ok_group(3) [OF ok old, of n] r(4) unfolding mem map_of_snoc [OF new] by (auto simp: r(2,3))
  qed (use r groups in simp_all)
qed

end
