(* ===== verification/GroupLog.thy ===== *)
theory GroupLog
  imports GroupMembers "HOL-Library.Sublist"
begin

text \<open>
  The history of a group: renaming a node through all of it (\<open>node_rename\<close> in
  \<open>node_lifecycle.py\<close>), messages (\<open>messages.py\<close>), the outbox of deliveries
  (\<open>delivery.py\<close>) and the paged views of the board (\<open>board_read.py\<close>). A foreign key with \<open>ON UPDATE CASCADE\<close>
  keeps \<open>delivery_progress\<close> in step with a renamed delivery.
\<close>

section \<open>Renaming a node\<close>

definition IDENTITY_FIELDS :: "string list" where
  "IDENTITY_FIELDS = [''node_id'', ''owner_id'', ''actor_id'', ''recipient_id'', ''leader_id'']"

fun rename_references :: "string \<Rightarrow> string \<Rightarrow> pyval \<Rightarrow> pyval" where
  "rename_references old new (PList xs) = PList (map (rename_references old new) xs)"
| "rename_references old new (PDict d) = PDict (map (\<lambda>(k, v).
     (k, if k \<in> set IDENTITY_FIELDS \<and> v = PStr old then PStr new else rename_references old new v)) d)"
| "rename_references old new v = v"

definition subst_name :: "string \<Rightarrow> string \<Rightarrow> string \<Rightarrow> string" where
  "subst_name old new n = (if n = old then new else n)"

definition rename_member :: "string \<Rightarrow> string \<Rightarrow> group_member \<Rightarrow> group_member" where
  "rename_member old new m = m\<lparr>gm_node := subst_name old new (gm_node m)\<rparr>"

definition rename_task :: "string \<Rightarrow> string \<Rightarrow> group_task \<Rightarrow> group_task" where
  "rename_task old new t = t\<lparr>gt_owner := map_option (subst_name old new) (gt_owner t)\<rparr>"

definition rename_group :: "string \<Rightarrow> string \<Rightarrow> agent_group \<Rightarrow> agent_group" where
  "rename_group old new g = g\<lparr>ag_members := map (rename_member old new) (ag_members g),
     ag_leader := map_option (subst_name old new) (ag_leader g), ag_tasks := map (rename_task old new) (ag_tasks g)\<rparr>"

definition rename_saved :: "group_env \<Rightarrow> string \<Rightarrow> string \<Rightarrow> agent_group \<Rightarrow> agent_group" where
  "rename_saved env old new g = (let h = rename_group old new g in
     if h = g then g
     else bump_group env (h\<lparr>ag_tasks := map (\<lambda>t. let u = rename_task old new t in
       if gt_owner t \<noteq> gt_owner u then u\<lparr>gt_revision := gt_revision u + 1, gt_updated := ge_now env\<rparr> else u) (ag_tasks g)\<rparr>))"

definition rename_event :: "string \<Rightarrow> string \<Rightarrow> group_event \<Rightarrow> group_event" where
  "rename_event old new e = e\<lparr>ev_actor := map_option (subst_name old new) (ev_actor e),
     ev_payload := dict_items (rename_references old new (PDict (ev_payload e)))\<rparr>"

definition rename_command :: "string \<Rightarrow> string \<Rightarrow> publish_message \<Rightarrow> publish_message" where
  "rename_command old new c = c\<lparr>pm_recipient := map_option (subst_name old new) (pm_recipient c),
     pm_attachments := map (\<lambda>a. dict_items (rename_references old new (PDict a))) (pm_attachments c)\<rparr>"

definition rename_request :: "string \<Rightarrow> string \<Rightarrow> message_request \<Rightarrow> message_request" where
  "rename_request old new r = r\<lparr>mr_actor := subst_name (''node:'' @ old) (''node:'' @ new) (mr_actor r),
     mr_command := rename_command old new (mr_command r)\<rparr>"

definition node_rename :: "group_env \<Rightarrow> string \<Rightarrow> string \<Rightarrow> group_db \<Rightarrow> group_db group_res" where
  "node_rename env old new db = (if old = new then Inr db
     else if dict_has (db_members db) new \<or> list_ex (\<lambda>d. dl_node d = new) (db_deliveries db)
          \<or> list_ex (\<lambda>e. ev_actor e = Some new) (db_events db)
     then Inl (GroupConflict ''target name already identifies a member in group history'')
     else let groups = map (\<lambda>(k, g). (k, rename_saved env old new g)) (db_groups db);
              changed = (case map_of (db_members db) old of None \<Rightarrow> None
                | Some gid \<Rightarrow> (case map_of (db_groups db) gid of None \<Rightarrow> None
                    | Some g \<Rightarrow> if rename_group old new g = g then None else Some (rename_saved env old new g)));
              db1 = db\<lparr>db_groups := groups,
                db_members := map (\<lambda>(n, k). (subst_name old new n, k)) (db_members db),
                db_deliveries := map (\<lambda>d. d\<lparr>dl_node := subst_name old new (dl_node d)\<rparr>) (db_deliveries db),
                db_progress := map (\<lambda>(s, n, t). (s, subst_name old new n, t)) (db_progress db),
                db_events := map (rename_event old new) (db_events db),
                db_requests := map (rename_request old new) (db_requests db)\<rparr>
          in Inr (case changed of None \<Rightarrow> db1
             | Some g \<Rightarrow> snd (add_event env g ''member_renamed'' None
                 [(''old_node_id'', PStr old), (''node_id'', PStr new)] [] False db1)))"

section \<open>Messages\<close>

definition actor_key :: "string option \<Rightarrow> string" where
  "actor_key actor = (case actor of None \<Rightarrow> ''user'' | Some a \<Rightarrow> ''node:'' @ a)"

definition find_request :: "group_db \<Rightarrow> string \<Rightarrow> string \<Rightarrow> string \<Rightarrow> message_request option" where
  "find_request db gid key rid = List.find (\<lambda>r. mr_group r = gid \<and> mr_actor r = key \<and> mr_request r = rid) (db_requests db)"

text \<open>A message without recipient and without a reason for a broadcast.\<close>

definition undirected :: "publish_message \<Rightarrow> bool" where
  "undirected c \<longleftrightarrow> pm_intent c = Action \<and> pm_recipient c = None \<and> py_strip (pm_reason c) = []"

definition publish :: "group_env \<Rightarrow> string \<Rightarrow> publish_message \<Rightarrow> string option \<Rightarrow> group_db \<Rightarrow> (group_db \<times> group_event) group_res" where
  "publish env gid c actor db = rbind (read_group db gid actor) (\<lambda>g. let members = member_ids g in
     rbind (raise_if (case pm_recipient c of None \<Rightarrow> False | Some r \<Rightarrow> r \<notin> set members)
        (GroupPermissionError ''recipient must be a current group member'')) (\<lambda>_.
     rbind (raise_if (pm_recipient c \<noteq> None \<and> pm_recipient c = actor)
        (GroupConflict ''send to a teammate, not yourself'')) (\<lambda>_.
     rbind (raise_if (actor \<noteq> None \<and> undirected c) (GroupConflict ''peer actions require recipient_id'')) (\<lambda>_.
     case find_request db gid (actor_key actor) (pm_request c) of
       Some previous \<Rightarrow>
         if mr_command previous \<noteq> c then Inl (GroupConflict ''request_id was already used for another message'')
         else (case event_of db (mr_seq previous) of None \<Rightarrow> Inl GroupKeyError | Some e \<Rightarrow> Inr (db, e))
     | None \<Rightarrow>
         rbind (if actor = None \<and> undirected c
                then (case ag_leader g of None \<Rightarrow> Inl (GroupConflict ''no leader to receive the message'')
                      | Some l \<Rightarrow> if l \<notin> set members then Inl (GroupConflict ''no leader to receive the message'') else Inr (Some l))
                else Inr (pm_recipient c)) (\<lambda>recipient.
         let recipients = (if pm_intent c = Update then [] else case recipient of Some r \<Rightarrow> [r] | None \<Rightarrow> members);
             (ev, db1) = add_event env g (if pm_intent c = Update then ''update'' else ''message'') actor
               [(''text'', PStr (pm_text c)), (''recipient_id'', opt_val recipient), (''intent'', PStr (intent_str (pm_intent c))),
                (''broadcast_reason'', PStr (pm_reason c)), (''attachments'', PList (map PDict (pm_attachments c)))] recipients False db
         in Inr (db1\<lparr>db_requests := db_requests db1 @ [\<lparr>mr_group = gid, mr_actor = actor_key actor, mr_request = pm_request c,
                   mr_command = c, mr_seq = ev_seq ev\<rparr>]\<rparr>, ev))))))"

section \<open>Deliveries\<close>

definition access_role_of :: "group_event \<Rightarrow> pyval" where
  "access_role_of e = get (ev_payload e) ''_access_role''"

record delivery_batch =
  bt_group :: string
  bt_node :: string
  bt_role :: pyval
  bt_seqs :: "int list"

fun add_batch :: "group_event \<times> delivery \<Rightarrow> delivery_batch list \<Rightarrow> delivery_batch list" where
  "add_batch (e, d) bs = (if list_ex (\<lambda>b. bt_group b = ev_group e \<and> bt_node b = dl_node d \<and> bt_role b = access_role_of e) bs
     then bs else bs @ [\<lparr>bt_group = ev_group e, bt_node = dl_node d, bt_role = access_role_of e, bt_seqs = [ev_seq e]\<rparr>])"

definition batches :: "group_db \<Rightarrow> nat \<Rightarrow> delivery_batch list" where
  "batches db limit = fold add_batch (pending_deliveries db limit) []"

definition pending_for :: "group_db \<Rightarrow> string \<Rightarrow> string \<Rightarrow> group_event list" where
  "pending_for db gid node = sort_key ev_seq (map fst (filter (\<lambda>(e, d). ev_group e = gid \<and> dl_node d = node) (pending_rows db)))"

definition is_task_event :: "group_event \<Rightarrow> bool" where
  "is_task_event e \<longleftrightarrow> ev_kind e = ''task_created'' \<or> ev_kind e = ''task_updated''"

definition action_tasks_of :: "group_event \<Rightarrow> string \<Rightarrow> pyval list group_res" where
  "action_tasks_of e node = (case map_of (dict_items (get (ev_payload e) ''action_tasks'')) node of
      None \<Rightarrow> Inl GroupKeyError | Some v \<Rightarrow> Inr (list_items v))"

fun any_ready :: "agent_group \<Rightarrow> string \<Rightarrow> pyval list \<Rightarrow> group_task list \<Rightarrow> bool group_res" where
  "any_ready g node ids [] = Inr False"
| "any_ready g node ids (t # ts) = (if PStr (gt_id t) \<in> set ids \<and> gt_owner t = Some node
     then rbind (ready g t) (\<lambda>r. if r then Inr True else any_ready g node ids ts)
     else any_ready g node ids ts)"

definition cancel_delivery :: "int \<Rightarrow> string \<Rightarrow> group_db \<Rightarrow> group_db" where
  "cancel_delivery seq node db = update_pending (\<lambda>d. dl_seq d = seq \<and> dl_node d = node) cancel db"

definition resolve_row ::
    "string \<Rightarrow> agent_group option \<Rightarrow> group_event \<Rightarrow> group_db \<times> group_event list \<Rightarrow> (group_db \<times> group_event list) group_res" where
  "resolve_row node home e acc = (let (db, resolved) = acc in case home of
      None \<Rightarrow> Inr (cancel_delivery (ev_seq e) node db, resolved)
    | Some g \<Rightarrow>
        if is_task_event e then
          rbind (action_tasks_of e node) (\<lambda>ids.
          rbind (any_ready g node ids (ag_tasks g)) (\<lambda>r.
          Inr (if r then (db, resolved @ [e]) else (cancel_delivery (ev_seq e) node db, resolved))))
        else Inr (db, resolved @ [e]))"

definition resolve :: "string \<Rightarrow> string \<Rightarrow> int list \<Rightarrow> group_db \<Rightarrow> (group_db \<times> group_event list) group_res" where
  "resolve node gid seqs db = (let anchors = filter (\<lambda>e. ev_seq e \<in> set seqs) (pending_for db gid node) in
     if anchors = [] then Inr (db, [])
     else let roles = remdups (map access_role_of anchors) in
       if length roles \<noteq> 1 then Inl (GroupValueError ''group notification anchors must share an access context'')
       else let rows = take 100 (filter (\<lambda>e. access_role_of e = hd roles) (pending_for db gid node)) in
         rbind (if map_of (db_members db) node = Some gid then rbind (read_group db gid None) (\<lambda>g. Inr (Some g)) else Inr None) (\<lambda>home.
         rfold (resolve_row node home) rows (db, [])))"

definition mark_started :: "group_env \<Rightarrow> string \<Rightarrow> group_event list \<Rightarrow> group_db \<Rightarrow> group_db" where
  "mark_started env node events db = db\<lparr>db_progress := fold (\<lambda>e ps.
     if list_ex (\<lambda>(s, n, t). s = ev_seq e \<and> n = node) ps then ps else ps @ [(ev_seq e, node, ge_now env)]) events (db_progress db)\<rparr>"

definition user_followups :: "string \<Rightarrow> string \<Rightarrow> int list \<Rightarrow> pyval \<Rightarrow> group_db \<Rightarrow> group_event list group_res" where
  "user_followups node gid known role db = rbind (read_group db gid (Some node)) (\<lambda>_.
     Inr (take 16 (filter (\<lambda>e. ev_kind e = ''message'' \<and> ev_actor e = None \<and> access_role_of e = role \<and> ev_seq e \<notin> set known)
       (pending_for db gid node))))"

definition is_pending :: "group_db \<Rightarrow> int \<Rightarrow> string \<Rightarrow> bool" where
  "is_pending db seq node \<longleftrightarrow> list_ex (\<lambda>d. dl_seq d = seq \<and> dl_node d = node \<and> dl_state d = DPending) (db_deliveries db)"

definition is_user_event :: "group_db \<Rightarrow> string \<Rightarrow> group_event \<Rightarrow> bool" where
  "is_user_event db node e \<longleftrightarrow> ev_actor e = None
     \<and> (ev_kind e = ''message'' \<or> (is_task_event e \<and> dict_has (dict_items (get (ev_payload e) ''action_tasks'')) node))
     \<and> is_pending db (ev_seq e) node"

definition reply_tasks :: "string \<Rightarrow> group_event list \<Rightarrow> string list" where
  "reply_tasks node es = sort (remdups (concat (map (\<lambda>e. if ev_kind e = ''message'' then []
     else map py_str (list_items (get (dict_items (get (ev_payload e) ''action_tasks'')) node))) es)))"

definition mark_delivered :: "string \<Rightarrow> string option \<Rightarrow> group_event \<Rightarrow> group_db \<Rightarrow> group_db" where
  "mark_delivered node error e db = update_pending (\<lambda>d. dl_seq d = ev_seq e \<and> dl_node d = node)
     (\<lambda>d. d\<lparr>dl_state := DDelivered, dl_attempts := dl_attempts d + 1, dl_error := error\<rparr>) db"

definition complete_delivery ::
    "group_env \<Rightarrow> string \<Rightarrow> group_event list \<Rightarrow> string option \<Rightarrow> string option \<Rightarrow> group_db \<Rightarrow> group_db group_res" where
  "complete_delivery env node events error reply db = (let user_events = filter (is_user_event db node) events;
       text = (case reply of None \<Rightarrow> [] | Some r \<Rightarrow> r) in
     rbind (if text \<noteq> [] \<and> error = None \<and> user_events \<noteq> [] \<and> map_of (db_members db) node = Some (ev_group (hd events))
            then rbind (read_group db (ev_group (hd events)) None) (\<lambda>g.
              Inr (snd (add_event env g ''reply'' (Some node) [(''text'', PStr text),
                (''request_seqs'', PList (map (\<lambda>e. PInt (ev_seq e)) user_events)),
                (''task_ids'', strs_val (reply_tasks node user_events))] [] False db)))
            else Inr db) (\<lambda>db1.
     Inr (fold (mark_delivered node error) events db1)))"

definition latest_sequence :: "group_db \<Rightarrow> int" where
  "latest_sequence db = fold max (map ev_seq (db_events db)) 0"

section \<open>Paged views\<close>

record 'a page_view =
  pg_items :: "'a list"
  pg_total :: nat
  pg_next :: "nat option"

definition page :: "'a list \<Rightarrow> nat \<Rightarrow> nat \<Rightarrow> 'a page_view group_res" where
  "page values offset limit = (if length values < offset then Inl (GroupValueError ''offset is past the end'')
     else let stop = min (offset + limit) (length values) in
       Inr \<lparr>pg_items = take (stop - offset) (drop offset values), pg_total = length values,
            pg_next = (if stop < length values then Some stop else None)\<rparr>)"

definition check_revision :: "agent_group \<Rightarrow> int option \<Rightarrow> unit group_res" where
  "check_revision g revision = raise_if (case revision of None \<Rightarrow> False | Some r \<Rightarrow> r \<noteq> ag_revision g)
     (GroupConflict ''board changed; read group_board again before continuing'')"

record read_board =
  rb_task_offset :: nat
  rb_member_offset :: nat
  rb_limit :: nat
  rb_revision :: "int option"

definition read_board_ok :: "read_board \<Rightarrow> bool" where
  "read_board_ok c \<longleftrightarrow> 1 \<le> rb_limit c \<and> rb_limit c \<le> 10
     \<and> ((rb_task_offset c \<noteq> 0 \<or> rb_member_offset c \<noteq> 0) \<longrightarrow> rb_revision c \<noteq> None)"

record task_line =
  tl_id :: string
  tl_title :: string
  tl_status :: task_status
  tl_owner :: "string option"
  tl_revision :: int
  tl_description_chars :: nat
  tl_evidence_chars :: nat
  tl_dependency_count :: nat
  tl_unfinished :: nat

fun count_unfinished :: "(string \<times> task_status) list \<Rightarrow> string list \<Rightarrow> nat group_res" where
  "count_unfinished states [] = Inr 0"
| "count_unfinished states (d # ds) = (case map_of states d of None \<Rightarrow> Inl GroupKeyError
     | Some s \<Rightarrow> rbind (count_unfinished states ds) (\<lambda>n. Inr (n + (if s = Done then 0 else 1))))"

definition task_line_of :: "agent_group \<Rightarrow> group_task \<Rightarrow> task_line group_res" where
  "task_line_of g t = rbind (count_unfinished (fold (\<lambda>t. dict_set (gt_id t) (gt_status t)) (ag_tasks g) []) (gt_deps t)) (\<lambda>n.
     Inr \<lparr>tl_id = gt_id t, tl_title = gt_title t, tl_status = gt_status t, tl_owner = gt_owner t, tl_revision = gt_revision t,
       tl_description_chars = length (gt_description t), tl_evidence_chars = length (gt_evidence t),
       tl_dependency_count = length (gt_deps t), tl_unfinished = n\<rparr>)"

record board_view =
  bv_id :: string
  bv_name :: string
  bv_revision :: int
  bv_leader :: "string option"
  bv_objective_chars :: nat
  bv_members :: "(string \<times> nat) page_view"
  bv_tasks :: "task_line page_view"

definition board_overview :: "agent_group \<Rightarrow> read_board \<Rightarrow> board_view group_res" where
  "board_overview g c = rbind (check_revision g (rb_revision c)) (\<lambda>_.
     rbind (rmap (task_line_of g) (ag_tasks g)) (\<lambda>tasks.
     rbind (page (map (\<lambda>m. (gm_node m, length (gm_role m))) (ag_members g)) (rb_member_offset c) (rb_limit c)) (\<lambda>ms.
     rbind (page tasks (rb_task_offset c) (rb_limit c)) (\<lambda>ts.
     Inr \<lparr>bv_id = ag_id g, bv_name = ag_name g, bv_revision = ag_revision g, bv_leader = ag_leader g,
       bv_objective_chars = length (ag_objective g), bv_members = ms, bv_tasks = ts\<rparr>))))"

datatype board_section = Objective | MemberRole string | TaskDescription string | TaskEvidence string | TaskDependencies string

datatype detail_view = DetailText "char page_view" | DetailDeps "string page_view"

definition find_task :: "agent_group \<Rightarrow> string \<Rightarrow> group_task group_res" where
  "find_task g tid = (case List.find (\<lambda>t. gt_id t = tid) (ag_tasks g) of
      None \<Rightarrow> Inl (GroupNotFound ''task not found'') | Some t \<Rightarrow> Inr t)"

definition board_detail :: "agent_group \<Rightarrow> board_section \<Rightarrow> int \<Rightarrow> nat \<Rightarrow> nat \<Rightarrow> detail_view group_res" where
  "board_detail g section revision offset limit = rbind (check_revision g (Some revision)) (\<lambda>_.
     let text = (\<lambda>s. rbind (page s offset limit) (\<lambda>p. Inr (DetailText p))) in
     case section of
       Objective \<Rightarrow> text (ag_objective g)
     | MemberRole n \<Rightarrow> (case List.find (\<lambda>m. gm_node m = n) (ag_members g) of
           None \<Rightarrow> Inl (GroupNotFound ''member not found'') | Some m \<Rightarrow> text (gm_role m))
     | TaskDescription tid \<Rightarrow> rbind (find_task g tid) (\<lambda>t. text (gt_description t))
     | TaskEvidence tid \<Rightarrow> rbind (find_task g tid) (\<lambda>t. text (gt_evidence t))
     | TaskDependencies tid \<Rightarrow> rbind (find_task g tid) (\<lambda>t.
         rbind (page (gt_deps t) offset (min limit 10)) (\<lambda>p. Inr (DetailDeps p))))"

end
