(* ===== verification/GroupLaws.thy ===== *)
theory GroupLaws
  imports GroupLog
begin

text \<open>
  What agent groups guarantee, for single operations and for every sequence of commands: a command
  that raises is rolled back (locale \<open>transactional\<close>), so a run is the sequence of what was
  committed.
\<close>

section \<open>Renaming keeps the invariant\<close>

lemma subst_name_inj: "n \<noteq> new \<Longrightarrow> m \<noteq> new \<Longrightarrow> subst_name old new n = subst_name old new m \<longleftrightarrow> n = m"
  by (auto simp: subst_name_def)

lemma member_ids_rename [simp]: "member_ids (rename_group old new g) = map (subst_name old new) (member_ids g)"
  by (simp add: member_ids_def rename_group_def rename_member_def comp_def)

lemma rename_saved_simps [simp]:
  "ag_id (rename_saved env old new g) = ag_id g" "ag_dissolved (rename_saved env old new g) = ag_dissolved g"
  by (simp_all add: rename_saved_def Let_def) (simp_all add: rename_group_def)

lemma member_ids_rename_saved [simp]:
  "member_ids (rename_saved env old new g) = map (subst_name old new) (member_ids g)"
  using member_ids_rename [of old new g] by (auto simp: rename_saved_def Let_def member_ids_def)

lemma rename_task_ok:
  assumes "task_ok S ms tab t"
  shows "task_ok S (map (subst_name old new) ms) tab (rename_task old new t)"
  using assms by (auto simp: task_ok_def rename_task_def split: option.splits)

lemma task_ok_stamp: "task_ok S ms tab (t\<lparr>gt_revision := r, gt_updated := u\<rparr>) = task_ok S ms tab t"
  by (simp add: task_ok_def split: option.splits)

lemma leader_ok_rename: "leader_ok g \<Longrightarrow> leader_ok (rename_group old new g)"
  by (auto simp: leader_ok_def rename_group_def member_ids_def rename_member_def comp_def split: option.splits)

lemma group_ok_rename_saved:
  assumes g: "group_ok S g" and new: "new \<notin> set (member_ids g)"
  shows "group_ok S (rename_saved env old new g)"
proof (cases "rename_group old new g = g")
  case True
  then show ?thesis using g by (simp add: rename_saved_def)
next
  case False
  let ?f = "\<lambda>t. let u = rename_task old new t in
       if gt_owner t \<noteq> gt_owner u then u\<lparr>gt_revision := gt_revision u + 1, gt_updated := ge_now env\<rparr> else u"
  let ?h = "(rename_group old new g)\<lparr>ag_tasks := map ?f (ag_tasks g)\<rparr>"
  have ids: "member_ids ?h = map (subst_name old new) (member_ids g)"
    using member_ids_rename [of old new g] by (simp add: member_ids_def)
  have "board_ok S ?h"
  proof (rule board_ok_map)
    show "board_ok S g" using g by (simp add: group_ok_def)
    show "task_ok S (member_ids ?h) tab (?f t)" if "task_ok S (member_ids g) tab t" for t tab
      using rename_task_ok [OF that] unfolding ids by (simp add: Let_def task_ok_stamp)
  qed (auto simp: rename_task_def Let_def)
  moreover have "leader_ok ?h"
    using leader_ok_rename [of g old new] g
    by (auto simp: group_ok_def leader_ok_def member_ids_def split: option.splits)
  moreover have "distinct (member_ids ?h)"
    using g new unfolding ids by (auto simp: group_ok_def distinct_map inj_on_def subst_name_def)
  ultimately show ?thesis using False by (simp add: rename_saved_def Let_def group_ok_def)
qed

lemma map_of_rename_members:
  assumes "new \<notin> fst ` set ms" and "old \<noteq> new"
  shows "map_of (map (\<lambda>(n, k). (subst_name old new n, k)) ms) n
    = (if n = old then None else if n = new then map_of ms old else map_of ms n)"
  using assms(1)
proof (induction ms)
  case (Cons p ms)
  obtain a k where p: "p = (a, k)" by force
  have "map_of (map (\<lambda>(n, k). (subst_name old new n, k)) ms) n
      = (if n = old then None else if n = new then map_of ms old else map_of ms n)" using Cons by simp
  moreover have "a \<noteq> new" using Cons.prems p by auto
  ultimately show ?case
    using assms(2) by (cases "a = old"; cases "n = old"; cases "n = new") (simp_all add: p subst_name_def)
qed simp

lemma node_rename_ok:
  assumes ok: "db_ok S db" and r: "node_rename env old new db = Inr db'"
  shows "db_ok S db'"
proof (cases "old = new")
  case True
  then show ?thesis using ok r by (simp add: node_rename_def)
next
  case ne: False
  have free: "map_of (db_members db) new = None"
    and groups: "db_groups db' = map (\<lambda>(k, g). (k, rename_saved env old new g)) (db_groups db)"
    and members: "db_members db' = map (\<lambda>(n, k). (subst_name old new n, k)) (db_members db)"
    using r ne by (auto simp: node_rename_def Let_def dict_has_iff split: if_splits option.splits)
  have wf: "wf_dict (db_groups db)" "wf_dict (db_members db)" using ok by (simp_all add: db_ok_def)
  have notin: "new \<notin> set (member_ids g)" if "(k, g) \<in> set (db_groups db)" "\<not> ag_dissolved g" for k g
  proof
    assume "new \<in> set (member_ids g)"
    moreover have "map_of (db_groups db) k = Some g" using that(1) wf(1) by (simp add: wf_dict_def)
    ultimately have "is_member db k new" using that(2) by (auto simp: is_member_def)
    then have "map_of (db_members db) new = Some k" using ok by (simp add: db_ok_def)
    then show False using free by simp
  qed
  have look: "map_of (db_groups db') k = map_option (rename_saved env old new) (map_of (db_groups db) k)" for k
    unfolding groups by (simp add: map_of_map)
  have mlook: "map_of (db_members db') n = (if n = old then None else if n = new then map_of (db_members db) old else map_of (db_members db) n)" for n
    unfolding members using free ne by (subst map_of_rename_members) (simp_all add: map_of_eq_None_iff)
  have mem: "is_member db' k n \<longleftrightarrow> (\<exists>m. is_member db k m \<and> n = subst_name old new m)" for k n
    by (auto simp: is_member_def look)
  have "map_of (db_members db') n = Some k \<longleftrightarrow> is_member db' k n" for n k
  proof -
    have i: "is_member db k m \<longleftrightarrow> map_of (db_members db) m = Some k" for m using ok by (simp add: db_ok_def)
    show ?thesis unfolding mem i mlook using ne free by (auto simp: subst_name_def)
  qed
  moreover have "list_all (\<lambda>(k, g). ag_id g = k \<and> (ag_dissolved g \<or> group_ok S g)) (db_groups db')"
    using ok notin group_ok_rename_saved unfolding groups by (fastforce simp: db_ok_def list_all_iff)
  moreover have "wf_dict (db_groups db')" using wf(1) by (simp add: groups wf_dict_def comp_def case_prod_unfold)
  moreover have "wf_dict (db_members db')"
  proof -
    have "map fst (db_members db') = map (subst_name old new) (map fst (db_members db))"
      by (simp add: members comp_def case_prod_unfold)
    moreover have "inj_on (subst_name old new) (set (map fst (db_members db)))"
      using free by (auto simp: inj_on_def subst_name_def map_of_eq_None_iff)
    ultimately show ?thesis using wf(2) unfolding wf_dict_def by (simp only: distinct_map)
  qed
  ultimately show ?thesis by (simp add: db_ok_def)
qed


section \<open>Commands\<close>

datatype group_cmd =
    CreateGroup create_group bool
  | Configure string int "string option" "string option" "group_bounds option" "spatial_member list option"
  | UpdatePlan string "string \<times> string" "string \<times> string"
  | MoveMember string "string option" "string option" string bool
  | UpdateRole string string string string
  | SetLeader string "string option" string
  | Dissolve string int
  | ProtectHistory string
  | Departure string string
  | Restore "deleted_member option"
  | RenameNode string string
  | CreateTask string create_task "string option"
  | UpdateTask string string update_task "string option"
  | Publish string publish_message "string option"
  | RecordDelivery int string "string option"
  | Resolve string string "int list"
  | MarkStarted string "group_event list"
  | CompleteDelivery string "group_event list" "string option" "string option"

definition fst_res :: "('a \<times> 'b) group_res \<Rightarrow> ('a \<times> unit) group_res" where
  "fst_res r = rbind r (\<lambda>(a, b). Inr (a, ()))"

definition unit_res :: "'a group_res \<Rightarrow> ('a \<times> unit) group_res" where
  "unit_res r = rbind r (\<lambda>a. Inr (a, ()))"

fun group_step :: "group_env \<times> group_cmd \<Rightarrow> group_db \<Rightarrow> (group_db \<times> unit) group_res" where
  "group_step (env, CreateGroup c p) db = fst_res (create_agent_group env c p db)"
| "group_step (env, Configure gid r n obj b l) db = fst_res (configure_group env gid r n obj b l db)"
| "group_step (env, UpdatePlan gid ex plan) db = fst_res (update_plan env gid ex plan db)"
| "group_step (env, MoveMember node t s role p) db = fst_res (move_member env node t s role p db)"
| "group_step (env, UpdateRole gid node ex role) db = fst_res (update_role env gid node ex role db)"
| "group_step (env, SetLeader gid ex l) db = fst_res (set_leader env gid ex l db)"
| "group_step (env, Dissolve gid r) db = fst_res (dissolve env gid r db)"
| "group_step (env, ProtectHistory node) db = unit_res (protect_member_history env node db)"
| "group_step (env, Departure node reason) db = fst_res (node_departure env node reason db)"
| "group_step (env, Restore saved) db = unit_res (restore_deleted_member env saved db)"
| "group_step (env, RenameNode old new) db = unit_res (node_rename env old new db)"
| "group_step (env, CreateTask gid c a) db = fst_res (create_group_task env gid c a db)"
| "group_step (env, UpdateTask gid tid c a) db = fst_res (update_group_task env gid tid c a db)"
| "group_step (env, Publish gid c a) db = fst_res (publish env gid c a db)"
| "group_step (env, RecordDelivery seq node e) db = Inr (fst (record_delivery seq node e db), ())"
| "group_step (env, Resolve node gid seqs) db = fst_res (resolve node gid seqs db)"
| "group_step (env, MarkStarted node es) db = Inr (mark_started env node es db, ())"
| "group_step (env, CompleteDelivery node es e r) db = unit_res (complete_delivery env node es e r db)"

text \<open>What is assumed where a command is issued: generated identifiers are new, a creation satisfies its
  contract, a snapshot to restore is one that a departure returned. The strict reading of the board
  (tasks in progress have finished dependencies) is not claimed of restoring.\<close>

fun cmd_guard :: "task_status set \<Rightarrow> group_env \<times> group_cmd \<Rightarrow> group_db \<Rightarrow> bool" where
  "cmd_guard S (env, CreateGroup c p) db \<longleftrightarrow> create_group_ok c \<and> map_of (db_groups db) (ge_uuid env) = None"
| "cmd_guard S (env, CreateTask gid c a) db \<longleftrightarrow> (case map_of (db_groups db) gid of None \<Rightarrow> True
     | Some g \<Rightarrow> ge_uuid env \<notin> gt_id ` set (ag_tasks g))"
| "cmd_guard S (env, Restore saved) db \<longleftrightarrow> (case saved of None \<Rightarrow> True | Some s \<Rightarrow> InProgress \<notin> S \<and> genuine_snapshot db s)"
| "cmd_guard S _ db \<longleftrightarrow> True"

lemma fst_res_Inr [simp]: "fst_res r = Inr (a, u) \<longleftrightarrow> (\<exists>b. r = Inr (a, b))"
  by (auto simp: fst_res_def rbind_eq_Inr)

lemma unit_res_Inr [simp]: "unit_res r = Inr (a, u) \<longleftrightarrow> r = Inr a"
  by (auto simp: unit_res_def rbind_eq_Inr)

text \<open>Messages and deliveries leave groups and members alone.\<close>

lemma db_ok_cong: "db_groups db' = db_groups db \<Longrightarrow> db_members db' = db_members db \<Longrightarrow> db_ok S db' = db_ok S db"
  by (simp add: db_ok_def is_member_def)

lemma publish_Inr:
  assumes "publish env gid c actor db = Inr (db', e)"
  obtains (replay) p where "find_request db gid (actor_key actor) (pm_request c) = Some p" "mr_command p = c" "db' = db"
      "event_of db (mr_seq p) = Some e"
    | (new) g kind payload recipients where "find_request db gid (actor_key actor) (pm_request c) = None"
      "read_group db gid actor = Inr g" "set recipients \<subseteq> set (member_ids g)"
      "e = fst (add_event env g kind actor payload recipients False db)"
      "db' = (snd (add_event env g kind actor payload recipients False db))\<lparr>db_requests := db_requests db @
         [\<lparr>mr_group = gid, mr_actor = actor_key actor, mr_request = pm_request c, mr_command = c, mr_seq = ev_seq e\<rparr>]\<rparr>"
proof (cases "find_request db gid (actor_key actor) (pm_request c)")
  case (Some p)
  then show ?thesis using assms replay
    by (auto simp: publish_def Let_def split: if_splits option.splits)
next
  case None
  obtain g recipient where g: "read_group db gid actor = Inr g"
      and known: "\<not> (case pm_recipient c of None \<Rightarrow> False | Some r \<Rightarrow> r \<notin> set (member_ids g))"
      and rc: "(if actor = None \<and> undirected c
                then (case ag_leader g of None \<Rightarrow> Inl (GroupConflict ''no leader to receive the message'')
                      | Some l \<Rightarrow> if l \<notin> set (member_ids g) then Inl (GroupConflict ''no leader to receive the message'') else Inr (Some l))
                else Inr (pm_recipient c)) = Inr recipient"
    using assms None by (auto simp: publish_def Let_def)
  let ?rs = "if pm_intent c = Update then [] else case recipient of Some r \<Rightarrow> [r] | None \<Rightarrow> member_ids g"
  have "set ?rs \<subseteq> set (member_ids g)" using known rc by (auto split: option.splits if_splits)
  then show ?thesis
    using assms None g rc new [OF None g, of ?rs "if pm_intent c = Update then ''update'' else ''message''"
        "[(''text'', PStr (pm_text c)), (''recipient_id'', opt_val recipient), (''intent'', PStr (intent_str (pm_intent c))),
                (''broadcast_reason'', PStr (pm_reason c)), (''attachments'', PList (map PDict (pm_attachments c)))]"]
    by (auto simp: publish_def Let_def split_beta)
qed

lemma cancel_delivery_simps [simp]:
  "db_groups (cancel_delivery s n db) = db_groups db" "db_members (cancel_delivery s n db) = db_members db"
  by (simp_all add: cancel_delivery_def)

lemma resolve_rows_groups:
  "rfold (resolve_row node home) rows (db, es) = Inr (db', es') \<Longrightarrow> db_groups db' = db_groups db \<and> db_members db' = db_members db"
proof (induction rows arbitrary: db es)
  case (Cons e rows)
  then obtain db1 es1 where "resolve_row node home e (db, es) = Inr (db1, es1)" "rfold (resolve_row node home) rows (db1, es1) = Inr (db', es')"
    by auto
  moreover from this(1) have "db_groups db1 = db_groups db \<and> db_members db1 = db_members db"
    by (auto simp: resolve_row_def split: option.splits if_splits)
  ultimately show ?case using Cons.IH by metis
qed simp

lemma resolve_groups: "resolve node gid seqs db = Inr (db', es) \<Longrightarrow> db_groups db' = db_groups db \<and> db_members db' = db_members db"
  by (auto simp: resolve_def Let_def split: if_splits dest: resolve_rows_groups)

lemma mark_delivered_fold_groups:
  "db_groups (fold (mark_delivered node err) es db) = db_groups db \<and> db_members (fold (mark_delivered node err) es db) = db_members db"
  by (induction es arbitrary: db) (simp_all add: mark_delivered_def)

lemma complete_delivery_groups:
  "complete_delivery env node es err reply db = Inr db' \<Longrightarrow> db_groups db' = db_groups db \<and> db_members db' = db_members db"
  by (auto simp: complete_delivery_def Let_def mark_delivered_fold_groups split: if_splits)

lemma publish_groups: "publish env gid c actor db = Inr (db', e) \<Longrightarrow> db_groups db' = db_groups db \<and> db_members db' = db_members db"
  by (erule publish_Inr) simp_all

lemma delivery_cmds_groups:
  assumes "group_step (env, c) db = Inr (db', r)"
    and "case c of Publish _ _ _ \<Rightarrow> True | Resolve _ _ _ \<Rightarrow> True | CompleteDelivery _ _ _ _ \<Rightarrow> True | MarkStarted _ _ \<Rightarrow> True
      | RecordDelivery _ _ _ \<Rightarrow> True | _ \<Rightarrow> False"
  shows "db_groups db' = db_groups db \<and> db_members db' = db_members db"
  using assms by (cases c) (auto simp: mark_started_def record_delivery_def Let_def dest: publish_groups resolve_groups complete_delivery_groups)

lemma restore_step_ok:
  assumes S: "S = {Done} \<or> S = {InProgress, Done}" and ok: "db_ok S db" and guard: "cmd_guard S (env, Restore saved) db"
    and step: "group_step (env, Restore saved) db = Inr (db', r)"
  shows "db_ok S db'"
proof (cases saved)
  case None
  then show ?thesis using ok step by (simp add: restore_deleted_member_def)
next
  case (Some s)
  then have "S = {Done}" "genuine_snapshot db s" using guard S by auto
  then show ?thesis using restore_deleted_member_ok [of db env s db'] ok step Some by simp
qed

text \<open>Every command keeps the invariant.\<close>

lemma group_step_ok:
  assumes S: "S = {Done} \<or> S = {InProgress, Done}" and ok: "db_ok S db" and guard: "cmd_guard S ec db"
    and step: "group_step ec db = Inr (db', r)"
  shows "db_ok S db'"
proof -
  obtain env c where ec: "ec = (env, c)" by force
  have sub: "S \<subseteq> {InProgress, Done}" using S by auto
  note step' = step [unfolded ec] and guard' = guard [unfolded ec]
  show ?thesis
  proof (cases c)
    case (Restore saved)
    then show ?thesis using restore_step_ok [OF S ok, of env saved db' r] step' guard' by simp
  next
    case (CreateTask gid cmd a)
    then obtain t where "create_group_task env gid cmd a db = Inr (db', t)" using step' by auto
    then show ?thesis by (rule create_group_task_ok [OF ok sub]) (use guard' CreateTask in simp)
  next
    case (CreateGroup cmd p)
    then show ?thesis using create_agent_group_ok [OF ok] step' guard' by auto
  next
    case (ProtectHistory node)
    then show ?thesis using step' protect_ok [OF ok] by auto
  qed (use step' db_ok_cong [of db' db S] ok delivery_cmds_groups [OF step'] in \<open>auto dest: configure_group_ok [OF ok sub] update_plan_ok [OF ok]
      move_member_ok [OF ok sub] update_role_ok [OF ok] set_leader_ok [OF ok] dissolve_ok [OF ok] node_departure_ok [OF ok sub]
      node_rename_ok [OF ok] update_group_task_ok [OF ok sub]\<close>)
qed

lemma db_ok_empty [simp]: "db_ok S empty_db"
  by (simp add: db_ok_def empty_db_def is_member_def)

interpretation group_store: transactional group_step "db_ok {Done}" "cmd_guard {Done}"
  by unfold_locales (rule group_step_ok, auto)

interpretation strict_boards: transactional group_step "db_ok {InProgress, Done}" "cmd_guard {InProgress, Done}"
  by unfold_locales (rule group_step_ok, auto)


section \<open>Properties\<close>

text \<open>What a sequence of commands leaves behind.\<close>

definition run_groups :: "(group_env \<times> group_cmd) list \<Rightarrow> group_db \<Rightarrow> group_db" where
  "run_groups cs db = fold (\<lambda>c db. case group_step c db of Inl e \<Rightarrow> db | Inr (db', r) \<Rightarrow> db') cs db"

fun groups_guarded :: "task_status set \<Rightarrow> (group_env \<times> group_cmd) list \<Rightarrow> group_db \<Rightarrow> bool" where
  "groups_guarded S [] db = True"
| "groups_guarded S (c # cs) db \<longleftrightarrow> cmd_guard S c db \<and> groups_guarded S cs (run_groups [c] db)"

lemma run_groups_commit: "run_groups cs db = fold group_store.commit cs db"
  unfolding run_groups_def by (rule arg_cong [where f = "\<lambda>f. fold f cs db"]) (simp add: fun_eq_iff group_store.commit_def)

lemma guarded_store: "groups_guarded {Done} cs db = group_store.guarded cs db"
proof (induction cs arbitrary: db)
  case (Cons c cs)
  then show ?case by (simp only: groups_guarded.simps group_store.guarded.simps run_groups_commit fold_simps)
qed (simp only: groups_guarded.simps group_store.guarded.simps)

lemma guarded_strict: "groups_guarded {InProgress, Done} cs db = strict_boards.guarded cs db"
proof (induction cs arbitrary: db)
  case (Cons c cs)
  then show ?case
    by (simp only: groups_guarded.simps strict_boards.guarded.simps run_groups_commit fold_simps)
qed (simp only: groups_guarded.simps strict_boards.guarded.simps)

lemma run_groups_ok:
  assumes "S = {Done} \<or> S = {InProgress, Done}" and "db_ok S db" and "groups_guarded S cs db"
  shows "db_ok S (run_groups cs db)"
  using assms group_store.run_inv [of db cs] strict_boards.run_inv [of db cs]
  by (auto simp: run_groups_commit guarded_store guarded_strict)

text \<open>C26. In every state that commands can reach from an empty store, no node is a member of two
  live groups, the membership index agrees with the documents, members are different, and a group
  with members is led by one of them.\<close>

theorem one_group_per_node:
  assumes run: "groups_guarded {Done} cs empty_db" and db: "db = run_groups cs empty_db"
  shows "(is_member db k n \<longrightarrow> is_member db k' n \<longrightarrow> k = k')
    \<and> (map_of (db_members db) n = Some k \<longleftrightarrow> is_member db k n)
    \<and> (map_of (db_groups db) k = Some g \<longrightarrow> \<not> ag_dissolved g \<longrightarrow> distinct (member_ids g)
       \<and> (case ag_leader g of None \<Rightarrow> ag_members g = [] | Some l \<Rightarrow> l \<in> set (member_ids g)))"
proof -
  have ok: "db_ok {Done} db" unfolding db using run_groups_ok [OF _ db_ok_empty run] by simp
  then have "map_of (db_members db) n = Some k \<longleftrightarrow> is_member db k n" for n k by (simp add: db_ok_def)
  moreover have "distinct (member_ids g) \<and> leader_ok g" if "map_of (db_groups db) k = Some g" "\<not> ag_dissolved g"
    using db_ok_group(2) [OF ok that] by (simp add: group_ok_def)
  ultimately show ?thesis by (metis leader_ok_def option.inject)
qed

definition sample_genv :: "string \<Rightarrow> group_env" where
  "sample_genv u = \<lparr>ge_now = ''2026-01-01T00:00:00'', ge_uuid = u, ge_role = ''developer'',
     ge_assignment = True, ge_dependency_ready = True\<rparr>"

definition sample_create :: create_group where
  "sample_create = \<lparr>cg_name = ''team'', cg_members = [\<lparr>gm_node = ''a'', gm_role = []\<rparr>, \<lparr>gm_node = ''b'', gm_role = []\<rparr>],
     cg_bounds = \<lparr>gb_x = Fin 0, gb_y = Fin 0, gb_width = Fin 1, gb_height = Fin 1\<rparr>, cg_objective = []\<rparr>"

definition sample_cmds :: "(group_env \<times> group_cmd) list" where
  "sample_cmds = [(sample_genv ''g'', CreateGroup sample_create False)]"

lemma sample_create_ok: "create_group_ok sample_create"
  by (simp add: create_group_ok_def sample_create_def title_ok_def identifier_ok_def text_limit_def strip_eval)

lemma sample_guarded: "groups_guarded S sample_cmds empty_db"
  by (simp add: sample_cmds_def sample_create_ok empty_db_def)

lemma one_group_per_node_witness:
  "groups_guarded {Done} sample_cmds empty_db
   \<and> (map_of (db_members (run_groups sample_cmds empty_db)) ''a'' = Some ''g'' \<longleftrightarrow> is_member (run_groups sample_cmds empty_db) ''g'' ''a'')"
  using one_group_per_node [OF sample_guarded refl, of "''g''" "''a''"] sample_guarded by simp

text \<open>C27. In every reachable state the board of a live group is legal: its tasks have different identifiers, the
  dependencies of a task are different tasks of the board and form no cycle. The owner of a task that is not
  finished is a member of the group; a finished task keeps the owner it was finished by, who may have left since.
  A task in progress or finished has an owner, a finished task has evidence and only finished dependencies. As
  long as no deleted member is restored, a task in progress has only finished dependencies too.\<close>

theorem boards_stay_legal:
  assumes S: "S = {Done} \<or> S = {InProgress, Done}" and run: "groups_guarded S cs empty_db"
    and g: "map_of (db_groups (run_groups cs empty_db)) k = Some g" "\<not> ag_dissolved g"
  shows "distinct (map gt_id (ag_tasks g)) \<and> deps_closed (task_tab (ag_tasks g)) \<and> deps_acyclic (task_tab (ag_tasks g))
    \<and> (\<forall>t \<in> set (ag_tasks g). task_ok S (member_ids g) (task_tab (ag_tasks g)) t)
    \<and> (\<forall>t \<in> set (ag_tasks g). \<forall>n. gt_owner t = Some n \<longrightarrow> gt_status t \<noteq> Done \<longrightarrow> n \<in> set (member_ids g))"
proof -
  have "db_ok S (run_groups cs empty_db)" using S db_ok_empty run by (rule run_groups_ok)
  then have "board_ok S g" using db_ok_group(2) g by (auto simp: group_ok_def)
  then show ?thesis by (auto simp: board_ok_def list_all_iff task_ok_def)
qed

lemma find_replace_task:
  "List.find (\<lambda>t. gt_id t = tid) ts = Some cur \<Longrightarrow> gt_id c = tid \<Longrightarrow> List.find (\<lambda>t. gt_id t = tid) (replace_task c ts) = Some c"
  by (induction ts) (auto simp: replace_task_def split: if_splits)

text \<open>Task updates are optimistic: an update that changes something asks for the revision it saw,
  the task gets the next revision, and a second update that asks for the old revision is refused.\<close>

lemma stale_task_update_refused:
  assumes ok: "db_ok S db" and up: "update_group_task env gid tid c actor db = Inr (db', t)" and changed: "db' \<noteq> db"
    and stale: "ut_revision c' = ut_revision c" and actor': "actor' = None \<or> actor' = actor"
  shows "gt_revision t = ut_revision c + 1
    \<and> update_group_task env' gid tid c' actor' db' = Inl (GroupConflict ''task changed; refresh before updating'')"
  using up
proof (cases rule: update_group_task_Inr)
  case same
  then show ?thesis using changed by simp
next
  case (changed g cur cand)
  let ?g = "bump_group env (g\<lparr>ag_tasks := replace_task t (ag_tasks g)\<rparr>)"
  have id: "ag_id g = gid" using read_group_current [OF ok changed(1)] by simp
  have r: "gt_revision t = ut_revision c + 1" using changed(3,4,7) by (simp add: patch_task_def)
  have tid: "gt_id t = tid" using find_Some_set [OF changed(2)] changed(4,7) by (simp add: patch_task_def)
  have "\<not> ag_dissolved g" "\<And>a. actor = Some a \<Longrightarrow> a \<in> set (member_ids g)" using read_group_Inr [OF changed(1)] by auto
  moreover have "member_ids ?g = member_ids g" by (simp add: member_ids_def)
  ultimately have "read_group db' gid actor' = Inr ?g"
    using changed(8) id actor' by (auto simp: read_group_def split: option.splits)
  moreover have "List.find (\<lambda>t. gt_id t = tid) (ag_tasks ?g) = Some t"
    using find_replace_task [OF changed(2) tid] by simp
  ultimately show ?thesis using r stale by (simp add: update_group_task_def)
qed

lemma find_append: "List.find P (xs @ ys) = (case List.find P xs of None \<Rightarrow> List.find P ys | Some x \<Rightarrow> Some x)"
  by (induction xs) auto

lemma publish_idempotent:
  assumes ok: "db_ok S db" and p: "publish env gid c actor db = Inr (db', e)"
    and seqs: "\<And>x. x \<in> set (db_events db) \<Longrightarrow> ev_seq x \<le> db_seq db"
  shows "publish env' gid c actor db' = Inr (db', e)
    \<and> (c' \<noteq> c \<longrightarrow> pm_request c' = pm_request c \<longrightarrow> (\<exists>x. publish env' gid c' actor db' = Inl x))"
proof -
  obtain g where g: "read_group db gid actor = Inr g" using p by (auto simp: publish_def)
  have pre: "\<not> (case pm_recipient c of None \<Rightarrow> False | Some r \<Rightarrow> r \<notin> set (member_ids g))"
      "\<not> (pm_recipient c \<noteq> None \<and> pm_recipient c = actor)" "\<not> (actor \<noteq> None \<and> undirected c)"
    using p g by (auto simp: publish_def Let_def)
  have g': "read_group db' gid actor = Inr g" using g publish_groups [OF p] by (simp add: read_group_def)
  have found: "\<exists>r. find_request db' gid (actor_key actor) (pm_request c) = Some r \<and> mr_command r = c \<and> event_of db' (mr_seq r) = Some e"
    using p
  proof (cases rule: publish_Inr)
    case (replay r)
    then show ?thesis by blast
  next
    case (new g kind payload recipients)
    let ?a = "add_event env g kind actor payload recipients False db"
    have e: "ev_seq e = db_seq db + 1" "db_events db' = db_events db @ [e]"
      using new(4,5) by (simp_all add: add_event_def Let_def)
    have "List.find (\<lambda>x. ev_seq x = ev_seq e) (db_events db) = None"
      using seqs e(1) by (force simp: find_None_set)
    then have "event_of db' (ev_seq e) = Some e" using e(2) by (simp add: event_of_def find_append)
    moreover have "find_request db' gid (actor_key actor) (pm_request c) =
        Some \<lparr>mr_group = gid, mr_actor = actor_key actor, mr_request = pm_request c, mr_command = c, mr_seq = ev_seq e\<rparr>"
      using new(1,5) by (simp add: find_request_def find_append)
    ultimately show ?thesis by simp
  qed
  then obtain r where r: "find_request db' gid (actor_key actor) (pm_request c) = Some r" "mr_command r = c"
      "event_of db' (mr_seq r) = Some e" by blast
  have "publish env' gid c actor db' = Inr (db', e)"
    unfolding publish_def g' Let_def rbind_Inr raise_if_def if_not_P [OF pre(1)] if_not_P [OF pre(2)] if_not_P [OF pre(3)]
    using r by simp
  moreover have "\<exists>x. publish env' gid c' actor db' = Inl x" if "c' \<noteq> c" "pm_request c' = pm_request c"
  proof (cases "publish env' gid c' actor db'")
    case (Inr y)
    obtain d f where "y = (d, f)" by force
    with Inr have "publish env' gid c' actor db' = Inr (d, f)" by simp
    then show ?thesis by (cases rule: publish_Inr) (use that r in simp_all)
  qed simp
  ultimately show ?thesis by blast
qed

section \<open>The history only grows\<close>

definition delivery_kept :: "delivery \<Rightarrow> delivery \<Rightarrow> bool" where
  "delivery_kept d d' \<longleftrightarrow> dl_seq d' = dl_seq d \<and> (dl_state d \<noteq> DPending \<longrightarrow> dl_state d' = dl_state d)"

text \<open>From one store to a later one: events keep their place and number (and, with \<open>keep\<close>, their
  content), new events get higher numbers, and a delivery that is no longer pending stays as it is.\<close>

definition hist_ext :: "bool \<Rightarrow> group_db \<Rightarrow> group_db \<Rightarrow> bool" where
  "hist_ext keep db db' \<longleftrightarrow>
     (\<exists>f es. db_events db' = map f (db_events db) @ es \<and> (\<forall>e. ev_seq (f e) = ev_seq e) \<and> (keep \<longrightarrow> f = id)
        \<and> (\<forall>e \<in> set es. db_seq db < ev_seq e \<and> ev_seq e \<le> db_seq db'))
     \<and> (\<exists>ds1 ds2. db_deliveries db' = ds1 @ ds2 \<and> list_all2 delivery_kept (db_deliveries db) ds1)
     \<and> db_seq db \<le> db_seq db'"

lemma hist_refl: "db_events db' = db_events db \<Longrightarrow> db_deliveries db' = db_deliveries db \<Longrightarrow> db_seq db' = db_seq db \<Longrightarrow> hist_ext k db db'"
  unfolding hist_ext_def
  by (intro conjI exI [of _ id] exI [of _ "[]"] exI [of _ "db_deliveries db"])
    (auto simp: delivery_kept_def list_all2_same)

lemma hist_trans:
  assumes a: "hist_ext k db1 db2" and b: "hist_ext k db2 db3"
  shows "hist_ext k db1 db3"
proof -
  obtain f es ds1 ds2 where 1: "db_events db2 = map f (db_events db1) @ es" "\<forall>e. ev_seq (f e) = ev_seq e" "k \<longrightarrow> f = id"
      "\<forall>e \<in> set es. db_seq db1 < ev_seq e \<and> ev_seq e \<le> db_seq db2"
      "db_deliveries db2 = ds1 @ ds2" "list_all2 delivery_kept (db_deliveries db1) ds1" "db_seq db1 \<le> db_seq db2"
    using a by (auto simp: hist_ext_def)
  obtain g fs ds3 ds4 where 2: "db_events db3 = map g (db_events db2) @ fs" "\<forall>e. ev_seq (g e) = ev_seq e" "k \<longrightarrow> g = id"
      "\<forall>e \<in> set fs. db_seq db2 < ev_seq e \<and> ev_seq e \<le> db_seq db3"
      "db_deliveries db3 = ds3 @ ds4" "list_all2 delivery_kept (db_deliveries db2) ds3" "db_seq db2 \<le> db_seq db3"
    using b by (auto simp: hist_ext_def)
  obtain us vs where uv: "ds3 = us @ vs" "list_all2 delivery_kept ds1 us"
    using 1(5) 2(6) by (auto simp: list_all2_append1)
  have "list_all2 delivery_kept (db_deliveries db1) us"
    using 1(6) uv(2) by (rule list_all2_trans [rotated]) (auto simp: delivery_kept_def)
  moreover have "db_events db3 = map (g \<circ> f) (db_events db1) @ (map g es @ fs)" using 1(1) 2(1) by simp
  moreover have "\<forall>e. ev_seq ((g \<circ> f) e) = ev_seq e" "k \<longrightarrow> g \<circ> f = id" using 1 2 by simp_all
  moreover have "\<forall>e \<in> set (map g es @ fs). db_seq db1 < ev_seq e \<and> ev_seq e \<le> db_seq db3" using 1 2 by fastforce
  moreover have "db_deliveries db3 = us @ (vs @ ds4)" using 2(5) uv(1) by simp
  ultimately show ?thesis using 1(7) 2(7) unfolding hist_ext_def by (meson order_trans)
qed

lemma hist_update_pending:
  assumes "\<And>d. dl_seq (f d) = dl_seq d"
  shows "hist_ext k db (update_pending P f db)"
proof -
  let ?ds = "map (\<lambda>d. if dl_state d = DPending \<and> P d then f d else d) (db_deliveries db)"
  have "list_all2 delivery_kept (db_deliveries db) ?ds"
    by (auto simp: list_all2_map2 delivery_kept_def assms list_all2_same)
  then have "\<exists>ds1 ds2. db_deliveries (update_pending P f db) = ds1 @ ds2 \<and> list_all2 delivery_kept (db_deliveries db) ds1"
    by (intro exI [of _ ?ds] exI [of _ "[]"]) (simp add: update_pending_def)
  moreover have "\<exists>f es. db_events (update_pending P f' db) = map f (db_events db) @ es \<and> (\<forall>e. ev_seq (f e) = ev_seq e)
      \<and> (k \<longrightarrow> f = id) \<and> (\<forall>e \<in> set es. db_seq db < ev_seq e \<and> ev_seq e \<le> db_seq (update_pending P f' db))" for f'
    by (intro exI [of _ id] exI [of _ "[]"]) (simp add: update_pending_def)
  ultimately show ?thesis by (simp add: hist_ext_def update_pending_def)
qed

lemma hist_add_event: "hist_ext k db (snd (add_event env g kind actor p rs n db))"
  unfolding hist_ext_def add_event_def Let_def
  by (intro conjI exI [of _ id] exI [of _ "[_]"] exI [of _ "db_deliveries db"] exI [of _ "map _ _"])
    (auto simp: delivery_kept_def list_all2_same)

lemma hist_event_after: "hist_ext k db db1 \<Longrightarrow> hist_ext k db (snd (add_event env g kind actor p rs n db1))"
  using hist_trans hist_add_event by blast

lemma hist_save [simp]: "hist_ext k db (snd (save_group env b g db'))" if "hist_ext k db db'"
  by (rule hist_trans [OF that]) (simp add: hist_refl save_group_def put_group_def Let_def)

lemma hist_self [simp]: "hist_ext k db db"
  by (rule hist_refl) simp_all

lemma hist_members: "hist_ext k db db' \<Longrightarrow> hist_ext k db (db'\<lparr>db_members := m\<rparr>)"
  by (rule hist_trans) (auto intro: hist_refl)

lemma hist_cancel: "hist_ext k db db' \<Longrightarrow> hist_ext k db (update_pending P cancel db')"
  by (rule hist_trans) (auto intro!: hist_update_pending simp: cancel_def)

lemma hist_insert_member: "insert_member n g db = Inr db' \<Longrightarrow> hist_ext k db db'"
  by (auto simp: insert_member_Inr intro: hist_refl)

lemma hist_detach: "hist_ext k db (snd (detach_member env g node reason db))"
  unfolding detach_member_def Let_def split_beta
  by (simp add: hist_event_after hist_save hist_cancel hist_members)

lemma hist_join: "join_member env m b (g, db) = Inr (g', db') \<Longrightarrow> hist_ext k db db'"
  by (auto simp: join_member_def Let_def split_beta intro!: hist_event_after hist_save dest: hist_insert_member)

lemma hist_detach_fold: "hist_ext k db (snd (fold (detach_uncovered env c) ms (g, db)))"
proof (induction ms arbitrary: g db)
  case (Cons m ms)
  have "hist_ext k db (snd (detach_uncovered env c m (g, db)))" by (simp add: detach_uncovered_def hist_detach)
  moreover have "hist_ext k (snd gdb) (snd (fold (detach_uncovered env c) ms gdb))" for gdb
    using Cons.IH [of "snd gdb" "fst gdb"] by simp
  ultimately show ?case unfolding fold_simps by (rule hist_trans)
qed simp

lemma hist_join_fold: "rfold (join_covered env ex) nms (g, db) = Inr (g', db') \<Longrightarrow> hist_ext k db db'"
proof (induction nms arbitrary: g db)
  case (Cons nm nms)
  then obtain g1 db1 where j: "join_covered env ex nm (g, db) = Inr (g1, db1)"
      and r: "rfold (join_covered env ex) nms (g1, db1) = Inr (g', db')" by auto
  have "hist_ext k db db1" using j by (auto simp: join_covered_def split: if_splits dest: hist_join)
  then show ?case using Cons.IH [OF r] by (rule hist_trans)
qed simp

lemma hist_reconcile: "reconcile env g b nodes db = Inr (g', db') \<Longrightarrow> hist_ext k db db'"
proof -
  assume r: "reconcile env g b nodes db = Inr (g', db')"
  obtain g1 db1 where f: "fold (detach_uncovered env (covered_members b nodes)) (ag_members g) (g, db) = (g1, db1)"
      and j: "rfold (join_covered env (member_ids g1)) (covered_members b nodes) (g1, db1) = Inr (g', db')"
    using r by (auto simp: reconcile_def Let_def split: if_splits prod.splits)
  have "hist_ext k db db1" using hist_detach_fold [of k db env "covered_members b nodes" "ag_members g" g] f by simp
  then show ?thesis using hist_join_fold [OF j] by (rule hist_trans)
qed


lemma hist_mark_delivered: "hist_ext k db (fold (mark_delivered node err) es db)"
proof (induction es arbitrary: db)
  case (Cons e es)
  have "hist_ext k db (mark_delivered node err e db)"
    unfolding mark_delivered_def by (rule hist_update_pending) simp
  then show ?case using Cons.IH [of "mark_delivered node err e db"] unfolding fold_simps by (rule hist_trans)
qed simp

lemma hist_resolve_rows: "rfold (resolve_row node home) rows (db, es) = Inr (db', es') \<Longrightarrow> hist_ext k db db'"
proof (induction rows arbitrary: db es)
  case (Cons e rows)
  then obtain db1 es1 where r: "resolve_row node home e (db, es) = Inr (db1, es1)"
      and rest: "rfold (resolve_row node home) rows (db1, es1) = Inr (db', es')" by auto
  have "hist_ext k db db1"
    using r by (auto simp: resolve_row_def cancel_delivery_def hist_cancel split: option.splits if_splits)
  then show ?case using Cons.IH [OF rest] by (rule hist_trans)
qed simp

lemma hist_insert_members: "rfold (\<lambda>m. insert_member (gm_node m) gid) ms db = Inr db' \<Longrightarrow> hist_ext k db db'"
  by (auto dest!: insert_members_Inr intro: hist_refl)

lemma hist_rename: "node_rename env old new db = Inr db' \<Longrightarrow> hist_ext False db db'"
proof -
  assume r: "node_rename env old new db = Inr db'"
  define db1 where "db1 = db\<lparr>db_groups := map (\<lambda>(k, g). (k, rename_saved env old new g)) (db_groups db),
                db_members := map (\<lambda>(n, k). (subst_name old new n, k)) (db_members db),
                db_deliveries := map (\<lambda>d. d\<lparr>dl_node := subst_name old new (dl_node d)\<rparr>) (db_deliveries db),
                db_progress := map (\<lambda>(s, n, t). (s, subst_name old new n, t)) (db_progress db),
                db_events := map (rename_event old new) (db_events db),
                db_requests := map (rename_request old new) (db_requests db)\<rparr>"
  have "list_all2 delivery_kept (db_deliveries db) (db_deliveries db1)"
    by (auto simp: db1_def list_all2_map2 delivery_kept_def list_all2_same)
  then have "\<exists>ds1 ds2. db_deliveries db1 = ds1 @ ds2 \<and> list_all2 delivery_kept (db_deliveries db) ds1"
    by (intro exI [of _ "db_deliveries db1"] exI [of _ "[]"]) simp
  moreover have "\<exists>f es. db_events db1 = map f (db_events db) @ es \<and> (\<forall>e. ev_seq (f e) = ev_seq e)
      \<and> (\<forall>e \<in> set es. db_seq db < ev_seq e \<and> ev_seq e \<le> db_seq db1)"
    by (intro exI [of _ "rename_event old new"] exI [of _ "[]"]) (simp add: db1_def rename_event_def)
  ultimately have "hist_ext False db db1" by (simp add: hist_ext_def db1_def)
  then show ?thesis using r
    by (auto simp: node_rename_def Let_def db1_def [symmetric] hist_event_after split: if_splits option.splits)
qed

definition is_rename :: "group_env \<times> group_cmd \<Rightarrow> bool" where
  "is_rename ec = (case snd ec of RenameNode _ _ \<Rightarrow> True | _ \<Rightarrow> False)"

lemmas hist_intros = hist_event_after hist_save hist_members hist_cancel hist_self hist_detach

lemma hist_create_group: "create_agent_group env cmd p db = Inr (db', g) \<Longrightarrow> hist_ext k db db'"
proof -
  assume c: "create_agent_group env cmd p db = Inr (db', g)"
  have e: "hist_ext k db (snd (add_event env g kind None pl [] False db1))"
    if "rfold (\<lambda>m. insert_member (gm_node m) gid) ms (snd (save_group env False g db)) = Inr db1" for k g kind pl gid ms db1
    using hist_event_after [OF hist_trans [OF hist_save [OF hist_self] hist_insert_members [OF that]]] .
  show ?thesis using c by (auto simp: create_agent_group_def Let_def split: if_splits intro: e)
qed

lemma hist_configure: "configure_group env gid rv n obj b l db = Inr (db', g) \<Longrightarrow> hist_ext k db db'"
proof -
  assume c: "configure_group env gid rv n obj b l db = Inr (db', g)"
  then obtain g g1 db1 where rec: "(case (b, l) of (Some b, Some nodes) \<Rightarrow> reconcile env g b nodes db | _ \<Rightarrow> Inr (g, db)) = Inr (g1, db1)"
      and db': "db' = db1 \<or> (let h = g1\<lparr>ag_name := opt_or n (ag_name g1), ag_objective := opt_or obj (ag_objective g1),
          ag_bounds := opt_or b (ag_bounds g1)\<rparr> in db' = snd (add_event env (bump_group env h) ''group_updated'' None
            (changed_fields g1 n obj b) [] False (snd (save_group env True h db1))))"
    by (auto simp: configure_group_def Let_def split_beta split: if_splits) (blast+)
  have "hist_ext k db db1" for k using rec by (auto split: option.splits dest: hist_reconcile)
  then show ?thesis using db' by (auto simp: Let_def intro!: hist_event_after hist_save)
qed

lemma hist_move: "move_member env node t s role p db = Inr (db', g) \<Longrightarrow> hist_ext k db db'"
proof -
  assume m: "move_member env node t s role p db = Inr (db', g)"
  have j: "hist_ext k db db2" if "hist_ext k db db1" "join_member env m b (g, db1) = Inr (g2, db2)" for k db1 m b g g2 db2
    using that(1) hist_join [OF that(2)] by (rule hist_trans)
  show ?thesis using m
    by (auto simp: move_member_def Let_def split: if_splits option.splits intro!: hist_intros intro: j)
qed

lemma hist_restore: "restore_deleted_member env saved db = Inr db' \<Longrightarrow> hist_ext k db db'"
  by (auto simp: restore_deleted_member_def Let_def split_beta split: if_splits option.splits
      intro!: hist_event_after hist_save dest: hist_insert_member)

lemma hist_complete: "complete_delivery env node es err reply db = Inr db' \<Longrightarrow> hist_ext k db db'"
  by (auto simp: complete_delivery_def Let_def split: if_splits intro: hist_mark_delivered hist_trans [OF hist_add_event hist_mark_delivered])

lemma hist_publish:
  assumes "publish env gid cmd a db = Inr (db', e)"
  shows "hist_ext k db db'"
  using assms
proof (cases rule: publish_Inr)
  case (new g kind payload recipients)
  show ?thesis unfolding new(5) by (rule hist_trans [OF hist_add_event hist_refl]) simp_all
qed simp

text \<open>The commands on groups and tasks that save one group and add one event.\<close>

lemma hist_tasks:
  "create_group_task env gid tc a db = Inr (db', t) \<Longrightarrow> hist_ext k db db'"
  "update_group_task env gid tid uc a db = Inr (db', t) \<Longrightarrow> hist_ext k db db'"
  by (auto simp: create_group_task_def update_group_task_def task_event_def Let_def split_beta intro!: hist_intros split: if_splits option.splits)

lemma group_step_hist:
  assumes "group_step ec db = Inr (db', r)"
  shows "hist_ext (\<not> is_rename ec) db db'"
proof -
  obtain env c where ec: "ec = (env, c)" by force
  note hs = hist_rename hist_create_group hist_configure hist_move hist_restore hist_complete hist_publish hist_tasks
  show ?thesis
  proof (cases c)
    case (RecordDelivery seq node err)
    then show ?thesis using assms ec by (auto simp: record_delivery_def Let_def intro!: hist_update_pending)
  next
    case (Resolve node gid seqs)
    then show ?thesis using assms ec by (auto simp: resolve_def Let_def split: if_splits dest: hist_resolve_rows)
  next
    case (MarkStarted node es)
    then show ?thesis using assms ec by (auto simp: mark_started_def intro: hist_refl)
  next
    case (Departure node reason)
    then show ?thesis using assms ec by (auto simp: node_departure_def intro!: hist_intros split: option.splits)
  next
    case (UpdatePlan gid ex plan)
    then show ?thesis using assms ec by (auto simp: update_plan_def Let_def split_beta intro!: hist_intros split: if_splits)
  next
    case (UpdateRole gid node ex role)
    then show ?thesis using assms ec by (auto simp: update_role_def Let_def split_beta intro!: hist_intros split: if_splits option.splits)
  next
    case (SetLeader gid ex l)
    then show ?thesis using assms ec by (auto simp: set_leader_def Let_def split_beta intro!: hist_intros split: if_splits)
  next
    case (Dissolve gid rv)
    then show ?thesis using assms ec by (auto simp: dissolve_def Let_def split_beta intro!: hist_intros split: if_splits)
  next
    case (ProtectHistory node)
    then show ?thesis using assms ec
      by (auto simp: protect_member_history_def Let_def split_beta intro!: hist_intros split: if_splits option.splits)
  qed (use assms ec in \<open>auto simp: is_rename_def intro: hs\<close>)
qed

lemma run_groups_hist: "hist_ext False db (run_groups cs db)"
proof (induction cs arbitrary: db)
  case (Cons c cs)
  have weak: "hist_ext k db db' \<Longrightarrow> hist_ext False db db'" for k db' by (auto simp: hist_ext_def)
  have "hist_ext False db (run_groups [c] db)"
    using weak group_step_hist [of c db] by (cases "group_step c db") (auto simp: run_groups_def)
  moreover have "run_groups (c # cs) db = run_groups cs (run_groups [c] db)" by (simp add: run_groups_def)
  ultimately show ?case using Cons.IH hist_trans by metis
qed (simp add: run_groups_def)

text \<open>The history is append-only: a command other than renaming a node leaves all earlier events as
  they are and appends events with higher numbers; and a delivery that was delivered or cancelled keeps
  that state under every command, renaming included.\<close>

lemma history_append_only:
  assumes "group_step ec db = Inr (db', r)"
  shows "(\<not> is_rename ec \<longrightarrow> prefix (db_events db) (db_events db'))
    \<and> length (db_events db) \<le> length (db_events db')
    \<and> (\<forall>e \<in> set (drop (length (db_events db)) (db_events db')). db_seq db < ev_seq e)
    \<and> (\<forall>i < length (db_deliveries db). dl_seq (db_deliveries db' ! i) = dl_seq (db_deliveries db ! i)
        \<and> (dl_state (db_deliveries db ! i) \<noteq> DPending \<longrightarrow> dl_state (db_deliveries db' ! i) = dl_state (db_deliveries db ! i)))"
proof -
  obtain f es ds1 ds2 where h: "db_events db' = map f (db_events db) @ es" "\<not> is_rename ec \<longrightarrow> f = id"
      "\<forall>e \<in> set es. db_seq db < ev_seq e" "db_deliveries db' = ds1 @ ds2" "list_all2 delivery_kept (db_deliveries db) ds1"
    using group_step_hist [OF assms] unfolding hist_ext_def by blast
  have "delivery_kept (db_deliveries db ! i) (db_deliveries db' ! i)" if "i < length (db_deliveries db)" for i
    using list_all2_nthD [OF h(5) that] list_all2_lengthD [OF h(5)] that by (simp add: h(4) nth_append)
  then show ?thesis using h by (auto simp: delivery_kept_def)
qed

definition sample_publish :: publish_message where
  "sample_publish = \<lparr>pm_text = ''hi'', pm_attachments = [], pm_request = ''r'', pm_recipient = Some ''b'', pm_intent = Action, pm_reason = []\<rparr>"

definition sample_member_group :: agent_group where
  "sample_member_group = \<lparr>ag_id = ''g'', ag_name = ''team'', ag_objective = [],
     ag_bounds = \<lparr>gb_x = Fin 0, gb_y = Fin 0, gb_width = Fin 1, gb_height = Fin 1\<rparr>,
     ag_members = [\<lparr>gm_node = ''a'', gm_role = []\<rparr>, \<lparr>gm_node = ''b'', gm_role = []\<rparr>], ag_leader = Some ''a'', ag_tasks = [],
     ag_revision = 1, ag_dissolved = False, ag_private = False, ag_created = [], ag_updated = []\<rparr>"

definition sample_db :: group_db where
  "sample_db = empty_db\<lparr>db_groups := [(''g'', sample_member_group)], db_members := [(''a'', ''g''), (''b'', ''g'')]\<rparr>"

lemma sample_publish_Inr: "\<exists>db' e. publish (sample_genv ''u'') ''g'' sample_publish (Some ''a'') sample_db = Inr (db', e)"
  by (simp add: publish_def read_group_def sample_db_def sample_member_group_def member_ids_def sample_publish_def empty_db_def
      undirected_def find_request_def Let_def split_beta)

lemma history_append_only_witness:
  "\<exists>db'. group_step (sample_genv ''u'', Publish ''g'' sample_publish (Some ''a'')) sample_db = Inr (db', ())
     \<and> prefix (db_events sample_db) (db_events db')"
proof -
  obtain db' e where "publish (sample_genv ''u'') ''g'' sample_publish (Some ''a'') sample_db = Inr (db', e)"
    using sample_publish_Inr by blast
  then have s: "group_step (sample_genv ''u'', Publish ''g'' sample_publish (Some ''a'')) sample_db = Inr (db', ())" by simp
  then show ?thesis using history_append_only [OF s] by (auto simp: is_rename_def)
qed

text \<open>C32. Publishing is idempotent: in every reachable store, sending the same message again with the
  same request id returns the event of the first time and changes nothing; another message with that
  request id is refused.\<close>

theorem publish_exactly_once:
  assumes run: "groups_guarded {Done} cs empty_db" and db: "db = run_groups cs empty_db"
    and p: "publish env gid c actor db = Inr (db', e)"
  shows "publish env' gid c actor db' = Inr (db', e)
    \<and> (c' \<noteq> c \<longrightarrow> pm_request c' = pm_request c \<longrightarrow> (\<exists>x. publish env' gid c' actor db' = Inl x))"
proof -
  have ok: "db_ok {Done} db" unfolding db using run_groups_ok [OF _ db_ok_empty run] by simp
  have "ev_seq x \<le> db_seq db" if "x \<in> set (db_events db)" for x
    using run_groups_hist [of empty_db cs] that by (auto simp: db hist_ext_def empty_db_def)
  from publish_idempotent [OF ok p this] show ?thesis by blast
qed


text \<open>A run on a small group: a task and one that depends on it, owned by two members; the second
  owner is deleted, the first task is reopened, the second owner is restored.\<close>

definition sample_task :: "string \<Rightarrow> string list \<Rightarrow> create_task" where
  "sample_task owner deps = \<lparr>ct_title = ''t'', ct_description = [], ct_owner = Some owner, ct_deps = deps\<rparr>"

definition sample_update :: "int \<Rightarrow> task_status \<Rightarrow> update_task" where
  "sample_update n s = \<lparr>ut_revision = n, ut_title = None, ut_description = None, ut_status = Some s, ut_owner = None,
     ut_deps = None, ut_evidence = Some ''report''\<rparr>"

definition sample_work :: "(group_env \<times> group_cmd) list" where
  "sample_work = sample_cmds @ [(sample_genv ''1'', CreateTask ''g'' (sample_task ''a'' []) None),
     (sample_genv ''2'', CreateTask ''g'' (sample_task ''b'' [''1'']) None),
     (sample_genv ''u'', UpdateTask ''g'' ''1'' (sample_update 1 Done) None),
     (sample_genv ''u'', UpdateTask ''g'' ''2'' (sample_update 1 InProgress) None)]"

definition sample_release :: "(group_env \<times> group_cmd) list" where
  "sample_release = [(sample_genv ''u'', Departure ''b'' ''deleted''),
     (sample_genv ''u'', UpdateTask ''g'' ''1'' (sample_update 2 Todo) None)]"

lemma sample_work_guarded: "groups_guarded {Done} sample_work empty_db"
  by code_simp

lemma sample_work_ok: "db_ok {Done} (run_groups sample_work empty_db)"
  using run_groups_ok [OF _ db_ok_empty sample_work_guarded] by simp

text \<open>The run goes on: the owner of the finished task is deleted, whose name the task keeps.\<close>

definition sample_board :: "(group_env \<times> group_cmd) list" where
  "sample_board = sample_work @ [(sample_genv ''u'', Departure ''a'' ''deleted'')]"

lemma sample_board_guarded: "groups_guarded {InProgress, Done} sample_board empty_db"
  by code_simp

lemma sample_board_shape:
  "case map_of (db_groups (run_groups sample_board empty_db)) ''g'' of None \<Rightarrow> False
   | Some g \<Rightarrow> \<not> ag_dissolved g \<and> member_ids g = [''b'']
       \<and> map (\<lambda>t. (gt_id t, gt_status t, gt_owner t, gt_deps t)) (ag_tasks g)
         = [(''1'', Done, Some ''a'', []), (''2'', InProgress, Some ''b'', [''1''])]"
  by code_simp

theorem boards_stay_legal_witness:
  "\<exists>g. map_of (db_groups (run_groups sample_board empty_db)) ''g'' = Some g \<and> member_ids g = [''b'']
     \<and> map (\<lambda>t. (gt_id t, gt_status t, gt_owner t, gt_deps t)) (ag_tasks g)
       = [(''1'', Done, Some ''a'', []), (''2'', InProgress, Some ''b'', [''1''])]
     \<and> deps_acyclic (task_tab (ag_tasks g))
     \<and> list_all (task_ok {InProgress, Done} [''b''] (task_tab (ag_tasks g))) (ag_tasks g)"
proof -
  obtain g where g: "map_of (db_groups (run_groups sample_board empty_db)) ''g'' = Some g" "\<not> ag_dissolved g" "member_ids g = [''b'']"
    "map (\<lambda>t. (gt_id t, gt_status t, gt_owner t, gt_deps t)) (ag_tasks g)
       = [(''1'', Done, Some ''a'', []), (''2'', InProgress, Some ''b'', [''1''])]"
    using sample_board_shape by (auto split: option.splits)
  from boards_stay_legal [OF _ sample_board_guarded g(1,2)] g show ?thesis by (auto simp: list_all_iff)
qed

lemma sample_update_Inr:
  "case update_group_task (sample_genv ''u'') ''g'' ''2'' (sample_update 2 Blocked) None (run_groups sample_work empty_db) of
     Inl e \<Rightarrow> False | Inr (db', t) \<Rightarrow> gt_revision t = 3 \<and> db_seq db' \<noteq> db_seq (run_groups sample_work empty_db)"
  by code_simp

lemma stale_task_update_refused_witness:
  "\<exists>db' t. update_group_task (sample_genv ''u'') ''g'' ''2'' (sample_update 2 Blocked) None (run_groups sample_work empty_db) = Inr (db', t)
     \<and> update_group_task (sample_genv ''v'') ''g'' ''2'' (sample_update 2 Done) None db'
       = Inl (GroupConflict ''task changed; refresh before updating'')"
proof -
  obtain db' t where u: "update_group_task (sample_genv ''u'') ''g'' ''2'' (sample_update 2 Blocked) None (run_groups sample_work empty_db)
      = Inr (db', t)" and "db_seq db' \<noteq> db_seq (run_groups sample_work empty_db)"
    using sample_update_Inr by (auto split: sum.splits)
  then have "db' \<noteq> run_groups sample_work empty_db" by auto
  from stale_task_update_refused [OF sample_work_ok u this, of "sample_update 2 Done" None] u show ?thesis
    by (auto simp: sample_update_def)
qed

lemma sample_message_Inr:
  "case publish (sample_genv ''u'') ''g'' sample_publish (Some ''a'') (run_groups sample_work empty_db) of Inl e \<Rightarrow> False | Inr r \<Rightarrow> True"
  by code_simp

lemma publish_exactly_once_witness:
  "\<exists>db' e. publish (sample_genv ''u'') ''g'' sample_publish (Some ''a'') (run_groups sample_work empty_db) = Inr (db', e)
     \<and> publish (sample_genv ''v'') ''g'' sample_publish (Some ''a'') db' = Inr (db', e)"
proof -
  obtain db' e where p: "publish (sample_genv ''u'') ''g'' sample_publish (Some ''a'') (run_groups sample_work empty_db) = Inr (db', e)"
    using sample_message_Inr by (auto split: sum.splits)
  then show ?thesis using publish_exactly_once [OF sample_work_guarded refl p] by blast
qed

text \<open>Restoring a deleted member skips the rules of the board: a task that was in progress comes back
  in progress although the task it depends on was reopened meanwhile, which no update of a task may do.\<close>

lemma restore_skips_dependencies:
  "case node_departure (sample_genv ''u'') ''b'' ''deleted'' (run_groups sample_work empty_db) of
     Inl e \<Rightarrow> False
   | Inr (db1, saved) \<Rightarrow>
       (case restore_deleted_member (sample_genv ''u'') saved
          (run_groups [(sample_genv ''u'', UpdateTask ''g'' ''1'' (sample_update 2 Todo) None)] db1) of
          Inl e \<Rightarrow> False
        | Inr db2 \<Rightarrow> (case map_of (db_groups db2) ''g'' of
            None \<Rightarrow> False
          | Some g \<Rightarrow> map (\<lambda>t. (gt_id t, gt_status t, gt_deps t)) (ag_tasks g)
                = [(''1'', Todo, []), (''2'', InProgress, [''1''])]
              \<and> \<not> list_all (task_ok {InProgress, Done} (member_ids g) (task_tab (ag_tasks g))) (ag_tasks g)
              \<and> list_all (\<lambda>t. case validate_task g t of Inl e \<Rightarrow> gt_id t = ''2'' | Inr u \<Rightarrow> gt_id t = ''1'') (ag_tasks g)))"
  by code_simp

text \<open>Renaming through the stored documents (by field name, at any depth) is renaming in the group
  they encode: every member, owner and leader, and nothing else.\<close>

lemma rename_document_exact: "rename_references old new (group_dump g) = group_dump (rename_group old new g)"
proof -
  have "rename_references old new (member_dump m) = member_dump (rename_member old new m)" for m
    by (simp add: member_dump_def rename_member_def subst_name_def IDENTITY_FIELDS_def)
  moreover have "rename_references old new (task_dump t) = task_dump (rename_task old new t)" for t
    by (cases "gt_owner t") (simp_all add: task_dump_def rename_task_def subst_name_def IDENTITY_FIELDS_def opt_val_def strs_val_def)
  ultimately show ?thesis
    by (cases "ag_leader g")
      (simp_all add: group_dump_def rename_group_def subst_name_def IDENTITY_FIELDS_def opt_val_def bounds_dump_def)
qed

text \<open>A reader that asks for page after page until there is no next one.\<close>

fun read_pages :: "nat \<Rightarrow> 'a list \<Rightarrow> nat \<Rightarrow> nat \<Rightarrow> 'a list group_res" where
  "read_pages 0 vs off limit = Inl (GroupValueError ''too many pages'')"
| "read_pages (Suc n) vs off limit = rbind (page vs off limit) (\<lambda>p. case pg_next p of
     None \<Rightarrow> Inr (pg_items p)
   | Some off' \<Rightarrow> rbind (read_pages n vs off' limit) (\<lambda>rest. Inr (pg_items p @ rest)))"

lemma read_pages_drop:
  assumes "0 < limit" and "off \<le> length vs" and "length vs - off < n"
  shows "read_pages n vs off limit = Inr (drop off vs)"
  using assms(2,3)
proof (induction n arbitrary: off)
  case (Suc n)
  show ?case
  proof (cases "off + limit < length vs")
    case True
    then have "read_pages n vs (off + limit) limit = Inr (drop (off + limit) vs)"
      using Suc.prems assms(1) by (intro Suc.IH) auto
    moreover have "take limit (drop off vs) @ drop (off + limit) vs = drop off vs"
      by (metis append_take_drop_id drop_drop add.commute)
    ultimately show ?thesis using True Suc.prems by (simp add: page_def Let_def)
  next
    case False
    then show ?thesis using Suc.prems by (simp add: page_def Let_def min_def)
  qed
qed simp

text \<open>Paging loses and repeats nothing: following \<open>next_offset\<close> from the start ends after at most
  one page per element and yields the whole list; an offset past the end is refused.\<close>

lemma paging_complete:
  "0 < limit \<Longrightarrow> read_pages (Suc (length vs)) vs 0 limit = Inr vs
     \<and> (\<forall>off. length vs < off \<longrightarrow> (\<exists>e. page vs off limit = Inl e))"
  using read_pages_drop [of limit 0 vs "Suc (length vs)"] by (simp add: page_def del: read_pages.simps)

lemma paging_complete_witness: "read_pages 6 ''abcde'' 0 2 = Inr ''abcde''"
  using paging_complete [of 2 "''abcde''"] by (simp add: eval_nat_numeral)

text \<open>A notification of a task names the tasks by the node they are for, and renaming a node changes
  fields but no keys: after a node with a pending notification is renamed, resolving it fails with a key
  error, although before the renaming it succeeds.\<close>

lemma rename_breaks_pending_notification:
  "(case resolve ''a'' ''g'' [2] (run_groups sample_work empty_db) of Inl e \<Rightarrow> False | Inr r \<Rightarrow> True)
   \<and> (case node_rename (sample_genv ''u'') ''a'' ''c'' (run_groups sample_work empty_db) of
        Inl e \<Rightarrow> False
      | Inr db \<Rightarrow> is_pending db 2 ''c'' \<and> resolve ''c'' ''g'' [2] db = Inl GroupKeyError)"
  by code_simp

end
