(* ===== verification/TaskDirection.thy ===== *)
theory TaskDirection
  imports PyValue
begin

text \<open>
  The record an agent keeps of the direction of its task (\<open>task_direction_models.py\<close>):
  hypotheses, evidence, risks and criteria, each parsed from JSON under a contract. A payload that
  breaks the contract raises; what is accepted prints to a payload that parses to the same state.
\<close>

section \<open>Data\<close>

datatype td_error = ContractError string | RevisionConflict int int | TaskKeyError string

type_synonym 'a td_res = "(td_error, 'a) res"

definition MAX_OBJECTIVE_CHARS :: nat where "MAX_OBJECTIVE_CHARS = 8000"
definition MAX_ITEM_STATEMENT_CHARS :: nat where "MAX_ITEM_STATEMENT_CHARS = 4000"
definition MAX_SOURCE_CHARS :: nat where "MAX_SOURCE_CHARS = 2000"
definition MAX_HYPOTHESES :: nat where "MAX_HYPOTHESES = 50"
definition MAX_EVIDENCE :: nat where "MAX_EVIDENCE = 100"
definition MAX_RISKS :: nat where "MAX_RISKS = 50"
definition MAX_DONE_CRITERIA :: nat where "MAX_DONE_CRITERIA = 50"

lemmas td_limits = MAX_OBJECTIVE_CHARS_def MAX_ITEM_STATEMENT_CHARS_def MAX_SOURCE_CHARS_def MAX_HYPOTHESES_def
  MAX_EVIDENCE_def MAX_RISKS_def MAX_DONE_CRITERIA_def

record direction_hypothesis =
  hy_id :: string
  hy_statement :: string
  hy_status :: string
  hy_refs :: "string list"

record direction_evidence =
  ed_id :: string
  ed_kind :: string
  ed_summary :: string
  ed_source :: string

record direction_risk =
  rk_id :: string
  rk_severity :: string
  rk_statement :: string
  rk_status :: string
  rk_refs :: "string list"

record direction_criterion =
  cr_id :: string
  cr_statement :: string
  cr_status :: string
  cr_refs :: "string list"

record direction_state =
  ds_objective :: string
  ds_hypotheses :: "direction_hypothesis list"
  ds_evidence :: "direction_evidence list"
  ds_risks :: "direction_risk list"
  ds_criteria :: "direction_criterion list"

section \<open>Fields\<close>

definition is_alnum :: "char \<Rightarrow> bool" where
  "is_alnum c \<longleftrightarrow> (let n = char_code c in (48 \<le> n \<and> n \<le> 57) \<or> (65 \<le> n \<and> n \<le> 90) \<or> (97 \<le> n \<and> n \<le> 122))"

text \<open>The pattern of identifiers: a letter or digit, then at most 79 letters, digits or \<open>_.:-\<close>.\<close>

definition direction_id_ok :: "string \<Rightarrow> bool" where
  "direction_id_ok s = (case s of [] \<Rightarrow> False
     | c # cs \<Rightarrow> is_alnum c \<and> length cs \<le> 79 \<and> list_all (\<lambda>x. is_alnum x \<or> x \<in> set ''_.:-'') cs)"

definition td_identifier :: "string \<Rightarrow> pyval \<Rightarrow> string td_res" where
  "td_identifier label v = (let text = text_of v in if direction_id_ok text then Inr text else Inl (ContractError label))"

definition required_text :: "string \<Rightarrow> nat \<Rightarrow> pyval \<Rightarrow> string td_res" where
  "required_text label limit v = (case v of
      PStr s \<Rightarrow> if py_strip s = [] then Inl (ContractError label)
        else if length (py_strip s) > limit then Inl (ContractError label) else Inr (py_strip s)
    | _ \<Rightarrow> Inl (ContractError label))"

definition enum :: "string \<Rightarrow> string list \<Rightarrow> pyval \<Rightarrow> string td_res" where
  "enum label allowed v = (let text = text_of v in if text \<in> set allowed then Inr text else Inl (ContractError label))"

definition reject_unknown_keys :: "string \<Rightarrow> string list \<Rightarrow> pydict \<Rightarrow> unit td_res" where
  "reject_unknown_keys label allowed d = raise_if (\<not> fst ` set d \<subseteq> set allowed) (ContractError label)"

definition required_list :: "string \<Rightarrow> nat \<Rightarrow> pyval \<Rightarrow> pyval list td_res" where
  "required_list label limit v = (case v of
      PList xs \<Rightarrow> if length xs > limit then Inl (ContractError label) else Inr xs
    | _ \<Rightarrow> Inl (ContractError label))"

definition item_object :: "string \<Rightarrow> string list \<Rightarrow> pyval \<Rightarrow> pydict td_res" where
  "item_object label allowed v = (case v of
      PDict d \<Rightarrow> rbind (reject_unknown_keys label allowed d) (\<lambda>_. Inr d)
    | _ \<Rightarrow> Inl (ContractError label))"

definition unique_ids :: "string \<Rightarrow> string list \<Rightarrow> unit td_res" where
  "unique_ids label values = raise_if (\<not> distinct values) (ContractError label)"

definition evidence_references :: "string \<Rightarrow> string list \<Rightarrow> pyval \<Rightarrow> string list td_res" where
  "evidence_references label ids v = (case v of
      PList xs \<Rightarrow> rbind (rmap (td_identifier label) xs) (\<lambda>refs.
        if \<not> distinct refs then Inl (ContractError label)
        else if \<not> set refs \<subseteq> set ids then Inl (ContractError label) else Inr refs)
    | _ \<Rightarrow> Inl (ContractError label))"

section \<open>Parsing and printing\<close>

definition HYPOTHESIS_STATUS :: "string list" where
  "HYPOTHESIS_STATUS = [''open'', ''confirmed'', ''rejected'']"

definition RISK_STATUS :: "string list" where
  "RISK_STATUS = [''open'', ''resolved'']"

definition SEVERITIES :: "string list" where
  "SEVERITIES = [''P0'', ''P1'', ''P2'', ''P3'']"

definition CRITERION_STATUS :: "string list" where
  "CRITERION_STATUS = [''pending'', ''met'', ''blocked'']"

definition EVIDENCE_KINDS :: "string list" where
  "EVIDENCE_KINDS = [''source'', ''test'', ''build'', ''security'', ''config'', ''worktree'', ''runtime'', ''other'']"

lemmas td_enums = HYPOTHESIS_STATUS_def RISK_STATUS_def SEVERITIES_def CRITERION_STATUS_def EVIDENCE_KINDS_def

definition parse_hypothesis :: "string list \<Rightarrow> pyval \<Rightarrow> direction_hypothesis td_res" where
  "parse_hypothesis ids v =
     rbind (item_object ''state.hypotheses'' [''id'', ''statement'', ''status'', ''evidence_ids''] v) (\<lambda>item.
     rbind (enum ''state.hypotheses.status'' HYPOTHESIS_STATUS (get item ''status'')) (\<lambda>status.
     rbind (evidence_references ''state.hypotheses.evidence_ids'' ids (get item ''evidence_ids'')) (\<lambda>refs.
     rbind (raise_if (status \<noteq> ''open'' \<and> refs = []) (ContractError ''state.hypotheses.evidence_ids'')) (\<lambda>_.
     rbind (td_identifier ''state.hypotheses.id'' (get item ''id'')) (\<lambda>i.
     rbind (required_text ''state.hypotheses.statement'' MAX_ITEM_STATEMENT_CHARS (get item ''statement'')) (\<lambda>statement.
     Inr \<lparr>hy_id = i, hy_statement = statement, hy_status = status, hy_refs = refs\<rparr>))))))"

definition parse_evidence :: "pyval \<Rightarrow> direction_evidence td_res" where
  "parse_evidence v =
     rbind (item_object ''state.evidence'' [''id'', ''kind'', ''summary'', ''source''] v) (\<lambda>item.
     rbind (td_identifier ''state.evidence.id'' (get item ''id'')) (\<lambda>i.
     rbind (enum ''state.evidence.kind'' EVIDENCE_KINDS (get item ''kind'')) (\<lambda>kind.
     rbind (required_text ''state.evidence.summary'' MAX_ITEM_STATEMENT_CHARS (get item ''summary'')) (\<lambda>summary.
     rbind (required_text ''state.evidence.source'' MAX_SOURCE_CHARS (get item ''source'')) (\<lambda>src.
     Inr \<lparr>ed_id = i, ed_kind = kind, ed_summary = summary, ed_source = src\<rparr>)))))"

definition parse_risk :: "string list \<Rightarrow> pyval \<Rightarrow> direction_risk td_res" where
  "parse_risk ids v =
     rbind (item_object ''state.unresolved_risks'' [''id'', ''severity'', ''statement'', ''status'', ''evidence_ids''] v) (\<lambda>item.
     rbind (enum ''state.unresolved_risks.status'' RISK_STATUS (get item ''status'')) (\<lambda>status.
     rbind (evidence_references ''state.unresolved_risks.evidence_ids'' ids (get item ''evidence_ids'')) (\<lambda>refs.
     rbind (raise_if (status = ''resolved'' \<and> refs = []) (ContractError ''state.unresolved_risks.evidence_ids'')) (\<lambda>_.
     rbind (td_identifier ''state.unresolved_risks.id'' (get item ''id'')) (\<lambda>i.
     rbind (enum ''state.unresolved_risks.severity'' SEVERITIES (get item ''severity'')) (\<lambda>severity.
     rbind (required_text ''state.unresolved_risks.statement'' MAX_ITEM_STATEMENT_CHARS (get item ''statement'')) (\<lambda>statement.
     Inr \<lparr>rk_id = i, rk_severity = severity, rk_statement = statement, rk_status = status, rk_refs = refs\<rparr>)))))))"

definition parse_criterion :: "string list \<Rightarrow> pyval \<Rightarrow> direction_criterion td_res" where
  "parse_criterion ids v =
     rbind (item_object ''state.done_criteria'' [''id'', ''statement'', ''status'', ''evidence_ids''] v) (\<lambda>item.
     rbind (enum ''state.done_criteria.status'' CRITERION_STATUS (get item ''status'')) (\<lambda>status.
     rbind (evidence_references ''state.done_criteria.evidence_ids'' ids (get item ''evidence_ids'')) (\<lambda>refs.
     rbind (raise_if (status = ''met'' \<and> refs = []) (ContractError ''state.done_criteria.evidence_ids'')) (\<lambda>_.
     rbind (td_identifier ''state.done_criteria.id'' (get item ''id'')) (\<lambda>i.
     rbind (required_text ''state.done_criteria.statement'' MAX_ITEM_STATEMENT_CHARS (get item ''statement'')) (\<lambda>statement.
     Inr \<lparr>cr_id = i, cr_statement = statement, cr_status = status, cr_refs = refs\<rparr>))))))"

definition parse_state :: "pyval \<Rightarrow> direction_state td_res" where
  "parse_state v = (case v of
      PDict p \<Rightarrow>
        rbind (reject_unknown_keys ''state'' [''objective'', ''hypotheses'', ''evidence'', ''unresolved_risks'', ''done_criteria''] p) (\<lambda>_.
        rbind (required_text ''state.objective'' MAX_OBJECTIVE_CHARS (get p ''objective'')) (\<lambda>objective.
        rbind (required_list ''state.evidence'' MAX_EVIDENCE (get p ''evidence'')) (\<lambda>xs.
        rbind (rmap parse_evidence xs) (\<lambda>evidence. let ids = map ed_id evidence in
        rbind (unique_ids ''state.evidence'' ids) (\<lambda>_.
        rbind (required_list ''state.hypotheses'' MAX_HYPOTHESES (get p ''hypotheses'')) (\<lambda>xs.
        rbind (rmap (parse_hypothesis ids) xs) (\<lambda>hypotheses.
        rbind (required_list ''state.unresolved_risks'' MAX_RISKS (get p ''unresolved_risks'')) (\<lambda>xs.
        rbind (rmap (parse_risk ids) xs) (\<lambda>risks.
        rbind (required_list ''state.done_criteria'' MAX_DONE_CRITERIA (get p ''done_criteria'')) (\<lambda>xs.
        rbind (rmap (parse_criterion ids) xs) (\<lambda>criteria.
        rbind (unique_ids ''state.hypotheses'' (map hy_id hypotheses)) (\<lambda>_.
        rbind (unique_ids ''state.unresolved_risks'' (map rk_id risks)) (\<lambda>_.
        rbind (unique_ids ''state.done_criteria'' (map cr_id criteria)) (\<lambda>_.
        rbind (raise_if (criteria = []) (ContractError ''state.done_criteria'')) (\<lambda>_.
        Inr \<lparr>ds_objective = objective, ds_hypotheses = hypotheses, ds_evidence = evidence, ds_risks = risks,
             ds_criteria = criteria\<rparr>)))))))))))))))
    | _ \<Rightarrow> Inl (ContractError ''state''))"

definition refs_val :: "string list \<Rightarrow> pyval" where
  "refs_val rs = PList (map PStr rs)"

definition hypothesis_payload :: "direction_hypothesis \<Rightarrow> pydict" where
  "hypothesis_payload h = [(''id'', PStr (hy_id h)), (''statement'', PStr (hy_statement h)), (''status'', PStr (hy_status h)),
     (''evidence_ids'', refs_val (hy_refs h))]"

definition evidence_payload :: "direction_evidence \<Rightarrow> pydict" where
  "evidence_payload e = [(''id'', PStr (ed_id e)), (''kind'', PStr (ed_kind e)), (''summary'', PStr (ed_summary e)),
     (''source'', PStr (ed_source e))]"

definition risk_payload :: "direction_risk \<Rightarrow> pydict" where
  "risk_payload r = [(''id'', PStr (rk_id r)), (''severity'', PStr (rk_severity r)), (''statement'', PStr (rk_statement r)),
     (''status'', PStr (rk_status r)), (''evidence_ids'', refs_val (rk_refs r))]"

definition criterion_payload :: "direction_criterion \<Rightarrow> pydict" where
  "criterion_payload c = [(''id'', PStr (cr_id c)), (''statement'', PStr (cr_statement c)), (''status'', PStr (cr_status c)),
     (''evidence_ids'', refs_val (cr_refs c))]"

text \<open>The payload of a state from the payloads of its items, which an update edits in place.\<close>

definition state_val :: "string \<Rightarrow> pydict list \<Rightarrow> pydict list \<Rightarrow> pydict list \<Rightarrow> pydict list \<Rightarrow> pyval" where
  "state_val objective hypotheses evidence risks criteria =
     PDict [(''objective'', PStr objective), (''hypotheses'', PList (map PDict hypotheses)),
       (''evidence'', PList (map PDict evidence)), (''unresolved_risks'', PList (map PDict risks)),
       (''done_criteria'', PList (map PDict criteria))]"

definition state_payload :: "direction_state \<Rightarrow> pyval" where
  "state_payload s = state_val (ds_objective s) (map hypothesis_payload (ds_hypotheses s)) (map evidence_payload (ds_evidence s))
     (map risk_payload (ds_risks s)) (map criterion_payload (ds_criteria s))"

section \<open>The contract as a predicate\<close>

definition text_ok :: "nat \<Rightarrow> string \<Rightarrow> bool" where
  "text_ok limit s \<longleftrightarrow> s \<noteq> [] \<and> py_strip s = s \<and> length s \<le> limit"

definition refs_ok :: "string list \<Rightarrow> string list \<Rightarrow> bool" where
  "refs_ok ids rs \<longleftrightarrow> distinct rs \<and> set rs \<subseteq> set ids"

definition hypothesis_ok :: "string list \<Rightarrow> direction_hypothesis \<Rightarrow> bool" where
  "hypothesis_ok ids h \<longleftrightarrow> direction_id_ok (hy_id h) \<and> text_ok MAX_ITEM_STATEMENT_CHARS (hy_statement h)
     \<and> hy_status h \<in> set HYPOTHESIS_STATUS \<and> refs_ok ids (hy_refs h) \<and> (hy_status h = ''open'' \<or> hy_refs h \<noteq> [])"

definition evidence_ok :: "direction_evidence \<Rightarrow> bool" where
  "evidence_ok e \<longleftrightarrow> direction_id_ok (ed_id e) \<and> ed_kind e \<in> set EVIDENCE_KINDS
     \<and> text_ok MAX_ITEM_STATEMENT_CHARS (ed_summary e) \<and> text_ok MAX_SOURCE_CHARS (ed_source e)"

definition risk_ok :: "string list \<Rightarrow> direction_risk \<Rightarrow> bool" where
  "risk_ok ids r \<longleftrightarrow> direction_id_ok (rk_id r) \<and> text_ok MAX_ITEM_STATEMENT_CHARS (rk_statement r) \<and> rk_severity r \<in> set SEVERITIES
     \<and> rk_status r \<in> set RISK_STATUS \<and> refs_ok ids (rk_refs r) \<and> (rk_status r = ''resolved'' \<longrightarrow> rk_refs r \<noteq> [])"

definition criterion_ok :: "string list \<Rightarrow> direction_criterion \<Rightarrow> bool" where
  "criterion_ok ids c \<longleftrightarrow> direction_id_ok (cr_id c) \<and> text_ok MAX_ITEM_STATEMENT_CHARS (cr_statement c)
     \<and> cr_status c \<in> set CRITERION_STATUS \<and> refs_ok ids (cr_refs c) \<and> (cr_status c = ''met'' \<longrightarrow> cr_refs c \<noteq> [])"

definition state_ok :: "direction_state \<Rightarrow> bool" where
  "state_ok s \<longleftrightarrow> (let ids = map ed_id (ds_evidence s) in text_ok MAX_OBJECTIVE_CHARS (ds_objective s)
     \<and> list_all evidence_ok (ds_evidence s) \<and> list_all (hypothesis_ok ids) (ds_hypotheses s)
     \<and> list_all (risk_ok ids) (ds_risks s) \<and> list_all (criterion_ok ids) (ds_criteria s)
     \<and> distinct ids \<and> distinct (map hy_id (ds_hypotheses s)) \<and> distinct (map rk_id (ds_risks s))
     \<and> distinct (map cr_id (ds_criteria s)) \<and> ds_criteria s \<noteq> []
     \<and> length (ds_evidence s) \<le> MAX_EVIDENCE \<and> length (ds_hypotheses s) \<le> MAX_HYPOTHESES
     \<and> length (ds_risks s) \<le> MAX_RISKS \<and> length (ds_criteria s) \<le> MAX_DONE_CRITERIA)"

section \<open>What the field parsers accept\<close>

lemma direction_id_ok_not_space: "direction_id_ok s \<Longrightarrow> c \<in> set s \<Longrightarrow> \<not> is_space c"
  by (auto simp: direction_id_ok_def is_alnum_def Let_def is_space_def char_code_def list_all_iff split: list.splits)

lemma direction_id_ok_strip [simp]: "direction_id_ok s \<Longrightarrow> py_strip s = s"
  by (rule py_strip_noop) (auto dest: direction_id_ok_not_space)

lemma td_identifier_Inr: "td_identifier l v = Inr s \<longleftrightarrow> s = text_of v \<and> direction_id_ok s"
  by (auto simp: td_identifier_def Let_def)

lemma td_identifier_PStr [simp]: "direction_id_ok s \<Longrightarrow> td_identifier l (PStr s) = Inr s"
  by (simp add: td_identifier_def)

lemma required_text_Inr: "required_text l n v = Inr s \<longleftrightarrow> (\<exists>t. v = PStr t \<and> s = py_strip t) \<and> text_ok n s"
  by (auto simp: required_text_def text_ok_def split: pyval.splits if_splits)

lemma required_text_PStr [simp]: "text_ok n s \<Longrightarrow> required_text l n (PStr s) = Inr s"
  by (simp add: required_text_def text_ok_def)

lemma enum_Inr: "enum l as v = Inr s \<longleftrightarrow> s = text_of v \<and> s \<in> set as"
  by (auto simp: enum_def Let_def)

lemma enum_PStr: "s \<in> set as \<Longrightarrow> py_strip s = s \<Longrightarrow> enum l as (PStr s) = Inr s"
  by (simp add: enum_def)

lemma enum_stripped:
  "s \<in> set HYPOTHESIS_STATUS \<Longrightarrow> py_strip s = s" "s \<in> set RISK_STATUS \<Longrightarrow> py_strip s = s"
  "s \<in> set SEVERITIES \<Longrightarrow> py_strip s = s" "s \<in> set CRITERION_STATUS \<Longrightarrow> py_strip s = s"
  "s \<in> set EVIDENCE_KINDS \<Longrightarrow> py_strip s = s"
  by (auto simp: td_enums strip_eval)

lemma required_list_Inr: "required_list l n v = Inr xs \<longleftrightarrow> v = PList xs \<and> length xs \<le> n"
  by (auto simp: required_list_def split: pyval.splits if_splits)

lemma item_object_Inr: "item_object l as v = Inr d \<longleftrightarrow> v = PDict d \<and> fst ` set d \<subseteq> set as"
  by (auto simp: item_object_def reject_unknown_keys_def raise_if_def split: pyval.splits if_splits)

lemma evidence_references_Inr:
  "evidence_references l ids v = Inr rs \<longleftrightarrow> (\<exists>xs. v = PList xs \<and> rmap (td_identifier l) xs = Inr rs) \<and> refs_ok ids rs"
  by (auto simp: evidence_references_def refs_ok_def split: pyval.splits if_splits)

lemma evidence_references_val [simp]:
  assumes "refs_ok ids rs" and "list_all direction_id_ok ids"
  shows "evidence_references l ids (refs_val rs) = Inr rs"
proof -
  have "rmap (td_identifier l) (map PStr rs) = Inr rs"
    using assms by (auto simp: rmap_Inr_iff list_all2_map1 refs_ok_def list_all_iff list_all2_same)
  then show ?thesis using assms(1) by (simp add: evidence_references_Inr refs_val_def)
qed

lemmas td_Inr = td_identifier_Inr required_text_Inr enum_Inr required_list_Inr item_object_Inr evidence_references_Inr

text \<open>An accepted item: where each field comes from, and that it meets the contract.\<close>

lemma parse_hypothesis_Inr:
  assumes "parse_hypothesis ids v = Inr h"
  shows "hypothesis_ok ids h" "\<exists>d. v = PDict d \<and> hy_id h = text_of (get d ''id'') \<and> hy_status h = text_of (get d ''status'')
    \<and> (\<exists>t. get d ''statement'' = PStr t \<and> hy_statement h = py_strip t)"
  using assms by (auto simp: parse_hypothesis_def td_Inr hypothesis_ok_def)

lemma parse_evidence_Inr:
  assumes "parse_evidence v = Inr e"
  shows "evidence_ok e" "\<exists>d. v = PDict d \<and> ed_id e = text_of (get d ''id'')"
  using assms by (auto simp: parse_evidence_def td_Inr evidence_ok_def)

lemma parse_risk_Inr:
  assumes "parse_risk ids v = Inr r"
  shows "risk_ok ids r" "\<exists>d. v = PDict d \<and> rk_id r = text_of (get d ''id'') \<and> rk_status r = text_of (get d ''status'')
    \<and> rk_severity r = text_of (get d ''severity'') \<and> (\<exists>t. get d ''statement'' = PStr t \<and> rk_statement r = py_strip t)"
  using assms by (auto simp: parse_risk_def td_Inr risk_ok_def)

lemma parse_criterion_Inr:
  assumes "parse_criterion ids v = Inr c"
  shows "criterion_ok ids c" "\<exists>d. v = PDict d \<and> cr_id c = text_of (get d ''id'') \<and> cr_status c = text_of (get d ''status'')
    \<and> (\<exists>t. get d ''statement'' = PStr t \<and> cr_statement c = py_strip t)"
  using assms by (auto simp: parse_criterion_def td_Inr criterion_ok_def)

section \<open>Parsing what was printed\<close>

lemma parse_hypothesis_payload:
  "hypothesis_ok ids h \<Longrightarrow> list_all direction_id_ok ids \<Longrightarrow> parse_hypothesis ids (PDict (hypothesis_payload h)) = Inr h"
  by (auto simp: parse_hypothesis_def hypothesis_payload_def item_object_def reject_unknown_keys_def hypothesis_ok_def
      enum_PStr enum_stripped)

lemma parse_evidence_payload: "evidence_ok e \<Longrightarrow> parse_evidence (PDict (evidence_payload e)) = Inr e"
  by (auto simp: parse_evidence_def evidence_payload_def item_object_def reject_unknown_keys_def evidence_ok_def
      enum_PStr enum_stripped)

lemma parse_risk_payload: "risk_ok ids r \<Longrightarrow> list_all direction_id_ok ids \<Longrightarrow> parse_risk ids (PDict (risk_payload r)) = Inr r"
  by (auto simp: parse_risk_def risk_payload_def item_object_def reject_unknown_keys_def risk_ok_def enum_PStr enum_stripped)

lemma parse_criterion_payload:
  "criterion_ok ids c \<Longrightarrow> list_all direction_id_ok ids \<Longrightarrow> parse_criterion ids (PDict (criterion_payload c)) = Inr c"
  by (auto simp: parse_criterion_def criterion_payload_def item_object_def reject_unknown_keys_def criterion_ok_def
      enum_PStr enum_stripped)

lemma rmap_payloads: "list_all (\<lambda>x. f (PDict (g x)) = Inr x) xs \<Longrightarrow> rmap f (map PDict (map g xs)) = Inr xs"
  by (induction xs) simp_all

lemma rmap_list_all: "rmap f xs = Inr ys \<Longrightarrow> (\<And>x y. f x = Inr y \<Longrightarrow> P y) \<Longrightarrow> list_all P ys"
  by (induction xs arbitrary: ys) auto

lemma parsed_items_ok:
  "rmap parse_evidence xs = Inr es \<Longrightarrow> list_all evidence_ok es"
  "rmap (parse_hypothesis ids) xs = Inr hs \<Longrightarrow> list_all (hypothesis_ok ids) hs"
  "rmap (parse_risk ids) xs = Inr rs \<Longrightarrow> list_all (risk_ok ids) rs"
  "rmap (parse_criterion ids) xs = Inr cs \<Longrightarrow> list_all (criterion_ok ids) cs"
  by (erule rmap_list_all; rule parse_evidence_Inr(1) parse_hypothesis_Inr(1) parse_risk_Inr(1) parse_criterion_Inr(1); assumption)+

text \<open>What an accepted payload of a state is.\<close>

lemma parse_state_val:
  "parse_state (state_val ob hs es rs cs) = Inr s \<longleftrightarrow> ds_objective s = py_strip ob \<and> rmap parse_evidence (map PDict es) = Inr (ds_evidence s)
     \<and> rmap (parse_hypothesis (map ed_id (ds_evidence s))) (map PDict hs) = Inr (ds_hypotheses s)
     \<and> rmap (parse_risk (map ed_id (ds_evidence s))) (map PDict rs) = Inr (ds_risks s)
     \<and> rmap (parse_criterion (map ed_id (ds_evidence s))) (map PDict cs) = Inr (ds_criteria s) \<and> state_ok s"
proof
  assume "parse_state (state_val ob hs es rs cs) = Inr s"
  then show "ds_objective s = py_strip ob \<and> rmap parse_evidence (map PDict es) = Inr (ds_evidence s)
     \<and> rmap (parse_hypothesis (map ed_id (ds_evidence s))) (map PDict hs) = Inr (ds_hypotheses s)
     \<and> rmap (parse_risk (map ed_id (ds_evidence s))) (map PDict rs) = Inr (ds_risks s)
     \<and> rmap (parse_criterion (map ed_id (ds_evidence s))) (map PDict cs) = Inr (ds_criteria s) \<and> state_ok s"
    by (auto simp: parse_state_def state_val_def Let_def unique_ids_def td_Inr state_ok_def dest: rmap_Inr_length
        intro: parsed_items_ok)
next
  assume a: "ds_objective s = py_strip ob \<and> rmap parse_evidence (map PDict es) = Inr (ds_evidence s)
     \<and> rmap (parse_hypothesis (map ed_id (ds_evidence s))) (map PDict hs) = Inr (ds_hypotheses s)
     \<and> rmap (parse_risk (map ed_id (ds_evidence s))) (map PDict rs) = Inr (ds_risks s)
     \<and> rmap (parse_criterion (map ed_id (ds_evidence s))) (map PDict cs) = Inr (ds_criteria s) \<and> state_ok s"
  then have "length es = length (ds_evidence s)" "length hs = length (ds_hypotheses s)" "length rs = length (ds_risks s)"
      "length cs = length (ds_criteria s)" by (auto dest!: rmap_Inr_length)
  moreover have "required_text ''state.objective'' MAX_OBJECTIVE_CHARS (PStr ob) = Inr (ds_objective s)"
    using a by (auto simp: required_text_Inr state_ok_def Let_def)
  ultimately show "parse_state (state_val ob hs es rs cs) = Inr s"
    using a by (simp add: parse_state_def state_val_def Let_def unique_ids_def state_ok_def required_list_def reject_unknown_keys_def)
qed

lemma state_ok_ids: "state_ok s \<Longrightarrow> list_all direction_id_ok (map ed_id (ds_evidence s))"
  by (auto simp: state_ok_def Let_def list_all_iff evidence_ok_def)

lemma parse_state_payload: "state_ok s \<Longrightarrow> parse_state (state_payload s) = Inr s"
  unfolding state_payload_def parse_state_val
proof (intro conjI rmap_payloads)
  assume ok: "state_ok s"
  show "list_all (\<lambda>x. parse_evidence (PDict (evidence_payload x)) = Inr x) (ds_evidence s)"
    using ok by (auto simp: state_ok_def Let_def list_all_iff parse_evidence_payload)
  show "list_all (\<lambda>x. parse_hypothesis (map ed_id (ds_evidence s)) (PDict (hypothesis_payload x)) = Inr x) (ds_hypotheses s)"
    using ok state_ok_ids [OF ok] by (auto simp: state_ok_def Let_def list_all_iff parse_hypothesis_payload)
  show "list_all (\<lambda>x. parse_risk (map ed_id (ds_evidence s)) (PDict (risk_payload x)) = Inr x) (ds_risks s)"
    using ok state_ok_ids [OF ok] by (auto simp: state_ok_def Let_def list_all_iff parse_risk_payload)
  show "list_all (\<lambda>x. parse_criterion (map ed_id (ds_evidence s)) (PDict (criterion_payload x)) = Inr x) (ds_criteria s)"
    using ok state_ok_ids [OF ok] by (auto simp: state_ok_def Let_def list_all_iff parse_criterion_payload)
  show "ds_objective s = py_strip (ds_objective s)" using ok by (simp add: state_ok_def Let_def text_ok_def)
qed simp

lemma parse_state_ok: "parse_state v = Inr s \<Longrightarrow> state_ok s"
  by (auto simp: parse_state_def Let_def unique_ids_def td_Inr state_ok_def dest: rmap_Inr_length split: pyval.splits
        intro: parsed_items_ok)

text \<open>The contract of a task direction is exact: every payload that is accepted gives a state that meets
  it, and every state that meets it prints to a payload that is accepted and gives the same state.\<close>

lemma direction_roundtrip:
  "(parse_state v = Inr s \<longrightarrow> state_ok s) \<and> (state_ok s \<longrightarrow> parse_state (state_payload s) = Inr s)"
  using parse_state_ok parse_state_payload by blast

definition sample_state :: direction_state where
  "sample_state = \<lparr>ds_objective = ''ship'',
     ds_hypotheses = [\<lparr>hy_id = ''h1'', hy_statement = ''it works'', hy_status = ''open'', hy_refs = []\<rparr>],
     ds_evidence = [\<lparr>ed_id = ''e1'', ed_kind = ''test'', ed_summary = ''passed'', ed_source = ''ci''\<rparr>],
     ds_risks = [\<lparr>rk_id = ''r1'', rk_severity = ''P1'', rk_statement = ''late'', rk_status = ''open'', rk_refs = []\<rparr>],
     ds_criteria = [\<lparr>cr_id = ''c1'', cr_statement = ''tests pass'', cr_status = ''pending'', cr_refs = []\<rparr>]\<rparr>"

lemma sample_state_ok: "state_ok sample_state"
  by code_simp

lemma direction_roundtrip_witness: "parse_state (state_payload sample_state) = Inr sample_state"
  using direction_roundtrip sample_state_ok by blast

end
