(* ===== verification/DirectionStore.thy ===== *)
theory DirectionStore
  imports TaskDirection "HOL-Library.Sublist"
begin

text \<open>
  Changing a task direction: incremental updates (\<open>task_direction_update.py\<close>), the resolution that
  completes it (\<open>task_direction_completion.py\<close>) and the file it is kept in
  (\<open>TaskDirectionStore\<close> of \<open>task_direction_store.py\<close>), whose operations run under an
  interprocess lock and so one after the other. The file is its JSON value, or nothing. Updates
  edit the payloads of the items in place; an index from ids to positions stands for the
  dictionary of references to them.
\<close>

section \<open>Updates\<close>

definition td_objects :: "string \<Rightarrow> pyval \<Rightarrow> pydict list td_res" where
  "td_objects label v = (case v of
      PList xs \<Rightarrow> rmap (\<lambda>x. case x of PDict d \<Rightarrow> Inr d | _ \<Rightarrow> Inl (ContractError label)) xs
    | _ \<Rightarrow> Inl (ContractError label))"

definition item_ids :: "string \<Rightarrow> pydict list \<Rightarrow> string list td_res" where
  "item_ids label items = rbind (rmap (\<lambda>d. let i = text_of (get d ''id'') in
       if i = [] then Inl (ContractError label) else Inr i) items) (\<lambda>ids.
     rbind (raise_if (\<not> distinct ids) (ContractError label)) (\<lambda>_. Inr ids))"

definition id_index :: "pydict list \<Rightarrow> nat dict" where
  "id_index items = fold (\<lambda>(n, d). dict_set (py_str (get d ''id'')) n) (enumerate 0 items) []"

definition append_new_evidence :: "string \<Rightarrow> pydict list \<Rightarrow> pydict list \<Rightarrow> (pydict list \<times> string list) td_res" where
  "append_new_evidence label items additions = rbind (item_ids label additions) (\<lambda>ids.
     if set (map (\<lambda>d. py_str (get d ''id'')) items) \<inter> set ids \<noteq> {} then Inl (ContractError label)
     else Inr (items @ additions, ids))"

fun upsert_item ::
    "string \<Rightarrow> string list \<Rightarrow> string list \<Rightarrow> string \<times> pydict \<Rightarrow> pydict list \<times> nat dict \<Rightarrow> (pydict list \<times> nat dict) td_res" where
  "upsert_item label immutable terminal (i, update) (items, index) = (case map_of index i of
      None \<Rightarrow> Inr (items @ [update], dict_set i (length items) index)
    | Some n \<Rightarrow> let current = items ! n in
        if py_eq (PDict current) (PDict update) then Inl (ContractError label)
        else if list_ex (\<lambda>f. \<not> py_eq (get update f) (get current f)) immutable then Inl (ContractError label)
        else if str_or (get current ''status'') \<in> set terminal \<and> str_or (get update ''status'') \<noteq> str_or (get current ''status'')
        then Inl (ContractError label)
        else Inr (items[n := update], index))"

definition upsert_items ::
    "string \<Rightarrow> string list \<Rightarrow> string list \<Rightarrow> pydict list \<Rightarrow> pydict list \<Rightarrow> (pydict list \<times> string list) td_res" where
  "upsert_items label immutable terminal items updates = rbind (item_ids label updates) (\<lambda>ids.
     rbind (rfold (upsert_item label immutable terminal) (zip ids updates) (items, id_index items)) (\<lambda>(items, index).
     Inr (items, ids)))"

record direction_update =
  du_state :: direction_state
  du_evidence :: "string list"
  du_hypotheses :: "string list"
  du_risks :: "string list"
  du_criteria :: "string list"

definition parse_update :: "pyval \<Rightarrow> direction_state \<Rightarrow> direction_update td_res" where
  "parse_update payload s = (case payload of
      PDict p \<Rightarrow>
        rbind (reject_unknown_keys ''update'' [''evidence'', ''hypotheses'', ''risks'', ''criteria''] p) (\<lambda>_.
        rbind (td_objects ''update.evidence'' (get p ''evidence'')) (\<lambda>evidence.
        rbind (td_objects ''update.hypotheses'' (get p ''hypotheses'')) (\<lambda>hypotheses.
        rbind (td_objects ''update.risks'' (get p ''risks'')) (\<lambda>risks.
        rbind (td_objects ''update.criteria'' (get p ''criteria'')) (\<lambda>criteria.
        rbind (raise_if (evidence = [] \<and> hypotheses = [] \<and> risks = [] \<and> criteria = [])
          (ContractError ''update must contain at least one change'')) (\<lambda>_.
        rbind (append_new_evidence ''update.evidence'' (map evidence_payload (ds_evidence s)) evidence) (\<lambda>(es, e_ids).
        rbind (upsert_items ''update.hypotheses'' [''statement''] [''confirmed'', ''rejected'']
          (map hypothesis_payload (ds_hypotheses s)) hypotheses) (\<lambda>(hs, h_ids).
        rbind (upsert_items ''update.risks'' [''severity'', ''statement''] [''resolved'']
          (map risk_payload (ds_risks s)) risks) (\<lambda>(rs, r_ids).
        rbind (upsert_items ''update.criteria'' [''statement''] [''met'', ''blocked'']
          (map criterion_payload (ds_criteria s)) criteria) (\<lambda>(cs, c_ids).
        rbind (parse_state (state_val (ds_objective s) hs es rs cs)) (\<lambda>next.
        Inr \<lparr>du_state = next, du_evidence = e_ids, du_hypotheses = h_ids, du_risks = r_ids, du_criteria = c_ids\<rparr>)))))))))))
    | _ \<Rightarrow> Inl (ContractError ''update''))"

section \<open>Completion\<close>

definition apply_resolution ::
    "string \<Rightarrow> string list \<Rightarrow> nat dict \<Rightarrow> pydict \<Rightarrow> pydict list \<Rightarrow> pydict list td_res" where
  "apply_resolution label allowed index resolution items =
     rbind (reject_unknown_keys label [''id'', ''status'', ''evidence_ids''] resolution) (\<lambda>_.
     rbind (enum label allowed (get resolution ''status'')) (\<lambda>status.
     case get resolution ''evidence_ids'' of
       PList refs \<Rightarrow> (case map_of index (py_str (get resolution ''id'')) of
           None \<Rightarrow> Inl (TaskKeyError (py_str (get resolution ''id'')))
         | Some n \<Rightarrow> Inr (items[n := dict_set ''evidence_ids'' (PList refs) (dict_set ''status'' (PStr status) (items ! n))]))
     | _ \<Rightarrow> Inl (ContractError label)))"

definition apply_resolutions ::
    "string \<Rightarrow> string list \<Rightarrow> string list option \<Rightarrow> pydict list \<Rightarrow> pydict list \<Rightarrow> pydict list td_res" where
  "apply_resolutions label allowed required items resolutions = rbind (item_ids label resolutions) (\<lambda>ids.
     let index = id_index items in
     rbind (raise_if (\<not> set ids \<subseteq> fst ` set index) (ContractError label)) (\<lambda>_.
     rbind (raise_if (case required of None \<Rightarrow> False | Some r \<Rightarrow> set ids \<noteq> set r) (ContractError label)) (\<lambda>_.
     rfold (apply_resolution label allowed index) resolutions items)))"

definition pending_ids :: "pydict list \<Rightarrow> string list" where
  "pending_ids items = map (\<lambda>d. py_str (get d ''id'')) (filter (\<lambda>d. get d ''status'' = PStr ''pending'') items)"

definition positive_int :: "string \<Rightarrow> pyval \<Rightarrow> int td_res" where
  "positive_int label v = (case v of PInt i \<Rightarrow> if i \<le> 0 then Inl (ContractError label) else Inr i | _ \<Rightarrow> Inl (ContractError label))"

definition parse_completion :: "pyval \<Rightarrow> direction_state \<Rightarrow> (int \<times> direction_state) td_res" where
  "parse_completion payload s = (case payload of
      PDict p \<Rightarrow>
        rbind (reject_unknown_keys ''completion'' [''expected_revision'', ''evidence'', ''hypotheses'', ''risks'', ''criteria''] p) (\<lambda>_.
        rbind (positive_int ''completion.expected_revision'' (get p ''expected_revision'')) (\<lambda>revision.
        rbind (td_objects ''completion.evidence'' (get p ''evidence'')) (\<lambda>additions.
        rbind (append_new_evidence ''completion.evidence'' (map evidence_payload (ds_evidence s)) additions) (\<lambda>(es, e_ids).
        rbind (td_objects ''completion.hypotheses'' (get p ''hypotheses'')) (\<lambda>hypotheses.
        rbind (apply_resolutions ''completion.hypotheses'' [''confirmed'', ''rejected''] None
          (map hypothesis_payload (ds_hypotheses s)) hypotheses) (\<lambda>hs.
        rbind (td_objects ''completion.risks'' (get p ''risks'')) (\<lambda>risks.
        rbind (apply_resolutions ''completion.risks'' [''resolved''] None (map risk_payload (ds_risks s)) risks) (\<lambda>rs.
        rbind (td_objects ''completion.criteria'' (get p ''criteria'')) (\<lambda>criteria. let items = map criterion_payload (ds_criteria s) in
        rbind (apply_resolutions ''completion.criteria'' [''met'', ''blocked''] (Some (pending_ids items)) items criteria) (\<lambda>cs.
        rbind (parse_state (state_val (ds_objective s) hs es rs cs)) (\<lambda>next.
        Inr (revision, next))))))))))))
    | _ \<Rightarrow> Inl (ContractError ''completion''))"

section \<open>The file\<close>

record stored_direction =
  sd_task :: string
  sd_status :: string
  sd_revision :: int
  sd_updated :: string
  sd_state :: direction_state

definition stored_payload :: "stored_direction \<Rightarrow> pyval" where
  "stored_payload st = PDict [(''schema_version'', PInt 2), (''task_id'', PStr (sd_task st)), (''status'', PStr (sd_status st)),
     (''revision'', PInt (sd_revision st)), (''updated_at'', PStr (sd_updated st)), (''state'', state_payload (sd_state st))]"

definition required_task_id :: "pyval \<Rightarrow> string td_res" where
  "required_task_id v = (let t = text_of v in
     if t = [] then Inl (ContractError ''task_id'') else if length t > 512 then Inl (ContractError ''task_id'') else Inr t)"

definition parse_stored :: "pyval \<Rightarrow> stored_direction td_res" where
  "parse_stored v = (case v of
      PDict p \<Rightarrow>
        rbind (reject_unknown_keys ''task_direction.json''
          [''schema_version'', ''task_id'', ''status'', ''revision'', ''updated_at'', ''state''] p) (\<lambda>_.
        rbind (raise_if (\<not> py_eq (get p ''schema_version'') (PInt 2)) (ContractError ''schema_version'')) (\<lambda>_.
        rbind (required_task_id (get p ''task_id'')) (\<lambda>task.
        rbind (enum ''status'' [''active'', ''completed''] (get p ''status'')) (\<lambda>status.
        rbind (positive_int ''revision'' (get p ''revision'')) (\<lambda>revision.
        let updated = text_of (get p ''updated_at'') in
        rbind (raise_if (updated = []) (ContractError ''updated_at'')) (\<lambda>_.
        rbind (parse_state (get p ''state'')) (\<lambda>s.
        Inr \<lparr>sd_task = task, sd_status = status, sd_revision = revision, sd_updated = updated, sd_state = s\<rparr>)))))))
    | _ \<Rightarrow> Inl (ContractError ''task_direction.json''))"

type_synonym direction_file = "pyval option"

definition td_read :: "string \<Rightarrow> direction_file \<Rightarrow> stored_direction option td_res" where
  "td_read task file = (case file of None \<Rightarrow> Inr None
     | Some payload \<Rightarrow> rbind (parse_stored payload) (\<lambda>st.
         if sd_task st \<noteq> task then Inl (ContractError ''task_id does not match'') else Inr (Some st)))"

definition non_negative_int :: "string \<Rightarrow> pyval \<Rightarrow> int td_res" where
  "non_negative_int label v = (case v of PInt i \<Rightarrow> if i < 0 then Inl (ContractError label) else Inr i | _ \<Rightarrow> Inl (ContractError label))"

definition td_replace ::
    "string \<Rightarrow> string \<Rightarrow> pyval \<Rightarrow> pyval \<Rightarrow> direction_file \<Rightarrow> (direction_file \<times> stored_direction) td_res" where
  "td_replace task now expected state file =
     rbind (non_negative_int ''expected_revision'' expected) (\<lambda>expected.
     rbind (parse_state state) (\<lambda>parsed.
     rbind (td_read task file) (\<lambda>current.
     let revision = (case current of None \<Rightarrow> 0 | Some c \<Rightarrow> sd_revision c) in
     if revision \<noteq> expected then Inl (RevisionConflict expected revision)
     else case current of
       Some c \<Rightarrow> if sd_status c = ''completed'' then Inl (ContractError ''completed task direction cannot be replaced'')
         else Inl (ContractError ''task direction is already initialized'')
     | None \<Rightarrow> let st = \<lparr>sd_task = task, sd_status = ''active'', sd_revision = revision + 1, sd_updated = now, sd_state = parsed\<rparr>
         in Inr (Some (stored_payload st), st))))"

definition td_update ::
    "string \<Rightarrow> string \<Rightarrow> pyval \<Rightarrow> pyval \<Rightarrow> direction_file \<Rightarrow> (direction_file \<times> stored_direction \<times> direction_update) td_res" where
  "td_update task now expected update file =
     rbind (positive_int ''expected_revision'' expected) (\<lambda>expected.
     rbind (td_read task file) (\<lambda>current. case current of
       None \<Rightarrow> Inl (ContractError ''task direction must be initialized before update'')
     | Some c \<Rightarrow>
         if sd_revision c \<noteq> expected then Inl (RevisionConflict expected (sd_revision c))
         else if sd_status c = ''completed'' then Inl (ContractError ''completed task direction cannot be updated'')
         else rbind (parse_update update (sd_state c)) (\<lambda>u.
           let st = \<lparr>sd_task = task, sd_status = ''active'', sd_revision = sd_revision c + 1, sd_updated = now, sd_state = du_state u\<rparr>
           in Inr (Some (stored_payload st), st, u))))"

definition td_complete ::
    "string \<Rightarrow> string \<Rightarrow> pyval \<Rightarrow> pyval option \<Rightarrow> direction_file \<Rightarrow> (direction_file \<times> stored_direction) td_res" where
  "td_complete task now expected state file =
     rbind (positive_int ''expected_revision'' expected) (\<lambda>expected.
     rbind (case state of None \<Rightarrow> Inr None | Some v \<Rightarrow> rbind (parse_state v) (\<lambda>s. Inr (Some s))) (\<lambda>parsed.
     rbind (td_read task file) (\<lambda>current. case current of
       None \<Rightarrow> Inl (ContractError ''task direction must be initialized before completion'')
     | Some c \<Rightarrow>
         if sd_revision c \<noteq> expected then Inl (RevisionConflict expected (sd_revision c))
         else if sd_status c = ''completed''
         then (if parsed \<noteq> None \<and> parsed \<noteq> Some (sd_state c)
               then Inl (ContractError ''completed task direction cannot be replaced during completion'') else Inr (file, c))
         else let st = \<lparr>sd_task = task, sd_status = ''completed'', sd_revision = sd_revision c + 1, sd_updated = now,
                 sd_state = (case parsed of None \<Rightarrow> sd_state c | Some s \<Rightarrow> s)\<rparr>
           in Inr (Some (stored_payload st), st))))"

section \<open>What an update keeps\<close>

lemma id_index_snoc: "id_index (xs @ [x]) = dict_set (py_str (get x ''id'')) (length xs) (id_index xs)"
  by (simp add: id_index_def enumerate_append_eq)

lemma id_index_sound: "map_of (id_index items) k = Some n \<Longrightarrow> n < length items \<and> py_str (get (items ! n) ''id'') = k"
proof (induction items rule: rev_induct)
  case (snoc x xs)
  then show ?case by (cases "k = py_str (get x ''id'')") (auto simp: id_index_snoc nth_append)
qed (simp add: id_index_def)

lemma id_index_complete: "n < length items \<Longrightarrow> \<exists>m. map_of (id_index items) (py_str (get (items ! n) ''id'')) = Some m"
proof (induction items rule: rev_induct)
  case (snoc x xs)
  then show ?case by (cases "n = length xs") (auto simp: id_index_snoc nth_append)
qed simp

text \<open>An item of a state and what an update makes of it.\<close>

definition kept :: "string list \<Rightarrow> string list \<Rightarrow> pydict \<Rightarrow> pydict \<Rightarrow> bool" where
  "kept immutable terminal c u \<longleftrightarrow> text_of (get u ''id'') = text_of (get c ''id'') \<and> (\<forall>f \<in> set immutable. get u f = get c f)
     \<and> (str_or (get c ''status'') \<in> set terminal \<longrightarrow> str_or (get u ''status'') = str_or (get c ''status''))"

definition plain :: "string list \<Rightarrow> pydict \<Rightarrow> bool" where
  "plain immutable d \<longleftrightarrow> (\<exists>s. get d ''id'' = PStr s \<and> direction_id_ok s) \<and> (\<forall>f \<in> set immutable. \<exists>s. get d f = PStr s)"

lemma kept_refl: "kept im te c c"
  by (simp add: kept_def)

lemma kept_trans: "kept im te a b \<Longrightarrow> kept im te b c \<Longrightarrow> kept im te a c"
  by (simp add: kept_def)

text \<open>Through the loop: the index points at items with their id, and the items that were there are kept.\<close>

definition upsert_inv :: "string list \<Rightarrow> string list \<Rightarrow> pydict list \<Rightarrow> pydict list \<times> nat dict \<Rightarrow> bool" where
  "upsert_inv im te old st = (case st of (items, index) \<Rightarrow>
     (\<forall>k n. map_of index k = Some n \<longrightarrow> n < length items \<and> text_of (get (items ! n) ''id'') = k)
     \<and> length old \<le> length items \<and> (\<forall>n < length old. kept im te (old ! n) (items ! n)))"

lemma upsert_item_inv:
  assumes old: "list_all (plain im) old" and inv: "upsert_inv im te old (items, index)"
    and step: "upsert_item l im te (i, u) (items, index) = Inr st" and i: "i = text_of (get u ''id'')"
  shows "upsert_inv im te old st"
proof (cases "map_of index i")
  case None
  then have "st = (items @ [u], dict_set i (length items) index)" using step by simp
  then show ?thesis using inv i by (fastforce simp: upsert_inv_def nth_append)
next
  case (Some n)
  let ?c = "items ! n"
  have n: "n < length items" "text_of (get ?c ''id'') = i" using inv Some by (auto simp: upsert_inv_def)
  have st: "st = (items[n := u], index)" and eqs: "\<forall>f \<in> set im. py_eq (get u f) (get ?c f)"
    and settled: "str_or (get ?c ''status'') \<in> set te \<longrightarrow> str_or (get u ''status'') = str_or (get ?c ''status'')"
    using step Some by (auto simp: Let_def list_ex_iff split: if_splits)
  have "kept im te (old ! m) ((items[n := u]) ! m)" if m: "m < length old" for m
  proof (cases "m = n")
    case True
    have k: "kept im te (old ! n) ?c" using inv m True by (auto simp: upsert_inv_def)
    then have "\<forall>f \<in> set im. \<exists>s. get ?c f = PStr s"
      using old m True by (auto simp: kept_def plain_def list_all_length)
    then have "kept im te ?c u" using eqs settled n(2) i by (force simp: kept_def)
    then show ?thesis using k True n(1) kept_trans by auto
  next
    case False
    then show ?thesis using inv m by (auto simp: upsert_inv_def)
  qed
  moreover have "map_of index k = Some m \<Longrightarrow> text_of (get ((items[n := u]) ! m) ''id'') = k" for k m
    using inv n i by (cases "m = n") (auto simp: upsert_inv_def)
  ultimately show ?thesis using inv unfolding st by (auto simp: upsert_inv_def)
qed

lemma item_ids_Inr: "item_ids l us = Inr ids \<Longrightarrow> ids = map (\<lambda>u. text_of (get u ''id'')) us \<and> [] \<notin> set ids"
proof -
  have "rmap (\<lambda>d. let i = text_of (get d ''id'') in if i = [] then Inl e else Inr i) us = Inr ids
      \<Longrightarrow> ids = map (\<lambda>u. text_of (get u ''id'')) us \<and> [] \<notin> set ids" for e :: td_error and ids
    by (induction us arbitrary: ids) (auto simp: Let_def split: if_splits)
  then show "item_ids l us = Inr ids \<Longrightarrow> ids = map (\<lambda>u. text_of (get u ''id'')) us \<and> [] \<notin> set ids"
    unfolding item_ids_def by blast
qed

lemma upsert_items_kept:
  assumes "upsert_items l im te old us = Inr (items, ids)" and plain: "list_all (plain im) old"
  shows "length old \<le> length items \<and> (\<forall>n < length old. kept im te (old ! n) (items ! n))"
proof -
  obtain index where r: "rfold (upsert_item l im te) (zip ids us) (old, id_index old) = Inr (items, index)"
      and ids: "ids = map (\<lambda>u. text_of (get u ''id'')) us"
    using assms(1) by (auto simp: upsert_items_def dest: item_ids_Inr)
  have "upsert_inv im te old (items, index)"
    using r
  proof (rule rfold_invariant)
    have "text_of (get (old ! n) ''id'') = k" "n < length old" if "map_of (id_index old) k = Some n" for k n
      using id_index_sound [OF that] plain by (auto simp: list_all_length plain_def)
    then show "upsert_inv im te old (old, id_index old)" by (simp add: upsert_inv_def kept_refl)
  next
    fix x st st'
    assume "x \<in> set (zip ids us)" "upsert_inv im te old st" "upsert_item l im te x st = Inr st'"
    moreover obtain i u items index where "x = (i, u)" "st = (items, index)" by (cases x; cases st) blast
    moreover from calculation have "i = text_of (get u ''id'')" unfolding ids by (auto simp: in_set_zip)
    ultimately show "upsert_inv im te old st'" using upsert_item_inv [OF plain] by metis
  qed
  then show ?thesis by (simp add: upsert_inv_def)
qed

lemma append_new_evidence_Inr: "append_new_evidence l items us = Inr (items', ids) \<Longrightarrow> items' = items @ us"
  by (auto simp: append_new_evidence_def split: if_splits)

text \<open>A later state of the same direction: nothing is dropped or reworded, and what was settled stays settled.\<close>

definition continues :: "direction_state \<Rightarrow> direction_state \<Rightarrow> bool" where
  "continues s s' \<longleftrightarrow> ds_objective s' = ds_objective s \<and> prefix (ds_evidence s) (ds_evidence s')
     \<and> length (ds_hypotheses s) \<le> length (ds_hypotheses s')
     \<and> (\<forall>n < length (ds_hypotheses s). let h = ds_hypotheses s ! n; h' = ds_hypotheses s' ! n in
          hy_id h' = hy_id h \<and> hy_statement h' = hy_statement h \<and> (hy_status h \<noteq> ''open'' \<longrightarrow> hy_status h' = hy_status h))
     \<and> length (ds_risks s) \<le> length (ds_risks s')
     \<and> (\<forall>n < length (ds_risks s). let r = ds_risks s ! n; r' = ds_risks s' ! n in
          rk_id r' = rk_id r \<and> rk_severity r' = rk_severity r \<and> rk_statement r' = rk_statement r
          \<and> (rk_status r = ''resolved'' \<longrightarrow> rk_status r' = ''resolved''))
     \<and> length (ds_criteria s) \<le> length (ds_criteria s')
     \<and> (\<forall>n < length (ds_criteria s). let c = ds_criteria s ! n; c' = ds_criteria s' ! n in
          cr_id c' = cr_id c \<and> cr_statement c' = cr_statement c \<and> (cr_status c \<noteq> ''pending'' \<longrightarrow> cr_status c' = cr_status c))"

lemma rmap_append_Inr: "rmap f (xs @ ys) = Inr zs \<longleftrightarrow> (\<exists>us vs. rmap f xs = Inr us \<and> rmap f ys = Inr vs \<and> zs = us @ vs)"
proof (induction xs arbitrary: zs)
  case (Cons x xs)
  show ?case by (cases "f x"; cases "rmap f xs") (auto simp: rbind_eq_Inr Cons.IH)
qed simp

lemma rmap_nth: "rmap f xs = Inr ys \<Longrightarrow> n < length xs \<Longrightarrow> f (xs ! n) = Inr (ys ! n)"
  by (drule rmap_Inr_all2) (simp add: list_all2_conv_all_nth)

lemma evidence_prefix:
  assumes ok: "state_ok s" and r: "rmap parse_evidence (map PDict (map evidence_payload (ds_evidence s) @ us)) = Inr es"
  shows "prefix (ds_evidence s) es"
proof -
  have "rmap parse_evidence (map PDict (map evidence_payload (ds_evidence s))) = Inr (ds_evidence s)"
    using ok by (intro rmap_payloads) (auto simp: state_ok_def Let_def list_all_iff parse_evidence_payload)
  then show ?thesis using r by (auto simp: rmap_append_Inr)
qed

lemma plain_items:
  assumes "state_ok s"
  shows "list_all (plain [''statement'']) (map hypothesis_payload (ds_hypotheses s))"
    "list_all (plain [''severity'', ''statement'']) (map risk_payload (ds_risks s))"
    "list_all (plain [''statement'']) (map criterion_payload (ds_criteria s))"
  using assms by (auto simp: state_ok_def Let_def list_all_iff plain_def hypothesis_payload_def risk_payload_def
      criterion_payload_def hypothesis_ok_def risk_ok_def criterion_ok_def)

lemma hypothesis_kept:
  assumes "hypothesis_ok ids h" and "kept [''statement''] [''confirmed'', ''rejected''] (hypothesis_payload h) d"
    and "parse_hypothesis ids' (PDict d) = Inr h'"
  shows "hy_id h' = hy_id h \<and> hy_statement h' = hy_statement h \<and> (hy_status h \<noteq> ''open'' \<longrightarrow> hy_status h' = hy_status h)"
  using assms(1,2) parse_hypothesis_Inr(2) [OF assms(3)] enum_stripped(1) [of "hy_status h"]
  by (auto simp: kept_def hypothesis_payload_def hypothesis_ok_def text_ok_def text_of_def HYPOTHESIS_STATUS_def)

lemma risk_kept:
  assumes "risk_ok ids r" and "kept [''severity'', ''statement''] [''resolved''] (risk_payload r) d"
    and "parse_risk ids' (PDict d) = Inr r'"
  shows "rk_id r' = rk_id r \<and> rk_severity r' = rk_severity r \<and> rk_statement r' = rk_statement r
    \<and> (rk_status r = ''resolved'' \<longrightarrow> rk_status r' = ''resolved'')"
  using assms(1,2) parse_risk_Inr(2) [OF assms(3)] enum_stripped(2) [of "rk_status r"] enum_stripped(3) [of "rk_severity r"]
  by (auto simp: kept_def risk_payload_def risk_ok_def text_ok_def text_of_def)

lemma criterion_kept:
  assumes "criterion_ok ids c" and "kept [''statement''] [''met'', ''blocked''] (criterion_payload c) d"
    and "parse_criterion ids' (PDict d) = Inr c'"
  shows "cr_id c' = cr_id c \<and> cr_statement c' = cr_statement c \<and> (cr_status c \<noteq> ''pending'' \<longrightarrow> cr_status c' = cr_status c)"
  using assms(1,2) parse_criterion_Inr(2) [OF assms(3)] enum_stripped(4) [of "cr_status c"]
  by (auto simp: kept_def criterion_payload_def criterion_ok_def text_ok_def text_of_def CRITERION_STATUS_def)

lemma state_ok_nth:
  assumes "state_ok s"
  shows "n < length (ds_hypotheses s) \<Longrightarrow> hypothesis_ok (map ed_id (ds_evidence s)) (ds_hypotheses s ! n)"
    "n < length (ds_risks s) \<Longrightarrow> risk_ok (map ed_id (ds_evidence s)) (ds_risks s ! n)"
    "n < length (ds_criteria s) \<Longrightarrow> criterion_ok (map ed_id (ds_evidence s)) (ds_criteria s ! n)"
  using assms by (auto simp: state_ok_def Let_def list_all_length)

lemma parse_update_continues:
  assumes ok: "state_ok s" and u: "parse_update v s = Inr u"
  shows "state_ok (du_state u) \<and> continues s (du_state u)"
proof -
  obtain us hs rs cs h_ids r_ids c_ids hu ru cu where
      h: "upsert_items ''update.hypotheses'' [''statement''] [''confirmed'', ''rejected''] (map hypothesis_payload (ds_hypotheses s)) hu = Inr (hs, h_ids)"
      and r: "upsert_items ''update.risks'' [''severity'', ''statement''] [''resolved''] (map risk_payload (ds_risks s)) ru = Inr (rs, r_ids)"
      and c: "upsert_items ''update.criteria'' [''statement''] [''met'', ''blocked''] (map criterion_payload (ds_criteria s)) cu = Inr (cs, c_ids)"
      and p: "parse_state (state_val (ds_objective s) hs (map evidence_payload (ds_evidence s) @ us) rs cs) = Inr (du_state u)"
    using u by (auto simp: parse_update_def split: pyval.splits dest!: append_new_evidence_Inr)
  let ?s = "du_state u"
  have parsed: "ds_objective ?s = py_strip (ds_objective s)"
      "rmap parse_evidence (map PDict (map evidence_payload (ds_evidence s) @ us)) = Inr (ds_evidence ?s)"
      "rmap (parse_hypothesis (map ed_id (ds_evidence ?s))) (map PDict hs) = Inr (ds_hypotheses ?s)"
      "rmap (parse_risk (map ed_id (ds_evidence ?s))) (map PDict rs) = Inr (ds_risks ?s)"
      "rmap (parse_criterion (map ed_id (ds_evidence ?s))) (map PDict cs) = Inr (ds_criteria ?s)" "state_ok ?s"
    using p unfolding parse_state_val by blast+
  note len = rmap_Inr_length [OF parsed(3)] rmap_Inr_length [OF parsed(4)] rmap_Inr_length [OF parsed(5)]
  note kh = upsert_items_kept [OF h plain_items(1) [OF ok]] and kr = upsert_items_kept [OF r plain_items(2) [OF ok]]
    and kc = upsert_items_kept [OF c plain_items(3) [OF ok]]
  have "ds_objective ?s = ds_objective s" using parsed(1) ok by (simp add: state_ok_def Let_def text_ok_def)
  moreover have "prefix (ds_evidence s) (ds_evidence ?s)" using evidence_prefix [OF ok parsed(2)] .
  moreover have "let h = ds_hypotheses s ! n; h' = ds_hypotheses ?s ! n in
          hy_id h' = hy_id h \<and> hy_statement h' = hy_statement h \<and> (hy_status h \<noteq> ''open'' \<longrightarrow> hy_status h' = hy_status h)"
    if "n < length (ds_hypotheses s)" for n
    using hypothesis_kept [OF state_ok_nth(1) [OF ok that], of "hs ! n"] rmap_nth [OF parsed(3), of n] kh that
    by (simp add: Let_def)
  moreover have "let r = ds_risks s ! n; r' = ds_risks ?s ! n in
          rk_id r' = rk_id r \<and> rk_severity r' = rk_severity r \<and> rk_statement r' = rk_statement r
          \<and> (rk_status r = ''resolved'' \<longrightarrow> rk_status r' = ''resolved'')"
    if "n < length (ds_risks s)" for n
    using risk_kept [OF state_ok_nth(2) [OF ok that], of "rs ! n"] rmap_nth [OF parsed(4), of n] kr that
    by (simp add: Let_def)
  moreover have "let c = ds_criteria s ! n; c' = ds_criteria ?s ! n in
          cr_id c' = cr_id c \<and> cr_statement c' = cr_statement c \<and> (cr_status c \<noteq> ''pending'' \<longrightarrow> cr_status c' = cr_status c)"
    if "n < length (ds_criteria s)" for n
    using criterion_kept [OF state_ok_nth(3) [OF ok that], of "cs ! n"] rmap_nth [OF parsed(5), of n] kc that
    by (simp add: Let_def)
  ultimately show ?thesis using parsed(6) len kh kr kc unfolding continues_def by simp
qed

lemma continues_refl [simp]: "continues s s"
  by (simp add: continues_def)

lemma continues_trans: "continues a b \<Longrightarrow> continues b c \<Longrightarrow> continues a c"
  unfolding continues_def Let_def
  by (intro conjI allI impI; (elim conjE)?) (auto intro: prefix_order.trans)

section \<open>What completing does\<close>

lemma id_index_distinct:
  assumes "distinct (map (\<lambda>d. py_str (get d ''id'')) items)"
  shows "map_of (id_index items) k = Some n \<longleftrightarrow> n < length items \<and> py_str (get (items ! n) ''id'') = k"
proof
  assume "map_of (id_index items) k = Some n"
  then show "n < length items \<and> py_str (get (items ! n) ''id'') = k" by (rule id_index_sound)
next
  assume n: "n < length items \<and> py_str (get (items ! n) ''id'') = k"
  then obtain m where m: "map_of (id_index items) k = Some m" using id_index_complete by blast
  with n show "map_of (id_index items) k = Some n"
    using assms id_index_sound [OF m] by (auto simp: distinct_conv_nth)
qed

text \<open>After some resolutions: items named by one have an allowed status, others are as before.\<close>

definition resolved_item :: "string list \<Rightarrow> string set \<Rightarrow> pydict \<Rightarrow> pydict \<Rightarrow> bool" where
  "resolved_item allowed D old item \<longleftrightarrow>
     (\<forall>f. f \<noteq> ''status'' \<longrightarrow> f \<noteq> ''evidence_ids'' \<longrightarrow> get item f = get old f)
     \<and> (if py_str (get old ''id'') \<in> D then text_of (get item ''status'') \<in> set allowed else item = old)"

definition resolved_inv :: "string list \<Rightarrow> pydict list \<Rightarrow> string set \<Rightarrow> pydict list \<Rightarrow> bool" where
  "resolved_inv allowed old D items \<longleftrightarrow> length items = length old \<and> (\<forall>n < length old. resolved_item allowed D (old ! n) (items ! n))"

lemma resolved_itemD:
  assumes "resolved_item al D c d"
  shows "f \<noteq> ''status'' \<Longrightarrow> f \<noteq> ''evidence_ids'' \<Longrightarrow> get d f = get c f"
    "py_str (get c ''id'') \<in> D \<Longrightarrow> text_of (get d ''status'') \<in> set al" "py_str (get c ''id'') \<notin> D \<Longrightarrow> d = c"
  using assms by (simp_all add: resolved_item_def)

lemma resolved_inv_nth: "resolved_inv al old D items \<Longrightarrow> n < length old \<Longrightarrow> resolved_item al D (old ! n) (items ! n)"
  by (simp add: resolved_inv_def)

lemma apply_resolution_inv:
  assumes d: "distinct (map (\<lambda>d. py_str (get d ''id'')) old)" and inv: "resolved_inv allowed old D items"
    and r: "apply_resolution l allowed (id_index old) res items = Inr items'"
  shows "resolved_inv allowed old (insert (py_str (get res ''id'')) D) items'
    \<and> py_str (get res ''id'') \<in> set (map (\<lambda>d. py_str (get d ''id'')) old)"
proof -
  obtain n refs status where n: "map_of (id_index old) (py_str (get res ''id'')) = Some n" and st: "status \<in> set allowed" "py_strip status = status"
      and items': "items' = items[n := dict_set ''evidence_ids'' (PList refs) (dict_set ''status'' (PStr status) (items ! n))]"
    using r by (auto simp: apply_resolution_def enum_Inr text_of_def split: pyval.splits option.splits)
  have n': "n < length old" "py_str (get (old ! n) ''id'') = py_str (get res ''id'')"
    using n unfolding id_index_distinct [OF d] by auto
  have uniq: "py_str (get (old ! m) ''id'') \<noteq> py_str (get res ''id'')" if "m < length old" "m \<noteq> n" for m
    using d n' that by (simp add: distinct_conv_nth) metis
  have len: "length items = length old" using inv by (simp add: resolved_inv_def)
  have "resolved_item allowed (insert (py_str (get res ''id'')) D) (old ! m) (items' ! m)" if m: "m < length old" for m
  proof (cases "m = n")
    case True
    show ?thesis
      using resolved_itemD(1) [OF resolved_inv_nth [OF inv m]] True st n' len unfolding items' by (simp add: resolved_item_def)
  next
    case False
    then show ?thesis
      using resolved_inv_nth [OF inv m] uniq [OF m False] unfolding items' by (simp add: resolved_item_def)
  qed
  moreover have "length items' = length old" using len items' by simp
  ultimately have "resolved_inv allowed old (insert (py_str (get res ''id'')) D) items'"
    by (simp add: resolved_inv_def)
  moreover have "py_str (get res ''id'') \<in> set (map (\<lambda>d. py_str (get d ''id'')) old)"
    using imageI [OF nth_mem [OF n'(1)], of "\<lambda>d. py_str (get d ''id'')"] unfolding n'(2) by simp
  ultimately show ?thesis by blast
qed

lemma apply_resolutions_inv:
  assumes d: "distinct (map (\<lambda>d. py_str (get d ''id'')) old)"
    and "rfold (apply_resolution l allowed (id_index old)) ress items = Inr items'" and "resolved_inv allowed old D items"
  shows "resolved_inv allowed old (D \<union> (\<lambda>r. py_str (get r ''id'')) ` set ress) items'
    \<and> (\<lambda>r. py_str (get r ''id'')) ` set ress \<subseteq> set (map (\<lambda>d. py_str (get d ''id'')) old)"
  using assms(2,3)
proof (induction ress arbitrary: items D)
  case (Cons r ress)
  then obtain items1 where r: "apply_resolution l allowed (id_index old) r items = Inr items1"
      and rest: "rfold (apply_resolution l allowed (id_index old)) ress items1 = Inr items'" by auto
  from apply_resolution_inv [OF d Cons.prems(2) r] Cons.IH [OF rest, of "insert (py_str (get r ''id'')) D"] show ?case by simp
qed simp

lemma text_of_key: "text_of v \<noteq> [] \<Longrightarrow> direction_id_ok (py_str v) \<Longrightarrow> text_of v = py_str v"
  by (auto simp: text_of_def str_or_def split: if_splits)

lemma apply_resolutions_Inr:
  assumes r: "apply_resolutions l allowed req old ress = Inr items" and d: "distinct (map (\<lambda>d. py_str (get d ''id'')) old)"
    and ids: "list_all (\<lambda>d. direction_id_ok (py_str (get d ''id''))) old"
  obtains D where "resolved_inv allowed old D items" "\<And>ps. req = Some ps \<Longrightarrow> D = set ps"
proof -
  obtain rids where i: "item_ids l ress = Inr rids" and req: "\<And>ps. req = Some ps \<Longrightarrow> set rids = set ps"
      and f: "rfold (apply_resolution l allowed (id_index old)) ress old = Inr items"
    using r by (auto simp: apply_resolutions_def Let_def split: option.splits)
  let ?D = "(\<lambda>r. py_str (get r ''id'')) ` set ress"
  have inv: "resolved_inv allowed old ?D items" and sub: "?D \<subseteq> set (map (\<lambda>d. py_str (get d ''id'')) old)"
    using apply_resolutions_inv [OF d f, of "{}"] by (simp_all add: resolved_inv_def resolved_item_def)
  have "text_of (get r ''id'') = py_str (get r ''id'')" if r: "r \<in> set ress" for r
  proof (rule text_of_key)
    show "text_of (get r ''id'') \<noteq> []" using item_ids_Inr [OF i] r by force
    show "direction_id_ok (py_str (get r ''id''))" using sub ids r by (auto simp: list_all_iff)
  qed
  then have "set rids = ?D" using item_ids_Inr [OF i] by auto
  then show ?thesis using that [OF inv] req by simp
qed

lemma payload_ids:
  assumes "state_ok s"
  shows "map (\<lambda>d. py_str (get d ''id'')) (map hypothesis_payload (ds_hypotheses s)) = map hy_id (ds_hypotheses s)"
    "map (\<lambda>d. py_str (get d ''id'')) (map risk_payload (ds_risks s)) = map rk_id (ds_risks s)"
    "map (\<lambda>d. py_str (get d ''id'')) (map criterion_payload (ds_criteria s)) = map cr_id (ds_criteria s)"
    "list_all (\<lambda>d. direction_id_ok (py_str (get d ''id''))) (map hypothesis_payload (ds_hypotheses s))"
    "list_all (\<lambda>d. direction_id_ok (py_str (get d ''id''))) (map risk_payload (ds_risks s))"
    "list_all (\<lambda>d. direction_id_ok (py_str (get d ''id''))) (map criterion_payload (ds_criteria s))"
  using assms by (auto simp: hypothesis_payload_def risk_payload_def criterion_payload_def state_ok_def Let_def list_all_iff
      hypothesis_ok_def risk_ok_def criterion_ok_def)

lemma criterion_ok_mono: "criterion_ok ids c \<Longrightarrow> set ids \<subseteq> set ids' \<Longrightarrow> criterion_ok ids' c"
  by (auto simp: criterion_ok_def refs_ok_def)

text \<open>What a resolution leaves of an item.\<close>

lemma resolved_hypothesis:
  assumes "hypothesis_ok ids h" and "\<And>f. f \<noteq> ''status'' \<Longrightarrow> f \<noteq> ''evidence_ids'' \<Longrightarrow> get d f = get (hypothesis_payload h) f"
    and "parse_hypothesis ids' (PDict d) = Inr h'"
  shows "(hy_id h', hy_statement h') = (hy_id h, hy_statement h)"
  using assms(1) assms(2) [of "''id''"] assms(2) [of "''statement''"] parse_hypothesis_Inr(2) [OF assms(3)]
  by (auto simp: hypothesis_payload_def hypothesis_ok_def text_ok_def)

lemma resolved_risk:
  assumes "risk_ok ids r" and "\<And>f. f \<noteq> ''status'' \<Longrightarrow> f \<noteq> ''evidence_ids'' \<Longrightarrow> get d f = get (risk_payload r) f"
    and "parse_risk ids' (PDict d) = Inr r'"
  shows "(rk_id r', rk_severity r', rk_statement r') = (rk_id r, rk_severity r, rk_statement r)"
  using assms(1) assms(2) [of "''id''"] assms(2) [of "''statement''"] assms(2) [of "''severity''"] parse_risk_Inr(2) [OF assms(3)]
    enum_stripped(3) [of "rk_severity r"]
  by (auto simp: risk_payload_def risk_ok_def text_ok_def)

lemma resolved_criterion:
  assumes "criterion_ok ids c" and "\<And>f. f \<noteq> ''status'' \<Longrightarrow> f \<noteq> ''evidence_ids'' \<Longrightarrow> get d f = get (criterion_payload c) f"
    and "parse_criterion ids' (PDict d) = Inr c'"
  shows "(cr_id c', cr_statement c') = (cr_id c, cr_statement c)"
  using assms(1) assms(2) [of "''id''"] assms(2) [of "''statement''"] parse_criterion_Inr(2) [OF assms(3)]
  by (auto simp: criterion_payload_def criterion_ok_def text_ok_def)

lemma pending_criteria:
  assumes ok: "state_ok s" and n: "n < length (ds_criteria s)"
  shows "cr_id (ds_criteria s ! n) \<in> set (pending_ids (map criterion_payload (ds_criteria s)))
    \<longleftrightarrow> cr_status (ds_criteria s ! n) = ''pending''"
proof -
  have "set (pending_ids (map criterion_payload (ds_criteria s))) = cr_id ` {c \<in> set (ds_criteria s). cr_status c = ''pending''}"
    by (auto simp: pending_ids_def filter_map comp_def criterion_payload_def)
  moreover have "inj_on cr_id (set (ds_criteria s))" using ok by (simp add: state_ok_def Let_def distinct_map)
  ultimately show ?thesis using n by (auto simp: inj_on_eq_iff)
qed

lemma resolved_hypotheses:
  assumes ok: "state_ok s" and H: "resolved_inv al (map hypothesis_payload (ds_hypotheses s)) D hs"
    and p: "rmap (parse_hypothesis ids) (map PDict hs) = Inr hs'"
  shows "map (\<lambda>h. (hy_id h, hy_statement h)) hs' = map (\<lambda>h. (hy_id h, hy_statement h)) (ds_hypotheses s)"
proof -
  have len: "length hs = length (ds_hypotheses s)" "length hs' = length hs"
    using H rmap_Inr_length [OF p] by (simp_all add: resolved_inv_def)
  have "(hy_id (hs' ! n), hy_statement (hs' ! n)) = (hy_id (ds_hypotheses s ! n), hy_statement (ds_hypotheses s ! n))"
    if n: "n < length (ds_hypotheses s)" for n
    using resolved_hypothesis [OF state_ok_nth(1) [OF ok n], of "hs ! n"] rmap_nth [OF p, of n] n len
      resolved_itemD(1) [OF resolved_inv_nth [OF H, of n]] by simp
  then show ?thesis using len by (auto intro!: nth_equalityI)
qed

lemma resolved_risks:
  assumes ok: "state_ok s" and R: "resolved_inv al (map risk_payload (ds_risks s)) D rs"
    and p: "rmap (parse_risk ids) (map PDict rs) = Inr rs'"
  shows "map (\<lambda>r. (rk_id r, rk_severity r, rk_statement r)) rs' = map (\<lambda>r. (rk_id r, rk_severity r, rk_statement r)) (ds_risks s)"
proof -
  have len: "length rs = length (ds_risks s)" "length rs' = length rs"
    using R rmap_Inr_length [OF p] by (simp_all add: resolved_inv_def)
  have "(rk_id (rs' ! n), rk_severity (rs' ! n), rk_statement (rs' ! n))
      = (rk_id (ds_risks s ! n), rk_severity (ds_risks s ! n), rk_statement (ds_risks s ! n))" if n: "n < length (ds_risks s)" for n
    using resolved_risk [OF state_ok_nth(2) [OF ok n], of "rs ! n"] rmap_nth [OF p, of n] n len
      resolved_itemD(1) [OF resolved_inv_nth [OF R, of n]] by simp
  then show ?thesis using len by (auto intro!: nth_equalityI)
qed

definition criterion_resolved :: "direction_criterion \<Rightarrow> direction_criterion \<Rightarrow> bool" where
  "criterion_resolved c c' \<longleftrightarrow> cr_id c' = cr_id c \<and> cr_statement c' = cr_statement c \<and> cr_status c' \<noteq> ''pending''
     \<and> (cr_status c \<noteq> ''pending'' \<longrightarrow> c' = c)"

lemma resolved_criteria:
  assumes ok: "state_ok s" and sub: "set (map ed_id (ds_evidence s)) \<subseteq> set ids" and ids: "list_all direction_id_ok ids"
    and C: "resolved_inv [''met'', ''blocked''] (map criterion_payload (ds_criteria s))
      (set (pending_ids (map criterion_payload (ds_criteria s)))) cs"
    and p: "rmap (parse_criterion ids) (map PDict cs) = Inr cs'"
  shows "list_all2 criterion_resolved (ds_criteria s) cs'"
proof -
  let ?cp = "map criterion_payload (ds_criteria s)"
  have len: "length cs = length (ds_criteria s)" "length cs' = length cs"
    using C rmap_Inr_length [OF p] by (simp_all add: resolved_inv_def)
  have "criterion_resolved (ds_criteria s ! n) (cs' ! n)" if n: "n < length (ds_criteria s)" for n
  proof -
    define c where "c = ds_criteria s ! n"
    have pn: "parse_criterion ids (PDict (cs ! n)) = Inr (cs' ! n)" using rmap_nth [OF p, of n] n len by simp
    note okc = state_ok_nth(3) [OF ok n, folded c_def]
    have item: "resolved_item [''met'', ''blocked''] (set (pending_ids ?cp)) (?cp ! n) (cs ! n)"
      using C n by (simp add: resolved_inv_def)
    have same: "(cr_id (cs' ! n), cr_statement (cs' ! n)) = (cr_id c, cr_statement c)"
      using resolved_itemD(1) [OF item] n by (intro resolved_criterion [OF okc _ pn]) (simp add: c_def)
    have key: "py_str (get (?cp ! n) ''id'') = cr_id c" using n by (simp add: criterion_payload_def c_def)
    show ?thesis
    proof (cases "cr_status c = ''pending''")
      case True
      then have "text_of (get (cs ! n) ''status'') \<in> {''met'', ''blocked''}"
        using resolved_itemD(2) [OF item] key pending_criteria [OF ok n, folded c_def] by simp
      then have "cr_status (cs' ! n) \<noteq> ''pending''" using parse_criterion_Inr(2) [OF pn] by auto
      then show ?thesis using same True by (simp add: criterion_resolved_def c_def)
    next
      case False
      then have "cs ! n = criterion_payload c"
        using resolved_itemD(3) [OF item] key pending_criteria [OF ok n, folded c_def] n by (simp add: c_def)
      then have "cs' ! n = c" using pn parse_criterion_payload [OF criterion_ok_mono [OF okc sub] ids] by simp
      then show ?thesis using False by (simp add: criterion_resolved_def c_def)
    qed
  qed
  then show ?thesis using len by (simp add: list_all2_conv_all_nth)
qed

definition completes :: "direction_state \<Rightarrow> direction_state \<Rightarrow> bool" where
  "completes s s' \<longleftrightarrow> ds_objective s' = ds_objective s \<and> prefix (ds_evidence s) (ds_evidence s')
     \<and> map (\<lambda>h. (hy_id h, hy_statement h)) (ds_hypotheses s') = map (\<lambda>h. (hy_id h, hy_statement h)) (ds_hypotheses s)
     \<and> map (\<lambda>r. (rk_id r, rk_severity r, rk_statement r)) (ds_risks s') = map (\<lambda>r. (rk_id r, rk_severity r, rk_statement r)) (ds_risks s)
     \<and> list_all2 criterion_resolved (ds_criteria s) (ds_criteria s')"

lemma parse_completion_completes:
  assumes ok: "state_ok s" and c: "parse_completion v s = Inr (n, s')"
  shows "0 < n \<and> state_ok s' \<and> completes s s'"
proof -
  let ?hp = "map hypothesis_payload (ds_hypotheses s)" and ?rp = "map risk_payload (ds_risks s)" and ?cp = "map criterion_payload (ds_criteria s)"
  obtain us hs rs cs hu ru cu where n: "0 < n"
      and h: "apply_resolutions ''completion.hypotheses'' [''confirmed'', ''rejected''] None ?hp hu = Inr hs"
      and r: "apply_resolutions ''completion.risks'' [''resolved''] None ?rp ru = Inr rs"
      and cr: "apply_resolutions ''completion.criteria'' [''met'', ''blocked''] (Some (pending_ids ?cp)) ?cp cu = Inr cs"
      and p: "parse_state (state_val (ds_objective s) hs (map evidence_payload (ds_evidence s) @ us) rs cs) = Inr s'"
    using c by (auto simp: parse_completion_def Let_def positive_int_def split: pyval.splits if_splits dest!: append_new_evidence_Inr)
  have parsed: "ds_objective s' = py_strip (ds_objective s)"
      "rmap parse_evidence (map PDict (map evidence_payload (ds_evidence s) @ us)) = Inr (ds_evidence s')"
      "rmap (parse_hypothesis (map ed_id (ds_evidence s'))) (map PDict hs) = Inr (ds_hypotheses s')"
      "rmap (parse_risk (map ed_id (ds_evidence s'))) (map PDict rs) = Inr (ds_risks s')"
      "rmap (parse_criterion (map ed_id (ds_evidence s'))) (map PDict cs) = Inr (ds_criteria s')" "state_ok s'"
    using p unfolding parse_state_val by blast+
  have dis: "distinct (map hy_id (ds_hypotheses s))" "distinct (map rk_id (ds_risks s))" "distinct (map cr_id (ds_criteria s))"
    using ok by (simp_all add: state_ok_def Let_def)
  note ids = payload_ids [OF ok]
  obtain Dh where H: "resolved_inv [''confirmed'', ''rejected''] ?hp Dh hs"
    using apply_resolutions_Inr [OF h _ ids(4)] dis ids(1) by metis
  obtain Dr where R: "resolved_inv [''resolved''] ?rp Dr rs"
    using apply_resolutions_Inr [OF r _ ids(5)] dis ids(2) by metis
  have C: "resolved_inv [''met'', ''blocked''] ?cp (set (pending_ids ?cp)) cs"
    using apply_resolutions_Inr [OF cr _ ids(6)] dis ids(3) by metis
  have ev: "prefix (ds_evidence s) (ds_evidence s')" using evidence_prefix [OF ok parsed(2)] .
  then have sub: "set (map ed_id (ds_evidence s)) \<subseteq> set (map ed_id (ds_evidence s'))" by (auto simp: prefix_def)
  have "ds_objective s' = ds_objective s" using parsed(1) ok by (simp add: state_ok_def Let_def text_ok_def)
  then show ?thesis
    using n parsed(6) ev resolved_hypotheses [OF ok H parsed(3)] resolved_risks [OF ok R parsed(4)]
      resolved_criteria [OF ok sub state_ok_ids [OF parsed(6)] C parsed(5)]
    unfolding completes_def by blast
qed

end
