(* ===== verification/DirectionLaws.thy ===== *)
theory DirectionLaws
  imports DirectionStore
begin

text \<open>
  What the store of a task direction guarantees for every sequence of operations: the file stays
  readable, revisions count the writes, stale writers are refused, settled statements stay settled
  and a completed direction is final. Its operations run under one lock, so a run is a list.
\<close>

section \<open>Operations\<close>

datatype direction_cmd = Replace pyval pyval | UpdateDirection pyval pyval | CompleteDirection pyval "pyval option"

fun direction_step ::
    "string \<Rightarrow> string \<times> direction_cmd \<Rightarrow> direction_file \<Rightarrow> (direction_file \<times> stored_direction) td_res" where
  "direction_step task (now, Replace e s) f = td_replace task now e s f"
| "direction_step task (now, UpdateDirection e u) f = rbind (td_update task now e u f) (\<lambda>(f', st, _). Inr (f', st))"
| "direction_step task (now, CompleteDirection e s) f = td_complete task now e s f"

definition stamp_ok :: "string \<Rightarrow> bool" where
  "stamp_ok now \<longleftrightarrow> now \<noteq> [] \<and> py_strip now = now"

definition task_id_ok :: "string \<Rightarrow> bool" where
  "task_id_ok task \<longleftrightarrow> required_task_id (PStr task) = Inr task"

definition stored_ok :: "string \<Rightarrow> stored_direction \<Rightarrow> bool" where
  "stored_ok task st \<longleftrightarrow> sd_task st = task \<and> task_id_ok task \<and> sd_status st \<in> {''active'', ''completed''} \<and> 0 < sd_revision st
     \<and> stamp_ok (sd_updated st) \<and> state_ok (sd_state st)"

definition file_ok :: "string \<Rightarrow> direction_file \<Rightarrow> bool" where
  "file_ok task f = (case f of None \<Rightarrow> True | Some v \<Rightarrow> \<exists>st. v = stored_payload st \<and> stored_ok task st)"

lemma parse_stored_payload: "stored_ok task st \<Longrightarrow> parse_stored (stored_payload st) = Inr st"
  by (auto simp: parse_stored_def stored_payload_def stored_ok_def reject_unknown_keys_def task_id_ok_def enum_def positive_int_def
      stamp_ok_def Let_def parse_state_payload strip_eval)

lemma td_read_Some [simp]: "stored_ok task st \<Longrightarrow> td_read task (Some (stored_payload st)) = Inr (Some st)"
  by (simp add: td_read_def parse_stored_payload) (simp add: stored_ok_def)

lemma td_read_None [simp]: "td_read task None = Inr None"
  by (simp add: td_read_def)

lemma file_ok_cases:
  assumes "file_ok task f"
  obtains (empty) "f = None" "td_read task f = Inr None"
    | (stored) c where "f = Some (stored_payload c)" "stored_ok task c" "td_read task f = Inr (Some c)"
  using assms by (cases f) (auto simp: file_ok_def)

text \<open>What one operation does to the file.\<close>

lemma direction_step_cases:
  assumes f: "file_ok task f" and now: "stamp_ok now" and task: "task_id_ok task"
    and step: "direction_step task (now, c) f = Inr (f', st)"
  obtains (create) "f = None" "sd_revision st = 1" "sd_status st = ''active''" "stored_ok task st" "f' = Some (stored_payload st)"
    | (noop) "f = Some (stored_payload st)" "f' = f" "sd_status st = ''completed''" "stored_ok task st"
    | (grow) cur where "f = Some (stored_payload cur)" "stored_ok task cur" "sd_status cur = ''active''" "stored_ok task st"
      "sd_revision st = sd_revision cur + 1" "f' = Some (stored_payload st)"
      "sd_status st = ''active'' \<Longrightarrow> continues (sd_state cur) (sd_state st)"
  using f
proof (cases rule: file_ok_cases)
  case empty
  then show ?thesis using step now task create
    by (cases c) (auto simp: td_replace_def td_update_def td_complete_def Let_def stored_ok_def parse_state_ok split: option.splits if_splits)
next
  case (stored cur)
  note rd = stored(3)
  have st: "sd_status cur = ''active'' \<or> sd_status cur = ''completed''" "state_ok (sd_state cur)" "0 < sd_revision cur"
    using stored(2) by (auto simp: stored_ok_def)
  show ?thesis
  proof (cases c)
    case (Replace e s)
    then show ?thesis using step rd by (auto simp: td_replace_def Let_def split: if_splits)
  next
    case (UpdateDirection e u)
    then obtain d where d: "parse_update u (sd_state cur) = Inr d" and a: "sd_status cur \<noteq> ''completed''"
        and st': "st = \<lparr>sd_task = task, sd_status = ''active'', sd_revision = sd_revision cur + 1, sd_updated = now, sd_state = du_state d\<rparr>"
        "f' = Some (stored_payload st)"
      using step rd by (auto simp: td_update_def Let_def split: if_splits)
    have "state_ok (du_state d)" "continues (sd_state cur) (du_state d)" using parse_update_continues [OF st(2) d] by auto
    then show ?thesis using grow [OF stored(1,2)] st st' a now task by (simp add: stored_ok_def)
  next
    case (CompleteDirection e s)
    show ?thesis
    proof (cases "sd_status cur = ''completed''")
      case True
      then show ?thesis using step rd CompleteDirection noop stored
        by (auto simp: td_complete_def Let_def split: if_splits option.splits)
    next
      case False
      then have "f' = Some (stored_payload st)" "sd_task st = task" "sd_status st = ''completed''" "sd_revision st = sd_revision cur + 1"
          "sd_updated st = now" "state_ok (sd_state st)"
        using step rd CompleteDirection st(2)
        by (auto simp: td_complete_def Let_def parse_state_ok split: if_splits option.splits)
      then show ?thesis using grow [OF stored(1,2)] st False now task by (simp add: stored_ok_def)
    qed
  qed
qed

definition direction_guard :: "string \<Rightarrow> string \<times> direction_cmd \<Rightarrow> direction_file \<Rightarrow> bool" where
  "direction_guard task nc f \<longleftrightarrow> stamp_ok (fst nc) \<and> task_id_ok task"

lemma direction_step_ok:
  assumes "file_ok task f" and "direction_guard task nc f" and "direction_step task nc f = Inr (f', st)"
  shows "file_ok task f'"
proof -
  obtain now c where nc: "nc = (now, c)" by force
  from assms(2) nc have g: "stamp_ok now" "task_id_ok task" by (simp_all add: direction_guard_def)
  show ?thesis by (rule direction_step_cases [OF assms(1) g assms(3) [unfolded nc]]) (auto simp: file_ok_def)
qed

interpretation direction_file: transactional "direction_step task" "file_ok task" "direction_guard task" for task
  by unfold_locales (rule direction_step_ok)

definition run_direction :: "string \<Rightarrow> (string \<times> direction_cmd) list \<Rightarrow> direction_file \<Rightarrow> direction_file" where
  "run_direction task cs f = fold (\<lambda>c f. case direction_step task c f of Inl e \<Rightarrow> f | Inr (f', st) \<Rightarrow> f') cs f"

lemma run_direction_commit: "run_direction task cs f = fold (direction_file.commit task) cs f"
  unfolding run_direction_def by (rule arg_cong [where f = "\<lambda>g. fold g cs f"]) (simp add: fun_eq_iff direction_file.commit_def)

lemma direction_guarded: "task_id_ok task \<Longrightarrow> list_all (\<lambda>c. stamp_ok (fst c)) cs \<Longrightarrow> direction_file.guarded task cs f"
  by (induction cs arbitrary: f) (simp_all add: direction_guard_def)

lemma run_direction_ok:
  "task_id_ok task \<Longrightarrow> list_all (\<lambda>c. stamp_ok (fst c)) cs \<Longrightarrow> file_ok task f \<Longrightarrow> file_ok task (run_direction task cs f)"
  using direction_file.run_inv direction_guarded run_direction_commit by metis

section \<open>Properties\<close>

text \<open>C29. An operation of the store that succeeds leaves a file that reads back as what it returned, and what it
  returned is fixed by the operation and by what the file held, whose revision the caller has to know. Only a
  replacement writes where there was nothing: the state that was sent, active, with revision 1. An update needs
  an active direction; it stays active with the next revision and only continues: nothing is dropped or reworded
  and nothing settled is reopened. A completion of an active direction has the next revision, is completed and
  holds the state that was sent, if any, which may be any other; a completion of a completed direction, where a
  state that is sent has to be the one it holds, returns it and leaves the file as it is.\<close>

theorem direction_step_exact:
  assumes f: "file_ok task f" and now: "stamp_ok now" and task: "task_id_ok task"
    and step: "direction_step task (now, c) f = Inr (f', st)"
  shows "td_read task f' = Inr (Some st)
    \<and> (case c of
         Replace e s \<Rightarrow> td_read task f = Inr None \<and> e = PInt 0 \<and> parse_state s = Inr (sd_state st)
           \<and> sd_revision st = 1 \<and> sd_status st = ''active'' \<and> sd_updated st = now
       | UpdateDirection e u \<Rightarrow> (\<exists>cur. td_read task f = Inr (Some cur) \<and> e = PInt (sd_revision cur)
           \<and> sd_status cur = ''active'' \<and> sd_status st = ''active'' \<and> sd_revision st = sd_revision cur + 1
           \<and> sd_updated st = now \<and> continues (sd_state cur) (sd_state st))
       | CompleteDirection e s \<Rightarrow> (\<exists>cur. td_read task f = Inr (Some cur) \<and> e = PInt (sd_revision cur)
           \<and> sd_status st = ''completed''
           \<and> (if sd_status cur = ''completed'' then f' = f \<and> st = cur
              else sd_status cur = ''active'' \<and> sd_revision st = sd_revision cur + 1 \<and> sd_updated st = now)
           \<and> (case s of None \<Rightarrow> sd_state st = sd_state cur | Some v \<Rightarrow> parse_state v = Inr (sd_state st))))"
proof -
  have reads: "td_read task f' = Inr (Some st)" by (rule direction_step_cases [OF assms]) simp_all
  show ?thesis
  proof (cases rule: file_ok_cases [OF f])
    case 1
    then show ?thesis using reads step
      by (cases c) (auto simp: td_replace_def td_update_def td_complete_def non_negative_int_def Let_def split: pyval.splits option.splits if_splits)
  next
    case (2 cur)
    have st: "sd_status cur = ''active'' \<or> sd_status cur = ''completed''" "state_ok (sd_state cur)" using 2(2) by (auto simp: stored_ok_def)
    show ?thesis
    proof (cases c)
      case (Replace e s)
      then show ?thesis using step 2(3) by (auto simp: td_replace_def Let_def split: if_splits)
    next
      case (UpdateDirection e u)
      then show ?thesis using reads step 2(3) st parse_update_continues [OF st(2)]
        by (auto simp: td_update_def positive_int_def Let_def split: pyval.splits if_splits)
    next
      case (CompleteDirection e s)
      then show ?thesis using reads step 2(3) st
        by (cases s) (auto simp: td_complete_def positive_int_def Let_def split: pyval.splits if_splits)
    qed
  qed
qed

text \<open>One run after another.\<close>

definition later :: "string \<Rightarrow> direction_file \<Rightarrow> direction_file \<Rightarrow> bool" where
  "later task f f' = (case (td_read task f, td_read task f') of
      (Inr (Some c), Inr (Some d)) \<Rightarrow> f' = f \<or> (sd_status c = ''active'' \<and> sd_revision c < sd_revision d
         \<and> (sd_status d = ''active'' \<longrightarrow> continues (sd_state c) (sd_state d)))
    | (Inr None, Inr _) \<Rightarrow> True
    | _ \<Rightarrow> False)"

lemma later_refl: "file_ok task f \<Longrightarrow> later task f f"
  by (erule file_ok_cases) (simp_all add: later_def)

lemma later_trans: "later task a b \<Longrightarrow> later task b c \<Longrightarrow> later task a c"
  by (auto simp: later_def split: sum.splits option.splits intro: continues_trans)

lemma step_later:
  assumes "file_ok task f" and "stamp_ok now" and "task_id_ok task" and "direction_step task (now, c) f = Inr (f', st)"
  shows "later task f f'"
  by (rule direction_step_cases [OF assms]) (simp_all add: later_def)

lemma run_later:
  assumes task: "task_id_ok task"
  shows "file_ok task f \<Longrightarrow> list_all (\<lambda>c. stamp_ok (fst c)) cs \<Longrightarrow> later task f (run_direction task cs f)"
proof (induction cs arbitrary: f)
  case (Cons c cs)
  obtain now d where c: "c = (now, d)" by force
  let ?g = "run_direction task [c] f"
  have now: "stamp_ok now" using Cons.prems c by simp
  have "later task f ?g"
    using step_later [OF Cons.prems(1) now task] later_refl [OF Cons.prems(1)] c
    by (auto simp: run_direction_def split: sum.splits)
  moreover have "file_ok task ?g" using run_direction_ok [OF task _ Cons.prems(1), of "[c]"] now c by simp
  then have "later task ?g (run_direction task cs ?g)" using Cons by simp
  moreover have "run_direction task (c # cs) f = run_direction task cs ?g" by (simp add: run_direction_def)
  ultimately show ?case using later_trans by metis
qed (simp add: run_direction_def later_refl)

text \<open>In every run the revision never decreases, an unchanged revision means an unchanged file, and a
  completed direction is final: no sequence of operations changes it.\<close>

lemma completed_direction_is_final:
  assumes "file_ok task f" and "task_id_ok task" and "list_all (\<lambda>c. stamp_ok (fst c)) cs"
    and "td_read task f = Inr (Some c)"
  shows "(\<exists>d. td_read task (run_direction task cs f) = Inr (Some d) \<and> sd_revision c \<le> sd_revision d
      \<and> (sd_revision d = sd_revision c \<longrightarrow> run_direction task cs f = f))
    \<and> (sd_status c = ''completed'' \<longrightarrow> run_direction task cs f = f)"
  using run_later [OF assms(2,1,3)] assms(4) by (auto simp: later_def split: sum.splits option.splits)

text \<open>Writers are serialised by revision: after a write that named the current revision, another
  operation that names the same revision fails, whatever it wants to write.\<close>

lemma stale_direction_write_refused:
  assumes f: "file_ok task f" and now: "stamp_ok now" and task: "task_id_ok task"
    and step: "direction_step task (now, c) f = Inr (f', st)" and changed: "f' \<noteq> f"
    and same: "c = UpdateDirection (PInt r) u \<or> c = CompleteDirection (PInt r) s \<or> (c = Replace (PInt r) w)"
  shows "sd_revision st = r + 1
    \<and> direction_step task (now', UpdateDirection (PInt r) u') f' = Inl (if r \<le> 0 then ContractError ''expected_revision'' else RevisionConflict r (r + 1))
    \<and> (\<exists>e. direction_step task (now', CompleteDirection (PInt r) s') f' = Inl e)
    \<and> (\<exists>e. direction_step task (now', Replace (PInt r) w') f' = Inl e)"
proof -
  have st: "stored_ok task st" "f' = Some (stored_payload st)"
    by (rule direction_step_cases [OF f now task step]; use changed in simp)+
  then have rd: "td_read task f' = Inr (Some st)" by simp
  have r: "sd_revision st = r + 1"
    using step same changed
    by (auto simp: td_update_def td_complete_def td_replace_def Let_def positive_int_def non_negative_int_def
        split: option.splits if_splits)
  have "\<exists>e. td_complete task now' (PInt r) s' f' = Inl e"
    using rd r by (cases s') (auto simp: td_complete_def positive_int_def rbind_def split: sum.splits option.splits)
  moreover have "\<exists>e. td_replace task now' (PInt r) w' f' = Inl e"
    using rd r by (auto simp: td_replace_def non_negative_int_def rbind_def Let_def split: sum.splits)
  ultimately show ?thesis using rd r by (simp add: td_update_def positive_int_def)
qed

text \<open>The resolution that completes a direction settles every pending criterion, leaves the settled ones
  exactly as they were, only adds evidence, and changes no id, statement or severity.\<close>

lemma completion_settles_criteria:
  assumes "state_ok s" and "parse_completion v s = Inr (n, s')"
  shows "0 < n \<and> state_ok s' \<and> completes s s' \<and> list_all (\<lambda>c. cr_status c \<noteq> ''pending'') (ds_criteria s')"
  using parse_completion_completes [OF assms]
  by (auto simp: completes_def criterion_resolved_def list_all2_conv_all_nth list_all_length)

definition padded_completion :: pyval where
  "padded_completion = PDict [(''expected_revision'', PInt 1), (''evidence'', PList []), (''hypotheses'', PList []),
     (''risks'', PList []), (''criteria'', PList [PDict [(''id'', PStr '' c1 ''), (''status'', PStr ''met''),
       (''evidence_ids'', PList [PStr ''e1''])]])]"

text \<open>A completion that names an item with blanks around its id passes every check of the ids, which are
  compared without the blanks, and then fails with a key error instead of a contract error.\<close>

lemma padded_id_key_error:
  "parse_completion padded_completion sample_state = Inl (TaskKeyError '' c1 '')
   \<and> item_ids ''completion.criteria'' [[(''id'', PStr '' c1 '')]] = Inr (map cr_id (ds_criteria sample_state))"
  by code_simp

section \<open>Examples\<close>

definition sample_stored :: "string \<Rightarrow> int \<Rightarrow> stored_direction" where
  "sample_stored status n = \<lparr>sd_task = ''t'', sd_status = status, sd_revision = n, sd_updated = ''now'', sd_state = sample_state\<rparr>"

lemma sample_task_ok: "task_id_ok ''t''" "stamp_ok ''now''"
  by (simp_all add: task_id_ok_def required_task_id_def stamp_ok_def strip_eval)

lemma sample_stored_ok: "stored_ok ''t'' (sample_stored ''active'' 1)" "stored_ok ''t'' (sample_stored ''completed'' 2)"
  by (simp_all add: stored_ok_def sample_stored_def sample_task_ok sample_state_ok)

lemma sample_file_ok: "stored_ok ''t'' st \<Longrightarrow> file_ok ''t'' (Some (stored_payload st))"
  by (auto simp: file_ok_def)

lemma sample_complete:
  "direction_step ''t'' (''now'', CompleteDirection (PInt 1) None) (Some (stored_payload (sample_stored ''active'' 1)))
     = Inr (Some (stored_payload (sample_stored ''completed'' 2)), sample_stored ''completed'' 2)"
  using sample_stored_ok(1) by (simp add: td_complete_def positive_int_def) (simp add: sample_stored_def Let_def)

theorem direction_step_exact_witness:
  "td_read ''t'' (Some (stored_payload (sample_stored ''completed'' 2))) = Inr (Some (sample_stored ''completed'' 2))
   \<and> (\<exists>cur. td_read ''t'' (Some (stored_payload (sample_stored ''active'' 1))) = Inr (Some cur)
        \<and> sd_status cur = ''active'' \<and> sd_state (sample_stored ''completed'' 2) = sd_state cur)"
  using direction_step_exact [OF sample_file_ok [OF sample_stored_ok(1)] sample_task_ok(2,1) sample_complete] sample_stored_ok(1)
  by (auto simp: sample_stored_def split: if_splits)

lemma completed_direction_is_final_witness:
  "run_direction ''t'' [(''now'', CompleteDirection (PInt 2) None), (''now'', UpdateDirection (PInt 2) PNone)]
     (Some (stored_payload (sample_stored ''completed'' 2))) = Some (stored_payload (sample_stored ''completed'' 2))"
  using completed_direction_is_final [OF sample_file_ok [OF sample_stored_ok(2)] sample_task_ok(1),
      of "[(''now'', CompleteDirection (PInt 2) None), (''now'', UpdateDirection (PInt 2) PNone)]" "sample_stored ''completed'' 2"]
    sample_stored_ok(2) sample_task_ok(2) by (simp add: sample_stored_def)

lemma stale_direction_write_refused_witness:
  "direction_step ''t'' (''now'', UpdateDirection (PInt 1) PNone) (Some (stored_payload (sample_stored ''completed'' 2)))
     = Inl (RevisionConflict 1 2)"
proof -
  have "Some (stored_payload (sample_stored ''completed'' 2)) \<noteq> Some (stored_payload (sample_stored ''active'' 1))"
    by (simp add: stored_payload_def sample_stored_def)
  from stale_direction_write_refused [OF sample_file_ok [OF sample_stored_ok(1)] sample_task_ok(2,1) sample_complete this,
      of 1 PNone None PNone "''now''" PNone]
  show ?thesis by simp
qed

definition sample_completion :: pyval where
  "sample_completion = PDict [(''expected_revision'', PInt 1), (''evidence'', PList []), (''hypotheses'', PList []),
     (''risks'', PList []), (''criteria'', PList [PDict [(''id'', PStr ''c1''), (''status'', PStr ''met''),
       (''evidence_ids'', PList [PStr ''e1''])]])]"

lemma sample_completion_Inr: "case parse_completion sample_completion sample_state of Inl e \<Rightarrow> False | Inr r \<Rightarrow> True"
  by code_simp

lemma completion_settles_criteria_witness:
  "\<exists>n s. parse_completion sample_completion sample_state = Inr (n, s) \<and> list_all (\<lambda>c. cr_status c \<noteq> ''pending'') (ds_criteria s)"
proof -
  obtain n s where "parse_completion sample_completion sample_state = Inr (n, s)"
    using sample_completion_Inr by (auto split: sum.splits)
  then show ?thesis using completion_settles_criteria [OF sample_state_ok] by blast
qed

end
