(* ===== verification/GridLayout.thy ===== *)
theory GridLayout
  imports PyValue "HOL-Library.Product_Lexorder"
begin

text \<open>
  Placing nodes on the board (\<open>graph_grid_layout.py\<close> with the settings of
  \<open>board_layout_settings.py\<close>): reading positions and sizes, the cells a node covers, and the
  two searches for a free place. The heap of the search is a sorted list of its entries, which are
  pairwise different, so the next entry is the head.
\<close>

section \<open>Numbers in documents\<close>

datatype grid_error = GridValueError string | GridOverflow | GridDataError string

type_synonym 'a grid_res = "(grid_error, 'a) res"

definition grid_float :: "string \<Rightarrow> pyval \<Rightarrow> pyfloat grid_res" where
  "grid_float field v = (if is_bool v then Inl (GridValueError field)
     else case py_float v of
       Inr f \<Rightarrow> Inr f
     | Inl OverflowError \<Rightarrow> Inl GridOverflow
     | Inl e \<Rightarrow> Inl (GridValueError field))"

definition grid_integer :: "string \<Rightarrow> pyval \<Rightarrow> int grid_res" where
  "grid_integer field v = rbind (grid_float field v) (\<lambda>f. case f of
      Fin q \<Rightarrow> if of_int \<lfloor>q\<rfloor> = q then Inr \<lfloor>q\<rfloor> else Inl (GridValueError field)
    | _ \<Rightarrow> Inl (GridValueError field))"

definition non_negative_integer :: "string \<Rightarrow> pyval \<Rightarrow> int grid_res" where
  "non_negative_integer field v = rbind (grid_integer field v) (\<lambda>n. if n < 0 then Inl (GridValueError field) else Inr n)"

definition bounded_integer :: "string \<Rightarrow> int \<Rightarrow> int \<Rightarrow> pyval \<Rightarrow> int grid_res" where
  "bounded_integer field lo hi v = rbind (grid_integer field v) (\<lambda>n. if n < lo \<or> n > hi then Inl (GridValueError field) else Inr n)"

definition finite_number :: "string \<Rightarrow> pyval \<Rightarrow> rat grid_res" where
  "finite_number field v = rbind (grid_float field v) (\<lambda>f. case f of Fin q \<Rightarrow> Inr q | _ \<Rightarrow> Inl (GridValueError field))"

section \<open>Settings\<close>

record board_settings =
  bs_cell_width :: int
  bs_cell_height :: int
  bs_node_width :: int
  bs_node_height :: int

definition DEFAULT_NODE_WIDTH :: int where "DEFAULT_NODE_WIDTH = 230"
definition DEFAULT_NODE_HEIGHT :: int where "DEFAULT_NODE_HEIGHT = 250"
definition MAX_GRID_CELL_SIZE :: int where "MAX_GRID_CELL_SIZE = 2000"
definition DEFAULT_GRID_COLUMNS :: int where "DEFAULT_GRID_COLUMNS = 4"

definition normalize_board_layout_settings :: "pyval \<Rightarrow> board_settings grid_res" where
  "normalize_board_layout_settings v = (case (if is_none v then PDict [] else v) of
      PDict d \<Rightarrow>
        rbind (bounded_integer ''boardLayout.gridCellWidth'' 230 MAX_GRID_CELL_SIZE (getd d ''gridCellWidth'' (PInt 300))) (\<lambda>cw.
        rbind (bounded_integer ''boardLayout.gridCellHeight'' 250 MAX_GRID_CELL_SIZE (getd d ''gridCellHeight'' (PInt 320))) (\<lambda>ch.
        rbind (bounded_integer ''boardLayout.nodeWidth'' 50 720 (getd d ''nodeWidth'' (PInt DEFAULT_NODE_WIDTH))) (\<lambda>nw.
        rbind (bounded_integer ''boardLayout.nodeHeight'' 50 760 (getd d ''nodeHeight'' (PInt DEFAULT_NODE_HEIGHT))) (\<lambda>nh.
        Inr \<lparr>bs_cell_width = cw, bs_cell_height = ch, bs_node_width = nw, bs_node_height = nh\<rparr>))))
    | _ \<Rightarrow> Inl (GridValueError ''boardLayout''))"

definition read_board_layout_settings :: "pyval \<Rightarrow> board_settings grid_res" where
  "read_board_layout_settings settings = (case settings of
      PDict d \<Rightarrow> normalize_board_layout_settings (get d ''boardLayout'')
    | _ \<Rightarrow> Inl (GridValueError ''config/config.json''))"

definition normalize_graph_layout :: "pyval \<Rightarrow> (int \<times> int) grid_res" where
  "normalize_graph_layout v = (case (if is_none v then PDict [] else v) of
      PDict d \<Rightarrow> (case (if is_none (get d ''grid'') then PDict [] else get d ''grid'') of
          PDict g \<Rightarrow>
            rbind (bounded_integer ''layout.grid.cell_width'' 230 MAX_GRID_CELL_SIZE (getd g ''cell_width'' (PInt 300))) (\<lambda>w.
            rbind (bounded_integer ''layout.grid.cell_height'' 250 MAX_GRID_CELL_SIZE (getd g ''cell_height'' (PInt 320))) (\<lambda>h.
            Inr (w, h)))
        | _ \<Rightarrow> Inl (GridValueError ''graph layout.grid must be an object''))
    | _ \<Rightarrow> Inl (GridValueError ''graph layout must be an object''))"

section \<open>Positions and sizes\<close>

record grid_ui =
  gu_x :: int
  gu_y :: int
  gu_width :: "int option"
  gu_height :: "int option"

definition optional_size :: "string \<Rightarrow> pyval \<Rightarrow> int option grid_res" where
  "optional_size field v = (if \<not> is_none v \<and> py_strip (py_str v) \<noteq> []
     then rbind (bounded_integer field 1 MAX_GRID_CELL_SIZE v) (\<lambda>n. Inr (Some n)) else Inr None)"

definition normalize_node_grid_ui :: "pyval \<Rightarrow> grid_ui grid_res" where
  "normalize_node_grid_ui v = (case v of
      PDict d \<Rightarrow>
        if \<not> dict_has d ''grid_x'' \<or> \<not> dict_has d ''grid_y'' then Inl (GridValueError ''ui.grid_x and ui.grid_y are required'')
        else
          rbind (non_negative_integer ''ui.grid_x'' (get d ''grid_x'')) (\<lambda>x.
          rbind (non_negative_integer ''ui.grid_y'' (get d ''grid_y'')) (\<lambda>y.
          rbind (optional_size ''ui.width'' (get d ''width'')) (\<lambda>w.
          rbind (optional_size ''ui.height'' (get d ''height'')) (\<lambda>h.
          Inr \<lparr>gu_x = x, gu_y = y, gu_width = w, gu_height = h\<rparr>))))
    | _ \<Rightarrow> Inl (GridValueError ''ui must be object''))"

text \<open>\<open>max(1, math.ceil(a / b))\<close>: the division is one of doubles.\<close>

definition cells_for :: "int \<Rightarrow> int \<Rightarrow> int" where
  "cells_for a b = (case round_double (of_int a / of_int b) of Fin q \<Rightarrow> max 1 \<lceil>q\<rceil> | _ \<Rightarrow> 1)"

definition size_or :: "int option \<Rightarrow> int \<Rightarrow> int" where
  "size_or given d = (case given of None \<Rightarrow> d | Some n \<Rightarrow> n)"

definition node_grid_span :: "grid_ui \<Rightarrow> int \<Rightarrow> int \<Rightarrow> int \<Rightarrow> int \<Rightarrow> int \<times> int" where
  "node_grid_span ui cw ch dw dh = (cells_for (size_or (gu_width ui) dw) cw, cells_for (size_or (gu_height ui) dh) ch)"

type_synonym cell = "int \<times> int"

definition grid_rectangle_cells :: "int \<Rightarrow> int \<Rightarrow> int \<Rightarrow> int \<Rightarrow> cell list" where
  "grid_rectangle_cells gx gy sx sy =
     concat (map (\<lambda>y. map (\<lambda>x. (x, y)) [gx .. gx + max 1 sx - 1]) [gy .. gy + max 1 sy - 1])"

definition legacy_cell :: "rat \<Rightarrow> int \<Rightarrow> int" where
  "legacy_cell x cell = (case round_double (x / of_int cell) of
      Fin q \<Rightarrow> (case round_double (q + 1/2) of Fin r \<Rightarrow> max 0 \<lfloor>r\<rfloor> | _ \<Rightarrow> 0) | _ \<Rightarrow> 0)"

definition normalize_legacy_absolute_ui :: "pyval \<Rightarrow> int \<Rightarrow> int \<Rightarrow> grid_ui option grid_res" where
  "normalize_legacy_absolute_ui v cw ch = (case v of
      PDict d \<Rightarrow>
        if dict_has d ''grid_x'' \<or> dict_has d ''grid_y'' then Inr None
        else if \<not> dict_has d ''x'' \<and> \<not> dict_has d ''y'' then Inr None
        else if \<not> dict_has d ''x'' \<or> \<not> dict_has d ''y'' then Inl (GridValueError ''legacy ui.x and ui.y are both required'')
        else
          rbind (finite_number ''legacy ui.x'' (get d ''x'')) (\<lambda>x.
          rbind (finite_number ''legacy ui.y'' (get d ''y'')) (\<lambda>y.
          rbind (normalize_node_grid_ui (PDict ([(''grid_x'', PInt (legacy_cell x cw)), (''grid_y'', PInt (legacy_cell y ch))]
              @ (if is_none (get d ''width'') then [] else [(''width'', get d ''width'')])
              @ (if is_none (get d ''height'') then [] else [(''height'', get d ''height'')])))) (\<lambda>ui. Inr (Some ui))))
    | _ \<Rightarrow> Inr None)"

section \<open>Searching a free place\<close>

definition available :: "cell list \<Rightarrow> int \<Rightarrow> int \<Rightarrow> cell \<Rightarrow> bool" where
  "available occupied sx sy c \<longleftrightarrow> \<not> list_ex (\<lambda>r. r \<in> set occupied) (grid_rectangle_cells (fst c) (snd c) sx sy)"

lemma set_rectangle:
  "set (grid_rectangle_cells gx gy sx sy) = {gx ..< gx + max 1 sx} \<times> {gy ..< gy + max 1 sy}"
  by (auto simp: grid_rectangle_cells_def)

lemma available_iff: "available occ sx sy c \<longleftrightarrow> set occ \<inter> ({fst c ..< fst c + max 1 sx} \<times> {snd c ..< snd c + max 1 sy}) = {}"
  by (auto simp: available_def list_ex_iff set_rectangle)

definition column_cell :: "nat \<Rightarrow> cell" where
  "column_cell index = (int index mod DEFAULT_GRID_COLUMNS, int index div DEFAULT_GRID_COLUMNS)"

text \<open>One past the lowest occupied row: from there on everything is free.\<close>

definition free_row :: "cell list \<Rightarrow> int" where
  "free_row occ = fold max (map snd occ) 0 + 1"

lemma fold_max_start: "(a::int) \<le> fold max xs a"
proof (induction xs arbitrary: a)
  case (Cons x xs)
  show ?case using Cons.IH [of "max x a"] by simp
qed simp

lemma fold_max_ge: "x \<in> set xs \<Longrightarrow> x \<le> fold max xs (a::int)"
proof (induction xs arbitrary: a)
  case (Cons y ys)
  then show ?case using fold_max_start [of "max y a" ys] by (cases "x = y") auto
qed simp

lemma below_free_row: "c \<in> set occ \<Longrightarrow> snd c < free_row occ"
  using fold_max_ge [of "snd c" "map snd occ" 0] by (force simp: free_row_def)

lemma available_row: "free_row occ \<le> snd c \<Longrightarrow> available occ sx sy c"
  by (auto simp: available_iff dest!: below_free_row)

function first_free :: "cell list \<Rightarrow> int \<Rightarrow> int \<Rightarrow> nat \<Rightarrow> cell" where
  "first_free occ sx sy index = (if available occ sx sy (column_cell index) then column_cell index
     else first_free occ sx sy (Suc index))"
  by pat_completeness auto

termination
proof (relation "measure (\<lambda>(occ, sx, sy, index). nat (4 * free_row occ) - index)", simp)
  fix occ sx sy and index :: nat
  assume "\<not> available occ sx sy (column_cell index)"
  then have "int index div 4 < free_row occ"
    using available_row [of occ "column_cell index"] by (force simp: column_cell_def DEFAULT_GRID_COLUMNS_def)
  then have "index < nat (4 * free_row occ)" by linarith
  then show "((occ, sx, sy, Suc index), occ, sx, sy, index) \<in> measure (\<lambda>(occ, sx, sy, index). nat (4 * free_row occ) - index)"
    by simp
qed

declare first_free.simps [simp del]

type_synonym heap_entry = "int \<times> int \<times> int"

definition distance_squared :: "cell \<Rightarrow> int \<times> int \<Rightarrow> cell \<Rightarrow> int" where
  "distance_squared p sc c = ((fst c - fst p) * fst sc) ^ 2 + ((snd c - snd p) * snd sc) ^ 2"

definition entry :: "cell \<Rightarrow> int \<times> int \<Rightarrow> cell \<Rightarrow> heap_entry" where
  "entry p sc c = (distance_squared p sc c, snd c, fst c)"

definition push_cell :: "cell \<Rightarrow> int \<times> int \<Rightarrow> cell \<Rightarrow> heap_entry list \<times> cell list \<Rightarrow> heap_entry list \<times> cell list" where
  "push_cell p sc c st = (let (heap, queued) = st in
     if fst c < 0 \<or> snd c < 0 \<or> c \<in> set queued then (heap, queued)
     else (insort (entry p sc c) heap, c # queued))"

lemma push_cell_skip: "fst c < 0 \<or> snd c < 0 \<or> c \<in> set q \<Longrightarrow> push_cell p sc c (h, q) = (h, q)"
  by (auto simp: push_cell_def)

lemma push_cell_add: "\<not> (fst c < 0 \<or> snd c < 0 \<or> c \<in> set q) \<Longrightarrow> push_cell p sc c (h, q) = (insort (entry p sc c) h, c # q)"
  by (simp add: push_cell_def)

definition neighbours :: "cell \<Rightarrow> cell list" where
  "neighbours c = [(fst c - 1, snd c), (fst c + 1, snd c), (fst c, snd c - 1), (fst c, snd c + 1)]"

text \<open>The cells the search can meet: those whose rectangle meets an occupied cell, and their neighbours.\<close>

definition near_occupied :: "cell list \<Rightarrow> int \<Rightarrow> int \<Rightarrow> cell set" where
  "near_occupied occ sx sy = (\<Union>o' \<in> set occ. {fst o' - max 1 sx .. fst o' + 1} \<times> {snd o' - max 1 sy .. snd o' + 1})"

lemma finite_near [simp]: "finite (near_occupied occ sx sy)"
  by (simp add: near_occupied_def)

lemma neighbours_near: "\<not> available occ sx sy c \<Longrightarrow> set (neighbours c) \<subseteq> near_occupied occ sx sy"
  by (fastforce simp: available_iff near_occupied_def neighbours_def)

lemma push_fold_cases:
  assumes "fold (push_cell p sc) cs (h, q) = (h', q')"
  obtains (none) "h' = h" "q' = q" | (some) c where "c \<in> set cs" "c \<notin> set q" "c \<in> set q'" "set q \<subseteq> set q'"
  using assms
proof (induction cs arbitrary: h q thesis)
  case (Cons c cs)
  show ?case
  proof (cases "fst c < 0 \<or> snd c < 0 \<or> c \<in> set q")
    case True
    then have "fold (push_cell p sc) cs (h, q) = (h', q')" using Cons.prems(3) by (simp add: push_cell_skip)
    then show ?thesis using Cons.IH [of h q] Cons.prems(1,2) by auto
  next
    case False
    then have f: "fold (push_cell p sc) cs (insort (entry p sc c) h, c # q) = (h', q')"
      using Cons.prems(3) by (simp add: push_cell_add)
    have "insert c (set q) \<subseteq> set q'" by (rule Cons.IH [OF _ _ f]) auto
    then show ?thesis using False by (intro Cons.prems(2) [of c]) auto
  qed
qed simp

lemma push_fold_measure:
  assumes c: "\<not> available occ sx sy c" and f: "fold (push_cell p sc) (neighbours c) (rest, q) = (h', q')"
  shows "card (near_occupied occ sx sy - set q') < card (near_occupied occ sx sy - set q)
    \<or> (card (near_occupied occ sx sy - set q') = card (near_occupied occ sx sy - set q) \<and> length h' < length (e # rest))"
  using f
proof (cases rule: push_fold_cases)
  case (some d)
  then have "near_occupied occ sx sy - set q' \<subset> near_occupied occ sx sy - set q"
    using neighbours_near [OF c] by blast
  then show ?thesis by (simp add: psubset_card_mono)
qed simp

function nearest_free ::
    "cell list \<Rightarrow> int \<Rightarrow> int \<Rightarrow> cell \<Rightarrow> int \<times> int \<Rightarrow> heap_entry list \<Rightarrow> cell list \<Rightarrow> cell option" where
  "nearest_free occ sx sy p sc [] queued = None"
| "nearest_free occ sx sy p sc ((d, y, x) # rest) queued = (if available occ sx sy (x, y) then Some (x, y)
     else let st = fold (push_cell p sc) (neighbours (x, y)) (rest, queued)
          in nearest_free occ sx sy p sc (fst st) (snd st))"
  by pat_completeness auto

termination
  by (relation "measures [\<lambda>(occ, sx, sy, p, sc, heap, queued). card (near_occupied occ sx sy - set queued),
    \<lambda>(occ, sx, sy, p, sc, heap, queued). length heap]") (auto split: prod.splits dest!: push_fold_measure)

declare nearest_free.simps [simp del]

definition find_available_grid_origin :: "cell list \<Rightarrow> int \<Rightarrow> int \<Rightarrow> cell option \<Rightarrow> int \<times> int \<Rightarrow> cell option" where
  "find_available_grid_origin occ sx sy preferred scale = (case preferred of
      None \<Rightarrow> Some (first_free occ sx sy 0)
    | Some (x, y) \<Rightarrow> let p = (max 0 x, max 0 y); sc = (max 1 (fst scale), max 1 (snd scale))
        in nearest_free occ sx sy p sc [(0, snd p, fst p)] [p])"

section \<open>Placing nodes of a graph\<close>

text \<open>What a directory entry holds: no configuration file, one that cannot be read as JSON, or its value.\<close>

datatype node_file = NoConfig | Unreadable | Config pyval

type_synonym graph_dir = "(string \<times> node_file) list"

definition data_error :: "'a grid_res \<Rightarrow> 'a grid_res" where
  "data_error r = (case r of Inl (GridValueError e) \<Rightarrow> Inl (GridDataError e) | _ \<Rightarrow> r)"

definition ui_cells :: "board_settings \<Rightarrow> grid_ui \<Rightarrow> cell list" where
  "ui_cells s ui = (let (sx, sy) = node_grid_span ui (bs_cell_width s) (bs_cell_height s) (bs_node_width s) (bs_node_height s)
     in grid_rectangle_cells (gu_x ui) (gu_y ui) sx sy)"

definition excluded_names :: "string list \<Rightarrow> string list" where
  "excluded_names names = filter (\<lambda>n. n \<noteq> []) (map py_strip names)"

definition occupy_entry :: "board_settings \<Rightarrow> string list \<Rightarrow> string \<times> node_file \<Rightarrow> cell list \<Rightarrow> cell list grid_res" where
  "occupy_entry s excluded e occ = (if fst e \<in> set excluded then Inr occ else case snd e of
      NoConfig \<Rightarrow> Inr occ
    | Unreadable \<Rightarrow> Inl (GridDataError ''failed to read node grid position'')
    | Config (PDict p) \<Rightarrow> rbind (data_error (normalize_node_grid_ui (get p ''ui''))) (\<lambda>ui. Inr (occ @ ui_cells s ui))
    | Config v \<Rightarrow> Inl (GridDataError ''node config must be an object''))"

definition occupied_grid_cells :: "board_settings \<Rightarrow> graph_dir \<Rightarrow> string list \<Rightarrow> cell list grid_res" where
  "occupied_grid_cells s dir exclude = rfold (occupy_entry s (excluded_names exclude)) dir []"

definition resolve_available_node_ui :: "board_settings \<Rightarrow> graph_dir \<Rightarrow> pyval \<Rightarrow> string list \<Rightarrow> grid_ui grid_res" where
  "resolve_available_node_ui s dir requested exclude =
     rbind (if is_none requested then Inr None else rbind (normalize_node_grid_ui requested) (\<lambda>u. Inr (Some u))) (\<lambda>req.
     let width = size_or (Option.bind req gu_width) (bs_node_width s);
         height = size_or (Option.bind req gu_height) (bs_node_height s);
         sx = cells_for width (bs_cell_width s); sy = cells_for height (bs_cell_height s) in
     rbind (occupied_grid_cells s dir exclude) (\<lambda>occ.
     case find_available_grid_origin occ sx sy (map_option (\<lambda>u. (gu_x u, gu_y u)) req) (bs_cell_width s, bs_cell_height s) of
       None \<Rightarrow> Inl (GridDataError ''failed to find an available grid origin'')
     | Some (x, y) \<Rightarrow> Inr \<lparr>gu_x = x, gu_y = y, gu_width = Some width, gu_height = Some height\<rparr>))"

subsection \<open>Nodes without a position\<close>

definition scan_entry ::
    "board_settings \<Rightarrow> string list \<Rightarrow> string \<times> node_file \<Rightarrow> cell list \<times> (string \<times> pydict \<times> grid_ui option) list
       \<Rightarrow> (cell list \<times> (string \<times> pydict \<times> grid_ui option) list) grid_res" where
  "scan_entry s excluded e acc = (let (occ, missing) = acc in
     if fst e \<in> set excluded then Inr acc else case snd e of
      NoConfig \<Rightarrow> Inr acc
    | Unreadable \<Rightarrow> Inl (GridDataError ''failed to read node grid position'')
    | Config (PDict p) \<Rightarrow>
        if is_none (get p ''ui'') then Inr (occ, missing @ [(fst e, p, None)])
        else rbind (normalize_legacy_absolute_ui (get p ''ui'') (bs_cell_width s) (bs_cell_height s)) (\<lambda>legacy. case legacy of
            Some u \<Rightarrow> Inr (occ, missing @ [(fst e, p, Some u)])
          | None \<Rightarrow> rbind (data_error (normalize_node_grid_ui (get p ''ui''))) (\<lambda>ui. Inr (occ @ ui_cells s ui, missing)))
    | Config v \<Rightarrow> Inl (GridDataError ''node config must be an object''))"

definition repaired_ui :: "board_settings \<Rightarrow> grid_ui option \<Rightarrow> cell \<Rightarrow> grid_ui" where
  "repaired_ui s requested c = \<lparr>gu_x = fst c, gu_y = snd c,
     gu_width = Some (size_or (Option.bind requested gu_width) (bs_node_width s)),
     gu_height = Some (size_or (Option.bind requested gu_height) (bs_node_height s))\<rparr>"

definition ui_val :: "grid_ui \<Rightarrow> pyval" where
  "ui_val u = PDict [(''width'', PInt (size_or (gu_width u) 0)), (''height'', PInt (size_or (gu_height u) 0)),
     (''grid_x'', PInt (gu_x u)), (''grid_y'', PInt (gu_y u))]"

definition repair_entry ::
    "board_settings \<Rightarrow> string \<times> pydict \<times> grid_ui option \<Rightarrow> cell list \<times> (string \<times> pyval) list
       \<Rightarrow> (cell list \<times> (string \<times> pyval) list) grid_res" where
  "repair_entry s m acc = (let (occ, written) = acc; (name, payload, requested) = m;
       source = (case requested of Some u \<Rightarrow> u
         | None \<Rightarrow> \<lparr>gu_x = 0, gu_y = 0, gu_width = Some (bs_node_width s), gu_height = Some (bs_node_height s)\<rparr>);
       (sx, sy) = node_grid_span source (bs_cell_width s) (bs_cell_height s) DEFAULT_NODE_WIDTH DEFAULT_NODE_HEIGHT in
     case find_available_grid_origin occ sx sy (map_option (\<lambda>u. (gu_x u, gu_y u)) requested) (bs_cell_width s, bs_cell_height s) of
       None \<Rightarrow> Inl (GridDataError ''failed to find an available grid origin'')
     | Some c \<Rightarrow> Inr (occ @ grid_rectangle_cells (fst c) (snd c) sx sy,
         written @ [(name, PDict (dict_set ''ui'' (ui_val (repaired_ui s requested c)) payload))]))"

text \<open>The configurations that are written, in the order of the writes; their names are the result.\<close>

definition repair_missing_node_grid_positions :: "board_settings \<Rightarrow> graph_dir \<Rightarrow> string list \<Rightarrow> (string \<times> pyval) list grid_res" where
  "repair_missing_node_grid_positions s dir exclude =
     rbind (rfold (scan_entry s (excluded_names exclude)) (sort_key fst dir) ([], [])) (\<lambda>(occ, missing).
     rbind (rfold (repair_entry s) missing (occ, [])) (\<lambda>(occ, written). Inr written))"

section \<open>The search finds the nearest free place\<close>

lemma entry_inject [simp]: "entry p sc c = entry p sc c' \<longleftrightarrow> c = c'"
  by (cases c; cases c') (auto simp: entry_def)

lemma push_fold:
  assumes "fold (push_cell p sc) cs (h, q) = (h', q')"
  shows "set q' = set q \<union> {c \<in> set cs. 0 \<le> fst c \<and> 0 \<le> snd c} \<and> set h' = set h \<union> entry p sc ` (set q' - set q)
    \<and> (sorted h \<longrightarrow> sorted h')"
  using assms
proof (induction cs arbitrary: h q)
  case (Cons c cs)
  show ?case
  proof (cases "fst c < 0 \<or> snd c < 0 \<or> c \<in> set q")
    case True
    then have "fold (push_cell p sc) cs (h, q) = (h', q')" using Cons.prems by (simp add: push_cell_skip)
    from Cons.IH [OF this] True show ?thesis by auto
  next
    case False
    then have "fold (push_cell p sc) cs (insort (entry p sc c) h, c # q) = (h', q')" using Cons.prems by (simp add: push_cell_add)
    from Cons.IH [OF this] False show ?thesis by (auto simp: set_insort_key sorted_insort)
  qed
qed auto

definition search_inv :: "cell list \<Rightarrow> int \<Rightarrow> int \<Rightarrow> cell \<Rightarrow> int \<times> int \<Rightarrow> heap_entry list \<Rightarrow> cell list \<Rightarrow> bool" where
  "search_inv occ sx sy p sc heap queued \<longleftrightarrow> sorted heap \<and> set heap \<subseteq> entry p sc ` set queued
     \<and> (\<forall>c \<in> set queued. 0 \<le> fst c \<and> 0 \<le> snd c) \<and> p \<in> set queued
     \<and> (\<forall>c \<in> set queued. entry p sc c \<notin> set heap \<longrightarrow> \<not> available occ sx sy c
          \<and> (\<forall>n \<in> set (neighbours c). 0 \<le> fst n \<longrightarrow> 0 \<le> snd n \<longrightarrow> n \<in> set queued))"

lemma search_inv_step:
  assumes inv: "search_inv occ sx sy p sc (e # rest) q" and e: "e = entry p sc c" and c: "\<not> available occ sx sy c"
    and f: "fold (push_cell p sc) (neighbours c) (rest, q) = (h', q')"
  shows "search_inv occ sx sy p sc h' q'"
proof -
  have cq: "c \<in> set q" using inv e by (auto simp: search_inv_def)
  note pf = push_fold [OF f]
  have "\<not> available occ sx sy d \<and> (\<forall>n \<in> set (neighbours d). 0 \<le> fst n \<longrightarrow> 0 \<le> snd n \<longrightarrow> n \<in> set q')"
    if d: "d \<in> set q'" "entry p sc d \<notin> set h'" for d
  proof (cases "d = c")
    case True
    then show ?thesis using c pf by auto
  next
    case False
    have "d \<in> set q" "entry p sc d \<notin> set (e # rest)" using d pf False e by auto
    then show ?thesis using inv pf unfolding search_inv_def by blast
  qed
  moreover have "\<forall>d \<in> set q'. 0 \<le> fst d \<and> 0 \<le> snd d" using pf inv by (auto simp: search_inv_def)
  moreover have "set h' \<subseteq> entry p sc ` set q'" using pf inv by (auto simp: search_inv_def)
  moreover have "sorted h'" "p \<in> set q'" using pf inv by (auto simp: search_inv_def)
  ultimately show ?thesis unfolding search_inv_def by blast
qed

lemma distance_less:
  fixes a b s :: int
  assumes "\<bar>a\<bar> < \<bar>b\<bar>" and "1 \<le> s"
  shows "(a * s) ^ 2 < (b * s) ^ 2"
proof -
  have "\<bar>a * s\<bar> < \<bar>b * s\<bar>" using assms by (simp add: abs_mult)
  then show ?thesis using abs_le_square_iff [of "b * s" "a * s"] by linarith
qed

lemma towards:
  assumes c: "c \<noteq> p" "0 \<le> fst c" "0 \<le> snd c" and p: "0 \<le> fst p" "0 \<le> snd p" and sc: "1 \<le> fst sc" "1 \<le> snd sc"
  obtains d where "c \<in> set (neighbours d)" "0 \<le> fst d" "0 \<le> snd d"
    "\<bar>fst d - fst p\<bar> + \<bar>snd d - snd p\<bar> < \<bar>fst c - fst p\<bar> + \<bar>snd c - snd p\<bar>" "entry p sc d < entry p sc c"
proof -
  consider "fst c < fst p" | "fst p < fst c" | "snd c < snd p" | "snd p < snd c" using c(1) by (metis linorder_neqE_linordered_idom prod_eqI)
  then show ?thesis
  proof cases
    case 1
    then show ?thesis using c p sc distance_less [of "fst c + 1 - fst p" "fst c - fst p" "fst sc"]
      by (intro that [of "(fst c + 1, snd c)"]) (auto simp: neighbours_def entry_def distance_squared_def less_prod_def prod_eq_iff)
  next
    case 2
    then show ?thesis using c p sc distance_less [of "fst c - 1 - fst p" "fst c - fst p" "fst sc"]
      by (intro that [of "(fst c - 1, snd c)"]) (auto simp: neighbours_def entry_def distance_squared_def less_prod_def prod_eq_iff)
  next
    case 3
    then show ?thesis using c p sc distance_less [of "snd c + 1 - snd p" "snd c - snd p" "snd sc"]
      by (intro that [of "(fst c, snd c + 1)"]) (auto simp: neighbours_def entry_def distance_squared_def less_prod_def prod_eq_iff)
  next
    case 4
    then show ?thesis using c p sc distance_less [of "snd c - 1 - snd p" "snd c - snd p" "snd sc"]
      by (intro that [of "(fst c, snd c - 1)"]) (auto simp: neighbours_def entry_def distance_squared_def less_prod_def prod_eq_iff)
  qed
qed

text \<open>Every cell has been refused already, or the heap holds an entry that is at least as good.\<close>

lemma search_covers:
  assumes inv: "search_inv occ sx sy p sc heap q" and sc: "1 \<le> fst sc" "1 \<le> snd sc"
  shows "0 \<le> fst c \<Longrightarrow> 0 \<le> snd c \<Longrightarrow> (c \<in> set q \<and> entry p sc c \<notin> set heap) \<or> (\<exists>e \<in> set heap. e \<le> entry p sc c)"
proof (induction "nat (\<bar>fst c - fst p\<bar> + \<bar>snd c - snd p\<bar>)" arbitrary: c rule: less_induct)
  case less
  show ?case
  proof (cases "c = p")
    case True
    then show ?thesis using inv by (auto simp: search_inv_def)
  next
    case False
    have p: "0 \<le> fst p" "0 \<le> snd p" using inv by (auto simp: search_inv_def)
    obtain d where d: "c \<in> set (neighbours d)" "0 \<le> fst d" "0 \<le> snd d" "entry p sc d < entry p sc c"
        "\<bar>fst d - fst p\<bar> + \<bar>snd d - snd p\<bar> < \<bar>fst c - fst p\<bar> + \<bar>snd c - snd p\<bar>"
      using towards [OF False less.prems p sc] by blast
    from d(5) have "nat (\<bar>fst d - fst p\<bar> + \<bar>snd d - snd p\<bar>) < nat (\<bar>fst c - fst p\<bar> + \<bar>snd c - snd p\<bar>)" by linarith
    from less.hyps [OF this d(2,3)] show ?thesis
    proof
      assume "d \<in> set q \<and> entry p sc d \<notin> set heap"
      then have "c \<in> set q" using inv d(1) less.prems unfolding search_inv_def by blast
      then show ?thesis by auto
    next
      assume "\<exists>e \<in> set heap. e \<le> entry p sc d"
      then show ?thesis using d(4) by (meson less_imp_le order_trans)
    qed
  qed
qed

definition nearest :: "cell list \<Rightarrow> int \<Rightarrow> int \<Rightarrow> cell \<Rightarrow> int \<times> int \<Rightarrow> cell \<Rightarrow> bool" where
  "nearest occ sx sy p sc r \<longleftrightarrow> available occ sx sy r \<and> 0 \<le> fst r \<and> 0 \<le> snd r
     \<and> (\<forall>c. 0 \<le> fst c \<longrightarrow> 0 \<le> snd c \<longrightarrow> available occ sx sy c \<longrightarrow> entry p sc r \<le> entry p sc c)"

lemma nearest_free_nearest:
  assumes "search_inv occ sx sy p sc heap q" and "1 \<le> fst sc" "1 \<le> snd sc"
  shows "\<exists>r. nearest_free occ sx sy p sc heap q = Some r \<and> nearest occ sx sy p sc r"
  using assms
proof (induction occ sx sy p sc heap q rule: nearest_free.induct)
  case (1 occ sx sy p sc q)
  have free: "available occ sx sy (0, max 0 (free_row occ))" by (rule available_row) simp
  from search_covers [OF 1, of "(0, max 0 (free_row occ))"] have "(0, max 0 (free_row occ)) \<in> set q" by simp
  then show ?case using 1(1) free by (auto simp: search_inv_def)
next
  case (2 occ sx sy p sc d y x rest q)
  have e: "(d, y, x) = entry p sc (x, y)" and xy: "0 \<le> x" "0 \<le> y" using 2(2) by (auto simp: search_inv_def entry_def)
  show ?case
  proof (cases "available occ sx sy (x, y)")
    case True
    have "entry p sc (x, y) \<le> entry p sc c" if c: "0 \<le> fst c" "0 \<le> snd c" "available occ sx sy c" for c
    proof -
      have "\<not> (c \<in> set q \<and> entry p sc c \<notin> set ((d, y, x) # rest))" using 2(2) c(3) unfolding search_inv_def by blast
      then obtain e' where "e' \<in> set ((d, y, x) # rest)" "e' \<le> entry p sc c" using search_covers [OF 2(2-4) c(1,2)] by blast
      moreover have "(d, y, x) \<le> e'" using calculation(1) 2(2) by (auto simp: search_inv_def)
      ultimately show ?thesis unfolding e by (meson order_trans)
    qed
    then show ?thesis using True xy by (auto simp: nearest_def nearest_free.simps(2))
  next
    case False
    obtain h' q' where f: "fold (push_cell p sc) (neighbours (x, y)) (rest, q) = (h', q')" by force
    have "search_inv occ sx sy p sc h' q'" by (rule search_inv_step [OF 2(2) e False f])
    then show ?thesis using 2(1) [OF False refl] 2(3,4) False f by (simp add: nearest_free.simps(2))
  qed
qed

end
