(* ===== verification/GridLaws.thy ===== *)
theory GridLaws
  imports GridLayout
begin

text \<open>
  What placing guarantees: both searches end with the best free place, sizes are rounded up exactly
  although the division is one of doubles, and a new node covers no pixel of another one. One more
  fact shows where the migration of old positions breaks the last guarantee.
\<close>

section \<open>Rounding up\<close>

lemma round_half_even_near: "\<bar>of_int (round_half_even x) - x\<bar> \<le> 1/2"
  by (auto simp: round_half_even_def Let_def abs_if) linarith+

lemma round_double_near:
  assumes q: "0 < q" "q < 2 ^ 11"
  obtains r where "round_double q = Fin r" "\<bar>r - q\<bar> \<le> 2 powi (- 43)"
proof -
  define e where "e = float_exponent q"
  obtain k where k: "2 powi k \<le> q" "e = max (k - 52) (- 1074)"
    using float_exponent_log2 [OF q(1)] e_def by blast
  have "(2::rat) powi k < 2 powi 11" using k(1) q(2) by (simp add: power_int_def)
  then have "k < 11" by (simp only: powi_2_less_iff)
  then have "e \<le> - 42" using k(2) by simp
  then have le: "(2::rat) powi e \<le> 2 powi (- 42)" by (rule power_int_increasing) simp
  define v where "v = of_int (round_half_even (q / 2 powi e)) * (2::rat) powi e"
  have "v - q = (of_int (round_half_even (q / 2 powi e)) - q / 2 powi e) * 2 powi e"
    by (simp add: v_def field_simps)
  then have "\<bar>v - q\<bar> \<le> 1/2 * 2 powi e" using round_half_even_near [of "q / 2 powi e"] by (simp add: abs_mult mult_right_mono)
  also have "\<dots> \<le> 1/2 * 2 powi (- 42)" using le by simp
  also have "\<dots> = 2 powi (- 43)" using power_int_add [of "2::rat" "- 43" 1] by simp
  finally have near: "\<bar>v - q\<bar> \<le> 2 powi (- 43)" .
  have "(2::rat) powi (- 43) \<le> 2 powi 0" by (rule power_int_increasing) simp_all
  then have "v < 2 ^ 1024" using near q(2) by (simp add: abs_if split: if_splits)
  then have "round_double q = Fin v" using q(1) by (simp add: round_double_def Let_def v_def e_def)
  then show ?thesis using that near by blast
qed

lemma cells_for_exact:
  assumes w: "1 \<le> w" "w \<le> 2000" and c: "1 \<le> c" "c \<le> 2000"
  shows "cells_for w c = \<lceil>(of_int w :: rat) / of_int c\<rceil>"
proof -
  define q :: rat where "q = of_int w / of_int c"
  define n where "n = \<lceil>q\<rceil>"
  have q0: "0 < q" using w c by (simp add: q_def)
  have "w \<le> 2000 * c" using w c by linarith
  then have "(of_int w :: rat) \<le> of_int (2000 * c)" by (simp only: of_int_le_iff)
  then have qle: "q \<le> 2000" using c by (simp add: q_def divide_simps)
  obtain r where r: "round_double q = Fin r" "\<bar>r - q\<bar> \<le> 2 powi (- 43)" using round_double_near [of q] q0 qle by auto
  have "\<lceil>r\<rceil> = n"
  proof (cases "of_int n = q")
    case True
    have "0 < n" "n \<le> 2000" using q0 qle by (simp_all add: n_def ceiling_le_iff)
    then have "\<bar>n\<bar> \<le> 2 ^ 53" by simp
    then have "r = of_int n" using round_double_int [of n] True r(1) by simp
    then show ?thesis by simp
  next
    case False
    have "q \<le> of_int n" "of_int n - 1 < q" using ceiling_correct [of q] by (simp_all add: n_def)
    then have "q < of_int n" "of_int n - 1 < q" using False by linarith+
    then have "of_int w < (of_int (n * c) :: rat)" "of_int ((n - 1) * c) < (of_int w :: rat)"
      using c by (simp_all add: q_def field_simps)
    then have "w + 1 \<le> n * c" "(n - 1) * c + 1 \<le> w" by (simp_all only: of_int_less_iff)
    then have "of_int w + (1::rat) \<le> of_int n * of_int c" "(of_int n - 1) * of_int c + 1 \<le> (of_int w :: rat)"
      by (metis of_int_1 of_int_add of_int_le_iff of_int_mult, metis of_int_1 of_int_add of_int_diff of_int_le_iff of_int_mult)
    then have "(of_int w + 1) / of_int c \<le> (of_int n :: rat)" "of_int n - 1 \<le> (of_int w - 1) / (of_int c :: rat)"
      using c by (simp_all add: pos_divide_le_eq pos_le_divide_eq)
    then have "q + 1 / of_int c \<le> of_int n" "of_int n - 1 + 1 / of_int c \<le> q"
      by (simp_all add: q_def add_divide_distrib diff_divide_distrib)
    moreover have "(2::rat) powi (- 43) < 1 / of_int c"
    proof -
      have "(1::rat) / 2000 \<le> 1 / of_int c" using c by (simp add: divide_simps)
      moreover have "(2::rat) powi (- 43) < 1 / 2000" by (simp add: power_int_def power_divide)
      ultimately show ?thesis by simp
    qed
    ultimately have "r < of_int n" "of_int n - 1 < r" using r(2) by (auto simp: abs_if split: if_splits)
    then show ?thesis by (intro ceiling_unique) auto
  qed
  moreover have "1 \<le> n" using q0 by (simp add: n_def le_ceiling_iff)
  ultimately show ?thesis using r(1) by (simp add: cells_for_def q_def n_def)
qed

lemma cells_for_cover:
  assumes "1 \<le> w" "w \<le> 2000" "1 \<le> c" "c \<le> 2000"
  shows "w \<le> cells_for w c * c \<and> 1 \<le> cells_for w c"
proof -
  have "(of_int w :: rat) / of_int c \<le> of_int (cells_for w c)" using cells_for_exact [OF assms] by simp
  then have "(of_int w :: rat) \<le> of_int (cells_for w c * c)" using assms(3) by (simp add: divide_simps)
  then have "w \<le> cells_for w c * c" by (simp only: of_int_le_iff)
  then show ?thesis by (auto simp: cells_for_def split: pyfloat.splits)
qed

section \<open>The searches\<close>

lemma first_free_least:
  "\<exists>i \<ge> index. first_free occ sx sy index = column_cell i \<and> available occ sx sy (column_cell i)
     \<and> (\<forall>j. index \<le> j \<longrightarrow> j < i \<longrightarrow> \<not> available occ sx sy (column_cell j))"
proof (induction occ sx sy index rule: first_free.induct)
  case (1 occ sx sy index)
  show ?case
  proof (cases "available occ sx sy (column_cell index)")
    case True
    then show ?thesis by (auto simp: first_free.simps [of occ sx sy index])
  next
    case False
    then obtain i where i: "i \<ge> Suc index" "first_free occ sx sy (Suc index) = column_cell i" "available occ sx sy (column_cell i)"
        "\<forall>j. Suc index \<le> j \<longrightarrow> j < i \<longrightarrow> \<not> available occ sx sy (column_cell j)" using 1 by blast
    have "\<not> available occ sx sy (column_cell j)" if "index \<le> j" "j < i" for j
      using that i(4) False by (cases "j = index") auto
    moreover have "first_free occ sx sy index = column_cell i" using i(2) False by (simp add: first_free.simps [of occ sx sy index])
    ultimately show ?thesis using i(1,3) by (meson Suc_leD)
  qed
qed

lemma search_inv_start:
  assumes "0 \<le> fst p" "0 \<le> snd p"
  shows "search_inv occ sx sy p sc [(0, snd p, fst p)] [p]"
  using assms by (auto simp: search_inv_def entry_def distance_squared_def)

lemma find_available_preferred:
  "\<exists>r. find_available_grid_origin occ sx sy (Some (x, y)) scale = Some r
     \<and> nearest occ sx sy (max 0 x, max 0 y) (max 1 (fst scale), max 1 (snd scale)) r"
  using nearest_free_nearest [OF search_inv_start [of "(max 0 x, max 0 y)" occ sx sy "(max 1 (fst scale), max 1 (snd scale))"]]
  by (simp add: find_available_grid_origin_def Let_def)

lemma find_available_default:
  "\<exists>i. find_available_grid_origin occ sx sy None scale = Some (column_cell i) \<and> available occ sx sy (column_cell i)
     \<and> (\<forall>j < i. \<not> available occ sx sy (column_cell j))"
  using first_free_least [of 0 occ sx sy] by (auto simp: find_available_grid_origin_def)

lemma find_available_sound:
  "\<exists>r. find_available_grid_origin occ sx sy pref scale = Some r \<and> available occ sx sy r \<and> 0 \<le> fst r \<and> 0 \<le> snd r"
proof (cases pref)
  case None
  then show ?thesis using find_available_default [of occ sx sy scale] by (force simp: column_cell_def DEFAULT_GRID_COLUMNS_def)
next
  case (Some p)
  then show ?thesis using find_available_preferred [of occ sx sy "fst p" "snd p" scale] by (auto simp: nearest_def)
qed

section \<open>New nodes cover no pixel of others\<close>

definition settings_ok :: "board_settings \<Rightarrow> bool" where
  "settings_ok s \<longleftrightarrow> 1 \<le> bs_cell_width s \<and> bs_cell_width s \<le> 2000 \<and> 1 \<le> bs_cell_height s \<and> bs_cell_height s \<le> 2000
     \<and> 1 \<le> bs_node_width s \<and> bs_node_width s \<le> 2000 \<and> 1 \<le> bs_node_height s \<and> bs_node_height s \<le> 2000"

definition ui_ok :: "grid_ui \<Rightarrow> bool" where
  "ui_ok u \<longleftrightarrow> 0 \<le> gu_x u \<and> 0 \<le> gu_y u \<and> pred_option (\<lambda>n. 1 \<le> n \<and> n \<le> 2000) (gu_width u)
     \<and> pred_option (\<lambda>n. 1 \<le> n \<and> n \<le> 2000) (gu_height u)"

lemma bounded_integer_Inr: "bounded_integer l lo hi v = Inr n \<Longrightarrow> lo \<le> n \<and> n \<le> hi"
  by (auto simp: bounded_integer_def split: if_splits)

lemma read_settings_ok: "read_board_layout_settings v = Inr s \<Longrightarrow> settings_ok s"
  by (auto simp: read_board_layout_settings_def normalize_board_layout_settings_def settings_ok_def MAX_GRID_CELL_SIZE_def
      split: pyval.splits if_splits dest!: bounded_integer_Inr)

lemma optional_size_Inr: "optional_size l v = Inr r \<Longrightarrow> pred_option (\<lambda>n. 1 \<le> n \<and> n \<le> 2000) r"
  by (auto simp: optional_size_def MAX_GRID_CELL_SIZE_def split: if_splits dest!: bounded_integer_Inr)

lemma normalize_ui_ok: "normalize_node_grid_ui v = Inr u \<Longrightarrow> ui_ok u"
  by (auto simp: normalize_node_grid_ui_def ui_ok_def non_negative_integer_def split: pyval.splits if_splits dest: optional_size_Inr)

text \<open>The pixels of a node on the board.\<close>

definition node_box :: "board_settings \<Rightarrow> grid_ui \<Rightarrow> (int \<times> int) set" where
  "node_box s u = {gu_x u * bs_cell_width s ..< gu_x u * bs_cell_width s + size_or (gu_width u) (bs_node_width s)}
     \<times> {gu_y u * bs_cell_height s ..< gu_y u * bs_cell_height s + size_or (gu_height u) (bs_node_height s)}"

lemma interval_div:
  fixes g c w k px :: int
  assumes "g * c \<le> px" "px < g * c + w" "w \<le> k * c" "0 < c"
  shows "g \<le> px div c \<and> px div c < g + k"
proof -
  have "px < (g + k) * c" using assms by (simp add: distrib_right)
  moreover have "g \<le> px div c" using zdiv_mono1 [OF assms(1,4)] assms(4) by simp
  moreover have "px div c * c \<le> px" using assms(4) by (metis div_mult_mod_eq le_add_same_cancel1 pos_mod_sign)
  ultimately show ?thesis using assms(4) by (meson le_less_trans mult_less_cancel_right_pos)
qed

lemma box_cells:
  assumes s: "settings_ok s" and u: "ui_ok u" and p: "(px, py) \<in> node_box s u"
  shows "(px div bs_cell_width s, py div bs_cell_height s) \<in> set (ui_cells s u)"
proof -
  let ?w = "size_or (gu_width u) (bs_node_width s)" and ?h = "size_or (gu_height u) (bs_node_height s)"
  have "1 \<le> ?w \<and> ?w \<le> 2000" "1 \<le> ?h \<and> ?h \<le> 2000"
    using s u by (auto simp: size_or_def ui_ok_def settings_ok_def split: option.splits)
  then have "?w \<le> cells_for ?w (bs_cell_width s) * bs_cell_width s" "?h \<le> cells_for ?h (bs_cell_height s) * bs_cell_height s"
    "1 \<le> cells_for ?w (bs_cell_width s)" "1 \<le> cells_for ?h (bs_cell_height s)"
    using cells_for_cover [of ?w "bs_cell_width s"] cells_for_cover [of ?h "bs_cell_height s"] s by (auto simp: settings_ok_def)
  then show ?thesis
    using interval_div [of "gu_x u" "bs_cell_width s" px ?w] interval_div [of "gu_y u" "bs_cell_height s" py ?h] p s
    by (simp add: node_box_def ui_cells_def node_grid_span_def set_rectangle settings_ok_def)
qed

lemma boxes_disjoint:
  assumes "settings_ok s" "ui_ok u" "ui_ok v" "set (ui_cells s u) \<inter> set (ui_cells s v) = {}"
  shows "node_box s u \<inter> node_box s v = {}"
  using assms box_cells [of s u] box_cells [of s v] by fastforce

lemma occupy_mono: "rfold (occupy_entry s ex) dir occ = Inr occ' \<Longrightarrow> set occ \<subseteq> set occ'"
proof (induction dir arbitrary: occ)
  case (Cons e dir)
  then obtain occ1 where o: "occupy_entry s ex e occ = Inr occ1" "rfold (occupy_entry s ex) dir occ1 = Inr occ'" by auto
  have "set occ \<subseteq> set occ1" using o(1) by (auto simp: occupy_entry_def split: if_splits node_file.splits pyval.splits)
  then show ?case using Cons.IH [OF o(2)] by blast
qed simp

lemma data_error_Inr [simp]: "data_error r = Inr a \<longleftrightarrow> r = Inr a"
  by (auto simp: data_error_def split: sum.splits grid_error.splits)

lemma occupied_covers:
  assumes "rfold (occupy_entry s ex) dir occ = Inr occ'" and "(n, Config (PDict p)) \<in> set dir" and "n \<notin> set ex"
  shows "\<exists>u. normalize_node_grid_ui (get p ''ui'') = Inr u \<and> set (ui_cells s u) \<subseteq> set occ'"
  using assms
proof (induction dir arbitrary: occ)
  case (Cons e dir)
  then obtain occ1 where o: "occupy_entry s ex e occ = Inr occ1" "rfold (occupy_entry s ex) dir occ1 = Inr occ'" by auto
  show ?case
  proof (cases "e = (n, Config (PDict p))")
    case True
    then show ?thesis using o(1) Cons.prems(3) occupy_mono [OF o(2)] by (auto simp: occupy_entry_def)
  next
    case False
    then show ?thesis using Cons o(2) by auto
  qed
qed simp

lemma resolve_Inr:
  assumes s: "settings_ok s" and r: "resolve_available_node_ui s dir requested exclude = Inr u"
  obtains occ where "occupied_grid_cells s dir exclude = Inr occ" "ui_ok u" "set (ui_cells s u) \<inter> set occ = {}"
proof -
  obtain req occ x y where req: "(if is_none requested then Inr None else rbind (normalize_node_grid_ui requested) (\<lambda>u. Inr (Some u))) = Inr req"
      and o: "occupied_grid_cells s dir exclude = Inr occ"
      and f: "find_available_grid_origin occ (cells_for (size_or (Option.bind req gu_width) (bs_node_width s)) (bs_cell_width s))
          (cells_for (size_or (Option.bind req gu_height) (bs_node_height s)) (bs_cell_height s))
          (map_option (\<lambda>u. (gu_x u, gu_y u)) req) (bs_cell_width s, bs_cell_height s) = Some (x, y)"
      and u: "u = \<lparr>gu_x = x, gu_y = y, gu_width = Some (size_or (Option.bind req gu_width) (bs_node_width s)),
          gu_height = Some (size_or (Option.bind req gu_height) (bs_node_height s))\<rparr>"
    using r by (auto simp: resolve_available_node_ui_def Let_def split: option.splits)
  have xy: "0 \<le> x" "0 \<le> y" and free: "available occ (cells_for (size_or (Option.bind req gu_width) (bs_node_width s)) (bs_cell_width s))
      (cells_for (size_or (Option.bind req gu_height) (bs_node_height s)) (bs_cell_height s)) (x, y)"
    using find_available_sound [of occ "cells_for (size_or (Option.bind req gu_width) (bs_node_width s)) (bs_cell_width s)"
        "cells_for (size_or (Option.bind req gu_height) (bs_node_height s)) (bs_cell_height s)"
        "map_option (\<lambda>u. (gu_x u, gu_y u)) req" "(bs_cell_width s, bs_cell_height s)"] unfolding f by auto
  have "pred_option ui_ok req" using req by (auto split: if_splits dest: normalize_ui_ok)
  then have ok: "ui_ok u"
    using s xy by (cases req) (auto simp: u ui_ok_def settings_ok_def size_or_def split: option.splits)
  have "set (ui_cells s u) \<inter> set occ = {}"
    using free by (auto simp: u ui_cells_def node_grid_span_def size_or_def set_rectangle available_iff)
  then show ?thesis using that o ok by blast
qed

section \<open>Properties\<close>

text \<open>C30. Both searches for a place always end and find the best one: with a preferred cell the free place
  that comes first by scaled distance, then row, then column, among all cells of the board; without
  one the first free place in rows of four.\<close>

theorem placement_nearest:
  "(\<exists>r. find_available_grid_origin occ sx sy (Some (x, y)) scale = Some r
      \<and> nearest occ sx sy (max 0 x, max 0 y) (max 1 (fst scale), max 1 (snd scale)) r)
   \<and> (\<exists>i. find_available_grid_origin occ sx sy None scale = Some (column_cell i) \<and> available occ sx sy (column_cell i)
      \<and> (\<forall>j < i. \<not> available occ sx sy (column_cell j)))"
  using find_available_preferred find_available_default by blast

text \<open>With the board settings the configuration allows, a resolved position is on the board and the new
  node covers no pixel of any node of the graph that is not excluded; every such node has a legal
  position. The rounding of sizes to cells is exact although it divides doubles.\<close>

lemma placement_no_overlap:
  assumes "read_board_layout_settings config = Inr s" and "resolve_available_node_ui s dir requested exclude = Inr u"
    and "(n, Config (PDict p)) \<in> set dir" and "n \<notin> set (excluded_names exclude)"
  shows "ui_ok u \<and> (\<exists>v. normalize_node_grid_ui (get p ''ui'') = Inr v \<and> node_box s u \<inter> node_box s v = {})"
proof -
  have s: "settings_ok s" using read_settings_ok [OF assms(1)] .
  obtain occ where o: "occupied_grid_cells s dir exclude = Inr occ" "ui_ok u" "set (ui_cells s u) \<inter> set occ = {}"
    using resolve_Inr [OF s assms(2)] by blast
  obtain v where v: "normalize_node_grid_ui (get p ''ui'') = Inr v" "set (ui_cells s v) \<subseteq> set occ"
    using occupied_covers [OF o(1) [unfolded occupied_grid_cells_def] assms(3,4)] by blast
  have "node_box s u \<inter> node_box s v = {}" using boxes_disjoint [OF s o(2) normalize_ui_ok [OF v(1)]] o(3) v(2) by blast
  then show ?thesis using o(2) v(1) by blast
qed

definition sample_config :: pyval where
  "sample_config = PDict [(''boardLayout'', PDict [(''nodeWidth'', PInt 720)])]"

definition sample_settings :: board_settings where
  "sample_settings = \<lparr>bs_cell_width = 300, bs_cell_height = 320, bs_node_width = 720, bs_node_height = 250\<rparr>"

definition sample_dir :: graph_dir where
  "sample_dir = [(''a'', Config (PDict [(''ui'', PDict [(''grid_x'', PInt 1), (''grid_y'', PInt 0)])]))]"

lemma grid_integer_PInt: "\<bar>i\<bar> \<le> 2 ^ 53 \<Longrightarrow> grid_integer l (PInt i) = Inr i"
  by (simp only: grid_integer_def grid_float_def is_bool.simps if_False py_float.simps py_float_of_int_exact sum.case rbind_Inr
      pyfloat.case floor_of_int refl if_True)

lemmas grid_eval = bounded_integer_def non_negative_integer_def grid_integer_PInt MAX_GRID_CELL_SIZE_def DEFAULT_NODE_WIDTH_def
  DEFAULT_NODE_HEIGHT_def optional_size_def normalize_node_grid_ui_def dict_has_def

lemma sample_settings_read: "read_board_layout_settings sample_config = Inr sample_settings"
  by (simp add: read_board_layout_settings_def normalize_board_layout_settings_def sample_config_def sample_settings_def grid_eval)

lemma sample_cells: "cells_for 720 300 = 3" "cells_for 250 320 = 1" "cells_for 230 300 = 1"
  by (simp_all add: cells_for_exact ceiling_unique)

lemma sample_occupied: "occupied_grid_cells sample_settings sample_dir [] = Inr [(1, 0), (2, 0), (3, 0)]"
  by (simp add: occupied_grid_cells_def sample_settings_def sample_dir_def occupy_entry_def excluded_names_def data_error_def
      ui_cells_def node_grid_span_def size_or_def sample_cells grid_eval grid_rectangle_cells_def upto.simps)

lemma sample_search: "find_available_grid_origin [(1, 0), (2, 0), (3, 0)] 3 1 (Some (0, 0)) (300, 320) = Some (0, 1)"
  by (simp add: find_available_grid_origin_def nearest_free.simps available_iff push_cell_def neighbours_def entry_def
      distance_squared_def Let_def)

lemma sample_resolve: "resolve_available_node_ui sample_settings sample_dir (PDict [(''grid_x'', PInt 0), (''grid_y'', PInt 0)]) []
    = Inr \<lparr>gu_x = 0, gu_y = 1, gu_width = Some 720, gu_height = Some 250\<rparr>"
  by (simp add: resolve_available_node_ui_def sample_occupied)
    (simp add: sample_settings_def size_or_def sample_cells grid_eval sample_search)

lemma placement_nearest_witness:
  "\<exists>r. find_available_grid_origin [(0, 0)] 1 1 (Some (0, 0)) (1, 1) = Some r \<and> available [(0, 0)] 1 1 r"
  using placement_nearest [of "[(0, 0)]" 1 1 0 0 "(1, 1)"] by (auto simp: nearest_def)

lemma placement_no_overlap_witness:
  "\<exists>u v. resolve_available_node_ui sample_settings sample_dir (PDict [(''grid_x'', PInt 0), (''grid_y'', PInt 0)]) [] = Inr u
     \<and> node_box sample_settings u \<inter> node_box sample_settings v = {}"
proof -
  obtain u where u: "resolve_available_node_ui sample_settings sample_dir (PDict [(''grid_x'', PInt 0), (''grid_y'', PInt 0)]) [] = Inr u"
    using sample_resolve by blast
  have "(''a'', Config (PDict [(''ui'', PDict [(''grid_x'', PInt 1), (''grid_y'', PInt 0)])])) \<in> set sample_dir"
    by (simp add: sample_dir_def)
  from placement_no_overlap [OF sample_settings_read u this] u show ?thesis by (auto simp: excluded_names_def)
qed

lemma sample_halves: "round_double (1/2) = Fin (1/2)" "round_double (3/2) = Fin (3/2)"
  by (rule round_double_representable [of _ 1 "- 1"]; simp) (rule round_double_representable [of _ 3 "- 1"]; simp)

lemma sample_legacy: "legacy_cell 0 300 = 0" "legacy_cell 300 300 = 1" "legacy_cell 0 320 = 0"
proof -
  have "round_double 0 = Fin 0" "round_double 1 = Fin 1" using round_double_int [of 0] round_double_int [of 1] by simp_all
  then show "legacy_cell 0 300 = 0" "legacy_cell 300 300 = 1" "legacy_cell 0 320 = 0"
    by (simp_all add: legacy_cell_def sample_halves floor_unique)
qed

definition legacy_dir :: graph_dir where
  "legacy_dir = [(''a'', Config (PDict [(''ui'', PDict [(''x'', PInt 0), (''y'', PInt 0)])])),
     (''b'', Config (PDict [(''ui'', PDict [(''x'', PInt 300), (''y'', PInt 0)])]))]"

definition wide_ui :: "int \<Rightarrow> grid_ui" where
  "wide_ui x = \<lparr>gu_x = x, gu_y = 0, gu_width = Some 720, gu_height = Some 250\<rparr>"

lemma finite_number_PInt: "\<bar>i\<bar> \<le> 2 ^ 53 \<Longrightarrow> finite_number l (PInt i) = Inr (of_int i)"
  by (simp only: finite_number_def grid_float_def is_bool.simps if_False py_float.simps py_float_of_int_exact sum.case rbind_Inr
      pyfloat.case)

lemma sample_scan:
  "scan_entry sample_settings [] (n, Config (PDict [(''ui'', PDict [(''x'', PInt 0), (''y'', PInt 0)])])) (occ, ms)
     = Inr (occ, ms @ [(n, [(''ui'', PDict [(''x'', PInt 0), (''y'', PInt 0)])], Some \<lparr>gu_x = 0, gu_y = 0, gu_width = None, gu_height = None\<rparr>)])"
  "scan_entry sample_settings [] (n, Config (PDict [(''ui'', PDict [(''x'', PInt 300), (''y'', PInt 0)])])) (occ, ms)
     = Inr (occ, ms @ [(n, [(''ui'', PDict [(''x'', PInt 300), (''y'', PInt 0)])], Some \<lparr>gu_x = 1, gu_y = 0, gu_width = None, gu_height = None\<rparr>)])"
  by (simp_all add: scan_entry_def sample_settings_def normalize_legacy_absolute_ui_def finite_number_PInt sample_legacy grid_eval)

lemma sample_place:
  "find_available_grid_origin [] 1 1 (Some (0, 0)) (300, 320) = Some (0, 0)"
  "find_available_grid_origin [(0, 0)] 1 1 (Some (1, 0)) (300, 320) = Some (1, 0)"
  by (simp_all add: find_available_grid_origin_def nearest_free.simps available_iff)

text \<open>Migrating old pixel positions reserves the default size but writes the configured one: with nodes
  that are 720 pixels wide, two neighbours are given positions where both cover the same pixel.\<close>

lemma repair_reserves_default_size:
  "repair_missing_node_grid_positions sample_settings legacy_dir []
     = Inr [(''a'', PDict [(''ui'', ui_val (wide_ui 0))]), (''b'', PDict [(''ui'', ui_val (wide_ui 1))])]
   \<and> (300, 0) \<in> node_box sample_settings (wide_ui 0) \<inter> node_box sample_settings (wide_ui 1)"
proof
  have "excluded_names [] = []" "sort_key fst legacy_dir = legacy_dir" by (simp_all add: excluded_names_def legacy_dir_def)
  then have "rfold (scan_entry sample_settings (excluded_names [])) (sort_key fst legacy_dir) ([], [])
      = Inr ([], [(''a'', [(''ui'', PDict [(''x'', PInt 0), (''y'', PInt 0)])], Some \<lparr>gu_x = 0, gu_y = 0, gu_width = None, gu_height = None\<rparr>),
          (''b'', [(''ui'', PDict [(''x'', PInt 300), (''y'', PInt 0)])], Some \<lparr>gu_x = 1, gu_y = 0, gu_width = None, gu_height = None\<rparr>)])"
    by (simp add: legacy_dir_def sample_scan)
  then show "repair_missing_node_grid_positions sample_settings legacy_dir []
     = Inr [(''a'', PDict [(''ui'', ui_val (wide_ui 0))]), (''b'', PDict [(''ui'', ui_val (wide_ui 1))])]"
    by (simp add: repair_missing_node_grid_positions_def)
      (simp add: repair_entry_def sample_settings_def size_or_def node_grid_span_def DEFAULT_NODE_WIDTH_def DEFAULT_NODE_HEIGHT_def
        sample_cells sample_place grid_rectangle_cells_def repaired_ui_def wide_ui_def dict_set_def)
  show "(300, 0) \<in> node_box sample_settings (wide_ui 0) \<inter> node_box sample_settings (wide_ui 1)"
    by (simp add: node_box_def sample_settings_def wide_ui_def size_or_def)
qed

end
