(* ===== verification/CronModel.thy ===== *)
theory CronModel
  imports PyText
begin

text \<open>
  Scheduled jobs of a graph (\<open>cron/schedule.py\<close>, \<open>cron/repository.py\<close>,
  \<open>cron/node_lifecycle.py\<close>): the contracts of jobs, the next deadline of a schedule, and the
  SQL transactions on the two tables. Rows are records, tables are lists in the order of insertion.
  Times are the rationals that doubles denote, rounded after every operation. The package croniter is
  the argument \<open>cron_next\<close>: expression, time zone and time give the next match, or it raises.
\<close>

section \<open>Contracts\<close>

datatype cron_error = CronValueError string | IntegrityError | CroniterError | CronTypeError

type_synonym 'a cron_res = "(cron_error, 'a) res"

text \<open>A validated instant is a moment in UTC with microseconds, which its text determines.\<close>

datatype schedule = AtSchedule int | EverySchedule int | CronSchedule string string

type_synonym croniter = "string \<Rightarrow> string \<Rightarrow> rat \<Rightarrow> rat option"

lemma length_dropWhile_word: "dropWhile P s \<noteq> [] \<Longrightarrow> length (dropWhile (\<lambda>c. \<not> P c) (dropWhile P s)) < length s"
proof -
  assume a: "dropWhile P s \<noteq> []"
  then have "\<not> P (hd (dropWhile P s))" by (rule hd_dropWhile)
  then obtain c cs where "dropWhile P s = c # cs" "\<not> P c" using a by (cases "dropWhile P s") auto
  moreover have "length (dropWhile P s) \<le> length s" by (rule length_dropWhile_le)
  ultimately show ?thesis using length_dropWhile_le [of "\<lambda>c. \<not> P c" cs] by simp
qed

function py_words :: "string \<Rightarrow> string list" where
  "py_words s = (let t = dropWhile is_space s in
     if t = [] then [] else takeWhile (\<lambda>c. \<not> is_space c) t # py_words (dropWhile (\<lambda>c. \<not> is_space c) t))"
  by pat_completeness auto

termination
  by (relation "measure length") (simp_all add: length_dropWhile_word)

declare py_words.simps [simp del]

definition validate_expression :: "(string \<Rightarrow> bool) \<Rightarrow> string \<Rightarrow> string cron_res" where
  "validate_expression is_valid value = (let v = join_with '' '' (py_words value) in
     if length (py_words v) \<noteq> 5 \<or> \<not> is_valid v then Inl (CronValueError ''expression must be a valid five-field cron expression'')
     else Inr v)"

text \<open>The bounds of the contracts, for a schedule whose texts have been validated; \<open>CronContract\<close> has the validators of the texts.\<close>

definition schedule_ok :: "schedule \<Rightarrow> bool" where
  "schedule_ok s = (case s of EverySchedule n \<Rightarrow> 60 \<le> n \<and> n \<le> 31536000 | _ \<Rightarrow> True)"

definition bounded_text :: "nat \<Rightarrow> string \<Rightarrow> bool" where
  "bounded_text n s \<longleftrightarrow> 1 \<le> length s \<and> length s \<le> n \<and> list_ex (\<lambda>c. \<not> is_space c) s"

record create_job =
  cj_name :: string
  cj_prompt :: string
  cj_schedule :: schedule

definition create_job_ok :: "create_job \<Rightarrow> bool" where
  "create_job_ok c \<longleftrightarrow> bounded_text 120 (cj_name c) \<and> bounded_text 32000 (cj_prompt c) \<and> schedule_ok (cj_schedule c)"

text \<open>A field of an update is not set, set to null, or set to a value.\<close>

record update_job =
  uj_job_id :: string
  uj_expected_revision :: int
  uj_name :: "string option option"
  uj_prompt :: "string option option"
  uj_schedule :: "schedule option option"
  uj_enabled :: "bool option option"

definition update_job_ok :: "update_job \<Rightarrow> bool" where
  "update_job_ok u \<longleftrightarrow> uj_job_id u \<noteq> [] \<and> 1 \<le> uj_expected_revision u
     \<and> (case uj_name u of Some (Some n) \<Rightarrow> bounded_text 120 n | _ \<Rightarrow> True)
     \<and> (case uj_prompt u of Some (Some p) \<Rightarrow> bounded_text 32000 p | _ \<Rightarrow> True)
     \<and> (case uj_schedule u of Some (Some s) \<Rightarrow> schedule_ok s | _ \<Rightarrow> True)"

definition field :: "'a option option \<Rightarrow> 'a option" where
  "field f = (case f of Some v \<Rightarrow> v | None \<Rightarrow> None)"

section \<open>Deadlines\<close>

text \<open>The double next to a rational. Times are far below the largest double.\<close>

definition fl :: "rat \<Rightarrow> rat" where
  "fl q = (case round_double q of Fin r \<Rightarrow> r | _ \<Rightarrow> q)"

definition next_deadline :: "croniter \<Rightarrow> schedule \<Rightarrow> rat \<Rightarrow> rat option \<Rightarrow> rat option cron_res" where
  "next_deadline cron_next sched now previous = (case sched of
      AtSchedule us \<Rightarrow> Inr (if previous = None then Some (fl (of_int us / 10 ^ 6)) else None)
    | EverySchedule n \<Rightarrow> (case previous of
        None \<Rightarrow> Inr (Some (fl (now + of_int n)))
      | Some p \<Rightarrow> Inr (Some (fl (p + fl (of_int ((\<lfloor>fl (now - p) / of_int n\<rfloor> + 1) * n))))))
    | CronSchedule e z \<Rightarrow> (case cron_next e z now of None \<Rightarrow> Inl CroniterError | Some d \<Rightarrow> Inr (Some d)))"

section \<open>Tables\<close>

record job =
  j_id :: string
  j_node :: string
  j_name :: string
  j_prompt :: string
  j_schedule :: schedule
  j_role :: string
  j_enabled :: bool
  j_next :: "rat option"
  j_revision :: int
  j_created :: rat
  j_updated :: rat

datatype run_status = Pending | Running | Cancelled | Completed | Failed

record run =
  r_id :: string
  r_job :: string
  r_node :: string
  r_name :: string
  r_prompt :: string
  r_role :: string
  r_scheduled :: rat
  r_status :: run_status
  r_started :: "rat option"
  r_finished :: "rat option"
  r_error :: "string option"

record cron_db =
  db_jobs :: "job list"
  db_runs :: "run list"

definition empty_cron :: cron_db where
  "empty_cron = \<lparr>db_jobs = [], db_runs = []\<rparr>"

definition sql_update :: "('a \<Rightarrow> bool) \<Rightarrow> ('a \<Rightarrow> 'a) \<Rightarrow> 'a list \<Rightarrow> 'a list" where
  "sql_update P f rows = map (\<lambda>r. if P r then f r else r) rows"

text \<open>The constraints of the tables, checked when a row is written.\<close>

definition jobs_unique :: "job list \<Rightarrow> bool" where
  "jobs_unique js \<longleftrightarrow> distinct (map j_id js) \<and> distinct (map (\<lambda>j. (j_node j, j_name j)) js)"

definition runs_unique :: "run list \<Rightarrow> bool" where
  "runs_unique rs \<longleftrightarrow> distinct (map r_id rs) \<and> distinct (map (\<lambda>r. (r_job r, r_scheduled r)) rs)"

definition put_jobs :: "job list \<Rightarrow> cron_db \<Rightarrow> cron_db cron_res" where
  "put_jobs js db = (if jobs_unique js then Inr (db\<lparr>db_jobs := js\<rparr>) else Inl IntegrityError)"

definition put_runs :: "run list \<Rightarrow> cron_db \<Rightarrow> cron_db cron_res" where
  "put_runs rs db = (if runs_unique rs then Inr (db\<lparr>db_runs := rs\<rparr>) else Inl IntegrityError)"

definition known_role :: "string \<Rightarrow> bool" where
  "known_role r \<longleftrightarrow> r = ''developer'' \<or> r = ''nondeveloper''"

definition owned :: "cron_db \<Rightarrow> string \<Rightarrow> string \<Rightarrow> job cron_res" where
  "owned db node job_id = (case List.find (\<lambda>j. j_id j = job_id \<and> j_node j = node) (db_jobs db) of
      None \<Rightarrow> Inl (CronValueError ''schedule not found for current node'')
    | Some j \<Rightarrow> Inr j)"

section \<open>Operations on jobs\<close>

definition cron_create :: "croniter \<Rightarrow> string \<Rightarrow> string \<Rightarrow> create_job \<Rightarrow> string \<Rightarrow> rat \<Rightarrow> cron_db \<Rightarrow> (cron_db \<times> job) cron_res" where
  "cron_create cron_next uuid node spec role now db =
     (if \<not> known_role role then Inl (CronValueError ''invalid schedule access role'')
      else case List.find (\<lambda>j. j_node j = node \<and> j_name j = cj_name spec) (db_jobs db) of
        Some e \<Rightarrow> if (j_prompt e, j_schedule e, j_role e) \<noteq> (cj_prompt spec, cj_schedule spec, role)
            then Inl (CronValueError ''name already exists; list then update the existing schedule'')
            else Inr (db, e)
      | None \<Rightarrow> rbind (next_deadline cron_next (cj_schedule spec) now None) (\<lambda>deadline. case deadline of
            None \<Rightarrow> Inl CronTypeError
          | Some d \<Rightarrow> if d \<le> now then Inl (CronValueError ''new single-run schedule must be in the future'')
              else rbind (put_jobs (db_jobs db @ [\<lparr>j_id = uuid, j_node = node, j_name = cj_name spec, j_prompt = cj_prompt spec,
                  j_schedule = cj_schedule spec, j_role = role, j_enabled = True, j_next = Some d, j_revision = 1,
                  j_created = now, j_updated = now\<rparr>]) db) (\<lambda>db'.
                rbind (owned db' node uuid) (\<lambda>j. Inr (db', j)))))"

text \<open>Rows with the same key come in the order of insertion.\<close>

definition cron_list :: "string \<Rightarrow> cron_db \<Rightarrow> job list \<times> run list" where
  "cron_list node db = (sort_key j_created (filter (\<lambda>j. j_node j = node) (db_jobs db)),
     take 30 (sort_key (\<lambda>r. - r_scheduled r) (filter (\<lambda>r. r_node r = node) (db_runs db))))"

definition pending_of :: "string \<Rightarrow> run \<Rightarrow> bool" where
  "pending_of job r \<longleftrightarrow> r_job r = job \<and> r_status r = Pending"

definition cancel_pending :: "string \<Rightarrow> rat \<Rightarrow> run list \<Rightarrow> run list" where
  "cancel_pending job now = sql_update (pending_of job) (\<lambda>r. r\<lparr>r_status := Cancelled, r_finished := Some now\<rparr>)"

definition merged_role :: "string \<Rightarrow> string \<Rightarrow> string" where
  "merged_role a b = (if a = ''nondeveloper'' \<or> b = ''nondeveloper'' then ''nondeveloper'' else ''developer'')"

definition no_change :: "update_job \<Rightarrow> bool" where
  "no_change u \<longleftrightarrow> (uj_name u = None \<and> uj_prompt u = None \<and> uj_schedule u = None \<and> uj_enabled u = None)
     \<or> uj_name u = Some None \<or> uj_prompt u = Some None \<or> uj_schedule u = Some None \<or> uj_enabled u = Some None"

definition value_or :: "'a option \<Rightarrow> 'a \<Rightarrow> 'a" where
  "value_or v d = (case v of Some x \<Rightarrow> x | None \<Rightarrow> d)"

definition updated_deadline :: "croniter \<Rightarrow> update_job \<Rightarrow> rat \<Rightarrow> job \<Rightarrow> rat option cron_res" where
  "updated_deadline cron_next spec now row =
     (if field (uj_schedule spec) \<noteq> None \<or> (field (uj_enabled spec) = Some True \<and> \<not> j_enabled row)
      then rbind (next_deadline cron_next (value_or (field (uj_schedule spec)) (j_schedule row)) now None) (\<lambda>deadline.
        if value_or (field (uj_enabled spec)) (j_enabled row) then (case deadline of
            None \<Rightarrow> Inl CronTypeError
          | Some d \<Rightarrow> if d \<le> now then Inl (CronValueError ''resuming a past single-run schedule requires a new future schedule'') else Inr deadline)
        else Inr deadline)
      else Inr (j_next row))"

definition updated_runs :: "update_job \<Rightarrow> rat \<Rightarrow> job \<Rightarrow> string \<Rightarrow> run list \<Rightarrow> run list" where
  "updated_runs spec now row role rs =
     (if field (uj_schedule spec) \<noteq> None \<or> field (uj_enabled spec) = Some False
      then cancel_pending (uj_job_id spec) now rs
      else sql_update (pending_of (uj_job_id spec)) (\<lambda>r. r\<lparr>r_name := value_or (field (uj_name spec)) (j_name row),
        r_prompt := value_or (field (uj_prompt spec)) (j_prompt row), r_role := role\<rparr>) rs)"

definition updated_job :: "update_job \<Rightarrow> rat \<Rightarrow> job \<Rightarrow> string \<Rightarrow> rat option \<Rightarrow> job \<Rightarrow> job" where
  "updated_job spec now row role deadline j = j\<lparr>j_name := value_or (field (uj_name spec)) (j_name row),
     j_prompt := value_or (field (uj_prompt spec)) (j_prompt row),
     j_schedule := value_or (field (uj_schedule spec)) (j_schedule row), j_role := role,
     j_enabled := value_or (field (uj_enabled spec)) (j_enabled row), j_next := deadline,
     j_revision := j_revision j + 1, j_updated := now\<rparr>"

definition cron_update :: "croniter \<Rightarrow> string \<Rightarrow> update_job \<Rightarrow> string \<Rightarrow> rat \<Rightarrow> cron_db \<Rightarrow> (cron_db \<times> job) cron_res" where
  "cron_update cron_next node spec access_role now db =
     (if \<not> known_role access_role then Inl (CronValueError ''invalid schedule access role'')
      else if no_change spec then Inl (CronValueError ''provide at least one non-null change'')
      else rbind (owned db node (uj_job_id spec)) (\<lambda>row.
        if j_revision row \<noteq> uj_expected_revision spec then Inl (CronValueError ''revision conflict; list schedules and retry'')
        else rbind (updated_deadline cron_next spec now row) (\<lambda>deadline.
        let role = merged_role (j_role row) access_role in
        rbind (put_runs (updated_runs spec now row role (db_runs db)) db) (\<lambda>db1.
        rbind (put_jobs (sql_update (\<lambda>j. j_id j = uj_job_id spec) (updated_job spec now row role deadline) (db_jobs db1)) db1) (\<lambda>db2.
        rbind (owned db2 node (uj_job_id spec)) (\<lambda>j. Inr (db2, j)))))))"

definition cron_delete :: "string \<Rightarrow> string \<Rightarrow> int \<Rightarrow> rat \<Rightarrow> cron_db \<Rightarrow> cron_db cron_res" where
  "cron_delete node job_id revision now db = rbind (owned db node job_id) (\<lambda>row.
     if j_revision row \<noteq> revision then Inl (CronValueError ''revision conflict; list schedules and retry'')
     else Inr (db\<lparr>db_runs := cancel_pending job_id now (db_runs db), db_jobs := filter (\<lambda>j. j_id j \<noteq> job_id) (db_jobs db)\<rparr>))"

section \<open>Operations on runs\<close>

definition run_active :: "run \<Rightarrow> bool" where
  "run_active r \<longleftrightarrow> r_status r = Pending \<or> r_status r = Running"

definition job_active :: "string \<Rightarrow> run list \<Rightarrow> bool" where
  "job_active job rs \<longleftrightarrow> list_ex (\<lambda>r. r_job r = job \<and> run_active r) rs"

definition is_at :: "schedule \<Rightarrow> bool" where
  "is_at s = (case s of AtSchedule _ \<Rightarrow> True | _ \<Rightarrow> False)"

definition job_due :: "rat \<Rightarrow> job \<Rightarrow> bool" where
  "job_due now j \<longleftrightarrow> j_enabled j \<and> (case j_next j of Some d \<Rightarrow> d \<le> now | None \<Rightarrow> False)"

definition due_run :: "(string \<Rightarrow> string) \<Rightarrow> job \<Rightarrow> run" where
  "due_run uuid j = \<lparr>r_id = ''cron-'' @ uuid (j_id j), r_job = j_id j, r_node = j_node j, r_name = j_name j, r_prompt = j_prompt j,
     r_role = j_role j, r_scheduled = (case j_next j of Some d \<Rightarrow> d | None \<Rightarrow> 0), r_status = Pending,
     r_started = None, r_finished = None, r_error = None\<rparr>"

text \<open>One turn of the loop; \<open>uuid\<close> gives the identifier generated for the run of a job.\<close>

definition due_row :: "croniter \<Rightarrow> (string \<Rightarrow> string) \<Rightarrow> rat \<Rightarrow> job \<Rightarrow> cron_db \<Rightarrow> cron_db cron_res" where
  "due_row cron_next uuid now row db = (let active = job_active (j_id row) (db_runs db) in
     if active \<and> is_at (j_schedule row) then Inr db
     else rbind (if active then Inr db else put_runs (db_runs db @ [due_run uuid row]) db) (\<lambda>db1.
       rbind (next_deadline cron_next (j_schedule row) now (j_next row)) (\<lambda>deadline.
       Inr (db1\<lparr>db_jobs := sql_update (\<lambda>j. j_id j = j_id row)
         (\<lambda>j. j\<lparr>j_next := deadline, j_enabled := deadline \<noteq> None, j_updated := now\<rparr>) (db_jobs db1)\<rparr>))))"

definition materialize_due :: "croniter \<Rightarrow> (string \<Rightarrow> string) \<Rightarrow> rat \<Rightarrow> cron_db \<Rightarrow> cron_db cron_res" where
  "materialize_due cron_next uuid now db = rfold (due_row cron_next uuid now) (filter (job_due now) (db_jobs db)) db"

definition pending_runs :: "cron_db \<Rightarrow> run list" where
  "pending_runs db = sort_key r_scheduled (filter (\<lambda>r. r_status r = Pending) (db_runs db))"

definition recover_interrupted :: "cron_db \<Rightarrow> cron_db" where
  "recover_interrupted db = db\<lparr>db_runs := sql_update (\<lambda>r. r_status r = Running)
     (\<lambda>r. r\<lparr>r_status := Pending, r_error := Some ''Backend interrupted; replay pending''\<rparr>) (db_runs db)\<rparr>"

definition begin_run :: "string \<Rightarrow> string \<Rightarrow> rat \<Rightarrow> cron_db \<Rightarrow> cron_db \<times> run option" where
  "begin_run run_id node now db =
     (case List.find (\<lambda>r. r_id r = run_id \<and> r_node r = node \<and> r_status r = Pending) (db_runs db) of
        None \<Rightarrow> (db, None)
      | Some r \<Rightarrow> (db\<lparr>db_runs := sql_update (\<lambda>r. r_id r = run_id)
          (\<lambda>r. r\<lparr>r_status := Running, r_started := Some now, r_error := None\<rparr>) (db_runs db)\<rparr>, Some r))"

definition finish_run :: "string \<Rightarrow> rat \<Rightarrow> string option \<Rightarrow> cron_db \<Rightarrow> cron_db" where
  "finish_run run_id now error db = db\<lparr>db_runs := sql_update (\<lambda>r. r_id r = run_id \<and> r_status r = Running)
     (\<lambda>r. r\<lparr>r_status := if error = None \<or> error = Some [] then Completed else Failed, r_finished := Some now, r_error := error\<rparr>)
     (db_runs db)\<rparr>"

definition delivery_error :: "string \<Rightarrow> string \<Rightarrow> cron_db \<Rightarrow> cron_db" where
  "delivery_error run_id error db = db\<lparr>db_runs := sql_update (\<lambda>r. r_id r = run_id \<and> r_status r = Pending)
     (\<lambda>r. r\<lparr>r_error := Some error\<rparr>) (db_runs db)\<rparr>"

section \<open>Nodes that leave or are renamed\<close>

definition cron_node_departure :: "string \<Rightarrow> rat \<Rightarrow> cron_db \<Rightarrow> cron_db" where
  "cron_node_departure node now db = db\<lparr>db_jobs := filter (\<lambda>j. j_node j \<noteq> node) (db_jobs db),
     db_runs := sql_update (\<lambda>r. r_node r = node \<and> run_active r)
       (\<lambda>r. r\<lparr>r_status := Cancelled, r_finished := Some now, r_error := Some ''Owning node left the graph''\<rparr>) (db_runs db)\<rparr>"

definition cron_node_rename :: "string \<Rightarrow> string \<Rightarrow> cron_db \<Rightarrow> cron_db cron_res" where
  "cron_node_rename old new db = (if old = new then Inr db
     else if list_ex (\<lambda>j. j_node j = new) (db_jobs db) then Inl (CronValueError ''target node identity already owns cron schedules'')
     else rbind (put_jobs (sql_update (\<lambda>j. j_node j = old) (\<lambda>j. j\<lparr>j_node := new\<rparr>) (db_jobs db)) db) (\<lambda>db1.
       put_runs (sql_update (\<lambda>r. r_node r = old) (\<lambda>r. r\<lparr>r_node := new\<rparr>) (db_runs db1)) db1))"

end
