(* ===== verification/CronLaws.thy ===== *)
theory CronLaws
  imports CronModel
begin

text \<open>
  What the scheduler guarantees: deadlines of intervals are exact and strictly in the future, a job
  never has two runs under way, a poll never fails on its own rows and leaves no due job without a run,
  and an edit by someone who is not a developer keeps its role.
\<close>

section \<open>Exact times\<close>

text \<open>Doubles from 2004 to 2038 are multiples of two to the minus 22; so are the times below them here.\<close>

definition grid_time :: "rat \<Rightarrow> bool" where
  "grid_time q \<longleftrightarrow> (\<exists>m::int. q = of_int m * 2 powi (- 22)) \<and> 0 \<le> q"

definition clock_ok :: "rat \<Rightarrow> bool" where
  "clock_ok t \<longleftrightarrow> grid_time t \<and> t + 31536000 < 2 ^ 31"

lemma fl_grid:
  assumes "grid_time q" "q < 2 ^ 31"
  shows "fl q = q"
proof (cases "q = 0")
  case False
  obtain m where m: "q = of_int m * 2 powi (- 22)" "0 \<le> q" using assms(1) by (auto simp: grid_time_def)
  then have pos: "0 < m" using False by (simp add: zero_le_mult_iff)
  have "of_int m * (2::rat) powi (- 22) < 2 powi 31" using assms(2) m(1) by (simp add: power_int_def)
  then have "(of_int m :: rat) < 2 powi 31 * 2 powi 22" by (simp add: power_int_minus field_simps)
  then have "(of_int m :: rat) < of_int (2 ^ 53)" by (simp add: power_int_def)
  then have "m \<le> 2 ^ 53" by (simp only: of_int_less_iff)
  moreover have "q < 2 ^ 1024" using assms(2) by (rule less_le_trans) simp
  ultimately have "round_double q = Fin q" using m(1) pos by (intro round_double_representable [of q m "- 22"]) auto
  then show ?thesis by (simp add: fl_def)
qed (simp add: fl_def round_double_def)

lemma grid_time_add_int: "grid_time q \<Longrightarrow> 0 \<le> q + of_int n \<Longrightarrow> grid_time (q + of_int n)"
proof -
  assume q: "grid_time q" "0 \<le> q + of_int n"
  then obtain m where "q = of_int m * 2 powi (- 22)" by (auto simp: grid_time_def)
  then have "q + of_int n = of_int (m + n * 2 ^ 22) * 2 powi (- 22)" by (simp add: power_int_minus field_simps)
  then show ?thesis using q(2) unfolding grid_time_def by blast
qed

lemma grid_time_diff: "grid_time a \<Longrightarrow> grid_time b \<Longrightarrow> b \<le> a \<Longrightarrow> grid_time (a - b)"
  unfolding grid_time_def by (metis diff_ge_0_iff_ge left_diff_distrib of_int_diff)

lemma grid_time_int: "0 \<le> n \<Longrightarrow> grid_time (of_int n)"
  using grid_time_add_int [of 0 n] by (simp add: grid_time_def)

lemma every_first:
  assumes "clock_ok now" "60 \<le> n" "n \<le> 31536000"
  shows "next_deadline cn (EverySchedule n) now None = Inr (Some (now + of_int n))"
proof -
  have n: "(of_int n :: rat) \<le> 31536000" "(0::rat) \<le> of_int n" using assms by (simp_all add: of_int_le_numeral_iff)
  have "grid_time (now + of_int n)" using assms n by (intro grid_time_add_int) (auto simp: clock_ok_def grid_time_def)
  moreover have "now + of_int n < 2 ^ 31" using assms n by (auto simp: clock_ok_def)
  ultimately show ?thesis by (simp add: next_deadline_def fl_grid)
qed

lemma every_next:
  assumes now: "clock_ok now" and n: "60 \<le> n" "n \<le> 31536000" and p: "grid_time p" "p \<le> now"
  shows "\<exists>k \<ge> 1. next_deadline cn (EverySchedule n) now (Some p) = Inr (Some (p + of_int (k * n)))
    \<and> now < p + of_int (k * n) \<and> p + of_int (k * n) \<le> now + of_int n"
proof -
  define f where "f = \<lfloor>(now - p) / of_int n\<rfloor>"
  have n': "(of_int n :: rat) \<le> 31536000" "(0::rat) < of_int n" using n by (simp_all add: of_int_le_numeral_iff)
  have lt: "now + of_int n < 2 ^ 31" "grid_time now" using now n' by (auto simp: clock_ok_def)
  have p0: "0 \<le> p" using p by (simp add: grid_time_def)
  have "fl (now - p) = now - p" using fl_grid [OF grid_time_diff [OF lt(2) p]] lt(1) n' p0 by linarith
  moreover have f0: "0 \<le> f" using p n' by (simp add: f_def)
  have "of_int f \<le> (now - p) / of_int n" "(now - p) / of_int n < of_int f + 1" using floor_correct [of "(now - p) / of_int n"] by (simp_all add: f_def)
  then have b: "of_int f * of_int n \<le> now - p" "now - p < (of_int f + 1) * of_int n"
    using n' by (simp_all add: pos_le_divide_eq pos_divide_less_eq)
  then have up: "now < p + of_int ((f + 1) * n)" and le: "p + of_int ((f + 1) * n) \<le> now + of_int n" by (simp_all add: distrib_right)
  have pos: "0 \<le> (f + 1) * n" using f0 n by simp
  have "of_int ((f + 1) * n) < (2::rat) ^ 31" using le lt(1) p0 by linarith
  then have "fl (of_int ((f + 1) * n)) = of_int ((f + 1) * n)" by (intro fl_grid grid_time_int pos)
  moreover have "0 \<le> p + of_int ((f + 1) * n)" using p0 pos by (metis add_nonneg_nonneg of_int_0_le_iff)
  then have "fl (p + of_int ((f + 1) * n)) = p + of_int ((f + 1) * n)" using le lt(1) p by (intro fl_grid grid_time_add_int) auto
  ultimately have "next_deadline cn (EverySchedule n) now (Some p) = Inr (Some (p + of_int ((f + 1) * n)))"
    by (simp only: next_deadline_def schedule.case option.case f_def)
  then show ?thesis using up le f0 by (intro exI [of _ "f + 1"]) auto
qed

section \<open>The invariant of the tables\<close>

definition job_ok :: "rat \<Rightarrow> job \<Rightarrow> bool" where
  "job_ok t j \<longleftrightarrow> bounded_text 120 (j_name j) \<and> bounded_text 32000 (j_prompt j) \<and> schedule_ok (j_schedule j) \<and> known_role (j_role j)
     \<and> (j_enabled j \<longrightarrow> j_next j \<noteq> None)
     \<and> (\<forall>n d. j_schedule j = EverySchedule n \<longrightarrow> j_next j = Some d \<longrightarrow> grid_time d \<and> d \<le> t + of_int n)"

definition runs_before :: "run list \<Rightarrow> job \<Rightarrow> bool" where
  "runs_before rs j \<longleftrightarrow> (\<forall>d. j_enabled j \<longrightarrow> j_next j = Some d \<longrightarrow> (\<forall>r \<in> set rs. r_job r = j_id j \<longrightarrow> r_scheduled r < d))"

definition one_active :: "run list \<Rightarrow> bool" where
  "one_active rs \<longleftrightarrow> (\<forall>r \<in> set rs. \<forall>r' \<in> set rs. run_active r \<longrightarrow> run_active r' \<longrightarrow> r_job r = r_job r' \<longrightarrow> r = r')"

definition cron_ok :: "rat \<Rightarrow> cron_db \<Rightarrow> bool" where
  "cron_ok t db \<longleftrightarrow> jobs_unique (db_jobs db) \<and> runs_unique (db_runs db)
     \<and> (\<forall>j \<in> set (db_jobs db). job_ok t j \<and> runs_before (db_runs db) j)
     \<and> (\<forall>r \<in> set (db_runs db). r_scheduled r \<le> t) \<and> one_active (db_runs db)"

lemma cron_ok_mono: "cron_ok t db \<Longrightarrow> t \<le> t' \<Longrightarrow> cron_ok t' db"
  by (fastforce simp: cron_ok_def job_ok_def)

lemma cron_ok_empty: "cron_ok t empty_cron"
  by (simp add: cron_ok_def empty_cron_def jobs_unique_def runs_unique_def one_active_def)

lemma set_sql_update: "set (sql_update P f rows) = (\<lambda>r. if P r then f r else r) ` set rows"
  by (simp add: sql_update_def)

text \<open>Changing runs without touching their keys or waking one up.\<close>

lemma cron_ok_runs:
  assumes ok: "cron_ok t db"
    and f: "\<And>r. r \<in> set (db_runs db) \<Longrightarrow> r_id (f r) = r_id r \<and> r_job (f r) = r_job r \<and> r_scheduled (f r) = r_scheduled r
      \<and> (run_active (f r) \<longrightarrow> run_active r)"
  shows "cron_ok t (db\<lparr>db_runs := map f (db_runs db)\<rparr>)"
proof -
  have "map r_id (map f (db_runs db)) = map r_id (db_runs db)"
    "map (\<lambda>r. (r_job r, r_scheduled r)) (map f (db_runs db)) = map (\<lambda>r. (r_job r, r_scheduled r)) (db_runs db)"
    using f by simp_all
  then have "runs_unique (map f (db_runs db))" using ok unfolding cron_ok_def runs_unique_def by metis
  moreover have "one_active (map f (db_runs db))" using ok f by (auto simp: cron_ok_def one_active_def)
  moreover have "runs_before (map f (db_runs db)) j" if "j \<in> set (db_jobs db)" for j
    using ok f that by (fastforce simp: cron_ok_def runs_before_def)
  ultimately show ?thesis using ok f by (auto simp: cron_ok_def)
qed

lemma cron_ok_sql_runs:
  assumes "cron_ok t db"
    and "\<And>r. r \<in> set (db_runs db) \<Longrightarrow> P r \<Longrightarrow> r_id (f r) = r_id r \<and> r_job (f r) = r_job r \<and> r_scheduled (f r) = r_scheduled r
      \<and> (run_active (f r) \<longrightarrow> run_active r)"
  shows "cron_ok t (db\<lparr>db_runs := sql_update P f (db_runs db)\<rparr>)"
  unfolding sql_update_def by (rule cron_ok_runs [OF assms(1)]) (use assms(2) in auto)

text \<open>Changing jobs.\<close>

lemma cron_ok_jobs:
  assumes "cron_ok t db" "jobs_unique js" "\<And>j. j \<in> set js \<Longrightarrow> job_ok t j \<and> runs_before (db_runs db) j"
  shows "cron_ok t (db\<lparr>db_jobs := js\<rparr>)"
  using assms by (simp add: cron_ok_def)

lemma jobs_unique_filter: "jobs_unique js \<Longrightarrow> jobs_unique (filter P js)"
  by (simp add: jobs_unique_def distinct_map_filter_fst)

lemma runs_before_later: "cron_ok t db \<Longrightarrow> t < d \<Longrightarrow> j_next j = Some d \<Longrightarrow> runs_before (db_runs db) j"
  by (fastforce simp: cron_ok_def runs_before_def)

lemma put_jobs_Inr [simp]: "put_jobs js db = Inr db' \<longleftrightarrow> jobs_unique js \<and> db' = db\<lparr>db_jobs := js\<rparr>"
  by (auto simp: put_jobs_def)

lemma put_runs_Inr [simp]: "put_runs rs db = Inr db' \<longleftrightarrow> runs_unique rs \<and> db' = db\<lparr>db_runs := rs\<rparr>"
  by (auto simp: put_runs_def)

lemma owned_Inr: "owned db node i = Inr j \<Longrightarrow> j \<in> set (db_jobs db) \<and> j_id j = i \<and> j_node j = node"
  by (auto simp: owned_def split: option.splits dest: find_Some_set)

definition croniter_ok :: "croniter \<Rightarrow> bool" where
  "croniter_ok cn \<longleftrightarrow> (\<forall>e z now d. cn e z now = Some d \<longrightarrow> now < d)"

lemma first_deadline:
  assumes "next_deadline cn s now None = Inr d" "schedule_ok s" "clock_ok now"
  shows "d \<noteq> None \<and> (\<forall>n d'. s = EverySchedule n \<longrightarrow> d = Some d' \<longrightarrow> grid_time d' \<and> d' \<le> now + of_int n)"
proof (cases s)
  case (EverySchedule n)
  then have n: "60 \<le> n" "n \<le> 31536000" using assms(2) by (simp_all add: schedule_ok_def)
  have "0 \<le> now" using assms(3) by (simp add: clock_ok_def grid_time_def)
  then have "grid_time (now + of_int n)" using assms(3) n by (intro grid_time_add_int) (auto simp: clock_ok_def)
  then show ?thesis using assms(1) every_first [OF assms(3) n, of cn] EverySchedule by auto
next
  case (AtSchedule us)
  then show ?thesis using assms(1) by (auto simp: next_deadline_def)
next
  case (CronSchedule e z)
  then show ?thesis using assms(1) by (cases "cn e z now") (auto simp: next_deadline_def)
qed

lemma cron_create_ok:
  assumes ok: "cron_ok now db" and c: "cron_create cn uuid node spec role now db = Inr (db', j)" and spec: "create_job_ok spec" and now: "clock_ok now"
  shows "cron_ok now db'"
proof (cases "List.find (\<lambda>j. j_node j = node \<and> j_name j = cj_name spec) (db_jobs db)")
  case None
  then obtain d new where d: "next_deadline cn (cj_schedule spec) now None = Inr (Some d)" "now < d" "known_role role"
      and new: "new = \<lparr>j_id = uuid, j_node = node, j_name = cj_name spec, j_prompt = cj_prompt spec,
          j_schedule = cj_schedule spec, j_role = role, j_enabled = True, j_next = Some d, j_revision = 1, j_created = now, j_updated = now\<rparr>"
      and u: "jobs_unique (db_jobs db @ [new])" and db': "db' = db\<lparr>db_jobs := db_jobs db @ [new]\<rparr>"
    using c by (auto simp: cron_create_def split: if_splits option.splits)
  have s: "schedule_ok (cj_schedule spec)" using spec by (simp add: create_job_ok_def)
  have "job_ok now new" using first_deadline [OF d(1) s now] spec d(3) by (auto simp: new job_ok_def create_job_ok_def)
  moreover have "runs_before (db_runs db) new" by (rule runs_before_later [OF ok d(2)]) (simp add: new)
  ultimately show ?thesis using ok u unfolding db' by (intro cron_ok_jobs) (auto simp: cron_ok_def)
next
  case (Some e)
  then have "db' = db" using c by (auto simp: cron_create_def split: if_splits)
  then show ?thesis using ok by simp
qed

lemma updated_deadline_ok:
  assumes d: "updated_deadline cn spec now row = Inr d" and row: "job_ok now row" and spec: "update_job_ok spec" and now: "clock_ok now"
  defines "s \<equiv> value_or (field (uj_schedule spec)) (j_schedule row)" and "e \<equiv> value_or (field (uj_enabled spec)) (j_enabled row)"
  shows "schedule_ok s \<and> (\<forall>n d'. s = EverySchedule n \<longrightarrow> d = Some d' \<longrightarrow> grid_time d' \<and> d' \<le> now + of_int n)
    \<and> (e \<longrightarrow> (\<exists>x. d = Some x \<and> now < x) \<or> (j_enabled row \<and> d = j_next row))"
proof -
  have s: "schedule_ok s" using spec row
    by (auto simp: s_def update_job_ok_def job_ok_def value_or_def field_def split: option.splits)
  show ?thesis
  proof (cases "field (uj_schedule spec) \<noteq> None \<or> (field (uj_enabled spec) = Some True \<and> \<not> j_enabled row)")
    case True
    then obtain d0 where d0: "next_deadline cn s now None = Inr d0"
        and r: "(if e then (case d0 of None \<Rightarrow> Inl CronTypeError | Some x \<Rightarrow> if x \<le> now
          then Inl (CronValueError ''resuming a past single-run schedule requires a new future schedule'') else Inr d0) else Inr d0) = Inr d"
      using d unfolding updated_deadline_def s_def e_def by auto
    have "d = d0" "e \<longrightarrow> (\<exists>x. d = Some x \<and> now < x)" using r by (auto split: if_splits option.splits)
    then show ?thesis using first_deadline [OF d0 s now] s by blast
  next
    case False
    then have "s = j_schedule row" "d = j_next row" "e \<longrightarrow> j_enabled row" using d
      by (auto simp: s_def e_def updated_deadline_def value_or_def split: option.splits)
    then show ?thesis using row s by (auto simp: job_ok_def)
  qed
qed

lemma cron_ok_updated_runs: "cron_ok t db \<Longrightarrow> cron_ok t (db\<lparr>db_runs := updated_runs spec now row role (db_runs db)\<rparr>)"
  by (cases "field (uj_schedule spec) \<noteq> None \<or> field (uj_enabled spec) = Some False")
    (auto simp: updated_runs_def cancel_pending_def run_active_def pending_of_def intro!: cron_ok_sql_runs)

lemma value_or_field: "(case f of Some (Some x) \<Rightarrow> P x | _ \<Rightarrow> True) \<Longrightarrow> P y \<Longrightarrow> P (value_or (field f) y)"
  by (auto simp: value_or_def field_def split: option.splits)

lemma updated_job_ok:
  assumes d: "updated_deadline cn spec now row = Inr d" and row: "job_ok now row" and spec: "update_job_ok spec" and now: "clock_ok now"
  shows "job_ok now (updated_job spec now row (merged_role (j_role row) role) d row)"
proof -
  have "bounded_text 120 (value_or (field (uj_name spec)) (j_name row))" "bounded_text 32000 (value_or (field (uj_prompt spec)) (j_prompt row))"
    using spec row by (auto simp: update_job_ok_def job_ok_def intro: value_or_field)
  moreover have "value_or (field (uj_enabled spec)) (j_enabled row) \<longrightarrow> d \<noteq> None"
    using updated_deadline_ok [OF assms] row by (auto simp: job_ok_def)
  ultimately show ?thesis using updated_deadline_ok [OF assms]
    by (simp add: job_ok_def updated_job_def merged_role_def known_role_def)
qed

lemma job_id_unique: "jobs_unique js \<Longrightarrow> j \<in> set js \<Longrightarrow> j' \<in> set js \<Longrightarrow> j_id j = j_id j' \<Longrightarrow> j = j'"
  by (auto simp: jobs_unique_def distinct_map dest: inj_onD)

lemma cron_update_ok:
  assumes ok: "cron_ok now db" and c: "cron_update cn node spec role now db = Inr (db', j)" and spec: "update_job_ok spec" and now: "clock_ok now"
  shows "cron_ok now db'"
proof -
  obtain row d role' where row: "row \<in> set (db_jobs db)" "j_id row = uj_job_id spec" and d: "updated_deadline cn spec now row = Inr d"
      and role': "role' = merged_role (j_role row) role"
      and u: "jobs_unique (sql_update (\<lambda>j. j_id j = uj_job_id spec) (updated_job spec now row role' d) (db_jobs db))"
      and db': "db' = db\<lparr>db_runs := updated_runs spec now row role' (db_runs db),
        db_jobs := sql_update (\<lambda>j. j_id j = uj_job_id spec) (updated_job spec now row role' d) (db_jobs db)\<rparr>"
    using c by (auto simp: cron_update_def Let_def split: if_splits dest!: owned_Inr)
  let ?db1 = "db\<lparr>db_runs := updated_runs spec now row role' (db_runs db)\<rparr>"
  have ok1: "cron_ok now ?db1" by (rule cron_ok_updated_runs [OF ok])
  have jrow: "job_ok now row" "runs_before (db_runs ?db1) row" using ok1 row by (auto simp: cron_ok_def)
  note ud = updated_deadline_ok [OF d jrow(1) spec now]
  have "job_ok now (updated_job spec now row role' d row)"
    unfolding role' by (rule updated_job_ok [OF d jrow(1) spec now])
  moreover have "runs_before (db_runs ?db1) (updated_job spec now row role' d row)"
  proof (cases "\<exists>x. d = Some x \<and> now < x")
    case True
    then show ?thesis using runs_before_later [OF ok1] by (auto simp: updated_job_def)
  next
    case False
    then show ?thesis using ud jrow(2) by (auto simp: runs_before_def updated_job_def)
  qed
  moreover have "j' \<in> set (db_jobs db) \<Longrightarrow> j_id j' = uj_job_id spec \<Longrightarrow> j' = row" for j'
    using ok row job_id_unique [of "db_jobs db" j' row] by (simp add: cron_ok_def)
  ultimately have "cron_ok now (?db1\<lparr>db_jobs := sql_update (\<lambda>j. j_id j = uj_job_id spec) (updated_job spec now row role' d) (db_jobs db)\<rparr>)"
    using ok1 u by (intro cron_ok_jobs) (auto simp: set_sql_update cron_ok_def)
  then show ?thesis by (simp add: db')
qed

lemma cron_delete_ok:
  assumes ok: "cron_ok now db" and c: "cron_delete node i n now db = Inr db'"
  shows "cron_ok now db'"
proof -
  have db': "db' = db\<lparr>db_runs := cancel_pending i now (db_runs db), db_jobs := filter (\<lambda>j. j_id j \<noteq> i) (db_jobs db)\<rparr>"
    using c by (auto simp: cron_delete_def split: if_splits)
  have ok1: "cron_ok now (db\<lparr>db_runs := cancel_pending i now (db_runs db)\<rparr>)"
    unfolding cancel_pending_def by (rule cron_ok_sql_runs [OF ok]) (simp add: run_active_def)
  have "cron_ok now (db\<lparr>db_runs := cancel_pending i now (db_runs db)\<rparr>\<lparr>db_jobs := filter (\<lambda>j. j_id j \<noteq> i) (db_jobs db)\<rparr>)"
    using ok1 by (intro cron_ok_jobs) (auto simp: cron_ok_def jobs_unique_filter)
  then show ?thesis by (simp add: db')
qed

lemma departure_ok:
  assumes ok: "cron_ok now db"
  shows "cron_ok now (cron_node_departure node now db)"
proof -
  let ?rs = "sql_update (\<lambda>r. r_node r = node \<and> run_active r)
       (\<lambda>r. r\<lparr>r_status := Cancelled, r_finished := Some now, r_error := Some ''Owning node left the graph''\<rparr>) (db_runs db)"
  have ok1: "cron_ok now (db\<lparr>db_runs := ?rs\<rparr>)" by (rule cron_ok_sql_runs [OF ok]) (simp add: run_active_def)
  have "cron_ok now (db\<lparr>db_runs := ?rs\<rparr>\<lparr>db_jobs := filter (\<lambda>j. j_node j \<noteq> node) (db_jobs db)\<rparr>)"
    using ok1 by (intro cron_ok_jobs) (auto simp: cron_ok_def jobs_unique_filter)
  moreover have "cron_node_departure node now db = db\<lparr>db_runs := ?rs\<rparr>\<lparr>db_jobs := filter (\<lambda>j. j_node j \<noteq> node) (db_jobs db)\<rparr>"
    by (simp add: cron_node_departure_def)
  ultimately show ?thesis by simp
qed

lemma rename_ok:
  assumes ok: "cron_ok now db" and c: "cron_node_rename old new db = Inr db'"
  shows "cron_ok now db'"
proof (cases "old = new")
  case False
  let ?js = "sql_update (\<lambda>j. j_node j = old) (\<lambda>j. j\<lparr>j_node := new\<rparr>) (db_jobs db)"
  have u: "jobs_unique ?js" and db': "db' = db\<lparr>db_jobs := ?js, db_runs := sql_update (\<lambda>r. r_node r = old) (\<lambda>r. r\<lparr>r_node := new\<rparr>) (db_runs db)\<rparr>"
    using c False by (auto simp: cron_node_rename_def split: if_splits)
  have "cron_ok now (db\<lparr>db_jobs := ?js\<rparr>)"
    using ok u by (intro cron_ok_jobs) (auto simp: cron_ok_def set_sql_update job_ok_def runs_before_def)
  from cron_ok_sql_runs [OF this, of "\<lambda>r. r_node r = old" "\<lambda>r. r\<lparr>r_node := new\<rparr>"] show ?thesis by (simp add: db' run_active_def)
qed (use assms in \<open>simp add: cron_node_rename_def\<close>)

lemma run_ops_ok:
  assumes ok: "cron_ok now db"
  shows "cron_ok now (recover_interrupted db)" "cron_ok now (fst (begin_run i node t db))"
    "cron_ok now (finish_run i t e db)" "cron_ok now (delivery_error i err db)"
proof -
  show "cron_ok now (recover_interrupted db)" "cron_ok now (finish_run i t e db)" "cron_ok now (delivery_error i err db)"
    unfolding recover_interrupted_def finish_run_def delivery_error_def
    by (rule cron_ok_sql_runs [OF ok]; auto simp: run_active_def)+
  show "cron_ok now (fst (begin_run i node t db))"
  proof (cases "List.find (\<lambda>r. r_id r = i \<and> r_node r = node \<and> r_status r = Pending) (db_runs db)")
    case (Some r)
    then have r: "r \<in> set (db_runs db)" "r_id r = i" "r_status r = Pending" using find_Some_set [OF Some] by auto
    have "r' = r" if "r' \<in> set (db_runs db)" "r_id r' = i" for r'
      using ok r(1,2) that by (auto simp: cron_ok_def runs_unique_def distinct_map dest: inj_onD)
    then show ?thesis using r(3) Some by (auto simp: begin_run_def run_active_def intro!: cron_ok_sql_runs [OF ok])
  qed (use ok in \<open>simp add: begin_run_def\<close>)
qed

section \<open>Materialising due jobs\<close>

lemma advanced_deadline:
  assumes d: "next_deadline cn (j_schedule j) now (j_next j) = Inr d" and j: "job_ok now j" "job_due now j" and now: "clock_ok now"
    and cn: "croniter_ok cn"
  shows "(\<forall>x. d = Some x \<longrightarrow> now < x) \<and> (\<forall>n x. j_schedule j = EverySchedule n \<longrightarrow> d = Some x \<longrightarrow> grid_time x \<and> x \<le> now + of_int n)"
proof -
  obtain p where p: "j_next j = Some p" "p \<le> now" using j(2) by (auto simp: job_due_def split: option.splits)
  show ?thesis
  proof (cases "j_schedule j")
    case (EverySchedule n)
    then have n: "60 \<le> n" "n \<le> 31536000" and g: "grid_time p" using j(1) p(1) by (auto simp: job_ok_def schedule_ok_def)
    obtain k where "d = Some (p + of_int (k * n))" "now < p + of_int (k * n)" "p + of_int (k * n) \<le> now + of_int n"
      using every_next [OF now n g p(2), of cn] d EverySchedule p(1) by auto
    moreover have "0 \<le> now" using now by (simp add: clock_ok_def grid_time_def)
    then have "grid_time (p + of_int (k * n))" using calculation by (intro grid_time_add_int [OF g]) linarith
    ultimately show ?thesis using EverySchedule by auto
  next
    case (CronSchedule e z)
    then show ?thesis using d cn by (auto simp: next_deadline_def croniter_ok_def split: option.splits)
  qed (use d p in \<open>auto simp: next_deadline_def\<close>)
qed

definition has_run :: "string \<Rightarrow> run list \<Rightarrow> bool" where
  "has_run i rs \<longleftrightarrow> (\<exists>r \<in> set rs. r_job r = i \<and> run_active r)"

lemma job_active_iff: "job_active i rs \<longleftrightarrow> has_run i rs"
  by (auto simp: job_active_def has_run_def list_ex_iff)

definition advance :: "rat option \<Rightarrow> rat \<Rightarrow> string \<Rightarrow> job list \<Rightarrow> job list" where
  "advance d now i js = sql_update (\<lambda>j. j_id j = i) (\<lambda>j. j\<lparr>j_next := d, j_enabled := d \<noteq> None, j_updated := now\<rparr>) js"

lemma cron_ok_advance:
  assumes ok: "cron_ok now db" and row: "row \<in> set (db_jobs db)"
    and d: "(\<forall>x. d = Some x \<longrightarrow> now < x) \<and> (\<forall>n x. j_schedule row = EverySchedule n \<longrightarrow> d = Some x \<longrightarrow> grid_time x \<and> x \<le> now + of_int n)"
  shows "cron_ok now (db\<lparr>db_jobs := advance d now (j_id row) (db_jobs db)\<rparr>)"
proof (rule cron_ok_jobs [OF ok])
  have "map j_id (advance d now i js) = map j_id js" "map (\<lambda>j. (j_node j, j_name j)) (advance d now i js) = map (\<lambda>j. (j_node j, j_name j)) js" for i js
    by (simp_all add: advance_def sql_update_def)
  then show "jobs_unique (advance d now (j_id row) (db_jobs db))" using ok unfolding cron_ok_def jobs_unique_def by metis
next
  fix j assume "j \<in> set (advance d now (j_id row) (db_jobs db))"
  then obtain j0 where j0: "j0 \<in> set (db_jobs db)"
      "j = (if j_id j0 = j_id row then j0\<lparr>j_next := d, j_enabled := d \<noteq> None, j_updated := now\<rparr> else j0)"
    by (auto simp: advance_def set_sql_update)
  show "job_ok now j \<and> runs_before (db_runs db) j"
  proof (cases "j_id j0 = j_id row")
    case True
    then have "j0 = row" using ok row j0(1) job_id_unique by (auto simp: cron_ok_def)
    then have "job_ok now j" using ok row d j0(2) by (auto simp: cron_ok_def job_ok_def)
    moreover have "runs_before (db_runs db) j" using True d j0(2) runs_before_later [OF ok, of _ j]
      by (cases d) (auto simp: runs_before_def)
    ultimately show ?thesis by blast
  qed (use ok j0 in \<open>auto simp: cron_ok_def\<close>)
qed

lemma cron_ok_add_run:
  assumes ok: "cron_ok now db" and u: "runs_unique (db_runs db @ [r])" and r: "r_scheduled r \<le> now" "\<not> has_run (r_job r) (db_runs db)"
    and b: "\<And>j d. j \<in> set (db_jobs db) \<Longrightarrow> j_id j = r_job r \<Longrightarrow> j_enabled j \<Longrightarrow> j_next j = Some d \<Longrightarrow> r_scheduled r < d"
  shows "cron_ok now (db\<lparr>db_runs := db_runs db @ [r]\<rparr>)"
proof -
  have "one_active (db_runs db @ [r])" using ok r(2) by (fastforce simp: cron_ok_def one_active_def has_run_def)
  moreover have "runs_before (db_runs db @ [r]) j" if "j \<in> set (db_jobs db)" for j
    using ok b that by (fastforce simp: cron_ok_def runs_before_def)
  ultimately show ?thesis using ok u r(1) by (auto simp: cron_ok_def)
qed

lemma due_row_cases:
  assumes "due_row cn uuid now row db = Inr db'"
  obtains (wait) "has_run (j_id row) (db_runs db)" "db' = db"
  | (skip) d where "has_run (j_id row) (db_runs db)" "next_deadline cn (j_schedule row) now (j_next row) = Inr d"
      "db' = db\<lparr>db_jobs := advance d now (j_id row) (db_jobs db)\<rparr>"
  | (run) d where "\<not> has_run (j_id row) (db_runs db)" "next_deadline cn (j_schedule row) now (j_next row) = Inr d"
      "runs_unique (db_runs db @ [due_run uuid row])"
      "db' = db\<lparr>db_jobs := advance d now (j_id row) (db_jobs db), db_runs := db_runs db @ [due_run uuid row]\<rparr>"
  using assms by (auto simp: due_row_def Let_def job_active_iff advance_def split: if_splits)

lemma due_run_scheduled: "job_due now row \<Longrightarrow> r_scheduled (due_run uuid row) \<le> now"
  by (auto simp: due_run_def job_due_def split: option.splits)

lemma due_row_ok:
  assumes ok: "cron_ok now db" and row: "row \<in> set (db_jobs db)" "job_due now row" and now: "clock_ok now" and cn: "croniter_ok cn"
    and s: "due_row cn uuid now row db = Inr db'"
  shows "cron_ok now db'"
proof -
  have jrow: "job_ok now row" using ok row(1) by (simp add: cron_ok_def)
  show ?thesis using s
  proof (cases rule: due_row_cases)
    case (skip d)
    then show ?thesis using cron_ok_advance [OF ok row(1) advanced_deadline [OF skip(2) jrow row(2) now cn]] by simp
  next
    case (run d)
    note ad = advanced_deadline [OF run(2) jrow row(2) now cn]
    have "cron_ok now (db\<lparr>db_jobs := advance d now (j_id row) (db_jobs db)\<rparr>)" by (rule cron_ok_advance [OF ok row(1) ad])
    then have "cron_ok now (db\<lparr>db_jobs := advance d now (j_id row) (db_jobs db)\<rparr>\<lparr>db_runs := db_runs db @ [due_run uuid row]\<rparr>)"
    proof (rule cron_ok_add_run [where db = "db\<lparr>db_jobs := advance d now (j_id row) (db_jobs db)\<rparr>", simplified])
      fix j x assume "j \<in> set (advance d now (j_id row) (db_jobs db))" "j_id j = r_job (due_run uuid row)" "j_next j = Some x"
      then have "d = Some x" by (auto simp: advance_def set_sql_update due_run_def split: if_splits)
      then show "r_scheduled (due_run uuid row) < x" using ad due_run_scheduled [OF row(2), of uuid] by fastforce
    qed (use run due_run_scheduled [OF row(2)] in \<open>simp_all add: due_run_def\<close>)
    then show ?thesis by (simp add: run(4))
  qed (use ok in simp)
qed

lemma due_row_frame:
  assumes "due_row cn uuid now row db = Inr db'"
  shows "(\<exists>new. db_runs db' = db_runs db @ new \<and> (\<forall>r \<in> set new. r = due_run uuid row)) \<and> has_run (j_id row) (db_runs db')
    \<and> (\<forall>j. j_id j \<noteq> j_id row \<longrightarrow> (j \<in> set (db_jobs db') \<longleftrightarrow> j \<in> set (db_jobs db)))"
  using assms
proof (cases rule: due_row_cases)
  case (run d)
  have "j \<in> set (advance d now (j_id row) (db_jobs db)) \<longleftrightarrow> j \<in> set (db_jobs db)" if "j_id j \<noteq> j_id row" for j
    using that by (force simp: advance_def set_sql_update image_iff)
  then show ?thesis using run by (auto simp: has_run_def due_run_def run_active_def)
next
  case (skip d)
  have "j \<in> set (advance d now (j_id row) (db_jobs db)) \<longleftrightarrow> j \<in> set (db_jobs db)" if "j_id j \<noteq> j_id row" for j
    using that by (force simp: advance_def set_sql_update image_iff)
  then show ?thesis using skip by auto
qed auto

lemma due_row_rest:
  assumes "due_row cn uuid now row db = Inr db'" "distinct (map j_id (row # rows))"
    "\<forall>r \<in> set (row # rows). r \<in> set (db_jobs db) \<and> job_due now r"
  shows "\<forall>r \<in> set rows. r \<in> set (db_jobs db') \<and> job_due now r"
proof
  fix r assume r: "r \<in> set rows"
  then have "j_id r \<noteq> j_id row" using assms(2) by (metis distinct.simps(2) image_eqI list.set_map list.simps(9))
  then show "r \<in> set (db_jobs db') \<and> job_due now r" using due_row_frame [OF assms(1)] assms(3) r by simp
qed

lemma due_rows:
  assumes "rfold (due_row cn uuid now) rows db = Inr db'" "cron_ok now db" "distinct (map j_id rows)"
    "\<forall>row \<in> set rows. row \<in> set (db_jobs db) \<and> job_due now row" "clock_ok now" "croniter_ok cn"
  shows "cron_ok now db' \<and> (\<forall>row \<in> set rows. has_run (j_id row) (db_runs db'))
    \<and> (\<exists>new. db_runs db' = db_runs db @ new \<and> set new \<subseteq> due_run uuid ` set rows)"
  using assms
proof (induction rows arbitrary: db)
  case (Cons row rows)
  obtain db1 where s: "due_row cn uuid now row db = Inr db1" "rfold (due_row cn uuid now) rows db1 = Inr db'" using Cons.prems(1) by auto
  note fr = due_row_frame [OF s(1)]
  have "cron_ok now db1" using due_row_ok [OF Cons.prems(2) _ _ Cons.prems(5,6) s(1)] Cons.prems(4) by simp
  moreover have "\<forall>r \<in> set rows. r \<in> set (db_jobs db1) \<and> job_due now r" by (rule due_row_rest [OF s(1) Cons.prems(3,4)])
  ultimately have IH: "cron_ok now db' \<and> (\<forall>row \<in> set rows. has_run (j_id row) (db_runs db'))
      \<and> (\<exists>new. db_runs db' = db_runs db1 @ new \<and> set new \<subseteq> due_run uuid ` set rows)"
    using Cons.IH [OF s(2)] Cons.prems(3,5,6) by simp
  moreover have "has_run (j_id row) (db_runs db')" using IH fr by (auto simp: has_run_def)
  ultimately show ?case using fr by (auto 0 3)
qed simp

lemma filter_due: "cron_ok t db \<Longrightarrow> distinct (map j_id (filter P (db_jobs db)))"
  by (simp add: cron_ok_def jobs_unique_def distinct_map_filter_fst)

lemma materialize_ok:
  assumes "materialize_due cn uuid now db = Inr db'" "cron_ok now db" "clock_ok now" "croniter_ok cn"
  shows "cron_ok now db' \<and> (\<forall>j \<in> set (db_jobs db). job_due now j \<longrightarrow> has_run (j_id j) (db_runs db'))
    \<and> (\<exists>new. db_runs db' = db_runs db @ new \<and> set new \<subseteq> due_run uuid ` {j \<in> set (db_jobs db). job_due now j})"
  using due_rows [OF assms(1) [unfolded materialize_due_def] assms(2) filter_due [OF assms(2)] _ assms(3,4)] by auto

text \<open>The identifiers a poll generates are new, and croniter knows a next match.\<close>

definition poll_fresh :: "(string \<Rightarrow> string) \<Rightarrow> job list \<Rightarrow> run list \<Rightarrow> bool" where
  "poll_fresh uuid rows rs \<longleftrightarrow> inj_on uuid (j_id ` set rows) \<and> (\<forall>row \<in> set rows. ''cron-'' @ uuid (j_id row) \<notin> r_id ` set rs)"

definition croniter_answers :: "croniter \<Rightarrow> rat \<Rightarrow> job list \<Rightarrow> bool" where
  "croniter_answers cn now rows \<longleftrightarrow> (\<forall>row \<in> set rows. case j_schedule row of CronSchedule e z \<Rightarrow> cn e z now \<noteq> None | _ \<Rightarrow> True)"

lemma due_row_total:
  assumes ok: "cron_ok now db" and row: "row \<in> set (db_jobs db)" "job_due now row"
    and fresh: "''cron-'' @ uuid (j_id row) \<notin> r_id ` set (db_runs db)" and cn: "case j_schedule row of CronSchedule e z \<Rightarrow> cn e z now \<noteq> None | _ \<Rightarrow> True"
  shows "\<exists>db'. due_row cn uuid now row db = Inr db'"
proof -
  obtain d where d: "j_enabled row" "j_next row = Some d" using row(2) by (auto simp: job_due_def split: option.splits)
  obtain x where x: "next_deadline cn (j_schedule row) now (j_next row) = Inr x" using cn d
    by (cases "j_schedule row") (auto simp: next_deadline_def)
  have "r_scheduled r < d" if "r \<in> set (db_runs db)" "r_job r = j_id row" for r
    using ok row(1) d that by (auto simp: cron_ok_def runs_before_def)
  then have "(j_id row, d) \<notin> (\<lambda>r. (r_job r, r_scheduled r)) ` set (db_runs db)" by fastforce
  then have "runs_unique (db_runs db @ [due_run uuid row])" using ok fresh d by (auto simp: cron_ok_def runs_unique_def due_run_def)
  then show ?thesis using x by (auto simp: due_row_def Let_def put_runs_def)
qed

lemma poll_fresh_rest:
  assumes "due_row cn uuid now row db = Inr db'" "distinct (map j_id (row # rows))" and f: "poll_fresh uuid (row # rows) (db_runs db)"
  shows "poll_fresh uuid rows (db_runs db')"
proof -
  have "''cron-'' @ uuid (j_id r) \<notin> r_id ` set (db_runs db')" if r: "r \<in> set rows" for r
  proof -
    have "j_id r \<noteq> j_id row" using assms(2) r by (metis distinct.simps(2) image_eqI list.set_map list.simps(9))
    then have "uuid (j_id r) \<noteq> uuid (j_id row)" using f r inj_on_eq_iff [of uuid "j_id ` set (row # rows)" "j_id r" "j_id row"]
      by (simp add: poll_fresh_def)
    moreover obtain new where "db_runs db' = db_runs db @ new" "\<forall>x \<in> set new. x = due_run uuid row" using due_row_frame [OF assms(1)] by blast
    ultimately show ?thesis using f r by (auto simp: poll_fresh_def due_run_def)
  qed
  then show ?thesis using f by (auto simp: poll_fresh_def intro: inj_on_subset)
qed

lemma due_rows_total:
  assumes "cron_ok now db" "distinct (map j_id rows)" "\<forall>row \<in> set rows. row \<in> set (db_jobs db) \<and> job_due now row"
    "clock_ok now" "croniter_ok cn" "poll_fresh uuid rows (db_runs db)" "croniter_answers cn now rows"
  shows "\<exists>db'. rfold (due_row cn uuid now) rows db = Inr db'"
  using assms
proof (induction rows arbitrary: db)
  case (Cons row rows)
  obtain db1 where s: "due_row cn uuid now row db = Inr db1"
    using due_row_total [of now db row uuid cn] Cons.prems by (auto simp: poll_fresh_def croniter_answers_def)
  note fr = due_row_frame [OF s]
  have "cron_ok now db1" using due_row_ok [OF Cons.prems(1) _ _ Cons.prems(4,5) s] Cons.prems(3) by simp
  moreover have "\<forall>r \<in> set rows. r \<in> set (db_jobs db1) \<and> job_due now r" by (rule due_row_rest [OF s Cons.prems(2,3)])
  moreover have "poll_fresh uuid rows (db_runs db1)" by (rule poll_fresh_rest [OF s Cons.prems(2,6)])
  ultimately show ?case using Cons.IH [of db1] Cons.prems(2,4,5,7) s by (auto simp: croniter_answers_def)
qed simp

section \<open>Sequences of operations\<close>

datatype cron_cmd = Create string string create_job string | Update string update_job string | Delete string string int
  | Materialize "string \<Rightarrow> string" | Recover | Begin string string | Finish string "string option"
  | DeliveryError string string | Departure string | Rename string string

fun cron_step :: "croniter \<Rightarrow> rat \<Rightarrow> cron_cmd \<Rightarrow> cron_db \<Rightarrow> cron_db cron_res" where
  "cron_step cn now (Create uuid node spec role) db = rbind (cron_create cn uuid node spec role now db) (\<lambda>(db', j). Inr db')"
| "cron_step cn now (Update node spec role) db = rbind (cron_update cn node spec role now db) (\<lambda>(db', j). Inr db')"
| "cron_step cn now (Delete node i n) db = cron_delete node i n now db"
| "cron_step cn now (Materialize uuid) db = materialize_due cn uuid now db"
| "cron_step cn now Recover db = Inr (recover_interrupted db)"
| "cron_step cn now (Begin i node) db = Inr (fst (begin_run i node now db))"
| "cron_step cn now (Finish i e) db = Inr (finish_run i now e db)"
| "cron_step cn now (DeliveryError i e) db = Inr (delivery_error i e db)"
| "cron_step cn now (Departure node) db = Inr (cron_node_departure node now db)"
| "cron_step cn now (Rename old new) db = cron_node_rename old new db"

fun cmd_ok :: "cron_cmd \<Rightarrow> bool" where
  "cmd_ok (Create uuid node spec role) = create_job_ok spec"
| "cmd_ok (Update node spec role) = update_job_ok spec"
| "cmd_ok _ = True"

lemma cron_step_ok:
  assumes ok: "cron_ok t db" "t \<le> now" and s: "cron_step cn now c db = Inr db'" and c: "cmd_ok c" and now: "clock_ok now" and cn: "croniter_ok cn"
  shows "cron_ok now db'"
proof -
  note ok' = cron_ok_mono [OF ok]
  show ?thesis
  proof (cases c)
    case Create
    then show ?thesis using s c cron_create_ok [OF ok' _ _ now] by auto
  next
    case Update
    then show ?thesis using s c cron_update_ok [OF ok' _ _ now] by auto
  next
    case Materialize
    then show ?thesis using s materialize_ok [OF _ ok' now cn] by auto
  qed (use s cron_delete_ok [OF ok'] departure_ok [OF ok'] rename_ok [OF ok'] run_ops_ok [OF ok'] in auto)
qed

text \<open>A timed command advances the clock and either commits or is rolled back.\<close>

definition timed_step :: "croniter \<Rightarrow> rat \<times> cron_cmd \<Rightarrow> rat \<times> cron_db \<Rightarrow> (cron_error, (rat \<times> cron_db) \<times> unit) res" where
  "timed_step cn tc st = rbind (cron_step cn (fst tc) (snd tc) (snd st)) (\<lambda>db'. Inr ((fst tc, db'), ()))"

definition timed_ok :: "croniter \<Rightarrow> rat \<times> cron_db \<Rightarrow> bool" where
  "timed_ok cn st \<longleftrightarrow> croniter_ok cn \<and> cron_ok (fst st) (snd st)"

definition timed_guard :: "rat \<times> cron_cmd \<Rightarrow> rat \<times> cron_db \<Rightarrow> bool" where
  "timed_guard tc st \<longleftrightarrow> fst st \<le> fst tc \<and> clock_ok (fst tc) \<and> cmd_ok (snd tc)"

interpretation cron_store: transactional "timed_step cn" "timed_ok cn" timed_guard for cn
  by unfold_locales (auto simp: timed_step_def timed_ok_def timed_guard_def intro: cron_step_ok)

text \<open>Running commands at times that never go back.\<close>

definition commit_cron :: "croniter \<Rightarrow> rat \<times> cron_cmd \<Rightarrow> cron_db \<Rightarrow> cron_db" where
  "commit_cron cn tc db = (case cron_step cn (fst tc) (snd tc) db of Inl e \<Rightarrow> db | Inr db' \<Rightarrow> db')"

definition run_cron :: "croniter \<Rightarrow> (rat \<times> cron_cmd) list \<Rightarrow> cron_db \<Rightarrow> cron_db" where
  "run_cron cn cs db = fold (commit_cron cn) cs db"

definition clock_run :: "(rat \<times> cron_cmd) list \<Rightarrow> rat \<Rightarrow> bool" where
  "clock_run cs now \<longleftrightarrow> sorted (map fst cs @ [now]) \<and> list_all (\<lambda>tc. clock_ok (fst tc) \<and> cmd_ok (snd tc)) cs \<and> clock_ok now"

lemma commit_timed: "\<exists>t'. cron_store.commit cn tc (t, db) = (t', commit_cron cn tc db) \<and> (t' = t \<or> t' = fst tc)"
  by (auto simp: cron_store.commit_def timed_step_def commit_cron_def split: sum.splits)

lemma run_cron_commit:
  assumes "sorted (t # map fst cs)" "list_all (\<lambda>tc. clock_ok (fst tc) \<and> cmd_ok (snd tc)) cs"
  shows "cron_store.guarded cn cs (t, db) \<and> (\<exists>t'. fold (cron_store.commit cn) cs (t, db) = (t', run_cron cn cs db) \<and> t' \<in> set (t # map fst cs))"
  using assms
proof (induction cs arbitrary: t db)
  case (Cons tc cs)
  obtain t' where t': "cron_store.commit cn tc (t, db) = (t', commit_cron cn tc db)" "t' = t \<or> t' = fst tc" using commit_timed by blast
  have "sorted (t' # map fst cs)" using Cons.prems(1) t'(2) by auto
  from Cons.IH [OF this, of "commit_cron cn tc db"] have
    "cron_store.guarded cn cs (t', commit_cron cn tc db)"
    "\<exists>u. fold (cron_store.commit cn) cs (t', commit_cron cn tc db) = (u, run_cron cn cs (commit_cron cn tc db)) \<and> u \<in> set (t' # map fst cs)"
    using Cons.prems(2) by simp_all
  moreover have "timed_guard tc (t, db)" using Cons.prems by (simp add: timed_guard_def)
  ultimately show ?case using t' by (auto simp: run_cron_def)
qed (simp add: run_cron_def)

lemma reachable_cron_ok:
  assumes "croniter_ok cn" "clock_run cs now"
  shows "cron_ok now (run_cron cn cs empty_cron)"
proof -
  define t where "t = (case cs of [] \<Rightarrow> now | tc # _ \<Rightarrow> fst tc)"
  have sorted: "sorted (t # map fst cs)" and le: "\<forall>x \<in> set (t # map fst cs). x \<le> now" using assms(2)
    by (cases cs; simp add: clock_run_def t_def sorted_append)+
  obtain t' where r: "cron_store.guarded cn cs (t, empty_cron)" "fold (cron_store.commit cn) cs (t, empty_cron) = (t', run_cron cn cs empty_cron)" "t' \<le> now"
    using run_cron_commit [OF sorted, of cn empty_cron] assms(2) le by (auto simp: clock_run_def)
  have "timed_ok cn (fold (cron_store.commit cn) cs (t, empty_cron))"
    by (rule cron_store.run_inv [OF _ r(1)]) (simp add: timed_ok_def assms(1) cron_ok_empty)
  then show ?thesis using r(2,3) cron_ok_mono by (auto simp: timed_ok_def)
qed

section \<open>Roles\<close>

text \<open>From an edit by someone who is not a developer on, \<open>old\<close> being the runs that were started before.\<close>

definition demoted :: "string \<Rightarrow> string set \<Rightarrow> cron_db \<Rightarrow> bool" where
  "demoted i old db \<longleftrightarrow> (\<forall>j \<in> set (db_jobs db). j_id j = i \<longrightarrow> j_role j = ''nondeveloper'')
     \<and> (\<forall>r \<in> set (db_runs db). r_job r = i \<longrightarrow> r_id r \<notin> old \<longrightarrow> r_role r = ''nondeveloper'')"

fun creates :: "string \<Rightarrow> cron_cmd \<Rightarrow> bool" where
  "creates i (Create uuid node spec role) = (uuid = i)"
| "creates i _ = False"

lemma demoted_due_row:
  assumes "due_row cn uuid now row db = Inr db'" "demoted i old db" "j_id row = i \<longrightarrow> j_role row = ''nondeveloper''"
  shows "demoted i old db'"
  using assms(1) by (cases rule: due_row_cases)
    (use assms(2,3) in \<open>auto simp: demoted_def due_run_def advance_def set_sql_update split: if_splits\<close>)

lemma demoted_step:
  assumes d: "demoted i old db" and s: "cron_step cn now c db = Inr db'" and c: "\<not> creates i c"
  shows "demoted i old db'"
proof (cases c)
  case (Create uuid node spec role)
  then show ?thesis using s c d by (auto simp: cron_create_def demoted_def split: if_splits option.splits)
next
  case (Update node spec role)
  then obtain row d' where "row \<in> set (db_jobs db)" "j_id row = uj_job_id spec"
      "db' = db\<lparr>db_runs := updated_runs spec now row (merged_role (j_role row) role) (db_runs db),
        db_jobs := sql_update (\<lambda>j. j_id j = uj_job_id spec) (updated_job spec now row (merged_role (j_role row) role) d') (db_jobs db)\<rparr>"
    using s by (auto simp: cron_update_def Let_def split: if_splits dest!: owned_Inr)
  then show ?thesis using d
    by (auto simp: demoted_def updated_runs_def cancel_pending_def pending_of_def set_sql_update updated_job_def merged_role_def split: if_splits)
next
  case (Materialize uuid)
  then have f: "rfold (due_row cn uuid now) (filter (job_due now) (db_jobs db)) db = Inr db'" using s by (simp add: materialize_due_def)
  have "\<forall>row \<in> set (filter (job_due now) (db_jobs db)). j_id row = i \<longrightarrow> j_role row = ''nondeveloper''" using d by (simp add: demoted_def)
  then show ?thesis using demoted_due_row by (intro rfold_invariant [OF f, of "demoted i old"]) (use d in auto)
qed (use s d in \<open>auto simp: demoted_def cron_delete_def cancel_pending_def recover_interrupted_def begin_run_def finish_run_def
    delivery_error_def cron_node_departure_def cron_node_rename_def set_sql_update split: if_splits option.splits\<close>)

definition settled_runs :: "string \<Rightarrow> cron_db \<Rightarrow> string set" where
  "settled_runs i db = {r_id r |r. r \<in> set (db_runs db) \<and> r_job r = i \<and> r_status r \<noteq> Pending}"

lemma demoted_by_update:
  assumes "cron_update cn node spec ''nondeveloper'' now db = Inr (db', j)"
  shows "demoted (uj_job_id spec) (settled_runs (uj_job_id spec) db') db'"
proof -
  obtain row d' where db': "db' = db\<lparr>db_runs := updated_runs spec now row ''nondeveloper'' (db_runs db),
        db_jobs := sql_update (\<lambda>j. j_id j = uj_job_id spec) (updated_job spec now row ''nondeveloper'' d') (db_jobs db)\<rparr>"
    using assms by (auto simp: cron_update_def Let_def merged_role_def split: if_splits)
  have "r_role r = ''nondeveloper''" if "r \<in> set (db_runs db')" "r_job r = uj_job_id spec" "r_status r = Pending" for r
    using that by (auto simp: db' updated_runs_def cancel_pending_def pending_of_def set_sql_update split: if_splits)
  then show ?thesis by (auto simp: demoted_def settled_runs_def db' set_sql_update updated_job_def split: if_splits)
qed

lemma demoted_run: "demoted i old db \<Longrightarrow> list_all (\<lambda>tc. \<not> creates i (snd tc)) cs \<Longrightarrow> demoted i old (run_cron cn cs db)"
proof (induction cs arbitrary: db)
  case (Cons tc cs)
  then have "demoted i old (commit_cron cn tc db)" by (auto simp: commit_cron_def dest: demoted_step split: sum.splits)
  then show ?case using Cons by (simp add: run_cron_def)
qed (simp add: run_cron_def)

section \<open>Properties\<close>

text \<open>C13. Whatever the tools, the poll, executions, restarts and node changes do in any order at times that
  never go back, no job has two runs under way, an enabled job has a deadline that all its runs precede,
  and no row breaks a key.\<close>

theorem cron_single_flight:
  assumes "croniter_ok cn" and "clock_run cs now"
  defines "db \<equiv> run_cron cn cs empty_cron"
  shows "one_active (db_runs db) \<and> jobs_unique (db_jobs db) \<and> runs_unique (db_runs db)
    \<and> (\<forall>j \<in> set (db_jobs db). j_enabled j \<longrightarrow> (\<exists>d. j_next j = Some d
        \<and> (\<forall>r \<in> set (db_runs db). r_job r = j_id j \<longrightarrow> r_scheduled r < d)))"
  using reachable_cron_ok [OF assms(1,2)] by (auto simp: db_def cron_ok_def job_ok_def runs_before_def)

text \<open>C14. In every reachable store a poll succeeds, and afterwards every job that was due has exactly one run
  waiting or running; runs are only added, and only for due jobs.\<close>

theorem poll_serves_due_jobs:
  assumes cn: "croniter_ok cn" and cs: "clock_run cs now"
  defines "db \<equiv> run_cron cn cs empty_cron"
  assumes fresh: "poll_fresh uuid (db_jobs db) (db_runs db)" and answers: "croniter_answers cn now (db_jobs db)"
  shows "\<exists>db'. materialize_due cn uuid now db = Inr db'
    \<and> (\<forall>j \<in> set (db_jobs db). job_due now j \<longrightarrow> (\<exists>!r. r \<in> set (db_runs db') \<and> r_job r = j_id j \<and> run_active r))
    \<and> (\<exists>new. db_runs db' = db_runs db @ new \<and> set new \<subseteq> due_run uuid ` {j \<in> set (db_jobs db). job_due now j})"
proof -
  have ok: "cron_ok now db" using reachable_cron_ok [OF cn cs] by (simp add: db_def)
  have now: "clock_ok now" using cs by (simp add: clock_run_def)
  have "poll_fresh uuid (filter (job_due now) (db_jobs db)) (db_runs db)" "croniter_answers cn now (filter (job_due now) (db_jobs db))"
    using fresh answers by (auto simp: poll_fresh_def croniter_answers_def intro: inj_on_subset)
  then obtain db' where db': "materialize_due cn uuid now db = Inr db'"
    using due_rows_total [OF ok filter_due [OF ok] _ now cn] by (auto simp: materialize_due_def)
  note m = materialize_ok [OF db' ok now cn]
  have "\<exists>!r. r \<in> set (db_runs db') \<and> r_job r = j_id j \<and> run_active r" if "j \<in> set (db_jobs db)" "job_due now j" for j
    using m that by (fastforce simp: cron_ok_def one_active_def has_run_def)
  then show ?thesis using db' m by blast
qed

text \<open>C33. The next deadline of an interval is exact although it is computed with doubles: a whole number of
  intervals after the previous one, the first such time after now.\<close>

theorem interval_deadline_exact:
  assumes "clock_ok now" and "schedule_ok (EverySchedule n)" and "grid_time p" and "p \<le> now"
  shows "\<exists>k \<ge> 1. next_deadline cn (EverySchedule n) now (Some p) = Inr (Some (p + of_int (k * n)))
    \<and> now < p + of_int (k * n) \<and> p + of_int (k * n) \<le> now + of_int n"
  using every_next [OF assms(1) _ _ assms(3,4)] assms(2) by (simp add: schedule_ok_def)

text \<open>Once someone who is not a developer edits a job, the job keeps that role whatever is done later, and
  every run of it that had not started by then, or is created later, has that role.\<close>

lemma nondeveloper_edit_sticks:
  assumes "cron_update cn node spec ''nondeveloper'' now db = Inr (db', j)" and "list_all (\<lambda>tc. \<not> creates (uj_job_id spec) (snd tc)) cs"
  shows "(\<forall>j \<in> set (db_jobs (run_cron cn cs db')). j_id j = uj_job_id spec \<longrightarrow> j_role j = ''nondeveloper'')
    \<and> (\<forall>r \<in> set (db_runs (run_cron cn cs db')). r_job r = uj_job_id spec \<longrightarrow> r_id r \<notin> settled_runs (uj_job_id spec) db'
        \<longrightarrow> r_role r = ''nondeveloper'')"
  using demoted_run [OF demoted_by_update [OF assms(1)] assms(2), of cn] by (simp add: demoted_def)

section \<open>Witnesses\<close>

definition sample_cron :: croniter where
  "sample_cron e z now = Some (now + 60)"

definition sample_job :: create_job where
  "sample_job = \<lparr>cj_name = ''a'', cj_prompt = ''b'', cj_schedule = EverySchedule 60\<rparr>"

definition sample_run :: "(rat \<times> cron_cmd) list" where
  "sample_run = [(60, Create ''1'' ''n'' sample_job ''developer'')]"

lemma clock_60: "clock_ok 60" "clock_ok 120"
  using grid_time_int [of 60] grid_time_int [of 120] by (simp_all add: clock_ok_def)

lemma sample_croniter: "croniter_ok sample_cron"
  by (simp add: croniter_ok_def sample_cron_def)

lemma sample_clock: "clock_run sample_run 120"
  by (simp add: clock_run_def sample_run_def clock_60 create_job_ok_def sample_job_def bounded_text_def schedule_ok_def is_space_def char_code_def)

definition sample_row :: job where
  "sample_row = \<lparr>j_id = ''1'', j_node = ''n'', j_name = ''a'', j_prompt = ''b'', j_schedule = EverySchedule 60, j_role = ''developer'',
     j_enabled = True, j_next = Some 120, j_revision = 1, j_created = 60, j_updated = 60\<rparr>"

lemma sample_reached: "run_cron sample_cron sample_run empty_cron = \<lparr>db_jobs = [sample_row], db_runs = []\<rparr>"
  using every_first [OF clock_60(1), of 60 sample_cron]
  by (simp add: run_cron_def sample_run_def commit_cron_def cron_create_def known_role_def empty_cron_def sample_job_def put_jobs_def
      jobs_unique_def owned_def sample_row_def)

lemma cron_single_flight_witness:
  "croniter_ok sample_cron \<and> clock_run sample_run 120 \<and> one_active (db_runs (run_cron sample_cron sample_run empty_cron))"
  using cron_single_flight [OF sample_croniter sample_clock] sample_croniter sample_clock by blast

lemma poll_serves_due_jobs_witness:
  "job_due 120 sample_row \<and> (\<exists>db'. materialize_due sample_cron id 120 \<lparr>db_jobs = [sample_row], db_runs = []\<rparr> = Inr db'
     \<and> (\<exists>!r. r \<in> set (db_runs db') \<and> r_job r = ''1'' \<and> run_active r))"
proof -
  have due: "job_due 120 sample_row" by (simp add: job_due_def sample_row_def)
  have "poll_fresh id [sample_row] []" "croniter_answers sample_cron 120 [sample_row]"
    by (simp_all add: poll_fresh_def croniter_answers_def sample_row_def)
  then show ?thesis using poll_serves_due_jobs [OF sample_croniter sample_clock, of id] due
    by (auto simp: sample_reached sample_row_def)
qed

lemma interval_deadline_exact_witness:
  "\<exists>k \<ge> 1. next_deadline sample_cron (EverySchedule 60) 120 (Some 60) = Inr (Some (60 + of_int (k * 60)))
    \<and> 120 < 60 + rat_of_int (k * 60) \<and> 60 + rat_of_int (k * 60) \<le> 120 + 60"
  using interval_deadline_exact [OF clock_60(2), of 60 60 sample_cron] clock_60(1) by (simp add: schedule_ok_def clock_ok_def)

definition sample_edit :: update_job where
  "sample_edit = \<lparr>uj_job_id = ''1'', uj_expected_revision = 1, uj_name = None, uj_prompt = Some (Some ''c''), uj_schedule = None, uj_enabled = None\<rparr>"

lemma nondeveloper_edit_sticks_witness:
  "\<exists>db' j. cron_update sample_cron ''n'' sample_edit ''nondeveloper'' 120 \<lparr>db_jobs = [sample_row], db_runs = []\<rparr> = Inr (db', j)
    \<and> (\<forall>j \<in> set (db_jobs (run_cron sample_cron [(120, Materialize id)] db')). j_id j = ''1'' \<longrightarrow> j_role j = ''nondeveloper'')"
proof -
  obtain db' j where u: "cron_update sample_cron ''n'' sample_edit ''nondeveloper'' 120 \<lparr>db_jobs = [sample_row], db_runs = []\<rparr> = Inr (db', j)"
    by (simp add: cron_update_def known_role_def no_change_def sample_edit_def owned_def sample_row_def updated_deadline_def field_def
        updated_runs_def put_runs_def runs_unique_def sql_update_def put_jobs_def jobs_unique_def updated_job_def value_or_def Let_def)
  moreover have "list_all (\<lambda>tc. \<not> creates (uj_job_id sample_edit) (snd tc)) [(120, Materialize id)]" by simp
  note nondeveloper_edit_sticks [OF u this]
  ultimately show ?thesis by (auto simp: sample_edit_def)
qed

end
