(* ===== verification/CronDelivery.thy ===== *)
theory CronDelivery
  imports CronLaws QueueLaws OutputRoutes
begin

text \<open>
  From schedules to queues: entering an item into the queue of a node
  (\<open>web_backend/node_instance_queue.py\<close>), the poll of a graph (\<open>web_backend/cron_service.py\<close>), which
  turns due jobs into runs and delivers pending runs, and the acknowledgement when a node starts a
  run. A run stays pending until its node starts it, so every poll delivers it again; the key of the item
  is the id of the run.
\<close>

section \<open>Entering an item\<close>

text \<open>
  The surroundings of the call: the runtime environment, the configuration path of a node (\<open>[]\<close> when it
  has none), the owner and identifier the backend supplies, and the envelope of a message.
\<close>

record queue_env =
  qe_rt :: rt_env
  qe_path :: "string \<Rightarrow> string"
  qe_owner :: string
  qe_uuid :: string
  qe_envelope :: "pyval \<Rightarrow> pyval"
  qe_sanitize :: "string \<Rightarrow> string"

datatype queue_error = QueueHttp nat | QueueError rt_error | NotAgentNode

definition optional_text :: "pydict \<Rightarrow> string \<Rightarrow> string option" where
  "optional_text p key = (case get p key of PStr s \<Rightarrow> if py_strip s = [] then None else Some (py_strip s) | _ \<Rightarrow> None)"

definition text_field :: "pydict \<Rightarrow> string \<Rightarrow> (string \<times> pyval) list" where
  "text_field p key = (case optional_text p key of None \<Rightarrow> [] | Some s \<Rightarrow> [(key, PStr s)])"

definition depth_field :: "pyval \<Rightarrow> int" where
  "depth_field v = (case v of PInt i \<Rightarrow> i | PBool b \<Rightarrow> (if b then 1 else 0) | _ \<Rightarrow> 0)"

definition visited_field :: "pyval \<Rightarrow> pyval" where
  "visited_field v = (case v of PList vs \<Rightarrow> PList (map (\<lambda>x. PStr (py_str x)) (filter truthy vs)) | _ \<Rightarrow> PList [])"

text \<open>The item; \<open>access\<close> is the metadata of a request, when there is one.\<close>

definition pending_item :: "queue_env \<Rightarrow> (string \<times> string \<times> string \<times> string) option \<Rightarrow> pydict \<Rightarrow> pydict" where
  "pending_item E access p = [(''payload'', qe_envelope E (get p ''payload'')), (''depth'', PInt (depth_field (get p ''depth''))),
       (''visited'', visited_field (get p ''visited'')),
       (''trace_id'', PStr (if text_of (get p ''trace_id'') = [] then qe_uuid E else text_of (get p ''trace_id''))),
       (''from_output_index'', PInt (port_field (get p ''from_output_index''))), (''to_input_index'', PInt (port_field (get p ''to_input_index''))),
       (''_runtime_owner_id'', PStr (qe_owner E))]
     @ (case access of
          Some (client, user, role, ip) \<Rightarrow> [(''_access_client_id'', PStr client), (''_access_username'', PStr user), (''_access_role'', PStr role), (''_access_ip'', PStr ip)]
        | None \<Rightarrow> concat (map (text_field p) [''_access_client_id'', ''_access_username'', ''_access_role'', ''_access_ip'']))
     @ text_field p ''link_id''
     @ (case optional_text p ''from'' of None \<Rightarrow> [] | Some s \<Rightarrow> [(''from'', PStr (qe_sanitize E (py_str (get p ''from''))))])
     @ text_field p ''source'' @ text_field p ''idempotency_key''"

text \<open>The new store and whether the item was a duplicate.\<close>

definition enqueue_node_instance_pending ::
    "queue_env \<Rightarrow> (string \<times> string \<times> string \<times> string) option \<Rightarrow> string \<Rightarrow> pydict \<Rightarrow> runtime_store \<Rightarrow> (queue_error, runtime_store \<times> bool) res" where
  "enqueue_node_instance_pending E access node p st =
     (if qe_path E node = [] then Inl (QueueHttp 404)
      else if is_none (get p ''payload'') then Inl (QueueHttp 400)
      else case node_op (qe_rt E) (qe_path E node) (AppendPending (PDict (pending_item E access p))) st of
        Inl NodeDeleting \<Rightarrow> Inl (QueueHttp 409)
      | Inl e \<Rightarrow> Inl (QueueError e)
      | Inr (st', appended) \<Rightarrow> Inr (st', \<not> truthy appended))"

section \<open>Polling\<close>

type_synonym cron_service = "cron_db \<times> runtime_store \<times> (string \<rightharpoonup> rat)"

definition cron_payload :: "(run \<Rightarrow> pyval) \<Rightarrow> run \<Rightarrow> pydict" where
  "cron_payload message r = [(''payload'', message r), (''source'', PStr ''cron''), (''trace_id'', PStr (r_id r)),
     (''idempotency_key'', PStr (r_id r)), (''_access_role'', PStr (r_role r))]"

definition deliver_item :: "queue_env \<Rightarrow> (run \<Rightarrow> pyval) \<Rightarrow> run \<Rightarrow> runtime_store \<Rightarrow> (queue_error, runtime_store \<times> bool) res" where
  "deliver_item E message r st =
     (if qe_path E (r_node r) = [] then Inl (QueueHttp 404)
      else if get (env_config (qe_rt E) (qe_path E (r_node r))) ''type_id'' \<noteq> PStr ''agent_node'' then Inl NotAgentNode
      else enqueue_node_instance_pending E None (r_node r) (cron_payload message r) st)"

text \<open>\<open>clk\<close> is the monotonic clock when a run is handled, \<open>stop\<close> whether the service has been asked to stop by
  then, \<open>describe\<close> the text of an exception.\<close>

definition deliver_run ::
    "queue_env \<Rightarrow> (run \<Rightarrow> pyval) \<Rightarrow> (queue_error \<Rightarrow> string) \<Rightarrow> (run \<Rightarrow> rat) \<Rightarrow> run \<Rightarrow> cron_service \<Rightarrow> cron_service" where
  "deliver_run E message describe clk r s = (let (db, st, retry) = s in
     if clk r < (case retry (r_id r) of None \<Rightarrow> 0 | Some t \<Rightarrow> t) then s
     else case deliver_item E message r st of
       Inl e \<Rightarrow> (delivery_error (r_id r) (describe e) db, st, retry(r_id r \<mapsto> clk r + 10))
     | Inr (st', dup) \<Rightarrow> (db, st', retry(r_id r := None)))"

definition poll_graph ::
    "croniter \<Rightarrow> (string \<Rightarrow> string) \<Rightarrow> rat \<Rightarrow> queue_env \<Rightarrow> (run \<Rightarrow> pyval) \<Rightarrow> (queue_error \<Rightarrow> string) \<Rightarrow> (run \<Rightarrow> rat) \<Rightarrow> (run \<Rightarrow> bool) \<Rightarrow> cron_service
       \<Rightarrow> cron_service cron_res" where
  "poll_graph cn uuid now E message describe clk stop s = (let (db, st, retry) = s in
     rbind (materialize_due cn uuid now db) (\<lambda>db'.
     Inr (fold (deliver_run E message describe clk) (takeWhile (\<lambda>r. \<not> stop r) (pending_runs db')) (db', st, retry))))"

section \<open>Keys of delivered items\<close>

lemma key_of_cron_item: "key_of (pending_item E None (cron_payload message r)) = py_strip (r_id r)"
  by (simp add: pending_item_def cron_payload_def text_field_def optional_text_def key_of_def text_of_def str_or_def getd_def)

lemma idem_key_cron_item: "idem_key (PDict (pending_item E None (cron_payload message r))) = py_strip (r_id r)"
  using key_of_cron_item by (simp add: idem_key_def key_of_def)

lemma deliver_item_Inr:
  assumes "deliver_item E message r st = Inr (st', dup)"
  obtains v where "qe_path E (r_node r) \<noteq> []"
    "node_op (qe_rt E) (qe_path E (r_node r)) (AppendPending (PDict (pending_item E None (cron_payload message r)))) st = Inr (st', v)"
  using assms by (auto simp: deliver_item_def enqueue_node_instance_pending_def split: if_splits sum.splits rt_error.splits)

text \<open>A delivered run is known to its node, and delivering a known run changes no queue.\<close>

lemma delivered_known:
  assumes "deliver_item E message r st = Inr (st', dup)" "store_ok st" "py_strip (r_id r) \<noteq> []"
  shows "store_ok st' \<and> known_key (py_strip (r_id r)) (node_view (qe_rt E) (qe_path E (r_node r)) st')"
proof -
  obtain v where path: "qe_path E (r_node r) \<noteq> []" and n: "node_op (qe_rt E) (qe_path E (r_node r))
      (AppendPending (PDict (pending_item E None (cron_payload message r)))) st = Inr (st', v)"
    using deliver_item_Inr [OF assms(1)] by blast
  show ?thesis using node_op_simulates [OF assms(2) path, of "qe_rt E" "AppendPending (PDict (pending_item E None (cron_payload message r)))"] n assms(3)
    by (auto simp: idem_key_cron_item known_key_def key_of_cron_item split: if_splits)
qed

lemma redelivery_unchanged:
  assumes "deliver_item E message r st = Inr (st', dup)" "store_ok st" "py_strip (r_id r) \<noteq> []"
    and "known_key (py_strip (r_id r)) (node_view (qe_rt E) (qe_path E (r_node r)) st)"
  shows "view (item_of st' k) = view (item_of st k)"
proof -
  obtain v where path: "qe_path E (r_node r) \<noteq> []" and n: "node_op (qe_rt E) (qe_path E (r_node r))
      (AppendPending (PDict (pending_item E None (cron_payload message r)))) st = Inr (st', v)"
    using deliver_item_Inr [OF assms(1)] by blast
  show ?thesis using node_op_simulates [OF assms(2) path, of "qe_rt E" "AppendPending (PDict (pending_item E None (cron_payload message r)))"] n assms(3,4)
    by (cases "k = env_key (qe_rt E) (qe_path E (r_node r))") (auto simp: idem_key_cron_item split: if_splits)
qed

text \<open>Delivery fails only for the reasons the code names.\<close>

lemma deliver_item_succeeds:
  assumes "store_ok st" "qe_path E (r_node r) \<noteq> []" "get (env_config (qe_rt E) (qe_path E (r_node r))) ''type_id'' = PStr ''agent_node''"
    and "message r \<noteq> PNone" "\<not> nq_delete (node_view (qe_rt E) (qe_path E (r_node r)) st)"
  shows "\<exists>st' dup. deliver_item E message r st = Inr (st', dup)"
proof -
  obtain st' v where "node_op (qe_rt E) (qe_path E (r_node r)) (AppendPending (PDict (pending_item E None (cron_payload message r)))) st = Inr (st', v)"
    using node_op_simulates [OF assms(1,2), of "qe_rt E" "AppendPending (PDict (pending_item E None (cron_payload message r)))"] assms(5)
    by (auto split: if_splits)
  moreover have "get (cron_payload message r) ''payload'' = message r" by (simp add: cron_payload_def)
  ultimately show ?thesis using assms(2-4) by (cases "message r") (simp_all add: deliver_item_def enqueue_node_instance_pending_def)
qed

lemma deliver_run_store: "deliver_run E message describe clk r (db, st, retry) = (db', st', retry') \<Longrightarrow>
  st' = st \<or> (\<exists>dup. deliver_item E message r st = Inr (st', dup))"
  by (auto simp: deliver_run_def Let_def split: if_splits sum.splits)

text \<open>Deliveries add work and take none away, and mark no node for deletion.\<close>

definition queues_grow :: "runtime_store \<Rightarrow> runtime_store \<Rightarrow> bool" where
  "queues_grow st st' \<longleftrightarrow> store_ok st' \<and> (\<forall>k. nq_delete (view (item_of st' k)) = nq_delete (view (item_of st k))
     \<and> (\<forall>i. known_key i (view (item_of st k)) \<longrightarrow> known_key i (view (item_of st' k))))"

lemma append_grows:
  assumes ok: "store_ok st" and path: "path \<noteq> []" and n: "node_op env path (AppendPending item) st = Inr (st', v)"
  shows "queues_grow st st'"
proof -
  let ?q = "node_view env path st" and ?q' = "node_view env path st'"
  have "store_ok st' \<and> (\<forall>k. k \<noteq> env_key env path \<longrightarrow> item_of st' k = item_of st k)
      \<and> (?q' = ?q \<or> ?q' = (tick ?q)\<lparr>nq_pending := nq_pending ?q @ [dict_items item]\<rparr>)"
    using node_op_simulates [OF ok path, of env "AppendPending item"] n by (auto split: if_splits)
  moreover from this have "nq_delete ?q' = nq_delete ?q" "known_key i ?q \<Longrightarrow> known_key i ?q'" for i
    by (auto simp: tick_def known_key_def)
  ultimately show ?thesis unfolding queues_grow_def by metis
qed

lemma deliver_item_grows: "deliver_item E message r st = Inr (st', dup) \<Longrightarrow> store_ok st \<Longrightarrow> queues_grow st st'"
  using append_grows by (blast elim: deliver_item_Inr)

lemma queues_grow_refl: "store_ok st \<Longrightarrow> queues_grow st st"
  by (simp add: queues_grow_def)

lemma queues_grow_trans: "queues_grow st st' \<Longrightarrow> queues_grow st' st'' \<Longrightarrow> queues_grow st st''"
  by (simp add: queues_grow_def)

lemma deliver_run_grows:
  assumes "deliver_run E message describe clk r (db, st, retry) = (db', st', retry')" "store_ok st"
  shows "queues_grow st st'" "i \<noteq> r_id r \<Longrightarrow> retry' i = retry i"
proof -
  show "queues_grow st st'" using deliver_run_store [OF assms(1)] assms(2) deliver_item_grows queues_grow_refl by blast
  show "i \<noteq> r_id r \<Longrightarrow> retry' i = retry i"
    using assms(1) by (cases "deliver_item E message r st") (auto simp: deliver_run_def Let_def split: if_splits)
qed

lemma deliver_runs_grow:
  assumes "fold (deliver_run E message describe clk) rs (db, st, retry) = (db', st', retry')" "store_ok st"
  shows "queues_grow st st' \<and> (\<forall>i. i \<notin> r_id ` set rs \<longrightarrow> retry' i = retry i)"
  using assms
proof (induction rs arbitrary: db st retry)
  case Nil
  then show ?case by (simp add: queues_grow_refl)
next
  case (Cons r rs)
  obtain db1 st1 retry1 where r: "deliver_run E message describe clk r (db, st, retry) = (db1, st1, retry1)" by (rule prod_cases3)
  note first = deliver_run_grows [OF r Cons.prems(2)]
  have "queues_grow st1 st' \<and> (\<forall>i. i \<notin> r_id ` set rs \<longrightarrow> retry' i = retry1 i)"
    using Cons.IH [of db1 st1 retry1] Cons.prems(1) r first by (simp add: queues_grow_def)
  then show ?case using first queues_grow_trans by auto
qed

section \<open>Starting a run\<close>

definition settled :: "string \<Rightarrow> cron_db \<Rightarrow> bool" where
  "settled i db \<longleftrightarrow> (\<forall>r \<in> set (db_runs db). r_id r = i \<longrightarrow> r_status r \<noteq> CronModel.Pending)"

text \<open>Commands that neither put interrupted runs back nor reuse the identifier.\<close>

fun leaves_settled :: "string \<Rightarrow> cron_cmd \<Rightarrow> bool" where
  "leaves_settled i Recover = False"
| "leaves_settled i (Materialize uuid) = (\<forall>j. ''cron-'' @ uuid j \<noteq> i)"
| "leaves_settled i _ = True"

lemma settled_due_row:
  assumes "due_row cn uuid now row db = Inr db'" "settled i db" "''cron-'' @ uuid (j_id row) \<noteq> i"
  shows "settled i db'"
  using assms(1) by (cases rule: due_row_cases) (use assms(2,3) in \<open>auto simp: settled_def due_run_def\<close>)

lemma settled_step:
  assumes d: "settled i db" and s: "cron_step cn now c db = Inr db'" and c: "leaves_settled i c"
  shows "settled i db'"
proof (cases c)
  case (Create uuid node spec role)
  then show ?thesis using s d by (auto simp: cron_create_def settled_def split: if_splits option.splits)
next
  case (Update node spec role)
  then show ?thesis using s d
    by (auto simp: cron_update_def settled_def updated_runs_def cancel_pending_def pending_of_def set_sql_update Let_def split: if_splits)
next
  case (Materialize uuid)
  then have f: "rfold (due_row cn uuid now) (filter (job_due now) (db_jobs db)) db = Inr db'" using s by (simp add: materialize_due_def)
  show ?thesis by (intro rfold_invariant [OF f, of "settled i"]) (use d settled_due_row c Materialize in auto)
qed (use s d c in \<open>auto simp: settled_def cron_delete_def cancel_pending_def begin_run_def finish_run_def
    delivery_error_def cron_node_departure_def cron_node_rename_def set_sql_update split: if_splits option.splits\<close>)

lemma settled_run: "settled i db \<Longrightarrow> list_all (\<lambda>tc. leaves_settled i (snd tc)) cs \<Longrightarrow> settled i (run_cron cn cs db)"
proof (induction cs arbitrary: db)
  case (Cons tc cs)
  then have "settled i (commit_cron cn tc db)" by (auto simp: commit_cron_def dest: settled_step split: sum.splits)
  then show ?case using Cons by (simp add: run_cron_def)
qed (simp add: run_cron_def)

lemma begin_settled:
  assumes "settled i db"
  shows "begin_run i node now db = (db, None)"
proof -
  have "List.find (\<lambda>r. r_id r = i \<and> r_node r = node \<and> r_status r = CronModel.Pending) (db_runs db) = None"
    using assms by (auto simp: find_None_iff settled_def)
  then show ?thesis by (simp add: begin_run_def)
qed

lemma settled_begin:
  assumes "begin_run i node now db = (db', Some r)"
  shows "settled i db'"
proof -
  let ?f = "List.find (\<lambda>r. r_id r = i \<and> r_node r = node \<and> r_status r = CronModel.Pending) (db_runs db)"
  obtain r' where "?f = Some r'" using assms by (cases ?f) (simp_all add: begin_run_def)
  then have "db' = db\<lparr>db_runs := sql_update (\<lambda>r. r_id r = i)
      (\<lambda>r. r\<lparr>r_status := CronModel.Running, r_started := Some now, r_error := None\<rparr>) (db_runs db)\<rparr>"
    using assms by (simp add: begin_run_def)
  then show ?thesis by (simp add: settled_def set_sql_update del: if_image_distrib)
qed

section \<open>Properties\<close>

text \<open>C15. A poll leaves every pending run queued: when it returns without being stopped, a pending run that is not
  waiting for a retry and whose target is a live agent is known to its node, waiting, in flight or
  handled, whatever deliveries of other runs failed.\<close>

theorem poll_queues_pending_runs:
  assumes ok: "store_ok st" and due: "materialize_due cn uuid now db = Inr db1" and uniq: "distinct (map r_id (db_runs db1))"
    and r: "r \<in> set (db_runs db1)" "r_status r = CronModel.Pending" and id: "py_strip (r_id r) \<noteq> []"
    and target: "qe_path E (r_node r) \<noteq> []" "get (env_config (qe_rt E) (qe_path E (r_node r))) ''type_id'' = PStr ''agent_node''"
      "message r \<noteq> PNone" "\<not> nq_delete (node_view (qe_rt E) (qe_path E (r_node r)) st)"
    and retry: "(case retry (r_id r) of None \<Rightarrow> 0 | Some t \<Rightarrow> t) \<le> clk r"
  shows "\<exists>db' st' retry'. poll_graph cn uuid now E message describe clk (\<lambda>_. False) (db, st, retry) = Inr (db', st', retry')
    \<and> store_ok st' \<and> known_key (py_strip (r_id r)) (node_view (qe_rt E) (qe_path E (r_node r)) st')"
proof -
  let ?d = "deliver_run E message describe clk"
  obtain pre post where split: "pending_runs db1 = pre @ r # post"
    using split_list [of r "pending_runs db1"] r by (auto simp: pending_runs_def)
  have "distinct (map r_id (pending_runs db1))" using uniq
    by (auto simp: pending_runs_def distinct_map intro: inj_on_subset)
  then have fresh: "r_id r \<notin> r_id ` set pre" unfolding split by auto
  obtain dba sta ra where pre: "fold ?d pre (db1, st, retry) = (dba, sta, ra)" by (rule prod_cases3)
  note before = deliver_runs_grow [OF pre ok]
  then have "store_ok sta" and live: "\<not> nq_delete (node_view (qe_rt E) (qe_path E (r_node r)) sta)" and same: "ra (r_id r) = retry (r_id r)"
    using target(4) fresh by (auto simp: queues_grow_def)
  then obtain stb dup where item: "deliver_item E message r sta = Inr (stb, dup)"
    using deliver_item_succeeds [of sta E r message] target(1-3) by blast
  then have own: "?d r (dba, sta, ra) = (dba, stb, ra(r_id r := None))" using retry same by (auto simp: deliver_run_def)
  note known = delivered_known [OF item \<open>store_ok sta\<close> id]
  obtain dbc stc rc where post: "fold ?d post (dba, stb, ra(r_id r := None)) = (dbc, stc, rc)" by (rule prod_cases3)
  have "poll_graph cn uuid now E message describe clk (\<lambda>_. False) (db, st, retry) = Inr (dbc, stc, rc)"
    using due pre own post by (simp add: poll_graph_def split takeWhile_eq_all_conv [THEN iffD2])
  then show ?thesis using deliver_runs_grow [OF post] known by (auto simp: queues_grow_def)
qed

definition sample_queue_env :: queue_env where
  "sample_queue_env = \<lparr>qe_rt = sample_env, qe_path = id, qe_owner = ''o'', qe_uuid = ''u'', qe_envelope = id, qe_sanitize = id\<rparr>"

definition sample_pending_run :: run where
  "sample_pending_run = \<lparr>r_id = ''r'', r_job = ''j'', r_node = ''n'', r_name = ''a'', r_prompt = ''b'', r_role = ''developer'',
     r_scheduled = 60, r_status = CronModel.Pending, r_started = None, r_finished = None, r_error = None\<rparr>"

lemma poll_queues_pending_runs_witness:
  "\<exists>db' st' retry'. poll_graph sample_cron id 60 sample_queue_env (PStr \<circ> r_prompt) (\<lambda>_. ''e'') (\<lambda>_. 0) (\<lambda>_. False)
       (\<lparr>db_jobs = [], db_runs = [sample_pending_run]\<rparr>, empty_store, Map.empty) = Inr (db', st', retry')
     \<and> store_ok st' \<and> known_key ''r'' (node_view sample_env ''n'' st')"
proof -
  let ?db = "\<lparr>db_jobs = [], db_runs = [sample_pending_run]\<rparr>"
  have id: "py_strip (r_id sample_pending_run) = ''r''" by (simp add: sample_pending_run_def strip_eval)
  have due: "materialize_due sample_cron id 60 ?db = Inr ?db" by (simp add: materialize_due_def)
  have live: "\<not> nq_delete (node_view sample_env (r_node sample_pending_run) empty_store)" by (simp add: sample_pending_run_def view_empty)
  have "\<exists>db' st' retry'. poll_graph sample_cron id 60 sample_queue_env (PStr \<circ> r_prompt) (\<lambda>_. ''e'') (\<lambda>_. 0) (\<lambda>_. False)
       (?db, empty_store, Map.empty) = Inr (db', st', retry') \<and> store_ok st'
     \<and> known_key (py_strip (r_id sample_pending_run))
         (node_view (qe_rt sample_queue_env) (qe_path sample_queue_env (r_node sample_pending_run)) st')"
    by (rule poll_queues_pending_runs [OF store_ok_empty due])
      (simp_all add: id live sample_queue_env_def, simp_all add: sample_pending_run_def sample_env_def)
  then show ?thesis unfolding id by (simp add: sample_queue_env_def sample_pending_run_def)
qed

text \<open>However often the poll meets a run, it is queued once: after a run was delivered without an error,
  and after any interleaving of queue operations that keeps the work of its node, delivering it again,
  also with an edited prompt or role, changes the queue of no node.\<close>

lemma cron_run_queued_once:
  assumes ok: "store_ok st" and id: "py_strip (r_id r) \<noteq> []" and clk: "0 \<le> clk r"
    and first: "deliver_run E message describe clk r (db, st, retry) = (db1, st1, retry1)" and sent: "retry1 (r_id r) = None"
    and run: "kept_run (env_key (qe_rt E) (qe_path E (r_node r))) cs st1"
    and same: "r_id r' = r_id r" "r_node r' = r_node r" "qe_path E' = qe_path E" "env_key (qe_rt E') = env_key (qe_rt E)"
    and again: "deliver_run E' message' describe clk' r' (db2, fold commit_call cs st1, retry2) = (db3, st3, retry3)"
  shows "view (item_of st3 k) = view (item_of (fold commit_call cs st1) k)"
proof -
  let ?st2 = "fold commit_call cs st1" and ?k = "env_key (qe_rt E) (qe_path E (r_node r))"
  obtain dup where "deliver_item E message r st = Inr (st1, dup)"
    using first sent clk by (auto simp: deliver_run_def Let_def split: if_splits sum.splits)
  note known = delivered_known [OF this ok id]
  have ok2: "store_ok ?st2" using known node_calls.run_inv [of st1 cs] node_calls.guarded_trivial by (simp add: commit_call_eq)
  have "known_key (py_strip (r_id r)) (view (item_of ?st2 ?k))" using kept_run_work [OF _ run] known by (auto intro: known_key_mono)
  then show ?thesis using deliver_run_store [OF again] redelivery_unchanged [OF _ ok2, of E' message' r' st3 _ k] id same by auto
qed

lemma sample_first_delivery:
  obtains st1 where "deliver_run sample_queue_env (PStr \<circ> r_prompt) (\<lambda>_. ''e'') (\<lambda>_. 0) sample_pending_run (db, empty_store, Map.empty)
    = (db, st1, Map.empty)"
proof -
  have "\<exists>st1 dup. deliver_item sample_queue_env (PStr \<circ> r_prompt) sample_pending_run empty_store = Inr (st1, dup)"
    by (rule deliver_item_succeeds)
      (simp_all add: sample_queue_env_def sample_pending_run_def view_empty, simp add: sample_env_def)
  then show ?thesis using that by (auto simp: deliver_run_def sample_pending_run_def)
qed

lemma cron_run_queued_once_witness:
  "\<exists>st1 st3. deliver_run sample_queue_env (PStr \<circ> r_prompt) (\<lambda>_. ''e'') (\<lambda>_. 0) sample_pending_run (empty_cron, empty_store, Map.empty)
       = (empty_cron, st1, Map.empty)
     \<and> fst (snd (deliver_run sample_queue_env (PStr \<circ> r_prompt) (\<lambda>_. ''e'') (\<lambda>_. 1) (sample_pending_run\<lparr>r_prompt := ''c''\<rparr>) (empty_cron, st1, Map.empty))) = st3
     \<and> view (item_of st3 ''n'') = view (item_of st1 ''n'')"
proof -
  obtain st1 where st1: "deliver_run sample_queue_env (PStr \<circ> r_prompt) (\<lambda>_. ''e'') (\<lambda>_. 0) sample_pending_run
      (empty_cron, empty_store, Map.empty) = (empty_cron, st1, Map.empty)" by (rule sample_first_delivery)
  obtain db3 st3 retry3 where again: "deliver_run sample_queue_env (PStr \<circ> r_prompt) (\<lambda>_. ''e'') (\<lambda>_. 1)
      (sample_pending_run\<lparr>r_prompt := ''c''\<rparr>) (empty_cron, fold commit_call [] st1, Map.empty) = (db3, st3, retry3)" by (rule prod_cases3)
  have "py_strip (r_id sample_pending_run) \<noteq> []" by (simp add: sample_pending_run_def strip_eval)
  then have "view (item_of st3 ''n'') = view (item_of (fold commit_call [] st1) ''n'')"
    by (intro cron_run_queued_once [OF store_ok_empty _ _ st1 _ _ _ _ _ _ again]) (simp_all add: sample_pending_run_def)
  then show ?thesis using st1 again by auto
qed

text \<open>A run is started at most once per recovery: after a node has started a run, no sequence of cron operations
  without a recovery lets any node start it again, whatever copies of its item are still queued.\<close>

lemma cron_run_started_once:
  assumes "begin_run i node t db = (db1, Some r)" and "list_all (\<lambda>tc. leaves_settled i (snd tc)) cs"
  shows "begin_run i node' t' (run_cron cn cs db1) = (run_cron cn cs db1, None)"
  using begin_settled [OF settled_run [OF settled_begin [OF assms(1)] assms(2)]] .

lemma cron_run_started_once_witness:
  "\<exists>db1. begin_run ''r'' ''n'' 60 \<lparr>db_jobs = [], db_runs = [sample_pending_run]\<rparr> = (db1, Some sample_pending_run)
     \<and> begin_run ''r'' ''n'' 62 (run_cron sample_cron [(61, Finish ''r'' None)] db1) = (run_cron sample_cron [(61, Finish ''r'' None)] db1, None)"
proof -
  let ?db = "\<lparr>db_jobs = [], db_runs = [sample_pending_run]\<rparr>"
  have "begin_run ''r'' ''n'' 60 ?db = (fst (begin_run ''r'' ''n'' 60 ?db), Some sample_pending_run)"
    by (simp add: begin_run_def sample_pending_run_def)
  then show ?thesis using cron_run_started_once [of "''r''" "''n''" 60 ?db _ sample_pending_run "[(61, Finish ''r'' None)]" "''n''" 62 sample_cron]
    by auto
qed

end
