(* ===== verification/NodeConfig.thy ===== *)
theory NodeConfig
  imports GridLayout QueueLaws
begin

text \<open>
  The configuration of a node (\<open>web_backend/node_config_service.py\<close>): a JSON file whose runtime
  fields live in the runtime store. Reading merges the two, writing splits them again. An update reads,
  changes and writes back in two steps; the lock it holds in between is that of the path in its own queue,
  not the one of the runtime store.
\<close>

section \<open>State and errors\<close>

text \<open>The files hold the values that \<open>json.load\<close> returns; \<open>ce_abspath\<close> is \<open>os.path.abspath\<close>.\<close>

record config_env =
  ce_rt :: rt_env
  ce_abspath :: "string \<Rightarrow> string"

record config_state =
  cs_files :: "pyval dict"
  cs_runtime :: runtime_store

datatype config_error = NodeConfigRead | NodeConfigNotFound | NodeConfigFormat string | NodeConfigWrite string
  | RuntimeContract rt_error | ConfigValue string | GridError grid_error

type_synonym 'a config_res = "(config_error, 'a) res"

fun lift_rt :: "(rt_error, 'a) res \<Rightarrow> 'a config_res" where
  "lift_rt (Inl e) = Inl (RuntimeContract e)" | "lift_rt (Inr a) = Inr a"

fun lift_grid :: "'a grid_res \<Rightarrow> 'a config_res" where
  "lift_grid (Inl e) = Inl (GridError e)" | "lift_grid (Inr a) = Inr a"

fun as_write_error :: "'a config_res \<Rightarrow> 'a config_res" where
  "as_write_error (Inl e) = Inl (NodeConfigWrite ''failed to write node config'')" | "as_write_error (Inr a) = Inr a"

text \<open>The handler of \<open>_read_config_payload_optional\<close>: a format error becomes a read error.\<close>

fun as_read_error :: "'a config_res \<Rightarrow> 'a config_res" where
  "as_read_error (Inl (NodeConfigFormat m)) = Inl NodeConfigRead" | "as_read_error r = r"

section \<open>Checks\<close>

definition NODE_CONFIG_SCHEMA_VERSION :: int where
  "NODE_CONFIG_SCHEMA_VERSION = 1"

definition CAPABILITY_FIELDS :: "string list" where
  "CAPABILITY_FIELDS = [''tools'', ''mcp_servers'', ''skills'', ''plugins'']"

definition RESERVED_NODE_CONFIG_FIELDS :: "string list" where
  "RESERVED_NODE_CONFIG_FIELDS = [''schemaVersion'', ''node_id'', ''type_id'', ''name'', ''graph_id'', ''private'', ''state'', ''ui'',
     ''pending'', ''pending_count'', ''inflight'', ''inflight_at'', ''_stop_requested'', ''schema'', ''last_message'',
     ''last_output_resources'', ''last_runtime_event'', ''runtime_events'', ''runtime_tool_calls'', ''node_event_seq'',
     ''last_run_at'', ''completed_requests'', ''last_completed_request'', ''input_num'', ''output_num'']"

definition normalize_config_path :: "config_env \<Rightarrow> string \<Rightarrow> string config_res" where
  "normalize_config_path E config_path =
     (if py_strip config_path = [] then Inl NodeConfigRead else Inr (ce_abspath E (py_strip config_path)))"

definition migrate_config :: "pydict \<Rightarrow> pydict config_res" where
  "migrate_config payload = (case get payload ''schemaVersion'' of
      PNone \<Rightarrow> Inr (dict_set ''schemaVersion'' (PInt NODE_CONFIG_SCHEMA_VERSION) payload)
    | PInt version \<Rightarrow>
        if version < 1 then Inl (NodeConfigFormat ''schemaVersion must be >= 1'')
        else if version > NODE_CONFIG_SCHEMA_VERSION then Inl (NodeConfigFormat ''unsupported schemaVersion'')
        else Inr payload
    | _ \<Rightarrow> Inl (NodeConfigFormat ''schemaVersion must be an integer''))"

text \<open>\<open>knowledge_ids\<close> of \<open>knowledge/node_access.py\<close>.\<close>

definition knowledge_ids :: "pyval \<Rightarrow> string list option" where
  "knowledge_ids v = (case v of
      PList xs \<Rightarrow> if list_all (\<lambda>x. case x of PStr s \<Rightarrow> py_strip s \<noteq> [] \<and> s = py_strip s | _ \<Rightarrow> False) xs
        then Some (rev (remdups (rev (map py_str xs)))) else None
    | _ \<Rightarrow> None)"

definition capability_ok :: "pydict \<Rightarrow> string \<Rightarrow> bool" where
  "capability_ok config field \<longleftrightarrow> (case get config field of
      PNone \<Rightarrow> True | PStr [] \<Rightarrow> True | PList xs \<Rightarrow> list_all is_str xs | _ \<Rightarrow> False)"

definition validate_capability_fields :: "pydict \<Rightarrow> unit config_res" where
  "validate_capability_fields config =
     (if dict_has config ''knowledge_ids'' \<and> knowledge_ids (get config ''knowledge_ids'') = None
      then Inl (NodeConfigFormat ''knowledge_ids must be a list of nonblank library IDs'')
      else if \<not> list_all (capability_ok config) CAPABILITY_FIELDS then Inl (NodeConfigFormat ''node config field must be a list of strings'')
      else Inr ())"

section \<open>Reading\<close>

definition with_runtime_state :: "config_env \<Rightarrow> string \<Rightarrow> pydict \<Rightarrow> config_state \<Rightarrow> pydict config_res" where
  "with_runtime_state E config_path config s = rbind (normalize_config_path E config_path) (\<lambda>path.
     lift_rt (merge_runtime (ce_rt E) (cs_runtime s) path config))"

definition with_runtime_fields :: "config_env \<Rightarrow> string \<Rightarrow> pydict \<Rightarrow> pyval list \<Rightarrow> config_state \<Rightarrow> pydict config_res" where
  "with_runtime_fields E config_path config requested s = rbind (normalize_config_path E config_path) (\<lambda>path.
     rbind (lift_rt (snapshot_fields (ce_rt E) (cs_runtime s) path requested True)) (\<lambda>runtime.
     Inr (dict_update runtime (filter (\<lambda>(k, v). k \<notin> set RUNTIME_STATE_FIELDS) config))))"

definition read_persistent_strict :: "config_env \<Rightarrow> string \<Rightarrow> config_state \<Rightarrow> pydict config_res" where
  "read_persistent_strict E config_path s = rbind (normalize_config_path E config_path) (\<lambda>path.
     case map_of (cs_files s) path of
       None \<Rightarrow> Inl NodeConfigNotFound
     | Some (PDict payload) \<Rightarrow> migrate_config payload
     | Some _ \<Rightarrow> Inl (NodeConfigFormat ''node config must be a JSON object''))"

definition read_strict :: "config_env \<Rightarrow> string \<Rightarrow> config_state \<Rightarrow> pydict config_res" where
  "read_strict E config_path s = rbind (normalize_config_path E config_path) (\<lambda>path.
     rbind (read_persistent_strict E path s) (\<lambda>config. with_runtime_state E path config s))"

text \<open>The existence test of \<open>read_optional_object\<close> is on the path as given, relative to the working directory.\<close>

definition read_optional_object :: "config_env \<Rightarrow> string \<Rightarrow> config_state \<Rightarrow> pydict config_res" where
  "read_optional_object E config_path s = (let path = py_strip config_path in
     if path = [] \<or> \<not> dict_has (cs_files s) (ce_abspath E path) then Inr [] else read_strict E path s)"

section \<open>Writing\<close>

definition own_fields :: "pydict \<Rightarrow> pydict" where
  "own_fields payload = filter (\<lambda>(k, v). k \<notin> set RUNTIME_STATE_FIELDS) payload"

definition versioned :: "pydict \<Rightarrow> pydict" where
  "versioned config = (if dict_has config ''schemaVersion'' then config
     else dict_set ''schemaVersion'' (PInt NODE_CONFIG_SCHEMA_VERSION) config)"

definition read_config_payload_optional :: "string \<Rightarrow> config_state \<Rightarrow> pydict option config_res" where
  "read_config_payload_optional path s = (case map_of (cs_files s) path of
      None \<Rightarrow> Inr None
    | Some (PDict payload) \<Rightarrow> as_read_error (rbind (migrate_config payload) (\<lambda>migrated.
        rbind (lift_rt (split_payload migrated)) (\<lambda>(config, runtime). Inr (Some (versioned config)))))
    | Some _ \<Rightarrow> Inl NodeConfigRead)"

definition same_config :: "pydict option \<Rightarrow> pydict \<Rightarrow> bool" where
  "same_config current config \<longleftrightarrow> (case current of None \<Rightarrow> False | Some c \<Rightarrow> py_eq (PDict c) (PDict config))"

definition do_write :: "config_env \<Rightarrow> string \<Rightarrow> pydict \<Rightarrow> pydict \<Rightarrow> config_state \<Rightarrow> config_state config_res" where
  "do_write E path config runtime s = as_write_error (rbind (read_config_payload_optional path s) (\<lambda>current.
     let s1 = (if same_config current config then s else s\<lparr>cs_files := dict_set path (PDict config) (cs_files s)\<rparr>) in
     rbind (lift_rt (replace (ce_rt E) path runtime (cs_runtime s1))) (\<lambda>rt. Inr (s1\<lparr>cs_runtime := rt\<rparr>))))"

definition config_write :: "config_env \<Rightarrow> string \<Rightarrow> pydict \<Rightarrow> config_state \<Rightarrow> config_state config_res" where
  "config_write E config_path payload s = rbind (normalize_config_path E config_path) (\<lambda>path.
     rbind (migrate_config payload) (\<lambda>normalized.
     rbind (lift_rt (split_payload normalized)) (\<lambda>(config, runtime).
     do_write E path (versioned config) runtime s)))"

definition patch_persistent_fields :: "config_env \<Rightarrow> string \<Rightarrow> pydict \<Rightarrow> config_state \<Rightarrow> (config_state \<times> pydict) config_res" where
  "patch_persistent_fields E config_path patch s = rbind (normalize_config_path E config_path) (\<lambda>path.
     if patch = [] then Inl (NodeConfigWrite ''persistent field patch must be a non-empty object'')
     else if list_ex (\<lambda>(k, v). k \<in> set RUNTIME_STATE_FIELDS) patch then Inl (NodeConfigWrite ''persistent field patch cannot contain runtime fields'')
     else rbind (read_config_payload_optional path s) (\<lambda>current. case current of
         None \<Rightarrow> Inl NodeConfigNotFound
       | Some c \<Rightarrow> let config = dict_update patch c in
           rbind (validate_capability_fields config) (\<lambda>_.
           Inr (if py_eq (PDict config) (PDict c) then s else s\<lparr>cs_files := dict_set path (PDict config) (cs_files s)\<rparr>, config))))"

section \<open>Updating\<close>

text \<open>A mutation returns the changed configuration and the value its closure returns.\<close>

type_synonym config_mutation = "pydict \<Rightarrow> (pydict \<times> pyval) config_res"

record change_result =
  cr_path :: string
  cr_before :: pydict
  cr_after :: pydict
  cr_changed :: "string list"
  cr_effective :: string
  cr_warnings :: "string list"

definition changed_fields :: "pydict \<Rightarrow> pydict \<Rightarrow> string list" where
  "changed_fields before after = sort (filter (\<lambda>k. \<not> py_eq (get before k) (get after k)) (remdups (dict_keys before @ dict_keys after)))"

definition supplied_warnings :: "pyval \<Rightarrow> string list" where
  "supplied_warnings v = (case v of PDict d \<Rightarrow> (case get d ''warnings'' of PList xs \<Rightarrow> map py_str xs | _ \<Rightarrow> []) | _ \<Rightarrow> [])"

text \<open>The two halves of \<open>update\<close>: up to the list of changed fields, and the write.\<close>

definition update_plan :: "config_env \<Rightarrow> string \<Rightarrow> config_mutation \<Rightarrow> string \<Rightarrow> config_state \<Rightarrow> change_result config_res" where
  "update_plan E config_path mutate effective s = rbind (normalize_config_path E config_path) (\<lambda>path.
     rbind (read_strict E path s) (\<lambda>before.
     rbind (mutate before) (\<lambda>(after, r).
     rbind (validate_capability_fields after) (\<lambda>_.
     Inr \<lparr>cr_path = path, cr_before = before, cr_after = after, cr_changed = changed_fields before after,
          cr_effective = effective, cr_warnings = supplied_warnings r\<rparr>))))"

definition update_commit :: "config_env \<Rightarrow> change_result \<Rightarrow> config_state \<Rightarrow> config_state config_res" where
  "update_commit E cr s = (if cr_changed cr = [] then Inr s else config_write E (cr_path cr) (cr_after cr) s)"

definition config_update ::
    "config_env \<Rightarrow> string \<Rightarrow> config_mutation \<Rightarrow> string \<Rightarrow> config_state \<Rightarrow> (config_state \<times> change_result) config_res" where
  "config_update E config_path mutate effective s = rbind (update_plan E config_path mutate effective s) (\<lambda>cr.
     rbind (update_commit E cr s) (\<lambda>s'. Inr (s', cr)))"

definition patchable :: "string \<Rightarrow> bool" where
  "patchable key \<longleftrightarrow> py_strip key \<noteq> [] \<and> key \<notin> set RESERVED_NODE_CONFIG_FIELDS"

text \<open>What \<open>_normalize_ui\<close> returns: sizes only where they were given.\<close>

definition grid_ui_val :: "grid_ui \<Rightarrow> pyval" where
  "grid_ui_val u = PDict ([(''grid_x'', PInt (gu_x u)), (''grid_y'', PInt (gu_y u))]
     @ (case gu_width u of None \<Rightarrow> [] | Some w \<Rightarrow> [(''width'', PInt w)]) @ (case gu_height u of None \<Rightarrow> [] | Some h \<Rightarrow> [(''height'', PInt h)]))"

text \<open>\<open>sync_ports\<close> and \<open>init_clock\<close> are the optional callbacks of the caller.\<close>

definition put_ui :: "pydict \<Rightarrow> pydict \<Rightarrow> pydict config_res" where
  "put_ui payload cfg = (if \<not> dict_has payload ''ui'' then Inr cfg
     else case get payload ''ui'' of
       PNone \<Rightarrow> Inr cfg
     | PDict ui \<Rightarrow> rbind (lift_grid (normalize_node_grid_ui (PDict ui))) (\<lambda>u. Inr (dict_set ''ui'' (grid_ui_val u) cfg))
     | _ \<Rightarrow> Inl (ConfigValue ''ui must be object''))"

definition webui_mutate ::
    "pydict \<Rightarrow> (string \<Rightarrow> pydict \<Rightarrow> pydict) option \<Rightarrow> (string \<Rightarrow> pydict \<Rightarrow> pydict) option \<Rightarrow> config_mutation" where
  "webui_mutate payload sync_ports init_clock cfg0 =
     (let cfg1 = dict_update (filter (\<lambda>(k, v). patchable k) (dict_items (get payload ''fields''))) cfg0;
          cfg2 = fold dict_pop (filter patchable (List.map_filter (\<lambda>k. case k of PStr s \<Rightarrow> Some s | _ \<Rightarrow> None) (list_items (get payload ''clear_fields'')))) cfg1 in
      rbind (put_ui payload cfg2) (\<lambda>cfg3.
      let cfg4 = dict_pop ''schema'' cfg3; type_id = text_of (get cfg4 ''type_id'');
          cfg5 = (case init_clock of Some f \<Rightarrow> if type_id = ''clock_node'' then f type_id cfg4 else cfg4 | None \<Rightarrow> cfg4);
          cfg6 = (case sync_ports of Some f \<Rightarrow> if type_id \<noteq> [] then f type_id cfg5 else cfg5 | None \<Rightarrow> cfg5)
      in Inr (cfg6, PNone)))"

definition apply_webui_payload ::
    "config_env \<Rightarrow> string \<Rightarrow> pydict \<Rightarrow> (string \<Rightarrow> pydict \<Rightarrow> pydict) option \<Rightarrow> (string \<Rightarrow> pydict \<Rightarrow> pydict) option \<Rightarrow> config_state
       \<Rightarrow> (config_state \<times> change_result) config_res" where
  "apply_webui_payload E config_path payload sync_ports init_clock s =
     (if \<not> is_none (get payload ''fields'') \<and> \<not> is_dict (get payload ''fields'') then Inl (ConfigValue ''fields must be object'')
      else if \<not> is_none (get payload ''clear_fields'') \<and> \<not> is_list (get payload ''clear_fields'') then Inl (ConfigValue ''clear_fields must be list'')
      else config_update E config_path (webui_mutate payload sync_ports init_clock) ''next_agent_run'' s)"

definition identity_mutate :: "string \<Rightarrow> string \<Rightarrow> string option \<Rightarrow> pydict option \<Rightarrow> bool \<Rightarrow> config_mutation" where
  "identity_mutate node_id graph_id name ui reset cfg =
     (let nm = (case name of Some n \<Rightarrow> if py_strip n \<noteq> [] then n else node_id | None \<Rightarrow> node_id);
          cfg1 = dict_set ''name'' (PStr nm) (dict_set ''graph_id'' (PStr graph_id) (dict_set ''node_id'' (PStr node_id) cfg)) in
      rbind (case ui of None \<Rightarrow> Inr cfg1
             | Some d \<Rightarrow> rbind (lift_grid (normalize_node_grid_ui (PDict d))) (\<lambda>u. Inr (dict_set ''ui'' (grid_ui_val u) cfg1))) (\<lambda>cfg2.
      Inr (if reset then dict_set ''state'' (PStr ''idle'') (fold dict_pop RUNTIME_STATE_FIELDS cfg2) else cfg2, PNone)))"

definition replace_node_identity ::
    "config_env \<Rightarrow> string \<Rightarrow> string \<Rightarrow> string \<Rightarrow> string option \<Rightarrow> pydict option \<Rightarrow> bool \<Rightarrow> config_state \<Rightarrow> (config_state \<times> change_result) config_res" where
  "replace_node_identity E config_path node_id graph_id name ui reset s =
     config_update E config_path (identity_mutate node_id graph_id name ui reset) ''next_agent_run'' s"

definition create_or_replace :: "config_env \<Rightarrow> string \<Rightarrow> pydict \<Rightarrow> config_state \<Rightarrow> config_state config_res" where
  "create_or_replace E config_path payload s = rbind (validate_capability_fields payload) (\<lambda>_. config_write E config_path payload s)"

end
