(* ===== verification/ConfigLaws.thy ===== *)
theory ConfigLaws
  imports NodeConfig
begin

text \<open>
  What reading, writing and updating of configurations guarantee, and what an update does to messages that
  arrive while it is under way.
\<close>

section \<open>Parts of a configuration\<close>

lemma map_of_own_fields: "map_of (own_fields p) k = (if k \<in> set RUNTIME_STATE_FIELDS then None else map_of p k)"
  using map_of_filter_key [of "\<lambda>k. k \<notin> set RUNTIME_STATE_FIELDS" p k] by (simp add: own_fields_def)

lemma own_fields_idem [simp]: "own_fields (own_fields p) = own_fields p"
  by (simp add: own_fields_def)

lemma own_fields_runtime: "fst ` set r \<subseteq> set RUNTIME_STATE_FIELDS \<Longrightarrow> own_fields r = []"
  by (force simp: own_fields_def filter_empty_conv)

lemma rt_valid_keep [simp]: "rt_valid (keep_runtime_fields p) = rt_valid p"
  by (simp add: rt_valid_def)

lemma norm_val_keep [simp]: "norm_val (keep_runtime_fields p) = norm_val p"
  by (simp add: norm_val_def keep_runtime_fields_def)

lemma split_payload_Inr: "split_payload p = Inr (c, r) \<longleftrightarrow> rt_valid p \<and> c = own_fields p \<and> r = norm_val p"
  by (auto simp: split_payload_def own_fields_def normalize_payload_Inr rbind_eq_Inr)

lemma lift_rt_Inr [simp]: "lift_rt r = Inr a \<longleftrightarrow> r = Inr a"
  by (cases r) simp_all

lemma as_write_error_Inr [simp]: "as_write_error r = Inr a \<longleftrightarrow> r = Inr a"
  by (cases r) simp_all

lemma as_read_error_Inr [simp]: "as_read_error r = Inr a \<longleftrightarrow> r = Inr a"
  by (cases r rule: as_read_error.cases) simp_all

lemma migrate_version: "migrate_config p = Inr q \<Longrightarrow> map_of q ''schemaVersion'' = Some (PInt 1)"
  by (auto simp: migrate_config_def NODE_CONFIG_SCHEMA_VERSION_def getd_def split: pyval.splits option.splits if_splits)

lemma version_migrated: "map_of q ''schemaVersion'' = Some (PInt 1) \<Longrightarrow> migrate_config q = Inr q"
  by (simp add: migrate_config_def NODE_CONFIG_SCHEMA_VERSION_def getd_def)

lemma schema_own [simp]: "''schemaVersion'' \<notin> set RUNTIME_STATE_FIELDS"
  by (simp add: RUNTIME_STATE_FIELDS_def)

lemma migrate_own: "migrate_config p = Inr q \<Longrightarrow> migrate_config (own_fields q) = Inr (own_fields q)"
  using migrate_version [of p q] by (intro version_migrated) (simp add: map_of_own_fields)

lemma versioned_own: "migrate_config p = Inr q \<Longrightarrow> versioned (own_fields q) = own_fields q"
  using migrate_version [of p q] by (simp add: versioned_def dict_has_iff map_of_own_fields)

lemma migrate_runtime: "migrate_config p = Inr q \<Longrightarrow> k \<noteq> ''schemaVersion'' \<Longrightarrow> map_of q k = map_of p k"
  by (auto simp: migrate_config_def split: pyval.splits if_splits)

lemma migrate_wf: "migrate_config p = Inr q \<Longrightarrow> wf_dict p \<Longrightarrow> wf_dict q"
  by (auto simp: migrate_config_def split: pyval.splits if_splits)

section \<open>Writing\<close>

definition config_at :: "config_env \<Rightarrow> string \<Rightarrow> string \<Rightarrow> bool" where
  "config_at E config_path path \<longleftrightarrow> normalize_config_path E config_path = Inr path \<and> normalize_config_path E path = Inr path"

text \<open>A write that gets as far as the file cannot fail at the runtime store.\<close>

lemma replace_split: "split_payload p = Inr (c, r) \<Longrightarrow> replace env path r st = Inr (put_item env (env_key env path) r st)"
  by (auto simp: split_payload_Inr replace_def)

lemma read_optional_Inr:
  "read_config_payload_optional path s = Inr (Some c) \<longleftrightarrow>
     (\<exists>d m. map_of (cs_files s) path = Some (PDict d) \<and> migrate_config d = Inr m \<and> rt_valid m \<and> c = own_fields m)"
  using versioned_own by (auto simp: read_config_payload_optional_def rbind_eq_Inr split_payload_Inr split: option.splits pyval.splits)

lemma config_write_Inr:
  assumes "config_write E config_path payload s = Inr s'" "config_at E config_path path"
  obtains n current where "migrate_config payload = Inr n" "rt_valid n" "read_config_payload_optional path s = Inr current"
    "cs_runtime s' = put_item (ce_rt E) (env_key (ce_rt E) path) (norm_val n) (cs_runtime s)"
    "cs_files s' = (if same_config current (own_fields n) then cs_files s else dict_set path (PDict (own_fields n)) (cs_files s))"
proof -
  obtain n c r where n: "migrate_config payload = Inr n" "split_payload n = Inr (c, r)" "do_write E path (versioned c) r s = Inr s'"
    using assms by (auto simp: config_write_def config_at_def rbind_eq_Inr)
  then have c: "rt_valid n" "versioned c = own_fields n" "r = norm_val n" by (auto simp: split_payload_Inr versioned_own)
  obtain current where "read_config_payload_optional path s = Inr current"
      "cs_runtime s' = put_item (ce_rt E) (env_key (ce_rt E) path) (norm_val n) (cs_runtime s)"
      "cs_files s' = (if same_config current (own_fields n) then cs_files s else dict_set path (PDict (own_fields n)) (cs_files s))"
    using n(3) unfolding c do_write_def by (auto simp: rbind_eq_Inr Let_def replace_split [OF n(2), unfolded c(3)])
  then show ?thesis using that n c by blast
qed

lemma with_defaults_norm: "rt_valid n \<Longrightarrow> with_defaults (norm_val n) = with_defaults n"
  by (simp add: with_defaults_def)

lemma own_fields_written:
  assumes "same_config current c" "read_config_payload_optional path s = Inr current"
  obtains d m where "map_of (cs_files s) path = Some (PDict d)" "migrate_config d = Inr m" "py_eq (PDict (own_fields m)) (PDict c)"
  using assms by (auto simp: same_config_def read_optional_Inr split: option.splits)

lemma read_strict_at:
  "config_at E config_path path \<Longrightarrow> map_of (cs_files s) path = Some (PDict d) \<Longrightarrow> migrate_config d = Inr m
   \<Longrightarrow> read_strict E config_path s = lift_rt (merge_runtime (ce_rt E) (cs_runtime s) path m)"
  by (simp add: read_strict_def config_at_def read_persistent_strict_def with_runtime_state_def)

lemma merge_own: "snapshot env st path True = Inr full \<Longrightarrow> merge_runtime env st path m = Inr (dict_update full (own_fields m))"
  by (simp add: merge_runtime_def own_fields_def)

lemma view_cong: "(\<And>k. k \<in> set RUNTIME_STATE_FIELDS \<Longrightarrow> map_of p k = map_of q k) \<Longrightarrow> view p = view q"
  by (simp add: view_def state_of_def delete_requested_def done_ids_def getd_def)

lemma get_absent: "\<not> dict_has p k \<Longrightarrow> get p k = PNone"
  by (simp add: dict_has_iff getd_def)

lemma view_setdefault:
  "view (setdefault (''state'', PStr ''idle'') p) = view p"
  "view (setdefault (''pending_count'', PInt 0) p) = view p"
  "view (setdefault (''node_event_seq'', PInt 0) p) = view p"
  using get_absent [of p]
  by (simp_all add: setdefault_def view_def state_of_def delete_requested_def done_ids_def) (use parse_state_str [of Idle] in \<open>simp_all add: parse_node_state_def [of PNone]\<close>)

lemma view_defaults: "with_defaults p = Inr full \<Longrightarrow> normal p \<Longrightarrow> view full = view p"
  by (auto simp: with_defaults_def normal_def RUNTIME_STATE_DEFAULTS_def view_setdefault)

lemma read_written:
  assumes w: "config_write E config_path payload s = Inr s'" "config_at E config_path path" and "migrate_config payload = Inr n"
  obtains m full where "with_defaults n = Inr full" "read_strict E config_path s' = Inr (dict_update full (own_fields m))"
    "own_fields m = own_fields n \<or> py_eq (PDict (own_fields m)) (PDict (own_fields n))"
proof -
  obtain current where n: "rt_valid n" "read_config_payload_optional path s = Inr current"
      and rt: "cs_runtime s' = put_item (ce_rt E) (env_key (ce_rt E) path) (norm_val n) (cs_runtime s)"
      and files: "cs_files s' = (if same_config current (own_fields n) then cs_files s else dict_set path (PDict (own_fields n)) (cs_files s))"
    using config_write_Inr [OF w] assms(3) by (metis Inr_inject)
  obtain full where full: "with_defaults n = Inr full" using with_defaults_valid [OF n(1)] by blast
  then have snap: "snapshot (ce_rt E) (cs_runtime s') path True = Inr full" by (simp add: snapshot_def rt with_defaults_norm [OF n(1)])
  obtain d m where "map_of (cs_files s') path = Some (PDict d)" "migrate_config d = Inr m"
      "own_fields m = own_fields n \<or> py_eq (PDict (own_fields m)) (PDict (own_fields n))"
  proof (cases "same_config current (own_fields n)")
    case True
    then show ?thesis using that files own_fields_written [OF True n(2)] by metis
  next
    case False
    then show ?thesis using that [of "own_fields n" "own_fields n"] files migrate_own [OF assms(3)] by simp
  qed
  then show ?thesis using that full read_strict_at [OF w(2)] merge_own [OF snap] by auto
qed

section \<open>Updating\<close>

text \<open>The mutation leaves the runtime fields alone.\<close>

definition keeps_runtime :: "change_result \<Rightarrow> bool" where
  "keeps_runtime cr \<longleftrightarrow> wf_dict (cr_after cr) \<and> (\<forall>k \<in> set RUNTIME_STATE_FIELDS. map_of (cr_after cr) k = map_of (cr_before cr) k)"

lemma read_strict_view:
  assumes "read_strict E path s = Inr before" "store_ok (cs_runtime s)" "normalize_config_path E path = Inr path"
  shows "view before = view (item_of (cs_runtime s) (env_key (ce_rt E) path))" "rt_valid before"
proof -
  obtain m where m: "merge_runtime (ce_rt E) (cs_runtime s) path m = Inr before"
    using assms by (auto simp: read_strict_def with_runtime_state_def rbind_eq_Inr)
  have n: "normal (item_of (cs_runtime s) (env_key (ce_rt E) path))" using assms(2) by (rule store_ok_item)
  then obtain full where full: "snapshot (ce_rt E) (cs_runtime s) path True = Inr full" "normal full"
      "view full = view (item_of (cs_runtime s) (env_key (ce_rt E) path))"
    using with_defaults_normal view_defaults by (fastforce simp: snapshot_def Let_def)
  have "wf_dict full" using full(2) by (simp add: normal_def)
  then have same: "map_of before k = map_of full k" if "k \<in> set RUNTIME_STATE_FIELDS" for k
    using m merge_own [OF full(1), of m] that by (auto simp: map_of_dict_update map_of_own_fields split: option.splits)
  show "view before = view (item_of (cs_runtime s) (env_key (ce_rt E) path))" using view_cong [OF same] full(3) by simp
  have "rt_valid full" using full(2) by (simp add: normal_def)
  then show "rt_valid before" by (simp add: rt_valid_def same)
qed

lemma update_plan_Inr:
  assumes "update_plan E config_path mutate eff s = Inr cr" "config_at E config_path path"
  shows "cr_path cr = path" "read_strict E path s = Inr (cr_before cr)"
  using assms by (auto simp: update_plan_def config_at_def rbind_eq_Inr)

lemma map_of_keys: "map_of d k = Some v \<Longrightarrow> k \<in> set (dict_keys d)"
  by (force dest: map_of_SomeD)

lemma changed_fields_Nil:
  assumes "changed_fields before after = []"
  shows "py_eq (get before k) (get after k) \<or> \<not> dict_has before k \<and> \<not> dict_has after k"
proof (rule ccontr)
  assume c: "\<not> ?thesis"
  then have "k \<in> set (dict_keys before @ dict_keys after)" by (auto simp: dict_has_iff dest: map_of_keys)
  then have "k \<in> set (changed_fields before after)" using c by (simp add: changed_fields_def)
  then show False using assms by simp
qed

text \<open>The write of an update sets the queue of the node to what it was when the update read it.\<close>

lemma commit_restores:
  assumes plan: "update_plan E config_path mutate eff s = Inr cr" and at: "config_at E config_path path" and ok: "store_ok (cs_runtime s)"
    and keep: "keeps_runtime cr" and ch: "cr_changed cr \<noteq> []" and commit: "update_commit E cr s2 = Inr s3" and ok2: "store_ok (cs_runtime s2)"
  shows "store_ok (cs_runtime s3)"
    and "view (item_of (cs_runtime s3) (env_key (ce_rt E) path)) = view (item_of (cs_runtime s) (env_key (ce_rt E) path))"
    and "k \<noteq> env_key (ce_rt E) path \<Longrightarrow> item_of (cs_runtime s3) k = item_of (cs_runtime s2) k"
proof -
  have path: "config_at E path path" using at by (simp add: config_at_def)
  have w: "config_write E path (cr_after cr) s2 = Inr s3"
    using commit ch update_plan_Inr [OF plan at] by (simp add: update_commit_def)
  from w path obtain n current where n: "migrate_config (cr_after cr) = Inr n" "rt_valid n"
      and rt: "cs_runtime s3 = put_item (ce_rt E) (env_key (ce_rt E) path) (norm_val n) (cs_runtime s2)"
    by (rule config_write_Inr)
  have "wf_dict n" using keep n(1) by (auto simp: keeps_runtime_def intro: migrate_wf)
  then show "store_ok (cs_runtime s3)" using ok2 n(2) by (simp add: rt store_ok_put_item normal_norm_val)
  have "view n = view (cr_before cr)"
    using keep migrate_runtime [OF n(1)] by (intro view_cong) (metis keeps_runtime_def schema_own)
  then show "view (item_of (cs_runtime s3) (env_key (ce_rt E) path)) = view (item_of (cs_runtime s) (env_key (ce_rt E) path))"
    using read_strict_view(1) [OF update_plan_Inr(2) [OF plan at] ok] path n(2) by (simp add: rt config_at_def)
  show "k \<noteq> env_key (ce_rt E) path \<Longrightarrow> item_of (cs_runtime s3) k = item_of (cs_runtime s2) k" by (simp add: rt)
qed

text \<open>The fields the interface may not edit leave out some that the runtime owns, the deletion mark among them: clearing it
  through the payload of the interface revives a node that is being deleted.\<close>

lemma patchable_delete_mark: "patchable ''_delete_requested''"
  by (simp add: patchable_def RESERVED_NODE_CONFIG_FIELDS_def strip_eval)

definition clear_delete_mark :: pydict where
  "clear_delete_mark = [(''clear_fields'', PList [PStr ''_delete_requested''])]"

lemma webui_clears_mark:
  "webui_mutate clear_delete_mark None None cfg = Inr (dict_pop ''schema'' (dict_pop ''_delete_requested'' cfg), PNone)"
  using patchable_delete_mark
  by (simp add: webui_mutate_def clear_delete_mark_def put_ui_def dict_has_def List.map_filter_def dict_update_def Let_def)

lemma webui_revives_deleted_node:
  assumes upd: "apply_webui_payload E config_path clear_delete_mark None None s = Inr (s', cr)"
    and at: "config_at E config_path path" and ok: "store_ok (cs_runtime s)"
  shows "\<not> nq_delete (node_view (ce_rt E) path (cs_runtime s'))"
proof -
  have "config_update E config_path (webui_mutate clear_delete_mark None None) ''next_agent_run'' s = Inr (s', cr)"
    using upd by (simp add: apply_webui_payload_def clear_delete_mark_def)
  then have plan: "update_plan E config_path (webui_mutate clear_delete_mark None None) ''next_agent_run'' s = Inr cr"
      and commit: "update_commit E cr s = Inr s'" by (auto simp: config_update_def rbind_eq_Inr)
  note before = update_plan_Inr [OF plan at]
  have after: "map_of (cr_after cr) ''_delete_requested'' = None" "cr_changed cr = changed_fields (cr_before cr) (cr_after cr)"
    using plan by (auto simp: update_plan_def rbind_eq_Inr webui_clears_mark)
  have path: "config_at E path path" using at by (simp add: config_at_def)
  show ?thesis
  proof (cases "cr_changed cr = []")
    case True
    have "py_eq (get (cr_before cr) ''_delete_requested'') PNone \<or> \<not> dict_has (cr_before cr) ''_delete_requested''"
      using changed_fields_Nil [of "cr_before cr" "cr_after cr" "''_delete_requested''"] True after by (auto simp: getd_def)
    then have "\<not> truthy (get (cr_before cr) ''_delete_requested'')" using py_eq_truthy get_absent by fastforce
    then have "\<not> nq_delete (view (cr_before cr))" by (simp add: view_def delete_requested_def)
    then show ?thesis using read_strict_view(1) [OF before(2) ok] path commit True by (simp add: config_at_def update_commit_def)
  next
    case False
    then have "config_write E path (cr_after cr) s = Inr s'" using commit before by (simp add: update_commit_def)
    from this path obtain n current where n: "migrate_config (cr_after cr) = Inr n" "rt_valid n"
        and rt: "cs_runtime s' = put_item (ce_rt E) (env_key (ce_rt E) path) (norm_val n) (cs_runtime s)" by (rule config_write_Inr)
    have "map_of n ''_delete_requested'' = None" using migrate_runtime [OF n(1)] after(1) by simp
    then have "\<not> nq_delete (view n)" by (simp add: view_def delete_requested_def getd_def)
    then show ?thesis using n(2) by (simp add: rt)
  qed
qed

section \<open>Properties\<close>

text \<open>C35. What is written is what is read: after a successful write, reading returns the own fields of the payload, or
  the equal ones the file already held, with the runtime fields of the payload and their defaults.\<close>

theorem config_write_read:
  assumes "config_write E config_path payload s = Inr s'" and "config_at E config_path path"
  shows "\<exists>n c full. migrate_config payload = Inr n \<and> with_defaults n = Inr full
    \<and> read_strict E config_path s' = Inr (dict_update full c)
    \<and> (c = own_fields n \<or> py_eq (PDict c) (PDict (own_fields n)))"
proof -
  obtain n where n: "migrate_config payload = Inr n" using assms by (rule config_write_Inr)
  then obtain m full where "with_defaults n = Inr full" "read_strict E config_path s' = Inr (dict_update full (own_fields m))"
      "own_fields m = own_fields n \<or> py_eq (PDict (own_fields m)) (PDict (own_fields n))"
    by (rule read_written [OF assms])
  with n show ?thesis by blast
qed

text \<open>An update that nothing interrupts leaves all queues alone when its mutation leaves the runtime fields alone, and it
  keeps the runtime store legal.\<close>

lemma config_update_keeps_queues:
  assumes "config_update E config_path mutate eff s = Inr (s', cr)" and "config_at E config_path path"
    and "store_ok (cs_runtime s)" and "keeps_runtime cr"
  shows "store_ok (cs_runtime s') \<and> (\<forall>k. view (item_of (cs_runtime s') k) = view (item_of (cs_runtime s) k))"
proof -
  have cr: "update_plan E config_path mutate eff s = Inr cr" "update_commit E cr s = Inr s'"
    using assms(1) by (auto simp: config_update_def rbind_eq_Inr)
  show ?thesis
  proof (cases "cr_changed cr = []")
    case True
    then show ?thesis using cr(2) assms(3) by (simp add: update_commit_def)
  next
    case False
    note c = commit_restores [OF cr(1) assms(2,3,4) False cr(2) assms(3)]
    then show ?thesis by (metis c)
  qed
qed

text \<open>An update of a configuration drops messages that arrive while it is under way: when an item is appended between
  the read and the write, the append reports success, and after the write the queue is the one without it.\<close>

lemma config_update_drops_message:
  assumes plan: "update_plan E config_path mutate eff s = Inr cr" and at: "config_at E config_path path" and ok: "store_ok (cs_runtime s)"
    and keep: "keeps_runtime cr" and ch: "cr_changed cr \<noteq> []"
    and arrive: "node_op (ce_rt E) path (AppendPending item) (cs_runtime s) = Inr (st2, PBool True)" and "path \<noteq> []"
    and commit: "update_commit E cr (s\<lparr>cs_runtime := st2\<rparr>) = Inr s3"
  shows "nq_pending (node_view (ce_rt E) path st2) = nq_pending (node_view (ce_rt E) path (cs_runtime s)) @ [dict_items item]
    \<and> nq_pending (node_view (ce_rt E) path (cs_runtime s3)) = nq_pending (node_view (ce_rt E) path (cs_runtime s))"
proof -
  have st2: "store_ok st2 \<and> nq_pending (node_view (ce_rt E) path st2) = nq_pending (node_view (ce_rt E) path (cs_runtime s)) @ [dict_items item]"
    using node_op_simulates [OF ok \<open>path \<noteq> []\<close>, of "ce_rt E" "AppendPending item"] arrive by (auto split: if_splits)
  then show ?thesis using commit_restores(2) [OF plan at ok keep ch commit] by simp
qed

section \<open>An instance\<close>

definition sample_config_env :: config_env where
  "sample_config_env = \<lparr>ce_rt = sample_env, ce_abspath = id\<rparr>"

definition sample_config :: pydict where
  "sample_config = [(''schemaVersion'', PInt 1), (''type_id'', PStr ''agent_node'')]"

definition sample_configs :: config_state where
  "sample_configs = \<lparr>cs_files = [(''n'', PDict sample_config)], cs_runtime = empty_store\<rparr>"

definition sample_rename :: config_mutation where
  "sample_rename cfg = Inr (dict_set ''name'' (PStr ''a'') cfg, PNone)"

lemma sample_at: "config_at sample_config_env ''n'' ''n''"
  by (simp add: config_at_def normalize_config_path_def sample_config_env_def strip_eval)

lemma sample_migrated: "migrate_config sample_config = Inr sample_config"
  by (rule version_migrated) (simp add: sample_config_def)

lemma sample_defaults: "with_defaults [] = Inr RUNTIME_STATE_DEFAULTS"
  using normal_Nil by (simp add: with_defaults_def normal_def RUNTIME_STATE_DEFAULTS_def setdefault_def dict_has_def dict_set_new)

lemma sample_own: "own_fields sample_config = sample_config"
  by (simp add: own_fields_def sample_config_def RUNTIME_STATE_FIELDS_def)

lemma sample_snapshot: "snapshot env empty_store path True = Inr RUNTIME_STATE_DEFAULTS"
  by (simp add: snapshot_def empty_store_def item_of_def sample_defaults)

definition sample_merged :: pydict where
  "sample_merged = sample_config @ RUNTIME_STATE_DEFAULTS"

lemma sample_merge: "dict_update RUNTIME_STATE_DEFAULTS sample_config = sample_merged"
  by (simp add: dict_update_def sample_config_def RUNTIME_STATE_DEFAULTS_def sample_merged_def dict_set_new)

lemma sample_read: "read_strict sample_config_env ''n'' sample_configs = Inr sample_merged"
  using read_strict_at [OF sample_at, of sample_configs sample_config sample_config] sample_migrated
    merge_own [OF sample_snapshot [of sample_env "''n''"], of sample_config]
  by (simp add: sample_configs_def sample_config_env_def sample_own sample_merge)

definition sample_change :: change_result where
  "sample_change = \<lparr>cr_path = ''n'', cr_before = sample_merged, cr_after = sample_merged @ [(''name'', PStr ''a'')],
     cr_changed = [''name''], cr_effective = ''immediate'', cr_warnings = []\<rparr>"

lemma sample_plan: "update_plan sample_config_env ''n'' sample_rename ''immediate'' sample_configs = Inr sample_change"
proof -
  have ch: "changed_fields sample_merged (sample_merged @ [(''name'', PStr ''a'')]) = [''name'']"
    by (simp add: changed_fields_def sample_merged_def sample_config_def RUNTIME_STATE_DEFAULTS_def)
  have new: "dict_set ''name'' (PStr ''a'') sample_merged = sample_merged @ [(''name'', PStr ''a'')]"
    by (simp add: dict_set_new sample_merged_def sample_config_def RUNTIME_STATE_DEFAULTS_def)
  have "validate_capability_fields (sample_merged @ [(''name'', PStr ''a'')]) = Inr ()"
    by (simp add: validate_capability_fields_def CAPABILITY_FIELDS_def capability_ok_def sample_merged_def sample_config_def
        RUNTIME_STATE_DEFAULTS_def dict_has_def)
  then show ?thesis using sample_at sample_read
    by (simp add: update_plan_def config_at_def sample_rename_def new ch sample_change_def supplied_warnings_def)
qed

lemma sample_keeps: "keeps_runtime sample_change"
  by (simp add: keeps_runtime_def sample_change_def sample_merged_def sample_config_def RUNTIME_STATE_DEFAULTS_def wf_dict_def
      RUNTIME_STATE_FIELDS_def)

lemma sample_write:
  assumes "map_of n ''schemaVersion'' = Some (PInt 1)" "rt_valid n"
  shows "\<exists>s'. config_write sample_config_env ''n'' n (sample_configs\<lparr>cs_runtime := st\<rparr>) = Inr s'"
proof -
  have m: "migrate_config n = Inr n" using assms(1) by (rule version_migrated)
  have sp: "split_payload n = Inr (own_fields n, norm_val n)" using assms(2) by (simp add: split_payload_Inr)
  have "rt_valid sample_config" by (simp add: rt_valid_def sample_config_def)
  then have v: "split_payload sample_config = Inr (own_fields sample_config, norm_val sample_config)" by (simp add: split_payload_Inr)
  have "\<exists>c. read_config_payload_optional ''n'' (sample_configs\<lparr>cs_runtime := st\<rparr>) = Inr c"
    using sample_migrated by (simp add: read_config_payload_optional_def sample_configs_def v)
  then show ?thesis using m sp replace_split [OF sp] sample_at by (auto simp: config_write_def config_at_def do_write_def Let_def)
qed

lemma sample_commit: "\<exists>s3. update_commit sample_config_env sample_change (sample_configs\<lparr>cs_runtime := st\<rparr>) = Inr s3"
  using sample_write [of "sample_merged @ [(''name'', PStr ''a'')]" st]
  by (simp add: update_commit_def sample_change_def sample_merged_def sample_config_def RUNTIME_STATE_DEFAULTS_def rt_valid_def strip_eval)

lemma config_write_read_witness:
  "\<exists>s' c full. config_write sample_config_env ''n'' (sample_merged @ [(''name'', PStr ''a'')]) sample_configs = Inr s'
     \<and> read_strict sample_config_env ''n'' s' = Inr (dict_update full c)"
proof -
  have "update_commit sample_config_env sample_change sample_configs
      = config_write sample_config_env ''n'' (sample_merged @ [(''name'', PStr ''a'')]) sample_configs"
    by (simp add: update_commit_def sample_change_def)
  then obtain s' where "config_write sample_config_env ''n'' (sample_merged @ [(''name'', PStr ''a'')]) sample_configs = Inr s'"
    using sample_commit [of "cs_runtime sample_configs"] by auto
  then show ?thesis using config_write_read [OF _ sample_at] by blast
qed

lemma config_update_keeps_queues_witness:
  "\<exists>s'. config_update sample_config_env ''n'' sample_rename ''immediate'' sample_configs = Inr (s', sample_change)
     \<and> view (item_of (cs_runtime s') ''n'') = view (item_of empty_store ''n'')"
proof -
  obtain s' where "config_update sample_config_env ''n'' sample_rename ''immediate'' sample_configs = Inr (s', sample_change)"
    using sample_plan sample_commit [of "cs_runtime sample_configs"] by (auto simp: config_update_def)
  moreover have "store_ok (cs_runtime sample_configs)" by (simp add: sample_configs_def)
  ultimately show ?thesis using config_update_keeps_queues [OF _ sample_at _ sample_keeps] by (auto simp: sample_configs_def)
qed

lemma config_update_drops_message_witness:
  "\<exists>st2 s3. node_op sample_env ''n'' (AppendPending (PDict sample_item)) empty_store = Inr (st2, PBool True)
     \<and> update_commit sample_config_env sample_change (sample_configs\<lparr>cs_runtime := st2\<rparr>) = Inr s3
     \<and> nq_pending (node_view sample_env ''n'' st2) = [sample_item] \<and> nq_pending (node_view sample_env ''n'' (cs_runtime s3)) = []"
proof -
  obtain st2 where st2: "node_op sample_env ''n'' (AppendPending (PDict sample_item)) empty_store = Inr (st2, PBool True)"
    by (rule sample_append)
  obtain s3 where s3: "update_commit sample_config_env sample_change (sample_configs\<lparr>cs_runtime := st2\<rparr>) = Inr s3"
    using sample_commit by blast
  have "store_ok (cs_runtime sample_configs)" "ce_rt sample_config_env = sample_env" "cs_runtime sample_configs = empty_store"
    "cr_changed sample_change \<noteq> []" by (simp_all add: sample_configs_def sample_config_env_def sample_change_def)
  then show ?thesis
    using config_update_drops_message [OF sample_plan sample_at _ sample_keeps _ _ _ s3, of "PDict sample_item"] st2 s3
    by (auto simp: view_empty)
qed

end
