(* ===== verification/RequestTracking.thy ===== *)
theory RequestTracking
  imports ConfigLaws
begin

text \<open>
  The completed requests of a node (\<open>web_backend/node_request_tracking.py\<close>): a bounded history in the
  configuration of the node, from which callers learn the outcome of a request and which the queue
  consults before it accepts a key again.
\<close>

section \<open>Recording\<close>

definition REQUEST_HISTORY_LIMIT :: nat where
  "REQUEST_HISTORY_LIMIT = 20"

text \<open>\<open>str(role or "assistant").strip().lower() or "assistant"\<close>\<close>

definition record_role :: "string \<Rightarrow> string" where
  "record_role role = (let r = py_lower (py_strip (if role = [] then ''assistant'' else role)) in if r = [] then ''assistant'' else r)"

definition completion_record :: "string \<Rightarrow> string \<Rightarrow> string \<Rightarrow> string \<Rightarrow> string \<Rightarrow> int \<Rightarrow> pydict" where
  "completion_record now request_id role message state seq =
     [(''request_id'', PStr request_id), (''trace_id'', PStr request_id), (''role'', PStr (record_role role)), (''message'', PStr message),
      (''state'', PStr (state_str (parse_node_state (PStr state)))), (''node_event_seq'', PInt seq), (''completed_at'', PStr now)]"

definition request_id_of :: "pyval \<Rightarrow> string" where
  "request_id_of item = str_or (get (dict_items item) ''request_id'')"

definition record_mutate :: "string \<Rightarrow> string \<Rightarrow> string \<Rightarrow> string \<Rightarrow> string \<Rightarrow> config_mutation" where
  "record_mutate now request_id role message state cfg =
     rbind (lift_rt (case py_int (py_or (get cfg ''node_event_seq'') (PInt 0)) of Inl e \<Rightarrow> Inl (RtPy e) | Inr n \<Rightarrow> Inr n)) (\<lambda>seq.
     let record = PDict (completion_record now request_id role message state seq);
         history = filter (\<lambda>item. request_id_of item \<noteq> request_id) (filter is_dict (list_items (get cfg ''completed_requests'')))
     in Inr (dict_set ''last_completed_request'' record
               (dict_set ''completed_requests'' (PList (last_n REQUEST_HISTORY_LIMIT (history @ [record]))) cfg), PNone))"

definition record_node_request_completion ::
    "config_env \<Rightarrow> string \<Rightarrow> string \<Rightarrow> string \<Rightarrow> string \<Rightarrow> string \<Rightarrow> string \<Rightarrow> config_state \<Rightarrow> config_state config_res" where
  "record_node_request_completion E now config_path request_id role message state s =
     (if py_strip request_id = [] then Inr s
      else rbind (config_update E config_path (record_mutate now (py_strip request_id) role message state) ''immediate'' s) (\<lambda>(s', cr). Inr s'))"

section \<open>Looking up\<close>

definition completed_requests :: "pydict \<Rightarrow> pydict list" where
  "completed_requests payload =
     (let output = map dict_items (filter is_dict (list_items (get payload ''completed_requests''))) in
      case get payload ''last_completed_request'' of
        PDict recent \<Rightarrow> let last_id = str_or (get recent ''request_id'') in
          if last_id \<noteq> [] \<and> \<not> list_ex (\<lambda>item. str_or (get item ''request_id'') = last_id) output then output @ [recent] else output
      | _ \<Rightarrow> output)"

definition find_completed_request :: "pydict \<Rightarrow> string \<Rightarrow> pydict option" where
  "find_completed_request payload request_id = (if py_strip request_id = [] then None
     else List.find (\<lambda>item. str_or (get item ''request_id'') = py_strip request_id) (rev (completed_requests payload)))"

section \<open>Laws\<close>

lemma get_record [simp]:
  "get (completion_record now i role message state seq) ''request_id'' = PStr i"
  "get (completion_record now i role message state seq) ''role'' = PStr (record_role role)"
  "get (completion_record now i role message state seq) ''message'' = PStr message"
  "get (completion_record now i role message state seq) ''completed_at'' = PStr now"
  by (simp_all add: completion_record_def)

lemma last_n_snoc: "0 < n \<Longrightarrow> last_n n (xs @ [x]) = last_n (n - 1) xs @ [x]"
  by (cases n) (simp_all add: last_n_def)

text \<open>The history after a record, on any payload.\<close>

definition other_requests :: "string \<Rightarrow> pydict \<Rightarrow> pyval list" where
  "other_requests i cfg = filter (\<lambda>item. request_id_of item \<noteq> i) (filter is_dict (list_items (get cfg ''completed_requests'')))"

lemma record_mutate_Inr:
  assumes "record_mutate now i role message state cfg = Inr (after, r)"
  obtains seq h where "map_of after ''completed_requests'' = Some (PList (h @ [PDict (completion_record now i role message state seq)]))"
    "length h < REQUEST_HISTORY_LIMIT"
    "map_of after ''last_completed_request'' = Some (PDict (completion_record now i role message state seq))"
    "\<forall>k. k \<noteq> ''completed_requests'' \<longrightarrow> k \<noteq> ''last_completed_request'' \<longrightarrow> map_of after k = map_of cfg k"
    "wf_dict cfg \<longrightarrow> wf_dict after"
proof -
  have lim: "0 < REQUEST_HISTORY_LIMIT" by (simp add: REQUEST_HISTORY_LIMIT_def)
  obtain seq where "after = dict_set ''last_completed_request'' (PDict (completion_record now i role message state seq))
      (dict_set ''completed_requests'' (PList (last_n REQUEST_HISTORY_LIMIT
        (other_requests i cfg @ [PDict (completion_record now i role message state seq)]))) cfg)"
    using assms unfolding record_mutate_def other_requests_def [symmetric] by (auto simp: rbind_eq_Inr Let_def)
  then show ?thesis using that [of "last_n (REQUEST_HISTORY_LIMIT - 1) (other_requests i cfg)" seq] lim
    by (simp add: last_n_snoc)
qed

lemma find_recorded:
  assumes "map_of cfg ''completed_requests'' = Some (PList (h @ [PDict r]))" "map_of cfg ''last_completed_request'' = Some (PDict r)"
    "get r ''request_id'' = PStr i" "py_strip i = i" "i \<noteq> []"
  shows "find_completed_request cfg i = Some r"
  using assms by (simp add: find_completed_request_def completed_requests_def getd_def)

text \<open>The time of a record differs from that of the one before it.\<close>

definition fresh_time :: "string \<Rightarrow> pydict \<Rightarrow> bool" where
  "fresh_time now before \<longleftrightarrow> wf_dict (dict_items (get before ''last_completed_request''))
     \<and> get (dict_items (get before ''last_completed_request'')) ''completed_at'' \<noteq> PStr now"

lemma fresh_record:
  assumes "fresh_time now before"
  shows "\<not> py_eq (get before ''last_completed_request'') (PDict (completion_record now i role message state seq))"
proof
  assume eq: "py_eq (get before ''last_completed_request'') (PDict (completion_record now i role message state seq))"
  then obtain d where d: "get before ''last_completed_request'' = PDict d" by (cases "get before ''last_completed_request''") auto
  have "rel_option py_eq (map_of d ''completed_at'') (map_of (completion_record now i role message state seq) ''completed_at'')"
    using eq assms d by (intro py_eq_dict_lookup) (auto simp: fresh_time_def completion_record_def wf_dict_def)
  then have "get d ''completed_at'' = PStr now"
    by (auto simp: completion_record_def getd_def option_rel_Some2)
  then show False using assms d by (simp add: fresh_time_def)
qed

lemma view_done_cong:
  assumes "\<And>k. k \<in> set RUNTIME_STATE_FIELDS \<Longrightarrow> k \<noteq> ''completed_requests'' \<Longrightarrow> k \<noteq> ''last_completed_request'' \<Longrightarrow> map_of p k = map_of q k"
  shows "view p = (view q)\<lparr>nq_done := done_ids p\<rparr>"
  using assms by (simp add: view_def state_of_def delete_requested_def getd_def)

text \<open>What a successful record leaves: a payload whose history ends in the record.\<close>

lemma record_effect:
  assumes rec: "record_node_request_completion E now config_path i role message state s = Inr s'"
    and at: "config_at E config_path path" and i: "py_strip i = i" "i \<noteq> []"
    and before: "read_strict E path s = Inr before" "wf_dict before" "fresh_time now before"
  obtains after n seq h where "config_write E path after s = Inr s'" "migrate_config after = Inr n" "wf_dict n" "rt_valid n"
    "cs_runtime s' = put_item (ce_rt E) (env_key (ce_rt E) path) (norm_val n) (cs_runtime s)"
    "map_of n ''completed_requests'' = Some (PList (h @ [PDict (completion_record now i role message state seq)]))"
    "length h < REQUEST_HISTORY_LIMIT"
    "map_of n ''last_completed_request'' = Some (PDict (completion_record now i role message state seq))"
    "\<forall>k \<in> set RUNTIME_STATE_FIELDS. k \<noteq> ''completed_requests'' \<longrightarrow> k \<noteq> ''last_completed_request'' \<longrightarrow> map_of n k = map_of before k"
proof -
  obtain cr where plan: "update_plan E config_path (record_mutate now i role message state) ''immediate'' s = Inr cr"
      and commit: "update_commit E cr s = Inr s'"
    using rec i by (auto simp: record_node_request_completion_def config_update_def rbind_eq_Inr)
  then obtain r where m: "record_mutate now i role message state before = Inr (cr_after cr, r)"
      and cr: "cr_path cr = path" "cr_changed cr = changed_fields before (cr_after cr)"
    using at before(1) by (auto simp: update_plan_def config_at_def rbind_eq_Inr)
  from m obtain seq h where h: "map_of (cr_after cr) ''completed_requests'' = Some (PList (h @ [PDict (completion_record now i role message state seq)]))"
      "length h < REQUEST_HISTORY_LIMIT"
      "map_of (cr_after cr) ''last_completed_request'' = Some (PDict (completion_record now i role message state seq))"
      and same: "\<forall>k. k \<noteq> ''completed_requests'' \<longrightarrow> k \<noteq> ''last_completed_request'' \<longrightarrow> map_of (cr_after cr) k = map_of before k"
      and wf: "wf_dict before \<longrightarrow> wf_dict (cr_after cr)" by (rule record_mutate_Inr)
  have "get (cr_after cr) ''last_completed_request'' = PDict (completion_record now i role message state seq)" using h(3) by (simp add: getd_def)
  then have "cr_changed cr \<noteq> []"
    unfolding cr(2) using changed_fields_Nil [of before "cr_after cr" "''last_completed_request''"] fresh_record [OF before(3)] h(3)
    by (auto simp: dict_has_iff)
  then have w: "config_write E path (cr_after cr) s = Inr s'" using commit cr(1) by (simp add: update_commit_def)
  moreover have "config_at E path path" using at by (simp add: config_at_def)
  ultimately obtain n where n: "migrate_config (cr_after cr) = Inr n" "rt_valid n"
      "cs_runtime s' = put_item (ce_rt E) (env_key (ce_rt E) path) (norm_val n) (cs_runtime s)" by (rule config_write_Inr)
  have nk: "k \<noteq> ''schemaVersion'' \<Longrightarrow> map_of n k = map_of (cr_after cr) k" for k using migrate_runtime [OF n(1)] .
  have hist: "map_of n ''completed_requests'' = Some (PList (h @ [PDict (completion_record now i role message state seq)]))"
    "map_of n ''last_completed_request'' = Some (PDict (completion_record now i role message state seq))"
    using h by (simp_all add: nk)
  have frame: "\<forall>k \<in> set RUNTIME_STATE_FIELDS. k \<noteq> ''completed_requests'' \<longrightarrow> k \<noteq> ''last_completed_request'' \<longrightarrow> map_of n k = map_of before k"
    using nk same schema_own by metis
  show ?thesis by (rule that [OF w n(1) migrate_wf [OF n(1) wf [THEN mp, OF before(2)]] n(2,3) hist(1) h(2) hist(2) frame])
qed

lemma with_defaults_lookup:
  assumes "with_defaults n = Inr full" "rt_valid n" "wf_dict n"
  shows "wf_dict full" "k \<in> {''completed_requests'', ''last_completed_request''} \<Longrightarrow> map_of full k = map_of n k"
  using assms by (auto simp: with_defaults_def RUNTIME_STATE_DEFAULTS_def setdefault_def map_of_norm_val)

section \<open>Properties\<close>

text \<open>Recording the outcome of a request that ends at a new time makes it known: looking the request up returns the role
  and the message that were recorded, the history stays within its limit, the queue is as before, and a
  message with the request as its key is not accepted again.\<close>

lemma completed_request_recorded:
  assumes rec: "record_node_request_completion E now config_path i role message state s = Inr s'"
    and at: "config_at E config_path path" "path \<noteq> []" and ok: "store_ok (cs_runtime s)" and i: "py_strip i = i" "i \<noteq> []"
    and before: "read_strict E path s = Inr before" "wf_dict before" "fresh_time now before"
  defines "q \<equiv> node_view (ce_rt E) path (cs_runtime s)" and "q' \<equiv> node_view (ce_rt E) path (cs_runtime s')"
  shows "(\<exists>cfg r. read_strict E config_path s' = Inr cfg \<and> find_completed_request cfg i = Some r
      \<and> get r ''role'' = PStr (record_role role) \<and> get r ''message'' = PStr message
      \<and> length (list_items (get cfg ''completed_requests'')) \<le> REQUEST_HISTORY_LIMIT)
    \<and> q' = q\<lparr>nq_done := nq_done q'\<rparr>
    \<and> (\<forall>item. idem_key item = i \<longrightarrow> \<not> nq_delete q \<longrightarrow>
        (\<exists>st''. node_op (ce_rt E) path (AppendPending item) (cs_runtime s') = Inr (st'', PBool False) \<and> node_view (ce_rt E) path st'' = q'))"
proof -
  obtain after n seq h where w: "config_write E path after s = Inr s'" and n: "migrate_config after = Inr n" "wf_dict n" "rt_valid n"
      and rt: "cs_runtime s' = put_item (ce_rt E) (env_key (ce_rt E) path) (norm_val n) (cs_runtime s)"
      and h: "map_of n ''completed_requests'' = Some (PList (h @ [PDict (completion_record now i role message state seq)]))"
        "length h < REQUEST_HISTORY_LIMIT"
        "map_of n ''last_completed_request'' = Some (PDict (completion_record now i role message state seq))"
      and same: "\<forall>k \<in> set RUNTIME_STATE_FIELDS. k \<noteq> ''completed_requests'' \<longrightarrow> k \<noteq> ''last_completed_request'' \<longrightarrow> map_of n k = map_of before k"
    using rec at(1) i before by (rule record_effect)
  have path: "config_at E path path" using at by (simp add: config_at_def)
  have q': "q' = view n" using n(3) by (simp add: q'_def rt)
  have "q = view before" using read_strict_view(1) [OF before(1) ok] path by (simp add: q_def config_at_def)
  then have frame: "q' = q\<lparr>nq_done := nq_done q'\<rparr>" using view_done_cong [of n before] same by (simp add: q' view_def)
  have known: "i \<in> set (nq_done q')" using getd_Some [OF h(1)] i by (simp add: q' view_def done_ids_def request_key_def)
  have ok': "store_ok (cs_runtime s')" using ok n by (simp add: rt store_ok_put_item normal_norm_val)
  have refuse: "\<exists>st''. node_op (ce_rt E) path (AppendPending item) (cs_runtime s') = Inr (st'', PBool False) \<and> node_view (ce_rt E) path st'' = q'"
    if "idem_key item = i" "\<not> nq_delete q" for item
  proof -
    have "\<not> nq_delete q'" using frame that(2) by (metis node_q.select_convs(5) node_q.surjective node_q.update_convs(9))
    then show ?thesis using node_op_simulates [OF ok' at(2), of "ce_rt E" "AppendPending item"] that i known
      by (auto simp: q'_def [symmetric] known_key_def)
  qed
  obtain m full where full: "with_defaults n = Inr full" "read_strict E path s' = Inr (dict_update full (own_fields m))"
    using w path n(1) by (rule read_written)
  let ?cfg = "dict_update full (own_fields m)" and ?r = "completion_record now i role message state seq"
  have "read_strict E config_path s' = read_strict E path s'" using at(1) by (simp add: read_strict_def config_at_def)
  moreover have fields: "map_of ?cfg ''completed_requests'' = map_of n ''completed_requests''"
      "map_of ?cfg ''last_completed_request'' = map_of n ''last_completed_request''"
    by (simp_all add: map_of_dict_update with_defaults_lookup [OF full(1) n(3,2)] map_of_own_fields h)
  moreover have "find_completed_request ?cfg i = Some ?r"
    using h fields i get_record(1) by (intro find_recorded) simp_all
  moreover have "length (list_items (get ?cfg ''completed_requests'')) \<le> REQUEST_HISTORY_LIMIT"
    using h(1,2) fields(1) getd_Some by fastforce
  ultimately have "\<exists>cfg r. read_strict E config_path s' = Inr cfg \<and> find_completed_request cfg i = Some r
      \<and> get r ''role'' = PStr (record_role role) \<and> get r ''message'' = PStr message
      \<and> length (list_items (get cfg ''completed_requests'')) \<le> REQUEST_HISTORY_LIMIT"
    using full(2) get_record(2,3) by metis
  then show ?thesis using frame refuse by blast
qed

section \<open>An instance\<close>

definition sample_record :: pydict where
  "sample_record = completion_record ''t'' ''r'' ''assistant'' ''m'' ''idle'' 0"

definition sample_recorded :: pydict where
  "sample_recorded = sample_merged @ [(''completed_requests'', PList [PDict sample_record]), (''last_completed_request'', PDict sample_record)]"

lemma sample_record_mutate: "record_mutate ''t'' ''r'' ''assistant'' ''m'' ''idle'' sample_merged = Inr (sample_recorded, PNone)"
  by (simp add: record_mutate_def sample_merged_def sample_config_def RUNTIME_STATE_DEFAULTS_def py_or_def sample_recorded_def
      sample_record_def last_n_all REQUEST_HISTORY_LIMIT_def dict_set_new Let_def)

lemma sample_recorded_valid: "validate_capability_fields sample_recorded = Inr ()" "rt_valid sample_recorded"
   apply (simp add: validate_capability_fields_def CAPABILITY_FIELDS_def capability_ok_def sample_recorded_def sample_merged_def sample_config_def
        RUNTIME_STATE_DEFAULTS_def dict_has_def)
  apply (simp add: rt_valid_def sample_recorded_def sample_merged_def sample_config_def RUNTIME_STATE_DEFAULTS_def strip_eval)
  done

lemma sample_record_done: "\<exists>s'. record_node_request_completion sample_config_env ''t'' ''n'' ''r'' ''assistant'' ''m'' ''idle'' sample_configs = Inr s'"
proof -
  let ?m = "record_mutate ''t'' ''r'' ''assistant'' ''m'' ''idle''"
  have n: "normalize_config_path sample_config_env ''n'' = Inr ''n''" using sample_at by (simp add: config_at_def)
  have "\<exists>cr. update_plan sample_config_env ''n'' ?m ''immediate'' sample_configs = Inr cr \<and> cr_path cr = ''n'' \<and> cr_after cr = sample_recorded"
    by (simp add: update_plan_def n sample_read sample_record_mutate sample_recorded_valid)
  moreover have "\<exists>s'. config_write sample_config_env ''n'' sample_recorded sample_configs = Inr s'"
    using sample_write [of sample_recorded "cs_runtime sample_configs"] sample_recorded_valid(2) by (simp add: sample_recorded_def sample_merged_def sample_config_def)
  ultimately show ?thesis by (auto simp: record_node_request_completion_def config_update_def update_commit_def strip_eval)
qed

lemma completed_request_recorded_witness:
  "\<exists>s' cfg r. record_node_request_completion sample_config_env ''t'' ''n'' ''r'' ''assistant'' ''m'' ''idle'' sample_configs = Inr s'
     \<and> read_strict sample_config_env ''n'' s' = Inr cfg \<and> find_completed_request cfg ''r'' = Some r \<and> get r ''message'' = PStr ''m''"
proof -
  obtain s' where s': "record_node_request_completion sample_config_env ''t'' ''n'' ''r'' ''assistant'' ''m'' ''idle'' sample_configs = Inr s'"
    using sample_record_done by blast
  have "store_ok (cs_runtime sample_configs)" "py_strip ''r'' = ''r''" by (simp_all add: sample_configs_def strip_eval)
  moreover have "wf_dict sample_merged" "fresh_time ''t'' sample_merged"
    by (simp_all add: fresh_time_def sample_merged_def sample_config_def RUNTIME_STATE_DEFAULTS_def wf_dict_def)
  ultimately show ?thesis using completed_request_recorded [OF s' sample_at, OF _ _ _ _ sample_read] s' by fastforce
qed

end
