(* ===== verification/CronExecution.thy ===== *)
theory CronExecution
  imports CronDelivery RequestTracking
begin

text \<open>
  Acknowledging a run of a schedule (\<open>web_backend/cron_execution.py\<close>): a wrapper around the execution of a
  node that starts the run in the store, replaces the role and message of the item by the stored ones,
  and settles the run by the completion record the execution left in the configuration of the node.
\<close>

section \<open>The wrapper\<close>

type_synonym exec_state = "cron_db \<times> config_state"

text \<open>The wrapped function: the state it leaves and what it returns or the text of what it raises.\<close>

type_synonym node_execution = "pydict \<Rightarrow> exec_state \<Rightarrow> exec_state \<times> (string + pyval)"

definition completion_error :: "pydict option \<Rightarrow> string + string option" where
  "completion_error completion = (case completion of
      None \<Rightarrow> Inr (Some ''Node execution ended without a completion record (stopped or skipped)'')
    | Some c \<Rightarrow> (case map_of c ''role'' of
        None \<Rightarrow> Inl ''KeyError: role''
      | Some role \<Rightarrow> if role = PStr ''assistant'' then Inr None
          else case map_of c ''message'' of
            None \<Rightarrow> Inl ''KeyError: message''
          | Some m \<Rightarrow> Inr (Some (py_str (py_or m (PStr ''Node execution failed''))))))"

text \<open>Dropping an item whose run may no longer start: nothing in flight, back to idle.\<close>

definition drop_item :: "config_env \<Rightarrow> string \<Rightarrow> exec_state \<Rightarrow> exec_state \<times> (string + pyval)" where
  "drop_item E path s = (let (db, cs) = s in
     case node_op (ce_rt E) path (SetInflight PNone) (cs_runtime cs) of
       Inl e \<Rightarrow> (s, Inl ''RuntimeStateContractError'')
     | Inr (st1, r1) \<Rightarrow> (case node_op (ce_rt E) path TransitionToIdle st1 of
         Inl e \<Rightarrow> ((db, cs\<lparr>cs_runtime := st1\<rparr>), Inl ''RuntimeStateContractError'')
       | Inr (st2, r2) \<Rightarrow> ((db, cs\<lparr>cs_runtime := st2\<rparr>), Inr PNone)))"

text \<open>\<open>t0\<close> and \<open>t1\<close> are the times when the run starts and ends, \<open>describe\<close> is the text of an exception of the
  configuration service.\<close>

definition settle_run :: "config_env \<Rightarrow> (config_error \<Rightarrow> string) \<Rightarrow> rat \<Rightarrow> string \<Rightarrow> string \<Rightarrow> pyval \<Rightarrow> exec_state \<Rightarrow> exec_state \<times> (string + pyval)" where
  "settle_run E describe t1 path run_id res s = (let (db, cs) = s in
     case read_strict E path cs of
       Inl e \<Rightarrow> (s, Inl (describe e))
     | Inr cfg \<Rightarrow> (case completion_error (find_completed_request cfg run_id) of
         Inl e \<Rightarrow> (s, Inl e)
       | Inr err \<Rightarrow> ((finish_run run_id t1 err db, cs), Inr res)))"

definition acknowledge_cron_run ::
    "config_env \<Rightarrow> (config_error \<Rightarrow> string) \<Rightarrow> (run \<Rightarrow> pyval) \<Rightarrow> rat \<Rightarrow> rat \<Rightarrow> node_execution \<Rightarrow> string \<Rightarrow> string \<Rightarrow> pydict \<Rightarrow> exec_state
       \<Rightarrow> exec_state \<times> (string + pyval)" where
  "acknowledge_cron_run E describe run_message t0 t1 execute path node item s =
     (if get item ''source'' \<noteq> PStr ''cron'' then execute item s
      else case map_of item ''trace_id'' of
        Some (PStr run_id) \<Rightarrow> (let (db, cs) = s; (db1, run) = begin_run run_id node t0 db in
          case run of
            None \<Rightarrow> drop_item E path (db1, cs)
          | Some r \<Rightarrow>
              let item' = dict_set ''payload'' (run_message r) (dict_set ''_access_role'' (PStr (r_role r)) item);
                  (s2, out) = execute item' (db1, cs) in
              case out of
                Inl e \<Rightarrow> ((finish_run run_id t1 (Some e) (fst s2), snd s2), Inl e)
              | Inr res \<Rightarrow> settle_run E describe t1 path run_id res s2)
      | Some v \<Rightarrow> drop_item E path s
      | None \<Rightarrow> (s, Inl ''KeyError: trace_id''))"

section \<open>Laws\<close>

lemma drop_item_effect:
  assumes ok: "store_ok (cs_runtime cs)" and path: "path \<noteq> []"
  shows "\<exists>cs'. drop_item E path (db, cs) = ((db, cs'), Inr PNone) \<and> cs_files cs' = cs_files cs \<and> store_ok (cs_runtime cs')
    \<and> nq_inflight (node_view (ce_rt E) path (cs_runtime cs')) = None
    \<and> nq_pending (node_view (ce_rt E) path (cs_runtime cs')) = nq_pending (node_view (ce_rt E) path (cs_runtime cs))
    \<and> (\<forall>k. k \<noteq> env_key (ce_rt E) path \<longrightarrow> item_of (cs_runtime cs') k = item_of (cs_runtime cs) k)"
proof -
  let ?q = "node_view (ce_rt E) path (cs_runtime cs)"
  obtain st1 r1 where 1: "node_op (ce_rt E) path (SetInflight PNone) (cs_runtime cs) = Inr (st1, r1)" "store_ok st1"
      "node_view (ce_rt E) path st1 = (tick ?q)\<lparr>nq_inflight := None\<rparr>"
      "\<forall>k. k \<noteq> env_key (ce_rt E) path \<longrightarrow> item_of st1 k = item_of (cs_runtime cs) k"
    using node_op_simulates [OF ok path, of "ce_rt E" "SetInflight PNone"] by auto
  obtain st2 r2 where 2: "node_op (ce_rt E) path TransitionToIdle st1 = Inr (st2, r2)" "store_ok st2"
      "nq_inflight (node_view (ce_rt E) path st2) = None" "nq_pending (node_view (ce_rt E) path st2) = nq_pending ?q"
      "\<forall>k. k \<noteq> env_key (ce_rt E) path \<longrightarrow> item_of st2 k = item_of st1 k"
    using node_op_simulates [OF 1(2) path, of "ce_rt E" TransitionToIdle] by (auto simp: 1(3) to_state_def tick_def)
  then show ?thesis using 1 by (simp add: drop_item_def)
qed

definition succeeded :: "pydict option \<Rightarrow> bool" where
  "succeeded completion \<longleftrightarrow> (\<exists>c. completion = Some c \<and> map_of c ''role'' = Some (PStr ''assistant''))"

text \<open>Completion records as \<open>record_node_request_completion\<close> writes them.\<close>

definition is_completion :: "pydict \<Rightarrow> bool" where
  "is_completion c \<longleftrightarrow> map_of c ''role'' \<noteq> None \<and> (\<exists>m. map_of c ''message'' = Some (PStr m))"

lemma completion_record_ok: "is_completion (completion_record now i role message state seq)"
  by (simp add: is_completion_def completion_record_def)

lemma completion_error_Inr:
  assumes "\<forall>c. completion = Some c \<longrightarrow> is_completion c"
  shows "\<exists>err. completion_error completion = Inr err \<and> (if succeeded completion then err = None else \<exists>m. err = Some m \<and> m \<noteq> [])"
proof (cases completion)
  case None
  then show ?thesis by (simp add: completion_error_def succeeded_def)
next
  case (Some c)
  then obtain role m where c: "map_of c ''role'' = Some role" "map_of c ''message'' = Some (PStr m)" using assms by (auto simp: is_completion_def)
  then show ?thesis
    by (cases "role = PStr ''assistant''"; cases "m = []") (simp_all add: Some completion_error_def succeeded_def py_or_def)
qed

lemma finish_run_set: "set (db_runs (finish_run i t err db)) = (\<lambda>r. if r_id r = i \<and> r_status r = CronModel.Running
    then r\<lparr>r_status := if err = None \<or> err = Some [] then Completed else Failed, r_finished := Some t, r_error := err\<rparr> else r) ` set (db_runs db)"
  by (simp add: finish_run_def set_sql_update del: if_image_distrib)

text \<open>What settling does to the runs: the one that ran gets the status, no other is touched.\<close>

definition run_settled :: "string \<Rightarrow> run_status \<Rightarrow> cron_db \<Rightarrow> cron_db \<Rightarrow> bool" where
  "run_settled i st db db' \<longleftrightarrow> db_jobs db' = db_jobs db
     \<and> (\<forall>x \<in> set (db_runs db). if r_id x = i \<and> r_status x = CronModel.Running then \<exists>y \<in> set (db_runs db'). r_id y = i \<and> r_job y = r_job x \<and> r_status y = st
          else x \<in> set (db_runs db'))
     \<and> (\<forall>y \<in> set (db_runs db'). (r_id y = i \<longrightarrow> r_status y \<noteq> CronModel.Running) \<and> (r_id y \<noteq> i \<longrightarrow> y \<in> set (db_runs db)))"

lemma finish_run_settled:
  "run_settled i (if err = None \<or> err = Some [] then Completed else Failed) db (finish_run i t err db)"
  unfolding run_settled_def finish_run_set by (auto simp: finish_run_def simp del: if_image_distrib intro: rev_image_eqI)

section \<open>Properties\<close>

text \<open>An item of a schedule is executed at most once per recovery: after its run was started, and after any cron operations
  other than a recovery, handling an item of the same run executes nothing, whatever the execution would
  do; the store of schedules stays as it is, nothing is in flight any more and the waiting items stay.\<close>

lemma cron_item_executed_once:
  assumes start: "begin_run i node0 t db = (db1, Some r)" and later: "list_all (\<lambda>tc. leaves_settled i (snd tc)) cs"
    and item: "get item ''source'' = PStr ''cron''" "map_of item ''trace_id'' = Some (PStr i)"
    and ok: "store_ok (cs_runtime conf)" "path \<noteq> []"
  shows "\<exists>conf'. acknowledge_cron_run E describe run_message t0 t1 execute path node item (run_cron cn cs db1, conf)
      = ((run_cron cn cs db1, conf'), Inr PNone) \<and> cs_files conf' = cs_files conf
    \<and> nq_inflight (node_view (ce_rt E) path (cs_runtime conf')) = None
    \<and> nq_pending (node_view (ce_rt E) path (cs_runtime conf')) = nq_pending (node_view (ce_rt E) path (cs_runtime conf))"
proof -
  have "begin_run i node t0 (run_cron cn cs db1) = (run_cron cn cs db1, None)"
    using begin_settled [OF settled_run [OF settled_begin [OF start] later]] .
  then have "acknowledge_cron_run E describe run_message t0 t1 execute path node item (run_cron cn cs db1, conf) = drop_item E path (run_cron cn cs db1, conf)"
    using item by (simp add: acknowledge_cron_run_def)
  then show ?thesis using drop_item_effect [OF ok, of E "run_cron cn cs db1"] by auto
qed

text \<open>A run that was started is settled when its execution ends: as failed when the execution raises, and else as
  completed exactly when the node left a completion record of an assistant; no run of that id stays
  running, and the execution gets the stored role and message, not those of the item.\<close>

lemma cron_run_settled:
  assumes item: "get item ''source'' = PStr ''cron''" "map_of item ''trace_id'' = Some (PStr i)"
    and start: "begin_run i node t0 db = (db1, Some r)"
    and exec: "execute (dict_set ''payload'' (run_message r) (dict_set ''_access_role'' (PStr (r_role r)) item)) (db1, conf) = ((db2, conf2), out)"
    and cfg: "read_strict E path conf2 = Inr cfg" "\<forall>c. find_completed_request cfg i = Some c \<longrightarrow> is_completion c"
    and descr: "out \<noteq> Inl []"
  shows "\<exists>db3. acknowledge_cron_run E describe run_message t0 t1 execute path node item (db, conf) = ((db3, conf2), out)
    \<and> run_settled i (if isl out \<or> \<not> succeeded (find_completed_request cfg i) then Failed else Completed) db2 db3"
proof -
  let ?ack = "acknowledge_cron_run E describe run_message t0 t1 execute path node item (db, conf)"
  have ack: "?ack = (case out of Inl e \<Rightarrow> ((finish_run i t1 (Some e) db2, conf2), Inl e) | Inr res \<Rightarrow> settle_run E describe t1 path i res (db2, conf2))"
    using item by (simp add: acknowledge_cron_run_def start exec)
  obtain err where err: "completion_error (find_completed_request cfg i) = Inr err"
      "if succeeded (find_completed_request cfg i) then err = None else \<exists>m. err = Some m \<and> m \<noteq> []"
    using completion_error_Inr [OF cfg(2)] by blast
  have settle: "settle_run E describe t1 path i res (db2, conf2) = ((finish_run i t1 err db2, conf2), Inr res)" for res
    by (simp add: settle_run_def cfg(1) err(1))
  show ?thesis
  proof (cases out)
    case (Inl e)
    then show ?thesis using finish_run_settled [of i "Some e" db2 t1] descr ack by simp
  next
    case (Inr res)
    have "(err = None \<or> err = Some []) = succeeded (find_completed_request cfg i)" using err(2) by (auto split: if_splits)
    then show ?thesis using finish_run_settled [of i err db2 t1] ack settle Inr by (simp split: if_splits)
  qed
qed

section \<open>An instance\<close>

definition sample_cron_item :: pydict where
  "sample_cron_item = [(''source'', PStr ''cron''), (''trace_id'', PStr ''r'')]"

definition sample_pending_db :: cron_db where
  "sample_pending_db = \<lparr>db_jobs = [], db_runs = [sample_pending_run]\<rparr>"

lemma sample_start: "\<exists>db1. begin_run ''r'' ''n'' 60 sample_pending_db = (db1, Some sample_pending_run)"
  by (simp add: begin_run_def sample_pending_db_def sample_pending_run_def)

lemma sample_item_fields: "get sample_cron_item ''source'' = PStr ''cron''" "map_of sample_cron_item ''trace_id'' = Some (PStr ''r'')"
  by (simp_all add: sample_cron_item_def)

lemma cron_item_executed_once_witness:
  "\<exists>db1 conf'. begin_run ''r'' ''n'' 60 sample_pending_db = (db1, Some sample_pending_run)
     \<and> acknowledge_cron_run sample_config_env (\<lambda>_. ''e'') (PStr \<circ> r_prompt) 62 63 (\<lambda>item s. (s, Inr (PInt 1))) ''n'' ''n'' sample_cron_item
         (run_cron sample_cron [(61, Finish ''r'' None)] db1, sample_configs)
       = ((run_cron sample_cron [(61, Finish ''r'' None)] db1, conf'), Inr PNone)"
proof -
  obtain db1 where db1: "begin_run ''r'' ''n'' 60 sample_pending_db = (db1, Some sample_pending_run)" using sample_start by blast
  have "store_ok (cs_runtime sample_configs)" by (simp add: sample_configs_def)
  then show ?thesis using cron_item_executed_once [OF db1 _ sample_item_fields, of "[(61, Finish ''r'' None)]" sample_configs "''n''"] db1
    by fastforce
qed

lemma cron_run_settled_witness:
  "\<exists>db1 db3. begin_run ''r'' ''n'' 60 sample_pending_db = (db1, Some sample_pending_run)
     \<and> acknowledge_cron_run sample_config_env (\<lambda>_. ''e'') (PStr \<circ> r_prompt) 60 63 (\<lambda>item s. (s, Inr (PInt 1))) ''n'' ''n'' sample_cron_item
         (sample_pending_db, sample_configs) = ((db3, sample_configs), Inr (PInt 1))
     \<and> run_settled ''r'' Failed db1 db3"
proof -
  obtain db1 where db1: "begin_run ''r'' ''n'' 60 sample_pending_db = (db1, Some sample_pending_run)" using sample_start by blast
  have none: "find_completed_request sample_merged ''r'' = None"
    by (simp add: find_completed_request_def completed_requests_def sample_merged_def sample_config_def RUNTIME_STATE_DEFAULTS_def)
  have "\<exists>db3. acknowledge_cron_run sample_config_env (\<lambda>_. ''e'') (PStr \<circ> r_prompt) 60 63 (\<lambda>item s. (s, Inr (PInt 1))) ''n'' ''n'' sample_cron_item
      (sample_pending_db, sample_configs) = ((db3, sample_configs), Inr (PInt 1))
    \<and> run_settled ''r'' (if isl (Inr (PInt 1) :: string + pyval) \<or> \<not> succeeded (find_completed_request sample_merged ''r'') then Failed else Completed) db1 db3"
    by (rule cron_run_settled [OF sample_item_fields db1 _ sample_read]) (simp_all add: none)
  then show ?thesis using db1 none by (simp add: succeeded_def)
qed

end
