(* ===== verification/CronContract.thy ===== *)
theory CronContract
  imports CronLaws
begin

text \<open>
  What the tools check before a schedule is stored (\<open>cron/schedule.py\<close>, \<open>cron/tools.py\<close>): the validators of the inputs, from the texts
  that a model sends to a validated job, and the contract that every stored job meets because of them. What is not under \<open>src/\<close> or
  depends on data of the host is a parameter: \<open>croniter.is_valid\<close>, the zones that \<open>ZoneInfo\<close> finds, and the wall clock time and
  offset, in microseconds, that \<open>datetime.fromisoformat\<close> reads from a text.
\<close>

section \<open>Inputs\<close>

datatype raw_schedule = RawAt string | RawEvery int | RawCron string string

record schedule_rules =
  sr_valid :: "string \<Rightarrow> bool"
  sr_zone :: "string \<Rightarrow> bool"
  sr_iso :: "string \<Rightarrow> (int \<times> int option) option"

text \<open>The instants of the years 1 to 9999 in UTC.\<close>

definition in_utc_range :: "int \<Rightarrow> bool" where
  "in_utc_range us \<longleftrightarrow> - 62135596800000000 \<le> us \<and> us \<le> 253402300799999999"

definition validate_at :: "schedule_rules \<Rightarrow> string \<Rightarrow> schedule cron_res" where
  "validate_at R value = (case sr_iso R value of
      None \<Rightarrow> Inl (CronValueError ''Invalid isoformat string'')
    | Some (wall, None) \<Rightarrow> Inl (CronValueError ''at must include a timezone offset'')
    | Some (wall, Some offset) \<Rightarrow> if in_utc_range (wall - offset) then Inr (AtSchedule (wall - offset))
        else Inl (CronValueError ''date value out of range''))"

definition validate_timezone :: "schedule_rules \<Rightarrow> string \<Rightarrow> string cron_res" where
  "validate_timezone R value = (if sr_zone R value then Inr value else Inl (CronValueError ''No time zone found''))"

fun validate_schedule :: "schedule_rules \<Rightarrow> raw_schedule \<Rightarrow> schedule cron_res" where
  "validate_schedule R (RawAt value) = validate_at R value"
| "validate_schedule R (RawEvery n) = (if 60 \<le> n \<and> n \<le> 31536000 then Inr (EverySchedule n) else Inl (CronValueError ''seconds''))"
| "validate_schedule R (RawCron expression zone) =
     rbind (validate_expression (sr_valid R) expression) (\<lambda>e. rbind (validate_timezone R zone) (\<lambda>z. Inr (CronSchedule e z)))"

record raw_job =
  rj_name :: string
  rj_prompt :: string
  rj_schedule :: raw_schedule

definition validate_create :: "schedule_rules \<Rightarrow> raw_job \<Rightarrow> create_job cron_res" where
  "validate_create R raw = rbind (validate_schedule R (rj_schedule raw)) (\<lambda>s.
     if bounded_text 120 (rj_name raw) \<and> bounded_text 32000 (rj_prompt raw)
     then Inr \<lparr>cj_name = rj_name raw, cj_prompt = rj_prompt raw, cj_schedule = s\<rparr> else Inl (CronValueError ''name or prompt''))"

text \<open>A field is not set, set to null, or set to a value.\<close>

record raw_update =
  ru_job_id :: string
  ru_expected_revision :: int
  ru_name :: "string option option"
  ru_prompt :: "string option option"
  ru_schedule :: "raw_schedule option option"
  ru_enabled :: "bool option option"

definition validate_field :: "('a \<Rightarrow> 'b cron_res) \<Rightarrow> 'a option option \<Rightarrow> 'b option option cron_res" where
  "validate_field f v = (case v of Some (Some x) \<Rightarrow> rbind (f x) (\<lambda>y. Inr (Some (Some y))) | Some None \<Rightarrow> Inr (Some None) | None \<Rightarrow> Inr None)"

definition check_text :: "nat \<Rightarrow> string \<Rightarrow> string cron_res" where
  "check_text n s = (if bounded_text n s then Inr s else Inl (CronValueError ''text''))"

definition validate_update :: "schedule_rules \<Rightarrow> raw_update \<Rightarrow> update_job cron_res" where
  "validate_update R raw = (if ru_job_id raw = [] \<or> ru_expected_revision raw < 1 then Inl (CronValueError ''job_id or expected_revision'')
     else rbind (validate_field (check_text 120) (ru_name raw)) (\<lambda>name.
       rbind (validate_field (check_text 32000) (ru_prompt raw)) (\<lambda>prompt.
       rbind (validate_field (validate_schedule R) (ru_schedule raw)) (\<lambda>sched.
         Inr \<lparr>uj_job_id = ru_job_id raw, uj_expected_revision = ru_expected_revision raw, uj_name = name, uj_prompt = prompt,
           uj_schedule = sched, uj_enabled = ru_enabled raw\<rparr>))))"

definition validate_delete :: "string \<Rightarrow> int \<Rightarrow> (string \<times> int) cron_res" where
  "validate_delete job_id revision = (if job_id = [] \<or> revision < 1 then Inl (CronValueError ''job_id or expected_revision'') else Inr (job_id, revision))"

section \<open>Calls\<close>

text \<open>A call of a tool, with the identity and the role of the runtime, or a command of the backend itself.\<close>

datatype cron_call =
    ToolCreate string string raw_job string
  | ToolUpdate string raw_update string
  | ToolDelete string string int
  | Backend cron_cmd

fun call_command :: "schedule_rules \<Rightarrow> cron_call \<Rightarrow> cron_cmd cron_res" where
  "call_command R (ToolCreate uuid node raw role) = rbind (validate_create R raw) (\<lambda>spec. Inr (Create uuid node spec role))"
| "call_command R (ToolUpdate node raw role) = rbind (validate_update R raw) (\<lambda>spec. Inr (Update node spec role))"
| "call_command R (ToolDelete node i n) = rbind (validate_delete i n) (\<lambda>(i, n). Inr (Delete node i n))"
| "call_command R (Backend c) = Inr c"

definition commit_call :: "schedule_rules \<Rightarrow> croniter \<Rightarrow> rat \<times> cron_call \<Rightarrow> cron_db \<Rightarrow> cron_db" where
  "commit_call R cn tc db = (case call_command R (snd tc) of Inl e \<Rightarrow> db | Inr c \<Rightarrow> commit_cron cn (fst tc, c) db)"

definition run_calls :: "schedule_rules \<Rightarrow> croniter \<Rightarrow> (rat \<times> cron_call) list \<Rightarrow> cron_db \<Rightarrow> cron_db" where
  "run_calls R cn calls db = fold (commit_call R cn) calls db"

text \<open>Jobs are written from inputs by the tools only.\<close>

fun backend_only :: "cron_call \<Rightarrow> bool" where
  "backend_only (Backend (Create uuid node spec role)) = False"
| "backend_only (Backend (Update node spec role)) = False"
| "backend_only _ = True"

section \<open>The contract\<close>

definition plain_word :: "string \<Rightarrow> bool" where
  "plain_word w \<longleftrightarrow> w \<noteq> [] \<and> (\<forall>c \<in> set w. \<not> is_space c)"

text \<open>An instant that some text with an offset names, an interval between a minute and a year, or an expression of five fields with single
  blanks between them that croniter takes, in a zone that is known.\<close>

definition schedule_contract :: "schedule_rules \<Rightarrow> schedule \<Rightarrow> bool" where
  "schedule_contract R s \<longleftrightarrow> (case s of
      AtSchedule us \<Rightarrow> in_utc_range us \<and> (\<exists>text wall offset. sr_iso R text = Some (wall, Some offset) \<and> us = wall - offset)
    | EverySchedule n \<Rightarrow> 60 \<le> n \<and> n \<le> 31536000
    | CronSchedule e z \<Rightarrow> (\<exists>fields. length fields = 5 \<and> (\<forall>f \<in> set fields. plain_word f) \<and> e = join_with '' '' fields)
        \<and> sr_valid R e \<and> sr_zone R z)"

definition job_contract :: "schedule_rules \<Rightarrow> string \<Rightarrow> string \<Rightarrow> schedule \<Rightarrow> bool" where
  "job_contract R name prompt s \<longleftrightarrow> bounded_text 120 name \<and> bounded_text 32000 prompt \<and> schedule_contract R s"

lemma py_words_step:
  "dropWhile is_space s = [] \<Longrightarrow> py_words s = []"
  "dropWhile is_space s \<noteq> [] \<Longrightarrow> py_words s = takeWhile (\<lambda>c. \<not> is_space c) (dropWhile is_space s)
     # py_words (dropWhile (\<lambda>c. \<not> is_space c) (dropWhile is_space s))"
  by (subst py_words.simps, simp add: Let_def)+

lemma first_word: "dropWhile is_space s \<noteq> [] \<Longrightarrow> plain_word (takeWhile (\<lambda>c. \<not> is_space c) (dropWhile is_space s))"
  using hd_dropWhile [of is_space s] by (auto simp: plain_word_def takeWhile_eq_Nil_iff dest: set_takeWhileD)

lemma py_words_plain: "\<forall>f \<in> set (py_words s). plain_word f"
proof (induction s rule: py_words.induct)
  case (1 s)
  show ?case
  proof (cases "dropWhile is_space s = []")
    case True
    then show ?thesis by (simp add: py_words_step(1))
  next
    case False
    then show ?thesis unfolding py_words_step(2) [OF False] using first_word 1 [OF refl False] by (simp only: list.set ball_simps simp_thms)
  qed
qed

lemma word_then:
  assumes w: "plain_word w" and rest: "rest = [] \<or> is_space (hd rest)"
  shows "py_words (w @ rest) = w # py_words rest"
proof -
  note assms = w [unfolded plain_word_def, THEN conjunct1] w [unfolded plain_word_def, THEN conjunct2] rest
  have "\<not> is_space (hd w)" using assms(1,2) by simp
  then have d: "dropWhile is_space (w @ rest) = w @ rest" using assms(1) by (cases w) simp_all
  have "takeWhile (\<lambda>c. \<not> is_space c) (w @ rest) = w \<and> dropWhile (\<lambda>c. \<not> is_space c) (w @ rest) = rest"
    using assms(2,3) by (cases rest) (auto simp: takeWhile_append dropWhile_append)
  then show ?thesis using assms(1) py_words_step(2) [of "w @ rest"] by (simp add: d)
qed

lemma py_words_blank: "py_words (CHR '' '' # s) = py_words s"
proof -
  have "is_space (CHR '' '')" by (simp add: is_space_def char_code_def)
  then have "dropWhile is_space (CHR '' '' # s) = dropWhile is_space s" by simp
  then show ?thesis using py_words_step [of s] py_words_step [of "CHR '' '' # s"] by (cases "dropWhile is_space s = []") simp_all
qed

lemma words_of_joined: "\<forall>f \<in> set fs. plain_word f \<Longrightarrow> py_words (join_with '' '' fs) = fs"
proof (induction "'' '' :: string" fs rule: join_with.induct)
  case 1
  show ?case by (simp add: py_words_step(1))
next
  case (2 s)
  then show ?case using word_then [of s "[]"] by (simp add: py_words_step(1))
next
  case (3 s t ts)
  have "is_space (CHR '' '')" by (simp add: is_space_def char_code_def)
  then show ?case using 3 word_then [of s "CHR '' '' # join_with '' '' (t # ts)"] by (simp add: py_words_blank)
qed

lemma validate_schedule_contract: "validate_schedule R raw = Inr s \<Longrightarrow> schedule_contract R s"
proof (cases raw)
  case (RawCron e z)
  assume v: "validate_schedule R raw = Inr s"
  let ?e = "join_with '' '' (py_words e)"
  have w: "py_words ?e = py_words e" by (rule words_of_joined [OF py_words_plain])
  have "s = CronSchedule ?e z" "length (py_words e) = 5" "sr_valid R ?e" "sr_zone R z"
    using v w by (auto simp: RawCron validate_expression_def validate_timezone_def rbind_eq_Inr Let_def split: if_split_asm)
  then show ?thesis using py_words_plain [of e] by (auto simp: schedule_contract_def)
next
  case (RawAt v)
  assume "validate_schedule R raw = Inr s"
  then obtain wall offset where "sr_iso R v = Some (wall, Some offset)" "in_utc_range (wall - offset)" "s = AtSchedule (wall - offset)"
    by (auto simp: RawAt validate_at_def split: option.splits prod.splits if_split_asm)
  then show ?thesis unfolding schedule_contract_def by auto
qed (auto simp: schedule_contract_def split: if_split_asm)

lemma validate_create_contract: "validate_create R raw = Inr spec \<Longrightarrow> job_contract R (cj_name spec) (cj_prompt spec) (cj_schedule spec)"
  by (auto simp: validate_create_def rbind_eq_Inr job_contract_def validate_schedule_contract split: if_split_asm)

lemma validate_field_Inr: "validate_field f v = Inr r \<Longrightarrow> field r = Some y \<Longrightarrow> \<exists>x. f x = Inr y"
  by (auto simp: validate_field_def field_def rbind_eq_Inr split: option.splits)

lemma validate_update_contract:
  assumes "validate_update R raw = Inr spec" and "job_contract R name prompt s"
  shows "job_contract R (value_or (field (uj_name spec)) name) (value_or (field (uj_prompt spec)) prompt) (value_or (field (uj_schedule spec)) s)"
proof -
  have v: "validate_field (check_text 120) (ru_name raw) = Inr (uj_name spec)" "validate_field (check_text 32000) (ru_prompt raw) = Inr (uj_prompt spec)"
      "validate_field (validate_schedule R) (ru_schedule raw) = Inr (uj_schedule spec)"
    using assms(1) by (auto simp: validate_update_def rbind_eq_Inr split: if_split_asm)
  have "bounded_text 120 (value_or (field (uj_name spec)) name)"
    using validate_field_Inr [OF v(1)] assms(2) by (auto simp: value_or_def check_text_def job_contract_def split: option.split if_split_asm)
  moreover have "bounded_text 32000 (value_or (field (uj_prompt spec)) prompt)"
    using validate_field_Inr [OF v(2)] assms(2) by (auto simp: value_or_def check_text_def job_contract_def split: option.split if_split_asm)
  moreover have "schedule_contract R (value_or (field (uj_schedule spec)) s)"
    using validate_field_Inr [OF v(3)] assms(2) validate_schedule_contract by (auto simp: value_or_def job_contract_def split: option.split)
  ultimately show ?thesis by (simp add: job_contract_def)
qed

text \<open>The contracts of the inputs are what the commands of the invariant ask for.\<close>

lemma contract_schedule_ok: "schedule_contract R s \<Longrightarrow> schedule_ok s"
  by (auto simp: schedule_contract_def schedule_ok_def split: schedule.splits)

lemma tool_commands_ok: "call_command R call = Inr c \<Longrightarrow> (\<forall>d. call \<noteq> Backend d) \<Longrightarrow> cmd_ok c"
proof (cases call)
  case (ToolCreate uuid node raw role)
  then show "call_command R call = Inr c \<Longrightarrow> ?thesis"
    using validate_create_contract contract_schedule_ok by (fastforce simp: rbind_eq_Inr create_job_ok_def job_contract_def)
next
  case (ToolUpdate node raw role)
  assume "call_command R call = Inr c"
  then obtain spec where c: "c = Update node spec role" and v: "validate_update R raw = Inr spec" using ToolUpdate by (auto simp: rbind_eq_Inr)
  have p: "validate_field (check_text 120) (ru_name raw) = Inr (uj_name spec)" "validate_field (check_text 32000) (ru_prompt raw) = Inr (uj_prompt spec)"
      "validate_field (validate_schedule R) (ru_schedule raw) = Inr (uj_schedule spec)" "uj_job_id spec \<noteq> []" "1 \<le> uj_expected_revision spec"
    using v by (auto simp: validate_update_def rbind_eq_Inr split: if_split_asm)
  have "uj_name spec = Some (Some x) \<Longrightarrow> bounded_text 120 x" for x
    using validate_field_Inr [OF p(1), of x] by (auto simp: field_def check_text_def split: if_split_asm)
  moreover have "uj_prompt spec = Some (Some x) \<Longrightarrow> bounded_text 32000 x" for x
    using validate_field_Inr [OF p(2), of x] by (auto simp: field_def check_text_def split: if_split_asm)
  moreover have "uj_schedule spec = Some (Some x) \<Longrightarrow> schedule_ok x" for x
    using validate_field_Inr [OF p(3), of x] by (auto simp: field_def intro: contract_schedule_ok [OF validate_schedule_contract])
  ultimately show ?thesis using p(4,5) by (auto simp: c update_job_ok_def split: option.split)
qed (auto simp: validate_delete_def rbind_eq_Inr split: if_split_asm)

section \<open>Stored jobs\<close>

definition jobs_meet :: "schedule_rules \<Rightarrow> cron_db \<Rightarrow> bool" where
  "jobs_meet R db \<longleftrightarrow> (\<forall>j \<in> set (db_jobs db). job_contract R (j_name j) (j_prompt j) (j_schedule j) \<and> known_role (j_role j))"

lemma meet_due_row:
  assumes "due_row cn uuid now row db = Inr db'" and "jobs_meet R db"
  shows "jobs_meet R db'"
  using assms(1) by (cases rule: due_row_cases)
    (use assms(2) in \<open>auto simp: jobs_meet_def advance_def set_sql_update split: if_splits\<close>)

lemma call_meets:
  assumes m: "jobs_meet R db" and c: "call_command R call = Inr c" "backend_only call" and s: "cron_step cn now c db = Inr db'"
  shows "jobs_meet R db'"
proof (cases c)
  case (Create uuid node spec role)
  then obtain raw where "validate_create R raw = Inr spec" using c by (cases call) (auto simp: rbind_eq_Inr)
  note v = validate_create_contract [OF this]
  show ?thesis using s Create m v by (auto simp: cron_create_def jobs_meet_def split: if_splits option.splits)
next
  case (Update node spec role)
  then obtain raw where "validate_update R raw = Inr spec" using c by (cases call) (auto simp: rbind_eq_Inr)
  note v = validate_update_contract [OF this]
  obtain row d' where r: "row \<in> set (db_jobs db)" "known_role role"
      "db' = db\<lparr>db_runs := updated_runs spec now row (merged_role (j_role row) role) (db_runs db),
        db_jobs := sql_update (\<lambda>j. j_id j = uj_job_id spec) (updated_job spec now row (merged_role (j_role row) role) d') (db_jobs db)\<rparr>"
    using s Update by (auto simp: cron_update_def Let_def split: if_splits dest!: owned_Inr)
  have row: "job_contract R (j_name row) (j_prompt row) (j_schedule row)" "known_role (j_role row)" using m r(1) by (simp_all add: jobs_meet_def)
  show ?thesis using m v [OF row(1)] row(2) r(2) by (auto simp: r(3) jobs_meet_def set_sql_update updated_job_def merged_role_def known_role_def)
next
  case (Materialize uuid)
  then have f: "rfold (due_row cn uuid now) (filter (job_due now) (db_jobs db)) db = Inr db'" using s by (simp add: materialize_due_def)
  show ?thesis by (intro rfold_invariant [OF f, of "jobs_meet R"]) (use m meet_due_row in auto)
qed (use s m in \<open>auto simp: jobs_meet_def cron_delete_def recover_interrupted_def begin_run_def finish_run_def
    delivery_error_def cron_node_departure_def cron_node_rename_def set_sql_update split: if_splits option.splits\<close>)

text \<open>C34. Whatever the tools are called with, in any order with the polls, executions, restarts and node changes, every stored job meets the
  contract of the inputs: a bounded name and prompt that are not blank, a known role, and a schedule that is an instant in the range of
  dates that some text with an offset names, an interval between a minute and a year, or five fields with single blanks between them that
  croniter takes, in a known zone.\<close>

theorem stored_jobs_meet_contract:
  assumes "\<forall>(t, call) \<in> set calls. backend_only call" and "j \<in> set (db_jobs (run_calls R cn calls empty_cron))"
  shows "bounded_text 120 (j_name j) \<and> bounded_text 32000 (j_prompt j) \<and> schedule_contract R (j_schedule j) \<and> known_role (j_role j)"
proof -
  have "jobs_meet R (run_calls R cn calls db)" if "jobs_meet R db" "\<forall>(t, call) \<in> set calls. backend_only call" for db
    using that
  proof (induction calls arbitrary: db)
    case (Cons tc calls)
    obtain t call where tc: "tc = (t, call)" by (cases tc)
    have "jobs_meet R (commit_call R cn tc db)"
      using Cons.prems call_meets [of R db call] by (auto simp: tc commit_call_def commit_cron_def split: sum.split)
    then show ?case using Cons by (simp add: run_calls_def)
  qed (simp add: run_calls_def)
  from this [of empty_cron] show ?thesis using assms by (auto simp: jobs_meet_def empty_cron_def job_contract_def)
qed

section \<open>An instance\<close>

definition sample_rules :: schedule_rules where
  "sample_rules = \<lparr>sr_valid = (\<lambda>e. e = ''0 9 * * 1''), sr_zone = (\<lambda>z. z = ''UTC''), sr_iso = (\<lambda>s. None)\<rparr>"

definition sample_calls :: "(rat \<times> cron_call) list" where
  "sample_calls = [(60, ToolCreate ''1'' ''n'' \<lparr>rj_name = ''a'', rj_prompt = ''b'', rj_schedule = RawCron '' 0  9 * * 1'' ''UTC''\<rparr> ''developer''),
     (70, ToolCreate ''2'' ''n'' \<lparr>rj_name = ''c'', rj_prompt = ''b'', rj_schedule = RawCron ''0 9 * *'' ''UTC''\<rparr> ''developer'')]"

lemma sample_expression: "validate_expression (sr_valid sample_rules) '' 0  9 * * 1'' = Inr ''0 9 * * 1''"
  "\<exists>e. validate_expression (sr_valid sample_rules) ''0 9 * *'' = Inl e"
proof -
  have "is_space (CHR '' '')" by (simp add: is_space_def char_code_def)
  then have b: "\<not> is_space (CHR ''0'')" "\<not> is_space (CHR ''9'')" "\<not> is_space (CHR ''*'')" "\<not> is_space (CHR ''1'')" "is_space (CHR '' '')"
    by (simp_all add: is_space_def char_code_def)
  have w: "py_words '' 0  9 * * 1'' = [''0'', ''9'', ''*'', ''*'', ''1'']" "py_words ''0 9 * * 1'' = [''0'', ''9'', ''*'', ''*'', ''1'']"
    "py_words ''0 9 * *'' = [''0'', ''9'', ''*'', ''*'']" by (simp_all add: py_words.simps b Let_def)
  show "validate_expression (sr_valid sample_rules) '' 0  9 * * 1'' = Inr ''0 9 * * 1''"
    "\<exists>e. validate_expression (sr_valid sample_rules) ''0 9 * *'' = Inl e"
    by (simp_all add: validate_expression_def w sample_rules_def Let_def)
qed

theorem stored_jobs_meet_contract_witness:
  "map j_schedule (db_jobs (run_calls sample_rules sample_cron sample_calls empty_cron)) = [CronSchedule ''0 9 * * 1'' ''UTC'']
    \<and> list_all (\<lambda>j. schedule_contract sample_rules (j_schedule j)) (db_jobs (run_calls sample_rules sample_cron sample_calls empty_cron))"
proof -
  have b: "bounded_text 120 ''a''" "bounded_text 32000 ''b''" by (simp_all add: bounded_text_def is_space_def char_code_def)
  have z: "sr_zone sample_rules ''UTC''" by (simp add: sample_rules_def)
  have "validate_create sample_rules \<lparr>rj_name = ''a'', rj_prompt = ''b'', rj_schedule = RawCron '' 0  9 * * 1'' ''UTC''\<rparr>
      = Inr \<lparr>cj_name = ''a'', cj_prompt = ''b'', cj_schedule = CronSchedule ''0 9 * * 1'' ''UTC''\<rparr>"
    by (simp add: validate_create_def sample_expression(1) validate_timezone_def z b)
  moreover obtain e where "validate_create sample_rules \<lparr>rj_name = ''c'', rj_prompt = ''b'', rj_schedule = RawCron ''0 9 * *'' ''UTC''\<rparr> = Inl e"
    using sample_expression(2) by (auto simp: validate_create_def)
  ultimately have r: "map j_schedule (db_jobs (run_calls sample_rules sample_cron sample_calls empty_cron)) = [CronSchedule ''0 9 * * 1'' ''UTC'']"
    by (simp add: run_calls_def sample_calls_def commit_call_def commit_cron_def cron_create_def known_role_def empty_cron_def next_deadline_def
        sample_cron_def put_jobs_def jobs_unique_def owned_def)
  have g: "\<forall>(t, call) \<in> set sample_calls. backend_only call" by (simp add: sample_calls_def)
  show ?thesis unfolding list_all_iff using r stored_jobs_meet_contract [OF g] by blast
qed

end
