(* ===== verification/GraphRunner.thy ===== *)
theory GraphRunner
  imports ConfigLaws
begin

text \<open>
  The scheduler of a graph (\<open>web_backend/graph_runner_runtime.py\<close>). One thread waits to be woken, walks over
  the nodes of the graph, takes an item from the queue of every node that may start and hands it to a thread
  of its own. The walk is a machine whose steps are the actions other threads can come between.
\<close>

section \<open>State\<close>

text \<open>An entry of \<open>active_tasks\<close>; the future of a task is done or not, \<open>et_item\<close> is what its thread works on.\<close>

record exec_task =
  et_node :: string
  et_trace :: string
  et_item :: pydict
  et_done :: bool

text \<open>Where the scheduler is: the node under consideration, its configuration as read, the nodes still to visit
  and the items counted as ready so far.\<close>

datatype sched_pc =
    Waiting
  | Scan "string list" int
  | CheckRunning string pydict "string list" int
  | EnsurePorts string pydict "string list" int
  | RecoverNode string pydict "string list" int
  | CountReady string pydict "string list" int
  | TakeItem string nat "string list" int
  | SubmitTask string pydict "string list" int
  | Exited

record runner =
  ru_tasks :: "exec_task dict"
  ru_ready :: int
  ru_generation :: nat
  ru_observed :: nat
  ru_stop :: bool
  ru_pc :: sched_pc

text \<open>The surroundings: the configuration service, the path of a node's configuration, the owner of this backend, and
  what the class of a node says about its ports, which may fail.\<close>

record runner_env =
  re_config :: config_env
  re_path :: "string \<Rightarrow> string"
  re_owner :: string
  re_ports :: "string \<Rightarrow> string \<Rightarrow> (int \<times> int) option"

type_synonym graph_state = "runner \<times> config_state"

section \<open>Parts of a visit\<close>

text \<open>The queue operations read the type of a node from its file.\<close>

definition queue_rt :: "config_env \<Rightarrow> config_state \<Rightarrow> rt_env" where
  "queue_rt C cs = (ce_rt C)\<lparr>env_config := (\<lambda>path. case read_optional_object C path cs of Inr d \<Rightarrow> d | Inl _ \<Rightarrow> [])\<rparr>"

definition node_is_running :: "string \<Rightarrow> exec_task dict \<Rightarrow> bool" where
  "node_is_running node tasks \<longleftrightarrow> list_ex (\<lambda>(k, t). et_node t = node \<and> \<not> et_done t) tasks"

definition cleanup_finished_tasks :: "exec_task dict \<Rightarrow> exec_task dict" where
  "cleanup_finished_tasks tasks = filter (\<lambda>(k, t). \<not> et_done t) tasks"

definition ready_pending_count_for_config :: "pydict \<Rightarrow> nat" where
  "ready_pending_count_for_config cfg =
     (if truthy (get cfg ''_delete_requested'') then 0
      else let state = parse_node_state (get cfg ''state'');
               clock_waiting = (state = Working \<and> text_of (get cfg ''type_id'') = ''clock_node''
                 \<and> truthy (get cfg ''_clock_running'') \<and> \<not> is_dict (get cfg ''inflight''))
           in if state \<noteq> Idle \<and> \<not> clock_waiting then 0 else length (list_items (get cfg ''pending'')))"

text \<open>The ports of a node that has none yet: the configuration with them, and the files.\<close>

definition ensure_node_runtime_ports :: "runner_env \<Rightarrow> string \<Rightarrow> pydict \<Rightarrow> config_state \<Rightarrow> (config_state \<times> pydict) config_res" where
  "ensure_node_runtime_ports E node cfg cs =
     (if \<not> is_none (get cfg ''input_num'') \<and> \<not> is_none (get cfg ''output_num'') then Inr (cs, cfg)
      else case re_ports E node (text_of (get cfg ''type_id'')) of
        None \<Rightarrow> Inr (cs, [])
      | Some (i, n) \<Rightarrow> rbind (patch_persistent_fields (re_config E) (re_path E node) [(''input_num'', PInt i), (''output_num'', PInt n)] cs)
          (\<lambda>(cs', _). Inr (cs', dict_set ''output_num'' (PInt n) (dict_set ''input_num'' (PInt i) cfg))))"

definition task_id_of :: "string \<Rightarrow> string \<Rightarrow> string" where
  "task_id_of trace_id node = trace_id @ '':'' @ node"

text \<open>The trace of an item, or a new identifier; the item handed on carries it.\<close>

definition item_trace :: "string \<Rightarrow> pydict \<Rightarrow> string" where
  "item_trace uuid item = (if text_of (get item ''trace_id'') = [] then uuid else text_of (get item ''trace_id''))"

definition submit_executor_task :: "string \<Rightarrow> string \<Rightarrow> pydict \<Rightarrow> exec_task dict \<Rightarrow> exec_task dict" where
  "submit_executor_task uuid node item tasks = (let trace_id = item_trace uuid item; task_id = task_id_of trace_id node in
     if dict_has tasks task_id then tasks
     else dict_set task_id \<lparr>et_node = node, et_trace = trace_id, et_item = dict_set ''trace_id'' (PStr trace_id) item, et_done = False\<rparr> tasks)"

section \<open>Steps of the scheduler\<close>

text \<open>What a step takes from outside: the nodes that a batch finds, or that it finds none to begin with, and an
  identifier for an item without a trace.\<close>

datatype sched_input = StartBatch "string list" | SkipBatch | NewTrace string

definition next_node :: "runner \<Rightarrow> string list \<Rightarrow> int \<Rightarrow> runner" where
  "next_node ru rest n = ru\<lparr>ru_pc := Scan rest n\<rparr>"

text \<open>An exception of a step ends the thread.\<close>

definition end_batch :: "runner \<Rightarrow> int \<Rightarrow> runner" where
  "end_batch ru n = ru\<lparr>ru_ready := max 0 n, ru_pc := Waiting\<rparr>"

definition wait_step :: "sched_input \<Rightarrow> runner \<Rightarrow> runner option" where
  "wait_step inp ru = (if ru_generation ru \<le> ru_observed ru \<and> \<not> ru_stop ru then None
     else let ru1 = ru\<lparr>ru_observed := ru_generation ru\<rparr> in
       if ru_stop ru then Some (ru1\<lparr>ru_pc := Exited\<rparr>)
       else let ru2 = ru1\<lparr>ru_tasks := cleanup_finished_tasks (ru_tasks ru)\<rparr> in
         case inp of StartBatch entries \<Rightarrow> Some (next_node ru2 (filter (\<lambda>e. e \<noteq> ''agents'') entries) 0)
         | SkipBatch \<Rightarrow> Some (end_batch ru2 0)
         | NewTrace _ \<Rightarrow> None)"

fun sched_step :: "runner_env \<Rightarrow> sched_input \<Rightarrow> graph_state \<Rightarrow> graph_state option" where
  "sched_step E inp (ru, cs) = (case ru_pc ru of
     Waiting \<Rightarrow> map_option (\<lambda>ru'. (ru', cs)) (wait_step inp ru)
   | Scan [] n \<Rightarrow> Some (end_batch ru n, cs)
   | Scan (e # rest) n \<Rightarrow> (case read_optional_object (re_config E) (re_path E e) cs of
         Inl _ \<Rightarrow> Some (ru\<lparr>ru_pc := Exited\<rparr>, cs)
       | Inr cfg \<Rightarrow> Some (if cfg = [] then next_node ru rest n else if ru_stop ru then end_batch ru n
           else ru\<lparr>ru_pc := CheckRunning e cfg rest n\<rparr>, cs))
   | CheckRunning e cfg rest n \<Rightarrow> Some (if node_is_running e (ru_tasks ru) then next_node ru rest n
       else ru\<lparr>ru_pc := EnsurePorts e cfg rest n\<rparr>, cs)
   | EnsurePorts e cfg rest n \<Rightarrow> (case ensure_node_runtime_ports E e cfg cs of
         Inl _ \<Rightarrow> Some (ru\<lparr>ru_pc := Exited\<rparr>, cs)
       | Inr (cs', cfg') \<Rightarrow> Some (if cfg' = [] then next_node ru rest n else ru\<lparr>ru_pc := RecoverNode e cfg' rest n\<rparr>, cs'))
   | RecoverNode e cfg rest n \<Rightarrow> (case node_op (queue_rt (re_config E) cs) (re_path E e) RecoverStale (cs_runtime cs) of
         Inl _ \<Rightarrow> Some (ru\<lparr>ru_pc := Exited\<rparr>, cs)
       | Inr (st, report) \<Rightarrow> (let cs' = cs\<lparr>cs_runtime := st\<rparr> in
           if truthy (get (dict_items report) ''recovered'')
           then case read_optional_object (re_config E) (re_path E e) cs' of
               Inl _ \<Rightarrow> Some (ru\<lparr>ru_pc := Exited\<rparr>, cs')
             | Inr cfg' \<Rightarrow> Some (if cfg' = [] then next_node ru rest n else ru\<lparr>ru_pc := CountReady e cfg' rest n\<rparr>, cs')
           else Some (ru\<lparr>ru_pc := CountReady e cfg rest n\<rparr>, cs')))
   | CountReady e cfg rest n \<Rightarrow> (let r = ready_pending_count_for_config cfg in
       Some (if r = 0 then next_node ru rest n else ru\<lparr>ru_pc := TakeItem e r rest n\<rparr>, cs))
   | TakeItem e r rest n \<Rightarrow> (case node_op (queue_rt (re_config E) cs) (re_path E e) (DequeueToWorking (PStr (re_owner E))) (cs_runtime cs) of
         Inl _ \<Rightarrow> Some (ru\<lparr>ru_pc := Exited\<rparr>, cs)
       | Inr (st, v) \<Rightarrow> Some (case v of PDict item \<Rightarrow> ru\<lparr>ru_pc := SubmitTask e item rest (n + max 0 (int r - 1))\<rparr>
           | _ \<Rightarrow> next_node ru rest (n + int r), cs\<lparr>cs_runtime := st\<rparr>))
   | SubmitTask e item rest n \<Rightarrow> (case inp of NewTrace uuid \<Rightarrow>
         Some (ru\<lparr>ru_tasks := submit_executor_task uuid e item (ru_tasks ru), ru_pc := Scan rest n\<rparr>, cs)
       | _ \<Rightarrow> None)
   | Exited \<Rightarrow> None)"

section \<open>Runs\<close>

text \<open>Everything that happens to a graph while it has one runner: steps of its scheduler, a task whose future is done, a wake, a request to stop,
  a request for the status, which drops finished tasks, and a call on the queue of a node by any other thread.\<close>

datatype graph_event = Sched sched_input | FutureDone string | WakeRunner | StopRunner | ReadStatus | NodeCall string node_cmd

definition finish_task :: "string \<Rightarrow> exec_task dict \<Rightarrow> exec_task dict" where
  "finish_task i tasks = map (\<lambda>(k, t). (k, if k = i then t\<lparr>et_done := True\<rparr> else t)) tasks"

fun graph_step :: "runner_env \<Rightarrow> graph_event \<Rightarrow> graph_state \<Rightarrow> graph_state option" where
  "graph_step E (Sched inp) s = sched_step E inp s"
| "graph_step E (FutureDone i) (ru, cs) = Some (ru\<lparr>ru_tasks := finish_task i (ru_tasks ru)\<rparr>, cs)"
| "graph_step E WakeRunner (ru, cs) = Some (ru\<lparr>ru_generation := ru_generation ru + 1\<rparr>, cs)"
| "graph_step E StopRunner (ru, cs) = Some (ru\<lparr>ru_stop := True\<rparr>, cs)"
| "graph_step E ReadStatus (ru, cs) = Some (ru\<lparr>ru_tasks := cleanup_finished_tasks (ru_tasks ru)\<rparr>, cs)"
| "graph_step E (NodeCall e cmd) (ru, cs) = (case node_op (queue_rt (re_config E) cs) (re_path E e) cmd (cs_runtime cs) of
     Inl _ \<Rightarrow> None | Inr (st, _) \<Rightarrow> Some (ru, cs\<lparr>cs_runtime := st\<rparr>))"

text \<open>A new runner: the wake signal is set once before the thread starts.\<close>

definition new_runner :: runner where
  "new_runner = \<lparr>ru_tasks = [], ru_ready = 0, ru_generation = 1, ru_observed = 0, ru_stop = False, ru_pc = Waiting\<rparr>"

inductive graph_run :: "runner_env \<Rightarrow> graph_state \<Rightarrow> graph_event list \<Rightarrow> graph_state \<Rightarrow> bool" for E where
  run_nil: "graph_run E s [] s"
| run_cons: "graph_step E ev s = Some s' \<Longrightarrow> graph_run E s' evs s'' \<Longrightarrow> graph_run E s (ev # evs) s''"

inductive_cases graph_run_ConsE: "graph_run E s (ev # evs) s'"

section \<open>Runners that follow one another\<close>

text \<open>The entry of the graph in \<open>graph_runners\<close>, and the runners that were there before: their schedulers have ended, the threads of their
  tasks may still run.\<close>

record graph_host =
  gh_old :: "runner list"
  gh_runner :: "runner option"
  gh_nodes :: config_state

definition start_host :: "config_state \<Rightarrow> graph_host" where
  "start_host cs = \<lparr>gh_old = [], gh_runner = None, gh_nodes = cs\<rparr>"

text \<open>A runner whose scheduler has ended is replaced by one that knows none of its tasks.\<close>

definition ensure_graph_runner :: "graph_host \<Rightarrow> graph_host" where
  "ensure_graph_runner h = (case gh_runner h of
     None \<Rightarrow> h\<lparr>gh_runner := Some new_runner\<rparr>
   | Some ru \<Rightarrow> if ru_pc ru \<noteq> Exited then h else h\<lparr>gh_old := gh_old h @ [ru], gh_runner := Some new_runner\<rparr>)"

text \<open>The deletion of a graph removes the entry once neither the scheduler nor a task runs; until then it waits, or fails.\<close>

definition drop_graph_runner :: "graph_host \<Rightarrow> graph_host option" where
  "drop_graph_runner h = (case gh_runner h of
     None \<Rightarrow> Some h
   | Some ru \<Rightarrow> if ru_pc ru = Exited \<and> list_all (\<lambda>(k, t). et_done t) (ru_tasks ru)
       then Some (h\<lparr>gh_old := gh_old h @ [ru], gh_runner := None\<rparr>) else None)"

datatype host_event = OnRunner graph_event | OldDone nat string | EnsureRunner | DropRunner

fun host_step :: "runner_env \<Rightarrow> host_event \<Rightarrow> graph_host \<Rightarrow> graph_host option" where
  "host_step E (OnRunner ev) h = (case gh_runner h of
     Some ru \<Rightarrow> map_option (\<lambda>(ru', cs'). h\<lparr>gh_runner := Some ru', gh_nodes := cs'\<rparr>) (graph_step E ev (ru, gh_nodes h))
   | None \<Rightarrow> (case ev of
         NodeCall e cmd \<Rightarrow> map_option (\<lambda>(_, cs'). h\<lparr>gh_nodes := cs'\<rparr>) (graph_step E ev (new_runner, gh_nodes h))
       | Sched inp \<Rightarrow> None | FutureDone i \<Rightarrow> None | _ \<Rightarrow> Some h))"
| "host_step E (OldDone i k) h = (if length (gh_old h) \<le> i then None else
     let ru = gh_old h ! i in Some (h\<lparr>gh_old := (gh_old h)[i := ru\<lparr>ru_tasks := finish_task k (ru_tasks ru)\<rparr>]\<rparr>))"
| "host_step E EnsureRunner h = Some (ensure_graph_runner h)"
| "host_step E DropRunner h = drop_graph_runner h"

inductive host_run :: "runner_env \<Rightarrow> graph_host \<Rightarrow> host_event list \<Rightarrow> graph_host \<Rightarrow> bool" for E where
  host_nil: "host_run E h [] h"
| host_cons: "host_step E ev h = Some h' \<Longrightarrow> host_run E h' evs h'' \<Longrightarrow> host_run E h (ev # evs) h''"

inductive_cases host_run_ConsE: "host_run E h (ev # evs) h'"

end
