(* ===== verification/RunnerLaws.thy ===== *)
theory RunnerLaws
  imports GraphRunner
begin

text \<open>
  The scheduler of a graph never runs a node twice at a time, starts every ready node in a batch that nothing
  interrupts, and can lose an item when a task ends in the middle of a batch.
\<close>

declare node_op.simps [simp del]

section \<open>Tasks\<close>

lemma graph_run_Nil [simp]: "graph_run E s [] s' \<longleftrightarrow> s' = s"
  by (auto intro: run_nil elim: graph_run.cases)

lemma graph_run_Cons [simp]: "graph_run E s (ev # evs) s'' \<longleftrightarrow> (\<exists>s'. graph_step E ev s = Some s' \<and> graph_run E s' evs s'')"
  by (auto intro: run_cons elim: graph_run_ConsE)

lemma graph_run_append: "graph_run E s (xs @ ys) s'' \<longleftrightarrow> (\<exists>s'. graph_run E s xs s' \<and> graph_run E s' ys s'')"
  by (induction xs arbitrary: s) auto

lemma graph_run_invariant:
  assumes "graph_run E s evs s'" "P s" "\<And>ev s s'. ev \<in> set evs \<Longrightarrow> P s \<Longrightarrow> graph_step E ev s = Some s' \<Longrightarrow> P s'"
  shows "P s'"
  using assms
proof (induction rule: graph_run.induct)
  case (run_cons ev s s' evs s'')
  have "P s'" using run_cons.prems(1) run_cons.hyps(1) run_cons.prems(2) [of ev s s'] by simp
  then show ?case using run_cons.IH run_cons.prems(2) by (meson list.set_intros(2))
qed simp

text \<open>The tasks that still run.\<close>

definition live :: "exec_task dict \<Rightarrow> string \<Rightarrow> exec_task \<Rightarrow> bool" where
  "live tasks k t \<longleftrightarrow> map_of tasks k = Some t \<and> \<not> et_done t"

lemma running_iff: "wf_dict tasks \<Longrightarrow> node_is_running e tasks \<longleftrightarrow> (\<exists>k t. live tasks k t \<and> et_node t = e)"
  by (auto simp: node_is_running_def list_ex_iff wf_dict_def live_def dest: map_of_SomeD intro: map_of_is_SomeI)

lemma map_of_finish: "map_of (finish_task i tasks) k = map_option (\<lambda>t. if k = i then t\<lparr>et_done := True\<rparr> else t) (map_of tasks k)"
  by (induction tasks) (auto simp: finish_task_def)

lemma wf_finish [simp]: "wf_dict (finish_task i tasks) = wf_dict tasks"
  by (simp add: wf_dict_def finish_task_def comp_def case_prod_beta)

lemma map_of_cleanup: "wf_dict tasks \<Longrightarrow> map_of (cleanup_finished_tasks tasks) k
    = (case map_of tasks k of None \<Rightarrow> None | Some t \<Rightarrow> if et_done t then None else Some t)"
  by (induction tasks) (auto simp: cleanup_finished_tasks_def wf_dict_def map_of_eq_None_iff split: option.splits)

lemma live_finish: "live (finish_task i tasks) k t \<longleftrightarrow> live tasks k t \<and> k \<noteq> i"
  by (cases "map_of tasks k") (auto simp: live_def map_of_finish)

lemma live_cleanup: "wf_dict tasks \<Longrightarrow> live (cleanup_finished_tasks tasks) k t \<longleftrightarrow> live tasks k t"
  by (auto simp: live_def map_of_cleanup split: option.splits if_splits)

lemma live_submit: "live (submit_executor_task uuid e item tasks) k t \<longleftrightarrow> (let i = task_id_of (item_trace uuid item) e in
    live tasks k t \<or> \<not> dict_has tasks i \<and> k = i
      \<and> t = \<lparr>et_node = e, et_trace = item_trace uuid item, et_item = dict_set ''trace_id'' (PStr (item_trace uuid item)) item, et_done = False\<rparr>)"
  by (auto simp: live_def submit_executor_task_def Let_def dict_has_iff)

lemma wf_cleanup [simp]: "wf_dict tasks \<Longrightarrow> wf_dict (cleanup_finished_tasks tasks)"
  by (simp add: cleanup_finished_tasks_def)

lemma wf_submit [simp]: "wf_dict tasks \<Longrightarrow> wf_dict (submit_executor_task uuid e item tasks)"
  by (simp add: submit_executor_task_def Let_def)

definition one_per_node :: "exec_task dict \<Rightarrow> bool" where
  "one_per_node tasks \<longleftrightarrow> (\<forall>k t k' t'. live tasks k t \<longrightarrow> live tasks k' t' \<longrightarrow> et_node t = et_node t' \<longrightarrow> k = k')"

text \<open>The node the scheduler has found idle and not yet left.\<close>

fun visiting :: "sched_pc \<Rightarrow> string option" where
  "visiting (EnsurePorts e _ _ _) = Some e" | "visiting (RecoverNode e _ _ _) = Some e" | "visiting (CountReady e _ _ _) = Some e"
| "visiting (TakeItem e _ _ _) = Some e" | "visiting (SubmitTask e _ _ _) = Some e" | "visiting _ = None"

definition tasks_ok :: "exec_task dict \<Rightarrow> string option \<Rightarrow> bool" where
  "tasks_ok tasks v \<longleftrightarrow> wf_dict tasks \<and> one_per_node tasks \<and> (\<forall>k t. live tasks k t \<longrightarrow> v \<noteq> Some (et_node t))"

lemma tasks_ok_finish: "tasks_ok tasks v \<Longrightarrow> tasks_ok (finish_task i tasks) v"
  unfolding tasks_ok_def one_per_node_def live_finish wf_finish by blast

lemma tasks_ok_cleanup: "tasks_ok tasks v \<Longrightarrow> tasks_ok (cleanup_finished_tasks tasks) v"
  by (simp add: tasks_ok_def one_per_node_def live_cleanup)

lemma tasks_ok_leave: "tasks_ok tasks v \<Longrightarrow> tasks_ok tasks None"
  by (simp add: tasks_ok_def)

lemma tasks_ok_check: "tasks_ok tasks v \<Longrightarrow> \<not> node_is_running e tasks \<Longrightarrow> tasks_ok tasks (Some e)"
  by (auto simp: tasks_ok_def running_iff)

lemma tasks_ok_submit:
  assumes "tasks_ok tasks (Some e)"
  shows "tasks_ok (submit_executor_task uuid e item tasks) None"
proof -
  have "live tasks k t \<Longrightarrow> et_node t \<noteq> e" for k t using assms by (auto simp: tasks_ok_def)
  moreover have "wf_dict tasks" "one_per_node tasks" using assms by (simp_all add: tasks_ok_def)
  ultimately show ?thesis by (auto simp: tasks_ok_def one_per_node_def live_submit Let_def)
qed

lemmas tasks_ok_intros = tasks_ok_finish tasks_ok_cleanup tasks_ok_leave tasks_ok_check tasks_ok_submit

lemma wait_step_tasks: "wait_step inp ru = Some ru' \<Longrightarrow>
    (ru_tasks ru' = ru_tasks ru \<or> ru_tasks ru' = cleanup_finished_tasks (ru_tasks ru)) \<and> visiting (ru_pc ru') = None"
  by (auto simp: wait_step_def Let_def next_node_def end_batch_def split: if_splits sched_input.splits)

lemma sched_step_tasks_ok:
  assumes ok: "tasks_ok (ru_tasks ru) (visiting (ru_pc ru))" and s: "sched_step E inp (ru, cs) = Some (ru', cs')"
  shows "tasks_ok (ru_tasks ru') (visiting (ru_pc ru'))"
proof (cases "ru_pc ru")
  case Waiting
  then show ?thesis using s ok wait_step_tasks [of inp ru ru'] by (auto intro: tasks_ok_intros)
next
  case (Scan es n)
  then show ?thesis using s ok by (cases es) (auto simp: next_node_def end_batch_def split: sum.splits if_splits)
next
  case (SubmitTask e item rest n)
  then show ?thesis using s ok by (auto split: sched_input.splits intro: tasks_ok_intros)
qed (use s ok in \<open>auto simp: next_node_def Let_def tasks_ok_leave tasks_ok_check split: sum.splits if_splits pyval.splits prod.splits\<close>)

lemma graph_step_tasks_ok:
  "tasks_ok (ru_tasks (fst s)) (visiting (ru_pc (fst s))) \<Longrightarrow> graph_step E ev s = Some s'
   \<Longrightarrow> tasks_ok (ru_tasks (fst s')) (visiting (ru_pc (fst s')))"
proof (cases ev)
  case (Sched inp)
  then show "tasks_ok (ru_tasks (fst s)) (visiting (ru_pc (fst s))) \<Longrightarrow> graph_step E ev s = Some s' \<Longrightarrow> ?thesis"
    using sched_step_tasks_ok by (cases s; cases s') auto
qed (cases s; auto intro: tasks_ok_finish tasks_ok_cleanup split: sum.splits)+

lemma graph_run_tasks_ok:
  "graph_run E s evs s' \<Longrightarrow> tasks_ok (ru_tasks (fst s)) (visiting (ru_pc (fst s))) \<Longrightarrow> tasks_ok (ru_tasks (fst s')) (visiting (ru_pc (fst s')))"
  by (erule graph_run_invariant) (auto dest: graph_step_tasks_ok)

lemma new_runner_ok: "tasks_ok (ru_tasks new_runner) (visiting (ru_pc new_runner))"
  by (simp add: new_runner_def tasks_ok_def one_per_node_def live_def)

section \<open>Queues\<close>

abbreviation node_key :: "runner_env \<Rightarrow> string \<Rightarrow> string" where
  "node_key E e \<equiv> env_key (ce_rt (re_config E)) (re_path E e)"

abbreviation queue_of :: "runner_env \<Rightarrow> string \<Rightarrow> config_state \<Rightarrow> node_q" where
  "queue_of E e cs \<equiv> view (item_of (cs_runtime cs) (node_key E e))"

lemma queue_rt_key [simp]: "env_key (queue_rt C cs) path = env_key (ce_rt C) path"
  by (simp add: queue_rt_def)

lemma node_call:
  assumes "node_op (queue_rt (re_config E) cs) (re_path E e) cmd (cs_runtime cs) = Inr (st, r)" "store_ok (cs_runtime cs)" "re_path E e \<noteq> []"
  shows "store_ok st" "q_step (type_id_of (queue_rt (re_config E) cs) (re_path E e)) cmd (queue_of E e cs) = Some (view (item_of st (node_key E e)), r)"
    "k \<noteq> node_key E e \<Longrightarrow> item_of st k = item_of (cs_runtime cs) k"
  using node_op_simulates [OF assms(2,3), of "queue_rt (re_config E) cs" cmd] assms(1) by (auto split: option.splits)

lemma node_call_ok:
  assumes "store_ok (cs_runtime cs)" "re_path E e \<noteq> []" "q_step (type_id_of (queue_rt (re_config E) cs) (re_path E e)) cmd (queue_of E e cs) \<noteq> None"
  obtains st r where "node_op (queue_rt (re_config E) cs) (re_path E e) cmd (cs_runtime cs) = Inr (st, r)"
  using node_op_simulates [OF assms(1,2), of "queue_rt (re_config E) cs" cmd] assms(3) by (auto split: option.splits)

lemma patch_runtime: "patch_persistent_fields C path patch cs = Inr (cs', d) \<Longrightarrow> cs_runtime cs' = cs_runtime cs"
  by (auto simp: patch_persistent_fields_def rbind_eq_Inr Let_def split: if_splits option.splits)

lemma ports_runtime: "ensure_node_runtime_ports E e cfg cs = Inr (cs', cfg') \<Longrightarrow> cs_runtime cs' = cs_runtime cs"
  by (auto simp: ensure_node_runtime_ports_def rbind_eq_Inr dest: patch_runtime split: if_splits option.splits)

section \<open>A node whose item nobody works on\<close>

text \<open>The calls that leave the item in flight where it is: all but those that an execution, a stop or a restart makes.\<close>

fun keeps_inflight :: "node_cmd \<Rightarrow> bool" where
  "keeps_inflight (UpdateState v) = False" | "keeps_inflight TransitionToIdle = False" | "keeps_inflight (FinishStop m) = False"
| "keeps_inflight (SetInflight v) = False" | "keeps_inflight RecoverInflight = False" | "keeps_inflight (CompleteWork v) = False"
| "keeps_inflight Resume = False" | "keeps_inflight _ = True"

definition holds_item :: "pydict \<Rightarrow> node_q \<Rightarrow> bool" where
  "holds_item d q \<longleftrightarrow> nq_state q = Working \<and> nq_inflight q = Some d"

lemma holds_item_step: "holds_item d q \<Longrightarrow> q_step t cmd q = Some (q', r) \<Longrightarrow> keeps_inflight cmd \<Longrightarrow> holds_item d q'"
  by (cases cmd) (auto simp: holds_item_def may_start_def tick_def Let_def split: if_splits list.splits prod.splits option.splits)

lemma holds_item_no_dequeue: "holds_item d q \<Longrightarrow> q_step t (DequeueToWorking owner) q = Some (q, PNone)"
  by (simp add: holds_item_def may_start_def)

definition no_task :: "string \<Rightarrow> exec_task dict \<Rightarrow> bool" where
  "no_task e tasks \<longleftrightarrow> (\<forall>k t. live tasks k t \<longrightarrow> et_node t \<noteq> e)"

lemma no_task_step [simp]:
  "no_task e tasks \<Longrightarrow> no_task e (finish_task i tasks)"
  "no_task e tasks \<Longrightarrow> wf_dict tasks \<Longrightarrow> no_task e (cleanup_finished_tasks tasks)"
  "no_task e tasks \<Longrightarrow> e' \<noteq> e \<Longrightarrow> no_task e (submit_executor_task uuid e' item tasks)"
  unfolding no_task_def by (auto simp: live_finish live_cleanup live_submit Let_def)

text \<open>The node works on an item that no thread has, and the scheduler is not about to start one.\<close>

definition stranded :: "runner_env \<Rightarrow> string \<Rightarrow> pydict \<Rightarrow> graph_state \<Rightarrow> bool" where
  "stranded E e d s \<longleftrightarrow> (let (ru, cs) = s in store_ok (cs_runtime cs) \<and> holds_item d (queue_of E e cs)
     \<and> no_task e (ru_tasks ru) \<and> wf_dict (ru_tasks ru)
     \<and> (\<forall>item rest n. ru_pc ru \<noteq> SubmitTask e item rest n))"

definition own_paths :: "runner_env \<Rightarrow> bool" where
  "own_paths E \<longleftrightarrow> (\<forall>e. re_path E e \<noteq> []) \<and> inj (node_key E)"

fun leaves_node :: "string \<Rightarrow> graph_event \<Rightarrow> bool" where
  "leaves_node e (NodeCall e' cmd) = (e' \<noteq> e \<or> keeps_inflight cmd)" | "leaves_node e ev = True"

lemma holds_item_call:
  assumes "node_op (queue_rt (re_config E) cs) (re_path E e') cmd (cs_runtime cs) = Inr (st, r)" "store_ok (cs_runtime cs)" "own_paths E"
    and "holds_item d (queue_of E e cs)" "e' \<noteq> e \<or> keeps_inflight cmd"
  shows "store_ok st" "holds_item d (view (item_of st (node_key E e)))"
proof -
  have p: "re_path E e' \<noteq> []" "e' \<noteq> e \<Longrightarrow> node_key E e' \<noteq> node_key E e" using assms(3) by (auto simp: own_paths_def dest: injD)
  note c = node_call [OF assms(1,2) p(1)]
  show "store_ok st" by (rule c)
  show "holds_item d (view (item_of st (node_key E e)))"
  proof (cases "e' = e")
    case True
    then show ?thesis using holds_item_step [OF assms(4)] c(2) assms(5) by blast
  next
    case False
    then show ?thesis using c(3) [of "node_key E e"] p(2) assms(4) by auto
  qed
qed

lemma stranded_sched:
  assumes st: "stranded E e d (ru, cs)" and paths: "own_paths E" and s: "sched_step E inp (ru, cs) = Some (ru', cs')"
  shows "stranded E e d (ru', cs')"
proof -
  have i: "store_ok (cs_runtime cs)" "holds_item d (queue_of E e cs)" "no_task e (ru_tasks ru)"
      "wf_dict (ru_tasks ru)" "\<forall>item rest n. ru_pc ru \<noteq> SubmitTask e item rest n"
    using st by (simp_all add: stranded_def)
  show ?thesis
  proof (cases "ru_pc ru")
    case Waiting
    then show ?thesis using s i wait_step_tasks [of inp ru ru'] by (auto simp: stranded_def)
  next
    case (Scan es n)
    then show ?thesis using s i by (cases es) (auto simp: stranded_def next_node_def end_batch_def split: sum.splits if_splits)
  next
    case (EnsurePorts e' cfg rest n)
    then show ?thesis using s i by (auto simp: stranded_def next_node_def dest: ports_runtime split: sum.splits if_splits)
  next
    case (RecoverNode e' cfg rest n)
    then show ?thesis using s i holds_item_call [OF _ i(1) paths i(2)]
      by (auto simp: stranded_def next_node_def Let_def split: sum.splits if_splits)
  next
    case (TakeItem e' r rest n)
    show ?thesis
    proof (cases "node_op (queue_rt (re_config E) cs) (re_path E e') (DequeueToWorking (PStr (re_owner E))) (cs_runtime cs)")
      case (Inl err)
      then show ?thesis using s i TakeItem by (auto simp: stranded_def)
    next
      case (Inr a)
      obtain st v where a: "a = (st, v)" by force
      have "e' = e \<Longrightarrow> v = PNone"
        using node_call(2) [OF Inr [unfolded a] i(1)] holds_item_no_dequeue [OF i(2)] paths by (auto simp: own_paths_def)
      then show ?thesis using s i TakeItem Inr a holds_item_call [OF Inr [unfolded a] i(1) paths i(2)]
        by (cases v) (auto simp: stranded_def next_node_def)
    qed
  next
    case (SubmitTask e' item rest n)
    then show ?thesis using s i by (auto simp: stranded_def split: sched_input.splits)
  qed (use s i in \<open>auto simp: stranded_def next_node_def Let_def split: if_splits\<close>)
qed

lemma stranded_step:
  assumes st: "stranded E e d s" and paths: "own_paths E" and step: "graph_step E ev s = Some s'" and l: "leaves_node e ev"
  shows "stranded E e d s'"
proof (cases ev)
  case (Sched inp)
  then show ?thesis using stranded_sched [OF _ paths] st step by (cases s; cases s') auto
next
  case (NodeCall e' cmd)
  obtain ru cs where s: "s = (ru, cs)" by force
  then have i: "store_ok (cs_runtime cs)" "holds_item d (queue_of E e cs)" using st by (simp_all add: stranded_def)
  show ?thesis using step l st NodeCall s holds_item_call [OF _ i(1) paths i(2)] by (auto simp: stranded_def split: sum.splits)
qed (use st step in \<open>cases s; auto simp: stranded_def\<close>)+

section \<open>Batches that nothing interrupts\<close>

definition sched_reach :: "runner_env \<Rightarrow> graph_state \<Rightarrow> graph_state \<Rightarrow> bool" where
  "sched_reach E s s' \<longleftrightarrow> (\<exists>inps. graph_run E s (map Sched inps) s')"

lemma reach_refl: "sched_reach E s s"
  by (auto simp: sched_reach_def intro: exI [of _ "[]"])

lemma reach_step: "sched_step E inp s = Some s1 \<Longrightarrow> sched_reach E s1 s' \<Longrightarrow> sched_reach E s s'"
  unfolding sched_reach_def by (metis (full_types) graph_run_Cons graph_step.simps(1) list.simps(9))

lemma reach_trans: "sched_reach E s s1 \<Longrightarrow> sched_reach E s1 s2 \<Longrightarrow> sched_reach E s s2"
  unfolding sched_reach_def by (metis graph_run_append map_append)

text \<open>A node with a readable configuration that knows its ports; \<open>t\<close> is its type.\<close>

definition node_file :: "runner_env \<Rightarrow> string \<Rightarrow> string \<Rightarrow> config_state \<Rightarrow> bool" where
  "node_file E e t cs \<longleftrightarrow> config_at (re_config E) (re_path E e) (re_path E e)
     \<and> (\<exists>d m. map_of (cs_files cs) (re_path E e) = Some (PDict d) \<and> migrate_config d = Inr m \<and> text_of (get m ''type_id'') = t
          \<and> \<not> is_none (get m ''input_num'') \<and> \<not> is_none (get m ''output_num''))"

lemma node_file_files: "cs_files cs' = cs_files cs \<Longrightarrow> node_file E e t cs' = node_file E e t cs"
  by (simp add: node_file_def)

lemma read_node:
  assumes "node_file E e t cs" "store_ok (cs_runtime cs)"
  obtains cfg where "read_optional_object (re_config E) (re_path E e) cs = Inr cfg" "cfg \<noteq> []" "view cfg = queue_of E e cs"
    "text_of (get cfg ''type_id'') = t" "\<not> is_none (get cfg ''input_num'')" "\<not> is_none (get cfg ''output_num'')"
proof -
  let ?C = "re_config E" and ?p = "re_path E e"
  obtain d m where at: "config_at ?C ?p ?p" and f: "map_of (cs_files cs) ?p = Some (PDict d)" "migrate_config d = Inr m"
      and m: "text_of (get m ''type_id'') = t" "\<not> is_none (get m ''input_num'')" "\<not> is_none (get m ''output_num'')"
    using assms(1) by (auto simp: node_file_def)
  obtain full where full: "snapshot (ce_rt ?C) (cs_runtime cs) ?p True = Inr full" "normal full"
    using with_defaults_normal [OF store_ok_item [OF assms(2)]] by (fastforce simp: snapshot_def Let_def)
  let ?cfg = "dict_update full (own_fields m)"
  have r: "read_strict ?C ?p cs = Inr ?cfg" using read_strict_at [OF at f] merge_own [OF full(1)] by simp
  moreover have "read_strict ?C (py_strip ?p) cs = read_strict ?C ?p cs" by (simp add: read_strict_def normalize_config_path_def)
  ultimately have o: "read_optional_object ?C ?p cs = Inr ?cfg"
    using at f(1) by (auto simp: read_optional_object_def config_at_def normalize_config_path_def Let_def dict_has_iff split: if_splits)
  have k: "map_of ?cfg k = map_of m k" if "k \<notin> set RUNTIME_STATE_FIELDS" for k
    using full(2) normal_unknown [OF full(2) that] that
    by (auto simp: map_of_dict_update map_of_own_fields normal_def split: option.splits)
  have "''input_num'' \<notin> set RUNTIME_STATE_FIELDS" "''output_num'' \<notin> set RUNTIME_STATE_FIELDS" by (simp_all add: RUNTIME_STATE_FIELDS_def)
  then have g: "get ?cfg ''input_num'' = get m ''input_num''" "get ?cfg ''output_num'' = get m ''output_num''" "get ?cfg ''type_id'' = get m ''type_id''"
    by (simp_all add: getd_def k)
  have "view ?cfg = queue_of E e cs" using read_strict_view(1) [OF r assms(2)] at by (simp add: config_at_def)
  moreover have "?cfg \<noteq> []" using m(2) g(1) by (auto simp: getd_def)
  ultimately show ?thesis using that o g m by simp
qed

lemma node_type: "node_file E e t cs \<Longrightarrow> store_ok (cs_runtime cs) \<Longrightarrow> type_id_of (queue_rt (re_config E) cs) (re_path E e) = t"
  by (erule read_node, assumption) (simp add: type_id_of_def queue_rt_def)

lemma ready_count: "text_of (get cfg ''type_id'') = t \<Longrightarrow> ready_pending_count_for_config cfg
    = (if may_start t (view cfg) then length (nq_pending (view cfg)) else 0)"
  by (cases "get cfg ''inflight''")
    (auto simp: ready_pending_count_for_config_def may_start_def view_def delete_requested_def state_of_def runs_clock_def Let_def)

text \<open>What a visit of \<open>e\<close> leaves: other nodes are untouched, and at most one task is added, for \<open>e\<close>.\<close>

definition visited :: "runner_env \<Rightarrow> string \<Rightarrow> string \<Rightarrow> exec_task dict \<times> config_state \<Rightarrow> exec_task dict \<times> config_state \<Rightarrow> bool" where
  "visited E u e p p' \<longleftrightarrow> (let (tasks, cs) = p; (tasks', cs') = p' in
     cs_files cs' = cs_files cs \<and> store_ok (cs_runtime cs') \<and> (\<forall>k. k \<noteq> node_key E e \<longrightarrow> item_of (cs_runtime cs') k = item_of (cs_runtime cs) k)
     \<and> (tasks' = tasks \<or> (\<exists>d. tasks' = submit_executor_task u e d tasks)))"

definition ready_item :: "runner_env \<Rightarrow> string \<Rightarrow> string \<Rightarrow> config_state \<Rightarrow> pydict \<Rightarrow> bool" where
  "ready_item E e t cs d \<longleftrightarrow> may_start t (queue_of E e cs) \<and> (\<exists>ds. pick (py_strip (re_owner E)) (nq_pending (queue_of E e cs)) = Some (d, ds))"

text \<open>The next eligible item of the queue is in flight now.\<close>

definition takes_item :: "runner_env \<Rightarrow> string \<Rightarrow> pydict \<Rightarrow> config_state \<Rightarrow> config_state \<Rightarrow> bool" where
  "takes_item E e d cs cs' \<longleftrightarrow> (let q = queue_of E e cs; q' = queue_of E e cs' in holds_item d q' \<and> nq_delete q' = nq_delete q
     \<and> pick (py_strip (re_owner E)) (nq_pending q) = Some (d, nq_pending q'))"

lemma takes_holds: "takes_item E e d cs cs' \<Longrightarrow> holds_item d (queue_of E e cs')"
  by (simp add: takes_item_def Let_def)

lemma visit_count:
  assumes f: "node_file E e t cs" and ok: "store_ok (cs_runtime cs)" and p: "re_path E e \<noteq> []"
    and cfg: "view cfg = queue_of E e cs" "text_of (get cfg ''type_id'') = t" and pc: "ru_pc ru = CountReady e cfg rest n"
  obtains tasks' cs' n' where "sched_reach E (ru, cs) (ru\<lparr>ru_tasks := tasks', ru_pc := Scan rest n'\<rparr>, cs')"
    "visited E u e (ru_tasks ru, cs) (tasks', cs')"
    "\<And>d. ready_item E e t cs d \<Longrightarrow> tasks' = submit_executor_task u e d (ru_tasks ru) \<and> takes_item E e d cs cs'"
proof -
  let ?q = "queue_of E e cs" and ?r = "ready_pending_count_for_config cfg" and ?deq = "DequeueToWorking (PStr (re_owner E))"
  have r: "?r = (if may_start t ?q then length (nq_pending ?q) else 0)" using ready_count [OF cfg(2)] cfg(1) by simp
  show ?thesis
  proof (cases "?r = 0")
    case True
    then have "sched_step E SkipBatch (ru, cs) = Some (ru\<lparr>ru_pc := Scan rest n\<rparr>, cs)" by (simp add: pc next_node_def)
    then have "sched_reach E (ru, cs) (ru\<lparr>ru_tasks := ru_tasks ru, ru_pc := Scan rest n\<rparr>, cs)"
      by (rule reach_step) (simp add: reach_refl)
    moreover have "\<not> ready_item E e t cs d" for d using True r by (auto simp: ready_item_def split: if_splits)
    ultimately show ?thesis using that [of n "ru_tasks ru" cs] ok by (simp add: visited_def)
  next
    case False
    then have start: "may_start t ?q" "?r = length (nq_pending ?q)" using r by (auto split: if_splits)
    have t: "type_id_of (queue_rt (re_config E) cs) (re_path E e) = t" by (rule node_type [OF f ok])
    obtain st v where op: "node_op (queue_rt (re_config E) cs) (re_path E e) ?deq (cs_runtime cs) = Inr (st, v)"
      by (rule node_call_ok [OF ok p, of ?deq]) (auto simp: start t split: option.splits)
    note c = node_call [OF op ok p]
    have s1: "sched_step E SkipBatch (ru, cs) = Some (ru\<lparr>ru_pc := TakeItem e ?r rest n\<rparr>, cs)" using False by (simp add: pc Let_def)
    let ?cs' = "cs\<lparr>cs_runtime := st\<rparr>"
    show ?thesis
    proof (cases "pick (py_strip (re_owner E)) (nq_pending ?q)")
      case None
      then have v: "v = PNone" using c(2) start(1) by (simp add: t)
      then have s2: "sched_step E SkipBatch (ru\<lparr>ru_pc := TakeItem e ?r rest n\<rparr>, cs) = Some (ru\<lparr>ru_pc := Scan rest (n + int ?r)\<rparr>, ?cs')"
        using op by (simp add: next_node_def)
      have "sched_reach E (ru, cs) (ru\<lparr>ru_tasks := ru_tasks ru, ru_pc := Scan rest (n + int ?r)\<rparr>, ?cs')"
        by (rule reach_step [OF s1 reach_step [OF s2]]) (simp add: reach_refl)
      moreover have "\<not> ready_item E e t cs d" for d using None by (simp add: ready_item_def)
      ultimately show ?thesis using that [of "n + int ?r" "ru_tasks ru" ?cs'] c by (simp add: visited_def)
    next
      case (Some dds)
      obtain d ds where dds: "dds = (d, ds)" by force
      let ?n = "n + max 0 (int ?r - 1)"
      have v: "v = PDict d" "view (item_of st (node_key E e)) = (tick ?q)\<lparr>nq_pending := ds, nq_inflight := Some d, nq_state := Working\<rparr>"
        using c(2) start(1) Some dds by (simp_all add: t)
      have s2: "sched_step E SkipBatch (ru\<lparr>ru_pc := TakeItem e ?r rest n\<rparr>, cs) = Some (ru\<lparr>ru_pc := SubmitTask e d rest ?n\<rparr>, ?cs')"
        using op v by simp
      have s3: "sched_step E (NewTrace u) (ru\<lparr>ru_pc := SubmitTask e d rest ?n\<rparr>, ?cs')
          = Some (ru\<lparr>ru_tasks := submit_executor_task u e d (ru_tasks ru), ru_pc := Scan rest ?n\<rparr>, ?cs')" by simp
      have "sched_reach E (ru, cs) (ru\<lparr>ru_tasks := submit_executor_task u e d (ru_tasks ru), ru_pc := Scan rest ?n\<rparr>, ?cs')"
        by (rule reach_step [OF s1 reach_step [OF s2 reach_step [OF s3 reach_refl]]])
      moreover have "ready_item E e t cs d' \<Longrightarrow> d' = d" for d' using Some dds by (auto simp: ready_item_def)
      moreover have "takes_item E e d cs ?cs'" using Some dds v(2) by (simp add: takes_item_def holds_item_def)
      moreover have "visited E u e (ru_tasks ru, cs) (submit_executor_task u e d (ru_tasks ru), ?cs')" using c by (auto simp: visited_def)
      ultimately show ?thesis using that [of ?n "submit_executor_task u e d (ru_tasks ru)" ?cs'] by blast
    qed
  qed
qed

lemma visited_after:
  assumes "visited E u e (tasks, cs\<lparr>cs_runtime := st\<rparr>) (tasks', cs')" "\<And>k. k \<noteq> node_key E e \<Longrightarrow> item_of st k = item_of (cs_runtime cs) k"
  shows "visited E u e (tasks, cs) (tasks', cs')"
  using assms by (simp add: visited_def)

lemma stale_keeps_ready: "may_start t q \<Longrightarrow> q_step t RecoverStale q = Some (q', r) \<Longrightarrow> q' = q"
  by (auto simp: may_start_def Let_def)

lemma stale_unrecovered: "q_step t RecoverStale q = Some (q', r) \<Longrightarrow> \<not> truthy (get (dict_items r) ''recovered'') \<Longrightarrow> q' = q"
  by (auto simp: stale_report_def Let_def split: if_splits)

text \<open>From the stale check on.\<close>

lemma visit_recover:
  assumes f: "node_file E e t cs" and ok: "store_ok (cs_runtime cs)" and p: "re_path E e \<noteq> []"
    and cfg: "view cfg = queue_of E e cs" "text_of (get cfg ''type_id'') = t" and pc: "ru_pc ru = RecoverNode e cfg rest n"
  obtains tasks' cs' n' where "sched_reach E (ru, cs) (ru\<lparr>ru_tasks := tasks', ru_pc := Scan rest n'\<rparr>, cs')"
    "visited E u e (ru_tasks ru, cs) (tasks', cs')"
    "\<And>d. ready_item E e t cs d \<Longrightarrow> tasks' = submit_executor_task u e d (ru_tasks ru) \<and> takes_item E e d cs cs'"
proof -
  obtain st r where op: "node_op (queue_rt (re_config E) cs) (re_path E e) RecoverStale (cs_runtime cs) = Inr (st, r)"
    by (rule node_call_ok [OF ok p, of RecoverStale]) (simp add: Let_def)
  note c = node_call [OF op ok p]
  let ?cs1 = "cs\<lparr>cs_runtime := st\<rparr>"
  have f1: "node_file E e t ?cs1" "store_ok (cs_runtime ?cs1)" using f c(1) by (simp_all add: node_file_def)
  obtain cfg1 where cfg1: "view cfg1 = queue_of E e ?cs1" "text_of (get cfg1 ''type_id'') = t"
      and s1: "sched_step E SkipBatch (ru, cs) = Some (ru\<lparr>ru_pc := CountReady e cfg1 rest n\<rparr>, ?cs1)"
  proof (cases "truthy (get (dict_items r) ''recovered'')")
    case True
    obtain cfg' where "read_optional_object (re_config E) (re_path E e) ?cs1 = Inr cfg'" "cfg' \<noteq> []" "view cfg' = queue_of E e ?cs1"
        "text_of (get cfg' ''type_id'') = t" using read_node [OF f1] by metis
    then show ?thesis using that [of cfg'] op True by (simp add: pc Let_def)
  next
    case False
    then show ?thesis using that [of cfg] op cfg stale_unrecovered [OF c(2)] by (simp add: pc Let_def)
  qed
  obtain tasks' cs' n' where v: "sched_reach E (ru\<lparr>ru_pc := CountReady e cfg1 rest n\<rparr>, ?cs1) (ru\<lparr>ru_tasks := tasks', ru_pc := Scan rest n'\<rparr>, cs')"
      "visited E u e (ru_tasks ru, ?cs1) (tasks', cs')"
      "\<And>d. ready_item E e t ?cs1 d \<Longrightarrow> tasks' = submit_executor_task u e d (ru_tasks ru) \<and> takes_item E e d ?cs1 cs'"
    by (rule visit_count [OF f1 p cfg1, of "ru\<lparr>ru_pc := CountReady e cfg1 rest n\<rparr>" rest n u]) simp_all
  have "ready_item E e t cs d \<Longrightarrow> ready_item E e t ?cs1 d \<and> (takes_item E e d ?cs1 cs' \<longrightarrow> takes_item E e d cs cs')" for d
    using stale_keeps_ready [OF _ c(2)] node_type [OF f ok] by (auto simp: ready_item_def takes_item_def)
  then show ?thesis using that [of n' tasks' cs'] reach_step [OF s1 v(1)] visited_after [OF v(2) c(3)] v(3) by blast
qed

lemma visit_node:
  assumes f: "node_file E e t cs" and ok: "store_ok (cs_runtime cs)" and p: "re_path E e \<noteq> []"
    and pc: "ru_pc ru = Scan (e # rest) n" and stop: "\<not> ru_stop ru"
  obtains tasks' cs' n' where "sched_reach E (ru, cs) (ru\<lparr>ru_tasks := tasks', ru_pc := Scan rest n'\<rparr>, cs')"
    "visited E u e (ru_tasks ru, cs) (tasks', cs')"
    "\<And>d. \<not> node_is_running e (ru_tasks ru) \<Longrightarrow> ready_item E e t cs d
       \<Longrightarrow> tasks' = submit_executor_task u e d (ru_tasks ru) \<and> takes_item E e d cs cs'"
proof -
  obtain cfg where cfg: "read_optional_object (re_config E) (re_path E e) cs = Inr cfg" "cfg \<noteq> []" "view cfg = queue_of E e cs"
      "text_of (get cfg ''type_id'') = t" "\<not> is_none (get cfg ''input_num'')" "\<not> is_none (get cfg ''output_num'')"
    using read_node [OF f ok] by blast
  have s1: "sched_step E SkipBatch (ru, cs) = Some (ru\<lparr>ru_pc := CheckRunning e cfg rest n\<rparr>, cs)" using cfg(1,2) stop by (simp add: pc)
  show ?thesis
  proof (cases "node_is_running e (ru_tasks ru)")
    case True
    then have s2: "sched_step E SkipBatch (ru\<lparr>ru_pc := CheckRunning e cfg rest n\<rparr>, cs) = Some (ru\<lparr>ru_pc := Scan rest n\<rparr>, cs)"
      by (simp add: next_node_def)
    have "sched_reach E (ru, cs) (ru\<lparr>ru_tasks := ru_tasks ru, ru_pc := Scan rest n\<rparr>, cs)"
      by (rule reach_step [OF s1 reach_step [OF s2]]) (simp add: reach_refl)
    then show ?thesis using that [of n "ru_tasks ru" cs] ok True by (simp add: visited_def)
  next
    case False
    let ?ru = "ru\<lparr>ru_pc := RecoverNode e cfg rest n\<rparr>"
    from False have s2: "sched_step E SkipBatch (ru\<lparr>ru_pc := CheckRunning e cfg rest n\<rparr>, cs) = Some (ru\<lparr>ru_pc := EnsurePorts e cfg rest n\<rparr>, cs)"
      by simp
    have s3: "sched_step E SkipBatch (ru\<lparr>ru_pc := EnsurePorts e cfg rest n\<rparr>, cs) = Some (?ru, cs)"
      using cfg by (simp add: ensure_node_runtime_ports_def)
    obtain tasks' cs' n' where v: "sched_reach E (?ru, cs) (?ru\<lparr>ru_tasks := tasks', ru_pc := Scan rest n'\<rparr>, cs')"
        "visited E u e (ru_tasks ?ru, cs) (tasks', cs')"
        "\<And>d. ready_item E e t cs d \<Longrightarrow> tasks' = submit_executor_task u e d (ru_tasks ?ru) \<and> takes_item E e d cs cs'"
      by (rule visit_recover [OF f ok p cfg(3,4), of ?ru rest n u]) simp_all
    then show ?thesis using that [of n' tasks' cs'] reach_step [OF s1 reach_step [OF s2 reach_step [OF s3 v(1)]]] by simp
  qed
qed

text \<open>Identifiers of tasks: names of nodes have no colon, so the identifier determines the node.\<close>

definition task_keys :: "exec_task dict \<Rightarrow> bool" where
  "task_keys tasks \<longleftrightarrow> (\<forall>k x. map_of tasks k = Some x \<longrightarrow> k = task_id_of (et_trace x) (et_node x))"

definition plain_names :: "exec_task dict \<Rightarrow> bool" where
  "plain_names tasks \<longleftrightarrow> (\<forall>k x. map_of tasks k = Some x \<longrightarrow> CHR '':'' \<notin> set (et_node x))"

lemma takeWhile_colon: "CHR '':'' \<notin> set x \<Longrightarrow> takeWhile (\<lambda>c. c \<noteq> CHR '':'') (rev (task_id_of a x)) = rev x"
  by (simp add: task_id_of_def takeWhile_append)

lemma task_id_node: "task_id_of a x = task_id_of b y \<Longrightarrow> CHR '':'' \<notin> set x \<Longrightarrow> CHR '':'' \<notin> set y \<Longrightarrow> x = y"
  using takeWhile_colon [of x a] takeWhile_colon [of y b] by simp

lemma task_keys_step [simp]:
  "task_keys tasks \<Longrightarrow> task_keys (submit_executor_task u e d tasks)"
  "task_keys tasks \<Longrightarrow> task_keys (finish_task i tasks)"
  "task_keys tasks \<Longrightarrow> wf_dict tasks \<Longrightarrow> task_keys (cleanup_finished_tasks tasks)"
  by (auto simp: task_keys_def submit_executor_task_def Let_def map_of_finish map_of_cleanup split: option.splits if_splits)

lemma plain_names_step [simp]:
  "plain_names tasks \<Longrightarrow> CHR '':'' \<notin> set e \<Longrightarrow> plain_names (submit_executor_task u e d tasks)"
  "plain_names tasks \<Longrightarrow> wf_dict tasks \<Longrightarrow> plain_names (cleanup_finished_tasks tasks)"
  by (auto simp: plain_names_def submit_executor_task_def Let_def map_of_cleanup split: option.splits if_splits)

text \<open>The tasks during an uninterrupted batch: all of them run.\<close>

definition fresh_tasks :: "exec_task dict \<Rightarrow> bool" where
  "fresh_tasks tasks \<longleftrightarrow> wf_dict tasks \<and> task_keys tasks \<and> plain_names tasks \<and> (\<forall>k x. map_of tasks k = Some x \<longrightarrow> live tasks k x)"

lemma fresh_submit: "fresh_tasks tasks \<Longrightarrow> CHR '':'' \<notin> set e \<Longrightarrow> fresh_tasks (submit_executor_task u e d tasks)"
  by (auto simp: fresh_tasks_def live_submit Let_def) (auto simp: submit_executor_task_def Let_def split: if_splits)

lemma fresh_no_duplicate:
  assumes "fresh_tasks tasks" "CHR '':'' \<notin> set e" "\<not> node_is_running e tasks"
  shows "\<not> dict_has tasks (task_id_of tr e)"
proof
  assume "dict_has tasks (task_id_of tr e)"
  then obtain x where x: "map_of tasks (task_id_of tr e) = Some x" by (auto simp: dict_has_iff)
  then have "et_node x = e" using assms(1,2) task_id_node unfolding fresh_tasks_def task_keys_def plain_names_def by metis
  then show False using x assms(1,3) by (auto simp: running_iff fresh_tasks_def)
qed

definition started :: "runner_env \<Rightarrow> string \<Rightarrow> string \<Rightarrow> pydict \<Rightarrow> exec_task dict \<times> config_state \<Rightarrow> bool" where
  "started E u e d p \<longleftrightarrow> (\<exists>k x. live (fst p) k x \<and> et_node x = e \<and> et_item x = dict_set ''trace_id'' (PStr (item_trace u d)) d)
     \<and> holds_item d (queue_of E e (snd p))"

lemma started_submit:
  "fresh_tasks tasks \<Longrightarrow> CHR '':'' \<notin> set e \<Longrightarrow> \<not> node_is_running e tasks \<Longrightarrow> holds_item d (queue_of E e cs)
   \<Longrightarrow> started E u e d (submit_executor_task u e d tasks, cs)"
  using fresh_no_duplicate [of tasks e "item_trace u d"]
  unfolding started_def live_submit Let_def fst_conv snd_conv by (metis exec_task.select_convs(1,3))

lemma visited_mono: "visited E u e (tasks, cs) (tasks', cs') \<Longrightarrow> live tasks k x \<Longrightarrow> live tasks' k x"
  by (auto simp: visited_def live_submit Let_def)

lemma visited_running:
  assumes "visited E u e (tasks, cs) (tasks', cs')" "wf_dict tasks" "e' \<noteq> e"
  shows "node_is_running e' tasks' \<longleftrightarrow> node_is_running e' tasks"
proof -
  consider "tasks' = tasks" | d where "tasks' = submit_executor_task u e d tasks" using assms(1) by (auto simp: visited_def)
  then show ?thesis
  proof cases
    case 2
    show ?thesis unfolding 2 running_iff [OF wf_submit [OF assms(2)]] running_iff [OF assms(2)] live_submit Let_def
      using assms(3) by (metis exec_task.select_convs(1))
  qed simp
qed

lemma visited_fresh: "visited E u e (tasks, cs) (tasks', cs') \<Longrightarrow> fresh_tasks tasks \<Longrightarrow> CHR '':'' \<notin> set e \<Longrightarrow> fresh_tasks tasks'"
  by (auto simp: visited_def intro: fresh_submit)

lemma visited_queue: "visited E u e (tasks, cs) (tasks', cs') \<Longrightarrow> own_paths E \<Longrightarrow> e' \<noteq> e
    \<Longrightarrow> item_of (cs_runtime cs') (node_key E e') = item_of (cs_runtime cs) (node_key E e')"
  unfolding visited_def own_paths_def by (auto dest: injD)

lemma scan_all:
  assumes "ru_pc ru = Scan es n" "\<not> ru_stop ru" "store_ok (cs_runtime cs)" "own_paths E" "distinct es" "fresh_tasks (ru_tasks ru)"
    and "\<forall>e \<in> set es. node_file E e (t e) cs \<and> CHR '':'' \<notin> set e"
  shows "\<exists>tasks' cs' n'. sched_reach E (ru, cs) (ru\<lparr>ru_tasks := tasks', ru_pc := Scan [] n'\<rparr>, cs')
    \<and> (\<forall>k x. live (ru_tasks ru) k x \<longrightarrow> live tasks' k x)
    \<and> (\<forall>e. e \<notin> set es \<longrightarrow> item_of (cs_runtime cs') (node_key E e) = item_of (cs_runtime cs) (node_key E e))
    \<and> (\<forall>e \<in> set es. \<forall>d. \<not> node_is_running e (ru_tasks ru) \<longrightarrow> ready_item E e (t e) cs d \<longrightarrow> started E u e d (tasks', cs'))"
  using assms
proof (induction es arbitrary: ru cs n)
  case Nil
  then have "ru\<lparr>ru_tasks := ru_tasks ru, ru_pc := Scan [] n\<rparr> = ru" by (cases ru) simp
  then have "sched_reach E (ru, cs) (ru\<lparr>ru_tasks := ru_tasks ru, ru_pc := Scan [] n\<rparr>, cs)" by (simp add: reach_refl)
  then show ?case by (intro exI [of _ "ru_tasks ru"] exI [of _ cs] exI [of _ n]) simp
next
  case (Cons e es)
  have p: "re_path E e \<noteq> []" and e: "node_file E e (t e) cs" "CHR '':'' \<notin> set e" using Cons.prems by (auto simp: own_paths_def)
  obtain tasks1 cs1 n1 where v: "sched_reach E (ru, cs) (ru\<lparr>ru_tasks := tasks1, ru_pc := Scan es n1\<rparr>, cs1)"
      "visited E u e (ru_tasks ru, cs) (tasks1, cs1)"
      "\<And>d. \<not> node_is_running e (ru_tasks ru) \<Longrightarrow> ready_item E e (t e) cs d
         \<Longrightarrow> tasks1 = submit_executor_task u e d (ru_tasks ru) \<and> takes_item E e d cs cs1"
    using visit_node [OF e(1) Cons.prems(3) p Cons.prems(1,2), of u] by metis
  let ?ru1 = "ru\<lparr>ru_tasks := tasks1, ru_pc := Scan es n1\<rparr>"
  have files: "cs_files cs1 = cs_files cs" "store_ok (cs_runtime cs1)" using v(2) by (simp_all add: visited_def)
  have fresh: "fresh_tasks tasks1" using visited_fresh [OF v(2)] Cons.prems(6) e(2) by simp
  obtain tasks' cs' n' where ih: "sched_reach E (?ru1, cs1) (ru\<lparr>ru_tasks := tasks', ru_pc := Scan [] n'\<rparr>, cs')"
      "\<forall>k x. live tasks1 k x \<longrightarrow> live tasks' k x"
      "\<forall>e. e \<notin> set es \<longrightarrow> item_of (cs_runtime cs') (node_key E e) = item_of (cs_runtime cs1) (node_key E e)"
      "\<forall>e \<in> set es. \<forall>d. \<not> node_is_running e tasks1 \<longrightarrow> ready_item E e (t e) cs1 d \<longrightarrow> started E u e d (tasks', cs')"
    using Cons.IH [of ?ru1 n1 cs1] Cons.prems files fresh node_file_files [OF files(1)] by auto
  have own: "started E u e d (tasks', cs')" if r: "\<not> node_is_running e (ru_tasks ru)" "ready_item E e (t e) cs d" for d
  proof -
    have "started E u e d (tasks1, cs1)" using started_submit [OF Cons.prems(6) e(2) r(1)] v(3) [OF r] takes_holds by auto
    then show ?thesis using ih(2,3) Cons.prems(5) by (auto simp: started_def)
  qed
  have rest: "started E u e' d (tasks', cs')"
    if r: "e' \<in> set es" "\<not> node_is_running e' (ru_tasks ru)" "ready_item E e' (t e') cs d" for e' d
  proof -
    have ne: "e' \<noteq> e" using r(1) Cons.prems(5) by auto
    have "wf_dict (ru_tasks ru)" using Cons.prems(6) by (simp add: fresh_tasks_def)
    then have "\<not> node_is_running e' tasks1" using visited_running [OF v(2) _ ne] r(2) by simp
    moreover have "ready_item E e' (t e') cs1 d" using visited_queue [OF v(2) Cons.prems(4) ne] r(3) by (simp add: ready_item_def)
    ultimately show ?thesis using ih(4) r(1) by blast
  qed
  have frame: "item_of (cs_runtime cs') (node_key E e') = item_of (cs_runtime cs) (node_key E e')" if "e' \<notin> set (e # es)" for e'
    using ih(3) visited_queue [OF v(2) Cons.prems(4)] that by simp
  have mono: "live (ru_tasks ru) k x \<Longrightarrow> live tasks' k x" for k x using visited_mono [OF v(2)] ih(2) by blast
  show ?case using reach_trans [OF v(1) ih(1)] mono frame own rest
    by (intro exI [of _ tasks'] exI [of _ cs'] exI [of _ n']) auto
qed

section \<open>What runs keep\<close>

lemma sched_step_store_ok:
  assumes "sched_step E inp (ru, cs) = Some (ru', cs')" "store_ok (cs_runtime cs)" "own_paths E"
  shows "store_ok (cs_runtime cs')"
proof (cases "ru_pc ru")
  case (Scan es n)
  then show ?thesis using assms by (cases es) (auto split: sum.splits)
next
  case (EnsurePorts e cfg rest n)
  then show ?thesis using assms by (auto dest: ports_runtime split: sum.splits)
next
  case (RecoverNode e cfg rest n)
  then show ?thesis using assms node_call(1) [of E cs e RecoverStale] by (auto simp: own_paths_def Let_def split: sum.splits if_splits)
next
  case (TakeItem e r rest n)
  then show ?thesis using assms node_call(1) [of E cs e "DequeueToWorking (PStr (re_owner E))"] by (auto simp: own_paths_def split: sum.splits)
qed (use assms in \<open>auto simp: Let_def split: sched_input.splits\<close>)

lemma graph_step_store_ok:
  assumes "graph_step E ev s = Some s'" "store_ok (cs_runtime (snd s))" "own_paths E"
  shows "store_ok (cs_runtime (snd s'))"
proof (cases ev)
  case (Sched inp)
  then show ?thesis using assms sched_step_store_ok by (cases s; cases s') auto
next
  case (NodeCall e cmd)
  then show ?thesis using assms node_call(1) [of E "snd s" e cmd] by (cases s) (auto simp: own_paths_def split: sum.splits)
qed (use assms in \<open>cases s; auto\<close>)+

lemma graph_run_store_ok:
  "graph_run E s evs s' \<Longrightarrow> store_ok (cs_runtime (snd s)) \<Longrightarrow> own_paths E \<Longrightarrow> store_ok (cs_runtime (snd s'))"
  by (erule graph_run_invariant) (auto dest: graph_step_store_ok)

definition keyed_tasks :: "exec_task dict \<Rightarrow> bool" where
  "keyed_tasks tasks \<longleftrightarrow> wf_dict tasks \<and> task_keys tasks"

lemma keyed_step [simp]:
  "keyed_tasks tasks \<Longrightarrow> keyed_tasks (submit_executor_task u e d tasks)"
  "keyed_tasks tasks \<Longrightarrow> keyed_tasks (finish_task i tasks)"
  "keyed_tasks tasks \<Longrightarrow> keyed_tasks (cleanup_finished_tasks tasks)"
  by (simp_all add: keyed_tasks_def)

lemma sched_step_keyed:
  assumes s: "sched_step E inp (ru, cs) = Some (ru', cs')" and k: "keyed_tasks (ru_tasks ru)"
  shows "keyed_tasks (ru_tasks ru')"
proof (cases "ru_pc ru")
  case Waiting
  then show ?thesis using s k wait_step_tasks [of inp ru ru'] by auto
next
  case (Scan es n)
  then show ?thesis using s k by (cases es) (auto simp: next_node_def end_batch_def split: sum.splits if_splits)
qed (use s k in \<open>auto simp: next_node_def Let_def split: sum.splits if_splits pyval.splits prod.splits sched_input.splits\<close>)

lemma graph_step_keyed: "graph_step E ev s = Some s' \<Longrightarrow> keyed_tasks (ru_tasks (fst s)) \<Longrightarrow> keyed_tasks (ru_tasks (fst s'))"
proof (cases ev)
  case (Sched inp)
  then show "graph_step E ev s = Some s' \<Longrightarrow> keyed_tasks (ru_tasks (fst s)) \<Longrightarrow> ?thesis"
    using sched_step_keyed by (cases s; cases s') auto
qed (cases s; auto split: sum.splits)+

lemma graph_run_keyed: "graph_run E (new_runner, cs) evs s' \<Longrightarrow> keyed_tasks (ru_tasks (fst s'))"
  by (erule graph_run_invariant) (auto dest: graph_step_keyed simp: new_runner_def keyed_tasks_def task_keys_def)

lemma cleanup_fresh: "keyed_tasks tasks \<Longrightarrow> plain_names tasks \<Longrightarrow> fresh_tasks (cleanup_finished_tasks tasks)"
  by (auto simp: keyed_tasks_def fresh_tasks_def live_def map_of_cleanup split: option.splits if_splits)

lemma cleanup_running: "wf_dict tasks \<Longrightarrow> node_is_running e (cleanup_finished_tasks tasks) = node_is_running e tasks"
  by (simp add: running_iff live_cleanup)

section \<open>Properties\<close>

text \<open>All runners that the graph has had, the present one last.\<close>

definition runners :: "graph_host \<Rightarrow> runner list" where
  "runners h = gh_old h @ (case gh_runner h of None \<Rightarrow> [] | Some ru \<Rightarrow> [ru])"

definition host_ok :: "graph_host \<Rightarrow> bool" where
  "host_ok h \<longleftrightarrow> (\<forall>ru \<in> set (gh_old h). tasks_ok (ru_tasks ru) None \<and> ru_pc ru = Exited)
     \<and> (\<forall>ru. gh_runner h = Some ru \<longrightarrow> tasks_ok (ru_tasks ru) (visiting (ru_pc ru)))"

lemma host_ok_runner: "host_ok h \<Longrightarrow> ru \<in> set (runners h) \<Longrightarrow> tasks_ok (ru_tasks ru) (visiting (ru_pc ru))"
  by (cases "gh_runner h") (auto simp: host_ok_def runners_def)

lemma runner_step_ok: "host_ok h \<Longrightarrow> gh_runner h = Some ru \<Longrightarrow> graph_step E ev (ru, gh_nodes h) = Some (ru', cs')
    \<Longrightarrow> host_ok (h\<lparr>gh_runner := Some ru', gh_nodes := cs'\<rparr>)"
  using graph_step_tasks_ok [of "(ru, gh_nodes h)" E ev "(ru', cs')"] by (simp add: host_ok_def)

lemma old_done_ok:
  assumes h: "host_ok h" and i: "i < length (gh_old h)"
  shows "host_ok (h\<lparr>gh_old := (gh_old h)[i := (gh_old h ! i)\<lparr>ru_tasks := finish_task k (ru_tasks (gh_old h ! i))\<rparr>]\<rparr>)"
proof -
  let ?ru = "gh_old h ! i"
  have "?ru \<in> set (gh_old h)" using i by simp
  then have "tasks_ok (finish_task k (ru_tasks ?ru)) None" "ru_pc ?ru = Exited" using h tasks_ok_finish by (auto simp: host_ok_def)
  then show ?thesis using h set_update_subset_insert [of "gh_old h" i] by (fastforce simp: host_ok_def)
qed

lemma host_step_ok:
  assumes h: "host_ok h" and s: "host_step E ev h = Some h'"
  shows "host_ok h'"
proof (cases ev)
  case (OnRunner gev)
  show ?thesis
  proof (cases "gh_runner h")
    case None
    then show ?thesis using h s OnRunner by (cases gev) (auto simp: host_ok_def)
  next
    case (Some ru)
    then show ?thesis using s OnRunner runner_step_ok [OF h Some] by auto
  qed
next
  case (OldDone i k)
  then show ?thesis using s old_done_ok [OF h] by (auto simp: Let_def split: if_split_asm)
next
  case EnsureRunner
  then show ?thesis using h s new_runner_ok
    by (auto simp: ensure_graph_runner_def host_ok_def split: option.splits if_split_asm)
next
  case DropRunner
  then show ?thesis using h s by (auto simp: drop_graph_runner_def host_ok_def split: option.splits if_split_asm)
qed

lemma host_run_ok: "host_run E h evs h' \<Longrightarrow> host_ok h \<Longrightarrow> host_ok h'"
  by (induction rule: host_run.induct) (simp_all add: host_step_ok)

text \<open>C16. No runner of a graph ever runs two tasks of one node at the same time, whatever the schedulers and all other threads do, in any
  interleaving; two running tasks of one node belong to different runners, and then the scheduler of the earlier runner has ended and the
  runner has been replaced while its task was running.\<close>

theorem executions_never_overlap:
  assumes "host_run E (start_host cs) evs h" and "i < length (runners h)" and "j < length (runners h)"
    and "live (ru_tasks (runners h ! i)) k t" and "live (ru_tasks (runners h ! j)) k' t'" and "et_node t = et_node t'"
  shows "i = j \<and> k = k' \<or> i \<noteq> j \<and> min i j < length (gh_old h) \<and> ru_pc (runners h ! min i j) = Exited"
proof (cases "i = j")
  case True
  have "host_ok h" by (rule host_run_ok [OF assms(1)]) (simp add: host_ok_def start_host_def)
  then have "tasks_ok (ru_tasks (runners h ! i)) (visiting (ru_pc (runners h ! i)))" using assms(2) by (simp add: host_ok_runner)
  then show ?thesis using assms(4-6) True unfolding tasks_ok_def one_per_node_def by blast
next
  case False
  have "host_ok h" by (rule host_run_ok [OF assms(1)]) (simp add: host_ok_def start_host_def)
  moreover have m: "min i j < length (gh_old h)" using False assms(2,3) by (auto simp: runners_def split: option.splits)
  then have "runners h ! min i j \<in> set (gh_old h)" by (simp add: runners_def nth_append)
  ultimately show ?thesis using False m by (simp add: host_ok_def)
qed

text \<open>From any state in which the scheduler has been woken, a batch that nobody interrupts ends, and it has started
  the next eligible item of every node that was free to start one; no task that ran before is dropped.\<close>

lemma batch_starts_ready_nodes:
  assumes run: "graph_run E (new_runner, cs0) evs (ru, cs)" "store_ok (cs_runtime cs0)" "own_paths E"
    and woken: "ru_pc ru = Waiting" "ru_observed ru < ru_generation ru" "\<not> ru_stop ru"
    and nodes: "distinct es" "''agents'' \<notin> set es" "\<forall>e \<in> set es. node_file E e (t e) cs \<and> CHR '':'' \<notin> set e" "plain_names (ru_tasks ru)"
  shows "\<exists>ru' cs'. sched_reach E (ru, cs) (ru', cs') \<and> ru_pc ru' = Waiting \<and> ru_observed ru' = ru_generation ru
    \<and> (\<forall>k x. live (ru_tasks ru) k x \<longrightarrow> live (ru_tasks ru') k x)
    \<and> (\<forall>e \<in> set es. \<forall>d. \<not> node_is_running e (ru_tasks ru) \<longrightarrow> ready_item E e (t e) cs d \<longrightarrow> started E u e d (ru_tasks ru', cs'))"
proof -
  let ?ts = "cleanup_finished_tasks (ru_tasks ru)"
  let ?ru1 = "ru\<lparr>ru_observed := ru_generation ru, ru_tasks := ?ts, ru_pc := Scan es 0\<rparr>"
  have ok: "store_ok (cs_runtime cs)" and keyed: "keyed_tasks (ru_tasks ru)"
    using graph_run_store_ok [OF run(1)] graph_run_keyed [OF run(1)] run(2,3) by simp_all
  then have wf: "wf_dict (ru_tasks ru)" by (simp add: keyed_tasks_def)
  have "filter (\<lambda>e. e \<noteq> ''agents'') es = es" using nodes(2) by (auto simp: filter_id_conv)
  then have s1: "sched_step E (StartBatch es) (ru, cs) = Some (?ru1, cs)"
    using woken by (simp add: wait_step_def Let_def next_node_def)
  obtain tasks' cs' n' where b: "sched_reach E (?ru1, cs) (?ru1\<lparr>ru_tasks := tasks', ru_pc := Scan [] n'\<rparr>, cs')"
      "\<forall>k x. live ?ts k x \<longrightarrow> live tasks' k x"
      "\<forall>e \<in> set es. \<forall>d. \<not> node_is_running e ?ts \<longrightarrow> ready_item E e (t e) cs d \<longrightarrow> started E u e d (tasks', cs')"
    using scan_all [of ?ru1 es 0 cs E t u] ok run(3) woken(3) nodes cleanup_fresh [OF keyed] by auto
  let ?ru2 = "?ru1\<lparr>ru_tasks := tasks', ru_ready := max 0 n', ru_pc := Waiting\<rparr>"
  have "sched_step E SkipBatch (?ru1\<lparr>ru_tasks := tasks', ru_pc := Scan [] n'\<rparr>, cs') = Some (?ru2, cs')" by (simp add: end_batch_def)
  then have "sched_reach E (ru, cs) (?ru2, cs')" using reach_step [OF s1 reach_trans [OF b(1) reach_step [OF _ reach_refl]]] by blast
  then show ?thesis using b(2,3) by (intro exI [of _ ?ru2] exI [of _ cs']) (simp add: live_cleanup [OF wf] cleanup_running [OF wf])
qed

text \<open>When the task of a node ends during a batch, after the batch has dropped the finished tasks and before it reaches
  the node, and the next item of the node has the trace of that task, the scheduler takes the item from the queue but does not start it.
  From then on no task works on the node, its item stays in flight, and neither later batches nor the check for stale work
  change that, as long as nobody stops, restarts or edits the node.\<close>

lemma repeated_trace_strands_item:
  assumes "node_file E e t cs" "store_ok (cs_runtime cs)" "own_paths E" "wf_dict (ru_tasks ru)"
    and turn: "ru_pc ru = Scan (e # rest) n" "\<not> ru_stop ru" "\<not> node_is_running e (ru_tasks ru)"
    and item: "ready_item E e t cs d" "dict_has (ru_tasks ru) (task_id_of (item_trace u d) e)"
  shows "\<exists>s. sched_reach E (ru, cs) s \<and> (\<forall>later s'. graph_run E s later s' \<longrightarrow> (\<forall>ev \<in> set later. leaves_node e ev)
    \<longrightarrow> holds_item d (queue_of E e (snd s')) \<and> \<not> node_is_running e (ru_tasks (fst s')))"
proof -
  have p: "re_path E e \<noteq> []" using assms(3) by (simp add: own_paths_def)
  obtain tasks' cs' n' where v: "sched_reach E (ru, cs) (ru\<lparr>ru_tasks := tasks', ru_pc := Scan rest n'\<rparr>, cs')"
      "visited E u e (ru_tasks ru, cs) (tasks', cs')"
      "tasks' = submit_executor_task u e d (ru_tasks ru) \<and> holds_item d (queue_of E e cs')"
    using visit_node [OF assms(1,2) p turn(1,2), of u] turn(3) item(1) takes_holds by metis
  let ?s = "(ru\<lparr>ru_tasks := tasks', ru_pc := Scan rest n'\<rparr>, cs')"
  have "tasks' = ru_tasks ru" using v(3) item(2) by (simp add: submit_executor_task_def Let_def)
  then have st: "stranded E e d ?s"
    using v(2,3) assms(4) turn(3) by (auto simp: stranded_def visited_def no_task_def running_iff)
  have "holds_item d (queue_of E e (snd s')) \<and> \<not> node_is_running e (ru_tasks (fst s'))"
    if "graph_run E ?s later s'" "\<forall>ev \<in> set later. leaves_node e ev" for later s'
  proof -
    have "stranded E e d s'" using that(1) st by (rule graph_run_invariant) (use stranded_step [OF _ assms(3)] that(2) in blast)
    then show ?thesis by (auto simp: stranded_def no_task_def running_iff split: prod.splits)
  qed
  then show ?thesis using v(1) by blast
qed

section \<open>An instance\<close>

lemma graph_call:
  assumes "q_step (type_id_of (queue_rt (re_config E) cs) (re_path E e)) cmd (queue_of E e cs) = Some (q', r)"
    "store_ok (cs_runtime cs)" "re_path E e \<noteq> []"
  obtains st where "graph_step E (NodeCall e cmd) (ru, cs) = Some (ru, cs\<lparr>cs_runtime := st\<rparr>)" "store_ok st"
    "view (item_of st (node_key E e)) = q'"
proof -
  obtain st r' where op: "node_op (queue_rt (re_config E) cs) (re_path E e) cmd (cs_runtime cs) = Inr (st, r')"
    by (rule node_call_ok [OF assms(2,3)]) (use assms(1) in auto)
  then show ?thesis using that [of st] node_call [OF op assms(2,3)] assms(1) by simp
qed

definition sample_graph :: runner_env where
  "sample_graph = \<lparr>re_config = sample_config_env, re_path = (\<lambda>e. CHR ''g'' # e), re_owner = [], re_ports = (\<lambda>e t. None)\<rparr>"

definition sample_node :: pydict where
  "sample_node = [(''schemaVersion'', PInt 1), (''type_id'', PStr ''agent_node''), (''input_num'', PInt 1), (''output_num'', PInt 1)]"

definition sample_nodes :: config_state where
  "sample_nodes = \<lparr>cs_files = [(''gn'', PDict sample_node)], cs_runtime = empty_store\<rparr>"

definition traced_item :: pydict where
  "traced_item = [(''trace_id'', PStr ''t'')]"

lemma sample_node_file: "cs_files cs = cs_files sample_nodes \<Longrightarrow> node_file sample_graph ''n'' ''agent_node'' cs"
proof -
  have "migrate_config sample_node = Inr sample_node" by (rule version_migrated) (simp add: sample_node_def)
  moreover have "text_of (get sample_node ''type_id'') = ''agent_node''" "\<not> is_none (get sample_node ''input_num'')"
      "\<not> is_none (get sample_node ''output_num'')" by (simp_all add: sample_node_def getd_def strip_eval)
  ultimately show "cs_files cs = cs_files sample_nodes \<Longrightarrow> ?thesis"
    by (auto simp: node_file_def sample_graph_def sample_nodes_def config_at_def normalize_config_path_def sample_config_env_def strip_eval)
qed

lemma sample_paths: "own_paths sample_graph"
  by (auto simp: own_paths_def sample_graph_def sample_config_env_def sample_env_def inj_def)

lemma sample_trace: "item_trace u traced_item = ''t''"
  by (simp add: item_trace_def traced_item_def getd_def strip_eval)

lemma traced_eligible: "eligible [] (PDict traced_item)"
  by (simp add: eligible_def traced_item_def getd_def strip_eval)

lemma sample_queue: "queue_of sample_graph ''n'' sample_nodes = \<lparr>nq_state = Idle, nq_pending = [], nq_inflight = None, nq_stop = False,
    nq_delete = False, nq_clock = False, nq_seq = 0, nq_held = [], nq_done = []\<rparr>"
  by (simp add: sample_nodes_def empty_store_def item_of_def view_def state_of_def parse_node_state_def delete_requested_def done_ids_def)

definition idle_queue :: "pydict list \<Rightarrow> config_state \<Rightarrow> bool" where
  "idle_queue ds cs \<longleftrightarrow> cs_files cs = cs_files sample_nodes \<and> store_ok (cs_runtime cs) \<and> (let q = queue_of sample_graph ''n'' cs in
     nq_state q = Idle \<and> \<not> nq_delete q \<and> nq_pending q = ds)"

lemma idle_ready: "idle_queue (traced_item # ds) cs \<Longrightarrow> ready_item sample_graph ''n'' ''agent_node'' cs traced_item"
  by (simp add: idle_queue_def ready_item_def may_start_def Let_def sample_graph_def traced_eligible py_strip_Nil)


lemma sample_type: "cs_files cs = cs_files sample_nodes \<Longrightarrow> store_ok (cs_runtime cs)
    \<Longrightarrow> type_id_of (queue_rt (re_config sample_graph) cs) (re_path sample_graph ''n'') = ''agent_node''"
  by (rule node_type [OF sample_node_file])

lemma sample_call:
  assumes "q_step ''agent_node'' cmd (queue_of sample_graph ''n'' cs) = Some (q', r)" "cs_files cs = cs_files sample_nodes" "store_ok (cs_runtime cs)"
  obtains cs' where "graph_step sample_graph (NodeCall ''n'' cmd) (ru, cs) = Some (ru, cs')" "cs_files cs' = cs_files sample_nodes"
    "store_ok (cs_runtime cs')" "queue_of sample_graph ''n'' cs' = q'"
proof -
  have p: "re_path sample_graph ''n'' \<noteq> []" by (simp add: sample_graph_def)
  obtain st where "graph_step sample_graph (NodeCall ''n'' cmd) (ru, cs) = Some (ru, cs\<lparr>cs_runtime := st\<rparr>)" "store_ok st"
      "view (item_of st (node_key sample_graph ''n'')) = q'"
    using graph_call [of sample_graph cs "''n''" cmd q' r ru] assms p by (auto simp: sample_type)
  then show ?thesis using that [of "cs\<lparr>cs_runtime := st\<rparr>"] assms(2) by auto
qed

lemma sample_append_item:
  assumes "idle_queue ds cs"
  obtains cs' where "graph_step sample_graph (NodeCall ''n'' (AppendPending (PDict traced_item))) (ru, cs) = Some (ru, cs')"
    "idle_queue (ds @ [traced_item]) cs'"
proof -
  have k: "idem_key (PDict traced_item) = []" by (simp add: idem_key_def traced_item_def getd_def)
  obtain cs' where "graph_step sample_graph (NodeCall ''n'' (AppendPending (PDict traced_item))) (ru, cs) = Some (ru, cs')"
      "cs_files cs' = cs_files sample_nodes" "store_ok (cs_runtime cs')"
      "queue_of sample_graph ''n'' cs' = (tick (queue_of sample_graph ''n'' cs))\<lparr>nq_pending := ds @ [traced_item]\<rparr>"
    by (rule sample_call [of "AppendPending (PDict traced_item)" cs]) (use assms k in \<open>simp_all add: idle_queue_def Let_def\<close>)
  then show ?thesis using that [of cs'] assms by (simp add: idle_queue_def Let_def)
qed

lemma sample_finish:
  assumes "cs_files cs = cs_files sample_nodes" "store_ok (cs_runtime cs)" "holds_item d (queue_of sample_graph ''n'' cs)"
    "\<not> nq_delete (queue_of sample_graph ''n'' cs)" "nq_pending (queue_of sample_graph ''n'' cs) = ds"
  obtains cs' where "graph_run sample_graph (ru, cs) [NodeCall ''n'' (SetInflight PNone), NodeCall ''n'' (CompleteWork PNone)] (ru, cs')"
    "idle_queue ds cs'"
proof -
  let ?q = "queue_of sample_graph ''n'' cs"
  obtain cs1 where c1: "graph_step sample_graph (NodeCall ''n'' (SetInflight PNone)) (ru, cs) = Some (ru, cs1)"
      "cs_files cs1 = cs_files sample_nodes" "store_ok (cs_runtime cs1)"
      "queue_of sample_graph ''n'' cs1 = (tick ?q)\<lparr>nq_inflight := as_dict PNone\<rparr>"
    by (rule sample_call [of "SetInflight PNone" cs]) (use assms in simp_all)
  let ?q1 = "queue_of sample_graph ''n'' cs1"
  have s: "end_state ''agent_node'' ?q1 = Idle"
    using assms(3,4) c1(4) by (simp add: end_state_def runs_clock_def holds_item_def)
  obtain cs2 where c2: "graph_step sample_graph (NodeCall ''n'' (CompleteWork PNone)) (ru, cs1) = Some (ru, cs2)"
      "cs_files cs2 = cs_files sample_nodes" "store_ok (cs_runtime cs2)"
      "queue_of sample_graph ''n'' cs2 = (to_state Idle ?q1)\<lparr>nq_stop := False\<rparr>"
    by (rule sample_call [of "CompleteWork PNone" cs1]) (use s c1 in \<open>simp_all add: Let_def\<close>)
  have "idle_queue ds cs2" using c1(4) c2 assms(4,5) by (simp add: idle_queue_def Let_def to_state_def)
  then show ?thesis using that [of cs2] c1(1) c2(1) by (simp del: graph_step.simps)
qed

text \<open>A task for the node runs.\<close>

lemma sample_batch:
  assumes "idle_queue (traced_item # ds) cs" "ru_pc ru = Scan [''n''] n" "\<not> ru_stop ru" "ru_tasks ru = []"
  obtains cs' n' where "sched_reach sample_graph (ru, cs) (ru\<lparr>ru_tasks := submit_executor_task ''u'' ''n'' traced_item [], ru_pc := Scan [] n'\<rparr>, cs')"
    "takes_item sample_graph ''n'' traced_item cs cs'" "cs_files cs' = cs_files sample_nodes" "store_ok (cs_runtime cs')"
proof -
  have i: "cs_files cs = cs_files sample_nodes" "store_ok (cs_runtime cs)" using assms(1) by (simp_all add: idle_queue_def)
  have p: "re_path sample_graph ''n'' \<noteq> []" by (simp add: sample_graph_def)
  obtain tasks' cs' n' where v: "sched_reach sample_graph (ru, cs) (ru\<lparr>ru_tasks := tasks', ru_pc := Scan [] n'\<rparr>, cs')"
      "visited sample_graph ''u'' ''n'' (ru_tasks ru, cs) (tasks', cs')"
      "\<And>d. \<not> node_is_running ''n'' (ru_tasks ru) \<Longrightarrow> ready_item sample_graph ''n'' ''agent_node'' cs d
         \<Longrightarrow> tasks' = submit_executor_task ''u'' ''n'' d (ru_tasks ru) \<and> takes_item sample_graph ''n'' d cs cs'"
    using visit_node [OF sample_node_file [OF i(1)] i(2) p assms(2,3), of "''u''"] by metis
  have "\<not> node_is_running ''n'' (ru_tasks ru)" by (simp add: assms(4) node_is_running_def)
  then show ?thesis using that [of n' cs'] v(1,2) v(3) [OF _ idle_ready [OF assms(1)]] i assms(4) by (simp add: visited_def)
qed

abbreviation sample_tasks :: "exec_task dict" where
  "sample_tasks \<equiv> submit_executor_task ''u'' ''n'' traced_item []"

lemma sample_tasks_eq: "sample_tasks = [(''t:n'', \<lparr>et_node = ''n'', et_trace = ''t'', et_item = dict_set ''trace_id'' (PStr ''t'') traced_item, et_done = False\<rparr>)]"
  by (simp add: submit_executor_task_def sample_trace task_id_of_def dict_has_def Let_def dict_set_new)

lemma reach_run: "graph_run E s evs s1 \<Longrightarrow> sched_reach E s1 s2 \<Longrightarrow> \<exists>evs'. graph_run E s evs' s2"
  by (metis graph_run_append sched_reach_def)

lemma sample_entered: "\<exists>cs. graph_run sample_graph (new_runner, sample_nodes) [NodeCall ''n'' (AppendPending (PDict traced_item))] (new_runner, cs)
    \<and> idle_queue [traced_item] cs"
proof -
  have "idle_queue [] sample_nodes" unfolding idle_queue_def sample_queue by (simp add: sample_nodes_def)
  then show ?thesis using sample_append_item [of "[]" sample_nodes new_runner] by (metis append_Nil graph_run_Cons graph_run_Nil)
qed

definition scanning :: "exec_task dict \<Rightarrow> nat \<Rightarrow> runner" where
  "scanning tasks g = \<lparr>ru_tasks = tasks, ru_ready = 0, ru_generation = g, ru_observed = g, ru_stop = False, ru_pc = Scan [''n''] 0\<rparr>"

lemma sample_first_batch: "\<exists>evs n cs. graph_run sample_graph (new_runner, sample_nodes) evs ((scanning sample_tasks 1)\<lparr>ru_pc := Scan [] n\<rparr>, cs)
    \<and> cs_files cs = cs_files sample_nodes \<and> store_ok (cs_runtime cs) \<and> holds_item traced_item (queue_of sample_graph ''n'' cs)
    \<and> \<not> nq_delete (queue_of sample_graph ''n'' cs) \<and> nq_pending (queue_of sample_graph ''n'' cs) = []"
proof -
  obtain cs where a: "graph_run sample_graph (new_runner, sample_nodes) [NodeCall ''n'' (AppendPending (PDict traced_item))] (new_runner, cs)"
      "idle_queue [traced_item] cs" using sample_entered by blast
  have s: "sched_step sample_graph (StartBatch [''n'']) (new_runner, cs) = Some (scanning [] 1, cs)"
    by (simp add: new_runner_def scanning_def wait_step_def Let_def next_node_def cleanup_finished_tasks_def)
  obtain cs' n where b: "sched_reach sample_graph (scanning [] 1, cs) ((scanning [] 1)\<lparr>ru_tasks := sample_tasks, ru_pc := Scan [] n\<rparr>, cs')"
      "takes_item sample_graph ''n'' traced_item cs cs'" "cs_files cs' = cs_files sample_nodes" "store_ok (cs_runtime cs')"
    by (rule sample_batch [OF a(2), of "scanning [] 1" 0]) (simp_all add: scanning_def)
  have "\<exists>evs. graph_run sample_graph (new_runner, sample_nodes) evs ((scanning sample_tasks 1)\<lparr>ru_pc := Scan [] n\<rparr>, cs')"
    using reach_run [OF a(1) reach_step [OF s b(1)]] by (simp add: scanning_def)
  moreover have "\<not> nq_delete (queue_of sample_graph ''n'' cs')" "nq_pending (queue_of sample_graph ''n'' cs') = []"
    using a(2) b(2) by (auto simp: takes_item_def idle_queue_def Let_def sample_graph_def traced_eligible py_strip_Nil)
  ultimately show ?thesis using b takes_holds by blast
qed

lemma host_run_Nil [simp]: "host_run E h [] h' \<longleftrightarrow> h' = h"
  by (auto intro: host_nil elim: host_run.cases)

lemma host_run_Cons [simp]: "host_run E h (ev # evs) h'' \<longleftrightarrow> (\<exists>h'. host_step E ev h = Some h' \<and> host_run E h' evs h'')"
  by (auto intro: host_cons elim: host_run_ConsE)

lemma host_run_append: "host_run E h (xs @ ys) h'' \<longleftrightarrow> (\<exists>h'. host_run E h xs h' \<and> host_run E h' ys h'')"
  by (induction xs arbitrary: h) auto

lemma host_run_trans: "host_run E h xs h' \<Longrightarrow> host_run E h' ys h'' \<Longrightarrow> host_run E h (xs @ ys) h''"
  by (auto simp: host_run_append)

abbreviation host :: "runner list \<Rightarrow> graph_state \<Rightarrow> graph_host" where
  "host old s \<equiv> \<lparr>gh_old = old, gh_runner = Some (fst s), gh_nodes = snd s\<rparr>"

lemma on_runner: "graph_run E s evs s' \<Longrightarrow> host_run E (host old s) (map OnRunner evs) (host old s')"
proof (induction rule: graph_run.induct)
  case (run_cons ev s s' evs s'')
  then show ?case by (cases s; cases s') (simp del: graph_step.simps)
qed simp

lemma sample_hosted: "\<exists>evs cs n. host_run sample_graph (start_host sample_nodes) evs (host [] ((scanning sample_tasks 1)\<lparr>ru_pc := Scan [] n\<rparr>, cs))
    \<and> cs_files cs = cs_files sample_nodes \<and> store_ok (cs_runtime cs) \<and> holds_item traced_item (queue_of sample_graph ''n'' cs)
    \<and> \<not> nq_delete (queue_of sample_graph ''n'' cs) \<and> nq_pending (queue_of sample_graph ''n'' cs) = []"
proof -
  obtain evs n cs where r: "graph_run sample_graph (new_runner, sample_nodes) evs ((scanning sample_tasks 1)\<lparr>ru_pc := Scan [] n\<rparr>, cs)"
      and cs: "cs_files cs = cs_files sample_nodes" "store_ok (cs_runtime cs)" "holds_item traced_item (queue_of sample_graph ''n'' cs)"
        "\<not> nq_delete (queue_of sample_graph ''n'' cs)" "nq_pending (queue_of sample_graph ''n'' cs) = []" using sample_first_batch by blast
  have "host_step sample_graph EnsureRunner (start_host sample_nodes) = Some (host [] (new_runner, sample_nodes))"
    by (simp add: ensure_graph_runner_def start_host_def)
  then have "host_run sample_graph (start_host sample_nodes) (EnsureRunner # map OnRunner evs) (host [] ((scanning sample_tasks 1)\<lparr>ru_pc := Scan [] n\<rparr>, cs))"
    using on_runner [OF r, of "[]"] by (simp del: host_step.simps)
  then show ?thesis using cs by blast
qed

lemma executions_never_overlap_witness:
  "\<exists>evs h t. host_run sample_graph (start_host sample_nodes) evs h \<and> length (runners h) = 1
    \<and> live (ru_tasks (runners h ! 0)) ''t:n'' t \<and> et_node t = ''n''
    \<and> {k'. \<exists>t'. live (ru_tasks (runners h ! 0)) k' t' \<and> et_node t' = ''n''} = {''t:n''}"
proof -
  obtain evs n cs where r: "host_run sample_graph (start_host sample_nodes) evs (host [] ((scanning sample_tasks 1)\<lparr>ru_pc := Scan [] n\<rparr>, cs))"
    using sample_hosted by blast
  let ?h = "host [] ((scanning sample_tasks 1)\<lparr>ru_pc := Scan [] n\<rparr>, cs)"
  have h: "runners ?h = [(scanning sample_tasks 1)\<lparr>ru_pc := Scan [] n\<rparr>]" by (simp add: runners_def)
  obtain t where t: "live (ru_tasks (runners ?h ! 0)) ''t:n'' t" "et_node t = ''n''" unfolding h by (auto simp: sample_tasks_eq live_def scanning_def)
  have "live (ru_tasks (runners ?h ! 0)) k' t' \<Longrightarrow> et_node t' = ''n'' \<Longrightarrow> k' = ''t:n''" for k' t'
    using executions_never_overlap [OF r _ _ _ t(1), of 0 k' t'] t(2) h by simp
  then have "{k'. \<exists>t'. live (ru_tasks (runners ?h ! 0)) k' t' \<and> et_node t' = ''n''} = {''t:n''}" using t by blast
  moreover have "length (runners ?h) = 1" unfolding h by simp
  ultimately show ?thesis using r t by blast
qed

text \<open>A runner that is replaced while a task of it runs does let executions overlap: a request to stop ends the scheduler while the task of
  the node has completed its work but not yet ended, the next message makes a new runner, and its first batch starts the node again.\<close>

lemma replaced_runner_overlaps:
  "\<exists>evs h t t'. host_run sample_graph (start_host sample_nodes) evs h \<and> length (runners h) = 2
    \<and> live (ru_tasks (runners h ! 0)) ''t:n'' t \<and> live (ru_tasks (runners h ! 1)) ''t:n'' t' \<and> et_node t = ''n'' \<and> et_node t' = ''n''"
proof -
  obtain evs n cs where r: "host_run sample_graph (start_host sample_nodes) evs (host [] ((scanning sample_tasks 1)\<lparr>ru_pc := Scan [] n\<rparr>, cs))"
    and cs: "cs_files cs = cs_files sample_nodes" "store_ok (cs_runtime cs)" "holds_item traced_item (queue_of sample_graph ''n'' cs)"
      "\<not> nq_delete (queue_of sample_graph ''n'' cs)" "nq_pending (queue_of sample_graph ''n'' cs) = []" using sample_hosted by blast
  let ?ru1 = "(scanning sample_tasks 1)\<lparr>ru_ready := max 0 n, ru_pc := Waiting\<rparr>"
  let ?ru2 = "?ru1\<lparr>ru_stop := True, ru_pc := Exited\<rparr>"
  obtain cs1 where f: "graph_run sample_graph (?ru1, cs) [NodeCall ''n'' (SetInflight PNone), NodeCall ''n'' (CompleteWork PNone)] (?ru1, cs1)"
      "idle_queue [] cs1" by (rule sample_finish [OF cs])
  obtain cs2 where p: "graph_step sample_graph (NodeCall ''n'' (AppendPending (PDict traced_item))) (?ru1, cs1) = Some (?ru1, cs2)"
      "idle_queue [traced_item] cs2" using sample_append_item [OF f(2), of ?ru1] by auto
  have e: "graph_step sample_graph (Sched SkipBatch) ((scanning sample_tasks 1)\<lparr>ru_pc := Scan [] n\<rparr>, cs) = Some (?ru1, cs)"
    by (simp add: end_batch_def scanning_def)
  have x: "graph_run sample_graph (?ru1, cs2) [StopRunner, Sched SkipBatch] (?ru2, cs2)"
    by (simp add: wait_step_def Let_def scanning_def)
  have "graph_run sample_graph ((scanning sample_tasks 1)\<lparr>ru_pc := Scan [] n\<rparr>, cs) ([Sched SkipBatch] @ [NodeCall ''n'' (SetInflight PNone), NodeCall ''n'' (CompleteWork PNone)]
      @ [NodeCall ''n'' (AppendPending (PDict traced_item))] @ [StopRunner, Sched SkipBatch]) (?ru2, cs2)"
    unfolding graph_run_append using e f(1) p(1) x by (meson graph_run_Cons graph_run_Nil)
  from on_runner [OF this, of "[]"]
  obtain evs1 where r1: "host_run sample_graph (start_host sample_nodes) (evs @ evs1) (host [] (?ru2, cs2))" using r unfolding host_run_append by blast
  have en: "host_step sample_graph EnsureRunner (host [] (?ru2, cs2)) = Some (host [?ru2] (new_runner, cs2))" by (simp add: ensure_graph_runner_def)
  have s: "sched_step sample_graph (StartBatch [''n'']) (new_runner, cs2) = Some (scanning [] 1, cs2)"
    by (simp add: new_runner_def scanning_def wait_step_def Let_def next_node_def cleanup_finished_tasks_def)
  obtain cs3 m where b: "sched_reach sample_graph (scanning [] 1, cs2) ((scanning [] 1)\<lparr>ru_tasks := sample_tasks, ru_pc := Scan [] m\<rparr>, cs3)"
    by (rule sample_batch [OF p(2), of "scanning [] 1" 0]) (simp_all add: scanning_def)
  let ?s = "((scanning [] 1)\<lparr>ru_tasks := sample_tasks, ru_pc := Scan [] m\<rparr>, cs3)"
  obtain evs2 where "graph_run sample_graph (new_runner, cs2) evs2 ?s" using reach_step [OF s b] by (auto simp: sched_reach_def)
  from on_runner [OF this, of "[?ru2]"] have "host_run sample_graph (host [?ru2] (new_runner, cs2)) (map OnRunner evs2) (host [?ru2] ?s)" .
  from host_cons [OF en this] have "host_run sample_graph (start_host sample_nodes) ((evs @ evs1) @ EnsureRunner # map OnRunner evs2) (host [?ru2] ?s)"
    by (rule host_run_trans [OF r1])
  moreover obtain t where "live sample_tasks ''t:n'' t" "et_node t = ''n''" by (auto simp: sample_tasks_eq live_def)
  moreover have "runners (host [?ru2] ?s) = [?ru2, fst ?s]" "ru_tasks ?ru2 = sample_tasks" "ru_tasks (fst ?s) = sample_tasks"
    by (simp_all only: runners_def graph_host.select_convs option.case append.simps) (simp_all add: scanning_def)
  ultimately show ?thesis
    by (intro exI [of _ "(evs @ evs1) @ EnsureRunner # map OnRunner evs2"] exI [of _ "host [?ru2] ?s"] exI [of _ t]) (simp only:, simp)
qed

lemma batch_starts_ready_nodes_witness:
  "\<exists>cs ru' cs'. graph_run sample_graph (new_runner, sample_nodes) [NodeCall ''n'' (AppendPending (PDict traced_item))] (new_runner, cs)
    \<and> sched_reach sample_graph (new_runner, cs) (ru', cs') \<and> started sample_graph ''u'' ''n'' traced_item (ru_tasks ru', cs')"
proof -
  obtain cs where a: "graph_run sample_graph (new_runner, sample_nodes) [NodeCall ''n'' (AppendPending (PDict traced_item))] (new_runner, cs)"
      "idle_queue [traced_item] cs" using sample_entered by blast
  have i: "store_ok (cs_runtime sample_nodes)" "node_file sample_graph ''n'' ''agent_node'' cs"
    "ru_pc new_runner = Waiting" "ru_observed new_runner < ru_generation new_runner" "\<not> ru_stop new_runner" "plain_names (ru_tasks new_runner)"
    "\<not> node_is_running ''n'' (ru_tasks new_runner)" using a(2) sample_node_file [of cs]
    by (simp_all add: sample_nodes_def idle_queue_def new_runner_def plain_names_def node_is_running_def)
  obtain ru' cs' where "sched_reach sample_graph (new_runner, cs) (ru', cs')"
      "\<forall>d. ready_item sample_graph ''n'' ''agent_node'' cs d \<longrightarrow> started sample_graph ''u'' ''n'' d (ru_tasks ru', cs')"
    using batch_starts_ready_nodes [OF a(1) i(1) sample_paths i(3-5), of "[''n'']" "\<lambda>_. ''agent_node''" "''u''"] i by auto
  then show ?thesis using a(1) idle_ready [OF a(2)] by blast
qed

lemma repeated_trace_strands_item_witness:
  "\<exists>evs ru cs s. graph_run sample_graph (new_runner, sample_nodes) evs (ru, cs) \<and> sched_reach sample_graph (ru, cs) s
    \<and> (\<exists>s'. graph_run sample_graph s [WakeRunner, ReadStatus] s'
         \<and> holds_item traced_item (queue_of sample_graph ''n'' (snd s')) \<and> \<not> node_is_running ''n'' (ru_tasks (fst s')))"
proof -
  obtain evs n cs where a: "graph_run sample_graph (new_runner, sample_nodes) evs ((scanning sample_tasks 1)\<lparr>ru_pc := Scan [] n\<rparr>, cs)"
      "cs_files cs = cs_files sample_nodes" "store_ok (cs_runtime cs)" "holds_item traced_item (queue_of sample_graph ''n'' cs)"
      "\<not> nq_delete (queue_of sample_graph ''n'' cs)" "nq_pending (queue_of sample_graph ''n'' cs) = []" using sample_first_batch by blast
  let ?ru1 = "(scanning sample_tasks 1)\<lparr>ru_ready := max 0 n, ru_pc := Waiting\<rparr>"
  let ?ru2 = "(scanning sample_tasks 2)\<lparr>ru_ready := max 0 n\<rparr>"
  let ?ru3 = "?ru2\<lparr>ru_tasks := finish_task ''t:n'' sample_tasks\<rparr>"
  obtain cs1 where f: "graph_run sample_graph (?ru1, cs) [NodeCall ''n'' (SetInflight PNone), NodeCall ''n'' (CompleteWork PNone)] (?ru1, cs1)"
      "idle_queue [] cs1" by (rule sample_finish [OF a(2-6)])
  obtain cs2 where p: "graph_step sample_graph (NodeCall ''n'' (AppendPending (PDict traced_item))) (?ru1, cs1) = Some (?ru1, cs2)"
      "idle_queue [traced_item] cs2" using sample_append_item [OF f(2), of ?ru1] by auto
  have e: "graph_step sample_graph (Sched SkipBatch) ((scanning sample_tasks 1)\<lparr>ru_pc := Scan [] n\<rparr>, cs) = Some (?ru1, cs)"
    by (simp add: end_batch_def scanning_def)
  have w: "graph_run sample_graph (?ru1, cs2) [WakeRunner, Sched (StartBatch [''n'']), FutureDone ''t:n''] (?ru3, cs2)"
    by (simp add: scanning_def wait_step_def Let_def next_node_def sample_tasks_eq cleanup_finished_tasks_def)
  have run: "graph_run sample_graph (new_runner, sample_nodes) (evs @ [Sched SkipBatch] @ [NodeCall ''n'' (SetInflight PNone), NodeCall ''n'' (CompleteWork PNone)]
      @ [NodeCall ''n'' (AppendPending (PDict traced_item))] @ [WakeRunner, Sched (StartBatch [''n'']), FutureDone ''t:n'']) (?ru3, cs2)"
    unfolding graph_run_append using a(1) e f(1) p(1) w by (meson graph_run_Cons graph_run_Nil)
  have i: "cs_files cs2 = cs_files sample_nodes" "store_ok (cs_runtime cs2)" using p(2) by (simp_all add: idle_queue_def)
  have t: "wf_dict (ru_tasks ?ru3)" "ru_pc ?ru3 = Scan [''n''] 0" "\<not> ru_stop ?ru3" "\<not> node_is_running ''n'' (ru_tasks ?ru3)"
      "dict_has (ru_tasks ?ru3) (task_id_of (item_trace ''u'' traced_item) ''n'')"
    by (simp_all add: sample_trace, simp_all add: scanning_def finish_task_def sample_tasks_eq wf_dict_def node_is_running_def dict_has_def task_id_of_def)
  obtain s where s: "sched_reach sample_graph (?ru3, cs2) s"
      "\<And>later s'. graph_run sample_graph s later s' \<Longrightarrow> \<forall>ev \<in> set later. leaves_node ''n'' ev
         \<Longrightarrow> holds_item traced_item (queue_of sample_graph ''n'' (snd s')) \<and> \<not> node_is_running ''n'' (ru_tasks (fst s'))"
    using repeated_trace_strands_item [OF sample_node_file [OF i(1)] i(2) sample_paths t(1-4) idle_ready [OF p(2)] t(5)] by blast
  obtain s' where l: "graph_run sample_graph s [WakeRunner, ReadStatus] s'" by (cases s) simp
  have "holds_item traced_item (queue_of sample_graph ''n'' (snd s')) \<and> \<not> node_is_running ''n'' (ru_tasks (fst s'))"
    by (rule s(2) [OF l]) simp
  then show ?thesis using l s(1) run by blast
qed

end
