(* ===== verification/Rounding.thy ===== *)
theory Rounding
  imports CronModel
begin

text \<open>
  Rounding to doubles is monotone, and the difference of two doubles is rounded to zero only when they are equal.
  Comparisons of instants therefore mean what they say.
\<close>

lemma round_half_even_mono: "x \<le> y \<Longrightarrow> round_half_even x \<le> round_half_even y"
proof -
  assume le: "x \<le> y"
  show ?thesis
  proof (cases "\<lfloor>x\<rfloor> = \<lfloor>y\<rfloor>")
    case True
    then show ?thesis using le by (auto simp: round_half_even_def Let_def)
  next
    case False
    then have "\<lfloor>x\<rfloor> + 1 \<le> \<lfloor>y\<rfloor>" using floor_mono [OF le] by linarith
    moreover have "round_half_even x \<le> \<lfloor>x\<rfloor> + 1" "\<lfloor>y\<rfloor> \<le> round_half_even y" by (auto simp: round_half_even_def Let_def)
    ultimately show ?thesis by linarith
  qed
qed

text \<open>The rounded value of a positive number, before the check for overflow.\<close>

definition rounded :: "rat \<Rightarrow> rat" where
  "rounded a = of_int (round_half_even (a / 2 powi float_exponent a)) * 2 powi float_exponent a"

lemma rounded_scaled:
  assumes "(2::rat) powi j = of_int n * 2 powi float_exponent a"
  shows "a \<le> 2 powi j \<Longrightarrow> rounded a \<le> 2 powi j" "2 powi j \<le> a \<Longrightarrow> 2 powi j \<le> rounded a"
proof -
  let ?u = "(2::rat) powi float_exponent a"
  have u: "0 < ?u" by simp
  have j: "(2::rat) powi j / ?u = of_int n" using assms u by (simp add: field_simps)
  show "rounded a \<le> 2 powi j" if "a \<le> 2 powi j"
  proof -
    have "a / ?u \<le> of_int n" using divide_right_mono [OF that, of ?u] j by simp
    then have "round_half_even (a / ?u) \<le> n" using round_half_even_mono [of "a / ?u" "of_int n"] by simp
    then show ?thesis unfolding rounded_def assms using u by (intro mult_right_mono) simp_all
  qed
  show "2 powi j \<le> rounded a" if "2 powi j \<le> a"
  proof -
    have "of_int n \<le> a / ?u" using divide_right_mono [OF that, of ?u] j by simp
    then have "n \<le> round_half_even (a / ?u)" using round_half_even_mono [of "of_int n" "a / ?u"] by simp
    then show ?thesis unfolding rounded_def assms using u by (intro mult_right_mono) simp_all
  qed
qed

lemma powi_multiple: "e \<le> j \<Longrightarrow> \<exists>n::int. (2::rat) powi j = of_int n * 2 powi e"
  using powi_2_int [of "j - e"] by (auto simp: power_int_diff field_simps)

lemma rounded_mono:
  assumes "0 < a" "a \<le> b"
  shows "rounded a \<le> rounded b"
proof -
  obtain k where k: "2 powi k \<le> a" "a < 2 powi (k + 1)" "float_exponent a = max (k - 52) (- 1074)"
    using float_exponent_log2 [OF assms(1)] by blast
  have "0 < b" using assms by simp
  then obtain l where l: "2 powi l \<le> b" "b < 2 powi (l + 1)" "float_exponent b = max (l - 52) (- 1074)"
    using float_exponent_log2 by blast
  have "(2::rat) powi k < 2 powi (l + 1)" using k(1) l(2) assms(2) by linarith
  then have kl: "k \<le> l" by (simp add: powi_2_less_iff)
  show ?thesis
  proof (cases "float_exponent a = float_exponent b")
    case True
    then show ?thesis unfolding rounded_def
      by (simp add: mult_right_mono round_half_even_mono divide_right_mono assms(2))
  next
    case False
    then have e: "float_exponent a < float_exponent b" "float_exponent b = l - 52" "k + 1 \<le> l" using k(3) l(3) kl by linarith+
    have "a \<le> 2 powi l" using k(2) e(3) powi_2_less_iff [of l "k + 1"] by linarith
    moreover obtain m n where "(2::rat) powi l = of_int m * 2 powi float_exponent a" "(2::rat) powi l = of_int n * 2 powi float_exponent b"
      using powi_multiple [of "float_exponent a" l] powi_multiple [of "float_exponent b" l] e(1,2) by auto
    ultimately show ?thesis using rounded_scaled(1) [of l m a] rounded_scaled(2) [of l n b] l(1) by linarith
  qed
qed

text \<open>Instants are far below the largest double.\<close>

abbreviation small :: "rat \<Rightarrow> bool" where
  "small q \<equiv> \<bar>q\<bar> \<le> 2 ^ 1000"

lemma rounded_small: "0 < a \<Longrightarrow> a \<le> 2 ^ 1000 \<Longrightarrow> rounded a < 2 ^ 1024"
proof -
  assume a: "0 < a" "a \<le> 2 ^ 1000"
  obtain k where k: "2 powi k \<le> a" "float_exponent a = max (k - 52) (- 1074)" using float_exponent_log2 [OF a(1)] by blast
  have "(2::rat) powi k \<le> 2 powi 1000" using k(1) a(2) by simp
  then have "k \<le> 1000" using powi_2_less_iff [of 1000 k] by linarith
  then have "float_exponent a \<le> 1000" using k(2) by simp
  then obtain n where "(2::rat) powi 1000 = of_int n * 2 powi float_exponent a" using powi_multiple by blast
  then have "rounded a \<le> 2 powi 1000" by (rule rounded_scaled(1)) (use a(2) in simp)
  then show "rounded a < 2 ^ 1024" by (rule le_less_trans) simp
qed

lemma rounded_nonneg: "0 < a \<Longrightarrow> 0 \<le> rounded a"
  unfolding rounded_def using round_half_even_mono [of 0 "a / 2 powi float_exponent a"] round_half_even_int [of 0] by simp

lemma small_double: "small q \<Longrightarrow> round_double q = Fin (sgn q * rounded \<bar>q\<bar>)"
proof (cases "q = 0")
  case False
  assume "small q"
  then have "\<not> 2 ^ 1024 \<le> rounded \<bar>q\<bar>" using rounded_small [of "\<bar>q\<bar>"] False by (simp only: not_le zero_less_abs_iff simp_thms)
  then show ?thesis using False unfolding round_double_def Let_def rounded_def by (simp only: if_False)
qed (simp add: round_double_def)

lemma fl_small: "small q \<Longrightarrow> fl q = sgn q * rounded \<bar>q\<bar>"
  by (simp only: fl_def small_double pyfloat.case)

lemma small_Fin: "small q \<Longrightarrow> round_double q = Fin (fl q)"
  by (simp only: fl_small small_double)

lemma fl_0 [simp]: "fl 0 = 0"
  by (simp add: fl_def round_double_def)

lemma fl_mono:
  assumes "q \<le> r" "small q" "small r"
  shows "fl q \<le> fl r"
proof (cases "0 < q \<or> r < 0")
  case True
  then show ?thesis using assms rounded_mono [of q r] rounded_mono [of "- r" "- q"] by (auto simp: fl_small sgn_if)
next
  case False
  then have "q \<le> 0" "0 \<le> r" by simp_all
  then have "fl q \<le> 0" "0 \<le> fl r" using assms(2,3) rounded_nonneg [of "- q"] rounded_nonneg [of r]
    by (auto simp: fl_small sgn_if mult_less_0_iff split: if_splits)
  then show ?thesis by linarith
qed

lemma fl_fl [simp]: "small q \<Longrightarrow> fl (fl q) = fl q"
  using round_double_idem [OF small_Fin [of q]] by (simp only: fl_def pyfloat.case)

lemma fl_int: "\<bar>i\<bar> \<le> 2 ^ 53 \<Longrightarrow> fl (of_int i) = of_int i"
  using round_double_int [of i] by (simp add: fl_def)

definition double_time :: "rat \<Rightarrow> bool" where
  "double_time t \<longleftrightarrow> 0 \<le> t \<and> t \<le> 2 ^ 50 \<and> fl t = t"

lemma double_time_small: "double_time t \<Longrightarrow> small t"
  by (simp add: double_time_def)

lemma fl_multiple:
  assumes "fl q = q" "small q"
  obtains m :: int where "q = of_int m * 2 powi (- 1074)"
proof -
  have "round_double q = Fin q" using small_Fin [OF assms(2)] assms(1) by simp
  then obtain m e :: int where f: "- 1074 \<le> e" "\<bar>q\<bar> = of_int m * 2 powi e" using round_double_form by metis
  obtain n where "(2::rat) powi e = of_int n * 2 powi (- 1074)" using powi_multiple [OF f(1)] by blast
  then have "\<bar>q\<bar> = of_int (m * n) * 2 powi (- 1074)" using f(2) by simp
  then have "q = of_int (if q < 0 then - (m * n) else m * n) * 2 powi (- 1074)" by (auto simp: abs_if split: if_splits)
  then show ?thesis using that by blast
qed

lemma fl_diff_le_0:
  assumes "fl a = a" "fl b = b" "\<bar>a\<bar> \<le> 2 ^ 999" "\<bar>b\<bar> \<le> 2 ^ 999"
  shows "fl (a - b) \<le> 0 \<longleftrightarrow> a \<le> b"
proof -
  have s: "small a" "small b" "small (a - b)" using assms(3,4) by simp_all
  show ?thesis
  proof (cases "a \<le> b")
    case True
    then show ?thesis using fl_mono [of "a - b" 0] s(3) by simp
  next
    case False
    obtain m n where "a = of_int m * 2 powi (- 1074)" "b = of_int n * 2 powi (- 1074)"
      using fl_multiple assms(1,2) s(1,2) by metis
    then have d: "a - b = of_int (m - n) * 2 powi (- 1074)" by (simp add: left_diff_distrib)
    then have "0 < m - n" using False by (simp add: mult_le_0_iff not_le [symmetric] del: of_int_diff)
    then have "1 * (2::rat) powi (- 1074) \<le> a - b" unfolding d by (intro mult_right_mono) simp_all
    moreover have "round_double (1 * 2 powi (- 1074)) = Fin (1 * 2 powi (- 1074))"
      by (rule round_double_representable [of _ 1 "- 1074"]) simp_all
    ultimately have "2 powi (- 1074) \<le> fl (a - b)" using fl_mono [of "2 powi (- 1074)" "a - b"] s(3) by (simp add: fl_def)
    then have "0 < fl (a - b)" by (rule less_le_trans [rotated]) simp
    then show ?thesis using False by simp
  qed
qed

end
