(* ===== verification/ProviderPressure.thy ===== *)
theory ProviderPressure
  imports Rounding PyValue
begin

text \<open>
  Admission of requests to a provider (\<open>providers/provider_pressure.py\<close>, \<open>providers/provider_token_window.py\<close>):
  a rolling window of token usage, a queue of waiting requests and three limits, on concurrency, on the rate of
  requests and on tokens. Instants are doubles of a monotonic clock.
\<close>

section \<open>The window of tokens\<close>

record token_entry =
  te_completed_at :: rat
  te_input_tokens :: int
  te_output_tokens :: int

record token_window =
  tw_entries :: "token_entry list"
  tw_input_tokens :: int
  tw_output_tokens :: int

definition new_window :: token_window where
  "new_window = \<lparr>tw_entries = [], tw_input_tokens = 0, tw_output_tokens = 0\<rparr>"

definition safe_window_seconds :: "rat \<Rightarrow> rat" where
  "safe_window_seconds window = max (fl (1 / 1000)) window"

fun evict :: "rat \<Rightarrow> token_entry list \<Rightarrow> int \<Rightarrow> int \<Rightarrow> token_window" where
  "evict cutoff [] i n = \<lparr>tw_entries = [], tw_input_tokens = i, tw_output_tokens = n\<rparr>"
| "evict cutoff (e # es) i n = (if te_completed_at e \<le> cutoff
     then evict cutoff es (max 0 (i - te_input_tokens e)) (max 0 (n - te_output_tokens e))
     else \<lparr>tw_entries = e # es, tw_input_tokens = i, tw_output_tokens = n\<rparr>)"

definition evict_expired :: "rat \<Rightarrow> rat \<Rightarrow> token_window \<Rightarrow> token_window" where
  "evict_expired now window tw = evict (fl (now - safe_window_seconds window)) (tw_entries tw) (tw_input_tokens tw) (tw_output_tokens tw)"

definition total_tokens :: "token_window \<Rightarrow> int" where
  "total_tokens tw = tw_input_tokens tw + tw_output_tokens tw"

definition record_usage :: "rat \<Rightarrow> int \<Rightarrow> int \<Rightarrow> rat \<Rightarrow> token_window \<Rightarrow> token_window" where
  "record_usage completed_at input output window tw = (let tw' = evict_expired completed_at window tw; i = max 0 input; n = max 0 output in
     if i > 0 \<or> n > 0
     then \<lparr>tw_entries = tw_entries tw' @ [\<lparr>te_completed_at = completed_at, te_input_tokens = i, te_output_tokens = n\<rparr>],
           tw_input_tokens = tw_input_tokens tw' + i, tw_output_tokens = tw_output_tokens tw' + n\<rparr>
     else tw')"

text \<open>How long until the entries that expire leave less than the limit.\<close>

fun wait_for_entries :: "rat \<Rightarrow> rat \<Rightarrow> int \<Rightarrow> int \<Rightarrow> token_entry list \<Rightarrow> rat" where
  "wait_for_entries now window limit remaining [] = 0"
| "wait_for_entries now window limit remaining (e # es) = (let r = remaining - (te_input_tokens e + te_output_tokens e) in
     if r < limit then max 0 (fl (fl (te_completed_at e + window) - now)) else wait_for_entries now window limit r es)"

definition next_available_in_seconds :: "rat \<Rightarrow> rat \<Rightarrow> int option \<Rightarrow> token_window \<Rightarrow> token_window \<times> rat" where
  "next_available_in_seconds now window limit tw = (let tw' = evict_expired now window tw in
     (tw', case limit of None \<Rightarrow> 0
       | Some l \<Rightarrow> if total_tokens tw' < l then 0
           else wait_for_entries now (safe_window_seconds window) l (total_tokens tw') (tw_entries tw')))"

section \<open>Limits\<close>

record limits =
  pl_concurrency :: "int option"
  pl_rpm :: "int option"
  pl_tpm :: "int option"

definition no_limits :: limits where
  "no_limits = \<lparr>pl_concurrency = None, pl_rpm = None, pl_tpm = None\<rparr>"

definition positive_int_or_none :: "pyval \<Rightarrow> int option" where
  "positive_int_or_none v = (if is_none v \<or> v = PStr [] \<or> is_bool v then None
     else case py_int v of Inr i \<Rightarrow> if 0 < i then Some i else None | Inl _ \<Rightarrow> None)"

definition non_negative_int_or_none :: "pyval \<Rightarrow> int option" where
  "non_negative_int_or_none v = (if is_none v \<or> is_bool v then None
     else case py_int v of Inr i \<Rightarrow> if 0 \<le> i then Some i else None | Inl _ \<Rightarrow> None)"

definition limits_from_config :: "pydict \<Rightarrow> limits" where
  "limits_from_config config = \<lparr>pl_concurrency = positive_int_or_none (get config ''concurrencyLimit''),
     pl_rpm = positive_int_or_none (get config ''rpmLimit''), pl_tpm = positive_int_or_none (get config ''tpmLimit'')\<rparr>"

definition load_limits :: "pydict dict \<Rightarrow> string \<Rightarrow> limits" where
  "load_limits providers provider = limits_from_config (case map_of providers provider of Some c \<Rightarrow> c | None \<Rightarrow> [])"

text \<open>The cache of the configuration file: its path, its time of change and the providers read from it. The path and time
  of the file and what the loader reads are arguments, absent when the loader raises.\<close>

record config_cache =
  cc_path :: string
  cc_mtime_ns :: int
  cc_providers :: "pydict dict"

definition configured_providers :: "(string \<times> int) option \<Rightarrow> pyval option \<Rightarrow> config_cache \<Rightarrow> config_cache \<times> pydict dict" where
  "configured_providers file loaded cc = (case file of None \<Rightarrow> (cc, [])
     | Some (path, mtime_ns) \<Rightarrow> if path = cc_path cc \<and> mtime_ns = cc_mtime_ns cc then (cc, cc_providers cc)
         else case loaded of
             Some (PDict d) \<Rightarrow> (let ps = map (\<lambda>(k, v). (k, dict_items v)) (filter (\<lambda>(k, v). is_dict v) d) in
               (\<lparr>cc_path = path, cc_mtime_ns = mtime_ns, cc_providers = ps\<rparr>, ps))
           | _ \<Rightarrow> (cc, []))"

section \<open>Admission\<close>

definition RPM_INTERVAL_BASE_SEC :: rat where "RPM_INTERVAL_BASE_SEC = 60"
definition TPM_WINDOW_SEC :: rat where "TPM_WINDOW_SEC = 60"

record pressure =
  pp_waiters :: "nat list"
  pp_in_flight :: int
  pp_queued :: int
  pp_peak_in_flight :: int
  pp_peak_queued :: int
  pp_peak_rpm_used :: int
  pp_peak_tpm_used :: int
  pp_peak_input_tpm_used :: int
  pp_peak_output_tpm_used :: int
  pp_last_started_at :: "rat option"
  pp_last_interval_sec :: "rat option"
  pp_token_window :: token_window
  pp_last_limits :: limits

definition new_pressure :: pressure where
  "new_pressure = \<lparr>pp_waiters = [], pp_in_flight = 0, pp_queued = 0, pp_peak_in_flight = 0, pp_peak_queued = 0,
     pp_peak_rpm_used = 0, pp_peak_tpm_used = 0, pp_peak_input_tpm_used = 0, pp_peak_output_tpm_used = 0,
     pp_last_started_at = None, pp_last_interval_sec = None, pp_token_window = new_window, pp_last_limits = no_limits\<rparr>"

definition safe_provider_id :: "string \<Rightarrow> string" where
  "safe_provider_id provider = (if py_strip provider = [] then ''<unknown>'' else py_strip provider)"

definition record_peaks :: "pressure \<Rightarrow> pressure" where
  "record_peaks p = p\<lparr>pp_peak_in_flight := max (pp_peak_in_flight p) (pp_in_flight p),
     pp_peak_queued := max (pp_peak_queued p) (pp_queued p)\<rparr>"

definition record_request_start :: "rat \<Rightarrow> pressure \<Rightarrow> pressure" where
  "record_request_start now p = (let p' = (case pp_last_started_at p of None \<Rightarrow> p
       | Some t0 \<Rightarrow> let interval = max 0 (fl (now - t0)) in
           p\<lparr>pp_last_interval_sec := Some interval,
             pp_peak_rpm_used := (if interval > 0 then max (pp_peak_rpm_used p) (round_half_even (fl (RPM_INTERVAL_BASE_SEC / interval)))
               else pp_peak_rpm_used p)\<rparr>)
     in p'\<lparr>pp_last_started_at := Some now\<rparr>)"

text \<open>\<open>float(limit)\<close> raises for an integer beyond all doubles.\<close>

definition rpm_interval_sec :: "limits \<Rightarrow> (py_error, rat option) res" where
  "rpm_interval_sec l = (case pl_rpm l of None \<Rightarrow> Inr None
     | Some n \<Rightarrow> rbind (py_float_of_int n) (\<lambda>f. Inr (Some (case f of Fin q \<Rightarrow> fl (RPM_INTERVAL_BASE_SEC / q) | _ \<Rightarrow> 0))))"

definition rpm_next_available_in_sec :: "limits \<Rightarrow> rat \<Rightarrow> pressure \<Rightarrow> (py_error, rat) res" where
  "rpm_next_available_in_sec l now p = rbind (rpm_interval_sec l) (\<lambda>interval.
     Inr (case (interval, pp_last_started_at p) of
       (Some i, Some t0) \<Rightarrow> max 0 (fl (fl (t0 + i) - now)) | _ \<Rightarrow> 0))"

definition tpm_next_available_in_sec :: "limits \<Rightarrow> rat \<Rightarrow> pressure \<Rightarrow> pressure \<times> rat" where
  "tpm_next_available_in_sec l now p = (let (tw, r) = next_available_in_seconds now TPM_WINDOW_SEC (pl_tpm l) (pp_token_window p) in
     (p\<lparr>pp_token_window := tw\<rparr>, r))"

definition wait_timeout :: "limits \<Rightarrow> rat \<Rightarrow> pressure \<Rightarrow> (py_error, pressure \<times> rat) res" where
  "wait_timeout l now p = rbind (rpm_next_available_in_sec l now p) (\<lambda>r.
     let t = (if r > 0 then min (1 / 4) (max (fl (1 / 100)) r) else 1 / 4);
         (p', s) = tpm_next_available_in_sec l now p
     in Inr (p', if s > 0 then min t (max (fl (1 / 100)) s) else t))"

text \<open>The parts of \<open>acquire\<close> that hold the lock: entering without limits, joining the queue, one turn of the loop,
  and leaving. The loop raises when the caller has been cancelled or a limit is too large for a double.\<close>

definition start_request :: "rat \<Rightarrow> pressure \<Rightarrow> pressure" where
  "start_request now p = record_peaks ((record_request_start now p)\<lparr>pp_in_flight := pp_in_flight p + 1\<rparr>)"

definition acquire_unlimited :: "limits \<Rightarrow> rat \<Rightarrow> pressure \<Rightarrow> pressure" where
  "acquire_unlimited l now p = start_request now (p\<lparr>pp_last_limits := l\<rparr>)"

definition join_queue :: "nat \<Rightarrow> limits \<Rightarrow> pressure \<Rightarrow> pressure" where
  "join_queue w l p = record_peaks (p\<lparr>pp_last_limits := l, pp_waiters := pp_waiters p @ [w], pp_queued := pp_queued p + 1\<rparr>)"

datatype turn = Admitted | Waits rat | Raised py_error | Cancelled

definition leave_queue :: "nat \<Rightarrow> pressure \<Rightarrow> pressure" where
  "leave_queue w p = p\<lparr>pp_waiters := remove1 w (pp_waiters p), pp_queued := max 0 (pp_queued p - 1)\<rparr>"

definition take_turn :: "nat \<Rightarrow> limits \<Rightarrow> bool \<Rightarrow> rat \<Rightarrow> pressure \<Rightarrow> pressure \<times> turn" where
  "take_turn w l cancelled now p = (if cancelled then (leave_queue w p, Cancelled)
     else case rpm_next_available_in_sec l now p of
       Inl e \<Rightarrow> (leave_queue w p, Raised e)
     | Inr r \<Rightarrow> (let at_head = (pp_waiters p \<noteq> [] \<and> hd (pp_waiters p) = w);
           concurrency_ok = (case pl_concurrency l of None \<Rightarrow> True | Some c \<Rightarrow> pp_in_flight p < c);
           (p1, s) = tpm_next_available_in_sec l now p
         in if at_head \<and> concurrency_ok \<and> r \<le> 0 \<and> s \<le> 0
            then (start_request now (p1\<lparr>pp_waiters := tl (pp_waiters p1), pp_queued := max 0 (pp_queued p1 - 1)\<rparr>), Admitted)
            else case wait_timeout l now p1 of Inl e \<Rightarrow> (leave_queue w p1, Raised e) | Inr (p2, t) \<Rightarrow> (p2, Waits t)))"

definition release :: "pressure \<Rightarrow> pressure" where
  "release p = p\<lparr>pp_in_flight := max 0 (pp_in_flight p - 1)\<rparr>"

definition record_tokens :: "limits \<Rightarrow> pyval \<Rightarrow> pyval \<Rightarrow> rat \<Rightarrow> pressure \<Rightarrow> pressure" where
  "record_tokens l input output now p = (let i = non_negative_int_or_none input; n = non_negative_int_or_none output in
     if i = None \<and> n = None \<or> pl_tpm l = None then p
     else let tw = record_usage now (case i of Some x \<Rightarrow> x | None \<Rightarrow> 0) (case n of Some x \<Rightarrow> x | None \<Rightarrow> 0) TPM_WINDOW_SEC (pp_token_window p)
       in p\<lparr>pp_last_limits := l, pp_token_window := tw,
            pp_peak_tpm_used := max (pp_peak_tpm_used p) (total_tokens tw),
            pp_peak_input_tpm_used := max (pp_peak_input_tpm_used p) (tw_input_tokens tw),
            pp_peak_output_tpm_used := max (pp_peak_output_tpm_used p) (tw_output_tokens tw)\<rparr>)"

section \<open>Snapshots\<close>

definition opt_int :: "int option \<Rightarrow> pyval" where
  "opt_int v = (case v of None \<Rightarrow> PNone | Some i \<Rightarrow> PInt i)"

definition opt_float :: "rat option \<Rightarrow> pyval" where
  "opt_float v = (case v of None \<Rightarrow> PNone | Some q \<Rightarrow> PFloat (Fin q))"

definition config_row :: "string \<Rightarrow> pydict \<Rightarrow> limits \<Rightarrow> pydict" where
  "config_row provider config l = [(''provider_id'', PStr provider), (''type'', PStr (str_or (get config ''type''))),
     (''model'', PStr (str_or (get config ''model''))), (''concurrency_limit'', opt_int (pl_concurrency l)),
     (''rpm_limit'', opt_int (pl_rpm l)), (''tpm_limit'', opt_int (pl_tpm l))]"

definition empty_snapshot_row :: "string \<Rightarrow> pydict \<Rightarrow> limits \<Rightarrow> (py_error, pydict) res" where
  "empty_snapshot_row provider config l = rbind (rpm_interval_sec l) (\<lambda>interval.
     Inr (config_row provider config l @ [(''in_flight'', PInt 0), (''queued'', PInt 0), (''rpm_used'', PInt 0),
       (''rpm_interval_sec'', opt_float interval), (''rpm_next_available_in_sec'', PFloat (Fin 0)), (''tpm_used'', PInt 0),
       (''tpm_remaining'', opt_int (pl_tpm l)), (''input_tpm_used'', PInt 0), (''output_tpm_used'', PInt 0),
       (''tpm_next_available_in_sec'', PFloat (Fin 0)), (''peak_in_flight'', PInt 0), (''peak_queued'', PInt 0),
       (''peak_rpm_used'', PInt 0), (''peak_tpm_used'', PInt 0), (''peak_input_tpm_used'', PInt 0),
       (''peak_output_tpm_used'', PInt 0), (''rpm_remaining'', opt_int (pl_rpm l))]))"

definition snapshot_row :: "string \<Rightarrow> pydict \<Rightarrow> rat \<Rightarrow> pressure \<Rightarrow> pressure \<times> (py_error, pydict) res" where
  "snapshot_row provider config now p = (let l = limits_from_config config; p0 = p\<lparr>pp_last_limits := l\<rparr> in
     case (rpm_next_available_in_sec l now p0, rpm_interval_sec l) of
       (Inr rpm_next, Inr interval) \<Rightarrow> (let tw = evict_expired now TPM_WINDOW_SEC (pp_token_window p0);
           (p1, tpm_next) = tpm_next_available_in_sec l now (p0\<lparr>pp_token_window := tw\<rparr>);
           p2 = record_peaks p1;
           used = rpm_next > 0
         in (p2, Inr (config_row provider config l @ [(''in_flight'', PInt (pp_in_flight p2)), (''queued'', PInt (pp_queued p2)),
              (''rpm_used'', PInt (if used then 1 else 0)), (''rpm_interval_sec'', opt_float interval),
              (''rpm_next_available_in_sec'', PFloat (Fin rpm_next)), (''tpm_used'', PInt (total_tokens tw)),
              (''tpm_remaining'', opt_int (map_option (\<lambda>m. max 0 (m - total_tokens tw)) (pl_tpm l))),
              (''input_tpm_used'', PInt (tw_input_tokens tw)), (''output_tpm_used'', PInt (tw_output_tokens tw)),
              (''tpm_next_available_in_sec'', PFloat (Fin tpm_next)), (''peak_in_flight'', PInt (pp_peak_in_flight p2)),
              (''peak_queued'', PInt (pp_peak_queued p2)), (''peak_rpm_used'', PInt (pp_peak_rpm_used p2)),
              (''peak_tpm_used'', PInt (pp_peak_tpm_used p2)), (''peak_input_tpm_used'', PInt (pp_peak_input_tpm_used p2)),
              (''peak_output_tpm_used'', PInt (pp_peak_output_tpm_used p2)),
              (''rpm_remaining'', opt_int (map_option (\<lambda>n. if used then 0 else 1) (pl_rpm l)))])))
     | (Inl e, _) \<Rightarrow> (p0, Inl e)
     | (_, Inl e) \<Rightarrow> (p0, Inl e))"

section \<open>Threads\<close>

text \<open>The callers of one provider: those in the loop of \<open>acquire\<close> with the limits they loaded, and those whose request is
  under way. The clock never goes back between events that read it under the lock; a snapshot reads it before it takes the lock.\<close>

record pressure_sys =
  sy_pressure :: pressure
  sy_waiting :: "nat \<rightharpoonup> limits"
  sy_running :: "nat list"
  sy_clock :: rat

datatype pressure_event = Ask nat pydict rat | Turn nat bool rat | Leave nat | Tokens pydict pyval pyval rat | Look string pydict rat

definition new_sys :: pressure_sys where
  "new_sys = \<lparr>sy_pressure = new_pressure, sy_waiting = Map.empty, sy_running = [], sy_clock = 0\<rparr>"

definition ticks :: "pressure_sys \<Rightarrow> rat \<Rightarrow> bool" where
  "ticks s now \<longleftrightarrow> double_time now \<and> sy_clock s \<le> now"

fun pressure_step :: "pressure_event \<Rightarrow> pressure_sys \<Rightarrow> pressure_sys option" where
  "pressure_step (Ask w config now) s = (if \<not> ticks s now \<or> sy_waiting s w \<noteq> None \<or> w \<in> set (sy_running s) then None
     else let l = limits_from_config config in
       if l = no_limits
       then Some (s\<lparr>sy_pressure := acquire_unlimited l now (sy_pressure s), sy_running := sy_running s @ [w], sy_clock := now\<rparr>)
       else Some (s\<lparr>sy_pressure := join_queue w l (sy_pressure s), sy_waiting := (sy_waiting s)(w \<mapsto> l), sy_clock := now\<rparr>))"
| "pressure_step (Turn w cancelled now) s = (if \<not> ticks s now then None
     else case sy_waiting s w of None \<Rightarrow> None
     | Some l \<Rightarrow> (let (p, r) = take_turn w l cancelled now (sy_pressure s); s' = s\<lparr>sy_pressure := p, sy_clock := now\<rparr> in
         Some (case r of Waits t \<Rightarrow> s'
           | Admitted \<Rightarrow> s'\<lparr>sy_waiting := (sy_waiting s)(w := None), sy_running := sy_running s @ [w]\<rparr>
           | _ \<Rightarrow> s'\<lparr>sy_waiting := (sy_waiting s)(w := None)\<rparr>)))"
| "pressure_step (Leave w) s = (if w \<notin> set (sy_running s) then None
     else Some (s\<lparr>sy_pressure := release (sy_pressure s), sy_running := remove1 w (sy_running s)\<rparr>))"
| "pressure_step (Tokens config input output now) s = (if \<not> ticks s now then None
     else Some (s\<lparr>sy_pressure := record_tokens (limits_from_config config) input output now (sy_pressure s), sy_clock := now\<rparr>))"
| "pressure_step (Look provider config now) s = (if \<not> double_time now then None
     else Some (s\<lparr>sy_pressure := fst (snapshot_row provider config now (sy_pressure s)), sy_clock := max (sy_clock s) now\<rparr>))"

fun pressure_run :: "pressure_event list \<Rightarrow> pressure_sys \<Rightarrow> pressure_sys option" where
  "pressure_run [] s = Some s"
| "pressure_run (ev # evs) s = (case pressure_step ev s of None \<Rightarrow> None | Some s' \<Rightarrow> pressure_run evs s')"

end
