(* ===== verification/PressureLaws.thy ===== *)
theory PressureLaws
  imports ProviderPressure
begin

text \<open>
  What the admission of requests guarantees: the window counts the tokens of the last minute, a request is admitted
  exactly when it is first in the queue and all limits allow it, limits on concurrency hold in every interleaving, and
  every queue drains in order.
\<close>

section \<open>The window\<close>

definition entries_input :: "token_entry list \<Rightarrow> int" where
  "entries_input es = sum_list (map te_input_tokens es)"

definition entries_output :: "token_entry list \<Rightarrow> int" where
  "entries_output es = sum_list (map te_output_tokens es)"

definition entry_tokens :: "token_entry \<Rightarrow> int" where
  "entry_tokens e = te_input_tokens e + te_output_tokens e"

lemma entries_simps [simp]:
  "entries_input [] = 0" "entries_input (e # es) = te_input_tokens e + entries_input es" "entries_input (es @ fs) = entries_input es + entries_input fs"
  "entries_output [] = 0" "entries_output (e # es) = te_output_tokens e + entries_output es" "entries_output (es @ fs) = entries_output es + entries_output fs"
  by (simp_all add: entries_input_def entries_output_def)

text \<open>The window holds these entries, and its sums are theirs.\<close>

definition holds_entries :: "token_entry list \<Rightarrow> token_window \<Rightarrow> bool" where
  "holds_entries es tw \<longleftrightarrow> tw = \<lparr>tw_entries = es, tw_input_tokens = entries_input es, tw_output_tokens = entries_output es\<rparr>"

definition entries_ok :: "rat \<Rightarrow> token_entry list \<Rightarrow> bool" where
  "entries_ok c es \<longleftrightarrow> sorted (map te_completed_at es)
     \<and> (\<forall>e \<in> set es. 0 \<le> te_input_tokens e \<and> 0 \<le> te_output_tokens e \<and> double_time (te_completed_at e) \<and> te_completed_at e \<le> c)"

lemma entries_ok_simps [simp]:
  "entries_ok c []"
  "entries_ok c (e # es) \<longleftrightarrow> entries_ok c es \<and> 0 \<le> te_input_tokens e \<and> 0 \<le> te_output_tokens e \<and> double_time (te_completed_at e)
     \<and> te_completed_at e \<le> c \<and> (\<forall>f \<in> set es. te_completed_at e \<le> te_completed_at f)"
  by (auto simp: entries_ok_def)

lemma entries_nonneg: "entries_ok c es \<Longrightarrow> 0 \<le> entries_input es \<and> 0 \<le> entries_output es"
  by (induction es) auto

lemma entries_ok_later: "entries_ok c es \<Longrightarrow> c \<le> c' \<Longrightarrow> entries_ok c' es"
  by (auto simp: entries_ok_def)

lemma entries_ok_filter: "entries_ok c es \<Longrightarrow> entries_ok c (filter P es)"
  by (auto simp: entries_ok_def sorted_filter)

lemma evict_exact: "entries_ok c es \<Longrightarrow> evict cutoff es (entries_input es) (entries_output es)
    = \<lparr>tw_entries = filter (\<lambda>e. cutoff < te_completed_at e) es, tw_input_tokens = entries_input (filter (\<lambda>e. cutoff < te_completed_at e) es),
       tw_output_tokens = entries_output (filter (\<lambda>e. cutoff < te_completed_at e) es)\<rparr>"
proof (induction es)
  case (Cons e es)
  show ?case
  proof (cases "te_completed_at e \<le> cutoff")
    case True
    then show ?thesis using Cons entries_nonneg [of c es] by simp
  next
    case False
    then have "filter (\<lambda>e. cutoff < te_completed_at e) es = es" using Cons.prems by (auto simp: filter_id_conv)
    then show ?thesis using False by simp
  qed
qed simp

definition cutoff :: "rat \<Rightarrow> rat" where
  "cutoff now = fl (now - 60)"

lemma safe_window_60: "safe_window_seconds TPM_WINDOW_SEC = 60"
proof -
  have "fl (1 / 1000) \<le> fl (of_int 60)" by (rule fl_mono) simp_all
  then show ?thesis using fl_int [of 60] by (simp add: safe_window_seconds_def TPM_WINDOW_SEC_def)
qed

lemma cutoff_mono: "double_time a \<Longrightarrow> double_time b \<Longrightarrow> a \<le> b \<Longrightarrow> cutoff a \<le> cutoff b"
  unfolding cutoff_def by (intro fl_mono) (auto simp: double_time_def)

abbreviation recent :: "rat \<Rightarrow> token_entry list \<Rightarrow> token_entry list" where
  "recent now \<equiv> filter (\<lambda>e. cutoff now < te_completed_at e)"

lemma evict_expired_exact:
  "holds_entries es tw \<Longrightarrow> entries_ok c es \<Longrightarrow> holds_entries (recent now es) (evict_expired now TPM_WINDOW_SEC tw)"
  using evict_exact [of c es "cutoff now"] by (simp add: holds_entries_def evict_expired_def safe_window_60 cutoff_def)

lemma record_usage_exact:
  assumes "holds_entries es tw" "entries_ok c es" "c \<le> now" "double_time now"
  shows "holds_entries (recent now es @ (if 0 < i \<or> 0 < n then [\<lparr>te_completed_at = now, te_input_tokens = max 0 i, te_output_tokens = max 0 n\<rparr>] else []))
      (record_usage now i n TPM_WINDOW_SEC tw)"
    "entries_ok now (recent now es @ (if 0 < i \<or> 0 < n then [\<lparr>te_completed_at = now, te_input_tokens = max 0 i, te_output_tokens = max 0 n\<rparr>] else []))"
proof -
  show "holds_entries (recent now es @ (if 0 < i \<or> 0 < n then [\<lparr>te_completed_at = now, te_input_tokens = max 0 i, te_output_tokens = max 0 n\<rparr>] else []))
      (record_usage now i n TPM_WINDOW_SEC tw)"
    using evict_expired_exact [OF assms(1,2), of now] by (auto simp: record_usage_def holds_entries_def Let_def)
  have "entries_ok now (recent now es)" using entries_ok_filter [OF entries_ok_later [OF assms(2,3)]] .
  then show "entries_ok now (recent now es @ (if 0 < i \<or> 0 < n then [\<lparr>te_completed_at = now, te_input_tokens = max 0 i, te_output_tokens = max 0 n\<rparr>] else []))"
    using assms(4) by (auto simp: entries_ok_def sorted_append)
qed

section \<open>Usage over the last minute\<close>

datatype window_event = Record rat int int | Inspect rat

fun window_step :: "window_event \<Rightarrow> token_window \<Rightarrow> token_window" where
  "window_step (Record t i n) tw = record_usage t i n TPM_WINDOW_SEC tw"
| "window_step (Inspect t) tw = evict_expired t TPM_WINDOW_SEC tw"

fun event_time :: "window_event \<Rightarrow> rat" where
  "event_time (Record t i n) = t" | "event_time (Inspect t) = t"

text \<open>The records in order, and the tokens recorded after an instant.\<close>

fun recorded :: "window_event list \<Rightarrow> (rat \<times> int \<times> int) list" where
  "recorded [] = []" | "recorded (Record t i n # evs) = (t, i, n) # recorded evs" | "recorded (Inspect t # evs) = recorded evs"

definition tokens_after :: "rat \<Rightarrow> (rat \<times> int \<times> int) list \<Rightarrow> int" where
  "tokens_after c rs = (\<Sum>(t, i, n) \<leftarrow> rs. if c < t then max 0 i + max 0 n else 0)"

lemma recorded_append: "recorded (evs @ fvs) = recorded evs @ recorded fvs"
  by (induction evs rule: recorded.induct) auto

lemma tokens_after_append: "tokens_after c (rs @ rs') = tokens_after c rs + tokens_after c rs'"
  by (simp add: tokens_after_def)

definition entries_after :: "rat \<Rightarrow> token_entry list \<Rightarrow> int" where
  "entries_after c es = (\<Sum>e \<leftarrow> filter (\<lambda>e. c < te_completed_at e) es. entry_tokens e)"

lemma entries_after_append: "entries_after c (es @ fs) = entries_after c es + entries_after c fs"
  by (simp add: entries_after_def)

lemma entries_after_filter: "c' \<le> c \<Longrightarrow> entries_after c (filter (\<lambda>e. c' < te_completed_at e) es) = entries_after c es"
  unfolding entries_after_def by (simp add: filter_filter) (metis (mono_tags, lifting) filter_cong order_le_less_trans)

lemma entry_sums: "entries_input es + entries_output es = (\<Sum>e \<leftarrow> es. entry_tokens e)"
  by (induction es) (simp_all add: entry_tokens_def)

lemma window_run_exact:
  assumes "\<forall>ev \<in> set evs. double_time (event_time ev) \<and> event_time ev \<le> now" "sorted (map fst (recorded evs))" "double_time now"
  obtains es c where "holds_entries es (fold window_step evs new_window)" "entries_ok c es" "c = (if recorded evs = [] then 0 else fst (last (recorded evs)))"
    "entries_after (cutoff now) es = tokens_after (cutoff now) (recorded evs)"
  using assms
proof (induction evs arbitrary: thesis rule: rev_induct)
  case Nil
  show ?case by (rule Nil(1) [of "[]"]) (simp_all add: holds_entries_def new_window_def entries_after_def tokens_after_def)
next
  case (snoc ev evs)
  have s: "sorted (map fst (recorded evs))" using snoc.prems(3) by (simp add: recorded_append sorted_append)
  obtain es c where ih: "holds_entries es (fold window_step evs new_window)" "entries_ok c es"
      "c = (if recorded evs = [] then 0 else fst (last (recorded evs)))"
      "entries_after (cutoff now) es = tokens_after (cutoff now) (recorded evs)"
    using snoc.IH [OF _ _ s snoc.prems(4)] snoc.prems(2) by auto
  have t: "double_time (event_time ev)" "cutoff (event_time ev) \<le> cutoff now"
    using snoc.prems(2,4) cutoff_mono [of "event_time ev" now] by auto
  show ?case
  proof (cases ev)
    case (Record t i n)
    have "c \<le> t"
    proof (cases "recorded evs = []")
      case False
      then have "fst (last (recorded evs)) \<in> set (map fst (recorded evs))" by simp
      then show ?thesis using snoc.prems(3) ih(3) False Record by (auto simp: recorded_append sorted_append)
    qed (use ih(3) t(1) Record in \<open>simp add: double_time_def\<close>)
    note r = record_usage_exact [OF ih(1,2) this, of i n]
    let ?new = "if 0 < i \<or> 0 < n then [\<lparr>te_completed_at = t, te_input_tokens = max 0 i, te_output_tokens = max 0 n\<rparr>] else []"
    have "entries_after (cutoff now) ?new = tokens_after (cutoff now) [(t, i, n)]"
      by (simp add: entries_after_def tokens_after_def entry_tokens_def)
    then have "entries_after (cutoff now) (recent t es @ ?new) = tokens_after (cutoff now) (recorded (evs @ [ev]))"
      using entries_after_filter [OF t(2), of es] ih(4) Record by (simp add: entries_after_append tokens_after_append recorded_append)
    then show ?thesis using r t(1) Record by (intro snoc.prems(1) [of "recent t es @ ?new" t]) (simp_all add: recorded_append)
  next
    case (Inspect t)
    then show ?thesis using evict_expired_exact [OF ih(1,2), of t] entries_ok_filter [OF ih(2)] entries_after_filter [OF t(2), of es] ih(3,4)
      by (intro snoc.prems(1) [of "recent t es" c]) (simp_all add: recorded_append)
  qed
qed

text \<open>Whatever records and inspections came before, in the order of the clock, the usage that the window reports is
  the sum of the tokens recorded within the last minute, up to the rounding of instants; nothing is counted twice, lost
  early or kept too long.\<close>

lemma window_usage_exact:
  assumes "\<forall>ev \<in> set evs. double_time (event_time ev) \<and> event_time ev \<le> now" "sorted (map fst (recorded evs))" "double_time now"
  shows "total_tokens (evict_expired now TPM_WINDOW_SEC (fold window_step evs new_window)) = tokens_after (fl (now - 60)) (recorded evs)"
proof -
  obtain es c where es: "holds_entries es (fold window_step evs new_window)" "entries_ok c es"
      "entries_after (cutoff now) es = tokens_after (cutoff now) (recorded evs)"
    by (rule window_run_exact [OF assms])
  then show ?thesis using evict_expired_exact [OF es(1,2), of now] entry_sums [of "recent now es"]
    by (simp add: holds_entries_def total_tokens_def entries_after_def cutoff_def)
qed

section \<open>The state of a provider\<close>

definition window_good :: "rat \<Rightarrow> token_window \<Rightarrow> bool" where
  "window_good c tw \<longleftrightarrow> (\<exists>es. holds_entries es tw \<and> entries_ok c es)"

lemma window_good_new: "window_good c new_window"
  by (auto simp: window_good_def holds_entries_def new_window_def intro: exI [of _ "[]"])

lemma window_good_evict: "window_good c tw \<Longrightarrow> window_good c (evict_expired now TPM_WINDOW_SEC tw)"
  unfolding window_good_def using evict_expired_exact entries_ok_filter by blast

lemma window_good_later: "window_good c tw \<Longrightarrow> c \<le> c' \<Longrightarrow> window_good c' tw"
  unfolding window_good_def using entries_ok_later by blast

lemma window_good_record: "window_good c tw \<Longrightarrow> c \<le> now \<Longrightarrow> double_time now \<Longrightarrow> window_good now (record_usage now i n TPM_WINDOW_SEC tw)"
  unfolding window_good_def using record_usage_exact by blast

definition clock_good :: "rat \<Rightarrow> pressure \<Rightarrow> bool" where
  "clock_good c p \<longleftrightarrow> (\<forall>t. pp_last_started_at p = Some t \<longrightarrow> double_time t \<and> t \<le> c) \<and> window_good c (pp_token_window p)"

definition limits_ok :: "limits \<Rightarrow> bool" where
  "limits_ok l \<longleftrightarrow> (\<forall>n. pl_concurrency l = Some n \<or> pl_rpm l = Some n \<or> pl_tpm l = Some n \<longrightarrow> 0 < n)"

lemma positive_int: "positive_int_or_none v = Some n \<Longrightarrow> 0 < n"
  by (auto simp: positive_int_or_none_def split: if_splits sum.splits)

lemma limits_from_config_ok: "limits_ok (limits_from_config config)"
  by (auto simp: limits_ok_def limits_from_config_def dest: positive_int)

text \<open>The counters are the numbers of threads, and the queue holds the threads that wait.\<close>

definition counts_ok :: "nat list \<Rightarrow> nat set \<Rightarrow> pressure \<Rightarrow> bool" where
  "counts_ok running waiting p \<longleftrightarrow> pp_in_flight p = int (length running) \<and> pp_queued p = int (length (pp_waiters p))
     \<and> distinct (pp_waiters p) \<and> set (pp_waiters p) = waiting"

definition sys_ok :: "pressure_sys \<Rightarrow> bool" where
  "sys_ok s \<longleftrightarrow> counts_ok (sy_running s) (dom (sy_waiting s)) (sy_pressure s) \<and> clock_good (sy_clock s) (sy_pressure s) \<and> double_time (sy_clock s)
     \<and> distinct (sy_running s) \<and> (\<forall>w \<in> set (sy_running s). sy_waiting s w = None) \<and> (\<forall>w l. sy_waiting s w = Some l \<longrightarrow> limits_ok l)"

definition evicted :: "rat \<Rightarrow> pressure \<Rightarrow> pressure" where
  "evicted now p = p\<lparr>pp_token_window := evict_expired now TPM_WINDOW_SEC (pp_token_window p)\<rparr>"

lemma evicted_simps [simp]:
  "pp_waiters (evicted now p) = pp_waiters p" "pp_in_flight (evicted now p) = pp_in_flight p" "pp_queued (evicted now p) = pp_queued p"
  "pp_last_started_at (evicted now p) = pp_last_started_at p"
  "pp_token_window (evicted now p) = evict_expired now TPM_WINDOW_SEC (pp_token_window p)"
  by (simp_all add: evicted_def)

lemma tpm_evicts: "tpm_next_available_in_sec l now p = (evicted now p, r) \<longleftrightarrow> r = snd (tpm_next_available_in_sec l now p)"
  by (auto simp: tpm_next_available_in_sec_def next_available_in_seconds_def evicted_def Let_def)

lemma tpm_fst: "fst (tpm_next_available_in_sec l now p) = evicted now p"
  by (simp add: tpm_next_available_in_sec_def next_available_in_seconds_def evicted_def Let_def)

lemma rpm_evicted [simp]: "rpm_next_available_in_sec l now (evicted now p) = rpm_next_available_in_sec l now p"
  by (simp add: rpm_next_available_in_sec_def)

lemma wait_timeout_evicts: "wait_timeout l now p = Inr (p', t) \<Longrightarrow> p' = evicted now p"
  using tpm_fst [of l now p] by (cases "tpm_next_available_in_sec l now p") (auto simp: wait_timeout_def rbind_eq_Inr Let_def)

lemma start_request_simps [simp]:
  "pp_waiters (start_request now p) = pp_waiters p" "pp_in_flight (start_request now p) = pp_in_flight p + 1"
  "pp_queued (start_request now p) = pp_queued p" "pp_last_started_at (start_request now p) = Some now"
  "pp_token_window (start_request now p) = pp_token_window p"
  by (simp_all add: start_request_def record_peaks_def record_request_start_def Let_def split: option.splits)

lemma join_queue_simps [simp]:
  "pp_waiters (join_queue w l p) = pp_waiters p @ [w]" "pp_in_flight (join_queue w l p) = pp_in_flight p"
  "pp_queued (join_queue w l p) = pp_queued p + 1" "pp_last_started_at (join_queue w l p) = pp_last_started_at p"
  "pp_token_window (join_queue w l p) = pp_token_window p"
  by (simp_all add: join_queue_def record_peaks_def)

lemma leave_queue_simps [simp]:
  "pp_waiters (leave_queue w p) = remove1 w (pp_waiters p)" "pp_in_flight (leave_queue w p) = pp_in_flight p"
  "pp_queued (leave_queue w p) = max 0 (pp_queued p - 1)" "pp_last_started_at (leave_queue w p) = pp_last_started_at p"
  "pp_token_window (leave_queue w p) = pp_token_window p"
  by (simp_all add: leave_queue_def)

lemma clock_good_later: "clock_good c p \<Longrightarrow> c \<le> c' \<Longrightarrow> clock_good c' p"
  unfolding clock_good_def using window_good_later by force

lemma clock_good_evicted: "clock_good c p \<Longrightarrow> clock_good c (evicted now p)"
  by (simp add: clock_good_def window_good_evict)

lemma clock_good_leave: "clock_good c p \<Longrightarrow> clock_good c (leave_queue w p)"
  by (simp add: clock_good_def)

lemma counts_ok_leave:
  assumes "counts_ok running waiting p" "w \<in> waiting"
  shows "counts_ok running (waiting - {w}) (leave_queue w p)"
proof -
  have "w \<in> set (pp_waiters p)" using assms by (simp add: counts_ok_def)
  moreover from this have "Suc 0 \<le> length (pp_waiters p)" by (cases "pp_waiters p") simp_all
  ultimately show ?thesis using assms by (auto simp: counts_ok_def length_remove1 of_nat_diff)
qed

text \<open>The cases of a turn.\<close>

definition may_enter :: "nat \<Rightarrow> limits \<Rightarrow> rat \<Rightarrow> pressure \<Rightarrow> bool" where
  "may_enter w l now p \<longleftrightarrow> (\<exists>r. rpm_next_available_in_sec l now p = Inr r \<and> r \<le> 0) \<and> pp_waiters p \<noteq> [] \<and> hd (pp_waiters p) = w
     \<and> (\<forall>c. pl_concurrency l = Some c \<longrightarrow> pp_in_flight p < c) \<and> snd (tpm_next_available_in_sec l now p) \<le> 0"

lemma take_turn_cases:
  assumes "take_turn w l cancelled now p = (p', r)"
  obtains "r = Admitted" "\<not> cancelled" "may_enter w l now p"
      "p' = start_request now ((evicted now p)\<lparr>pp_waiters := tl (pp_waiters p), pp_queued := max 0 (pp_queued p - 1)\<rparr>)"
    | t where "r = Waits t" "\<not> may_enter w l now p" "p' = evicted now (evicted now p)"
    | "r \<noteq> Admitted" "\<forall>t. r \<noteq> Waits t" "cancelled \<or> \<not> may_enter w l now p" "p' = leave_queue w p \<or> p' = leave_queue w (evicted now p)"
proof (cases cancelled)
  case True
  then show ?thesis using assms that(3) by (simp add: take_turn_def)
next
  case False
  show ?thesis
  proof (cases "rpm_next_available_in_sec l now p")
    case (Inl e)
    then have "r = Raised e" "p' = leave_queue w p" using assms False by (simp_all add: take_turn_def)
    then show ?thesis using that(3) Inl by (simp add: may_enter_def)
  next
    case (Inr x)
    obtain s where tpm: "tpm_next_available_in_sec l now p = (evicted now p, s)" using tpm_fst by (metis prod.collapse)
    have m: "may_enter w l now p \<longleftrightarrow> pp_waiters p \<noteq> [] \<and> hd (pp_waiters p) = w
        \<and> (case pl_concurrency l of None \<Rightarrow> True | Some c \<Rightarrow> pp_in_flight p < c) \<and> x \<le> 0 \<and> s \<le> 0"
      using Inr tpm by (auto simp: may_enter_def split: option.splits)
    show ?thesis
    proof (cases "may_enter w l now p")
      case True
      then show ?thesis using assms that(1) False Inr tpm m by (simp add: take_turn_def Let_def)
    next
      case out: False
      then have t: "(case wait_timeout l now (evicted now p) of Inl e \<Rightarrow> (leave_queue w (evicted now p), Raised e) | Inr (p2, t) \<Rightarrow> (p2, Waits t)) = (p', r)"
        using assms False Inr tpm m by (auto simp: take_turn_def Let_def split: if_splits)
      then show ?thesis using that(2,3) out wait_timeout_evicts [of l now "evicted now p"] by (auto split: sum.splits)
    qed
  qed
qed

lemma new_sys_ok: "sys_ok new_sys"
  by (simp add: sys_ok_def new_sys_def counts_ok_def clock_good_def new_pressure_def window_good_new double_time_def)

lemma turn_ok:
  assumes ok: "sys_ok s" and t: "ticks s now" and w: "sy_waiting s w = Some l" and step: "pressure_step (Turn w cancelled now) s = Some s'"
  shows "sys_ok s'"
proof -
  obtain p r where tt: "take_turn w l cancelled now (sy_pressure s) = (p, r)" by force
  have i: "counts_ok (sy_running s) (dom (sy_waiting s)) (sy_pressure s)" "clock_good now (sy_pressure s)" "double_time now"
      "distinct (sy_running s)" "(\<forall>w \<in> set (sy_running s). sy_waiting s w = None)" "\<forall>w l. sy_waiting s w = Some l \<longrightarrow> limits_ok l" "w \<in> dom (sy_waiting s)"
    using ok t w clock_good_later by (auto simp: sys_ok_def ticks_def)
  have d: "dom ((sy_waiting s)(w := None)) = dom (sy_waiting s) - {w}" by auto
  from tt show ?thesis
  proof (cases rule: take_turn_cases)
    case 1
    obtain ws where ws: "pp_waiters (sy_pressure s) = w # ws" using 1(3) by (cases "pp_waiters (sy_pressure s)") (auto simp: may_enter_def)
    have s': "s' = s\<lparr>sy_pressure := p, sy_clock := now, sy_waiting := (sy_waiting s)(w := None), sy_running := sy_running s @ [w]\<rparr>"
      using step tt t w 1(1) by (simp add: Let_def)
    have "counts_ok (sy_running s @ [w]) (dom (sy_waiting s) - {w}) p" using i(1) ws 1(4) by (auto simp: counts_ok_def)
    moreover have "clock_good now p" using i(2,3) 1(4) by (simp add: clock_good_def window_good_evict)
    ultimately show ?thesis using i unfolding sys_ok_def s' by (auto simp: d)
  next
    case (2 t)
    then show ?thesis using step tt \<open>ticks s now\<close> w i clock_good_evicted by (auto simp: sys_ok_def counts_ok_def Let_def)
  next
    case 3
    have s': "s' = s\<lparr>sy_pressure := p, sy_clock := now, sy_waiting := (sy_waiting s)(w := None)\<rparr>"
      using step tt t w 3(1,2) by (cases r) (auto simp: Let_def)
    have "counts_ok (sy_running s) (dom (sy_waiting s)) (evicted now (sy_pressure s))" using i(1) by (simp add: counts_ok_def)
    then have "counts_ok (sy_running s) (dom (sy_waiting s) - {w}) p" using 3(4) counts_ok_leave i(1,7) by blast
    moreover have "clock_good now p" using 3(4) i(2) clock_good_leave clock_good_evicted by blast
    ultimately show ?thesis using i unfolding sys_ok_def s' by (auto simp: d)
  qed
qed

lemma look_core:
  "pp_waiters (fst (snapshot_row provider config now p)) = pp_waiters p" "pp_in_flight (fst (snapshot_row provider config now p)) = pp_in_flight p"
  "pp_queued (fst (snapshot_row provider config now p)) = pp_queued p" "pp_last_started_at (fst (snapshot_row provider config now p)) = pp_last_started_at p"
  "window_good c (pp_token_window p) \<Longrightarrow> window_good c (pp_token_window (fst (snapshot_row provider config now p)))"
proof -
  let ?l = "limits_from_config config"
  obtain q x where q: "tpm_next_available_in_sec ?l now (p\<lparr>pp_last_limits := ?l, pp_token_window := evict_expired now TPM_WINDOW_SEC (pp_token_window p)\<rparr>) = (q, x)"
    by force
  then have e: "q = evicted now (p\<lparr>pp_last_limits := ?l, pp_token_window := evict_expired now TPM_WINDOW_SEC (pp_token_window p)\<rparr>)"
    using tpm_fst by (metis fst_conv)
  note u = snapshot_row_def Let_def record_peaks_def
  show "pp_waiters (fst (snapshot_row provider config now p)) = pp_waiters p" "pp_in_flight (fst (snapshot_row provider config now p)) = pp_in_flight p"
    "pp_queued (fst (snapshot_row provider config now p)) = pp_queued p" "pp_last_started_at (fst (snapshot_row provider config now p)) = pp_last_started_at p"
    "window_good c (pp_token_window p) \<Longrightarrow> window_good c (pp_token_window (fst (snapshot_row provider config now p)))"
    using q e by (auto simp: u window_good_evict split: sum.splits)
qed

lemma tokens_core:
  "pp_waiters (record_tokens l i n now p) = pp_waiters p" "pp_in_flight (record_tokens l i n now p) = pp_in_flight p"
  "pp_queued (record_tokens l i n now p) = pp_queued p" "pp_last_started_at (record_tokens l i n now p) = pp_last_started_at p"
  by (simp_all add: record_tokens_def Let_def)

lemma tokens_window: "window_good c (pp_token_window p) \<Longrightarrow> c \<le> now \<Longrightarrow> double_time now \<Longrightarrow> window_good now (pp_token_window (record_tokens l i n now p))"
  by (simp add: record_tokens_def Let_def window_good_record window_good_later)

lemma pressure_step_ok:
  assumes "pressure_step ev s = Some s'" "sys_ok s"
  shows "sys_ok s'"
proof (cases ev)
  case (Ask w config now)
  note s = assms(1) [unfolded Ask]
  have i: "ticks s now" "sy_waiting s w = None" "w \<notin> set (sy_running s)" using s by (auto split: if_splits)
  then have c: "clock_good now (sy_pressure s)" "double_time now" using assms(2) clock_good_later by (auto simp: ticks_def sys_ok_def)
  show ?thesis
  proof (cases "limits_from_config config = no_limits")
    case True
    then show ?thesis using s i c assms(2)
      by (auto simp: sys_ok_def counts_ok_def clock_good_def acquire_unlimited_def Let_def split: if_splits)
  next
    case False
    then show ?thesis using s i c assms(2) limits_from_config_ok [of config]
      by (auto simp: sys_ok_def counts_ok_def clock_good_def Let_def split: if_splits)
  qed
next
  case (Turn w cancelled now)
  then show ?thesis using assms turn_ok [of s now w _ cancelled s'] by (auto split: if_splits option.splits)
next
  case (Leave w)
  have "w \<in> set (sy_running s) \<Longrightarrow> Suc 0 \<le> length (sy_running s)" by (cases "sy_running s") simp_all
  then show ?thesis using assms Leave
    by (auto simp: sys_ok_def counts_ok_def clock_good_def release_def length_remove1 of_nat_diff split: if_splits)
next
  case (Tokens config i n now)
  then show ?thesis using assms tokens_window
    by (auto simp: sys_ok_def counts_ok_def clock_good_def tokens_core ticks_def intro: order_trans split: if_splits)
next
  case (Look provider config now)
  have "sys_ok s \<Longrightarrow> window_good (max (sy_clock s) now) (pp_token_window (fst (snapshot_row provider config now (sy_pressure s))))"
    using look_core(5) window_good_later [of "sy_clock s" _ "max (sy_clock s) now"] by (simp add: sys_ok_def clock_good_def)
  then show ?thesis using assms Look
    by (auto simp: sys_ok_def counts_ok_def clock_good_def look_core max_def intro: order_trans split: if_splits)
qed

lemma pressure_run_ok: "pressure_run evs s = Some s' \<Longrightarrow> sys_ok s \<Longrightarrow> sys_ok s'"
  by (induction evs arbitrary: s) (auto split: option.splits dest: pressure_step_ok)

section \<open>Admission\<close>

text \<open>The tokens that count now: of the entries in the window, those whose minute is not over.\<close>

definition live_tokens :: "rat \<Rightarrow> token_window \<Rightarrow> int" where
  "live_tokens now tw = (\<Sum>e \<leftarrow> filter (\<lambda>e. now < fl (te_completed_at e + 60)) (tw_entries (evict_expired now TPM_WINDOW_SEC tw)). entry_tokens e)"

abbreviation live_entries :: "rat \<Rightarrow> token_entry list \<Rightarrow> int" where
  "live_entries now es \<equiv> (\<Sum>e \<leftarrow> filter (\<lambda>e. now < fl (te_completed_at e + 60)) es. entry_tokens e)"

lemma deadline_le_0:
  assumes "double_time t" "0 \<le> i" "i \<le> 60" "double_time now"
  shows "fl (fl (t + i) - now) \<le> 0 \<longleftrightarrow> fl (t + i) \<le> now"
proof -
  have s: "small (t + i)" using assms by (simp add: double_time_def)
  have "fl 0 \<le> fl (t + i)" by (rule fl_mono) (use assms in \<open>simp_all add: double_time_def\<close>)
  moreover have "fl (t + i) \<le> fl (of_int (2 ^ 51))" by (rule fl_mono) (use assms in \<open>simp_all add: double_time_def\<close>)
  moreover have "fl (of_int (2 ^ 51)) = of_int (2 ^ 51)" by (rule fl_int) simp
  ultimately have "\<bar>fl (t + i)\<bar> \<le> 2 ^ 999" by simp
  moreover have "\<bar>now\<bar> \<le> 2 ^ 999" "fl now = now" using assms(4) by (simp_all add: double_time_def)
  ultimately show ?thesis using fl_diff_le_0 [of "fl (t + i)" now] fl_fl [OF s] by simp
qed

lemma live_le: "entries_ok c es \<Longrightarrow> live_entries now es \<le> (\<Sum>e \<leftarrow> es. entry_tokens e)"
  by (induction es) (auto simp: entry_tokens_def)

lemma live_suffix:
  assumes "entries_ok c (e # es)" "now < fl (te_completed_at e + 60)"
  shows "live_entries now (e # es) = (\<Sum>e \<leftarrow> e # es. entry_tokens e)"
proof -
  have "now < fl (te_completed_at f + 60)" if f: "f \<in> set (e # es)" for f
  proof -
    have t: "te_completed_at e \<le> te_completed_at f" "double_time (te_completed_at e)" "double_time (te_completed_at f)"
      using assms(1) f by (auto simp: entries_ok_def)
    then have "fl (te_completed_at e + 60) \<le> fl (te_completed_at f + 60)" by (intro fl_mono) (simp_all add: double_time_def)
    then show ?thesis using assms(2) by simp
  qed
  then have "filter (\<lambda>e. now < fl (te_completed_at e + 60)) (e # es) = e # es" by (simp only: filter_id_conv) blast
  then show ?thesis by (simp only:)
qed

lemma wait_for_entries_exact:
  assumes "entries_ok c es" "double_time now" "0 < limit" "r = (\<Sum>e \<leftarrow> es. entry_tokens e)" "limit \<le> r"
  shows "wait_for_entries now 60 limit r es \<le> 0 \<longleftrightarrow> live_entries now es < limit"
  using assms
proof (induction es arbitrary: r)
  case Nil
  then show ?case by simp
next
  case (Cons e es)
  have t: "double_time (te_completed_at e)" and ok: "entries_ok c es" using Cons.prems(1) by simp_all
  have r: "r - (te_input_tokens e + te_output_tokens e) = (\<Sum>e \<leftarrow> es. entry_tokens e)" using Cons.prems(4) by (simp add: entry_tokens_def)
  have le: "live_entries now es \<le> (\<Sum>e \<leftarrow> es. entry_tokens e)" by (rule live_le [OF ok])
  show ?case
  proof (cases "now < fl (te_completed_at e + 60)")
    case True
    have live: "live_entries now (e # es) = r" using live_suffix [OF Cons.prems(1) True] Cons.prems(4) by (simp only:)
    show ?thesis
    proof (cases "(\<Sum>e \<leftarrow> es. entry_tokens e) < limit")
      case small: True
      have "\<not> fl (fl (te_completed_at e + 60) - now) \<le> 0" using deadline_le_0 [OF t _ _ Cons.prems(2), of 60] True by simp
      then show ?thesis using small Cons.prems(5) by (simp only: live wait_for_entries.simps Let_def r if_True) simp
    next
      case False
      have "live_entries now es = (\<Sum>e \<leftarrow> es. entry_tokens e)"
        using live Cons.prems(4) True by simp
      then have "\<not> live_entries now es < limit" using False by simp
      then show ?thesis using Cons.IH [OF ok Cons.prems(2,3) refl] False Cons.prems(5)
        by (simp only: live wait_for_entries.simps Let_def r if_False) simp
    qed
  next
    case False
    then have live: "live_entries now (e # es) = live_entries now es" by simp
    show ?thesis
    proof (cases "(\<Sum>e \<leftarrow> es. entry_tokens e) < limit")
      case True
      have "fl (fl (te_completed_at e + 60) - now) \<le> 0" using deadline_le_0 [OF t _ _ Cons.prems(2), of 60] False by simp
      then show ?thesis using True le by (simp only: live wait_for_entries.simps Let_def r if_True) simp
    next
      case big: False
      then show ?thesis using Cons.IH [OF ok Cons.prems(2,3) refl]
        by (simp only: live wait_for_entries.simps Let_def r if_False)
    qed
  qed
qed

lemma tpm_exact:
  assumes "window_good c (pp_token_window p)" "double_time now" "limits_ok l"
  shows "snd (tpm_next_available_in_sec l now p) \<le> 0 \<longleftrightarrow> (\<forall>n. pl_tpm l = Some n \<longrightarrow> live_tokens now (pp_token_window p) < n)"
proof (cases "pl_tpm l")
  case None
  then show ?thesis by (simp add: tpm_next_available_in_sec_def next_available_in_seconds_def Let_def)
next
  case (Some n)
  obtain es where es: "holds_entries es (pp_token_window p)" "entries_ok c es" using assms(1) by (auto simp: window_good_def)
  let ?tw = "evict_expired now TPM_WINDOW_SEC (pp_token_window p)"
  have tw: "holds_entries (recent now es) ?tw" by (rule evict_expired_exact [OF es])
  have ok: "entries_ok c (recent now es)" by (rule entries_ok_filter [OF es(2)])
  have total: "total_tokens ?tw = (\<Sum>e \<leftarrow> recent now es. entry_tokens e)"
    using tw entry_sums [of "recent now es"] by (simp add: holds_entries_def total_tokens_def)
  have live: "live_tokens now (pp_token_window p) = live_entries now (recent now es)" using tw by (simp add: live_tokens_def holds_entries_def)
  have le: "live_entries now (recent now es) \<le> (\<Sum>e \<leftarrow> recent now es. entry_tokens e)"
    by (rule live_le [OF ok])
  have s: "snd (tpm_next_available_in_sec l now p) = (if total_tokens ?tw < n then 0 else wait_for_entries now 60 n (total_tokens ?tw) (recent now es))"
    using Some tw by (simp add: tpm_next_available_in_sec_def next_available_in_seconds_def Let_def safe_window_60 holds_entries_def)
  show ?thesis
  proof (cases "total_tokens ?tw < n")
    case True
    then show ?thesis using Some s le total live by simp
  next
    case False
    then show ?thesis using wait_for_entries_exact [OF ok assms(2) _ total, of n] Some s live assms(3) by (simp add: limits_ok_def)
  qed
qed

lemma rounded_1: "rounded 1 = 1"
  using small_double [of 1] round_double_int [of 1] by simp

lemma interval_bounds:
  assumes "rpm_interval_sec l = Inr (Some i)" "limits_ok l"
  shows "0 \<le> i \<and> i \<le> 60"
proof -
  obtain n f where n: "pl_rpm l = Some n" "py_float_of_int n = Inr f" "i = (case f of Fin q \<Rightarrow> fl (RPM_INTERVAL_BASE_SEC / q) | _ \<Rightarrow> 0)"
    using assms(1) by (auto simp: rpm_interval_sec_def rbind_eq_Inr split: option.splits)
  have "0 < n" using assms(2) n(1) by (simp add: limits_ok_def)
  then have "rounded 1 \<le> rounded (of_int n)" by (intro rounded_mono) simp_all
  then have r: "1 \<le> rounded (of_int n)" by (simp add: rounded_1)
  show ?thesis
  proof (cases f)
    case (Fin q)
    then have "q = rounded (of_int n)" using n(2) \<open>0 < n\<close>
      by (auto simp: py_float_of_int_def round_double_def Let_def rounded_def split: pyfloat.splits if_splits)
    then have "0 \<le> 60 / q" "60 / q \<le> of_int 60" using r by (simp_all add: divide_le_eq)
    then have "fl 0 \<le> fl (60 / q)" "fl (60 / q) \<le> fl (of_int 60)" by (auto intro!: fl_mono simp del: fl_0)
    then show ?thesis using n(3) Fin fl_int [of 60] by (simp add: RPM_INTERVAL_BASE_SEC_def)
  qed (use n(3) in simp_all)
qed

lemma rpm_exact:
  assumes "clock_good c p" "limits_ok l" "double_time now"
  shows "(\<exists>r. rpm_next_available_in_sec l now p = Inr r \<and> r \<le> 0)
    \<longleftrightarrow> (\<exists>i. rpm_interval_sec l = Inr i \<and> (\<forall>t x. pp_last_started_at p = Some t \<longrightarrow> i = Some x \<longrightarrow> fl (t + x) \<le> now))"
proof (cases "rpm_interval_sec l")
  case (Inr i)
  show ?thesis
  proof (cases "\<exists>x t. i = Some x \<and> pp_last_started_at p = Some t")
    case True
    then obtain x t where x: "i = Some x" "pp_last_started_at p = Some t" by blast
    have b: "0 \<le> x" "x \<le> 60" using interval_bounds assms(2) Inr x(1) by blast+
    have "double_time t" using assms(1) x(2) by (simp add: clock_good_def)
    then show ?thesis using deadline_le_0 [OF _ b assms(3), of t] Inr x by (simp add: rpm_next_available_in_sec_def)
  next
    case False
    then show ?thesis using Inr by (auto simp: rpm_next_available_in_sec_def split: option.splits)
  qed
qed (simp add: rpm_next_available_in_sec_def)

definition rate_allows :: "limits \<Rightarrow> rat \<Rightarrow> pressure \<Rightarrow> bool" where
  "rate_allows l now p \<longleftrightarrow> (\<exists>i. rpm_interval_sec l = Inr i \<and> (\<forall>t x. pp_last_started_at p = Some t \<longrightarrow> i = Some x \<longrightarrow> fl (t + x) \<le> now))"

lemma may_enter_exact:
  assumes "clock_good c p" "limits_ok l" "double_time now"
  shows "may_enter w l now p \<longleftrightarrow> pp_waiters p \<noteq> [] \<and> hd (pp_waiters p) = w \<and> (\<forall>c. pl_concurrency l = Some c \<longrightarrow> pp_in_flight p < c)
    \<and> rate_allows l now p \<and> (\<forall>n. pl_tpm l = Some n \<longrightarrow> live_tokens now (pp_token_window p) < n)"
  using rpm_exact [OF assms] tpm_exact [of c p now l] assms by (auto simp: may_enter_def rate_allows_def clock_good_def)

lemma sys_ok_parts:
  assumes "sys_ok s"
  shows "clock_good (sy_clock s) (sy_pressure s)" "pp_in_flight (sy_pressure s) = int (length (sy_running s))"
    "sy_waiting s w = Some l \<Longrightarrow> limits_ok l"
  using assms by (simp_all add: sys_ok_def counts_ok_def)

text \<open>C22. In every reachable state a turn of a waiting request admits it exactly when it is the first in the queue, fewer
  requests than its limit are under way, the interval of its rate has passed since the last start, and the tokens that are
  still within their minute are below its limit.\<close>

theorem admission_exact:
  assumes "pressure_run evs new_sys = Some s" "sy_waiting s w = Some l" "ticks s now"
  shows "snd (take_turn w l False now (sy_pressure s)) = Admitted \<longleftrightarrow>
    (\<exists>ws. pp_waiters (sy_pressure s) = w # ws) \<and> (\<forall>c. pl_concurrency l = Some c \<longrightarrow> int (length (sy_running s)) < c)
    \<and> rate_allows l now (sy_pressure s) \<and> (\<forall>n. pl_tpm l = Some n \<longrightarrow> live_tokens now (pp_token_window (sy_pressure s)) < n)"
proof -
  have ok: "sys_ok s" by (rule pressure_run_ok [OF assms(1) new_sys_ok])
  obtain p r where t: "take_turn w l False now (sy_pressure s) = (p, r)" by force
  then have "snd (take_turn w l False now (sy_pressure s)) = Admitted \<longleftrightarrow> may_enter w l now (sy_pressure s)"
    by (cases rule: take_turn_cases) (auto simp: t)
  then show ?thesis using may_enter_exact [OF sys_ok_parts(1) [OF ok] sys_ok_parts(3) [OF ok assms(2)], of now w] sys_ok_parts(2) [OF ok] assms(3)
    by (cases "pp_waiters (sy_pressure s)") (auto simp: ticks_def)
qed

section \<open>Concurrency\<close>

definition all_bounded :: "int \<Rightarrow> pressure_sys \<Rightarrow> bool" where
  "all_bounded c s \<longleftrightarrow> int (length (sy_running s)) \<le> c \<and> (\<forall>w l. sy_waiting s w = Some l \<longrightarrow> (\<exists>c'. pl_concurrency l = Some c' \<and> c' \<le> c))"

fun asks_within :: "int \<Rightarrow> pressure_event \<Rightarrow> bool" where
  "asks_within c (Ask w config now) = (case pl_concurrency (limits_from_config config) of None \<Rightarrow> False | Some c' \<Rightarrow> c' \<le> c)"
| "asks_within c ev = True"

lemma bounded_step:
  assumes "pressure_step ev s = Some s'" "asks_within c ev" "all_bounded c s" "sys_ok s"
  shows "all_bounded c s'"
proof (cases ev)
  case (Ask w config now)
  then obtain c' where c': "pl_concurrency (limits_from_config config) = Some c'" "c' \<le> c" using assms(2) by (auto split: option.splits)
  then have "limits_from_config config \<noteq> no_limits" by (auto simp: no_limits_def)
  then show ?thesis using assms(1,3) Ask c' by (auto simp: all_bounded_def Let_def split: if_splits)
next
  case (Turn w cancelled now)
  then obtain l where l: "sy_waiting s w = Some l" "ticks s now" using assms(1) by (auto split: if_splits option.splits)
  obtain p r where t: "take_turn w l cancelled now (sy_pressure s) = (p, r)" by force
  have s: "s' = (case r of Waits t \<Rightarrow> s\<lparr>sy_pressure := p, sy_clock := now\<rparr>
      | Admitted \<Rightarrow> s\<lparr>sy_pressure := p, sy_clock := now, sy_waiting := (sy_waiting s)(w := None), sy_running := sy_running s @ [w]\<rparr>
      | _ \<Rightarrow> s\<lparr>sy_pressure := p, sy_clock := now, sy_waiting := (sy_waiting s)(w := None)\<rparr>)"
    using assms(1) Turn l t by (auto simp: Let_def split: turn.splits)
  obtain c' where "pl_concurrency l = Some c'" "c' \<le> c" using assms(3) l(1) by (auto simp: all_bounded_def)
  moreover have "may_enter w l now (sy_pressure s)" if "r = Admitted" using t that by (cases rule: take_turn_cases) auto
  ultimately have "r = Admitted \<Longrightarrow> int (length (sy_running s)) < c" using sys_ok_parts(2) [OF assms(4)] by (auto simp: may_enter_def)
  then show ?thesis using assms(3) s by (cases r) (auto simp: all_bounded_def)
next
  case (Leave w)
  then show ?thesis using assms(1,3) by (auto simp: all_bounded_def length_remove1 split: if_splits)
qed (use assms(1,3) in \<open>auto simp: all_bounded_def split: if_splits\<close>)

lemma bounded_run:
  "pressure_run evs s = Some s' \<Longrightarrow> list_all (asks_within c) evs \<Longrightarrow> all_bounded c s \<Longrightarrow> sys_ok s \<Longrightarrow> all_bounded c s'"
  by (induction evs arbitrary: s) (auto split: option.splits dest: bounded_step pressure_step_ok)

text \<open>However requests, cancellations, releases, token reports and snapshots interleave: when every request asks with a
  limit of at most \<open>c\<close>, no more than \<open>c\<close> requests are ever under way.\<close>

lemma concurrency_respected:
  assumes "pressure_run evs new_sys = Some s" "list_all (asks_within c) evs" "0 \<le> c"
  shows "int (length (sy_running s)) \<le> c \<and> pp_in_flight (sy_pressure s) = int (length (sy_running s))"
proof -
  have "all_bounded c new_sys" using assms(3) by (simp add: all_bounded_def new_sys_def)
  then have "all_bounded c s" by (rule bounded_run [OF assms(1,2) _ new_sys_ok])
  then show ?thesis using sys_ok_parts(2) [OF pressure_run_ok [OF assms(1) new_sys_ok]] by (simp add: all_bounded_def)
qed

section \<open>Draining\<close>

lemma minute_over:
  assumes "sys_ok s" "sy_clock s \<le> 2 ^ 49"
  defines "now \<equiv> of_int (\<lceil>sy_clock s\<rceil> + 60)"
  shows "ticks s now" "now \<le> sy_clock s + 61" "double_time t \<Longrightarrow> t \<le> sy_clock s \<Longrightarrow> 0 \<le> x \<Longrightarrow> x \<le> 60 \<Longrightarrow> fl (t + x) \<le> now"
proof -
  have c: "0 \<le> sy_clock s" using assms(1) by (simp add: sys_ok_def double_time_def)
  have k: "0 \<le> \<lceil>sy_clock s\<rceil>" "\<lceil>sy_clock s\<rceil> \<le> 2 ^ 49" using c assms(2) by (simp_all add: le_ceiling_iff ceiling_le_iff)
  then have f: "fl now = now" unfolding now_def by (intro fl_int) simp
  have n: "sy_clock s + 60 \<le> now" "now \<le> sy_clock s + 61" unfolding now_def by (simp_all, linarith+)
  then show "now \<le> sy_clock s + 61" by simp
  have "double_time now" using f n c assms(2) by (simp add: double_time_def)
  then show "ticks s now" using n by (simp add: ticks_def)
  show "fl (t + x) \<le> now" if "double_time t" "t \<le> sy_clock s" "0 \<le> x" "x \<le> 60"
  proof -
    have "fl (t + x) \<le> fl now" by (rule fl_mono) (use that n c assms(2) in \<open>simp_all add: double_time_def\<close>)
    then show ?thesis using f by simp
  qed
qed

lemma nothing_live:
  assumes "window_good c tw" "\<And>t. double_time t \<Longrightarrow> t \<le> c \<Longrightarrow> fl (t + 60) \<le> now"
  shows "live_tokens now tw = 0"
proof -
  obtain es where es: "holds_entries es tw" "entries_ok c es" using assms(1) by (auto simp: window_good_def)
  then have "tw_entries (evict_expired now TPM_WINDOW_SEC tw) = recent now es" using evict_expired_exact by (simp add: holds_entries_def)
  moreover have "filter (\<lambda>e. now < fl (te_completed_at e + 60)) (recent now es) = []"
    using es(2) assms(2) by (force simp: filter_empty_conv entries_ok_def not_less)
  ultimately show ?thesis by (simp add: live_tokens_def)
qed

lemma head_enters:
  assumes "sys_ok s" "sy_clock s \<le> 2 ^ 49" "pp_waiters (sy_pressure s) = w # ws" "sy_waiting s w = Some l" "sy_running s = []"
    and "rpm_interval_sec l = Inr i"
  shows "may_enter w l (of_int (\<lceil>sy_clock s\<rceil> + 60)) (sy_pressure s)"
proof -
  let ?now = "of_int (\<lceil>sy_clock s\<rceil> + 60)"
  note m = minute_over [OF assms(1,2)]
  have l: "limits_ok l" using assms(1,4) by (rule sys_ok_parts(3))
  have c: "clock_good (sy_clock s) (sy_pressure s)" using assms(1) by (rule sys_ok_parts(1))
  have "live_tokens ?now (pp_token_window (sy_pressure s)) = 0"
    by (rule nothing_live [of "sy_clock s"]) (use c m(3) [of _ 60] in \<open>simp_all add: clock_good_def\<close>)
  moreover have "rate_allows l ?now (sy_pressure s)"
    using c m(3) interval_bounds [OF _ l] assms(6) by (auto simp: rate_allows_def clock_good_def)
  moreover have "pl_concurrency l = Some k \<Longrightarrow> pp_in_flight (sy_pressure s) < k" for k
    using l sys_ok_parts(2) [OF assms(1)] assms(5) by (simp add: limits_ok_def)
  ultimately show ?thesis using may_enter_exact [OF c l, of ?now w] m(1) l assms(3) by (auto simp: ticks_def limits_ok_def)
qed

lemma head_served:
  assumes "sys_ok s" "sy_clock s \<le> 2 ^ 49" "pp_waiters (sy_pressure s) = w # ws" "sy_waiting s w = Some l" "sy_running s = []"
    and "rpm_interval_sec l = Inr i"
  obtains now s' where "pressure_run [Turn w False now, Leave w] s = Some s'" "sys_ok s'" "sy_clock s' \<le> sy_clock s + 61"
    "pp_waiters (sy_pressure s') = ws" "sy_waiting s' = (sy_waiting s)(w := None)" "sy_running s' = []"
proof -
  define now :: rat where "now = of_int (\<lceil>sy_clock s\<rceil> + 60)"
  have m: "ticks s now" "now \<le> sy_clock s + 61" using minute_over(1,2) [OF assms(1,2)] by (simp_all add: now_def)
  have e: "may_enter w l now (sy_pressure s)" using head_enters [OF assms] by (simp add: now_def)
  obtain p r where t: "take_turn w l False now (sy_pressure s) = (p, r)" by force
  then have r: "r = Admitted" "pp_waiters p = ws" using e assms(3) by (cases rule: take_turn_cases; simp)+
  let ?s1 = "s\<lparr>sy_pressure := p, sy_clock := now, sy_waiting := (sy_waiting s)(w := None), sy_running := [w]\<rparr>"
  let ?s2 = "?s1\<lparr>sy_pressure := release p, sy_running := []\<rparr>"
  have "pressure_step (Turn w False now) s = Some ?s1" using m(1) assms(4,5) t r by (simp add: Let_def)
  moreover have "pressure_step (Leave w) ?s1 = Some ?s2" by simp
  ultimately have run: "pressure_run [Turn w False now, Leave w] s = Some ?s2" by simp
  show ?thesis by (rule that [OF run pressure_run_ok [OF run assms(1)]]) (use m(2) r in \<open>simp_all add: release_def\<close>)
qed

definition serve :: "nat list \<Rightarrow> rat list \<Rightarrow> pressure_event list" where
  "serve ws ts = concat (map2 (\<lambda>w t. [Turn w False t, Leave w]) ws ts)"

lemma pressure_run_append: "pressure_run (xs @ ys) s = (case pressure_run xs s of None \<Rightarrow> None | Some s' \<Rightarrow> pressure_run ys s')"
  by (induction xs arbitrary: s) (auto split: option.splits)

lemma queue_served:
  assumes "sys_ok s" "sy_clock s + 61 * of_nat (length ws) \<le> 2 ^ 49" "pp_waiters (sy_pressure s) = ws" "sy_running s = []"
    and "\<forall>w l. sy_waiting s w = Some l \<longrightarrow> (\<exists>i. rpm_interval_sec l = Inr i)"
  shows "\<exists>ts s'. length ts = length ws \<and> pressure_run (serve ws ts) s = Some s' \<and> pp_waiters (sy_pressure s') = [] \<and> sy_running s' = []"
  using assms
proof (induction ws arbitrary: s)
  case Nil
  then show ?case by (intro exI [of _ "[]"]) (simp add: serve_def)
next
  case (Cons w ws)
  have "w \<in> dom (sy_waiting s)" using Cons.prems(1,3) by (auto simp: sys_ok_def counts_ok_def)
  then obtain l i where l: "sy_waiting s w = Some l" "rpm_interval_sec l = Inr i" using Cons.prems(5) by blast
  have b: "sy_clock s \<le> 2 ^ 49" "sy_clock s + 61 + 61 * of_nat (length ws) \<le> 2 ^ 49" using Cons.prems(2) by (simp_all add: algebra_simps)
  obtain now s1 where s1: "pressure_run [Turn w False now, Leave w] s = Some s1" "sys_ok s1" "sy_clock s1 \<le> sy_clock s + 61"
      "pp_waiters (sy_pressure s1) = ws" "sy_waiting s1 = (sy_waiting s)(w := None)" "sy_running s1 = []"
    by (rule head_served [OF Cons.prems(1) b(1) Cons.prems(3) l(1) Cons.prems(4) l(2)])
  have c: "sy_clock s1 + 61 * of_nat (length ws) \<le> 2 ^ 49" using s1(3) b(2) by linarith
  have w: "\<forall>w l. sy_waiting s1 w = Some l \<longrightarrow> (\<exists>i. rpm_interval_sec l = Inr i)"
    unfolding s1(5) using Cons.prems(5) by simp
  obtain ts s' where r: "length ts = length ws" "pressure_run (serve ws ts) s1 = Some s'" "pp_waiters (sy_pressure s') = []" "sy_running s' = []"
    using Cons.IH [OF s1(2) c s1(4,6) w] by blast
  have "pressure_run (serve (w # ws) (now # ts)) s = Some s'" using s1(1) r(2) pressure_run_append [of "[Turn w False now, Leave w]" "serve ws ts" s]
    by (simp add: serve_def del: pressure_run.simps)
  then show ?case using r by (intro exI [of _ "now # ts"] exI [of _ s']) simp
qed

lemma all_leave:
  assumes "sy_running s = ws"
  shows "\<exists>s'. pressure_run (map Leave ws) s = Some s' \<and> sy_running s' = [] \<and> sy_waiting s' = sy_waiting s
    \<and> sy_clock s' = sy_clock s \<and> pp_waiters (sy_pressure s') = pp_waiters (sy_pressure s)"
  using assms
proof (induction ws arbitrary: s)
  case (Cons w ws)
  let ?s = "s\<lparr>sy_pressure := release (sy_pressure s), sy_running := ws\<rparr>"
  have "pressure_step (Leave w) s = Some ?s" using Cons.prems by simp
  then show ?case using Cons.IH [of ?s] by (auto simp: release_def)
qed simp

text \<open>C23. Nobody waits for ever: from every reachable state, when the requests under way end, turns at suitable times admit
  all waiting requests one after the other in the order in which they joined the queue.\<close>

theorem waiting_requests_drain:
  assumes "pressure_run evs new_sys = Some s" "sy_clock s + 61 * of_nat (length (pp_waiters (sy_pressure s))) \<le> 2 ^ 49"
    and "\<forall>w l. sy_waiting s w = Some l \<longrightarrow> (\<exists>i. rpm_interval_sec l = Inr i)"
  shows "\<exists>ts s'. length ts = length (pp_waiters (sy_pressure s))
    \<and> pressure_run (map Leave (sy_running s) @ serve (pp_waiters (sy_pressure s)) ts) s = Some s'
    \<and> pp_waiters (sy_pressure s') = [] \<and> sy_running s' = []"
proof -
  have ok: "sys_ok s" by (rule pressure_run_ok [OF assms(1) new_sys_ok])
  obtain s1 where s1: "pressure_run (map Leave (sy_running s)) s = Some s1" "sy_running s1 = []" "sy_waiting s1 = sy_waiting s"
      "sy_clock s1 = sy_clock s" "pp_waiters (sy_pressure s1) = pp_waiters (sy_pressure s)" using all_leave by blast
  have "sys_ok s1" by (rule pressure_run_ok [OF s1(1) ok])
  then show ?thesis using queue_served [of s1 "pp_waiters (sy_pressure s)"] s1 assms(2,3) by (simp add: pressure_run_append)
qed

section \<open>Instances\<close>

lemma double_time_int: "0 \<le> i \<Longrightarrow> i \<le> 2 ^ 50 \<Longrightarrow> double_time (of_int i)"
proof -
  assume i: "0 \<le> i" "i \<le> 2 ^ 50"
  then have "(of_int i :: rat) \<le> of_int (2 ^ 50)" by (simp only: of_int_le_iff)
  then show "double_time (of_int i)" using i fl_int [of i] by (simp add: double_time_def)
qed

lemma window_usage_exact_witness:
  "total_tokens (evict_expired 61 TPM_WINDOW_SEC (fold window_step [Record 0 5 7, Inspect 30, Record 30 1 0] new_window)) = 1"
proof -
  let ?evs = "[Record 0 5 7, Inspect 30, Record 30 1 0]"
  have "double_time 0" "double_time 30" "double_time 61"
    using double_time_int [of 0] double_time_int [of 30] double_time_int [of 61] by simp_all
  moreover from this have "\<forall>ev \<in> set ?evs. double_time (event_time ev) \<and> event_time ev \<le> 61" by simp
  ultimately have "total_tokens (evict_expired 61 TPM_WINDOW_SEC (fold window_step ?evs new_window)) = tokens_after (fl (61 - 60)) (recorded ?evs)"
    by (intro window_usage_exact) simp_all
  then show ?thesis using fl_int [of 1] by (simp add: tokens_after_def)
qed

definition one_at_a_time :: pydict where
  "one_at_a_time = [(''concurrencyLimit'', PInt 1)]"

definition one_limit :: limits where
  "one_limit = \<lparr>pl_concurrency = Some 1, pl_rpm = None, pl_tpm = None\<rparr>"

lemma one_limits: "limits_from_config one_at_a_time = one_limit" "one_limit \<noteq> no_limits"
  by (simp_all add: limits_from_config_def one_at_a_time_def one_limit_def no_limits_def positive_int_or_none_def getd_def)

definition two_waiting :: pressure_sys where
  "two_waiting = \<lparr>sy_pressure = join_queue 2 one_limit (join_queue 1 one_limit new_pressure),
     sy_waiting = [1 \<mapsto> one_limit, 2 \<mapsto> one_limit], sy_running = [], sy_clock = 0\<rparr>"

lemma two_waiting_run: "pressure_run [Ask 1 one_at_a_time 0, Ask 2 one_at_a_time 0] new_sys = Some two_waiting"
  using double_time_int [of 0] by (simp add: new_sys_def ticks_def one_limits Let_def two_waiting_def)

lemma two_waiting_simps:
  "pp_waiters (sy_pressure two_waiting) = [1, 2]" "sy_waiting two_waiting 1 = Some one_limit" "sy_waiting two_waiting 2 = Some one_limit"
  "sy_running two_waiting = []" "ticks two_waiting 0" "sy_clock two_waiting = 0" "rpm_interval_sec one_limit = Inr None"
  using double_time_int [of 0] by (simp_all add: two_waiting_def new_pressure_def ticks_def rpm_interval_sec_def one_limit_def)

lemma admission_exact_witness:
  "pressure_run [Ask 1 one_at_a_time 0, Ask 2 one_at_a_time 0] new_sys = Some two_waiting
   \<and> snd (take_turn 1 one_limit False 0 (sy_pressure two_waiting)) = Admitted
   \<and> snd (take_turn 2 one_limit False 0 (sy_pressure two_waiting)) \<noteq> Admitted"
proof -
  have "rate_allows one_limit 0 (sy_pressure two_waiting)" by (simp add: rate_allows_def two_waiting_simps)
  moreover have "pl_concurrency one_limit = Some 1" "pl_tpm one_limit = None" by (simp_all add: one_limit_def)
  ultimately show ?thesis
    using admission_exact [OF two_waiting_run two_waiting_simps(2,5)] admission_exact [OF two_waiting_run two_waiting_simps(3,5)]
      two_waiting_run by (simp add: two_waiting_simps)
qed

lemma first_turn: "\<exists>s. pressure_run [Ask 1 one_at_a_time 0, Ask 2 one_at_a_time 0, Turn 1 False 0] new_sys = Some s \<and> sy_running s = [1]"
proof -
  obtain p r where t: "take_turn 1 one_limit False 0 (sy_pressure two_waiting) = (p, r)" by force
  have "may_enter 1 one_limit 0 (sy_pressure two_waiting)"
    using two_waiting_simps by (simp add: may_enter_def rpm_next_available_in_sec_def tpm_next_available_in_sec_def
        next_available_in_seconds_def Let_def) (simp add: one_limit_def two_waiting_def new_pressure_def)
  with t have "r = Admitted" by (cases rule: take_turn_cases) simp_all
  then have "pressure_step (Turn 1 False 0) two_waiting = Some (two_waiting\<lparr>sy_pressure := p, sy_clock := 0,
      sy_waiting := (sy_waiting two_waiting)(1 := None), sy_running := [1]\<rparr>)"
    using t two_waiting_simps(2,4,5) by (simp add: Let_def)
  then have "\<exists>s. pressure_run [Turn 1 False 0] two_waiting = Some s \<and> sy_running s = [1]" by simp
  then show ?thesis using two_waiting_run pressure_run_append [of "[Ask 1 one_at_a_time 0, Ask 2 one_at_a_time 0]" "[Turn 1 False 0]" new_sys]
    by (simp only: append.simps option.case)
qed

lemma concurrency_respected_witness:
  "\<exists>s. pressure_run [Ask 1 one_at_a_time 0, Ask 2 one_at_a_time 0, Turn 1 False 0] new_sys = Some s
     \<and> sy_running s = [1] \<and> pp_in_flight (sy_pressure s) = 1"
proof -
  obtain s where s: "pressure_run [Ask 1 one_at_a_time 0, Ask 2 one_at_a_time 0, Turn 1 False 0] new_sys = Some s" "sy_running s = [1]"
    using first_turn by blast
  have "list_all (asks_within 1) [Ask 1 one_at_a_time 0, Ask 2 one_at_a_time 0, Turn 1 False 0]" by (simp add: one_limits) (simp add: one_limit_def)
  then show ?thesis using concurrency_respected [OF s(1), of 1] s by auto
qed

lemma waiting_requests_drain_witness:
  "\<exists>ts s'. pressure_run (serve [1, 2] ts) two_waiting = Some s' \<and> pp_waiters (sy_pressure s') = [] \<and> sy_running s' = []"
proof -
  have w: "\<forall>w l. sy_waiting two_waiting w = Some l \<longrightarrow> (\<exists>i. rpm_interval_sec l = Inr i)"
    using two_waiting_simps(7) by (auto simp: two_waiting_def split: if_splits)
  show ?thesis using waiting_requests_drain [OF two_waiting_run _ w] by (auto simp: two_waiting_simps)
qed

end
