(* ===== verification/UserInteraction.thy ===== *)
theory UserInteraction
  imports PyValue
begin

text \<open>
  Questions to the user: the contract of a form and of an answer (\<open>user_interaction_schema.py\<close>) and the requests
  on disk (\<open>user_interaction_store.py\<close>), whose operations run one at a time under the lock of their file. The fixed texts of
  the code are not ASCII and are arguments.
\<close>

section \<open>Forms\<close>

datatype interaction_error = InteractionValidation | InteractionValue | InteractionNotFound

type_synonym 'a interaction_res = "(interaction_error, 'a) res"

datatype field_type = TextField | TextArea | Select | MultiSelect | Checkbox | FileField

fun field_type_str :: "field_type \<Rightarrow> string" where
  "field_type_str TextField = ''text''" | "field_type_str TextArea = ''textarea''" | "field_type_str Select = ''select''"
| "field_type_str MultiSelect = ''multiselect''" | "field_type_str Checkbox = ''checkbox''" | "field_type_str FileField = ''file''"

definition field_types :: "field_type list" where
  "field_types = [TextField, TextArea, Select, MultiSelect, Checkbox, FileField]"

record ui_option =
  uo_value :: string
  uo_label :: string
  uo_disabled :: bool

text \<open>A field after normalisation. Only a choice has options, only a file accepts or is multiple.\<close>

record ui_field =
  uf_id :: string
  uf_type :: field_type
  uf_label :: string
  uf_description :: string
  uf_placeholder :: string
  uf_required :: bool
  uf_multiple :: bool
  uf_options :: "ui_option list"
  uf_accept :: string
  uf_default :: "pyval option"

record ui_schema =
  us_title :: string
  us_description :: string
  us_confirm_label :: string
  us_fields :: "ui_field list"

definition text_value :: "pyval \<Rightarrow> nat \<Rightarrow> bool \<Rightarrow> string interaction_res" where
  "text_value v limit required = (case v of
     PStr s \<Rightarrow> if limit < length s \<or> (required \<and> py_strip s = []) then Inl InteractionValidation else Inr (py_strip s)
   | _ \<Rightarrow> Inl InteractionValidation)"

definition bool_value :: "pyval \<Rightarrow> bool interaction_res" where
  "bool_value v = (case v of PBool b \<Rightarrow> Inr b | _ \<Rightarrow> Inl InteractionValidation)"

text \<open>\<open>c.isalnum()\<close> for the code points below 256.\<close>

definition is_alnum :: "char \<Rightarrow> bool" where
  "is_alnum c \<longleftrightarrow> (let n = char_code c in 48 \<le> n \<and> n \<le> 57 \<or> 65 \<le> n \<and> n \<le> 90 \<or> 97 \<le> n \<and> n \<le> 122
     \<or> n \<in> {170, 178, 179, 181, 185, 186, 188, 189, 190} \<or> 192 \<le> n \<and> n \<noteq> 215 \<and> n \<noteq> 247)"

definition id_char :: "char \<Rightarrow> bool" where
  "id_char c \<longleftrightarrow> is_alnum c \<or> c = CHR ''-'' \<or> c = CHR ''_''"

definition field_type_of :: "pyval \<Rightarrow> field_type interaction_res" where
  "field_type_of v = (case v of PStr s \<Rightarrow> (case find (\<lambda>k. field_type_str k = s) field_types of Some k \<Rightarrow> Inr k | None \<Rightarrow> Inl InteractionValidation)
     | _ \<Rightarrow> Inl InteractionValidation)"

definition is_choice :: "field_type \<Rightarrow> bool" where
  "is_choice k \<longleftrightarrow> k = Select \<or> k = MultiSelect"

definition normalize_option :: "string list \<Rightarrow> pyval \<Rightarrow> ui_option interaction_res" where
  "normalize_option seen v = (case v of PDict d \<Rightarrow>
       rbind (text_value (get d ''value'') 500 True) (\<lambda>value.
       rbind (case getd d ''disabled'' (PBool False) of PBool b \<Rightarrow> if value \<in> set seen then Inl InteractionValidation else Inr b
              | _ \<Rightarrow> Inl InteractionValidation) (\<lambda>disabled.
       rbind (text_value (getd d ''label'' (PStr value)) 500 False) (\<lambda>label.
       Inr \<lparr>uo_value = value, uo_label = label, uo_disabled = disabled\<rparr>)))
     | _ \<Rightarrow> Inl InteractionValidation)"

fun normalize_options :: "string list \<Rightarrow> pyval list \<Rightarrow> ui_option list interaction_res" where
  "normalize_options seen [] = Inr []"
| "normalize_options seen (v # vs) = rbind (normalize_option seen v) (\<lambda>opt.
     rbind (normalize_options (uo_value opt # seen) vs) (\<lambda>opts. Inr (opt # opts)))"

text \<open>The options the user may choose.\<close>

definition enabled_values :: "ui_field \<Rightarrow> string set" where
  "enabled_values f = uo_value ` {opt \<in> set (uf_options f). \<not> uo_disabled opt}"

definition file_item :: "pyval \<Rightarrow> bool" where
  "file_item v \<longleftrightarrow> is_dict v \<and> list_all (\<lambda>k. is_str (get (dict_items v) k) \<and> truthy (get (dict_items v) k)) [''path'', ''name'']"

definition choice_ok :: "ui_field \<Rightarrow> pyval list \<Rightarrow> bool" where
  "choice_ok f choices \<longleftrightarrow> list_all (\<lambda>v. case v of PStr s \<Rightarrow> s \<in> enabled_values f | _ \<Rightarrow> False) choices \<and> distinct choices"

definition validate_value :: "ui_field \<Rightarrow> pyval \<Rightarrow> bool \<Rightarrow> unit interaction_res" where
  "validate_value f value enforce_required = (let kind = uf_type f; required = (enforce_required \<and> uf_required f) in
     rbind (raise_if (case kind of
         Checkbox \<Rightarrow> \<not> is_bool value \<or> required \<and> \<not> truthy value
       | MultiSelect \<Rightarrow> \<not> is_list value \<or> required \<and> \<not> truthy value
       | FileField \<Rightarrow> \<not> is_list value \<or> required \<and> \<not> truthy value
       | _ \<Rightarrow> (case value of PStr s \<Rightarrow> required \<and> py_strip s = [] | _ \<Rightarrow> True)) InteractionValidation) (\<lambda>_.
     rbind (raise_if (is_choice kind \<and> \<not> choice_ok f (if kind = Select then (if truthy value then [value] else []) else list_items value))
       InteractionValidation) (\<lambda>_.
     raise_if (kind = FileField \<and> (\<not> uf_multiple f \<and> 1 < length (list_items value) \<or> \<not> list_all file_item (list_items value)))
       InteractionValidation)))"

definition field_options :: "field_type \<Rightarrow> pydict \<Rightarrow> ui_option list interaction_res" where
  "field_options kind raw = (if \<not> is_choice kind then Inr []
     else case get raw ''options'' of
         PList opts \<Rightarrow> if 1 \<le> length opts \<and> length opts \<le> 100 then normalize_options [] opts else Inl InteractionValidation
       | _ \<Rightarrow> Inl InteractionValidation)"

definition field_accept :: "field_type \<Rightarrow> pydict \<Rightarrow> string interaction_res" where
  "field_accept kind raw = (if kind = FileField then text_value (getd raw ''accept'' (PStr [])) 500 False else Inr [])"

definition normalize_field :: "string list \<Rightarrow> pyval \<Rightarrow> ui_field interaction_res" where
  "normalize_field ids v = (case v of PDict raw \<Rightarrow>
       rbind (text_value (get raw ''id'') 64 True) (\<lambda>field_id.
       rbind (raise_if (field_id \<in> set ids \<or> \<not> list_all id_char field_id) InteractionValidation) (\<lambda>_.
       rbind (field_type_of (get raw ''type'')) (\<lambda>kind.
       rbind (text_value (get raw ''label'') 500 True) (\<lambda>label.
       rbind (text_value (getd raw ''description'' (PStr [])) 1000 False) (\<lambda>description.
       rbind (text_value (getd raw ''placeholder'' (PStr [])) 500 False) (\<lambda>placeholder.
       rbind (bool_value (getd raw ''required'' (PBool False))) (\<lambda>required.
       rbind (bool_value (getd raw ''multiple'' (PBool False))) (\<lambda>multiple.
       rbind (field_options kind raw) (\<lambda>options.
       rbind (field_accept kind raw) (\<lambda>accept.
       let f = \<lparr>uf_id = field_id, uf_type = kind, uf_label = label, uf_description = description, uf_placeholder = placeholder,
                uf_required = required, uf_multiple = kind = FileField \<and> multiple, uf_options = options, uf_accept = accept, uf_default = None\<rparr>
       in case map_of raw ''default'' of
           None \<Rightarrow> Inr f
         | Some d \<Rightarrow> if kind = FileField then Inl InteractionValidation
             else rbind (validate_value f d False) (\<lambda>_. Inr (f\<lparr>uf_default := Some d\<rparr>))))))))))))
     | _ \<Rightarrow> Inl InteractionValidation)"

fun normalize_fields :: "string list \<Rightarrow> pyval list \<Rightarrow> ui_field list interaction_res" where
  "normalize_fields ids [] = Inr []"
| "normalize_fields ids (v # vs) = rbind (normalize_field ids v) (\<lambda>f.
     rbind (normalize_fields (uf_id f # ids) vs) (\<lambda>fs. Inr (f # fs)))"

definition message_field :: "string \<Rightarrow> pyval" where
  "message_field label = PDict [(''id'', PStr ''message''), (''type'', PStr ''textarea''), (''label'', PStr label), (''required'', PBool True)]"

definition normalize_interaction_schema :: "string \<Rightarrow> pyval \<Rightarrow> pyval \<Rightarrow> pyval \<Rightarrow> pyval \<Rightarrow> ui_schema interaction_res" where
  "normalize_interaction_schema message_label title description raws confirm_label =
     (case (if is_none raws \<or> raws = PList [] then PList [message_field message_label] else raws) of
       PList vs \<Rightarrow> if 20 < length vs then Inl InteractionValidation
         else rbind (normalize_fields [] vs) (\<lambda>normalized.
              rbind (text_value title 500 True) (\<lambda>t.
              rbind (text_value description 4000 False) (\<lambda>d.
              rbind (text_value confirm_label 80 True) (\<lambda>c.
              Inr \<lparr>us_title = t, us_description = d, us_confirm_label = c, us_fields = normalized\<rparr>))))
     | _ \<Rightarrow> Inl InteractionValidation)"

section \<open>Answers\<close>

definition empty_value :: "field_type \<Rightarrow> pyval" where
  "empty_value k = (if k = FileField \<or> k = MultiSelect then PList [] else if k = Checkbox then PBool False else PStr [])"

definition answer_to :: "pydict \<Rightarrow> pydict \<Rightarrow> ui_field \<Rightarrow> pyval" where
  "answer_to values files f = getd (if uf_type f = FileField then files else values) (uf_id f) (empty_value (uf_type f))"

definition validate_interaction_response :: "ui_schema \<Rightarrow> pyval \<Rightarrow> pydict interaction_res" where
  "validate_interaction_response schema response = (case response of
     PDict r \<Rightarrow> (case (getd r ''values'' (PDict []), getd r ''files'' (PDict [])) of
         (PDict values, PDict files) \<Rightarrow>
           (let fs = us_fields schema;
                file_ids = uf_id ` {f \<in> set fs. uf_type f = FileField};
                value_ids = uf_id ` {f \<in> set fs. uf_type f \<noteq> FileField} in
            rbind (raise_if (\<not> fst ` set values \<subseteq> value_ids \<or> \<not> fst ` set files \<subseteq> file_ids) InteractionValidation) (\<lambda>_.
            rbind (rmap (\<lambda>f. validate_value f (answer_to values files f) True) fs) (\<lambda>_.
            Inr [(''values'', PDict values), (''files'', PDict files)])))
       | _ \<Rightarrow> Inl InteractionValidation)
   | _ \<Rightarrow> Inl InteractionValidation)"

section \<open>Requests\<close>

record interaction =
  ia_id :: string
  ia_status :: string
  ia_created_at :: string
  ia_updated_at :: string
  ia_timeout_sec :: pyval
  ia_schema :: ui_schema
  ia_graph_id :: string
  ia_node_id :: string
  ia_node_name :: string
  ia_response :: "pydict option"
  ia_desktop :: "(string \<times> string) option"

text \<open>The files of the directory, by request id.\<close>

type_synonym interaction_store = "interaction dict"

definition request_id_ok :: "string \<Rightarrow> bool" where
  "request_id_ok i \<longleftrightarrow> length i = 32 \<and> list_all (\<lambda>c. c \<in> set ''0123456789abcdef'') i"

definition read_request :: "string \<Rightarrow> interaction_store \<Rightarrow> interaction interaction_res" where
  "read_request i st = (if \<not> request_id_ok i then Inl InteractionNotFound
     else case map_of st i of None \<Rightarrow> Inl InteractionNotFound | Some p \<Rightarrow> Inr p)"

definition timeout_ok :: "pyval \<Rightarrow> bool" where
  "timeout_ok v = (case v of PInt i \<Rightarrow> 1 \<le> i \<and> i \<le> 3600
     | PFloat f \<Rightarrow> (case as_double f of Fin q \<Rightarrow> 1 \<le> q \<and> q \<le> 3600 | _ \<Rightarrow> False) | _ \<Rightarrow> False)"

text \<open>A new request; \<open>uuid\<close> is the generated identifier, \<open>config\<close> the configuration of the agent.\<close>

definition create_interaction_request ::
    "string \<Rightarrow> string \<Rightarrow> string \<Rightarrow> ui_schema \<Rightarrow> pyval \<Rightarrow> pydict \<Rightarrow> interaction_store \<Rightarrow> (interaction_store \<times> interaction) interaction_res" where
  "create_interaction_request uuid created updated schema timeout config st = (if \<not> timeout_ok timeout then Inl InteractionValue
     else let p = \<lparr>ia_id = uuid, ia_status = ''pending'', ia_created_at = created, ia_updated_at = updated, ia_timeout_sec = timeout,
                   ia_schema = schema, ia_graph_id = str_or (get config ''graph_id''),
                   ia_node_id = str_or (py_or (get config ''node_instance_id'') (get config ''node_id'')),
                   ia_node_name = str_or (get config ''name''), ia_response = None, ia_desktop = None\<rparr>
       in if request_id_ok uuid then Inr (dict_set uuid p st, p) else Inl InteractionNotFound)"

definition list_interaction_requests :: "string list \<Rightarrow> string \<Rightarrow> interaction_store \<Rightarrow> interaction list interaction_res" where
  "list_interaction_requests names status st = (if status \<notin> {''pending'', ''submitted'', ''cancelled'', ''expired'', ''all''} then Inl InteractionValue
     else rbind (rmap (\<lambda>n. read_request n st) names) (\<lambda>items.
       Inr (sort_key ia_created_at (filter (\<lambda>p. status = ''all'' \<or> ia_status p = status) items))))"

definition final_status :: "string \<Rightarrow> bool" where
  "final_status status \<longleftrightarrow> status \<in> {''submitted'', ''cancelled'', ''expired''}"

definition closing_status :: "string \<Rightarrow> bool" where
  "closing_status status \<longleftrightarrow> status \<in> {''cancelled'', ''expired''}"

definition validated_response :: "ui_schema \<Rightarrow> pyval \<Rightarrow> string \<Rightarrow> pydict interaction_res" where
  "validated_response schema response status = (if status = ''submitted'' then validate_interaction_response schema response
     else case response of PDict d \<Rightarrow> Inr d | _ \<Rightarrow> Inl InteractionValue)"

definition submit_interaction_response ::
    "string \<Rightarrow> pyval \<Rightarrow> string \<Rightarrow> string \<Rightarrow> interaction_store \<Rightarrow> (interaction_store \<times> interaction) interaction_res" where
  "submit_interaction_response i response status now st = (if \<not> final_status status then Inl InteractionValue
     else rbind (read_request i st) (\<lambda>p.
       if ia_status p \<noteq> ''pending'' then Inl InteractionValue
       else rbind (validated_response (ia_schema p) response status) (\<lambda>validated.
            let p' = p\<lparr>ia_status := status, ia_updated_at := now, ia_response := Some validated\<rparr> in Inr (dict_set i p' st, p'))))"

definition close_pending_interaction ::
    "string \<Rightarrow> string \<Rightarrow> string \<Rightarrow> string \<Rightarrow> interaction_store \<Rightarrow> (interaction_store \<times> interaction) interaction_res" where
  "close_pending_interaction i reason status now st = (if \<not> closing_status status then Inl InteractionValue
     else rbind (read_request i st) (\<lambda>p.
       if ia_status p = ''pending''
       then let p' = p\<lparr>ia_status := status, ia_updated_at := now, ia_response := Some [(''error'', PStr reason)]\<rparr> in Inr (dict_set i p' st, p')
       else Inr (st, p)))"

definition interrupt_pending_interactions :: "string list \<Rightarrow> string \<Rightarrow> string \<Rightarrow> interaction_store \<Rightarrow> interaction_store interaction_res" where
  "interrupt_pending_interactions names reason now st = rbind (list_interaction_requests names ''pending'' st) (\<lambda>requests.
     rfold (\<lambda>p st. rbind (close_pending_interaction (ia_id p) reason ''cancelled'' now st) (\<lambda>(st', _). Inr st')) requests st)"

definition set_interaction_delivery ::
    "string \<Rightarrow> string \<Rightarrow> string \<Rightarrow> interaction_store \<Rightarrow> (interaction_store \<times> interaction) interaction_res" where
  "set_interaction_delivery i status error st = (if status \<notin> {''opening'', ''opened'', ''failed''} then Inl InteractionValue
     else rbind (read_request i st) (\<lambda>p. let p' = p\<lparr>ia_desktop := Some (status, error)\<rparr> in Inr (dict_set i p' st, p')))"

text \<open>One turn of \<open>wait_for_interaction_response\<close>: the request when the wait is over, else the deadline that is left and
  whether the progress has been reported now. A deadline that has passed is dropped, so the wait goes on without one.\<close>

definition wait_turn :: "string \<Rightarrow> bool \<Rightarrow> string \<Rightarrow> string \<Rightarrow> rat \<Rightarrow> rat option \<Rightarrow> interaction_store
    \<Rightarrow> (interaction_store \<times> (interaction + rat option \<times> bool)) interaction_res" where
  "wait_turn i cancelled reason now clock deadline st =
     (if cancelled then rbind (close_pending_interaction i reason ''cancelled'' now st) (\<lambda>(st', p). Inr (st', Inl p))
      else rbind (read_request i st) (\<lambda>p. Inr (st, if ia_status p \<noteq> ''pending'' then Inl p
        else let reached = (case deadline of None \<Rightarrow> False | Some d \<Rightarrow> d \<le> clock) in Inr (if reached then None else deadline, reached))))"

end
