(* ===== verification/InteractionLaws.thy ===== *)
theory InteractionLaws
  imports UserInteraction
begin

text \<open>
  An answer is accepted exactly when it answers every field of its form, normalised forms are normal, and a request
  reaches one final status and keeps it, with the answer that was accepted, whoever calls what.
\<close>

section \<open>Answers\<close>

text \<open>What a field asks for.\<close>

definition valid_answer :: "ui_field \<Rightarrow> pyval \<Rightarrow> bool" where
  "valid_answer f v = (case uf_type f of
     Checkbox \<Rightarrow> \<exists>b. v = PBool b \<and> (uf_required f \<longrightarrow> b)
   | Select \<Rightarrow> \<exists>s. v = PStr s \<and> (uf_required f \<longrightarrow> py_strip s \<noteq> []) \<and> (s \<noteq> [] \<longrightarrow> s \<in> enabled_values f)
   | MultiSelect \<Rightarrow> \<exists>ss. v = PList (map PStr ss) \<and> distinct ss \<and> set ss \<subseteq> enabled_values f \<and> (uf_required f \<longrightarrow> ss \<noteq> [])
   | FileField \<Rightarrow> \<exists>ds. v = PList (map PDict ds) \<and> (uf_required f \<longrightarrow> ds \<noteq> []) \<and> (uf_multiple f \<or> length ds \<le> 1)
       \<and> (\<forall>d \<in> set ds. \<forall>k \<in> {''path'', ''name''}. \<exists>s. map_of d k = Some (PStr s) \<and> s \<noteq> [])
   | _ \<Rightarrow> \<exists>s. v = PStr s \<and> (uf_required f \<longrightarrow> py_strip s \<noteq> []))"

lemma text_items: "list_all (\<lambda>v. case v of PStr s \<Rightarrow> s \<in> A | _ \<Rightarrow> False) vs \<longleftrightarrow> (\<exists>ss. vs = map PStr ss \<and> set ss \<subseteq> A)"
proof (induction vs)
  case (Cons v vs)
  show ?case
  proof
    assume "list_all (\<lambda>v. case v of PStr s \<Rightarrow> s \<in> A | _ \<Rightarrow> False) (v # vs)"
    then obtain s ss where "v = PStr s" "s \<in> A" "vs = map PStr ss" "set ss \<subseteq> A" using Cons by (cases v) auto
    then show "\<exists>ss. v # vs = map PStr ss \<and> set ss \<subseteq> A" by (intro exI [of _ "s # ss"]) simp
  next
    assume "\<exists>ss. v # vs = map PStr ss \<and> set ss \<subseteq> A"
    then show "list_all (\<lambda>v. case v of PStr s \<Rightarrow> s \<in> A | _ \<Rightarrow> False) (v # vs)" by (auto simp: list_all_iff Cons_eq_map_conv subset_iff)
  qed
qed simp

lemma distinct_PStr [simp]: "distinct (map PStr ss) = distinct ss"
  by (simp add: distinct_map inj_on_def)

lemma multi_choice: "choice_ok f vs \<longleftrightarrow> (\<exists>ss. vs = map PStr ss \<and> distinct ss \<and> set ss \<subseteq> enabled_values f)"
  unfolding choice_ok_def text_items by auto

lemma text_at: "is_str (get d k) \<and> truthy (get d k) \<longleftrightarrow> (\<exists>s. map_of d k = Some (PStr s) \<and> s \<noteq> [])"
proof (cases "map_of d k")
  case (Some v)
  then show ?thesis by (cases v) (auto simp: getd_def)
qed (simp add: getd_def)

lemma file_items: "list_all file_item vs \<longleftrightarrow> (\<exists>ds. vs = map PDict ds \<and> (\<forall>d \<in> set ds. \<forall>k \<in> {''path'', ''name''}. \<exists>s. map_of d k = Some (PStr s) \<and> s \<noteq> []))"
proof (induction vs)
  case (Cons v vs)
  have v: "file_item v \<longleftrightarrow> (\<exists>d. v = PDict d \<and> (\<forall>k \<in> {''path'', ''name''}. \<exists>s. map_of d k = Some (PStr s) \<and> s \<noteq> []))"
    by (cases v) (simp_all add: file_item_def text_at)
  show ?case
  proof
    assume "list_all file_item (v # vs)"
    then obtain d ds where "v = PDict d" "\<forall>k \<in> {''path'', ''name''}. \<exists>s. map_of d k = Some (PStr s) \<and> s \<noteq> []" "vs = map PDict ds"
        "\<forall>d \<in> set ds. \<forall>k \<in> {''path'', ''name''}. \<exists>s. map_of d k = Some (PStr s) \<and> s \<noteq> []" using Cons v by auto
    then show "\<exists>ds. v # vs = map PDict ds \<and> (\<forall>d \<in> set ds. \<forall>k \<in> {''path'', ''name''}. \<exists>s. map_of d k = Some (PStr s) \<and> s \<noteq> [])"
      by (intro exI [of _ "d # ds"]) simp
  next
    assume "\<exists>ds. v # vs = map PDict ds \<and> (\<forall>d \<in> set ds. \<forall>k \<in> {''path'', ''name''}. \<exists>s. map_of d k = Some (PStr s) \<and> s \<noteq> [])"
    then show "list_all file_item (v # vs)" using Cons v by (auto simp: Cons_eq_map_conv)
  qed
qed simp

lemma validate_value_parts: "validate_value f v enforce = Inr () \<longleftrightarrow> (let required = (enforce \<and> uf_required f) in case uf_type f of
     Checkbox \<Rightarrow> is_bool v \<and> (required \<longrightarrow> truthy v)
   | Select \<Rightarrow> (\<exists>s. v = PStr s \<and> (required \<longrightarrow> py_strip s \<noteq> [])) \<and> choice_ok f (if truthy v then [v] else [])
   | MultiSelect \<Rightarrow> is_list v \<and> (required \<longrightarrow> truthy v) \<and> choice_ok f (list_items v)
   | FileField \<Rightarrow> is_list v \<and> (required \<longrightarrow> truthy v) \<and> (uf_multiple f \<or> length (list_items v) \<le> 1) \<and> list_all file_item (list_items v)
   | _ \<Rightarrow> \<exists>s. v = PStr s \<and> (required \<longrightarrow> py_strip s \<noteq> []))"
  by (cases "uf_type f"; cases v) (auto simp: validate_value_def rbind_eq_Inr is_choice_def Let_def)

lemma validate_value_exact: "validate_value f v True = Inr () \<longleftrightarrow> valid_answer f v"
proof (cases "uf_type f")
  case MultiSelect
  then show ?thesis by (cases v) (auto simp: validate_value_parts valid_answer_def multi_choice)
next
  case FileField
  show ?thesis
  proof (cases v)
    case (PList vs)
    then show ?thesis using FileField by (auto simp: validate_value_parts valid_answer_def file_items)
  qed (simp_all add: validate_value_parts valid_answer_def FileField)
next
  case Select
  show ?thesis
  proof (cases v)
    case (PStr s)
    then show ?thesis using Select by (simp add: validate_value_parts valid_answer_def choice_ok_def)
  qed (simp_all add: validate_value_parts valid_answer_def Select)
next
  case Checkbox
  then show ?thesis by (cases v) (auto simp: validate_value_parts valid_answer_def)
qed (simp_all add: validate_value_parts valid_answer_def)

definition answers :: "ui_schema \<Rightarrow> pydict \<Rightarrow> pydict \<Rightarrow> bool" where
  "answers schema values files \<longleftrightarrow> fst ` set values \<subseteq> uf_id ` {f \<in> set (us_fields schema). uf_type f \<noteq> FileField}
     \<and> fst ` set files \<subseteq> uf_id ` {f \<in> set (us_fields schema). uf_type f = FileField}
     \<and> (\<forall>f \<in> set (us_fields schema). valid_answer f (answer_to values files f))"

lemma rmap_unit: "(\<exists>us. rmap g xs = Inr us) \<longleftrightarrow> (\<forall>x \<in> set xs. g x = Inr ())"
  by (induction xs) (auto simp: rbind_eq_Inr)

lemma response_accepted:
  "validate_interaction_response schema (PDict r) = Inr a \<longleftrightarrow> (\<exists>values files. getd r ''values'' (PDict []) = PDict values
     \<and> getd r ''files'' (PDict []) = PDict files \<and> a = [(''values'', PDict values), (''files'', PDict files)] \<and> answers schema values files)"
proof -
  have "(\<exists>us. rmap (\<lambda>f. validate_value f (answer_to vs ws f) True) fs = Inr us)
      \<longleftrightarrow> (\<forall>f \<in> set fs. valid_answer f (answer_to vs ws f))" for vs ws fs
    by (simp only: rmap_unit validate_value_exact)
  then show ?thesis
    by (auto simp: validate_interaction_response_def answers_def rbind_eq_Inr Let_def split: pyval.splits)
qed

text \<open>C36. A response is accepted exactly when it is an object with values and files, names only fields of the form, each on
  its side, and every field of the form is answered as its type, its options and its being required demand; what is stored
  are the values and files of the response.\<close>

theorem accepted_answers_exact:
  "validate_interaction_response schema response = Inr a \<longleftrightarrow>
     (\<exists>r values files. response = PDict r \<and> getd r ''values'' (PDict []) = PDict values \<and> getd r ''files'' (PDict []) = PDict files
        \<and> a = [(''values'', PDict values), (''files'', PDict files)] \<and> answers schema values files)"
proof (cases response)
  case (PDict r)
  then show ?thesis using response_accepted [of schema r a] by simp
qed (simp_all add: validate_interaction_response_def)

section \<open>Normal forms of forms\<close>

definition option_val :: "ui_option \<Rightarrow> pyval" where
  "option_val opt = PDict [(''value'', PStr (uo_value opt)), (''label'', PStr (uo_label opt)), (''disabled'', PBool (uo_disabled opt))]"

text \<open>The document of a field, as the code builds it.\<close>

definition field_doc :: "ui_field \<Rightarrow> pydict" where
  "field_doc f = [(''id'', PStr (uf_id f)), (''type'', PStr (field_type_str (uf_type f))), (''label'', PStr (uf_label f)),
       (''description'', PStr (uf_description f)), (''placeholder'', PStr (uf_placeholder f)), (''required'', PBool (uf_required f))]
     @ (if uf_type f = FileField then [(''multiple'', PBool (uf_multiple f))] else [])
     @ (if is_choice (uf_type f) then [(''options'', PList (map option_val (uf_options f)))] else [])
     @ (if uf_type f = FileField then [(''accept'', PStr (uf_accept f))] else [])
     @ (case uf_default f of None \<Rightarrow> [] | Some d \<Rightarrow> [(''default'', d)])"

definition text_ok :: "nat \<Rightarrow> bool \<Rightarrow> string \<Rightarrow> bool" where
  "text_ok limit required s \<longleftrightarrow> length s \<le> limit \<and> py_strip s = s \<and> (required \<longrightarrow> s \<noteq> [])"

lemma text_value_ok: "text_value v limit required = Inr s \<Longrightarrow> text_ok limit required s"
  by (cases v) (auto simp: text_value_def text_ok_def split: if_splits intro: le_trans [OF length_py_strip])

lemma text_value_normal [simp]: "text_ok limit required s \<Longrightarrow> text_value (PStr s) limit required = Inr s"
  by (auto simp: text_value_def text_ok_def)

lemma bool_value_Inr [simp]: "bool_value v = Inr b \<longleftrightarrow> v = PBool b"
  by (auto simp: bool_value_def split: pyval.splits)

lemma field_type_of_str [simp]: "field_type_of (PStr (field_type_str k)) = Inr k"
  by (cases k) (simp_all add: field_type_of_def field_types_def)

lemma normalize_option_Inr: "normalize_option seen (PDict d) = Inr opt \<longleftrightarrow> text_value (get d ''value'') 500 True = Inr (uo_value opt)
    \<and> getd d ''disabled'' (PBool False) = PBool (uo_disabled opt) \<and> uo_value opt \<notin> set seen
    \<and> text_value (getd d ''label'' (PStr (uo_value opt))) 500 False = Inr (uo_label opt)"
  by (cases opt; cases "getd d ''disabled'' (PBool False)") (auto simp: normalize_option_def rbind_eq_Inr)

lemma normalize_option_normal: "normalize_option seen v = Inr opt \<Longrightarrow> normalize_option seen (option_val opt) = Inr opt"
proof (cases v)
  case (PDict d)
  assume "normalize_option seen v = Inr opt"
  then have n: "text_ok 500 True (uo_value opt)" "uo_value opt \<notin> set seen" "text_ok 500 False (uo_label opt)"
    using PDict by (auto simp: normalize_option_Inr dest: text_value_ok)
  then show ?thesis unfolding option_val_def normalize_option_Inr by (simp add: getd_def)
qed (simp_all add: normalize_option_def)

lemma normalize_options_normal:
  "normalize_options seen vs = Inr opts \<Longrightarrow> normalize_options seen (map option_val opts) = Inr opts \<and> length opts = length vs"
  by (induction seen vs arbitrary: opts rule: normalize_options.induct) (auto simp: rbind_eq_Inr normalize_option_normal)

lemma validate_value_default [simp]: "validate_value (f\<lparr>uf_default := x\<rparr>) v e = validate_value f v e"
  by (simp add: validate_value_def choice_ok_def enabled_values_def)

definition raw_field :: "pydict \<Rightarrow> bool \<Rightarrow> ui_field \<Rightarrow> bool" where
  "raw_field raw multiple f \<longleftrightarrow> text_value (get raw ''id'') 64 True = Inr (uf_id f) \<and> list_all id_char (uf_id f)
     \<and> field_type_of (get raw ''type'') = Inr (uf_type f) \<and> text_value (get raw ''label'') 500 True = Inr (uf_label f)
     \<and> text_value (getd raw ''description'' (PStr [])) 1000 False = Inr (uf_description f)
     \<and> text_value (getd raw ''placeholder'' (PStr [])) 500 False = Inr (uf_placeholder f)
     \<and> getd raw ''required'' (PBool False) = PBool (uf_required f) \<and> getd raw ''multiple'' (PBool False) = PBool multiple
     \<and> uf_multiple f = (uf_type f = FileField \<and> multiple) \<and> field_options (uf_type f) raw = Inr (uf_options f)
     \<and> field_accept (uf_type f) raw = Inr (uf_accept f) \<and> uf_default f = map_of raw ''default''
     \<and> (\<forall>d. map_of raw ''default'' = Some d \<longrightarrow> uf_type f \<noteq> FileField \<and> validate_value f d False = Inr ())"

lemma normalize_field_Inr:
  "normalize_field ids (PDict raw) = Inr f \<longleftrightarrow> uf_id f \<notin> set ids \<and> (\<exists>multiple. raw_field raw multiple f)"
proof (cases "map_of raw ''default''")
  case None
  then show ?thesis by (cases f) (auto simp: normalize_field_def raw_field_def rbind_eq_Inr raise_if_eq_Inr Let_def)
next
  case (Some d)
  have v: "validate_value (f\<lparr>uf_default := None\<rparr>) d False = validate_value f d False" by simp
  then show ?thesis using Some by (cases f) (auto simp: normalize_field_def raw_field_def rbind_eq_Inr raise_if_eq_Inr Let_def)
qed

lemma field_doc_get:
  "get (field_doc f) ''id'' = PStr (uf_id f)" "get (field_doc f) ''type'' = PStr (field_type_str (uf_type f))"
  "get (field_doc f) ''label'' = PStr (uf_label f)" "getd (field_doc f) ''description'' v = PStr (uf_description f)"
  "getd (field_doc f) ''placeholder'' v = PStr (uf_placeholder f)" "getd (field_doc f) ''required'' v = PBool (uf_required f)"
  "getd (field_doc f) ''multiple'' v = (if uf_type f = FileField then PBool (uf_multiple f) else v)"
  "getd (field_doc f) ''options'' v = (if is_choice (uf_type f) then PList (map option_val (uf_options f)) else v)"
  "getd (field_doc f) ''accept'' v = (if uf_type f = FileField then PStr (uf_accept f) else v)"
  "map_of (field_doc f) ''default'' = uf_default f"
  by (simp_all add: field_doc_def getd_def split: option.splits)

lemma raw_field_normal:
  assumes "raw_field raw multiple f"
  shows "raw_field (field_doc f) (uf_multiple f) f"
proof -
  have "field_options (uf_type f) (field_doc f) = Inr (uf_options f)"
    using assms normalize_options_normal [of "[]" _ "uf_options f"]
    by (auto simp: raw_field_def field_options_def field_doc_get split: if_splits pyval.splits)
  moreover have "field_accept (uf_type f) (field_doc f) = Inr (uf_accept f)"
    using assms text_value_ok by (auto simp: raw_field_def field_accept_def field_doc_get split: if_splits)
  ultimately show ?thesis using assms text_value_ok unfolding raw_field_def field_doc_get by auto
qed

lemma normalize_field_normal: "normalize_field ids v = Inr f \<Longrightarrow> normalize_field ids (PDict (field_doc f)) = Inr f"
  by (cases v) (auto simp: normalize_field_Inr intro: raw_field_normal, simp_all add: normalize_field_def)

lemma normalize_fields_normal:
  "normalize_fields ids vs = Inr fs \<Longrightarrow> normalize_fields ids (map (\<lambda>f. PDict (field_doc f)) fs) = Inr fs \<and> length fs = length vs"
  by (induction ids vs arbitrary: fs rule: normalize_fields.induct) (auto simp: rbind_eq_Inr normalize_field_normal)

text \<open>A normalised form is normal: normalising the document of its fields and its texts gives it back unchanged.\<close>

lemma normalized_form_fixpoint:
  assumes "normalize_interaction_schema label title description raws confirm = Inr form"
  shows "normalize_interaction_schema label' (PStr (us_title form)) (PStr (us_description form))
      (PList (map (\<lambda>f. PDict (field_doc f)) (us_fields form))) (PStr (us_confirm_label form)) = Inr form"
proof -
  obtain vs where vs: "(if is_none raws \<or> raws = PList [] then PList [message_field label] else raws) = PList vs" "vs \<noteq> []"
    using assms by (auto simp: normalize_interaction_schema_def split: pyval.splits if_splits)
  then have n: "length vs \<le> 20" "normalize_fields [] vs = Inr (us_fields form)" "text_ok 500 True (us_title form)"
      "text_ok 4000 False (us_description form)" "text_ok 80 True (us_confirm_label form)"
    using assms by (auto simp: normalize_interaction_schema_def rbind_eq_Inr dest: text_value_ok split: if_splits)
  note f = normalize_fields_normal [OF n(2)]
  then have "us_fields form \<noteq> []" using vs(2) by auto
  then show ?thesis using n f by (simp add: normalize_interaction_schema_def)
qed

definition review_form :: ui_schema where
  "review_form = \<lparr>us_title = ''Review'', us_description = [], us_confirm_label = ''OK'', us_fields =
     [\<lparr>uf_id = ''verdict'', uf_type = Select, uf_label = ''Verdict'', uf_description = [], uf_placeholder = [], uf_required = True,
       uf_multiple = False, uf_options = [\<lparr>uo_value = ''yes'', uo_label = ''yes'', uo_disabled = False\<rparr>], uf_accept = [], uf_default = None\<rparr>]\<rparr>"

definition review_raw :: pyval where
  "review_raw = PDict [(''id'', PStr ''verdict''), (''type'', PStr ''select''), (''label'', PStr '' Verdict''), (''required'', PBool True),
     (''options'', PList [PDict [(''value'', PStr ''yes'')]])]"

lemma review_normalized: "normalize_interaction_schema [] (PStr ''Review'') (PStr []) (PList [review_raw]) (PStr ''OK'') = Inr review_form"
  by (simp add: normalize_interaction_schema_def review_raw_def normalize_field_def normalize_option_def text_value_def getd_def strip_eval
      raise_if_def field_type_of_def field_types_def field_options_def field_accept_def is_choice_def id_char_def is_alnum_def Let_def bool_value_def
      review_form_def)

lemma normalized_form_fixpoint_witness:
  "normalize_interaction_schema [] (PStr ''Review'') (PStr []) (PList [review_raw]) (PStr ''OK'') = Inr review_form
   \<and> normalize_interaction_schema [] (PStr ''Review'') (PStr []) (PList (map (\<lambda>f. PDict (field_doc f)) (us_fields review_form))) (PStr ''OK'') = Inr review_form"
  using review_normalized normalized_form_fixpoint [OF review_normalized, of "[]"] by (simp add: review_form_def)

section \<open>Requests\<close>

datatype interaction_cmd = CreateRequest string string string ui_schema pyval pydict | SubmitResponse string pyval string string
  | CloseRequest string string string string | SetDelivery string string string

fun interaction_step :: "interaction_cmd \<Rightarrow> interaction_store \<Rightarrow> (interaction_store \<times> interaction) interaction_res" where
  "interaction_step (CreateRequest uuid created updated schema timeout config) st = create_interaction_request uuid created updated schema timeout config st"
| "interaction_step (SubmitResponse i response status now) st = submit_interaction_response i response status now st"
| "interaction_step (CloseRequest i reason status now) st = close_pending_interaction i reason status now st"
| "interaction_step (SetDelivery i status error) st = set_interaction_delivery i status error st"

text \<open>A request is pending without a response, submitted with an answer to its form, or closed with a response.\<close>

definition request_ok :: "interaction \<Rightarrow> bool" where
  "request_ok p \<longleftrightarrow> ia_status p = ''pending'' \<and> ia_response p = None
     \<or> ia_status p = ''submitted'' \<and> (\<exists>vs fs. ia_response p = Some [(''values'', PDict vs), (''files'', PDict fs)] \<and> answers (ia_schema p) vs fs)
     \<or> ia_status p \<in> {''cancelled'', ''expired''} \<and> ia_response p \<noteq> None"

definition requests_ok :: "interaction_store \<Rightarrow> bool" where
  "requests_ok st \<longleftrightarrow> (\<forall>i p. map_of st i = Some p \<longrightarrow> request_id_ok i \<and> ia_id p = i \<and> request_ok p)"

text \<open>A generated identifier is new.\<close>

fun fresh_request :: "interaction_cmd \<Rightarrow> interaction_store \<Rightarrow> bool" where
  "fresh_request (CreateRequest uuid created updated schema timeout config) st = (map_of st uuid = None)"
| "fresh_request c st = True"

lemma requests_ok_set: "requests_ok st \<Longrightarrow> request_id_ok i \<Longrightarrow> ia_id p = i \<Longrightarrow> request_ok p \<Longrightarrow> requests_ok (dict_set i p st)"
  by (simp add: requests_ok_def)

lemma read_request_Inr: "read_request i st = Inr p \<longleftrightarrow> request_id_ok i \<and> map_of st i = Some p"
  by (auto simp: read_request_def split: option.splits)

lemma submit_Inr:
  "submit_interaction_response i response status now st = Inr (st', p') \<longleftrightarrow> final_status status
     \<and> (\<exists>p a. request_id_ok i \<and> map_of st i = Some p \<and> ia_status p = ''pending'' \<and> validated_response (ia_schema p) response status = Inr a
          \<and> p' = p\<lparr>ia_status := status, ia_updated_at := now, ia_response := Some a\<rparr> \<and> st' = dict_set i p' st)"
  unfolding submit_interaction_response_def
  by (cases "final_status status") (auto simp: rbind_eq_Inr read_request_Inr Let_def split: if_splits)

lemma submitted_answer: "validate_interaction_response schema response = Inr a
    \<Longrightarrow> \<exists>vs fs. a = [(''values'', PDict vs), (''files'', PDict fs)] \<and> answers schema vs fs"
  by (cases response) (auto simp: response_accepted, simp_all add: validate_interaction_response_def)

lemma close_Inr:
  "close_pending_interaction i reason status now st = Inr (st', p') \<longleftrightarrow> closing_status status
     \<and> (\<exists>p. request_id_ok i \<and> map_of st i = Some p \<and> (if ia_status p = ''pending''
            then p' = p\<lparr>ia_status := status, ia_updated_at := now, ia_response := Some [(''error'', PStr reason)]\<rparr> \<and> st' = dict_set i p' st
            else p' = p \<and> st' = st))"
proof (cases "closing_status status \<and> request_id_ok i \<and> map_of st i \<noteq> None")
  case True
  then obtain p where "closing_status status" "request_id_ok i" "map_of st i = Some p" by blast
  then show ?thesis
    by (cases "ia_status p = ''pending''") (simp_all add: close_pending_interaction_def read_request_def Let_def, auto)
qed (auto simp: close_pending_interaction_def read_request_def)

lemma delivery_Inr:
  "set_interaction_delivery i status error st = Inr (st', p') \<Longrightarrow>
     \<exists>p. request_id_ok i \<and> map_of st i = Some p \<and> p' = p\<lparr>ia_desktop := Some (status, error)\<rparr> \<and> st' = dict_set i p' st"
  unfolding set_interaction_delivery_def by (auto simp: rbind_eq_Inr read_request_Inr Let_def split: if_splits)

lemma create_Inr:
  "create_interaction_request uuid created updated schema timeout config st = Inr (st', p') \<Longrightarrow>
     request_id_ok uuid \<and> ia_id p' = uuid \<and> ia_status p' = ''pending'' \<and> ia_response p' = None \<and> st' = dict_set uuid p' st"
  by (auto simp: create_interaction_request_def Let_def split: if_splits)

lemma request_ok_desktop: "request_ok p \<Longrightarrow> request_ok (p\<lparr>ia_desktop := x\<rparr>)"
  by (simp add: request_ok_def)

lemma request_ok_closed: "closing_status s \<Longrightarrow> request_ok (p\<lparr>ia_status := s, ia_updated_at := now, ia_response := Some a\<rparr>)"
  by (simp add: request_ok_def closing_status_def)

lemma request_ok_submitted:
  "final_status s \<Longrightarrow> validated_response (ia_schema p) response s = Inr a
   \<Longrightarrow> request_ok (p\<lparr>ia_status := s, ia_updated_at := now, ia_response := Some a\<rparr>)"
  using submitted_answer [of "ia_schema p" response a]
  by (cases "s = ''submitted''") (simp_all add: request_ok_def validated_response_def final_status_def)

lemma request_ok_pending: "ia_status p = ''pending'' \<Longrightarrow> ia_response p = None \<Longrightarrow> request_ok p"
  by (simp add: request_ok_def)

lemma interaction_step_ok:
  assumes ok: "requests_ok st" and step: "interaction_step c st = Inr (st', p')"
  shows "requests_ok st'"
proof -
  have known: "map_of st i = Some p \<Longrightarrow> ia_id p = i \<and> request_ok p" for i p using ok by (simp add: requests_ok_def)
  show ?thesis
  proof (cases c)
    case (SubmitResponse i response status now)
    then obtain p a where p: "final_status status" "request_id_ok i" "map_of st i = Some p" "validated_response (ia_schema p) response status = Inr a"
        "p' = p\<lparr>ia_status := status, ia_updated_at := now, ia_response := Some a\<rparr>" "st' = dict_set i p' st"
      using step by (auto simp: submit_Inr)
    then show ?thesis using known [OF p(3)] requests_ok_set [OF ok p(2), of p'] request_ok_submitted [OF p(1,4)] by simp
  next
    case (CreateRequest uuid created updated schema timeout config)
    then show ?thesis using create_Inr [of uuid created updated schema timeout config st st' p'] step requests_ok_set [OF ok, of uuid p'] request_ok_pending
      by simp
  next
    case (CloseRequest i reason status now)
    then obtain p where p: "closing_status status" "request_id_ok i" "map_of st i = Some p"
        "if ia_status p = ''pending''
         then p' = p\<lparr>ia_status := status, ia_updated_at := now, ia_response := Some [(''error'', PStr reason)]\<rparr> \<and> st' = dict_set i p' st
         else p' = p \<and> st' = st" using step by (auto simp: close_Inr)
    then show ?thesis using ok known [OF p(3)] requests_ok_set [OF ok p(2), of p'] request_ok_closed [OF p(1)] by (cases "ia_status p = ''pending''") simp_all
  next
    case (SetDelivery i status error)
    then obtain p where p: "request_id_ok i" "map_of st i = Some p" "p' = p\<lparr>ia_desktop := Some (status, error)\<rparr>" "st' = dict_set i p' st"
      using step delivery_Inr [of i status error st st' p'] by auto
    then show ?thesis using known [OF p(2)] requests_ok_set [OF ok p(1), of p'] request_ok_desktop by simp
  qed
qed

interpretation interaction: transactional interaction_step requests_ok fresh_request
  by unfold_locales (rule interaction_step_ok)

text \<open>A settled request only changes in how it was shown.\<close>

definition settled_as :: "string \<Rightarrow> interaction \<Rightarrow> interaction_store \<Rightarrow> bool" where
  "settled_as i p st \<longleftrightarrow> (\<exists>p'. map_of st i = Some p' \<and> p'\<lparr>ia_desktop := ia_desktop p\<rparr> = p)"

lemma settled_status: "settled_as i p st \<Longrightarrow> \<exists>p'. map_of st i = Some p' \<and> ia_status p' = ia_status p"
  unfolding settled_as_def by (metis interaction.select_convs(2) interaction.surjective interaction.update_convs(11))

lemma settled_request_step:
  assumes "settled_as i p st" "ia_status p \<noteq> ''pending''" "fresh_request c st" "interaction_step c st = Inr (st', r)"
  shows "settled_as i p st'"
proof -
  obtain q where q: "map_of st i = Some q" "ia_status q \<noteq> ''pending''" "q\<lparr>ia_desktop := ia_desktop p\<rparr> = p"
    using assms(1,2) settled_status [OF assms(1)] by (auto simp: settled_as_def)
  show ?thesis
  proof (cases c)
    case (SubmitResponse j response status now)
    then show ?thesis using assms(4) q by (auto simp: submit_Inr settled_as_def)
  next
    case (CreateRequest uuid created updated schema timeout config)
    then show ?thesis using assms(3,4) q create_Inr [of uuid created updated schema timeout config st st' r] by (auto simp: settled_as_def)
  next
    case (CloseRequest j reason status now)
    then show ?thesis using assms(4) q by (auto simp: close_Inr settled_as_def split: if_splits)
  next
    case (SetDelivery j status error)
    then show ?thesis using assms(4) q delivery_Inr [of j status error st st' r] by (auto simp: settled_as_def)
  qed
qed

lemma settled_request_run: "settled_as i p st \<Longrightarrow> ia_status p \<noteq> ''pending'' \<Longrightarrow> interaction.guarded cs st \<Longrightarrow> settled_as i p (fold interaction.commit cs st)"
proof (induction cs arbitrary: st)
  case (Cons c cs)
  have "settled_as i p (interaction.commit c st)"
    using Cons.prems settled_request_step [of i p st c] by (auto simp: interaction.commit_def split: sum.splits)
  then show ?case using Cons by simp
qed simp

text \<open>C37. A request that has been answered, cancelled or expired stays what it is, whatever calls follow from whomever: status,
  response, form and times never change again, only how it was shown, and every further response is refused.\<close>

theorem settled_request_is_final:
  assumes "requests_ok st" "map_of st i = Some p" "ia_status p \<noteq> ''pending''" "interaction.guarded cs st"
  shows "\<exists>p'. map_of (fold interaction.commit cs st) i = Some p' \<and> p'\<lparr>ia_desktop := ia_desktop p\<rparr> = p
    \<and> submit_interaction_response i response status now (fold interaction.commit cs st) = Inl InteractionValue"
proof -
  let ?st = "fold interaction.commit cs st"
  have s: "settled_as i p st" using assms(2) by (auto simp: settled_as_def intro!: interaction.equality)
  have r: "settled_as i p ?st" by (rule settled_request_run [OF s assms(3,4)])
  then obtain p' where p': "map_of ?st i = Some p'" "p'\<lparr>ia_desktop := ia_desktop p\<rparr> = p" by (auto simp: settled_as_def)
  have "request_id_ok i" using assms(1,2) by (simp add: requests_ok_def)
  moreover have "ia_status p' \<noteq> ''pending''" using settled_status [OF r] p'(1) assms(3) by simp
  ultimately have "submit_interaction_response i response status now ?st = Inl InteractionValue"
    using p'(1) by (simp add: submit_interaction_response_def read_request_def)
  then show ?thesis using p' by blast
qed

text \<open>Whatever sequence of calls made the requests on disk: a request that counts as submitted holds values and files that
  answer its form completely, a pending one holds no response, and a closed one holds one.\<close>

lemma submitted_requests_answered:
  assumes "interaction.guarded cs []" "map_of (fold interaction.commit cs []) i = Some p"
  shows "request_ok p"
proof -
  have "requests_ok []" by (simp add: requests_ok_def)
  then have "requests_ok (fold interaction.commit cs [])" using assms(1) by (rule interaction.run_inv)
  then show ?thesis using assms(2) by (simp add: requests_ok_def)
qed

section \<open>Restart\<close>

definition interrupted :: "string \<Rightarrow> string \<Rightarrow> interaction \<Rightarrow> interaction" where
  "interrupted reason now p = (if ia_status p = ''pending''
     then p\<lparr>ia_status := ''cancelled'', ia_updated_at := now, ia_response := Some [(''error'', PStr reason)]\<rparr> else p)"

lemma interrupted_status: "ia_status (interrupted reason now p) \<noteq> ''pending''"
  by (simp add: interrupted_def)

lemma interrupted_idem [simp]: "interrupted reason now (interrupted reason now p) = interrupted reason now p"
  by (simp add: interrupted_def)

lemma close_interrupts:
  assumes "request_id_ok i" "map_of st i = Some p"
  obtains st' where "close_pending_interaction i reason ''cancelled'' now st = Inr (st', interrupted reason now p)"
    "\<And>j. map_of st' j = (if j = i then Some (interrupted reason now p) else map_of st j)"
proof (cases "ia_status p = ''pending''")
  case True
  then show ?thesis using assms
    by (intro that [of "dict_set i (interrupted reason now p) st"]) (auto simp: close_Inr closing_status_def interrupted_def)
next
  case False
  then show ?thesis using assms by (intro that [of st]) (auto simp: close_Inr closing_status_def interrupted_def)
qed

lemma close_all:
  assumes "\<forall>p \<in> set ps. request_id_ok (ia_id p) \<and> map_of st (ia_id p) \<noteq> None"
  shows "\<exists>st'. rfold (\<lambda>p st. rbind (close_pending_interaction (ia_id p) reason ''cancelled'' now st) (\<lambda>(st', _). Inr st')) ps st = Inr st'
    \<and> (\<forall>i. map_of st' i = map_option (\<lambda>p. if i \<in> ia_id ` set ps then interrupted reason now p else p) (map_of st i))"
  using assms
proof (induction ps arbitrary: st)
  case Nil
  then show ?case by (simp add: option.map_ident)
next
  case (Cons p ps)
  then obtain q where q: "request_id_ok (ia_id p)" "map_of st (ia_id p) = Some q" by auto
  obtain st1 where st1: "close_pending_interaction (ia_id p) reason ''cancelled'' now st = Inr (st1, interrupted reason now q)"
      "\<And>j. map_of st1 j = (if j = ia_id p then Some (interrupted reason now q) else map_of st j)" 
    using close_interrupts [OF q, of reason now] by metis
  have pre: "\<forall>p \<in> set ps. request_id_ok (ia_id p) \<and> map_of st1 (ia_id p) \<noteq> None" using Cons.prems st1(2) by auto
  obtain st' where st': "rfold (\<lambda>p st. rbind (close_pending_interaction (ia_id p) reason ''cancelled'' now st) (\<lambda>(st', _). Inr st')) ps st1 = Inr st'"
      "\<forall>i. map_of st' i = map_option (\<lambda>p. if i \<in> ia_id ` set ps then interrupted reason now p else p) (map_of st1 i)"
    using Cons.IH [OF pre] by blast
  have "map_of st' i = map_option (\<lambda>x. if i \<in> ia_id ` set (p # ps) then interrupted reason now x else x) (map_of st i)" for i
    using st'(2) st1(2) q(2) by (cases "i = ia_id p") simp_all
  then show ?case using st1(1) st'(1) by (intro exI [of _ st']) simp
qed

text \<open>A restart settles every pending request: each is cancelled with the reason, and all others stay as they are.\<close>

lemma restart_interrupts_all:
  assumes "requests_ok st" "set names = fst ` set st"
  shows "\<exists>st'. interrupt_pending_interactions names reason now st = Inr st'
    \<and> (\<forall>i. map_of st' i = map_option (interrupted reason now) (map_of st i))"
proof -
  have ok: "request_id_ok i \<and> ia_id p = i" if "map_of st i = Some p" for i p using assms(1) that by (simp add: requests_ok_def)
  have names: "n \<in> set names \<longleftrightarrow> map_of st n \<noteq> None" for n using assms(2) by (simp add: map_of_eq_None_iff)
  let ?items = "map (\<lambda>n. the (map_of st n)) names"
  let ?ps = "sort_key ia_created_at (filter (\<lambda>p. ia_status p = ''pending'') ?items)"
  have "rmap (\<lambda>n. read_request n st) names = Inr ?items" by (rule rmap_cong_Inr) (use ok names in \<open>auto simp: read_request_Inr\<close>)
  then have l: "list_interaction_requests names ''pending'' st = Inr ?ps" by (simp add: list_interaction_requests_def)
  have "\<forall>p \<in> set ?ps. request_id_ok (ia_id p) \<and> map_of st (ia_id p) \<noteq> None" using ok names by fastforce
  then obtain st' where st': "rfold (\<lambda>p st. rbind (close_pending_interaction (ia_id p) reason ''cancelled'' now st) (\<lambda>(st', _). Inr st')) ?ps st = Inr st'"
      "\<forall>i. map_of st' i = map_option (\<lambda>p. if i \<in> ia_id ` set ?ps then interrupted reason now p else p) (map_of st i)"
    using close_all by blast
  have "map_of st' i = map_option (interrupted reason now) (map_of st i)" for i
  proof (cases "map_of st i")
    case (Some p)
    have "i \<in> ia_id ` set ?ps" if "ia_status p = ''pending''"
      using that Some names [of i] ok [OF Some] by (intro image_eqI [of _ _ p]) (auto intro!: image_eqI [of _ _ i])
    then show ?thesis using st'(2) Some by (auto simp: interrupted_def)
  qed (use st'(2) in simp)
  then show ?thesis using l st'(1) by (simp add: interrupt_pending_interactions_def)
qed

section \<open>An instance\<close>

definition sample_id :: string where
  "sample_id = replicate 32 CHR ''a''"

definition sample_requests :: "interaction_cmd list" where
  "sample_requests = [CreateRequest sample_id ''t0'' ''t0'' review_form (PInt 60) [],
     SubmitResponse sample_id (PDict [(''values'', PDict [(''verdict'', PStr ''yes'')])]) ''submitted'' ''t1'']"

definition sample_pending :: interaction where
  "sample_pending = \<lparr>ia_id = sample_id, ia_status = ''pending'', ia_created_at = ''t0'', ia_updated_at = ''t0'', ia_timeout_sec = PInt 60,
     ia_schema = review_form, ia_graph_id = [], ia_node_id = [], ia_node_name = [], ia_response = None, ia_desktop = None\<rparr>"

definition sample_submitted :: interaction where
  "sample_submitted = sample_pending\<lparr>ia_status := ''submitted'', ia_updated_at := ''t1'',
     ia_response := Some [(''values'', PDict [(''verdict'', PStr ''yes'')]), (''files'', PDict [])]\<rparr>"

lemma sample_id_ok [simp]: "request_id_ok sample_id"
  by (simp add: request_id_ok_def sample_id_def list_all_iff)

lemma sample_created: "interaction.commit (sample_requests ! 0) [] = [(sample_id, sample_pending)]"
  by (simp add: interaction.commit_def sample_requests_def create_interaction_request_def timeout_ok_def sample_pending_def getd_def str_or_def
      py_or_def dict_set_new Let_def)

lemma sample_answer: "validate_interaction_response review_form (PDict [(''values'', PDict [(''verdict'', PStr ''yes'')])])
    = Inr [(''values'', PDict [(''verdict'', PStr ''yes'')]), (''files'', PDict [])]"
  by (simp add: validate_interaction_response_def getd_def review_form_def validate_value_def answer_to_def strip_eval raise_if_def is_choice_def
      choice_ok_def enabled_values_def image_iff)

lemma sample_requests_run: "interaction.guarded sample_requests [] \<and> fold interaction.commit sample_requests [] = [(sample_id, sample_submitted)]"
proof -
  have "interaction.commit (sample_requests ! 1) [(sample_id, sample_pending)] = [(sample_id, sample_submitted)]"
    by (simp add: interaction.commit_def sample_requests_def submit_interaction_response_def read_request_def final_status_def validated_response_def
        Let_def sample_submitted_def) (simp add: sample_pending_def sample_answer dict_set_code Let_def)
  then show ?thesis using sample_created by (simp add: sample_requests_def)
qed

lemma settled_request_is_final_witness:
  "requests_ok [(sample_id, sample_submitted)] \<and> submit_interaction_response sample_id (PDict []) ''cancelled'' ''t2''
     (interaction.commit (CloseRequest sample_id ''stopped'' ''cancelled'' ''t2'') [(sample_id, sample_submitted)]) = Inl InteractionValue"
proof -
  have ok: "requests_ok [(sample_id, sample_submitted)]"
    using interaction.run_inv [of "[]" sample_requests] sample_requests_run by (simp add: requests_ok_def)
  have "map_of [(sample_id, sample_submitted)] sample_id = Some sample_submitted" "ia_status sample_submitted \<noteq> ''pending''"
    "interaction.guarded [CloseRequest sample_id ''stopped'' ''cancelled'' ''t2''] [(sample_id, sample_submitted)]" by (simp_all add: sample_submitted_def)
  then show ?thesis using settled_request_is_final [OF ok] ok by fastforce
qed

lemma submitted_requests_answered_witness:
  "fold interaction.commit sample_requests [] = [(sample_id, sample_submitted)] \<and> request_ok sample_submitted"
  using submitted_requests_answered [of sample_requests sample_id sample_submitted] sample_requests_run by simp

end
