(* ===== verification/JsonText.thy ===== *)
theory JsonText
  imports PyValue
begin

text \<open>
  Texts of JSON as \<open>json.dumps(v, ensure_ascii=False)\<close> writes them, with the separators of the call, and as
  \<open>json.loads\<close> reads them. What is written is read back.
\<close>

section \<open>Writing\<close>

definition json_char :: "char \<Rightarrow> string" where
  "json_char c = (let n = char_code c in
     if n = 34 \<or> n = 92 then [CHR 0x5C, c] else if n = 10 then [CHR 0x5C, CHR ''n''] else if n = 13 then [CHR 0x5C, CHR ''r'']
     else if n = 9 then [CHR 0x5C, CHR ''t''] else if n = 8 then [CHR 0x5C, CHR ''b''] else if n = 12 then [CHR 0x5C, CHR ''f'']
     else if n < 32 then [CHR 0x5C, CHR ''u'', CHR ''0'', CHR ''0'', hex_digit (n div 16), hex_digit (n mod 16)] else [c])"

definition json_text :: "string \<Rightarrow> string" where
  "json_text s = CHR 0x22 # concat (map json_char s) @ [CHR 0x22]"

fun json_float :: "pyfloat \<Rightarrow> string" where
  "json_float PosInf = ''Infinity''" | "json_float NegInf = ''-Infinity''" | "json_float NaN = ''NaN''" | "json_float f = float_repr f"

fun json_write :: "string \<Rightarrow> string \<Rightarrow> pyval \<Rightarrow> string" where
  "json_write sep colon PNone = ''null''"
| "json_write sep colon (PBool b) = (if b then ''true'' else ''false'')"
| "json_write sep colon (PInt i) = int_str i"
| "json_write sep colon (PFloat f) = json_float f"
| "json_write sep colon (PStr s) = json_text s"
| "json_write sep colon (PList xs) = ''['' @ join_with sep (map (json_write sep colon) xs) @ '']''"
| "json_write sep colon (PDict d) = ''{'' @ join_with sep (map (\<lambda>(k, v). json_text k @ colon @ json_write sep colon v) d) @ ''}''"

definition json_dumps :: "pyval \<Rightarrow> string" where
  "json_dumps v = json_write '', '' '': '' v"

text \<open>\<open>sort_keys=True\<close>\<close>

fun json_sorted :: "pyval \<Rightarrow> pyval" where
  "json_sorted (PList xs) = PList (map json_sorted xs)"
| "json_sorted (PDict d) = PDict (sort_key fst (map (\<lambda>(k, v). (k, json_sorted v)) d))"
| "json_sorted v = v"

section \<open>Reading\<close>

text \<open>A literal of more than 4300 digits and an escape of a code point above 255 count as unreadable; texts here are over the
  code points below 256.\<close>

definition json_ws :: "char \<Rightarrow> bool" where
  "json_ws c \<longleftrightarrow> c \<in> {CHR '' '', CHR 0x09, CHR 0x0A, CHR 0x0D}"

definition skip_ws :: "string \<Rightarrow> string" where
  "skip_ws = dropWhile json_ws"

definition hex_val :: "char \<Rightarrow> nat option" where
  "hex_val c = (let n = char_code c in if 48 \<le> n \<and> n \<le> 57 then Some (n - 48) else if 97 \<le> n \<and> n \<le> 102 then Some (n - 87)
     else if 65 \<le> n \<and> n \<le> 70 then Some (n - 55) else None)"

definition hex4 :: "string \<Rightarrow> char option" where
  "hex4 cs = (if list_all (\<lambda>c. hex_val c \<noteq> None) cs then let n = foldl (\<lambda>a c. 16 * a + the (hex_val c)) 0 cs in
     if n < 256 then Some (char_of n) else None else None)"

definition unescape :: "char \<Rightarrow> char option" where
  "unescape e = (if e \<in> {CHR 0x22, CHR 0x5C, CHR ''/''} then Some e else if e = CHR ''n'' then Some (CHR 0x0A) else if e = CHR ''r'' then Some (CHR 0x0D)
     else if e = CHR ''t'' then Some (CHR 0x09) else if e = CHR ''b'' then Some (CHR 0x08) else if e = CHR ''f'' then Some (CHR 0x0C) else None)"

definition put_char :: "char \<Rightarrow> (string \<times> string) option \<Rightarrow> (string \<times> string) option" where
  "put_char c = map_option (\<lambda>(s, r). (c # s, r))"

text \<open>The rest of a string after its opening quote, and what follows it.\<close>

fun json_string :: "string \<Rightarrow> (string \<times> string) option" where
  "json_string [] = None"
| "json_string (c # cs) = (if c = CHR 0x22 then Some ([], cs)
     else if c = CHR 0x5C then (case cs of
         [] \<Rightarrow> None
       | e # ds \<Rightarrow> if e = CHR ''u'' then (case ds of
             h # i # j # k # rest \<Rightarrow> (case hex4 [h, i, j, k] of None \<Rightarrow> None | Some x \<Rightarrow> put_char x (json_string rest))
           | _ \<Rightarrow> None)
         else (case unescape e of None \<Rightarrow> None | Some x \<Rightarrow> put_char x (json_string ds)))
     else if char_code c < 32 then None else put_char c (json_string cs))"

definition number_fraction :: "string \<Rightarrow> string \<times> string" where
  "number_fraction s = (if starts_with ''.'' s \<and> takeWhile is_digit (tl s) \<noteq> [] then (CHR ''.'' # takeWhile is_digit (tl s), dropWhile is_digit (tl s)) else ([], s))"

definition number_exponent :: "string \<Rightarrow> string \<times> string" where
  "number_exponent s = (case s of [] \<Rightarrow> ([], []) | e # r \<Rightarrow>
     let sgn = takeWhile (\<lambda>c. c = CHR ''+'' \<or> c = CHR ''-'') (take 1 r); body = drop (length sgn) r in
     if (e = CHR ''e'' \<or> e = CHR ''E'') \<and> takeWhile is_digit body \<noteq> [] then (e # sgn @ takeWhile is_digit body, dropWhile is_digit body) else ([], s))"

definition int_digits :: "string \<Rightarrow> string" where
  "int_digits r = (if starts_with ''0'' r then ''0'' else takeWhile is_digit r)"

definition json_unsigned :: "bool \<Rightarrow> string \<Rightarrow> (pyval \<times> string) option" where
  "json_unsigned neg r = (let ds = int_digits r; (frac, r2) = number_fraction (drop (length ds) r); (ex, r3) = number_exponent r2 in
     if ds = [] then None
     else if frac = [] \<and> ex = [] then (if length ds \<le> 4300 then Some (PInt ((if neg then - 1 else 1) * int (digits_val ds)), r3) else None)
     else map_option (\<lambda>f. (PFloat f, r3)) (parse_float_text ((if neg then ''-'' else []) @ ds @ frac @ ex)))"

definition json_number :: "string \<Rightarrow> (pyval \<times> string) option" where
  "json_number s = (if starts_with ''-'' s then json_unsigned True (tl s) else json_unsigned False s)"

definition json_word :: "string \<Rightarrow> (pyval \<times> string) option" where
  "json_word s = (if starts_with ''null'' s then Some (PNone, drop 4 s) else if starts_with ''true'' s then Some (PBool True, drop 4 s)
     else if starts_with ''false'' s then Some (PBool False, drop 5 s) else if starts_with ''NaN'' s then Some (PFloat NaN, drop 3 s)
     else if starts_with ''Infinity'' s then Some (PFloat PosInf, drop 8 s) else if starts_with ''-Infinity'' s then Some (PFloat NegInf, drop 9 s)
     else json_number s)"

text \<open>A key that comes again replaces the value in the place of the first.\<close>

definition json_object :: "(string \<times> pyval) list \<Rightarrow> pydict" where
  "json_object ps = fold (\<lambda>(k, v). dict_set k v) ps []"

fun json_value :: "nat \<Rightarrow> string \<Rightarrow> (pyval \<times> string) option"
  and json_items :: "nat \<Rightarrow> string \<Rightarrow> (pyval list \<times> string) option"
  and json_members :: "nat \<Rightarrow> string \<Rightarrow> ((string \<times> pyval) list \<times> string) option" where
  "json_value 0 s = None"
| "json_value (Suc n) s = (case s of [] \<Rightarrow> None
    | c # cs \<Rightarrow> if c = CHR 0x22 then map_option (\<lambda>(t, r). (PStr t, r)) (json_string cs)
      else if c = CHR ''['' then (if starts_with '']'' (skip_ws cs) then Some (PList [], tl (skip_ws cs))
        else map_option (\<lambda>(xs, r). (PList xs, r)) (json_items n (skip_ws cs)))
      else if c = CHR ''{'' then (if starts_with ''}'' (skip_ws cs) then Some (PDict [], tl (skip_ws cs))
        else map_option (\<lambda>(ps, r). (PDict (json_object ps), r)) (json_members n (skip_ws cs)))
      else json_word s)"
| "json_items 0 s = None"
| "json_items (Suc n) s = (case json_value n s of None \<Rightarrow> None | Some (v, r) \<Rightarrow> (case skip_ws r of
      [] \<Rightarrow> None
    | c # t \<Rightarrow> if c = CHR '']'' then Some ([v], t)
        else if c = CHR '','' then map_option (\<lambda>(xs, u). (v # xs, u)) (json_items n (skip_ws t)) else None))"
| "json_members 0 s = None"
| "json_members (Suc n) s = (if \<not> starts_with [CHR 0x22] s then None else case json_string (tl s) of None \<Rightarrow> None
    | Some (k, r) \<Rightarrow> if \<not> starts_with '':'' (skip_ws r) then None else (case json_value n (skip_ws (tl (skip_ws r))) of None \<Rightarrow> None
      | Some (v, q) \<Rightarrow> (case skip_ws q of
          [] \<Rightarrow> None
        | c # t \<Rightarrow> if c = CHR ''}'' then Some ([(k, v)], t)
            else if c = CHR '','' then map_option (\<lambda>(ps, u). ((k, v) # ps, u)) (json_members n (skip_ws t)) else None)))"

definition json_loads :: "string \<Rightarrow> pyval option" where
  "json_loads s = (case json_value (2 * length s + 2) (skip_ws s) of
     Some (v, r) \<Rightarrow> if skip_ws r = [] then Some v else None | None \<Rightarrow> None)"

section \<open>What is written is read back\<close>

lemma put_char_Some [simp]: "put_char c (Some (s, r)) = Some (c # s, r)"
  by (simp add: put_char_def)

lemma char_of_code [simp]: "char_of (char_code c) = c"
  by (simp add: char_code_def)

lemma char_code_inject: "char_code c = char_code d \<longleftrightarrow> c = d"
  by (metis char_of_code)

lemma digit_char_0: "digit_char 0 = CHR ''0''"
  by (subst char_code_inject [symmetric]) (simp add: digit_char_def, simp add: char_code_def)

lemma hex_val_digit: "d < 16 \<Longrightarrow> hex_val (hex_digit d) = Some d"
  by (simp add: hex_val_def hex_digit_def Let_def)

lemma hex4_written: "n < 32 \<Longrightarrow> hex4 [CHR ''0'', CHR ''0'', hex_digit (n div 16), hex_digit (n mod 16)] = Some (char_of n)"
proof -
  assume n: "n < 32"
  have "CHR ''0'' = hex_digit 0" using digit_char_0 by (simp add: hex_digit_def digit_char_def)
  then have z: "hex_val (CHR ''0'') = Some 0" using hex_val_digit [of 0] by simp
  have "n div 16 < 16" "n mod 16 < 16" using n by simp_all
  then show ?thesis using n by (simp add: hex4_def z hex_val_digit)
qed

lemma json_string_char: "json_string (json_char c @ t) = put_char c (json_string t)"
proof -
  let ?n = "char_code c"
  have eq: "(c = d) = (?n = char_code d)" for d by (simp add: char_code_inject)
  consider "c \<in> {CHR 0x22, CHR 0x5C, CHR 0x0A, CHR 0x0D, CHR 0x09, CHR 0x08, CHR 0x0C}" | "?n < 32" "?n \<notin> {10, 13, 9, 8, 12}"
    | "32 \<le> ?n" "?n \<noteq> 34" "?n \<noteq> 92"
    unfolding eq insert_iff empty_iff by (simp add: char_code_def) linarith
  then show ?thesis
  proof cases
    case 1
    then show ?thesis by (elim insertE emptyE) (simp_all add: json_char_def unescape_def char_code_def)
  next
    case 2
    then have "json_char c = [CHR 0x5C, CHR ''u'', CHR ''0'', CHR ''0'', hex_digit (?n div 16), hex_digit (?n mod 16)]"
      by (simp add: json_char_def Let_def)
    then show ?thesis using hex4_written [OF 2(1)] by simp
  next
    case 3
    then have "json_char c = [c]" "c \<noteq> CHR 0x22" "c \<noteq> CHR 0x5C" unfolding eq by (simp_all add: json_char_def char_code_def)
    then show ?thesis using 3 by simp
  qed
qed

lemma json_string_text: "json_string (concat (map json_char s) @ CHR 0x22 # r) = Some (s, r)"
  proof (induction s)
  case (Cons c s)
  then show ?case using json_string_char [of c "concat (map json_char s) @ CHR 0x22 # r"] by (simp del: json_string.simps)
qed simp

fun json_plain :: "pyval \<Rightarrow> bool" where
  "json_plain (PFloat f) = False"
| "json_plain (PInt i) = (length (nat_str (nat \<bar>i\<bar>)) \<le> 4300)"
| "json_plain (PList xs) = list_all json_plain xs"
| "json_plain (PDict d) = (distinct (map fst d) \<and> list_all (\<lambda>(k, v). json_plain v) d)"
| "json_plain v = True"

definition json_end :: "string \<Rightarrow> bool" where
  "json_end r \<longleftrightarrow> (case r of [] \<Rightarrow> True | c # _ \<Rightarrow> \<not> is_digit c \<and> c \<notin> {CHR ''.'', CHR ''e'', CHR ''E''})"

definition sep_ok :: "char \<Rightarrow> string \<Rightarrow> bool" where
  "sep_ok c s \<longleftrightarrow> (\<exists>w. s = c # w \<and> list_all json_ws w)"

lemma skip_ws_head: "\<not> json_ws c \<Longrightarrow> skip_ws (c # s) = c # s"
  by (simp add: skip_ws_def)

lemma skip_ws_all: "list_all json_ws w \<Longrightarrow> skip_ws (w @ s) = skip_ws s"
  by (induction w) (simp_all add: skip_ws_def)

lemma digits_end: "json_end r \<Longrightarrow> \<forall>c \<in> set ds. is_digit c \<Longrightarrow> takeWhile is_digit (ds @ r) = ds"
  by (induction ds) (auto simp: json_end_def split: list.splits)

lemma hd_nat_str: "0 < n \<Longrightarrow> hd (nat_str n) \<noteq> CHR ''0''"
proof (induction n rule: nat_str.induct)
  case (1 n)
  note z = digit_char_0 [symmetric]
  show ?case
  proof (cases "n < 10")
    case True
    then have "digit_val (digit_char n) = n" by simp
    then have "digit_char n \<noteq> digit_char 0" using 1(2) by (metis digit_val_digit_char less_numeral_extra(3) zero_less_numeral)
    then show ?thesis using True z by (simp add: nat_str.simps [of n])
  next
    case False
    then have "hd (nat_str (n div 10)) \<noteq> CHR ''0''" using 1(1) by simp
    then show ?thesis using False by (simp add: nat_str.simps [of n] hd_append)
  qed
qed

lemma nat_str_0: "nat_str 0 = ''0''"
  by (simp add: nat_str.simps [of 0] digit_char_0)

lemma number_after: "json_end r \<Longrightarrow> number_fraction r = ([], r)" "json_end r \<Longrightarrow> number_exponent r = ([], r)"
  by (auto simp: json_end_def number_fraction_def number_exponent_def starts_with_def split: list.splits)

lemma json_unsigned_nat:
  assumes "json_end r" "length (nat_str n) \<le> 4300"
  shows "json_unsigned neg (nat_str n @ r) = Some (PInt ((if neg then - 1 else 1) * int n), r)"
proof -
  let ?ds = "nat_str n"
  have lead: "int_digits (?ds @ r) = ?ds"
  proof (cases "n = 0")
    case False
    then have "hd ?ds \<noteq> CHR ''0''" using hd_nat_str by simp
    then have "\<not> starts_with ''0'' (?ds @ r)" using nat_str_nonempty [of n] by (cases ?ds) (auto simp: starts_with_def)
    then show ?thesis using digits_end [OF assms(1) nat_str_digits] by (simp add: int_digits_def)
  qed (simp add: nat_str_0 starts_with_def int_digits_def)
  show ?thesis unfolding json_unsigned_def lead Let_def using assms(2) by (simp add: number_after [OF assms(1)])
qed

lemma json_number_int:
  assumes "json_end r" "length (nat_str (nat \<bar>i\<bar>)) \<le> 4300"
  shows "json_number (int_str i @ r) = Some (PInt i, r)"
proof (cases "i < 0")
  case True
  then show ?thesis using json_unsigned_nat [OF assms] by (simp add: int_str_def json_number_def starts_with_def)
next
  case False
  have "\<not> starts_with ''-'' (nat_str (nat i) @ r)"
    using nat_str_digits [of "nat i"] nat_str_nonempty [of "nat i"] by (cases "nat_str (nat i)") (auto simp: starts_with_def is_digit_def char_code_def)
  then show ?thesis using False json_unsigned_nat [OF assms] by (simp add: int_str_def json_number_def)
qed

lemma nat_str_head: obtains d ds where "nat_str n = d # ds" "is_digit d"
  using nat_str_digits [of n] nat_str_nonempty [of n] by (cases "nat_str n") auto

lemma digit_no_letter: "is_digit c \<Longrightarrow> c \<notin> {CHR ''n'', CHR ''t'', CHR ''f'', CHR ''N'', CHR ''I'', CHR ''-'', CHR 0x22, CHR ''['', CHR ''{''}"
  by (auto simp: is_digit_def char_code_def)

lemma starts_with_Cons: "starts_with (a # p) (b # s) \<longleftrightarrow> a = b \<and> starts_with p s" "\<not> starts_with (a # p) []" "starts_with [] s"
  by (auto simp: starts_with_def)

lemma int_str_head:
  obtains c cs where "int_str i = c # cs" "is_digit c \<or> c = CHR ''-'' \<and> (\<exists>d ds. cs = d # ds \<and> is_digit d)"
proof (cases "i < 0")
  case True
  obtain d ds where "nat_str (nat (- i)) = d # ds" "is_digit d" by (rule nat_str_head)
  then show ?thesis using that [of "CHR ''-''" "d # ds"] True by (simp add: int_str_def)
next
  case False
  obtain d ds where "nat_str (nat i) = d # ds" "is_digit d" by (rule nat_str_head)
  then show ?thesis using that [of d ds] False by (simp add: int_str_def)
qed

lemma json_word_int:
  assumes "json_end r" "length (nat_str (nat \<bar>i\<bar>)) \<le> 4300"
  shows "json_word (int_str i @ r) = Some (PInt i, r)"
proof -
  obtain c cs where c: "int_str i = c # cs" "is_digit c \<or> c = CHR ''-'' \<and> (\<exists>d ds. cs = d # ds \<and> is_digit d)" by (rule int_str_head)
  have n: "\<not> starts_with p (int_str i @ r)" if "p \<in> {''null'', ''true'', ''false'', ''NaN'', ''Infinity'', ''-Infinity''}" for p
    using c(2)
  proof
    assume dig: "is_digit c"
    have "c \<noteq> hd p" "p \<noteq> []" using digit_no_letter [OF dig] that by auto
    then show ?thesis using c(1) by (cases p) (simp_all add: starts_with_Cons)
  next
    assume m: "c = CHR ''-'' \<and> (\<exists>d ds. cs = d # ds \<and> is_digit d)"
    then obtain d ds where d: "cs = d # ds" "is_digit d" by blast
    then have "d \<noteq> CHR ''I''" using digit_no_letter by blast
    then show ?thesis using m c(1) d(1) that by (elim insertE emptyE) (simp_all add: starts_with_Cons)
  qed
  have "json_word (int_str i @ r) = json_number (int_str i @ r)" unfolding json_word_def using n by simp
  then show ?thesis using json_number_int [OF assms] by simp
qed

text \<open>A text that is written begins with none of the characters that end a list or a dictionary, and not with white space.\<close>

definition value_start :: "string \<Rightarrow> bool" where
  "value_start s \<longleftrightarrow> (\<exists>c cs. s = c # cs \<and> \<not> json_ws c \<and> c \<notin> {CHR '']'', CHR ''}''})"

lemma value_start_write: "json_plain v \<Longrightarrow> value_start (json_write sep colon v)"
proof (cases v)
  case (PInt i)
  obtain c cs where "int_str i = c # cs" "is_digit c \<or> c = CHR ''-''" using int_str_head by metis
  then show ?thesis using PInt by (auto simp: value_start_def json_ws_def is_digit_def char_code_def)
qed (auto simp: value_start_def json_ws_def json_text_def)

lemma join_Cons: "ss \<noteq> [] \<Longrightarrow> join_with sep (s # ss) = s @ sep @ join_with sep ss"
  by (cases ss) simp_all

lemma value_start_skip: "value_start s \<Longrightarrow> skip_ws (s @ r) = s @ r" "value_start s \<Longrightarrow> \<not> starts_with '']'' (s @ r)" "value_start s \<Longrightarrow> \<not> starts_with ''}'' (s @ r)"
  by (auto simp: value_start_def skip_ws_head starts_with_Cons)

lemma json_value_number:
  assumes "json_end r" "length (nat_str (nat \<bar>i\<bar>)) \<le> 4300"
  shows "json_value (Suc n) (int_str i @ r) = Some (PInt i, r)"
proof -
  obtain c cs where c: "int_str i = c # cs" "is_digit c \<or> c = CHR ''-'' \<and> (\<exists>d ds. cs = d # ds \<and> is_digit d)" by (rule int_str_head)
  have "c \<noteq> CHR 0x22" "c \<noteq> CHR ''[''" "c \<noteq> CHR ''{''" using c(2) digit_no_letter [of c] by auto
  then show ?thesis using json_word_int [OF assms] by (simp add: c(1))
qed

text \<open>The claim on one value: enough fuel reads it back, whatever follows that cannot belong to a number.\<close>

definition reads_back :: "string \<Rightarrow> string \<Rightarrow> pyval \<Rightarrow> bool" where
  "reads_back sep colon v \<longleftrightarrow> value_start (json_write sep colon v)
     \<and> (\<forall>n r. json_end r \<longrightarrow> 2 * length (json_write sep colon v) \<le> n \<longrightarrow> json_value n (json_write sep colon v @ r) = Some (v, r))"

lemma sep_end: "sep_ok CHR '','' sep \<Longrightarrow> json_end (sep @ t)"
  by (auto simp: sep_ok_def json_end_def is_digit_def char_code_def)

lemma bracket_end: "json_end (CHR '']'' # t)" "json_end (CHR ''}'' # t)"
  by (simp_all add: json_end_def is_digit_def char_code_def)

lemma sep_skip: "sep_ok c sep \<Longrightarrow> \<not> json_ws c \<Longrightarrow> \<exists>w. skip_ws (sep @ t) = c # w @ t \<and> list_all json_ws w"
  by (auto simp: sep_ok_def skip_ws_head)

lemma json_ws_marks: "\<not> json_ws (CHR '','')" "\<not> json_ws (CHR '':'')" "\<not> json_ws (CHR '']'')" "\<not> json_ws (CHR ''}'')"
  by (simp_all add: json_ws_def)

lemma value_start_join: "value_start s \<Longrightarrow> value_start (join_with sep (s # ss))"
  by (cases ss) (auto simp: value_start_def)

lemma reads_items:
  assumes sep: "sep_ok CHR '','' sep" and "\<forall>x \<in> set xs. reads_back sep colon x" "xs \<noteq> []"
    and "2 * length (join_with sep (map (json_write sep colon) xs)) + 2 \<le> n"
  shows "json_items n (join_with sep (map (json_write sep colon) xs) @ CHR '']'' # r) = Some (xs, r)"
  using assms(2-4)
proof (induction xs arbitrary: n)
  case (Cons x xs)
  let ?w = "json_write sep colon"
  have x: "reads_back sep colon x" using Cons.prems(1) by simp
  obtain m where n: "n = Suc m" using Cons.prems(3) by (cases n) auto
  show ?case
  proof (cases "xs = []")
    case True
    then have "json_value m (?w x @ CHR '']'' # r) = Some (x, CHR '']'' # r)"
      using x Cons.prems(3) bracket_end(1) by (simp add: reads_back_def n)
    then show ?thesis using True by (simp add: n skip_ws_head json_ws_marks)
  next
    case False
    let ?rest = "join_with sep (map ?w xs) @ CHR '']'' # r"
    have j: "join_with sep (map ?w (x # xs)) = ?w x @ sep @ join_with sep (map ?w xs)" using False by (simp add: join_Cons)
    have "json_value m (?w x @ sep @ ?rest) = Some (x, sep @ ?rest)"
      using x Cons.prems(3) sep_end [OF sep] unfolding j by (simp add: reads_back_def n)
    moreover obtain w where w: "skip_ws (sep @ ?rest) = CHR '','' # w @ ?rest" "list_all json_ws w" using sep_skip [OF sep json_ws_marks(1)] by blast
    moreover have "value_start (join_with sep (map ?w xs))" using Cons.prems(1) False value_start_join by (cases xs) (auto simp: reads_back_def)
    then have "skip_ws (w @ ?rest) = ?rest" unfolding skip_ws_all [OF w(2)] by (rule value_start_skip(1))
    moreover have "1 \<le> length sep" using sep by (auto simp: sep_ok_def)
    then have "json_items m ?rest = Some (xs, r)" using Cons.IH [of m] Cons.prems False unfolding j by (simp add: n)
    ultimately show ?thesis unfolding j by (simp add: n)
  qed
qed simp

lemma json_text_read: "json_string (tl (json_text k @ t)) = Some (k, t)" "starts_with [CHR 0x22] (json_text k @ t)"
  using json_string_text by (simp_all add: json_text_def starts_with_Cons)

lemma reads_members:
  assumes sep: "sep_ok CHR '','' sep" and colon: "sep_ok CHR '':'' colon" and "\<forall>(k, x) \<in> set d. reads_back sep colon x" "d \<noteq> []"
    and "2 * length (join_with sep (map (\<lambda>(k, v). json_text k @ colon @ json_write sep colon v) d)) + 2 \<le> n"
  shows "json_members n (join_with sep (map (\<lambda>(k, v). json_text k @ colon @ json_write sep colon v) d) @ CHR ''}'' # r) = Some (d, r)"
  using assms(3-5)
proof (induction d arbitrary: n)
  case (Cons p d)
  let ?w = "json_write sep colon" and ?m = "\<lambda>(k, v). json_text k @ colon @ json_write sep colon v"
  obtain k x where p: "p = (k, x)" by fastforce
  have x: "reads_back sep colon x" using Cons.prems(1) by (simp add: p)
  obtain m where n: "n = Suc m" using Cons.prems(3) by (cases n) auto
  have key: "json_members (Suc m) (json_text k @ colon @ ?w x @ t) = (case json_value m (?w x @ t) of None \<Rightarrow> None | Some (v, q) \<Rightarrow> (case skip_ws q of
          [] \<Rightarrow> None | c # t \<Rightarrow> if c = CHR ''}'' then Some ([(k, v)], t)
            else if c = CHR '','' then map_option (\<lambda>(ps, u). ((k, v) # ps, u)) (json_members m (skip_ws t)) else None))" for t
  proof -
    obtain w where w: "skip_ws (colon @ ?w x @ t) = CHR '':'' # w @ ?w x @ t" "list_all json_ws w" using sep_skip [OF colon json_ws_marks(2)] by blast
    have "skip_ws (w @ ?w x @ t) = ?w x @ t" unfolding skip_ws_all [OF w(2)] using x by (intro value_start_skip(1)) (simp add: reads_back_def)
    then show ?thesis by (simp add: json_text_read w(1) starts_with_Cons)
  qed
  show ?case
  proof (cases "d = []")
    case True
    then have "json_value m (?w x @ CHR ''}'' # r) = Some (x, CHR ''}'' # r)"
      using x Cons.prems(3) bracket_end(2) by (simp add: reads_back_def n p)
    then show ?thesis using True key [of "CHR ''}'' # r"] by (simp add: n p skip_ws_head json_ws_marks)
  next
    case False
    let ?rest = "join_with sep (map ?m d) @ CHR ''}'' # r"
    have j: "join_with sep (map ?m (p # d)) = json_text k @ colon @ ?w x @ sep @ join_with sep (map ?m d)" using False by (simp add: join_Cons p)
    have "json_value m (?w x @ sep @ ?rest) = Some (x, sep @ ?rest)"
      using x Cons.prems(3) sep_end [OF sep] unfolding j by (simp add: reads_back_def n)
    moreover obtain w where w: "skip_ws (sep @ ?rest) = CHR '','' # w @ ?rest" "list_all json_ws w" using sep_skip [OF sep json_ws_marks(1)] by blast
    moreover have "value_start (json_text k @ t)" for k t by (simp add: value_start_def json_text_def json_ws_def)
    then have "value_start (join_with sep (map ?m d))" using False value_start_join by (cases d) (auto split: prod.splits)
    then have "skip_ws (w @ ?rest) = ?rest" unfolding skip_ws_all [OF w(2)] by (rule value_start_skip(1))
    moreover have "1 \<le> length sep" using sep by (auto simp: sep_ok_def)
    then have "json_members m ?rest = Some (d, r)" using Cons.IH [of m] Cons.prems False unfolding j by (simp add: n)
    ultimately show ?thesis using key [of "sep @ ?rest"] unfolding j by (simp add: n p)
  qed
qed simp

lemma json_object_distinct: "distinct (map fst d) \<Longrightarrow> json_object d = d"
proof -
  have "fold (\<lambda>(k, v). dict_set k v) d e = e @ d" if "distinct (map fst d)" "fst ` set e \<inter> fst ` set d = {}" for e
    using that
  proof (induction d arbitrary: e)
    case (Cons p d)
    obtain k v where p: "p = (k, v)" by fastforce
    have "dict_set k v e = e @ [(k, v)]" using Cons.prems(2) by (induction e) (auto simp: dict_set_def p)
    then show ?case using Cons.IH [of "e @ [(k, v)]"] Cons.prems by (auto simp: p)
  qed simp
  from this [of "[]"] show "distinct (map fst d) \<Longrightarrow> json_object d = d" by (simp add: json_object_def)
qed

lemma json_reads_back:
  assumes sep: "sep_ok CHR '','' sep" and colon: "sep_ok CHR '':'' colon"
  shows "json_plain v \<Longrightarrow> reads_back sep colon v"
proof (induction v)
  case (PList xs)
  let ?j = "join_with sep (map (json_write sep colon) xs)"
  have all: "\<forall>x \<in> set xs. reads_back sep colon x" using PList by (simp add: list_all_iff)
  have "json_value n (CHR ''['' # ?j @ CHR '']'' # r) = Some (PList xs, r)" if "2 * length ?j + 4 \<le> n" for n r
  proof (cases "xs = []")
    case True
    then show ?thesis using that by (cases n) (simp_all add: skip_ws_head json_ws_marks starts_with_Cons)
  next
    case False
    then have "value_start ?j" using all value_start_join by (cases xs) (auto simp: reads_back_def)
    then show ?thesis using that reads_items [OF sep all False, of "n - 1" r] by (cases n) (simp_all add: value_start_skip)
  qed
  then show ?case by (simp add: reads_back_def value_start_def json_ws_def)
next
  case (PDict d)
  let ?j = "join_with sep (map (\<lambda>(k, v). json_text k @ colon @ json_write sep colon v) d)"
  have all: "\<forall>(k, x) \<in> set d. reads_back sep colon x" using PDict by (fastforce simp: list_all_iff)
  have dist: "distinct (map fst d)" using PDict.prems by simp
  have "json_value n (CHR ''{'' # ?j @ CHR ''}'' # r) = Some (PDict d, r)" if "2 * length ?j + 4 \<le> n" for n r
  proof (cases "d = []")
    case True
    then show ?thesis using that by (cases n) (simp_all add: skip_ws_head json_ws_marks starts_with_Cons)
  next
    case False
    have "value_start (json_text k @ t)" for k t by (simp add: value_start_def json_text_def json_ws_def)
    then have "value_start ?j" using False value_start_join by (cases d) (auto split: prod.splits)
    then show ?thesis using that reads_members [OF sep colon all False, of "n - 1" r] json_object_distinct [OF dist]
      by (cases n) (simp_all add: value_start_skip)
  qed
  then show ?case by (simp add: reads_back_def value_start_def json_ws_def)
next
  case (PInt i)
  then have "value_start (int_str i)" using value_start_write [of "PInt i"] by simp
  moreover have "json_value n (int_str i @ r) = Some (PInt i, r)" if "json_end r" "2 * length (int_str i) \<le> n" for n r
  proof -
    obtain c cs where "int_str i = c # cs" using int_str_head by metis
    then show ?thesis using that json_value_number [of r i] PInt by (cases n) simp_all
  qed
  ultimately show ?case by (simp add: reads_back_def)
next
  case (PStr s)
  have "json_value n (json_text s @ r) = Some (PStr s, r)" if "2 * length (json_text s) \<le> n" for n r
    using that json_text_read [of s r] by (cases n) (simp_all add: json_text_def)
  then show ?case by (simp add: reads_back_def value_start_def json_text_def json_ws_def)
next
  case (PBool b)
  have t: "json_value n (CHR ''t'' # CHR ''r'' # CHR ''u'' # CHR ''e'' # r) = Some (PBool True, r)" if "8 \<le> n" for n r
    using that by (cases n) (simp_all add: json_word_def starts_with_Cons)
  have f: "json_value n (CHR ''f'' # CHR ''a'' # CHR ''l'' # CHR ''s'' # CHR ''e'' # r) = Some (PBool False, r)" if "8 \<le> n" for n r
    using that by (cases n) (simp_all add: json_word_def starts_with_Cons)
  show ?case by (cases b) (simp_all add: reads_back_def value_start_def json_ws_def t f)
next
  case PNone
  have "json_value n (''null'' @ r) = Some (PNone, r)" if "8 \<le> n" for n r
    using that by (cases n) (simp_all add: json_word_def starts_with_Cons)
  then show ?case by (simp add: reads_back_def value_start_def json_ws_def)
qed simp

lemma json_write_read:
  assumes "sep_ok CHR '','' sep" "sep_ok CHR '':'' colon" "json_plain v"
  shows "json_loads (json_write sep colon v) = Some v"
proof -
  have r: "reads_back sep colon v" by (rule json_reads_back [OF assms])
  have "skip_ws (json_write sep colon v) = json_write sep colon v"
    using value_start_skip(1) [of "json_write sep colon v" "[]"] r by (simp add: reads_back_def)
  then have "json_value (2 * length (json_write sep colon v) + 2) (skip_ws (json_write sep colon v)) = Some (v, [])"
    using r unfolding reads_back_def by (metis append_Nil2 json_end_def le_add1 list.case(1))
  then show ?thesis by (simp add: json_loads_def skip_ws_def)
qed

lemma json_dumps_loads: "json_plain v \<Longrightarrow> json_loads (json_dumps v) = Some v"
  unfolding json_dumps_def by (rule json_write_read) (simp_all add: sep_ok_def json_ws_def)

text \<open>Two values that are written alike are the same.\<close>

lemma json_write_inject:
  assumes "sep_ok CHR '','' sep" "sep_ok CHR '':'' colon" "json_plain v" "json_plain w"
  shows "json_write sep colon v = json_write sep colon w \<longleftrightarrow> v = w"
  using json_write_read [OF assms(1,2)] assms(3,4) by (metis option.inject)

section \<open>Sorted keys\<close>

lemma map_of_sorted: "distinct (map fst d) \<Longrightarrow> map_of (sort_key fst d) = map_of d"
  by (rule map_of_inject_set [THEN iffD2]) (simp_all add: distinct_map)

lemma map_of_map_snd: "map_of (map (\<lambda>(k, v). (k, f v)) d) k = map_option f (map_of d k)"
  by (induction d) auto

lemma json_sorted_plain: "json_plain v \<Longrightarrow> json_plain (json_sorted v)"
proof (induction v rule: json_sorted.induct)
  case (2 d)
  then show ?case by (auto simp: list_all_iff distinct_map comp_def split_beta inj_on_def)
qed (auto simp: list_all_iff)

lemma get_sorted: "json_plain (PDict d) \<Longrightarrow> get (dict_items (json_sorted (PDict d))) k = (case map_of d k of None \<Rightarrow> PNone | Some v \<Rightarrow> json_sorted v)"
  by (simp add: getd_def map_of_sorted map_of_map_snd comp_def split_beta split: option.split)

end
