(* ===== verification/MessageProtocol.thy ===== *)
theory MessageProtocol
  imports JsonText
begin

text \<open>
  Envelopes of messages (\<open>message_protocol.py\<close>, \<open>message_resources.py\<close>): the parts a message may have, the normal form
  every component stores and passes on, its text and its preview.
\<close>

section \<open>Resources\<close>

text \<open>What a call draws from outside: new identifiers, one for each place that may need one, the time, and the characters
  that separate names in a path on this system.\<close>

record msg_env =
  me_ids :: "nat \<Rightarrow> string"
  me_now :: string
  me_separators :: "char list"

definition RESOURCE_KINDS :: "string list" where
  "RESOURCE_KINDS = [''image'', ''video'', ''audio'', ''doc'', ''file'', ''url'']"

text \<open>\<open>urlparse\<close>, as far as it is used: the scheme, the host and the path. A host in brackets is taken to be an address when the
  brackets match.\<close>

definition url_clean :: "string \<Rightarrow> string" where
  "url_clean s = filter (\<lambda>c. c \<notin> {CHR 0x09, CHR 0x0A, CHR 0x0D}) (dropWhile (\<lambda>c. char_code c \<le> 32) s)"

definition scheme_char :: "char \<Rightarrow> bool" where
  "scheme_char c \<longleftrightarrow> (let n = char_code c in 48 \<le> n \<and> n \<le> 57 \<or> 65 \<le> n \<and> n \<le> 90 \<or> 97 \<le> n \<and> n \<le> 122 \<or> c \<in> {CHR ''+'', CHR ''-'', CHR ''.''})"

definition url_scheme :: "string \<Rightarrow> string \<times> string" where
  "url_scheme s = (let p = takeWhile (\<lambda>c. c \<noteq> CHR '':'') s in
     if length p < length s \<and> p \<noteq> [] \<and> (let n = char_code (hd p) in 65 \<le> n \<and> n \<le> 90 \<or> 97 \<le> n \<and> n \<le> 122) \<and> list_all scheme_char p
     then (py_lower p, drop (length p + 1) s) else ([], s))"

definition strip_params :: "string \<Rightarrow> string" where
  "strip_params p = (let dir = rev (dropWhile (\<lambda>c. c \<noteq> CHR ''/'') (rev p)); base = rev (takeWhile (\<lambda>c. c \<noteq> CHR ''/'') (rev p))
     in dir @ takeWhile (\<lambda>c. c \<noteq> CHR '';'') base)"

definition is_url :: "string \<Rightarrow> bool" where
  "is_url text = (let t = py_strip text; (scheme, rest) = url_scheme (url_clean t);
       has_host = starts_with ''//'' rest; r = (if has_host then drop 2 rest else rest);
       netloc = (if has_host then takeWhile (\<lambda>c. c \<notin> {CHR ''/'', CHR ''?'', CHR ''#''}) r else []);
       tail = drop (length netloc) r;
       path = takeWhile (\<lambda>c. c \<noteq> CHR ''?'') (takeWhile (\<lambda>c. c \<noteq> CHR ''#'') tail)
     in t \<noteq> [] \<and> scheme \<in> {''http'', ''https'', ''ftp'', ''file''} \<and> (CHR ''['' \<in> set netloc \<longleftrightarrow> CHR '']'' \<in> set netloc)
        \<and> (netloc \<noteq> [] \<or> (if scheme = ''file'' then path else strip_params path) \<noteq> []))"

text \<open>\<open>os.path.splitext(p)[1]\<close>\<close>

definition file_extension :: "char list \<Rightarrow> string \<Rightarrow> string" where
  "file_extension seps p = (let name = rev (takeWhile (\<lambda>c. c \<notin> set seps) (rev p)); body = dropWhile (\<lambda>c. c = CHR ''.'') name in
     if CHR ''.'' \<in> set body then CHR ''.'' # rev (takeWhile (\<lambda>c. c \<noteq> CHR ''.'') (rev body)) else [])"

definition guess_kind_from_ext :: "char list \<Rightarrow> string \<Rightarrow> string" where
  "guess_kind_from_ext seps path_or_url = (let raw = py_lower (py_strip path_or_url); ext = py_lower (file_extension seps raw) in
     if raw = [] then ''file''
     else if ext \<in> {''.png'', ''.jpg'', ''.jpeg'', ''.webp'', ''.gif'', ''.bmp'', ''.svg''} then ''image''
     else if ext \<in> {''.mp4'', ''.mov'', ''.mkv'', ''.webm'', ''.avi'', ''.flv''} then ''video''
     else if ext \<in> {''.mp3'', ''.wav'', ''.ogg'', ''.flac'', ''.m4a''} then ''audio''
     else if ext \<in> {''.pdf'', ''.doc'', ''.docx'', ''.ppt'', ''.pptx'', ''.xls'', ''.xlsx'', ''.txt'', ''.md''} then ''doc''
     else if is_url raw then ''url'' else ''file'')"

text \<open>Fields that are only there when they have a text, are not \<open>None\<close>, are a list, or are a dictionary with something in it.\<close>

definition text_entry :: "string \<Rightarrow> pyval \<Rightarrow> pydict" where
  "text_entry k v = (if text_of v = [] then [] else [(k, PStr (text_of v))])"

definition opt_entry :: "string \<Rightarrow> (pyval \<Rightarrow> pyval) \<Rightarrow> pyval \<Rightarrow> pydict" where
  "opt_entry k f v = (if is_none v then [] else [(k, f v)])"

definition list_entry :: "string \<Rightarrow> (pyval list \<Rightarrow> pyval list) \<Rightarrow> pyval \<Rightarrow> pydict" where
  "list_entry k f v = (case v of PList xs \<Rightarrow> [(k, PList (f xs))] | _ \<Rightarrow> [])"

definition dict_entry :: "string \<Rightarrow> pyval \<Rightarrow> pydict" where
  "dict_entry k v = (case v of PDict d \<Rightarrow> if d = [] then [] else [(k, PDict d)] | _ \<Rightarrow> [])"

definition as_text :: "pyval \<Rightarrow> pyval" where
  "as_text v = PStr (py_str v)"

definition as_bool :: "pyval \<Rightarrow> pyval" where
  "as_bool v = PBool (truthy v)"

definition typed_part :: "string \<Rightarrow> string \<Rightarrow> pyval \<Rightarrow> pyval" where
  "typed_part t k v = PDict [(''type'', PStr t), (k, v)]"

definition resource_kind :: "char list \<Rightarrow> pyval \<Rightarrow> string \<Rightarrow> string" where
  "resource_kind seps kind uri = (let k = py_lower (text_of kind) in if k \<in> set RESOURCE_KINDS then k else guess_kind_from_ext seps uri)"

text \<open>The resource that a dictionary describes; \<open>fresh\<close> is the identifier allocated when it has none.\<close>

definition build_resource_part :: "char list \<Rightarrow> string \<Rightarrow> pydict \<Rightarrow> pyval" where
  "build_resource_part seps fresh raw = (let uri = text_of (get raw ''uri'') in
     typed_part ''resource'' ''resource'' (PDict ([(''id'', PStr (if truthy (get raw ''id'') then py_str (get raw ''id'') else fresh)),
         (''uri'', PStr uri), (''kind'', PStr (resource_kind seps (get raw ''kind'') uri))]
       @ text_entry ''mime'' (get raw ''mime'') @ text_entry ''name'' (get raw ''name'') @ text_entry ''source'' (get raw ''source'')
       @ dict_entry ''metadata'' (get raw ''metadata''))))"

section \<open>Parts\<close>

definition build_text_part :: "pyval \<Rightarrow> pyval" where
  "build_text_part v = typed_part ''text'' ''text'' (PStr (if is_none v then [] else py_str v))"

definition tool_call_part :: "pydict \<Rightarrow> pyval" where
  "tool_call_part item = PDict ((''type'', PStr ''tool_call'') # opt_entry ''call_id'' as_text (get item ''call_id'')
     @ opt_entry ''name'' as_text (get item ''name'') @ opt_entry ''provider'' as_text (get item ''provider'')
     @ opt_entry ''status'' as_text (get item ''status'') @ opt_entry ''duration_ms'' id (get item ''duration_ms'')
     @ opt_entry ''error'' as_text (get item ''error'') @ opt_entry ''result_preview'' as_text (get item ''result_preview'')
     @ opt_entry ''result_chars'' id (get item ''result_chars'')
     @ opt_entry ''result_preview_truncated'' as_bool (get item ''result_preview_truncated'')
     @ opt_entry ''result_tail_preview'' as_text (get item ''result_tail_preview'')
     @ opt_entry ''result_tail_preview_truncated'' as_bool (get item ''result_tail_preview_truncated'')
     @ list_entry ''diagnostics'' (map as_text) (get item ''diagnostics'')
     @ list_entry ''sources'' (filter is_dict) (get item ''sources'')
     @ dict_entry ''details'' (get item ''details'')
     @ opt_entry ''args'' id (if is_none (get item ''args'') then get item ''arguments'' else get item ''args''))"

definition meta_part :: "pydict \<Rightarrow> pyval" where
  "meta_part item = typed_part ''meta'' ''meta'' (if \<not> is_none (get item ''meta'') then get item ''meta''
     else if \<not> is_none (get item ''data'') then get item ''data'' else PDict [])"

definition normalize_dict_part :: "char list \<Rightarrow> string \<Rightarrow> pydict \<Rightarrow> pyval" where
  "normalize_dict_part seps fresh item =
     (if \<not> dict_has item ''type''
      then if dict_has item ''text'' then build_text_part (get item ''text'')
        else if dict_has item ''uri'' then build_resource_part seps fresh item
        else if is_dict (get item ''resource'') then build_resource_part seps fresh (dict_items (get item ''resource''))
        else typed_part ''structured'' ''data'' (PDict item)
      else let part_type = py_lower (text_of (get item ''type'')) in
        if part_type = ''text'' then build_text_part (get item ''text'')
        else if part_type = ''resource''
          then build_resource_part seps fresh (if is_dict (get item ''resource'') then dict_items (get item ''resource'') else item)
        else if part_type = ''structured'' then typed_part ''structured'' ''data'' (get item ''data'')
        else if part_type = ''tool_call'' then tool_call_part item
        else if part_type = ''meta'' then meta_part item
        else typed_part ''structured'' ''data'' (PDict item))"

definition normalize_part :: "char list \<Rightarrow> string \<Rightarrow> pyval \<Rightarrow> pyval" where
  "normalize_part seps fresh item = (case item of PDict d \<Rightarrow> normalize_dict_part seps fresh d | _ \<Rightarrow> build_text_part item)"

section \<open>Envelopes\<close>

definition normalize_parts :: "msg_env \<Rightarrow> pyval list \<Rightarrow> pyval list" where
  "normalize_parts E items = map (\<lambda>(j, v). normalize_part (me_separators E) (me_ids E (Suc j)) v) (enumerate 0 items)"

definition role_text :: "pyval \<Rightarrow> string \<Rightarrow> string" where
  "role_text v dflt = (let r = py_lower (text_of v) in if r = [] then dflt else r)"

definition default_role_of :: "string \<Rightarrow> string" where
  "default_role_of dflt = role_text (PStr dflt) ''user''"

definition value_parts :: "msg_env \<Rightarrow> pydict \<Rightarrow> pyval list" where
  "value_parts E d = (case get d ''parts'' of
      PList ps \<Rightarrow> normalize_parts E ps
    | _ \<Rightarrow> if dict_has d ''type'' \<and> \<not> dict_has d ''parts'' \<or> list_ex (dict_has d) [''text'', ''resource'', ''uri'', ''data'']
        then normalize_parts E [PDict d]
        else case get d ''content'' of PList ps \<Rightarrow> normalize_parts E ps | c \<Rightarrow> [build_text_part c])"

definition normalize_envelope :: "msg_env \<Rightarrow> pyval \<Rightarrow> string \<Rightarrow> pydict" where
  "normalize_envelope E v default_role = (let role = default_role_of default_role in case v of
      PDict d \<Rightarrow> [(''id'', PStr (if truthy (get d ''id'') then py_str (get d ''id'') else me_ids E 0)),
          (''role'', PStr (role_text (if truthy (get d ''role'') then get d ''role'' else PStr role) role)),
          (''parts'', PList (value_parts E d)),
          (''created_at'', PStr (if truthy (get d ''created_at'') then py_str (get d ''created_at'') else me_now E))]
        @ text_entry ''trace_id'' (get d ''trace_id'')
    | _ \<Rightarrow> [(''id'', PStr (me_ids E 0)), (''role'', PStr role),
        (''parts'', PList (case v of PList ps \<Rightarrow> normalize_parts E ps | _ \<Rightarrow> [build_text_part v])), (''created_at'', PStr (me_now E))])"

section \<open>Text\<close>

datatype message_part = TextPart string | ResourcePart pydict | StructuredPart pyval | ToolCallPart pydict | MetaPart pydict

definition message_part_from_dict :: "char list \<Rightarrow> string \<Rightarrow> pydict \<Rightarrow> message_part" where
  "message_part_from_dict seps fresh part = (let normalized = dict_items (normalize_part seps fresh (PDict part));
       part_type = py_lower (text_of (get normalized ''type'')) in
     if part_type = ''text'' then TextPart (str_or (get normalized ''text''))
     else if part_type = ''resource'' then ResourcePart (dict_items (get normalized ''resource''))
     else if part_type = ''structured'' then StructuredPart (get normalized ''data'')
     else if part_type = ''tool_call'' then ToolCallPart normalized
     else MetaPart (dict_items (get normalized ''meta'')))"

definition part_to_dict :: "message_part \<Rightarrow> pyval" where
  "part_to_dict p = (case p of TextPart t \<Rightarrow> typed_part ''text'' ''text'' (PStr t)
    | ResourcePart r \<Rightarrow> typed_part ''resource'' ''resource'' (PDict r)
    | StructuredPart v \<Rightarrow> typed_part ''structured'' ''data'' v
    | ToolCallPart d \<Rightarrow> PDict d
    | MetaPart m \<Rightarrow> typed_part ''meta'' ''meta'' (PDict m))"

definition tool_call_text :: "pydict \<Rightarrow> string" where
  "tool_call_text part = (let name = (if text_of (get part ''name'') = [] then ''tool'' else text_of (get part ''name''));
       status = text_of (get part ''status''); call_id = text_of (get part ''call_id'');
       preview = text_of (get part ''result_preview''); tail_preview = text_of (get part ''result_tail_preview'');
       error = text_of (get part ''error''); truncated = truthy (get part ''result_preview_truncated'');
       label = join_with '' '' ([''Tool '' @ name] @ (if status = [] then [] else [status]) @ (if call_id = [] then [] else [''call_id='' @ call_id]));
       details = (if is_int (get part ''result_chars'') then [''result_chars='' @ py_str (get part ''result_chars'')] else [])
         @ (if truncated then [''result_preview_truncated=true''] else []);
       suffix = (if details = [] then [] else '' ('' @ join_with '', '' details @ '')'');
       body = (if error \<noteq> [] then ''error='' @ error
         else if truncated then (let ps = (if preview = [] then [] else [''result_preview(partial)='' @ preview])
               @ (if tail_preview \<noteq> [] \<and> tail_preview \<noteq> preview then [''result_tail_preview(partial)='' @ tail_preview] else [])
             in if ps = [] then ''result_preview=(unavailable)'' else join_with [CHR 0x0A] ps)
         else if preview \<noteq> [] then ''result_preview='' @ preview else ''result_preview=(empty)'')
     in label @ '': '' @ body @ suffix)"

definition part_lines :: "message_part \<Rightarrow> string list" where
  "part_lines p = (case p of
      TextPart t \<Rightarrow> [t]
    | ResourcePart r \<Rightarrow> (let uri = text_of (get r ''uri''); kind = (if truthy (get r ''kind'') then py_str (get r ''kind'') else ''file'') in
        if uri = [] then [] else [''['' @ kind @ ''] '' @ uri])
    | StructuredPart v \<Rightarrow> (if is_none v then [] else if is_dict v \<or> is_list v then [json_dumps v] else [py_str v])
    | ToolCallPart d \<Rightarrow> [tool_call_text d]
    | MetaPart m \<Rightarrow> [])"

text \<open>The typed parts of an envelope; the entries of \<open>parts\<close> that are not objects are left out.\<close>

definition envelope_parts :: "msg_env \<Rightarrow> pydict \<Rightarrow> message_part list" where
  "envelope_parts E env = map (\<lambda>(j, v). message_part_from_dict (me_separators E) (me_ids E (Suc j)) (dict_items v))
     (filter (\<lambda>(j, v). is_dict v) (enumerate 0 (list_items (get env ''parts''))))"

record message_envelope =
  env_id :: string
  env_role :: string
  env_parts :: "message_part list"
  env_created_at :: string
  env_trace_id :: string

definition envelope_from_dict :: "msg_env \<Rightarrow> pydict \<Rightarrow> message_envelope" where
  "envelope_from_dict E d = \<lparr>env_id = (if truthy (get d ''id'') then py_str (get d ''id'') else me_ids E 0),
     env_role = role_text (get d ''role'') ''user'', env_parts = envelope_parts E d,
     env_created_at = (if truthy (get d ''created_at'') then py_str (get d ''created_at'') else me_now E),
     env_trace_id = text_of (get d ''trace_id'')\<rparr>"

definition envelope_to_dict :: "message_envelope \<Rightarrow> pydict" where
  "envelope_to_dict e = [(''id'', PStr (env_id e)), (''role'', PStr (env_role e)), (''parts'', PList (map part_to_dict (env_parts e))),
     (''created_at'', PStr (env_created_at e))] @ (if env_trace_id e = [] then [] else [(''trace_id'', PStr (env_trace_id e))])"

definition envelope_text :: "msg_env \<Rightarrow> pyval \<Rightarrow> string" where
  "envelope_text E v = py_strip (join_with [CHR 0x0A] (filter (\<lambda>l. l \<noteq> [])
     (concat (map part_lines (envelope_parts E (normalize_envelope E v ''assistant''))))))"

definition envelope_preview :: "msg_env \<Rightarrow> pyval \<Rightarrow> nat \<Rightarrow> string" where
  "envelope_preview E v limit = (let t = py_strip (map (\<lambda>c. if c = CHR 0x0D \<or> c = CHR 0x0A then CHR '' '' else c) (envelope_text E v))
     in if length t \<le> limit then t else take limit t @ ''...'')"

definition build_text_envelope :: "msg_env \<Rightarrow> pyval \<Rightarrow> string \<Rightarrow> pydict" where
  "build_text_envelope E t role = normalize_envelope E (PDict [(''role'', PStr role), (''parts'', PList [build_text_part t])]) role"

definition build_resource_envelope :: "msg_env \<Rightarrow> pydict \<Rightarrow> string \<Rightarrow> pydict" where
  "build_resource_envelope E raw role = normalize_envelope E
     (PDict [(''role'', PStr role), (''parts'', PList [build_resource_part (me_separators E) (me_ids E 1) (dict_pop ''id'' raw)])]) role"

definition sanitize_event_key :: "pyval \<Rightarrow> string" where
  "sanitize_event_key v = filter (\<lambda>c. let n = char_code c in 48 \<le> n \<and> n \<le> 57 \<or> 65 \<le> n \<and> n \<le> 90 \<or> 97 \<le> n \<and> n \<le> 122
     \<or> c \<in> {CHR ''_'', CHR '':'', CHR ''-''}) (text_of v)"

end
