(* ===== verification/GraphStore.thy ===== *)
theory GraphStore
  imports MessageProtocol OutputRoutes NodeQueue
begin

text \<open>
  Where the nodes of a graph are kept (\<open>graph_runtime_registry.py\<close>, \<open>graph_node_store.py\<close>): identifiers of graphs and
  nodes, the directory of a node, the document of a graph, and which outputs are not passed on.
\<close>

section \<open>Identifiers\<close>

definition ascii_word :: "char \<Rightarrow> bool" where
  "ascii_word c \<longleftrightarrow> (let n = char_code c in 48 \<le> n \<and> n \<le> 57 \<or> 65 \<le> n \<and> n \<le> 90 \<or> 97 \<le> n \<and> n \<le> 122 \<or> c \<in> {CHR ''_'', CHR ''-''})"

definition DEFAULT_GRAPH :: string where
  "DEFAULT_GRAPH = ''default''"

definition sanitize_graph_id :: "pyval \<Rightarrow> string" where
  "sanitize_graph_id v = (let safe = filter ascii_word (text_of v) in if text_of v = [] \<or> safe = [] then DEFAULT_GRAPH else safe)"

definition path_char :: "char \<Rightarrow> char" where
  "path_char c = (if c \<in> {CHR ''<'', CHR ''>'', CHR '':'', CHR 0x22, CHR ''/'', CHR 0x5C, CHR ''|'', CHR ''?'', CHR ''*''} then CHR ''_'' else c)"

definition sanitize_node_id :: "pyval \<Rightarrow> string" where
  "sanitize_node_id v = (let safe = py_strip (map path_char (text_of v)) in if text_of v = [] \<or> safe = [] then ''node'' else safe)"

section \<open>The directories\<close>

text \<open>
  What the calls see of the file system: the graphs that have a directory, in the order of the listing; the document of a graph;
  the names in the directory of a graph in the order of the listing; and the configuration of a node, by graph and directory,
  where there is one. A configuration that cannot be read is the empty dictionary, as for the code that asks for it here. Names differ when their
  letters differ in case.
\<close>

datatype graph_document = NoDocument | BadDocument | Document pyval

record graph_world =
  gw_graphs :: "string list"
  gw_document :: "string \<Rightarrow> graph_document"
  gw_entries :: "string \<Rightarrow> string list option"
  gw_config :: "string \<Rightarrow> string \<Rightarrow> pydict option"
  gw_join :: "string \<Rightarrow> string \<Rightarrow> string"

datatype dispatch_error = GraphConfigRead string | GraphRoutes route_error | KeyMissing string | BadConfigPath | QueueFailed rt_error
  | OutputInvalid string | NoAttribute string

type_synonym 'a dispatch_res = "(dispatch_error, 'a) res"

definition read_graph_config :: "graph_world \<Rightarrow> pyval \<Rightarrow> pydict dispatch_res" where
  "read_graph_config W graph_id = (let safe = sanitize_graph_id graph_id in
     case gw_document W safe of
       NoDocument \<Rightarrow> Inr (if safe = ''default'' then [(''id'', PStr ''default''), (''name'', PStr ''default''), (''nodes'', PList []), (''output_routes'', PDict [])]
         else [])
     | BadDocument \<Rightarrow> Inl (GraphConfigRead safe)
     | Document (PDict d) \<Rightarrow> Inr d
     | Document _ \<Rightarrow> Inl (GraphConfigRead safe))"

definition canonical_id :: "pydict \<Rightarrow> string \<Rightarrow> string" where
  "canonical_id config storage = (if sanitize_node_id (get config ''node_id'') = [] then storage else sanitize_node_id (get config ''node_id''))"

definition node_candidates :: "graph_world \<Rightarrow> string \<Rightarrow> (string \<times> string) list" where
  "node_candidates W graph = (case gw_entries W graph of None \<Rightarrow> []
     | Some entries \<Rightarrow> concat (map (\<lambda>entry. case gw_config W graph entry of None \<Rightarrow> [] | Some config \<Rightarrow> [(entry, canonical_id config entry)])
         (sort (filter (\<lambda>entry. entry \<noteq> ''agents'') entries))))"

text \<open>The directory and the name of a node: the directory of that name, else the node that bears the name, else the directory that bears
  it, else the only one that does when the case of letters is ignored.\<close>

definition resolve_location :: "graph_world \<Rightarrow> string \<Rightarrow> string \<Rightarrow> string \<times> string" where
  "resolve_location W graph node = (if gw_entries W graph = None then (node, node)
     else case gw_config W graph node of Some config \<Rightarrow> (node, canonical_id config node)
     | None \<Rightarrow> (let cs = node_candidates W graph; same = (\<lambda>s. py_casefold s = py_casefold node) in
         case find (\<lambda>(s, c). c = node) cs of Some p \<Rightarrow> p
         | None \<Rightarrow> (case find (\<lambda>(s, c). s = node) cs of Some p \<Rightarrow> p
           | None \<Rightarrow> (case filter (\<lambda>(s, c). same c \<or> same s) cs of [p] \<Rightarrow> p | _ \<Rightarrow> (node, node)))))"

definition resolve_existing_node_location :: "graph_world \<Rightarrow> pyval \<Rightarrow> pyval \<Rightarrow> string \<times> string" where
  "resolve_existing_node_location W graph node = resolve_location W (sanitize_graph_id graph) (sanitize_node_id node)"

definition resolve_existing_node_id :: "graph_world \<Rightarrow> pyval \<Rightarrow> pyval \<Rightarrow> string" where
  "resolve_existing_node_id W graph node = (let c = snd (resolve_existing_node_location W graph node) in if c = [] then sanitize_node_id node else c)"

text \<open>The directory of a node inside its graph and the path of its configuration, which \<open>gw_join\<close> makes of the two names; the file is there when the directory
  has one.\<close>

definition node_storage :: "graph_world \<Rightarrow> pyval \<Rightarrow> pyval \<Rightarrow> string" where
  "node_storage W node graph = (let s = fst (resolve_existing_node_location W graph node) in if s = [] then sanitize_node_id node else s)"

definition node_config_path :: "graph_world \<Rightarrow> pyval \<Rightarrow> pyval \<Rightarrow> string" where
  "node_config_path W node graph = gw_join W (sanitize_graph_id graph) (node_storage W node graph)"

definition node_config_at :: "graph_world \<Rightarrow> pyval \<Rightarrow> pyval \<Rightarrow> pydict option" where
  "node_config_at W node graph = gw_config W (sanitize_graph_id graph) (node_storage W node graph)"

section \<open>Outputs that are not passed on\<close>

lemma size_get: "get d k = v \<Longrightarrow> v \<noteq> PNone \<Longrightarrow> size v < size (PDict d)"
  by (cases "map_of d k") (auto simp: getd_def dest!: map_of_SomeD size_dict_mem)

lemma size_part_data:
  assumes "get d ''parts'' = PList ps" "part \<in> set ps"
  shows "size (get (dict_items part) ''data'') < size (PDict d)"
proof (cases "get (dict_items part) ''data'' = PNone")
  case False
  then obtain q where "part = PDict q" by (cases part) (auto simp: getd_def)
  then have "size (get (dict_items part) ''data'') < size part" using size_get [OF refl False] by simp
  also have "\<dots> < size (PList ps)" using size_list_mem [OF assms(2)] by simp
  also have "\<dots> < size (PDict d)" using size_get [OF assms(1)] by simp
  finally show ?thesis .
qed simp

definition part_type_of :: "pyval \<Rightarrow> string" where
  "part_type_of v = py_lower (text_of (get (dict_items v) ''type''))"

text \<open>A dictionary that comes without a list of parts cannot have one when the last test asks for it.\<close>

function (sequential) looks_like_tool_call :: "pyval \<Rightarrow> bool" where
  "looks_like_tool_call (PDict d) = (case get d ''parts'' of
      PList ps \<Rightarrow> list_ex (\<lambda>part. is_dict part \<and> (part_type_of part \<in> {''tool_call'', ''function_call''}
        \<or> part_type_of part = ''structured'' \<and> is_dict (get (dict_items part) ''data'')
          \<and> looks_like_tool_call (get (dict_items part) ''data''))) ps
    | _ \<Rightarrow> py_lower (text_of (get d ''role'')) = ''tool'' \<or> part_type_of (PDict d) \<in> {''function_call'', ''tool_call''}
        \<or> \<not> is_none (get d ''tool_calls'') \<or> \<not> is_none (get d ''function_call''))"
| "looks_like_tool_call (PList xs) = list_ex looks_like_tool_call xs"
| "looks_like_tool_call v = False"
  by pat_completeness auto

termination
  by (relation "measure size") (auto intro: size_part_data [simplified] size_list_mem)

definition should_skip_propagation :: "msg_env \<Rightarrow> pyval \<Rightarrow> bool" where
  "should_skip_propagation E message = (let envelope = normalize_envelope E message ''assistant'' in
     list_items (get envelope ''parts'') = [] \<or> looks_like_tool_call (PDict envelope))"

end
