(* ===== verification/MessageDispatch.thy ===== *)
theory MessageDispatch
  imports GraphStore
begin

text \<open>
  From the output of a node to the queues of others (\<open>route_parser.py\<close>, \<open>graph_message_dispatch.py\<close>, the end of
  \<open>graph_node_execution.py\<close>, and \<open>set_node_instance_state\<close> of \<open>node_instance_runtime.py\<close>): reading an item and an output, the tasks
  along the links of a graph and to the event nodes of all graphs, sending a task, holding back what a paused node has
  produced, and releasing it. The \<open>msg_env\<close> argument of a call that normalises several values is a family, one for each
  value. What sending writes to logs is left out.
\<close>

section \<open>Items and outputs\<close>

record node_work =
  nw_message :: pydict
  nw_trace :: string
  nw_link :: string
  nw_from_port :: int
  nw_to_port :: int
  nw_source :: string
  nw_depth :: int
  nw_visited :: "string list"

definition visited_texts :: "pyval list \<Rightarrow> string list" where
  "visited_texts vs = map py_str (filter (\<lambda>v. \<not> is_none v) vs)"

definition parse_pending_node_item :: "msg_env \<Rightarrow> string \<Rightarrow> pydict \<Rightarrow> node_work" where
  "parse_pending_node_item E fresh item = \<lparr>nw_message = normalize_envelope E (get item ''payload'') ''user'',
     nw_trace = (if text_of (get item ''trace_id'') = [] then fresh else text_of (get item ''trace_id'')),
     nw_link = text_of (get item ''link_id''),
     nw_from_port = port_field (get item ''from_output_index''), nw_to_port = port_field (get item ''to_input_index''),
     nw_source = text_of (get item ''source''),
     nw_depth = (case py_int_float (py_or (get item ''depth'') (PInt 0)) of Inl _ \<Rightarrow> 0 | Inr n \<Rightarrow> n),
     nw_visited = (case get item ''visited'' of PList vs \<Rightarrow> visited_texts vs | _ \<Rightarrow> [])\<rparr>"

record node_output =
  no_text :: string
  no_message :: pydict
  no_routes :: "(int \<times> pydict) list"
  no_sidecars :: "pydict list"

fun parse_routes :: "(nat \<Rightarrow> msg_env) \<Rightarrow> nat \<Rightarrow> int set \<Rightarrow> pyval list \<Rightarrow> (int \<times> pydict) list" where
  "parse_routes E j seen [] = []"
| "parse_routes E j seen (PDict d # xs) = (case parse_port_index (get d ''output_index'') of
      None \<Rightarrow> parse_routes E (Suc j) seen xs
    | Some i \<Rightarrow> if i \<in> seen \<or> \<not> dict_has d ''payload'' then parse_routes E (Suc j) seen xs
        else (i, normalize_envelope (E j) (get d ''payload'') ''assistant'') # parse_routes E (Suc j) (insert i seen) xs)"
| "parse_routes E j seen (_ # xs) = parse_routes E (Suc j) seen xs"

definition display_payload :: "pydict \<Rightarrow> (int \<times> pydict) list \<Rightarrow> pyval" where
  "display_payload output routes = (let v = get output ''display_message''; v = (if is_none v then get output ''display'' else v) in
     if \<not> is_none v then v else case routes of [] \<Rightarrow> PStr [] | (i, env) # _ \<Rightarrow> PDict env)"

text \<open>The environments: 0 for the display, one for each route, then one for each sidecar.\<close>

definition parse_node_output :: "(nat \<Rightarrow> msg_env) \<Rightarrow> pyval \<Rightarrow> node_output dispatch_res" where
  "parse_node_output E output = (case output of
      PDict d \<Rightarrow> (case get d ''routes'' of
          PList raw \<Rightarrow> (let routes = parse_routes E 1 {} raw; message = normalize_envelope (E 0) (display_payload d routes) ''assistant'' in
            if routes = [] \<and> \<not> truthy (get d ''suppress_output'')
            then Inl (OutputInvalid ''Node output routes must contain at least one valid route item'')
            else Inr \<lparr>no_text = envelope_preview (E 0) (PDict message) 260, no_message = message, no_routes = routes,
              no_sidecars = map (\<lambda>(j, v). normalize_envelope (E (Suc (length raw + j))) v ''metadata'')
                (filter (\<lambda>(j, v). is_dict v) (enumerate 0 (list_items (get d ''memory_sidecars''))))\<rparr>)
        | _ \<Rightarrow> Inl (OutputInvalid ''Node output must include routes: list''))
    | _ \<Rightarrow> Inl (OutputInvalid ''Node output must be an object containing routes''))"

section \<open>Tasks\<close>

definition build_outgoing_routes_map :: "pydict \<Rightarrow> outgoing dispatch_res" where
  "build_outgoing_routes_map cfg = (case rbind (normalize_output_routes (get cfg ''output_routes'') None) output_routes_to_outgoing of
     Inl e \<Rightarrow> Inl (GraphRoutes e) | Inr og \<Rightarrow> Inr og)"

definition links_of :: "outgoing \<Rightarrow> string \<Rightarrow> outgoing_link list" where
  "links_of og node = (case map_of og node of None \<Rightarrow> [] | Some ls \<Rightarrow> ls)"

definition ACCESS_FIELDS :: "string list" where
  "ACCESS_FIELDS = [''_access_client_id'', ''_access_username'', ''_access_role'', ''_access_ip'']"

definition access_metadata :: "pydict \<Rightarrow> pydict" where
  "access_metadata item = concat (map (\<lambda>k. text_entry k (get item k)) ACCESS_FIELDS)"

text \<open>The links of the node by the port they leave from, in their order.\<close>

fun add_link :: "outgoing_link \<Rightarrow> (int \<times> outgoing_link list) list \<Rightarrow> (int \<times> outgoing_link list) list" where
  "add_link l [] = [(port_field (PInt (from_output_index l)), [l])]"
| "add_link l ((i, ls) # rest) = (if i = port_field (PInt (from_output_index l)) then (i, ls @ [l]) # rest else (i, ls) # add_link l rest)"

definition links_by_output_index :: "outgoing_link list \<Rightarrow> (int \<times> outgoing_link list) list" where
  "links_by_output_index ls = fold add_link ls []"

text \<open>A task along a link, when the node it leads to exists.\<close>

definition link_task :: "graph_world \<Rightarrow> string \<Rightarrow> string \<Rightarrow> int \<Rightarrow> pydict \<Rightarrow> int \<Rightarrow> pydict \<Rightarrow> outgoing_link \<Rightarrow> pydict list" where
  "link_task W graph entry depth access port payload l = (let to_id = py_strip (link_to l) in
     if to_id = [] \<or> node_config_at W (PStr to_id) (PStr graph) = None then []
     else [[(''target_graph_id'', PStr graph), (''target_cfg_path'', PStr (node_config_path W (PStr to_id) (PStr graph))), (''to_id'', PStr to_id),
        (''from_node'', PStr entry), (''route_output_index'', PInt port), (''to_input_index'', PInt (port_field (PInt (to_input_index l)))),
        (''next_depth'', PInt (depth + 1)), (''route_payload'', PDict payload), (''link_id'', PStr (py_strip (link_id l)))] @ access])"

definition route_tasks ::
    "graph_world \<Rightarrow> msg_env \<Rightarrow> string \<Rightarrow> string \<Rightarrow> int \<Rightarrow> pydict \<Rightarrow> outgoing_link list \<Rightarrow> pydict \<Rightarrow> pydict list" where
  "route_tasks W E graph entry depth access ls route = (let port = port_field (get route ''output_index'');
       payload = normalize_envelope E (get route ''payload'') ''assistant''
     in concat (map (link_task W graph entry depth access port payload) (case map_of (links_by_output_index ls) port of None \<Rightarrow> [] | Some xs \<Rightarrow> xs)))"

definition link_tasks ::
    "graph_world \<Rightarrow> (nat \<Rightarrow> msg_env) \<Rightarrow> string \<Rightarrow> string \<Rightarrow> int \<Rightarrow> pydict \<Rightarrow> outgoing \<Rightarrow> pyval list \<Rightarrow> pydict list" where
  "link_tasks W E graph entry depth access og routes =
     concat (map (\<lambda>(j, v). case v of PDict route \<Rightarrow> route_tasks W (E j) graph entry depth access (links_of og entry) route | _ \<Rightarrow> [])
       (enumerate 0 routes))"

text \<open>Event nodes: a run of an event node with a key reaches what follows the event nodes with that key in all graphs. \<open>live\<close> is
  the configuration of a node with its runtime fields, by graph and directory.\<close>

definition event_graph_ids :: "graph_world \<Rightarrow> string list" where
  "event_graph_ids W = (let ids = rev (remdups (rev (map (\<lambda>e. sanitize_graph_id (PStr e)) (gw_graphs W)))) in
     if DEFAULT_GRAPH \<in> set ids then ids else ids @ [DEFAULT_GRAPH])"

definition event_link_task ::
    "graph_world \<Rightarrow> (string \<Rightarrow> string \<Rightarrow> pydict) \<Rightarrow> string \<Rightarrow> string \<Rightarrow> string \<Rightarrow> pydict \<Rightarrow> string list \<Rightarrow> outgoing_link \<Rightarrow> pydict list" where
  "event_link_task W live key graph node payload next_visited l = (let to_id = py_strip (link_to l) in
     if to_id = [] \<or> node_config_at W (PStr to_id) (PStr graph) = None then []
     else if parse_node_state (get (live graph (node_storage W (PStr to_id) (PStr graph))) ''state'') = Stop then []
     else [[(''target_graph_id'', PStr graph), (''target_cfg_path'', PStr (node_config_path W (PStr to_id) (PStr graph))), (''to_id'', PStr to_id),
        (''from_node'', PStr node), (''route_output_index'', PInt (port_field (PInt (from_output_index l)))),
        (''to_input_index'', PInt (port_field (PInt (to_input_index l)))), (''next_depth'', PInt (max 1 (int (length next_visited)))),
        (''route_payload'', PDict payload), (''link_id'', PStr (py_strip (link_id l))),
        (''next_visited'', PList (map PStr (last_n 50 (next_visited @ [graph @ '':'' @ node])))), (''source'', PStr ''event_dispatch''),
        (''event_key'', PStr key), (''event_graph_id'', PStr graph), (''event_node_id'', PStr node)]])"

definition event_node_matches :: "(string \<Rightarrow> string \<Rightarrow> pydict) \<Rightarrow> string \<Rightarrow> string \<times> string \<Rightarrow> string \<Rightarrow> string \<Rightarrow> bool" where
  "event_node_matches live key source graph node = (let cfg = live graph node in
     node \<noteq> ''agents'' \<and> text_of (get cfg ''type_id'') = ''event_node'' \<and> text_of (get cfg ''EventKey'') = key
     \<and> (graph, node) \<noteq> source \<and> parse_node_state (get cfg ''state'') \<noteq> Stop)"

definition event_graph_tasks ::
    "graph_world \<Rightarrow> (string \<Rightarrow> string \<Rightarrow> pydict) \<Rightarrow> string \<Rightarrow> string \<times> string \<Rightarrow> pydict \<Rightarrow> string list \<Rightarrow> string \<Rightarrow> pydict list \<Rightarrow> pydict list dispatch_res" where
  "event_graph_tasks W live key source payload next_visited graph tasks =
     rbind (rbind (read_graph_config W (PStr graph)) build_outgoing_routes_map) (\<lambda>og.
     Inr (tasks @ (if og = [] then [] else
       concat (map (\<lambda>node. concat (map (event_link_task W live key graph node payload next_visited) (links_of og node)))
         (filter (\<lambda>node. gw_config W graph node \<noteq> None \<and> event_node_matches live key source graph node)
           (case gw_entries W graph of None \<Rightarrow> [] | Some es \<Rightarrow> es))))))"

definition collect_event_dispatch_tasks ::
    "graph_world \<Rightarrow> (string \<Rightarrow> string \<Rightarrow> pydict) \<Rightarrow> string \<times> string \<Rightarrow> string \<Rightarrow> pydict \<Rightarrow> string list \<Rightarrow> pydict list dispatch_res" where
  "collect_event_dispatch_tasks W live source event_key payload next_visited = (let key = py_strip event_key in
     if key = [] then Inr [] else rfold (event_graph_tasks W live key source payload next_visited) (event_graph_ids W) [])"

text \<open>All tasks of a run. Those of events get the metadata of the request in the end.\<close>

definition event_tasks ::
    "graph_world \<Rightarrow> (string \<Rightarrow> string \<Rightarrow> pydict) \<Rightarrow> (nat \<Rightarrow> msg_env) \<Rightarrow> string \<times> string \<Rightarrow> pydict \<Rightarrow> string list \<Rightarrow> pyval list \<Rightarrow> pydict list dispatch_res" where
  "event_tasks W live E source cfg next_visited routes =
     (if text_of (get cfg ''type_id'') \<noteq> ''event_node'' \<or> text_of (get cfg ''EventKey'') = [] then Inr [] else
      rfold (\<lambda>(j, v) ts. case v of
          PDict route \<Rightarrow> rbind (collect_event_dispatch_tasks W live source (text_of (get cfg ''EventKey''))
            (normalize_envelope (E j) (get route ''payload'') ''assistant'') next_visited) (\<lambda>new. Inr (ts @ new))
        | _ \<Rightarrow> Inr ts) (enumerate 0 routes) [])"

definition next_visited_of :: "string list \<Rightarrow> string \<Rightarrow> string list" where
  "next_visited_of visited entry = last_n 50 visited @ [entry]"

definition dict_update :: "pydict \<Rightarrow> pydict \<Rightarrow> pydict" where
  "dict_update new d = fold (\<lambda>(k, v). dict_set k v) new d"

definition propagation_tasks ::
    "graph_world \<Rightarrow> (string \<Rightarrow> string \<Rightarrow> pydict) \<Rightarrow> (nat \<Rightarrow> msg_env) \<Rightarrow> string \<Rightarrow> string \<Rightarrow> pydict \<Rightarrow> outgoing \<Rightarrow> pydict \<Rightarrow> node_work \<Rightarrow> pyval list
       \<Rightarrow> pydict list dispatch_res" where
  "propagation_tasks W live E graph entry cfg og item work routes = (let access = access_metadata item in
     rbind (event_tasks W live (\<lambda>j. E (length routes + j)) (graph, entry) cfg (next_visited_of (nw_visited work) entry) routes) (\<lambda>events.
     Inr (map (dict_update access) (link_tasks W E graph entry (nw_depth work) access og routes @ events))))"

section \<open>Sending\<close>

text \<open>What a call of the backend acts on: the runtime store, and the graphs whose runners it has woken, the last first.\<close>

record dispatch_state =
  ds_store :: runtime_store
  ds_woken :: "string list"

record dispatch_env =
  dp_rt :: rt_env
  dp_owner :: string

definition need :: "pydict \<Rightarrow> string \<Rightarrow> pyval dispatch_res" where
  "need d k = (case map_of d k of None \<Rightarrow> Inl (KeyMissing k) | Some v \<Rightarrow> Inr v)"

definition access_entry :: "pydict \<Rightarrow> string \<Rightarrow> pydict" where
  "access_entry task k = (case get task k of PStr s \<Rightarrow> if py_strip s = [] then [] else [(k, PStr (py_strip s))] | _ \<Rightarrow> [])"

definition from_node_of :: "string \<Rightarrow> pydict \<Rightarrow> string" where
  "from_node_of default_from task = (let s = py_strip (if truthy (get task ''from_node'') then py_str (get task ''from_node'') else default_from)
     in if s = [] then default_from else s)"

definition task_item :: "msg_env \<Rightarrow> string \<Rightarrow> string \<Rightarrow> string \<Rightarrow> string list \<Rightarrow> pydict \<Rightarrow> pydict dispatch_res" where
  "task_item E owner default_from trace next_visited task =
     rbind (need task ''route_payload'') (\<lambda>payload. rbind (need task ''next_depth'') (\<lambda>depth.
     rbind (need task ''route_output_index'') (\<lambda>out. rbind (need task ''to_input_index'') (\<lambda>inp.
     Inr ([(''payload'', PDict (normalize_envelope E payload ''assistant'')), (''trace_id'', PStr trace), (''depth'', depth),
         (''visited'', PList (map PStr (case get task ''next_visited'' of PList vs \<Rightarrow> last_n 50 (visited_texts vs) | _ \<Rightarrow> next_visited))),
         (''from'', PStr (from_node_of default_from task)), (''from_output_index'', out), (''to_input_index'', inp),
         (''source'', PStr (if truthy (get task ''source'') then py_str (get task ''source'') else ''propagate'')),
         (''_runtime_owner_id'', PStr owner)]
       @ concat (map (access_entry task) ACCESS_FIELDS)
       @ (if str_or (get task ''link_id'') = [] then [] else [(''link_id'', PStr (str_or (get task ''link_id'')))]))))))"

definition task_path :: "pydict \<Rightarrow> string dispatch_res" where
  "task_path task = rbind (need task ''target_cfg_path'') (\<lambda>v. case v of PStr s \<Rightarrow> Inr s | _ \<Rightarrow> if truthy v then Inl BadConfigPath else Inr [])"

definition task_graph :: "string \<Rightarrow> pydict \<Rightarrow> string" where
  "task_graph graph task = sanitize_graph_id (if truthy (get task ''target_graph_id'') then get task ''target_graph_id'' else PStr graph)"

text \<open>The state after sending a task, and the exception that escapes: \<open>to_id\<close> is only read for the log, after the item was queued.\<close>

definition enqueue_graph_task ::
    "msg_env \<Rightarrow> dispatch_env \<Rightarrow> string \<Rightarrow> string \<Rightarrow> string \<Rightarrow> string list \<Rightarrow> pydict \<Rightarrow> dispatch_state \<Rightarrow> dispatch_state \<times> dispatch_error option" where
  "enqueue_graph_task E D graph default_from trace next_visited task s =
     (case rbind (task_item E (dp_owner D) default_from trace next_visited task) (\<lambda>item. rbind (task_path task) (\<lambda>path.
        case node_op (dp_rt D) path (AppendPending (PDict item)) (ds_store s) of Inl e \<Rightarrow> Inl (QueueFailed e) | Inr (st, _) \<Rightarrow> Inr st)) of
      Inl e \<Rightarrow> (s, Some e)
    | Inr st \<Rightarrow> (s\<lparr>ds_store := st, ds_woken := task_graph graph task # ds_woken s\<rparr>, if dict_has task ''to_id'' then None else Some (KeyMissing ''to_id'')))"

fun enqueue_graph_tasks ::
    "(nat \<Rightarrow> msg_env) \<Rightarrow> dispatch_env \<Rightarrow> string \<Rightarrow> string \<Rightarrow> string \<Rightarrow> string list \<Rightarrow> nat \<Rightarrow> pyval list \<Rightarrow> dispatch_state
       \<Rightarrow> dispatch_state \<times> nat dispatch_res" where
  "enqueue_graph_tasks E D graph default_from trace next_visited n [] s = (s, Inr n)"
| "enqueue_graph_tasks E D graph default_from trace next_visited n (v # vs) s = (case v of
      PDict task \<Rightarrow> (case enqueue_graph_task (E n) D graph default_from trace next_visited task s of
          (s', Some e) \<Rightarrow> (s', Inl e)
        | (s', None) \<Rightarrow> enqueue_graph_tasks E D graph default_from trace next_visited (Suc n) vs s')
    | _ \<Rightarrow> enqueue_graph_tasks E D graph default_from trace next_visited n vs s)"

section \<open>Holding back and releasing\<close>

definition held_output :: "string \<Rightarrow> string \<Rightarrow> string list \<Rightarrow> pydict list \<Rightarrow> pyval" where
  "held_output trace entry next_visited tasks = PDict [(''trace_id'', PStr trace), (''from_node'', PStr entry),
     (''next_visited'', PList (map PStr next_visited)), (''tasks'', PList (map PDict tasks))]"

text \<open>Several tasks are sent by a pool of threads, each with one atomic step on a queue, so in some order; \<open>order\<close> lists
  the positions. Their exceptions are only logged; that of a single task escapes.\<close>

definition send_tasks ::
    "(nat \<Rightarrow> msg_env) \<Rightarrow> dispatch_env \<Rightarrow> string \<Rightarrow> string \<Rightarrow> string \<Rightarrow> string list \<Rightarrow> nat list \<Rightarrow> pydict list \<Rightarrow> dispatch_state
       \<Rightarrow> dispatch_state \<times> dispatch_error option" where
  "send_tasks E D graph entry trace next_visited order tasks s = (case tasks of
      [task] \<Rightarrow> enqueue_graph_task (E 0) D graph entry trace next_visited task s
    | _ \<Rightarrow> (fold (\<lambda>j s. fst (enqueue_graph_task (E j) D graph entry trace next_visited (tasks ! j) s)) order s, None))"

text \<open>The end of a run on the node with configuration file \<open>path\<close>. When the node has been stopped, the code asks its host for
  \<open>_set_node_config_last_message\<close>, which is a function of the module and no attribute of any object.\<close>

definition finish_run ::
    "(nat \<Rightarrow> msg_env) \<Rightarrow> dispatch_env \<Rightarrow> string \<Rightarrow> string \<Rightarrow> string \<Rightarrow> string \<Rightarrow> string list \<Rightarrow> nat list \<Rightarrow> pydict list \<Rightarrow> dispatch_state
       \<Rightarrow> dispatch_state \<times> dispatch_error option" where
  "finish_run E D path graph entry trace next_visited order tasks s =
     (case node_op (dp_rt D) path (CompleteWork (if tasks = [] then PDict [] else held_output trace entry next_visited tasks)) (ds_store s) of
      Inl e \<Rightarrow> (s, Some (QueueFailed e))
    | Inr (st, r) \<Rightarrow> (let s' = s\<lparr>ds_store := st\<rparr> in
        if tasks = [] then (s', None)
        else if hd (list_items r) = PStr ''stop'' then (s', Some (NoAttribute ''_set_node_config_last_message''))
        else case send_tasks E D graph entry trace next_visited order tasks s' of
            (t, Some e) \<Rightarrow> (t, Some e)
          | (t, None) \<Rightarrow> (t\<lparr>ds_woken := graph # ds_woken t\<rparr>, None)))"

datatype state_error = StateHttp nat | StateFailed dispatch_error

text \<open>One released group; the number of tasks sent so far is carried along.\<close>

definition release_group ::
    "(nat \<Rightarrow> msg_env) \<Rightarrow> dispatch_env \<Rightarrow> string \<Rightarrow> string \<Rightarrow> pydict \<Rightarrow> nat \<Rightarrow> dispatch_state \<Rightarrow> dispatch_state \<times> nat dispatch_res" where
  "release_group E D graph node held n s = (case get held ''tasks'' of
      PList tasks \<Rightarrow>
        (let from_node = from_node_of node held;
             next_visited = (case get held ''next_visited'' of PList vs \<Rightarrow> last_n 50 (visited_texts vs) | _ \<Rightarrow> [node])
         in case enqueue_graph_tasks (\<lambda>j. E (n + j)) D graph from_node (text_of (get held ''trace_id'')) next_visited 0 tasks s of
             (s', Inl e) \<Rightarrow> (s', Inl e) | (s', Inr m) \<Rightarrow> (s', Inr (n + m)))
    | _ \<Rightarrow> (s, Inr n))"

fun release_groups ::
    "(nat \<Rightarrow> msg_env) \<Rightarrow> dispatch_env \<Rightarrow> string \<Rightarrow> string \<Rightarrow> nat \<Rightarrow> pyval list \<Rightarrow> dispatch_state \<Rightarrow> dispatch_state \<times> nat dispatch_res" where
  "release_groups E D graph node n [] s = (s, Inr n)"
| "release_groups E D graph node n (g # gs) s = (case release_group E D graph node (dict_items g) n s of
      (s', Inl e) \<Rightarrow> (s', Inl e)
    | (s', Inr m) \<Rightarrow> release_groups E D graph node m gs s')"

text \<open>The state that was set and how many tasks were released. \<open>exists\<close> tells whether the node has a configuration.\<close>

definition set_node_instance_state ::
    "(nat \<Rightarrow> msg_env) \<Rightarrow> dispatch_env \<Rightarrow> string \<Rightarrow> string \<Rightarrow> string \<Rightarrow> bool \<Rightarrow> pyval \<Rightarrow> dispatch_state
       \<Rightarrow> dispatch_state \<times> (state_error, node_state \<times> nat \<times> nat) res" where
  "set_node_instance_state E D path graph node exists state s =
     (if path = [] \<or> \<not> exists then (s, Inl (StateHttp 404))
      else if delete_requested (item_of (ds_store s) (env_key (dp_rt D) path)) then (s, Inl (StateHttp 409))
      else let mapped = parse_node_state state in
        if mapped \<noteq> Idle
        then (case node_op (dp_rt D) path (UpdateState (PStr (state_str mapped))) (ds_store s) of
            Inl e \<Rightarrow> (s, Inl (StateFailed (QueueFailed e)))
          | Inr (st, _) \<Rightarrow> (s\<lparr>ds_store := st\<rparr>, Inr (mapped, 0, 0)))
        else (case node_op (dp_rt D) path Resume (ds_store s) of
            Inl e \<Rightarrow> (s, Inl (StateFailed (QueueFailed e)))
          | Inr (st, released) \<Rightarrow> (case release_groups E D graph node 0 (list_items released) (s\<lparr>ds_store := st\<rparr>) of
                (t, Inl e) \<Rightarrow> (t, Inl (StateFailed e))
              | (t, Inr n) \<Rightarrow> (t\<lparr>ds_woken := graph # ds_woken t\<rparr>, Inr (mapped, length (list_items released), n)))))"

end
