(* ===== verification/MessageLaws.thy ===== *)
theory MessageLaws
  imports MessageProtocol
begin

text \<open>
  A normalised envelope is normal: whoever normalises it again, with whatever role by default, gets it back with its
  identity, so passing it on through several components changes nothing.
\<close>

section \<open>Texts\<close>

lemmas strip_lower [simp] = py_strip_lower

lemma text_of_str [simp]: "text_of (PStr s) = py_strip s"
  by (simp add: text_of_def str_or_def)

lemma truthy_text: "truthy v \<Longrightarrow> py_str v \<noteq> []"
proof (cases v)
  case (PInt i)
  then show ?thesis by (auto simp: int_str_def nat_str_nonempty)
next
  case (PFloat f)
  then show ?thesis by (cases f) (auto simp: float_layout_def Let_def split: prod.splits)
qed (auto simp: str_repr_def)

definition role_ok :: "string \<Rightarrow> bool" where
  "role_ok r \<longleftrightarrow> r \<noteq> [] \<and> py_lower (py_strip r) = r"

lemma role_text_ok: "role_ok d \<Longrightarrow> role_ok (role_text v d)"
  by (auto simp: role_ok_def role_text_def Let_def text_of_def)

lemma role_text_normal: "role_ok r \<Longrightarrow> role_text (PStr r) d = r"
  by (simp add: role_ok_def role_text_def Let_def)

lemma default_role_ok: "role_ok (default_role_of r)"
  unfolding default_role_of_def by (rule role_text_ok) (simp add: role_ok_def strip_eval py_lower_def lower_char_def)

section \<open>Entries\<close>

lemma map_of_opt_entry: "map_of (opt_entry k f v) k' = (if k' = k \<and> \<not> is_none v then Some (f v) else None)"
  by (simp add: opt_entry_def)

lemma map_of_text_entry: "map_of (text_entry k v) k' = (if k' = k \<and> text_of v \<noteq> [] then Some (PStr (text_of v)) else None)"
  by (simp add: text_entry_def)

lemma opt_entry_again [simp]:
  "opt_entry k as_text (if is_none v then PNone else as_text v) = opt_entry k as_text v"
  "opt_entry k as_bool (if is_none v then PNone else as_bool v) = opt_entry k as_bool v"
  "opt_entry k id (if is_none v then PNone else v) = opt_entry k id v"
  by (simp_all add: opt_entry_def as_text_def as_bool_def)

lemma text_entry_again [simp]: "text_entry k (if text_of v = [] then PNone else PStr (text_of v)) = text_entry k v"
  by (simp add: text_entry_def text_of_def str_or_def)

lemma map_of_list_entry: "map_of (list_entry k f v) k' = (if k' = k \<and> is_list v then Some (PList (f (list_items v))) else None)"
  by (cases v) (simp_all add: list_entry_def)

lemma map_of_dict_entry: "map_of (dict_entry k v) k' = (if k' = k \<and> is_dict v \<and> truthy v then Some v else None)"
  by (cases v) (simp_all add: dict_entry_def)

lemma list_entry_again [simp]: "(\<And>xs. f (f xs) = f xs) \<Longrightarrow> list_entry k f (if is_list v then PList (f (list_items v)) else PNone) = list_entry k f v"
  by (cases v) (simp_all add: list_entry_def)

lemma dict_entry_again [simp]: "dict_entry k (if is_dict v \<and> truthy v then v else PNone) = dict_entry k v"
  by (cases v) (simp_all add: dict_entry_def)

lemma get_opt [simp]:
  "getd (opt_entry k f v @ d) k' w = (if k' = k \<and> \<not> is_none v then f v else getd d k' w)"
  "getd (text_entry k v @ d) k' w = (if k' = k \<and> text_of v \<noteq> [] then PStr (text_of v) else getd d k' w)"
  "getd (list_entry k h v @ d) k' w = (if k' = k \<and> is_list v then PList (h (list_items v)) else getd d k' w)"
  "getd (dict_entry k v @ d) k' w = (if k' = k \<and> is_dict v \<and> truthy v then v else getd d k' w)"
  "getd (dict_entry k v) k' w = (if k' = k \<and> is_dict v \<and> truthy v then v else w)"
  "getd ((k, u) # d) k' w = (if k' = k then u else getd d k' w)" "getd [] k' w = w"
  "getd (text_entry k v) k' w = (if k' = k \<and> text_of v \<noteq> [] then PStr (text_of v) else w)"
  "getd (opt_entry k f v) k' w = (if k' = k \<and> \<not> is_none v then f v else w)"
  by (auto simp: getd_def map_add_def map_of_opt_entry map_of_text_entry map_of_list_entry map_of_dict_entry)

section \<open>Parts\<close>

lemma guess_kind: "guess_kind_from_ext seps p \<in> set RESOURCE_KINDS"
  by (simp add: guess_kind_from_ext_def Let_def RESOURCE_KINDS_def)

lemma resource_kind_in: "resource_kind seps kind uri \<in> set RESOURCE_KINDS"
  using guess_kind by (simp add: resource_kind_def Let_def)

lemma resource_kind_again: "k \<in> set RESOURCE_KINDS \<Longrightarrow> resource_kind seps (PStr k) uri = k"
  by (auto simp: resource_kind_def RESOURCE_KINDS_def Let_def strip_eval py_lower_def lower_char_def)

lemma resource_again:
  assumes "fresh \<noteq> []" "build_resource_part seps fresh raw = typed_part ''resource'' ''resource'' (PDict r)"
  shows "build_resource_part seps' fresh' r = typed_part ''resource'' ''resource'' (PDict r)"
proof -
  let ?id = "if truthy (get raw ''id'') then py_str (get raw ''id'') else fresh"
  let ?uri = "text_of (get raw ''uri'')"
  let ?meta = "dict_entry ''metadata'' (get raw ''metadata'')"
  let ?kind = "resource_kind seps (get raw ''kind'') ?uri"
  have r: "r = [(''id'', PStr ?id), (''uri'', PStr ?uri), (''kind'', PStr ?kind)] @ text_entry ''mime'' (get raw ''mime'')
      @ text_entry ''name'' (get raw ''name'') @ text_entry ''source'' (get raw ''source'') @ ?meta"
    using assms(2) by (simp add: build_resource_part_def typed_part_def Let_def)
  have i: "?id \<noteq> []" using assms(1) truthy_text by auto
  have u: "py_strip ?uri = ?uri" by (simp add: text_of_def)
  have g: "get r ''id'' = PStr ?id" "get r ''uri'' = PStr ?uri" "get r ''kind'' = PStr ?kind"
    "get r ''mime'' = (if text_of (get raw ''mime'') = [] then PNone else PStr (text_of (get raw ''mime'')))"
    "get r ''name'' = (if text_of (get raw ''name'') = [] then PNone else PStr (text_of (get raw ''name'')))"
    "get r ''source'' = (if text_of (get raw ''source'') = [] then PNone else PStr (text_of (get raw ''source'')))"
    "get r ''metadata'' = (if is_dict (get raw ''metadata'') \<and> truthy (get raw ''metadata'') then get raw ''metadata'' else PNone)"
    unfolding r by simp_all
  show ?thesis unfolding build_resource_part_def g text_entry_again dict_entry_again
    using i u resource_kind_again [OF resource_kind_in] by (subst r) (simp add: Let_def)
qed

lemma as_text_again [simp]: "as_text (as_text v) = as_text v" "map as_text (map as_text vs) = map as_text vs"
  by (simp_all add: as_text_def)

lemma tool_call_again:
  assumes "tool_call_part item = PDict d"
  shows "tool_call_part d = PDict d"
proof -
  let ?args = "if is_none (get item ''args'') then get item ''arguments'' else get item ''args''"
  note d = assms [unfolded tool_call_part_def, symmetric, simplified pyval.inject]
  have g: "get d ''call_id'' = (if is_none (get item ''call_id'') then PNone else as_text (get item ''call_id''))"
    "get d ''name'' = (if is_none (get item ''name'') then PNone else as_text (get item ''name''))"
    "get d ''provider'' = (if is_none (get item ''provider'') then PNone else as_text (get item ''provider''))"
    "get d ''status'' = (if is_none (get item ''status'') then PNone else as_text (get item ''status''))"
    "get d ''duration_ms'' = (if is_none (get item ''duration_ms'') then PNone else get item ''duration_ms'')"
    "get d ''error'' = (if is_none (get item ''error'') then PNone else as_text (get item ''error''))"
    "get d ''result_preview'' = (if is_none (get item ''result_preview'') then PNone else as_text (get item ''result_preview''))"
    "get d ''result_chars'' = (if is_none (get item ''result_chars'') then PNone else get item ''result_chars'')"
    "get d ''result_preview_truncated'' = (if is_none (get item ''result_preview_truncated'') then PNone else as_bool (get item ''result_preview_truncated''))"
    "get d ''result_tail_preview'' = (if is_none (get item ''result_tail_preview'') then PNone else as_text (get item ''result_tail_preview''))"
    "get d ''result_tail_preview_truncated'' = (if is_none (get item ''result_tail_preview_truncated'') then PNone else as_bool (get item ''result_tail_preview_truncated''))"
    "get d ''diagnostics'' = (if is_list (get item ''diagnostics'') then PList (map as_text (list_items (get item ''diagnostics''))) else PNone)"
    "get d ''sources'' = (if is_list (get item ''sources'') then PList (filter is_dict (list_items (get item ''sources''))) else PNone)"
    "get d ''details'' = (if is_dict (get item ''details'') \<and> truthy (get item ''details'') then get item ''details'' else PNone)"
    unfolding d by simp_all
  have a: "(if is_none (get d ''args'') then get d ''arguments'' else get d ''args'') = (if is_none ?args then PNone else ?args)"
    unfolding d by simp
  show ?thesis unfolding tool_call_part_def g a by (subst d) simp
qed

text \<open>The shapes of a normalised part.\<close>

lemma part_type_eval: "py_lower (text_of (PStr ''text'')) = ''text''" "py_lower (text_of (PStr ''resource'')) = ''resource''"
  "py_lower (text_of (PStr ''structured'')) = ''structured''" "py_lower (text_of (PStr ''tool_call'')) = ''tool_call''"
  "py_lower (text_of (PStr ''meta'')) = ''meta''"
  by (simp_all add: strip_eval py_lower_def lower_char_def)

lemma typed_normal:
  "normalize_part seps fresh (typed_part ''text'' ''text'' (PStr s)) = typed_part ''text'' ''text'' (PStr s)"
  "normalize_part seps fresh (typed_part ''resource'' ''resource'' (PDict r)) = build_resource_part seps fresh r"
  "normalize_part seps fresh (typed_part ''structured'' ''data'' v) = typed_part ''structured'' ''data'' v"
  "\<not> is_none v \<Longrightarrow> normalize_part seps fresh (typed_part ''meta'' ''meta'' v) = typed_part ''meta'' ''meta'' v"
  by (simp_all add: typed_part_def normalize_part_def normalize_dict_part_def dict_has_def part_type_eval Let_def build_text_part_def meta_part_def
      del: text_of_str)

lemma build_text_normal: "normalize_part seps fresh (build_text_part v) = build_text_part v"
  by (simp add: build_text_part_def typed_normal)

lemma build_resource_normal: "fresh \<noteq> [] \<Longrightarrow> normalize_part seps' fresh' (build_resource_part seps fresh raw) = build_resource_part seps fresh raw"
proof -
  assume f: "fresh \<noteq> []"
  obtain r where r: "build_resource_part seps fresh raw = typed_part ''resource'' ''resource'' (PDict r)"
    by (simp add: build_resource_part_def Let_def)
  then show ?thesis using resource_again [OF f r] by (simp add: typed_normal)
qed

lemma tool_call_normal: "normalize_part seps fresh (tool_call_part item) = tool_call_part item"
proof -
  obtain d where d: "tool_call_part item = PDict d" "dict_has d ''type''" "get d ''type'' = PStr ''tool_call''"
    by (simp add: tool_call_part_def dict_has_def)
  then show ?thesis using tool_call_again [OF d(1)]
    by (simp add: normalize_part_def normalize_dict_part_def part_type_eval Let_def del: text_of_str)
qed

lemma meta_normal: "normalize_part seps fresh (meta_part item) = meta_part item"
  by (simp add: meta_part_def typed_normal)

lemma normalize_part_again: "fresh \<noteq> [] \<Longrightarrow> normalize_part seps' fresh' (normalize_part seps fresh v) = normalize_part seps fresh v"
proof (cases v)
  case (PDict d)
  assume "fresh \<noteq> []"
  then have "normalize_part seps' fresh' (normalize_dict_part seps fresh d) = normalize_dict_part seps fresh d"
    by (simp add: normalize_dict_part_def Let_def build_text_normal build_resource_normal typed_normal tool_call_normal meta_normal)
  then show ?thesis by (simp only: PDict normalize_part_def pyval.case)
qed (simp_all only: normalize_part_def [of seps fresh] pyval.case build_text_normal)

section \<open>Envelopes\<close>

definition part_normal :: "pyval \<Rightarrow> bool" where
  "part_normal p \<longleftrightarrow> (\<forall>seps fresh. normalize_part seps fresh p = p)"

lemma normalize_parts_normal:
  assumes "\<forall>j. me_ids E j \<noteq> []"
  shows "\<forall>p \<in> set (normalize_parts E ps). part_normal p"
  using assms normalize_part_again by (auto simp: normalize_parts_def part_normal_def)

lemma normal_parts_kept: "\<forall>p \<in> set ps. part_normal p \<Longrightarrow> normalize_parts E ps = ps"
  unfolding normalize_parts_def by (rule nth_equalityI) (simp_all add: part_normal_def enumerate_eq_zip)

lemma text_part_normal: "part_normal (build_text_part v)"
  by (simp add: part_normal_def build_text_normal)

lemma value_parts_normal:
  assumes "\<forall>j. me_ids E j \<noteq> []"
  shows "\<forall>p \<in> set (value_parts E d). part_normal p"
  using normalize_parts_normal [OF assms] text_part_normal by (simp add: value_parts_def split: pyval.splits)

text \<open>An envelope in normal form.\<close>

definition envelope_ok :: "pydict \<Rightarrow> bool" where
  "envelope_ok e \<longleftrightarrow> (\<exists>i r ps t tr. e = [(''id'', PStr i), (''role'', PStr r), (''parts'', PList ps), (''created_at'', PStr t)] @ text_entry ''trace_id'' tr
     \<and> i \<noteq> [] \<and> role_ok r \<and> (\<forall>p \<in> set ps. part_normal p) \<and> t \<noteq> [])"

lemma envelope_okI:
  "i \<noteq> [] \<Longrightarrow> role_ok r \<Longrightarrow> \<forall>p \<in> set ps. part_normal p \<Longrightarrow> t \<noteq> []
   \<Longrightarrow> envelope_ok ([(''id'', PStr i), (''role'', PStr r), (''parts'', PList ps), (''created_at'', PStr t)] @ text_entry ''trace_id'' tr)"
  unfolding envelope_ok_def by blast

lemma text_entry_text: "text_entry k (PStr (text_of v)) = text_entry k v" "text_of v = [] \<Longrightarrow> text_entry k v = []" "text_entry k PNone = []"
  by (simp_all add: text_entry_def text_of_def str_or_def)

lemma envelope_ok_normal: "envelope_ok e \<Longrightarrow> normalize_envelope E (PDict e) r = e"
  unfolding envelope_ok_def
  by (elim exE conjE) (simp add: normalize_envelope_def Let_def value_parts_def normal_parts_kept role_text_normal role_ok_def text_entry_text
      del: text_of_str)

lemma normalize_envelope_ok:
  assumes "\<forall>j. me_ids E j \<noteq> []" "me_now E \<noteq> []"
  shows "envelope_ok (normalize_envelope E v r)"
proof -
  let ?ps = "case v of PList ps \<Rightarrow> normalize_parts E ps | _ \<Rightarrow> [build_text_part v]"
  have ps: "\<forall>p \<in> set ?ps. part_normal p" using normalize_parts_normal [OF assms(1)] text_part_normal by (simp split: pyval.splits)
  have plain: "envelope_ok ([(''id'', PStr (me_ids E 0)), (''role'', PStr (default_role_of r)), (''parts'', PList ?ps), (''created_at'', PStr (me_now E))]
      @ text_entry ''trace_id'' PNone)" by (rule envelope_okI) (use assms default_role_ok ps in simp_all)
  show ?thesis
  proof (cases v)
    case (PDict d)
    show ?thesis unfolding normalize_envelope_def Let_def PDict pyval.case
      by (rule envelope_okI) (use assms truthy_text value_parts_normal [OF assms(1)] role_text_ok [OF default_role_ok] in simp_all)
  qed (use plain in \<open>simp_all add: normalize_envelope_def Let_def text_entry_text\<close>)
qed

text \<open>As typed objects: a message that is turned into an object and back is its envelope. A part \<open>meta\<close> must hold a dictionary;
  the class replaces anything else by an empty one.\<close>

definition meta_held :: "pyval \<Rightarrow> bool" where
  "meta_held p \<longleftrightarrow> (\<forall>v. p = typed_part ''meta'' ''meta'' v \<longrightarrow> is_dict v)"

definition part_shape :: "pyval \<Rightarrow> bool" where
  "part_shape p \<longleftrightarrow> (\<exists>s. p = typed_part ''text'' ''text'' (PStr s)) \<or> (\<exists>r. p = typed_part ''resource'' ''resource'' (PDict r))
     \<or> (\<exists>v. p = typed_part ''structured'' ''data'' v) \<or> (\<exists>d. p = tool_call_part d) \<or> (\<exists>v. p = typed_part ''meta'' ''meta'' v)"

lemma part_shapeI: "part_shape (build_text_part v)" "part_shape (build_resource_part seps fresh raw)"
  "part_shape (typed_part ''structured'' ''data'' v)" "part_shape (tool_call_part d)" "part_shape (meta_part d)"
  by (auto simp: part_shape_def build_text_part_def build_resource_part_def meta_part_def Let_def)

lemma part_normal_cases:
  assumes "part_normal p"
  obtains s where "p = typed_part ''text'' ''text'' (PStr s)" | r where "p = typed_part ''resource'' ''resource'' (PDict r)"
    | v where "p = typed_part ''structured'' ''data'' v" | d where "p = tool_call_part d" | v where "p = typed_part ''meta'' ''meta'' v"
proof -
  have "part_shape (normalize_part [] [] p)"
    by (cases p) (simp_all add: normalize_part_def normalize_dict_part_def Let_def part_shapeI)
  then show thesis using that assms unfolding part_normal_def part_shape_def by metis
qed

lemma part_object:
  assumes "part_normal p" "meta_held p"
  shows "is_dict p" "part_to_dict (message_part_from_dict seps fresh (dict_items p)) = p"
proof -
  have n: "normalize_part seps fresh p = p" using assms(1) by (simp add: part_normal_def)
  note ev = part_to_dict_def message_part_from_dict_def Let_def part_type_eval
  from assms(1) have "is_dict p \<and> part_to_dict (message_part_from_dict seps fresh (dict_items p)) = p"
  proof (cases rule: part_normal_cases)
    case (4 d)
    obtain q where q: "tool_call_part d = PDict q" "get q ''type'' = PStr ''tool_call''" by (simp add: tool_call_part_def)
    show ?thesis using n by (simp add: ev 4 q del: text_of_str)
  next
    case (5 v)
    obtain m where "v = PDict m" using assms(2) 5 by (cases v) (auto simp: meta_held_def)
    then show ?thesis using n by (simp add: ev 5 typed_part_def del: text_of_str)
  qed (use n in \<open>simp_all add: ev typed_part_def str_or_def del: text_of_str\<close>)
  then show "is_dict p" "part_to_dict (message_part_from_dict seps fresh (dict_items p)) = p" by blast+
qed

lemma parts_object:
  assumes "\<forall>p \<in> set ps. part_normal p \<and> meta_held p" "get e ''parts'' = PList ps"
  shows "map part_to_dict (envelope_parts E e) = ps"
proof -
  have "filter (\<lambda>(j, v). is_dict v) (enumerate 0 ps) = enumerate 0 ps"
    using assms(1) part_object(1) by (intro filter_True) (auto simp: in_set_enumerate_eq)
  then show ?thesis using assms(1) part_object(2) unfolding envelope_parts_def assms(2)
    by (intro nth_equalityI) (simp_all add: enumerate_eq_zip)
qed

lemma envelope_object_roundtrip:
  assumes "envelope_ok e" "\<forall>p \<in> set (list_items (get e ''parts'')). meta_held p"
  shows "envelope_to_dict (envelope_from_dict E e) = e"
proof -
  obtain i r ps t tr where e: "e = [(''id'', PStr i), (''role'', PStr r), (''parts'', PList ps), (''created_at'', PStr t)] @ text_entry ''trace_id'' tr"
    and ok: "i \<noteq> []" "role_ok r" "\<forall>p \<in> set ps. part_normal p" "t \<noteq> []"
    using assms(1) by (auto simp: envelope_ok_def)
  have g: "get e ''parts'' = PList ps" "get e ''id'' = PStr i" "get e ''role'' = PStr r" "get e ''created_at'' = PStr t"
    "get e ''trace_id'' = (if text_of tr = [] then PNone else PStr (text_of tr))" by (simp_all add: e)
  have ps: "map part_to_dict (envelope_parts E e) = ps" using parts_object [OF _ g(1)] ok(3) assms(2) g(1) by simp
  have tt: "text_of (get e ''trace_id'') = text_of tr" unfolding g(5) by (simp add: text_of_def str_or_def)
  show ?thesis unfolding envelope_to_dict_def envelope_from_dict_def
    by (simp add: ps tt g(2-4) role_text_normal ok truthy.simps del: text_of_str) (simp add: e text_entry_def)
qed

text \<open>C38. Whatever value a message is made of, its envelope is normal: normalising it again, with any default role, at any time and
  with any new identifiers, gives it back, so a message keeps its identity, its parts and its resources through every
  component that normalises it.\<close>

theorem normal_envelope_fixpoint:
  assumes "\<forall>j. me_ids E j \<noteq> []" "me_now E \<noteq> []"
  shows "normalize_envelope E' (PDict (normalize_envelope E v r)) r' = normalize_envelope E v r"
  by (rule envelope_ok_normal [OF normalize_envelope_ok [OF assms]])

definition sample_msg_env :: msg_env where
  "sample_msg_env = \<lparr>me_ids = (\<lambda>j. ''i'' @ nat_str j), me_now = ''2026-01-01 00:00:00.000000'', me_separators = ''/''\<rparr>"

lemma normal_envelope_fixpoint_witness:
  "normalize_envelope sample_msg_env (PDict (normalize_envelope sample_msg_env (PStr ''hello'') ''user'')) ''assistant''
     = normalize_envelope sample_msg_env (PStr ''hello'') ''user''"
  by (rule normal_envelope_fixpoint) (simp_all add: sample_msg_env_def)

end
