(* ===== verification/DispatchLaws.thy ===== *)
theory DispatchLaws
  imports MessageDispatch MessageLaws QueueLaws
begin

text \<open>
  What becomes of the output of a node: the tasks are the wires of the graph, a task that is sent is read back as it was, sending in any
  order appends each queue its items, and what a paused node has produced is sent when it goes on, unless a target is being
  deleted.
\<close>

section \<open>Tasks are wires\<close>

definition links_at :: "(int \<times> outgoing_link list) list \<Rightarrow> int \<Rightarrow> outgoing_link list" where
  "links_at acc i = (case map_of acc i of None \<Rightarrow> [] | Some ls \<Rightarrow> ls)"

lemma links_at_add: "links_at (add_link l acc) i = links_at acc i @ (if i = port_field (PInt (from_output_index l)) then [l] else [])"
  by (induction acc) (auto simp: links_at_def)

lemma links_at_grouped: "links_at (links_by_output_index ls) i = filter (\<lambda>l. port_field (PInt (from_output_index l)) = i) ls"
proof -
  have "links_at (fold add_link ls acc) i = links_at acc i @ filter (\<lambda>l. port_field (PInt (from_output_index l)) = i) ls" for acc
    by (induction ls arbitrary: acc) (auto simp: links_at_add)
  from this [of "[]"] show ?thesis by (simp add: links_by_output_index_def links_at_def)
qed

text \<open>The wires of a node: port, target and port of the target, in the order of the document.\<close>

definition wires :: "wiring \<Rightarrow> string \<Rightarrow> (int \<times> string \<times> int) list" where
  "wires A node = concat (map (\<lambda>(k, ts). map (\<lambda>(n, i). (k, n, i)) ts) (case map_of A node of None \<Rightarrow> [] | Some rs \<Rightarrow> rs))"

definition wire_link :: "string \<Rightarrow> int \<times> string \<times> int \<Rightarrow> outgoing_link" where
  "wire_link node w = (case w of (k, n, i) \<Rightarrow>
     \<lparr>link_id = output_route_target_id node k n i, link_to = n, from_output_index = k, to_input_index = i\<rparr>)"

lemma source_links_wires: "source_links (s, rs) = map (wire_link s) (concat (map (\<lambda>(k, ts). map (\<lambda>(n, i). (k, n, i)) ts) rs))"
  by (induction rs) (auto simp: source_links_def wire_link_def)

lemma links_of_wires:
  assumes "distinct (map fst A)"
  shows "links_of (wiring_links A) node = map (wire_link node) (wires A node)"
  using assms
proof (induction A)
  case (Cons sr A)
  obtain s rs where sr: "sr = (s, rs)" by fastforce
  have other: "links_of (wiring_links A) s = []" if "s \<notin> fst ` set A"
    using that by (auto simp: links_of_def wiring_links_def map_of_eq_None_iff split: option.splits dest!: map_of_SomeD)
  have lhs: "links_of (wiring_links (sr # A)) node = (if source_links (s, rs) = [] then links_of (wiring_links A) node
      else if node = s then source_links (s, rs) else links_of (wiring_links A) node)"
    by (simp add: links_of_def wiring_links_def sr)
  have rhs: "wires (sr # A) node = (if node = s then concat (map (\<lambda>(k, ts). map (\<lambda>(n, i). (k, n, i)) ts) rs) else wires A node)"
    by (simp add: wires_def sr)
  show ?case using Cons other unfolding lhs rhs by (cases "node = s") (simp_all only: source_links_wires sr, auto)
qed (simp add: links_of_def wires_def wiring_links_def)

lemma wires_ok: "wf_wiring V A \<Longrightarrow> (k, n, i) \<in> set (wires A node) \<Longrightarrow> port_ok k \<and> port_ok i \<and> n \<noteq> [] \<and> py_strip n = n"
  by (fastforce simp: wires_def wf_wiring_def wf_source_routes_def wf_targets_def id_ok_def split: option.splits dest!: map_of_SomeD)

lemma port_field_ok [simp]: "port_ok i \<Longrightarrow> port_field (PInt i) = i"
  by (simp add: port_ok_def port_field_def)

text \<open>The task of a wire.\<close>

definition wire_task :: "graph_world \<Rightarrow> string \<Rightarrow> string \<Rightarrow> int \<Rightarrow> pydict \<Rightarrow> pydict \<Rightarrow> int \<times> string \<times> int \<Rightarrow> pydict" where
  "wire_task W graph entry depth access payload w = (case w of (k, n, i) \<Rightarrow>
     [(''target_graph_id'', PStr graph), (''target_cfg_path'', PStr (node_config_path W (PStr n) (PStr graph))), (''to_id'', PStr n),
      (''from_node'', PStr entry), (''route_output_index'', PInt k), (''to_input_index'', PInt i), (''next_depth'', PInt (depth + 1)),
      (''route_payload'', PDict payload), (''link_id'', PStr (py_strip (output_route_target_id entry k n i)))] @ access)"

lemma link_task_wire:
  assumes "wf_wiring V A" "w \<in> set (wires A entry)"
  shows "link_task W graph entry depth access (fst w) payload (wire_link entry w)
    = (if node_config_at W (PStr (fst (snd w))) (PStr graph) = None then [] else [wire_task W graph entry depth access payload w])"
proof -
  obtain k n i where w: "w = (k, n, i)" by (rule prod_cases3)
  show ?thesis using wires_ok [OF assms(1) assms(2) [unfolded w]] by (simp add: link_task_def wire_link_def wire_task_def w)
qed

lemma route_tasks_wires:
  assumes "wf_wiring V A"
  shows "route_tasks W E graph entry depth access (links_of (wiring_links A) entry) route
    = map (wire_task W graph entry depth access (normalize_envelope E (get route ''payload'') ''assistant''))
        (filter (\<lambda>(k, n, i). k = port_field (get route ''output_index'') \<and> node_config_at W (PStr n) (PStr graph) \<noteq> None) (wires A entry))"
proof -
  let ?port = "port_field (get route ''output_index'')" and ?p = "normalize_envelope E (get route ''payload'') ''assistant''"
  have d: "distinct (map fst A)" using assms by (simp add: wf_wiring_def)
  have "concat (map (link_task W graph entry depth access ?port ?p)
      (filter (\<lambda>l. port_field (PInt (from_output_index l)) = ?port) (map (wire_link entry) ws)))
    = map (wire_task W graph entry depth access ?p) (filter (\<lambda>(k, n, i). k = ?port \<and> node_config_at W (PStr n) (PStr graph) \<noteq> None) ws)"
    if "set ws \<subseteq> set (wires A entry)" for ws
    using that
  proof (induction ws)
    case (Cons w ws)
    obtain k n i where w: "w = (k, n, i)" by (rule prod_cases3)
    have "port_ok k" using wires_ok [OF assms] Cons.prems w by auto
    then show ?case using Cons link_task_wire [OF assms, of w entry W graph depth access ?p] by (auto simp: w wire_link_def)
  qed simp
  then show ?thesis unfolding route_tasks_def Let_def links_of_wires [OF d] links_at_grouped [symmetric]
    by (simp add: links_at_grouped links_at_def [symmetric])
qed

text \<open>The tasks of an output along the links of the graph.\<close>

definition wired_tasks ::
    "graph_world \<Rightarrow> (nat \<Rightarrow> msg_env) \<Rightarrow> string \<Rightarrow> string \<Rightarrow> int \<Rightarrow> pydict \<Rightarrow> wiring \<Rightarrow> pyval list \<Rightarrow> pydict list" where
  "wired_tasks W E graph entry depth access A routes = concat (map (\<lambda>(j, route).
     map (wire_task W graph entry depth access (normalize_envelope (E j) (get (dict_items route) ''payload'') ''assistant''))
       (filter (\<lambda>(k, n, i). k = port_field (get (dict_items route) ''output_index'') \<and> node_config_at W (PStr n) (PStr graph) \<noteq> None) (wires A entry)))
     (filter (\<lambda>(j, route). is_dict route) (enumerate 0 routes)))"

lemma link_tasks_wired:
  assumes "wf_wiring V A"
  shows "link_tasks W E graph entry depth access (wiring_links A) routes = wired_tasks W E graph entry depth access A routes"
proof -
  let ?f = "\<lambda>(j, v). case v of PDict route \<Rightarrow> route_tasks W (E j) graph entry depth access (links_of (wiring_links A) entry) route | _ \<Rightarrow> []"
  have "concat (map ?f xs) = concat (map (\<lambda>(j, route).
     map (wire_task W graph entry depth access (normalize_envelope (E j) (get (dict_items route) ''payload'') ''assistant''))
       (filter (\<lambda>(k, n, i). k = port_field (get (dict_items route) ''output_index'') \<and> node_config_at W (PStr n) (PStr graph) \<noteq> None) (wires A entry)))
     (filter (\<lambda>(j, route). is_dict route) xs))" for xs :: "(nat \<times> pyval) list"
  proof (induction xs)
    case (Cons x xs)
    then show ?case by (cases x; cases "snd x") (simp_all add: route_tasks_wires [OF assms])
  qed simp
  then show ?thesis by (simp add: link_tasks_def wired_tasks_def)
qed

lemma access_keys: "fst ` set (access_metadata item) \<subseteq> set ACCESS_FIELDS" "distinct (map fst (access_metadata item))"
  by (auto simp: access_metadata_def ACCESS_FIELDS_def text_entry_def)

lemma dict_update_same:
  assumes "distinct (map fst d)" "\<forall>(k, v) \<in> set new. map_of d k = Some v"
  shows "dict_update new d = d"
  using assms(2) by (induction new) (auto simp: dict_update_def dict_set_same)

lemma wire_task_keys:
  assumes "access = access_metadata item"
  shows "distinct (map fst (wire_task W graph entry depth access payload w))" "dict_update access (wire_task W graph entry depth access payload w)
    = wire_task W graph entry depth access payload w"
proof -
  obtain k n i where w: "w = (k, n, i)" by (rule prod_cases3)
  show d: "distinct (map fst (wire_task W graph entry depth access payload w))"
    using access_keys [of item] by (auto simp: wire_task_def w assms ACCESS_FIELDS_def)
  have "map_of (wire_task W graph entry depth access payload w) k = Some v" if "(k, v) \<in> set access" for k v
    using d that by (intro map_of_is_SomeI) (auto simp: wire_task_def w)
  then show "dict_update access (wire_task W graph entry depth access payload w) = wire_task W graph entry depth access payload w"
    by (intro dict_update_same d) blast
qed

text \<open>C20. The tasks of a run are exactly the wires of the graph: for a document of routes that validates as the wiring \<open>A\<close>, a node that is no event node
  makes of its output one task for every route and every wire that leaves from the port of the route to a node that exists, in the order of
  the routes and of the document, with the port the wire leads to, the payload of the route, the next depth and the metadata of the request.\<close>

theorem tasks_follow_wires:
  assumes "normalize_output_routes (get graph_cfg ''output_routes'') None = Inr R" "text_of (get cfg ''type_id'') \<noteq> ''event_node''"
  shows "\<exists>A og. R = enc A \<and> build_outgoing_routes_map graph_cfg = Inr og
    \<and> propagation_tasks W live E graph entry cfg og item nw routes
      = Inr (wired_tasks W E graph entry (nw_depth nw) (access_metadata item) A routes)"
proof -
  obtain A where A: "R = enc A" "wf_wiring None A" using normalize_sound [OF assms(1)] by blast
  have og: "build_outgoing_routes_map graph_cfg = Inr (wiring_links A)"
    using assms(1) A outgoing_enc [OF A(2)] by (simp add: build_outgoing_routes_map_def)
  have "map (dict_update (access_metadata item)) (wired_tasks W E graph entry d (access_metadata item) A routes)
      = wired_tasks W E graph entry d (access_metadata item) A routes" for d
    by (rule map_idI) (auto simp: wired_tasks_def wire_task_keys [OF refl])
  then show ?thesis using A(1) og assms(2)
    by (intro exI [of _ A] exI [of _ "wiring_links A"]) (simp add: propagation_tasks_def Let_def event_tasks_def link_tasks_wired [OF A(2)])
qed

section \<open>Items are read back\<close>

lemma get_append_new: "map_of d k = None \<Longrightarrow> getd (d @ e) k w = getd e k w"
  by (simp add: getd_def map_add_def split: option.split)

lemma get_append_old: "map_of d k \<noteq> None \<Longrightarrow> getd (d @ e) k w = getd d k w"
  by (auto simp: getd_def map_add_def split: option.split)

lemma access_None: "k \<notin> set ACCESS_FIELDS \<Longrightarrow> map_of (access_metadata item) k = None"
  using access_keys(1) [of item] by (auto simp: map_of_eq_None_iff)

lemma get_access: "k \<in> set ACCESS_FIELDS \<Longrightarrow> get (access_metadata item) k = (if text_of (get item k) = [] then PNone else PStr (text_of (get item k)))"
  by (auto simp: access_metadata_def ACCESS_FIELDS_def)

lemma text_of_opt: "text_of (if text_of v = [] then PNone else PStr (text_of v)) = text_of v"
  by (simp add: text_of_def str_or_def)

lemma access_again:
  assumes "\<forall>k \<in> set ACCESS_FIELDS. get item' k = get (access_metadata item) k"
  shows "access_metadata item' = access_metadata item" "concat (map (access_entry item') ACCESS_FIELDS) = access_metadata item"
proof -
  have g: "get item' k = (if text_of (get item k) = [] then PNone else PStr (text_of (get item k)))" if "k \<in> set ACCESS_FIELDS" for k
    using assms get_access that by simp
  then have "text_entry k (get item' k) = text_entry k (get item k)" "access_entry item' k = text_entry k (get item k)" if "k \<in> set ACCESS_FIELDS" for k
    using that by (simp_all add: text_entry_def access_entry_def text_of_opt del: text_of_str) (simp add: text_of_def)
  then show "access_metadata item' = access_metadata item" "concat (map (access_entry item') ACCESS_FIELDS) = access_metadata item"
    unfolding access_metadata_def by (metis (no_types, lifting) map_cong)+
qed

text \<open>The item of a task, without the environment, when its payload is a normal envelope.\<close>

definition sent_item :: "string \<Rightarrow> string \<Rightarrow> string \<Rightarrow> string list \<Rightarrow> pydict \<Rightarrow> pydict" where
  "sent_item owner default_from trace next_visited task =
     [(''payload'', get task ''route_payload''), (''trace_id'', PStr trace), (''depth'', get task ''next_depth''),
       (''visited'', PList (map PStr (case get task ''next_visited'' of PList vs \<Rightarrow> last_n 50 (visited_texts vs) | _ \<Rightarrow> next_visited))),
       (''from'', PStr (from_node_of default_from task)), (''from_output_index'', get task ''route_output_index''), (''to_input_index'', get task ''to_input_index''),
       (''source'', PStr (if truthy (get task ''source'') then py_str (get task ''source'') else ''propagate'')), (''_runtime_owner_id'', PStr owner)]
     @ concat (map (access_entry task) ACCESS_FIELDS)
     @ (if str_or (get task ''link_id'') = [] then [] else [(''link_id'', PStr (str_or (get task ''link_id'')))])"

definition item_ready :: "pydict \<Rightarrow> bool" where
  "item_ready task \<longleftrightarrow> list_all (dict_has task) [''next_depth'', ''route_output_index'', ''to_input_index'']
     \<and> (\<exists>p. map_of task ''route_payload'' = Some (PDict p) \<and> envelope_ok p)"

definition sendable :: "pydict \<Rightarrow> bool" where
  "sendable task \<longleftrightarrow> item_ready task \<and> dict_has task ''to_id'' \<and> (\<exists>s. map_of task ''target_cfg_path'' = Some (PStr s) \<and> s \<noteq> [])"

lemma need_has: "dict_has d k \<Longrightarrow> need d k = Inr (get d k)"
  by (cases "map_of d k") (auto simp: need_def dict_has_def getd_def map_of_eq_None_iff)

lemma ready_item: "item_ready task \<Longrightarrow> task_item E owner default_from trace next_visited task = Inr (sent_item owner default_from trace next_visited task)"
proof -
  assume s: "item_ready task"
  then obtain p where p: "map_of task ''route_payload'' = Some (PDict p)" "envelope_ok p" by (auto simp: item_ready_def)
  have "need task ''route_payload'' = Inr (PDict p)" "get task ''route_payload'' = PDict p" using p(1) by (simp_all add: need_def getd_def)
  then show ?thesis using s envelope_ok_normal [OF p(2)] by (simp add: item_ready_def task_item_def sent_item_def need_has)
qed

lemma wire_task_get:
  assumes "access = access_metadata old"
  shows "get (wire_task W graph entry depth access payload (k, n, i)) ''next_visited'' = PNone"
    "get (wire_task W graph entry depth access payload (k, n, i)) ''source'' = PNone"
    "\<forall>f \<in> set ACCESS_FIELDS. get (wire_task W graph entry depth access payload (k, n, i)) f = get access f"
proof -
  show "get (wire_task W graph entry depth access payload (k, n, i)) ''next_visited'' = PNone"
    "get (wire_task W graph entry depth access payload (k, n, i)) ''source'' = PNone"
    using access_None [of _ old] by (simp_all add: wire_task_def assms getd_def ACCESS_FIELDS_def)
  show "\<forall>f \<in> set ACCESS_FIELDS. get (wire_task W graph entry depth access payload (k, n, i)) f = get access f"
    by (auto simp: wire_task_def ACCESS_FIELDS_def)
qed

lemma wire_task_ready: "envelope_ok payload \<Longrightarrow> item_ready (wire_task W graph entry depth access payload (k, n, i))"
  by (simp add: item_ready_def wire_task_def dict_has_def)

lemma wire_task_sendable: "envelope_ok payload \<Longrightarrow> (\<And>s. gw_join W (sanitize_graph_id (PStr graph)) s \<noteq> []) \<Longrightarrow> sendable (wire_task W graph entry depth access payload (k, n, i))"
  using wire_task_ready by (simp add: sendable_def wire_task_def dict_has_def node_config_path_def)

lemma route_id_text: "py_strip (output_route_target_id s k n i) \<noteq> []"
proof -
  have "py_lstrip (output_route_target_id s k n i) = output_route_target_id s k n i"
    by (simp add: output_route_target_id_def py_lstrip_def is_space_def char_code_def)
  moreover have "py_rstrip (CHR ''r'' # cs) \<noteq> []" for cs by (simp add: py_rstrip_Cons is_space_def char_code_def)
  ultimately show ?thesis by (simp add: py_strip_def output_route_target_id_def)
qed

text \<open>What a task says is what its target reads: the item that is queued for a wire of the graph is read as the payload itself, with its trace,
  the ports of the wire, the depth, the nodes visited and the metadata of the request.\<close>

lemma sent_task_read_back:
  assumes "wf_wiring V A" "(k, n, i) \<in> set (wires A entry)" "envelope_ok payload" "py_strip trace \<noteq> []" "\<bar>depth + 1\<bar> \<le> 2 ^ 53"
    and "task = wire_task W graph entry depth (access_metadata old) payload (k, n, i)"
  shows "\<exists>item. task_item E owner entry trace visited task = Inr item
    \<and> parse_pending_node_item E' fresh item = \<lparr>nw_message = payload, nw_trace = py_strip trace, nw_link = py_strip (output_route_target_id entry k n i),
        nw_from_port = k, nw_to_port = i, nw_source = ''propagate'', nw_depth = depth + 1, nw_visited = visited\<rparr>
    \<and> access_metadata item = access_metadata old"
proof -
  let ?item = "sent_item owner entry trace visited task"
  have ports: "port_ok k" "port_ok i" using wires_ok [OF assms(1,2)] by blast+
  have acc: "concat (map (access_entry task) ACCESS_FIELDS) = access_metadata old"
    using access_again(2) wire_task_get(3) [OF refl] unfolding assms(6) by blast
  have t: "get task ''route_payload'' = PDict payload" "get task ''next_depth'' = PInt (depth + 1)" "get task ''route_output_index'' = PInt k"
    "get task ''to_input_index'' = PInt i" "get task ''link_id'' = PStr (py_strip (output_route_target_id entry k n i))"
    "get task ''next_visited'' = PNone" "get task ''source'' = PNone"
    using wire_task_get(1,2) [OF refl] unfolding assms(6) by (simp_all add: wire_task_def)
  have item: "?item = [(''payload'', PDict payload), (''trace_id'', PStr trace), (''depth'', PInt (depth + 1)), (''visited'', PList (map PStr visited)),
      (''from'', PStr (from_node_of entry task)), (''from_output_index'', PInt k), (''to_input_index'', PInt i), (''source'', PStr ''propagate''),
      (''_runtime_owner_id'', PStr owner)] @ access_metadata old @ [(''link_id'', PStr (py_strip (output_route_target_id entry k n i)))]"
    unfolding sent_item_def acc t by (simp add: str_or_def route_id_text)
  have acc': "access_metadata ?item = access_metadata old"
    by (rule access_again(1)) (auto simp: item ACCESS_FIELDS_def getd_def map_add_def split: option.splits)
  have "get ?item ''link_id'' = PStr (py_strip (output_route_target_id entry k n i))"
    using access_None [of "''link_id''" old] by (simp add: item getd_def map_add_def ACCESS_FIELDS_def)
  moreover have p: "py_strip ''propagate'' = ''propagate''" by (simp add: strip_eval)
  moreover have "visited_texts (map PStr visited) = visited" by (simp add: visited_texts_def comp_def filter_True)
  moreover have "get ?item ''payload'' = PDict payload" "get ?item ''trace_id'' = PStr trace" "get ?item ''depth'' = PInt (depth + 1)"
    "get ?item ''visited'' = PList (map PStr visited)" "get ?item ''from_output_index'' = PInt k" "get ?item ''to_input_index'' = PInt i"
    "get ?item ''source'' = PStr ''propagate''" by (simp_all add: item)
  ultimately have "parse_pending_node_item E' fresh ?item = \<lparr>nw_message = payload, nw_trace = py_strip trace, nw_link = py_strip (output_route_target_id entry k n i),
      nw_from_port = k, nw_to_port = i, nw_source = ''propagate'', nw_depth = depth + 1, nw_visited = visited\<rparr>"
    using assms(4,5) ports envelope_ok_normal [OF assms(3)] py_int_float_exact [OF assms(5)]
      py_int_float_exact [of 0] p
    by (simp add: parse_pending_node_item_def py_or_def)
  then show ?thesis using acc' ready_item [OF wire_task_ready [OF assms(3)]] unfolding assms(6) by blast
qed

section \<open>Sending\<close>

abbreviation pending_at :: "dispatch_state \<Rightarrow> string \<Rightarrow> pydict list" where
  "pending_at s k \<equiv> nq_pending (view (item_of (ds_store s) k))"

abbreviation deleting_at :: "dispatch_state \<Rightarrow> string \<Rightarrow> bool" where
  "deleting_at s k \<equiv> nq_delete (view (item_of (ds_store s) k))"

text \<open>What a node is apart from its queue and the counter of its changes.\<close>

definition rest_of :: "dispatch_state \<Rightarrow> string \<Rightarrow> node_q" where
  "rest_of s k = (view (item_of (ds_store s) k))\<lparr>nq_pending := [], nq_seq := 0\<rparr>"

lemma rest_of_same:
  assumes "rest_of t k = rest_of s k"
  shows "deleting_at t k = deleting_at s k" "nq_held (view (item_of (ds_store t) k)) = nq_held (view (item_of (ds_store s) k))"
    "nq_state (view (item_of (ds_store t) k)) = nq_state (view (item_of (ds_store s) k))"
proof -
  have "nq_delete (rest_of t k) = nq_delete (rest_of s k)" "nq_held (rest_of t k) = nq_held (rest_of s k)" "nq_state (rest_of t k) = nq_state (rest_of s k)"
    using assms by simp_all
  then show "deleting_at t k = deleting_at s k" "nq_held (view (item_of (ds_store t) k)) = nq_held (view (item_of (ds_store s) k))"
    "nq_state (view (item_of (ds_store t) k)) = nq_state (view (item_of (ds_store s) k))" by (simp_all add: rest_of_def)
qed

definition task_key :: "dispatch_env \<Rightarrow> pydict \<Rightarrow> string" where
  "task_key D task = env_key (dp_rt D) (str_or (get task ''target_cfg_path''))"

text \<open>What sending adds to the queue with key \<open>k\<close>.\<close>

definition arrives :: "dispatch_env \<Rightarrow> dispatch_state \<Rightarrow> string \<Rightarrow> pydict \<Rightarrow> bool" where
  "arrives D s k task \<longleftrightarrow> task_key D task = k \<and> \<not> deleting_at s k"

lemma append_effect:
  assumes "store_ok st" "path \<noteq> []" "idem_key item = []"
  shows "if nq_delete (node_view env path st) then \<exists>e. node_op env path (AppendPending item) st = Inl e
    else \<exists>st' r. node_op env path (AppendPending item) st = Inr (st', r) \<and> store_ok st'
      \<and> node_view env path st' = (tick (node_view env path st))\<lparr>nq_pending := nq_pending (node_view env path st) @ [dict_items item]\<rparr>
      \<and> (\<forall>k. k \<noteq> env_key env path \<longrightarrow> item_of st' k = item_of st k)"
  using node_op_simulates [OF assms(1,2), of env "AppendPending item"] assms(3) by (auto split: if_splits)

lemma access_entry_keys: "k \<notin> set ACCESS_FIELDS \<Longrightarrow> map_of (concat (map (access_entry task) ACCESS_FIELDS)) k = None"
proof -
  assume k: "k \<notin> set ACCESS_FIELDS"
  have "map_of (concat (map (access_entry task) fs)) k = None" if "k \<notin> set fs" for fs
    using that by (induction fs) (auto simp: map_add_def access_entry_def split: pyval.splits)
  then show ?thesis using k by blast
qed

lemma sent_item_no_key: "idem_key (PDict (sent_item owner default_from trace visited task)) = []"
proof -
  have "map_of (concat (map (access_entry task) ACCESS_FIELDS)) ''idempotency_key'' = None"
    by (rule access_entry_keys) (simp add: ACCESS_FIELDS_def)
  then have "get (sent_item owner default_from trace visited task) ''idempotency_key'' = PNone"
    by (simp add: sent_item_def getd_def map_add_def)
  then show ?thesis by (simp add: idem_key_def text_of_def str_or_def)
qed

lemma send_one:
  assumes "store_ok (ds_store s)" "sendable task" "enqueue_graph_task E D graph from_node trace visited task s = (t, e)"
  shows "store_ok (ds_store t)" "\<forall>k. rest_of t k = rest_of s k" "e = None \<longleftrightarrow> \<not> deleting_at s (task_key D task)"
    "\<forall>k. pending_at t k = pending_at s k @ (if arrives D s k task then [sent_item (dp_owner D) from_node trace visited task] else [])"
proof -
  let ?item = "sent_item (dp_owner D) from_node trace visited task"
  obtain path where path: "map_of task ''target_cfg_path'' = Some (PStr path)" "path \<noteq> []" using assms(2) by (auto simp: sendable_def)
  have g: "task_path task = Inr path" "task_key D task = env_key (dp_rt D) path" using path by (simp_all add: task_path_def need_def task_key_def getd_def str_or_def)
  have item: "task_item E (dp_owner D) from_node trace visited task = Inr ?item" using assms(2) ready_item by (simp add: sendable_def)
  note eff = append_effect [OF assms(1) path(2) sent_item_no_key, of "dp_rt D" "dp_owner D" from_node trace visited task]
  have to: "dict_has task ''to_id''" using assms(2) by (simp add: sendable_def)
  have "store_ok (ds_store t) \<and> (\<forall>k. rest_of t k = rest_of s k) \<and> (e = None \<longleftrightarrow> \<not> deleting_at s (task_key D task))
    \<and> (\<forall>k. pending_at t k = pending_at s k @ (if arrives D s k task then [?item] else []))"
  proof (cases "deleting_at s (task_key D task)")
    case True
    then obtain x where "node_op (dp_rt D) path (AppendPending (PDict ?item)) (ds_store s) = Inl x" using eff g(2) by auto
    then have "t = s" "e = Some (QueueFailed x)" using assms(3) by (simp_all add: enqueue_graph_task_def item g(1))
    then show ?thesis using True assms(1) by (auto simp: arrives_def)
  next
    case False
    then obtain st r where st: "node_op (dp_rt D) path (AppendPending (PDict ?item)) (ds_store s) = Inr (st, r)" "store_ok st"
      "node_view (dp_rt D) path st = (tick (node_view (dp_rt D) path (ds_store s)))\<lparr>nq_pending := nq_pending (node_view (dp_rt D) path (ds_store s)) @ [?item]\<rparr>"
      "\<forall>k. k \<noteq> env_key (dp_rt D) path \<longrightarrow> item_of st k = item_of (ds_store s) k" using eff g(2) by auto
    have t: "ds_store t = st" "e = None" using assms(3) st(1) to by (auto simp: enqueue_graph_task_def item g(1))
    have "view (item_of st k) = (if k = task_key D task then (tick (view (item_of (ds_store s) k)))\<lparr>nq_pending := pending_at s k @ [?item]\<rparr>
        else view (item_of (ds_store s) k))" for k using st(3,4) g(2) by auto
    then show ?thesis using st(2) False by (auto simp: t arrives_def tick_def rest_of_def)
  qed
  then show "store_ok (ds_store t)" "\<forall>k. rest_of t k = rest_of s k" "e = None \<longleftrightarrow> \<not> deleting_at s (task_key D task)"
    "\<forall>k. pending_at t k = pending_at s k @ (if arrives D s k task then [?item] else [])" by blast+
qed

text \<open>Several tasks, in whatever order.\<close>

lemma send_many:
  assumes "store_ok (ds_store s)" "\<forall>j \<in> set ord. sendable (tasks ! j)"
    and "t = fold (\<lambda>j s. fst (enqueue_graph_task (E j) D graph from_node trace visited (tasks ! j) s)) ord s"
  shows "store_ok (ds_store t) \<and> (\<forall>k. rest_of t k = rest_of s k) \<and> (\<forall>k. pending_at t k = pending_at s k
    @ map (sent_item (dp_owner D) from_node trace visited) (filter (arrives D s k) (map (nth tasks) ord)))"
  using assms(1,2) unfolding assms(3)
proof (induction ord arbitrary: s)
  case (Cons j ord)
  obtain u e where u: "enqueue_graph_task (E j) D graph from_node trace visited (tasks ! j) s = (u, e)" by fastforce
  have "sendable (tasks ! j)" using Cons.prems(2) by simp
  note one = send_one [OF Cons.prems(1) this u]
  have del: "deleting_at u k = deleting_at s k" for k by (rule rest_of_same(1)) (use one(2) in blast)
  have arr: "arrives D u k = arrives D s k" for k by (auto simp: fun_eq_iff arrives_def del)
  show ?case using Cons.IH [OF one(1)] Cons.prems(2) one(2,4) by (simp add: u arr)
qed simp

text \<open>The calls that send the tasks one after the other, when no target is being deleted.\<close>

lemma send_all:
  assumes "store_ok (ds_store s)" "\<forall>task \<in> set tasks. sendable task \<and> \<not> deleting_at s (task_key D task)"
  shows "\<exists>t. enqueue_graph_tasks E D graph from_node trace visited n (map PDict tasks) s = (t, Inr (n + length tasks))
    \<and> store_ok (ds_store t) \<and> (\<forall>k. rest_of t k = rest_of s k)
    \<and> (\<forall>k. pending_at t k = pending_at s k @ map (sent_item (dp_owner D) from_node trace visited) (filter (arrives D s k) tasks))"
  using assms
proof (induction tasks arbitrary: s n)
  case (Cons task tasks)
  obtain u e where u: "enqueue_graph_task (E n) D graph from_node trace visited task s = (u, e)" by fastforce
  have "sendable task" using Cons.prems(2) by simp
  note one = send_one [OF Cons.prems(1) this u]
  have e: "e = None" using one(3) Cons.prems(2) by simp
  have del: "deleting_at u k = deleting_at s k" for k by (rule rest_of_same(1)) (use one(2) in blast)
  have arr: "arrives D u k = arrives D s k" for k by (auto simp: fun_eq_iff arrives_def del)
  have "\<forall>task \<in> set tasks. sendable task \<and> \<not> deleting_at u (task_key D task)" using Cons.prems(2) by (simp add: del)
  from Cons.IH [OF one(1) this, of "Suc n"] show ?case using one(2,4) by (auto simp: u e arr)
qed simp

section \<open>The end of a run\<close>

lemma dict_update_get:
  assumes "k \<notin> fst ` set new"
  shows "map_of (dict_update new d) k = map_of d k"
  using assms by (induction new arbitrary: d) (auto simp: dict_update_def)

lemma has_map_of: "dict_has d k \<longleftrightarrow> map_of d k \<noteq> None"
  by (simp add: dict_has_def map_of_eq_None_iff)

lemma dict_update_has: "dict_has d k \<Longrightarrow> dict_has (dict_update new d) k"
proof (induction new arbitrary: d)
  case (Cons kv new)
  have "dict_has (dict_set (fst kv) (snd kv) d) k" using Cons.prems by (simp add: has_map_of)
  from Cons.IH [OF this] show ?case by (simp add: dict_update_def split_beta)
qed (simp add: dict_update_def)

lemma sendable_update:
  assumes "sendable task"
  shows "sendable (dict_update (access_metadata item) task)"
proof -
  have "map_of (dict_update (access_metadata item) task) k = map_of task k" if "k \<notin> set ACCESS_FIELDS" for k
    using that access_keys(1) [of item] by (intro dict_update_get) blast
  then show ?thesis using assms by (simp add: sendable_def item_ready_def dict_update_has ACCESS_FIELDS_def)
qed

lemma link_task_sendable:
  assumes "envelope_ok payload" "\<And>g s. gw_join W g s \<noteq> []" "task \<in> set (link_task W graph entry depth access port payload l)"
  shows "sendable task"
  using assms by (auto simp: link_task_def Let_def sendable_def item_ready_def dict_has_def node_config_path_def split: if_splits)

lemma event_link_task_sendable:
  assumes "envelope_ok payload" "\<And>g s. gw_join W g s \<noteq> []" "task \<in> set (event_link_task W live key graph node payload visited l)"
  shows "sendable task"
  using assms by (auto simp: event_link_task_def Let_def sendable_def item_ready_def dict_has_def node_config_path_def split: if_splits)

definition env_ok :: "msg_env \<Rightarrow> bool" where
  "env_ok E \<longleftrightarrow> (\<forall>j. me_ids E j \<noteq> []) \<and> me_now E \<noteq> []"

lemma env_ok_envelope: "env_ok E \<Longrightarrow> envelope_ok (normalize_envelope E v r)"
  by (simp add: env_ok_def normalize_envelope_ok)

lemma link_tasks_sendable:
  assumes "\<And>j. env_ok (E j)" "\<And>g s. gw_join W g s \<noteq> []" "task \<in> set (link_tasks W E graph entry depth access og routes)"
  shows "sendable task"
proof -
  obtain j route port payload l where "task \<in> set (link_task W graph entry depth access port (normalize_envelope (E j) (get route ''payload'') ''assistant'') l)"
    using assms(3) by (auto simp: link_tasks_def route_tasks_def Let_def split: pyval.splits)
  then show ?thesis using link_task_sendable [OF env_ok_envelope [OF assms(1)] assms(2)] by blast
qed

lemma collect_sendable:
  assumes "envelope_ok payload" "\<And>g s. gw_join W g s \<noteq> []" "collect_event_dispatch_tasks W live source key payload visited = Inr tasks"
  shows "\<forall>task \<in> set tasks. sendable task"
proof -
  have step: "\<forall>task \<in> set b. sendable task" if "event_graph_tasks W live key source payload visited g a = Inr b" "\<forall>task \<in> set a. sendable task" for g a b key
    using that event_link_task_sendable [OF assms(1,2)] by (auto simp: event_graph_tasks_def split: if_splits elim!: rbindE)
  have "\<forall>task \<in> set b. sendable task" if "rfold (event_graph_tasks W live key source payload visited) gs a = Inr b" "\<forall>task \<in> set a. sendable task" for gs a b key
    using that step by (induction gs arbitrary: a) (auto elim!: rbindE)
  from this [of "py_strip key" "event_graph_ids W" "[]"] show ?thesis using assms(3) by (auto simp: collect_event_dispatch_tasks_def Let_def split: if_splits)
qed

lemma propagation_sendable:
  assumes "\<And>j. env_ok (E j)" "\<And>g s. gw_join W g s \<noteq> []" "propagation_tasks W live E graph entry cfg og item nw routes = Inr tasks"
  shows "\<forall>task \<in> set tasks. sendable task"
proof -
  let ?v = "next_visited_of (nw_visited nw) entry"
  let ?f = "\<lambda>E :: nat \<Rightarrow> msg_env. \<lambda>(j, v) ts. case v of PDict route \<Rightarrow> rbind (collect_event_dispatch_tasks W live (graph, entry) (text_of (get cfg ''EventKey''))
            (normalize_envelope (E j) (get route ''payload'') ''assistant'') ?v) (\<lambda>new. Inr (ts @ new)) | _ \<Rightarrow> Inr ts"
  have "\<forall>task \<in> set b. sendable task" if "\<And>j. env_ok (F j)" "rfold (?f F) rs a = Inr b" "\<forall>task \<in> set a. sendable task" for F rs a b
    using that(2,3)
  proof (induction rs arbitrary: a)
    case (Cons r rs)
    obtain j v where r: "r = (j, v)" by fastforce
    obtain c where c: "?f F r a = Inr c" "rfold (?f F) rs c = Inr b" using Cons.prems(1) by (auto elim!: rbindE)
    have "\<forall>task \<in> set c. sendable task"
    proof (cases v)
      case (PDict route)
      then show ?thesis using c(1) Cons.prems(2) collect_sendable [OF env_ok_envelope [OF that(1)] assms(2)]
        by (fastforce simp: r elim!: rbindE)
    qed (use c(1) Cons.prems(2) in \<open>auto simp: r\<close>)
    then show ?case using Cons.IH c(2) by blast
  qed simp
  from this [of "\<lambda>j. E (length routes + j)" "enumerate 0 routes" "[]"]
  have "\<forall>task \<in> set ts. sendable task" if "event_tasks W live (\<lambda>j. E (length routes + j)) (graph, entry) cfg ?v routes = Inr ts" for ts
    using that assms(1) by (auto simp: event_tasks_def split: if_splits)
  then show ?thesis using assms(3) link_tasks_sendable [OF assms(1,2)] sendable_update
    by (auto simp: propagation_tasks_def Let_def elim!: rbindE)
qed

lemma state_str_stop: "state_str x = ''stop'' \<longleftrightarrow> x = Stop"
  by (cases x) simp_all

lemma complete_step:
  "\<exists>q' r. q_step t (CompleteWork v) q = Some (q', r) \<and> hd (list_items r) = PStr (state_str (end_state t q))
    \<and> nq_pending q' = nq_pending q \<and> nq_delete q' = nq_delete q
    \<and> nq_held q' = nq_held q @ (if end_state t q = Stop \<and> dict_items v \<noteq> [] then [v] else [])"
  by (cases "end_state t q = Stop \<and> dict_items v \<noteq> []") (auto simp: Let_def tick_def to_state_def)

lemma complete_effect:
  assumes "store_ok st" "path \<noteq> []"
  shows "\<exists>st' r. node_op env path (CompleteWork v) st = Inr (st', r) \<and> store_ok st'
    \<and> hd (list_items r) = PStr (state_str (end_state (type_id_of env path) (node_view env path st)))
    \<and> (\<forall>k. nq_pending (view (item_of st' k)) = nq_pending (view (item_of st k)) \<and> nq_delete (view (item_of st' k)) = nq_delete (view (item_of st k)))
    \<and> nq_held (node_view env path st') = nq_held (node_view env path st)
        @ (if end_state (type_id_of env path) (node_view env path st) = Stop \<and> dict_items v \<noteq> [] then [v] else [])"
proof -
  let ?q = "node_view env path st" and ?t = "type_id_of env path"
  obtain q' r where s: "q_step ?t (CompleteWork v) ?q = Some (q', r)" "hd (list_items r) = PStr (state_str (end_state ?t ?q))"
    "nq_pending q' = nq_pending ?q" "nq_delete q' = nq_delete ?q"
    "nq_held q' = nq_held ?q @ (if end_state ?t ?q = Stop \<and> dict_items v \<noteq> [] then [v] else [])"
    using complete_step [of ?t v ?q] by blast
  obtain st' where st: "node_op env path (CompleteWork v) st = Inr (st', r)" "store_ok st'" "node_view env path st' = q'"
    "\<forall>k. k \<noteq> env_key env path \<longrightarrow> item_of st' k = item_of st k"
    using node_op_simulates [OF assms, of env "CompleteWork v"] s(1) by (auto simp del: q_step.simps)
  have "nq_pending (view (item_of st' k)) = nq_pending (view (item_of st k)) \<and> nq_delete (view (item_of st' k)) = nq_delete (view (item_of st k))" for k
    using st(3,4) s(3,4) by (cases "k = env_key env path") simp_all
  then show ?thesis using st(1-3) s(2,5) by blast
qed

text \<open>C19. What a run produces reaches the queues: when a run ends on a node that has not been stopped and makes the given tasks of its output,
  every queue keeps its items and gets those of the tasks for it appended, each one once, in the order in which the threads of the pool
  come to send them; only a node that is being deleted gets none, and with more than one task no exception escapes. Nothing else is put into any
  queue.\<close>

theorem output_reaches_queues:
  assumes "propagation_tasks W live E graph entry cfg og item nw routes = Inr tasks" "\<And>j. env_ok (E j)" "\<And>g s. gw_join W g s \<noteq> []"
    and "store_ok (ds_store s)" "path \<noteq> []" "end_state (type_id_of (dp_rt D) path) (node_view (dp_rt D) path (ds_store s)) \<noteq> Stop"
    and "distinct ord" "set ord = {..<length tasks}" "finish_run E' D path graph entry trace visited ord tasks s = (t, e)"
  shows "store_ok (ds_store t) \<and> (length tasks \<noteq> 1 \<longrightarrow> e = None)
    \<and> (\<forall>k. pending_at t k = pending_at s k @ map (sent_item (dp_owner D) entry trace visited) (filter (arrives D s k) (map (nth tasks) ord)))"
proof -
  have ok: "\<forall>task \<in> set tasks. sendable task" by (rule propagation_sendable [OF assms(2,3,1)])
  let ?held = "if tasks = [] then PDict [] else held_output trace entry visited tasks"
  obtain st r where c: "node_op (dp_rt D) path (CompleteWork ?held) (ds_store s) = Inr (st, r)" "store_ok st"
    "hd (list_items r) \<noteq> PStr ''stop''" "\<forall>k. nq_pending (view (item_of st k)) = pending_at s k \<and> nq_delete (view (item_of st k)) = deleting_at s k"
    using complete_effect [OF assms(4,5), of "dp_rt D" ?held] assms(6) state_str_stop by (fastforce simp del: node_op.simps)
  define u where "u = s\<lparr>ds_store := st\<rparr>"
  have u: "store_ok (ds_store u)" "arrives D u = arrives D s" "\<And>k. pending_at u k = pending_at s k"
    using c(2,4) by (auto simp: u_def arrives_def fun_eq_iff)
  have fr: "finish_run E' D path graph entry trace visited ord tasks s = (if tasks = [] then (u, None)
      else case send_tasks E' D graph entry trace visited ord tasks u of (t, Some e) \<Rightarrow> (t, Some e) | (t, None) \<Rightarrow> (t\<lparr>ds_woken := graph # ds_woken t\<rparr>, None))"
    using c(1,3) by (auto simp: finish_run_def u_def Let_def)
  show ?thesis
  proof (cases "length tasks = 1")
    case True
    then obtain task where one: "tasks = [task]" by (cases tasks) auto
    have "length ord = 1" using distinct_card [OF assms(7)] assms(8) one by simp
    then have "ord = [0]" using assms(8) one by (cases ord) auto
    moreover obtain v f where "enqueue_graph_task (E' 0) D graph entry trace visited task u = (v, f)" by fastforce
    ultimately show ?thesis using send_one [OF u(1), of task "E' 0" D graph entry trace visited v f] ok assms(9) [unfolded fr] u(2,3)
      by (auto simp: one send_tasks_def split: option.splits)
  next
    case False
    then have "send_tasks E' D graph entry trace visited ord tasks u = (fold (\<lambda>j s. fst (enqueue_graph_task (E' j) D graph entry trace visited (tasks ! j) s)) ord u, None)"
      by (auto simp: send_tasks_def split: list.split)
    moreover have "\<forall>j \<in> set ord. sendable (tasks ! j)" using ok assms(8) by auto
    ultimately show ?thesis using send_many [OF u(1) _ refl, of ord tasks E' D graph entry trace visited] assms(8) assms(9) [unfolded fr] u(2,3) False
      by (auto split: if_splits)
  qed
qed

section \<open>Holding back and releasing\<close>

lemma resume_effect:
  assumes "store_ok st" "path \<noteq> []" "\<not> nq_delete (node_view env path st)" "list_all is_dict (nq_held (node_view env path st))"
  shows "\<exists>st'. node_op env path Resume st = Inr (st', PList (nq_held (node_view env path st))) \<and> store_ok st'
    \<and> (\<forall>k. nq_pending (view (item_of st' k)) = nq_pending (view (item_of st k)) \<and> nq_delete (view (item_of st' k)) = nq_delete (view (item_of st k)))
    \<and> nq_held (node_view env path st') = [] \<and> nq_state (node_view env path st') = Idle"
proof -
  let ?q = "node_view env path st"
  have held: "filter is_dict (nq_held ?q) = nq_held ?q" using assms(4) by (simp add: list_all_iff filter_id_conv)
  then obtain q' where q: "q_step (type_id_of env path) Resume ?q = Some (q', PList (nq_held ?q))" "nq_pending q' = nq_pending ?q" "nq_delete q' = nq_delete ?q"
    "nq_held q' = []" "nq_state q' = Idle" using assms(3) by (simp add: Let_def tick_def)
  obtain st' where st: "node_op env path Resume st = Inr (st', PList (nq_held ?q))" "store_ok st'" "node_view env path st' = q'"
    "\<forall>k. k \<noteq> env_key env path \<longrightarrow> item_of st' k = item_of st k"
    using node_op_simulates [OF assms(1,2), of env Resume] q(1) by (auto simp del: q_step.simps node_op.simps)
  have "nq_pending (view (item_of st' k)) = nq_pending (view (item_of st k)) \<and> nq_delete (view (item_of st' k)) = nq_delete (view (item_of st k))" for k
    using st(3,4) q(2,3) by (cases "k = env_key env path") simp_all
  then show ?thesis using st q by auto
qed

text \<open>What a paused node holds back: trace, name, nodes visited and tasks.\<close>

type_synonym held = "string \<times> string \<times> string list \<times> pydict list"

definition held_value :: "held \<Rightarrow> pyval" where
  "held_value h = (case h of (trace, entry, visited, tasks) \<Rightarrow> held_output trace entry visited tasks)"

definition held_tasks :: "held \<Rightarrow> pydict list" where
  "held_tasks h = snd (snd (snd h))"

definition held_ok :: "held \<Rightarrow> bool" where
  "held_ok h \<longleftrightarrow> (case h of (trace, entry, visited, tasks) \<Rightarrow> py_strip trace = trace \<and> py_strip entry = entry \<and> entry \<noteq> [])"

definition held_items :: "dispatch_env \<Rightarrow> dispatch_state \<Rightarrow> string \<Rightarrow> held \<Rightarrow> pydict list" where
  "held_items D s k h = (case h of (trace, entry, visited, tasks) \<Rightarrow>
     map (sent_item (dp_owner D) entry trace (last_n 50 visited)) (filter (arrives D s k) tasks))"

lemma held_items_cong:
  assumes "\<And>task. arrives D u k task = arrives D s k task"
  shows "held_items D u k = held_items D s k"
proof -
  have "arrives D u k = arrives D s k" using assms by blast
  then show ?thesis by (intro ext) (simp add: held_items_def)
qed

lemma held_get:
  assumes "held_ok (trace, entry, visited, tasks)"
  shows "get (dict_items (held_value (trace, entry, visited, tasks))) ''tasks'' = PList (map PDict tasks)"
    "from_node_of node (dict_items (held_value (trace, entry, visited, tasks))) = entry"
    "text_of (get (dict_items (held_value (trace, entry, visited, tasks))) ''trace_id'') = trace"
    "get (dict_items (held_value (trace, entry, visited, tasks))) ''next_visited'' = PList (map PStr visited)"
  using assms by (auto simp: held_value_def held_output_def held_ok_def from_node_of_def)

lemma visited_texts_strs: "visited_texts (map PStr vs) = vs"
  by (simp add: visited_texts_def comp_def filter_True)

lemma release_one:
  assumes "store_ok (ds_store s)" "held_ok h" "\<forall>task \<in> set (held_tasks h). sendable task \<and> \<not> deleting_at s (task_key D task)"
  shows "\<exists>t. release_group E D graph node (dict_items (held_value h)) n s = (t, Inr (n + length (held_tasks h))) \<and> store_ok (ds_store t)
    \<and> (\<forall>k. rest_of t k = rest_of s k) \<and> (\<forall>k. pending_at t k = pending_at s k @ held_items D s k h)"
proof -
  obtain trace entry visited tasks where h: "h = (trace, entry, visited, tasks)" by (rule prod_cases4)
  obtain t where t: "enqueue_graph_tasks (\<lambda>j. E (n + j)) D graph entry trace (last_n 50 visited) 0 (map PDict tasks) s = (t, Inr (length tasks))"
    "store_ok (ds_store t)" "\<forall>k. rest_of t k = rest_of s k"
    "\<forall>k. pending_at t k = pending_at s k @ map (sent_item (dp_owner D) entry trace (last_n 50 visited)) (filter (arrives D s k) tasks)"
    using send_all [OF assms(1), of tasks D "\<lambda>j. E (n + j)" graph entry trace "last_n 50 visited" 0] assms(3) by (auto simp: h held_tasks_def)
  show ?thesis using t held_get [OF assms(2) [unfolded h]]
    by (auto simp: release_group_def h held_tasks_def held_items_def visited_texts_strs)
qed

lemma release_all:
  assumes "store_ok (ds_store s)" "\<forall>h \<in> set hs. held_ok h \<and> (\<forall>task \<in> set (held_tasks h). sendable task \<and> \<not> deleting_at s (task_key D task))"
  shows "\<exists>t. release_groups E D graph node n (map held_value hs) s = (t, Inr (n + sum_list (map (\<lambda>h. length (held_tasks h)) hs)))
    \<and> (\<forall>k. rest_of t k = rest_of s k) \<and> (\<forall>k. pending_at t k = pending_at s k @ concat (map (held_items D s k) hs))"
  using assms
proof (induction hs arbitrary: s n)
  case (Cons h hs)
  obtain u where u: "release_group E D graph node (dict_items (held_value h)) n s = (u, Inr (n + length (held_tasks h)))" "store_ok (ds_store u)"
    "\<forall>k. rest_of u k = rest_of s k" "\<forall>k. pending_at u k = pending_at s k @ held_items D s k h"
    using release_one [OF Cons.prems(1), of h D E graph node n] Cons.prems(2) by auto
  have del: "deleting_at u k = deleting_at s k" for k by (rule rest_of_same(1)) (use u(3) in blast)
  have same: "held_items D u k = held_items D s k" for k
    by (rule held_items_cong) (simp add: arrives_def del)
  have "\<forall>h \<in> set hs. held_ok h \<and> (\<forall>task \<in> set (held_tasks h). sendable task \<and> \<not> deleting_at u (task_key D task))"
    using Cons.prems(2) by (simp add: del)
  from Cons.IH [OF u(2) this, of "n + length (held_tasks h)"] show ?case using u(3,4) by (auto simp: u(1) same add.assoc)
qed simp

lemma idle_request:
  assumes "path \<noteq> []" "\<not> deleting_at s (env_key (dp_rt D) path)" "parse_node_state state = Idle"
    and "node_op (dp_rt D) path Resume (ds_store s) = Inr (st, PList xs)"
  shows "set_node_instance_state E D path graph node True state s = (case release_groups E D graph node 0 xs (s\<lparr>ds_store := st\<rparr>) of
      (t, Inl e) \<Rightarrow> (t, Inl (StateFailed e)) | (t, Inr n) \<Rightarrow> (t\<lparr>ds_woken := graph # ds_woken t\<rparr>, Inr (Idle, length xs, n)))"
  using assms by (simp add: set_node_instance_state_def view_def del: node_op.simps)

text \<open>C21. What a paused node held back is sent when it goes on: if no target is being deleted, setting the node to idle empties what it holds and appends to
  every queue the items of all tasks for it, output by output in the order of the runs and task by task, with trace, sender and ports as they would have
  been; only the list of visited nodes is cut to its last 50.\<close>

theorem held_outputs_released:
  assumes "store_ok (ds_store s)" "path \<noteq> []" "\<not> deleting_at s (env_key (dp_rt D) path)" "parse_node_state state = Idle"
    and "nq_held (node_view (dp_rt D) path (ds_store s)) = map held_value hs"
    and "\<forall>h \<in> set hs. held_ok h \<and> (\<forall>task \<in> set (held_tasks h). sendable task \<and> \<not> deleting_at s (task_key D task))"
  shows "\<exists>t. set_node_instance_state E D path graph node True state s
      = (t, Inr (Idle, length hs, sum_list (map (\<lambda>h. length (held_tasks h)) hs)))
    \<and> nq_held (node_view (dp_rt D) path (ds_store t)) = [] \<and> nq_state (node_view (dp_rt D) path (ds_store t)) = Idle
    \<and> (\<forall>k. pending_at t k = pending_at s k @ concat (map (held_items D s k) hs))"
proof -
  have "list_all is_dict (map held_value hs)" by (auto simp: list_all_iff held_value_def held_output_def split: prod.splits)
  then obtain st where st: "node_op (dp_rt D) path Resume (ds_store s) = Inr (st, PList (map held_value hs))" "store_ok st"
    "\<forall>k. nq_pending (view (item_of st k)) = pending_at s k \<and> nq_delete (view (item_of st k)) = deleting_at s k"
    "nq_held (node_view (dp_rt D) path st) = []" "nq_state (node_view (dp_rt D) path st) = Idle"
    using resume_effect [OF assms(1-3)] assms(5) by (auto simp del: node_op.simps)
  define u where "u = s\<lparr>ds_store := st\<rparr>"
  have u: "store_ok (ds_store u)" "\<forall>k. pending_at u k = pending_at s k" "\<forall>k. deleting_at u k = deleting_at s k" using st by (simp_all add: u_def)
  have hu: "held_items D u k = held_items D s k" for k
    by (rule held_items_cong) (simp add: arrives_def u(3))
  obtain t where t: "release_groups E D graph node 0 (map held_value hs) u = (t, Inr (sum_list (map (\<lambda>h. length (held_tasks h)) hs)))"
    "\<forall>k. rest_of t k = rest_of u k" "\<forall>k. pending_at t k = pending_at u k @ concat (map (held_items D u k) hs)"
    using release_all [OF u(1), of hs D E graph node 0] assms(6) u(3) by auto
  let ?k = "env_key (dp_rt D) path"
  have "rest_of t ?k = rest_of u ?k" using t(2) by blast
  note fin = rest_of_same(2,3) [OF this]
  have "set_node_instance_state E D path graph node True state s
      = (t\<lparr>ds_woken := graph # ds_woken t\<rparr>, Inr (Idle, length hs, sum_list (map (\<lambda>h. length (held_tasks h)) hs)))"
    using idle_request [OF assms(2-4) st(1), of E graph node] t(1) by (simp add: u_def)
  then show ?thesis using fin st(4,5) t(3) u(2) hu by (auto simp: u_def)
qed

text \<open>C39. Releasing is not safe against deletion: if the first target of the first output a paused node holds is being deleted, setting the node to idle raises after
  the held outputs were taken out, so this output and all others, whoever they are for, are lost: nothing is held any more and no queue got an item.\<close>

theorem resume_drops_outputs:
  assumes "store_ok (ds_store s)" "path \<noteq> []" "\<not> deleting_at s (env_key (dp_rt D) path)" "parse_node_state state = Idle"
    and "nq_held (node_view (dp_rt D) path (ds_store s)) = map held_value ((trace, entry, visited, task # tasks) # hs)"
    and "held_ok (trace, entry, visited, task # tasks)" "sendable task" "deleting_at s (task_key D task)"
  shows "\<exists>t e. set_node_instance_state E D path graph node True state s = (t, Inl (StateFailed e))
    \<and> nq_held (node_view (dp_rt D) path (ds_store t)) = [] \<and> (\<forall>k. pending_at t k = pending_at s k)"
proof -
  let ?hs = "(trace, entry, visited, task # tasks) # hs"
  have "list_all is_dict (map held_value ?hs)" by (auto simp: list_all_iff held_value_def held_output_def split: prod.splits)
  then obtain st where st: "node_op (dp_rt D) path Resume (ds_store s) = Inr (st, PList (map held_value ?hs))" "store_ok st"
    "\<forall>k. nq_pending (view (item_of st k)) = pending_at s k \<and> nq_delete (view (item_of st k)) = deleting_at s k"
    "nq_held (node_view (dp_rt D) path st) = []" using resume_effect [OF assms(1-3)] assms(5) by (auto simp del: node_op.simps)
  define u where "u = s\<lparr>ds_store := st\<rparr>"
  have u: "store_ok (ds_store u)" "\<forall>k. pending_at u k = pending_at s k" "deleting_at u (task_key D task)" using st assms(8) by (simp_all add: u_def)
  obtain t e where t: "enqueue_graph_task (E 0) D graph entry trace (last_n 50 visited) task u = (t, e)" by fastforce
  note one = send_one [OF u(1) assms(7) t]
  obtain x where x: "e = Some x" using one(3) u(3) by auto
  have "arrives D u k task = False" for k using u(3) by (auto simp: arrives_def)
  then have p: "\<forall>k. pending_at t k = pending_at s k" using one(4) u(2) by simp
  let ?k = "env_key (dp_rt D) path"
  have "rest_of t ?k = rest_of u ?k" using one(2) by blast
  then have h: "nq_held (node_view (dp_rt D) path (ds_store t)) = []" using rest_of_same(2) [of t ?k u] st(4) by (simp add: u_def)
  have "release_groups E D graph node 0 (map held_value ?hs) u = (t, Inl x)"
    using held_get [OF assms(6)] t by (simp add: release_group_def visited_texts_strs x)
  then show ?thesis using idle_request [OF assms(2-4) st(1), of E graph node] p h by (auto simp: u_def)
qed

text \<open>A run that ends on a paused node: its output is held, and then the call fails on an attribute that no object has.\<close>

lemma paused_output_raises:
  assumes "store_ok (ds_store s)" "path \<noteq> []" "end_state (type_id_of (dp_rt D) path) (node_view (dp_rt D) path (ds_store s)) = Stop" "tasks \<noteq> []"
  shows "\<exists>t. finish_run E D path graph entry trace visited ord tasks s = (t, Some (NoAttribute ''_set_node_config_last_message''))
    \<and> nq_held (node_view (dp_rt D) path (ds_store t)) = nq_held (node_view (dp_rt D) path (ds_store s)) @ [held_value (trace, entry, visited, tasks)]
    \<and> store_ok (ds_store t) \<and> (\<forall>k. pending_at t k = pending_at s k \<and> deleting_at t k = deleting_at s k)"
proof -
  have "dict_items (held_output trace entry visited tasks) \<noteq> []" by (simp add: held_output_def)
  then obtain st r where "node_op (dp_rt D) path (CompleteWork (held_output trace entry visited tasks)) (ds_store s) = Inr (st, r)"
    "hd (list_items r) = PStr ''stop''" "store_ok st" "\<forall>k. nq_pending (view (item_of st k)) = pending_at s k \<and> nq_delete (view (item_of st k)) = deleting_at s k"
    "nq_held (node_view (dp_rt D) path st) = nq_held (node_view (dp_rt D) path (ds_store s)) @ [held_output trace entry visited tasks]"
    using complete_effect [OF assms(1,2), of "dp_rt D" "held_output trace entry visited tasks"] assms(3) by (auto simp del: node_op.simps)
  then show ?thesis using assms(4) by (simp add: finish_run_def held_value_def Let_def del: node_op.simps)
qed

text \<open>A directory whose configuration bears no name does not give its own: it counts as a node called \<open>node\<close>, because the name that is
  missing is made one before the directory is asked for.\<close>

lemma unnamed_node_resolves_elsewhere:
  assumes "gw_entries W (sanitize_graph_id graph) \<noteq> None" "gw_config W (sanitize_graph_id graph) (sanitize_node_id node) = Some config"
    and "get config ''node_id'' = PNone"
  shows "resolve_existing_node_id W graph node = ''node''"
  using assms by (auto simp: resolve_existing_node_id_def resolve_existing_node_location_def resolve_location_def canonical_id_def
      sanitize_node_id_def text_of_def str_or_def)

section \<open>Witnesses\<close>

definition sample_world :: graph_world where
  "sample_world = \<lparr>gw_graphs = [''default''], gw_document = (\<lambda>_. Document (PDict [(''output_routes'', sample_routes)])),
     gw_entries = (\<lambda>_. Some [''a'', ''b'', ''c'']), gw_config = (\<lambda>_ n. if n \<in> {''a'', ''b'', ''c''} then Some [(''node_id'', PStr n)] else None),
     gw_join = (\<lambda>g n. g @ ''/'' @ n)\<rparr>"

definition sample_work :: node_work where
  "sample_work = \<lparr>nw_message = [], nw_trace = ''t'', nw_link = [], nw_from_port = 0, nw_to_port = 0, nw_source = [], nw_depth = 0, nw_visited = []\<rparr>"

definition sample_output :: "pyval list" where
  "sample_output = [PDict [(''output_index'', PInt 2), (''payload'', PStr ''hi'')]]"

lemma sample_routes_any: "normalize_output_routes sample_routes None = Inr (enc sample_wiring)"
  by (simp add: sample_routes_def sample_wiring_def normalize_output_routes_def norm_source_def enc_def
      enc_route_def id_allowed_def strip_eval Let_def dict_set_def)

lemma tasks_follow_wires_witness:
  "\<exists>A og. enc sample_wiring = enc A \<and> build_outgoing_routes_map [(''output_routes'', sample_routes)] = Inr og
    \<and> propagation_tasks sample_world (\<lambda>_ _. []) (\<lambda>_. sample_msg_env) ''default'' ''a'' [] og [] sample_work sample_output
      = Inr (wired_tasks sample_world (\<lambda>_. sample_msg_env) ''default'' ''a'' (nw_depth sample_work) (access_metadata []) A sample_output)"
  by (rule tasks_follow_wires) (simp_all add: sample_routes_any text_of_def str_or_def)

lemma sample_env_ok: "env_ok sample_msg_env" "gw_join sample_world g s \<noteq> []"
  by (simp_all add: env_ok_def sample_msg_env_def sample_world_def)

definition sample_dispatch :: dispatch_env where
  "sample_dispatch = \<lparr>dp_rt = sample_env, dp_owner = ''o''\<rparr>"

definition fresh_state :: dispatch_state where
  "fresh_state = \<lparr>ds_store = empty_store, ds_woken = []\<rparr>"

lemma empty_view: "view (item_of empty_store k) = \<lparr>nq_state = Idle, nq_pending = [], nq_inflight = None, nq_stop = False,
    nq_delete = False, nq_clock = False, nq_seq = 0, nq_held = [], nq_done = []\<rparr>"
  using view_empty by (simp add: empty_store_def item_of_def)

lemma output_reaches_queues_witness:
  "\<exists>tasks t e. propagation_tasks sample_world (\<lambda>_ _. []) (\<lambda>_. sample_msg_env) ''default'' ''a'' [] (wiring_links sample_wiring) [] sample_work sample_output
      = Inr tasks
    \<and> finish_run (\<lambda>_. sample_msg_env) sample_dispatch ''a'' ''default'' ''a'' ''t'' [] [0..<length tasks] tasks fresh_state = (t, e)
    \<and> (store_ok (ds_store t) \<and> (length tasks \<noteq> 1 \<longrightarrow> e = None) \<and> (\<forall>k. pending_at t k = pending_at fresh_state k
      @ map (sent_item (dp_owner sample_dispatch) ''a'' ''t'' []) (filter (arrives sample_dispatch fresh_state k) (map (nth tasks) [0..<length tasks]))))"
proof -
  obtain tasks where t: "propagation_tasks sample_world (\<lambda>_ _. []) (\<lambda>_. sample_msg_env) ''default'' ''a'' [] (wiring_links sample_wiring) [] sample_work sample_output
      = Inr tasks" by (simp add: propagation_tasks_def event_tasks_def text_of_def str_or_def Let_def)
  obtain s e where f: "finish_run (\<lambda>_. sample_msg_env) sample_dispatch ''a'' ''default'' ''a'' ''t'' [] [0..<length tasks] tasks fresh_state = (s, e)" by fastforce
  have "end_state (type_id_of (dp_rt sample_dispatch) ''a'') (node_view (dp_rt sample_dispatch) ''a'' (ds_store fresh_state)) \<noteq> Stop"
    by (simp add: fresh_state_def empty_view end_state_def)
  then show ?thesis using output_reaches_queues [OF t sample_env_ok _ _ _ _ _ f] t f by (simp add: fresh_state_def store_ok_empty atLeast0LessThan)
qed

text \<open>A node that holds the task of one wire.\<close>

definition sample_task :: pydict where
  "sample_task = wire_task sample_world ''default'' ''a'' 0 [] (normalize_envelope sample_msg_env (PStr ''hi'') ''assistant'') (2, ''b'', 1)"

definition sample_held :: held where
  "sample_held = (''t'', ''a'', [''a''], [sample_task])"

lemma sample_task_sendable: "sendable sample_task"
  unfolding sample_task_def using sample_env_ok by (intro wire_task_sendable env_ok_envelope) simp_all

lemma sample_held_ok: "held_ok sample_held" "held_tasks sample_held = [sample_task]"
  by (simp_all add: held_ok_def sample_held_def held_tasks_def strip_eval)

lemma sample_holding:
  obtains s where "store_ok (ds_store s)" "nq_held (node_view (dp_rt sample_dispatch) ''a'' (ds_store s)) = map held_value [sample_held]"
    "\<And>k. pending_at s k = []" "\<And>k. \<not> deleting_at s k"
proof -
  have stop: "parse_node_state (PStr ''stop'') = Stop" by (simp add: parse_node_state_def strip_eval py_lower_def lower_char_def)
  obtain st r where st: "store_ok st"
    "node_view sample_env ''a'' st = (to_state Stop (node_view sample_env ''a'' empty_store))\<lparr>nq_stop := False\<rparr>"
    "\<forall>k. k \<noteq> env_key sample_env ''a'' \<longrightarrow> item_of st k = item_of empty_store k"
    using node_op_simulates [OF store_ok_empty, of "''a''" sample_env "UpdateState (PStr ''stop'')"]
    by (auto simp: empty_view stop simp del: node_op.simps)
  have v: "nq_pending (view (item_of st k)) = [] \<and> \<not> nq_delete (view (item_of st k)) \<and> nq_held (view (item_of st k)) = []" for k
    using st(2,3) by (cases "k = env_key sample_env ''a''") (simp_all add: empty_view to_state_def tick_def)
  let ?s = "\<lparr>ds_store = st, ds_woken = []\<rparr>"
  have fin: "end_state (type_id_of (dp_rt sample_dispatch) ''a'') (node_view (dp_rt sample_dispatch) ''a'' (ds_store ?s)) = Stop"
    using st(2) by (simp add: end_state_def sample_dispatch_def)
  have "store_ok (ds_store ?s)" using st(1) by simp
  from paused_output_raises [OF this _ fin, of "[sample_task]" "\<lambda>_. sample_msg_env" "''default''" "''a''" "''t''" "[''a'']" "[0]"]
  obtain t where "nq_held (node_view (dp_rt sample_dispatch) ''a'' (ds_store t)) = [held_value sample_held]" "store_ok (ds_store t)"
    "\<forall>k. pending_at t k = [] \<and> \<not> deleting_at t k" using v by (fastforce simp: sample_held_def)
  then show ?thesis using that by simp
qed

lemma held_outputs_released_witness:
  "\<exists>s t. store_ok (ds_store s) \<and> set_node_instance_state (\<lambda>_. sample_msg_env) sample_dispatch ''a'' ''default'' ''a'' True (PStr ''idle'') s
      = (t, Inr (Idle, length [sample_held], sum_list (map (\<lambda>h. length (held_tasks h)) [sample_held])))
    \<and> nq_held (node_view (dp_rt sample_dispatch) ''a'' (ds_store t)) = [] \<and> nq_state (node_view (dp_rt sample_dispatch) ''a'' (ds_store t)) = Idle
    \<and> (\<forall>k. pending_at t k = pending_at s k @ concat (map (held_items sample_dispatch s k) [sample_held]))"
proof -
  have idle: "parse_node_state (PStr ''idle'') = Idle" by (simp add: parse_node_state_def strip_eval py_lower_def lower_char_def)
  obtain s where s: "store_ok (ds_store s)" "nq_held (node_view (dp_rt sample_dispatch) ''a'' (ds_store s)) = map held_value [sample_held]"
    "\<And>k. \<not> deleting_at s k" using sample_holding by metis
  show ?thesis using held_outputs_released [OF s(1) _ s(3) idle s(2), of "\<lambda>_. sample_msg_env" "''default''" "''a''"] s(1,3) sample_held_ok sample_task_sendable by auto
qed

lemma resume_drops_outputs_witness:
  "\<exists>s t e. store_ok (ds_store s) \<and> nq_held (node_view (dp_rt sample_dispatch) ''a'' (ds_store s)) = [held_value sample_held]
    \<and> set_node_instance_state (\<lambda>_. sample_msg_env) sample_dispatch ''a'' ''default'' ''a'' True (PStr ''idle'') s = (t, Inl (StateFailed e))
    \<and> nq_held (node_view (dp_rt sample_dispatch) ''a'' (ds_store t)) = [] \<and> (\<forall>k. pending_at t k = pending_at s k)"
proof -
  have idle: "parse_node_state (PStr ''idle'') = Idle" by (simp add: parse_node_state_def strip_eval py_lower_def lower_char_def)
  obtain s where s: "store_ok (ds_store s)" "nq_held (node_view (dp_rt sample_dispatch) ''a'' (ds_store s)) = map held_value [sample_held]"
    "\<And>k. \<not> deleting_at s k" using sample_holding by metis
  let ?path = "''default/b''"
  obtain st where st: "store_ok st" "nq_delete (node_view sample_env ?path st)" "\<forall>k. k \<noteq> env_key sample_env ?path \<longrightarrow> item_of st k = item_of (ds_store s) k"
    using node_op_simulates [OF s(1), of ?path sample_env MarkDelete] by (auto simp: Let_def simp del: node_op.simps)
  have key: "task_key sample_dispatch sample_task = ?path"
    by (simp add: task_key_def sample_dispatch_def sample_env_def sample_task_def wire_task_def str_or_def node_config_path_def sample_world_def
        node_storage_def resolve_existing_node_location_def resolve_location_def sanitize_graph_id_def sanitize_node_id_def
        strip_eval ascii_word_def path_char_def Let_def char_code_def)
  define u where "u = \<lparr>ds_store = st, ds_woken = []\<rparr>"
  have "''a'' \<noteq> ?path" by simp
  then have a: "item_of st ''a'' = item_of (ds_store s) ''a''" using st(3) by (simp add: sample_env_def)
  have u: "store_ok (ds_store u)" "\<not> deleting_at u (env_key (dp_rt sample_dispatch) ''a'')" "deleting_at u (task_key sample_dispatch sample_task)"
    "nq_held (node_view (dp_rt sample_dispatch) ''a'' (ds_store u)) = map held_value ((''t'', ''a'', [''a''], sample_task # []) # [])"
    using st(1,2) s(2,3) a key by (simp_all add: u_def sample_dispatch_def sample_env_def sample_held_def)
  show ?thesis using resume_drops_outputs [OF u(1) _ u(2) idle u(4) _ sample_task_sendable u(3), of "\<lambda>_. sample_msg_env" "''default''" "''a''"]
      u(1,4) sample_held_ok(1) by (auto simp: sample_held_def)
qed

end
