(* ===== verification/AccessPolicy.thy ===== *)
theory AccessPolicy
  imports PyValue
begin

text \<open>
  Who is a developer (\<open>access_policy.py\<close>, \<open>web_backend/access_api.py\<close>): the policy file
  with its validation, registration of remote users, and the role a request gets. The file is absent,
  unreadable, or holds a JSON value; writes replace it as a whole under its lock. Keys of user names are
  taken of names that are already validated, where validating again is the identity.
\<close>

section \<open>Users\<close>

datatype policy_error = AccessPolicyError string

type_synonym 'a policy_res = "(policy_error, 'a) res"

record policy_user =
  pu_clients :: "string list"
  pu_username :: string
  pu_developer :: bool
  pu_ips :: "string list"
  pu_first :: string
  pu_last :: string

record access_policy =
  ap_users :: "policy_user list"
  ap_filtered :: "string list"

definition DEFAULT_NONDEVELOPER_FILTERED_TOOLS :: "string list" where
  "DEFAULT_NONDEVELOPER_FILTERED_TOOLS = [''agent_patch_tools'', ''apply_patch_tool'', ''capability_management_tools'', ''code_edit_tools'',
     ''console_tools'', ''console_session_tools'', ''file_write_tools'', ''shell_tools'', ''system_tools'']"

definition default_access_policy :: access_policy where
  "default_access_policy = \<lparr>ap_users = [], ap_filtered = DEFAULT_NONDEVELOPER_FILTERED_TOOLS\<rparr>"

definition is_alnum :: "char \<Rightarrow> bool" where
  "is_alnum c \<longleftrightarrow> is_digit c \<or> (65 \<le> char_code c \<and> char_code c \<le> 90) \<or> (97 \<le> char_code c \<and> char_code c \<le> 122)"

definition client_id_ok :: "string \<Rightarrow> bool" where
  "client_id_ok s = (case s of [] \<Rightarrow> False
     | c # cs \<Rightarrow> is_alnum c \<and> length cs \<le> 127 \<and> list_all (\<lambda>c. is_alnum c \<or> c \<in> set ''._:-'') cs)"

definition client_id :: "pyval \<Rightarrow> string policy_res" where
  "client_id v = (if client_id_ok (text_of v) then Inr (text_of v) else Inl (AccessPolicyError ''clientId is invalid''))"

definition username_ok :: "string \<Rightarrow> bool" where
  "username_ok s \<longleftrightarrow> s \<noteq> [] \<and> length s \<le> 80 \<and> list_all (\<lambda>c. 32 \<le> char_code c) s"

definition username_of :: "pyval \<Rightarrow> string policy_res" where
  "username_of v = (if username_ok (text_of v) then Inr (text_of v)
     else Inl (AccessPolicyError ''username must contain 1 to 80 visible characters''))"

text \<open>Keeping the first of the elements with the same key.\<close>

fun dedup :: "('a \<Rightarrow> 'k) \<Rightarrow> 'k list \<Rightarrow> 'a list \<Rightarrow> 'a list" where
  "dedup key seen [] = []"
| "dedup key seen (x # xs) = (if key x \<in> set seen then dedup key seen xs else x # dedup key (key x # seen) xs)"

definition user_client_ids :: "pydict \<Rightarrow> string list policy_res" where
  "user_client_ids raw = (if \<not> dict_has raw ''clientIds'' then rbind (client_id (get raw ''clientId'')) (\<lambda>c. Inr [c])
     else case get raw ''clientIds'' of
       PList vs \<Rightarrow> if length vs > 100 then Inl (AccessPolicyError ''clientIds cannot contain more than 100 entries'')
         else (case rmap client_id vs of Inl e \<Rightarrow> Inl (AccessPolicyError ''clientIds is invalid'') | Inr cs \<Rightarrow> Inr (dedup id [] cs))
     | _ \<Rightarrow> Inl (AccessPolicyError ''clientIds must be an array''))"

definition string_item :: "pyval \<Rightarrow> string policy_res" where
  "string_item v = (case v of PStr s \<Rightarrow> if py_strip s = [] then Inl (AccessPolicyError ''must be a non-empty string'') else Inr (py_strip s)
     | _ \<Rightarrow> Inl (AccessPolicyError ''must be a non-empty string''))"

definition string_list :: "nat \<Rightarrow> pyval \<Rightarrow> string list policy_res" where
  "string_list maximum v = (case v of
      PList vs \<Rightarrow> if length vs > maximum then Inl (AccessPolicyError ''too many entries'')
        else rbind (rmap string_item vs) (\<lambda>ss. Inr (dedup py_casefold [] ss))
    | _ \<Rightarrow> Inl (AccessPolicyError ''must be an array''))"

definition merge_unique :: "string list \<Rightarrow> string list \<Rightarrow> string list" where
  "merge_unique l r = last_n 100 (dedup py_casefold [] (l @ r))"

definition earliest_nonempty :: "string \<Rightarrow> string \<Rightarrow> string" where
  "earliest_nonempty l r = (if l = [] then r else if r = [] then l else min l r)"

definition latest_nonempty :: "string \<Rightarrow> string \<Rightarrow> string" where
  "latest_nonempty l r = (if l = [] then r else if r = [] then l else max l r)"

definition merge_same_username_users :: "policy_user \<Rightarrow> policy_user \<Rightarrow> policy_user" where
  "merge_same_username_users a b = \<lparr>pu_clients = merge_unique (pu_clients a) (pu_clients b), pu_username = pu_username a,
     pu_developer = (pu_developer a \<or> pu_developer b), pu_ips = merge_unique (pu_ips a) (pu_ips b),
     pu_first = earliest_nonempty (pu_first a) (pu_first b), pu_last = latest_nonempty (pu_last a) (pu_last b)\<rparr>"

section \<open>Validation\<close>

abbreviation user_key :: "policy_user \<Rightarrow> string" where
  "user_key u \<equiv> py_casefold (pu_username u)"

definition normalized_user :: "pyval \<Rightarrow> policy_user policy_res" where
  "normalized_user v = (case v of
      PDict raw \<Rightarrow> rbind (username_of (get raw ''username'')) (\<lambda>name.
        rbind (user_client_ids raw) (\<lambda>clients.
        rbind (string_list 100 (getd raw ''ips'' (PList []))) (\<lambda>ips.
        Inr \<lparr>pu_clients = clients, pu_username = name, pu_developer = (get raw ''developer'' = PBool True), pu_ips = ips,
          pu_first = text_of (get raw ''firstSeenAt''), pu_last = text_of (get raw ''lastSeenAt'')\<rparr>)))
    | _ \<Rightarrow> Inl (AccessPolicyError ''users must be objects''))"

text \<open>The index of a key is where the user with that key is; merging keeps the name and so the key.\<close>

definition add_user :: "policy_user \<Rightarrow> policy_user list \<Rightarrow> policy_user list" where
  "add_user u users = (if list_ex (\<lambda>x. user_key x = user_key u) users
     then map (\<lambda>x. if user_key x = user_key u then merge_same_username_users x u else x) users
     else users @ [u])"

definition claim_client :: "string \<times> string \<Rightarrow> string dict \<Rightarrow> string dict policy_res" where
  "claim_client ck owners = (case map_of owners (fst ck) of
      Some key \<Rightarrow> if key \<noteq> snd ck then Inl (AccessPolicyError ''clientId belongs to multiple usernames'')
        else Inr (dict_set (fst ck) (snd ck) owners)
    | None \<Rightarrow> Inr (dict_set (fst ck) (snd ck) owners))"

definition client_claims :: "policy_user list \<Rightarrow> (string \<times> string) list" where
  "client_claims users = concat (map (\<lambda>u. map (\<lambda>c. (c, user_key u)) (pu_clients u)) users)"

definition validate_access_policy :: "pyval \<Rightarrow> access_policy policy_res" where
  "validate_access_policy v = (case v of
      PDict p \<Rightarrow>
        if \<not> set (dict_keys p) \<subseteq> {''users'', ''nonDeveloperFilteredTools''} then Inl (AccessPolicyError ''unsupported access policy fields'')
        else (case getd p ''users'' (PList []) of
          PList raw \<Rightarrow>
            if length raw > 1000 then Inl (AccessPolicyError ''users cannot contain more than 1000 entries'')
            else rbind (rfold (\<lambda>r us. rbind (normalized_user r) (\<lambda>u. Inr (add_user u us))) raw []) (\<lambda>users.
              rbind (rfold claim_client (client_claims users) []) (\<lambda>_.
              rbind (string_list 500 (getd p ''nonDeveloperFilteredTools'' (PList (map PStr DEFAULT_NONDEVELOPER_FILTERED_TOOLS)))) (\<lambda>filtered.
              Inr \<lparr>ap_users = users, ap_filtered = filtered\<rparr>)))
        | _ \<Rightarrow> Inl (AccessPolicyError ''users must be an array''))
    | _ \<Rightarrow> Inl (AccessPolicyError ''access policy must be an object''))"

definition user_val :: "policy_user \<Rightarrow> pyval" where
  "user_val u = PDict [(''clientIds'', PList (map PStr (pu_clients u))), (''username'', PStr (pu_username u)),
     (''developer'', PBool (pu_developer u)), (''ips'', PList (map PStr (pu_ips u))),
     (''firstSeenAt'', PStr (pu_first u)), (''lastSeenAt'', PStr (pu_last u))]"

definition policy_val :: "access_policy \<Rightarrow> pyval" where
  "policy_val p = PDict [(''users'', PList (map user_val (ap_users p))), (''nonDeveloperFilteredTools'', PList (map PStr (ap_filtered p)))]"

section \<open>The file\<close>

datatype policy_file = NoPolicy | BadPolicy | PolicyFile pyval

definition load_access_policy :: "policy_file \<Rightarrow> access_policy policy_res" where
  "load_access_policy f = (case f of NoPolicy \<Rightarrow> Inr default_access_policy
     | BadPolicy \<Rightarrow> Inl (AccessPolicyError ''failed to read'')
     | PolicyFile v \<Rightarrow> validate_access_policy v)"

definition save_access_policy :: "pyval \<Rightarrow> policy_file \<Rightarrow> (policy_file \<times> access_policy) policy_res" where
  "save_access_policy payload f = rbind (validate_access_policy payload) (\<lambda>p. Inr (PolicyFile (policy_val p), p))"

fun index_where :: "('a \<Rightarrow> bool) \<Rightarrow> 'a list \<Rightarrow> nat option" where
  "index_where P [] = None"
| "index_where P (x # xs) = (if P x then Some 0 else map_option Suc (index_where P xs))"

definition seen_user :: "string \<Rightarrow> string \<Rightarrow> policy_user \<Rightarrow> policy_user" where
  "seen_user client now u = u\<lparr>pu_last := now,
     pu_clients := if client \<in> set (pu_clients u) then pu_clients u else last_n 100 (pu_clients u @ [client])\<rparr>"

definition with_ip :: "string \<Rightarrow> policy_user \<Rightarrow> policy_user" where
  "with_ip ip u = (if ip \<noteq> [] \<and> ip \<notin> set (pu_ips u) then u\<lparr>pu_ips := last_n 100 (pu_ips u @ [ip])\<rparr> else u)"

definition match_index :: "string \<Rightarrow> string \<Rightarrow> policy_user list \<Rightarrow> nat option" where
  "match_index client name users = (case index_where (\<lambda>u. client \<in> set (pu_clients u)) users of
      Some i \<Rightarrow> Some i
    | None \<Rightarrow> index_where (\<lambda>u. user_key u = py_casefold name) users)"

definition register_remote_user ::
    "pyval \<Rightarrow> pyval \<Rightarrow> pyval \<Rightarrow> string \<Rightarrow> policy_file \<Rightarrow> (policy_file \<times> policy_user) policy_res" where
  "register_remote_user client_v username_v ip_v now f =
     rbind (client_id client_v) (\<lambda>client.
     rbind (username_of username_v) (\<lambda>name.
     rbind (load_access_policy f) (\<lambda>policy. let users = ap_users policy; ip = text_of ip_v in
     case match_index client name users of
       None \<Rightarrow> if length users \<ge> 1000 then Inl (AccessPolicyError ''users cannot contain more than 1000 entries'')
         else (let m = with_ip ip \<lparr>pu_clients = [client], pu_username = name, pu_developer = False, pu_ips = [],
             pu_first = now, pu_last = now\<rparr>
           in Inr (PolicyFile (policy_val (policy\<lparr>ap_users := users @ [m]\<rparr>)), m))
     | Some i \<Rightarrow> (let m = with_ip ip (seen_user client now (users ! i))
           in Inr (PolicyFile (policy_val (policy\<lparr>ap_users := users[i := m]\<rparr>)), m)))))"

definition nondeveloper_filtered_tools :: "policy_file \<Rightarrow> string list policy_res" where
  "nondeveloper_filtered_tools f = rbind (load_access_policy f) (\<lambda>p. Inr (ap_filtered p))"

section \<open>Requests\<close>

text \<open>What a request carries: the peer it is authenticated as and whether that peer administers the
  board, whether it comes from this machine, and the two headers.\<close>

record access_request =
  rq_peer :: "(string \<times> string \<times> bool) option"
  rq_local :: bool
  rq_client :: string
  rq_username :: string
  rq_ip :: string

record access_status =
  as_client :: string
  as_username :: string
  as_developer :: bool
  as_local :: bool
  as_username_required :: bool
  as_ip :: string

datatype http_error = Http nat

definition get_status :: "access_request \<Rightarrow> string \<Rightarrow> policy_file \<Rightarrow> (http_error, policy_file \<times> access_status) res" where
  "get_status rq now f = (case rq_peer rq of
      Some (pid, name, admin) \<Rightarrow> Inr (f, \<lparr>as_client = ''peer:'' @ pid, as_username = name, as_developer = admin, as_local = False,
        as_username_required = False, as_ip = ''peer:'' @ pid\<rparr>)
    | None \<Rightarrow>
        if rq_local rq then Inr (f, \<lparr>as_client = ''local'', as_username = ''Local'', as_developer = True, as_local = True,
          as_username_required = False, as_ip = py_strip (rq_ip rq)\<rparr>)
        else let client = py_strip (rq_client rq); name = py_strip (rq_username rq); ip = py_strip (rq_ip rq) in
          if client = [] \<or> name = [] then Inr (f, \<lparr>as_client = client, as_username = name, as_developer = False, as_local = False,
            as_username_required = True, as_ip = ip\<rparr>)
          else case register_remote_user (PStr client) (PStr name) (PStr ip) now f of
            Inl e \<Rightarrow> Inl (Http 400)
          | Inr (f', u) \<Rightarrow> Inr (f', \<lparr>as_client = client, as_username = pu_username u, as_developer = pu_developer u, as_local = False,
              as_username_required = False, as_ip = ip\<rparr>))"

text \<open>Errors after the status was taken leave the registration in the file.\<close>

definition require_developer :: "access_request \<Rightarrow> string \<Rightarrow> policy_file \<Rightarrow> policy_file \<times> (http_error, access_status) res" where
  "require_developer rq now f = (case get_status rq now f of
      Inl e \<Rightarrow> (f, Inl e)
    | Inr (f', st) \<Rightarrow> (f', if as_developer st then Inr st else Inl (Http 403)))"

definition get_settings :: "access_request \<Rightarrow> string \<Rightarrow> policy_file \<Rightarrow> policy_file \<times> (http_error, access_policy) res" where
  "get_settings rq now f = (case require_developer rq now f of
      (f', Inl e) \<Rightarrow> (f', Inl e)
    | (f', Inr st) \<Rightarrow> (f', case load_access_policy f' of Inl e \<Rightarrow> Inl (Http 500) | Inr p \<Rightarrow> Inr p))"

definition update_settings :: "pyval \<Rightarrow> access_request \<Rightarrow> string \<Rightarrow> policy_file \<Rightarrow> policy_file \<times> (http_error, access_policy) res" where
  "update_settings payload rq now f = (case require_developer rq now f of
      (f', Inl e) \<Rightarrow> (f', Inl e)
    | (f', Inr st) \<Rightarrow> (case save_access_policy payload f' of Inl e \<Rightarrow> (f', Inl (Http 400)) | Inr (f'', p) \<Rightarrow> (f'', Inr p)))"

definition message_access_metadata ::
    "access_request \<Rightarrow> string \<Rightarrow> policy_file \<Rightarrow> policy_file \<times> (http_error, string \<times> string \<times> string \<times> string) res" where
  "message_access_metadata rq now f = (case get_status rq now f of
      Inl e \<Rightarrow> (f, Inl e)
    | Inr (f', st) \<Rightarrow> (f', if as_username_required st then Inl (Http 401)
        else Inr (as_client st, as_username st, if as_developer st then ''developer'' else ''nondeveloper'', as_ip st)))"

end
