(* ===== verification/AccessLaws.thy ===== *)
theory AccessLaws
  imports AccessPolicy
begin

text \<open>
  What the policy guarantees: a stored policy reads back unchanged, registering keeps it readable, and
  requests that do not identify themselves as a developer never change who is one.
\<close>

section \<open>Duplicates\<close>

lemma dedup_set: "set (dedup key seen xs) \<subseteq> set xs"
  by (induction key seen xs rule: dedup.induct) auto

lemma dedup_keys: "distinct (map key (dedup key seen xs)) \<and> key ` set (dedup key seen xs) \<inter> set seen = {}"
  by (induction key seen xs rule: dedup.induct) auto

lemma dedup_length: "length (dedup key seen xs) \<le> length xs"
  by (induction key seen xs rule: dedup.induct) auto

lemma dedup_noop: "distinct (map key xs) \<Longrightarrow> key ` set xs \<inter> set seen = {} \<Longrightarrow> dedup key seen xs = xs"
  by (induction key seen xs rule: dedup.induct) auto

lemma distinct_last_n: "distinct (map key xs) \<Longrightarrow> distinct (map key (last_n n xs))"
  by (simp add: last_n_def drop_map [symmetric] distinct_drop)

section \<open>Well-formed policies\<close>

definition texts_ok :: "string list \<Rightarrow> bool" where
  "texts_ok ss \<longleftrightarrow> list_all (\<lambda>s. s \<noteq> [] \<and> py_strip s = s) ss"

text \<open>What reading needs of a user; the tidy part is what it repairs.\<close>

definition user_ok :: "policy_user \<Rightarrow> bool" where
  "user_ok u \<longleftrightarrow> username_ok (pu_username u) \<and> py_strip (pu_username u) = pu_username u
     \<and> list_all client_id_ok (pu_clients u) \<and> distinct (pu_clients u) \<and> length (pu_clients u) \<le> 100
     \<and> texts_ok (pu_ips u) \<and> length (pu_ips u) \<le> 100 \<and> py_strip (pu_first u) = pu_first u \<and> py_strip (pu_last u) = pu_last u"

definition tidy_user :: "policy_user \<Rightarrow> policy_user" where
  "tidy_user u = u\<lparr>pu_ips := dedup py_casefold [] (pu_ips u)\<rparr>"

definition owners_ok :: "policy_user list \<Rightarrow> bool" where
  "owners_ok us \<longleftrightarrow> (\<forall>u \<in> set us. \<forall>v \<in> set us. set (pu_clients u) \<inter> set (pu_clients v) \<noteq> {} \<longrightarrow> user_key u = user_key v)"

definition policy_readable :: "access_policy \<Rightarrow> bool" where
  "policy_readable p \<longleftrightarrow> length (ap_users p) \<le> 1000 \<and> list_all user_ok (ap_users p) \<and> distinct (map user_key (ap_users p))
     \<and> owners_ok (ap_users p) \<and> texts_ok (ap_filtered p) \<and> distinct (map py_casefold (ap_filtered p)) \<and> length (ap_filtered p) \<le> 500"

definition policy_ok :: "access_policy \<Rightarrow> bool" where
  "policy_ok p \<longleftrightarrow> policy_readable p \<and> list_all (\<lambda>u. distinct (map py_casefold (pu_ips u))) (ap_users p)"

section \<open>Reading what was written\<close>

lemma alnum_not_space: "is_alnum c \<or> c \<in> set ''._:-'' \<Longrightarrow> \<not> is_space c"
  by (auto simp: is_alnum_def is_digit_def is_space_def char_code_def)

lemma strip_client_id:
  assumes "client_id_ok s"
  shows "py_strip s = s"
proof -
  obtain c cs where s: "s = c # cs" using assms by (auto simp: client_id_ok_def split: list.splits)
  then have "\<forall>x \<in> set s. \<not> is_space x" using assms alnum_not_space by (auto simp: client_id_ok_def list_all_iff)
  then show ?thesis using s by (intro py_strip_noop) auto
qed

lemma text_of_PStr: "text_of (PStr s) = py_strip s"
  by (simp add: text_of_def str_or_def)

lemma client_id_PStr: "client_id_ok s \<Longrightarrow> client_id (PStr s) = Inr s"
  by (simp add: client_id_def text_of_PStr strip_client_id)

lemma rmap_PStr: "(\<And>s. s \<in> set ss \<Longrightarrow> f (PStr s) = Inr s) \<Longrightarrow> rmap f (map PStr ss) = Inr ss"
  by (induction ss) auto

lemma string_list_PStr: "texts_ok ss \<Longrightarrow> length ss \<le> m \<Longrightarrow> string_list m (PList (map PStr ss)) = Inr (dedup py_casefold [] ss)"
  by (simp add: string_list_def rmap_PStr texts_ok_def list_all_iff string_item_def)

lemma normalized_user_val: "user_ok u \<Longrightarrow> normalized_user (user_val u) = Inr (tidy_user u)"
  by (simp add: user_ok_def normalized_user_def user_val_def username_of_def text_of_PStr user_client_ids_def dict_has_def rmap_PStr
      client_id_PStr list_all_iff string_list_PStr dedup_noop tidy_user_def)

lemma user_key_tidy [simp]: "user_key (tidy_user u) = user_key u" "pu_clients (tidy_user u) = pu_clients u"
  by (simp_all add: tidy_user_def)

lemma read_users:
  assumes "list_all user_ok us" "distinct (map user_key (done @ us))"
  shows "rfold (\<lambda>r us. rbind (normalized_user r) (\<lambda>u. Inr (add_user u us))) (map user_val us) done = Inr (done @ map tidy_user us)"
  using assms
proof (induction us arbitrary: "done")
  case (Cons u us)
  have "user_key u \<notin> user_key ` set done" using Cons.prems(2) by auto
  then have "\<not> list_ex (\<lambda>x. user_key x = user_key u) done" unfolding list_ex_iff by (metis imageI)
  then have "add_user (tidy_user u) done = done @ [tidy_user u]" by (simp add: add_user_def)
  moreover have "distinct (map user_key ((done @ [tidy_user u]) @ us))" using Cons.prems(2) by simp
  ultimately show ?case using Cons.IH [of "done @ [tidy_user u]"] Cons.prems(1) by (simp add: normalized_user_val)
qed simp

lemma claims_single_valued:
  "(\<exists>r. rfold claim_client cs owners = Inr r) \<longleftrightarrow> single_valued ({(c, k). map_of owners c = Some k} \<union> set cs)"
proof (induction cs arbitrary: owners)
  case Nil
  then show ?case by (auto simp: single_valued_def)
next
  case (Cons ck cs)
  obtain c k where ck: "ck = (c, k)" by force
  show ?case
  proof (cases "map_of owners c = None \<or> map_of owners c = Some k")
    case True
    then have "{(c', k'). map_of (dict_set c k owners) c' = Some k'} = insert (c, k) {(c', k'). map_of owners c' = Some k'}"
      by (auto split: if_splits)
    then show ?thesis using True Cons.IH [of "dict_set c k owners"] by (auto simp: ck claim_client_def)
  next
    case False
    then obtain k' where "map_of owners c = Some k'" "k' \<noteq> k" by auto
    then show ?thesis by (auto simp: ck claim_client_def single_valued_def)
  qed
qed

lemma claims_owners: "single_valued (set (client_claims us)) \<longleftrightarrow> owners_ok us"
proof -
  have "set (client_claims us) = {(c, k). \<exists>u \<in> set us. c \<in> set (pu_clients u) \<and> k = user_key u}" by (auto simp: client_claims_def)
  then have m: "(c, k) \<in> set (client_claims us) \<longleftrightarrow> (\<exists>u \<in> set us. c \<in> set (pu_clients u) \<and> k = user_key u)" for c k by simp
  show ?thesis
  proof
    assume sv: "single_valued (set (client_claims us))"
    show "owners_ok us"
    proof (unfold owners_ok_def, intro ballI impI)
      fix u v assume uv: "u \<in> set us" "v \<in> set us" "set (pu_clients u) \<inter> set (pu_clients v) \<noteq> {}"
      then obtain c where "c \<in> set (pu_clients u)" "c \<in> set (pu_clients v)" by blast
      then have "(c, user_key u) \<in> set (client_claims us)" "(c, user_key v) \<in> set (client_claims us)" using uv m by blast+
      then show "user_key u = user_key v" by (rule single_valuedD [OF sv])
    qed
  next
    assume ow: "owners_ok us"
    show "single_valued (set (client_claims us))"
    proof (rule single_valuedI)
      fix c k k' assume "(c, k) \<in> set (client_claims us)" "(c, k') \<in> set (client_claims us)"
      then obtain u v where "u \<in> set us" "c \<in> set (pu_clients u)" "k = user_key u" "v \<in> set us" "c \<in> set (pu_clients v)" "k' = user_key v"
        using m by blast
      then show "k = k'" using ow unfolding owners_ok_def by blast
    qed
  qed
qed

lemma claims_ok_iff: "(\<exists>r. rfold claim_client (client_claims us) [] = Inr r) \<longleftrightarrow> owners_ok us"
  using claims_single_valued [of "client_claims us" "[]"] claims_owners by simp

lemma owners_ok_tidy: "owners_ok (map tidy_user us) \<longleftrightarrow> owners_ok us"
  by (simp add: owners_ok_def)

lemma read_policy_val:
  assumes "policy_readable p"
  shows "validate_access_policy (policy_val p) = Inr (p\<lparr>ap_users := map tidy_user (ap_users p)\<rparr>)"
proof -
  obtain r where "rfold claim_client (client_claims (map tidy_user (ap_users p))) [] = Inr r"
    using claims_ok_iff [of "map tidy_user (ap_users p)"] assms by (auto simp: owners_ok_tidy policy_readable_def)
  moreover have "rfold (\<lambda>r us. rbind (normalized_user r) (\<lambda>u. Inr (add_user u us))) (map user_val (ap_users p)) [] = Inr (map tidy_user (ap_users p))"
    using read_users [of "ap_users p" "[]"] assms by (simp add: policy_readable_def)
  moreover have "string_list 500 (PList (map PStr (ap_filtered p))) = Inr (ap_filtered p)"
    using assms by (simp add: string_list_PStr policy_readable_def dedup_noop)
  ultimately show ?thesis using assms by (simp add: validate_access_policy_def policy_val_def policy_readable_def)
qed

lemma tidy_policy: "policy_ok p \<Longrightarrow> map tidy_user (ap_users p) = ap_users p"
  by (rule map_idI) (simp add: policy_ok_def list_all_iff tidy_user_def dedup_noop)

lemma read_policy_ok:
  assumes "policy_ok p"
  shows "validate_access_policy (policy_val p) = Inr p"
proof -
  have "policy_readable p" using assms by (simp add: policy_ok_def)
  from read_policy_val [OF this] show ?thesis by (simp add: tidy_policy [OF assms])
qed

section \<open>What is read is well formed\<close>

definition user_tidy :: "policy_user \<Rightarrow> bool" where
  "user_tidy u \<longleftrightarrow> user_ok u \<and> distinct (map py_casefold (pu_ips u))"

lemma client_id_Inr: "client_id v = Inr c \<Longrightarrow> client_id_ok c"
  by (auto simp: client_id_def split: if_splits)

lemma user_client_ids_Inr: "user_client_ids raw = Inr cs \<Longrightarrow> list_all client_id_ok cs \<and> distinct cs \<and> length cs \<le> 100"
proof -
  assume r: "user_client_ids raw = Inr cs"
  show ?thesis
  proof (cases "dict_has raw ''clientIds''")
    case True
    then obtain vs cs' where vs: "rmap client_id vs = Inr cs'" "length vs \<le> 100" "cs = dedup id [] cs'"
      using r by (auto simp: user_client_ids_def split: pyval.splits if_splits sum.splits)
    have "\<forall>c \<in> set cs'. client_id_ok c" using rmap_Inr_all2 [OF vs(1)] by (auto simp: list_all2_conv_all_nth in_set_conv_nth dest!: client_id_Inr)
    moreover have "distinct (map id cs)" using dedup_keys [of id "[]" cs'] vs(3) by blast
    moreover have "length cs \<le> 100" using dedup_length [of id "[]" cs'] vs rmap_Inr_length [OF vs(1)] by simp
    ultimately show ?thesis using dedup_set [of id "[]" cs'] vs(3) by (auto simp: list_all_iff)
  qed (use r in \<open>auto simp: user_client_ids_def dest: client_id_Inr\<close>)
qed

lemma string_list_Inr: "string_list m v = Inr ss \<Longrightarrow> texts_ok ss \<and> distinct (map py_casefold ss) \<and> length ss \<le> m"
proof -
  assume "string_list m v = Inr ss"
  then obtain vs ss' where vs: "rmap string_item vs = Inr ss'" "length vs \<le> m" "ss = dedup py_casefold [] ss'"
    by (auto simp: string_list_def split: pyval.splits if_splits)
  have item: "string_item x = Inr y \<Longrightarrow> y \<noteq> [] \<and> py_strip y = y" for x y by (auto simp: string_item_def split: pyval.splits if_splits)
  have "\<forall>y \<in> set ss'. y \<noteq> [] \<and> py_strip y = y" using rmap_Inr_all2 [OF vs(1)] item by (fastforce simp: list_all2_conv_all_nth in_set_conv_nth)
  then show ?thesis using dedup_set [of py_casefold "[]" ss'] dedup_keys [of py_casefold "[]" ss'] dedup_length [of py_casefold "[]" ss'] vs
      rmap_Inr_length [OF vs(1)] by (auto simp: texts_ok_def list_all_iff)
qed

lemma normalized_user_Inr: "normalized_user v = Inr u \<Longrightarrow> user_tidy u"
  by (auto simp: normalized_user_def user_tidy_def user_ok_def username_of_def text_of_def split: pyval.splits if_splits
      dest!: user_client_ids_Inr string_list_Inr)

lemma merge_unique_texts: "texts_ok l \<Longrightarrow> texts_ok r \<Longrightarrow> texts_ok (merge_unique l r)"
  using set_last_n [of 100 "dedup py_casefold [] (l @ r)"] dedup_set [of py_casefold "[]" "l @ r"]
  by (auto simp: texts_ok_def merge_unique_def list_all_iff)

lemma merge_unique_props:
  "set (merge_unique l r) \<subseteq> set l \<union> set r" "distinct (map py_casefold (merge_unique l r))" "length (merge_unique l r) \<le> 100"
  using set_last_n [of 100 "dedup py_casefold [] (l @ r)"] dedup_set [of py_casefold "[]" "l @ r"]
  by (auto simp: merge_unique_def intro!: distinct_last_n conjunct1 [OF dedup_keys])

lemma merge_tidy:
  assumes "user_tidy a" "user_tidy b"
  shows "user_tidy (merge_same_username_users a b)"
proof -
  let ?m = "merge_same_username_users a b"
  have "list_all client_id_ok (pu_clients ?m)" "distinct (pu_clients ?m)" "length (pu_clients ?m) \<le> 100"
    using merge_unique_props [of "pu_clients a" "pu_clients b"] assms
    by (auto simp: merge_same_username_users_def user_tidy_def user_ok_def list_all_iff distinct_map)
  moreover have "texts_ok (pu_ips ?m)" "distinct (map py_casefold (pu_ips ?m))" "length (pu_ips ?m) \<le> 100"
    using merge_unique_props [of "pu_ips a" "pu_ips b"] merge_unique_texts [of "pu_ips a" "pu_ips b"] assms
    by (simp_all add: merge_same_username_users_def user_tidy_def user_ok_def)
  moreover have "py_strip (pu_first ?m) = pu_first ?m" "py_strip (pu_last ?m) = pu_last ?m" using assms
    by (auto simp: merge_same_username_users_def user_tidy_def user_ok_def earliest_nonempty_def latest_nonempty_def min_def max_def)
  ultimately show ?thesis using assms by (simp add: user_tidy_def user_ok_def merge_same_username_users_def)
qed

definition users_tidy :: "policy_user list \<Rightarrow> bool" where
  "users_tidy us \<longleftrightarrow> list_all user_tidy us \<and> distinct (map user_key us)"

lemma add_user_tidy: "users_tidy us \<Longrightarrow> user_tidy u \<Longrightarrow> users_tidy (add_user u us) \<and> length (add_user u us) \<le> Suc (length us)"
proof (cases "list_ex (\<lambda>x. user_key x = user_key u) us")
  case True
  assume us: "users_tidy us" "user_tidy u"
  have "map user_key (add_user u us) = map user_key us"
    using True by (auto simp: add_user_def merge_same_username_users_def)
  moreover have "list_all user_tidy (add_user u us)" using True us merge_tidy by (auto simp: add_user_def users_tidy_def list_all_iff)
  ultimately show ?thesis using us by (metis le_SucI length_map order_refl users_tidy_def)
next
  case False
  assume "users_tidy us" "user_tidy u"
  then show ?thesis using False by (auto simp: add_user_def users_tidy_def list_ex_iff)
qed

lemma read_users_tidy:
  "rfold (\<lambda>r us. rbind (normalized_user r) (\<lambda>u. Inr (add_user u us))) raw us = Inr us' \<Longrightarrow> users_tidy us
     \<Longrightarrow> users_tidy us' \<and> length us' \<le> length us + length raw"
proof (induction raw arbitrary: us)
  case (Cons v raw)
  then obtain u where u: "normalized_user v = Inr u"
      "rfold (\<lambda>r us. rbind (normalized_user r) (\<lambda>u. Inr (add_user u us))) raw (add_user u us) = Inr us'" by auto
  have "users_tidy (add_user u us) \<and> length (add_user u us) \<le> Suc (length us)"
    by (rule add_user_tidy [OF Cons.prems(2) normalized_user_Inr [OF u(1)]])
  then show ?case using Cons.IH [OF u(2)] by simp
qed simp

lemma validate_ok:
  assumes "validate_access_policy v = Inr p"
  shows "policy_ok p"
proof -
  obtain raw us r filtered v' where us: "rfold (\<lambda>r us. rbind (normalized_user r) (\<lambda>u. Inr (add_user u us))) raw [] = Inr us" "length raw \<le> 1000"
      and r: "rfold claim_client (client_claims us) [] = Inr r" and f: "string_list 500 v' = Inr filtered"
      and p: "p = \<lparr>ap_users = us, ap_filtered = filtered\<rparr>"
    using assms by (auto simp: validate_access_policy_def split: pyval.splits if_splits)
  have "users_tidy us" "length us \<le> 1000" using read_users_tidy [OF us(1)] us(2) by (auto simp: users_tidy_def)
  moreover have "owners_ok us" using claims_ok_iff r by blast
  ultimately show ?thesis using string_list_Inr [OF f] by (auto simp: policy_ok_def policy_readable_def p users_tidy_def user_tidy_def list_all_iff)
qed

lemma load_ok:
  assumes "load_access_policy f = Inr p"
  shows "policy_ok p"
proof (cases f)
  case NoPolicy
  have "texts_ok DEFAULT_NONDEVELOPER_FILTERED_TOOLS" "distinct (map py_casefold DEFAULT_NONDEVELOPER_FILTERED_TOOLS)"
    "length DEFAULT_NONDEVELOPER_FILTERED_TOOLS \<le> 500" by code_simp+
  then show ?thesis using NoPolicy assms
    by (auto simp: load_access_policy_def default_access_policy_def policy_ok_def policy_readable_def owners_ok_def)
qed (use assms in \<open>auto simp: load_access_policy_def dest: validate_ok\<close>)

section \<open>Registering\<close>

lemma index_where_Some: "index_where P xs = Some i \<Longrightarrow> i < length xs \<and> P (xs ! i)"
  by (induction xs arbitrary: i) (auto split: if_splits)

lemma index_where_None: "index_where P xs = None \<longleftrightarrow> (\<forall>x \<in> set xs. \<not> P x)"
  by (induction xs) auto

lemma filter_update: "i < length xs \<Longrightarrow> \<not> P (xs ! i) \<Longrightarrow> \<not> P y \<Longrightarrow> filter P (xs[i := y]) = filter P xs"
  by (induction xs arbitrary: i) (auto split: nat.splits)

lemma with_ip_simps [simp]:
  "pu_clients (with_ip ip u) = pu_clients u" "pu_username (with_ip ip u) = pu_username u" "pu_developer (with_ip ip u) = pu_developer u"
  "pu_first (with_ip ip u) = pu_first u" "pu_last (with_ip ip u) = pu_last u"
  by (simp_all add: with_ip_def)

lemma with_ip_ok: "user_ok u \<Longrightarrow> py_strip ip = ip \<Longrightarrow> user_ok (with_ip ip u)"
  using set_last_n [of 100 "pu_ips u @ [ip]"] by (auto simp: user_ok_def with_ip_def texts_ok_def list_all_iff)

lemma seen_user_ok:
  assumes u: "user_ok u" and c: "client_id_ok c" and now: "py_strip now = now"
  shows "user_ok (seen_user c now u) \<and> set (pu_clients (seen_user c now u)) \<subseteq> insert c (set (pu_clients u))"
proof -
  have "distinct (map id (pu_clients u @ [c]))" if "c \<notin> set (pu_clients u)" using u that by (simp add: user_ok_def)
  then have "distinct (last_n 100 (pu_clients u @ [c]))" if "c \<notin> set (pu_clients u)" using that distinct_last_n [of id "pu_clients u @ [c]" 100] by simp
  then show ?thesis using assms set_last_n [of 100 "pu_clients u @ [c]"] by (auto simp: user_ok_def seen_user_def list_all_iff)
qed

lemma readable_update:
  assumes p: "policy_readable p" and i: "i < length (ap_users p)" and m: "user_ok m" "pu_username m = pu_username (ap_users p ! i)"
    and c: "set (pu_clients m) \<subseteq> insert client (set (pu_clients (ap_users p ! i)))"
    and fresh: "client \<in> set (pu_clients (ap_users p ! i)) \<or> (\<forall>u \<in> set (ap_users p). client \<notin> set (pu_clients u))"
  shows "policy_readable (p\<lparr>ap_users := (ap_users p)[i := m]\<rparr>)"
proof -
  let ?us = "(ap_users p)[i := m]"
  have "map user_key ?us = map user_key (ap_users p)" using i m(2) by (simp add: map_update list_update_same_conv)
  moreover have "list_all user_ok ?us" using p m(1) set_update_subset_insert [of "ap_users p" i m] by (auto simp: policy_readable_def list_all_iff)
  moreover have key: "user_key u = user_key v" if "u = m" "v \<in> set (ap_users p)" "set (pu_clients u) \<inter> set (pu_clients v) \<noteq> {}" for u v
  proof -
    have "set (pu_clients (ap_users p ! i)) \<inter> set (pu_clients v) \<noteq> {}" using that c fresh by blast
    then show ?thesis using p i that(1,2) m(2) by (simp add: policy_readable_def owners_ok_def)
  qed
  have "owners_ok ?us"
  proof (unfold owners_ok_def, intro ballI impI)
    fix u v assume "u \<in> set ?us" "v \<in> set ?us" and n: "set (pu_clients u) \<inter> set (pu_clients v) \<noteq> {}"
    then consider "u = m" "v = m" | "u = m" "v \<in> set (ap_users p)" | "v = m" "u \<in> set (ap_users p)" | "u \<in> set (ap_users p)" "v \<in> set (ap_users p)"
      using set_update_subset_insert [of "ap_users p" i m] by blast
    then show "user_key u = user_key v"
    proof cases
      case 4
      then show ?thesis using p n by (simp add: policy_readable_def owners_ok_def)
    next
      case 3
      then show ?thesis using key [of v u] n by (simp add: inf_commute)
    qed (use key n in auto)
  qed
  ultimately show ?thesis using p by (simp add: policy_readable_def)
qed

lemma readable_append:
  assumes p: "policy_readable p" and m: "user_ok m" "\<forall>u \<in> set (ap_users p). user_key u \<noteq> user_key m" "length (ap_users p) < 1000"
    and c: "pu_clients m = [client]" "\<forall>u \<in> set (ap_users p). client \<notin> set (pu_clients u)"
  shows "policy_readable (p\<lparr>ap_users := ap_users p @ [m]\<rparr>)"
proof -
  have "owners_ok (ap_users p @ [m])" using p c by (auto simp: policy_readable_def owners_ok_def)
  moreover have "distinct (map user_key (ap_users p @ [m]))" using p m(2) by (fastforce simp: policy_readable_def)
  ultimately show ?thesis using p m by (simp add: policy_readable_def)
qed

lemma register_cases:
  assumes r: "register_remote_user client_v name_v ip_v now f = Inr (f', m)" and p: "load_access_policy f = Inr p" and now: "py_strip now = now"
  obtains us where "policy_readable (p\<lparr>ap_users := us\<rparr>)" "f' = PolicyFile (policy_val (p\<lparr>ap_users := us\<rparr>))"
    "us = ap_users p @ [m] \<and> \<not> pu_developer m \<or> (\<exists>i < length (ap_users p). us = (ap_users p)[i := m]
       \<and> pu_developer m = pu_developer (ap_users p ! i)
       \<and> (text_of client_v \<in> set (pu_clients (ap_users p ! i)) \<or> user_key (ap_users p ! i) = py_casefold (text_of name_v)))"
proof -
  have ok: "policy_readable p" using load_ok [OF p] by (simp add: policy_ok_def)
  define client name ip where "client = text_of client_v" and "name = text_of name_v" and "ip = text_of ip_v"
  have c: "client_id_ok client" "username_ok name" "py_strip name = name" "py_strip ip = ip"
    using r by (auto simp: register_remote_user_def client_id_def username_of_def client_def name_def ip_def text_of_def split: if_splits)
  show ?thesis
  proof (cases "match_index client name (ap_users p)")
    case None
    then have no: "\<forall>u \<in> set (ap_users p). client \<notin> set (pu_clients u)" "\<forall>u \<in> set (ap_users p). user_key u \<noteq> py_casefold name"
      by (auto simp: match_index_def index_where_None split: option.splits)
    define m0 where "m0 = \<lparr>pu_clients = [client], pu_username = name, pu_developer = False, pu_ips = [], pu_first = now, pu_last = now\<rparr>"
    have m: "m = with_ip ip m0" and len: "length (ap_users p) < 1000" and f': "f' = PolicyFile (policy_val (p\<lparr>ap_users := ap_users p @ [m]\<rparr>))"
      using r None p c by (auto simp: register_remote_user_def client_id_def username_of_def client_def [symmetric] name_def [symmetric]
          ip_def [symmetric] m0_def Let_def split: if_splits)
    have "user_ok m0" using c now by (simp add: m0_def user_ok_def texts_ok_def)
    then have "user_ok m" unfolding m by (rule with_ip_ok [OF _ c(4)])
    then have "policy_readable (p\<lparr>ap_users := ap_users p @ [m]\<rparr>)" using no len by (intro readable_append [OF ok]) (simp_all add: m m0_def)
    then show ?thesis using f' by (intro that [of "ap_users p @ [m]"]) (simp_all add: m m0_def)
  next
    case (Some i)
    have i: "i < length (ap_users p)" "client \<in> set (pu_clients (ap_users p ! i)) \<or> (user_key (ap_users p ! i) = py_casefold name
        \<and> (\<forall>u \<in> set (ap_users p). client \<notin> set (pu_clients u)))"
      using Some by (auto simp: match_index_def index_where_None split: option.splits dest: index_where_Some)
    have m: "m = with_ip ip (seen_user client now (ap_users p ! i))" and f': "f' = PolicyFile (policy_val (p\<lparr>ap_users := (ap_users p)[i := m]\<rparr>))"
      using r Some p c by (auto simp: register_remote_user_def client_id_def username_of_def client_def [symmetric] name_def [symmetric]
          ip_def [symmetric] Let_def split: if_splits)
    have "user_ok (ap_users p ! i)" using ok i(1) by (simp add: policy_readable_def list_all_iff)
    note seen = seen_user_ok [OF this c(1) now]
    have "user_ok m" unfolding m using seen by (intro with_ip_ok [OF _ c(4)]) simp
    then have "policy_readable (p\<lparr>ap_users := (ap_users p)[i := m]\<rparr>)"
      using seen i by (intro readable_update [OF ok, where client = client]) (auto simp: m seen_user_def)
    then show ?thesis using f' i by (intro that [of "(ap_users p)[i := m]"]) (auto simp: m seen_user_def client_def name_def)
  qed
qed

section \<open>Outsiders\<close>

datatype access_op = GetStatus | GetSettings | UpdateSettings pyval | MessageMetadata

definition access_step :: "access_request \<times> string \<times> access_op \<Rightarrow> policy_file \<Rightarrow> policy_file" where
  "access_step call f = (let (rq, now, opr) = call in case opr of
      GetStatus \<Rightarrow> (case get_status rq now f of Inl e \<Rightarrow> f | Inr (f', st) \<Rightarrow> f')
    | GetSettings \<Rightarrow> fst (get_settings rq now f)
    | UpdateSettings payload \<Rightarrow> fst (update_settings payload rq now f)
    | MessageMetadata \<Rightarrow> fst (message_access_metadata rq now f))"

text \<open>A request from elsewhere that names neither a device nor the name of one of the given users.\<close>

definition outsider :: "policy_user list \<Rightarrow> access_request \<Rightarrow> bool" where
  "outsider ds rq \<longleftrightarrow> rq_peer rq = None \<and> \<not> rq_local rq
     \<and> list_all (\<lambda>u. py_strip (rq_client rq) \<notin> set (pu_clients u) \<and> user_key u \<noteq> py_casefold (py_strip (rq_username rq))) ds"

abbreviation developers :: "access_policy \<Rightarrow> policy_user list" where
  "developers p \<equiv> filter pu_developer (ap_users p)"

definition same_rights :: "access_policy \<Rightarrow> policy_file \<Rightarrow> bool" where
  "same_rights p f \<longleftrightarrow> (\<exists>p'. load_access_policy f = Inr p' \<and> developers p' = developers p \<and> ap_filtered p' = ap_filtered p)"

lemma filter_tidy: "policy_ok p \<Longrightarrow> map tidy_user (developers p) = developers p"
  by (rule map_idI) (auto simp: policy_ok_def list_all_iff tidy_user_def dedup_noop)

lemma register_outsider:
  assumes r: "register_remote_user client_v name_v ip_v now f = Inr (f', m)" and p: "load_access_policy f = Inr p" and now: "py_strip now = now"
    and out: "list_all (\<lambda>u. text_of client_v \<notin> set (pu_clients u) \<and> user_key u \<noteq> py_casefold (text_of name_v)) (developers p)"
  shows "same_rights p f' \<and> \<not> pu_developer m"
proof -
  obtain us where us: "policy_readable (p\<lparr>ap_users := us\<rparr>)" "f' = PolicyFile (policy_val (p\<lparr>ap_users := us\<rparr>))"
    and c: "us = ap_users p @ [m] \<and> \<not> pu_developer m \<or> (\<exists>i < length (ap_users p). us = (ap_users p)[i := m]
       \<and> pu_developer m = pu_developer (ap_users p ! i)
       \<and> (text_of client_v \<in> set (pu_clients (ap_users p ! i)) \<or> user_key (ap_users p ! i) = py_casefold (text_of name_v)))"
    using register_cases [OF r p now] by blast
  have nd: "\<not> pu_developer m \<and> filter pu_developer us = developers p" using c
  proof
    assume "\<exists>i < length (ap_users p). us = (ap_users p)[i := m] \<and> pu_developer m = pu_developer (ap_users p ! i)
       \<and> (text_of client_v \<in> set (pu_clients (ap_users p ! i)) \<or> user_key (ap_users p ! i) = py_casefold (text_of name_v))"
    then obtain i where i: "i < length (ap_users p)" "us = (ap_users p)[i := m]" "pu_developer m = pu_developer (ap_users p ! i)"
       "text_of client_v \<in> set (pu_clients (ap_users p ! i)) \<or> user_key (ap_users p ! i) = py_casefold (text_of name_v)" by blast
    then have "\<not> pu_developer (ap_users p ! i)" using out by (auto simp: list_all_iff)
    then show ?thesis using i by (simp add: filter_update)
  qed simp
  have "load_access_policy f' = Inr (p\<lparr>ap_users := map tidy_user us\<rparr>)" using read_policy_val [OF us(1)] us(2) by (simp add: load_access_policy_def)
  moreover have "filter pu_developer (map tidy_user us) = map tidy_user (filter pu_developer us)" by (simp add: filter_map o_def tidy_user_def)
  ultimately show ?thesis using nd filter_tidy [OF load_ok [OF p]] by (simp add: same_rights_def)
qed

lemma same_rights_refl: "load_access_policy f = Inr p \<Longrightarrow> same_rights p f"
  by (simp add: same_rights_def)

lemma status_outsider:
  assumes "get_status rq now f = Inr (f', st)" "load_access_policy f = Inr p" "py_strip now = now" "outsider (developers p) rq"
  shows "same_rights p f' \<and> \<not> as_developer st"
proof (cases "py_strip (rq_client rq) = [] \<or> py_strip (rq_username rq) = []")
  case True
  then show ?thesis using assms by (auto simp: get_status_def outsider_def same_rights_refl Let_def)
next
  case False
  then obtain m where "register_remote_user (PStr (py_strip (rq_client rq))) (PStr (py_strip (rq_username rq))) (PStr (py_strip (rq_ip rq))) now f = Inr (f', m)"
      "as_developer st = pu_developer m"
    using assms(1,4) by (auto simp: get_status_def outsider_def Let_def split: sum.splits)
  then show ?thesis using register_outsider [OF _ assms(2,3)] assms(4) by (simp add: outsider_def text_of_PStr)
qed

lemma access_step_outsider:
  assumes p: "load_access_policy f = Inr p" and now: "py_strip now = now" and out: "outsider (developers p) rq"
  shows "same_rights p (access_step (rq, now, opr) f)"
proof (cases "get_status rq now f")
  case (Inl e)
  then show ?thesis using p by (cases opr) (auto simp: access_step_def get_settings_def update_settings_def message_access_metadata_def
        require_developer_def same_rights_refl)
next
  case (Inr r)
  obtain f' st where r: "r = (f', st)" by force
  have "same_rights p f'" "\<not> as_developer st" using status_outsider [OF Inr [unfolded r] p now out] by auto
  then show ?thesis using Inr r by (cases opr) (auto simp: access_step_def get_settings_def update_settings_def message_access_metadata_def
        require_developer_def)
qed

section \<open>Properties\<close>

text \<open>Whatever value is accepted as a policy, it is well formed: user names are distinct up to case, no device
  belongs to two users, all lists are within their limits; and what is then written reads back unchanged.\<close>

lemma policy_roundtrip:
  assumes "validate_access_policy v = Inr p"
  shows "policy_ok p \<and> validate_access_policy (policy_val p) = Inr p"
  using validate_ok [OF assms] read_policy_ok by blast

text \<open>C25. Requests from elsewhere that name neither a device nor the name of a developer never change who is a
  developer or which tools the others are denied, in whatever order they come and whatever they ask for;
  the policy stays readable, so no such request locks the others out.\<close>

theorem outsiders_change_no_rights:
  assumes "load_access_policy f = Inr p"
    and "list_all (\<lambda>(rq, now, opr). outsider (developers p) rq \<and> py_strip now = now) calls"
  shows "\<exists>p'. load_access_policy (fold access_step calls f) = Inr p' \<and> developers p' = developers p \<and> ap_filtered p' = ap_filtered p"
  using assms
proof (induction calls arbitrary: f p)
  case (Cons call calls)
  obtain rq now opr where call: "call = (rq, now, opr)" by (metis prod_cases3)
  have "same_rights p (access_step call f)" using access_step_outsider [OF Cons.prems(1)] Cons.prems(2) by (simp add: call)
  then obtain p1 where "load_access_policy (access_step call f) = Inr p1" "developers p1 = developers p" "ap_filtered p1 = ap_filtered p"
    by (auto simp: same_rights_def)
  then show ?case using Cons.IH [of "access_step call f" p1] Cons.prems(2) by auto
qed simp

definition sample_policy :: access_policy where
  "sample_policy = \<lparr>ap_users = [\<lparr>pu_clients = [''c1''], pu_username = ''Ann'', pu_developer = True, pu_ips = [], pu_first = [], pu_last = []\<rparr>],
     ap_filtered = [''shell_tools'']\<rparr>"

definition sample_outsider :: access_request where
  "sample_outsider = \<lparr>rq_peer = None, rq_local = False, rq_client = ''c2'', rq_username = ''Bob'', rq_ip = ''1.2.3.4''\<rparr>"

lemma sample_policy_ok: "policy_ok sample_policy"
proof -
  have "username_ok ''Ann''" "py_strip ''Ann'' = ''Ann''" "client_id_ok ''c1''" "py_strip ''shell_tools'' = ''shell_tools''" by code_simp+
  then show ?thesis
    by (simp add: policy_ok_def policy_readable_def sample_policy_def user_ok_def texts_ok_def owners_ok_def)
qed

lemma policy_roundtrip_witness: "validate_access_policy (policy_val sample_policy) = Inr sample_policy \<and> policy_ok sample_policy"
  using policy_roundtrip [OF read_policy_ok [OF sample_policy_ok]] by blast

lemma outsiders_change_no_rights_witness:
  "\<exists>p'. load_access_policy (fold access_step [(sample_outsider, ''t'', UpdateSettings (PDict [])), (sample_outsider, ''u'', MessageMetadata)]
     (PolicyFile (policy_val sample_policy))) = Inr p' \<and> developers p' = developers sample_policy"
proof -
  have l: "load_access_policy (PolicyFile (policy_val sample_policy)) = Inr sample_policy"
    by (simp add: load_access_policy_def read_policy_ok sample_policy_ok)
  have "list_all (\<lambda>(rq, now, opr). outsider (developers sample_policy) rq \<and> py_strip now = now)
      [(sample_outsider, ''t'', UpdateSettings (PDict [])), (sample_outsider, ''u'', MessageMetadata)]" by code_simp
  from outsiders_change_no_rights [OF l this] show ?thesis by blast
qed

end
