(* ===== verification/TransactionQueue.thy ===== *)
theory TransactionQueue
  imports Prelude
begin

text \<open>
  The queue that serialises work per key (\<open>KeyedTransactionQueue\<close> of \<open>file_transaction.py\<close>) with
  its threads. The thread that finds a key idle drains the queue of that key and runs the functions of
  all callers in order; the others wait for their task. Every section under the guard is one step, and
  threads interleave in any order. A function is a list of actions: work, an exception, or a nested call
  of the queue with a canonical key, \<open>[]\<close> for an empty one. What a thread still has to do is a stack of
  frames; the keys it drains (\<open>active_keys\<close> of the code) are those of its drain frames.
\<close>

section \<open>State\<close>

datatype act = Effect nat | Raise nat | Run string "act list"

datatype outcome = Returned | Raised nat

text \<open>A task; the key is recorded only to state properties.\<close>

record queued_task =
  qt_key :: string
  qt_func :: "act list"
  qt_outcome :: "outcome option"

record queue_state =
  qs_tasks :: "nat list"
  qs_running :: bool

datatype frame = Body "act list" | Drain string nat | Busy string nat nat | Wait nat

text \<open>\<open>tq_started\<close> lists the tasks in the order in which they were taken.\<close>

record tq =
  tq_states :: "string \<rightharpoonup> queue_state"
  tq_tasks :: "queued_task list"
  tq_threads :: "frame list list"
  tq_started :: "nat list"

definition tq_init :: "act list list \<Rightarrow> tq" where
  "tq_init progs = \<lparr>tq_states = Map.empty, tq_tasks = [], tq_threads = map (\<lambda>p. [Body p]) progs, tq_started = []\<rparr>"

fun drained :: "frame \<Rightarrow> string option" where
  "drained (Drain k own) = Some k"
| "drained (Busy k own t) = Some k"
| "drained f = None"

definition active_keys :: "frame list \<Rightarrow> string list" where
  "active_keys st = List.map_filter drained st"

definition set_stack :: "nat \<Rightarrow> frame list \<Rightarrow> tq \<Rightarrow> tq" where
  "set_stack i st s = s\<lparr>tq_threads := (tq_threads s)[i := st]\<rparr>"

section \<open>Steps of a thread\<close>

text \<open>An exception goes on in the function that made the call.\<close>

fun deliver :: "outcome \<Rightarrow> frame list \<Rightarrow> frame list" where
  "deliver (Raised e) (Body as # st) = Body (Raise e # as) # st"
| "deliver r st = st"

definition enqueue :: "string \<Rightarrow> act list \<Rightarrow> tq \<Rightarrow> tq \<times> nat \<times> bool" where
  "enqueue k func s = (let t = length (tq_tasks s);
       q = (case tq_states s k of None \<Rightarrow> \<lparr>qs_tasks = [], qs_running = False\<rparr> | Some q \<Rightarrow> q)
     in (s\<lparr>tq_tasks := tq_tasks s @ [\<lparr>qt_key = k, qt_func = func, qt_outcome = None\<rparr>],
           tq_states := (tq_states s)(k \<mapsto> \<lparr>qs_tasks = qs_tasks q @ [t], qs_running = True\<rparr>)\<rparr>, t, \<not> qs_running q))"

definition run_call :: "nat \<Rightarrow> string \<Rightarrow> act list \<Rightarrow> frame list \<Rightarrow> tq \<Rightarrow> tq" where
  "run_call i k func below s = (if k = [] \<or> k \<in> set (active_keys below) then set_stack i (Body func # below) s
     else let (s', t, should_drain) = enqueue k func s in set_stack i ((if should_drain then Drain k t else Wait t) # below) s')"

definition outcome_of :: "tq \<Rightarrow> nat \<Rightarrow> outcome option" where
  "outcome_of s t = qt_outcome (tq_tasks s ! t)"

definition own_outcome :: "tq \<Rightarrow> nat \<Rightarrow> outcome" where
  "own_outcome s t = (case outcome_of s t of None \<Rightarrow> Returned | Some r \<Rightarrow> r)"

definition drain_turn :: "nat \<Rightarrow> string \<Rightarrow> nat \<Rightarrow> frame list \<Rightarrow> tq \<Rightarrow> tq option" where
  "drain_turn i k own below s = (case tq_states s k of None \<Rightarrow> None
     | Some q \<Rightarrow> Some (case qs_tasks q of
         [] \<Rightarrow> set_stack i (deliver (own_outcome s own) below) (s\<lparr>tq_states := (tq_states s)(k := None)\<rparr>)
       | t # ts \<Rightarrow> set_stack i (Body (qt_func (tq_tasks s ! t)) # Busy k own t # below)
           (s\<lparr>tq_states := (tq_states s)(k \<mapsto> q\<lparr>qs_tasks := ts\<rparr>), tq_started := tq_started s @ [t]\<rparr>)))"

definition complete :: "nat \<Rightarrow> outcome \<Rightarrow> tq \<Rightarrow> tq" where
  "complete t r s = s\<lparr>tq_tasks := (tq_tasks s)[t := (tq_tasks s ! t)\<lparr>qt_outcome := Some r\<rparr>]\<rparr>"

definition finish_body :: "nat \<Rightarrow> outcome \<Rightarrow> frame list \<Rightarrow> tq \<Rightarrow> tq option" where
  "finish_body i r below s = (case below of
      [] \<Rightarrow> Some (set_stack i [] s)
    | Body as # st \<Rightarrow> Some (set_stack i (deliver r below) s)
    | Busy k own t # st \<Rightarrow> Some (set_stack i (Drain k own # st) (complete t r s))
    | _ \<Rightarrow> None)"

definition step_thread :: "nat \<Rightarrow> tq \<Rightarrow> tq option" where
  "step_thread i s = (if i < length (tq_threads s) then (case tq_threads s ! i of
      [] \<Rightarrow> None
    | Body [] # below \<Rightarrow> finish_body i Returned below s
    | Body (Effect n # as) # below \<Rightarrow> Some (set_stack i (Body as # below) s)
    | Body (Raise e # as) # below \<Rightarrow> finish_body i (Raised e) below s
    | Body (Run k func # as) # below \<Rightarrow> Some (run_call i k func (Body as # below) s)
    | Drain k own # below \<Rightarrow> drain_turn i k own below s
    | Wait t # below \<Rightarrow> (case outcome_of s t of None \<Rightarrow> None | Some r \<Rightarrow> Some (set_stack i (deliver r below) s))
    | Busy k own t # below \<Rightarrow> None) else None)"

inductive tq_step :: "tq \<Rightarrow> tq \<Rightarrow> bool" where
  thread: "step_thread i s = Some s' \<Longrightarrow> tq_step s s'"

inductive_cases tq_stepE: "tq_step s s'"

inductive reachable :: "act list list \<Rightarrow> tq \<Rightarrow> bool" for progs where
  start: "reachable progs (tq_init progs)"
| step: "reachable progs s \<Longrightarrow> tq_step s s' \<Longrightarrow> reachable progs s'"

definition waiting :: "tq \<Rightarrow> string \<Rightarrow> nat list" where
  "waiting s k = (case tq_states s k of None \<Rightarrow> [] | Some q \<Rightarrow> qs_tasks q)"

definition key_of :: "tq \<Rightarrow> nat \<Rightarrow> string" where
  "key_of s t = qt_key (tq_tasks s ! t)"

text \<open>The tasks of a key in the order in which they were queued.\<close>

definition tasks_of :: "tq \<Rightarrow> string \<Rightarrow> nat list" where
  "tasks_of s k = filter (\<lambda>t. key_of s t = k) [0 ..< length (tq_tasks s)]"

definition started_of :: "tq \<Rightarrow> string \<Rightarrow> nat list" where
  "started_of s k = filter (\<lambda>t. key_of s t = k) (tq_started s)"

section \<open>Counting frames\<close>

definition over_threads :: "(frame list \<Rightarrow> nat) \<Rightarrow> tq \<Rightarrow> nat" where
  "over_threads f s = sum_list (map f (tq_threads s))"

definition holds :: "string \<Rightarrow> frame list \<Rightarrow> nat" where
  "holds k st = length (filter (\<lambda>f. drained f = Some k) st)"

fun runs_task :: "nat \<Rightarrow> frame \<Rightarrow> bool" where
  "runs_task t (Busy k own t') = (t = t')"
| "runs_task t f = False"

definition busy :: "nat \<Rightarrow> frame list \<Rightarrow> nat" where
  "busy t st = length (filter (runs_task t) st)"

lemma over_set_stack:
  assumes "i < length (tq_threads s)"
  shows "over_threads f (set_stack i st s) + f (tq_threads s ! i) = over_threads f s + f st"
proof -
  have "f (tq_threads s ! i) \<le> sum_list (map f (tq_threads s))" using assms by (intro member_le_sum_list) auto
  then show ?thesis using assms by (simp add: over_threads_def set_stack_def map_update sum_list_update)
qed

lemma over_cong [simp]: "over_threads f (s\<lparr>tq_tasks := a\<rparr>) = over_threads f s" "over_threads f (s\<lparr>tq_states := b\<rparr>) = over_threads f s" "over_threads f (s\<lparr>tq_started := c\<rparr>) = over_threads f s"
  by (simp_all add: over_threads_def)

lemma over_ge: "st \<in> set (tq_threads s) \<Longrightarrow> f st \<le> over_threads f s"
  unfolding over_threads_def by (rule member_le_sum_list) auto

lemma over_pos: "0 < over_threads f s \<Longrightarrow> \<exists>st \<in> set (tq_threads s). 0 < f st"
  by (rule ccontr) (simp add: over_threads_def cong: map_cong)

lemma holds_simps [simp]:
  "holds k [] = 0" "holds k (Body as # st) = holds k st" "holds k (Wait t # st) = holds k st"
  "holds k (Drain k' own # st) = (if k' = k then 1 else 0) + holds k st" "holds k (Busy k' own t # st) = (if k' = k then 1 else 0) + holds k st"
  by (simp_all add: holds_def)

lemma busy_simps [simp]:
  "busy t [] = 0" "busy t (Body as # st) = busy t st" "busy t (Wait t' # st) = busy t st" "busy t (Drain k own # st) = busy t st"
  "busy t (Busy k own t' # st) = (if t' = t then 1 else 0) + busy t st"
  by (auto simp: busy_def)

lemma deliver_counts [simp]: "holds k (deliver r st) = holds k st" "busy t (deliver r st) = busy t st"
  by (cases "(r, st)" rule: deliver.cases; simp)+

lemma active_iff: "k \<in> set (active_keys st) \<longleftrightarrow> 0 < holds k st"
  by (auto simp: active_keys_def holds_def map_filter_def filter_empty_conv image_iff)

end
