(* ===== verification/TransactionLaws.thy ===== *)
theory TransactionLaws
  imports TransactionQueue
begin

text \<open>
  What the queue guarantees in every interleaving: functions of one key never overlap and run in the
  order in which they were queued, each at most once; executions are finite; and when functions do not
  call the queue themselves, nothing gets stuck. With nested calls of two keys it can.
\<close>

section \<open>The invariant\<close>

fun frame_ok :: "tq \<Rightarrow> frame \<Rightarrow> bool" where
  "frame_ok s (Body as) = True"
| "frame_ok s (Wait t) \<longleftrightarrow> t < length (tq_tasks s)"
| "frame_ok s (Drain k own) \<longleftrightarrow> own < length (tq_tasks s) \<and> key_of s own = k"
| "frame_ok s (Busy k own t) \<longleftrightarrow> own < length (tq_tasks s) \<and> key_of s own = k \<and> t < length (tq_tasks s) \<and> key_of s t = k"

definition unfinished :: "tq \<Rightarrow> nat \<Rightarrow> bool" where
  "unfinished s t \<longleftrightarrow> t \<in> set (tq_started s) \<and> outcome_of s t = None"

definition tq_inv :: "tq \<Rightarrow> bool" where
  "tq_inv s \<longleftrightarrow> (\<forall>k. over_threads (holds k) s = (if tq_states s k = None then 0 else 1))
     \<and> (\<forall>k q. tq_states s k = Some q \<longrightarrow> qs_running q)
     \<and> (\<forall>k. tasks_of s k = started_of s k @ waiting s k)
     \<and> (\<forall>t. over_threads (busy t) s = (if unfinished s t then 1 else 0))
     \<and> set (tq_started s) \<subseteq> {..< length (tq_tasks s)}
     \<and> (\<forall>t < length (tq_tasks s). t \<notin> set (tq_started s) \<longrightarrow> outcome_of s t = None)
     \<and> (\<forall>st \<in> set (tq_threads s). list_all (frame_ok s) st)"

lemma tq_init_inv: "tq_inv (tq_init progs)"
  by (auto simp: tq_inv_def tq_init_def over_threads_def tasks_of_def started_of_def waiting_def unfinished_def o_def)

text \<open>A step that changes only the stack of a thread and keeps its drain frames.\<close>

lemma list_all_update: "list_all P xs \<Longrightarrow> P y \<Longrightarrow> list_all P (xs[i := y])"
  using set_update_subset_insert [of xs i y] by (auto simp: list_all_iff)

lemma set_stack_fields [simp]:
  "tq_states (set_stack i st s) = tq_states s" "tq_tasks (set_stack i st s) = tq_tasks s" "tq_started (set_stack i st s) = tq_started s"
  "tq_threads (set_stack i st s) = (tq_threads s)[i := st]"
  by (simp_all add: set_stack_def)

lemma set_stack_views [simp]:
  "waiting (set_stack i st s) = waiting s" "key_of (set_stack i st s) = key_of s" "tasks_of (set_stack i st s) = tasks_of s"
  "started_of (set_stack i st s) = started_of s" "unfinished (set_stack i st s) = unfinished s" "frame_ok (set_stack i st s) = frame_ok s"
  "outcome_of (set_stack i st s) = outcome_of s"
proof -
  show k: "key_of (set_stack i st s) = key_of s" by (simp add: key_of_def fun_eq_iff)
  show "waiting (set_stack i st s) = waiting s" "tasks_of (set_stack i st s) = tasks_of s"
    "started_of (set_stack i st s) = started_of s" "unfinished (set_stack i st s) = unfinished s" "outcome_of (set_stack i st s) = outcome_of s"
    by (simp_all add: fun_eq_iff waiting_def tasks_of_def started_of_def unfinished_def outcome_of_def key_of_def)
  show "frame_ok (set_stack i st s) = frame_ok s"
  proof
    fix f show "frame_ok (set_stack i st s) f = frame_ok s f" by (cases f) (simp_all add: k)
  qed
qed

lemma inv_set_stack:
  assumes inv: "tq_inv s" and i: "i < length (tq_threads s)"
    and c: "\<And>k. holds k st = holds k (tq_threads s ! i)" "\<And>t. busy t st = busy t (tq_threads s ! i)" "list_all (frame_ok s) st"
  shows "tq_inv (set_stack i st s)"
proof -
  have "over_threads (holds k) (set_stack i st s) = over_threads (holds k) s" for k using over_set_stack [OF i, of "holds k" st] c(1) by simp
  moreover have "over_threads (busy t) (set_stack i st s) = over_threads (busy t) s" for t using over_set_stack [OF i, of "busy t" st] c(2) by simp
  moreover have "\<forall>x \<in> set ((tq_threads s)[i := st]). list_all (frame_ok s) x"
    using inv c(3) list_all_update [of "list_all (frame_ok s)" "tq_threads s" st i] by (simp add: tq_inv_def list_all_iff)
  ultimately show ?thesis using inv by (simp add: tq_inv_def)
qed

lemma deliver_ok: "list_all (frame_ok s) st \<Longrightarrow> list_all (frame_ok s) (deliver r st)"
  by (cases "(r, st)" rule: deliver.cases) simp_all

lemma stack_ok: "tq_inv s \<Longrightarrow> i < length (tq_threads s) \<Longrightarrow> list_all (frame_ok s) (tq_threads s ! i)"
  by (simp add: tq_inv_def)

subsection \<open>Queueing a task\<close>

lemma enqueue_views:
  assumes "enqueue k func s = (s', t, d)" "tq_inv s"
  shows "t = length (tq_tasks s)" "tq_threads s' = tq_threads s" "tq_started s' = tq_started s"
    "tq_tasks s' = tq_tasks s @ [\<lparr>qt_key = k, qt_func = func, qt_outcome = None\<rparr>]"
    "tq_states s' k = Some \<lparr>qs_tasks = waiting s k @ [t], qs_running = True\<rparr>" "\<And>k'. k' \<noteq> k \<Longrightarrow> tq_states s' k' = tq_states s k'"
    "d \<longleftrightarrow> tq_states s k = None"
  using assms by (auto simp: enqueue_def Let_def waiting_def tq_inv_def split: option.splits)

lemma enqueue_frame_ok: "enqueue k func s = (s', t, d) \<Longrightarrow> frame_ok s f \<Longrightarrow> frame_ok s' f"
  by (cases f) (auto simp: enqueue_def Let_def key_of_def nth_append)

lemma enqueue_inv:
  assumes e: "enqueue k func s = (s', t, d)" and inv: "tq_inv s" and i: "i < length (tq_threads s)"
    and top: "tq_threads s ! i = Body as0 # rest" and below: "below = Body as # rest"
  shows "tq_inv (set_stack i ((if d then Drain k t else Wait t) # below) s')"
proof -
  note v = enqueue_views [OF e inv]
  let ?s = "set_stack i ((if d then Drain k t else Wait t) # below) s'"
  have tot: "over_threads f s' = over_threads f s" for f by (simp add: over_threads_def v(2))
  have i': "i < length (tq_threads s')" using i v(2) by simp
  have key: "key_of s' x = (if x = t then k else key_of s x)" if "x \<le> length (tq_tasks s)" for x
    using that v(1,4) by (auto simp: key_of_def nth_append)
  have out: "outcome_of s' x = outcome_of s x" if "x < length (tq_tasks s)" for x using that v(4) by (simp add: outcome_of_def nth_append)
  have sub: "set (tq_started s) \<subseteq> {..< length (tq_tasks s)}" using inv by (simp add: tq_inv_def)
  have "over_threads (holds k') ?s = (if tq_states s' k' = None then 0 else 1)" for k'
    using over_set_stack [OF i', of "holds k'" "(if d then Drain k t else Wait t) # below"] inv v(5,6,7) tot top below v(2)
    by (cases "k' = k") (auto simp: tq_inv_def split: if_splits)
  moreover have "over_threads (busy x) ?s = (if unfinished s' x then 1 else 0)" for x
  proof -
    have "unfinished s' x = unfinished s x" using sub out v(3) by (auto simp: unfinished_def)
    then show ?thesis using over_set_stack [OF i', of "busy x" "(if d then Drain k t else Wait t) # below"] inv tot top below v(2)
      by (auto simp: tq_inv_def)
  qed
  moreover have "tasks_of s' k' = started_of s' k' @ waiting s' k'" for k'
  proof -
    have "filter (\<lambda>x. key_of s' x = k') [0 ..< t] = filter (\<lambda>x. key_of s x = k') [0 ..< t]"
      by (rule filter_cong) (use key v(1) in auto)
    then have "tasks_of s' k' = tasks_of s k' @ (if k' = k then [t] else [])" using key v(1,4) by (auto simp: tasks_of_def)
    moreover have "started_of s' k' = started_of s k'" unfolding started_of_def v(3) using sub key v(1) by (intro filter_cong) auto
    moreover have "waiting s' k' = waiting s k' @ (if k' = k then [t] else [])" using v(5,6) by (simp add: waiting_def)
    ultimately show ?thesis using inv by (simp add: tq_inv_def)
  qed
  moreover have "qs_running q" if "tq_states s' k' = Some q" for k' q
    using that inv v(5) v(6) [of k'] by (cases "k' = k") (auto simp: tq_inv_def)
  moreover have "outcome_of s' x = None" if "x < length (tq_tasks s')" "x \<notin> set (tq_started s')" for x
    using that inv v(3,4) out by (cases "x < length (tq_tasks s)") (auto simp: tq_inv_def outcome_of_def nth_append)
  moreover have "set (tq_started s') \<subseteq> {..< length (tq_tasks s')}" using sub v(3,4) by auto
  moreover have "list_all (frame_ok s') ((if d then Drain k t else Wait t) # below)"
  proof -
    have "list_all (frame_ok s) rest" using stack_ok [OF inv i] top by simp
    then have "list_all (frame_ok s') rest" using enqueue_frame_ok [OF e] by (simp add: list_all_iff)
    then show ?thesis using v(1,4) key by (simp add: below)
  qed
  moreover have "\<forall>st \<in> set (tq_threads s'). list_all (frame_ok s') st"
    using inv enqueue_frame_ok [OF e] v(2) by (auto simp: tq_inv_def list_all_iff)
  ultimately show ?thesis
    using list_all_update [of "list_all (frame_ok s')" "tq_threads s'" "(if d then Drain k t else Wait t) # below" i] by (simp add: tq_inv_def list_all_iff)
qed

subsection \<open>Draining\<close>

lemma take_inv:
  assumes inv: "tq_inv s" and i: "i < length (tq_threads s)" and top: "tq_threads s ! i = Drain k own # below"
    and q: "tq_states s k = Some q" "qs_tasks q = t # ts"
  shows "tq_inv (set_stack i (Body func # Busy k own t # below)
    (s\<lparr>tq_states := (tq_states s)(k \<mapsto> q\<lparr>qs_tasks := ts\<rparr>), tq_started := tq_started s @ [t]\<rparr>))" (is "tq_inv (set_stack i ?st ?s)")
proof -
  have w: "waiting s k = t # ts" using q by (simp add: waiting_def)
  have all: "tasks_of s k = started_of s k @ t # ts" using inv w by (simp add: tq_inv_def)
  then have "t \<in> set (tasks_of s k)" by simp
  then have t: "t < length (tq_tasks s)" "key_of s t = k" by (auto simp: tasks_of_def)
  have "distinct (tasks_of s k)" by (simp add: tasks_of_def)
  then have fresh: "t \<notin> set (tq_started s)" using all t(2) by (auto simp: started_of_def)
  have views: "key_of ?s = key_of s" "outcome_of ?s = outcome_of s" "\<And>k'. tasks_of ?s k' = tasks_of s k'"
    "\<And>k'. started_of ?s k' = started_of s k' @ (if k' = k then [t] else [])"
    "\<And>k'. waiting ?s k' = (if k' = k then ts else waiting s k')" "over_threads f ?s = over_threads f s" "tq_threads ?s = tq_threads s" for f
    using t by (auto simp: key_of_def outcome_of_def tasks_of_def started_of_def waiting_def fun_eq_iff over_threads_def)
  have fo: "frame_ok ?s f = frame_ok s f" for f by (cases f) (simp_all add: views(1))
  have i': "i < length (tq_threads ?s)" using i by simp
  have h: "over_threads (holds k') (set_stack i ?st ?s) = over_threads (holds k') s" for k'
    using over_set_stack [OF i', of "holds k'" ?st] by (simp only: views(6,7) top) simp
  have b: "over_threads (busy x) (set_stack i ?st ?s) = over_threads (busy x) s + (if x = t then 1 else 0)" for x
    using over_set_stack [OF i', of "busy x" ?st] by (simp only: views(6,7) top) simp
  have out: "outcome_of s t = None" using inv t(1) fresh by (simp add: tq_inv_def)
  have "over_threads (busy x) (set_stack i ?st ?s) = (if unfinished ?s x then 1 else 0)" for x
    using b [of x] inv fresh out by (auto simp: tq_inv_def unfinished_def views(2))
  moreover have "tasks_of ?s k' = started_of ?s k' @ waiting ?s k'" for k'
    using inv all by (simp add: views tq_inv_def)
  moreover have "over_threads (holds k') (set_stack i ?st ?s) = (if tq_states ?s k' = None then 0 else 1)" for k'
    using inv h [of k'] q(1) by (simp add: tq_inv_def)
  moreover have "qs_running x" if "tq_states ?s k' = Some x" for k' x
    using that inv q(1) by (cases "k' = k") (auto simp: tq_inv_def)
  moreover have "set (tq_started ?s) \<subseteq> {..< length (tq_tasks ?s)}" using inv t(1) by (auto simp: tq_inv_def)
  moreover have "outcome_of ?s x = None" if "x < length (tq_tasks ?s)" "x \<notin> set (tq_started ?s)" for x
    using that inv by (simp add: views(2) tq_inv_def)
  moreover have "\<forall>st \<in> set ((tq_threads ?s)[i := ?st]). list_all (frame_ok ?s) st"
  proof -
    have "list_all (frame_ok s) ?st" using stack_ok [OF inv i] top t by simp
    then show ?thesis using inv list_all_update [of "list_all (frame_ok s)" "tq_threads s" ?st i] by (simp add: tq_inv_def list_all_iff fo)
  qed
  ultimately show ?thesis by (simp add: tq_inv_def)
qed

lemma exit_inv:
  assumes inv: "tq_inv s" and i: "i < length (tq_threads s)" and top: "tq_threads s ! i = Drain k own # below"
    and q: "tq_states s k = Some q" "qs_tasks q = []"
  shows "tq_inv (set_stack i (deliver r below) (s\<lparr>tq_states := (tq_states s)(k := None)\<rparr>))" (is "tq_inv (set_stack i ?st ?s)")
proof -
  have views: "key_of ?s = key_of s" "outcome_of ?s = outcome_of s" "\<And>k'. tasks_of ?s k' = tasks_of s k'"
    "\<And>k'. started_of ?s k' = started_of s k'" "waiting ?s = waiting s" "over_threads f ?s = over_threads f s" "tq_threads ?s = tq_threads s"
    "unfinished ?s = unfinished s" for f
    using q by (auto simp: key_of_def outcome_of_def tasks_of_def started_of_def waiting_def fun_eq_iff over_threads_def unfinished_def)
  have fo: "frame_ok ?s f = frame_ok s f" for f by (cases f) (simp_all add: views(1))
  have i': "i < length (tq_threads ?s)" using i by simp
  have h: "over_threads (holds k') (set_stack i ?st ?s) + (if k = k' then 1 else 0) = over_threads (holds k') s" for k'
    using over_set_stack [OF i', of "holds k'" ?st] by (simp only: views(6,7) top) simp
  have "over_threads (holds k') (set_stack i ?st ?s) = (if tq_states ?s k' = None then 0 else 1)" for k'
  proof -
    have "over_threads (holds k') s = (if tq_states s k' = None then 0 else 1)" using inv by (simp add: tq_inv_def)
    then show ?thesis using h [of k'] q(1) by (cases "k = k'") simp_all
  qed
  moreover have "over_threads (busy x) (set_stack i ?st ?s) = (if unfinished ?s x then 1 else 0)" for x
  proof -
    have "over_threads (busy x) s = (if unfinished s x then 1 else 0)" using inv by (simp add: tq_inv_def)
    then show ?thesis using over_set_stack [OF i', of "busy x" ?st] by (simp only: views(6,7,8) top) simp
  qed
  moreover have "\<forall>st \<in> set ((tq_threads ?s)[i := ?st]). list_all (frame_ok ?s) st"
  proof -
    have "list_all (frame_ok s) ?st" using stack_ok [OF inv i] top by (simp add: deliver_ok)
    then show ?thesis using inv list_all_update [of "list_all (frame_ok s)" "tq_threads s" ?st i] by (simp add: tq_inv_def list_all_iff fo)
  qed
  moreover have "qs_running x" if "tq_states ?s k' = Some x" for k' x
    using that inv by (cases "k' = k") (auto simp: tq_inv_def)
  ultimately show ?thesis using inv by (simp add: tq_inv_def views)
qed

lemma complete_inv:
  assumes inv: "tq_inv s" and i: "i < length (tq_threads s)" and top: "tq_threads s ! i = Body as # Busy k own t # below"
  shows "tq_inv (set_stack i (Drain k own # below) (complete t r s))" (is "tq_inv (set_stack i ?st ?s)")
proof -
  have t: "t < length (tq_tasks s)" using stack_ok [OF inv i] top by simp
  have "1 \<le> over_threads (busy t) s" using over_ge [OF nth_mem [OF i], of "busy t"] top by simp
  then have st: "unfinished s t" using inv by (auto simp: tq_inv_def split: if_splits)
  have views: "key_of ?s = key_of s" "\<And>k'. tasks_of ?s k' = tasks_of s k'"
    "\<And>k'. started_of ?s k' = started_of s k'" "waiting ?s = waiting s" "over_threads f ?s = over_threads f s" "tq_threads ?s = tq_threads s"
    "tq_started ?s = tq_started s" "length (tq_tasks ?s) = length (tq_tasks s)" "tq_states ?s = tq_states s" for f
  proof -
    show k: "key_of ?s = key_of s" using t by (auto simp: key_of_def complete_def fun_eq_iff nth_list_update)
    show "\<And>k'. tasks_of ?s k' = tasks_of s k'" "\<And>k'. started_of ?s k' = started_of s k'" unfolding tasks_of_def started_of_def k
      by (simp_all add: complete_def)
  qed (simp_all add: complete_def waiting_def fun_eq_iff over_threads_def)
  have fo: "frame_ok ?s f = frame_ok s f" for f by (cases f) (simp_all add: views)
  have out: "outcome_of ?s x = (if x = t then Some r else outcome_of s x)" for x using t by (simp add: outcome_of_def complete_def nth_list_update)
  have i': "i < length (tq_threads ?s)" using i by (simp add: views)
  have "over_threads (holds k') (set_stack i ?st ?s) = over_threads (holds k') s" for k'
    using over_set_stack [OF i', of "holds k'" ?st] by (simp only: views(5,6) top) simp
  moreover have "over_threads (busy x) (set_stack i ?st ?s) = (if unfinished ?s x then 1 else 0)" for x
    using over_set_stack [OF i', of "busy x" ?st] inv st
    by (cases "x = t") (simp only: views(5,6) top; simp add: tq_inv_def unfinished_def out views(7))+
  moreover have "\<forall>st \<in> set ((tq_threads ?s)[i := ?st]). list_all (frame_ok ?s) st"
  proof -
    have "list_all (frame_ok s) ?st" using stack_ok [OF inv i] top by simp
    then show ?thesis using inv list_all_update [of "list_all (frame_ok s)" "tq_threads s" ?st i] by (simp add: tq_inv_def list_all_iff fo views)
  qed
  moreover have "outcome_of ?s x = None" if "x < length (tq_tasks s)" "x \<notin> set (tq_started s)" for x
    using that inv st by (auto simp: out tq_inv_def unfinished_def)
  ultimately show ?thesis using inv by (simp add: tq_inv_def views)
qed

subsection \<open>Every step\<close>

lemma finish_inv:
  assumes inv: "tq_inv s" and i: "i < length (tq_threads s)" and top: "tq_threads s ! i = Body as # below" and f: "finish_body i r below s = Some s'"
  shows "tq_inv s'"
proof (cases below)
  case Nil
  then show ?thesis using f inv i top by (auto simp: finish_body_def intro!: inv_set_stack)
next
  case (Cons fr st)
  show ?thesis
  proof (cases fr)
    case (Body as')
    have "list_all (frame_ok s) below" using stack_ok [OF inv i] top by simp
    then have "list_all (frame_ok s) (deliver r below)" by (rule deliver_ok)
    then show ?thesis using f inv i top Cons Body by (auto simp: finish_body_def intro!: inv_set_stack)
  next
    case (Busy k own t)
    then show ?thesis using f Cons complete_inv [OF inv i, of as k own t st] top by (auto simp: finish_body_def)
  qed (use f Cons in \<open>auto simp: finish_body_def\<close>)
qed

lemma run_inv_step:
  assumes inv: "tq_inv s" and i: "i < length (tq_threads s)" and top: "tq_threads s ! i = Body (Run k func # as) # below"
  shows "tq_inv (run_call i k func (Body as # below) s)"
proof (cases "k = [] \<or> k \<in> set (active_keys (Body as # below))")
  case True
  have "list_all (frame_ok s) below" using stack_ok [OF inv i] top by simp
  then show ?thesis using True inv i top by (auto simp: run_call_def intro!: inv_set_stack)
next
  case False
  obtain s' t d where e: "enqueue k func s = (s', t, d)" by (metis prod_cases3)
  then show ?thesis using False enqueue_inv [OF e inv i top refl] by (simp add: run_call_def)
qed

lemma drain_inv:
  assumes inv: "tq_inv s" and i: "i < length (tq_threads s)" and top: "tq_threads s ! i = Drain k own # below" and d: "drain_turn i k own below s = Some s'"
  shows "tq_inv s'"
proof -
  obtain q where q: "tq_states s k = Some q" using d by (auto simp: drain_turn_def split: option.splits)
  show ?thesis
  proof (cases "qs_tasks q")
    case Nil
    then show ?thesis using d q exit_inv [OF inv i top q Nil] by (auto simp: drain_turn_def)
  next
    case (Cons t ts)
    then show ?thesis using d q take_inv [OF inv i top q Cons] by (auto simp: drain_turn_def)
  qed
qed

lemma step_inv:
  assumes inv: "tq_inv s" and s: "step_thread i s = Some s'"
  shows "tq_inv s'"
proof -
  have i: "i < length (tq_threads s)" using s by (simp add: step_thread_def split: if_splits)
  obtain f below where top: "tq_threads s ! i = f # below" using s i by (cases "tq_threads s ! i") (auto simp: step_thread_def)
  show ?thesis
  proof (cases f)
    case (Body as)
    show ?thesis
    proof (cases as)
      case Nil
      then show ?thesis using finish_inv [OF inv i, of "[]" below Returned s'] s i top Body by (simp add: step_thread_def)
    next
      case (Cons a as')
      then show ?thesis using s i top Body inv stack_ok [OF inv i] finish_inv [OF inv i, of as below _ s'] run_inv_step [OF inv i, of _ _ as' below]
        by (cases a) (auto simp: step_thread_def intro!: inv_set_stack)
    qed
  next
    case (Drain k own)
    then show ?thesis using s i top drain_inv [OF inv i] by (auto simp: step_thread_def)
  next
    case (Wait t)
    have "list_all (frame_ok s) below" using stack_ok [OF inv i] top by simp
    then show ?thesis using s i top Wait inv by (auto simp: step_thread_def deliver_ok split: option.splits intro!: inv_set_stack)
  qed (use s i top in \<open>auto simp: step_thread_def\<close>)
qed

lemma reachable_inv: "reachable progs s \<Longrightarrow> tq_inv s"
  by (induction rule: reachable.induct) (auto simp: tq_init_inv elim!: tq_stepE intro: step_inv)

section \<open>Serialisation\<close>

lemma busy_holds:
  assumes "list_all (frame_ok s) st" "0 < busy t st"
  shows "0 < holds (key_of s t) st"
proof -
  obtain f where f: "f \<in> set st" "runs_task t f" using assms(2) by (auto simp: busy_def filter_empty_conv)
  from f(2) obtain k own where "f = Busy k own t" by (cases f) auto
  then have "drained f = Some (key_of s t)" using assms(1) f(1) by (auto simp: list_all_iff)
  then show ?thesis using f(1) by (auto simp: holds_def filter_empty_conv)
qed

lemma drain_idle:
  assumes inv: "tq_inv s" and i: "i < length (tq_threads s)" and top: "tq_threads s ! i = Drain k own # below"
    and t: "t \<in> set (tq_started s)" "key_of s t = k"
  shows "outcome_of s t \<noteq> None"
proof
  assume "outcome_of s t = None"
  then have "over_threads (busy t) s = 1" using inv t(1) by (simp add: tq_inv_def unfinished_def)
  then have "0 < over_threads (busy t) (set_stack i below s)" using over_set_stack [OF i, of "busy t" below] top by simp
  from over_pos [OF this] obtain st where st: "st \<in> set ((tq_threads s)[i := below])" "0 < busy t st" by auto
  have "list_all (frame_ok s) below" using stack_ok [OF inv i] top by simp
  then have "list_all (frame_ok s) st" using st(1) inv list_all_update [of "list_all (frame_ok s)" "tq_threads s" below i] by (simp add: tq_inv_def list_all_iff)
  from busy_holds [OF this st(2)] have "0 < holds k st" by (simp only: t(2))
  then have "0 < over_threads (holds k) (set_stack i below s)" using over_ge [of st "set_stack i below s" "holds k"] st(1) by simp
  then have "1 < over_threads (holds k) s" using over_set_stack [OF i, of "holds k" below] top by simp
  moreover have "over_threads (holds k) s \<le> 1" using inv by (simp add: tq_inv_def)
  ultimately show False by simp
qed

section \<open>Executions are finite\<close>

fun act_weight :: "act \<Rightarrow> nat" where
  "act_weight (Effect n) = 1"
| "act_weight (Raise e) = 1"
| "act_weight (Run k func) = 5 + sum_list (map act_weight func)"

abbreviation body_weight :: "act list \<Rightarrow> nat" where
  "body_weight as \<equiv> sum_list (map act_weight as)"

fun frame_weight :: "frame \<Rightarrow> nat" where
  "frame_weight (Body as) = 1 + body_weight as"
| "frame_weight f = 2"

abbreviation stack_weight :: "frame list \<Rightarrow> nat" where
  "stack_weight st \<equiv> sum_list (map frame_weight st)"

definition queued_weight :: "tq \<Rightarrow> nat" where
  "queued_weight s = (\<Sum>t \<in> {..< length (tq_tasks s)} - set (tq_started s). 2 + body_weight (qt_func (tq_tasks s ! t)))"

definition tq_weight :: "tq \<Rightarrow> nat" where
  "tq_weight s = over_threads stack_weight s + queued_weight s"

lemma act_weight_pos: "0 < act_weight a"
  by (cases a) simp_all

lemma deliver_weight: "stack_weight (deliver r st) \<le> Suc (stack_weight st)"
  by (cases "(r, st)" rule: deliver.cases) simp_all

lemma weight_set_stack:
  assumes "i < length (tq_threads s)" "stack_weight st < stack_weight (tq_threads s ! i)"
  shows "tq_weight (set_stack i st s) < tq_weight s"
  using over_set_stack [OF assms(1), of stack_weight st] assms(2) by (simp add: tq_weight_def queued_weight_def)

lemma enqueue_weight:
  assumes e: "enqueue k func s = (s', t, d)" and inv: "tq_inv s"
  shows "queued_weight s' = queued_weight s + 2 + body_weight func"
proof -
  note v = enqueue_views [OF e inv]
  have sub: "set (tq_started s) \<subseteq> {..< length (tq_tasks s)}" using inv by (simp add: tq_inv_def)
  then have set: "{..< length (tq_tasks s')} - set (tq_started s') = insert t ({..< length (tq_tasks s)} - set (tq_started s))"
    using v(1,3,4) by auto
  have "t \<notin> {..< length (tq_tasks s)} - set (tq_started s)" using v(1) by simp
  then have "queued_weight s' = (2 + body_weight (qt_func (tq_tasks s' ! t))) + (\<Sum>x \<in> {..< length (tq_tasks s)} - set (tq_started s).
      2 + body_weight (qt_func (tq_tasks s' ! x)))"
    unfolding queued_weight_def set by simp
  also have "(\<Sum>x \<in> {..< length (tq_tasks s)} - set (tq_started s). 2 + body_weight (qt_func (tq_tasks s' ! x))) = queued_weight s"
    unfolding queued_weight_def using v(4) by (intro sum.cong) (auto simp: nth_append)
  finally show ?thesis using v(1,4) by simp
qed

lemma run_weight:
  assumes inv: "tq_inv s" and i: "i < length (tq_threads s)" and top: "tq_threads s ! i = Body (Run k func # as) # below"
  shows "tq_weight (run_call i k func (Body as # below) s) < tq_weight s"
proof (cases "k = [] \<or> k \<in> set (active_keys (Body as # below))")
  case True
  then have "run_call i k func (Body as # below) s = set_stack i (Body func # Body as # below) s" by (auto simp: run_call_def)
  then show ?thesis using weight_set_stack [OF i, of "Body func # Body as # below"] top by simp
next
  case False
  obtain s' t d where e: "enqueue k func s = (s', t, d)" by (metis prod_cases3)
  let ?st = "(if d then Drain k t else Wait t) # Body as # below"
  have r: "run_call i k func (Body as # below) s = set_stack i ?st s'" using False e by (simp add: run_call_def)
  have th: "tq_threads s' = tq_threads s" by (rule enqueue_views(2) [OF e inv])
  then have "over_threads stack_weight (set_stack i ?st s') + stack_weight (tq_threads s ! i) = over_threads stack_weight s + stack_weight ?st"
    using over_set_stack [of i s' stack_weight ?st] i by (simp add: over_threads_def)
  moreover have "queued_weight (set_stack i ?st s') = queued_weight s + 2 + body_weight func"
    using enqueue_weight [OF e inv] by (simp add: queued_weight_def)
  ultimately show ?thesis using top unfolding r by (simp add: tq_weight_def split: if_splits)
qed

lemma finish_weight:
  assumes i: "i < length (tq_threads s)" and top: "tq_threads s ! i = Body as # below" and r: "r = Returned \<or> as \<noteq> []"
    and f: "finish_body i r below s = Some s'"
  shows "tq_weight s' < tq_weight s"
proof -
  have a: "as \<noteq> [] \<Longrightarrow> 1 \<le> body_weight as" by (cases as) (simp_all add: Suc_le_eq act_weight_pos)
  have d: "stack_weight (deliver r below) < stack_weight (Body as # below)"
    using r deliver_weight [of r below] a by (cases "as = []") auto
  show ?thesis using f
  proof (cases below)
    case (Cons fr st)
    show ?thesis
    proof (cases fr)
      case (Busy k own t)
      then have s': "s' = set_stack i (Drain k own # st) (complete t r s)" using f Cons by (simp add: finish_body_def)
      have "tq_tasks (complete t r s) ! x = (if x = t \<and> t < length (tq_tasks s) then (tq_tasks s ! t)\<lparr>qt_outcome := Some r\<rparr> else tq_tasks s ! x)" for x
        by (cases "t < length (tq_tasks s)") (auto simp: complete_def nth_list_update list_update_beyond)
      then have q: "queued_weight s' = queued_weight s" unfolding queued_weight_def s' by (intro sum.cong) (auto simp: complete_def)
      have th: "tq_threads (complete t r s) = tq_threads s" by (simp add: complete_def)
      then have "over_threads stack_weight s' + stack_weight (tq_threads s ! i) = over_threads stack_weight s + stack_weight (Drain k own # st)"
        using over_set_stack [of i "complete t r s" stack_weight "Drain k own # st"] i unfolding s' by (simp add: over_threads_def)
      then show ?thesis using q top Cons Busy by (simp add: tq_weight_def)
    qed (use f Cons top i d in \<open>auto simp: finish_body_def intro!: weight_set_stack\<close>)
  qed (use top i in \<open>auto simp: finish_body_def intro!: weight_set_stack\<close>)
qed

lemma take_weight:
  assumes inv: "tq_inv s" and q: "tq_states s k = Some q" "qs_tasks q = t # ts"
  shows "queued_weight (s\<lparr>tq_states := b, tq_started := tq_started s @ [t]\<rparr>) + 2 + body_weight (qt_func (tq_tasks s ! t)) = queued_weight s"
proof -
  have all: "tasks_of s k = started_of s k @ t # ts" using inv q by (simp add: tq_inv_def waiting_def)
  then have "t \<in> set (tasks_of s k)" by simp
  then have t: "t < length (tq_tasks s)" "key_of s t = k" by (auto simp: tasks_of_def)
  have "distinct (tasks_of s k)" by (simp add: tasks_of_def)
  then have "t \<notin> set (tq_started s)" using all t(2) by (auto simp: started_of_def)
  moreover define A where "A = {..< length (tq_tasks s)} - set (tq_started s @ [t])"
  ultimately have "{..< length (tq_tasks s)} - set (tq_started s) = insert t A" "t \<notin> A" "finite A" using t(1) by auto
  then have "queued_weight s = 2 + body_weight (qt_func (tq_tasks s ! t)) + (\<Sum>x \<in> A. 2 + body_weight (qt_func (tq_tasks s ! x)))"
    by (simp add: queued_weight_def)
  then show ?thesis by (simp add: queued_weight_def A_def)
qed

lemma drain_weight:
  assumes inv: "tq_inv s" and i: "i < length (tq_threads s)" and top: "tq_threads s ! i = Drain k own # below" and d: "drain_turn i k own below s = Some s'"
  shows "tq_weight s' < tq_weight s"
proof -
  obtain q where q: "tq_states s k = Some q" using d by (auto simp: drain_turn_def split: option.splits)
  show ?thesis
  proof (cases "qs_tasks q")
    case Nil
    let ?s = "s\<lparr>tq_states := (tq_states s)(k := None)\<rparr>"
    have s': "s' = set_stack i (deliver (own_outcome s own) below) ?s" using d q Nil by (auto simp: drain_turn_def)
    have "tq_weight s' < tq_weight ?s" unfolding s' using i top deliver_weight [of "own_outcome s own" below] by (intro weight_set_stack) auto
    then show ?thesis by (simp add: tq_weight_def queued_weight_def)
  next
    case (Cons t ts)
    let ?s = "s\<lparr>tq_states := (tq_states s)(k \<mapsto> q\<lparr>qs_tasks := ts\<rparr>), tq_started := tq_started s @ [t]\<rparr>"
    let ?st = "Body (qt_func (tq_tasks s ! t)) # Busy k own t # below"
    have s': "s' = set_stack i ?st ?s" using d q Cons by (auto simp: drain_turn_def)
    have "over_threads stack_weight s' + stack_weight (tq_threads s ! i) = over_threads stack_weight s + stack_weight ?st"
      using over_set_stack [of i ?s stack_weight ?st] i unfolding s' by (simp add: over_threads_def)
    moreover have "queued_weight s' = queued_weight ?s" by (simp add: s' queued_weight_def)
    ultimately show ?thesis using take_weight [OF inv q Cons, of "(tq_states s)(k \<mapsto> q\<lparr>qs_tasks := ts\<rparr>)"] top by (simp add: tq_weight_def)
  qed
qed

lemma step_weight:
  assumes inv: "tq_inv s" and s: "step_thread i s = Some s'"
  shows "tq_weight s' < tq_weight s"
proof -
  have i: "i < length (tq_threads s)" using s by (simp add: step_thread_def split: if_splits)
  obtain f below where top: "tq_threads s ! i = f # below" using s i by (cases "tq_threads s ! i") (auto simp: step_thread_def)
  show ?thesis
  proof (cases f)
    case (Body as)
    show ?thesis
    proof (cases as)
      case Nil
      then show ?thesis using finish_weight [OF i, of "[]" below Returned s'] s i top Body by (simp add: step_thread_def)
    next
      case (Cons a as')
      then show ?thesis using s i top Body finish_weight [OF i, of as below _ s'] run_weight [OF inv i, of _ _ as' below]
        by (cases a) (auto simp: step_thread_def intro!: weight_set_stack)
    qed
  next
    case (Drain k own)
    then show ?thesis using s i top drain_weight [OF inv i] by (auto simp: step_thread_def)
  next
    case (Wait t)
    then obtain r where "s' = set_stack i (deliver r below) s" using s i top by (auto simp: step_thread_def split: option.splits)
    then show ?thesis using i top Wait deliver_weight [of r below] by (auto intro!: weight_set_stack)
  qed (use s i top in \<open>auto simp: step_thread_def\<close>)
qed

lemma steps_weight: "(tq_step ^^ n) s s' \<Longrightarrow> tq_inv s \<Longrightarrow> tq_inv s' \<and> tq_weight s' + n \<le> tq_weight s"
proof (induction n arbitrary: s')
  case (Suc n)
  then obtain s1 where s1: "(tq_step ^^ n) s s1" "tq_step s1 s'" by auto
  then have "tq_inv s1" "tq_weight s1 + n \<le> tq_weight s" using Suc by auto
  moreover obtain i where "step_thread i s1 = Some s'" using s1(2) by (rule tq_stepE)
  ultimately show ?case using step_inv step_weight by fastforce
qed simp

section \<open>Nothing gets stuck without nested calls\<close>

definition no_run :: "act list \<Rightarrow> bool" where
  "no_run as = list_all (\<lambda>a. case a of Run k f \<Rightarrow> False | _ \<Rightarrow> True) as"

definition flat_prog :: "act list \<Rightarrow> bool" where
  "flat_prog as = list_all (\<lambda>a. case a of Run k f \<Rightarrow> no_run f | _ \<Rightarrow> True) as"

fun flat_stack :: "frame list \<Rightarrow> bool" where
  "flat_stack [] = True"
| "flat_stack [Body as] = flat_prog as"
| "flat_stack [Body b, Body as] \<longleftrightarrow> no_run b \<and> flat_prog as"
| "flat_stack [Drain k own, Body as] \<longleftrightarrow> flat_prog as"
| "flat_stack [Wait t, Body as] \<longleftrightarrow> flat_prog as"
| "flat_stack [Body b, Busy k own t, Body as] \<longleftrightarrow> no_run b \<and> flat_prog as"
| "flat_stack _ = False"

fun_cases flat_stackE: "flat_stack st"

definition flat_inv :: "tq \<Rightarrow> bool" where
  "flat_inv s \<longleftrightarrow> list_all flat_stack (tq_threads s) \<and> list_all (\<lambda>t. no_run (qt_func t)) (tq_tasks s)"

lemma flat_set_stack: "flat_inv s \<Longrightarrow> flat_stack st \<Longrightarrow> flat_inv (set_stack i st s)"
  by (simp add: flat_inv_def list_all_update)

lemma flat_simps [simp]: "flat_prog (Run k f # as) \<longleftrightarrow> no_run f \<and> flat_prog as" "flat_prog (Effect n # as) = flat_prog as"
  "flat_prog (Raise e # as) = flat_prog as" "flat_prog []" "no_run []" "no_run (Effect n # as) = no_run as" "no_run (Raise e # as) = no_run as"
  "\<not> no_run (Run k f # as)"
  by (simp_all add: flat_prog_def no_run_def)

lemma deliver_flat: "flat_prog as \<Longrightarrow> flat_stack (deliver r [Body as])"
  by (cases r) simp_all

lemma flat_complete: "flat_inv s \<Longrightarrow> flat_inv (complete t r s)"
  by (cases "t < length (tq_tasks s)") (auto simp: flat_inv_def complete_def list_all_length nth_list_update list_update_beyond)

lemma flat_enqueue: "flat_inv s \<Longrightarrow> no_run f \<Longrightarrow> enqueue k f s = (s', t, d) \<Longrightarrow> flat_inv s'"
  by (auto simp: flat_inv_def enqueue_def Let_def)

lemma flat_run: "flat_inv s \<Longrightarrow> flat_prog as \<Longrightarrow> no_run f \<Longrightarrow> flat_inv (run_call i k f [Body as] s)"
  by (auto simp: run_call_def split: prod.splits intro!: flat_set_stack dest: flat_enqueue)

lemma flat_drain:
  assumes flat: "flat_inv s" "flat_prog as" and inv: "tq_inv s" and d: "drain_turn i k own [Body as] s = Some s'"
  shows "flat_inv s'"
proof -
  obtain q where q: "tq_states s k = Some q" using d by (auto simp: drain_turn_def split: option.splits)
  show ?thesis
  proof (cases "qs_tasks q")
    case Nil
    have "flat_inv (s\<lparr>tq_states := (tq_states s)(k := None)\<rparr>)" using flat(1) by (simp add: flat_inv_def)
    then show ?thesis using d q Nil deliver_flat [OF flat(2)] by (auto simp: drain_turn_def intro!: flat_set_stack)
  next
    case (Cons t ts)
    have "t \<in> set (tasks_of s k)" using inv q Cons by (simp add: tq_inv_def waiting_def)
    then have "no_run (qt_func (tq_tasks s ! t))" using flat(1) by (auto simp: tasks_of_def flat_inv_def list_all_length)
    moreover have "flat_inv (s\<lparr>tq_states := (tq_states s)(k \<mapsto> q\<lparr>qs_tasks := ts\<rparr>), tq_started := tq_started s @ [t]\<rparr>)"
      using flat(1) by (simp add: flat_inv_def)
    ultimately show ?thesis using d q Cons flat(2) by (auto simp: drain_turn_def intro!: flat_set_stack)
  qed
qed

lemma flat_top: "flat_inv s \<Longrightarrow> i < length (tq_threads s) \<Longrightarrow> flat_stack (tq_threads s ! i)"
  by (simp add: flat_inv_def list_all_length)

lemma flat_step:
  assumes flat: "flat_inv s" and inv: "tq_inv s" and s: "step_thread i s = Some s'"
  shows "flat_inv s'"
proof -
  have i: "i < length (tq_threads s)" using s by (simp add: step_thread_def split: if_splits)
  from flat_top [OF flat i] show ?thesis
    by (rule flat_stackE) (use s i flat inv flat_drain [OF flat _ inv] in \<open>auto simp: step_thread_def finish_body_def deliver_flat flat_complete
        split: list.splits act.splits option.splits intro!: flat_set_stack flat_run\<close>)
qed

definition tq_finished :: "tq \<Rightarrow> bool" where
  "tq_finished s \<longleftrightarrow> (\<forall>st \<in> set (tq_threads s). st = []) \<and> (\<forall>t < length (tq_tasks s). outcome_of s t \<noteq> None) \<and> tq_states s = Map.empty"

lemma holder_state:
  assumes inv: "tq_inv s" and i: "i < length (tq_threads s)" and top: "tq_threads s ! i = Drain k own # below"
  shows "tq_states s k \<noteq> None"
proof
  assume "tq_states s k = None"
  then have "over_threads (holds k) s = 0" using inv by (simp add: tq_inv_def)
  then show False using over_ge [OF nth_mem [OF i], of "holds k"] top by simp
qed

lemma stuck_waits:
  assumes flat: "flat_inv s" and inv: "tq_inv s" and stuck: "step_thread i s = None" and i: "i < length (tq_threads s)"
  shows "tq_threads s ! i = [] \<or> (\<exists>t as. tq_threads s ! i = [Wait t, Body as] \<and> outcome_of s t = None)"
  using flat_top [OF flat i]
proof (rule flat_stackE)
  fix k own as assume top: "tq_threads s ! i = [Drain k own, Body as]"
  then show ?thesis using holder_state [OF inv i top] stuck i by (auto simp: step_thread_def drain_turn_def)
qed (use stuck i in \<open>auto simp: step_thread_def finish_body_def split: list.splits act.splits option.splits\<close>)

lemma stuck_finished:
  assumes flat: "flat_inv s" and inv: "tq_inv s" and stuck: "\<And>i. step_thread i s = None"
  shows "tq_finished s"
proof -
  have idle: "st = [] \<or> (\<exists>t as. st = [Wait t, Body as] \<and> outcome_of s t = None)" if "st \<in> set (tq_threads s)" for st
    using that stuck_waits [OF flat inv stuck] by (auto simp: in_set_conv_nth)
  then have "holds k st = 0 \<and> busy t st = 0" if "st \<in> set (tq_threads s)" for k t st using that by fastforce
  then have none: "over_threads (holds k) s = 0" "over_threads (busy t) s = 0" for k t
    using over_pos [of "holds k" s] over_pos [of "busy t" s] by fastforce+
  then have states: "tq_states s k = None" for k using inv by (simp add: tq_inv_def) (metis zero_neq_one)
  have fin: "outcome_of s t \<noteq> None" if t: "t < length (tq_tasks s)" for t
  proof -
    have "t \<in> set (tasks_of s (key_of s t))" using t by (simp add: tasks_of_def)
    moreover have "waiting s (key_of s t) = []" using states by (simp add: waiting_def)
    ultimately have "t \<in> set (tq_started s)" using inv by (simp add: tq_inv_def started_of_def)
    moreover have "\<not> unfinished s t" using none(2) [of t] inv by (auto simp: tq_inv_def)
    ultimately show ?thesis by (simp add: unfinished_def)
  qed
  have "st = []" if st: "st \<in> set (tq_threads s)" for st
    using idle [OF st] fin inv st by (fastforce simp: tq_inv_def)
  then show ?thesis using fin states by (auto simp: tq_finished_def)
qed

lemma flat_init: "list_all flat_prog progs \<Longrightarrow> flat_inv (tq_init progs)"
  by (simp add: flat_inv_def tq_init_def list_all_iff)

lemma steps_flat: "(tq_step ^^ n) s s' \<Longrightarrow> tq_inv s \<Longrightarrow> flat_inv s \<Longrightarrow> flat_inv s'"
proof (induction n arbitrary: s')
  case (Suc n)
  then obtain s1 where s1: "(tq_step ^^ n) s s1" "tq_step s1 s'" by auto
  have "tq_inv s1" using steps_weight [OF s1(1) Suc.prems(2)] by simp
  moreover obtain i where "step_thread i s1 = Some s'" using s1(2) by (rule tq_stepE)
  ultimately show ?case using flat_step Suc s1(1) by blast
qed simp

section \<open>Properties\<close>

text \<open>C11. In every interleaving of any threads, also with nested calls: at most one thread drains a key, the tasks
  of a key are taken in the order in which they were queued and no task twice, and a drainer is between
  tasks only when every task of its key that was taken has its outcome. So functions of one key never overlap.\<close>

theorem keyed_tasks_serialised:
  assumes "reachable progs s"
  shows "over_threads (holds k) s \<le> 1 \<and> tasks_of s k = started_of s k @ waiting s k \<and> distinct (started_of s k)
    \<and> (\<forall>i < length (tq_threads s). \<forall>own below. tq_threads s ! i = Drain k own # below \<longrightarrow>
        (\<forall>t \<in> set (started_of s k). outcome_of s t \<noteq> None))"
proof -
  have inv: "tq_inv s" by (rule reachable_inv [OF assms])
  then have t: "tasks_of s k = started_of s k @ waiting s k" by (simp add: tq_inv_def)
  moreover have "distinct (tasks_of s k)" by (simp add: tasks_of_def)
  then have "distinct (started_of s k)" using t by simp
  ultimately show ?thesis using inv drain_idle [OF inv] by (auto simp: tq_inv_def started_of_def)
qed

text \<open>C12. Executions are finite whatever the schedule, with a bound from the programs alone; and when the queued
  functions do not call the queue, an execution can only end with every thread done and every task run to
  an outcome: no call waits for ever.\<close>

theorem flat_calls_all_return:
  assumes "list_all flat_prog progs" and "(tq_step ^^ n) (tq_init progs) s"
  shows "n \<le> tq_weight (tq_init progs) \<and> ((\<forall>s'. \<not> tq_step s s') \<longrightarrow> tq_finished s)"
proof -
  have w: "tq_inv s" "tq_weight s + n \<le> tq_weight (tq_init progs)" using steps_weight [OF assms(2) tq_init_inv] by auto
  have flat: "flat_inv s" by (rule steps_flat [OF assms(2) tq_init_inv flat_init [OF assms(1)]])
  have "tq_finished s" if "\<forall>s'. \<not> tq_step s s'"
  proof (rule stuck_finished [OF flat w(1)])
    fix i show "step_thread i s = None" using that tq_step.thread [of i s] by (cases "step_thread i s") auto
  qed
  then show ?thesis using w(2) by auto
qed

section \<open>Schedules\<close>

fun run_schedule :: "nat list \<Rightarrow> tq \<Rightarrow> tq option" where
  "run_schedule [] s = Some s"
| "run_schedule (i # sched) s = (case step_thread i s of None \<Rightarrow> None | Some s' \<Rightarrow> run_schedule sched s')"

lemma schedule_reachable: "run_schedule sched s = Some s' \<Longrightarrow> reachable progs s \<Longrightarrow> reachable progs s'"
proof (induction sched arbitrary: s)
  case (Cons i sched)
  then obtain s1 where "step_thread i s = Some s1" "run_schedule sched s1 = Some s'" by (auto split: option.splits)
  then show ?case using Cons reachable.step tq_step.thread by blast
qed simp

lemma schedule_steps: "run_schedule sched s = Some s' \<Longrightarrow> (tq_step ^^ length sched) s s'"
proof (induction sched arbitrary: s)
  case (Cons i sched)
  then obtain s1 where "step_thread i s = Some s1" "run_schedule sched s1 = Some s'" by (auto split: option.splits)
  then show ?case using Cons.IH relpowp_Suc_I2 [of tq_step s s1] tq_step.thread by auto
qed simp

definition plain_calls :: "act list list" where
  "plain_calls = [[Run ''a'' [Effect 0]], [Run ''a'' [Raise 1], Effect 2]]"

text \<open>The second thread queues behind the first, which runs both functions; the exception reaches the
  second thread.\<close>

lemma plain_run: "\<exists>s. run_schedule [0, 1, 0, 0, 0, 0, 0, 0, 1, 1, 0] (tq_init plain_calls) = Some s \<and> tq_started s = [0, 1]
    \<and> map qt_outcome (tq_tasks s) = [Some Returned, Some (Raised 1)] \<and> tq_threads s = [[], []] \<and> (\<forall>i < 2. step_thread i s = None)"
proof -
  have "(case run_schedule [0, 1, 0, 0, 0, 0, 0, 0, 1, 1, 0] (tq_init plain_calls) of None \<Rightarrow> False
    | Some s \<Rightarrow> tq_started s = [0, 1] \<and> map qt_outcome (tq_tasks s) = [Some Returned, Some (Raised 1)] \<and> tq_threads s = [[], []]
        \<and> list_all (\<lambda>i. step_thread i s = None) [0 ..< 2])" by code_simp
  then show ?thesis by (auto split: option.splits simp: list_all_iff)
qed

lemma keyed_tasks_serialised_witness:
  "\<exists>s. run_schedule [0, 1, 0, 0, 0, 0, 0, 0, 1, 1, 0] (tq_init plain_calls) = Some s \<and> tq_started s = [0, 1]
    \<and> tasks_of s ''a'' = started_of s ''a'' @ waiting s ''a''"
proof -
  obtain s where s: "run_schedule [0, 1, 0, 0, 0, 0, 0, 0, 1, 1, 0] (tq_init plain_calls) = Some s" "tq_started s = [0, 1]" using plain_run by blast
  then show ?thesis using keyed_tasks_serialised [OF schedule_reachable [OF s(1) reachable.start], of "''a''"] by blast
qed

lemma flat_calls_all_return_witness:
  "\<exists>s. run_schedule [0, 1, 0, 0, 0, 0, 0, 0, 1, 1, 0] (tq_init plain_calls) = Some s \<and> tq_finished s"
proof -
  obtain s where s: "run_schedule [0, 1, 0, 0, 0, 0, 0, 0, 1, 1, 0] (tq_init plain_calls) = Some s" "tq_threads s = [[], []]" using plain_run by blast
  have "\<not> tq_step s s'" for s' using s(2) by (auto elim!: tq_stepE simp: step_thread_def nth_Cons split: nat.splits if_splits)
  moreover have "list_all flat_prog plain_calls" by (simp add: plain_calls_def)
  ultimately show ?thesis using flat_calls_all_return [OF _ schedule_steps [OF s(1)]] s(1) by blast
qed

text \<open>The keys a call may run directly are those of the thread that runs it, but a waiting caller's function is
  run by the drainer, which does not hold the caller's keys: a call of key \<open>a\<close> inside one of \<open>b\<close> inside
  one of \<open>a\<close> is reentrant when \<open>b\<close> is idle and blocks for ever when another thread drains \<open>b\<close>.\<close>

definition nested_calls :: "act list list" where
  "nested_calls = [[Run ''a'' [Run ''b'' [Run ''a'' []]]], [Run ''b'' [Effect 0]]]"

lemma nested_calls_deadlock:
  "\<exists>s. reachable nested_calls s \<and> (\<forall>s'. \<not> tq_step s s') \<and> \<not> tq_finished s"
proof -
  have "(case run_schedule [0, 0, 1, 1, 0, 1, 1, 1, 1] (tq_init nested_calls) of None \<Rightarrow> False
    | Some s \<Rightarrow> length (tq_threads s) = 2 \<and> list_all (\<lambda>i. step_thread i s = None) [0, 1] \<and> tq_threads s ! 0 \<noteq> [])" by code_simp
  then obtain s where s: "run_schedule [0, 0, 1, 1, 0, 1, 1, 1, 1] (tq_init nested_calls) = Some s" "length (tq_threads s) = 2"
      "step_thread 0 s = None" "step_thread 1 s = None" "tq_threads s ! 0 \<noteq> []" by (auto split: option.splits)
  have "step_thread i s = None" for i
  proof (cases "i < 2")
    case True
    then have "i = 0 \<or> i = 1" by auto
    then show ?thesis using s(3,4) by auto
  qed (use s(2) in \<open>simp add: step_thread_def\<close>)
  then have "\<not> tq_step s s'" for s' by (auto elim!: tq_stepE)
  moreover have "\<not> tq_finished s" using s(2,5) nth_mem [of 0 "tq_threads s"] by (auto simp: tq_finished_def)
  ultimately show ?thesis using schedule_reachable [OF s(1) reachable.start] by blast
qed

end
