(* ===== verification/RuntimeEvents.thy ===== *)
theory RuntimeEvents
  imports MessageProtocol RuntimeStore
begin

text \<open>
  What a node shows of its run (\<open>runtime_event_store.py\<close>, \<open>provider_request_usage.py\<close>, \<open>node_diagnostics_projection.py\<close>,
  the part of \<open>node_config_store.py\<close> that stores an event, and the notices \<open>base_agent.py\<close> sends of its provider requests):
  events in a normal form, the last of them in a bounded history, the tool calls, the requests to the provider and their totals,
  and the file that keeps them over a restart. An \<open>OverflowError\<close> that no handler catches comes out of the call.
\<close>

section \<open>Fields of an event\<close>

text \<open>\<open>str(v or d).strip() or d\<close>\<close>

definition text_default :: "pyval \<Rightarrow> string \<Rightarrow> string" where
  "text_default v d = (let t = py_strip (if truthy v then py_str v else d) in if t = [] then d else t)"

fun round_float :: "pyfloat \<Rightarrow> (py_error, int) res" where
  "round_float (Fin q) = Inr (round_half_even q)"
| "round_float NaN = Inl ValueError"
| "round_float _ = Inl OverflowError"

definition count_or_none :: "(py_error, int) res \<Rightarrow> (rt_error, int option) res" where
  "count_or_none r = (case r of Inl OverflowError \<Rightarrow> Inl (RtPy OverflowError) | Inl _ \<Rightarrow> Inr None | Inr n \<Rightarrow> Inr (Some (max 0 n)))"

definition normalize_non_negative_int :: "pyval \<Rightarrow> (rt_error, int option) res" where
  "normalize_non_negative_int v = (if is_bool v \<or> is_none v then Inr None else count_or_none (py_int v))"

definition normalize_non_negative_rounded_int :: "pyval \<Rightarrow> (rt_error, int option) res" where
  "normalize_non_negative_rounded_int v = (if is_bool v \<or> is_none v then Inr None else count_or_none (rbind (py_float v) round_float))"

definition int_entry :: "string \<Rightarrow> int option \<Rightarrow> pydict" where
  "int_entry k n = (case n of None \<Rightarrow> [] | Some n \<Rightarrow> [(k, PInt n)])"

definition event_timestamps :: "pydict \<Rightarrow> (rt_error, pydict) res" where
  "event_timestamps event = rbind (normalize_non_negative_int (get event ''monotonic_ns'')) (\<lambda>n.
     Inr (text_entry ''event_time'' (get event ''event_time'') @ int_entry ''monotonic_ns'' n))"

definition sources_entry :: "pyval \<Rightarrow> pydict" where
  "sources_entry v = (case v of PList xs \<Rightarrow> if xs = [] then [] else [(''sources'', PList (filter is_dict xs))] | _ \<Rightarrow> [])"

definition arguments_entry :: "pyval \<Rightarrow> pydict" where
  "arguments_entry v = (case v of PDict d \<Rightarrow> [(''arguments'', PDict d)] | _ \<Rightarrow> [])"

definition bool_entry :: "string \<Rightarrow> pydict \<Rightarrow> pydict" where
  "bool_entry k event = (if dict_has event k then [(k, PBool (truthy (get event k)))] else [])"

definition diagnostic_texts :: "pyval list \<Rightarrow> string list" where
  "diagnostic_texts xs = filter (\<lambda>t. t \<noteq> []) (map (\<lambda>v. py_strip (py_str v)) (filter (\<lambda>v. \<not> is_none v) xs))"

definition diagnostics_entry :: "pyval \<Rightarrow> pydict" where
  "diagnostics_entry v = (let ts = diagnostic_texts (list_items v) in if ts = [] then [] else [(''diagnostics'', PList (map PStr ts))])"

section \<open>Events in normal form\<close>

definition normalize_notice :: "pydict \<Rightarrow> (rt_error, pydict) res" where
  "normalize_notice event = (let message = text_of (get event ''message'') in
     if message = [] then Inl (RtPy ValueError) else rbind (event_timestamps event) (\<lambda>stamps.
       Inr ([(''type'', PStr ''runtime_notice''), (''message'', PStr message), (''source'', PStr (text_default (get event ''source'') ''runtime''))]
         @ text_entry ''stage'' (get event ''stage'') @ text_entry ''name'' (get event ''name'')
         @ text_entry ''call_id'' (get event ''call_id'') @ text_entry ''provider'' (get event ''provider'') @ stamps)))"

definition normalize_server_tool :: "pydict \<Rightarrow> (rt_error, pydict) res" where
  "normalize_server_tool event = (let call_id = text_of (get event ''call_id''); tool_type = py_lower (text_of (get event ''tool_type'')) in
     if call_id = [] \<or> tool_type = [] then Inl (RtPy ValueError) else rbind (event_timestamps event) (\<lambda>stamps.
       Inr ([(''type'', PStr ''server_tool_activity''), (''call_id'', PStr call_id), (''tool_type'', PStr tool_type),
           (''status'', PStr (py_lower (text_default (get event ''status'') ''in_progress'')))]
         @ text_entry ''provider'' (get event ''provider'') @ dict_entry ''action'' (get event ''action'')
         @ sources_entry (get event ''sources'') @ dict_entry ''details'' (get event ''details'')
         @ text_entry ''error'' (get event ''error'') @ stamps)))"

definition tool_end_fields :: "pydict \<Rightarrow> (rt_error, pydict) res" where
  "tool_end_fields event = rbind (normalize_non_negative_rounded_int (get event ''duration_ms'')) (\<lambda>duration.
     rbind (if dict_has event ''result_chars'' then normalize_non_negative_rounded_int (get event ''result_chars'') else Inr None) (\<lambda>chars.
       Inr ([(''status'', PStr (text_default (get event ''status'') ''completed''))] @ int_entry ''duration_ms'' duration
         @ text_entry ''error'' (get event ''error'') @ text_entry ''result_preview'' (get event ''result_preview'')
         @ int_entry ''result_chars'' chars @ bool_entry ''result_preview_truncated'' event
         @ text_entry ''result_tail_preview'' (get event ''result_tail_preview'') @ bool_entry ''result_tail_preview_truncated'' event
         @ diagnostics_entry (get event ''diagnostics'')
         @ text_entry ''memory_persistence_warning'' (get event ''memory_persistence_warning''))))"

definition normalize_tool_call :: "string \<Rightarrow> pydict \<Rightarrow> (rt_error, pydict) res" where
  "normalize_tool_call event_type event = (let call_id = text_of (get event ''call_id'') in
     if call_id = [] then Inl (RtPy ValueError) else rbind (event_timestamps event) (\<lambda>stamps.
       rbind (if event_type = ''tool_call_end'' then tool_end_fields event else Inr []) (\<lambda>ending.
         Inr ([(''type'', PStr event_type), (''name'', PStr (text_default (get event ''name'') ''tool'')), (''call_id'', PStr call_id)]
           @ text_entry ''provider'' (get event ''provider'') @ stamps @ arguments_entry (get event ''arguments'') @ ending))))"

definition normalize_runtime_event :: "pyval \<Rightarrow> (rt_error, pydict) res" where
  "normalize_runtime_event v = (case v of
      PDict event \<Rightarrow> (let event_type = py_lower (text_of (get event ''type'')) in
        if event_type = ''runtime_notice'' then normalize_notice event
        else if event_type = ''server_tool_activity'' then normalize_server_tool event
        else if event_type = ''tool_call_start'' \<or> event_type = ''tool_call_end'' then normalize_tool_call event_type event
        else Inl (RtPy ValueError))
    | _ \<Rightarrow> Inl (RtPy ValueError))"

section \<open>Tool calls\<close>

definition MAX_RUNTIME_EVENTS :: nat where "MAX_RUNTIME_EVENTS = 20"
definition MAX_RUNTIME_TOOL_CALLS :: nat where "MAX_RUNTIME_TOOL_CALLS = 20"
definition MAX_PROVIDER_REQUEST_SUMMARIES :: nat where "MAX_PROVIDER_REQUEST_SUMMARIES = 8"

text \<open>\<open>str(v or "").strip() or None\<close>\<close>

definition opt_text :: "pyval \<Rightarrow> pyval" where
  "opt_text v = (if text_of v = [] then PNone else PStr (text_of v))"

definition opt_bool :: "pydict \<Rightarrow> string \<Rightarrow> pyval" where
  "opt_bool event k = (if dict_has event k then PBool (truthy (get event k)) else PNone)"

definition int_or_none :: "pyval \<Rightarrow> pyval" where
  "int_or_none v = (if is_int v then v else PNone)"

definition new_call :: "string \<Rightarrow> pydict \<Rightarrow> pydict" where
  "new_call call_id event = [(''call_id'', PStr call_id), (''name'', PStr (text_default (get event ''name'') ''tool'')),
     (''provider'', opt_text (get event ''provider'')), (''arguments'', if is_dict (get event ''arguments'') then get event ''arguments'' else PNone),
     (''status'', PStr ''running''), (''duration_ms'', PNone), (''error'', PNone), (''result_preview'', PNone), (''result_chars'', PNone),
     (''result_preview_truncated'', PNone), (''result_tail_preview'', PNone), (''result_tail_preview_truncated'', PNone),
     (''diagnostics'', PNone), (''memory_persistence_warning'', PNone), (''started_event_time'', PNone), (''started_monotonic_ns'', PNone),
     (''completed_event_time'', PNone), (''completed_monotonic_ns'', PNone)]"

definition merge_call :: "string \<Rightarrow> pydict \<Rightarrow> pydict \<Rightarrow> pydict" where
  "merge_call event_type event existing = (let
       e1 = (if text_of (get event ''name'') = [] then existing else dict_set ''name'' (PStr (text_of (get event ''name''))) existing);
       e2 = (if is_none (get event ''provider'') then e1 else dict_set ''provider'' (opt_text (get event ''provider'')) e1);
       e3 = (if is_dict (get event ''arguments'') then dict_set ''arguments'' (get event ''arguments'') e2 else e2);
       since = (\<lambda>prefix e. dict_set (prefix @ ''_monotonic_ns'') (py_or (get event ''monotonic_ns'') (get e (prefix @ ''_monotonic_ns'')))
         (dict_set (prefix @ ''_event_time'') (py_or (get event ''event_time'') (get e (prefix @ ''_event_time''))) e))
     in if event_type = ''tool_call_start'' then since ''started'' (dict_set ''status'' (PStr ''running'') e3)
     else fold (\<lambda>(k, v). dict_set k v)
       [(''duration_ms'', int_or_none (get event ''duration_ms'')), (''error'', opt_text (get event ''error'')),
        (''result_preview'', opt_text (get event ''result_preview'')), (''result_chars'', int_or_none (get event ''result_chars'')),
        (''result_preview_truncated'', opt_bool event ''result_preview_truncated''),
        (''result_tail_preview'', opt_text (get event ''result_tail_preview'')),
        (''result_tail_preview_truncated'', opt_bool event ''result_tail_preview_truncated''),
        (''diagnostics'', case get event ''diagnostics'' of PList ds \<Rightarrow> PList (map (\<lambda>v. PStr (py_str v)) ds) | _ \<Rightarrow> PNone),
        (''memory_persistence_warning'', opt_text (get event ''memory_persistence_warning''))]
       (since ''completed'' (dict_set ''status'' (PStr (text_default (get event ''status'') ''completed'')) e3)))"

definition is_call :: "string \<Rightarrow> pyval \<Rightarrow> bool" where
  "is_call call_id item \<longleftrightarrow> is_dict item \<and> text_of (get (dict_items item) ''call_id'') = call_id"

fun update_first :: "('a \<Rightarrow> bool) \<Rightarrow> ('a \<Rightarrow> 'a) \<Rightarrow> 'a list \<Rightarrow> 'a list" where
  "update_first P f [] = []"
| "update_first P f (x # xs) = (if P x then f x # xs else x # update_first P f xs)"

definition upsert_runtime_tool_call :: "pydict \<Rightarrow> pydict \<Rightarrow> (rt_error, pydict) res" where
  "upsert_runtime_tool_call payload event = (let event_type = text_of (get event ''type''); call_id = text_of (get event ''call_id'');
       calls = list_items (get payload ''runtime_tool_calls'');
       calls' = (if \<exists>c \<in> set calls. is_call call_id c then calls else calls @ [PDict (new_call call_id event)])
     in if event_type \<noteq> ''tool_call_start'' \<and> event_type \<noteq> ''tool_call_end'' then Inr payload
     else if call_id = [] then Inl (RtPy ValueError)
     else Inr (dict_set ''runtime_tool_calls'' (PList (last_n MAX_RUNTIME_TOOL_CALLS
       (update_first (is_call call_id) (\<lambda>c. PDict (merge_call event_type event (dict_items c))) calls'))) payload))"

section \<open>Requests to the provider\<close>

text \<open>\<open>_non_negative_int(v) or 0\<close>\<close>

definition count_or_zero :: "pyval \<Rightarrow> (rt_error, int) res" where
  "count_or_zero v = rbind (normalize_non_negative_int v) (\<lambda>n. Inr (case n of None \<Rightarrow> 0 | Some n \<Rightarrow> n))"

definition bump_total :: "string \<Rightarrow> int \<Rightarrow> pydict \<Rightarrow> (rt_error, pydict) res" where
  "bump_total k n totals = rbind (count_or_zero (get totals k)) (\<lambda>m. Inr (dict_set k (PInt (m + n)) totals))"

text \<open>\<open>totals[k] += n\<close>, where an integer is\<close>

fun int_value :: "pyval \<Rightarrow> int" where
  "int_value (PInt n) = n" | "int_value _ = 0"

definition add_to :: "string \<Rightarrow> int \<Rightarrow> pydict \<Rightarrow> pydict" where
  "add_to k n totals = dict_set k (PInt (int_value (get totals k) + n)) totals"

definition USAGE_FIELDS :: "string list" where
  "USAGE_FIELDS = [''input_tokens'', ''output_tokens'', ''total_tokens'', ''cached_input_tokens'', ''cache_write_input_tokens'', ''reasoning_output_tokens'']"

definition int_dict :: "int dict \<Rightarrow> pydict" where
  "int_dict u = map (\<lambda>(k, n). (k, PInt n)) u"

text \<open>The numbers that a dictionary has at some keys, in their order.\<close>

fun number_fields :: "string list \<Rightarrow> pydict \<Rightarrow> (rt_error, int dict) res" where
  "number_fields [] d = Inr []"
| "number_fields (k # ks) d = rbind (normalize_non_negative_int (get d k)) (\<lambda>n. rbind (number_fields ks d) (\<lambda>u.
     Inr (case n of None \<Rightarrow> u | Some n \<Rightarrow> (k, n) # u)))"

definition sanitize_provider_usage :: "pyval \<Rightarrow> (rt_error, int dict) res" where
  "sanitize_provider_usage v = (case v of PDict d \<Rightarrow> number_fields USAGE_FIELDS d | _ \<Rightarrow> Inr [])"

fun first_int :: "string list \<Rightarrow> pydict \<Rightarrow> (rt_error, int option) res" where
  "first_int [] d = Inr None"
| "first_int (k # ks) d = rbind (normalize_non_negative_int (get d k)) (\<lambda>n. case n of None \<Rightarrow> first_int ks d | Some n \<Rightarrow> Inr (Some n))"

text \<open>The number in the details of a usage, or else the one found before.\<close>

definition detailed :: "pyval \<Rightarrow> string \<Rightarrow> int option \<Rightarrow> (rt_error, int option) res" where
  "detailed details k found = (case details of
      PDict d \<Rightarrow> rbind (first_int [k] d) (\<lambda>n. Inr (if n = None then found else n)) | _ \<Rightarrow> Inr found)"

definition usage_of :: "pydict \<Rightarrow> (rt_error, int dict) res" where
  "usage_of raw =
     rbind (first_int [''input_tokens'', ''prompt_tokens'', ''promptTokenCount''] raw) (\<lambda>input_tokens.
     rbind (first_int [''output_tokens'', ''completion_tokens'', ''candidatesTokenCount''] raw) (\<lambda>output_tokens.
     rbind (first_int [''total_tokens'', ''totalTokenCount''] raw) (\<lambda>total_tokens.
     rbind (first_int [''cache_read_input_tokens'', ''cached_input_tokens'', ''cachedContentTokenCount''] raw) (\<lambda>cached.
     rbind (first_int [''cache_creation_input_tokens''] raw) (\<lambda>written.
     rbind (first_int [''thoughtsTokenCount''] raw) (\<lambda>reasoning.
     rbind (detailed (py_or (get raw ''input_tokens_details'') (get raw ''prompt_tokens_details'')) ''cached_tokens'' cached) (\<lambda>cached.
     rbind (detailed (py_or (get raw ''output_tokens_details'') (get raw ''completion_tokens_details'')) ''reasoning_tokens'' reasoning) (\<lambda>reasoning.
       let total = (case (total_tokens, input_tokens, output_tokens) of (None, Some i, Some j) \<Rightarrow> Some (i + j) | _ \<Rightarrow> total_tokens)
       in Inr (List.map_filter (\<lambda>(k, n). map_option (Pair k) n) (zip USAGE_FIELDS [input_tokens, output_tokens, total, cached, written, reasoning]))))))))))"

definition extract_provider_usage :: "pyval \<Rightarrow> (rt_error, int dict) res" where
  "extract_provider_usage result = (case result of
      PDict d \<Rightarrow> (case (get d ''usage'', get d ''usageMetadata'') of (PDict raw, _) \<Rightarrow> usage_of raw | (_, PDict raw) \<Rightarrow> usage_of raw | _ \<Rightarrow> Inr [])
    | _ \<Rightarrow> Inr [])"

definition provider_usage_tpm_tokens :: "pyval \<Rightarrow> (rt_error, (int \<times> int) option) res" where
  "provider_usage_tpm_tokens v = rbind (sanitize_provider_usage v) (\<lambda>usage.
     Inr (case (map_of usage ''input_tokens'', map_of usage ''output_tokens'') of (None, None) \<Rightarrow> None
       | (i, j) \<Rightarrow> Some (case i of None \<Rightarrow> 0 | Some i \<Rightarrow> i, case j of None \<Rightarrow> 0 | Some j \<Rightarrow> j)))"

definition add_provider_usage_totals :: "pydict \<Rightarrow> pyval \<Rightarrow> (rt_error, pydict) res" where
  "add_provider_usage_totals totals usage = rbind (sanitize_provider_usage usage) (\<lambda>normalized.
     if normalized = [] then Inr totals else rbind (bump_total ''usage_request_count'' 1 totals) (\<lambda>totals.
       rfold (\<lambda>(k, n). bump_total (''actual_'' @ k) n) normalized totals))"

text \<open>The fields a request counts in, and the totals they go to.\<close>

definition SUMMARY_COUNTS :: "(string \<times> string) list" where
  "SUMMARY_COUNTS = [(''approx_input_chars'', ''approx_input_chars''), (''approx_input_tokens'', ''approx_input_tokens''),
     (''tool_call_chars_total'', ''tool_call_chars''), (''tool_result_chars_total'', ''tool_result_chars'')]"

definition no_totals :: pydict where
  "no_totals = map (\<lambda>k. (k, PInt 0)) [''request_count'', ''approx_input_chars'', ''approx_input_tokens'', ''tool_call_chars'', ''tool_result_chars'']"

text \<open>Additions one after the other: what is reached, and whether one raised.\<close>

fun add_counts :: "(string \<times> string) list \<Rightarrow> pydict \<Rightarrow> pydict \<Rightarrow> pydict \<times> (rt_error, unit) res" where
  "add_counts [] summary totals = (totals, Inr ())"
| "add_counts ((k, t) # ps) summary totals = (case count_or_zero (get summary k) of
      Inl e \<Rightarrow> (totals, Inl e) | Inr n \<Rightarrow> add_counts ps summary (add_to t n totals))"

definition count_request :: "pydict \<Rightarrow> pydict \<Rightarrow> pydict \<times> (rt_error, unit) res" where
  "count_request summary totals = (case add_counts SUMMARY_COUNTS summary (add_to ''request_count'' 1 totals) of
      (totals, Inl e) \<Rightarrow> (totals, Inl e)
    | (totals, Inr u) \<Rightarrow> (case normalize_non_negative_int (get summary ''request_index'') of
        Inl e \<Rightarrow> (totals, Inl e)
      | Inr None \<Rightarrow> (totals, Inr ())
      | Inr (Some i) \<Rightarrow> (dict_set ''last_request_index'' (PInt i) totals, Inr ())))"

text \<open>The latest request of an index, marked as completed; the requests come latest first.\<close>

definition completed_summary :: "int dict \<Rightarrow> pydict \<Rightarrow> pydict" where
  "completed_summary usage d = (let d = dict_set ''completed'' (PBool True) d in
     if usage = [] then d else dict_set ''usage'' (PDict (int_dict usage)) d)"

fun mark_completed :: "int \<Rightarrow> int dict \<Rightarrow> pyval list \<Rightarrow> (rt_error, pyval list \<times> pydict option) res" where
  "mark_completed index usage [] = Inr ([], None)"
| "mark_completed index usage (s # ss) = (case s of
      PDict d \<Rightarrow> rbind (normalize_non_negative_int (get d ''request_index'')) (\<lambda>i.
        if i = Some index then Inr (PDict (completed_summary usage d) # ss, Some d)
        else rbind (mark_completed index usage ss) (\<lambda>(r, m). Inr (s # r, m)))
    | _ \<Rightarrow> rbind (mark_completed index usage ss) (\<lambda>(r, m). Inr (s # r, m)))"

text \<open>One more completion, and what it used.\<close>

definition count_completion :: "int dict \<Rightarrow> pydict \<Rightarrow> (rt_error, pydict) res" where
  "count_completion usage totals = rbind (bump_total ''completed_request_count'' 1 totals) (\<lambda>totals.
     if usage = [] then Inr totals else add_provider_usage_totals totals (PDict (int_dict usage)))"

section \<open>What the agent keeps of its requests\<close>

record tracker =
  tk_summaries :: "pyval list"
  tk_totals :: pydict

definition new_tracker :: tracker where
  "new_tracker = \<lparr>tk_summaries = [], tk_totals = no_totals\<rparr>"

definition record_summary :: "pydict \<Rightarrow> tracker \<Rightarrow> tracker \<times> (rt_error, unit) res" where
  "record_summary summary tk = (let (totals, r) = count_request summary (tk_totals tk) in
     (\<lparr>tk_summaries = tk_summaries tk @ [PDict summary], tk_totals = totals\<rparr>, r))"

text \<open>The totals hold integers only, so that counting in them does not raise.\<close>

definition record_completion :: "pyval \<Rightarrow> pyval \<Rightarrow> tracker \<Rightarrow> tracker \<times> (rt_error, pydict option) res" where
  "record_completion request_index usage tk =
     (case rbind (normalize_non_negative_int request_index) (\<lambda>i. rbind (sanitize_provider_usage usage) (\<lambda>u. Inr (i, u))) of
        Inl e \<Rightarrow> (tk, Inl e)
      | Inr (None, u) \<Rightarrow> (tk, Inr None)
      | Inr (Some i, u) \<Rightarrow> (case rbind (mark_completed i u (rev (tk_summaries tk))) (\<lambda>(ss, matched).
            rbind (count_completion u (tk_totals tk)) (\<lambda>totals. Inr (rev ss, matched, totals))) of
          Inl e \<Rightarrow> (tk, Inl e)
        | Inr (ss, matched, totals) \<Rightarrow> (let totals = dict_pop ''last_actual_input_tokens'' totals in
            (\<lparr>tk_summaries = ss, tk_totals = (case map_of u ''input_tokens'' of None \<Rightarrow> totals
                 | Some n \<Rightarrow> dict_set ''last_actual_input_tokens'' (PInt n) totals)\<rparr>,
             Inr (Some ([(''request_index'', PInt i)] @ (if u = [] then [] else [(''usage'', PDict (int_dict u))])
               @ text_entry ''request_api'' (case matched of None \<Rightarrow> PNone | Some d \<Rightarrow> get d ''request_api'')))))))"

definition tracker_snapshot :: "tracker \<Rightarrow> pydict" where
  "tracker_snapshot tk = (if tk_summaries tk = [] then [] else
     [(''summaries'', PList (tk_summaries tk)), (''totals'', PDict (tk_totals tk))])"

section \<open>Notices of requests\<close>

definition PROVIDER_REQUEST_SUMMARY_STAGE :: string where
  "PROVIDER_REQUEST_SUMMARY_STAGE = ''provider_request_summary''"

definition PROVIDER_REQUEST_COMPLETED_STAGE :: string where
  "PROVIDER_REQUEST_COMPLETED_STAGE = ''provider_request_completed''"

text \<open>The name of the provider, whether someone listens to the events, and the two times put on the next of them.\<close>

record notice_env =
  no_provider :: string
  no_listener :: bool
  no_time :: string
  no_ns :: int

definition runtime_notice_payload :: "notice_env \<Rightarrow> string \<Rightarrow> string \<Rightarrow> string \<Rightarrow> string \<Rightarrow> (rt_error, pydict) res" where
  "runtime_notice_payload E message source stage provider = (let m = py_strip message in
     if m = [] then Inl (RtPy ValueError) else
       Inr ([(''type'', PStr ''runtime_notice''), (''message'', PStr m), (''source'', PStr (text_default (PStr source) ''runtime'')),
         (''event_time'', PStr (no_time E)), (''monotonic_ns'', PInt (no_ns E))]
        @ (if stage = [] then [] else [(''stage'', PStr stage)]) @ (if provider = [] then [] else [(''provider'', PStr provider)])))"

definition emit_provider_runtime_notice :: "notice_env \<Rightarrow> string \<Rightarrow> string \<Rightarrow> (rt_error, pydict list) res" where
  "emit_provider_runtime_notice E message stage = (if no_listener E
     then rbind (runtime_notice_payload E message ''provider_runtime'' stage (py_strip (no_provider E))) (\<lambda>p. Inr [p]) else Inr [])"

text \<open>\<open>json.dumps(v, ensure_ascii=False, sort_keys=True)\<close>\<close>

definition sorted_dumps :: "pydict \<Rightarrow> string" where
  "sorted_dumps d = json_dumps (json_sorted (PDict d))"

definition emit_provider_request_summary :: "notice_env \<Rightarrow> pydict \<Rightarrow> tracker \<Rightarrow> tracker \<times> pydict list \<times> (rt_error, unit) res" where
  "emit_provider_request_summary E payload tk = (case emit_provider_runtime_notice E (sorted_dumps payload) PROVIDER_REQUEST_SUMMARY_STAGE of
      Inl e \<Rightarrow> (tk, [], Inl e)
    | Inr sent \<Rightarrow> (let (tk', r) = record_summary payload tk in (tk', sent, r)))"

text \<open>The tokens are for the provider's window of usage.\<close>

definition emit_provider_request_completed ::
    "notice_env \<Rightarrow> pyval \<Rightarrow> pyval \<Rightarrow> tracker \<Rightarrow> tracker \<times> pydict list \<times> (rt_error, (pydict \<times> (int \<times> int) option) option) res" where
  "emit_provider_request_completed E request_summary result tk = (case request_summary of
      PDict s \<Rightarrow> (case extract_provider_usage result of
          Inl e \<Rightarrow> (tk, [], Inl e)
        | Inr usage \<Rightarrow> (case record_completion (get s ''request_index'') (PDict (int_dict usage)) tk of
            (tk', Inl e) \<Rightarrow> (tk', [], Inl e)
          | (tk', Inr None) \<Rightarrow> (tk', [], Inr None)
          | (tk', Inr (Some completion)) \<Rightarrow> (case provider_usage_tpm_tokens (get completion ''usage'') of
              Inl e \<Rightarrow> (tk', [], Inl e)
            | Inr tokens \<Rightarrow> (let completion = dict_set ''request_api'' (PStr (text_of (get s ''request_api''))) completion in
                (case emit_provider_runtime_notice E (sorted_dumps completion) PROVIDER_REQUEST_COMPLETED_STAGE of
                   Inl e \<Rightarrow> (tk', [], Inl e) | Inr sent \<Rightarrow> (tk', sent, Inr (Some (completion, tokens))))))))
    | _ \<Rightarrow> (tk, [], Inr None))"

section \<open>What the node keeps of the requests\<close>

definition SUMMARY_FIELDS :: "string list" where
  "SUMMARY_FIELDS = [''request_index'', ''request_api'', ''responses_mode'', ''requested_responses_mode'', ''instructions_present'',
     ''instructions_chars'', ''input_item_count'', ''approx_input_chars'', ''approx_input_tokens'', ''environment_context_chars'',
     ''turn_context_chars'', ''permissions_context_chars'', ''collaboration_context_chars'', ''internal_context_chars'',
     ''skills_context_chars'', ''mcp_servers_context_chars'', ''long_term_memory_context_chars'', ''project_instructions_context_chars'',
     ''input_items'', ''largest_input_items'', ''tool_call_chars_by_call'', ''tool_call_chars_total'', ''tool_result_chars_by_call'',
     ''tool_result_chars_total'', ''largest_tool_result'', ''tools_included'', ''tools_included_count'', ''stream'', ''usage'',
     ''context_item_hash'', ''context_update_mode'', ''context_diff_paths'', ''persistent_context_item_hash'',
     ''persistent_context_update_mode'', ''payload_log_path'', ''payload_log_error'']"

text \<open>The code keeps the allowed fields in the order of a set, which is any order; here it is the order of the list.\<close>

definition sanitize_provider_request_summary :: "pydict \<Rightarrow> pydict" where
  "sanitize_provider_request_summary summary = map (\<lambda>(k, v). (k, case v of
       PList xs \<Rightarrow> PList (if k \<in> {''input_items'', ''largest_input_items'', ''tool_call_chars_by_call'', ''tool_result_chars_by_call'', ''tools_included''}
         then take 20 xs else xs)
     | _ \<Rightarrow> v)) (project_fields SUMMARY_FIELDS summary)"

definition TOTAL_COUNTS :: "string list" where
  "TOTAL_COUNTS = [''request_count'', ''approx_input_chars'', ''approx_input_tokens'', ''tool_call_chars'', ''tool_result_chars'']"

definition update_provider_request_totals :: "pydict \<Rightarrow> pydict \<Rightarrow> (rt_error, pydict) res" where
  "update_provider_request_totals payload summary = (let totals = (case get payload ''provider_request_totals'' of PDict d \<Rightarrow> d | _ \<Rightarrow> no_totals) in
     rbind (rfold (\<lambda>k. bump_total k 0) TOTAL_COUNTS totals) (\<lambda>totals.
       let (totals, r) = count_request summary totals in rbind r (\<lambda>_. Inr (dict_set ''provider_request_totals'' (PDict totals) payload))))"

text \<open>The object a text is, if it is one.\<close>

definition loads_object :: "string \<Rightarrow> pydict option" where
  "loads_object t = (case json_loads t of Some (PDict d) \<Rightarrow> Some d | _ \<Rightarrow> None)"

definition parse_provider_request_payload :: "pyval \<Rightarrow> pydict option" where
  "parse_provider_request_payload v = (let message = text_of v in if message = [] then None else loads_object message)"

definition is_notice :: "string \<Rightarrow> pydict \<Rightarrow> bool" where
  "is_notice stage event \<longleftrightarrow> text_of (get event ''type'') = ''runtime_notice'' \<and> text_of (get event ''stage'') = stage"

definition append_provider_request_summary :: "pydict \<Rightarrow> pydict \<Rightarrow> (rt_error, pydict) res" where
  "append_provider_request_summary payload event = (if \<not> is_notice PROVIDER_REQUEST_SUMMARY_STAGE event then Inr payload else
     (case parse_provider_request_payload (get event ''message'') of None \<Rightarrow> Inr payload
      | Some summary \<Rightarrow> (let sanitized = sanitize_provider_request_summary summary in
          rbind (update_provider_request_totals payload sanitized) (\<lambda>payload.
            Inr (dict_set ''provider_request_summaries'' (PList (last_n MAX_PROVIDER_REQUEST_SUMMARIES
              (list_items (get payload ''provider_request_summaries'') @ [PDict sanitized]))) payload)))))"

definition mark_request :: "int \<Rightarrow> int dict \<Rightarrow> pydict \<Rightarrow> (rt_error, pydict) res" where
  "mark_request index usage payload = (case get payload ''provider_request_summaries'' of
      PList ss \<Rightarrow> rbind (mark_completed index usage (rev ss)) (\<lambda>r. Inr (dict_set ''provider_request_summaries'' (PList (rev (fst r))) payload))
    | _ \<Rightarrow> Inr payload)"

definition append_provider_request_completion :: "pydict \<Rightarrow> pydict \<Rightarrow> (rt_error, pydict) res" where
  "append_provider_request_completion payload event = (if \<not> is_notice PROVIDER_REQUEST_COMPLETED_STAGE event then Inr payload else
     (case parse_provider_request_payload (get event ''message'') of None \<Rightarrow> Inr payload
      | Some completion \<Rightarrow> rbind (normalize_non_negative_int (get completion ''request_index'')) (\<lambda>i.
          rbind (sanitize_provider_usage (get completion ''usage'')) (\<lambda>usage. (case i of None \<Rightarrow> Inr payload
          | Some index \<Rightarrow> rbind (mark_request index usage payload) (\<lambda>payload.
              rbind (count_completion usage (dict_items (get payload ''provider_request_totals''))) (\<lambda>totals.
                Inr (dict_set ''provider_request_totals'' (PDict (dict_set ''last_completed_request_index'' (PInt index) totals)) payload))))))))"

definition append_runtime_event :: "pydict \<Rightarrow> pyval \<Rightarrow> (rt_error, pydict) res" where
  "append_runtime_event payload event = rbind (normalize_runtime_event event) (\<lambda>normalized.
     let payload = dict_set ''last_runtime_event'' (PDict normalized) payload;
         payload = dict_set ''runtime_events'' (PList (last_n MAX_RUNTIME_EVENTS (list_items (get payload ''runtime_events'') @ [PDict normalized]))) payload
     in rbind (upsert_runtime_tool_call payload normalized) (\<lambda>payload.
        rbind (append_provider_request_summary payload normalized) (\<lambda>payload.
          append_provider_request_completion payload normalized)))"

definition clear_runtime_event :: "bool \<Rightarrow> pydict \<Rightarrow> pydict" where
  "clear_runtime_event reset_history payload = (let payload = dict_pop ''last_runtime_event'' payload in
     if reset_history then fold dict_pop [''runtime_events'', ''runtime_tool_calls'', ''provider_request_summaries'', ''provider_request_totals''] payload
     else payload)"

section \<open>The file that lasts, and the store\<close>

definition DIAGNOSTICS_PROJECTION_FIELDS :: "string list" where
  "DIAGNOSTICS_PROJECTION_FIELDS = [''last_runtime_event'', ''runtime_events'', ''runtime_tool_calls'', ''provider_request_summaries'',
     ''provider_request_totals'', ''completed_requests'', ''last_completed_request'']"

definition RUNTIME_EVENT_STATE_FIELDS :: "string list" where
  "RUNTIME_EVENT_STATE_FIELDS = [''last_runtime_event'', ''runtime_events'', ''runtime_tool_calls'', ''provider_request_summaries'',
     ''provider_request_totals'', ''node_event_seq'']"

text \<open>The texts of the projection files, by their path. The store's copy in memory of what it last read or wrote is left out: it is
  asked only when the file is the same.\<close>

record diag_state =
  ds_store :: runtime_store
  ds_files :: "string dict"

record diag_env =
  de_rt :: rt_env
  de_file :: "string \<Rightarrow> string"

definition projection_path :: "diag_env \<Rightarrow> string \<Rightarrow> (rt_error, string) res" where
  "projection_path E config_path = (if py_strip config_path = [] then Inl DiagnosticsProjectionError else Inr (de_file E config_path))"

definition select_fields :: "string list \<Rightarrow> pydict \<Rightarrow> pydict" where
  "select_fields ks payload = filter (\<lambda>(k, v). k \<in> set ks \<and> k \<in> set DIAGNOSTICS_PROJECTION_FIELDS) payload"

definition projection_read :: "diag_env \<Rightarrow> string \<Rightarrow> string list \<Rightarrow> diag_state \<Rightarrow> (rt_error, pydict) res" where
  "projection_read E config_path ks st = rbind (projection_path E config_path) (\<lambda>path.
     case map_of (ds_files st) path of None \<Rightarrow> Inr []
     | Some text \<Rightarrow> (case loads_object text of Some d \<Rightarrow> Inr (select_fields ks d) | None \<Rightarrow> Inl DiagnosticsProjectionError))"

definition projection_write :: "diag_env \<Rightarrow> string \<Rightarrow> pydict \<Rightarrow> diag_state \<Rightarrow> (rt_error, diag_state) res" where
  "projection_write E config_path runtime_state st = rbind (projection_path E config_path) (\<lambda>path.
     Inr (st\<lparr>ds_files := dict_set path (json_write '','' '':'' (PDict (select_fields DIAGNOSTICS_PROJECTION_FIELDS runtime_state))) (ds_files st)\<rparr>))"

definition is_terminal_runtime_event :: "pyval \<Rightarrow> bool" where
  "is_terminal_runtime_event event \<longleftrightarrow> (case event of PDict d \<Rightarrow> py_lower (text_of (get d ''type'')) = ''runtime_notice'' \<and> text_of (get d ''stage'') = ''node_run_summary'' | _ \<Rightarrow> False)"

text \<open>What an event, a reset, or both do to the diagnostics of a payload.\<close>

definition change_diagnostics :: "pyval \<Rightarrow> bool \<Rightarrow> pydict \<Rightarrow> (rt_error, pydict) res" where
  "change_diagnostics event reset_history payload = (if is_dict event \<and> event \<noteq> PDict []
     then append_runtime_event (if reset_history then clear_runtime_event True payload else payload) event
     else Inr (clear_runtime_event reset_history payload))"

definition event_mutation :: "diag_env \<Rightarrow> string \<Rightarrow> pyval \<Rightarrow> bool \<Rightarrow> diag_state \<Rightarrow> unit mutation" where
  "event_mutation E config_path event reset_history st payload =
     (let missing = filter (\<lambda>f. \<not> dict_has payload f) RUNTIME_EVENT_STATE_FIELDS in
      rbind (if reset_history \<or> missing = [] then Inr payload
             else rbind (projection_read E config_path missing st) (\<lambda>durable. Inr (dict_update durable payload))) (\<lambda>payload.
      rbind (change_diagnostics event reset_history payload) (\<lambda>payload.
      rbind (bump_node_event_seq payload) (\<lambda>payload. Inr (payload, ())))))"

definition set_runtime_event :: "diag_env \<Rightarrow> string \<Rightarrow> pyval \<Rightarrow> bool \<Rightarrow> diag_state \<Rightarrow> diag_state \<times> (rt_error, unit) res" where
  "set_runtime_event E config_path event reset_history st = (if config_path = [] then (st, Inr ()) else
     (case update_fields (de_rt E) config_path (map PStr RUNTIME_EVENT_STATE_FIELDS) (event_mutation E config_path event reset_history st) (ds_store st) of
        Inl e \<Rightarrow> (st, Inl e)
      | Inr (store, _) \<Rightarrow> (let st = st\<lparr>ds_store := store\<rparr> in
          if reset_history \<or> is_terminal_runtime_event event
          then (case projection_write E config_path (item_of store (env_key (de_rt E) config_path)) st of Inl e \<Rightarrow> (st, Inl e) | Inr st' \<Rightarrow> (st', Inr ()))
          else (st, Inr ()))))"

lemma map_of_project: "map_of (project_fields ks d) k = (if k \<in> set ks then map_of d k else None)"
  by (induction ks) (auto simp: project_fields_def List.map_filter_def split: option.splits)

end
