(* ===== verification/EventLaws.thy ===== *)
theory EventLaws
  imports RuntimeEvents
begin

text \<open>
  What a node shows of its run: the history, the tool calls and the requests are bounded whatever arrives; the end of a tool call is
  shown as its event tells it; and a restart of the server loses nothing of it.
\<close>

section \<open>Bounds\<close>

text \<open>What holds of a node's diagnostics: an event is shown only as the last of its history; the history, the tool calls and the
  requests are bounded; tool calls have different identifiers.\<close>

definition recorded_event :: "pyval \<Rightarrow> bool" where
  "recorded_event e \<longleftrightarrow> (\<exists>x d. e = PDict d \<and> normalize_runtime_event x = Inr d)"

definition call_ids :: "pyval list \<Rightarrow> string list" where
  "call_ids cs = map (\<lambda>c. text_of (get (dict_items c) ''call_id'')) cs"

definition events_ok :: "pydict \<Rightarrow> bool" where
  "events_ok p \<longleftrightarrow> (\<forall>v. map_of p ''runtime_events'' = Some v \<longrightarrow> is_list v \<and> length (list_items v) \<le> 20 \<and> (\<forall>e \<in> set (list_items v). recorded_event e))
     \<and> (\<forall>v. map_of p ''last_runtime_event'' = Some v \<longrightarrow> list_items (get p ''runtime_events'') \<noteq> [] \<and> v = last (list_items (get p ''runtime_events'')))"

definition calls_ok :: "pydict \<Rightarrow> bool" where
  "calls_ok p \<longleftrightarrow> (\<forall>v. map_of p ''runtime_tool_calls'' = Some v \<longrightarrow> is_list v \<and> length (list_items v) \<le> 20
     \<and> (\<forall>c \<in> set (list_items v). is_dict c) \<and> distinct (call_ids (list_items v)) \<and> [] \<notin> set (call_ids (list_items v)))"

definition requests_ok :: "pydict \<Rightarrow> bool" where
  "requests_ok p \<longleftrightarrow> (\<forall>v. map_of p ''provider_request_summaries'' = Some v \<longrightarrow> is_list v \<and> length (list_items v) \<le> 8)"

definition diagnostics_ok :: "pydict \<Rightarrow> bool" where
  "diagnostics_ok p \<longleftrightarrow> events_ok p \<and> calls_ok p \<and> requests_ok p"

definition diagnostics_step :: "pyval \<times> bool \<Rightarrow> pydict \<Rightarrow> pydict" where
  "diagnostics_step c p = (case change_diagnostics (fst c) (snd c) p of Inl e \<Rightarrow> p | Inr q \<Rightarrow> q)"

lemma last_n_last: "0 < n \<Longrightarrow> last_n n (xs @ [x]) \<noteq> [] \<and> last (last_n n (xs @ [x])) = x"
  by (simp add: last_n_def)

lemma set_last_n_subset: "\<forall>x \<in> set xs. P x \<Longrightarrow> \<forall>x \<in> set (last_n n xs). P x"
  using set_last_n by fast

lemma last_n_distinct: "distinct xs \<Longrightarrow> a \<notin> set xs \<Longrightarrow> distinct (last_n n xs) \<and> a \<notin> set (last_n n xs)"
  using set_last_n [of n xs] by (auto simp: last_n_def)

lemma length_update_first [simp]: "length (update_first P f xs) = length xs"
  by (induction xs) auto

lemma call_ids_update: "(\<And>c. P c \<Longrightarrow> text_of (get (dict_items (f c)) ''call_id'') = text_of (get (dict_items c) ''call_id'')) \<Longrightarrow>
    call_ids (update_first P f cs) = call_ids cs"
  by (induction cs) (auto simp: call_ids_def)

lemma merge_call_id [simp]: "get (merge_call t event d) ''call_id'' = get d ''call_id''"
  by (simp add: merge_call_def Let_def)

lemma new_call_id: "text_of (get (new_call call_id event) ''call_id'') = py_strip call_id"
  by (simp add: new_call_def)

lemma call_ids_member: "\<forall>c \<in> set cs. is_dict c \<Longrightarrow> (\<exists>c \<in> set cs. is_call i c) \<longleftrightarrow> i \<in> set (call_ids cs)"
  by (auto simp: call_ids_def is_call_def)

lemma call_ids_last_n: "call_ids (last_n n cs) = last_n n (call_ids cs)"
  by (simp add: call_ids_def last_n_def drop_map)

lemma update_first_dicts: "\<forall>c \<in> set cs. is_dict c \<Longrightarrow> (\<And>c. is_dict (f c)) \<Longrightarrow> \<forall>c \<in> set (update_first P f cs). is_dict c"
  by (induction cs) auto

lemma upsert_calls_ok:
  assumes "calls_ok p" and "upsert_runtime_tool_call p event = Inr q"
  shows "calls_ok q"
proof -
  let ?t = "text_of (get event ''type'')" and ?i = "text_of (get event ''call_id'')" and ?cs = "list_items (get p ''runtime_tool_calls'')"
  let ?cs' = "if \<exists>c \<in> set ?cs. is_call ?i c then ?cs else ?cs @ [PDict (new_call ?i event)]"
  let ?new = "update_first (is_call ?i) (\<lambda>c. PDict (merge_call ?t event (dict_items c))) ?cs'"
  have old: "(\<forall>c \<in> set ?cs. is_dict c) \<and> distinct (call_ids ?cs) \<and> [] \<notin> set (call_ids ?cs)"
    using assms(1) by (auto simp: calls_ok_def getd_def call_ids_def split: option.split)
  have strip: "py_strip ?i = ?i" by (simp add: text_of_def)
  show ?thesis
  proof (cases "?t \<noteq> ''tool_call_start'' \<and> ?t \<noteq> ''tool_call_end''")
    case True
    then show ?thesis using assms by (simp add: upsert_runtime_tool_call_def)
  next
    case False
    then have i: "?i \<noteq> []" using assms(2) by (auto simp: upsert_runtime_tool_call_def simp del: not_Cons_self)
    then have q: "q = dict_set ''runtime_tool_calls'' (PList (last_n 20 ?new)) p"
      using assms(2) False by (simp only: upsert_runtime_tool_call_def Let_def MAX_RUNTIME_TOOL_CALLS_def if_False sum.inject)
    have ids: "call_ids ?new = call_ids ?cs'" by (rule call_ids_update) simp
    have cs': "(\<forall>c \<in> set ?cs'. is_dict c) \<and> distinct (call_ids ?cs') \<and> [] \<notin> set (call_ids ?cs')"
      using old call_ids_member [of ?cs ?i] strip i by (auto simp: call_ids_def new_call_id)
    then have "\<forall>c \<in> set ?new. is_dict c" by (intro update_first_dicts) simp_all
    then have "\<forall>c \<in> set (last_n 20 ?new). is_dict c" by (rule set_last_n_subset)
    moreover have "distinct (call_ids (last_n 20 ?new)) \<and> [] \<notin> set (call_ids (last_n 20 ?new))"
      unfolding call_ids_last_n ids by (rule last_n_distinct) (use cs' in simp_all)
    ultimately show ?thesis unfolding q by (simp add: calls_ok_def)
  qed
qed

lemma upsert_other: "upsert_runtime_tool_call p event = Inr q \<Longrightarrow> k \<noteq> ''runtime_tool_calls'' \<Longrightarrow> map_of q k = map_of p k"
  by (auto simp: upsert_runtime_tool_call_def Let_def split: if_splits)

lemma totals_other: "update_provider_request_totals p s = Inr q \<Longrightarrow> k \<noteq> ''provider_request_totals'' \<Longrightarrow> map_of q k = map_of p k"
  by (auto simp: update_provider_request_totals_def Let_def rbind_eq_Inr split_beta)

lemma summary_other:
  "append_provider_request_summary p event = Inr q \<Longrightarrow> k \<notin> {''provider_request_totals'', ''provider_request_summaries''} \<Longrightarrow> map_of q k = map_of p k"
  by (auto simp: append_provider_request_summary_def Let_def rbind_eq_Inr totals_other split: if_splits option.splits)

lemma mark_request_other: "mark_request i u p = Inr q \<Longrightarrow> k \<noteq> ''provider_request_summaries'' \<Longrightarrow> map_of q k = map_of p k"
  by (cases "get p ''provider_request_summaries''") (auto simp: mark_request_def rbind_eq_Inr)

lemma completion_cases:
  assumes "append_provider_request_completion p event = Inr q"
  obtains "q = p" | i u p' t where "mark_request i u p = Inr p'" and "q = dict_set ''provider_request_totals'' (PDict t) p'"
  using assms by (auto simp: append_provider_request_completion_def rbind_eq_Inr split: if_splits option.splits)

lemma completion_other:
  "append_provider_request_completion p event = Inr q \<Longrightarrow> k \<notin> {''provider_request_totals'', ''provider_request_summaries''} \<Longrightarrow> map_of q k = map_of p k"
  by (auto elim!: completion_cases simp: mark_request_other)

lemma summary_requests_ok: "requests_ok p \<Longrightarrow> append_provider_request_summary p event = Inr q \<Longrightarrow> requests_ok q"
  by (auto simp: append_provider_request_summary_def requests_ok_def Let_def rbind_eq_Inr MAX_PROVIDER_REQUEST_SUMMARIES_def
      split: if_splits option.splits)

lemma mark_completed_length: "mark_completed i u ss = Inr r \<Longrightarrow> length (fst r) = length ss"
proof (induction ss arbitrary: r)
  case (Cons s ss)
  then show ?case by (cases s) (auto simp: rbind_eq_Inr split: if_splits prod.splits)
qed simp

lemma completion_requests_ok:
  assumes "requests_ok p" and "append_provider_request_completion p event = Inr q"
  shows "requests_ok q"
  using assms(2)
proof (rule completion_cases)
  fix i u p' t
  assume m: "mark_request i u p = Inr p'" and q: "q = dict_set ''provider_request_totals'' (PDict t) p'"
  then show ?thesis using assms(1) mark_completed_length [of i u]
    by (cases "get p ''provider_request_summaries''")
      (fastforce simp: mark_request_def requests_ok_def rbind_eq_Inr getd_def split: option.splits)+
qed (use assms(1) in simp)

lemma append_event_ok:
  assumes ok: "diagnostics_ok p" and app: "append_runtime_event p event = Inr q"
  shows "diagnostics_ok q"
proof -
  obtain n where n: "normalize_runtime_event event = Inr n" using app by (auto simp: append_runtime_event_def rbind_eq_Inr)
  let ?es = "last_n 20 (list_items (get p ''runtime_events'') @ [PDict n])"
  let ?p = "dict_set ''runtime_events'' (PList ?es) (dict_set ''last_runtime_event'' (PDict n) p)"
  obtain p1 p2 where steps: "upsert_runtime_tool_call ?p n = Inr p1" "append_provider_request_summary p1 n = Inr p2"
      "append_provider_request_completion p2 n = Inr q"
    using app n by (auto simp: append_runtime_event_def Let_def rbind_eq_Inr MAX_RUNTIME_EVENTS_def)
  have "calls_ok ?p" "requests_ok ?p" using ok by (auto simp: diagnostics_ok_def calls_ok_def requests_ok_def)
  then have c1: "calls_ok p1" and r1: "requests_ok p1" using steps(1) upsert_calls_ok upsert_other
    by (auto simp: requests_ok_def)
  have "calls_ok q" using c1 summary_other [OF steps(2)] completion_other [OF steps(3)] by (simp add: calls_ok_def)
  moreover have "requests_ok q" using r1 steps(2,3) summary_requests_ok completion_requests_ok by blast
  moreover have "events_ok q"
  proof -
    have old: "\<forall>e \<in> set (list_items (get p ''runtime_events'')). recorded_event e"
      using ok by (auto simp: diagnostics_ok_def events_ok_def getd_def split: option.split)
    have es: "map_of q ''runtime_events'' = Some (PList ?es)" "map_of q ''last_runtime_event'' = Some (PDict n)"
      using upsert_other [OF steps(1)] summary_other [OF steps(2)] completion_other [OF steps(3)] by simp_all
    have "recorded_event (PDict n)" using n by (auto simp: recorded_event_def)
    then have "\<forall>e \<in> set ?es. recorded_event e" using old by (intro set_last_n_subset) auto
    then show ?thesis using es last_n_last [of 20 "list_items (get p ''runtime_events'')" "PDict n"] by (simp add: events_ok_def getd_Some)
  qed
  ultimately show ?thesis by (simp add: diagnostics_ok_def)
qed

lemma clear_event_ok: "diagnostics_ok p \<Longrightarrow> diagnostics_ok (clear_runtime_event r p)"
  by (auto simp: diagnostics_ok_def events_ok_def calls_ok_def requests_ok_def clear_runtime_event_def Let_def)

text \<open>C8. Whatever events a node is sent, in whatever order and with whatever resets between them, and whichever of them are refused:
  its history holds at most 20 events, each in normal form, and shows the last of them; it has at most 20 tool calls, of different
  identifiers, and at most 8 requests to the provider.\<close>

theorem diagnostics_bounded: "diagnostics_ok (fold diagnostics_step calls [])"
proof -
  have step: "diagnostics_ok (diagnostics_step c p)" if "diagnostics_ok p" for c p
  proof (cases "change_diagnostics (fst c) (snd c) p")
    case (Inr q)
    have ok: "diagnostics_ok (if snd c then clear_runtime_event True p else p)" using that clear_event_ok by simp
    have "q = clear_runtime_event (snd c) p \<or> append_runtime_event (if snd c then clear_runtime_event True p else p) (fst c) = Inr q"
      using Inr unfolding change_diagnostics_def by (cases "is_dict (fst c) \<and> fst c \<noteq> PDict []") (simp_all only: if_True if_False sum.inject simp_thms)
    then have "diagnostics_ok q" using append_event_ok [OF ok] clear_event_ok [OF that] by blast
    then show ?thesis using Inr by (simp add: diagnostics_step_def)
  qed (use that in \<open>simp add: diagnostics_step_def\<close>)
  have "diagnostics_ok p \<Longrightarrow> diagnostics_ok (fold diagnostics_step calls p)" for p
    by (induction calls arbitrary: p) (simp_all add: step)
  moreover have "diagnostics_ok []" by (simp add: diagnostics_ok_def events_ok_def calls_ok_def requests_ok_def)
  ultimately show ?thesis by blast
qed

section \<open>The end of a tool call\<close>

definition node_calls :: "pydict \<Rightarrow> pyval list" where
  "node_calls p = list_items (get p ''runtime_tool_calls'')"

definition END_FIELDS :: "string list" where
  "END_FIELDS = [''status'', ''duration_ms'', ''error'', ''result_preview'', ''result_chars'', ''result_preview_truncated'',
     ''result_tail_preview'', ''result_tail_preview_truncated'', ''diagnostics'', ''memory_persistence_warning'']"

lemma map_of_entries:
  "map_of (text_entry a v) k = (if k = a \<and> text_of v \<noteq> [] then Some (PStr (text_of v)) else None)"
  "map_of (int_entry a n) k = (if k = a then map_option PInt n else None)"
  "map_of (bool_entry a d) k = (if k = a \<and> dict_has d a then Some (PBool (truthy (get d a))) else None)"
  "map_of (diagnostics_entry v) k = (if k = ''diagnostics'' \<and> diagnostic_texts (list_items v) \<noteq> []
     then Some (PList (map PStr (diagnostic_texts (list_items v)))) else None)"
  "map_of (arguments_entry v) k = (if k = ''arguments'' \<and> is_dict v then Some v else None)"
  by (auto simp: text_entry_def int_entry_def bool_entry_def diagnostics_entry_def arguments_entry_def Let_def split: option.split pyval.split)

lemma map_of_parts: "map_of a k = None \<Longrightarrow> map_of (a @ b) k = map_of b k" "map_of b k = None \<Longrightarrow> map_of (a @ b) k = map_of a k"
  by (simp_all add: map_add_def split: option.split)

lemma strip_text_of [simp]: "py_strip (text_of v) = text_of v"
  by (simp add: text_of_def)

lemma text_of_text [simp]: "text_of (PStr (text_of v)) = text_of v"
  by (simp add: text_of_def)

lemma text_default_text: "py_strip d = d \<Longrightarrow> d \<noteq> [] \<Longrightarrow> text_default (PStr (text_default v d)) d' = text_default v d"
  by (auto simp: text_default_def Let_def)

lemma stamps_other: "event_timestamps event = Inr ts \<Longrightarrow> k \<notin> {''event_time'', ''monotonic_ns''} \<Longrightarrow> map_of ts k = None"
  by (auto simp: event_timestamps_def rbind_eq_Inr map_of_entries)

lemma merged_fields:
  "get (merge_call ''tool_call_end'' n c) ''status'' = PStr (text_default (get n ''status'') ''completed'')"
  "get (merge_call ''tool_call_end'' n c) ''duration_ms'' = int_or_none (get n ''duration_ms'')"
  "get (merge_call ''tool_call_end'' n c) ''result_chars'' = int_or_none (get n ''result_chars'')"
  "get (merge_call ''tool_call_end'' n c) ''error'' = opt_text (get n ''error'')"
  "get (merge_call ''tool_call_end'' n c) ''result_preview'' = opt_text (get n ''result_preview'')"
  "get (merge_call ''tool_call_end'' n c) ''result_tail_preview'' = opt_text (get n ''result_tail_preview'')"
  "get (merge_call ''tool_call_end'' n c) ''memory_persistence_warning'' = opt_text (get n ''memory_persistence_warning'')"
  "get (merge_call ''tool_call_end'' n c) ''result_preview_truncated'' = opt_bool n ''result_preview_truncated''"
  "get (merge_call ''tool_call_end'' n c) ''result_tail_preview_truncated'' = opt_bool n ''result_tail_preview_truncated''"
  "get (merge_call ''tool_call_end'' n c) ''diagnostics'' = (case get n ''diagnostics'' of PList ds \<Rightarrow> PList (map (\<lambda>v. PStr (py_str v)) ds) | _ \<Rightarrow> PNone)"
  "get (merge_call ''tool_call_end'' n c) ''started_event_time'' = get c ''started_event_time''"
  "get (merge_call ''tool_call_end'' n c) ''started_monotonic_ns'' = get c ''started_monotonic_ns''"
  "get (merge_call ''tool_call_end'' n c) ''completed_event_time'' = py_or (get n ''event_time'') (get c ''completed_event_time'')"
  "get (merge_call ''tool_call_end'' n c) ''completed_monotonic_ns'' = py_or (get n ''monotonic_ns'') (get c ''completed_monotonic_ns'')"
  "get (merge_call ''tool_call_end'' n c) ''name'' = (if text_of (get n ''name'') = [] then get c ''name'' else PStr (text_of (get n ''name'')))"
  "get (merge_call ''tool_call_end'' n c) ''provider'' = (if is_none (get n ''provider'') then get c ''provider'' else opt_text (get n ''provider''))"
  "get (merge_call ''tool_call_end'' n c) ''arguments'' = (if is_dict (get n ''arguments'') then get n ''arguments'' else get c ''arguments'')"
  by (simp_all add: merge_call_def Let_def)

text \<open>The fields of an ended call are those of the normalized event.\<close>

lemma end_fields_merged:
  assumes n: "normalize_tool_call ''tool_call_end'' event = Inr n" and k: "k \<in> set END_FIELDS"
  shows "get (merge_call ''tool_call_end'' n c) k = get n k"
proof -
  obtain ts ending where ts: "event_timestamps event = Inr ts" and ending: "tool_end_fields event = Inr ending"
    and n': "n = [(''type'', PStr ''tool_call_end''), (''name'', PStr (text_default (get event ''name'') ''tool'')), (''call_id'', PStr (text_of (get event ''call_id'')))]
           @ text_entry ''provider'' (get event ''provider'') @ ts @ arguments_entry (get event ''arguments'') @ ending"
    using n by (auto simp: normalize_tool_call_def Let_def rbind_eq_Inr split: if_splits)
  obtain duration chars where e: "ending = [(''status'', PStr (text_default (get event ''status'') ''completed''))] @ int_entry ''duration_ms'' duration
         @ text_entry ''error'' (get event ''error'') @ text_entry ''result_preview'' (get event ''result_preview'')
         @ int_entry ''result_chars'' chars @ bool_entry ''result_preview_truncated'' event
         @ text_entry ''result_tail_preview'' (get event ''result_tail_preview'') @ bool_entry ''result_tail_preview_truncated'' event
         @ diagnostics_entry (get event ''diagnostics'')
         @ text_entry ''memory_persistence_warning'' (get event ''memory_persistence_warning'')"
    using ending by (auto simp: tool_end_fields_def rbind_eq_Inr)
  have g: "map_of n k = map_of ending k" if "k \<in> set END_FIELDS" for k
  proof -
    have "k \<notin> {''type'', ''name'', ''call_id'', ''provider'', ''event_time'', ''monotonic_ns'', ''arguments''}"
      using that unfolding END_FIELDS_def by fastforce
    then show ?thesis using stamps_other [OF ts, of k] by (simp add: n' map_of_entries map_add_def)
  qed
  have m: "map_of n ''status'' = Some (PStr (text_default (get event ''status'') ''completed''))"
      "map_of n ''duration_ms'' = map_option PInt duration" "map_of n ''result_chars'' = map_option PInt chars"
      "map_of n ''error'' = (if text_of (get event ''error'') \<noteq> [] then Some (PStr (text_of (get event ''error''))) else None)"
      "map_of n ''result_preview'' = (if text_of (get event ''result_preview'') \<noteq> [] then Some (PStr (text_of (get event ''result_preview''))) else None)"
      "map_of n ''result_tail_preview'' = (if text_of (get event ''result_tail_preview'') \<noteq> [] then Some (PStr (text_of (get event ''result_tail_preview''))) else None)"
      "map_of n ''memory_persistence_warning'' = (if text_of (get event ''memory_persistence_warning'') \<noteq> []
         then Some (PStr (text_of (get event ''memory_persistence_warning''))) else None)"
      "map_of n ''result_preview_truncated'' = (if dict_has event ''result_preview_truncated'' then Some (PBool (truthy (get event ''result_preview_truncated''))) else None)"
      "map_of n ''result_tail_preview_truncated'' = (if dict_has event ''result_tail_preview_truncated'' then Some (PBool (truthy (get event ''result_tail_preview_truncated''))) else None)"
      "map_of n ''diagnostics'' = (if diagnostic_texts (list_items (get event ''diagnostics'')) \<noteq> []
         then Some (PList (map PStr (diagnostic_texts (list_items (get event ''diagnostics''))))) else None)"
    by (simp_all add: g END_FIELDS_def e map_of_parts map_of_entries del: map_of_append)
  have c: "py_strip ''completed'' = ''completed''" by (simp add: strip_eval)
  from k consider "k = ''status''" | "k \<in> {''duration_ms'', ''result_chars''}"
    | "k \<in> {''error'', ''result_preview'', ''result_tail_preview'', ''memory_persistence_warning''}"
    | "k \<in> {''result_preview_truncated'', ''result_tail_preview_truncated''}" | "k = ''diagnostics''"
    unfolding END_FIELDS_def list.set insert_iff empty_iff by argo
  then show ?thesis
  proof cases
    case 1
    have "get n ''status'' = PStr (text_default (get event ''status'') ''completed'')" by (simp only: getd_def m option.case)
    then show ?thesis by (simp only: 1 merged_fields text_default_text [OF c] list.distinct not_False_eq_True)
  next
    case 2
    then show ?thesis by (elim insertE emptyE; simp only: merged_fields; cases duration; cases chars; simp add: getd_def m int_or_none_def)
  next
    case 3
    then show ?thesis by (elim insertE emptyE; simp only: merged_fields; simp add: getd_def m opt_text_def)
  next
    case 4
    then show ?thesis by (elim insertE emptyE; simp only: merged_fields; simp add: getd_def m opt_bool_def dict_has_iff)
  next
    case 5
    show ?thesis unfolding 5 merged_fields by (simp add: getd_def m)
  qed
qed


text \<open>What the event tells of the call itself replaces what was known of it.\<close>

lemma head_fields_normalized:
  assumes n: "normalize_tool_call ''tool_call_end'' event = Inr n"
  shows "\<exists>t. t \<noteq> [] \<and> py_strip t = t \<and> get n ''name'' = PStr t"
    and "is_none (get n ''provider'') \<or> opt_text (get n ''provider'') = get n ''provider''"
    and "is_none (get n ''arguments'') \<or> is_dict (get n ''arguments'')"
proof -
  obtain ts ending where ts: "event_timestamps event = Inr ts" and ending: "tool_end_fields event = Inr ending"
    and n': "n = [(''type'', PStr ''tool_call_end''), (''name'', PStr (text_default (get event ''name'') ''tool'')), (''call_id'', PStr (text_of (get event ''call_id'')))]
           @ text_entry ''provider'' (get event ''provider'') @ ts @ arguments_entry (get event ''arguments'') @ ending"
    using n by (auto simp: normalize_tool_call_def Let_def rbind_eq_Inr split: if_splits)
  have e: "map_of ending ''provider'' = None" "map_of ending ''arguments'' = None"
    using ending by (auto simp: tool_end_fields_def rbind_eq_Inr map_of_entries)
  have t: "map_of ts ''provider'' = None" "map_of ts ''arguments'' = None" using stamps_other [OF ts] by simp_all
  have "py_strip ''tool'' = ''tool''" by (simp add: strip_eval)
  then have "text_default (get event ''name'') ''tool'' \<noteq> [] \<and> py_strip (text_default (get event ''name'') ''tool'') = text_default (get event ''name'') ''tool''"
    by (simp add: text_default_def Let_def)
  then show "\<exists>t. t \<noteq> [] \<and> py_strip t = t \<and> get n ''name'' = PStr t" by (simp add: n' getd_def)
  show "is_none (get n ''provider'') \<or> opt_text (get n ''provider'') = get n ''provider''"
    using e t by (simp add: n' getd_def map_of_entries map_add_def opt_text_def)
  show "is_none (get n ''arguments'') \<or> is_dict (get n ''arguments'')"
    using e t by (auto simp: n' getd_def map_of_entries map_add_def)
qed

lemma find_update_first: "(\<And>x. P x \<Longrightarrow> P (f x)) \<Longrightarrow> List.find P (update_first P f xs) = map_option f (List.find P xs)"
  by (induction xs) auto

lemma find_update_other: "(\<And>x. P x \<Longrightarrow> \<not> Q x \<and> \<not> Q (f x)) \<Longrightarrow> List.find Q (update_first P f xs) = List.find Q xs"
  by (induction xs) auto

lemma update_first_snoc: "\<forall>x \<in> set xs. \<not> P x \<Longrightarrow> update_first P f (xs @ [y]) = xs @ [if P y then f y else y]"
  by (induction xs) auto

lemma find_in_append: "List.find P (xs @ ys) = (case List.find P xs of None \<Rightarrow> List.find P ys | Some x \<Rightarrow> Some x)"
  by (induction xs) auto

lemma find_None_drop: "List.find P xs = None \<Longrightarrow> List.find P (drop k xs) = None"
  by (auto simp: find_None_iff dest: in_set_dropD)

lemma is_call_merged: "is_call i (PDict (merge_call t n (dict_items c))) \<longleftrightarrow> text_of (get (dict_items c) ''call_id'') = i"
  by (simp add: is_call_def)

lemma normalized_id:
  assumes "normalize_runtime_event e = Inr n" and "get n ''type'' = PStr ''tool_call_end''"
  obtains event where "normalize_tool_call ''tool_call_end'' event = Inr n" and "text_of (get n ''call_id'') \<noteq> []"
proof -
  obtain d where e: "e = PDict d" using assms(1) by (cases e) (simp_all add: normalize_runtime_event_def)
  let ?t = "py_lower (text_of (get d ''type''))"
  have r: "normalize_tool_call ?t d = Inr n" and t: "?t = ''tool_call_end''"
    using assms by (auto simp: e normalize_runtime_event_def normalize_notice_def normalize_server_tool_def normalize_tool_call_def Let_def rbind_eq_Inr split: if_splits)
  have "text_of (get n ''call_id'') \<noteq> []" using r by (auto simp: normalize_tool_call_def Let_def rbind_eq_Inr split: if_splits)
  then show thesis using that r t by simp
qed

text \<open>The entry of a call after its end, from the normalized event and what was known of the call, where what was not known is empty.\<close>

definition ended_call :: "pydict \<Rightarrow> pydict \<Rightarrow> pydict \<Rightarrow> bool" where
  "ended_call n known c \<longleftrightarrow> (\<forall>k \<in> insert ''name'' (set END_FIELDS). get c k = get n k)
     \<and> (\<forall>k \<in> {''provider'', ''arguments''}. get c k = (if is_none (get n k) then get known k else get n k))
     \<and> (\<forall>k \<in> {''started_event_time'', ''started_monotonic_ns''}. get c k = get known k)
     \<and> get c ''completed_event_time'' = py_or (get n ''event_time'') (get known ''completed_event_time'')
     \<and> get c ''completed_monotonic_ns'' = py_or (get n ''monotonic_ns'') (get known ''completed_monotonic_ns'')"

lemma merged_ended:
  assumes "normalize_tool_call ''tool_call_end'' event = Inr n"
  shows "ended_call n c (merge_call ''tool_call_end'' n c)"
proof -
  obtain t where t: "t \<noteq> []" "py_strip t = t" "get n ''name'' = PStr t" using head_fields_normalized(1) [OF assms] by blast
  have "get (merge_call ''tool_call_end'' n c) ''name'' = get n ''name''" using t by (simp add: merged_fields text_of_def)
  moreover have "get (merge_call ''tool_call_end'' n c) k = (if is_none (get n k) then get c k else get n k)" if "k \<in> {''provider'', ''arguments''}" for k
    using that head_fields_normalized(2,3) [OF assms] by (cases "get n ''arguments''") (auto simp: merged_fields)
  ultimately show ?thesis using end_fields_merged [OF assms] by (simp add: ended_call_def merged_fields)
qed

lemma new_call_ended:
  assumes "normalize_tool_call ''tool_call_end'' event = Inr n"
  shows "ended_call n [] (merge_call ''tool_call_end'' n (new_call i n))"
proof -
  have e: "get [] k = PNone" for k by (simp add: getd_def)
  have o: "opt_text PNone = PNone" by (simp add: opt_text_def)
  have v: "get (new_call i n) ''provider'' = opt_text (get n ''provider'')"
    "get (new_call i n) ''arguments'' = (if is_dict (get n ''arguments'') then get n ''arguments'' else PNone)"
    "get (new_call i n) ''started_event_time'' = PNone" "get (new_call i n) ''started_monotonic_ns'' = PNone"
    "get (new_call i n) ''completed_event_time'' = PNone" "get (new_call i n) ''completed_monotonic_ns'' = PNone"
    by (simp_all add: new_call_def getd_def)
  have "is_none (get n ''provider'') \<Longrightarrow> get (new_call i n) ''provider'' = PNone" by (cases "get n ''provider''") (simp_all add: v o)
  moreover have "is_none (get n ''arguments'') \<Longrightarrow> get (new_call i n) ''arguments'' = PNone" by (cases "get n ''arguments''") (simp_all add: v)
  ultimately show ?thesis using merged_ended [OF assms, of "new_call i n"] by (simp add: ended_call_def e v(3-6))
qed

text \<open>C9. The end of a tool call is recorded. Among the diagnostics of a node, the call with the identifier of an accepted end is there
  afterwards as the event describes it: its name, status, duration, error, previews and diagnostics are those of the event, its provider and
  its arguments too where the event has them, its start is the one that was recorded, and the time it completed is that of the event if
  it has one. Every other call is as it was, but for the oldest of 20, which makes room for a call that was not known.\<close>

theorem finished_call_recorded:
  assumes ok: "diagnostics_ok p" and n: "normalize_runtime_event e = Inr n" "get n ''type'' = PStr ''tool_call_end''"
    and app: "append_runtime_event p e = Inr q"
  defines "i \<equiv> text_of (get n ''call_id'')"
  shows "\<exists>c. List.find (is_call i) (node_calls q) = Some (PDict c)
    \<and> ended_call n (case List.find (is_call i) (node_calls p) of Some v \<Rightarrow> dict_items v | None \<Rightarrow> []) c
    \<and> (\<forall>j. j \<noteq> i \<longrightarrow> List.find (is_call j) (node_calls q) = List.find (is_call j)
         (if List.find (is_call i) (node_calls p) = None \<and> length (node_calls p) = 20 then tl (node_calls p) else node_calls p))"
proof -
  obtain event where ev: "normalize_tool_call ''tool_call_end'' event = Inr n" and i: "i \<noteq> []" using normalized_id [OF n] unfolding i_def by metis
  let ?cs = "node_calls p" and ?f = "\<lambda>c. PDict (merge_call ''tool_call_end'' n (dict_items c))"
  let ?new = "PDict (new_call i n)"
  let ?cs' = "if \<exists>c \<in> set ?cs. is_call i c then ?cs else ?cs @ [?new]"
  have calls: "(\<forall>c \<in> set ?cs. is_dict c) \<and> length ?cs \<le> 20"
    using ok by (auto simp: diagnostics_ok_def calls_ok_def node_calls_def getd_def split: option.split)
  have t: "text_of (get n ''type'') = ''tool_call_end''" using n(2) by (simp add: strip_eval)
  let ?p = "dict_set ''runtime_events'' (PList (last_n 20 (list_items (get p ''runtime_events'') @ [PDict n]))) (dict_set ''last_runtime_event'' (PDict n) p)"
  obtain p1 p2 where up: "upsert_runtime_tool_call ?p n = Inr p1" and rest: "append_provider_request_summary p1 n = Inr p2"
      "append_provider_request_completion p2 n = Inr q"
    using app n(1) by (auto simp: append_runtime_event_def Let_def rbind_eq_Inr MAX_RUNTIME_EVENTS_def)
  have "get p1 ''runtime_tool_calls'' = PList (last_n 20 (update_first (is_call i) ?f ?cs'))"
    using up i by (auto simp: upsert_runtime_tool_call_def Let_def t node_calls_def MAX_RUNTIME_TOOL_CALLS_def i_def)
  then have q: "node_calls q = last_n 20 (update_first (is_call i) ?f ?cs')"
    using summary_other [OF rest(1), of "''runtime_tool_calls''"] completion_other [OF rest(2), of "''runtime_tool_calls''"]
    by (simp add: node_calls_def getd_def)
  have keep: "is_call i c \<Longrightarrow> is_call i (?f c)" for c by (simp add: is_call_def)
  have move: "is_call i c \<Longrightarrow> \<not> is_call j c \<and> \<not> is_call j (?f c)" if "j \<noteq> i" for c j using that by (auto simp: is_call_def)
  have new: "is_call i ?new" "\<not> is_call j ?new" if "j \<noteq> i" for j using that by (auto simp: is_call_def new_call_id i_def)
  show ?thesis
  proof (cases "List.find (is_call i) ?cs")
    case (Some c0)
    then obtain d where d: "c0 = PDict d" using calls by (auto dest!: find_Some_set simp: is_dict_iff)
    have "\<exists>c \<in> set ?cs. is_call i c" using Some find_Some_set by fastforce
    then have q': "node_calls q = update_first (is_call i) ?f ?cs" using q calls by (simp add: last_n_all)
    have "List.find (is_call i) (node_calls q) = Some (PDict (merge_call ''tool_call_end'' n d))"
      unfolding q' by (subst find_update_first) (simp_all add: keep Some d)
    moreover have "List.find (is_call j) (node_calls q) = List.find (is_call j) ?cs" if "j \<noteq> i" for j
      unfolding q' using move [OF that] by (rule find_update_other)
    ultimately show ?thesis using merged_ended [OF ev, of d] Some d by auto
  next
    case None
    then have none: "\<not> (\<exists>c \<in> set ?cs. is_call i c)" by (auto simp: find_None_iff)
    have upd: "update_first (is_call i) ?f (?cs @ [?new]) = ?cs @ [?f ?new]"
      using none new(1) [of "i @ ''x''"] by (simp add: update_first_snoc)
    have q': "node_calls q = last_n 20 (?cs @ [?f ?new])" unfolding q using none upd by simp
    have "List.find (is_call i) (node_calls q) = Some (?f ?new)"
    proof -
      have "node_calls q = drop (Suc (length ?cs) - 20) ?cs @ [?f ?new]" unfolding q' last_n_def using calls by simp
      then show ?thesis using find_None_drop [OF None] keep [OF new(1) [of "i @ ''x''"]] by (simp add: find_in_append)
    qed
    moreover have "List.find (is_call j) (node_calls q) = List.find (is_call j) (if length ?cs = 20 then tl ?cs else ?cs)" if "j \<noteq> i" for j
    proof -
      have "node_calls q = drop (Suc (length ?cs) - 20) ?cs @ [?f ?new]" unfolding q' last_n_def using calls by simp
      moreover have "drop (Suc (length ?cs) - 20) ?cs = (if length ?cs = 20 then tl ?cs else ?cs)" using calls by (simp add: drop_Suc)
      ultimately show ?thesis using move [OF that new(1) [of "i @ ''x''"]] by (simp add: find_in_append split: option.split)
    qed
    ultimately show ?thesis using new_call_ended [OF ev, of i] None by auto
  qed
qed


definition sample_end :: pyval where
  "sample_end = PDict [(''type'', PStr ''tool_call_end''), (''call_id'', PStr ''c1''), (''status'', PStr ''failed''), (''error'', PStr ''no'')]"

theorem finished_call_recorded_witness:
  "\<exists>q c. append_runtime_event [] sample_end = Inr q \<and> List.find (is_call ''c1'') (node_calls q) = Some (PDict c)
     \<and> get c ''status'' = PStr ''failed'' \<and> get c ''error'' = PStr ''no''"
proof -
  have ok: "diagnostics_ok []" by (simp add: diagnostics_ok_def events_ok_def calls_ok_def requests_ok_def)
  have n: "normalize_runtime_event sample_end = Inr [(''type'', PStr ''tool_call_end''), (''name'', PStr ''tool''), (''call_id'', PStr ''c1''),
      (''status'', PStr ''failed''), (''error'', PStr ''no'')]" by code_simp
  have "case append_runtime_event [] sample_end of Inl e \<Rightarrow> False | Inr q \<Rightarrow> True" by code_simp
  then obtain q where q: "append_runtime_event [] sample_end = Inr q" by (auto split: sum.splits)
  have i: "py_strip ''c1'' = ''c1''" by (simp add: strip_eval)
  show ?thesis using finished_call_recorded [OF ok n _ q] q by (auto simp: i END_FIELDS_def ended_call_def)
qed

section \<open>What a restart keeps\<close>

definition EVENT_FIELDS :: "string list" where
  "EVENT_FIELDS = [''last_runtime_event'', ''runtime_events'', ''runtime_tool_calls'', ''provider_request_summaries'', ''provider_request_totals'']"

definition same_diagnostics :: "pydict \<Rightarrow> pydict \<Rightarrow> bool" where
  "same_diagnostics p c \<longleftrightarrow> (\<forall>k \<in> set EVENT_FIELDS. map_of p k = map_of c k)"

definition follows :: "(rt_error, pydict) res \<Rightarrow> (rt_error, pydict) res \<Rightarrow> bool" where
  "follows r s \<longleftrightarrow> (\<forall>q. r = Inr q \<longrightarrow> (\<exists>d. s = Inr d \<and> same_diagnostics q d))"

lemma same_diagnostics_set [intro!]: "same_diagnostics p c \<Longrightarrow> same_diagnostics (dict_set k v p) (dict_set k v c)"
  by (simp add: same_diagnostics_def)

lemma same_diagnostics_pop [intro!]: "same_diagnostics p c \<Longrightarrow> same_diagnostics (dict_pop k p) (dict_pop k c)"
  by (simp add: same_diagnostics_def)

lemma same_get: "same_diagnostics p c \<Longrightarrow> k \<in> set EVENT_FIELDS \<Longrightarrow> get c k = get p k"
  by (simp add: same_diagnostics_def getd_def)

lemma same_gets:
  assumes "same_diagnostics p c"
  shows "get c ''runtime_events'' = get p ''runtime_events''" "get c ''runtime_tool_calls'' = get p ''runtime_tool_calls''"
    "get c ''provider_request_summaries'' = get p ''provider_request_summaries''" "get c ''provider_request_totals'' = get p ''provider_request_totals''"
  using same_get [OF assms] by (simp_all add: EVENT_FIELDS_def)

lemma follows_Inr [intro!]: "same_diagnostics p c \<Longrightarrow> follows (Inr p) (Inr c)"
  by (simp add: follows_def)

lemma follows_Inl [intro!]: "follows (Inl e) s"
  by (simp add: follows_def)

lemma follows_bind: "follows r s \<Longrightarrow> (\<And>q d. same_diagnostics q d \<Longrightarrow> follows (f q) (g d)) \<Longrightarrow> follows (rbind r f) (rbind s g)"
  by (fastforce simp: follows_def rbind_eq_Inr)

lemma follows_same: "(\<And>x. follows (f x) (g x)) \<Longrightarrow> follows (rbind r f) (rbind r g)"
  by (cases r) (simp_all add: follows_def)

lemma upsert_follows: "same_diagnostics p c \<Longrightarrow> follows (upsert_runtime_tool_call p n) (upsert_runtime_tool_call c n)"
  by (simp add: upsert_runtime_tool_call_def Let_def same_gets follows_Inr follows_Inl same_diagnostics_set)

lemma totals_follows: "same_diagnostics p c \<Longrightarrow> follows (update_provider_request_totals p s) (update_provider_request_totals c s)"
  unfolding update_provider_request_totals_def Let_def split_beta
  by (simp add: same_gets) (intro follows_same follows_Inr same_diagnostics_set)

lemma summary_follows:
  assumes "same_diagnostics p c"
  shows "follows (append_provider_request_summary p n) (append_provider_request_summary c n)"
proof (cases "parse_provider_request_payload (get n ''message'')")
  case (Some s)
  then show ?thesis using assms
    by (simp add: append_provider_request_summary_def Let_def follows_Inr)
      (auto intro!: follows_bind [OF totals_follows] simp: same_gets)
qed (use assms in \<open>auto simp: append_provider_request_summary_def\<close>)

lemma mark_follows: "same_diagnostics p c \<Longrightarrow> follows (mark_request i u p) (mark_request i u c)"
  unfolding mark_request_def
  by (cases "get p ''provider_request_summaries''") (auto simp: same_gets intro!: follows_same)

lemma completion_follows:
  assumes "same_diagnostics p c"
  shows "follows (append_provider_request_completion p n) (append_provider_request_completion c n)"
proof (cases "parse_provider_request_payload (get n ''message'')")
  case (Some s)
  have step: "follows (case i of None \<Rightarrow> Inr p
          | Some index \<Rightarrow> rbind (mark_request index usage p) (\<lambda>payload.
              rbind (count_completion usage (dict_items (get payload ''provider_request_totals''))) (\<lambda>totals.
                Inr (dict_set ''provider_request_totals'' (PDict (dict_set ''last_completed_request_index'' (PInt index) totals)) payload))))
      (case i of None \<Rightarrow> Inr c
          | Some index \<Rightarrow> rbind (mark_request index usage c) (\<lambda>payload.
              rbind (count_completion usage (dict_items (get payload ''provider_request_totals''))) (\<lambda>totals.
                Inr (dict_set ''provider_request_totals'' (PDict (dict_set ''last_completed_request_index'' (PInt index) totals)) payload))))" for i usage
    using assms by (cases i) (auto intro!: follows_bind [OF mark_follows] follows_same simp: same_gets)
  show ?thesis using assms Some
    by (cases "is_notice PROVIDER_REQUEST_COMPLETED_STAGE n")
      (simp_all add: append_provider_request_completion_def follows_Inr follows_same step)
qed (use assms in \<open>auto simp: append_provider_request_completion_def\<close>)

lemma append_follows: "same_diagnostics p c \<Longrightarrow> follows (append_runtime_event p e) (append_runtime_event c e)"
  unfolding append_runtime_event_def Let_def
  by (intro follows_same follows_bind [OF upsert_follows] follows_bind [OF summary_follows] completion_follows)
    (auto simp: same_gets)

lemma clear_follows: "same_diagnostics p c \<Longrightarrow> same_diagnostics (clear_runtime_event r p) (clear_runtime_event r c)"
  by (auto simp: clear_runtime_event_def Let_def)

lemma change_follows: "same_diagnostics p c \<Longrightarrow> follows (change_diagnostics e r p) (change_diagnostics e r c)"
  unfolding change_diagnostics_def by (auto intro!: append_follows clear_follows)


lemma bump_seq: "bump_node_event_seq p = Inr q \<Longrightarrow> \<exists>n. q = dict_set ''node_event_seq'' (PInt n) p \<and> (\<forall>m. map_of p ''node_event_seq'' = Some (PInt m) \<longrightarrow> m < n)"
  by (auto simp: bump_node_event_seq_def rbind_eq_Inr event_seq_int_def NODE_EVENT_SEQ_FIELD_def getd_def py_or_def split: if_splits)

text \<open>What holds of a payload and is kept by setting and removing the fields of events holds after an event.\<close>

lemma change_keeps:
  assumes sets: "\<And>k v p. k \<in> set EVENT_FIELDS \<Longrightarrow> P p \<Longrightarrow> P (dict_set k v p)" and pops: "\<And>k p. k \<in> set EVENT_FIELDS \<Longrightarrow> P p \<Longrightarrow> P (dict_pop k p)"
    and p: "P p" and ch: "change_diagnostics e r p = Inr q"
  shows "P q"
proof -
  have ks: "''last_runtime_event'' \<in> set EVENT_FIELDS" "''runtime_events'' \<in> set EVENT_FIELDS" "''runtime_tool_calls'' \<in> set EVENT_FIELDS"
      "''provider_request_summaries'' \<in> set EVENT_FIELDS" "''provider_request_totals'' \<in> set EVENT_FIELDS" by (simp_all add: EVENT_FIELDS_def)
  have m: "P q" if "P p" "mark_request i u p = Inr q" for i u p q
    using that ks by (cases "get p ''provider_request_summaries''") (auto simp: mark_request_def rbind_eq_Inr intro: sets)
  have c: "P q" if "P p" "append_provider_request_completion p n = Inr q" for p n q
    using that ks by (auto simp: append_provider_request_completion_def rbind_eq_Inr intro!: sets intro: m split: if_splits option.splits)
  have s: "P q" if "P p" "append_provider_request_summary p n = Inr q" for p n q
    using that ks by (auto simp: append_provider_request_summary_def update_provider_request_totals_def Let_def split_beta rbind_eq_Inr
        intro!: sets split: if_splits option.splits)
  have u: "P q" if "P p" "upsert_runtime_tool_call p n = Inr q" for p n q
    using that ks by (auto simp: upsert_runtime_tool_call_def Let_def intro!: sets split: if_splits)
  have clear: "P (clear_runtime_event r p)" if "P p" for r p
    using that ks by (auto simp: clear_runtime_event_def Let_def intro!: pops)
  have a: "P q" if "P p" "append_runtime_event p e = Inr q" for p q
  proof -
    have w: "P (dict_set ''runtime_events'' x (dict_set ''last_runtime_event'' y p))" for x y using that(1) ks sets by blast
    show ?thesis using that(2) unfolding append_runtime_event_def Let_def rbind_eq_Inr by (elim exE conjE) (drule u [OF w], drule s, assumption, erule c)
  qed
  show ?thesis
  proof (cases "is_dict e \<and> e \<noteq> PDict []")
    case True
    then have "append_runtime_event (if r then clear_runtime_event True p else p) e = Inr q" using ch by (simp add: change_diagnostics_def)
    moreover have "P (if r then clear_runtime_event True p else p)" using clear [OF p] p by simp
    ultimately show ?thesis by (rule a [rotated])
  next
    case False
    then have "q = clear_runtime_event r p" using ch unfolding change_diagnostics_def by (simp only: if_False sum.inject)
    then show ?thesis using clear [OF p] by blast
  qed
qed

lemma change_wf: "wf_dict p \<Longrightarrow> change_diagnostics e r p = Inr q \<Longrightarrow> wf_dict q"
  by (rule change_keeps [where P = wf_dict]) auto

lemma change_other: "k \<notin> set EVENT_FIELDS \<Longrightarrow> change_diagnostics e r p = Inr q \<Longrightarrow> map_of q k = map_of p k"
  by (rule change_keeps [where P = "\<lambda>q. map_of q k = map_of p k"]) auto

text \<open>The payload an event changes: the fields in memory, and those that are not, from the file.\<close>

definition event_base :: "diag_env \<Rightarrow> string \<Rightarrow> bool \<Rightarrow> diag_state \<Rightarrow> pydict \<Rightarrow> (rt_error, pydict) res" where
  "event_base E path r st payload = (let missing = filter (\<lambda>f. \<not> dict_has payload f) RUNTIME_EVENT_STATE_FIELDS in
     if r \<or> missing = [] then Inr payload else rbind (projection_read E path missing st) (\<lambda>durable. Inr (dict_update durable payload)))"

lemma event_mutation_base:
  "event_mutation E path e r st payload = rbind (event_base E path r st payload) (\<lambda>p. rbind (change_diagnostics e r p) (\<lambda>q.
     rbind (bump_node_event_seq q) (\<lambda>q. Inr (q, ()))))"
  by (simp add: event_mutation_def event_base_def Let_def)

lemma state_fields: "requested_fields (map PStr RUNTIME_EVENT_STATE_FIELDS) = RUNTIME_EVENT_STATE_FIELDS"
    "unknown_fields RUNTIME_EVENT_STATE_FIELDS = []" "distinct RUNTIME_EVENT_STATE_FIELDS"
  by (simp_all add: requested_fields_def RUNTIME_EVENT_STATE_FIELDS_def unknown_fields_def RUNTIME_STATE_FIELDS_def strip_eval)


abbreviation event_key :: "diag_env \<Rightarrow> string \<Rightarrow> string" where
  "event_key E path \<equiv> env_key (de_rt E) path"

abbreviation event_before :: "diag_env \<Rightarrow> string \<Rightarrow> diag_state \<Rightarrow> pydict" where
  "event_before E path st \<equiv> project_fields RUNTIME_EVENT_STATE_FIELDS (item_of (ds_store st) (event_key E path))"

lemma read_keys: "projection_read E path ks st = Inr d \<Longrightarrow> fst ` set d \<subseteq> set ks \<inter> set DIAGNOSTICS_PROJECTION_FIELDS"
proof -
  assume r: "projection_read E path ks st = Inr d"
  then obtain f where f: "projection_path E path = Inr f" by (auto simp: projection_read_def rbind_eq_Inr)
  show ?thesis
  proof (cases "map_of (ds_files st) f")
    case (Some t)
    then show ?thesis using r f by (cases "loads_object t") (auto simp: projection_read_def select_fields_def)
  qed (use r f in \<open>simp add: projection_read_def\<close>)
qed

lemma base_ok:
  assumes "event_base E path r st p = Inr b" and wf: "wf_dict p" and sub: "fst ` set p \<subseteq> set RUNTIME_EVENT_STATE_FIELDS"
  shows "wf_dict b \<and> fst ` set b \<subseteq> set RUNTIME_EVENT_STATE_FIELDS \<and> map_of b ''node_event_seq'' = map_of p ''node_event_seq''"
proof -
  let ?ks = "filter (\<lambda>f. \<not> dict_has p f) RUNTIME_EVENT_STATE_FIELDS"
  consider "b = p" | d where "b = dict_update d p" "fst ` set d \<subseteq> set RUNTIME_EVENT_STATE_FIELDS - {''node_event_seq''}"
  proof (cases "r \<or> ?ks = []")
    case False
    then obtain d where d: "projection_read E path ?ks st = Inr d" "b = dict_update d p"
      using assms(1) unfolding event_base_def Let_def by (auto simp only: if_False rbind_eq_Inr sum.inject)
    have "''node_event_seq'' \<notin> set DIAGNOSTICS_PROJECTION_FIELDS" by (simp add: DIAGNOSTICS_PROJECTION_FIELDS_def)
    then have "fst ` set d \<subseteq> set RUNTIME_EVENT_STATE_FIELDS - {''node_event_seq''}" using read_keys [OF d(1)] by auto
    then show ?thesis using that d(2) by blast
  qed (use assms(1) that in \<open>auto simp: event_base_def Let_def\<close>)
  then show ?thesis
  proof cases
    case 2
    have "map_of (dict_update d p) ''node_event_seq'' = map_of p ''node_event_seq''"
      using 2(2) by (induction d arbitrary: p) (auto simp: dict_update_def)
    then show ?thesis using 2 wf sub by (auto simp: fst_dict_update wf_dict_update)
  qed (use wf sub in simp)
qed

lemma state_not_events: "''node_event_seq'' \<notin> set EVENT_FIELDS" "set EVENT_FIELDS \<subseteq> set RUNTIME_EVENT_STATE_FIELDS"
    "''node_event_seq'' \<in> set RUNTIME_EVENT_STATE_FIELDS" "set RUNTIME_EVENT_STATE_FIELDS \<subseteq> set RUNTIME_STATE_FIELDS"
    "''state'' \<notin> set RUNTIME_EVENT_STATE_FIELDS" "''pending_count'' \<notin> set RUNTIME_EVENT_STATE_FIELDS" "''pending'' \<notin> set RUNTIME_EVENT_STATE_FIELDS"
  by (auto simp: EVENT_FIELDS_def RUNTIME_EVENT_STATE_FIELDS_def RUNTIME_STATE_FIELDS_def)

text \<open>An event that is stored is stored as it was changed; a payload that passes the checks is stored.\<close>

lemma update_event:
  assumes before: "event_mutation E path e r st (event_before E path st) = Inr (p', ())"
    and wf: "wf_dict p'" and sub: "fst ` set p' \<subseteq> set RUNTIME_EVENT_STATE_FIELDS" and valid: "rt_valid p'"
    and seq: "map_of p' ''node_event_seq'' = Some (PInt n)" "\<forall>m. map_of (event_before E path st) ''node_event_seq'' = Some (PInt m) \<longrightarrow> m < n"
    and ok: "store_ok (ds_store st)"
  shows "\<exists>s. update_fields (de_rt E) path (map PStr RUNTIME_EVENT_STATE_FIELDS) (event_mutation E path e r st) (ds_store st) = Inr (s, norm_val p', ())
    \<and> (\<forall>k \<in> set RUNTIME_EVENT_STATE_FIELDS. map_of (item_of s (event_key E path)) k = map_of p' k)"
proof -
  let ?b = "event_before E path st" and ?i = "item_of (ds_store st) (event_key E path)"
  have look: "map_of (norm_val p') k = map_of p' k" if "k \<in> set RUNTIME_EVENT_STATE_FIELDS" for k
    using that state_not_events by (auto simp: map_of_norm_val)
  have nsub: "fst ` set (norm_val p') \<subseteq> set RUNTIME_EVENT_STATE_FIELDS"
  proof
    fix k assume "k \<in> fst ` set (norm_val p')"
    then have k: "map_of (norm_val p') k \<noteq> None" by (simp add: map_of_eq_None_iff)
    have "map_of p' ''pending'' = None" "map_of p' ''state'' = None" using sub state_not_events by (auto simp: map_of_eq_None_iff)
    then have "map_of p' k \<noteq> None" using k by (simp add: map_of_norm_val split: if_splits)
    then show "k \<in> set RUNTIME_EVENT_STATE_FIELDS" using sub by (auto simp: map_of_eq_None_iff)
  qed
  have neq: "\<not> py_eq (PDict (norm_val p')) (PDict ?b)"
  proof
    assume "py_eq (PDict (norm_val p')) (PDict ?b)"
    moreover have "(''node_event_seq'', PInt n) \<in> set (norm_val p')" using look [OF state_not_events(3)] seq(1) by (simp add: map_of_SomeD)
    ultimately obtain w where w: "map_of ?b ''node_event_seq'' = Some w" "py_eq (PInt n) w"
      by (auto simp: list_all_iff split: option.splits)
    then have "map_of ?i ''node_event_seq'' = Some w" by (simp add: map_of_project split: if_splits)
    then have "non_neg_int w" using store_ok_item [OF ok, of "event_key E path"] by (simp add: normal_def rt_valid_def)
    then obtain m where "w = PInt m" by (cases w) auto
    then show False using w seq(2) by auto
  qed
  have "filter (\<lambda>k. k \<notin> set RUNTIME_EVENT_STATE_FIELDS) (map fst (norm_val p')) = []" using nsub by (auto simp: filter_empty_conv)
  then have "update_fields (de_rt E) path (map PStr RUNTIME_EVENT_STATE_FIELDS) (event_mutation E path e r st) (ds_store st) =
      Inr (put_item (de_rt E) (event_key E path) (dict_update (norm_val p') (fold dict_pop RUNTIME_EVENT_STATE_FIELDS ?i)) (ds_store st), norm_val p', ())"
    using before neq by (simp add: update_fields_def state_fields(1,2) Let_def valid del: py_eq.simps)
  moreover have "map_of (dict_update (norm_val p') (fold dict_pop RUNTIME_EVENT_STATE_FIELDS ?i)) k = map_of p' k" if "k \<in> set RUNTIME_EVENT_STATE_FIELDS" for k
    using that look [OF that] wf by (simp add: map_of_dict_update wf_norm_val map_of_pops split: option.split)
  ultimately show ?thesis by simp
qed

lemma update_event_steps:
  assumes "update_fields (de_rt E) path (map PStr RUNTIME_EVENT_STATE_FIELDS) (event_mutation E path e r st) (ds_store st) = Inr (s, x)"
    and ok: "store_ok (ds_store st)"
  obtains b q n where "event_base E path r st (event_before E path st) = Inr b" and "change_diagnostics e r b = Inr q"
    and "bump_node_event_seq q = Inr (dict_set ''node_event_seq'' (PInt n) q)" and "rt_valid (dict_set ''node_event_seq'' (PInt n) q)"
    and "\<forall>k \<in> set RUNTIME_EVENT_STATE_FIELDS. map_of (item_of s (event_key E path)) k = map_of (dict_set ''node_event_seq'' (PInt n) q) k"
proof -
  let ?b = "event_before E path st"
  obtain b q p' where b: "event_base E path r st ?b = Inr b" and q: "change_diagnostics e r b = Inr q" and p': "bump_node_event_seq q = Inr p'" and v: "rt_valid p'"
    using assms(1) by (auto simp: update_fields_def state_fields(1,2) Let_def rbind_eq_Inr event_mutation_base normalize_payload_Inr split: if_splits)
  obtain n where n: "p' = dict_set ''node_event_seq'' (PInt n) q" "\<forall>m. map_of q ''node_event_seq'' = Some (PInt m) \<longrightarrow> m < n"
    using bump_seq [OF p'] by blast
  have before: "wf_dict ?b" "fst ` set ?b \<subseteq> set RUNTIME_EVENT_STATE_FIELDS"
    using wf_project_fields [OF state_fields(3)] by (auto simp: project_fields_def List.map_filter_def split: option.splits)
  note bb = base_ok [OF b before]
  have q_ok: "wf_dict q" "fst ` set q \<subseteq> set RUNTIME_EVENT_STATE_FIELDS" "map_of q ''node_event_seq'' = map_of ?b ''node_event_seq''"
  proof -
    show "wf_dict q" using bb change_wf q by blast
    show "map_of q ''node_event_seq'' = map_of ?b ''node_event_seq''" using bb change_other [OF state_not_events(1) q] by simp
    show "fst ` set q \<subseteq> set RUNTIME_EVENT_STATE_FIELDS"
      by (rule change_keeps [where P = "\<lambda>q. fst ` set q \<subseteq> set RUNTIME_EVENT_STATE_FIELDS", OF _ _ _ q])
        (use bb state_not_events(2) in \<open>auto simp: fst_dict_set dict_pop_code\<close>)
  qed
  have "event_mutation E path e r st ?b = Inr (p', ())" using b q p' by (simp add: event_mutation_base)
  from update_event [OF this _ _ v _ _ ok, of n] n q_ok state_not_events(3)
  obtain s' where s': "update_fields (de_rt E) path (map PStr RUNTIME_EVENT_STATE_FIELDS) (event_mutation E path e r st) (ds_store st) = Inr (s', norm_val p', ())"
      "\<forall>k \<in> set RUNTIME_EVENT_STATE_FIELDS. map_of (item_of s' (event_key E path)) k = map_of p' k"
    by (auto simp: fst_dict_set)
  then have "s' = s" using assms(1) by simp
  then show thesis using that [OF b q] p' n v s'(2) by simp
qed


lemma set_event_steps:
  assumes "set_runtime_event E path e r st = (st', Inr ())" and "path \<noteq> []"
  obtains s x where "update_fields (de_rt E) path (map PStr RUNTIME_EVENT_STATE_FIELDS) (event_mutation E path e r st) (ds_store st) = Inr (s, x)"
    and "ds_store st' = s" and "r \<or> is_terminal_runtime_event e \<Longrightarrow>
      projection_write E path (item_of s (event_key E path)) (st\<lparr>ds_store := s\<rparr>) = Inr st'"
proof -
  obtain s x where u: "update_fields (de_rt E) path (map PStr RUNTIME_EVENT_STATE_FIELDS) (event_mutation E path e r st) (ds_store st) = Inr (s, x)"
    using assms by (cases "update_fields (de_rt E) path (map PStr RUNTIME_EVENT_STATE_FIELDS) (event_mutation E path e r st) (ds_store st)")
      (auto simp: set_runtime_event_def)
  show thesis
  proof (cases "projection_write E path (item_of s (event_key E path)) (st\<lparr>ds_store := s\<rparr>)")
    case (Inl err)
    then show ?thesis using that [OF u] assms u by (simp add: set_runtime_event_def Let_def split: if_split_asm) auto
  next
    case (Inr w)
    then have "ds_store w = s" by (auto simp: projection_write_def rbind_eq_Inr)
    then show ?thesis using that [OF u] assms u Inr by (simp add: set_runtime_event_def Let_def split: if_split_asm) auto
  qed
qed

lemma select_select: "fst ` set (select_fields ks d) \<subseteq> set ks" "wf_dict d \<Longrightarrow> wf_dict (select_fields ks d)"
    "map_of (select_fields ks d) k = (if k \<in> set ks \<and> k \<in> set DIAGNOSTICS_PROJECTION_FIELDS then map_of d k else None)"
  by (auto simp: select_fields_def map_of_filter_key split_beta)

text \<open>What is read after a write: the fields of the state that was written.\<close>

lemma projection_read_written:
  assumes "projection_write E path d st = Inr st'" and "json_plain (PDict (select_fields DIAGNOSTICS_PROJECTION_FIELDS d))"
  shows "projection_read E path ks (st'\<lparr>ds_store := s\<rparr>) = Inr (select_fields ks d)"
proof -
  have "json_loads (json_write '','' '':'' (PDict (select_fields DIAGNOSTICS_PROJECTION_FIELDS d))) = Some (PDict (select_fields DIAGNOSTICS_PROJECTION_FIELDS d))"
    using assms(2) by (rule json_write_read [rotated 2]) (simp_all add: sep_ok_def)
  moreover have "select_fields ks (select_fields DIAGNOSTICS_PROJECTION_FIELDS d) = select_fields ks d"
    by (auto simp: select_fields_def intro!: filter_cong)
  ultimately show ?thesis using assms(1)
    by (auto simp: projection_read_def projection_write_def loads_object_def rbind_eq_Inr simp del: json_write.simps)
qed

lemma event_fields_kept: "set EVENT_FIELDS \<subseteq> set DIAGNOSTICS_PROJECTION_FIELDS"
  by (auto simp: EVENT_FIELDS_def DIAGNOSTICS_PROJECTION_FIELDS_def)

lemma set_event_ok:
  assumes "update_fields (de_rt E) path (map PStr RUNTIME_EVENT_STATE_FIELDS) (event_mutation E path e r st) (ds_store st) = Inr (s, x)"
    and "path \<noteq> []" "py_strip path \<noteq> []"
  shows "\<exists>st'. set_runtime_event E path e r st = (st', Inr ()) \<and> ds_store st' = s"
proof (cases "r \<or> is_terminal_runtime_event e")
  case True
  then show ?thesis using assms by (simp add: set_runtime_event_def Let_def projection_write_def projection_path_def)
next
  case False
  then show ?thesis using assms by (simp add: set_runtime_event_def Let_def)
qed

text \<open>An event on an empty memory, from a file with what a payload holds.\<close>

lemma cold_event:
  assumes read: "\<And>ks. projection_read E path ks st = Inr (select_fields ks i)" and wi: "wf_dict i" and empty: "ds_store st = empty_store"
    and path: "py_strip path \<noteq> []" and b: "same_diagnostics b i" and q: "change_diagnostics e False b = Inr q"
    and valid: "rt_valid (dict_set ''node_event_seq'' (PInt n) q)"
  shows "\<exists>st'. set_runtime_event E path e False st = (st', Inr ()) \<and> same_diagnostics q (item_of (ds_store st') (event_key E path))"
proof -
  let ?c = "dict_update (select_fields RUNTIME_EVENT_STATE_FIELDS i) []"
  have "event_before E path st = []"
    by (simp add: empty empty_store_def item_of_def project_fields_def List.map_filter_def RUNTIME_EVENT_STATE_FIELDS_def)
  then have before: "event_base E path False st (event_before E path st) = Inr ?c" "map_of (event_before E path st) k = None" for k
    using read [of RUNTIME_EVENT_STATE_FIELDS] by (simp_all add: event_base_def dict_has_def RUNTIME_EVENT_STATE_FIELDS_def)
  have mc: "map_of ?c k = (if k \<in> set RUNTIME_EVENT_STATE_FIELDS \<and> k \<in> set DIAGNOSTICS_PROJECTION_FIELDS then map_of i k else None)" for k
    by (simp add: map_of_dict_update select_select wi split: option.split)
  have "same_diagnostics b ?c"
    using b state_not_events(2) event_fields_kept unfolding same_diagnostics_def mc by auto
  then obtain d where d: "change_diagnostics e False ?c = Inr d" "same_diagnostics q d"
    using change_follows [of b ?c e False] q by (auto simp: follows_def)
  let ?d' = "dict_set ''node_event_seq'' (PInt 1) d"
  have "map_of d ''node_event_seq'' = None"
    using change_other [OF state_not_events(1) d(1)] mc by (simp add: DIAGNOSTICS_PROJECTION_FIELDS_def)
  then have bump: "bump_node_event_seq d = Inr ?d'"
    by (simp add: bump_node_event_seq_def event_seq_int_def NODE_EVENT_SEQ_FIELD_def getd_def py_or_def)
  have sub: "fst ` set d \<subseteq> set RUNTIME_EVENT_STATE_FIELDS"
    by (rule change_keeps [where P = "\<lambda>q. fst ` set q \<subseteq> set RUNTIME_EVENT_STATE_FIELDS", OF _ _ _ d(1)])
      (use state_not_events(2) select_select(1) [of RUNTIME_EVENT_STATE_FIELDS i] in \<open>auto simp: fst_dict_set fst_dict_update dict_pop_code\<close>)
  have wd: "wf_dict d" by (rule change_wf [OF wf_dict_update d(1)]) (simp add: wf_dict_def)
  have "map_of d k = None" if "k \<notin> set RUNTIME_EVENT_STATE_FIELDS" for k using sub that by (auto simp: map_of_eq_None_iff)
  then have vd: "rt_valid ?d'" using valid d(2) by (simp add: rt_valid_def same_diagnostics_def EVENT_FIELDS_def RUNTIME_EVENT_STATE_FIELDS_def)
  have mut: "event_mutation E path e False st (event_before E path st) = Inr (?d', ())"
    using before(1) d(1) bump by (simp add: event_mutation_base)
  obtain s where s: "update_fields (de_rt E) path (map PStr RUNTIME_EVENT_STATE_FIELDS) (event_mutation E path e False st) (ds_store st) = Inr (s, norm_val ?d', ())"
      "\<forall>k \<in> set RUNTIME_EVENT_STATE_FIELDS. map_of (item_of s (event_key E path)) k = map_of ?d' k"
    using update_event [OF mut _ _ vd, of 1] wd sub state_not_events(3) before(2) empty by (auto simp: fst_dict_set)
  have "path \<noteq> []" using path by auto
  then obtain st' where "set_runtime_event E path e False st = (st', Inr ())" "ds_store st' = s" using set_event_ok [OF s(1)] path by blast
  then show ?thesis using s(2) d(2) state_not_events(1,2) by (auto simp: same_diagnostics_def)
qed

text \<open>C7. A restart loses nothing a node shows. When an event has ended a run or reset the history, its file holds the diagnostics; if
  the node is then restarted, so that nothing is in memory, the next event finds the same history, tool calls, requests and totals as
  if there had been no restart: it is accepted if it was, and the node shows the same afterwards. What is in the file went through
  a JSON text.\<close>

theorem diagnostics_survive_restart:
  assumes wrote: "set_runtime_event E path e r st = (st1, Inr ())" and fin: "r \<or> is_terminal_runtime_event e"
    and ok: "store_ok (ds_store st1)" and path: "py_strip path \<noteq> []"
    and plain: "json_plain (PDict (select_fields DIAGNOSTICS_PROJECTION_FIELDS (item_of (ds_store st1) (event_key E path))))"
    and warm: "set_runtime_event E path e' False st1 = (st2, Inr ())"
  shows "\<exists>st3. set_runtime_event E path e' False (st1\<lparr>ds_store := empty_store\<rparr>) = (st3, Inr ())
    \<and> same_diagnostics (item_of (ds_store st2) (event_key E path)) (item_of (ds_store st3) (event_key E path))"
proof -
  let ?cold = "st1\<lparr>ds_store := empty_store\<rparr>" and ?i = "item_of (ds_store st1) (event_key E path)"
  have ne: "path \<noteq> []" using path by auto
  obtain s1 x where "ds_store st1 = s1" and "projection_write E path (item_of s1 (event_key E path)) (st\<lparr>ds_store := s1\<rparr>) = Inr st1"
    by (rule set_event_steps [OF wrote ne]) (use fin in blast)
  then have fileq: "projection_read E path ks (st1\<lparr>ds_store := s\<rparr>) = Inr (select_fields ks ?i)" for ks s
    using projection_read_written plain by blast
  obtain s2 y where u2: "update_fields (de_rt E) path (map PStr RUNTIME_EVENT_STATE_FIELDS) (event_mutation E path e' False st1) (ds_store st1) = Inr (s2, y)"
    and s2: "ds_store st2 = s2" by (rule set_event_steps [OF warm ne])
  obtain b q n where b: "event_base E path False st1 (event_before E path st1) = Inr b" and q: "change_diagnostics e' False b = Inr q"
    and valid: "rt_valid (dict_set ''node_event_seq'' (PInt n) q)"
    and stored: "\<forall>k \<in> set RUNTIME_EVENT_STATE_FIELDS. map_of (item_of s2 (event_key E path)) k = map_of (dict_set ''node_event_seq'' (PInt n) q) k"
    by (rule update_event_steps [OF u2 ok])
  let ?ks = "filter (\<lambda>f. \<not> dict_has (event_before E path st1) f) RUNTIME_EVENT_STATE_FIELDS"
  have "select_fields ?ks ?i = []"
    using map_of_project [of RUNTIME_EVENT_STATE_FIELDS ?i]
    by (auto simp: select_fields_def filter_empty_conv dict_has_iff map_of_eq_None_iff) force
  then have bb: "b = event_before E path st1"
    using b fileq [of ?ks "ds_store st1"] by (auto simp: event_base_def Let_def dict_update_def split: if_splits)
  have same: "same_diagnostics b ?i"
    unfolding same_diagnostics_def bb map_of_project using state_not_events(2) by auto
  have wi: "wf_dict ?i" using store_ok_item [OF ok] by (simp add: normal_def)
  obtain st3 where "set_runtime_event E path e' False ?cold = (st3, Inr ())" "same_diagnostics q (item_of (ds_store st3) (event_key E path))"
    using cold_event [OF fileq wi _ path same q valid, of empty_store] by auto
  then show ?thesis using stored s2 state_not_events(1,2) by (auto simp: same_diagnostics_def)
qed


definition sample_diag_env :: diag_env where
  "sample_diag_env = \<lparr>de_rt = sample_env, de_file = (\<lambda>p. p @ ''.json'')\<rparr>"

definition run_summary :: pyval where
  "run_summary = PDict [(''type'', PStr ''runtime_notice''), (''message'', PStr ''done''), (''stage'', PStr ''node_run_summary'')]"

definition tool_start :: pyval where
  "tool_start = PDict [(''type'', PStr ''tool_call_start''), (''name'', PStr ''ls''), (''call_id'', PStr ''c1'')]"

lemma snd_pair: "snd z = w \<Longrightarrow> z = (fst z, w)"
  by auto

theorem diagnostics_survive_restart_witness:
  "\<exists>st1 st2 st3. set_runtime_event sample_diag_env ''n'' run_summary False \<lparr>ds_store = empty_store, ds_files = []\<rparr> = (st1, Inr ())
    \<and> set_runtime_event sample_diag_env ''n'' tool_start False st1 = (st2, Inr ())
    \<and> set_runtime_event sample_diag_env ''n'' tool_start False (st1\<lparr>ds_store := empty_store\<rparr>) = (st3, Inr ())
    \<and> same_diagnostics (item_of (ds_store st2) ''n'') (item_of (ds_store st3) ''n'')"
proof -
  define st0 where "st0 = \<lparr>ds_store = empty_store, ds_files = []\<rparr>"
  define st1 where "st1 = fst (set_runtime_event sample_diag_env ''n'' run_summary False st0)"
  define st2 where "st2 = fst (set_runtime_event sample_diag_env ''n'' tool_start False st1)"
  have e1: "snd (set_runtime_event sample_diag_env ''n'' run_summary False \<lparr>ds_store = empty_store, ds_files = []\<rparr>) = Inr ()" by code_simp
  have e2: "snd (set_runtime_event sample_diag_env ''n'' tool_start False (fst (set_runtime_event sample_diag_env ''n'' run_summary False
      \<lparr>ds_store = empty_store, ds_files = []\<rparr>))) = Inr ()" by code_simp
  have ok: "store_ok (ds_store (fst (set_runtime_event sample_diag_env ''n'' run_summary False \<lparr>ds_store = empty_store, ds_files = []\<rparr>)))" by code_simp
  have plain: "json_plain (PDict (select_fields DIAGNOSTICS_PROJECTION_FIELDS (item_of (ds_store (fst (set_runtime_event sample_diag_env ''n'' run_summary False
      \<lparr>ds_store = empty_store, ds_files = []\<rparr>))) ''n'')))" by code_simp
  have k: "event_key sample_diag_env ''n'' = ''n''" "py_strip ''n'' \<noteq> []" "is_terminal_runtime_event run_summary" by code_simp+
  have s1: "set_runtime_event sample_diag_env ''n'' run_summary False st0 = (st1, Inr ())"
    using e1 unfolding st1_def st0_def by (rule snd_pair)
  have s2: "set_runtime_event sample_diag_env ''n'' tool_start False st1 = (st2, Inr ())"
    using e2 unfolding st2_def st1_def st0_def by (rule snd_pair)
  have "store_ok (ds_store st1)" using ok unfolding st1_def st0_def .
  moreover have "json_plain (PDict (select_fields DIAGNOSTICS_PROJECTION_FIELDS (item_of (ds_store st1) (event_key sample_diag_env ''n''))))"
    using plain unfolding st1_def st0_def k(1) .
  ultimately have "\<exists>st3. set_runtime_event sample_diag_env ''n'' tool_start False (st1\<lparr>ds_store := empty_store\<rparr>) = (st3, Inr ())
    \<and> same_diagnostics (item_of (ds_store st2) (event_key sample_diag_env ''n'')) (item_of (ds_store st3) (event_key sample_diag_env ''n''))"
    using diagnostics_survive_restart [OF s1 _ _ k(2) _ s2] k(3) by blast
  then show ?thesis using s1 s2 unfolding k(1) st0_def by blast
qed

end
