(* ===== verification/RequestLaws.thy ===== *)
theory RequestLaws
  imports RuntimeEvents
begin

text \<open>
  Requests to the provider are counted twice, by the agent that sends them and by the node that records the notices of them, which are
  JSON texts: the two counts agree.
\<close>

section \<open>Counting\<close>

text \<open>The totals are numbers, and what is not there counts as zero.\<close>

definition numbers_only :: "pydict \<Rightarrow> bool" where
  "numbers_only t \<longleftrightarrow> (\<forall>k v. map_of t k = Some v \<longrightarrow> (\<exists>n. v = PInt n \<and> 0 \<le> n))"

definition total_of :: "pydict \<Rightarrow> string \<Rightarrow> int" where
  "total_of t k = int_value (get t k)"

text \<open>The total of the last prompt is kept by the agent alone, the index of the last completed request by the node alone.\<close>

definition same_totals :: "pydict \<Rightarrow> pydict \<Rightarrow> bool" where
  "same_totals t u \<longleftrightarrow> (\<forall>k. k \<noteq> ''last_actual_input_tokens'' \<longrightarrow> k \<noteq> ''last_completed_request_index'' \<longrightarrow> total_of t k = total_of u k)"

lemma total_of_set [simp]: "total_of (dict_set k (PInt n) t) k' = (if k' = k then n else total_of t k')"
  by (simp add: total_of_def)

lemma total_of_add [simp]: "total_of (add_to k n t) k' = (if k' = k then total_of t k + n else total_of t k')"
  by (simp add: total_of_def add_to_def)

lemma same_totals_set: "same_totals t u \<Longrightarrow> same_totals (dict_set k (PInt n) t) (dict_set k (PInt n) u)"
  by (simp add: same_totals_def)

lemma same_totals_add: "same_totals t u \<Longrightarrow> same_totals (add_to k n t) (add_to k n u)"
  by (auto simp: same_totals_def)

lemma numbers_set: "numbers_only t \<Longrightarrow> 0 \<le> n \<Longrightarrow> numbers_only (dict_set k (PInt n) t)"
  by (simp add: numbers_only_def)

lemma total_nonneg: "numbers_only t \<Longrightarrow> 0 \<le> total_of t k"
  by (fastforce simp: numbers_only_def total_of_def getd_def split: option.splits)

lemma numbers_add: "numbers_only t \<Longrightarrow> 0 \<le> n \<Longrightarrow> numbers_only (add_to k n t)"
  using total_nonneg [of t k] by (simp add: add_to_def numbers_set total_of_def)

lemma numbers_pop: "numbers_only t \<Longrightarrow> numbers_only (dict_pop k t)"
  by (simp add: numbers_only_def)

lemma bump_total_numbers: "numbers_only t \<Longrightarrow> bump_total k n t = Inr (add_to k n t)"
proof -
  assume t: "numbers_only t"
  show ?thesis
  proof (cases "map_of t k")
    case (Some v)
    then obtain m where "v = PInt m" "0 \<le> m" using t by (auto simp: numbers_only_def)
    then show ?thesis using Some
      by (simp add: bump_total_def count_or_zero_def normalize_non_negative_int_def count_or_none_def add_to_def getd_def)
  qed (simp add: bump_total_def count_or_zero_def normalize_non_negative_int_def add_to_def getd_def)
qed

lemma plain_int: "json_plain v \<Longrightarrow> \<exists>n. normalize_non_negative_int v = Inr n \<and> (\<forall>m. n = Some m \<longrightarrow> 0 \<le> m)"
  by (cases v) (auto simp: normalize_non_negative_int_def count_or_none_def split: option.split)

lemma plain_get: "json_plain (PDict d) \<Longrightarrow> json_plain (get d k)"
  by (auto simp: getd_def list_all_iff split: option.splits dest: map_of_SomeD)

lemma add_counts_same:
  assumes "json_plain (PDict s)"
    and "\<forall>k \<in> fst ` set ps. normalize_non_negative_int (get s k) = normalize_non_negative_int (get s' k)"
    and "same_totals t t'" "numbers_only t" "numbers_only t'"
  shows "\<exists>u u'. add_counts ps s t = (u, Inr ()) \<and> add_counts ps s' t' = (u', Inr ()) \<and> same_totals u u' \<and> numbers_only u \<and> numbers_only u'"
  using assms(2-)
proof (induction ps arbitrary: t t')
  case (Cons p ps)
  obtain k a where p: "p = (k, a)" by (cases p)
  obtain n where n: "normalize_non_negative_int (get s k) = Inr n" "\<forall>m. n = Some m \<longrightarrow> 0 \<le> m"
    using plain_int [OF plain_get [OF assms(1), of k]] by blast
  define m where "m = (case n of None \<Rightarrow> 0 | Some m \<Rightarrow> m)"
  have m: "0 \<le> m" using n(2) by (simp add: m_def split: option.split)
  have "normalize_non_negative_int (get s k) = normalize_non_negative_int (get s' k)" using Cons.prems(1) p by simp
  then have "normalize_non_negative_int (get s' k) = Inr n" using n(1) by (rule trans [OF sym])
  then have c: "count_or_zero (get s k) = Inr m" "count_or_zero (get s' k) = Inr m"
    using n(1) by (simp_all add: count_or_zero_def m_def)
  have "\<exists>u u'. add_counts ps s (add_to a m t) = (u, Inr ()) \<and> add_counts ps s' (add_to a m t') = (u', Inr ())
      \<and> same_totals u u' \<and> numbers_only u \<and> numbers_only u'"
    using Cons.prems m by (intro Cons.IH) (simp_all add: numbers_add same_totals_add)
  then show ?case by (simp add: p c)
qed simp

lemma count_request_same:
  assumes "json_plain (PDict s)"
    and "\<forall>k \<in> set (''request_index'' # map fst SUMMARY_COUNTS). normalize_non_negative_int (get s k) = normalize_non_negative_int (get s' k)"
    and "same_totals t t'" "numbers_only t" "numbers_only t'"
  shows "\<exists>u u'. count_request s t = (u, Inr ()) \<and> count_request s' t' = (u', Inr ()) \<and> same_totals u u' \<and> numbers_only u \<and> numbers_only u'"
proof -
  obtain n where n: "normalize_non_negative_int (get s ''request_index'') = Inr n" "\<forall>m. n = Some m \<longrightarrow> 0 \<le> m"
    using plain_int [OF plain_get [OF assms(1)]] by blast
  then have n': "normalize_non_negative_int (get s' ''request_index'') = Inr n" using assms(2) by simp
  have "\<exists>u u'. add_counts SUMMARY_COUNTS s (add_to ''request_count'' 1 t) = (u, Inr ())
      \<and> add_counts SUMMARY_COUNTS s' (add_to ''request_count'' 1 t') = (u', Inr ()) \<and> same_totals u u' \<and> numbers_only u \<and> numbers_only u'"
    using assms by (intro add_counts_same) (simp_all add: numbers_add same_totals_add)
  then obtain u u' where u: "add_counts SUMMARY_COUNTS s (add_to ''request_count'' 1 t) = (u, Inr ())"
      "add_counts SUMMARY_COUNTS s' (add_to ''request_count'' 1 t') = (u', Inr ())" "same_totals u u'" "numbers_only u" "numbers_only u'" by blast
  show ?thesis
  proof (cases n)
    case (Some i)
    then show ?thesis using n n' u by (simp add: count_request_def numbers_set same_totals_set)
  qed (use n n' u in \<open>simp add: count_request_def\<close>)
qed

lemma zero_bumps: "numbers_only t \<Longrightarrow> \<exists>u. rfold (\<lambda>k. bump_total k 0) ks t = Inr u \<and> numbers_only u \<and> (\<forall>k. total_of u k = total_of t k)"
proof (induction ks arbitrary: t)
  case (Cons k ks)
  show ?case using Cons.IH [of "add_to k 0 t"] Cons.prems by (auto simp: bump_total_numbers numbers_add split: if_splits)
qed simp

lemma bumps_same:
  assumes "same_totals t t'" "numbers_only t" "numbers_only t'" "\<forall>(k, n) \<in> set u. 0 \<le> n"
  shows "\<exists>v v'. rfold (\<lambda>(k, n). bump_total (f k) n) u t = Inr v \<and> rfold (\<lambda>(k, n). bump_total (f k) n) u t' = Inr v'
    \<and> same_totals v v' \<and> numbers_only v \<and> numbers_only v'"
  using assms
proof (induction u arbitrary: t t')
  case (Cons x u)
  obtain k n where x: "x = (k, n)" by (cases x)
  have "\<exists>v v'. rfold (\<lambda>(k, n). bump_total (f k) n) u (add_to (f k) n t) = Inr v \<and> rfold (\<lambda>(k, n). bump_total (f k) n) u (add_to (f k) n t') = Inr v'
    \<and> same_totals v v' \<and> numbers_only v \<and> numbers_only v'"
    using Cons.prems x by (intro Cons.IH) (auto simp: numbers_add same_totals_add)
  then show ?case using Cons.prems by (simp add: x bump_total_numbers)
qed simp

section \<open>Numbers that were read are read again\<close>

lemma int_dict_get: "get (int_dict u) k = (case map_of u k of None \<Rightarrow> PNone | Some n \<Rightarrow> PInt n)"
  by (induction u) (auto simp: int_dict_def)

lemma number_fields_keys: "number_fields ks d = Inr u \<Longrightarrow> fst ` set u \<subseteq> set ks \<and> (\<forall>(k, n) \<in> set u. 0 \<le> n)"
proof (induction ks arbitrary: u)
  case (Cons k ks)
  then show ?case
    by (fastforce simp: rbind_eq_Inr normalize_non_negative_int_def count_or_none_def split: option.splits if_splits sum.splits py_error.splits)
qed simp

lemma number_fields_distinct: "number_fields ks d = Inr u \<Longrightarrow> distinct ks \<Longrightarrow> distinct (map fst u)"
proof (induction ks arbitrary: u)
  case (Cons k ks)
  then show ?case using number_fields_keys [of ks d] by (fastforce simp: rbind_eq_Inr split: option.splits)
qed simp

lemma number_fields_again:
  "number_fields ks d = Inr u \<Longrightarrow> distinct ks \<Longrightarrow> \<forall>k \<in> set ks. get d' k = get (int_dict u) k \<Longrightarrow> number_fields ks d' = Inr u"
proof (induction ks arbitrary: u)
  case (Cons k ks)
  obtain n w where n: "normalize_non_negative_int (get d k) = Inr n" and w: "number_fields ks d = Inr w"
    and u: "u = (case n of None \<Rightarrow> w | Some m \<Rightarrow> (k, m) # w)" using Cons.prems(1) by (auto simp: rbind_eq_Inr)
  have k: "map_of w k = None" using number_fields_keys [OF w] Cons.prems(2) by (auto simp: map_of_eq_None_iff)
  have pos: "\<forall>m. n = Some m \<longrightarrow> 0 \<le> m"
    using n by (auto simp: normalize_non_negative_int_def count_or_none_def split: if_splits sum.splits py_error.splits)
  have "\<forall>k' \<in> set ks. get d' k' = get (int_dict w) k'"
    using Cons.prems(2,3) u by (auto simp: int_dict_get split: option.splits)
  then have "number_fields ks d' = Inr w" using Cons w by simp
  moreover have "get d' k = (case n of None \<Rightarrow> PNone | Some m \<Rightarrow> PInt m)"
    using Cons.prems(3) u k by (auto simp: int_dict_get split: option.splits)
  then have "normalize_non_negative_int (get d' k) = Inr n"
    using pos by (cases n) (auto simp: normalize_non_negative_int_def count_or_none_def)
  ultimately show ?case using u by simp
qed simp

lemma sanitize_again:
  assumes "sanitize_provider_usage v = Inr u" and "\<forall>k. get d k = get (int_dict u) k"
  shows "sanitize_provider_usage (PDict d) = Inr u"
proof (cases v)
  case (PDict e)
  then show ?thesis using assms number_fields_again [of USAGE_FIELDS e u d] by (simp add: sanitize_provider_usage_def USAGE_FIELDS_def)
next
  case PNone
  then show ?thesis using assms by (simp add: sanitize_provider_usage_def USAGE_FIELDS_def normalize_non_negative_int_def int_dict_def)
qed (use assms in \<open>simp_all add: sanitize_provider_usage_def USAGE_FIELDS_def normalize_non_negative_int_def int_dict_def\<close>)

lemma sanitize_nonneg: "sanitize_provider_usage v = Inr u \<Longrightarrow> \<forall>(k, n) \<in> set u. 0 \<le> n"
  using number_fields_keys [of USAGE_FIELDS] by (cases v) (auto simp: sanitize_provider_usage_def)

lemma count_completion_same:
  assumes u: "sanitize_provider_usage v = Inr u" and st: "same_totals t t'" and t: "numbers_only t" "numbers_only t'"
  shows "\<exists>w w'. count_completion u t = Inr w \<and> count_completion u t' = Inr w' \<and> same_totals w w' \<and> numbers_only w \<and> numbers_only w'"
proof -
  let ?a = "add_to ''completed_request_count'' 1 t" and ?a' = "add_to ''completed_request_count'' 1 t'"
  have a: "same_totals ?a ?a'" "numbers_only ?a" "numbers_only ?a'" using st t by (simp_all add: numbers_add same_totals_add)
  let ?b = "add_to ''usage_request_count'' 1 ?a" and ?b' = "add_to ''usage_request_count'' 1 ?a'"
  have b: "same_totals ?b ?b'" "numbers_only ?b" "numbers_only ?b'" using a by (simp_all add: numbers_add same_totals_add)
  have again: "sanitize_provider_usage (PDict (int_dict u)) = Inr u" by (rule sanitize_again [OF u]) simp
  have nonneg: "\<forall>(k, n) \<in> set u. 0 \<le> n" by (rule sanitize_nonneg [OF u])
  show ?thesis using bumps_same [OF b nonneg, of "\<lambda>k. ''actual_'' @ k"] a
    by (auto simp: count_completion_def bump_total_numbers t add_provider_usage_totals_def again)
qed

section \<open>From the agent to the node\<close>

text \<open>What a caller of the agent does: it announces a request, or reports its result.\<close>

datatype request_step = Asked pydict | Answered pydict pyval

definition run_request :: "notice_env \<times> request_step \<Rightarrow> tracker \<times> pydict list \<Rightarrow> tracker \<times> pydict list" where
  "run_request x st = (case snd x of
      Asked p \<Rightarrow> (let (tk, sent, r) = emit_provider_request_summary (fst x) p (fst st) in (tk, snd st @ sent))
    | Answered p result \<Rightarrow> (let (tk, sent, r) = emit_provider_request_completed (fst x) (PDict p) result (fst st) in (tk, snd st @ sent)))"

definition run_requests :: "(notice_env \<times> request_step) list \<Rightarrow> tracker \<times> pydict list" where
  "run_requests xs = fold run_request xs (new_tracker, [])"

definition record_notices :: "pydict list \<Rightarrow> pydict \<Rightarrow> (rt_error, pydict) res" where
  "record_notices sent p = rfold (\<lambda>n p. append_runtime_event p (PDict n)) sent p"

text \<open>The events are listened to, a request holds no fractions, and no number has more than the 4300 digits Python prints.\<close>

definition printable :: "int \<Rightarrow> bool" where
  "printable n = json_plain (PInt n)"

definition plain_step :: "notice_env \<times> request_step \<Rightarrow> bool" where
  "plain_step x \<longleftrightarrow> no_listener (fst x) \<and> (case snd x of Asked p \<Rightarrow> json_plain (PDict p)
    | Answered p result \<Rightarrow>
        (case normalize_non_negative_int (get p ''request_index'') of Inr (Some i) \<Rightarrow> printable i | _ \<Rightarrow> True)
        \<and> (case extract_provider_usage result of Inr u \<Rightarrow> list_all (\<lambda>(k, n). printable n) u | _ \<Rightarrow> True))"

lemma int_sorted: "normalize_non_negative_int (json_sorted v) = normalize_non_negative_int v"
  by (cases v) (simp_all add: normalize_non_negative_int_def)

lemma text_sorted: "get d k = PStr s \<Longrightarrow> json_sorted (get d k) = PStr s"
  by simp

lemma strip_framed: "\<not> is_space c \<Longrightarrow> \<not> is_space e \<Longrightarrow> py_strip (c # s @ [e]) = c # s @ [e]"
  by (simp add: py_strip_def py_lstrip_def py_rstrip_def)

lemma sorted_dumps_strip: "py_strip (sorted_dumps d) = sorted_dumps d" "sorted_dumps d \<noteq> []"
  by (simp_all add: sorted_dumps_def json_dumps_def strip_framed is_space_def char_code_def)

lemma sorted_dumps_loads: "json_plain (PDict d) \<Longrightarrow> json_loads (sorted_dumps d) = Some (json_sorted (PDict d))"
  using json_dumps_loads json_sorted_plain unfolding sorted_dumps_def by blast

text \<open>A notice as the node records it.\<close>

lemma notice_recorded:
  assumes "no_listener E" and "stage = PROVIDER_REQUEST_SUMMARY_STAGE \<or> stage = PROVIDER_REQUEST_COMPLETED_STAGE"
  shows "\<exists>notice n. emit_provider_runtime_notice E (sorted_dumps d) stage = Inr [notice] \<and> normalize_runtime_event (PDict notice) = Inr n
    \<and> get n ''type'' = PStr ''runtime_notice'' \<and> get n ''message'' = PStr (sorted_dumps d) \<and> text_of (get n ''stage'') = stage"
proof -
  have s: "py_strip stage = stage" "stage \<noteq> []" using assms(2)
    by (auto simp: PROVIDER_REQUEST_SUMMARY_STAGE_def PROVIDER_REQUEST_COMPLETED_STAGE_def strip_eval)
  have c: "py_lower (py_strip ''runtime_notice'') = ''runtime_notice''" "text_default (PStr ''provider_runtime'') ''runtime'' = ''provider_runtime''"
    by (simp_all add: text_default_def strip_eval py_lower_def lower_char_def)
  define notice where "notice = [(''type'', PStr ''runtime_notice''), (''message'', PStr (sorted_dumps d)), (''source'', PStr ''provider_runtime''),
      (''event_time'', PStr (no_time E)), (''monotonic_ns'', PInt (no_ns E)), (''stage'', PStr stage)]
    @ (if py_strip (no_provider E) = [] then [] else [(''provider'', PStr (py_strip (no_provider E)))])"
  have e: "emit_provider_runtime_notice E (sorted_dumps d) stage = Inr [notice]"
    using assms(1) s by (simp add: emit_provider_runtime_notice_def runtime_notice_payload_def sorted_dumps_strip c notice_def)
  have g: "get notice ''type'' = PStr ''runtime_notice''" "get notice ''message'' = PStr (sorted_dumps d)" "get notice ''stage'' = PStr stage"
      "get notice ''monotonic_ns'' = PInt (no_ns E)"
    by (simp_all add: notice_def)
  obtain stamps where st: "event_timestamps notice = Inr stamps"
    by (simp add: event_timestamps_def normalize_non_negative_int_def count_or_none_def g)
  have "normalize_runtime_event (PDict notice) = normalize_notice notice" by (simp add: normalize_runtime_event_def g c)
  then show ?thesis using e s by (simp add: normalize_notice_def st g sorted_dumps_strip text_entry_def)
qed

lemma map_of_map_key: "map_of (map (\<lambda>(k, v). (k, f k v)) d) k = map_option (f k) (map_of d k)"
  by (induction d) auto

lemma sanitized_int: "k \<in> set SUMMARY_FIELDS \<Longrightarrow> normalize_non_negative_int (get (sanitize_provider_request_summary s) k) = normalize_non_negative_int (get s k)"
  by (simp only: sanitize_provider_request_summary_def getd_def map_of_project map_of_map_key if_True)
    (simp add: normalize_non_negative_int_def split: option.split pyval.split)

text \<open>A request whose index can be read.\<close>

definition readable :: "pyval \<Rightarrow> bool" where
  "readable s \<longleftrightarrow> (\<exists>d i. s = PDict d \<and> normalize_non_negative_int (get d ''request_index'') = Inr i)"

lemma completed_index [simp]: "get (completed_summary u d) ''request_index'' = get d ''request_index''"
  by (simp add: completed_summary_def Let_def)

lemma mark_readable: "\<forall>s \<in> set ss. readable s \<Longrightarrow> \<exists>r. mark_completed i u ss = Inr r \<and> (\<forall>s \<in> set (fst r). readable s)"
proof (induction ss)
  case (Cons s ss)
  obtain d j where s: "s = PDict d" "normalize_non_negative_int (get d ''request_index'') = Inr j"
    using Cons.prems by (auto simp: readable_def)
  obtain r where r: "mark_completed i u ss = Inr r" "\<forall>s \<in> set (fst r). readable s" using Cons by auto
  have "readable (PDict (completed_summary u d))" "readable s" using s by (simp_all add: readable_def)
  then show ?case using Cons.prems r s by (auto simp: split_beta)
qed simp

text \<open>The agent and the node agree.\<close>

definition linked :: "tracker \<Rightarrow> pydict \<Rightarrow> bool" where
  "linked tk p \<longleftrightarrow> same_totals (tk_totals tk) (dict_items (get p ''provider_request_totals''))
     \<and> numbers_only (tk_totals tk) \<and> numbers_only (dict_items (get p ''provider_request_totals''))
     \<and> (\<forall>s \<in> set (tk_summaries tk). readable s) \<and> (\<forall>s \<in> set (list_items (get p ''provider_request_summaries'')). readable s)"

lemma no_totals_zero: "numbers_only no_totals" "total_of no_totals k = 0"
  by (simp_all add: numbers_only_def no_totals_def total_of_def)

lemma upsert_notice: "get n ''type'' = PStr ''runtime_notice'' \<Longrightarrow> upsert_runtime_tool_call p n = Inr p"
  by (simp add: upsert_runtime_tool_call_def strip_eval)

lemma notice_steps:
  assumes "get n ''type'' = PStr ''runtime_notice''" and "get n ''message'' = PStr (sorted_dumps d)" and "json_plain (PDict d)"
  shows "is_notice stage n \<longleftrightarrow> text_of (get n ''stage'') = stage"
    and "parse_provider_request_payload (get n ''message'') = Some (dict_items (json_sorted (PDict d)))"
proof -
  have "text_of (get n ''type'') = ''runtime_notice''" using assms(1) by (simp add: strip_eval)
  then show "is_notice stage n \<longleftrightarrow> text_of (get n ''stage'') = stage" by (simp add: is_notice_def)
  show "parse_provider_request_payload (get n ''message'') = Some (dict_items (json_sorted (PDict d)))"
    using sorted_dumps_loads [OF assms(3)] by (simp add: assms(2) parse_provider_request_payload_def loads_object_def sorted_dumps_strip)
qed

definition with_event :: "pydict \<Rightarrow> pydict \<Rightarrow> pydict" where
  "with_event n p = dict_set ''runtime_events'' (PList (last_n MAX_RUNTIME_EVENTS (list_items (get p ''runtime_events'') @ [PDict n])))
     (dict_set ''last_runtime_event'' (PDict n) p)"

lemma append_notice:
  assumes "normalize_runtime_event e = Inr n" and "get n ''type'' = PStr ''runtime_notice''"
  shows "append_runtime_event p e = rbind (append_provider_request_summary (with_event n p) n) (\<lambda>q. append_provider_request_completion q n)"
  using assms by (simp add: append_runtime_event_def with_event_def upsert_notice)

lemma linked_with_event [simp]: "linked tk (with_event n p) \<longleftrightarrow> linked tk p"
  by (simp add: linked_def with_event_def)

lemma asked_linked:
  assumes l: "linked tk p" and d: "json_plain (PDict d)" and E: "no_listener E"
  shows "\<exists>tk' notice q. emit_provider_request_summary E d tk = (tk', [notice], Inr ())
    \<and> append_runtime_event p (PDict notice) = Inr q \<and> linked tk' q"
proof -
  obtain notice n where e: "emit_provider_runtime_notice E (sorted_dumps d) PROVIDER_REQUEST_SUMMARY_STAGE = Inr [notice]"
      and n: "normalize_runtime_event (PDict notice) = Inr n" "get n ''type'' = PStr ''runtime_notice''"
        "get n ''message'' = PStr (sorted_dumps d)" "text_of (get n ''stage'') = PROVIDER_REQUEST_SUMMARY_STAGE"
    using notice_recorded [OF E] by metis
  let ?p = "with_event n p" and ?s = "sanitize_provider_request_summary (dict_items (json_sorted (PDict d)))"
  let ?T = "case get ?p ''provider_request_totals'' of PDict d \<Rightarrow> d | _ \<Rightarrow> no_totals"
  have lp: "linked tk ?p" using l by simp
  then have T: "numbers_only ?T" "same_totals (tk_totals tk) ?T"
    by (cases "get ?p ''provider_request_totals''"; simp add: linked_def same_totals_def no_totals_zero; simp add: total_of_def)+
  have same: "normalize_non_negative_int (get d k) = normalize_non_negative_int (get ?s k)" if "k \<in> set SUMMARY_FIELDS" for k
    unfolding sanitized_int [OF that] get_sorted [OF d] by (simp add: getd_def int_sorted split: option.split)
  obtain T0 where T0: "rfold (\<lambda>k. bump_total k 0) TOTAL_COUNTS ?T = Inr T0" "numbers_only T0" "\<forall>k. total_of T0 k = total_of ?T k"
    using zero_bumps [OF T(1)] by blast
  have "\<exists>u u'. count_request d (tk_totals tk) = (u, Inr ()) \<and> count_request ?s T0 = (u', Inr ()) \<and> same_totals u u' \<and> numbers_only u \<and> numbers_only u'"
  proof (rule count_request_same [OF d])
    show "\<forall>k \<in> set (''request_index'' # map fst SUMMARY_COUNTS). normalize_non_negative_int (get d k) = normalize_non_negative_int (get ?s k)"
      by (intro ballI same) (auto simp: SUMMARY_COUNTS_def SUMMARY_FIELDS_def)
    show "same_totals (tk_totals tk) T0" using T(2) T0(3) by (simp add: same_totals_def)
    show "numbers_only (tk_totals tk)" using lp by (simp only: linked_def)
  qed (rule T0(2))
  then obtain u u' where u: "count_request d (tk_totals tk) = (u, Inr ())" "count_request ?s T0 = (u', Inr ())" "same_totals u u'"
      "numbers_only u" "numbers_only u'" by blast
  let ?q = "dict_set ''provider_request_summaries'' (PList (last_n 8 (list_items (get ?p ''provider_request_summaries'') @ [PDict ?s])))
    (dict_set ''provider_request_totals'' (PDict u') ?p)"
  note ns = notice_steps [OF n(2,3) d]
  have "update_provider_request_totals ?p ?s = Inr (dict_set ''provider_request_totals'' (PDict u') ?p)"
    by (simp only: update_provider_request_totals_def Let_def T0(1) u(2) rbind_Inr prod.case)
  then have "append_provider_request_summary ?p n = Inr ?q"
    by (simp add: append_provider_request_summary_def ns(1) n(4) ns(2) MAX_PROVIDER_REQUEST_SUMMARIES_def Let_def del: json_sorted.simps n(3))
  moreover have "append_provider_request_completion ?q n = Inr ?q"
    using n(4) by (simp add: append_provider_request_completion_def notice_steps(1) [OF n(2,3) d] PROVIDER_REQUEST_SUMMARY_STAGE_def PROVIDER_REQUEST_COMPLETED_STAGE_def)
  ultimately have a: "append_runtime_event p (PDict notice) = Inr ?q" by (simp add: append_notice [OF n(1,2)])
  obtain i where i: "normalize_non_negative_int (get d ''request_index'') = Inr i" using plain_int [OF plain_get [OF d]] by blast
  have "readable (PDict d)" "readable (PDict ?s)"
    using i same [of "''request_index''"] by (auto simp: readable_def SUMMARY_FIELDS_def)
  then have "linked \<lparr>tk_summaries = tk_summaries tk @ [PDict d], tk_totals = u\<rparr> ?q"
    using lp u set_last_n [of 8 "list_items (get ?p ''provider_request_summaries'') @ [PDict ?s]"] by (auto simp: linked_def)
  then show ?thesis using a e u by (auto simp: emit_provider_request_summary_def record_summary_def)
qed

lemma int_plain: "normalize_non_negative_int (PInt i) = Inr (Some (max 0 i))"
  by (simp add: normalize_non_negative_int_def count_or_none_def)

lemma index_nonneg: "normalize_non_negative_int v = Inr (Some i) \<Longrightarrow> 0 \<le> i"
  by (auto simp: normalize_non_negative_int_def count_or_none_def split: if_splits sum.splits py_error.splits)

lemma printable_zero: "printable 0"
  by (simp add: printable_def nat_str_0)

lemma number_fields_printable:
  assumes "list_all (\<lambda>(k, n). printable n) u0"
  shows "number_fields ks (int_dict u0) = Inr u \<Longrightarrow> list_all (\<lambda>(k, n). printable n) u"
proof (induction ks arbitrary: u)
  case (Cons k ks)
  have "printable m" if "normalize_non_negative_int (get (int_dict u0) k) = Inr (Some m)" for m
  proof (cases "map_of u0 k")
    case (Some n)
    then have "printable n" using assms by (auto simp: list_all_iff dest: map_of_SomeD)
    then show ?thesis using that Some printable_zero by (auto simp: int_dict_get int_plain max_def split: if_splits)
  qed (use that in \<open>simp add: int_dict_get normalize_non_negative_int_def\<close>)
  then show ?case using Cons by (fastforce simp: rbind_eq_Inr split: option.splits)
qed simp

lemma int_dict_plain: "distinct (map fst u) \<Longrightarrow> list_all (\<lambda>(k, n). printable n) u \<Longrightarrow> json_plain (PDict (int_dict u))"
  by (induction u) (auto simp: int_dict_def printable_def image_def)

lemma sorted_int_dict: "distinct (map fst u) \<Longrightarrow> get (dict_items (json_sorted (PDict (int_dict u)))) k = get (int_dict u) k"
proof -
  assume "distinct (map fst u)"
  then have "distinct (map fst (map (\<lambda>(k, v). (k, json_sorted v)) (int_dict u)))" by (simp add: int_dict_def comp_def split_beta)
  from map_of_sorted [OF this] show ?thesis
    unfolding json_sorted.simps dict_items.simps getd_def by (simp only: map_of_map_snd) (simp add: int_dict_def map_of_map_snd split: option.split)
qed

lemma sanitize_int_dict:
  assumes "sanitize_provider_usage v = Inr u"
  shows "sanitize_provider_usage (if u = [] then PNone else PDict (int_dict u)) = Inr u"
    and "sanitize_provider_usage (if u = [] then PNone else json_sorted (PDict (int_dict u))) = Inr u"
proof -
  have d: "distinct (map fst u)"
    using assms number_fields_distinct [of USAGE_FIELDS] by (cases v) (auto simp: sanitize_provider_usage_def USAGE_FIELDS_def)
  show "sanitize_provider_usage (if u = [] then PNone else PDict (int_dict u)) = Inr u"
    using sanitize_again [OF assms] by (simp add: sanitize_provider_usage_def)
  have "json_sorted (PDict (int_dict u)) = PDict (dict_items (json_sorted (PDict (int_dict u))))" by simp
  then show "sanitize_provider_usage (if u = [] then PNone else json_sorted (PDict (int_dict u))) = Inr u"
    using sanitize_again [OF assms, of "dict_items (json_sorted (PDict (int_dict u)))"] sorted_int_dict [OF d]
    by (simp add: sanitize_provider_usage_def)
qed

lemma completion_linked:
  assumes l: "linked tk p" and i: "0 \<le> i" and u: "sanitize_provider_usage v = Inr u"
    and n: "get n ''type'' = PStr ''runtime_notice''" "get n ''message'' = PStr (sorted_dumps c)"
      "text_of (get n ''stage'') = PROVIDER_REQUEST_COMPLETED_STAGE" "json_plain (PDict c)"
    and c: "get c ''request_index'' = PInt i" "get c ''usage'' = (if u = [] then PNone else PDict (int_dict u))"
    and tk': "tk' = \<lparr>tk_summaries = ss, tk_totals = t\<rparr>" "\<forall>s \<in> set ss. readable s" "count_completion u (tk_totals tk) = Inr t0" "numbers_only t" "same_totals t t0"
  shows "\<exists>q. append_provider_request_completion p n = Inr q \<and> linked tk' q"
proof -
  note ns = notice_steps [OF n(1,2,4)]
  let ?c = "dict_items (json_sorted (PDict c))" and ?ss = "list_items (get p ''provider_request_summaries'')"
  have gi: "normalize_non_negative_int (get ?c ''request_index'') = Inr (Some i)"
    using c(1) i unfolding get_sorted [OF n(4)] by (simp add: getd_def int_plain split: option.splits)
  have "get ?c ''usage'' = (if u = [] then PNone else json_sorted (PDict (int_dict u)))"
    using c(2) unfolding get_sorted [OF n(4)] by (auto simp: getd_def split: option.splits if_splits)
  then have gu: "sanitize_provider_usage (get ?c ''usage'') = Inr u" using sanitize_int_dict(2) [OF u] by simp
  obtain q where q: "mark_request i u p = Inr q" "\<forall>s \<in> set (list_items (get q ''provider_request_summaries'')). readable s"
    "get q ''provider_request_totals'' = get p ''provider_request_totals''"
  proof (cases "get p ''provider_request_summaries''")
    case (PList xs)
    obtain r where "mark_completed i u (rev xs) = Inr r" "\<forall>s \<in> set (fst r). readable s"
      using mark_readable [of "rev xs" i u] l PList by (auto simp: linked_def)
    then show ?thesis using PList that [of "dict_set ''provider_request_summaries'' (PList (rev (fst r))) p"] by (simp add: mark_request_def)
  qed (use that [of p] in \<open>simp_all add: mark_request_def\<close>)
  obtain w w' where w: "count_completion u (tk_totals tk) = Inr w" "count_completion u (dict_items (get p ''provider_request_totals'')) = Inr w'"
      "same_totals w w'" "numbers_only w'"
    using count_completion_same [OF u, of "tk_totals tk" "dict_items (get p ''provider_request_totals'')"] l by (auto simp: linked_def)
  let ?q = "dict_set ''provider_request_totals'' (PDict (dict_set ''last_completed_request_index'' (PInt i) w')) q"
  have "append_provider_request_completion p n = Inr ?q"
    by (simp add: append_provider_request_completion_def ns(1) ns(2) n(3) gi gu q w del: json_sorted.simps n(2))
  moreover have "same_totals t (dict_set ''last_completed_request_index'' (PInt i) w')"
    using w(1,3) tk'(3,5) by (simp add: same_totals_def)
  then have "linked tk' ?q" using tk' q w i by (simp add: linked_def numbers_set)
  ultimately show ?thesis by blast
qed


lemma record_completion_some:
  assumes l: "linked tk p" and i: "normalize_non_negative_int v = Inr (Some j)" and u: "sanitize_provider_usage w = Inr u"
  obtains ss t t0 api where "record_completion v w tk = (\<lparr>tk_summaries = ss, tk_totals = t\<rparr>,
        Inr (Some ([(''request_index'', PInt j)] @ (if u = [] then [] else [(''usage'', PDict (int_dict u))]) @ text_entry ''request_api'' api)))"
    and "\<forall>s \<in> set ss. readable s" and "count_completion u (tk_totals tk) = Inr t0" and "numbers_only t" and "same_totals t t0"
proof -
  obtain ss m where m: "mark_completed j u (rev (tk_summaries tk)) = Inr (ss, m)" "\<forall>s \<in> set ss. readable s"
    using mark_readable [of "rev (tk_summaries tk)" j u] l by (auto simp: linked_def)
  obtain t0 where t0: "count_completion u (tk_totals tk) = Inr t0" "numbers_only t0"
    using count_completion_same [OF u, of "tk_totals tk" "tk_totals tk"] l by (auto simp: linked_def same_totals_def)
  let ?t = "case map_of u ''input_tokens'' of None \<Rightarrow> dict_pop ''last_actual_input_tokens'' t0
    | Some n \<Rightarrow> dict_set ''last_actual_input_tokens'' (PInt n) (dict_pop ''last_actual_input_tokens'' t0)"
  have "numbers_only ?t" "same_totals ?t t0"
    using t0(2) sanitize_nonneg [OF u] numbers_pop [of t0]
    by (auto simp: same_totals_def total_of_def intro!: numbers_set split: option.split dest: map_of_SomeD)
  moreover have "record_completion v w tk = (\<lparr>tk_summaries = rev ss, tk_totals = ?t\<rparr>,
      Inr (Some ([(''request_index'', PInt j)] @ (if u = [] then [] else [(''usage'', PDict (int_dict u))])
        @ text_entry ''request_api'' (case m of None \<Rightarrow> PNone | Some d \<Rightarrow> get d ''request_api''))))"
    using i u m(1) t0(1) by (simp add: record_completion_def Let_def)
  ultimately show thesis using that m(2) t0(1) by auto
qed

lemma usage_printable:
  assumes "sanitize_provider_usage (PDict (int_dict u0)) = Inr u" and "list_all (\<lambda>(k, n). printable n) u0"
  shows "json_plain (PDict (int_dict u))"
  using assms number_fields_distinct [of USAGE_FIELDS] number_fields_printable [of u0 USAGE_FIELDS u]
  by (intro int_dict_plain) (auto simp: sanitize_provider_usage_def USAGE_FIELDS_def)

lemma tpm_tokens_ok: "sanitize_provider_usage v = Inr u \<Longrightarrow> \<exists>k. provider_usage_tpm_tokens v = Inr k"
  by (simp add: provider_usage_tpm_tokens_def)

text \<open>A completion the agent recorded is announced, and recorded at the node.\<close>

lemma completed_linked:
  assumes l: "linked tk p" and E: "no_listener E" and x: "extract_provider_usage result = Inr u0" "list_all (\<lambda>(k, n). printable n) u0"
    and i: "normalize_non_negative_int (get s ''request_index'') = Inr (Some j)" "printable j"
    and u: "sanitize_provider_usage (PDict (int_dict u0)) = Inr u"
  shows "\<exists>tk' sent r q. emit_provider_request_completed E (PDict s) result tk = (tk', sent, r) \<and> record_notices sent p = Inr q \<and> linked tk' q"
proof -
  obtain ss t t0 api where rc: "record_completion (get s ''request_index'') (PDict (int_dict u0)) tk = (\<lparr>tk_summaries = ss, tk_totals = t\<rparr>,
        Inr (Some ([(''request_index'', PInt j)] @ (if u = [] then [] else [(''usage'', PDict (int_dict u))]) @ text_entry ''request_api'' api)))"
    and tk': "\<forall>s \<in> set ss. readable s" "count_completion u (tk_totals tk) = Inr t0" "numbers_only t" "same_totals t t0"
    by (rule record_completion_some [OF l i(1) u])
  let ?base = "[(''request_index'', PInt j)] @ (if u = [] then [] else [(''usage'', PDict (int_dict u))]) @ text_entry ''request_api'' api"
  let ?c = "dict_set ''request_api'' (PStr (text_of (get s ''request_api''))) ?base" and ?tk = "\<lparr>tk_summaries = ss, tk_totals = t\<rparr>"
  have c: "get ?c ''request_index'' = PInt j" "get ?c ''usage'' = (if u = [] then PNone else PDict (int_dict u))"
      "get ?base ''usage'' = (if u = [] then PNone else PDict (int_dict u))"
    by (simp_all add: text_entry_def)
  have pc: "json_plain (PDict ?c)"
    using usage_printable [OF u x(2)] i(2) by (auto simp: dict_set_def text_entry_def printable_def)
  obtain notice n where e: "emit_provider_runtime_notice E (sorted_dumps ?c) PROVIDER_REQUEST_COMPLETED_STAGE = Inr [notice]"
    and n: "normalize_runtime_event (PDict notice) = Inr n" "get n ''type'' = PStr ''runtime_notice''"
      "get n ''message'' = PStr (sorted_dumps ?c)" "text_of (get n ''stage'') = PROVIDER_REQUEST_COMPLETED_STAGE"
    using notice_recorded [OF E, of PROVIDER_REQUEST_COMPLETED_STAGE ?c] by blast
  obtain k where tok: "provider_usage_tpm_tokens (get ?base ''usage'') = Inr k"
    using tpm_tokens_ok [OF sanitize_int_dict(1) [OF u]] unfolding c(3) by blast
  obtain r where out: "emit_provider_request_completed E (PDict s) result tk = (?tk, [notice], r)"
    using x(1) rc tok e by (simp add: emit_provider_request_completed_def Let_def del: append.simps)
  obtain q where q: "append_provider_request_completion (with_event n p) n = Inr q" "linked ?tk q"
    using completion_linked [OF _ index_nonneg [OF i(1)] u n(2,3,4) pc c(1,2), of tk "with_event n p" ?tk ss t t0] l tk' by auto
  have "append_provider_request_summary (with_event n p) n = Inr (with_event n p)"
    using n(4) by (simp add: append_provider_request_summary_def notice_steps(1) [OF n(2,3) pc]
        PROVIDER_REQUEST_SUMMARY_STAGE_def PROVIDER_REQUEST_COMPLETED_STAGE_def)
  then have "record_notices [notice] p = Inr q" using q(1) by (simp add: record_notices_def append_notice [OF n(1,2)])
  then show ?thesis using out q(2) by blast
qed

lemma answered_linked:
  assumes l: "linked tk p" and pl: "plain_step (E, Answered s result)"
  shows "\<exists>tk' sent r q. emit_provider_request_completed E (PDict s) result tk = (tk', sent, r) \<and> record_notices sent p = Inr q \<and> linked tk' q"
proof -
  have same: ?thesis if "emit_provider_request_completed E (PDict s) result tk = (tk, [], r)" for r
    using that l by (auto simp: record_notices_def)
  show ?thesis
  proof (cases "extract_provider_usage result")
    case (Inl e)
    then show ?thesis by (intro same) (simp add: emit_provider_request_completed_def)
  next
    case u0: (Inr u0)
    show ?thesis
    proof (cases "rbind (normalize_non_negative_int (get s ''request_index'')) (\<lambda>i. rbind (sanitize_provider_usage (PDict (int_dict u0))) (\<lambda>u. Inr (i, u)))")
      case (Inl e)
      then show ?thesis by (intro same) (simp add: emit_provider_request_completed_def u0 record_completion_def)
    next
      case iu: (Inr iu)
      then obtain i u where ii: "iu = (i, u)" and i: "normalize_non_negative_int (get s ''request_index'') = Inr i"
        and u: "sanitize_provider_usage (PDict (int_dict u0)) = Inr u" by (auto simp: rbind_eq_Inr)
      show ?thesis
      proof (cases i)
        case None
        then show ?thesis using iu ii by (intro same) (simp add: emit_provider_request_completed_def u0 record_completion_def)
      next
        case (Some j)
        then show ?thesis using pl i u u0 by (intro completed_linked [OF l]) (auto simp: plain_step_def)
      qed
    qed
  qed
qed

lemma record_notices_append: "record_notices (ns @ ms) p = rbind (record_notices ns p) (record_notices ms)"
  unfolding record_notices_def by (induction ns arbitrary: p) (auto simp: rbind_def split: sum.splits)

lemma run_request_linked:
  assumes "linked (fst st) p" and "record_notices (snd st) p0 = Inr p" and "plain_step x"
  shows "\<exists>q. linked (fst (run_request x st)) q \<and> record_notices (snd (run_request x st)) p0 = Inr q"
proof -
  obtain E y where x: "x = (E, y)" by (cases x)
  show ?thesis
  proof (cases y)
    case (Asked d)
    then have "json_plain (PDict d)" "no_listener E" using assms(3) x by (simp_all add: plain_step_def del: json_plain.simps)
    then obtain tk' notice q where "emit_provider_request_summary E d (fst st) = (tk', [notice], Inr ())"
        "append_runtime_event p (PDict notice) = Inr q" "linked tk' q" using asked_linked [OF assms(1)] by blast
    then show ?thesis using assms(2) x Asked by (simp add: run_request_def record_notices_append) (simp add: record_notices_def)
  next
    case (Answered d result)
    then obtain tk' sent r q where "emit_provider_request_completed E (PDict d) result (fst st) = (tk', sent, r)"
        "record_notices sent p = Inr q" "linked tk' q" using answered_linked [OF assms(1)] assms(3) x by blast
    then show ?thesis using assms(2) x Answered by (auto simp: run_request_def record_notices_append)
  qed
qed

text \<open>C6. The agent counts its requests and the node counts the notices of them; they agree. Whatever requests an agent announces and
  completes, in whatever order and number, when a node whose totals were reset records the notices the agent sent, every one is
  accepted, and every total is the same on both sides. The totals of the node come out of the text of the notices, which the
  agent wrote as JSON.\<close>

theorem request_totals_agree:
  assumes "list_all plain_step xs" and "run_requests xs = (tk, sent)"
    and "map_of p ''provider_request_totals'' = None" and "map_of p ''provider_request_summaries'' = None"
  shows "\<exists>q. record_notices sent p = Inr q \<and> same_totals (tk_totals tk) (dict_items (get q ''provider_request_totals''))"
proof -
  have run: "\<exists>q. linked (fst (fold run_request xs st)) q \<and> record_notices (snd (fold run_request xs st)) p = Inr q"
    if "linked (fst st) p'" "record_notices (snd st) p = Inr p'" for st p'
    using assms(1) that
  proof (induction xs arbitrary: st p')
    case (Cons x xs)
    then show ?case using run_request_linked [of st p' p x] by fastforce
  qed auto
  have "linked new_tracker p" using assms(3,4)
    by (simp add: linked_def new_tracker_def getd_def no_totals_zero same_totals_def) (simp add: numbers_only_def total_of_def)
  then show ?thesis using run [of "(new_tracker, [])" p] assms(2) by (auto simp: run_requests_def record_notices_def linked_def)
qed

definition sample_requests :: "(notice_env \<times> request_step) list" where
  "sample_requests = (let E = \<lparr>no_provider = ''p'', no_listener = True, no_time = ''t'', no_ns = 5\<rparr> in
     [(E, Asked [(''request_index'', PInt 1), (''approx_input_chars'', PInt 12)]),
      (E, Answered [(''request_index'', PInt 1)] (PDict [(''usage'', PDict [(''input_tokens'', PInt 7), (''output_tokens'', PInt 2)])]))])"

theorem request_totals_agree_witness:
  "\<exists>q. record_notices (snd (run_requests sample_requests)) [] = Inr q
     \<and> same_totals (tk_totals (fst (run_requests sample_requests))) (dict_items (get q ''provider_request_totals''))
     \<and> total_of (tk_totals (fst (run_requests sample_requests))) ''actual_total_tokens'' = 9"
proof -
  have "list_all plain_step sample_requests"
    by code_simp
  moreover have "total_of (tk_totals (fst (run_requests sample_requests))) ''actual_total_tokens'' = 9"
    by code_simp
  ultimately show ?thesis using request_totals_agree [of sample_requests "fst (run_requests sample_requests)" "snd (run_requests sample_requests)" "[]"]
    by auto
qed

text \<open>A notice whose text is no object is left aside; one with an infinite index gets past the handler and the whole event is lost.\<close>

definition completed_notice :: "string \<Rightarrow> pyval" where
  "completed_notice message = PDict [(''type'', PStr ''runtime_notice''), (''stage'', PStr ''provider_request_completed''), (''message'', PStr message)]"

lemma infinite_index_raises:
  "append_runtime_event [] (completed_notice (CHR 0x7B # CHR 0x22 # ''request_index'' @ CHR 0x22 # '': Infinity}'')) = Inl (RtPy OverflowError)"
  by code_simp

lemma unreadable_notice_kept: "case append_runtime_event [] (completed_notice ''no object'') of Inl e \<Rightarrow> False | Inr q \<Rightarrow> length (list_items (get q ''runtime_events'')) = 1"
  by code_simp

end
