(* ===== verification/ToolTurns.thy ===== *)
theory ToolTurns
  imports JsonText
begin

text \<open>
  A turn of tool calls (\<open>tool/tool_call_protocol.py\<close>, \<open>tool_turn_admission.py\<close>, \<open>tool_context_compaction_admission.py\<close>,
  \<open>providers/tool_loop_guard.py\<close>, \<open>providers/tool_call_execution.py\<close>, \<open>providers/tool_call_runtime.py\<close> and the workers of
  \<open>base_agent.py\<close>): the calls a model asks for are read, some are refused, searches that repeat are blocked, the others run in
  parallel, and every call gets one answer in its place.
\<close>

section \<open>Calls and their answers\<close>

record tool_call =
  tc_name :: string
  tc_call_id :: string
  tc_arguments :: pydict
  tc_arguments_json :: string
  tc_provider :: string
  tc_raw :: pyval

record tool_call_parse_failure =
  pf_name :: string
  pf_call_id :: string
  pf_arguments_json :: string
  pf_provider :: string
  pf_error :: string
  pf_raw :: pyval

record tool_execution =
  te_func_name :: string
  te_call_id :: string
  te_cleaned_result :: string
  te_images :: "pydict list"
  te_status :: string
  te_error :: "string option"
  te_diagnostics :: "string list"

datatype tool_item = Call tool_call | Failure tool_call_parse_failure

definition execution_to_dict :: "tool_execution \<Rightarrow> pydict" where
  "execution_to_dict x = [(''func_name'', PStr (te_func_name x)), (''call_id'', PStr (te_call_id x)), (''cleaned_result'', PStr (te_cleaned_result x)),
     (''images'', PList (map PDict (te_images x))), (''status'', PStr (te_status x)),
     (''error'', case te_error x of None \<Rightarrow> PNone | Some e \<Rightarrow> PStr e), (''diagnostics'', PList (map PStr (te_diagnostics x)))]"

definition ensure_json_text :: "pyval \<Rightarrow> string" where
  "ensure_json_text v = (case v of PStr s \<Rightarrow> s | _ \<Rightarrow> json_dumps v)"

definition build_tool_call_error_execution :: "tool_call \<Rightarrow> string \<Rightarrow> string \<Rightarrow> tool_execution" where
  "build_tool_call_error_execution call status error = (let s = py_lower (py_strip status); s = (if s = [] then ''error'' else s) in
     \<lparr>te_func_name = tc_name call, te_call_id = tc_call_id call,
      te_cleaned_result = ensure_json_text (PDict [(''status'', PStr s), (''tool'', PStr (tc_name call)), (''error'', PStr (py_strip error))]),
      te_images = [], te_status = s, te_error = Some (py_strip error), te_diagnostics = []\<rparr>)"

definition build_tool_call_parse_error_execution :: "tool_call_parse_failure \<Rightarrow> tool_execution" where
  "build_tool_call_parse_error_execution f = (let name = (if pf_name f = [] then ''tool'' else pf_name f) in
     \<lparr>te_func_name = name, te_call_id = pf_call_id f,
      te_cleaned_result = ensure_json_text (PDict [(''status'', PStr ''invalid_arguments''), (''tool'', PStr name), (''call_id'', PStr (pf_call_id f)),
        (''error'', PStr (py_strip (pf_error f))), (''instruction'', PStr ''Invalid Json Object Param.'')]),
      te_images = [], te_status = ''error'', te_error = Some (py_strip (pf_error f)), te_diagnostics = []\<rparr>)"

section \<open>Reading calls\<close>

text \<open>Where the text of an exception goes into an answer, \<open>bad_json\<close> gives it; \<open>fresh\<close> is the random part of a new identifier.\<close>

record parse_env =
  pe_bad_json :: "string \<Rightarrow> string"
  pe_fresh :: string

definition parse_arguments :: "parse_env \<Rightarrow> pyval \<Rightarrow> (string, pydict) res" where
  "parse_arguments E v = (case v of PDict d \<Rightarrow> Inr d
    | PStr s \<Rightarrow> (if py_strip s = [] then Inr [] else (case json_loads (py_strip s) of None \<Rightarrow> Inl (pe_bad_json E s)
        | Some (PDict d) \<Rightarrow> Inr d | Some _ \<Rightarrow> Inl ''tool arguments JSON must decode to an object''))
    | PNone \<Rightarrow> Inr []
    | _ \<Rightarrow> Inl (''tool arguments must be object or JSON string, got '' @
        (case v of PBool _ \<Rightarrow> ''bool'' | PInt _ \<Rightarrow> ''int'' | PFloat _ \<Rightarrow> ''float'' | _ \<Rightarrow> ''list'')))"

text \<open>\<open>ch.isalnum()\<close>\<close>

definition is_word_char :: "char \<Rightarrow> bool" where
  "is_word_char c \<longleftrightarrow> (let n = char_code c in 48 \<le> n \<and> n \<le> 57 \<or> 65 \<le> n \<and> n \<le> 90 \<or> 97 \<le> n \<and> n \<le> 122
     \<or> n \<in> {170, 178, 179, 181, 185, 186, 188, 189, 190} \<or> 192 \<le> n \<and> n \<noteq> 215 \<and> n \<noteq> 247)"

definition strip_chars :: "char set \<Rightarrow> string \<Rightarrow> string" where
  "strip_chars A s = rev (dropWhile (\<lambda>c. c \<in> A) (rev (dropWhile (\<lambda>c. c \<in> A) s)))"

definition build_runtime_call_id :: "parse_env \<Rightarrow> string \<Rightarrow> string" where
  "build_runtime_call_id E provider = (let p = py_lower (py_strip (if provider = [] then ''tool'' else provider));
       safe = strip_chars {CHR ''_''} (map (\<lambda>c. if is_word_char c then c else CHR ''_'') p)
     in (if safe = [] then ''tool'' else safe) @ ''-'' @ pe_fresh E)"

definition normalize_call_id :: "parse_env \<Rightarrow> pyval \<Rightarrow> string \<Rightarrow> string" where
  "normalize_call_id E raw_call_id provider = (if text_of raw_call_id = [] then build_runtime_call_id E provider else text_of raw_call_id)"

definition arguments_text :: "pyval \<Rightarrow> string" where
  "arguments_text raw = ensure_json_text (if is_none raw then PDict [] else raw)"

text \<open>The function a call names, with its raw arguments and identifier, if it is a call of the kind.\<close>

definition openai_function :: "pyval \<Rightarrow> (string \<times> pyval \<times> pyval) option" where
  "openai_function item = (case item of PDict d \<Rightarrow> (case get d ''function'' of PDict f \<Rightarrow>
       (if text_of (get f ''name'') = [] then None else Some (text_of (get f ''name''), get f ''arguments'', get d ''id'')) | _ \<Rightarrow> None) | _ \<Rightarrow> None)"

definition responses_function :: "pyval \<Rightarrow> (string \<times> pyval \<times> pyval) option" where
  "responses_function item = (case item of PDict d \<Rightarrow> (if py_lower (text_of (get d ''type'')) \<noteq> ''function_call'' \<or> text_of (get d ''name'') = [] then None
       else Some (text_of (get d ''name''), get d ''arguments'', py_or (get d ''call_id'') (get d ''id''))) | _ \<Rightarrow> None)"

definition envelope_of :: "parse_env \<Rightarrow> string \<Rightarrow> pyval \<Rightarrow> (string \<times> pyval \<times> pyval) option \<Rightarrow> (string, tool_call option) res" where
  "envelope_of E provider item f = (case f of None \<Rightarrow> Inr None
    | Some (name, raw, ident) \<Rightarrow> rbind (parse_arguments E (PStr (arguments_text raw))) (\<lambda>arguments.
        Inr (Some \<lparr>tc_name = name, tc_call_id = normalize_call_id E ident provider, tc_arguments = arguments,
          tc_arguments_json = arguments_text raw, tc_provider = provider, tc_raw = item\<rparr>)))"

definition failure_of :: "parse_env \<Rightarrow> string \<Rightarrow> pyval \<Rightarrow> string \<Rightarrow> (string \<times> pyval \<times> pyval) option \<Rightarrow> tool_call_parse_failure option" where
  "failure_of E provider item error f = (case f of None \<Rightarrow> None
    | Some (name, raw, ident) \<Rightarrow> Some \<lparr>pf_name = name, pf_call_id = normalize_call_id E ident provider, pf_arguments_json = arguments_text raw,
        pf_provider = provider, pf_error = error, pf_raw = item\<rparr>)"

definition from_openai_tool_call :: "parse_env \<Rightarrow> string \<Rightarrow> pyval \<Rightarrow> (string, tool_call option) res" where
  "from_openai_tool_call E provider item = envelope_of E provider item (openai_function item)"

definition from_openai_tool_call_parse_failure :: "parse_env \<Rightarrow> string \<Rightarrow> string \<Rightarrow> pyval \<Rightarrow> tool_call_parse_failure option" where
  "from_openai_tool_call_parse_failure E provider error item = failure_of E provider item error (openai_function item)"

definition from_responses_function_call :: "parse_env \<Rightarrow> string \<Rightarrow> pyval \<Rightarrow> (string, tool_call option) res" where
  "from_responses_function_call E provider item = envelope_of E provider item (responses_function item)"

definition from_responses_function_call_parse_failure :: "parse_env \<Rightarrow> string \<Rightarrow> string \<Rightarrow> pyval \<Rightarrow> tool_call_parse_failure option" where
  "from_responses_function_call_parse_failure E provider error item = failure_of E provider item error (responses_function item)"

definition from_gemini_function_call :: "parse_env \<Rightarrow> string \<Rightarrow> pyval \<Rightarrow> (string, tool_call option) res" where
  "from_gemini_function_call E provider item = (case item of PDict d \<Rightarrow> (if text_of (get d ''name'') = [] then Inr None
       else rbind (parse_arguments E (get d ''args'')) (\<lambda>arguments. Inr (Some \<lparr>tc_name = text_of (get d ''name''),
         tc_call_id = normalize_call_id E (py_or (get d ''call_id'') (get d ''id'')) provider, tc_arguments = arguments,
         tc_arguments_json = arguments_text (get d ''args''), tc_provider = provider, tc_raw = item\<rparr>))) | _ \<Rightarrow> Inr None)"

definition to_openai_tool_call :: "tool_item \<Rightarrow> pydict" where
  "to_openai_tool_call item = (let (ident, name, args) = (case item of Call c \<Rightarrow> (tc_call_id c, tc_name c, tc_arguments_json c)
       | Failure f \<Rightarrow> (pf_call_id f, pf_name f, pf_arguments_json f))
     in [(''id'', PStr ident), (''type'', PStr ''function''), (''function'', PDict [(''name'', PStr name), (''arguments'', PStr args)])])"

text \<open>Each item of an answer has its own random part for a new identifier.\<close>

definition parse_openai_item :: "parse_env \<Rightarrow> string \<Rightarrow> pyval \<Rightarrow> tool_item list" where
  "parse_openai_item E provider item = (case from_openai_tool_call E provider item of
      Inl e \<Rightarrow> (case from_openai_tool_call_parse_failure E provider e item of None \<Rightarrow> [] | Some f \<Rightarrow> [Failure f])
    | Inr None \<Rightarrow> [] | Inr (Some c) \<Rightarrow> [Call c])"

definition parse_openai_tool_call_items :: "(nat \<Rightarrow> parse_env) \<Rightarrow> string \<Rightarrow> pyval \<Rightarrow> tool_item list" where
  "parse_openai_tool_call_items Es provider tool_calls =
     concat (map (\<lambda>(i, item). parse_openai_item (Es i) provider item) (enumerate 0 (list_items tool_calls)))"

section \<open>Admission\<close>

definition COMPACTION_TOOL_NAME :: string where
  "COMPACTION_TOOL_NAME = ''compact_tool_context''"

text \<open>Calls are told apart by their place in the turn.\<close>

record admission =
  ad_admitted :: "(nat \<times> tool_call) list"
  ad_rejected :: "((nat \<times> tool_call) \<times> string) list"
  ad_retry_required :: bool
  ad_continuation_safe :: bool

definition rejection_reason :: "tool_call \<Rightarrow> string" where
  "rejection_reason c = (if tc_name c = COMPACTION_TOOL_NAME then ''duplicate_compaction_call'' else ''not_offered_during_compaction'')"

definition admit_tool_turn :: "bool \<Rightarrow> (nat \<times> tool_call) list \<Rightarrow> admission" where
  "admit_tool_turn gate calls = (if \<not> gate then \<lparr>ad_admitted = calls, ad_rejected = [], ad_retry_required = False, ad_continuation_safe = True\<rparr>
     else (case filter (\<lambda>c. tc_name (snd c) = COMPACTION_TOOL_NAME) calls of
         [] \<Rightarrow> \<lparr>ad_admitted = [], ad_rejected = map (\<lambda>c. (c, ''not_offered_during_compaction'')) calls,
                ad_retry_required = calls \<noteq> [], ad_continuation_safe = False\<rparr>
       | a # _ \<Rightarrow> (let rejected = map (\<lambda>c. (c, rejection_reason (snd c))) (filter (\<lambda>c. fst c \<noteq> fst a) calls) in
           \<lparr>ad_admitted = [a], ad_rejected = rejected, ad_retry_required = False, ad_continuation_safe = rejected = []\<rparr>)))"

definition rejection_error :: "string \<Rightarrow> string" where
  "rejection_error reason = (if reason = ''duplicate_compaction_call''
     then ''Only one compact_tool_context call is allowed during a context-compaction checkpoint. '' @
       ''Wait for the admitted compact_tool_context result before making another tool request.''
     else ''This function tool was not offered during the active context-compaction checkpoint. '' @
       ''compact_tool_context is the only function tool currently available. Call it first; '' @
       ''ordinary function tools are restored after compaction succeeds.'')"

section \<open>Searches that repeat\<close>

definition LOOP_GUARDED_TOOLS :: "string list" where
  "LOOP_GUARDED_TOOLS = [''rg_list_files'', ''rg_search_text'']"

record decision =
  de_blocked :: bool
  de_reason :: string
  de_policy :: string
  de_signature :: string
  de_repeat_count :: int
  de_previous_call_id :: string

definition not_blocked :: decision where
  "not_blocked = \<lparr>de_blocked = False, de_reason = [], de_policy = ''repeated_tool_signature_guard'', de_signature = [], de_repeat_count = 0, de_previous_call_id = []\<rparr>"

record history_entry =
  he_tool :: string
  he_call_id :: string
  he_arguments :: pydict
  he_signature :: string
  he_signature_without_max_results :: string
  he_query_root_signature :: string

text \<open>The values a loop over \<open>value or []\<close> takes.\<close>

definition iterated :: "pyval \<Rightarrow> (py_error, pyval list) res" where
  "iterated v = (if \<not> truthy v then Inr [] else case v of PList xs \<Rightarrow> Inr xs | PStr s \<Rightarrow> Inr (map (\<lambda>c. PStr [c]) s)
     | PDict d \<Rightarrow> Inr (map (\<lambda>kv. PStr (fst kv)) d) | _ \<Rightarrow> Inl TypeError)"

definition slashed :: "string \<Rightarrow> string" where
  "slashed s = map (\<lambda>c. if c = CHR 0x5C then CHR ''/'' else c) s"

definition glob_texts :: "pyval list \<Rightarrow> string list" where
  "glob_texts xs = sort (remdups (map (\<lambda>v. py_strip (slashed (str_or v))) (filter (\<lambda>v. text_of v \<noteq> []) xs)))"

text \<open>\<open>rootf\<close> is \<open>os.path.normcase(os.path.abspath(p))\<close>.\<close>

definition normalize_arg :: "(string \<Rightarrow> string) \<Rightarrow> string \<times> pyval \<Rightarrow> (py_error, string \<times> pyval) res" where
  "normalize_arg rootf kv = (let (k, v) = kv in
     if k = ''include_globs'' \<or> k = ''exclude_globs'' then rbind (iterated v) (\<lambda>xs. Inr (k, PList (map PStr (glob_texts xs))))
     else if k = ''project_root'' then Inr (k, PStr (if text_of v = [] then [] else rootf (text_of v)))
     else if k = ''max_results'' then Inr (k, case py_int v of Inl e \<Rightarrow> v | Inr n \<Rightarrow> PInt n)
     else Inr (k, v))"

definition normalize_args :: "(string \<Rightarrow> string) \<Rightarrow> pydict \<Rightarrow> (py_error, pydict) res" where
  "normalize_args rootf args = rmap (normalize_arg rootf) args"

definition stable_json :: "pyval \<Rightarrow> string" where
  "stable_json v = json_write '','' '':'' (json_sorted v)"

definition history_entry_of :: "(string \<Rightarrow> string) \<Rightarrow> tool_call \<Rightarrow> (py_error, history_entry) res" where
  "history_entry_of rootf call = rbind (normalize_args rootf (tc_arguments call)) (\<lambda>args. Inr
     \<lparr>he_tool = tc_name call, he_call_id = tc_call_id call, he_arguments = args,
      he_signature = stable_json (PDict [(''tool'', PStr (tc_name call)), (''arguments'', PDict args)]),
      he_signature_without_max_results = stable_json (PDict [(''tool'', PStr (tc_name call)), (''arguments'', PDict (dict_pop ''max_results'' args))]),
      he_query_root_signature = stable_json (PDict [(''tool'', PStr (tc_name call)), (''query'', getd args ''query'' (PStr [])),
        (''project_root'', getd args ''project_root'' (PStr []))])\<rparr>)"

definition is_max_results_only_broader_repeat :: "history_entry \<Rightarrow> history_entry \<Rightarrow> bool" where
  "is_max_results_only_broader_repeat previous current \<longleftrightarrow> he_tool previous = he_tool current
     \<and> he_signature_without_max_results previous = he_signature_without_max_results current
     \<and> (case (py_int (get (he_arguments previous) ''max_results''), py_int (get (he_arguments current) ''max_results'')) of
          (Inr p, Inr c) \<Rightarrow> p \<le> c | _ \<Rightarrow> False)"

definition is_broad_glob_set :: "pyval list \<Rightarrow> bool" where
  "is_broad_glob_set globs \<longleftrightarrow> globs = [] \<or> list_all (\<lambda>g. strip_chars {CHR ''.'', CHR ''/''} (slashed (text_of g))
     \<in> {''*'', ''**'', ''**/*'', ''*.*'', ''**/*.*''}) globs"

definition is_search_glob_broader_repeat :: "history_entry \<Rightarrow> history_entry \<Rightarrow> bool" where
  "is_search_glob_broader_repeat previous current \<longleftrightarrow> he_tool previous = ''rg_search_text'' \<and> he_tool current = ''rg_search_text''
     \<and> py_eq (get (he_arguments previous) ''query'') (get (he_arguments current) ''query'')
     \<and> py_eq (getd (he_arguments previous) ''project_root'' (PStr [])) (getd (he_arguments current) ''project_root'' (PStr []))
     \<and> truthy (get (he_arguments previous) ''include_globs'')
     \<and> is_broad_glob_set (list_items (get (he_arguments current) ''include_globs''))"

definition blocked :: "string \<Rightarrow> string \<Rightarrow> history_entry \<Rightarrow> decision" where
  "blocked reason signature previous = \<lparr>de_blocked = True, de_reason = reason, de_policy = ''repeated_tool_signature_guard'',
     de_signature = signature, de_repeat_count = 1, de_previous_call_id = he_call_id previous\<rparr>"

text \<open>The history comes latest first.\<close>

fun decision_for_entry :: "history_entry list \<Rightarrow> history_entry \<Rightarrow> decision" where
  "decision_for_entry [] entry = not_blocked"
| "decision_for_entry (previous # rest) entry =
     (if he_signature previous = he_signature entry
      then blocked ''The same rg tool call was already attempted in this turn.'' (he_signature entry) previous
      else if is_max_results_only_broader_repeat previous entry
      then blocked ''The rg tool call only increases max_results after an earlier equivalent call.'' (he_signature_without_max_results entry) previous
      else if is_search_glob_broader_repeat previous entry
      then blocked ''The rg search repeats the same query and root with broader include_globs.'' (he_query_root_signature entry) previous
      else decision_for_entry rest entry)"

definition inspect_and_record :: "(string \<Rightarrow> string) \<Rightarrow> tool_call \<Rightarrow> history_entry list \<Rightarrow> (py_error, history_entry list \<times> decision) res" where
  "inspect_and_record rootf call history = (if py_strip (tc_name call) \<notin> set LOOP_GUARDED_TOOLS then Inr (history, not_blocked)
     else rbind (history_entry_of rootf call) (\<lambda>entry. Inr (last_n 24 (history @ [entry]), decision_for_entry (rev history) entry)))"

definition build_tool_loop_blocked_execution :: "tool_call \<Rightarrow> decision \<Rightarrow> tool_execution" where
  "build_tool_loop_blocked_execution call d = \<lparr>te_func_name = tc_name call, te_call_id = tc_call_id call,
     te_cleaned_result = ensure_json_text (PDict [(''status'', PStr ''blocked''), (''retryable'', PBool False), (''policy'', PStr (de_policy d)),
       (''tool'', PStr (tc_name call)), (''call_id'', PStr (tc_call_id call)), (''previous_call_id'', PStr (de_previous_call_id d)),
       (''reason'', PStr (de_reason d)), (''signature'', PStr (de_signature d)),
       (''instruction'', PStr (''Do not repeat the same broad rg call. Summarize the evidence already collected, '' @
         ''use a narrower include_globs/query, read a specific file, or ask the user for direction.''))]),
     te_images = [], te_status = ''blocked'', te_error = Some (de_reason d), te_diagnostics = [de_policy d]\<rparr>"

section \<open>Running calls in parallel\<close>

text \<open>What a worker comes back with: an execution, or the text of its exception with the name of its type in front.\<close>

type_synonym outcome = "(string, tool_execution) res"

definition resolve_parallel_workers :: "pydict \<Rightarrow> nat \<Rightarrow> int" where
  "resolve_parallel_workers config count = (let configured = (case py_int (getd config ''maxParallelToolCalls'' (PInt (int count))) of
       Inl e \<Rightarrow> int count | Inr n \<Rightarrow> n); configured = (if configured \<le> 0 then int count else configured)
     in if count = 0 then 1 else max 1 (min (int count) configured))"

definition worker_result :: "tool_call \<Rightarrow> outcome \<Rightarrow> tool_execution" where
  "worker_result call r = (case r of Inl e \<Rightarrow> build_tool_call_error_execution call ''error'' e | Inr x \<Rightarrow> x)"

text \<open>\<open>order\<close> is the order in which the futures complete.\<close>

definition execute_tasks_parallel_ordered :: "int \<Rightarrow> nat list \<Rightarrow> (nat \<Rightarrow> tool_call \<Rightarrow> outcome) \<Rightarrow> tool_call list \<Rightarrow> tool_execution list" where
  "execute_tasks_parallel_ordered workers order work tasks =
     (if tasks = [] then []
      else if workers \<le> 1 \<or> length tasks = 1 then map (\<lambda>(i, t). worker_result t (work i t)) (enumerate 0 tasks)
      else (let rs = fold (\<lambda>i rs. rs[i := Some (worker_result (tasks ! i) (work i (tasks ! i)))]) order (replicate (length tasks) None) in
        map (\<lambda>(i, r). case r of None \<Rightarrow> worker_result (tasks ! i) (Inl ''RuntimeError: Tool worker returned no result.'') | Some x \<Rightarrow> x) (enumerate 0 rs)))"

definition execute_tool_call_envelopes_parallel :: "pydict \<Rightarrow> nat list \<Rightarrow> (nat \<Rightarrow> tool_call \<Rightarrow> outcome) \<Rightarrow> tool_call list \<Rightarrow> tool_execution list" where
  "execute_tool_call_envelopes_parallel config order work calls =
     (if calls = [] then []
      else if 1 < length calls \<and> list_ex (\<lambda>c. tc_name c = ''switch_execution_device'') calls
      then map (\<lambda>c. build_tool_call_error_execution c ''error'' ''switch_execution_device must be called alone; no tools in this batch were executed.'') calls
      else execute_tasks_parallel_ordered (resolve_parallel_workers config (length calls)) order work calls)"

section \<open>A turn\<close>

record turn_env =
  tn_root :: "string \<Rightarrow> string"
  tn_gate :: bool
  tn_config :: pydict
  tn_order :: "nat list"
  tn_work :: "nat \<Rightarrow> tool_call \<Rightarrow> outcome"

record turn_state =
  ts_history :: "history_entry list"
  ts_rejected_ids :: "string set"
  ts_notices :: "(string \<times> string) list"

definition admission_notice :: "admission \<Rightarrow> string" where
  "admission_notice a = json_dumps (json_sorted (PDict
     [(''admitted_call_ids'', PList (map (\<lambda>c. PStr (tc_call_id (snd c))) (ad_admitted a))), (''policy'', PStr ''tool_context_compaction_checkpoint''),
      (''provider_continuation_safe'', PBool (ad_continuation_safe a)),
      (''rejected_calls'', PList (map (\<lambda>(c, reason). PDict [(''call_id'', PStr (tc_call_id (snd c))), (''name'', PStr (tc_name (snd c))), (''reason'', PStr reason)]) (ad_rejected a))),
      (''retry_required'', PBool (ad_retry_required a))]))"

definition blocked_notice :: "tool_call \<Rightarrow> decision \<Rightarrow> string" where
  "blocked_notice call d = json_dumps (json_sorted (PDict [(''policy'', PStr (de_policy d)), (''tool'', PStr (tc_name call)),
     (''call_id'', PStr (tc_call_id call)), (''previous_call_id'', PStr (de_previous_call_id d)), (''reason'', PStr (de_reason d)), (''signature'', PStr (de_signature d))]))"

definition admit_turn :: "bool \<Rightarrow> (nat \<times> tool_call) list \<Rightarrow> turn_state \<Rightarrow> turn_state \<times> admission" where
  "admit_turn gate calls ts = (let a = admit_tool_turn gate calls in
     (if ad_rejected a = [] then ts else ts\<lparr>
        ts_rejected_ids := (if gate then ts_rejected_ids ts \<union> set (filter (\<lambda>s. s \<noteq> []) (map (\<lambda>(c, r). py_strip (tc_call_id (snd c))) (ad_rejected a)))
          else ts_rejected_ids ts),
        ts_notices := ts_notices ts @ [(''tool_context_compaction_turn_admission'', admission_notice a)]\<rparr>, a))"

text \<open>Results at their places; \<open>[item for item in results if item is not None]\<close>\<close>

definition put_results :: "(nat \<times> tool_execution) list \<Rightarrow> tool_execution option list \<Rightarrow> tool_execution option list" where
  "put_results ps rs = fold (\<lambda>(i, x) rs. rs[i := Some x]) ps rs"

definition present :: "tool_execution option list \<Rightarrow> tool_execution list" where
  "present rs = List.map_filter id rs"

text \<open>The admitted calls pass the guard one after the other; what is blocked is answered, the others are collected with their places. An
  exception leaves the loop.\<close>

fun guard_calls :: "(string \<Rightarrow> string) \<Rightarrow> (nat \<times> tool_call) list \<Rightarrow> turn_state \<Rightarrow> tool_execution option list \<Rightarrow> (nat \<times> tool_call) list
    \<Rightarrow> turn_state \<times> (py_error, tool_execution option list \<times> (nat \<times> tool_call) list) res" where
  "guard_calls rootf [] ts results todo = (ts, Inr (results, todo))"
| "guard_calls rootf ((i, call) # rest) ts results todo = (case inspect_and_record rootf call (ts_history ts) of
      Inl e \<Rightarrow> (ts, Inl e)
    | Inr (history, d) \<Rightarrow> (let ts = ts\<lparr>ts_history := history\<rparr> in
        if de_blocked d then guard_calls rootf rest (ts\<lparr>ts_notices := ts_notices ts @ [(''tool_call_loop_blocked'', blocked_notice call d)]\<rparr>)
          (results[i := Some (build_tool_loop_blocked_execution call d)]) todo
        else guard_calls rootf rest ts results (todo @ [(i, call)])))"

definition execute_turn :: "turn_env \<Rightarrow> tool_call list \<Rightarrow> turn_state \<Rightarrow> turn_state \<times> (py_error, tool_execution list) res" where
  "execute_turn E calls ts = (if calls = [] then (ts, Inr []) else
     (let (ts, a) = admit_turn (tn_gate E) (enumerate 0 calls) ts;
          results = put_results (map (\<lambda>((i, c), reason). (i, build_tool_call_error_execution c ''rejected'' (rejection_error reason))) (ad_rejected a))
            (replicate (length calls) None)
      in (case guard_calls (tn_root E) (ad_admitted a) ts results [] of
          (ts, Inl e) \<Rightarrow> (ts, Inl e)
        | (ts, Inr (results, todo)) \<Rightarrow> (let executed = execute_tool_call_envelopes_parallel (tn_config E) (tn_order E) (tn_work E) (map snd todo) in
            (ts, Inr (present (put_results (zip (map fst todo) executed) results)))))))"

text \<open>The calls of an answer, those included whose arguments cannot be read.\<close>

definition execute_tool_call_items :: "turn_env \<Rightarrow> tool_item list \<Rightarrow> turn_state \<Rightarrow> turn_state \<times> (py_error, tool_execution list) res" where
  "execute_tool_call_items E items ts = (let
       results = map (\<lambda>item. case item of Failure f \<Rightarrow> Some (build_tool_call_parse_error_execution f) | Call c \<Rightarrow> None) items;
       valid = List.map_filter (\<lambda>(i, item). case item of Call c \<Rightarrow> Some (i, c) | Failure f \<Rightarrow> None) (enumerate 0 items)
     in (case execute_turn E (map snd valid) ts of
          (ts, Inl e) \<Rightarrow> (ts, Inl e)
        | (ts, Inr executed) \<Rightarrow> (ts, Inr (present (put_results (zip (map fst valid) executed) results)))))"

end
