(* ===== verification/ToolLaws.thy ===== *)
theory ToolLaws
  imports ToolTurns
begin

text \<open>
  What a turn of tool calls keeps: one answer for each call, in its place; at a checkpoint only the compaction of the context runs; and
  what one call can do to the others.
\<close>

section \<open>One answer for each call\<close>

text \<open>Results that are at the places of their calls, and the places that have one.\<close>

definition in_place :: "string list \<Rightarrow> tool_execution option list \<Rightarrow> bool" where
  "in_place ids rs \<longleftrightarrow> length rs = length ids \<and> (\<forall>i < length ids. \<forall>x. rs ! i = Some x \<longrightarrow> te_call_id x = ids ! i)"

definition answered :: "tool_execution option list \<Rightarrow> nat set" where
  "answered rs = {i. i < length rs \<and> rs ! i \<noteq> None}"

lemma put_one:
  assumes "in_place ids rs" and "i < length ids" and "te_call_id x = ids ! i"
  shows "in_place ids (rs[i := Some x]) \<and> answered (rs[i := Some x]) = insert i (answered rs)"
  using assms by (auto simp: in_place_def answered_def nth_list_update)

lemma put_results_ok:
  "in_place ids rs \<Longrightarrow> \<forall>(i, x) \<in> set ps. i < length ids \<and> te_call_id x = ids ! i \<Longrightarrow>
    in_place ids (put_results ps rs) \<and> answered (put_results ps rs) = answered rs \<union> fst ` set ps"
proof (induction ps arbitrary: rs)
  case (Cons p ps)
  obtain i x where p: "p = (i, x)" by (cases p)
  show ?case using Cons.IH [of "rs[i := Some x]"] Cons.prems put_one [of ids rs i x] by (auto simp: put_results_def p)
qed (simp add: put_results_def)

lemma present_all:
  assumes "in_place ids rs" and "answered rs = {..<length ids}"
  shows "map te_call_id (present rs) = ids"
proof -
  have all: "\<forall>r \<in> set rs. r \<noteq> None"
  proof
    fix r assume "r \<in> set rs"
    then obtain i where i: "i < length rs" "rs ! i = r" by (auto simp: in_set_conv_nth)
    then have "i \<in> answered rs" using assms by (simp add: in_place_def)
    then show "r \<noteq> None" using i by (simp add: answered_def)
  qed
  then have p: "present rs = map the rs"
    by (induction rs) (auto simp: present_def List.map_filter_def)
  show ?thesis unfolding p
  proof (rule nth_equalityI)
    fix i assume i: "i < length (map te_call_id (map the rs))"
    then have "rs ! i \<noteq> None" using all by simp
    then show "map te_call_id (map the rs) ! i = ids ! i" using assms(1) i by (auto simp: in_place_def)
  qed (use assms(1) in \<open>simp add: in_place_def\<close>)
qed

lemma error_call_id [simp]: "te_call_id (build_tool_call_error_execution c s e) = tc_call_id c"
  by (simp add: build_tool_call_error_execution_def Let_def)

lemma blocked_call_id [simp]: "te_call_id (build_tool_loop_blocked_execution c d) = tc_call_id c"
  by (simp add: build_tool_loop_blocked_execution_def)

definition answers_own :: "(nat \<Rightarrow> tool_call \<Rightarrow> outcome) \<Rightarrow> bool" where
  "answers_own work \<longleftrightarrow> (\<forall>i c x. work i c = Inr x \<longrightarrow> te_call_id x = tc_call_id c)"

lemma worker_call_id: "answers_own work \<Longrightarrow> te_call_id (worker_result c (work i c)) = tc_call_id c"
  by (auto simp: worker_result_def answers_own_def split: sum.split)

lemma completed_results:
  assumes "answers_own work"
  shows "in_place (map tc_call_id tasks) (fold (\<lambda>i rs. rs[i := Some (worker_result (tasks ! i) (work i (tasks ! i)))]) order (replicate (length tasks) None))"
proof -
  have "in_place (map tc_call_id tasks) rs \<Longrightarrow> in_place (map tc_call_id tasks) (fold (\<lambda>i rs. rs[i := Some (worker_result (tasks ! i) (work i (tasks ! i)))]) order rs)" for rs
  proof (induction order arbitrary: rs)
    case (Cons i order)
    have "in_place (map tc_call_id tasks) (rs[i := Some (worker_result (tasks ! i) (work i (tasks ! i)))])"
    proof (cases "i < length tasks")
      case True
      then show ?thesis using put_one [OF Cons.prems, of i] worker_call_id [OF assms] by simp
    next
      case False
      then have "rs[i := Some (worker_result (tasks ! i) (work i (tasks ! i)))] = rs" using Cons.prems by (simp add: in_place_def list_update_beyond)
      then show ?thesis using Cons.prems by simp
    qed
    then show ?case using Cons.IH by simp
  qed simp
  moreover have "in_place (map tc_call_id tasks) (replicate (length tasks) None)" by (simp add: in_place_def)
  ultimately show ?thesis by blast
qed

lemma parallel_call_ids:
  assumes "answers_own work"
  shows "map te_call_id (execute_tasks_parallel_ordered n order work tasks) = map tc_call_id tasks"
proof -
  let ?rs = "fold (\<lambda>i rs. rs[i := Some (worker_result (tasks ! i) (work i (tasks ! i)))]) order (replicate (length tasks) None)"
  have ip: "in_place (map tc_call_id tasks) ?rs" by (rule completed_results [OF assms])
  have "map te_call_id (map (\<lambda>(i, r). case r of None \<Rightarrow> worker_result (tasks ! i) (Inl ''RuntimeError: Tool worker returned no result.'') | Some x \<Rightarrow> x) (enumerate 0 ?rs))
      = map tc_call_id tasks"
  proof (rule nth_equalityI)
    fix i assume "i < length (map te_call_id (map (\<lambda>(i, r). case r of None \<Rightarrow> worker_result (tasks ! i) (Inl ''RuntimeError: Tool worker returned no result.'') | Some x \<Rightarrow> x) (enumerate 0 ?rs)))"
    then have "i < length ?rs" by simp
    then show "map te_call_id (map (\<lambda>(i, r). case r of None \<Rightarrow> worker_result (tasks ! i) (Inl ''RuntimeError: Tool worker returned no result.'') | Some x \<Rightarrow> x) (enumerate 0 ?rs)) ! i
        = map tc_call_id tasks ! i"
      using ip by (cases "?rs ! i") (auto simp: in_place_def nth_enumerate_eq worker_result_def)
  qed (use ip in \<open>simp add: in_place_def\<close>)
  moreover have "map te_call_id (map (\<lambda>(i, t). worker_result t (work i t)) (enumerate 0 tasks)) = map tc_call_id tasks"
    by (rule nth_equalityI) (simp_all add: nth_enumerate_eq worker_call_id [OF assms])
  ultimately show ?thesis by (simp add: execute_tasks_parallel_ordered_def Let_def)
qed

lemma envelopes_call_ids: "answers_own work \<Longrightarrow> map te_call_id (execute_tool_call_envelopes_parallel config order work calls) = map tc_call_id calls"
  by (simp add: execute_tool_call_envelopes_parallel_def parallel_call_ids comp_def)

text \<open>Calls at their places in the turn.\<close>

definition placed :: "tool_call list \<Rightarrow> (nat \<times> tool_call) list \<Rightarrow> bool" where
  "placed calls ps \<longleftrightarrow> (\<forall>(i, c) \<in> set ps. i < length calls \<and> c = calls ! i)"

lemma placed_enumerate: "placed calls (enumerate 0 calls)"
  by (auto simp: placed_def enumerate_eq_zip set_zip)

lemma fst_enumerate: "fst ` set (enumerate 0 xs) = {..<length xs}"
  by (metis atLeast_upt map_fst_enumerate list.set_map add_0)

lemma guard_calls_ok:
  assumes "guard_calls rootf ps ts rs todo = (ts', Inr (rs', todo'))" and "placed calls ps" "placed calls todo" and "in_place (map tc_call_id calls) rs"
  shows "in_place (map tc_call_id calls) rs' \<and> placed calls todo' \<and> answered rs' \<union> fst ` set todo' = answered rs \<union> fst ` set todo \<union> fst ` set ps"
  using assms
proof (induction rootf ps ts rs todo arbitrary: ts' rs' todo' rule: guard_calls.induct)
  case (2 rootf i c rest ts rs todo)
  obtain h d where d: "inspect_and_record rootf c (ts_history ts) = Inr (h, d)" using "2.prems"(1) by (auto split: sum.splits)
  have c: "i < length calls" "c = calls ! i" "placed calls rest" using "2.prems"(2) by (auto simp: placed_def)
  show ?case
  proof (cases "de_blocked d")
    case True
    have p: "in_place (map tc_call_id calls) (rs[i := Some (build_tool_loop_blocked_execution c d)])"
        "answered (rs[i := Some (build_tool_loop_blocked_execution c d)]) = insert i (answered rs)"
      using put_one [OF "2.prems"(4), of i "build_tool_loop_blocked_execution c d"] c by simp_all
    show ?thesis using "2.IH"(1) [OF d [unfolded prod.case] _ _ True] "2.prems" d True c p by auto
  next
    case False
    show ?thesis using "2.IH"(2) [OF d] "2.prems" d False c by (auto simp: placed_def)
  qed
qed (simp add: placed_def)

lemma admit_ok:
  fixes calls gate
  defines "a \<equiv> admit_tool_turn gate (enumerate 0 calls)"
  shows "placed calls (ad_admitted a)" and "placed calls (map fst (ad_rejected a))"
    and "fst ` set (ad_admitted a) \<union> fst ` set (map fst (ad_rejected a)) = {..<length calls}"
proof -
  let ?cs = "enumerate 0 calls"
  have p: "placed calls ?cs" by (rule placed_enumerate)
  have f: "fst ` set ?cs = {..<length calls}" by (rule fst_enumerate)
  show "placed calls (ad_admitted a)"
    using p by (auto simp: a_def admit_tool_turn_def placed_def Let_def dest!: filter_eq_ConsD split: list.split)
  show "placed calls (map fst (ad_rejected a))"
    using p by (auto simp: a_def admit_tool_turn_def placed_def Let_def split: list.split)
  show "fst ` set (ad_admitted a) \<union> fst ` set (map fst (ad_rejected a)) = {..<length calls}"
  proof (cases "filter (\<lambda>c. tc_name (snd c) = COMPACTION_TOOL_NAME) ?cs")
    case Nil
    then show ?thesis using f by (auto simp: a_def admit_tool_turn_def comp_def image_image)
  next
    case (Cons x xs)
    then have "x \<in> set ?cs" by (auto dest!: filter_eq_ConsD)
    then have "fst x \<in> {..<length calls}" using f by blast
    then show ?thesis using f Cons by (cases gate) (auto simp: a_def admit_tool_turn_def Let_def image_image)
  qed
qed

definition rejections :: "admission \<Rightarrow> (nat \<times> tool_execution) list" where
  "rejections a = map (\<lambda>((i, c), reason). (i, build_tool_call_error_execution c ''rejected'' (rejection_error reason))) (ad_rejected a)"

text \<open>The results of a turn: those of the admission, of the guard and of the workers, and no place is left.\<close>

lemma execute_turn_shape:
  assumes "answers_own (tn_work E)" and ex: "execute_turn E calls ts = (ts', Inr rs)" and False: "calls \<noteq> []"
  defines "a \<equiv> admit_tool_turn (tn_gate E) (enumerate 0 calls)"
  obtains ts1 ts2 rs1 todo xs where "guard_calls (tn_root E) (ad_admitted a) ts1 (put_results (rejections a) (replicate (length calls) None)) [] = (ts2, Inr (rs1, todo))"
    and "rs = present (put_results (zip (map fst todo) xs) rs1)" and "length xs = length todo"
    and "in_place (map tc_call_id calls) (put_results (zip (map fst todo) xs) rs1)"
    and "answered (put_results (zip (map fst todo) xs) rs1) = {..<length calls}"
proof -
  let ?a = "admit_tool_turn (tn_gate E) (enumerate 0 calls)"
  let ?ps = "rejections ?a"
  let ?r0 = "put_results ?ps (replicate (length calls) None)" and ?ids = "map tc_call_id calls"
  have "in_place ?ids (replicate (length calls) None)" "answered (replicate (length calls) None) = {}"
    by (simp_all add: in_place_def answered_def)
  moreover have "\<forall>(i, x) \<in> set ?ps. i < length ?ids \<and> te_call_id x = ?ids ! i"
    using admit_ok(2) [of calls "tn_gate E"] by (auto simp: placed_def rejections_def)
  ultimately have r0: "in_place ?ids ?r0" "answered ?r0 = fst ` set (map fst (ad_rejected ?a))"
    using put_results_ok [of ?ids "replicate (length calls) None" ?ps] by (simp_all add: image_image split_beta rejections_def)
  obtain ts1 ts2 rs1 todo where a: "admit_turn (tn_gate E) (enumerate 0 calls) ts = (ts1, ?a)"
    and g: "guard_calls (tn_root E) (ad_admitted ?a) ts1 ?r0 [] = (ts2, Inr (rs1, todo))"
    and rs: "rs = present (put_results (zip (map fst todo) (execute_tool_call_envelopes_parallel (tn_config E) (tn_order E) (tn_work E) (map snd todo))) rs1)"
    using ex False by (auto simp: execute_turn_def admit_turn_def Let_def rejections_def split: prod.splits sum.splits)
  let ?ex = "execute_tool_call_envelopes_parallel (tn_config E) (tn_order E) (tn_work E) (map snd todo)"
  have g': "in_place ?ids rs1" "placed calls todo" "answered rs1 \<union> fst ` set todo = {..<length calls}"
  proof -
    have p: "placed calls []" by (simp add: placed_def)
    note gc = guard_calls_ok [OF g admit_ok(1) p r0(1)]
    show "in_place ?ids rs1" "placed calls todo" using gc by simp_all
    have "answered rs1 \<union> fst ` set todo = fst ` set (ad_admitted ?a) \<union> fst ` set (map fst (ad_rejected ?a))"
      using gc unfolding r0(2) by auto
    then show "answered rs1 \<union> fst ` set todo = {..<length calls}" unfolding admit_ok(3) .
  qed
  have ids: "map te_call_id ?ex = map tc_call_id (map snd todo)" by (rule envelopes_call_ids [OF assms(1)])
  then have len: "length ?ex = length todo" by (metis length_map)
  have "\<forall>(i, x) \<in> set (zip (map fst todo) ?ex). i < length ?ids \<and> te_call_id x = ?ids ! i"
  proof clarify
    fix i x assume "(i, x) \<in> set (zip (map fst todo) ?ex)"
    then obtain k where k: "k < length todo" "fst (todo ! k) = i" "?ex ! k = x" by (auto simp: set_zip len)
    have "te_call_id x = tc_call_id (snd (todo ! k))" using arg_cong [OF ids, of "\<lambda>l. l ! k"] k len by simp
    moreover have "i < length calls \<and> snd (todo ! k) = calls ! i" using g'(2) nth_mem [OF k(1)] k(2) by (auto simp: placed_def split_beta)
    ultimately show "i < length ?ids \<and> te_call_id x = ?ids ! i" by simp
  qed
  from put_results_ok [OF g'(1) this] have "in_place ?ids (put_results (zip (map fst todo) ?ex) rs1)"
      "answered (put_results (zip (map fst todo) ?ex) rs1) = {..<length calls}"
    using g'(3) len by (simp_all flip: set_map)
  then show thesis using that g rs len unfolding a_def by blast
qed

lemma execute_turn_ids:
  assumes "answers_own (tn_work E)" and ex: "execute_turn E calls ts = (ts', Inr rs)"
  shows "map te_call_id rs = map tc_call_id calls"
proof (cases "calls = []")
  case False
  from execute_turn_shape [OF assms False] show ?thesis by (metis present_all length_map)
qed (use ex in \<open>simp add: execute_turn_def\<close>)

fun item_call_id :: "tool_item \<Rightarrow> string" where
  "item_call_id (Call c) = tc_call_id c" | "item_call_id (Failure f) = pf_call_id f"

lemma valid_calls:
  fixes items
  defines "valid \<equiv> List.map_filter (\<lambda>(i, item). case item of Call c \<Rightarrow> Some (i, c) | Failure f \<Rightarrow> None) (enumerate 0 items)"
  shows "(i, c) \<in> set valid \<longleftrightarrow> i < length items \<and> items ! i = Call c"
  by (force simp: valid_def List.map_filter_def enumerate_eq_zip set_zip split: tool_item.splits)

text \<open>C4. Every call of an answer of the model is answered, once and in its place: when the turn comes to an end, the executions are as many as
  the calls and carry their identifiers in the same order, whether a call could not be read, was rejected at a checkpoint, was
  blocked as a repetition, failed or ran, in whatever order the workers finished.\<close>

theorem every_call_answered:
  assumes "answers_own (tn_work E)" and ex: "execute_tool_call_items E items ts = (ts', Inr rs)"
  shows "map te_call_id rs = map item_call_id items"
proof -
  let ?ids = "map item_call_id items"
  let ?r0 = "map (\<lambda>item. case item of Failure f \<Rightarrow> Some (build_tool_call_parse_error_execution f) | Call c \<Rightarrow> None) items"
  let ?valid = "List.map_filter (\<lambda>(i, item). case item of Call c \<Rightarrow> Some (i, c) | Failure f \<Rightarrow> None) (enumerate 0 items)"
  obtain xs where xs: "execute_turn E (map snd ?valid) ts = (ts', Inr xs)" and rs: "rs = present (put_results (zip (map fst ?valid) xs) ?r0)"
    using ex by (auto simp: execute_tool_call_items_def Let_def split: prod.splits sum.splits)
  have ids: "map te_call_id xs = map tc_call_id (map snd ?valid)" by (rule execute_turn_ids [OF assms(1) xs])
  then have len: "length xs = length ?valid" by (metis length_map)
  have r0: "in_place ?ids ?r0" "answered ?r0 = {i. i < length items \<and> (\<exists>f. items ! i = Failure f)}"
    by (auto simp: in_place_def answered_def build_tool_call_parse_error_execution_def Let_def split: tool_item.splits)
  have "\<forall>(i, x) \<in> set (zip (map fst ?valid) xs). i < length ?ids \<and> te_call_id x = ?ids ! i"
  proof clarify
    fix i x assume "(i, x) \<in> set (zip (map fst ?valid) xs)"
    then obtain k where k: "k < length ?valid" "fst (?valid ! k) = i" "xs ! k = x" by (auto simp: set_zip len)
    have "te_call_id x = tc_call_id (snd (?valid ! k))" using arg_cong [OF ids, of "\<lambda>l. l ! k"] k len by simp
    moreover have "i < length items \<and> items ! i = Call (snd (?valid ! k))"
      using valid_calls [of i "snd (?valid ! k)" items] nth_mem [OF k(1)] k(2) by (metis prod.collapse)
    ultimately show "i < length ?ids \<and> te_call_id x = ?ids ! i" by simp
  qed
  moreover have "fst ` set ?valid = {i. i < length items \<and> (\<exists>c. items ! i = Call c)}"
    using valid_calls [of _ _ items] by force
  ultimately show ?thesis unfolding rs using put_results_ok [OF r0(1)] r0(2) len
    by (intro present_all) (auto simp flip: set_map, metis tool_item.exhaust)
qed


section \<open>Checkpoints\<close>

lemma put_results_other: "i \<notin> fst ` set ps \<Longrightarrow> put_results ps rs ! i = rs ! i"
  by (induction ps arbitrary: rs) (auto simp: put_results_def)

lemma length_put_results [simp]: "length (put_results ps rs) = length rs"
  by (induction ps arbitrary: rs) (auto simp: put_results_def)

lemma put_results_Cons: "put_results ((i, x) # ps) rs = put_results ps (rs[i := Some x])"
  by (simp add: put_results_def)

lemma put_results_at: "(i, x) \<in> set ps \<Longrightarrow> distinct (map fst ps) \<Longrightarrow> i < length rs \<Longrightarrow> put_results ps rs ! i = Some x"
proof (induction ps arbitrary: rs)
  case (Cons p ps)
  obtain j y where p: "p = (j, y)" by (cases p)
  show ?case
  proof (cases "p = (i, x)")
    case True
    then have "i \<notin> fst ` set ps" using Cons.prems(2) by auto
    then show ?thesis using True Cons.prems(3) put_results_other [of i ps "rs[i := Some x]"] by (simp add: put_results_Cons)
  next
    case False
    then have "put_results ps (rs[j := Some y]) ! i = Some x" using Cons.prems by (intro Cons.IH) (auto simp: p)
    then show ?thesis by (simp add: p put_results_Cons)
  qed
qed simp

lemma guard_calls_other:
  "guard_calls rootf ps ts rs todo = (ts', Inr (rs', todo')) \<Longrightarrow> i \<notin> fst ` set ps \<Longrightarrow>
    rs' ! i = rs ! i \<and> fst ` set todo' \<subseteq> fst ` set todo \<union> fst ` set ps"
proof (induction rootf ps ts rs todo arbitrary: ts' rs' todo' rule: guard_calls.induct)
  case (2 rootf j c rest ts rs todo)
  obtain h d where d: "inspect_and_record rootf c (ts_history ts) = Inr (h, d)" using "2.prems"(1) by (auto split: sum.splits)
  show ?case
  proof (cases "de_blocked d")
    case True
    have "rs' ! i = rs[j := Some (build_tool_loop_blocked_execution c d)] ! i \<and> fst ` set todo' \<subseteq> fst ` set todo \<union> fst ` set rest"
      using "2.IH"(1) [OF d [unfolded prod.case] _ _ True] "2.prems" d True by simp
    then show ?thesis using "2.prems"(2) by auto
  next
    case False
    have "rs' ! i = rs ! i \<and> fst ` set todo' \<subseteq> fst ` set (todo @ [(j, c)]) \<union> fst ` set rest"
      using "2.IH"(2) [OF d [unfolded prod.case] _ _ False] "2.prems" d False by simp
    then show ?thesis by auto
  qed
qed simp

lemma present_nth: "answered rs = {..<length rs} \<Longrightarrow> i < length rs \<Longrightarrow> present rs ! i = the (rs ! i)"
proof -
  assume "answered rs = {..<length rs}" and i: "i < length rs"
  then have "rs ! k \<noteq> None" if "k < length rs" for k using that by (auto simp: answered_def)
  then have "\<forall>r \<in> set rs. r \<noteq> None" by (metis in_set_conv_nth)
  then have "present rs = map the rs" by (induction rs) (auto simp: present_def List.map_filter_def)
  then show ?thesis using i by simp
qed

lemma compaction_rejected:
  assumes i: "i < length calls" and late: "tc_name (calls ! i) \<noteq> COMPACTION_TOOL_NAME \<or> (\<exists>j < i. tc_name (calls ! j) = COMPACTION_TOOL_NAME)"
  defines "a \<equiv> admit_tool_turn True (enumerate 0 calls)"
  shows "((i, calls ! i), rejection_reason (calls ! i)) \<in> set (ad_rejected a)" and "i \<notin> fst ` set (ad_admitted a)"
    and "distinct (map (\<lambda>x. fst (fst x)) (ad_rejected a))"
proof -
  let ?cs = "enumerate 0 calls" and ?P = "\<lambda>c :: nat \<times> tool_call. tc_name (snd c) = COMPACTION_TOOL_NAME"
  have mem: "(i, calls ! i) \<in> set ?cs" using i by (auto simp: in_set_enumerate_eq)
  have "((i, calls ! i), rejection_reason (calls ! i)) \<in> set (ad_rejected a) \<and> i \<notin> fst ` set (ad_admitted a) \<and> distinct (map (\<lambda>x. fst (fst x)) (ad_rejected a))"
  proof (cases "filter ?P ?cs")
    case Nil
    then have "tc_name (calls ! i) \<noteq> COMPACTION_TOOL_NAME" using mem by (auto simp: filter_empty_conv)
    then show ?thesis using Nil mem by (auto simp: a_def admit_tool_turn_def rejection_reason_def comp_def)
  next
    case (Cons x xs)
    have "fst x \<noteq> i"
    proof
      assume xi: "fst x = i"
      obtain us vs where sp: "?cs = us @ x # vs" "\<forall>u \<in> set us. \<not> ?P u" "?P x" using filter_eq_ConsD [OF Cons] by blast
      have "length us = i" using xi arg_cong [OF sp(1), of "map fst"] by (metis sp(1) nth_append_length nth_enumerate_eq fst_conv add_0 length_append length_enumerate less_add_Suc1 list.size(4) add_Suc_right)
      have "x = (i, calls ! i)" using sp(1) \<open>length us = i\<close> i by (metis nth_append_length nth_enumerate_eq add_0)
      then obtain j where j: "j < i" "tc_name (calls ! j) = COMPACTION_TOOL_NAME" using late sp(3) by auto
      then have "us ! j = (j, calls ! j)" using sp(1) \<open>length us = i\<close> i by (metis nth_append nth_enumerate_eq add_0 order.strict_trans)
      then have "(j, calls ! j) \<in> set us" using j(1) \<open>length us = i\<close> nth_mem by metis
      then show False using sp(2) j(2) by auto
    qed
    moreover have "distinct (map fst (filter (\<lambda>c. fst c \<noteq> fst x) ?cs))"
      by (rule distinct_map_filter_fst) (metis distinct_upt map_fst_enumerate)
    ultimately show ?thesis using Cons mem by (auto simp: a_def admit_tool_turn_def Let_def comp_def)
  qed
  then show "((i, calls ! i), rejection_reason (calls ! i)) \<in> set (ad_rejected a)" "i \<notin> fst ` set (ad_admitted a)"
    "distinct (map (\<lambda>x. fst (fst x)) (ad_rejected a))" by simp_all
qed

text \<open>C18. At a checkpoint no tool runs but the one that compacts the context: every other call, and every further call of that tool, is
  answered as rejected with its reason, whatever the workers or the guard would have said.\<close>

theorem checkpoint_rejects_others:
  assumes "tn_gate E" and own: "answers_own (tn_work E)" and ex: "execute_turn E calls ts = (ts', Inr rs)" and i: "i < length calls"
    and late: "tc_name (calls ! i) \<noteq> COMPACTION_TOOL_NAME \<or> (\<exists>j < i. tc_name (calls ! j) = COMPACTION_TOOL_NAME)"
  shows "rs ! i = build_tool_call_error_execution (calls ! i) ''rejected'' (rejection_error (rejection_reason (calls ! i)))"
proof -
  let ?a = "admit_tool_turn (tn_gate E) (enumerate 0 calls)" and ?none = "replicate (length calls) None"
  note c = compaction_rejected [OF i late]
  have ne: "calls \<noteq> []" using i by auto
  obtain ts1 ts2 rs1 todo xs where g: "guard_calls (tn_root E) (ad_admitted ?a) ts1 (put_results (rejections ?a) ?none) [] = (ts2, Inr (rs1, todo))"
    and rs: "rs = present (put_results (zip (map fst todo) xs) rs1)" and len: "length xs = length todo"
    and ip: "in_place (map tc_call_id calls) (put_results (zip (map fst todo) xs) rs1)"
    and full: "answered (put_results (zip (map fst todo) xs) rs1) = {..<length calls}"
    by (rule execute_turn_shape [OF own ex ne])
  have "(i, build_tool_call_error_execution (calls ! i) ''rejected'' (rejection_error (rejection_reason (calls ! i)))) \<in> set (rejections ?a)"
    using c(1) assms(1) by (force simp: rejections_def)
  moreover have "distinct (map fst (rejections ?a))" using c(3) assms(1) by (simp add: rejections_def comp_def split_beta)
  ultimately have r: "put_results (rejections ?a) ?none ! i = Some (build_tool_call_error_execution (calls ! i) ''rejected'' (rejection_error (rejection_reason (calls ! i))))"
    using i by (intro put_results_at) simp_all
  have "i \<notin> fst ` set (ad_admitted ?a)" using c(2) assms(1) by simp
  from guard_calls_other [OF g this] have "rs1 ! i = put_results (rejections ?a) ?none ! i" "i \<notin> fst ` set todo"
    using c(2) assms(1) by auto
  moreover from this(2) have "i \<notin> fst ` set (zip (map fst todo) xs)" using len by (simp flip: set_map)
  ultimately have "put_results (zip (map fst todo) xs) rs1 ! i = put_results (rejections ?a) ?none ! i" by (simp add: put_results_other)
  then show ?thesis using present_nth [of "put_results (zip (map fst todo) xs) rs1" i] full ip i r unfolding rs by (simp add: in_place_def)
qed


section \<open>Concrete turns\<close>

text \<open>A turn with a search, the same search again with a larger limit, a command, and a call that cannot be read; the workers answer each
  call with its own name.\<close>

definition sample_call :: "string \<Rightarrow> string \<Rightarrow> pydict \<Rightarrow> tool_call" where
  "sample_call name ident args = \<lparr>tc_name = name, tc_call_id = ident, tc_arguments = args, tc_arguments_json = json_dumps (PDict args),
     tc_provider = ''openai'', tc_raw = PNone\<rparr>"

definition sample_work :: "nat \<Rightarrow> tool_call \<Rightarrow> outcome" where
  "sample_work i c = Inr \<lparr>te_func_name = tc_name c, te_call_id = tc_call_id c, te_cleaned_result = ''ok'', te_images = [], te_status = ''ok'',
     te_error = None, te_diagnostics = []\<rparr>"

definition sample_env :: "bool \<Rightarrow> turn_env" where
  "sample_env gate = \<lparr>tn_root = (\<lambda>p. p), tn_gate = gate, tn_config = [], tn_order = [1, 0], tn_work = sample_work\<rparr>"

definition sample_turn :: turn_state where
  "sample_turn = \<lparr>ts_history = [], ts_rejected_ids = {}, ts_notices = []\<rparr>"

definition sample_search :: "string \<Rightarrow> int \<Rightarrow> tool_call" where
  "sample_search ident n = sample_call ''rg_search_text'' ident [(''query'', PStr ''x''), (''max_results'', PInt n)]"

definition sample_items :: "tool_item list" where
  "sample_items = [Call (sample_search ''a'' 5), Call (sample_search ''b'' 9), Call (sample_call ''run'' ''c'' []),
     Failure \<lparr>pf_name = ''run'', pf_call_id = ''d'', pf_arguments_json = ''['', pf_provider = ''openai'', pf_error = ''bad'', pf_raw = PNone\<rparr>]"

lemma sample_answers_own: "answers_own (tn_work (sample_env gate))"
  by (simp add: answers_own_def sample_env_def sample_work_def)

lemma res_of: "(case y of (a, Inl e) \<Rightarrow> False | (a, Inr x) \<Rightarrow> P x) \<Longrightarrow> \<exists>ts x. y = (ts, Inr x) \<and> P x"
  by (auto split: prod.splits sum.splits)

lemma sample_items_run: "\<exists>ts' rs. execute_tool_call_items (sample_env False) sample_items sample_turn = (ts', Inr rs)
    \<and> map te_status rs = [''ok'', ''blocked'', ''ok'', ''error'']"
  by (rule res_of) code_simp

theorem every_call_answered_witness:
  "\<exists>ts' rs. execute_tool_call_items (sample_env False) sample_items sample_turn = (ts', Inr rs)
    \<and> map te_status rs = [''ok'', ''blocked'', ''ok'', ''error''] \<and> map te_call_id rs = [''a'', ''b'', ''c'', ''d'']"
proof -
  obtain ts' rs where r: "execute_tool_call_items (sample_env False) sample_items sample_turn = (ts', Inr rs)"
    "map te_status rs = [''ok'', ''blocked'', ''ok'', ''error'']" using sample_items_run by (elim exE conjE) (rule that)
  have "map te_call_id rs = map item_call_id sample_items" by (rule every_call_answered [OF sample_answers_own r(1)])
  then show ?thesis using r by (simp add: sample_items_def sample_search_def sample_call_def)
qed

definition sample_checkpoint :: "tool_call list" where
  "sample_checkpoint = [sample_call ''run'' ''a'' [], sample_call COMPACTION_TOOL_NAME ''b'' [], sample_call COMPACTION_TOOL_NAME ''c'' []]"

lemma sample_checkpoint_run: "\<exists>ts' rs. execute_turn (sample_env True) sample_checkpoint sample_turn = (ts', Inr rs)
    \<and> map te_status rs = [''rejected'', ''ok'', ''rejected'']"
  by (rule res_of) code_simp

theorem checkpoint_rejects_others_witness:
  "\<exists>ts' rs. execute_turn (sample_env True) sample_checkpoint sample_turn = (ts', Inr rs)
    \<and> rs ! 2 = build_tool_call_error_execution (sample_call COMPACTION_TOOL_NAME ''c'' []) ''rejected'' (rejection_error ''duplicate_compaction_call'')"
proof -
  obtain ts' rs where r: "execute_turn (sample_env True) sample_checkpoint sample_turn = (ts', Inr rs)" using sample_checkpoint_run by (elim exE conjE) (rule that)
  have c: "sample_checkpoint ! 2 = sample_call COMPACTION_TOOL_NAME ''c'' []" "tc_name (sample_checkpoint ! 1) = COMPACTION_TOOL_NAME"
    "2 < length sample_checkpoint" by (simp_all add: sample_checkpoint_def sample_call_def)
  then have "tc_name (sample_checkpoint ! 2) \<noteq> COMPACTION_TOOL_NAME \<or> (\<exists>j < 2. tc_name (sample_checkpoint ! j) = COMPACTION_TOOL_NAME)"
    by (intro disjI2 exI [of _ 1]) simp
  from checkpoint_rejects_others [OF _ sample_answers_own r c(3) this] r show ?thesis
    unfolding c(1) by (simp add: sample_env_def rejection_reason_def sample_call_def)
qed

section \<open>What one call can do to the others\<close>

text \<open>The guard reads the arguments of a search before the call is under the care of the workers: a number where the globs should be
  raises there, and the turn ends with no answer to any of its calls.\<close>

lemma bad_globs_abort_turn:
  "snd (execute_turn (sample_env False) [sample_call ''run'' ''a'' [], sample_call ''rg_search_text'' ''b'' [(''include_globs'', PInt 5)]] sample_turn)
    = Inl TypeError"
  by code_simp

end
