(* ===== verification/SearchLaws.thy ===== *)
theory SearchLaws
  imports ToolLaws
begin

text \<open>
  The guard against repeated searches blocks exactly the searches that repeat an earlier one, and a call survives being written back to
  the model.
\<close>

section \<open>Repeated searches\<close>

definition guarded_tool :: "tool_call \<Rightarrow> bool" where
  "guarded_tool c \<longleftrightarrow> py_strip (tc_name c) \<in> set LOOP_GUARDED_TOOLS"

text \<open>What the guard has seen after some calls, and the searches among them.\<close>

definition guard_step :: "(string \<Rightarrow> string) \<Rightarrow> tool_call \<Rightarrow> history_entry list \<Rightarrow> history_entry list" where
  "guard_step rootf c h = (case inspect_and_record rootf c h of Inl e \<Rightarrow> h | Inr (h', d) \<Rightarrow> h')"

definition searches :: "(string \<Rightarrow> string) \<Rightarrow> tool_call list \<Rightarrow> history_entry list" where
  "searches rootf cs = List.map_filter (\<lambda>c. if guarded_tool c then (case history_entry_of rootf c of Inl e \<Rightarrow> None | Inr e \<Rightarrow> Some e) else None) cs"

text \<open>When a search repeats another: with the same tool the same arguments, or the same but for a limit that is no smaller, or the same
  query in the same place after the first was narrowed by globs and the second is not. Dictionaries are the same whatever the order
  of their keys.\<close>

definition same_arguments :: "pydict \<Rightarrow> pydict \<Rightarrow> bool" where
  "same_arguments a b \<longleftrightarrow> json_sorted (PDict a) = json_sorted (PDict b)"

definition max_results_of :: "history_entry \<Rightarrow> int option" where
  "max_results_of e = (case py_int (get (he_arguments e) ''max_results'') of Inl x \<Rightarrow> None | Inr n \<Rightarrow> Some n)"

definition repeats :: "history_entry \<Rightarrow> history_entry \<Rightarrow> bool" where
  "repeats p e \<longleftrightarrow> he_tool p = he_tool e \<and>
     (same_arguments (he_arguments p) (he_arguments e)
      \<or> (same_arguments (dict_pop ''max_results'' (he_arguments p)) (dict_pop ''max_results'' (he_arguments e))
          \<and> (\<exists>m n. max_results_of p = Some m \<and> max_results_of e = Some n \<and> m \<le> n))
      \<or> (he_tool e = ''rg_search_text'' \<and> py_eq (get (he_arguments p) ''query'') (get (he_arguments e) ''query'')
          \<and> py_eq (getd (he_arguments p) ''project_root'' (PStr [])) (getd (he_arguments e) ''project_root'' (PStr []))
          \<and> truthy (get (he_arguments p) ''include_globs'') \<and> is_broad_glob_set (list_items (get (he_arguments e) ''include_globs''))))"

definition plain_entry :: "history_entry \<Rightarrow> bool" where
  "plain_entry e \<longleftrightarrow> json_plain (PDict (he_arguments e))"

lemma stable_json_inject: "json_plain v \<Longrightarrow> json_plain w \<Longrightarrow> stable_json v = stable_json w \<longleftrightarrow> json_sorted v = json_sorted w"
  unfolding stable_json_def by (rule json_write_inject) (simp_all add: sep_ok_def json_ws_def json_sorted_plain)

lemma signature_inject:
  assumes "json_plain (PDict a)" "json_plain (PDict b)"
  shows "stable_json (PDict [(''tool'', PStr s), (''arguments'', PDict a)]) = stable_json (PDict [(''tool'', PStr t), (''arguments'', PDict b)])
    \<longleftrightarrow> s = t \<and> same_arguments a b"
proof -
  let ?x = "PDict [(''tool'', PStr s), (''arguments'', PDict a)]" and ?y = "PDict [(''tool'', PStr t), (''arguments'', PDict b)]"
  have p: "json_plain ?x" "json_plain ?y" using assms by simp_all
  have "json_sorted ?x = json_sorted ?y \<longleftrightarrow> s = t \<and> same_arguments a b"
  proof
    assume eq: "json_sorted ?x = json_sorted ?y"
    have g: "get (dict_items (json_sorted ?x)) k = get (dict_items (json_sorted ?y)) k" for k using eq by (simp only:)
    have "s = t" using g [of "''tool''"] unfolding get_sorted [OF p(1)] get_sorted [OF p(2)] by simp
    moreover have "json_sorted (PDict a) = json_sorted (PDict b)"
      using g [of "''arguments''"] unfolding get_sorted [OF p(1)] get_sorted [OF p(2)] by simp
    ultimately show "s = t \<and> same_arguments a b" by (simp add: same_arguments_def)
  next
    assume "s = t \<and> same_arguments a b"
    then have "s = t" "json_sorted (PDict a) = json_sorted (PDict b)" by (simp_all only: same_arguments_def)
    then show "json_sorted ?x = json_sorted ?y" by (simp only: json_sorted.simps(2) list.map prod.case)
  qed
  then show ?thesis using stable_json_inject [OF p] by simp
qed

lemma plain_pop: "json_plain (PDict a) \<Longrightarrow> json_plain (PDict (dict_pop k a))"
  by (auto simp: dict_pop_code list_all_iff distinct_map_filter_fst)

definition signed :: "history_entry \<Rightarrow> bool" where
  "signed e \<longleftrightarrow> he_signature e = stable_json (PDict [(''tool'', PStr (he_tool e)), (''arguments'', PDict (he_arguments e))])
     \<and> he_signature_without_max_results e = stable_json (PDict [(''tool'', PStr (he_tool e)), (''arguments'', PDict (dict_pop ''max_results'' (he_arguments e)))])"

lemma entry_signed: "history_entry_of rootf c = Inr e \<Longrightarrow> signed e"
  by (auto simp: history_entry_of_def rbind_eq_Inr signed_def)

lemma repeats_code:
  assumes "signed p" "signed e" "plain_entry p" "plain_entry e"
  shows "he_signature p = he_signature e \<or> is_max_results_only_broader_repeat p e \<or> is_search_glob_broader_repeat p e \<longleftrightarrow> repeats p e"
proof -
  have a: "he_signature p = he_signature e \<longleftrightarrow> he_tool p = he_tool e \<and> same_arguments (he_arguments p) (he_arguments e)"
    using assms signature_inject by (simp add: signed_def plain_entry_def del: json_plain.simps)
  have b: "he_signature_without_max_results p = he_signature_without_max_results e \<longleftrightarrow>
      he_tool p = he_tool e \<and> same_arguments (dict_pop ''max_results'' (he_arguments p)) (dict_pop ''max_results'' (he_arguments e))"
    using assms signature_inject plain_pop by (simp add: signed_def plain_entry_def del: json_plain.simps)
  have c: "is_max_results_only_broader_repeat p e \<longleftrightarrow> he_tool p = he_tool e \<and>
      same_arguments (dict_pop ''max_results'' (he_arguments p)) (dict_pop ''max_results'' (he_arguments e))
      \<and> (\<exists>m n. max_results_of p = Some m \<and> max_results_of e = Some n \<and> m \<le> n)"
    unfolding is_max_results_only_broader_repeat_def b by (auto simp: max_results_of_def split: sum.split)
  show ?thesis unfolding a c repeats_def is_search_glob_broader_repeat_def by auto
qed

lemma decision_exact:
  assumes "\<forall>p \<in> set ps. signed p \<and> plain_entry p" "signed e" "plain_entry e"
  shows "(de_blocked (decision_for_entry ps e) \<longleftrightarrow> (\<exists>p \<in> set ps. repeats p e))
    \<and> (de_blocked (decision_for_entry ps e) \<longrightarrow> (\<exists>p \<in> set ps. repeats p e \<and> de_previous_call_id (decision_for_entry ps e) = he_call_id p))"
  using assms
proof (induction ps)
  case (Cons p ps)
  have r: "he_signature p = he_signature e \<or> is_max_results_only_broader_repeat p e \<or> is_search_glob_broader_repeat p e \<longleftrightarrow> repeats p e"
    using Cons.prems by (intro repeats_code) simp_all
  have IH: "(de_blocked (decision_for_entry ps e) \<longleftrightarrow> (\<exists>p \<in> set ps. repeats p e))
    \<and> (de_blocked (decision_for_entry ps e) \<longrightarrow> (\<exists>p \<in> set ps. repeats p e \<and> de_previous_call_id (decision_for_entry ps e) = he_call_id p))"
    using Cons by simp
  show ?case
  proof (cases "repeats p e")
    case True
    then show ?thesis using r by (auto simp: blocked_def)
  next
    case False
    then show ?thesis using r IH by auto
  qed
qed (simp add: not_blocked_def)

lemma last_n_last_n: "last_n n (last_n n xs @ [x]) = last_n n (xs @ [x])"
  by (cases "length xs \<le> n") (simp_all add: last_n_def Suc_diff_le)

lemma guard_history: "fold (guard_step rootf) cs [] = last_n 24 (searches rootf cs)"
proof (induction cs rule: rev_induct)
  case (snoc c cs)
  show ?case
  proof (cases "guarded_tool c")
    case True
    then show ?thesis using snoc
      by (cases "history_entry_of rootf c")
        (simp_all add: guard_step_def inspect_and_record_def guarded_tool_def searches_def List.map_filter_def last_n_last_n)
  qed (use snoc in \<open>simp add: guard_step_def inspect_and_record_def guarded_tool_def searches_def List.map_filter_def\<close>)
qed (simp add: searches_def List.map_filter_def last_n_def)

text \<open>C5. A search is blocked exactly when it repeats one of the last 24 searches of the turn. The code compares JSON texts of the
  arguments with sorted keys; since what is written can be read back, equal texts are equal arguments, and no two different searches
  are taken for one another. The answer names one of the searches that are repeated. Calls of other tools are never blocked and
  leave no trace.\<close>

theorem repeated_searches_blocked:
  assumes "history_entry_of rootf c = Inr e" and "plain_entry e" and "\<forall>p \<in> set (searches rootf cs). plain_entry p"
  shows "\<exists>d. inspect_and_record rootf c (fold (guard_step rootf) cs []) = Inr (fold (guard_step rootf) (cs @ [c]) [], d)
    \<and> (de_blocked d \<longleftrightarrow> guarded_tool c \<and> (\<exists>p \<in> set (last_n 24 (searches rootf cs)). repeats p e))
    \<and> (de_blocked d \<longrightarrow> (\<exists>p \<in> set (last_n 24 (searches rootf cs)). repeats p e \<and> de_previous_call_id d = he_call_id p))"
proof (cases "guarded_tool c")
  case True
  let ?h = "last_n 24 (searches rootf cs)"
  have "\<forall>p \<in> set (searches rootf cs). signed p"
    using entry_signed by (force simp: searches_def List.map_filter_def split: sum.splits if_splits)
  then have "\<forall>p \<in> set (rev ?h). signed p \<and> plain_entry p" using assms(3) set_last_n [of 24 "searches rootf cs"] by auto
  from decision_exact [OF this entry_signed [OF assms(1)] assms(2)]
  have d: "(de_blocked (decision_for_entry (rev ?h) e) \<longleftrightarrow> (\<exists>p \<in> set ?h. repeats p e))
    \<and> (de_blocked (decision_for_entry (rev ?h) e) \<longrightarrow> (\<exists>p \<in> set ?h. repeats p e \<and> de_previous_call_id (decision_for_entry (rev ?h) e) = he_call_id p))"
    by simp
  have i: "inspect_and_record rootf c ?h = Inr (last_n 24 (?h @ [e]), decision_for_entry (rev ?h) e)"
    using True assms(1) by (simp add: inspect_and_record_def guarded_tool_def)
  then have "fold (guard_step rootf) (cs @ [c]) [] = last_n 24 (?h @ [e])" by (simp add: guard_history [of rootf cs] guard_step_def)
  then show ?thesis using i d True unfolding guard_history [of rootf cs] by auto
next
  case False
  then have "inspect_and_record rootf c h = Inr (h, not_blocked)" for h by (simp add: inspect_and_record_def guarded_tool_def)
  then show ?thesis using False by (auto simp: guard_step_def not_blocked_def)
qed

section \<open>Calls that are read again\<close>

lemma word_not_space: "is_word_char c \<Longrightarrow> \<not> is_space c"
  by (auto simp: is_word_char_def is_space_def Let_def)

lemma set_strip_chars: "set (strip_chars A s) \<subseteq> set s"
  unfolding strip_chars_def by (auto dest!: set_dropWhileD)

lemma runtime_id_no_space: "\<forall>c \<in> set (pe_fresh E). \<not> is_space c \<Longrightarrow> \<forall>c \<in> set (build_runtime_call_id E p). \<not> is_space c"
proof -
  let ?m = "\<lambda>p. map (\<lambda>c. if is_word_char c then c else CHR ''_'') p"
  assume f: "\<forall>c \<in> set (pe_fresh E). \<not> is_space c"
  have u: "\<not> is_space (CHR ''_'')" "\<not> is_space (CHR ''-'')" "\<forall>c \<in> set ''tool''. \<not> is_space c" by (simp_all add: is_space_def char_code_def)
  have "\<forall>c \<in> set (?m q). \<not> is_space c" for q using u(1) word_not_space by auto
  then have "\<forall>c \<in> set (strip_chars {CHR ''_''} (?m q)). \<not> is_space c" for q using set_strip_chars by blast
  then show ?thesis using f u unfolding build_runtime_call_id_def Let_def by (simp only: set_append ball_Un) auto
qed

lemma call_id_stable:
  assumes "\<forall>c \<in> set (pe_fresh E). \<not> is_space c"
  shows "text_of (PStr (normalize_call_id E i p)) = normalize_call_id E i p" and "normalize_call_id E i p \<noteq> []"
proof -
  show "text_of (PStr (normalize_call_id E i p)) = normalize_call_id E i p"
    using py_strip_noop [OF runtime_id_no_space [OF assms]] by (simp add: normalize_call_id_def text_of_def)
  show "normalize_call_id E i p \<noteq> []" by (simp add: normalize_call_id_def build_runtime_call_id_def Let_def)
qed

text \<open>A call with an identifier of its own and a name, whose arguments are what their text says.\<close>

definition readable_call :: "tool_call \<Rightarrow> bool" where
  "readable_call c \<longleftrightarrow> text_of (PStr (tc_name c)) = tc_name c \<and> tc_name c \<noteq> []
     \<and> text_of (PStr (tc_call_id c)) = tc_call_id c \<and> tc_call_id c \<noteq> []
     \<and> (\<forall>E. parse_arguments E (PStr (tc_arguments_json c)) = Inr (tc_arguments c))"

lemma call_again:
  assumes "readable_call c"
  shows "from_openai_tool_call E (tc_provider c) (PDict (to_openai_tool_call (Call c))) = Inr (Some (c\<lparr>tc_raw := PDict (to_openai_tool_call (Call c))\<rparr>))"
proof -
  have "arguments_text (PStr s) = s" for s by (simp add: arguments_text_def ensure_json_text_def)
  then show ?thesis using assms
    by (simp add: readable_call_def from_openai_tool_call_def openai_function_def envelope_of_def to_openai_tool_call_def normalize_call_id_def)
qed

lemma parse_again: "parse_arguments E (PStr s) = Inr d \<Longrightarrow> parse_arguments E' (PStr s) = Inr d"
proof (cases "py_strip s = []")
  case False
  assume a: "parse_arguments E (PStr s) = Inr d"
  show ?thesis
  proof (cases "json_loads (py_strip s)")
    case (Some v)
    then show ?thesis using a False by (cases v) (simp_all add: parse_arguments_def)
  qed (use a False in \<open>simp add: parse_arguments_def\<close>)
qed (simp add: parse_arguments_def)

lemma envelope_readable:
  assumes "text_of (PStr name) = name" "name \<noteq> []" and "\<forall>c \<in> set (pe_fresh E). \<not> is_space c"
    and "envelope_of E provider item (Some (name, raw, ident)) = Inr (Some c)"
  shows "readable_call c \<and> tc_provider c = provider"
proof -
  obtain arguments where a: "parse_arguments E (PStr (arguments_text raw)) = Inr arguments"
    and c: "c = \<lparr>tc_name = name, tc_call_id = normalize_call_id E ident provider, tc_arguments = arguments,
        tc_arguments_json = arguments_text raw, tc_provider = provider, tc_raw = item\<rparr>"
    using assms(4) by (cases "parse_arguments E (PStr (arguments_text raw))") (auto simp: envelope_of_def rbind_def)
  have "parse_arguments E' (PStr (arguments_text raw)) = Inr arguments" for E' using a by (rule parse_again)
  then show ?thesis using assms(1,2) call_id_stable [OF assms(3), of ident provider] by (simp add: c readable_call_def)
qed

lemma strip_braces: "py_strip (CHR ''{'' # s @ ''}'') = CHR ''{'' # s @ ''}''"
proof -
  have "\<not> is_space (CHR ''{'')" "\<not> is_space (CHR ''}'')" by (simp_all add: is_space_def char_code_def)
  then show ?thesis by (simp add: py_strip_def py_lstrip_def py_rstrip_def)
qed

text \<open>The text of an object says the object.\<close>

lemma object_text:
  assumes "json_plain (PDict d)"
  shows "parse_arguments E (PStr (arguments_text (PDict d))) = Inr d"
proof -
  obtain s where s: "json_dumps (PDict d) = CHR ''{'' # s @ ''}''" by (simp add: json_dumps_def)
  have "json_loads (json_dumps (PDict d)) = Some (PDict d)" using assms by (rule json_dumps_loads)
  then show ?thesis by (simp add: arguments_text_def ensure_json_text_def parse_arguments_def s strip_braces)
qed

lemma gemini_readable:
  assumes g: "from_gemini_function_call E provider item = Inr (Some c)" and fresh: "\<forall>x \<in> set (pe_fresh E). \<not> is_space x"
    and plain: "\<And>d. get (dict_items item) ''args'' = PDict d \<Longrightarrow> json_plain (PDict d)"
  shows "readable_call c \<and> tc_provider c = provider"
proof -
  obtain d arguments where d: "item = PDict d" "text_of (get d ''name'') \<noteq> []" "parse_arguments E (get d ''args'') = Inr arguments"
    and c: "c = \<lparr>tc_name = text_of (get d ''name''), tc_call_id = normalize_call_id E (py_or (get d ''call_id'') (get d ''id'')) provider,
        tc_arguments = arguments, tc_arguments_json = arguments_text (get d ''args''), tc_provider = provider, tc_raw = item\<rparr>"
    using g by (auto simp: from_gemini_function_call_def rbind_eq_Inr split: pyval.splits if_split_asm)
  have "parse_arguments E' (PStr (arguments_text (get d ''args''))) = Inr arguments" for E'
  proof (cases "get d ''args''")
    case PNone
    have "json_plain (PDict [])" by simp
    from object_text [OF this] show ?thesis using d(3) PNone by (simp add: arguments_text_def parse_arguments_def [of E PNone])
  next
    case (PStr s)
    then show ?thesis using d(3) parse_again [of E s arguments E'] by (simp add: arguments_text_def ensure_json_text_def)
  next
    case (PDict a)
    then show ?thesis using d(3) object_text [OF plain [unfolded d(1) dict_items.simps, OF PDict]] by (simp add: parse_arguments_def [of E "PDict a"])
  qed (use d(3) in \<open>simp_all add: parse_arguments_def\<close>)
  then show ?thesis using d(2) call_id_stable [OF fresh] by (simp add: readable_call_def c text_of_def)
qed

text \<open>C40. A call survives the way back to the model: written in the form of the OpenAI protocol and read again it is the same call, with the
  same name, identifier, arguments and their text, whether it came as a call of that protocol, of the responses protocol or of Gemini, and
  although it may have got its identifier here. Gemini sends arguments as an object; of those it is claimed for objects that are plain
  JSON, without floats.\<close>

theorem tool_call_roundtrip:
  assumes "from_openai_tool_call E provider item = Inr (Some c) \<or> from_responses_function_call E provider item = Inr (Some c)
      \<or> from_gemini_function_call E provider item = Inr (Some c) \<and> (\<forall>d. get (dict_items item) ''args'' = PDict d \<longrightarrow> json_plain (PDict d))"
    and "\<forall>x \<in> set (pe_fresh E). \<not> is_space x"
  shows "from_openai_tool_call E' provider (PDict (to_openai_tool_call (Call c))) = Inr (Some (c\<lparr>tc_raw := PDict (to_openai_tool_call (Call c))\<rparr>))"
proof -
  have "readable_call c \<and> tc_provider c = provider"
  proof (cases "from_gemini_function_call E provider item = Inr (Some c) \<and> (\<forall>d. get (dict_items item) ''args'' = PDict d \<longrightarrow> json_plain (PDict d))")
    case True
    then show ?thesis using gemini_readable assms(2) by blast
  next
    case False
    then obtain f where fi: "f = openai_function item \<or> f = responses_function item" and e: "envelope_of E provider item f = Inr (Some c)"
      using assms(1) unfolding from_openai_tool_call_def from_responses_function_call_def by blast
    then obtain name raw ident where ff: "f = Some (name, raw, ident)" by (cases f) (auto simp: envelope_of_def)
    then have f: "openai_function item = Some (name, raw, ident) \<or> responses_function item = Some (name, raw, ident)" using fi by auto
    have "text_of (PStr name) = name \<and> name \<noteq> []"
    proof (cases item)
      case (PDict d)
      then show ?thesis using f
        by (cases "get d ''function''") (auto simp: openai_function_def responses_function_def text_of_def split: if_split_asm)
    qed (use f in \<open>simp_all add: openai_function_def responses_function_def\<close>)
    then show ?thesis using envelope_readable assms(2) e [unfolded ff] by blast
  qed
  then show ?thesis using call_again by blast
qed

section \<open>Concrete searches and calls\<close>

definition sample_entry :: "int \<Rightarrow> history_entry" where
  "sample_entry n = (case history_entry_of (\<lambda>p. p) (sample_search ''b'' n) of Inr e \<Rightarrow> e)"

lemma sample_entry_ok: "history_entry_of (\<lambda>p. p) (sample_search i n) = Inr (sample_entry n\<lparr>he_call_id := i\<rparr>)"
  by (simp add: sample_entry_def history_entry_of_def sample_search_def sample_call_def normalize_args_def normalize_arg_def)

theorem repeated_searches_blocked_witness:
  "\<exists>d h. inspect_and_record (\<lambda>p. p) (sample_search ''b'' 9) (fold (guard_step (\<lambda>p. p)) [sample_search ''a'' 5] []) = Inr (h, d)
    \<and> de_blocked d \<and> de_previous_call_id d = ''a''"
proof -
  let ?s = "searches (\<lambda>p. p) [sample_search ''a'' 5]"
  have g: "guarded_tool (sample_search i n)" for i n by (simp add: guarded_tool_def sample_search_def sample_call_def LOOP_GUARDED_TOOLS_def) code_simp
  have s: "?s = [sample_entry 5\<lparr>he_call_id := ''a''\<rparr>]" using g by (simp add: searches_def List.map_filter_def sample_entry_ok)
  have a: "he_arguments (sample_entry n) = [(''query'', PStr ''x''), (''max_results'', PInt n)]" "he_tool (sample_entry n) = ''rg_search_text''" for n
    by (simp_all add: sample_entry_def history_entry_of_def sample_search_def sample_call_def normalize_args_def normalize_arg_def)
  have p: "plain_entry (sample_entry n\<lparr>he_call_id := i\<rparr>)" if "n = 5 \<or> n = 9" for n i
  proof -
    have "length (nat_str 5) \<le> 4300" "length (nat_str 9) \<le> 4300" by code_simp+
    then show ?thesis using that by (auto simp: plain_entry_def a)
  qed
  have ps: "\<forall>e \<in> set ?s. plain_entry e" unfolding s using p by simp
  have r: "\<exists>e \<in> set (last_n 24 ?s). repeats e (sample_entry 9\<lparr>he_call_id := ''b''\<rparr>)"
    unfolding s by (simp add: last_n_def repeats_def max_results_of_def a dict_pop_def same_arguments_def)
  show ?thesis using repeated_searches_blocked [OF sample_entry_ok [of "''b''" 9] p [OF disjI2 [OF refl]] ps] g r unfolding s by (auto simp: last_n_def)
qed

theorem tool_call_roundtrip_witness:
  "\<exists>c. from_gemini_function_call \<lparr>pe_bad_json = (\<lambda>s. s), pe_fresh = ''7f''\<rparr> ''gemini''
       (PDict [(''name'', PStr ''run''), (''args'', PDict [(''n'', PInt 1)])]) = Inr (Some c)
    \<and> tc_call_id c = ''gemini-7f'' \<and> tc_arguments c = [(''n'', PInt 1)]
    \<and> from_openai_tool_call \<lparr>pe_bad_json = (\<lambda>s. s), pe_fresh = ''00''\<rparr> ''gemini'' (PDict (to_openai_tool_call (Call c)))
        = Inr (Some (c\<lparr>tc_raw := PDict (to_openai_tool_call (Call c))\<rparr>))"
proof -
  let ?E = "\<lparr>pe_bad_json = (\<lambda>s. s), pe_fresh = ''7f''\<rparr>"
  let ?i = "PDict [(''name'', PStr ''run''), (''args'', PDict [(''n'', PInt 1)])]"
  have "case from_gemini_function_call ?E ''gemini'' ?i of Inr (Some c) \<Rightarrow> tc_call_id c = ''gemini-7f'' \<and> tc_arguments c = [(''n'', PInt 1)] | _ \<Rightarrow> False"
    by code_simp
  then obtain c where c: "from_gemini_function_call ?E ''gemini'' ?i = Inr (Some c)" "tc_call_id c = ''gemini-7f''" "tc_arguments c = [(''n'', PInt 1)]"
    by (auto split: sum.splits option.splits)
  have f: "\<forall>x \<in> set (pe_fresh ?E). \<not> is_space x" by code_simp
  have "length (nat_str (nat \<bar>1\<bar>)) \<le> 4300" by code_simp
  then have p: "\<forall>d. get (dict_items ?i) ''args'' = PDict d \<longrightarrow> json_plain (PDict d)" by (simp add: getd_def)
  show ?thesis using c tool_call_roundtrip [OF disjI2 [OF disjI2 [OF conjI [OF c(1) p]]] f] by blast
qed

end
