(* ===== verification/LiveOutput.thy ===== *)
theory LiveOutput
  imports JsonText "HOL-Library.Sublist"
begin

text \<open>
  The live output of a node (\<open>web_backend/node_live_output.py\<close>), the publisher that sends it at a bounded rate
  (\<open>web_backend/node_live_event_publisher.py\<close>) and the stream of events of the backend (\<open>web_backend/graph_event_stream.py\<close>), up to the
  events that the stream holds for its subscribers. What the web client makes of them is not part of the model.
\<close>

section \<open>Bounded events\<close>

definition MAX_LIVE_ACTIVITY_BLOCKS :: nat where "MAX_LIVE_ACTIVITY_BLOCKS = 64"
definition MAX_LIVE_EVENT_STRING_CHARS :: nat where "MAX_LIVE_EVENT_STRING_CHARS = 4096"
definition MAX_LIVE_EVENT_LIST_ITEMS :: nat where "MAX_LIVE_EVENT_LIST_ITEMS = 64"
definition MAX_LIVE_EVENT_DICT_FIELDS :: nat where "MAX_LIVE_EVENT_DICT_FIELDS = 64"
definition MAX_LIVE_EVENT_DEPTH :: nat where "MAX_LIVE_EVENT_DEPTH = 4"
definition MAX_LIVE_MEDIA_CHUNKS :: nat where "MAX_LIVE_MEDIA_CHUNKS = 96"

text \<open>The first argument is the character that ends a text that was cut, the second how many levels are left before
  \<open>MAX_LIVE_EVENT_DEPTH\<close>.\<close>

fun compact_live_value :: "string \<Rightarrow> nat \<Rightarrow> pyval \<Rightarrow> pyval" where
  "compact_live_value dots 0 v = PStr ''[nested value omitted]''"
| "compact_live_value dots (Suc n) (PStr s) =
     PStr (if length s \<le> MAX_LIVE_EVENT_STRING_CHARS then s else take MAX_LIVE_EVENT_STRING_CHARS s @ dots)"
| "compact_live_value dots (Suc n) (PDict d) = PDict (let
     output = map (\<lambda>(k, v). (k, compact_live_value dots n v)) (take MAX_LIVE_EVENT_DICT_FIELDS d)
     in if length d \<le> MAX_LIVE_EVENT_DICT_FIELDS then output
        else dict_set ''_truncated_fields'' (PInt (int (length d) - int MAX_LIVE_EVENT_DICT_FIELDS)) output)"
| "compact_live_value dots (Suc n) (PList xs) = PList (map (compact_live_value dots n) (take MAX_LIVE_EVENT_LIST_ITEMS xs) @
     (if length xs \<le> MAX_LIVE_EVENT_LIST_ITEMS then []
      else [PDict [(''_truncated_items'', PInt (int (length xs) - int MAX_LIVE_EVENT_LIST_ITEMS))]]))"
| "compact_live_value dots (Suc n) v = v"

definition compact_live_event :: "string \<Rightarrow> pydict \<Rightarrow> pydict" where
  "compact_live_event dots event = dict_items (compact_live_value dots MAX_LIVE_EVENT_DEPTH (PDict event))"

section \<open>The store\<close>

text \<open>A node of a graph. The fields of an item that are read with a default are those of \<open>no_item\<close> where the item lacks them.\<close>

type_synonym node_key = "string \<times> string"

record live_item =
  li_text :: string
  li_thinking :: string
  li_live_delta :: string
  li_thinking_delta :: string
  li_snapshot_required :: bool
  li_activity_blocks :: "pydict list"
  li_activity_changed :: bool
  li_media_chunks :: "pydict list"
  li_trace_id :: string
  li_updated_at :: rat
  li_streaming :: bool
  li_version :: nat
  li_event_type :: string
  li_event :: "pydict option"
  li_session :: string

definition no_item :: "nat \<Rightarrow> live_item" where
  "no_item v = \<lparr>li_text = [], li_thinking = [], li_live_delta = [], li_thinking_delta = [], li_snapshot_required = False,
     li_activity_blocks = [], li_activity_changed = False, li_media_chunks = [], li_trace_id = [], li_updated_at = 0, li_streaming = False,
     li_version = v, li_event_type = [], li_event = None, li_session = []\<rparr>"

record live_store =
  lo_items :: "node_key \<Rightarrow> live_item option"
  lo_versions :: "node_key \<Rightarrow> nat"

definition live_key :: "string \<Rightarrow> string \<Rightarrow> node_key" where
  "live_key graph_id node_id = (let g = py_strip (if graph_id = [] then ''default'' else graph_id) in
     (if g = [] then ''default'' else g, py_strip node_id))"

definition get_live :: "node_key \<Rightarrow> live_store \<Rightarrow> live_item" where
  "get_live key s = (case lo_items s key of Some item \<Rightarrow> item | None \<Rightarrow> no_item (lo_versions s key))"

text \<open>\<open>self._items[key] = item\<close> with the next version\<close>

definition put_live :: "node_key \<Rightarrow> live_item \<Rightarrow> live_store \<Rightarrow> live_store" where
  "put_live key item s = s\<lparr>lo_items := (lo_items s)(key \<mapsto> item\<lparr>li_version := Suc (lo_versions s key)\<rparr>),
     lo_versions := (lo_versions s)(key := Suc (lo_versions s key))\<rparr>"

definition snapshot_needed :: "string \<Rightarrow> string \<Rightarrow> string \<Rightarrow> bool" where
  "snapshot_needed previous next_text next_delta \<longleftrightarrow>
     \<not> (length next_text = length previous + length next_delta \<and> prefix previous next_text \<and> suffix next_delta next_text)"

text \<open>The operations give the new store and whether the change is told to the publisher.\<close>

definition update_text :: "rat \<Rightarrow> node_key \<Rightarrow> string \<Rightarrow> string \<Rightarrow> string \<Rightarrow> live_store \<Rightarrow> live_store \<times> bool" where
  "update_text now key text trace_id delta s = (if snd key = [] then (s, False) else
     (let current = get_live key s; snap = snapshot_needed (li_text current) text delta
      in (put_live key \<lparr>li_text = text, li_thinking = li_thinking current, li_live_delta = (if snap then [] else delta), li_thinking_delta = [],
            li_snapshot_required = snap, li_activity_blocks = li_activity_blocks current, li_activity_changed = False,
            li_media_chunks = li_media_chunks current, li_trace_id = trace_id, li_updated_at = now, li_streaming = True, li_version = 0,
            li_event_type = [], li_event = None, li_session = li_session current\<rparr> s, True)))"

definition trace_or :: "string \<Rightarrow> live_item \<Rightarrow> string" where
  "trace_or trace_id current = (if trace_id = [] then li_trace_id current else trace_id)"

definition type_or :: "pydict \<Rightarrow> string \<Rightarrow> string" where
  "type_or event d = py_str (py_or (get event ''type'') (PStr d))"

definition update_thinking :: "string \<Rightarrow> rat \<Rightarrow> node_key \<Rightarrow> string \<Rightarrow> string \<Rightarrow> pydict \<Rightarrow> string \<Rightarrow> live_store \<Rightarrow> live_store \<times> bool" where
  "update_thinking dots now key text trace_id event delta s = (if snd key = [] then (s, False) else
     (let current = get_live key s; snap = snapshot_needed (li_thinking current) text delta
      in (put_live key \<lparr>li_text = li_text current, li_thinking = text, li_live_delta = [], li_thinking_delta = (if snap then [] else delta),
            li_snapshot_required = snap, li_activity_blocks = li_activity_blocks current, li_activity_changed = False,
            li_media_chunks = li_media_chunks current, li_trace_id = trace_or trace_id current, li_updated_at = now, li_streaming = True,
            li_version = 0, li_event_type = ''node_thinking_delta'',
            li_event = Some (compact_live_event dots [(''type'', PStr (type_or event ''node_thinking_delta'')), (''delta'', PStr delta)]),
            li_session = li_session current\<rparr> s, True)))"

definition merge_field :: "pydict \<Rightarrow> pydict \<Rightarrow> string \<Rightarrow> pydict \<Rightarrow> pydict" where
  "merge_field existing new_block field merged = (case (get existing field, get new_block field) of
     (PDict a, PDict b) \<Rightarrow> dict_set field (PDict (AList.updates (map fst b) (map snd b) a)) merged | _ \<Rightarrow> merged)"

definition merge_block :: "pydict \<Rightarrow> pydict \<Rightarrow> pydict" where
  "merge_block existing new_block = merge_field existing new_block ''details'' (merge_field existing new_block ''action''
     (AList.updates (map fst new_block) (map snd new_block) existing))"

fun place_block :: "string \<Rightarrow> pydict \<Rightarrow> pydict list \<Rightarrow> pydict list" where
  "place_block block_id new_block [] = [new_block]"
| "place_block block_id new_block (b # bs) =
     (if text_of (get b ''id'') = block_id then merge_block b new_block # bs else b # place_block block_id new_block bs)"

text \<open>An item that keeps what the node shows and carries an event.\<close>

definition event_item :: "rat \<Rightarrow> live_item \<Rightarrow> string \<Rightarrow> string \<Rightarrow> pydict \<Rightarrow> live_item" where
  "event_item now current trace_id event_type event = \<lparr>li_text = li_text current, li_thinking = li_thinking current, li_live_delta = [],
     li_thinking_delta = [], li_snapshot_required = False, li_activity_blocks = li_activity_blocks current, li_activity_changed = False,
     li_media_chunks = li_media_chunks current, li_trace_id = trace_or trace_id current, li_updated_at = now, li_streaming = True,
     li_version = 0, li_event_type = event_type, li_event = Some event, li_session = li_session current\<rparr>"

definition update_activity :: "string \<Rightarrow> rat \<Rightarrow> node_key \<Rightarrow> pydict \<Rightarrow> string \<Rightarrow> pydict \<Rightarrow> live_store \<Rightarrow> (py_error, live_store \<times> bool) res" where
  "update_activity dots now key block trace_id event s = (if snd key = [] then Inr (s, False) else
     (let block_id = text_of (get block ''id''); block_type = py_lower (text_of (get block ''type'')) in
      if block_id = [] \<or> block_type = [] then Inl ValueError else
      (let current = get_live key s; blocks = place_block block_id (compact_live_event dots block) (li_activity_blocks current)
       in Inr (put_live key ((event_item now current trace_id (type_or event ''live_activity'') (compact_live_event dots event))
            \<lparr>li_activity_blocks := last_n MAX_LIVE_ACTIVITY_BLOCKS blocks, li_activity_changed := True\<rparr>) s, True))))"

definition remove_activity :: "string \<Rightarrow> rat \<Rightarrow> node_key \<Rightarrow> string \<Rightarrow> string \<Rightarrow> pydict \<Rightarrow> live_store \<Rightarrow> live_store \<times> bool" where
  "remove_activity dots now key block_id trace_id event s = (if snd key = [] \<or> py_strip block_id = [] then (s, False) else
     (let current = get_live key s; remaining = filter (\<lambda>b. text_of (get b ''id'') \<noteq> py_strip block_id) (li_activity_blocks current)
      in if length remaining = length (li_activity_blocks current) then (s, False)
         else (put_live key ((event_item now current trace_id (type_or event ''live_activity_removed'') (compact_live_event dots event))
            \<lparr>li_activity_blocks := remaining, li_activity_changed := True\<rparr>) s, True)))"

definition media_after :: "string \<Rightarrow> pydict \<Rightarrow> pydict list \<Rightarrow> pydict list" where
  "media_after event_type event chunks = (let is_start = (\<lambda>c. py_lower (str_or (get c ''type'')) = ''audio_stream_start'') in
     if event_type = ''audio_stream_start'' then [event]
     else if event_type = ''audio_stream_chunk'' \<or> event_type = ''audio_stream_end''
     then last_n 1 (filter is_start chunks) @ last_n (MAX_LIVE_MEDIA_CHUNKS - 2) (filter (\<lambda>c. \<not> is_start c) chunks) @ [event]
     else chunks)"

definition session_after :: "string \<Rightarrow> pydict \<Rightarrow> string \<Rightarrow> string" where
  "session_after event_type event session = (if event_type = ''stdin_ready'' then str_or (get event ''session_id'')
     else if event_type = ''stdin_closed'' \<or> event_type = ''node_message_done'' then [] else session)"

definition publish_event :: "string \<Rightarrow> rat \<Rightarrow> node_key \<Rightarrow> string \<Rightarrow> pydict \<Rightarrow> string \<Rightarrow> live_store \<Rightarrow> live_store \<times> bool" where
  "publish_event dots now key event_type event trace_id s = (if snd key = [] then (s, False) else
     (let current = get_live key s; lower = py_lower (py_strip event_type); compact = compact_live_event dots event
      in (put_live key ((event_item now current trace_id (py_strip event_type) compact)
            \<lparr>li_media_chunks := media_after lower compact (li_media_chunks current), li_streaming := li_streaming current,
             li_session := session_after lower event (li_session current)\<rparr>) s, True)))"

definition publish_completion_event :: "string \<Rightarrow> rat \<Rightarrow> node_key \<Rightarrow> string \<Rightarrow> pydict \<Rightarrow> string \<Rightarrow> live_store \<Rightarrow> live_store \<times> bool" where
  "publish_completion_event dots now key event_type event trace_id s = (if snd key = [] then (s, False) else
     (let current = get_live key s
      in (put_live key ((event_item now current trace_id (py_strip event_type) (compact_live_event dots event))
            \<lparr>li_text := [], li_thinking := [], li_activity_blocks := [], li_activity_changed := True, li_streaming := False, li_session := []\<rparr>) s, True)))"

definition clear_live :: "node_key \<Rightarrow> live_store \<Rightarrow> live_store \<times> bool" where
  "clear_live key s = (if lo_items s key = None then (s, False)
     else (s\<lparr>lo_items := (lo_items s)(key := None), lo_versions := (lo_versions s)(key := Suc (lo_versions s key))\<rparr>, True))"

text \<open>\<open>None\<close> while the caller waits.\<close>

definition wait_for_live_change :: "bool \<Rightarrow> node_key \<Rightarrow> nat \<Rightarrow> live_store \<Rightarrow> live_item option" where
  "wait_for_live_change expired key last_version s =
     (if lo_versions s key \<le> last_version \<and> \<not> expired then None else Some (get_live key s))"

section \<open>Frames\<close>

record live_payload =
  lp_node_id :: string
  lp_graph_id :: string
  lp_snapshot :: bool
  lp_base_version :: nat
  lp_live_message :: string
  lp_thinking_message :: string
  lp_live_delta :: string
  lp_thinking_delta :: string
  lp_version :: nat
  lp_trace_id :: string
  lp_updated_at :: rat
  lp_streaming :: bool
  lp_event_type :: string
  lp_event :: "pydict option"
  lp_session :: string
  lp_media_chunks :: "pydict list"
  lp_activity_blocks :: "pydict list option"

definition live_output_requires_snapshot :: "live_item \<Rightarrow> nat \<Rightarrow> bool" where
  "live_output_requires_snapshot item last_version \<longleftrightarrow> li_snapshot_required item \<or> li_version item \<noteq> last_version + 1"

definition build_live_output_payload :: "node_key \<Rightarrow> live_item \<Rightarrow> bool \<Rightarrow> nat \<Rightarrow> live_payload" where
  "build_live_output_payload key item snap last_version = (let send = snap \<or> live_output_requires_snapshot item last_version in
     \<lparr>lp_node_id = snd key, lp_graph_id = fst key, lp_snapshot = send,
      lp_base_version = (if send then li_version item else last_version),
      lp_live_message = (if send then li_text item else []), lp_thinking_message = (if send then li_thinking item else []),
      lp_live_delta = (if send then [] else li_live_delta item), lp_thinking_delta = (if send then [] else li_thinking_delta item),
      lp_version = li_version item, lp_trace_id = li_trace_id item, lp_updated_at = li_updated_at item, lp_streaming = li_streaming item,
      lp_event_type = li_event_type item, lp_event = li_event item, lp_session = li_session item, lp_media_chunks = li_media_chunks item,
      lp_activity_blocks = (if send \<or> li_activity_changed item then Some (li_activity_blocks item) else None)\<rparr>)"

definition can_send_delta :: "live_item option \<Rightarrow> live_item \<Rightarrow> bool" where
  "can_send_delta previous current \<longleftrightarrow> (case previous of None \<Rightarrow> False | Some p \<Rightarrow> li_trace_id p = li_trace_id current
     \<and> prefix (li_text p) (li_text current) \<and> prefix (li_thinking p) (li_thinking current))"

definition build_coalesced_live_payload :: "node_key \<Rightarrow> live_item option \<Rightarrow> live_item \<Rightarrow> live_payload" where
  "build_coalesced_live_payload key previous current = (let pv = (case previous of None \<Rightarrow> 0 | Some p \<Rightarrow> li_version p) in
     if \<not> can_send_delta previous current then build_live_output_payload key current True pv
     else (build_live_output_payload key (current\<lparr>li_live_delta := drop (length (li_text (the previous))) (li_text current),
            li_thinking_delta := drop (length (li_thinking (the previous))) (li_thinking current), li_snapshot_required := False\<rparr>)
          False (li_version current - 1))\<lparr>lp_base_version := pv\<rparr>)"

section \<open>The stream of events\<close>

text \<open>An event with the fields that the stream adds.\<close>

record 'e stamped =
  st_event :: 'e
  st_graph :: string
  st_version :: nat
  st_global :: "nat option"

record 'e event_stream =
  es_versions :: "string \<Rightarrow> nat"
  es_events :: "string \<Rightarrow> 'e stamped option"
  es_history_limit :: nat
  es_history :: "string \<Rightarrow> 'e stamped list"
  es_global :: nat
  es_global_history :: "'e stamped list"

definition new_event_stream :: "nat \<Rightarrow> 'e event_stream" where
  "new_event_stream limit = \<lparr>es_versions = (\<lambda>g. 0), es_events = (\<lambda>g. None), es_history_limit = max 1 limit, es_history = (\<lambda>g. []),
     es_global = 0, es_global_history = []\<rparr>"

definition graph_name :: "string \<Rightarrow> string" where
  "graph_name g = (let s = py_strip (if g = [] then ''default'' else g) in if s = [] then ''default'' else s)"

definition stream_publish :: "string \<Rightarrow> 'e \<Rightarrow> 'e event_stream \<Rightarrow> 'e event_stream" where
  "stream_publish graph_id event es = (let g = graph_name graph_id; version = Suc (es_versions es g);
       payload = \<lparr>st_event = event, st_graph = g, st_version = version, st_global = None\<rparr>
     in es\<lparr>es_versions := (es_versions es)(g := version), es_events := (es_events es)(g \<mapsto> payload),
        es_history := (es_history es)(g := last_n (es_history_limit es) (es_history es g @ [payload])),
        es_global := Suc (es_global es),
        es_global_history := last_n (es_history_limit es) (es_global_history es @ [payload\<lparr>st_global := Some (Suc (es_global es))\<rparr>])\<rparr>)"

datatype 'e graph_item = GraphEvent "'e stamped" | NoEvent string nat

definition stream_get :: "string \<Rightarrow> 'e event_stream \<Rightarrow> 'e graph_item" where
  "stream_get graph_id es = (let g = graph_name graph_id in
     case es_events es g of Some e \<Rightarrow> GraphEvent e | None \<Rightarrow> NoEvent g (es_versions es g))"

definition wait_for_graph_change :: "bool \<Rightarrow> string \<Rightarrow> nat \<Rightarrow> 'e event_stream \<Rightarrow> 'e graph_item option" where
  "wait_for_graph_change expired graph_id last_version es = (if es_versions es (graph_name graph_id) \<le> last_version \<and> \<not> expired then None
     else (case find (\<lambda>e. last_version < st_version e) (es_history es (graph_name graph_id)) of
         Some e \<Rightarrow> Some (GraphEvent e) | None \<Rightarrow> Some (stream_get graph_id es)))"

datatype 'e stream_item = StreamEvent "'e stamped" | StreamGap nat nat

fun global_of :: "'e stamped \<Rightarrow> nat" where
  "global_of e = (case st_global e of None \<Rightarrow> 0 | Some n \<Rightarrow> n)"

definition wait_for_global_change :: "nat \<Rightarrow> 'e event_stream \<Rightarrow> 'e stream_item option" where
  "wait_for_global_change last_version es = (if es_global es \<le> last_version then None
     else (case es_global_history es of
         e # _ \<Rightarrow> if last_version + 1 < global_of e then Some (StreamGap (last_version + 1) (global_of e - 1))
            else map_option StreamEvent (find (\<lambda>e. last_version < global_of e) (es_global_history es))
       | [] \<Rightarrow> None))"

text \<open>The version with which a subscriber goes on.\<close>

fun item_global :: "'e stream_item \<Rightarrow> nat" where
  "item_global (StreamEvent e) = global_of e" | "item_global (StreamGap a b) = b"

section \<open>The publisher\<close>

text \<open>What is sent over the stream: frames of nodes, and the events of other parts.\<close>

datatype app_event = NodeLive node_key live_payload | OtherEvent pydict

record publisher =
  pu_interval :: rat
  pu_pending :: "(node_key \<times> live_item) list"
  pu_published :: "node_key \<Rightarrow> live_item option"
  pu_published_at :: "node_key \<Rightarrow> rat"
  pu_closed :: bool

definition IMMEDIATE_LIVE_EVENT_TYPES :: "string list" where
  "IMMEDIATE_LIVE_EVENT_TYPES = [''node_message_done'', ''node_error'', ''stdin_ready'', ''stdin_closed'', ''audio_stream_end'']"

definition frame_due :: "rat \<Rightarrow> publisher \<Rightarrow> node_key \<Rightarrow> bool" where
  "frame_due now p key \<longleftrightarrow> (case round_double (pu_published_at p key + pu_interval p) of Fin t \<Rightarrow> t \<le> now | _ \<Rightarrow> False)"

definition emit :: "rat \<Rightarrow> node_key \<Rightarrow> live_item \<Rightarrow> publisher \<times> app_event event_stream \<Rightarrow> publisher \<times> app_event event_stream" where
  "emit now key current = (\<lambda>(p, es).
     if (case pu_published p key of None \<Rightarrow> False | Some prev \<Rightarrow> li_version current \<le> li_version prev) then (p, es)
     else (p\<lparr>pu_published := (pu_published p)(key \<mapsto> current), pu_published_at := (pu_published_at p)(key := now)\<rparr>,
           stream_publish (fst key) (NodeLive key (build_coalesced_live_payload key (pu_published p key) current)) es))"

definition publish_live :: "rat \<Rightarrow> node_key \<Rightarrow> live_item \<Rightarrow> publisher \<times> app_event event_stream \<Rightarrow> publisher \<times> app_event event_stream" where
  "publish_live now key current = (\<lambda>(p, es). if snd key = [] \<or> pu_closed p then (p, es)
     else if pu_published p key = None \<or> py_lower (py_strip (li_event_type current)) \<in> set IMMEDIATE_LIVE_EVENT_TYPES \<or> frame_due now p key
     then emit now key current (p\<lparr>pu_pending := AList.delete key (pu_pending p)\<rparr>, es)
     else (p\<lparr>pu_pending := AList.update key current (pu_pending p)\<rparr>, es))"

definition send_one :: "rat \<Rightarrow> node_key \<times> live_item \<Rightarrow> publisher \<times> app_event event_stream \<Rightarrow> publisher \<times> app_event event_stream" where
  "send_one now = (\<lambda>(key, item) (p, es). emit now key item (p\<lparr>pu_pending := AList.delete key (pu_pending p)\<rparr>, es))"

text \<open>One turn of the thread: it sends the frames that are due.\<close>

definition send_due :: "rat \<Rightarrow> publisher \<times> app_event event_stream \<Rightarrow> publisher \<times> app_event event_stream" where
  "send_due now = (\<lambda>(p, es). if pu_closed p then (p, es)
     else fold (send_one now) (filter (\<lambda>(key, item). frame_due now p key) (pu_pending p)) (p, es))"

definition close_publisher :: "publisher \<Rightarrow> publisher" where
  "close_publisher p = p\<lparr>pu_closed := True, pu_pending := []\<rparr>"

section \<open>Everything together\<close>

datatype live_call =
    UpdateText rat node_key string string string
  | UpdateThinking rat node_key string string pydict string
  | UpdateActivity rat node_key pydict string pydict
  | RemoveActivity rat node_key string string pydict
  | PublishEvent rat node_key string pydict string
  | PublishCompletion rat node_key string pydict string
  | ClearLive node_key

fun op_node :: "live_call \<Rightarrow> node_key" where
  "op_node (UpdateText now key text trace_id delta) = key"
| "op_node (UpdateThinking now key text trace_id event delta) = key"
| "op_node (UpdateActivity now key block trace_id event) = key"
| "op_node (RemoveActivity now key block_id trace_id event) = key"
| "op_node (PublishEvent now key event_type event trace_id) = key"
| "op_node (PublishCompletion now key event_type event trace_id) = key"
| "op_node (ClearLive key) = key"

fun live_op :: "string \<Rightarrow> live_call \<Rightarrow> live_store \<Rightarrow> live_store \<times> bool" where
  "live_op dots (UpdateText now key text trace_id delta) s = update_text now key text trace_id delta s"
| "live_op dots (UpdateThinking now key text trace_id event delta) s = update_thinking dots now key text trace_id event delta s"
| "live_op dots (UpdateActivity now key block trace_id event) s =
     (case update_activity dots now key block trace_id event s of Inl e \<Rightarrow> (s, False) | Inr r \<Rightarrow> r)"
| "live_op dots (RemoveActivity now key block_id trace_id event) s = remove_activity dots now key block_id trace_id event s"
| "live_op dots (PublishEvent now key event_type event trace_id) s = publish_event dots now key event_type event trace_id s"
| "live_op dots (PublishCompletion now key event_type event trace_id) s = publish_completion_event dots now key event_type event trace_id s"
| "live_op dots (ClearLive key) s = clear_live key s"

text \<open>Writers that have changed the store and not yet read what they tell, and what they have read and not yet handed to the publisher.\<close>

record live_system =
  sy_store :: live_store
  sy_reads :: "node_key list"
  sy_sends :: "(node_key \<times> live_item) list"
  sy_publisher :: publisher
  sy_stream :: "app_event event_stream"

datatype live_act =
    Write live_call
  | Read nat
  | Send rat nat
  | SendDue rat
  | PublishOther string pydict
  | Shutdown

definition without_nth :: "nat \<Rightarrow> 'a list \<Rightarrow> 'a list" where
  "without_nth i xs = take i xs @ drop (Suc i) xs"

definition publishing :: "(publisher \<times> app_event event_stream \<Rightarrow> publisher \<times> app_event event_stream) \<Rightarrow> live_system \<Rightarrow> live_system" where
  "publishing f sy = (let (p, es) = f (sy_publisher sy, sy_stream sy) in sy\<lparr>sy_publisher := p, sy_stream := es\<rparr>)"

text \<open>A step of one of the threads; a number that stands for nobody does nothing.\<close>

fun live_step :: "string \<Rightarrow> live_act \<Rightarrow> live_system \<Rightarrow> live_system" where
  "live_step dots (Write op) sy = (let (s, told) = live_op dots op (sy_store sy) in
     sy\<lparr>sy_store := s, sy_reads := (if told then sy_reads sy @ [op_node op] else sy_reads sy)\<rparr>)"
| "live_step dots (Read i) sy = (if length (sy_reads sy) \<le> i then sy else (let key = sy_reads sy ! i in
     sy\<lparr>sy_reads := without_nth i (sy_reads sy), sy_sends := sy_sends sy @ [(key, get_live key (sy_store sy))]\<rparr>))"
| "live_step dots (Send now i) sy = (if length (sy_sends sy) \<le> i then sy else
     publishing (publish_live now (fst (sy_sends sy ! i)) (snd (sy_sends sy ! i))) (sy\<lparr>sy_sends := without_nth i (sy_sends sy)\<rparr>))"
| "live_step dots (SendDue now) sy = publishing (send_due now) sy"
| "live_step dots (PublishOther g d) sy = sy\<lparr>sy_stream := stream_publish g (OtherEvent d) (sy_stream sy)\<rparr>"
| "live_step dots Shutdown sy = sy\<lparr>sy_publisher := close_publisher (sy_publisher sy)\<rparr>"

definition start_live :: "rat \<Rightarrow> nat \<Rightarrow> live_system" where
  "start_live interval limit = \<lparr>sy_store = \<lparr>lo_items = (\<lambda>k. None), lo_versions = (\<lambda>k. 0)\<rparr>, sy_reads = [], sy_sends = [],
     sy_publisher = \<lparr>pu_interval = interval, pu_pending = [], pu_published = (\<lambda>k. None), pu_published_at = (\<lambda>k. 0), pu_closed = False\<rparr>,
     sy_stream = new_event_stream limit\<rparr>"

definition run_live :: "string \<Rightarrow> live_act list \<Rightarrow> live_system \<Rightarrow> live_system" where
  "run_live dots steps sy = fold (live_step dots) steps sy"

end
