(* ===== verification/StreamLaws.thy ===== *)
theory StreamLaws
  imports LiveOutput
begin

text \<open>
  The stream of events: a subscriber gets every event once and in order, or is told which ones it missed.
\<close>

section \<open>The stream\<close>

declare global_of.simps [simp del]

text \<open>All events that were ever published, in order; the history holds the last of them with their numbers.\<close>

definition numbered :: "'e list \<Rightarrow> ('e \<times> nat) list" where
  "numbered es = map (\<lambda>i. (es ! i, Suc i)) [0..<length es]"

definition logged :: "'e event_stream \<Rightarrow> 'e list \<Rightarrow> bool" where
  "logged es trail \<longleftrightarrow> es_global es = length trail \<and> 0 < es_history_limit es
     \<and> map (\<lambda>e. (st_event e, global_of e)) (es_global_history es) = last_n (es_history_limit es) (numbered trail)"

lemma logged_new [simp]: "logged (new_event_stream n) []"
  by (simp add: logged_def new_event_stream_def numbered_def last_n_def)

lemma numbered_snoc: "numbered (es @ [e]) = numbered es @ [(e, Suc (length es))]"
  by (auto simp: numbered_def nth_append)

lemma length_numbered [simp]: "length (numbered es) = length es"
  by (simp add: numbered_def)

lemma nth_numbered: "i < length es \<Longrightarrow> numbered es ! i = (es ! i, Suc i)"
  by (simp add: numbered_def)

lemma last_n_push: "0 < n \<Longrightarrow> last_n n (last_n n xs @ [x]) = last_n n (xs @ [x])"
  by (cases "length xs \<le> n") (simp_all add: last_n_def Suc_diff_le)

lemma map_last_n: "map f (last_n n xs) = last_n n (map f xs)"
  by (simp add: last_n_def drop_map)

lemma logged_publish:
  assumes "logged es trail"
  shows "logged (stream_publish g e es) (trail @ [e])"
proof -
  have "map (\<lambda>e. (st_event e, global_of e)) (es_global_history es @ [x]) = last_n (es_history_limit es) (numbered trail) @ [(st_event x, global_of x)]" for x
    using assms by (simp add: logged_def)
  then show ?thesis using assms
    by (simp add: logged_def stream_publish_def Let_def map_last_n numbered_snoc last_n_push global_of.simps)
qed

lemma limit_publish [simp]: "es_history_limit (stream_publish g e es) = es_history_limit es"
  by (simp add: stream_publish_def Let_def)

text \<open>The next item of a subscriber: the next event, or the gap up to the oldest event that is kept.\<close>

lemma next_item:
  assumes l: "logged es trail" and v: "v < length trail"
  defines "first \<equiv> length trail - es_history_limit es"
  shows "v < first \<Longrightarrow> wait_for_global_change v es = Some (StreamGap (Suc v) first)"
    and "first \<le> v \<Longrightarrow> \<exists>e. wait_for_global_change v es = Some (StreamEvent e) \<and> st_event e = trail ! v \<and> global_of e = Suc v"
proof -
  let ?h = "es_global_history es"
  have m: "map (\<lambda>e. (st_event e, global_of e)) ?h = drop first (numbered trail)" using l by (simp add: logged_def last_n_def first_def)
  have len: "length ?h = length trail - first" using arg_cong [OF m, of length] by simp
  have lt: "first < length trail" using l v by (auto simp: logged_def first_def)
  have n: "st_event (?h ! i) = trail ! (first + i) \<and> global_of (?h ! i) = Suc (first + i)" if "i < length ?h" for i
    using arg_cong [OF m, of "\<lambda>l. l ! i"] that len by (simp add: nth_numbered)
  obtain e rest where h: "?h = e # rest" using len lt by (cases ?h) auto
  have e: "global_of e = Suc first" using n [of 0] unfolding h by (simp)
  have g: "es_global es = length trail" using l by (simp add: logged_def)
  show "v < first \<Longrightarrow> wait_for_global_change v es = Some (StreamGap (Suc v) first)"
    using v e by (simp add: wait_for_global_change_def g h)
  assume f: "first \<le> v"
  have i: "v - first < length ?h" using f v len by simp
  have "find (\<lambda>e. v < global_of e) ?h = Some (?h ! (v - first))"
    unfolding find_Some_iff
  proof (intro exI conjI allI impI)
    show "v - first < length ?h" by (rule i)
    show "v < global_of (?h ! (v - first))" using n [OF i] f by (simp)
    fix j assume j: "j < v - first"
    then show "\<not> v < global_of (?h ! j)" using n [of j] i by (simp)
  qed simp
  then have "wait_for_global_change v es = Some (StreamEvent (?h ! (v - first)))"
    using v e f by (simp add: wait_for_global_change_def g h)
  then show "\<exists>e. wait_for_global_change v es = Some (StreamEvent e) \<and> st_event e = trail ! v \<and> global_of e = Suc v"
    using n [OF i] f by (simp)
qed

lemma no_next_item: "logged es trail \<Longrightarrow> length trail \<le> v \<Longrightarrow> wait_for_global_change v es = None"
  by (simp add: wait_for_global_change_def logged_def)

text \<open>A subscriber that asks for the next item from time to time while events are published.\<close>

datatype 'e stream_action = Publish string 'e | Ask

fun do_action :: "'e stream_action \<Rightarrow> 'e event_stream \<times> nat \<times> 'e stream_item list \<Rightarrow> 'e event_stream \<times> nat \<times> 'e stream_item list" where
  "do_action (Publish g e) (es, v, items) = (stream_publish g e es, v, items)"
| "do_action Ask (es, v, items) = (case wait_for_global_change v es of None \<Rightarrow> (es, v, items)
    | Some item \<Rightarrow> (es, item_global item, items @ [item]))"

fun published_events :: "'e stream_action list \<Rightarrow> 'e list" where
  "published_events [] = []" | "published_events (Publish g e # as) = e # published_events as" | "published_events (Ask # as) = published_events as"

fun item_numbers :: "'e stream_item \<Rightarrow> nat list" where
  "item_numbers (StreamEvent e) = [global_of e]" | "item_numbers (StreamGap a b) = [a..<Suc b]"

lemma published_events_append [simp]: "published_events (xs @ ys) = published_events xs @ published_events ys"
  by (induction xs rule: published_events.induct) auto

lemma stream_covers_inv:
  fixes es :: "'e event_stream"
  assumes "logged es old"
  shows "fold do_action as (es, length old, []) = (es', v, items) \<Longrightarrow> logged es' (old @ published_events as) \<and> es_history_limit es' = es_history_limit es \<and> length old \<le> v
    \<and> v \<le> length (old @ published_events as) \<and> concat (map item_numbers items) = [Suc (length old)..<Suc v]
    \<and> (\<forall>e. StreamEvent e \<in> set items \<longrightarrow> 0 < global_of e \<and> global_of e \<le> v \<and> st_event e = (old @ published_events as) ! (global_of e - 1))"
proof (induction as arbitrary: es' v items rule: rev_induct)
  case Nil
  then show ?case using assms by simp
next
  case (snoc a as)
  obtain es1 v1 items1 where f: "fold do_action as (es, length old, []) = (es1, v1, items1)" by (metis prod_cases3)
  note IH = snoc.IH [OF f]
  let ?all = "old @ published_events as"
  show ?case
  proof (cases a)
    case (Publish g e)
    then have "es' = stream_publish g e es1" "v = v1" "items = items1" using snoc.prems f by simp_all
    then show ?thesis using IH logged_publish [of es1 ?all g e] Publish by (auto simp: nth_append)
  next
    case Ask
    show ?thesis
    proof (cases "v1 < length ?all")
      case True
      let ?first = "length ?all - es_history_limit es1"
      show ?thesis
      proof (cases "v1 < ?first")
        case gap: True
        then have "v = ?first" "items = items1 @ [StreamGap (Suc v1) ?first]" "es' = es1"
          using snoc.prems f Ask next_item(1) [OF conjunct1 [OF IH] True gap] by auto
        then show ?thesis using IH gap Ask upt_add_eq_append [of "Suc (length old)" "Suc v1" "?first - v1"]
          by (auto simp del: upt_Suc)
      next
        case False
        then obtain e where e: "wait_for_global_change v1 es1 = Some (StreamEvent e)" "st_event e = ?all ! v1" "global_of e = Suc v1"
          using next_item(2) [OF conjunct1 [OF IH] True] by auto
        then have "v = Suc v1" "items = items1 @ [StreamEvent e]" "es' = es1" using snoc.prems f Ask by (simp_all)
        then show ?thesis using IH e True Ask by (auto)
      qed
    next
      case False
      then show ?thesis using snoc.prems f Ask IH no_next_item [OF conjunct1 [OF IH]] by auto
    qed
  qed
qed

text \<open>C17. The stream of events loses nothing silently: whatever is published before and after a subscriber begins to ask for the next item
  from time to time, the items it gets are the events with the numbers that follow, each once and in order, except for numbers that a
  gap names, and the event of a number is the one that was published as that. The next item is a gap only when more events are
  waiting than the history holds, and there is none only when nothing is waiting.\<close>

theorem stream_items_complete:
  assumes "before = fold (\<lambda>(g, e). stream_publish g e) old (new_event_stream limit)"
    and run: "fold do_action as (before, es_global before, []) = (es, v, items)"
  defines "events \<equiv> map snd old @ published_events as"
  shows "concat (map item_numbers items) = [Suc (length old)..<Suc v] \<and> v \<le> length events
    \<and> (\<forall>e. StreamEvent e \<in> set items \<longrightarrow> st_event e = events ! (global_of e - 1))
    \<and> (case wait_for_global_change v es of None \<Rightarrow> v = length events
        | Some (StreamEvent e) \<Rightarrow> global_of e = Suc v \<and> length events - v \<le> max 1 limit
        | Some (StreamGap a b) \<Rightarrow> a = Suc v \<and> b = length events - max 1 limit \<and> max 1 limit < length events - v)"
proof -
  have b: "logged before (map snd old) \<and> es_history_limit before = max 1 limit"
    unfolding assms(1)
  proof (induction old rule: rev_induct)
    case (snoc x old)
    then show ?case using logged_publish [of _ "map snd old" "fst x" "snd x"] by (simp add: split_beta)
  qed (simp add: new_event_stream_def [THEN arg_cong, of es_history_limit])
  then have g: "es_global before = length (map snd old)" by (simp add: logged_def)
  note inv = stream_covers_inv [OF conjunct1 [OF b] run [unfolded g]]
  then have l: "logged es events" "es_history_limit es = max 1 limit" "v \<le> length events" unfolding events_def using b by simp_all
  have "case wait_for_global_change v es of None \<Rightarrow> v = length events
        | Some (StreamEvent e) \<Rightarrow> global_of e = Suc v \<and> length events - v \<le> max 1 limit
        | Some (StreamGap a b) \<Rightarrow> a = Suc v \<and> b = length events - max 1 limit \<and> max 1 limit < length events - v"
  proof (cases "v < length events")
    case True
    then show ?thesis using next_item [OF l(1) True] unfolding l(2)
      by (cases "v < length events - max 1 limit") (auto)
  qed (use l no_next_item [OF l(1)] in simp)
  then show ?thesis using inv unfolding events_def by (auto)
qed

definition sample_stream :: "nat stream_action list" where
  "sample_stream = [Publish ''g'' 10, Ask, Publish ''g'' 11, Publish ''g'' 12, Publish ''g'' 13, Ask]"

theorem stream_items_complete_witness:
  "\<exists>es items. fold do_action sample_stream (stream_publish ''g'' 9 (new_event_stream 2), 1, []) = (es, 3, items)
    \<and> concat (map item_numbers items) = [2, 3] \<and> wait_for_global_change 3 es \<noteq> None"
proof -
  let ?b = "fold (\<lambda>(g, e). stream_publish g e) [(''g'', 9 :: nat)] (new_event_stream 2)"
  have r: "fst (snd (fold do_action sample_stream (stream_publish ''g'' 9 (new_event_stream 2), 1, []))) = 3" by code_simp
  then obtain es items where f: "fold do_action sample_stream (stream_publish ''g'' 9 (new_event_stream 2), 1, []) = (es, 3, items)"
    by (metis prod.collapse)
  have g: "es_global ?b = 1" by code_simp
  have f': "fold do_action sample_stream (?b, es_global ?b, []) = (es, 3, items)" unfolding g using f by simp
  have "length (published_events sample_stream) = 4" by code_simp
  then show ?thesis using stream_items_complete [OF refl f'] f by (auto simp: upt_rec split: option.splits)
qed

end
