(* ===== verification/LiveLaws.thy ===== *)
theory LiveLaws
  imports StreamLaws
begin

text \<open>
  What the frames of a node in the stream of events tell, in every interleaving of writers, notifications and the publisher: only what the
  node showed, each frame continuing the one before; they bring the current output when the threads keep in step; and what goes wrong
  when they do not.
\<close>

section \<open>What the store does\<close>

declare split_paired_All [simp del] split_paired_Ex [simp del]

definition live_store_ok :: "live_store \<Rightarrow> bool" where
  "live_store_ok s \<longleftrightarrow> (\<forall>key item. lo_items s key = Some item \<longrightarrow> li_version item = lo_versions s key \<and> snd key \<noteq> [])"

definition changed_at :: "node_key \<Rightarrow> live_store \<Rightarrow> live_store \<Rightarrow> bool" where
  "changed_at key s s' \<longleftrightarrow> lo_versions s' = (lo_versions s)(key := Suc (lo_versions s key)) \<and> (\<forall>k. k \<noteq> key \<longrightarrow> lo_items s' k = lo_items s k)"

lemma get_live_version: "live_store_ok s \<Longrightarrow> li_version (get_live key s) = lo_versions s key"
  by (auto simp: get_live_def no_item_def live_store_ok_def split: option.split)

lemma put_live_changed: "changed_at key s (put_live key item s)"
  by (simp add: changed_at_def put_live_def)

lemma clear_changed: "changed_at key s (s\<lparr>lo_items := (lo_items s)(key := None), lo_versions := (lo_versions s)(key := Suc (lo_versions s key))\<rparr>)"
  by (simp add: changed_at_def)

lemma put_live_ok: "live_store_ok s \<Longrightarrow> snd key \<noteq> [] \<Longrightarrow> live_store_ok (put_live key item s)"
  by (auto simp: live_store_ok_def put_live_def)

lemma live_op_changes:
  assumes "live_store_ok s" and "live_op dots op s = (s', told)"
  shows "live_store_ok s' \<and> (if told then changed_at (op_node op) s s' \<and> snd (op_node op) \<noteq> [] else s' = s)"
  using assms
proof (cases op)
  case (UpdateActivity now key block trace_id event)
  then show ?thesis using assms by (auto simp: update_activity_def Let_def put_live_changed put_live_ok split: if_split_asm sum.splits)
next
  case (ClearLive key)
  then show ?thesis using assms clear_changed [of key s] by (force simp: clear_live_def live_store_ok_def split: if_split_asm)
qed (auto simp: update_text_def update_thinking_def remove_activity_def publish_event_def publish_completion_event_def
    Let_def put_live_changed put_live_ok split: if_split_asm)

lemma changed_other: "changed_at key s s' \<Longrightarrow> k \<noteq> key \<Longrightarrow> get_live k s' = get_live k s"
  by (auto simp: changed_at_def get_live_def split: option.split)

section \<open>Frames\<close>

text \<open>The frames of a node among events, what a node shows, and what becomes of it when frames are applied one after another.\<close>

fun frames :: "node_key \<Rightarrow> app_event list \<Rightarrow> live_payload list" where
  "frames key [] = []"
| "frames key (NodeLive k p # es) = (if k = key then p # frames key es else frames key es)"
| "frames key (OtherEvent d # es) = frames key es"

definition shown :: "node_key \<Rightarrow> live_store \<Rightarrow> string \<times> string" where
  "shown key s = (li_text (get_live key s), li_thinking (get_live key s))"

fun replay :: "live_payload list \<Rightarrow> string \<times> string \<Rightarrow> string \<times> string" where
  "replay [] x = x"
| "replay (p # ps) (t, th) = replay ps (if lp_snapshot p then (lp_live_message p, lp_thinking_message p)
     else (t @ lp_live_delta p, th @ lp_thinking_delta p))"

text \<open>Versions rise, and a frame that is no snapshot is based on the version before.\<close>

fun chained :: "nat \<Rightarrow> live_payload list \<Rightarrow> bool" where
  "chained v [] = True"
| "chained v (p # ps) = (v < lp_version p \<and> (lp_snapshot p \<or> lp_base_version p = v) \<and> chained (lp_version p) ps)"

fun last_version :: "nat \<Rightarrow> live_payload list \<Rightarrow> nat" where
  "last_version v [] = v" | "last_version v (p # ps) = last_version (lp_version p) ps"

lemma frames_append [simp]: "frames key (xs @ ys) = frames key xs @ frames key ys"
  by (induction xs rule: frames.induct) auto

lemma frame_event: "p \<in> set (frames key es) \<Longrightarrow> NodeLive key p \<in> set es"
  by (induction key es rule: frames.induct) (auto split: if_split_asm)

lemma chained_append [simp]: "chained v (ps @ qs) \<longleftrightarrow> chained v ps \<and> chained (last_version v ps) qs"
  by (induction ps arbitrary: v) auto

lemma last_version_append [simp]: "last_version v (ps @ qs) = last_version (last_version v ps) qs"
  by (induction ps arbitrary: v) auto

lemma last_version_last: "ps \<noteq> [] \<Longrightarrow> last_version v ps = lp_version (last ps)"
  by (induction ps arbitrary: v) auto

lemma chained_nth: "chained v ps \<Longrightarrow> Suc j < length ps \<Longrightarrow>
    lp_version (ps ! j) < lp_version (ps ! Suc j) \<and> (lp_snapshot (ps ! Suc j) \<or> lp_base_version (ps ! Suc j) = lp_version (ps ! j))"
proof (induction ps arbitrary: v j)
  case (Cons p ps)
  then show ?case by (cases ps; cases j) auto
qed simp

lemma chained_drop: "chained v ps \<Longrightarrow> j < length ps \<Longrightarrow> chained (lp_version (ps ! j)) (drop (Suc j) ps)"
proof (induction ps arbitrary: v j)
  case (Cons p ps)
  then show ?case by (cases j) auto
qed simp

section \<open>What every version showed\<close>

text \<open>\<open>H key v\<close> is what node \<open>key\<close> showed in its version \<open>v\<close>; \<open>V\<close> are the versions reached. An item and a frame are
  faithful when they tell what some version showed.\<close>

type_synonym live_history = "node_key \<Rightarrow> nat \<Rightarrow> live_item"

definition item_ok :: "live_history \<Rightarrow> (node_key \<Rightarrow> nat) \<Rightarrow> node_key \<Rightarrow> live_item \<Rightarrow> bool" where
  "item_ok H V key item \<longleftrightarrow> 0 < li_version item \<and> li_version item \<le> V key \<and> H key (li_version item) = item"

definition frame_ok :: "live_history \<Rightarrow> (node_key \<Rightarrow> nat) \<Rightarrow> node_key \<Rightarrow> live_payload \<Rightarrow> bool" where
  "frame_ok H V key p \<longleftrightarrow> lp_version p \<le> V key \<and>
     (if lp_snapshot p then lp_live_message p = li_text (H key (lp_version p)) \<and> lp_thinking_message p = li_thinking (H key (lp_version p))
      else lp_base_version p < lp_version p \<and> li_text (H key (lp_base_version p)) @ lp_live_delta p = li_text (H key (lp_version p))
         \<and> li_thinking (H key (lp_base_version p)) @ lp_thinking_delta p = li_thinking (H key (lp_version p)))"

definition event_ok :: "live_history \<Rightarrow> (node_key \<Rightarrow> nat) \<Rightarrow> app_event \<Rightarrow> bool" where
  "event_ok H V e \<longleftrightarrow> (case e of NodeLive key p \<Rightarrow> frame_ok H V key p | OtherEvent d \<Rightarrow> True)"

definition publisher_ok :: "live_history \<Rightarrow> (node_key \<Rightarrow> nat) \<Rightarrow> publisher \<Rightarrow> bool" where
  "publisher_ok H V p \<longleftrightarrow> (\<forall>(key, item) \<in> set (pu_pending p). item_ok H V key item) \<and> (\<forall>key item. pu_published p key = Some item \<longrightarrow> item_ok H V key item)"

definition stream_ok :: "live_history \<Rightarrow> (node_key \<Rightarrow> nat) \<Rightarrow> app_event event_stream \<Rightarrow> bool" where
  "stream_ok H V es \<longleftrightarrow> (\<forall>e \<in> set (es_global_history es). event_ok H V (st_event e))"

definition store_told :: "live_history \<Rightarrow> live_store \<Rightarrow> bool" where
  "store_told H s \<longleftrightarrow> live_store_ok s \<and> (\<forall>key. H key (lo_versions s key) = get_live key s) \<and> (\<forall>key. H key 0 = no_item 0)"

text \<open>Of everything that was ever published, the frames of each node follow one another, up to the one the publisher remembers.\<close>

definition published_version :: "publisher \<Rightarrow> node_key \<Rightarrow> nat" where
  "published_version p key = (case pu_published p key of None \<Rightarrow> 0 | Some item \<Rightarrow> li_version item)"

definition sent_ok :: "publisher \<Rightarrow> app_event event_stream \<Rightarrow> bool" where
  "sent_ok p es \<longleftrightarrow> (\<exists>trail. logged es trail \<and> (\<forall>key. chained 0 (frames key trail) \<and> last_version 0 (frames key trail) = published_version p key))"

definition pair_ok :: "live_history \<Rightarrow> (node_key \<Rightarrow> nat) \<Rightarrow> publisher \<times> app_event event_stream \<Rightarrow> bool" where
  "pair_ok H V = (\<lambda>(p, es). publisher_ok H V p \<and> stream_ok H V es \<and> sent_ok p es)"

definition faithful :: "live_history \<Rightarrow> live_system \<Rightarrow> bool" where
  "faithful H sy \<longleftrightarrow> (let V = lo_versions (sy_store sy) in store_told H (sy_store sy) \<and> (\<forall>key \<in> set (sy_reads sy). 0 < V key)
     \<and> (\<forall>(key, item) \<in> set (sy_sends sy). item_ok H V key item) \<and> pair_ok H V (sy_publisher sy, sy_stream sy))"

text \<open>Nothing that is faithful stops being so when a version is added.\<close>

definition extends :: "live_history \<Rightarrow> (node_key \<Rightarrow> nat) \<Rightarrow> live_history \<Rightarrow> (node_key \<Rightarrow> nat) \<Rightarrow> bool" where
  "extends H V H' V' \<longleftrightarrow> (\<forall>key. V key \<le> V' key \<and> (\<forall>v \<le> V key. H' key v = H key v))"

lemma extends_ok:
  assumes "extends H V H' V'"
  shows "item_ok H V key item \<Longrightarrow> item_ok H' V' key item" and "frame_ok H V key p \<Longrightarrow> frame_ok H' V' key p"
    and "pair_ok H V pe \<Longrightarrow> pair_ok H' V' pe"
proof -
  show i: "item_ok H V key item \<Longrightarrow> item_ok H' V' key item" for key item
    using assms le_trans by (fastforce simp: item_ok_def extends_def)
  show f: "frame_ok H V key p \<Longrightarrow> frame_ok H' V' key p" for key p
    using assms le_trans unfolding frame_ok_def extends_def by (smt (verit) less_imp_le)
  have "publisher_ok H V pu \<Longrightarrow> publisher_ok H' V' pu" for pu using i by (fastforce simp: publisher_ok_def)
  moreover have "stream_ok H V es \<Longrightarrow> stream_ok H' V' es" for es
    using f by (auto simp: stream_ok_def event_ok_def split: app_event.splits)
  ultimately show "pair_ok H V pe \<Longrightarrow> pair_ok H' V' pe" by (simp add: pair_ok_def split: prod.splits)
qed

lemma snapshot_frame: "item_ok H V key item \<Longrightarrow> frame_ok H V key (build_live_output_payload key item True v)"
  by (auto simp: item_ok_def frame_ok_def build_live_output_payload_def)

lemma prefix_drop: "prefix xs ys \<Longrightarrow> xs @ drop (length xs) ys = ys"
  by (auto simp: prefix_def)

lemma coalesced_version [simp]: "lp_version (build_coalesced_live_payload key previous item) = li_version item"
  by (simp add: build_coalesced_live_payload_def build_live_output_payload_def Let_def)

lemma coalesced_base: "lp_snapshot (build_coalesced_live_payload key previous item)
    \<or> (\<exists>p. previous = Some p \<and> lp_base_version (build_coalesced_live_payload key previous item) = li_version p)"
  by (auto simp: build_coalesced_live_payload_def build_live_output_payload_def can_send_delta_def Let_def split: option.splits)

lemma coalesced_frame:
  assumes "item_ok H V key item" and "\<And>p. previous = Some p \<Longrightarrow> item_ok H V key p \<and> li_version p < li_version item"
  shows "frame_ok H V key (build_coalesced_live_payload key previous item)"
proof (cases "can_send_delta previous item")
  case True
  then obtain p where p: "previous = Some p" "prefix (li_text p) (li_text item)" "prefix (li_thinking p) (li_thinking item)"
    by (auto simp: can_send_delta_def split: option.splits)
  show ?thesis using True assms(1) assms(2) [OF p(1)] prefix_drop [OF p(2)] prefix_drop [OF p(3)]
    by (auto simp: p(1) build_coalesced_live_payload_def build_live_output_payload_def live_output_requires_snapshot_def frame_ok_def item_ok_def Let_def)
qed (use snapshot_frame [OF assms(1)] in \<open>simp add: build_coalesced_live_payload_def Let_def\<close>)

lemma stream_publish_ok: "stream_ok H V es \<Longrightarrow> event_ok H V e \<Longrightarrow> stream_ok H V (stream_publish g e es)"
  using set_last_n by (fastforce simp: stream_ok_def stream_publish_def Let_def)

lemma sent_publish_other: "sent_ok p es \<Longrightarrow> sent_ok p (stream_publish g (OtherEvent d) es)"
  unfolding sent_ok_def by (elim exE conjE, rule_tac x = "trail @ [OtherEvent d]" in exI) (simp add: logged_publish)

lemma sent_same: "sent_ok p es \<Longrightarrow> pu_published q = pu_published p \<Longrightarrow> sent_ok q es"
  by (simp add: sent_ok_def published_version_def)

lemma emit_sent:
  assumes "sent_ok p es" and "0 < li_version item" and "emit now key item (p, es) = (p', es')"
  shows "sent_ok p' es'"
proof (cases "case pu_published p key of None \<Rightarrow> False | Some prev \<Rightarrow> li_version item \<le> li_version prev")
  case False
  let ?f = "build_coalesced_live_payload key (pu_published p key) item"
  obtain trail where t: "logged es trail" "\<And>k. chained 0 (frames k trail)" "\<And>k. last_version 0 (frames k trail) = published_version p k"
    using assms(1) by (auto simp: sent_ok_def)
  have r: "p' = p\<lparr>pu_published := (pu_published p)(key \<mapsto> item), pu_published_at := (pu_published_at p)(key := now)\<rparr>"
      "es' = stream_publish (fst key) (NodeLive key ?f) es" using assms(3) False by (auto simp: emit_def)
  have v: "published_version p key < li_version item" using False assms(2) by (simp add: published_version_def split: option.splits)
  have b: "lp_snapshot ?f \<or> lp_base_version ?f = published_version p key"
    using coalesced_base [of key "pu_published p key" item] by (auto simp: published_version_def)
  have "chained 0 (frames k (trail @ [NodeLive key ?f]))
      \<and> last_version 0 (frames k (trail @ [NodeLive key ?f])) = published_version p' k" for k
    using t(2,3) [of k] v b by (cases "k = key") (simp_all add: r published_version_def)
  then show ?thesis using logged_publish [OF t(1)] r(2) unfolding sent_ok_def by metis
qed (use assms in \<open>simp add: emit_def\<close>)

lemma emit_ok: "pair_ok H V pe \<Longrightarrow> item_ok H V key item \<Longrightarrow> pair_ok H V (emit now key item pe)"
proof -
  assume p: "pair_ok H V pe" and i: "item_ok H V key item"
  obtain p es where pe: "pe = (p, es)" by (cases pe)
  show ?thesis
  proof (cases "case pu_published p key of None \<Rightarrow> False | Some prev \<Rightarrow> li_version item \<le> li_version prev")
    case False
    have "frame_ok H V key (build_coalesced_live_payload key (pu_published p key) item)"
      using p False by (intro coalesced_frame [OF i]) (auto simp: pe pair_ok_def publisher_ok_def)
    moreover have "sent_ok (fst (emit now key item pe)) (snd (emit now key item pe))"
      using emit_sent [of p es item now key] p i by (auto simp: pe pair_ok_def item_ok_def)
    ultimately show ?thesis using p i False stream_publish_ok by (auto simp: pe emit_def pair_ok_def publisher_ok_def event_ok_def)
  qed (use p in \<open>simp add: pe emit_def\<close>)
qed

lemma set_delete: "set (AList.delete k xs) \<subseteq> set xs"
  by (auto simp: AList.delete_eq)

lemma set_update: "set (AList.update k v xs) \<subseteq> insert (k, v) (set xs)"
  by (induction xs) auto

lemma pair_without: "pair_ok H V (p, es) \<Longrightarrow> pair_ok H V (p\<lparr>pu_pending := AList.delete key (pu_pending p)\<rparr>, es)"
  using set_delete by (fastforce simp: pair_ok_def publisher_ok_def intro: sent_same)

lemma pair_with: "pair_ok H V (p, es) \<Longrightarrow> item_ok H V key item \<Longrightarrow> pair_ok H V (p\<lparr>pu_pending := AList.update key item (pu_pending p)\<rparr>, es)"
  using set_update by (fastforce simp: pair_ok_def publisher_ok_def intro: sent_same)

lemma publish_live_ok: "pair_ok H V pe \<Longrightarrow> item_ok H V key item \<Longrightarrow> pair_ok H V (publish_live now key item pe)"
  by (cases pe) (simp add: publish_live_def emit_ok pair_without pair_with)

lemma send_one_ok: "item_ok H V (fst x) (snd x) \<Longrightarrow> pair_ok H V pe \<Longrightarrow> pair_ok H V (send_one now x pe)"
  by (cases pe) (simp add: send_one_def split_beta emit_ok pair_without)

lemma send_all_ok: "\<forall>x \<in> set due. item_ok H V (fst x) (snd x) \<Longrightarrow> pair_ok H V pe \<Longrightarrow> pair_ok H V (fold (send_one now) due pe)"
  by (induction due arbitrary: pe) (simp_all add: send_one_ok)

lemma send_due_ok:
  assumes "pair_ok H V pe"
  shows "pair_ok H V (send_due now pe)"
proof -
  obtain p es where pe: "pe = (p, es)" by (cases pe)
  have "\<forall>x \<in> set (filter (\<lambda>(key, item). frame_due now p key) (pu_pending p)). item_ok H V (fst x) (snd x)"
    using assms by (auto simp: pe pair_ok_def publisher_ok_def)
  from send_all_ok [OF this assms] show ?thesis using assms by (simp add: pe send_due_def)
qed

lemma without_nth_subset: "set (without_nth i xs) \<subseteq> set xs"
  by (auto simp: without_nth_def dest: in_set_takeD in_set_dropD)

lemma publishing_ok:
  assumes f: "\<And>pe. pair_ok H (lo_versions (sy_store sy)) pe \<Longrightarrow> pair_ok H (lo_versions (sy_store sy)) (f pe)" and sy: "faithful H sy"
  shows "faithful H (publishing f sy)"
  using sy f [of "(sy_publisher sy, sy_stream sy)"] by (auto simp: faithful_def publishing_def Let_def split: prod.splits)

lemma write_ok:
  assumes sy: "faithful H sy"
  shows "\<exists>H'. faithful H' (live_step dots (Write op) sy) \<and> extends H (lo_versions (sy_store sy)) H' (lo_versions (sy_store (live_step dots (Write op) sy)))"
proof -
  obtain s told where o: "live_op dots op (sy_store sy) = (s, told)" by fastforce
  have sok: "live_store_ok (sy_store sy)" using sy by (simp add: faithful_def store_told_def Let_def)
  note ch = live_op_changes [OF sok o]
  let ?V = "lo_versions (sy_store sy)" and ?k = "op_node op"
  show ?thesis
  proof (cases told)
    case True
    let ?H = "H(?k := (H ?k)(Suc (?V ?k) := get_live ?k s))"
    have c: "changed_at ?k (sy_store sy) s" "live_store_ok s" using ch True by simp_all
    have e: "extends H ?V ?H (lo_versions s)" using c(1) by (auto simp: extends_def changed_at_def)
    have "store_told ?H s"
      using sy c changed_other [OF c(1)] by (auto simp: store_told_def faithful_def Let_def changed_at_def)
    then have "faithful ?H (live_step dots (Write op) sy)"
      using sy c(1) True extends_ok [OF e] by (fastforce simp: faithful_def Let_def o changed_at_def)
    then show ?thesis using e by (auto simp: o)
  next
    case False
    then have "faithful H (live_step dots (Write op) sy)" using ch sy by (simp add: o faithful_def)
    then show ?thesis using False ch by (intro exI [of _ H]) (simp add: o extends_def)
  qed
qed

lemma pair_publish_other: "pair_ok H V (p, es) \<Longrightarrow> pair_ok H V (p, stream_publish g (OtherEvent d) es)"
  by (simp add: pair_ok_def stream_publish_ok sent_publish_other event_ok_def)

lemma pair_closed: "pair_ok H V (p, es) \<Longrightarrow> pair_ok H V (close_publisher p, es)"
  by (auto simp: pair_ok_def publisher_ok_def close_publisher_def intro: sent_same)

lemma other_step_ok:
  assumes sy: "faithful H sy" and a: "\<And>op. act \<noteq> Write op"
  shows "faithful H (live_step dots act sy)"
proof -
  let ?V = "lo_versions (sy_store sy)"
  have told: "0 < ?V key \<Longrightarrow> item_ok H ?V key (get_live key (sy_store sy))" for key
    using sy get_live_version by (auto simp: faithful_def store_told_def item_ok_def Let_def)
  show ?thesis
  proof (cases act)
    case (Read i)
    show ?thesis
    proof (cases "length (sy_reads sy) \<le> i")
      case False
      then have "0 < ?V (sy_reads sy ! i)" using sy by (simp add: faithful_def Let_def)
      then show ?thesis using Read False sy told without_nth_subset [of i "sy_reads sy"] by (auto simp: faithful_def Let_def)
    qed (use sy Read in simp)
  next
    case (Send now i)
    show ?thesis
    proof (cases "length (sy_sends sy) \<le> i")
      case False
      then have "sy_sends sy ! i \<in> set (sy_sends sy)" by simp
      then have i: "item_ok H ?V (fst (sy_sends sy ! i)) (snd (sy_sends sy ! i))" using sy by (auto simp: faithful_def Let_def)
      have "faithful H (sy\<lparr>sy_sends := without_nth i (sy_sends sy)\<rparr>)"
        using sy without_nth_subset [of i "sy_sends sy"] by (auto simp: faithful_def Let_def)
      from publishing_ok [OF publish_live_ok this] show ?thesis using False Send i by simp
    qed (use sy Send in simp)
  next
    case (SendDue now)
    then show ?thesis using sy by (simp add: publishing_ok send_due_ok)
  qed (use a sy in \<open>auto simp: faithful_def Let_def intro: pair_publish_other pair_closed\<close>)
qed

lemma other_step_store: "(\<And>op. act \<noteq> Write op) \<Longrightarrow> sy_store (live_step dots act sy) = sy_store sy"
  by (cases act) (auto simp: publishing_def Let_def split: prod.splits)

lemma step_ok:
  assumes "faithful H sy"
  shows "\<exists>H'. faithful H' (live_step dots act sy) \<and> extends H (lo_versions (sy_store sy)) H' (lo_versions (sy_store (live_step dots act sy)))"
proof (cases "\<exists>op. act = Write op")
  case False
  then show ?thesis using other_step_ok [OF assms, of act dots] other_step_store [of act dots sy] by (auto simp: extends_def)
qed (use write_ok [OF assms] in blast)

lemma step_version:
  assumes "faithful H sy"
  shows "lo_versions (sy_store (live_step dots act sy)) key \<le> Suc (lo_versions (sy_store sy) key)"
proof (cases "\<exists>op. act = Write op")
  case True
  then obtain op s told where o: "act = Write op" "live_op dots op (sy_store sy) = (s, told)" by (metis surj_pair)
  have "live_store_ok (sy_store sy)" using assms by (simp add: faithful_def store_told_def Let_def)
  from live_op_changes [OF this o(2)] show ?thesis using o by (auto simp: changed_at_def split: if_split_asm)
qed (simp add: other_step_store)

section \<open>What frames tell\<close>

lemma run_live_simps: "run_live dots [] sy = sy" "run_live dots (a # as) sy = run_live dots as (live_step dots a sy)"
    "run_live dots (as @ bs) sy = run_live dots bs (run_live dots as sy)"
  by (simp_all add: run_live_def)

lemma faithful_start: "\<exists>H. faithful H (start_live interval limit)"
proof -
  have "sent_ok (sy_publisher (start_live interval limit)) (new_event_stream limit)"
    unfolding sent_ok_def by (intro exI [of _ "[]"]) (simp add: start_live_def published_version_def)
  then show ?thesis
    by (intro exI [of _ "\<lambda>key v. no_item v"])
      (simp add: faithful_def pair_ok_def start_live_def store_told_def live_store_ok_def publisher_ok_def stream_ok_def new_event_stream_def get_live_def)
qed

text \<open>The history of a run: every version was that of the store after some of the steps, and the store after any of the steps shows what
  the history has for its version.\<close>

definition history_of :: "live_history \<Rightarrow> live_system list \<Rightarrow> bool" where
  "history_of H sys \<longleftrightarrow> faithful H (last sys)
     \<and> (\<forall>key. \<forall>sy \<in> set sys. lo_versions (sy_store sy) key \<le> lo_versions (sy_store (last sys)) key
          \<and> H key (lo_versions (sy_store sy) key) = get_live key (sy_store sy))
     \<and> (\<forall>key. \<forall>v \<le> lo_versions (sy_store (last sys)) key. \<exists>sy \<in> set sys. lo_versions (sy_store sy) key = v)"

lemma history_snoc:
  assumes "history_of H (sys @ [sy])"
  shows "\<exists>H'. history_of H' (sys @ [sy, live_step dots act sy])"
proof -
  let ?sy' = "live_step dots act sy" and ?V = "lo_versions (sy_store sy)"
  have f: "faithful H sy" and old: "\<And>key x. x \<in> set (sys @ [sy]) \<Longrightarrow> lo_versions (sy_store x) key \<le> ?V key \<and> H key (lo_versions (sy_store x) key) = get_live key (sy_store x)"
    and all: "\<And>key v. v \<le> ?V key \<Longrightarrow> \<exists>x \<in> set (sys @ [sy]). lo_versions (sy_store x) key = v"
    using assms unfolding history_of_def last_snoc by blast+
  obtain H' where H': "faithful H' ?sy'" and e: "extends H ?V H' (lo_versions (sy_store ?sy'))" using step_ok [OF f] by blast
  have up: "?V key \<le> lo_versions (sy_store ?sy') key" and same: "v \<le> ?V key \<Longrightarrow> H' key v = H key v" for key v
    using e by (simp_all add: extends_def)
  have "lo_versions (sy_store x) key \<le> lo_versions (sy_store ?sy') key \<and> H' key (lo_versions (sy_store x) key) = get_live key (sy_store x)"
    if "x \<in> set (sys @ [sy, ?sy'])" for key x
  proof (cases "x \<in> set (sys @ [sy])")
    case True
    then show ?thesis using old [OF True, of key] same up [of key] by (metis le_trans)
  next
    case False
    then have "x = ?sy'" using that by simp
    then show ?thesis using H' by (simp add: faithful_def store_told_def Let_def)
  qed
  moreover have "\<exists>x \<in> set (sys @ [sy, ?sy']). lo_versions (sy_store x) key = v" if "v \<le> lo_versions (sy_store ?sy') key" for key v
  proof (cases "v \<le> ?V key")
    case True
    from all [OF this] show ?thesis by auto
  next
    case False
    then have "v = lo_versions (sy_store ?sy') key" using that step_version [OF f, of dots act key] by simp
    then show ?thesis by simp
  qed
  ultimately have "history_of H' ((sys @ [sy]) @ [?sy'])" using H' unfolding history_of_def last_snoc by simp
  then show ?thesis by auto
qed

definition run_states :: "string \<Rightarrow> live_act list \<Rightarrow> live_system \<Rightarrow> live_system list" where
  "run_states dots steps sy = map (\<lambda>n. run_live dots (take n steps) sy) [0..<Suc (length steps)]"

lemma run_states_snoc: "run_states dots (steps @ [act]) sy = run_states dots steps sy @ [live_step dots act (run_live dots steps sy)]"
  by (simp add: run_states_def run_live_simps)

lemma run_states_last: "run_states dots steps sy = map (\<lambda>n. run_live dots (take n steps) sy) [0..<length steps] @ [run_live dots steps sy]"
  by (simp add: run_states_def)

lemma run_history: "\<exists>H. history_of H (run_states dots steps (start_live interval limit))"
proof (induction steps rule: rev_induct)
  case Nil
  obtain H where "faithful H (start_live interval limit)" using faithful_start by blast
  then have "history_of H [start_live interval limit]"
    by (simp add: history_of_def faithful_def store_told_def Let_def) (simp add: start_live_def)
  then show ?case by (auto simp: run_states_def run_live_simps)
next
  case (snoc act steps)
  then show ?case using history_snoc unfolding run_states_snoc by (metis (no_types, lifting) append.assoc append_Cons append_Nil run_states_last)
qed

text \<open>The frames of a node that the stream still holds.\<close>

definition held_frames :: "node_key \<Rightarrow> app_event event_stream \<Rightarrow> live_payload list" where
  "held_frames key es = frames key (map st_event (es_global_history es))"

lemma map_fst_numbered: "map fst (numbered es) = es"
  by (simp add: numbered_def comp_def map_nth)

lemma held_suffix:
  assumes "logged es trail"
  shows "\<exists>earlier. frames key trail = earlier @ held_frames key es \<and> (es_global es \<le> es_history_limit es \<longrightarrow> earlier = [])"
proof -
  have "map st_event (es_global_history es) = map fst (map (\<lambda>e. (st_event e, global_of e)) (es_global_history es))" by (simp add: comp_def)
  also have "\<dots> = last_n (es_history_limit es) trail" using assms by (simp add: logged_def map_last_n map_fst_numbered)
  finally have h: "held_frames key es = frames key (drop (length trail - es_history_limit es) trail)" by (simp add: held_frames_def last_n_def)
  have "frames key trail = frames key (take (length trail - es_history_limit es) trail) @ held_frames key es"
    unfolding h by (simp flip: frames_append)
  then show ?thesis using assms by (auto simp: logged_def)
qed

lemma held_chained:
  assumes "sent_ok p es"
  obtains v where "chained v (held_frames key es)" "last_version v (held_frames key es) = published_version p key"
    "es_global es \<le> es_history_limit es \<Longrightarrow> v = 0"
proof -
  obtain trail where t: "logged es trail" "chained 0 (frames key trail)" "last_version 0 (frames key trail) = published_version p key"
    using assms by (auto simp: sent_ok_def)
  obtain earlier where "frames key trail = earlier @ held_frames key es" "es_global es \<le> es_history_limit es \<longrightarrow> earlier = []"
    using held_suffix [OF t(1)] by blast
  then show thesis using that [of "last_version 0 earlier"] t(2,3) by simp
qed

lemma held_ok: "stream_ok H V es \<Longrightarrow> p \<in> set (held_frames key es) \<Longrightarrow> frame_ok H V key p"
proof -
  assume s: "stream_ok H V es" and "p \<in> set (held_frames key es)"
  then obtain e where e: "e \<in> set (es_global_history es)" "st_event e = NodeLive key p" by (auto simp: held_frames_def dest!: frame_event)
  then have "event_ok H V (NodeLive key p)" using s unfolding stream_ok_def by metis
  then show ?thesis by (simp add: event_ok_def)
qed

lemma faithful_held:
  assumes "faithful H sy"
  shows "sent_ok (sy_publisher sy) (sy_stream sy)" and "p \<in> set (held_frames key (sy_stream sy)) \<Longrightarrow> frame_ok H (lo_versions (sy_store sy)) key p"
proof -
  have "stream_ok H (lo_versions (sy_store sy)) (sy_stream sy)" "sent_ok (sy_publisher sy) (sy_stream sy)"
    using assms by (simp_all add: faithful_def pair_ok_def Let_def)
  then show "sent_ok (sy_publisher sy) (sy_stream sy)" "p \<in> set (held_frames key (sy_stream sy)) \<Longrightarrow> frame_ok H (lo_versions (sy_store sy)) key p"
    using held_ok by blast+
qed

text \<open>C2. Every frame of a node that the stream holds is true, and the frames of a node continue one another, in every interleaving of
  writers, late notifications, coalesced frames, events of other parts and a shutdown. A snapshot tells the text and the thinking that the
  store showed in the version of the frame; any other frame gives those of its version when it is applied to those of the version it
  is based on, which is the version of the frame before it; and versions only rise.\<close>

theorem frames_tell_what_was_shown:
  assumes "fs = held_frames key (sy_stream (run_live dots steps (start_live interval limit)))"
    and "sys = run_states dots steps (start_live interval limit)"
  shows "(\<forall>j. Suc j < length fs \<longrightarrow> lp_version (fs ! j) < lp_version (fs ! Suc j)
      \<and> (lp_snapshot (fs ! Suc j) \<or> lp_base_version (fs ! Suc j) = lp_version (fs ! j)))
    \<and> (\<forall>p \<in> set fs. \<exists>sy \<in> set sys. lo_versions (sy_store sy) key = lp_version p
        \<and> (if lp_snapshot p then shown key (sy_store sy) = (lp_live_message p, lp_thinking_message p)
           else \<exists>base \<in> set sys. lo_versions (sy_store base) key = lp_base_version p \<and> lp_base_version p < lp_version p
             \<and> shown key (sy_store sy) = (fst (shown key (sy_store base)) @ lp_live_delta p, snd (shown key (sy_store base)) @ lp_thinking_delta p)))"
proof -
  let ?sy = "run_live dots steps (start_live interval limit)"
  obtain H where h: "history_of H sys" using run_history assms(2) by blast
  have l: "last sys = ?sy" by (simp add: assms(2) run_states_last)
  have H: "faithful H ?sy" and told: "\<And>x. x \<in> set sys \<Longrightarrow> H key (lo_versions (sy_store x) key) = get_live key (sy_store x)"
    and all: "\<And>v. v \<le> lo_versions (sy_store ?sy) key \<Longrightarrow> \<exists>x \<in> set sys. lo_versions (sy_store x) key = v"
    using h unfolding history_of_def l by blast+
  note ok = faithful_held(1) [OF H] faithful_held(2) [OF H, where key = key, folded assms(1)]
  obtain v where "chained v fs" using held_chained [OF ok(1)] unfolding assms(1) by metis
  moreover have "\<exists>sy \<in> set sys. lo_versions (sy_store sy) key = lp_version p
        \<and> (if lp_snapshot p then shown key (sy_store sy) = (lp_live_message p, lp_thinking_message p)
           else \<exists>base \<in> set sys. lo_versions (sy_store base) key = lp_base_version p \<and> lp_base_version p < lp_version p
             \<and> shown key (sy_store sy) = (fst (shown key (sy_store base)) @ lp_live_delta p, snd (shown key (sy_store base)) @ lp_thinking_delta p))"
    if "p \<in> set fs" for p
  proof -
    note f = ok(2) [OF that, unfolded frame_ok_def]
    obtain x where x: "x \<in> set sys" "lo_versions (sy_store x) key = lp_version p" using all f by blast
    show ?thesis
    proof (cases "lp_snapshot p")
      case True
      then show ?thesis using f x told [OF x(1)] by (intro bexI [OF _ x(1)]) (simp add: shown_def)
    next
      case False
      then obtain y where y: "y \<in> set sys" "lo_versions (sy_store y) key = lp_base_version p" using all [of "lp_base_version p"] f by auto
      then show ?thesis using f x False told [OF x(1)] told [OF y(1)] by (intro bexI [OF _ x(1)]) (auto simp: shown_def)
    qed
  qed
  ultimately show ?thesis using chained_nth by blast
qed

section \<open>Threads that keep in step\<close>

text \<open>A change is told before the next one.\<close>

datatype tidy_act = Change rat live_call | Turn rat | Foreign string pydict

fun tidy_steps :: "tidy_act \<Rightarrow> live_act list" where
  "tidy_steps (Change now op) = [Write op, Read 0, Send now 0]"
| "tidy_steps (Turn now) = [SendDue now]"
| "tidy_steps (Foreign g d) = [PublishOther g d]"

text \<open>The publisher has sent the version of the store, or the item of the store waits.\<close>

definition tracked :: "live_store \<Rightarrow> publisher \<Rightarrow> node_key \<Rightarrow> bool" where
  "tracked s p key \<longleftrightarrow> published_version p key \<le> lo_versions s key
     \<and> (case map_of (pu_pending p) key of Some item \<Rightarrow> item = get_live key s | None \<Rightarrow> published_version p key = lo_versions s key)"

definition in_step :: "live_store \<Rightarrow> publisher \<Rightarrow> bool" where
  "in_step s p \<longleftrightarrow> \<not> pu_closed p \<and> distinct (map fst (pu_pending p)) \<and> (\<forall>key. tracked s p key)"

definition tidy :: "live_system \<Rightarrow> bool" where
  "tidy sy \<longleftrightarrow> in_step (sy_store sy) (sy_publisher sy) \<and> sy_reads sy = [] \<and> sy_sends sy = []"

lemma map_of_delete: "map_of (AList.delete k xs) k' = (if k' = k then None else map_of xs k')"
  by (simp add: delete_conv')

lemma map_of_update: "map_of (AList.update k v xs) k' = (if k' = k then Some v else map_of xs k')"
  by (simp add: update_conv')

text \<open>Sending the current item of a node brings the publisher up to date with it.\<close>

lemma emit_current:
  assumes ok: "live_store_ok s" "0 < lo_versions s key" and others: "\<And>k. k \<noteq> key \<Longrightarrow> tracked s p k" and v: "published_version p key \<le> lo_versions s key"
    and rest: "\<not> pu_closed p" "distinct (map fst (pu_pending p))"
    and e: "emit now key (get_live key s) (p\<lparr>pu_pending := AList.delete key (pu_pending p)\<rparr>, es) = (p', es')"
  shows "in_step s p' \<and> pu_pending p' = AList.delete key (pu_pending p)"
proof -
  have g: "li_version (get_live key s) = lo_versions s key" by (rule get_live_version [OF ok(1)])
  have p': "published_version p' k = (if k = key then lo_versions s key else published_version p k) \<and> pu_pending p' = AList.delete key (pu_pending p)
      \<and> \<not> pu_closed p'" for k
    using e v ok(2) rest(1) by (auto simp: emit_def published_version_def g split: option.splits if_split_asm)
  have "tracked s p' k" for k
    using others [of k] p' by (cases "k = key") (simp_all add: tracked_def map_of_delete cong: option.case_cong)
  then show ?thesis using p' rest(2) distinct_delete by (simp add: in_step_def)
qed

lemma publish_current:
  assumes ok: "live_store_ok s'" and c: "changed_at key s s'" "snd key \<noteq> []" and i: "in_step s p"
    and e: "publish_live now key (get_live key s') (p, es) = (p', es')"
  shows "in_step s' p'"
proof -
  have r: "\<not> pu_closed p" "distinct (map fst (pu_pending p))" "\<And>k. tracked s p k" using i by (simp_all add: in_step_def)
  have vs: "lo_versions s' k = (if k = key then Suc (lo_versions s key) else lo_versions s k)" for k using c(1) by (simp add: changed_at_def)
  have o: "tracked s' p k" if "k \<noteq> key" for k
    using r(3) [of k] changed_other [OF c(1) that] that by (simp add: tracked_def vs cong: option.case_cong)
  have v: "published_version p key \<le> lo_versions s' key" using r(3) [of key] by (simp add: tracked_def vs)
  show ?thesis
  proof (cases "pu_published p key = None \<or> py_lower (py_strip (li_event_type (get_live key s'))) \<in> set IMMEDIATE_LIVE_EVENT_TYPES \<or> frame_due now p key")
    case True
    then have s: "emit now key (get_live key s') (p\<lparr>pu_pending := AList.delete key (pu_pending p)\<rparr>, es) = (p', es')"
      using e c(2) r(1) by (simp add: publish_live_def)
    have "0 < lo_versions s' key" by (simp add: vs)
    from emit_current [OF ok this o v r(1,2) s] show ?thesis by simp
  next
    case False
    then have p': "p' = p\<lparr>pu_pending := AList.update key (get_live key s') (pu_pending p)\<rparr>" using e c(2) r(1) by (auto simp: publish_live_def)
    have "tracked s' p' k" for k
      using o [of k] v by (cases "k = key") (simp_all add: tracked_def p' map_of_update published_version_def cong: option.case_cong)
    then show ?thesis using r(1,2) by (simp add: in_step_def p' distinct_update)
  qed
qed

lemma send_all_current:
  assumes ok: "live_store_ok s" "\<forall>x \<in> set due. 0 < lo_versions s (fst x)"
    and "in_step s p" and "distinct (map fst due)" "set due \<subseteq> set (pu_pending p)" and "fold (send_one now) due (p, es) = (p', es')"
  shows "in_step s p' \<and> set (pu_pending p') = {x \<in> set (pu_pending p). fst x \<notin> fst ` set due}"
  using assms(2-)
proof (induction due arbitrary: p es)
  case (Cons x due)
  obtain key item where x: "x = (key, item)" by (cases x)
  have r: "\<not> pu_closed p" "distinct (map fst (pu_pending p))" "\<And>k. tracked s p k" using Cons.prems(2) by (simp_all add: in_step_def)
  have "map_of (pu_pending p) key = Some item" using Cons.prems(4) r(2) x by simp
  then have it: "item = get_live key s" and v: "published_version p key \<le> lo_versions s key" using r(3) [of key] by (simp_all add: tracked_def)
  obtain p1 es1 where one: "emit now key (get_live key s) (p\<lparr>pu_pending := AList.delete key (pu_pending p)\<rparr>, es) = (p1, es1)" by fastforce
  have "0 < lo_versions s key" using Cons.prems(1) x by simp
  from emit_current [OF ok(1) this r(3) v r(1,2) one] have m: "in_step s p1" "pu_pending p1 = AList.delete key (pu_pending p)" by simp_all
  have d: "set (pu_pending p1) = {y \<in> set (pu_pending p). fst y \<noteq> key}" using m(2) by (auto simp: AList.delete_eq)
  have "set due \<subseteq> set (pu_pending p1)" using Cons.prems(3,4) unfolding d by (force simp: x)
  moreover have "fold (send_one now) due (p1, es1) = (p', es')" using Cons.prems(5) one it by (simp add: x send_one_def)
  ultimately have "in_step s p' \<and> set (pu_pending p') = {y \<in> set (pu_pending p1). fst y \<notin> fst ` set due}"
    using Cons.IH [OF _ m(1)] Cons.prems(1,3) by auto
  then show ?case unfolding d by (auto simp: x)
qed simp

lemma send_due_current:
  assumes "faithful H sy" and "in_step (sy_store sy) (sy_publisher sy)" and "send_due now (sy_publisher sy, sy_stream sy) = (p', es')"
  shows "in_step (sy_store sy) p' \<and> set (pu_pending p') = {x \<in> set (pu_pending (sy_publisher sy)). \<not> frame_due now (sy_publisher sy) (fst x)}"
proof -
  let ?p = "sy_publisher sy"
  let ?due = "filter (\<lambda>(key, item). frame_due now ?p key) (pu_pending ?p)"
  have r: "\<not> pu_closed ?p" "distinct (map fst (pu_pending ?p))" using assms(2) by (simp_all add: in_step_def)
  have s: "live_store_ok (sy_store sy)" using assms(1) by (simp add: faithful_def store_told_def Let_def)
  have "\<forall>(k, item) \<in> set (pu_pending ?p). item_ok H (lo_versions (sy_store sy)) k item"
    using assms(1) by (simp add: faithful_def pair_ok_def publisher_ok_def Let_def)
  then have "\<forall>x \<in> set ?due. 0 < lo_versions (sy_store sy) (fst x)" by (auto simp: item_ok_def)
  moreover have "distinct (map fst ?due)" using r(2) by (rule distinct_map_filter)
  moreover have "fold (send_one now) ?due (?p, sy_stream sy) = (p', es')" using assms(3) r(1) by (simp add: send_due_def)
  ultimately have "in_step (sy_store sy) p' \<and> set (pu_pending p') = {x \<in> set (pu_pending ?p). fst x \<notin> fst ` set ?due}"
    by (intro send_all_current [OF s _ assms(2)]) auto
  moreover have "fst x \<in> fst ` set ?due \<longleftrightarrow> frame_due now ?p (fst x)" if "x \<in> set (pu_pending ?p)" for x using that by force
  ultimately show ?thesis by auto
qed

lemma run_faithful: "faithful H sy \<Longrightarrow> \<exists>H'. faithful H' (run_live dots steps sy)"
proof (induction steps arbitrary: H sy)
  case (Cons a steps)
  obtain H' where "faithful H' (live_step dots a sy)" using step_ok [OF Cons.prems] by blast
  from Cons.IH [OF this] show ?case by (simp add: run_live_simps)
qed (auto simp: run_live_simps)

lemma without_nth_one [simp]: "without_nth 0 [x] = []"
  by (simp add: without_nth_def)

lemma tidy_act_ok:
  assumes t: "tidy sy" and f: "faithful H sy"
  shows "tidy (run_live dots (tidy_steps a) sy)"
proof (cases a)
  case (Change now op)
  obtain s told where o: "live_op dots op (sy_store sy) = (s, told)" by fastforce
  have sok: "live_store_ok (sy_store sy)" using f by (simp add: faithful_def store_told_def Let_def)
  note ch = live_op_changes [OF sok o]
  show ?thesis
  proof (cases told)
    case False
    then have "run_live dots (tidy_steps (Change now op)) sy = sy" using o ch t by (simp add: run_live_simps tidy_def)
    then show ?thesis using t Change by simp
  next
    case True
    obtain p' es' where e: "publish_live now (op_node op) (get_live (op_node op) s) (sy_publisher sy, sy_stream sy) = (p', es')" by fastforce
    have r: "run_live dots (tidy_steps (Change now op)) sy = sy\<lparr>sy_store := s, sy_publisher := p', sy_stream := es'\<rparr>"
      using True o e t by (simp add: run_live_simps publishing_def Let_def tidy_def)
    have "in_step s p'" using publish_current [of s "op_node op" "sy_store sy", OF _ _ _ _ e] ch True t by (simp add: tidy_def)
    then show ?thesis using t unfolding Change r by (simp add: tidy_def)
  qed
next
  case (Turn now)
  obtain p' es' where "send_due now (sy_publisher sy, sy_stream sy) = (p', es')" by fastforce
  then show ?thesis using t send_due_current [OF f] by (simp add: Turn run_live_simps publishing_def tidy_def)
qed (use t in \<open>simp add: run_live_simps tidy_def\<close>)

lemma tidy_run_ok: "tidy (run_live dots (concat (map tidy_steps acts)) (start_live interval limit))"
proof (induction acts rule: rev_induct)
  case Nil
  show ?case by (simp add: run_live_simps tidy_def in_step_def tracked_def start_live_def published_version_def)
next
  case (snoc a acts)
  obtain H where "faithful H (start_live interval limit)" using faithful_start by blast
  then obtain H' where "faithful H' (run_live dots (concat (map tidy_steps acts)) (start_live interval limit))" using run_faithful by blast
  from tidy_act_ok [OF snoc this] show ?case by (simp add: run_live_simps)
qed

text \<open>Frames that are true and continue one another bring whoever knows the version before them to the last of them.\<close>

lemma replay_chained:
  assumes "chained v fs" and "\<And>p. p \<in> set fs \<Longrightarrow> frame_ok H V key p"
  shows "replay fs (li_text (H key v), li_thinking (H key v)) = (li_text (H key (last_version v fs)), li_thinking (H key (last_version v fs)))"
  using assms
proof (induction fs arbitrary: v)
  case (Cons p fs)
  then show ?case using Cons.prems(2) [of p] by (auto simp: frame_ok_def)
qed simp

lemma limit_publish_live: "es_history_limit (snd (emit now key item pe)) = es_history_limit (snd pe)"
    "es_history_limit (snd (publish_live now key item pe)) = es_history_limit (snd pe)"
proof -
  show e: "es_history_limit (snd (emit now key item pe)) = es_history_limit (snd pe)" for pe by (cases pe) (simp add: emit_def)
  show "es_history_limit (snd (publish_live now key item pe)) = es_history_limit (snd pe)" by (cases pe) (simp add: publish_live_def e)
qed

lemma limit_send_due: "es_history_limit (snd (send_due now pe)) = es_history_limit (snd pe)"
proof -
  have "es_history_limit (snd (fold (send_one now) due pe)) = es_history_limit (snd pe)" for due pe
    by (induction due arbitrary: pe) (simp_all add: send_one_def split_beta limit_publish_live)
  then show ?thesis by (cases pe) (simp add: send_due_def)
qed

lemma limit_run: "es_history_limit (sy_stream (run_live dots steps sy)) = es_history_limit (sy_stream sy)"
proof (induction steps arbitrary: sy)
  case (Cons a steps)
  have "es_history_limit (sy_stream (live_step dots a sy)) = es_history_limit (sy_stream sy)"
    using limit_publish_live(2) limit_send_due
    by (cases a) (auto simp: publishing_def Let_def split_beta)
  then show ?case using Cons by (simp add: run_live_simps)
qed (simp add: run_live_simps)

text \<open>C3. The frames bring the current output: as long as a change is told before the next one, one turn of the publisher when all that
  waits is due leaves the last frame of a node with the version of the store. Whoever knows what the node showed in the version of a
  frame that the stream holds, and applies the frames after it, then has the text and the thinking of the store; and as long as the
  stream has dropped nothing, so has who starts from nothing and applies all frames.\<close>

theorem frames_bring_current:
  assumes "steps = concat (map tidy_steps acts)" and "sys = run_states dots steps (start_live interval limit)" and "sy = last sys"
    and due: "\<forall>(k, item) \<in> set (pu_pending (sy_publisher sy)). frame_due now (sy_publisher sy) k"
    and es: "es = sy_stream (live_step dots (SendDue now) sy)" and fs: "fs = held_frames key es"
  shows "(fs \<noteq> [] \<longrightarrow> lp_version (last fs) = lo_versions (sy_store sy) key)
    \<and> (\<forall>j < length fs. \<forall>x \<in> set sys. lo_versions (sy_store x) key = lp_version (fs ! j)
         \<longrightarrow> replay (drop (Suc j) fs) (shown key (sy_store x)) = shown key (sy_store sy))
    \<and> (es_global es \<le> max 1 limit \<longrightarrow> replay fs ([], []) = shown key (sy_store sy))"
proof -
  have sy: "sy = run_live dots steps (start_live interval limit)" using assms(2,3) by (simp add: run_states_last)
  obtain H where h: "history_of H sys" using run_history assms(2) by blast
  then have f: "faithful H sy" and told: "\<And>x. x \<in> set sys \<Longrightarrow> H key (lo_versions (sy_store x) key) = get_live key (sy_store x)"
    unfolding history_of_def assms(3) [symmetric] by blast+
  let ?sy' = "live_step dots (SendDue now) sy" and ?V = "lo_versions (sy_store sy)"
  have t: "tidy sy" unfolding sy assms(1) by (rule tidy_run_ok)
  obtain p' where s: "send_due now (sy_publisher sy, sy_stream sy) = (p', es)" using es by (simp add: publishing_def split: prod.splits)
  have st: "in_step (sy_store sy) p'" "pu_pending p' = []"
    using send_due_current [OF f _ s] t due by (auto simp: tidy_def simp flip: set_empty)
  then have v: "published_version p' key = ?V key" by (simp add: in_step_def tracked_def)
  have f': "faithful H ?sy'" by (rule other_step_ok [OF f]) simp
  have sy': "sy_publisher ?sy' = p'" "sy_store ?sy' = sy_store sy" using s by (simp_all add: publishing_def)
  have ok: "sent_ok p' es" "\<And>p. p \<in> set fs \<Longrightarrow> frame_ok H ?V key p" using faithful_held(1) [OF f'] faithful_held(2) [OF f', where key = key] unfolding sy' es [symmetric] fs by simp_all
  have lim: "es_history_limit es = max 1 limit"
    using limit_run [of dots "steps @ [SendDue now]" "start_live interval limit"] by (simp add: es sy run_live_simps) (simp add: start_live_def new_event_stream_def)
  obtain v0 where v0: "chained v0 fs" "last_version v0 fs = ?V key" "es_global es \<le> max 1 limit \<Longrightarrow> v0 = 0"
    using held_chained [OF ok(1), of key] v unfolding fs lim by metis
  have now: "(li_text (H key (?V key)), li_thinking (H key (?V key))) = shown key (sy_store sy)"
    using f by (simp add: faithful_def store_told_def shown_def Let_def)
  have "replay (drop (Suc j) fs) (shown key (sy_store x)) = shown key (sy_store sy)"
    if j: "j < length fs" "x \<in> set sys" "lo_versions (sy_store x) key = lp_version (fs ! j)" for j x
  proof -
    have "last_version (lp_version (fs ! j)) (drop (Suc j) fs) = ?V key"
      using v0(2) j(1) id_take_nth_drop [OF j(1)] by (metis last_version.simps(2) last_version_append)
    moreover have "shown key (sy_store x) = (li_text (H key (lp_version (fs ! j))), li_thinking (H key (lp_version (fs ! j))))"
      using told [OF j(2)] j(3) by (simp add: shown_def)
    ultimately show ?thesis using replay_chained [OF chained_drop [OF v0(1) j(1)] ok(2)] now by (metis in_set_dropD)
  qed
  moreover have "replay fs ([], []) = shown key (sy_store sy)" if "es_global es \<le> max 1 limit"
  proof -
    have "H key 0 = no_item 0" using f by (simp add: faithful_def store_told_def Let_def)
    then show ?thesis using replay_chained [OF v0(1) ok(2)] v0(2) v0(3) [OF that] now by (simp add: no_item_def)
  qed
  ultimately show ?thesis using v0(2) last_version_last by metis
qed

section \<open>Concrete runs\<close>

definition sample_node :: node_key where
  "sample_node = (''g'', ''n'')"

text \<open>The node writes \<open>a\<close> and \<open>ab\<close>, and an activity in between falls into the interval of the publisher.\<close>

definition sample_text :: "rat \<Rightarrow> string \<Rightarrow> string \<Rightarrow> live_call" where
  "sample_text now text delta = UpdateText now sample_node text ''t'' delta"

definition sample_activity :: live_call where
  "sample_activity = UpdateActivity 0 sample_node [(''id'', PStr ''b''), (''type'', PStr ''tool'')] ''t'' []"

definition sample_acts :: "tidy_act list" where
  "sample_acts = [Change 1 (sample_text 1 ''a'' ''a''), Change 1 sample_activity, Change 1 (sample_text 1 ''ab'' ''b'')]"

definition sample_steps :: "live_act list" where
  "sample_steps = concat (map tidy_steps sample_acts)"

definition sample_system :: live_system where
  "sample_system = run_live ''..'' sample_steps (start_live 1 256)"

definition sample_stream_after :: "app_event event_stream" where
  "sample_stream_after = sy_stream (live_step ''..'' (SendDue 2) sample_system)"

lemma frame_due_code [code]: "frame_due now p key = (let t = pu_published_at p key + pu_interval p; i = \<lfloor>t\<rfloor> in
    if of_int i = t \<and> \<bar>i\<bar> \<le> 9007199254740992 then t \<le> now else (case round_double t of Fin t \<Rightarrow> t \<le> now | _ \<Rightarrow> False))"
  using round_double_int [of "\<lfloor>pu_published_at p key + pu_interval p\<rfloor>"] by (auto simp: frame_due_def Let_def)

lemma sample_system_run: "list_all (\<lambda>(key, item). frame_due 2 (sy_publisher sample_system) key) (pu_pending (sy_publisher sample_system))
    \<and> es_global sample_stream_after = 2 \<and> shown sample_node (sy_store sample_system) = (''ab'', [])
    \<and> map lp_version (held_frames sample_node sample_stream_after) = [1, 3] \<and> map lp_snapshot (held_frames sample_node sample_stream_after) = [True, False]
    \<and> map lp_live_message (held_frames sample_node sample_stream_after) = [''a'', []] \<and> pu_pending (sy_publisher sample_system) \<noteq> []"
  by code_simp

theorem frames_bring_current_witness:
  "replay (held_frames sample_node sample_stream_after) ([], []) = (''ab'', []) \<and> length (held_frames sample_node sample_stream_after) = 2
    \<and> lp_version (last (held_frames sample_node sample_stream_after)) = lo_versions (sy_store sample_system) sample_node"
proof -
  note r = sample_system_run
  have l: "length (held_frames sample_node sample_stream_after) = 2" using r by (metis length_map list.size(3,4) One_nat_def Suc_1 add.right_neutral add_Suc_right)
  have s: "sample_system = last (run_states ''..'' sample_steps (start_live 1 256))" by (simp add: sample_system_def run_states_last)
  have d: "\<forall>(k, item) \<in> set (pu_pending (sy_publisher sample_system)). frame_due 2 (sy_publisher sample_system) k"
    using r unfolding list_all_iff by blast
  from frames_bring_current [OF sample_steps_def refl s d sample_stream_after_def refl, of sample_node]
  show ?thesis using r l by auto
qed

theorem frames_tell_what_was_shown_witness:
  "\<exists>x \<in> set (run_states ''..'' (sample_steps @ [SendDue 2]) (start_live 1 256)). lo_versions (sy_store x) sample_node = 1
    \<and> shown sample_node (sy_store x) = (''a'', [])"
proof -
  let ?fs = "held_frames sample_node sample_stream_after"
  have e: "sample_stream_after = sy_stream (run_live ''..'' (sample_steps @ [SendDue 2]) (start_live 1 256))"
    by (simp add: sample_stream_after_def sample_system_def run_live_simps)
  note t = frames_tell_what_was_shown [OF refl refl, of sample_node "''..''" "sample_steps @ [SendDue 2]" 1 256, folded e]
  have m: "map lp_thinking_message ?fs = [[], []]" by code_simp
  obtain p q where fs: "?fs = [p, q]" "lp_version p = 1" "lp_snapshot p" "lp_live_message p = ''a''" "lp_thinking_message p = []"
    using sample_system_run m by (auto simp: map_eq_Cons_conv)
  then have "p \<in> set ?fs" by simp
  with t obtain x where "x \<in> set (run_states ''..'' (sample_steps @ [SendDue 2]) (start_live 1 256))" "lo_versions (sy_store x) sample_node = lp_version p"
      "if lp_snapshot p then shown sample_node (sy_store x) = (lp_live_message p, lp_thinking_message p) else True"
    by (metis (no_types, lifting))
  then show ?thesis using fs by auto
qed

text \<open>The publisher sends the activities of a frame only when the last change of the frame was one of them: the frame with the version of
  the store does not tell the activity, and no other frame does.\<close>

lemma coalesced_activity_lost:
  "map lp_activity_blocks (held_frames sample_node sample_stream_after) = [Some [], None]
    \<and> map lp_version (held_frames sample_node sample_stream_after) = [1, lo_versions (sy_store sample_system) sample_node]
    \<and> length (li_activity_blocks (get_live sample_node (sy_store sample_system))) = 1
    \<and> pu_pending (sy_publisher (live_step ''..'' (SendDue 2) sample_system)) = []"
  by code_simp

text \<open>A notification that comes late replaces a newer one that waits: when all is quiet and nothing waits, the last change of the node was
  never sent.\<close>

definition late_steps :: "live_act list" where
  "late_steps = [Write (sample_text 1 ''a'' ''a''), Read 0, Send 1 0,
     Write (sample_text 1 ''ab'' ''b''), Read 0, Write (sample_text 1 ''abc'' ''c''), Read 0, Send 1 1, Send 1 0, SendDue 3]"

lemma late_notification_lost:
  "let sy = run_live ''..'' late_steps (start_live 1 256) in
    sy_reads sy = [] \<and> sy_sends sy = [] \<and> pu_pending (sy_publisher sy) = []
    \<and> replay (held_frames sample_node (sy_stream sy)) ([], []) = (''ab'', []) \<and> shown sample_node (sy_store sy) = (''abc'', [])"
  by code_simp

end
