(* ===== verification/Spec2Isabelle.thy ===== *)
theory Spec2Isabelle
  imports OutputRoutes QueueLaws GroupLaws DirectionLaws GridLaws CronExecution CronContract RunnerLaws PressureLaws InteractionLaws DispatchLaws AccessLaws TransactionLaws
    EventLaws RequestLaws SearchLaws LiveLaws
begin

text \<open>
  AgentPark runs graphs of agent nodes. A backend process keeps for every node a configuration on disk
  and a runtime state in memory, hands work to nodes through their queues, and lets nodes work together
  in groups. This library models the parts that keep state and decide, and shows what they guarantee.
  Calls of model providers, tools and the user interface are outside.

  \<^bold>\<open>The parts and how they interact.\<close> A message reaches a node as a pending item
  (\<open>web_backend/node_config_store.py\<close>), stored in the runtime store
  (\<open>web_backend/runtime_state_memory_store.py\<close>), which every operation reads and replaces under the
  lock of the node. Where results go is the routing document of the graph
  (\<open>web_backend/graph_output_routes.py\<close>). Groups (\<open>agent_groups/\<close>) keep members, a board of tasks
  and a log of events with deliveries in one database; deliveries become pending items again. Scheduled
  jobs (\<open>cron/\<close>) create runs that are delivered to the same queues. A task direction
  (\<open>task_direction_*.py\<close>) is the contract an agent works under. New nodes get a place on the board
  (\<open>web_backend/graph_grid_layout.py\<close>). Configuration files are written through a queue per path
  (\<open>file_transaction.py\<close>). Who may change settings is the access policy (\<open>access_policy.py\<close>).

  \<^bold>\<open>Theories.\<close>
  \<^item> \<open>Prelude\<close>: results as sums, dictionaries as association lists, the locales \<open>py_map\<close> (a
    dictionary by its laws) and \<open>transactional\<close> (commands that commit or are rolled back; an invariant
    kept by every commit is kept by every sequence).
  \<^item> \<open>PyText\<close>, \<open>PyValue\<close>: the Python operations the code uses, as HOL functions: stripping and
    folding of text, decimal and float literals, doubles with round to nearest even as rationals, values
    of JSON, truth, \<open>str\<close>, \<open>int\<close>, \<open>float\<close> and equality.
  \<^item> \<open>OutputRoutes\<close>: \<open>graph_output_routes.py\<close> and the port parsers of \<open>route_parser.py\<close>.
    Validation, the table of outgoing links, pruning and renaming, each against the wiring that a
    document encodes.
  \<^item> \<open>NodeState\<close>, \<open>RuntimeStore\<close>, \<open>NodeQueue\<close>: states and recovery plans
    (\<open>node_state_machine.py\<close>), the event counter, the runtime store, and every queue operation of
    \<open>node_config_store.py\<close> and \<open>node_output_hold_store.py\<close> as a function on the payload of a node,
    applied under the node's lock. \<open>QueueLaws\<close> relates them to an abstract queue machine: every
    operation refines it, keyed appends happen once, work is never lost, deletion is final, the event
    counter shows every change.
  \<^item> \<open>GroupModel\<close>, \<open>GroupTasks\<close>, \<open>GroupMembers\<close>, \<open>GroupLog\<close>: the contracts and the
    tables of \<open>agent_groups/\<close>, task validation with the walk of the dependencies, membership with
    leaving, deletion and restoring, messages, deliveries, renaming of nodes and paged views.
    \<open>GroupLaws\<close>: one group per node, legal boards, an append-only history, messages published once,
    stale updates refused, paging that is complete.
  \<^item> \<open>TaskDirection\<close>, \<open>DirectionStore\<close>, \<open>DirectionLaws\<close>: the contract of a direction with
    its text form, updates, completion and the file; round trip, exact steps, finality.
  \<^item> \<open>GridLayout\<close>, \<open>GridLaws\<close>: positions and sizes, the search for a free place with its
    termination, that it finds the nearest one, and that nodes do not overlap.
  \<^item> \<open>CronModel\<close>, \<open>CronLaws\<close>: schedules, deadlines and the transactions of
    \<open>cron/repository.py\<close> and \<open>cron/node_lifecycle.py\<close>; single flight, no due job left behind, exact
    intervals, roles that stick. \<open>CronContract\<close>: the validators of \<open>cron/schedule.py\<close> and the calls of
    \<open>cron/tools.py\<close>; what is stored meets the contract of the inputs. \<open>CronDelivery\<close>: entering items (\<open>web_backend/node_instance_queue.py\<close>)
    and the poll of a graph (\<open>web_backend/cron_service.py\<close>) on top of the queue; pending runs are queued,
    once however often they are delivered. \<open>CronExecution\<close>: the wrapper of an execution
    (\<open>web_backend/cron_execution.py\<close>); an item runs at most once per recovery and its run is settled.
  \<^item> \<open>NodeConfig\<close>, \<open>ConfigLaws\<close>, \<open>RequestTracking\<close>: the configuration service
    (\<open>web_backend/node_config_service.py\<close>), which splits a configuration into a file and the runtime store,
    and the completed requests kept in it (\<open>web_backend/node_request_tracking.py\<close>); reading gives what
    was written, an update keeps the queues unless a message arrives while it is under way.
  \<^item> \<open>GraphRunner\<close>, \<open>RunnerLaws\<close>: the scheduler of a graph
    (\<open>web_backend/graph_runner_runtime.py\<close>, \<open>web_backend/graph_runner_state.py\<close>) as a machine whose steps
    interleave with tasks that end and with calls of other threads on the queues, and the entry of the graph
    with the runners it had, which are created, replaced and removed; no runner executes a node twice at a
    time, two runners do only when the earlier one was replaced while its task ran, a batch that nothing
    interrupts starts every node that may start, and an item can be stranded when its trace is that of a task
    that has just ended.
  \<^item> \<open>Rounding\<close>, \<open>ProviderPressure\<close>, \<open>PressureLaws\<close>: admission of requests to a provider
    (\<open>providers/provider_pressure.py\<close>, \<open>providers/provider_token_window.py\<close>) with its callers as threads; the window
    counts the tokens of the last minute, a request is admitted exactly when it is first and all limits allow it,
    limits on concurrency hold in every interleaving, and every queue drains in order. Instants are doubles below two
    to the fiftieth.
  \<^item> \<open>UserInteraction\<close>, \<open>InteractionLaws\<close>: forms, answers and the requests on disk
    (\<open>user_interaction_schema.py\<close>, \<open>user_interaction_store.py\<close>); an answer is accepted exactly when it answers its
    form, a normalised form is normal, and a settled request is final.
  \<^item> \<open>MessageProtocol\<close>, \<open>MessageLaws\<close>: the parts of a message, its envelope, its typed object and its text
    (\<open>message_protocol.py\<close>, \<open>message_resources.py\<close>); an envelope is normal after one normalisation and survives
    the way through the typed object.
  \<^item> \<open>GraphStore\<close>, \<open>MessageDispatch\<close>, \<open>DispatchLaws\<close>: where nodes are kept
    (\<open>web_backend/graph_runtime_registry.py\<close>, \<open>web_backend/graph_node_store.py\<close>) and the way of an output to the
    queues of other nodes (\<open>web_backend/graph_message_dispatch.py\<close>, the end of \<open>web_backend/graph_node_execution.py\<close>,
    \<open>web_backend/route_parser.py\<close>, \<open>set_node_instance_state\<close> of \<open>web_backend/node_instance_runtime.py\<close>).
    The tasks of an output are the wires of the graph, each queue gets its items whatever the order of the threads, and
    what a paused node holds back is sent when it goes on. The directories are an argument of the model.
  \<^item> \<open>JsonText\<close>: JSON texts as \<open>json.dumps\<close> writes and \<open>json.loads\<close> reads them; values without fractions are
    read back as they were written.
  \<^item> \<open>RuntimeEvents\<close>, \<open>EventLaws\<close>, \<open>RequestLaws\<close>: what a node shows of its run
    (\<open>web_backend/runtime_event_store.py\<close>, \<open>web_backend/node_diagnostics_projection.py\<close>, \<open>set_runtime_event\<close> of
    \<open>web_backend/node_config_store.py\<close>) and the requests an agent counts and announces
    (\<open>providers/provider_request_usage.py\<close>, \<open>base_agent.py\<close>). Histories are bounded, the end of a tool call is shown as it
    was told, a restart loses nothing, and the agent's totals are those the node reads out of the notices.
  \<^item> \<open>ToolTurns\<close>, \<open>ToolLaws\<close>, \<open>SearchLaws\<close>: a turn of tool calls
    (\<open>tool/tool_call_protocol.py\<close>, \<open>tool_turn_admission.py\<close>, \<open>tool_context_compaction_admission.py\<close>,
    \<open>providers/tool_loop_guard.py\<close>, \<open>providers/tool_call_execution.py\<close>, \<open>providers/tool_call_runtime.py\<close> and the workers
    of \<open>base_agent.py\<close>). Every call gets one answer in its place, at a checkpoint only the compaction of the context
    runs, a search is blocked exactly when it repeats a recent one, and a call survives the way back to the model.
  \<^item> \<open>LiveOutput\<close>, \<open>StreamLaws\<close>, \<open>LiveLaws\<close>: what a node shows while it works
    (\<open>web_backend/node_live_output.py\<close>), its publisher (\<open>web_backend/node_live_event_publisher.py\<close>) and the stream
    of events (\<open>web_backend/graph_event_stream.py\<close>), with the steps of all threads interleaved. The stream loses
    nothing silently, every frame tells what the node showed and continues the one before, and the frames bring
    the current output when changes are told in order.
  \<^item> \<open>AccessPolicy\<close>, \<open>AccessLaws\<close>: the policy file with validation and merging, registration,
    and the requests of \<open>web_backend/access_api.py\<close>; round trip, and that outsiders change no rights.
  \<^item> \<open>TransactionQueue\<close>, \<open>TransactionLaws\<close>: \<open>KeyedTransactionQueue\<close> as threads that
    interleave; serialisation and order in every interleaving, finite executions, and that calls return.

  \<^bold>\<open>State and errors.\<close> A class with fields is a record, an exception is the left of a sum, a
  lock or a database transaction makes an operation one step. A dictionary that is only looked up is an
  association list in insertion order, because the order is visible in the documents. Time stamps and
  generated identifiers are arguments; where they must be new the theorems say so. The package croniter
  is an argument of the cron model with two named hypotheses: the next match is later, and there is one. The
  zones that \<open>ZoneInfo\<close> knows and what \<open>datetime.fromisoformat\<close> reads depend on the host and are arguments
  of the validators, without a hypothesis.

  \<^bold>\<open>Bounds and fuel.\<close> Strings are over the code points below 256, where the text operations are
  exact. The dependency walk has fuel one more than the number of tasks; \<open>dependency_walk_exact\<close>
  shows that it is never used up, so the recursion of the code ends too, unless a chain of dependencies is as
  long as the recursion limit of Python, which the model does not have. The searches of \<open>GridLayout\<close>
  and the splitting of words in \<open>CronModel\<close> have termination proofs instead. Exact intervals are shown
  for clocks until January 2038, where doubles have the resolution of two to the minus 22 seconds.

  \<^bold>\<open>What the model shows to be wrong.\<close> \<open>mid_turn_sender_unchecked\<close>: the sender of a mid-turn
  input is never compared. \<open>restore_skips_dependencies\<close>: restoring a member can put a task in progress
  whose dependency is open. \<open>rename_breaks_pending_notification\<close>: renaming a node makes its pending
  task notifications fail. \<open>padded_id_key_error\<close>: an id with blanks passes the checks and then raises a
  key error. \<open>repair_reserves_default_size\<close>: migrated nodes can overlap. \<open>nested_calls_deadlock\<close>:
  nested calls of the transaction queue with two keys can block for ever. \<open>config_update_drops_message\<close>:
  a message that arrives during an update of the configuration is lost. \<open>webui_revives_deleted_node\<close>:
  the interface may clear the mark of a node that is being deleted. \<open>repeated_trace_strands_item\<close>: the
  scheduler can take an item from a queue without ever starting it. \<open>replaced_runner_overlaps\<close>: a runner that is
  replaced while a task of it runs does not keep its successor from starting the same node. \<open>resume_drops_outputs\<close>: releasing held
  outputs loses them all when a target is being deleted. \<open>paused_output_raises\<close>: a run that ends on a paused node
  fails on a missing attribute. \<open>unnamed_node_resolves_elsewhere\<close>: a node without a name in its configuration is taken
  for the node called node. \<open>infinite_index_raises\<close>: a provider notice with an infinite number loses the whole event.
  \<open>bad_globs_abort_turn\<close>: a search with ill-typed globs leaves every call of its turn without an answer.
  \<open>coalesced_activity_lost\<close>: no frame tells a change of the activities just before one of the text.
  \<open>late_notification_lost\<close>: of two notifications in the wrong order the newer one can be lost, and nothing waits any more.

  \<^bold>\<open>Not modelled.\<close> Inside a task the run of the node logic with its goals is not modelled, nor are the
  conversation files of node memory, the rules that react to runtime events, the sink that turns events of a run
  into live output and logs, and the runs of providers around a turn of tool calls. Providers, tools that run
  programs, the peer network, knowledge search and the user interface depend on code and services outside the
  repository. Reading and writing of files, locks between processes, schema migrations and the text of messages
  are taken as given; in particular a configuration that cannot be read is not a case of the queue operations,
  which get the type of a node as an argument, and starting or waking a runner and writing the log do not fail
  when a run ends. What a browser makes of the frames of the live output, with its own requests and their
  failures, is the state of the user interface and not modelled.
\<close>

end
